(* ===== verification/Prelude.thy ===== *)
theory Prelude
  imports Main "HOL-Library.Word"
begin

text \<open>
  Shared vocabulary of the development: the machine integer types of the Rust
  sources, the standard library's saturating and checked arithmetic on them,
  slices of byte vectors, and the generic facts about words and lists that the
  component theories use.  \<^verbatim>\<open>usize\<close> is 64 bits wide, as on every target the
  workspace is built for, so \<^verbatim>\<open>usize::try_from(u64)\<close> never fails and an index
  is the \<open>unat\<close> of a 64-bit word.
\<close>

unbundle bit_operations_syntax

section \<open>Machine integers\<close>

type_synonym u8 = "8 word"
type_synonym u16 = "16 word"
type_synonym u32 = "32 word"
type_synonym u64 = "64 word"
type_synonym bytes = "u8 list"

named_theorems u64_arith \<open>arithmetic of the machine integers, read as natural numbers\<close>

text \<open>\<^verbatim>\<open>a.saturating_add(b)\<close>, \<^verbatim>\<open>a.saturating_sub(b)\<close>, \<^verbatim>\<open>a.saturating_mul(b)\<close> and \<^verbatim>\<open>a.checked_add(b)\<close>.\<close>

definition sat_add :: "'a::len word \<Rightarrow> 'a word \<Rightarrow> 'a word" where
  "sat_add a b = (if a + b < a then - 1 else a + b)"

definition sat_sub :: "'a::len word \<Rightarrow> 'a word \<Rightarrow> 'a word" where
  "sat_sub a b = (if b \<le> a then a - b else 0)"

definition sat_mul :: "'a::len word \<Rightarrow> 'a word \<Rightarrow> 'a word" where
  "sat_mul a b = (if unat a * unat b < 2 ^ LENGTH('a) then a * b else - 1)"

definition checked_add :: "'a::len word \<Rightarrow> 'a word \<Rightarrow> 'a word option" where
  "checked_add a b = (if a + b < a then None else Some (a + b))"

text \<open>\<^verbatim>\<open>xs.len() as u64\<close>.\<close>

definition vec_len :: "'a list \<Rightarrow> u64" where
  "vec_len xs = word_of_nat (length xs)"

text \<open>\<^verbatim>\<open>xs.get(a..b)\<close>: \<open>None\<close> where the range does not lie inside the vector; \<^verbatim>\<open>&xs[a..b]\<close> panics there.\<close>

definition slice_get :: "'a list \<Rightarrow> nat \<Rightarrow> nat \<Rightarrow> 'a list option" where
  "slice_get xs a b = (if a \<le> b \<and> b \<le> length xs then Some (take (b - a) (drop a xs)) else None)"

lemma word_add_wraps_iff:
  fixes a b :: "'a::len word"
  shows "a + b < a \<longleftrightarrow> 2 ^ LENGTH('a) \<le> unat a + unat b"
proof (cases "unat a + unat b < 2 ^ LENGTH('a)")
  case True
  then have "unat (a + b) = unat a + unat b" by (simp add: unat_add_lem)
  with True show ?thesis by (simp add: word_less_nat_alt)
next
  case False
  then have "unat (a + b) = unat a + unat b - 2 ^ LENGTH('a)"
    using unat_plus_if_size [of a b] by (simp add: word_size)
  moreover have "unat b < 2 ^ LENGTH('a)" by (rule unsigned_less)
  ultimately have "unat (a + b) < unat a" using False by linarith
  with False show ?thesis by (simp add: word_less_nat_alt)
qed

lemma unat_word_max: "unat (- 1 :: 'a::len word) = 2 ^ LENGTH('a) - 1"
  by (simp add: unsigned_minus_1_eq_mask mask_eq_exp_minus_1)

lemma unat_sat_add [u64_arith]:
  "unat (sat_add a b) = min (unat a + unat b) (2 ^ LENGTH('a) - 1)" for a b :: "'a::len word"
proof (cases "unat a + unat b < 2 ^ LENGTH('a)")
  case True
  then have "unat (a + b) = unat a + unat b" by (simp add: unat_add_lem)
  with True show ?thesis by (simp add: sat_add_def word_add_wraps_iff)
next
  case False
  then have "min (unat a + unat b) (2 ^ LENGTH('a) - 1) = 2 ^ LENGTH('a) - 1"
    by (intro min_absorb2) linarith
  with False show ?thesis by (simp add: sat_add_def word_add_wraps_iff unat_word_max)
qed

lemma unat_sat_sub [u64_arith]: "unat (sat_sub a b) = unat a - unat b"
  by (simp add: sat_sub_def unat_sub word_le_nat_alt)

lemma checked_add_Some_iff:
  "checked_add a b = Some c \<longleftrightarrow> unat a + unat b < 2 ^ LENGTH('a) \<and> c = a + b"
  for a b :: "'a::len word"
  by (auto simp: checked_add_def word_add_wraps_iff)

lemma checked_add_SomeD:
  "checked_add a b = Some c \<Longrightarrow> unat c = unat a + unat b" for a b :: "'a::len word"
  by (simp add: checked_add_Some_iff unat_add_lem)

lemma checked_add_None_iff:
  "checked_add a b = None \<longleftrightarrow> 2 ^ LENGTH('a) \<le> unat a + unat b" for a b :: "'a::len word"
  by (simp add: checked_add_def word_add_wraps_iff)

lemma unat_add_exact:
  "unat a + unat b < 2 ^ LENGTH('a) \<Longrightarrow> unat (a + b) = unat a + unat b" for a b :: "'a::len word"
  by (simp add: unat_add_lem)

lemma unat_sub_exact: "b \<le> a \<Longrightarrow> unat (a - b) = unat a - unat b" for a b :: "'a::len word"
  by (simp add: unat_sub)

lemma unat_min [u64_arith]: "unat (min a b) = min (unat a) (unat b)"
  by (simp add: min_def word_le_nat_alt)

lemma unat_max [u64_arith]: "unat (max a b) = max (unat a) (unat b)"
  by (simp add: max_def word_le_nat_alt)

lemma unat_vec_len: "length xs < 2 ^ 64 \<Longrightarrow> unat (vec_len xs) = length xs"
  by (simp add: vec_len_def unat_of_nat take_bit_eq_mod)

lemma unat_lt_2_64 [simp]: "unat (a :: u64) < 18446744073709551616"
  using unsigned_less [of a] by simp

lemma unat_le_max: "unat (a :: u64) \<le> 18446744073709551615"
  using unat_lt_2_64 [of a] by linarith

lemma le_unat_less_2_64: "n \<le> unat (a :: u64) \<Longrightarrow> n < 2 ^ 64"
proof -
  assume "n \<le> unat a"
  also have "\<dots> < 2 ^ 64" by simp
  finally show ?thesis .
qed

lemmas [u64_arith] = word_le_nat_alt word_less_nat_alt

section \<open>Slices\<close>

lemma slice_get_Some_iff:
  "slice_get xs a b = Some ys \<longleftrightarrow> a \<le> b \<and> b \<le> length xs \<and> ys = take (b - a) (drop a xs)"
  by (auto simp: slice_get_def)

lemma slice_get_prefix [simp]:
  "slice_get (pre @ xs @ suf) (length pre) (length pre + length xs) = Some xs"
  by (simp add: slice_get_def)

section \<open>Words as octets\<close>

text \<open>\<^verbatim>\<open>u64::to_be_bytes\<close> and \<^verbatim>\<open>u64::from_be_bytes\<close>.\<close>

definition to_be_bytes :: "u64 \<Rightarrow> bytes" where
  "to_be_bytes n = map (\<lambda>i. ucast (drop_bit (8 * (7 - i)) n)) [0..<8]"

definition from_be_bytes :: "bytes \<Rightarrow> u64" where
  "from_be_bytes bs = foldl (\<lambda>n b. push_bit 8 n OR ucast b) 0 bs"

text \<open>Reading one more octet.\<close>

lemma read_octet:
  fixes n :: u64
  shows "push_bit 8 (drop_bit (j + 8) n) OR ucast (ucast (drop_bit j n) :: u8) = drop_bit j n"
proof (rule bit_word_eqI)
  fix m
  assume "m < LENGTH(64)"
  then show "bit (push_bit 8 (drop_bit (j + 8) n) OR ucast (ucast (drop_bit j n) :: u8)) m = bit (drop_bit j n) m"
    by (cases "m < 8") (auto simp: bit_simps)
qed

lemma read_octets:
  "k \<le> 8 \<Longrightarrow> foldl (\<lambda>n b. push_bit 8 n OR ucast b) 0 (map (\<lambda>i. ucast (drop_bit (8 * (7 - i)) n) :: u8) [0..<k])
    = drop_bit (8 * (8 - k)) (n :: u64)"
proof (induction k)
  case 0
  have "drop_bit 64 n = 0" by (rule bit_word_eqI) (auto simp: bit_simps dest: bit_imp_le_length)
  then show ?case by simp
next
  case (Suc k)
  have "8 * (8 - k) = 8 * (7 - k) + 8" using Suc.prems by simp
  with Suc show ?case using read_octet [of "8 * (7 - k)" n] by simp
qed

lemma length_to_be_bytes [simp]: "length (to_be_bytes n) = 8"
  by (simp add: to_be_bytes_def)

lemma from_be_bytes_to_be_bytes: "from_be_bytes (to_be_bytes n) = n"
  using read_octets [of 8 n] by (simp add: from_be_bytes_def to_be_bytes_def)

section \<open>Results\<close>

text \<open>A fallible Rust function returns \<^verbatim>\<open>Result<T, E>\<close>: \<open>Inl e\<close> is \<^verbatim>\<open>Err(e)\<close>, \<open>Inr x\<close> is \<^verbatim>\<open>Ok(x)\<close>;
  \<open>and_then r f\<close> is the \<^verbatim>\<open>?\<close> operator followed by \<open>f\<close>.\<close>

fun and_then :: "'e + 'a \<Rightarrow> ('a \<Rightarrow> 'e + 'b) \<Rightarrow> 'e + 'b" where
  "and_then (Inl e) f = Inl e"
| "and_then (Inr x) f = f x"

lemma and_then_Inr_iff: "and_then r f = Inr y \<longleftrightarrow> (\<exists>x. r = Inr x \<and> f x = Inr y)"
  by (cases r) auto

lemma and_then_cong [fundef_cong]:
  "r = r' \<Longrightarrow> (\<And>x. r' = Inr x \<Longrightarrow> f x = f' x) \<Longrightarrow> and_then r f = and_then r' f'"
  by (cases r') auto

end
