(* ===== verification/Sdnv.thy ===== *)
theory Sdnv
  imports Prelude
begin

text \<open>
  The SDNV codec (\<^verbatim>\<open>ltp/src/sdnv.rs\<close>): big-endian base-128 numbers whose octets
  carry a continuation bit.  \<open>encoded_len\<close>, \<open>encode_to_array\<close>, \<open>encode\<close> and
  \<open>decode\<close> are the source's functions; the lemmas give the number of octets, that
  decoding any buffer that starts with an encoding gives the value back, that a decoded
  value never reads past ten octets or the input, and which inputs are refused.
\<close>

section \<open>Definitions\<close>

definition MAX_LEN :: nat where
  "MAX_LEN = 10"

datatype sdnv_error = Truncated | Overflow

text \<open>The number of significant bits of a number; \<^verbatim>\<open>v.leading_zeros()\<close> is what is left of the 64.\<close>

fun bit_len :: "nat \<Rightarrow> nat" where
  "bit_len n = (if n = 0 then 0 else Suc (bit_len (n div 2)))"

declare bit_len.simps [simp del]

definition leading_zeros :: "u64 \<Rightarrow> nat" where
  "leading_zeros v = 64 - bit_len (unat v)"

definition encoded_len :: "u64 \<Rightarrow> nat" where
  "encoded_len v = (let bits = 64 - leading_zeros (v OR 1) in (bits + 6) div 7)"

definition sdnv_octet :: "u64 \<Rightarrow> nat \<Rightarrow> nat \<Rightarrow> u8" where
  "sdnv_octet v n i =
     (let shift = 7 * (n - 1 - i);
          grp = ucast (drop_bit shift v AND 0x7F) :: u8;
          cont = (if i + 1 = n then 0x00 else 0x80)
      in cont OR grp)"

definition encode_to_array :: "u64 \<Rightarrow> bytes \<times> nat" where
  "encode_to_array v =
     (if v < 0x80 then (ucast v # replicate (MAX_LEN - 1) 0, 1)
      else let n = encoded_len v
           in (map (sdnv_octet v n) [0..<n] @ replicate (MAX_LEN - n) 0, n))"

definition encode :: "u64 \<Rightarrow> bytes \<Rightarrow> bytes" where
  "encode v out = (let (buf, n) = encode_to_array v in out @ take n buf)"

fun decode_loop :: "nat \<Rightarrow> nat \<Rightarrow> u64 \<Rightarrow> bytes \<Rightarrow> sdnv_error + u64 \<times> nat" where
  "decode_loop len i acc [] = Inl (if MAX_LEN \<le> len then Overflow else Truncated)"
| "decode_loop len i acc (b # bs) =
     (if i = MAX_LEN then Inl Overflow
      else if drop_bit 57 acc \<noteq> 0 then Inl Overflow
      else let acc' = push_bit 7 acc OR ucast (b AND 0x7F)
           in if b AND 0x80 = 0 then Inr (acc', i + 1)
              else decode_loop len (i + 1) acc' bs)"

definition decode :: "bytes \<Rightarrow> sdnv_error + u64 \<times> nat" where
  "decode input =
     (case input of
        first # rest \<Rightarrow>
          (if first AND 0x80 = 0 then Inr (ucast first, 1)
           else decode_loop (length input) 0 0 input)
      | [] \<Rightarrow> decode_loop (length input) 0 0 input)"

text \<open>The octets \<open>encode\<close> appends.\<close>

definition sdnv_bytes :: "u64 \<Rightarrow> bytes" where
  "sdnv_bytes v = encode v []"

lemma encode_append: "encode v out = out @ sdnv_bytes v"
  by (simp add: sdnv_bytes_def encode_def split: prod.split)

section \<open>Bits and digits\<close>

lemma two7: "(2::nat) ^ 7 = 128" by simp

lemma and_7F: "(x :: u8) AND 0x7F = take_bit 7 x"
  by (simp add: take_bit_eq_mask mask_eq_exp_minus_1)

lemma and_80_iff: "(x :: u8) AND 0x80 = 0 \<longleftrightarrow> unat x < 128"
proof -
  have "x AND 0x80 = 0 \<longleftrightarrow> \<not> bit x 7"
    using and_exp_eq_0_iff_not_bit [of x 7] by simp
  also have "bit x 7 \<longleftrightarrow> odd (unat x div 128)"
    by (metis bit_iff_odd bit_unsigned_iff possible_bit_nat semiring_bits_class.bit_iff_odd two7)
  also have "odd (unat x div 128) \<longleftrightarrow> \<not> unat x < 128"
    using unsigned_less [of x, where 'a=nat] by (auto simp: div_if)
  finally show ?thesis by simp
qed

lemma drop_bit_57_eq_0_iff: "drop_bit 57 (acc :: u64) = 0 \<longleftrightarrow> unat acc < 2 ^ 57"
  by (metis drop_bit_eq_div unat_drop_bit_eq div_eq_0_iff unat_0_iff power_eq_0_iff zero_neq_numeral)

lemma unat_push_bit_7:
  assumes "unat (acc :: u64) < 2 ^ 57"
  shows "unat (push_bit 7 acc) = unat acc * 128"
proof -
  have "unat acc * unat (128 :: u64) < 2 ^ LENGTH(64)" using assms by simp
  then have "unat (acc * 128) = unat acc * unat (128 :: u64)" by (rule unat_mult_lem [THEN iffD1])
  then show ?thesis by (simp add: push_bit_eq_mult)
qed

lemma unat_ucast_and_7F: "unat (ucast ((b :: u8) AND 0x7F) :: u64) = unat b mod 128"
proof -
  have "unat (ucast (b AND 0x7F) :: u64) = unat (take_bit 7 b) mod 2 ^ 64"
    unfolding and_7F by (simp add: unsigned_ucast_eq take_bit_eq_mod del: unsigned_take_bit_eq)
  also have "unat (take_bit 7 b) = unat b mod 128"
    by (simp add: unsigned_take_bit_eq take_bit_eq_mod [where 'a=nat])
  finally show ?thesis by simp
qed

lemma unat_decode_step:
  assumes "unat (acc :: u64) < 2 ^ 57"
  shows "unat (push_bit 7 acc OR ucast ((b :: u8) AND 0x7F)) = unat acc * 128 + unat b mod 128"
proof -
  have or_add: "push_bit 7 acc OR ucast (b AND 0x7F) = push_bit 7 acc + ucast (b AND 0x7F)"
    by (rule disjunctive_add [symmetric]) (auto simp: bit_simps and_7F)
  have "unat (push_bit 7 acc) + unat (ucast (b AND 0x7F) :: u64) < 2 ^ 64"
    using assms by (simp add: unat_push_bit_7 unat_ucast_and_7F)
  then show ?thesis
    using assms by (simp add: or_add unat_add_exact unat_push_bit_7 unat_ucast_and_7F)
qed

lemma bit_len_le_iff: "bit_len n \<le> k \<longleftrightarrow> n < 2 ^ k"
proof (induction n arbitrary: k rule: bit_len.induct)
  case (1 n)
  show ?case
  proof (cases "n = 0")
    case True
    then show ?thesis by (simp add: bit_len.simps)
  next
    case False
    then show ?thesis
      using "1.IH" by (subst bit_len.simps) (cases k, auto simp: less_mult_imp_div_less div_less_iff_less_mult mult.commute)
  qed
qed

lemma unat_or_1: "unat ((v :: u64) OR 1) = 2 * (unat v div 2) + 1"
proof -
  have "unat (v OR 1) = (unat v OR 1)" by (simp only: unsigned_or_eq unsigned_1)
  also have "\<dots> = unat v + of_bool (even (unat v))" by (rule or_one_eq)
  also have "\<dots> = 2 * (unat v div 2) + 1" by (cases "even (unat v)") auto
  finally show ?thesis .
qed

lemma encoded_len_le_iff: "0 < k \<Longrightarrow> encoded_len v \<le> k \<longleftrightarrow> unat v < 128 ^ k"
proof -
  assume "0 < k"
  then obtain m where pow: "(128::nat) ^ k = 2 * m"
    by (metis dvd_def even_numeral even_power)
  have "bit_len (unat (v OR 1)) \<le> 64"
    using unat_lt_2_64 [of "v OR 1"] by (simp add: bit_len_le_iff del: unat_lt_2_64)
  then have "encoded_len v \<le> k \<longleftrightarrow> (bit_len (unat (v OR 1)) + 6) div 7 \<le> k"
    by (simp add: encoded_len_def leading_zeros_def)
  also have "\<dots> \<longleftrightarrow> bit_len (unat (v OR 1)) \<le> 7 * k" by linarith
  also have "\<dots> \<longleftrightarrow> unat (v OR 1) < 128 ^ k"
    by (simp add: bit_len_le_iff power_mult)
  also have "\<dots> \<longleftrightarrow> unat v < 128 ^ k" unfolding unat_or_1 pow by presburger
  finally show ?thesis .
qed

lemma encoded_len_pos: "0 < encoded_len v"
proof (rule ccontr)
  assume "\<not> 0 < encoded_len v"
  then have "bit_len (unat (v OR 1)) = 0"
    using unat_lt_2_64 [of "v OR 1"]
    by (simp add: encoded_len_def leading_zeros_def Let_def)
  then show False using bit_len_le_iff [of "unat (v OR 1)" 0] by (simp add: unat_or_1)
qed

lemma encoded_len_le_10: "encoded_len v \<le> 10"
  by (subst encoded_len_le_iff) (simp_all add: less_trans [OF unat_lt_2_64])

lemma encoded_len_upper: "unat v < 128 ^ encoded_len v"
  using encoded_len_le_iff [of "encoded_len v" v] encoded_len_pos by simp

lemma encoded_len_1_iff: "encoded_len v = 1 \<longleftrightarrow> v < 0x80"
  using encoded_len_le_iff [of 1 v] encoded_len_pos [of v] by (auto simp: word_less_nat_alt)

section \<open>Encoding, then decoding\<close>

lemma unat_sdnv_octet:
  "unat (sdnv_octet v n i) = (if i + 1 = n then 0 else 128) + unat v div 128 ^ (n - 1 - i) mod 128"
proof -
  let ?g = "ucast (drop_bit (7 * (n - 1 - i)) v AND 0x7F) :: u8"
  have g: "?g = take_bit 7 (ucast (drop_bit (7 * (n - 1 - i)) v))"
    by (rule bit_word_eqI)
      (auto simp: bit_simps take_bit_eq_mask [symmetric] mask_eq_exp_minus_1 [where 'a = "64 word", of 7, simplified, symmetric])
  have digit: "unat ?g = unat v div 128 ^ (n - 1 - i) mod 128"
    unfolding g by (simp add: unsigned_take_bit_eq unsigned_ucast_eq take_bit_eq_mod [where 'a = nat]
        unat_drop_bit_eq drop_bit_eq_div [where 'a = nat] power_mult mod_mod_cancel)
  have "(0x80 :: u8) OR ?g = 0x80 + ?g"
    unfolding g by (rule disjunctive_add [symmetric])
      (auto simp: bit_simps and_80_iff push_bit_of_1 bit_numeral_rec numeral_eq_Suc less_Suc_eq)
  moreover have "unat ?g < 128" unfolding digit by simp
  then have "unat (0x80 + ?g) = 128 + unat ?g"
    by (subst unat_add_exact) simp_all
  ultimately show ?thesis
    unfolding sdnv_octet_def Let_def using digit by (auto simp del: One_nat_def)
qed

lemma decode_loop_octets:
  assumes "n \<le> 10" "i < n" "unat acc = unat v div 128 ^ (n - i)" "unat v < 128 ^ n"
  shows "decode_loop len i acc (map (sdnv_octet v n) [i..<n] @ rest) = Inr (v, n)"
  using assms
proof (induction "n - i" arbitrary: i acc)
  case 0
  then show ?case by simp
next
  case (Suc k)
  let ?acc' = "push_bit 7 acc OR ucast (sdnv_octet v n i AND 0x7F) :: u64"
  have split: "n - i = Suc (n - 1 - i)" using Suc.prems(2) by simp
  have "unat acc \<le> unat v div 128"
    unfolding Suc.prems(3) split power_Suc div_mult2_eq by (rule div_le_dividend)
  also have "\<dots> < 2 ^ 57" using unsigned_less [of v, where 'a = nat] by (simp add: div_less_iff_less_mult)
  finally have small: "unat acc < 2 ^ 57" .
  have acc': "unat ?acc' = unat v div 128 ^ (n - 1 - i)"
    unfolding unat_decode_step [OF small] unat_sdnv_octet Suc.prems(3) split power_Suc2
    by (simp add: div_mult2_eq)
  have range: "[i..<n] = i # [i + 1..<n]" using Suc.prems(2) by (simp add: upt_conv_Cons)
  show ?case
  proof (cases "i + 1 = n")
    case True
    then have "?acc' = v" using acc' by (simp add: word_unat_eq_iff)
    moreover have "sdnv_octet v n i AND 0x80 = 0"
      unfolding and_80_iff unat_sdnv_octet using True by simp
    ultimately show ?thesis
      using True small Suc.prems(1) by (simp add: range drop_bit_57_eq_0_iff MAX_LEN_def)
  next
    case False
    then have "sdnv_octet v n i AND 0x80 \<noteq> 0"
      unfolding and_80_iff unat_sdnv_octet by simp
    moreover have "decode_loop len (i + 1) ?acc' (map (sdnv_octet v n) [i + 1..<n] @ rest) = Inr (v, n)"
      using Suc.hyps(2) Suc.prems False acc' by (intro Suc.hyps(1)) auto
    ultimately show ?thesis
      using small Suc.prems(1,2) by (simp add: range drop_bit_57_eq_0_iff MAX_LEN_def Let_def)
  qed
qed

lemma sdnv_bytes_small: "v < 0x80 \<Longrightarrow> sdnv_bytes v = [ucast v]"
  by (simp add: sdnv_bytes_def encode_def encode_to_array_def)

lemma sdnv_bytes_large:
  "\<not> v < 0x80 \<Longrightarrow> sdnv_bytes v = map (sdnv_octet v (encoded_len v)) [0..<encoded_len v]"
  by (simp add: sdnv_bytes_def encode_def encode_to_array_def Let_def)

lemma length_sdnv_bytes: "length (sdnv_bytes v) = encoded_len v"
  by (cases "v < 0x80") (simp_all add: sdnv_bytes_small sdnv_bytes_large encoded_len_1_iff [THEN iffD2])

lemma decode_sdnv_bytes: "decode (sdnv_bytes v @ rest) = Inr (v, encoded_len v)"
proof (cases "v < 0x80")
  case True
  then have "unat (ucast v :: u8) = unat v"
    by (simp add: unsigned_ucast_eq take_bit_eq_mod word_less_nat_alt)
  moreover from this True have "(ucast v :: u8) AND 0x80 = 0"
    unfolding and_80_iff by (simp add: word_less_nat_alt)
  moreover have "(ucast (ucast v :: u8) :: u64) = v"
    using True by (simp add: word_unat_eq_iff unsigned_ucast_eq unsigned_take_bit_eq take_bit_eq_mod [where 'a = nat] word_less_nat_alt)
  ultimately show ?thesis
    using True by (simp add: sdnv_bytes_small decode_def encoded_len_1_iff [THEN iffD2])
next
  case False
  let ?n = "encoded_len v"
  have n: "1 < ?n" using False encoded_len_1_iff [of v] encoded_len_pos [of v] by linarith
  have loop: "decode_loop len 0 0 (map (sdnv_octet v ?n) [0..<?n] @ rest) = Inr (v, ?n)" for len
    using n encoded_len_upper [of v] by (intro decode_loop_octets encoded_len_le_10) simp_all
  have "\<not> unat (sdnv_octet v ?n 0) < 128" using n by (simp add: unat_sdnv_octet)
  moreover have "[0..<?n] = 0 # [1..<?n]" using n by (simp add: upt_conv_Cons)
  ultimately show ?thesis
    using loop [of "length (map (sdnv_octet v ?n) [0..<?n] @ rest)"]
    by (simp add: sdnv_bytes_large [OF False] decode_def and_80_iff)
qed

section \<open>What decoding computes\<close>

text \<open>The number a group of octets spells in base 128, and the decoder a reader of RFC 5326 would write down.\<close>

definition has_cont :: "u8 \<Rightarrow> bool" where
  "has_cont b \<longleftrightarrow> 128 \<le> unat b"

definition sdnv_value_from :: "nat \<Rightarrow> bytes \<Rightarrow> nat" where
  "sdnv_value_from a bs = foldl (\<lambda>a b. a * 128 + unat b mod 128) a bs"

definition decode_spec :: "bytes \<Rightarrow> sdnv_error + u64 \<times> nat" where
  "decode_spec input =
     (let k = length (takeWhile has_cont input);
          v = sdnv_value_from 0 (take (k + 1) input)
      in if k < length input \<and> k < MAX_LEN \<and> v < 2 ^ 64 then Inr (word_of_nat v, k + 1)
         else Inl (if k = length input \<and> length input < MAX_LEN then Truncated else Overflow))"

lemma sdnv_value_from_simps [simp]:
  "sdnv_value_from a [] = a"
  "sdnv_value_from a (b # bs) = sdnv_value_from (a * 128 + unat b mod 128) bs"
  by (simp_all add: sdnv_value_from_def)

lemma sdnv_value_from_ge: "a \<le> sdnv_value_from a bs"
proof (induction bs arbitrary: a)
  case (Cons b bs)
  have "a \<le> a * 128 + unat b mod 128" by simp
  also have "\<dots> \<le> sdnv_value_from (a * 128 + unat b mod 128) bs" by (rule Cons.IH)
  finally show ?case by simp
qed simp

lemma decode_loop_spec:
  assumes "i \<le> 10" "len = i + length bs" "unat acc < 128 ^ i"
  shows "decode_loop len i acc bs =
     (let k = length (takeWhile has_cont bs);
          v = sdnv_value_from (unat acc) (take (k + 1) bs)
      in if k < length bs \<and> i + k < MAX_LEN \<and> v < 2 ^ 64 then Inr (word_of_nat v, i + k + 1)
         else Inl (if k = length bs \<and> len < MAX_LEN then Truncated else Overflow))"
  using assms
proof (induction bs arbitrary: i acc)
  case Nil
  then show ?case by (simp add: MAX_LEN_def)
next
  case (Cons b bs)
  let ?acc' = "push_bit 7 acc OR ucast (b AND 0x7F) :: u64"
  let ?v = "unat acc * 128 + unat b mod 128"
  consider (long) "i = 10" | (big) "i < 10" "2 ^ 57 \<le> unat acc" | (fits) "i < 10" "unat acc < 2 ^ 57"
    using Cons.prems(1) by linarith
  then show ?case
  proof cases
    case long
    with Cons.prems(2) show ?thesis by (simp add: MAX_LEN_def Let_def)
  next
    case big
    have "\<not> i \<le> 8"
    proof
      assume "i \<le> 8"
      then have "(128::nat) ^ i \<le> 128 ^ 8" by (intro power_increasing) simp_all
      with big(2) Cons.prems(3) show False by simp
    qed
    with big have i: "i = 9" by simp
    have "(2::nat) ^ 64 \<le> ?v" using big(2) by simp
    then have "\<not> sdnv_value_from ?v bs' < 2 ^ 64" for bs'
      using sdnv_value_from_ge [of ?v bs'] by linarith
    moreover have "decode_loop len i acc (b # bs) = Inl Overflow"
      using big i by (simp add: drop_bit_57_eq_0_iff MAX_LEN_def)
    ultimately show ?thesis using Cons.prems(2) i by (simp add: Let_def MAX_LEN_def)
  next
    case fits
    have v: "unat ?acc' = ?v" by (rule unat_decode_step [OF fits(2)])
    have small: "?v < 2 ^ 64" using fits(2) by (simp add: mod_less_divisor less_mult_imp_div_less)
    show ?thesis
    proof (cases "has_cont b")
      case True
      then have "\<not> unat b < 128" by (simp add: has_cont_def)
      moreover have "?v < 128 ^ Suc i" using Cons.prems(3) by (simp add: Suc_le_eq less_mult_imp_div_less)
      then have "decode_loop len (i + 1) ?acc' bs =
         (let k = length (takeWhile has_cont bs); v = sdnv_value_from ?v (take (k + 1) bs)
          in if k < length bs \<and> i + 1 + k < MAX_LEN \<and> v < 2 ^ 64 then Inr (word_of_nat v, i + 1 + k + 1)
             else Inl (if k = length bs \<and> len < MAX_LEN then Truncated else Overflow))"
        using fits Cons.prems(2) v by (subst Cons.IH) simp_all
      ultimately show ?thesis
        using True fits by (simp add: drop_bit_57_eq_0_iff and_80_iff MAX_LEN_def Let_def)
    next
      case False
      then have "unat b < 128" by (simp add: has_cont_def)
      moreover have "word_of_nat ?v = ?acc'" by (metis v of_nat_unat ucast_id)
      ultimately show ?thesis
        using False fits small by (simp add: drop_bit_57_eq_0_iff and_80_iff MAX_LEN_def Let_def)
    qed
  qed
qed

lemma decode_fast_path: "unat (b :: u8) < 128 \<Longrightarrow> decode_loop (Suc (length bs)) 0 0 (b # bs) = Inr (ucast b, 1)"
proof -
  assume b: "unat b < 128"
  have "(0 :: u64) OR ucast (b AND 0x7F) = ucast b"
    using b unat_ucast_and_7F [of b] unsigned_less [of b, where 'a = nat]
    by (simp add: word_unat_eq_iff unsigned_ucast_eq unsigned_take_bit_eq take_bit_eq_mod [where 'a = nat])
  with b show ?thesis by (simp add: MAX_LEN_def and_80_iff)
qed

lemma decode_is_spec: "decode input = decode_spec input"
proof (cases input)
  case Nil
  then show ?thesis by (simp add: decode_def decode_spec_def MAX_LEN_def Let_def)
next
  case (Cons b bs)
  have "decode input = decode_loop (length input) 0 0 input"
    using decode_fast_path [of b bs] by (cases "b AND 0x80 = 0") (simp_all add: decode_def Cons and_80_iff del: decode_loop.simps)
  then show ?thesis
    by (simp add: decode_loop_spec decode_spec_def Let_def)
qed

text \<open>Decoding computes exactly the specification.  With \<open>k\<close> the number of leading octets
  that carry the continuation bit, the result is the base-128 value of the first \<open>k + 1\<close>
  octets, provided there are that many, they are at most ten and the value fits 64 bits; an
  input with fewer than ten octets and no terminal one is \<open>Truncated\<close>; every other input is \<open>Overflow\<close>.\<close>

theorem decode_eq_spec: "decode input = decode_spec input"
  by (rule decode_is_spec)

text \<open>C11: any buffer that starts with the encoding of \<open>v\<close> decodes to \<open>v\<close>, whatever
  follows, and exactly the octets of the encoding are consumed.\<close>

theorem decode_encode: "decode (encode v [] @ rest) = Inr (v, length (encode v []))"
  using decode_sdnv_bytes [of v rest] length_sdnv_bytes [of v] by (simp add: sdnv_bytes_def)

text \<open>an encoding takes the fewest octets base 128 allows, between one and ten: \<open>encoded_len\<close>
  is the least \<open>k > 0\<close> with \<open>v < 128 ^ k\<close>, and it is the length of what \<open>encode\<close> appends.\<close>

theorem encode_minimal_length:
  "length (encode v out) = length out + encoded_len v
   \<and> encoded_len v \<in> {1..10}
   \<and> encoded_len v = (LEAST k. 0 < k \<and> unat v < 128 ^ k)"
proof -
  have "encoded_len v = (LEAST k. 0 < k \<and> unat v < 128 ^ k)"
    using encoded_len_pos [of v] encoded_len_upper [of v]
    by (intro Least_equality [symmetric]) (auto simp: encoded_len_le_iff)
  moreover have "encoded_len v \<in> {1..10}"
    using encoded_len_pos [of v] encoded_len_le_10 [of v] by auto
  ultimately show ?thesis by (simp add: encode_append length_sdnv_bytes)
qed

text \<open>Consequences the segment parser uses: a successful decode stays inside the input.\<close>

lemma decode_consumed:
  assumes "decode input = Inr (v, n)"
  shows "0 < n" "n \<le> length input" "n \<le> 10"
  using assms by (auto simp: decode_is_spec decode_spec_def Let_def MAX_LEN_def split: if_splits)

end
