(* ===== verification/Ltp_Types.thy ===== *)
theory Ltp_Types
  imports Prelude
begin

text \<open>
  Identifiers and cancellation reasons (\<^verbatim>\<open>ltp/src/types.rs\<close>).  An \<^verbatim>\<open>EngineId\<close> is its
  \<^verbatim>\<open>u64\<close>; a \<^verbatim>\<open>SessionId\<close> orders by originator, then number, as the derived \<^verbatim>\<open>Ord\<close> does.
\<close>

type_synonym engine_id = u64

datatype session_id = SessionId (originator: engine_id) (snumber: u64)

instantiation session_id :: linorder
begin

definition less_eq_session_id :: "session_id \<Rightarrow> session_id \<Rightarrow> bool" where
  "less_eq_session_id a b \<longleftrightarrow>
     originator a < originator b \<or> originator a = originator b \<and> snumber a \<le> snumber b"

definition less_session_id :: "session_id \<Rightarrow> session_id \<Rightarrow> bool" where
  "less_session_id a b \<longleftrightarrow>
     originator a < originator b \<or> originator a = originator b \<and> snumber a < snumber b"

instance
  by standard (auto simp: less_eq_session_id_def less_session_id_def intro: session_id.expand)

end

datatype cancel_reason = UsrCncld | Unreach | Rlexc | Miscolored | SysCncld | RxmtCycExc

definition from_code :: "u8 \<Rightarrow> cancel_reason option" where
  "from_code code =
     (if code = 0 then Some UsrCncld
      else if code = 1 then Some Unreach
      else if code = 2 then Some Rlexc
      else if code = 3 then Some Miscolored
      else if code = 4 then Some SysCncld
      else if code = 5 then Some RxmtCycExc
      else None)"

fun reason_code :: "cancel_reason \<Rightarrow> u8" where
  "reason_code UsrCncld = 0"
| "reason_code Unreach = 1"
| "reason_code Rlexc = 2"
| "reason_code Miscolored = 3"
| "reason_code SysCncld = 4"
| "reason_code RxmtCycExc = 5"

lemma from_code_reason_code [simp]: "from_code (reason_code r) = Some r"
  by (cases r) (simp_all add: from_code_def)

lemma from_code_Some: "from_code c = Some r \<Longrightarrow> reason_code r = c"
  by (auto simp: from_code_def split: if_splits)

end
