(* ===== verification/Segment.thy ===== *)
theory Segment
  imports Sdnv Ltp_Types
begin

text \<open>
  The segment model (\<^verbatim>\<open>ltp/src/segment/mod.rs\<close>, \<^verbatim>\<open>segment/error.rs\<close>) and the serializer
  (\<^verbatim>\<open>ltp/src/segment/write.rs\<close>).  A \<^verbatim>\<open>NonZeroU64\<close> is its 64-bit word; that it is not zero is part of
  \<open>wf_segment\<close>, which also states what the wire format of RFC 5326 can carry.
\<close>

section \<open>Data\<close>

record extension =
  ext_tag :: u8
  ext_value :: bytes

record checkpoint =
  cp_serial :: u64
  cp_report_serial :: u64

datatype data_seg_kind =
    Red
  | RedCp checkpoint
  | RedCpEorp checkpoint
  | RedCpEorpEob checkpoint
  | Green
  | GreenEob

record data_segment =
  ds_client_service :: u64
  ds_offset :: u64
  ds_kind :: data_seg_kind
  ds_data :: bytes

record reception_claim =
  cl_offset :: u64
  cl_length :: u64

record report_segment =
  rs_report_serial :: u64
  rs_checkpoint_serial :: u64
  rs_upper_bound :: u64
  rs_lower_bound :: u64
  rs_claims :: "reception_claim list"

datatype segment_body =
    Data data_segment
  | Report report_segment
  | ReportAck u64
  | CancelSender cancel_reason
  | CancelAckSender
  | CancelReceiver cancel_reason
  | CancelAckReceiver

record segment =
  seg_session :: session_id
  seg_header_ext :: "extension list"
  seg_trailer_ext :: "extension list"
  seg_body :: segment_body

datatype parse_error =
    SdnvError sdnv_error
  | BadVersion u8
  | UndefinedType u8
  | SegTruncated
  | ZeroSerial
  | BoundsInvariant
  | ClaimCountInvalid
  | ClaimInvariant
  | ReservedReason u8

fun is_red :: "data_seg_kind \<Rightarrow> bool" where
  "is_red Green = False"
| "is_red GreenEob = False"
| "is_red _ = True"

fun kind_checkpoint :: "data_seg_kind \<Rightarrow> checkpoint option" where
  "kind_checkpoint (RedCp cp) = Some cp"
| "kind_checkpoint (RedCpEorp cp) = Some cp"
| "kind_checkpoint (RedCpEorpEob cp) = Some cp"
| "kind_checkpoint Red = None"
| "kind_checkpoint Green = None"
| "kind_checkpoint GreenEob = None"

fun is_eorp :: "data_seg_kind \<Rightarrow> bool" where
  "is_eorp (RedCpEorp _) = True"
| "is_eorp (RedCpEorpEob _) = True"
| "is_eorp _ = False"

fun is_eob :: "data_seg_kind \<Rightarrow> bool" where
  "is_eob (RedCpEorpEob _) = True"
| "is_eob GreenEob = True"
| "is_eob _ = False"

fun kind_code :: "data_seg_kind \<Rightarrow> u8" where
  "kind_code Red = 0"
| "kind_code (RedCp _) = 1"
| "kind_code (RedCpEorp _) = 2"
| "kind_code (RedCpEorpEob _) = 3"
| "kind_code Green = 4"
| "kind_code GreenEob = 7"

fun body_code :: "segment_body \<Rightarrow> u8" where
  "body_code (Data ds) = kind_code (ds_kind ds)"
| "body_code (Report _) = 8"
| "body_code (ReportAck _) = 9"
| "body_code (CancelSender _) = 12"
| "body_code CancelAckSender = 13"
| "body_code (CancelReceiver _) = 14"
| "body_code CancelAckReceiver = 15"

definition type_code :: "segment \<Rightarrow> u8" where
  "type_code s = body_code (seg_body s)"

section \<open>The serializer\<close>

text \<open>Each writer appends to the buffer it is given, as the source's \<^verbatim>\<open>out: &mut Vec<u8>\<close>.\<close>

fun write_extensions :: "extension list \<Rightarrow> bytes \<Rightarrow> bytes" where
  "write_extensions [] out = out"
| "write_extensions (e # es) out =
     write_extensions es (encode (vec_len (ext_value e)) (out @ [ext_tag e]) @ ext_value e)"

fun write_claims :: "reception_claim list \<Rightarrow> bytes \<Rightarrow> bytes" where
  "write_claims [] out = out"
| "write_claims (c # cs) out = write_claims cs (encode (cl_length c) (encode (cl_offset c) out))"

definition write_report :: "report_segment \<Rightarrow> bytes \<Rightarrow> bytes" where
  "write_report rs out =
     (let out = encode (rs_report_serial rs) out;
          out = encode (rs_checkpoint_serial rs) out;
          out = encode (rs_upper_bound rs) out;
          out = encode (rs_lower_bound rs) out;
          out = encode (vec_len (rs_claims rs)) out
      in write_claims (rs_claims rs) out)"

definition write_data :: "data_segment \<Rightarrow> bytes \<Rightarrow> bytes" where
  "write_data ds out =
     (let out = encode (ds_client_service ds) out;
          out = encode (ds_offset ds) out;
          out = encode (vec_len (ds_data ds)) out;
          out = (case kind_checkpoint (ds_kind ds) of
                   Some cp \<Rightarrow> encode (cp_report_serial cp) (encode (cp_serial cp) out)
                 | None \<Rightarrow> out)
      in out @ ds_data ds)"

fun write_body :: "segment_body \<Rightarrow> bytes \<Rightarrow> bytes" where
  "write_body (Data ds) out = write_data ds out"
| "write_body (Report rs) out = write_report rs out"
| "write_body (ReportAck report_serial) out = encode report_serial out"
| "write_body (CancelSender reason) out = out @ [reason_code reason]"
| "write_body (CancelReceiver reason) out = out @ [reason_code reason]"
| "write_body CancelAckSender out = out"
| "write_body CancelAckReceiver out = out"

definition encode_to_vec :: "segment \<Rightarrow> bytes" where
  "encode_to_vec s =
     (let header = take (min (length (seg_header_ext s)) 15) (seg_header_ext s);
          trailer = take (min (length (seg_trailer_ext s)) 15) (seg_trailer_ext s);
          out = [type_code s];
          out = encode (originator (seg_session s)) out;
          out = encode (snumber (seg_session s)) out;
          header_count = word_of_nat (length header) AND 0x0F;
          trailer_count = word_of_nat (length trailer) AND 0x0F;
          out = out @ [push_bit 4 header_count OR trailer_count];
          out = write_extensions header out;
          out = write_body (seg_body s) out
      in write_extensions trailer out)"

definition ext_len :: "extension \<Rightarrow> nat" where
  "ext_len e = 1 + encoded_len (vec_len (ext_value e)) + length (ext_value e)"

fun body_len :: "segment_body \<Rightarrow> nat" where
  "body_len (Data ds) =
     encoded_len (ds_client_service ds) + encoded_len (ds_offset ds)
     + encoded_len (vec_len (ds_data ds)) + length (ds_data ds)
     + (case kind_checkpoint (ds_kind ds) of
          Some cp \<Rightarrow> encoded_len (cp_serial cp) + encoded_len (cp_report_serial cp)
        | None \<Rightarrow> 0)"
| "body_len (Report rs) =
     encoded_len (rs_report_serial rs) + encoded_len (rs_checkpoint_serial rs)
     + encoded_len (rs_upper_bound rs) + encoded_len (rs_lower_bound rs)
     + encoded_len (vec_len (rs_claims rs))
     + sum_list (map (\<lambda>c. encoded_len (cl_offset c) + encoded_len (cl_length c)) (rs_claims rs))"
| "body_len (ReportAck report_serial) = encoded_len report_serial"
| "body_len (CancelSender _) = 1"
| "body_len (CancelReceiver _) = 1"
| "body_len CancelAckSender = 0"
| "body_len CancelAckReceiver = 0"

definition exact_encoded_len :: "segment \<Rightarrow> extension list \<Rightarrow> extension list \<Rightarrow> nat" where
  "exact_encoded_len s header trailer =
     1 + encoded_len (originator (seg_session s)) + encoded_len (snumber (seg_session s)) + 1
     + sum_list (map ext_len (header @ trailer)) + body_len (seg_body s)"

section \<open>The wire image\<close>

text \<open>The writers as functions of what they write alone.\<close>

definition ext_bytes :: "extension \<Rightarrow> bytes" where
  "ext_bytes e = ext_tag e # sdnv_bytes (vec_len (ext_value e)) @ ext_value e"

definition claim_bytes :: "reception_claim \<Rightarrow> bytes" where
  "claim_bytes c = sdnv_bytes (cl_offset c) @ sdnv_bytes (cl_length c)"

definition checkpoint_bytes :: "checkpoint \<Rightarrow> bytes" where
  "checkpoint_bytes cp = sdnv_bytes (cp_serial cp) @ sdnv_bytes (cp_report_serial cp)"

definition data_bytes :: "data_segment \<Rightarrow> bytes" where
  "data_bytes ds =
     sdnv_bytes (ds_client_service ds) @ sdnv_bytes (ds_offset ds) @ sdnv_bytes (vec_len (ds_data ds))
     @ (case kind_checkpoint (ds_kind ds) of Some cp \<Rightarrow> checkpoint_bytes cp | None \<Rightarrow> []) @ ds_data ds"

definition report_bytes :: "report_segment \<Rightarrow> bytes" where
  "report_bytes rs =
     sdnv_bytes (rs_report_serial rs) @ sdnv_bytes (rs_checkpoint_serial rs)
     @ sdnv_bytes (rs_upper_bound rs) @ sdnv_bytes (rs_lower_bound rs)
     @ sdnv_bytes (vec_len (rs_claims rs)) @ concat (map claim_bytes (rs_claims rs))"

fun body_bytes :: "segment_body \<Rightarrow> bytes" where
  "body_bytes (Data ds) = data_bytes ds"
| "body_bytes (Report rs) = report_bytes rs"
| "body_bytes (ReportAck n) = sdnv_bytes n"
| "body_bytes (CancelSender r) = [reason_code r]"
| "body_bytes (CancelReceiver r) = [reason_code r]"
| "body_bytes CancelAckSender = []"
| "body_bytes CancelAckReceiver = []"

lemma write_extensions_append: "write_extensions es out = out @ concat (map ext_bytes es)"
  by (induction es arbitrary: out) (simp_all add: encode_append ext_bytes_def)

lemma write_claims_append: "write_claims cs out = out @ concat (map claim_bytes cs)"
  by (induction cs arbitrary: out) (simp_all add: encode_append claim_bytes_def)

lemma write_body_append: "write_body b out = out @ body_bytes b"
  by (cases b) (auto simp: write_data_def data_bytes_def write_report_def report_bytes_def
      write_claims_append encode_append checkpoint_bytes_def split: option.split)

definition ext_count_byte :: "segment \<Rightarrow> u8" where
  "ext_count_byte s =
     push_bit 4 (word_of_nat (min (length (seg_header_ext s)) 15) AND 0x0F)
     OR (word_of_nat (min (length (seg_trailer_ext s)) 15) AND 0x0F)"

lemma encode_to_vec_bytes:
  "encode_to_vec s =
     type_code s # sdnv_bytes (originator (seg_session s)) @ sdnv_bytes (snumber (seg_session s))
     @ ext_count_byte s
     # concat (map ext_bytes (take 15 (seg_header_ext s))) @ body_bytes (seg_body s)
     @ concat (map ext_bytes (take 15 (seg_trailer_ext s)))"
proof -
  have take15: "take (min (length xs) 15) xs = take 15 xs" for xs :: "extension list"
    by (simp add: min_def)
  show ?thesis
    unfolding encode_to_vec_def Let_def ext_count_byte_def
    by (simp add: write_extensions_append write_body_append encode_append take15 min.commute)
qed

lemma length_ext_bytes: "length (ext_bytes e) = ext_len e"
  by (simp add: ext_bytes_def ext_len_def length_sdnv_bytes)

lemma length_body_bytes: "length (body_bytes b) = body_len b"
  by (cases b) (auto simp: data_bytes_def report_bytes_def checkpoint_bytes_def claim_bytes_def
      length_sdnv_bytes length_concat comp_def split: option.split)

lemma length_encode_to_vec:
  "length (encode_to_vec s)
   = exact_encoded_len s (take 15 (seg_header_ext s)) (take 15 (seg_trailer_ext s))"
  by (simp add: encode_to_vec_bytes exact_encoded_len_def length_sdnv_bytes length_body_bytes
      length_concat length_ext_bytes comp_def)

text \<open>The capacity the serializer reserves is exact: \<open>exact_encoded_len\<close>, applied to the extensions
  that are written, is the length of the produced datagram, for every kind of segment.\<close>

theorem exact_encoded_len_correct:
  "length (encode_to_vec s)
   = exact_encoded_len s (take 15 (seg_header_ext s)) (take 15 (seg_trailer_ext s))"
  by (rule length_encode_to_vec)

section \<open>Well-formed segments\<close>

text \<open>\<open>valid_claims scope prev cs\<close>: non-empty claims in ascending order, disjoint, from \<open>prev\<close> on and inside the
  scope (RFC 5326, 3.2.2).\<close>

fun valid_claims :: "nat \<Rightarrow> nat \<Rightarrow> reception_claim list \<Rightarrow> bool" where
  "valid_claims scope prev [] = True"
| "valid_claims scope prev (c # cs) =
     (cl_length c \<noteq> 0 \<and> prev \<le> unat (cl_offset c)
      \<and> unat (cl_offset c) + unat (cl_length c) \<le> scope
      \<and> valid_claims scope (unat (cl_offset c) + unat (cl_length c)) cs)"

definition wf_report :: "report_segment \<Rightarrow> bool" where
  "wf_report rs \<longleftrightarrow>
     rs_report_serial rs \<noteq> 0 \<and> rs_lower_bound rs < rs_upper_bound rs
     \<and> length (rs_claims rs) \<le> 65536
     \<and> valid_claims (unat (rs_upper_bound rs) - unat (rs_lower_bound rs)) 0 (rs_claims rs)"

fun wf_body :: "segment_body \<Rightarrow> bool" where
  "wf_body (Data ds) \<longleftrightarrow> (case kind_checkpoint (ds_kind ds) of Some cp \<Rightarrow> cp_serial cp \<noteq> 0 | None \<Rightarrow> True)"
| "wf_body (Report rs) \<longleftrightarrow> wf_report rs"
| "wf_body _ \<longleftrightarrow> True"

definition wf_segment :: "segment \<Rightarrow> bool" where
  "wf_segment s \<longleftrightarrow>
     length (seg_header_ext s) \<le> 15 \<and> length (seg_trailer_ext s) \<le> 15 \<and> wf_body (seg_body s)"

end
