(* ===== verification/Range_Set.thy ===== *)
theory Range_Set
  imports Prelude
begin

text \<open>
  Sets of 64-bit values kept as sorted, coalesced half-open ranges (\<^verbatim>\<open>ltp/src/range.rs\<close>):
  the byte extents a receiver has and the extents a report claims.  \<open>rs_set\<close> is the set of
  values a vector of runs stands for and \<open>rs_ok\<close> the invariant of the vector.  The locale
  \<open>extent_set\<close> states what the sessions use of it.
\<close>

section \<open>Definitions\<close>

type_synonym range = "u64 \<times> u64"
type_synonym range_set = "range list"

definition range_set_new :: range_set where
  "range_set_new = []"

text \<open>\<^verbatim>\<open>slice::partition_point\<close>, on a slice partitioned by \<open>p\<close>, as \<open>rs_ok_partitioned\<close> shows ours are.\<close>

definition partition_point :: "('a \<Rightarrow> bool) \<Rightarrow> 'a list \<Rightarrow> nat" where
  "partition_point p xs = length (takeWhile p xs)"

definition range_overlap :: "range \<Rightarrow> range \<Rightarrow> u64" where
  "range_overlap a b =
     (let start = max (fst a) (fst b); stop = min (snd a) (snd b) in sat_sub stop start)"

text \<open>The absorbing loop of \<^verbatim>\<open>insert\<close>: \<open>runs\<close> is the vector from index \<open>k\<close> (the source's \<^verbatim>\<open>last\<close>) on.\<close>

fun absorb :: "range \<Rightarrow> range list \<Rightarrow> u64 \<Rightarrow> u64 \<Rightarrow> u64 \<Rightarrow> nat \<Rightarrow> u64 \<times> u64 \<times> u64 \<times> nat" where
  "absorb r [] new_start new_end newly k = (new_start, new_end, newly, k)"
| "absorb r (run # runs) new_start new_end newly k =
     (if fst run \<le> new_end
      then absorb r runs (min new_start (fst run)) (max new_end (snd run))
             (newly - range_overlap run r) (k + 1)
      else (new_start, new_end, newly, k))"

definition insert_general :: "range_set \<Rightarrow> range \<Rightarrow> range_set \<times> u64" where
  "insert_general runs r =
     (let first = partition_point (\<lambda>run. snd run < fst r) runs;
          (new_start, new_end, newly, last_i) =
            absorb r (drop first runs) (fst r) (snd r) (snd r - fst r) first;
          runs' =
            (if first = last_i then take first runs @ [(new_start, new_end)] @ drop first runs
             else if last_i = first + 1 then runs[first := (new_start, new_end)]
             else take first runs @ [(new_start, new_end)] @ drop last_i runs)
      in (runs', newly))"

definition range_insert :: "range_set \<Rightarrow> range \<Rightarrow> range_set \<times> u64" where
  "range_insert runs r =
     (if snd r \<le> fst r then (runs, 0)
      else if runs = [] then ([r], snd r - fst r)
      else let l = last runs
           in if snd l = fst r then (runs[length runs - 1 := (fst l, snd r)], snd r - fst r)
              else if snd l < fst r then (runs @ [r], snd r - fst r)
              else if fst l \<le> fst r \<and> snd r \<le> snd l then (runs, 0)
              else insert_general runs r)"

definition range_covers :: "range_set \<Rightarrow> range \<Rightarrow> bool" where
  "range_covers runs r =
     (if snd r \<le> fst r then True
      else let i = partition_point (\<lambda>run. snd run < snd r) runs
           in i < length runs \<and> fst (runs ! i) \<le> fst r \<and> snd r \<le> snd (runs ! i))"

definition covered_len :: "range_set \<Rightarrow> u64" where
  "covered_len runs = fold (\<lambda>r acc. acc + (snd r - fst r)) runs 0"

definition run_count :: "range_set \<Rightarrow> nat" where
  "run_count runs = length runs"

definition runs_within :: "range_set \<Rightarrow> range \<Rightarrow> range list" where
  "runs_within runs scope =
     (let start = partition_point (\<lambda>run. snd run \<le> fst scope) runs
      in map (\<lambda>run. (max (fst run) (fst scope), min (snd run) (snd scope)))
           (takeWhile (\<lambda>run. fst run < snd scope) (drop start runs)))"

text \<open>The gap iterator; \<open>gap_scan\<close> is the loop of \<^verbatim>\<open>next\<close> over what is left of the inner iterator.\<close>

record gap_iter =
  gi_inner :: "range list"
  gi_cursor :: u64
  gi_end :: u64
  gi_done :: bool

fun gap_scan :: "range list \<Rightarrow> u64 \<Rightarrow> range option \<times> range list \<times> u64" where
  "gap_scan [] cursor = (None, [], cursor)"
| "gap_scan (run # rest) cursor =
     (if cursor < fst run then (Some (cursor, fst run), rest, snd run)
      else gap_scan rest (snd run))"

definition gap_next :: "gap_iter \<Rightarrow> range option \<times> gap_iter" where
  "gap_next g =
     (if gi_done g then (None, g)
      else case gap_scan (gi_inner g) (gi_cursor g) of
             (Some gap, inner, cursor) \<Rightarrow> (Some gap, g\<lparr>gi_inner := inner, gi_cursor := cursor\<rparr>)
           | (None, inner, cursor) \<Rightarrow>
               (if cursor < gi_end g then Some (cursor, gi_end g) else None,
                g\<lparr>gi_inner := inner, gi_cursor := cursor, gi_done := True\<rparr>))"

text \<open>\<^verbatim>\<open>collect()\<close>: the iterator ends because each step that yields consumes a run or sets \<^verbatim>\<open>done\<close>.\<close>

lemma gap_scan_length:
  "gap_scan rs cur = (gap, inner, cur') \<Longrightarrow> length inner + (if gap = None then 0 else 1) \<le> length rs"
  by (induction rs cur rule: gap_scan.induct) (auto split: if_splits)

function gap_collect :: "gap_iter \<Rightarrow> range list" where
  "gap_collect g = (case gap_next g of (None, g') \<Rightarrow> [] | (Some gap, g') \<Rightarrow> gap # gap_collect g')"
  by auto

termination
  by (relation "measure (\<lambda>g. length (gi_inner g) + (if gi_done g then 0 else 1))")
    (auto simp: gap_next_def dest: gap_scan_length split: if_splits prod.splits option.splits)

declare gap_collect.simps [simp del]

definition range_gaps :: "range_set \<Rightarrow> range \<Rightarrow> range list" where
  "range_gaps runs scope =
     gap_collect \<lparr>gi_inner = runs_within runs scope, gi_cursor = fst scope, gi_end = snd scope, gi_done = False\<rparr>"

section \<open>The set a vector of runs stands for\<close>

definition range_span :: "range \<Rightarrow> nat set" where
  "range_span r = {unat (fst r)..<unat (snd r)}"

definition rs_set :: "range_set \<Rightarrow> nat set" where
  "rs_set runs = (\<Union>r\<in>set runs. range_span r)"

definition rs_ok :: "range_set \<Rightarrow> bool" where
  "rs_ok runs \<longleftrightarrow> (\<forall>r\<in>set runs. fst r < snd r) \<and> sorted_wrt (\<lambda>a b. snd a < fst b) runs"

lemma rs_set_simps [simp]:
  "rs_set [] = {}" "rs_set (r # rs) = range_span r \<union> rs_set rs" "rs_set (xs @ ys) = rs_set xs \<union> rs_set ys"
  by (auto simp: rs_set_def)

lemma finite_range_span [simp]: "finite (range_span r)"
  by (simp add: range_span_def)

lemma finite_rs_set [simp]: "finite (rs_set rs)"
  by (simp add: rs_set_def)

lemma rs_ok_simps [simp]:
  "rs_ok []"
  "rs_ok (r # rs) \<longleftrightarrow> fst r < snd r \<and> (\<forall>b\<in>set rs. snd r < fst b) \<and> rs_ok rs"
  "rs_ok (xs @ ys) \<longleftrightarrow> rs_ok xs \<and> rs_ok ys \<and> (\<forall>a\<in>set xs. \<forall>b\<in>set ys. snd a < fst b)"
  by (auto simp: rs_ok_def sorted_wrt_append)

lemma card_range_span: "card (range_span r) = unat (snd r) - unat (fst r)"
  by (simp add: range_span_def)

lemma rs_ok_runs: "rs_ok rs \<Longrightarrow> r \<in> set rs \<Longrightarrow> fst r < snd r"
  by (simp add: rs_ok_def)

lemma rs_ok_ascending:
  assumes "rs_ok (a # rs)" "b \<in> set rs"
  shows "snd a < fst b" "fst b < snd b" "snd a < snd b" "fst a < fst b"
proof -
  show "snd a < fst b" "fst b < snd b" using assms by (auto simp: rs_ok_def)
  then show "snd a < snd b" by (rule less_trans)
  from \<open>snd a < fst b\<close> show "fst a < fst b" using assms(1) by auto
qed

text \<open>In a valid vector every test on the end of a run, or on its start, holds of a prefix only.\<close>

lemma rs_ok_partitioned:
  assumes "rs_ok rs" and closed: "\<And>a b. p b \<Longrightarrow> snd a < snd b \<Longrightarrow> p a"
  shows "filter p rs = takeWhile p rs"
  using assms(1)
proof (induction rs)
  case (Cons a rs)
  have "filter p rs = []" if "\<not> p a"
    using that closed [OF _ rs_ok_ascending(3) [OF Cons.prems]] unfolding filter_empty_conv by blast
  with Cons show ?case by auto
qed simp

lemma dropWhile_ends:
  assumes "rs_ok rs" "b \<in> set (dropWhile (\<lambda>run. snd run < x) rs)"
  shows "x \<le> snd b"
  using assms
proof (induction rs)
  case (Cons a rs)
  then show ?case using rs_ok_ascending(3) [OF Cons.prems(1), of b] by (fastforce split: if_splits)
qed simp

lemma dropWhile_ends_le:
  assumes "rs_ok rs" "b \<in> set (dropWhile (\<lambda>run. snd run \<le> x) rs)"
  shows "x < snd b"
  using assms
proof (induction rs)
  case (Cons a rs)
  then show ?case using rs_ok_ascending(3) [OF Cons.prems(1), of b] by (fastforce split: if_splits)
qed simp

section \<open>Insertion\<close>

lemma range_overlap_card: "unat (range_overlap a b) = card (range_span a \<inter> range_span b)"
proof -
  have "range_span a \<inter> range_span b
    = {max (unat (fst a)) (unat (fst b))..<min (unat (snd a)) (unat (snd b))}"
    by (auto simp: range_span_def)
  then show ?thesis by (simp add: range_overlap_def Let_def unat_sat_sub unat_min unat_max)
qed

text \<open>What the loop does: it absorbs a prefix \<open>B1\<close> of the runs, exactly those that touch the growing range.\<close>

definition absorbed :: "range \<Rightarrow> range list \<Rightarrow> range \<Rightarrow> nat \<Rightarrow> range list \<Rightarrow> range list \<Rightarrow> range \<Rightarrow> u64 \<Rightarrow> bool" where
  "absorbed r B cur newly B1 B2 cur' newly' \<longleftrightarrow>
     B = B1 @ B2 \<and> fst cur' < snd cur' \<and> snd cur \<le> snd cur'
     \<and> range_span cur' = range_span cur \<union> rs_set B1
     \<and> (fst cur' = fst cur \<or> (\<exists>b\<in>set B1. fst cur' = fst b))
     \<and> (\<forall>b\<in>set B2. snd cur' < fst b)
     \<and> unat newly' + card (range_span r \<inter> rs_set B1) = newly"

lemma absorb_absorbed:
  assumes "rs_ok B" and "s < e" and "\<forall>b\<in>set B. s \<le> snd b"
    and "card (range_span r \<inter> rs_set B) \<le> unat newly"
  shows "\<exists>B1 B2 s' e' newly'. absorb r B s e newly k = (s', e', newly', k + length B1)
    \<and> absorbed r B (s, e) (unat newly) B1 B2 (s', e') newly'"
  using assms
proof (induction B arbitrary: s e newly k)
  case Nil
  then show ?case by (auto simp: absorbed_def)
next
  case (Cons run B)
  show ?case
  proof (cases "fst run \<le> e")
    case False
    have "\<forall>b\<in>set (run # B). e < fst b"
      using False Cons.prems(1) by (auto simp: not_le dest!: bspec)
    then have "absorbed r (run # B) (s, e) (unat newly) [] (run # B) (s, e) newly"
      using Cons.prems(2) by (simp add: absorbed_def)
    moreover have "absorb r (run # B) s e newly k = (s, e, newly, k + length ([] :: range list))"
      using False by simp
    ultimately show ?thesis by blast
  next
    case True
    let ?s = "min s (fst run)" and ?e = "max e (snd run)" and ?n = "newly - range_overlap run r"
    have disj: "range_span run \<inter> rs_set B = {}"
      using Cons.prems(1) by (force simp: rs_set_def range_span_def u64_arith)
    have split: "card (range_span r \<inter> rs_set (run # B))
      = card (range_span run \<inter> range_span r) + card (range_span r \<inter> rs_set B)"
      unfolding rs_set_simps Int_Un_distrib using disj
      by (subst card_Un_disjoint) (auto simp: Int_commute)
    have n: "unat ?n = unat newly - card (range_span run \<inter> range_span r)"
      using Cons.prems(4) unfolding split
      by (simp add: unat_sub_exact word_le_nat_alt range_overlap_card)
    have "?s < ?e" using Cons.prems(1,2) by (simp add: min_less_iff_disj less_max_iff_disj)
    moreover have "\<forall>b\<in>set B. ?s \<le> snd b" using Cons.prems(3) by (auto simp: min_le_iff_disj)
    moreover have "card (range_span r \<inter> rs_set B) \<le> unat ?n"
      using Cons.prems(4) unfolding split n by simp
    ultimately obtain B1 B2 s' e' newly' where
      run: "absorb r B ?s ?e ?n (k + 1) = (s', e', newly', k + 1 + length B1)"
      and abs: "absorbed r B (?s, ?e) (unat ?n) B1 B2 (s', e') newly'"
      using Cons.IH [of ?s ?e ?n "k + 1"] Cons.prems(1) by auto
    have join: "range_span (?s, ?e) = range_span (s, e) \<union> range_span run"
      using True Cons.prems(1-3)
      by (auto simp: range_span_def u64_arith)
    have disj1: "range_span run \<inter> rs_set B1 = {}"
      using disj abs by (auto simp: absorbed_def)
    have card1: "card (range_span r \<inter> rs_set (run # B1))
      = card (range_span run \<inter> range_span r) + card (range_span r \<inter> rs_set B1)"
      unfolding rs_set_simps Int_Un_distrib using disj1
      by (subst card_Un_disjoint) (auto simp: Int_commute)
    have "card (range_span run \<inter> range_span r) \<le> unat newly"
      using Cons.prems(4) unfolding split by simp
    then have "absorbed r (run # B) (s, e) (unat newly) (run # B1) B2 (s', e') newly'"
      using abs unfolding absorbed_def card1 n join by (auto simp: min_def max_def split: if_splits)
    moreover have "absorb r (run # B) s e newly k = (s', e', newly', k + length (run # B1))"
      using True run by simp
    ultimately show ?thesis by blast
  qed
qed

lemma insert_general_spec:
  assumes "rs_ok runs" and "fst r < snd r" and "insert_general runs r = (runs', newly)"
  shows "rs_ok runs' \<and> rs_set runs' = rs_set runs \<union> range_span r
    \<and> unat newly = card (range_span r - rs_set runs)"
proof -
  let ?p = "\<lambda>run :: range. snd run < fst r"
  define A where "A = takeWhile ?p runs"
  define B where "B = dropWhile ?p runs"
  have AB: "runs = A @ B" by (simp add: A_def B_def)
  have ok: "rs_ok A" "rs_ok B" "\<forall>a\<in>set A. \<forall>b\<in>set B. snd a < fst b"
    using assms(1) unfolding AB by simp_all
  have A: "\<forall>a\<in>set A. snd a < fst r" unfolding A_def by (auto dest: set_takeWhileD)
  have B: "\<forall>b\<in>set B. fst r \<le> snd b" unfolding B_def using assms(1) by (auto dest: dropWhile_ends)
  have first: "partition_point ?p runs = length A" by (simp add: partition_point_def A_def)
  have width: "unat (snd r - fst r) = card (range_span r)"
    using assms(2) by (simp add: card_range_span unat_sub_exact)
  then have room: "card (range_span r \<inter> rs_set B) \<le> unat (snd r - fst r)"
    by (simp add: card_mono)
  obtain B1 B2 s e n where
    loop: "absorb r B (fst r) (snd r) (snd r - fst r) (length A) = (s, e, n, length A + length B1)"
    and "absorbed r B (fst r, snd r) (unat (snd r - fst r)) B1 B2 (s, e) n"
    using absorb_absorbed [OF ok(2) assms(2) B room, of "length A"] by blast
  then have abs: "B = B1 @ B2" "s < e" "range_span (s, e) = range_span r \<union> rs_set B1"
    "s = fst r \<or> (\<exists>b\<in>set B1. s = fst b)" "\<forall>b\<in>set B2. e < fst b"
    "unat n + card (range_span r \<inter> rs_set B1) = card (range_span r)" "snd r \<le> e"
    by (auto simp: absorbed_def width)
  have tail: "drop (length A) runs = B" "take (length A) runs = A" by (simp_all add: AB)
  have "insert_general runs r = (A @ [(s, e)] @ B2, n)"
  proof (cases B1 rule: list.exhaust [case_names Nil Cons])
    case Nil
    then have "insert_general runs r = (A @ [(s, e)] @ B, n)"
      using loop by (simp add: insert_general_def first tail Let_def)
    with Nil show ?thesis by (simp add: abs(1))
  next
    case (Cons b bs)
    then have "runs[length A := (s, e)] = A @ [(s, e)] @ bs @ B2" by (simp add: AB abs(1))
    moreover have "drop (length A + length B1) runs = B2" by (simp add: AB abs(1))
    ultimately show ?thesis
      using Cons loop by (simp add: insert_general_def first tail Let_def)
  qed
  then have "runs' = A @ [(s, e)] @ B2 \<and> newly = n" using assms(3) by simp
  moreover have "\<forall>a\<in>set A. snd a < s" using A abs(4) ok(3) abs(1) by auto
  then have "rs_ok (A @ [(s, e)] @ B2)" using ok abs by simp
  moreover have "rs_set (A @ [(s, e)] @ B2) = rs_set runs \<union> range_span r"
    using abs(3) by (auto simp: AB abs(1))
  moreover have "range_span r \<inter> rs_set runs = range_span r \<inter> rs_set B1"
  proof -
    have "range_span r \<inter> rs_set A = {}" "range_span r \<inter> rs_set B2 = {}"
      using A abs(5,7) by (force simp: rs_set_def range_span_def u64_arith)+
    then show ?thesis by (auto simp: AB abs(1))
  qed
  then have "unat n = card (range_span r - rs_set runs)"
    using abs(6) by (simp add: card_Diff_subset_Int)
  ultimately show ?thesis by simp
qed

lemma range_span_snoc:
  "fst l < snd l \<Longrightarrow> snd l = fst r \<Longrightarrow> fst r < snd r \<Longrightarrow> range_span (fst l, snd r) = range_span l \<union> range_span r"
  by (auto simp: range_span_def u64_arith)

lemma range_insert_spec:
  assumes "rs_ok runs" and "range_insert runs r = (runs', newly)"
  shows "rs_ok runs' \<and> rs_set runs' = rs_set runs \<union> range_span r
    \<and> unat newly = card (range_span r - rs_set runs)"
proof (cases "fst r < snd r")
  case False
  then have "range_span r = {}" by (simp add: range_span_def word_less_nat_alt)
  moreover from False have "snd r \<le> fst r" by simp
  ultimately show ?thesis using assms by (simp add: range_insert_def)
next
  case nonempty: True
  then have width: "unat (snd r - fst r) = card (range_span r)" and not_empty: "\<not> snd r \<le> fst r"
    by (simp_all add: card_range_span unat_sub_exact not_le)
  show ?thesis
  proof (cases runs rule: rev_cases)
    case Nil
    with assms nonempty not_empty width show ?thesis by (auto simp: range_insert_def)
  next
    case (snoc init l)
    have l: "fst l < snd l" and init: "rs_ok init" "\<forall>a\<in>set init. snd a < fst l"
      using assms(1) by (simp_all add: snoc)
    have before: "\<forall>a\<in>set init. unat (snd a) < unat (fst l)" using init(2) by (simp add: word_less_nat_alt)
    consider (touch) "snd l = fst r" | (after) "snd l \<noteq> fst r" "snd l < fst r"
      | (inside) "snd l \<noteq> fst r" "\<not> snd l < fst r" "fst l \<le> fst r" "snd r \<le> snd l"
      | (general) "snd l \<noteq> fst r" "\<not> snd l < fst r" "\<not> (fst l \<le> fst r \<and> snd r \<le> snd l)"
      by blast
    then show ?thesis
    proof cases
      case touch
      have "range_span r \<inter> rs_set runs = {}"
        using before l touch by (force simp: snoc rs_set_def range_span_def u64_arith)
      moreover have "runs' = init @ [(fst l, snd r)]" "newly = snd r - fst r"
        using assms(2) not_empty touch by (auto simp: range_insert_def snoc Let_def)
      ultimately show ?thesis
        using init l nonempty touch width range_span_snoc [OF l touch nonempty]
        by (auto simp: snoc Diff_triv Un_assoc)
    next
      case after
      have "range_span r \<inter> rs_set runs = {}"
        using before l after by (force simp: snoc rs_set_def range_span_def u64_arith)
      moreover have "runs' = init @ [l, r]" "newly = snd r - fst r"
        using assms(2) not_empty after by (auto simp: range_insert_def snoc Let_def)
      moreover have "\<forall>a\<in>set init. snd a < fst r" using init(2) l after by fastforce
      ultimately show ?thesis
        using init l nonempty after width by (auto simp: snoc Diff_triv Un_assoc)
    next
      case inside
      then have "runs' = runs" "newly = 0"
        using assms(2) not_empty by (auto simp: range_insert_def snoc Let_def)
      moreover have "range_span r \<subseteq> range_span l"
        using inside by (auto simp: range_span_def u64_arith)
      then have "range_span r \<subseteq> rs_set runs" by (auto simp: snoc)
      then have "rs_set runs \<union> range_span r = rs_set runs" "range_span r - rs_set runs = {}" by auto
      ultimately show ?thesis using assms(1) by simp
    next
      case general
      then have "insert_general runs r = (runs', newly)"
        using assms(2) not_empty by (auto simp: range_insert_def snoc Let_def)
      from insert_general_spec [OF assms(1) nonempty this] show ?thesis .
    qed
  qed
qed

section \<open>Membership and measure\<close>

lemma range_covers_iff:
  assumes "rs_ok runs"
  shows "range_covers runs r \<longleftrightarrow> range_span r \<subseteq> rs_set runs"
proof (cases "fst r < snd r")
  case False
  then have "snd r \<le> fst r" by simp
  then show ?thesis by (simp add: range_covers_def range_span_def word_le_nat_alt)
next
  case True
  then have lt: "unat (fst r) < unat (snd r)" "\<not> snd r \<le> fst r" by (simp_all add: word_less_nat_alt not_le)
  let ?p = "\<lambda>run :: range. snd run < snd r"
  define A where "A = takeWhile ?p runs"
  have A: "unat (snd a) < unat (snd r)" if "a \<in> set A" for a
    using that unfolding A_def by (auto dest: set_takeWhileD simp: word_less_nat_alt)
  show ?thesis
  proof (cases "dropWhile ?p runs")
    case Nil
    then have runs: "runs = A" unfolding A_def by (metis append_Nil2 takeWhile_dropWhile_id)
    have "unat (snd r) - 1 \<notin> rs_set runs"
      using A unfolding runs rs_set_def range_span_def by fastforce
    moreover have "unat (snd r) - 1 \<in> range_span r" using lt by (auto simp: range_span_def)
    moreover have "partition_point ?p runs = length runs"
      by (simp add: partition_point_def flip: A_def) (simp add: runs)
    ultimately show ?thesis using lt by (auto simp: range_covers_def)
  next
    case (Cons b B)
    then have runs: "runs = A @ b # B" unfolding A_def by (metis takeWhile_dropWhile_id)
    have at: "partition_point ?p runs = length A" by (simp add: partition_point_def A_def)
    have b: "snd r \<le> snd b" using dropWhile_ends [OF assms, of b "snd r"] by (simp add: Cons)
    have before: "unat (snd a) < unat (fst b)" if "a \<in> set A" for a
      using assms that unfolding runs by (auto simp: word_less_nat_alt)
    have behind: "unat (fst b) < unat (fst c)" if "c \<in> set B" for c
      using assms that rs_ok_ascending(4) [of b B c] unfolding runs by (simp add: word_less_nat_alt)
    show ?thesis
    proof (cases "fst b \<le> fst r")
      case True
      then have "range_span r \<subseteq> range_span b" using b by (auto simp: range_span_def word_le_nat_alt)
      then have "range_span r \<subseteq> rs_set runs" unfolding runs by auto
      with True b show ?thesis unfolding range_covers_def at Let_def by (simp add: runs)
    next
      case False
      then have "unat (fst r) < unat (fst b)" by (simp add: word_le_nat_alt)
      let ?q = "min (unat (fst b) - 1) (unat (snd r) - 1)"
      have "?q \<notin> range_span a" if "a \<in> set A" for a
        using A [OF that] before [OF that] by (auto simp: range_span_def)
      moreover have "?q \<notin> range_span c" if "c \<in> set (b # B)" for c
        using that behind \<open>unat (fst r) < unat (fst b)\<close> by (fastforce simp: range_span_def)
      ultimately have "?q \<notin> rs_set runs" unfolding runs rs_set_def by auto
      moreover have "?q \<in> range_span r"
        using lt \<open>unat (fst r) < unat (fst b)\<close> by (auto simp: range_span_def)
      ultimately have "\<not> range_span r \<subseteq> rs_set runs" by blast
      then show ?thesis using False lt(2) unfolding range_covers_def at Let_def by (simp add: runs)
    qed
  qed
qed

lemma rs_set_bounded: "rs_set runs \<subseteq> {0..<2 ^ 64 - 1}"
proof
  fix x assume "x \<in> rs_set runs"
  then obtain r where "r \<in> set runs" "unat (fst r) \<le> x" "x < unat (snd r)"
    by (auto simp: rs_set_def range_span_def simp del: split_paired_Ex)
  with unat_lt_2_64 [of "snd r"] have "x < 18446744073709551615" by linarith
  then show "x \<in> {0..<2 ^ 64 - 1}" by simp
qed

lemma card_rs_set_less: "card (rs_set runs) < 2 ^ 64"
proof -
  have "card (rs_set runs) \<le> card {0..<2 ^ 64 - 1 :: nat}" by (intro card_mono rs_set_bounded) simp
  then show ?thesis by simp
qed

lemma card_rs_set_Cons:
  assumes "rs_ok (r # rs)"
  shows "card (rs_set (r # rs)) = unat (snd r - fst r) + card (rs_set rs)"
proof -
  have "range_span r \<inter> rs_set rs = {}"
    using assms by (force simp: rs_set_def range_span_def u64_arith)
  then have "card (rs_set (r # rs)) = card (range_span r) + card (rs_set rs)"
    by (simp add: card_Un_disjoint)
  moreover have "fst r \<le> snd r" using assms by (simp add: order_less_imp_le)
  ultimately show ?thesis by (simp add: card_range_span unat_sub_exact)
qed

lemma covered_len_fold:
  "rs_ok rs \<Longrightarrow> unat acc + card (rs_set rs) < 2 ^ 64
   \<Longrightarrow> unat (fold (\<lambda>r acc. acc + (snd r - fst r)) rs acc) = unat acc + card (rs_set rs)"
proof (induction rs arbitrary: acc)
  case (Cons r rs)
  have "unat acc + unat (snd r - fst r) < 2 ^ LENGTH(64)"
    using Cons.prems card_rs_set_Cons [OF Cons.prems(1)] by simp
  then have "unat (acc + (snd r - fst r)) = unat acc + unat (snd r - fst r)" by (rule unat_add_exact)
  with Cons.IH [of "acc + (snd r - fst r)"] Cons.prems card_rs_set_Cons [OF Cons.prems(1)]
  show ?case by simp
qed simp

lemma covered_len_card: "rs_ok runs \<Longrightarrow> unat (covered_len runs) = card (rs_set runs)"
  unfolding covered_len_def using covered_len_fold [of runs 0] card_rs_set_less [of runs] by simp

section \<open>Runs and gaps inside a scope\<close>

definition clip :: "range \<Rightarrow> range \<Rightarrow> range" where
  "clip scope run = (max (fst run) (fst scope), min (snd run) (snd scope))"

lemma runs_within_clip:
  "runs_within runs scope =
     map (clip scope) (takeWhile (\<lambda>run. fst run < snd scope) (dropWhile (\<lambda>run. snd run \<le> fst scope) runs))"
  by (simp add: runs_within_def partition_point_def clip_def [abs_def] Let_def dropWhile_eq_drop)

lemma range_span_clip: "range_span (clip scope run) = range_span run \<inter> range_span scope"
  by (auto simp: range_span_def clip_def u64_arith unat_min unat_max)

lemma clip_apart: "snd a < fst b \<Longrightarrow> snd (clip scope a) < fst (clip scope b)"
  by (simp add: clip_def min_less_iff_disj less_max_iff_disj)

lemma runs_within_spec:
  assumes "rs_ok runs" and "fst scope < snd scope"
  shows "rs_ok (runs_within runs scope)"
    and "rs_set (runs_within runs scope) = rs_set runs \<inter> range_span scope"
    and "r \<in> set (runs_within runs scope) \<Longrightarrow> fst scope \<le> fst r \<and> snd r \<le> snd scope"
proof -
  define A where "A = takeWhile (\<lambda>run. snd run \<le> fst scope) runs"
  define C where "C = dropWhile (\<lambda>run. snd run \<le> fst scope) runs"
  define D where "D = takeWhile (\<lambda>run. fst run < snd scope) C"
  define E where "E = dropWhile (\<lambda>run. fst run < snd scope) C"
  have runs: "runs = A @ D @ E" by (simp add: A_def C_def D_def E_def)
  have within: "runs_within runs scope = map (clip scope) D" by (simp add: runs_within_clip D_def C_def)
  have A: "snd a \<le> fst scope" if "a \<in> set A" for a
    using that unfolding A_def by (auto dest: set_takeWhileD)
  have "fst scope < snd d" if "d \<in> set C" for d
    using that assms(1) unfolding C_def by (auto dest: dropWhile_ends_le)
  then have D: "fst scope < snd d" "fst d < snd scope" if "d \<in> set D" for d
    using set_takeWhileD [OF that [unfolded D_def]] by blast+
  have E: "snd scope \<le> fst x" if "x \<in> set E" for x
  proof (cases E)
    case (Cons y ys)
    have "\<not> fst y < snd scope" using Cons hd_dropWhile [of "\<lambda>run. fst run < snd scope" C] by (simp add: E_def)
    moreover have "fst y \<le> fst x"
      using that assms(1) rs_ok_ascending(4) [of y ys x] unfolding runs Cons by auto
    ultimately show ?thesis by simp
  qed (use that in simp)
  have outside: "range_span a \<inter> range_span scope = {}" if "a \<in> set A \<union> set E" for a
  proof -
    have "snd a \<le> fst scope \<or> snd scope \<le> fst a" using that A E by blast
    then show ?thesis by (auto simp: range_span_def word_le_nat_alt)
  qed
  have "rs_set (map (clip scope) D) = rs_set D \<inter> range_span scope"
    by (simp add: rs_set_def range_span_clip)
  moreover have "rs_set A \<inter> range_span scope = {}" "rs_set E \<inter> range_span scope = {}"
    using outside unfolding rs_set_def by blast+
  ultimately show "rs_set (runs_within runs scope) = rs_set runs \<inter> range_span scope"
    unfolding within by (subst runs) (simp only: rs_set_simps Int_Un_distrib2 Un_empty_left Un_empty_right)
  have "rs_ok D" using assms(1) unfolding runs by simp
  moreover have "fst (clip scope d) < snd (clip scope d)" if "d \<in> set D" for d
    using D [OF that] rs_ok_runs [OF assms(1), of d] assms(2) that unfolding runs by (simp add: clip_def)
  moreover have "sorted_wrt (\<lambda>a b. snd (clip scope a) < fst (clip scope b)) D"
  proof (rule sorted_wrt_mono_rel [of D "\<lambda>a b. snd a < fst b"])
    show "snd (clip scope a) < fst (clip scope b)" if "snd a < fst b" for a b
      using that by (rule clip_apart)
    show "sorted_wrt (\<lambda>a b. snd a < fst b) D" using \<open>rs_ok D\<close> unfolding rs_ok_def by (rule conjunct2)
  qed
  ultimately show "rs_ok (runs_within runs scope)"
    unfolding within by (simp add: rs_ok_def sorted_wrt_map)
  show "fst scope \<le> fst r \<and> snd r \<le> snd scope" if "r \<in> set (runs_within runs scope)"
    using that unfolding within by (auto simp: clip_def)
qed

text \<open>The iterator, run to its end, as a recursion over the clipped runs.\<close>

fun gaps_between :: "u64 \<Rightarrow> range list \<Rightarrow> u64 \<Rightarrow> range list" where
  "gaps_between cursor [] stop = (if cursor < stop then [(cursor, stop)] else [])"
| "gaps_between cursor (run # rest) stop =
     (if cursor < fst run then [(cursor, fst run)] else []) @ gaps_between (snd run) rest stop"

lemma gap_collect_done: "gi_done g \<Longrightarrow> gap_collect g = []"
  by (subst gap_collect.simps) (simp add: gap_next_def)

lemma gap_collect_between:
  "gap_collect \<lparr>gi_inner = rs, gi_cursor = cur, gi_end = stop, gi_done = False\<rparr> = gaps_between cur rs stop"
proof (induction rs arbitrary: cur)
  case Nil
  then show ?case by (subst gap_collect.simps) (simp add: gap_next_def gap_collect_done)
next
  case (Cons run rs)
  let ?g = "\<lambda>rs cur. \<lparr>gi_inner = rs, gi_cursor = cur, gi_end = stop, gi_done = False\<rparr>"
  show ?case
  proof (cases "cur < fst run")
    case True
    then show ?thesis by (subst gap_collect.simps) (simp add: gap_next_def Cons.IH)
  next
    case False
    then have "gap_next (?g (run # rs) cur) = gap_next (?g rs (snd run))"
      by (simp add: gap_next_def split: prod.splits option.splits)
    then have "gap_collect (?g (run # rs) cur) = gap_collect (?g rs (snd run))"
      by (subst (1 2) gap_collect.simps) simp
    with False Cons.IH show ?thesis by simp
  qed
qed

lemma range_gaps_between: "range_gaps runs scope = gaps_between (fst scope) (runs_within runs scope) (snd scope)"
  by (simp add: range_gaps_def gap_collect_between)

lemma gaps_between_bounds:
  assumes "g \<in> set (gaps_between cur rs stop)" "rs_ok rs" "\<forall>r\<in>set rs. cur \<le> fst r \<and> snd r \<le> stop"
  shows "cur \<le> fst g \<and> fst g < snd g \<and> snd g \<le> stop"
  using assms
proof (induction cur rs stop rule: gaps_between.induct)
  case (2 cur run rest stop)
  have nxt: "\<forall>r\<in>set rest. snd run \<le> fst r \<and> snd r \<le> stop" using "2.prems"(2,3) by auto
  have "cur \<le> snd run" "fst run < snd run" using "2.prems"(2,3) by auto
  then show ?case
    using "2.IH" [OF _ _ nxt] "2.prems" by (auto split: if_splits intro: order_trans)
qed (auto split: if_splits)

lemma gaps_between_set:
  assumes "rs_ok rs" "\<forall>r\<in>set rs. cur \<le> fst r \<and> snd r \<le> stop" "cur \<le> stop"
  shows "rs_set (gaps_between cur rs stop) = {unat cur..<unat stop} - rs_set rs"
    and "rs_ok (gaps_between cur rs stop)"
  using assms
proof (induction cur rs stop rule: gaps_between.induct)
  case (1 cur stop)
  case 1 then show ?case by (auto simp: range_span_def u64_arith)
  case 2 then show ?case by simp
next
  case (2 cur run rest stop)
  {
    assume ok: "rs_ok (run # rest)" and bounds: "\<forall>r\<in>set (run # rest). cur \<le> fst r \<and> snd r \<le> stop"
    then have nxt: "rs_ok rest" "\<forall>r\<in>set rest. snd run \<le> fst r \<and> snd r \<le> stop" "snd run \<le> stop" by auto
    note IH = "2.IH" [OF nxt]
    have run: "cur \<le> fst run" "fst run < snd run" using ok bounds by auto
    have above: "rs_set rest \<subseteq> {unat (snd run)..}"
      using nxt(2) by (force simp: rs_set_def range_span_def word_le_nat_alt)
    have "rs_set (gaps_between cur (run # rest) stop)
      = {unat cur..<unat (fst run)} \<union> ({unat (snd run)..<unat stop} - rs_set rest)"
      using IH run by (auto simp: range_span_def u64_arith)
    also have "\<dots> = {unat cur..<unat stop} - rs_set (run # rest)"
      using above run nxt(3) by (auto simp: range_span_def u64_arith)
    finally have set: "rs_set (gaps_between cur (run # rest) stop) = {unat cur..<unat stop} - rs_set (run # rest)" .
    have "rs_ok (gaps_between cur (run # rest) stop)"
      using IH(2) run gaps_between_bounds [OF _ nxt(1,2)] by (auto intro: less_le_trans)
    note set this
  }
  note facts = this
  case 1 then show ?case by (intro facts(1))
  case 2 then show ?case by (intro facts(2))
qed

lemma range_gaps_empty_scope: "snd scope \<le> fst scope \<Longrightarrow> rs_ok runs \<Longrightarrow> range_gaps runs scope = []"
proof -
  assume empty: "snd scope \<le> fst scope" and ok: "rs_ok runs"
  define rs where "rs = takeWhile (\<lambda>run. fst run < snd scope) (dropWhile (\<lambda>run. snd run \<le> fst scope) runs)"
  have sub: "rs_ok rs"
    using ok unfolding rs_def rs_ok_def
    by (auto dest!: set_takeWhileD set_dropWhileD intro!: sorted_wrt_takeWhile sorted_wrt_dropWhile)
  have spans: "fst scope < snd r \<and> fst r < snd scope" if "r \<in> set rs" for r
    using that dropWhile_ends_le [OF ok, of r "fst scope"] unfolding rs_def by (blast dest: set_takeWhileD)
  then have clipped: "clip scope r = scope" if "r \<in> set rs" for r
    using that empty by (fastforce simp: clip_def max_def min_def)
  have "gaps_between (fst scope) (map (clip scope) rs) (snd scope) = []"
  proof (cases rs)
    case Nil
    then show ?thesis using empty by (simp add: not_less)
  next
    case (Cons r rest)
    moreover have "rest = []"
    proof (cases rest)
      case (Cons r' rest')
      then have "snd r < fst r'" "fst r' < snd scope" "fst scope < snd r"
        using sub spans \<open>rs = r # rest\<close> by simp_all
      then have "snd scope < snd scope" using empty by (meson less_trans less_le_trans le_less_trans)
      then show ?thesis by simp
    qed simp
    ultimately show ?thesis using clipped by simp
  qed
  then show "range_gaps runs scope = []"
    unfolding range_gaps_between runs_within_clip rs_def .
qed

lemma range_gaps_spec:
  assumes "rs_ok runs"
  shows "rs_ok (range_gaps runs scope)"
    and "rs_set (range_gaps runs scope) = range_span scope - rs_set runs"
proof -
  have "rs_ok (range_gaps runs scope) \<and> rs_set (range_gaps runs scope) = range_span scope - rs_set runs"
  proof (cases "fst scope < snd scope")
    case True
    note within = runs_within_spec [OF assms True]
    have bounds: "\<forall>r\<in>set (runs_within runs scope). fst scope \<le> fst r \<and> snd r \<le> snd scope"
      using within(3) by blast
    have "range_span scope - (rs_set runs \<inter> range_span scope) = range_span scope - rs_set runs" by blast
    with gaps_between_set [OF within(1) bounds] within(2) True show ?thesis
      by (simp add: range_gaps_between range_span_def)
  next
    case False
    then have "snd scope \<le> fst scope" by simp
    with range_gaps_empty_scope [OF this assms] show ?thesis
      by (simp add: range_span_def word_le_nat_alt)
  qed
  then show "rs_ok (range_gaps runs scope)"
    and "rs_set (range_gaps runs scope) = range_span scope - rs_set runs" by simp_all
qed

section \<open>The interface the sessions use\<close>

text \<open>A set of byte extents: what a session may assume of inserting, testing and listing the gaps.\<close>

locale extent_set =
  fixes empty_set :: 's
    and ins :: "'s \<Rightarrow> range \<Rightarrow> 's \<times> u64"
    and covers :: "'s \<Rightarrow> range \<Rightarrow> bool"
    and gaps :: "'s \<Rightarrow> range \<Rightarrow> range list"
    and elems :: "'s \<Rightarrow> nat set"
    and ok :: "'s \<Rightarrow> bool"
  assumes empty_ok: "ok empty_set" and elems_empty: "elems empty_set = {}"
    and ins_ok: "ok s \<Longrightarrow> ok (fst (ins s r))"
    and elems_ins: "ok s \<Longrightarrow> elems (fst (ins s r)) = elems s \<union> range_span r"
    and ins_count: "ok s \<Longrightarrow> unat (snd (ins s r)) = card (range_span r - elems s)"
    and covers_iff: "ok s \<Longrightarrow> covers s r \<longleftrightarrow> range_span r \<subseteq> elems s"
    and gaps_set: "ok s \<Longrightarrow> (\<Union>g\<in>set (gaps s r). range_span g) = range_span r - elems s"
    and gaps_nonempty: "ok s \<Longrightarrow> g \<in> set (gaps s r) \<Longrightarrow> fst g < snd g"
begin

definition of_list :: "range list \<Rightarrow> 's" where
  "of_list rs = fold (\<lambda>r s. fst (ins s r)) rs empty_set"

lemma fold_ins:
  "ok s \<Longrightarrow> ok (fold (\<lambda>r s. fst (ins s r)) rs s)
    \<and> elems (fold (\<lambda>r s. fst (ins s r)) rs s) = elems s \<union> (\<Union>r\<in>set rs. range_span r)"
  by (induction rs arbitrary: s) (auto simp: ins_ok elems_ins)

lemma of_list_spec: "ok (of_list rs) \<and> elems (of_list rs) = (\<Union>r\<in>set rs. range_span r)"
  using fold_ins [OF empty_ok, of rs] by (simp add: of_list_def elems_empty)

lemma gaps_Nil_iff: "ok s \<Longrightarrow> gaps s r = [] \<longleftrightarrow> covers s r"
proof -
  assume s: "ok s"
  have "gaps s r = [] \<longleftrightarrow> (\<Union>g\<in>set (gaps s r). range_span g) = {}"
    using gaps_nonempty [OF s, of _ r]
    by (cases "gaps s r") (force simp: range_span_def word_less_nat_alt)+
  with s show ?thesis by (auto simp: gaps_set covers_iff)
qed

lemma insert_covers: "ok s \<Longrightarrow> covers (fst (ins s r)) r"
  by (simp add: covers_iff ins_ok elems_ins)

lemma insert_covered: "ok s \<Longrightarrow> covers s r \<Longrightarrow> snd (ins s r) = 0 \<and> elems (fst (ins s r)) = elems s"
  by (auto simp: covers_iff elems_ins ins_count simp flip: unat_eq_zero)

end

interpretation rset: extent_set range_set_new range_insert range_covers range_gaps rs_set rs_ok
proof unfold_locales
  fix s :: range_set and r g :: range
  show "rs_ok range_set_new" "rs_set range_set_new = {}" by (simp_all add: range_set_new_def)
  assume ok: "rs_ok s"
  note ins = range_insert_spec [OF ok, of r "fst (range_insert s r)" "snd (range_insert s r)"]
  show "rs_ok (fst (range_insert s r))" "rs_set (fst (range_insert s r)) = rs_set s \<union> range_span r"
    "unat (snd (range_insert s r)) = card (range_span r - rs_set s)"
    using ins by simp_all
  show "range_covers s r \<longleftrightarrow> range_span r \<subseteq> rs_set s" by (rule range_covers_iff [OF ok])
  show "(\<Union>g\<in>set (range_gaps s r). range_span g) = range_span r - rs_set s"
    using range_gaps_spec(2) [OF ok] by (simp add: rs_set_def)
  show "fst g < snd g" if "g \<in> set (range_gaps s r)"
    using that range_gaps_spec(1) [OF ok, of r] by (rule rs_ok_runs [rotated])
qed

section \<open>Properties\<close>

text \<open>\<^verbatim>\<open>RangeSet::insert\<close>, through its three fast paths and its absorbing loop, keeps the runs non-empty,
  sorted and separated, adds exactly the values of the inserted range, and returns how many of
  them are new, without any wrap-around.\<close>

theorem range_insert_correct:
  assumes "rs_ok runs" and "range_insert runs r = (runs', newly)"
  shows "rs_ok runs' \<and> rs_set runs' = rs_set runs \<union> range_span r
    \<and> unat newly = card (range_span r - rs_set runs)"
  using assms by (rule range_insert_spec)

text \<open>The general path, absorbing two of three runs.\<close>

theorem range_insert_correct_witness:
  "rs_ok [(10, 40), (50, 60)] \<and> rs_set [(10, 40), (50, 60)] = rs_set [(10, 20), (30, 40), (50, 60)] \<union> range_span (15, 32)
    \<and> unat (10 :: u64) = card (range_span (15, 32) - rs_set [(10, 20), (30, 40), (50, 60)])"
  by (rule range_insert_correct)
    (simp_all add: range_insert_def insert_general_def partition_point_def range_overlap_def sat_sub_def Let_def)

text \<open>the gaps of a scope are sorted, non-empty and separated, and they are exactly the values of the
  scope that are not in the set, whatever runs the vector holds and also for an empty scope.\<close>

theorem range_gaps_correct:
  assumes "rs_ok runs"
  shows "rs_ok (range_gaps runs scope) \<and> rs_set (range_gaps runs scope) = range_span scope - rs_set runs"
  using range_gaps_spec [OF assms] by blast

theorem range_gaps_correct_witness:
  "rs_ok (range_gaps [(10, 20), (30, 40)] (0, 50))
   \<and> rs_set (range_gaps [(10, 20), (30, 40)] (0, 50)) = range_span (0, 50) - rs_set [(10, 20), (30, 40)]"
  by (rule range_gaps_correct) simp

text \<open>However a set was built, by any sequence of insertions, \<^verbatim>\<open>covers\<close> answers whether all of a range was
  inserted, \<^verbatim>\<open>gaps\<close> is empty in just that case, and \<^verbatim>\<open>covered_len\<close> counts the inserted values
  without overflow.\<close>

theorem range_set_built_correct:
  "(range_covers (rset.of_list rs) r \<longleftrightarrow> range_span r \<subseteq> (\<Union>x\<in>set rs. range_span x))
   \<and> (range_gaps (rset.of_list rs) r = [] \<longleftrightarrow> range_covers (rset.of_list rs) r)
   \<and> unat (covered_len (rset.of_list rs)) = card (\<Union>x\<in>set rs. range_span x)"
  using rset.of_list_spec [of rs] rset.gaps_Nil_iff
  by (simp add: range_covers_iff covered_len_card)

end
