(* ===== verification/Ordered_Map.thy ===== *)
theory Ordered_Map
  imports Prelude
begin

text \<open>
  The ordered containers of the Rust standard library as the sources use them: a
  \<^verbatim>\<open>BTreeMap\<close> is a list of entries with ascending keys, a \<^verbatim>\<open>BTreeSet\<close> an ascending list.
  The locale \<open>key_store\<close> holds what the engine relies on: lookups after an update, and that
  a predicate on all the entries survives the updates that keep it.
\<close>

section \<open>Maps\<close>

type_synonym ('k, 'v) btree = "('k \<times> 'v) list"

definition bt_get :: "('k, 'v) btree \<Rightarrow> 'k \<Rightarrow> 'v option" where
  "bt_get m k = map_of m k"

fun bt_insert :: "'k::linorder \<Rightarrow> 'v \<Rightarrow> ('k, 'v) btree \<Rightarrow> ('k, 'v) btree" where
  "bt_insert k v [] = [(k, v)]"
| "bt_insert k v (e # m) =
     (if k = fst e then (k, v) # m
      else if k < fst e then (k, v) # e # m
      else e # bt_insert k v m)"

definition bt_remove :: "'k \<Rightarrow> ('k, 'v) btree \<Rightarrow> ('k, 'v) btree" where
  "bt_remove k m = filter (\<lambda>e. fst e \<noteq> k) m"

definition bt_ok :: "('k::linorder, 'v) btree \<Rightarrow> bool" where
  "bt_ok m \<longleftrightarrow> sorted_wrt (<) (map fst m)"

lemma bt_get_Nil [simp]: "bt_get [] = Map.empty"
  by (rule ext) (simp add: bt_get_def)

lemma bt_get_insert [simp]: "bt_get (bt_insert k v m) = (bt_get m)(k \<mapsto> v)"
  by (induction m) (auto simp: bt_get_def fun_eq_iff)

lemma bt_get_remove [simp]: "bt_get (bt_remove k m) = (bt_get m)(k := None)"
  by (induction m) (auto simp: bt_get_def bt_remove_def fun_eq_iff)

lemma keys_bt_insert: "fst ` set (bt_insert k v m) = insert k (fst ` set m)"
  by (induction m) auto

lemma bt_ok_Nil [simp]: "bt_ok []"
  by (simp add: bt_ok_def)

lemma bt_ok_Cons: "bt_ok (e # m) \<longleftrightarrow> (\<forall>x\<in>set m. fst e < fst x) \<and> bt_ok m"
  by (auto simp: bt_ok_def)

lemma bt_ok_insert [simp]: "bt_ok m \<Longrightarrow> bt_ok (bt_insert k v m)"
proof (induction m)
  case (Cons e m)
  have "\<forall>y\<in>fst ` set (bt_insert k v m). fst e < y" if "fst e < k"
    using that Cons.prems unfolding keys_bt_insert by (auto simp: bt_ok_Cons)
  with Cons show ?case by (fastforce simp: bt_ok_Cons)
qed (simp add: bt_ok_def)

lemma bt_ok_remove [simp]: "bt_ok m \<Longrightarrow> bt_ok (bt_remove k m)"
  by (induction m) (auto simp: bt_ok_Cons bt_remove_def)

lemma dom_bt_get: "dom (bt_get m) = fst ` set m"
  by (simp add: bt_get_def [abs_def] dom_map_of_conv_image_fst)

lemma bt_ok_distinct: "bt_ok m \<Longrightarrow> distinct (map fst m)"
  by (simp add: bt_ok_def strict_sorted_iff)

lemma length_bt: "bt_ok m \<Longrightarrow> length m = card (dom (bt_get m))"
  using distinct_card [of "map fst m"] by (simp add: bt_ok_distinct dom_bt_get)

lemma bt_get_in_set: "bt_ok m \<Longrightarrow> (k, v) \<in> set m \<longleftrightarrow> bt_get m k = Some v"
  by (simp add: bt_get_def bt_ok_distinct)

lemma bt_get_first:
  assumes "bt_ok ((k, v) # m)"
  shows "bt_get ((k, v) # m) k = Some v" "k' \<in> dom (bt_get ((k, v) # m)) \<Longrightarrow> k \<le> k'"
    "bt_get m = (bt_get ((k, v) # m))(k := None)"
proof -
  show "bt_get ((k, v) # m) k = Some v" by (simp add: bt_get_def)
  show "k \<le> k'" if "k' \<in> dom (bt_get ((k, v) # m))"
    using that assms unfolding dom_bt_get by (auto simp: bt_ok_Cons)
  have "k \<notin> dom (bt_get m)" using assms unfolding dom_bt_get by (auto simp: bt_ok_Cons)
  then show "bt_get m = (bt_get ((k, v) # m))(k := None)" by (auto simp: bt_get_def fun_eq_iff dom_def)
qed

section \<open>The interface of a keyed store\<close>

locale key_store =
  fixes get :: "'m \<Rightarrow> 'k \<Rightarrow> 'v option"
    and put :: "'k \<Rightarrow> 'v \<Rightarrow> 'm \<Rightarrow> 'm"
    and del :: "'k \<Rightarrow> 'm \<Rightarrow> 'm"
    and empty_store :: 'm
  assumes get_put: "get (put k v m) = (get m)(k \<mapsto> v)"
    and get_del: "get (del k m) = (get m)(k := None)"
    and get_empty: "get empty_store = Map.empty"
begin

text \<open>All entries satisfy \<open>P\<close>.\<close>

definition entries :: "('k \<Rightarrow> 'v \<Rightarrow> bool) \<Rightarrow> 'm \<Rightarrow> bool" where
  "entries P m \<longleftrightarrow> (\<forall>k v. get m k = Some v \<longrightarrow> P k v)"

lemma entries_empty: "entries P empty_store"
  by (simp add: entries_def get_empty)

lemma entries_put: "entries P m \<Longrightarrow> P k v \<Longrightarrow> entries P (put k v m)"
  by (simp add: entries_def get_put)

lemma entries_del: "entries P m \<Longrightarrow> entries P (del k m)"
  by (simp add: entries_def get_del)

lemma entriesD: "entries P m \<Longrightarrow> get m k = Some v \<Longrightarrow> P k v"
  by (simp add: entries_def)

lemma entries_mono: "entries P m \<Longrightarrow> (\<And>k v. P k v \<Longrightarrow> Q k v) \<Longrightarrow> entries Q m"
  by (simp add: entries_def)

end

interpretation bt: key_store bt_get bt_insert bt_remove "[]"
  by unfold_locales simp_all

section \<open>Sets\<close>

definition bs_insert :: "'a::linorder \<Rightarrow> 'a list \<Rightarrow> 'a list" where
  "bs_insert x s = (if x \<in> set s then s else insort x s)"

definition bs_remove :: "'a \<Rightarrow> 'a list \<Rightarrow> 'a list" where
  "bs_remove x s = filter (\<lambda>y. y \<noteq> x) s"

definition bs_ok :: "'a::linorder list \<Rightarrow> bool" where
  "bs_ok s \<longleftrightarrow> sorted s \<and> distinct s"

lemma set_bs_insert [simp]: "set (bs_insert x s) = insert x (set s)"
  by (auto simp: bs_insert_def set_insort_key)

lemma set_bs_remove [simp]: "set (bs_remove x s) = set s - {x}"
  by (auto simp: bs_remove_def)

lemma bs_ok_insert [simp]: "bs_ok s \<Longrightarrow> bs_ok (bs_insert x s)"
  by (simp add: bs_ok_def bs_insert_def sorted_insort distinct_insort)

lemma bs_ok_remove [simp]: "bs_ok s \<Longrightarrow> bs_ok (bs_remove x s)"
  by (simp add: bs_ok_def bs_remove_def sorted_wrt_filter)

lemma bs_ok_Cons: "bs_ok (x # s) \<longleftrightarrow> (\<forall>y\<in>set s. x < y) \<and> bs_ok s"
  by (auto simp: bs_ok_def order_le_less)

lemma bs_ok_Nil [simp]: "bs_ok []"
  by (simp add: bs_ok_def)

end
