(* ===== verification/Session.thy ===== *)
theory Session
  imports Segment Range_Set Ordered_Map
begin

text \<open>
  The send and receive sessions of the engine (\<^verbatim>\<open>ltp/src/engine/session.rs\<close>) and the reassembly of
  the red part.  A Rust function that can panic returns an option, \<open>None\<close> being the panic;
  that it never happens is proved here and, for the engine, in its own theories.
\<close>

section \<open>Send sessions\<close>

record checkpoint_record =
  cpr_serial :: u64
  cpr_report_serial :: u64
  cpr_offset :: u64
  cpr_length :: u64
  cpr_is_eorp :: bool
  cpr_is_eob :: bool
  cpr_retries :: u32
  cpr_transmitted_at :: u64

record send_session =
  ss_id :: session_id
  ss_peer :: engine_id
  ss_client_service :: u64
  ss_block :: bytes
  ss_red_len :: u64
  ss_last_cp_serial :: u64
  ss_checkpoints :: "(u64, checkpoint_record) btree"
  ss_claims_received :: range_set
  ss_report_serials_seen :: "u64 list"
  ss_eob_sent :: bool
  ss_last_activity :: u64
  ss_cancel_reason :: "cancel_reason option"
  ss_cancel_retries :: u32

definition send_session_new ::
    "session_id \<Rightarrow> engine_id \<Rightarrow> u64 \<Rightarrow> bytes \<Rightarrow> u64 \<Rightarrow> u64 \<Rightarrow> u64 \<Rightarrow> send_session" where
  "send_session_new sid peer client_service block red_len initial_cp_serial now =
     \<lparr>ss_id = sid, ss_peer = peer, ss_client_service = client_service, ss_block = block,
      ss_red_len = red_len, ss_last_cp_serial = initial_cp_serial, ss_checkpoints = [],
      ss_claims_received = range_set_new, ss_report_serials_seen = [], ss_eob_sent = False,
      ss_last_activity = now, ss_cancel_reason = None, ss_cancel_retries = 0\<rparr>"

definition is_complete :: "send_session \<Rightarrow> bool" where
  "is_complete s \<longleftrightarrow> ss_eob_sent s \<and> range_covers (ss_claims_received s) (0, ss_red_len s)"

section \<open>Receive sessions\<close>

record report_record =
  rr_report :: report_segment
  rr_retries :: u32
  rr_acked :: bool
  rr_transmitted_at :: u64

record recv_session =
  rv_id :: session_id
  rv_peer :: engine_id
  rv_client_service :: u64
  rv_red_buf :: bytes
  rv_red_received :: range_set
  rv_red_part_len :: "u64 option"
  rv_block_len :: "u64 option"
  rv_red_ends_block :: bool
  rv_last_report_serial :: u64
  rv_reports :: "(u64, report_record) btree"
  rv_cp_serials_answered :: "(u64, u64 list) btree"
  rv_reported_coverage :: range_set
  rv_red_delivered :: bool
  rv_last_activity :: u64
  rv_sparse_red :: "(u64, bytes) btree"
  rv_total_received_bytes :: u64
  rv_min_green_offset :: "u64 option"
  rv_max_red_end :: u64
  rv_cancel_reason :: "cancel_reason option"
  rv_cancel_retries :: u32

definition recv_session_new :: "session_id \<Rightarrow> engine_id \<Rightarrow> u64 \<Rightarrow> u64 \<Rightarrow> u64 \<Rightarrow> recv_session" where
  "recv_session_new sid peer client_service initial_rs_serial now =
     \<lparr>rv_id = sid, rv_peer = peer, rv_client_service = client_service, rv_red_buf = [],
      rv_red_received = range_set_new, rv_red_part_len = None, rv_block_len = None,
      rv_red_ends_block = False, rv_last_report_serial = initial_rs_serial, rv_reports = [],
      rv_cp_serials_answered = [], rv_reported_coverage = range_set_new, rv_red_delivered = False,
      rv_last_activity = now, rv_sparse_red = [], rv_total_received_bytes = 0,
      rv_min_green_offset = None, rv_max_red_end = 0, rv_cancel_reason = None, rv_cancel_retries = 0\<rparr>"

text \<open>\<^verbatim>\<open>v.resize(n, 0)\<close>, and \<^verbatim>\<open>v[a..b].copy_from_slice(data)\<close>, which panics where the slice is out of range
  or of another length than \<open>data\<close>.\<close>

definition vec_resize :: "nat \<Rightarrow> bytes \<Rightarrow> bytes" where
  "vec_resize n xs = take n xs @ replicate (n - length xs) 0"

definition slice_copy :: "bytes \<Rightarrow> nat \<Rightarrow> nat \<Rightarrow> bytes \<Rightarrow> bytes option" where
  "slice_copy xs a b data =
     (if a \<le> b \<and> b \<le> length xs \<and> length data = b - a
      then Some (take a xs @ data @ drop b xs) else None)"

text \<open>The buffer is resized only where it is too short.\<close>

definition vec_grow :: "nat \<Rightarrow> bytes \<Rightarrow> bytes" where
  "vec_grow n xs = (if length xs < n then vec_resize n xs else xs)"

text \<open>The loop that moves the sparse segments the buffer has reached into it.\<close>

fun connect_sparse ::
    "(u64, bytes) btree \<Rightarrow> bytes \<Rightarrow> u64 \<Rightarrow> ((u64, bytes) btree \<times> bytes \<times> u64) option" where
  "connect_sparse [] buf tot = Some ([], buf, tot)"
| "connect_sparse ((sp_offset, sp_bytes) # rest) buf tot =
     (if unat sp_offset \<le> length buf
      then let tot = sat_sub tot (vec_len sp_bytes);
               sp_end = unat (sat_add sp_offset (vec_len sp_bytes));
               buf = vec_grow sp_end buf
           in case slice_copy buf (unat sp_offset) sp_end sp_bytes of
                None \<Rightarrow> None
              | Some buf \<Rightarrow> connect_sparse rest buf tot
      else Some ((sp_offset, sp_bytes) # rest, buf, tot))"

definition insert_red :: "u64 \<Rightarrow> bytes \<Rightarrow> u64 \<Rightarrow> recv_session \<Rightarrow> (bool \<times> recv_session) option" where
  "insert_red offset data max_block_size s =
     (case checked_add offset (vec_len data) of
        None \<Rightarrow> Some (False, s)
      | Some end_off \<Rightarrow>
          if max_block_size < end_off then Some (False, s)
          else if range_covers (rv_red_received s) (offset, end_off) then Some (True, s)
          else let start_idx = unat offset;
                   end_idx = unat end_off;
                   s = s\<lparr>rv_max_red_end := max (rv_max_red_end s) end_off\<rparr>
               in if start_idx \<le> length (rv_red_buf s)
                  then let buf = vec_grow end_idx (rv_red_buf s)
                       in case slice_copy buf start_idx end_idx data of
                            None \<Rightarrow> None
                          | Some buf \<Rightarrow>
                              (case connect_sparse (rv_sparse_red s) buf (rv_total_received_bytes s) of
                                 None \<Rightarrow> None
                               | Some (sparse, buf, tot) \<Rightarrow>
                                   Some (True,
                                     s\<lparr>rv_red_buf := buf,
                                       rv_red_received := fst (range_insert (rv_red_received s) (offset, end_off)),
                                       rv_sparse_red := sparse, rv_total_received_bytes := tot\<rparr>))
                  else if max_block_size < sat_add (rv_total_received_bytes s) (vec_len data)
                  then Some (False, s)
                  else Some (True,
                    s\<lparr>rv_sparse_red := bt_insert offset data (rv_sparse_red s),
                      rv_total_received_bytes := rv_total_received_bytes s + vec_len data,
                      rv_red_received := fst (range_insert (rv_red_received s) (offset, end_off))\<rparr>))"

definition is_red_complete :: "recv_session \<Rightarrow> bool" where
  "is_red_complete s =
     (case rv_red_part_len s of
        Some len \<Rightarrow> range_covers (rv_red_received s) (0, len)
      | None \<Rightarrow> False)"

text \<open>The branches of \<open>insert_red\<close>.\<close>

lemma insert_red_rejected: "checked_add off (vec_len d) = None \<Longrightarrow> insert_red off d limit s = Some (False, s)"
  by (simp add: insert_red_def)

lemma insert_red_done:
  assumes "checked_add off (vec_len d) = Some e" "limit < e \<or> range_covers (rv_red_received s) (off, e)"
  shows "insert_red off d limit s = Some (\<not> limit < e, s)"
  using assms by (auto simp: insert_red_def)

lemma insert_red_contiguous:
  assumes "checked_add off (vec_len d) = Some e" "\<not> (limit < e \<or> range_covers (rv_red_received s) (off, e))"
    and "unat off \<le> length (rv_red_buf s)"
    and "slice_copy (vec_grow (unat e) (rv_red_buf s)) (unat off) (unat e) d = Some buf"
    and "connect_sparse (rv_sparse_red s) buf (rv_total_received_bytes s) = Some (sp, buf', tot)"
  shows "insert_red off d limit s = Some (True,
    s\<lparr>rv_max_red_end := max (rv_max_red_end s) e, rv_red_buf := buf',
      rv_red_received := fst (range_insert (rv_red_received s) (off, e)),
      rv_sparse_red := sp, rv_total_received_bytes := tot\<rparr>)"
  using assms by (simp add: insert_red_def Let_def)

lemma insert_red_full:
  assumes "checked_add off (vec_len d) = Some e" "\<not> (limit < e \<or> range_covers (rv_red_received s) (off, e))"
    and "\<not> unat off \<le> length (rv_red_buf s)" "limit < sat_add (rv_total_received_bytes s) (vec_len d)"
  shows "insert_red off d limit s = Some (False, s\<lparr>rv_max_red_end := max (rv_max_red_end s) e\<rparr>)"
  using assms by (simp add: insert_red_def Let_def)

lemma insert_red_sparse:
  assumes "checked_add off (vec_len d) = Some e" "\<not> (limit < e \<or> range_covers (rv_red_received s) (off, e))"
    and "\<not> unat off \<le> length (rv_red_buf s)" "\<not> limit < sat_add (rv_total_received_bytes s) (vec_len d)"
  shows "insert_red off d limit s = Some (True,
    s\<lparr>rv_max_red_end := max (rv_max_red_end s) e, rv_sparse_red := bt_insert off d (rv_sparse_red s),
      rv_total_received_bytes := rv_total_received_bytes s + vec_len d,
      rv_red_received := fst (range_insert (rv_red_received s) (off, e))\<rparr>)"
  using assms by (simp add: insert_red_def Let_def)

section \<open>Memory\<close>

definition sparse_bytes :: "(u64, bytes) btree \<Rightarrow> nat" where
  "sparse_bytes sp = sum_list (map (\<lambda>e. length (snd e)) sp)"

text \<open>\<open>mem_ok limit s\<close>: what the buffers of a session hold is accounted for and below the limit.\<close>

definition sparse_ok :: "u64 \<Rightarrow> (u64, bytes) btree \<Rightarrow> bool" where
  "sparse_ok limit sp \<longleftrightarrow> bt_ok sp \<and> (\<forall>(k, d)\<in>set sp. unat k + length d \<le> unat limit)"

definition mem_ok :: "u64 \<Rightarrow> recv_session \<Rightarrow> bool" where
  "mem_ok limit s \<longleftrightarrow>
     rs_ok (rv_red_received s) \<and> sparse_ok limit (rv_sparse_red s)
     \<and> length (rv_red_buf s) \<le> unat limit
     \<and> sparse_bytes (rv_sparse_red s) \<le> unat (rv_total_received_bytes s)
     \<and> unat (rv_total_received_bytes s) \<le> unat limit"

lemma sparse_ok_Cons [simp]:
  "sparse_ok limit ((k, d) # sp) \<longleftrightarrow>
     (\<forall>x\<in>set sp. k < fst x) \<and> unat k + length d \<le> unat limit \<and> sparse_ok limit sp"
  by (auto simp: sparse_ok_def bt_ok_Cons)

lemma sparse_ok_Nil [simp]: "sparse_ok limit []"
  by (simp add: sparse_ok_def)

lemma sparse_bytes_simps [simp]:
  "sparse_bytes [] = 0" "sparse_bytes (e # sp) = length (snd e) + sparse_bytes sp"
  by (simp_all add: sparse_bytes_def)

lemma set_bt_insert_subset: "set (bt_insert k v m) \<subseteq> insert (k, v) (set m)"
  by (induction m) auto

lemma sparse_ok_insert:
  assumes "sparse_ok limit sp" "unat k + length d \<le> unat limit"
  shows "sparse_ok limit (bt_insert k d sp)"
  using assms set_bt_insert_subset [of k d sp] by (fastforce simp: sparse_ok_def)

lemma sparse_bytes_insert: "sparse_bytes (bt_insert k d sp) \<le> sparse_bytes sp + length d"
  by (induction sp) auto

lemma length_vec_resize [simp]: "length (vec_resize n xs) = n"
  by (simp add: vec_resize_def)

lemma sat_add_fits:
  assumes "unat k + n \<le> unat (limit :: u64)" "n = length d"
  shows "unat (sat_add k (vec_len d)) = unat k + n"
proof -
  have "unat k + n < 2 ^ 64" using assms(1) by (rule le_unat_less_2_64)
  moreover from this have "unat (vec_len d) = n" using assms(2) by (simp add: unat_vec_len)
  ultimately show ?thesis by (simp add: unat_sat_add)
qed

text \<open>What one copy does to the length of the buffer.\<close>

lemma slice_copy_grown:
  assumes "a \<le> length buf" "b = a + length d"
  shows "\<exists>buf'. slice_copy (vec_grow b buf) a b d = Some buf'
    \<and> length buf' = max (length buf) b"
  using assms by (auto simp: slice_copy_def vec_grow_def max_def)

lemma connect_sparse_mem:
  assumes "sparse_ok limit sp" "length buf \<le> unat limit" "sparse_bytes sp \<le> unat tot"
  shows "\<exists>sp' buf' tot'. connect_sparse sp buf tot = Some (sp', buf', tot')
    \<and> sparse_ok limit sp' \<and> length buf' \<le> unat limit
    \<and> sparse_bytes sp' \<le> unat tot' \<and> unat tot' \<le> unat tot"
  using assms
proof (induction sp buf tot rule: connect_sparse.induct)
  case (2 k d rest buf tot)
  show ?case
  proof (cases "unat k \<le> length buf")
    case True
    let ?b = "unat (sat_add k (vec_len d))"
    have fits: "unat k + length d \<le> unat limit" using "2.prems"(1) by simp
    have b: "?b = unat k + length d" using fits by (rule sat_add_fits) simp
    obtain buf' where copy: "slice_copy (vec_grow ?b buf) (unat k) ?b d = Some buf'"
      and len: "length buf' = max (length buf) ?b"
      using slice_copy_grown [OF True b] by blast
    have "length d < 2 ^ 64" using le_unat_less_2_64 [OF fits] by simp
    then have tot: "unat (sat_sub tot (vec_len d)) = unat tot - length d"
      by (simp add: unat_sat_sub unat_vec_len)
    have "length buf' \<le> unat limit" "sparse_bytes rest \<le> unat (sat_sub tot (vec_len d))"
      using "2.prems" fits by (simp_all add: len b tot)
    with "2.IH" [OF True refl refl refl copy] "2.prems"(1)
    obtain sp' buf'' tot' where "connect_sparse rest buf' (sat_sub tot (vec_len d)) = Some (sp', buf'', tot')"
      "sparse_ok limit sp'" "length buf'' \<le> unat limit" "sparse_bytes sp' \<le> unat tot'"
      "unat tot' \<le> unat tot - length d"
      by (auto simp: tot)
    with True copy show ?thesis by (auto simp: Let_def)
  qed (use "2.prems" in auto)
qed auto

lemma insert_red_mem:
  assumes mem: "mem_ok limit s" and small: "length data < 2 ^ 63" and limit: "limit \<noteq> - 1"
  shows "\<exists>ok s'. insert_red offset data limit s = Some (ok, s') \<and> mem_ok limit s'"
proof (cases "checked_add offset (vec_len data)")
  case None
  then show ?thesis using mem by (auto simp: insert_red_rejected)
next
  case (Some end_off)
  have len: "unat (vec_len data) = length data" using small by (simp add: unat_vec_len)
  have end_off: "unat end_off = unat offset + length data"
    using checked_add_SomeD [OF Some] by (simp add: len)
  have ins: "rs_ok (fst (range_insert (rv_red_received s) (offset, end_off)))"
    using mem by (simp add: mem_ok_def rset.ins_ok)
  show ?thesis
  proof (cases "limit < end_off \<or> range_covers (rv_red_received s) (offset, end_off)")
    case True
    then show ?thesis using mem insert_red_done [OF Some True] by blast
  next
    case new: False
    then have fits: "unat offset + length data \<le> unat limit" by (simp add: word_less_nat_alt end_off)
    show ?thesis
    proof (cases "unat offset \<le> length (rv_red_buf s)")
      case True
      obtain buf where copy: "slice_copy (vec_grow (unat end_off) (rv_red_buf s)) (unat offset) (unat end_off) data = Some buf"
        and buf: "length buf = max (length (rv_red_buf s)) (unat end_off)"
        using slice_copy_grown [OF True end_off] by blast
      have "length buf \<le> unat limit" using mem fits by (simp add: mem_ok_def buf end_off)
      with connect_sparse_mem [of limit "rv_sparse_red s" buf "rv_total_received_bytes s"] mem
      obtain sp' buf' tot' where
        conn: "connect_sparse (rv_sparse_red s) buf (rv_total_received_bytes s) = Some (sp', buf', tot')" and
        "sparse_ok limit sp'" "length buf' \<le> unat limit" "sparse_bytes sp' \<le> unat tot'"
        "unat tot' \<le> unat (rv_total_received_bytes s)"
        by (auto simp: mem_ok_def)
      with insert_red_contiguous [OF Some new True copy conn] mem ins show ?thesis by (auto simp: mem_ok_def)
    next
      case out_of_order: False
      show ?thesis
      proof (cases "limit < sat_add (rv_total_received_bytes s) (vec_len data)")
        case True
        with insert_red_full [OF Some new out_of_order True] mem show ?thesis by (auto simp: mem_ok_def)
      next
        case room: False
        have "unat limit \<noteq> 2 ^ 64 - 1" using limit by (simp add: word_unat_eq_iff [of limit] unat_word_max)
        moreover have "min (unat (rv_total_received_bytes s) + length data) (2 ^ 64 - 1) \<le> unat limit"
          using room unfolding word_less_nat_alt unat_sat_add len not_less by simp
        ultimately have bound: "unat (rv_total_received_bytes s) + length data \<le> unat limit"
          using unat_le_max [of limit] by (simp add: min_def split: if_splits)
        from le_unat_less_2_64 [OF this]
        have "unat (rv_total_received_bytes s + vec_len data) = unat (rv_total_received_bytes s) + length data"
          by (subst unat_add_exact) (simp_all add: len)
        then show ?thesis
          using insert_red_sparse [OF Some new out_of_order room] mem ins bound
            sparse_ok_insert [of limit "rv_sparse_red s", OF _ fits] sparse_bytes_insert [of offset data "rv_sparse_red s"]
          by (auto simp: mem_ok_def)
      qed
    qed
  qed
qed

section \<open>Reassembly\<close>

text \<open>\<open>fits B off d\<close>: the segment carries the octets of the block \<open>B\<close> at that offset.\<close>

definition fits :: "bytes \<Rightarrow> u64 \<Rightarrow> bytes \<Rightarrow> bool" where
  "fits B off d \<longleftrightarrow> unat off + length d \<le> length B \<and> d = take (length d) (drop (unat off) B)"

definition sparse_set :: "(u64, bytes) btree \<Rightarrow> nat set" where
  "sparse_set sp = (\<Union>(k, d)\<in>set sp. {unat k..<unat k + length d})"

text \<open>\<open>reassembling B s\<close>: the buffer is a prefix of the block, the sparse segments lie behind it, and the
  received extents are what the two hold.\<close>

definition reassembling :: "bytes \<Rightarrow> recv_session \<Rightarrow> bool" where
  "reassembling B s \<longleftrightarrow>
     length B < 2 ^ 63 \<and> rs_ok (rv_red_received s) \<and> bt_ok (rv_sparse_red s)
     \<and> length (rv_red_buf s) \<le> length B \<and> rv_red_buf s = take (length (rv_red_buf s)) B
     \<and> (\<forall>(k, d)\<in>set (rv_sparse_red s). fits B k d \<and> length (rv_red_buf s) < unat k)
     \<and> rs_set (rv_red_received s) = {0..<length (rv_red_buf s)} \<union> sparse_set (rv_sparse_red s)"

lemma sparse_set_simps [simp]:
  "sparse_set [] = {}" "sparse_set ((k, d) # sp) = {unat k..<unat k + length d} \<union> sparse_set sp"
  by (simp_all add: sparse_set_def)

lemma fits_length: "fits B k d \<Longrightarrow> length B < 2 ^ 63 \<Longrightarrow> unat (vec_len d) = length d"
  by (simp add: fits_def unat_vec_len)

text \<open>Copying a segment of the block onto a prefix of it gives a prefix again.\<close>

lemma slice_copy_prefix:
  assumes "fits B k d" "unat k \<le> n" "n \<le> length B" "b = unat k + length d"
  shows "slice_copy (vec_grow b (take n B)) (unat k) b d
    = Some (take (max n b) B)"
proof -
  have split: "take (unat k) B @ d = take b B"
    using assms(1) unfolding assms(4) fits_def by (metis take_add)
  show ?thesis
  proof (cases "n < b")
    case True
    then show ?thesis
      using assms split by (simp add: slice_copy_def vec_grow_def vec_resize_def fits_def max_def min_def)
  next
    case False
    have n: "length (take n B) = n" using assms(3) by simp
    have "take (unat k) (take n B) @ d = take b (take n B)"
      using split assms(2) False by (simp add: min_def del: take_all_iff)
    then have "take (unat k) (take n B) @ d @ drop b (take n B) = take n B"
      by (metis append_assoc append_take_drop_id)
    then show ?thesis
      using assms(4) False assms(3) n unfolding slice_copy_def vec_grow_def n by (simp add: max_def del: take_all_iff)
  qed
qed

lemma connect_sparse_prefix:
  assumes "length B < 2 ^ 63" "bt_ok sp" "n \<le> length B" "\<forall>(k, d)\<in>set sp. fits B k d"
  shows "\<exists>sp' n' tot'. connect_sparse sp (take n B) tot = Some (sp', take n' B, tot')
    \<and> n \<le> n' \<and> n' \<le> length B \<and> bt_ok sp' \<and> (\<forall>(k, d)\<in>set sp'. fits B k d \<and> n' < unat k)
    \<and> {0..<n'} \<union> sparse_set sp' = {0..<n} \<union> sparse_set sp"
  using assms
proof (induction sp arbitrary: n tot)
  case Nil
  then show ?case by auto
next
  case (Cons e sp)
  obtain k d where e: "e = (k, d)" by fastforce
  have fit: "fits B k d" and ok: "bt_ok sp" "\<forall>x\<in>set sp. k < fst x" "\<forall>(k, d)\<in>set sp. fits B k d"
    using Cons.prems by (auto simp: e bt_ok_Cons)
  show ?case
  proof (cases "unat k \<le> n")
    case False
    then have "\<forall>(k', d')\<in>set (e # sp). fits B k' d' \<and> n < unat k'"
      using Cons.prems(4) ok(2) by (fastforce simp: e word_less_nat_alt)
    moreover have "connect_sparse (e # sp) (take n B) tot = Some (e # sp, take n B, tot)"
      using False Cons.prems(3) by (simp add: e min_def del: take_all_iff)
    ultimately show ?thesis using Cons.prems by blast
  next
    case True
    let ?b = "unat (sat_add k (vec_len d))" and ?n = "max n (unat k + length d)"
    have b: "?b = unat k + length d"
      using fit Cons.prems(1) by (simp add: unat_sat_add fits_length) (simp add: fits_def min_def)
    have "?n \<le> length B" using fit Cons.prems(3) by (simp add: fits_def)
    from Cons.IH [OF Cons.prems(1) ok(1) this ok(3), of "sat_sub tot (vec_len d)"]
    obtain sp' n' tot' where rec: "connect_sparse sp (take ?n B) (sat_sub tot (vec_len d)) = Some (sp', take n' B, tot')"
      and post: "?n \<le> n'" "n' \<le> length B" "bt_ok sp'" "\<forall>(k, d)\<in>set sp'. fits B k d \<and> n' < unat k"
      "{0..<n'} \<union> sparse_set sp' = {0..<?n} \<union> sparse_set sp" by blast
    have "{0..<?n} = {0..<n} \<union> {unat k..<unat k + length d}" using True by auto
    then have sets: "{0..<n'} \<union> sparse_set sp' = {0..<n} \<union> sparse_set (e # sp)"
      using post(5) by (simp add: e Un_assoc)
    have "length (take n B) = n" using Cons.prems(3) by simp
    then have "connect_sparse (e # sp) (take n B) tot = Some (sp', take n' B, tot')"
      using True slice_copy_prefix [OF fit True Cons.prems(3) b] rec
      by (simp add: e Let_def b del: take_all_iff)
    moreover have "n \<le> n'" using post(1) by simp
    ultimately show ?thesis using post(2-4) sets by blast
  qed
qed

text \<open>A segment that replaces another one at the same offset is longer: a shorter one is covered.\<close>

lemma sparse_set_insert:
  assumes "bt_ok sp" "\<forall>d'. bt_get sp k = Some d' \<longrightarrow> length d' \<le> length d"
  shows "sparse_set (bt_insert k d sp) = sparse_set sp \<union> {unat k..<unat k + length d}"
proof -
  have sets: "sparse_set m = {x. \<exists>k d. bt_get m k = Some d \<and> unat k \<le> x \<and> x < unat k + length d}"
    if "bt_ok m" for m
    using bt_get_in_set [OF that] by (fastforce simp: sparse_set_def)
  show ?thesis
    using assms unfolding sets [OF assms(1)] sets [OF bt_ok_insert [OF assms(1)]]
    by (fastforce split: if_splits)
qed

lemma reassembling_new:
  "length B < 2 ^ 63 \<Longrightarrow> reassembling B (recv_session_new sid peer cs ser now)"
  by (simp add: reassembling_def recv_session_new_def range_set_new_def)

lemma insert_red_reassembling:
  assumes inv: "reassembling B s" and fit: "fits B off d"
  shows "\<exists>ok s'. insert_red off d limit s = Some (ok, s') \<and> reassembling B s'
    \<and> rv_red_part_len s' = rv_red_part_len s
    \<and> (if ok then rs_set (rv_red_received s') = rs_set (rv_red_received s) \<union> {unat off..<unat off + length d}
       else rv_red_received s' = rv_red_received s \<and> rv_red_buf s' = rv_red_buf s)"
proof -
  have B: "length B < 2 ^ 63" and rs: "rs_ok (rv_red_received s)" and sp: "bt_ok (rv_sparse_red s)"
    and buf: "length (rv_red_buf s) \<le> length B" "rv_red_buf s = take (length (rv_red_buf s)) B"
    and behind: "\<forall>(k, d)\<in>set (rv_sparse_red s). fits B k d \<and> length (rv_red_buf s) < unat k"
    and ext: "rs_set (rv_red_received s) = {0..<length (rv_red_buf s)} \<union> sparse_set (rv_sparse_red s)"
    using inv by (simp_all add: reassembling_def)
  have len: "unat (vec_len d) = length d" using fit B by (rule fits_length)
  have "unat off + length d < 2 ^ 64" using fit B by (simp add: fits_def)
  then obtain end_off where end_off: "checked_add off (vec_len d) = Some end_off"
    using checked_add_None_iff [of off "vec_len d"] by (cases "checked_add off (vec_len d)") (auto simp: len)
  then have b: "unat end_off = unat off + length d" using checked_add_SomeD [OF end_off] by (simp add: len)
  let ?ins = "fst (range_insert (rv_red_received s) (off, end_off))"
  have span: "range_span (off, end_off) = {unat off..<unat off + length d}" by (simp add: range_span_def b)
  have ins: "rs_ok ?ins" "rs_set ?ins = rs_set (rv_red_received s) \<union> {unat off..<unat off + length d}"
    using rset.ins_ok [OF rs] rset.elems_ins [OF rs] by (simp_all add: span)
  have covers: "range_covers (rv_red_received s) (off, end_off) \<longleftrightarrow>
      {unat off..<unat off + length d} \<subseteq> rs_set (rv_red_received s)"
    using rset.covers_iff [OF rs] by (simp add: span)
  show ?thesis
  proof (cases "limit < end_off \<or> range_covers (rv_red_received s) (off, end_off)")
    case True
    then show ?thesis using inv covers insert_red_done [OF end_off True] by auto
  next
    case fresh: False
    show ?thesis
    proof (cases "unat off \<le> length (rv_red_buf s)")
      case True
      let ?n = "max (length (rv_red_buf s)) (unat end_off)"
      let ?sp = "rv_sparse_red s" and ?tot = "rv_total_received_bytes s"
      have copy: "slice_copy (vec_grow (unat end_off) (rv_red_buf s)) (unat off) (unat end_off) d
          = Some (take ?n B)"
        using slice_copy_prefix [OF fit True buf(1) b] buf(2) by (simp add: min_def)
      have "?n \<le> length B" using buf(1) fit by (simp add: b fits_def)
      moreover have "\<forall>(k, d)\<in>set ?sp. fits B k d" using behind by auto
      ultimately obtain sp' n' tot' where conn: "connect_sparse ?sp (take ?n B) ?tot = Some (sp', take n' B, tot')"
        and post: "?n \<le> n'" "n' \<le> length B" "bt_ok sp'" "\<forall>(k, d)\<in>set sp'. fits B k d \<and> n' < unat k"
        "{0..<n'} \<union> sparse_set sp' = {0..<?n} \<union> sparse_set ?sp"
        using connect_sparse_prefix [OF B sp, of ?n ?tot] by blast
      have "rs_set ?ins = {0..<n'} \<union> sparse_set sp'"
        unfolding ins(2) ext post(5) b using True by auto
      then have "reassembling B (s\<lparr>rv_max_red_end := max (rv_max_red_end s) end_off, rv_red_buf := take n' B,
          rv_red_received := ?ins, rv_sparse_red := sp', rv_total_received_bytes := tot'\<rparr>)"
        using post ins(1) B by (simp add: reassembling_def min_def)
      then show ?thesis
        using insert_red_contiguous [OF end_off fresh True copy conn] ins(2) by auto
    next
      case ooo: False
      show ?thesis
      proof (cases "limit < sat_add (rv_total_received_bytes s) (vec_len d)")
        case True
        then show ?thesis
          using insert_red_full [OF end_off fresh ooo True] inv by (auto simp: reassembling_def)
      next
        case False
        have "length d' \<le> length d" if "bt_get (rv_sparse_red s) off = Some d'" for d'
        proof (rule ccontr)
          assume "\<not> length d' \<le> length d"
          moreover have "{unat off..<unat off + length d'} \<subseteq> sparse_set (rv_sparse_red s)"
            using that bt_get_in_set [OF sp] by (fastforce simp: sparse_set_def)
          moreover have "{unat off..<unat off + length d} \<subseteq> {unat off..<unat off + length d'}"
            if "length d \<le> length d'" using that by auto
          ultimately have "{unat off..<unat off + length d} \<subseteq> rs_set (rv_red_received s)"
            unfolding ext by (meson Un_upper2 nat_le_linear subset_trans)
          with fresh covers show False by simp
        qed
        then have "sparse_set (bt_insert off d (rv_sparse_red s))
          = sparse_set (rv_sparse_red s) \<union> {unat off..<unat off + length d}"
          using sparse_set_insert [OF sp] by blast
        moreover have "\<forall>(k, d)\<in>set (bt_insert off d (rv_sparse_red s)). fits B k d \<and> length (rv_red_buf s) < unat k"
          using set_bt_insert_subset [of off d "rv_sparse_red s"] behind fit ooo by fastforce
        ultimately have "reassembling B (s\<lparr>rv_max_red_end := max (rv_max_red_end s) end_off,
            rv_sparse_red := bt_insert off d (rv_sparse_red s),
            rv_total_received_bytes := rv_total_received_bytes s + vec_len d, rv_red_received := ?ins\<rparr>)"
          using ins B sp buf ext by (simp add: reassembling_def Un_assoc)
        then show ?thesis using insert_red_sparse [OF end_off fresh ooo False] ins(2) by auto
      qed
    qed
  qed
qed

lemma red_complete_prefix:
  assumes "reassembling B s" "rv_red_part_len s = Some len" "is_red_complete s"
  shows "unat len \<le> length (rv_red_buf s) \<and> take (unat len) (rv_red_buf s) = take (unat len) B"
proof -
  have cov: "{0..<unat len} \<subseteq> {0..<length (rv_red_buf s)} \<union> sparse_set (rv_sparse_red s)"
    using assms by (simp add: is_red_complete_def reassembling_def rset.covers_iff range_span_def)
  have "length (rv_red_buf s) \<notin> sparse_set (rv_sparse_red s)"
    using assms(1) by (fastforce simp: reassembling_def sparse_set_def)
  with cov have "length (rv_red_buf s) \<notin> {0..<unat len}" by auto
  then have le: "unat len \<le> length (rv_red_buf s)" by simp
  have "take (unat len) (rv_red_buf s) = take (unat len) (take (length (rv_red_buf s)) B)"
    using assms(1) by (simp add: reassembling_def)
  then show ?thesis using le by (simp add: min_def)
qed

section \<open>Properties\<close>

text \<open>Segments arriving one after the other, whatever \<open>insert_red\<close> answers to each.\<close>

fun insert_all :: "(u64 \<times> bytes) list \<Rightarrow> u64 \<Rightarrow> recv_session \<Rightarrow> recv_session option" where
  "insert_all [] limit s = Some s"
| "insert_all ((off, d) # segs) limit s =
     (case insert_red off d limit s of None \<Rightarrow> None | Some (_, s) \<Rightarrow> insert_all segs limit s)"

lemma insert_all_reassembling:
  "reassembling B s \<Longrightarrow> \<forall>(off, d)\<in>set segs. fits B off d
   \<Longrightarrow> \<exists>s'. insert_all segs limit s = Some s' \<and> reassembling B s'"
proof (induction segs arbitrary: s)
  case (Cons seg segs)
  obtain off d where seg: "seg = (off, d)" by fastforce
  obtain ok s1 where "insert_red off d limit s = Some (ok, s1)" "reassembling B s1"
    using insert_red_reassembling [OF Cons.prems(1), of off d limit] Cons.prems(2) by (auto simp: seg)
  with Cons show ?case by (simp add: seg)
qed simp

text \<open>C7: out-of-order, overlapping and duplicated red segments of a block \<open>B\<close>, in any sequence and whichever of
  them the limits reject, never make the receiver panic; the reassembly buffer is always a prefix of
  \<open>B\<close>, and as soon as the received extents cover the red part its first octets are those of \<open>B\<close>.\<close>

theorem reassembly_correct:
  assumes "length B < 2 ^ 63" and "\<forall>(off, d)\<in>set segs. fits B off d"
  shows "\<exists>s. insert_all segs limit (recv_session_new sid peer cs ser now) = Some s
    \<and> rv_red_buf s = take (length (rv_red_buf s)) B
    \<and> (\<forall>len. is_red_complete (s\<lparr>rv_red_part_len := Some len\<rparr>) \<longrightarrow> take (unat len) (rv_red_buf s) = take (unat len) B)"
proof -
  obtain s where s: "insert_all segs limit (recv_session_new sid peer cs ser now) = Some s" "reassembling B s"
    using insert_all_reassembling [OF reassembling_new [OF assms(1)] assms(2)] by blast
  then have "reassembling B (s\<lparr>rv_red_part_len := Some len\<rparr>)" for len by (simp add: reassembling_def)
  from red_complete_prefix [OF this] s(2)
  have "\<forall>len. is_red_complete (s\<lparr>rv_red_part_len := Some len\<rparr>) \<longrightarrow> take (unat len) (rv_red_buf s) = take (unat len) B"
    by simp
  with s show ?thesis by (auto simp: reassembling_def)
qed

theorem reassembly_correct_witness:
  "\<exists>s. insert_all [(2, [7, 8]), (0, [5, 6, 7])] 100 (recv_session_new (SessionId 2 1) 2 1 0 0) = Some s
    \<and> rv_red_buf s = take (length (rv_red_buf s)) [5, 6, 7, 8]
    \<and> (\<forall>len. is_red_complete (s\<lparr>rv_red_part_len := Some len\<rparr>)
         \<longrightarrow> take (unat len) (rv_red_buf s) = take (unat len) [5, 6, 7, 8])"
  by (rule reassembly_correct) (simp_all add: fits_def)

lemma insert_all_mem:
  "mem_ok limit s \<Longrightarrow> \<forall>(off, d)\<in>set segs. length d < 2 ^ 63 \<Longrightarrow> limit \<noteq> - 1
   \<Longrightarrow> \<exists>s'. insert_all segs limit s = Some s' \<and> mem_ok limit s'"
proof (induction segs arbitrary: s)
  case (Cons seg segs)
  obtain off d where seg: "seg = (off, d)" by fastforce
  obtain ok s1 where "insert_red off d limit s = Some (ok, s1)" "mem_ok limit s1"
    using insert_red_mem [OF Cons.prems(1), of d off] Cons.prems(2,3) by (auto simp: seg)
  with Cons show ?case by (simp add: seg)
qed simp

lemma mem_ok_new: "mem_ok limit (recv_session_new sid peer cs ser now)"
  by (simp add: mem_ok_def recv_session_new_def range_set_new_def)

text \<open>Whatever segments arrive, also inconsistent or hostile ones, storing them never panics, and the
  octets a session retains, in the contiguous buffer and in the sparse one, stay below the configured
  block size each.\<close>

theorem reassembly_memory_bounded:
  assumes "\<forall>(off, d)\<in>set segs. length d < 2 ^ 63" and "limit \<noteq> - 1"
  shows "\<exists>s. insert_all segs limit (recv_session_new sid peer cs ser now) = Some s
    \<and> length (rv_red_buf s) \<le> unat limit \<and> sparse_bytes (rv_sparse_red s) \<le> unat limit"
proof -
  obtain s where "insert_all segs limit (recv_session_new sid peer cs ser now) = Some s" "mem_ok limit s"
    using insert_all_mem [OF mem_ok_new assms] by blast
  then show ?thesis by (auto simp: mem_ok_def)
qed

theorem reassembly_memory_bounded_witness:
  "\<exists>s. insert_all [(2, [7, 8]), (- 1, [1]), (2, [9])] 3 (recv_session_new (SessionId 2 1) 2 1 0 0) = Some s
    \<and> length (rv_red_buf s) \<le> unat (3 :: u64) \<and> sparse_bytes (rv_sparse_red s) \<le> unat (3 :: u64)"
  by (rule reassembly_memory_bounded) simp_all

end
