(* ===== verification/Timer.thy ===== *)
theory Timer
  imports Ltp_Types Ordered_Map "HOL-Library.Product_Lexorder"
begin

text \<open>
  The timer table of the engine (\<^verbatim>\<open>ltp/src/engine/timer.rs\<close>): an index by key and an index by
  deadline.  Its abstraction is the map from keys to deadlines; \<open>tt_ok\<close> says that the two
  indexes agree.  The locale \<open>timer_service\<close> is the contract the engine works with.
\<close>

section \<open>Definitions\<close>

datatype timer_kind =
    TInactivity bool
  | TCheckpoint u64
  | TReport u64
  | TCancel bool

text \<open>The derived \<^verbatim>\<open>Ord\<close>: constructors in the order of their declaration, then their argument.\<close>

fun kind_rank :: "timer_kind \<Rightarrow> nat \<times> nat" where
  "kind_rank (TInactivity is_sender) = (0, if is_sender then 1 else 0)"
| "kind_rank (TCheckpoint serial) = (1, unat serial)"
| "kind_rank (TReport serial) = (2, unat serial)"
| "kind_rank (TCancel is_sender) = (3, if is_sender then 1 else 0)"

lemma kind_rank_inj: "kind_rank a = kind_rank b \<Longrightarrow> a = b"
  by (cases a; cases b) (auto split: if_splits simp: word_unat_eq_iff)

instantiation timer_kind :: linorder
begin

definition less_eq_timer_kind :: "timer_kind \<Rightarrow> timer_kind \<Rightarrow> bool" where
  "less_eq_timer_kind a b \<longleftrightarrow> kind_rank a \<le> kind_rank b"

definition less_timer_kind :: "timer_kind \<Rightarrow> timer_kind \<Rightarrow> bool" where
  "less_timer_kind a b \<longleftrightarrow> kind_rank a < kind_rank b"

instance
  by standard (auto simp: less_eq_timer_kind_def less_timer_kind_def intro: kind_rank_inj)

end

datatype timer_key = TimerKey (tk_session: session_id) (tk_kind: timer_kind)

instantiation timer_key :: linorder
begin

definition less_eq_timer_key :: "timer_key \<Rightarrow> timer_key \<Rightarrow> bool" where
  "less_eq_timer_key a b \<longleftrightarrow>
     tk_session a < tk_session b \<or> tk_session a = tk_session b \<and> tk_kind a \<le> tk_kind b"

definition less_timer_key :: "timer_key \<Rightarrow> timer_key \<Rightarrow> bool" where
  "less_timer_key a b \<longleftrightarrow>
     tk_session a < tk_session b \<or> tk_session a = tk_session b \<and> tk_kind a < tk_kind b"

instance
  by standard (auto simp: less_eq_timer_key_def less_timer_key_def intro: timer_key.expand)

end

definition checkpoint_key :: "session_id \<Rightarrow> u64 \<Rightarrow> timer_key" where
  "checkpoint_key s serial = TimerKey s (TCheckpoint serial)"

definition report_key :: "session_id \<Rightarrow> u64 \<Rightarrow> timer_key" where
  "report_key s serial = TimerKey s (TReport serial)"

definition cancel_key :: "session_id \<Rightarrow> bool \<Rightarrow> timer_key" where
  "cancel_key s is_sender = TimerKey s (TCancel is_sender)"

definition inactivity_key :: "session_id \<Rightarrow> bool \<Rightarrow> timer_key" where
  "inactivity_key s is_sender = TimerKey s (TInactivity is_sender)"

record timer_table =
  tt_by_key :: "(timer_key, u64) btree"
  tt_by_deadline :: "(u64 \<times> timer_key) list"

definition tt_new :: timer_table where
  "tt_new = \<lparr>tt_by_key = [], tt_by_deadline = []\<rparr>"

definition tt_set :: "timer_key \<Rightarrow> u64 \<Rightarrow> timer_table \<Rightarrow> timer_table" where
  "tt_set key deadline t =
     (let by_deadline =
            (case bt_get (tt_by_key t) key of
               Some old \<Rightarrow> bs_remove (old, key) (tt_by_deadline t)
             | None \<Rightarrow> tt_by_deadline t)
      in t\<lparr>tt_by_key := bt_insert key deadline (tt_by_key t),
           tt_by_deadline := bs_insert (deadline, key) by_deadline\<rparr>)"

definition tt_cancel :: "timer_key \<Rightarrow> timer_table \<Rightarrow> timer_table" where
  "tt_cancel key t =
     (case bt_get (tt_by_key t) key of
        Some deadline \<Rightarrow>
          t\<lparr>tt_by_key := bt_remove key (tt_by_key t),
            tt_by_deadline := bs_remove (deadline, key) (tt_by_deadline t)\<rparr>
      | None \<Rightarrow> t)"

definition tt_cancel_session :: "session_id \<Rightarrow> timer_table \<Rightarrow> timer_table" where
  "tt_cancel_session s t =
     (let min_key = TimerKey s (TInactivity False);
          max_key = TimerKey s (TCancel True);
          keys_to_remove = filter (\<lambda>k. min_key \<le> k \<and> k \<le> max_key) (map fst (tt_by_key t))
      in fold tt_cancel keys_to_remove t)"

definition tt_poll_expired :: "u64 \<Rightarrow> timer_table \<Rightarrow> timer_key option \<times> timer_table" where
  "tt_poll_expired now t =
     (case tt_by_deadline t of
        (deadline, key) # rest \<Rightarrow>
          if deadline \<le> now
          then (Some key, t\<lparr>tt_by_key := bt_remove key (tt_by_key t), tt_by_deadline := rest\<rparr>)
          else (None, t)
      | [] \<Rightarrow> (None, t))"

definition tt_next_deadline :: "timer_table \<Rightarrow> u64 option" where
  "tt_next_deadline t = (case tt_by_deadline t of (d, _) # _ \<Rightarrow> Some d | [] \<Rightarrow> None)"

text \<open>The loop of \<^verbatim>\<open>handle_timer_tick\<close> that collects the expired keys; each turn removes an entry.\<close>

function tt_drain :: "u64 \<Rightarrow> timer_table \<Rightarrow> timer_key list \<times> timer_table" where
  "tt_drain now t =
     (case tt_poll_expired now t of
        (None, t') \<Rightarrow> ([], t')
      | (Some key, t') \<Rightarrow> (let (keys, t'') = tt_drain now t' in (key # keys, t'')))"
  by auto

termination
  by (relation "measure (\<lambda>(now, t). length (tt_by_deadline t))")
    (auto simp: tt_poll_expired_def split: list.splits if_splits)

declare tt_drain.simps [simp del]

section \<open>The two indexes agree\<close>

definition tt_view :: "timer_table \<Rightarrow> timer_key \<Rightarrow> u64 option" where
  "tt_view t = bt_get (tt_by_key t)"

definition tt_ok :: "timer_table \<Rightarrow> bool" where
  "tt_ok t \<longleftrightarrow> bt_ok (tt_by_key t) \<and> bs_ok (tt_by_deadline t)
     \<and> set (tt_by_deadline t) = {(d, k). tt_view t k = Some d}"

lemma tt_ok_new: "tt_ok tt_new" "tt_view tt_new = Map.empty"
  by (simp_all add: tt_ok_def tt_view_def tt_new_def)

lemma tt_view_set: "tt_view (tt_set k d t) = (tt_view t)(k \<mapsto> d)"
  by (simp add: tt_view_def tt_set_def Let_def)

lemma tt_ok_set: "tt_ok t \<Longrightarrow> tt_ok (tt_set k d t)"
  by (auto simp: tt_ok_def tt_view_def tt_set_def Let_def split: option.splits if_splits)

lemma tt_view_cancel: "tt_view (tt_cancel k t) = (tt_view t)(k := None)"
  by (auto simp: tt_view_def tt_cancel_def fun_eq_iff split: option.splits)

lemma tt_ok_cancel: "tt_ok t \<Longrightarrow> tt_ok (tt_cancel k t)"
  by (auto simp: tt_ok_def tt_view_def tt_cancel_def split: option.splits if_splits)

lemma session_key_range:
  "TimerKey s (TInactivity False) \<le> k \<and> k \<le> TimerKey s (TCancel True) \<longleftrightarrow> tk_session k = s"
  by (cases k; cases "tk_kind k") (auto simp: less_eq_timer_key_def less_eq_timer_kind_def)

lemma tt_fold_cancel:
  "tt_view (fold tt_cancel ks t) k = (if k \<in> set ks then None else tt_view t k)
   \<and> (tt_ok t \<longrightarrow> tt_ok (fold tt_cancel ks t))"
proof (induction ks arbitrary: t)
  case (Cons k' ks)
  from Cons [of "tt_cancel k' t"] show ?case by (simp add: tt_view_cancel tt_ok_cancel)
qed simp

lemma tt_cancel_session_spec:
  "tt_view (tt_cancel_session s t) k = (if tk_session k = s then None else tt_view t k)"
  "tt_ok t \<Longrightarrow> tt_ok (tt_cancel_session s t)"
proof -
  let ?ks = "filter (\<lambda>k. TimerKey s (TInactivity False) \<le> k \<and> k \<le> TimerKey s (TCancel True)) (map fst (tt_by_key t))"
  have "set ?ks = {k \<in> dom (tt_view t). tk_session k = s}"
    unfolding tt_view_def dom_bt_get session_key_range by auto
  with tt_fold_cancel [of ?ks t k]
  show "tt_view (tt_cancel_session s t) k = (if tk_session k = s then None else tt_view t k)"
    "tt_ok t \<Longrightarrow> tt_ok (tt_cancel_session s t)"
    by (auto simp: tt_cancel_session_def Let_def)
qed

lemma bs_least: "bs_ok (x # xs) \<Longrightarrow> y \<in> insert x (set xs) \<Longrightarrow> x \<le> y"
  unfolding bs_ok_Cons by (blast intro: order_less_imp_le)

lemma tt_poll_None:
  assumes "tt_ok t" "tt_poll_expired now t = (None, t')"
  shows "t' = t \<and> (\<forall>k d. tt_view t k = Some d \<longrightarrow> now < d)"
proof (cases "tt_by_deadline t")
  case Nil
  with assms show ?thesis by (auto simp: tt_poll_expired_def tt_ok_def)
next
  case (Cons e es)
  obtain d k where e: "e = (d, k)" by fastforce
  have "now < d" "t' = t" using assms(2) by (auto simp: tt_poll_expired_def Cons e split: if_splits)
  moreover have "d \<le> d'" if "tt_view t k' = Some d'" for k' d'
  proof -
    have "(d', k') \<in> set (e # es)" using assms(1) that Cons by (auto simp: tt_ok_def)
    moreover have "bs_ok (e # es)" using assms(1) Cons by (simp add: tt_ok_def)
    ultimately have "(d, k) \<le> (d', k')" by (intro bs_least) (simp_all add: e)
    then show ?thesis by auto
  qed
  ultimately show ?thesis using less_le_trans by blast
qed

lemma tt_poll_Some:
  assumes "tt_ok t" "tt_poll_expired now t = (Some k, t')"
  shows "tt_ok t' \<and> tt_view t' = (tt_view t)(k := None)
    \<and> (\<exists>d. tt_view t k = Some d \<and> d \<le> now \<and> (\<forall>k' d'. tt_view t k' = Some d' \<longrightarrow> (d, k) \<le> (d', k')))"
proof -
  obtain d es where e: "tt_by_deadline t = (d, k) # es" "d \<le> now"
    and t': "t' = t\<lparr>tt_by_key := bt_remove k (tt_by_key t), tt_by_deadline := es\<rparr>"
    using assms(2) by (auto simp: tt_poll_expired_def split: list.splits if_splits)
  have ok: "bt_ok (tt_by_key t)" "bs_ok ((d, k) # es)"
    and set: "insert (d, k) (set es) = {(d, k). tt_view t k = Some d}"
    using assms(1) e by (simp_all add: tt_ok_def)
  have k: "tt_view t k = Some d" using set by auto
  have view: "tt_view t' = (tt_view t)(k := None)" by (simp add: tt_view_def t')
  have "(d, k) \<notin> set es" using ok(2) by (auto simp: bs_ok_Cons)
  then have "set es = {(d, k). tt_view t k = Some d} - {(d, k)}" using set by blast
  also have "\<dots> = {(d, k). tt_view t' k = Some d}" using k by (auto simp: view)
  finally have "tt_ok t'" using ok unfolding tt_ok_def by (simp add: t' bs_ok_Cons)
  moreover have "(d, k) \<le> (d', k')" if "tt_view t k' = Some d'" for d' k'
  proof -
    have "(d', k') \<in> insert (d, k) (set es)" using that set by simp
    with ok(2) show ?thesis by (rule bs_least)
  qed
  ultimately show ?thesis using view k e(2) by blast
qed

lemma tt_drain_spec:
  "tt_ok t \<Longrightarrow> tt_drain now t = (ks, t') \<Longrightarrow>
    tt_ok t' \<and> set ks = {k. \<exists>d \<le> now. tt_view t k = Some d} \<and> distinct ks
    \<and> (\<forall>k. tt_view t' k = (if k \<in> set ks then None else tt_view t k))
    \<and> sorted_wrt (\<lambda>a b. the (tt_view t a) \<le> the (tt_view t b)) ks"
proof (induction now t arbitrary: ks rule: tt_drain.induct)
  case (1 now t)
  obtain r t1 where poll: "tt_poll_expired now t = (r, t1)" by fastforce
  show ?case
  proof (cases r)
    case None
    with poll 1(3) have "ks = []" "t' = t1" by (simp_all add: tt_drain.simps [of now t])
    with tt_poll_None [OF 1(2) poll [unfolded None]] 1(2) show ?thesis by (auto simp: not_less [symmetric])
  next
    case (Some k)
    obtain ks' where rest: "tt_drain now t1 = (ks', t')" and ks: "ks = k # ks'"
      using poll 1(3) Some by (auto simp: tt_drain.simps [of now t] split: prod.splits)
    from tt_poll_Some [OF 1(2) poll [unfolded Some]] obtain d where
      ok1: "tt_ok t1" and view1: "tt_view t1 = (tt_view t)(k := None)" and d: "tt_view t k = Some d" "d \<le> now"
      and least: "\<And>k' d'. tt_view t k' = Some d' \<Longrightarrow> (d, k) \<le> (d', k')" by blast
    from 1(1) [OF poll [symmetric] Some ok1 rest]
    have ok': "tt_ok t'" and set': "set ks' = {k. \<exists>d \<le> now. tt_view t1 k = Some d}" and dist: "distinct ks'"
      and view': "\<And>k. tt_view t' k = (if k \<in> set ks' then None else tt_view t1 k)"
      and sorted: "sorted_wrt (\<lambda>a b. the (tt_view t1 a) \<le> the (tt_view t1 b)) ks'" by auto
    have fresh: "k \<notin> set ks'" unfolding set' view1 by simp
    have expired: "tt_view t b \<noteq> None \<and> b \<noteq> k" if "b \<in> set ks'" for b
      using that unfolding set' view1 by (auto split: if_splits)
    have "set ks = {k. \<exists>d \<le> now. tt_view t k = Some d}"
      unfolding ks list.set(2) set' view1 using d by (auto split: if_splits)
    moreover have "tt_view t' b = (if b \<in> set ks then None else tt_view t b)" for b
      unfolding view' ks view1 by simp
    moreover have "\<forall>b\<in>set ks'. the (tt_view t k) \<le> the (tt_view t b)"
      using expired least d(1) by (fastforce simp: less_eq_prod_def)
    moreover have "sorted_wrt (\<lambda>a b. the (tt_view t a) \<le> the (tt_view t b)) ks'"
    proof (rule sorted_wrt_mono_rel [OF _ sorted])
      fix a b
      assume "a \<in> set ks'" "b \<in> set ks'" "the (tt_view t1 a) \<le> the (tt_view t1 b)"
      then show "the (tt_view t a) \<le> the (tt_view t b)" using expired by (simp add: view1)
    qed
    ultimately show ?thesis using ok' dist fresh by (simp add: ks)
  qed
qed

lemma tt_next_deadline_Some:
  assumes "tt_ok t" "tt_next_deadline t = Some d"
  shows "(\<exists>k. tt_view t k = Some d) \<and> (\<forall>k d'. tt_view t k = Some d' \<longrightarrow> d \<le> d')"
proof -
  obtain k es where es: "tt_by_deadline t = (d, k) # es"
    using assms(2) by (auto simp: tt_next_deadline_def split: list.splits)
  have set: "set ((d, k) # es) = {(d, k). tt_view t k = Some d}" and ok: "bs_ok ((d, k) # es)"
    using assms(1) es by (simp_all add: tt_ok_def)
  have "(d, k) \<le> (d', k')" if "tt_view t k' = Some d'" for d' k'
    using that set bs_least [OF ok, of "(d', k')"] by auto
  then show ?thesis using set by (fastforce simp: less_eq_prod_def)
qed

section \<open>The interface of the engine's timers\<close>

locale timer_service =
  fixes no_timers :: 't
    and arm :: "timer_key \<Rightarrow> u64 \<Rightarrow> 't \<Rightarrow> 't"
    and disarm :: "timer_key \<Rightarrow> 't \<Rightarrow> 't"
    and disarm_session :: "session_id \<Rightarrow> 't \<Rightarrow> 't"
    and deadline :: "'t \<Rightarrow> timer_key \<Rightarrow> u64 option"
    and consistent :: "'t \<Rightarrow> bool"
  assumes deadline_none: "deadline no_timers = Map.empty" and consistent_none: "consistent no_timers"
    and deadline_arm: "deadline (arm k d t) = (deadline t)(k \<mapsto> d)"
    and deadline_disarm: "deadline (disarm k t) = (deadline t)(k := None)"
    and deadline_disarm_session:
      "deadline (disarm_session s t) k = (if tk_session k = s then None else deadline t k)"
    and consistent_arm: "consistent t \<Longrightarrow> consistent (arm k d t)"
    and consistent_disarm: "consistent t \<Longrightarrow> consistent (disarm k t)"
    and consistent_disarm_session: "consistent t \<Longrightarrow> consistent (disarm_session s t)"
begin

text \<open>\<open>armed_for P t\<close>: every armed timer has a key \<open>P\<close> allows.\<close>

definition armed_for :: "(timer_key \<Rightarrow> bool) \<Rightarrow> 't \<Rightarrow> bool" where
  "armed_for P t \<longleftrightarrow> (\<forall>k. deadline t k \<noteq> None \<longrightarrow> P k)"

lemma armed_for_none: "armed_for P no_timers"
  by (simp add: armed_for_def deadline_none)

lemma armed_for_arm: "armed_for P t \<Longrightarrow> P k \<Longrightarrow> armed_for P (arm k d t)"
  by (simp add: armed_for_def deadline_arm)

lemma armed_for_disarm: "armed_for P t \<Longrightarrow> armed_for P (disarm k t)"
  by (simp add: armed_for_def deadline_disarm)

lemma armed_for_mono: "armed_for P t \<Longrightarrow> (\<And>k. P k \<Longrightarrow> Q k) \<Longrightarrow> armed_for Q t"
  by (auto simp: armed_for_def)

lemma armed_for_disarm_session:
  "armed_for P t \<Longrightarrow> (\<And>k. P k \<Longrightarrow> tk_session k \<noteq> s \<Longrightarrow> Q k) \<Longrightarrow> armed_for Q (disarm_session s t)"
  by (auto simp: armed_for_def deadline_disarm_session split: if_splits)

lemma session_silent: "tk_session k = s \<Longrightarrow> deadline (disarm_session s t) k = None"
  by (simp add: deadline_disarm_session)

end

interpretation timers: timer_service tt_new tt_set tt_cancel tt_cancel_session tt_view tt_ok
  by unfold_locales
    (simp_all add: tt_ok_new tt_view_set tt_view_cancel tt_cancel_session_spec tt_ok_set tt_ok_cancel)

section \<open>Properties\<close>

datatype timer_op = OpSet timer_key u64 | OpCancel timer_key | OpCancelSession session_id | OpPoll u64 | OpNext

datatype timer_out = Silent | Expired "timer_key option" | Earliest "u64 option"

fun table_op :: "timer_op \<Rightarrow> timer_table \<Rightarrow> timer_out \<times> timer_table" where
  "table_op (OpSet k d) t = (Silent, tt_set k d t)"
| "table_op (OpCancel k) t = (Silent, tt_cancel k t)"
| "table_op (OpCancelSession s) t = (Silent, tt_cancel_session s t)"
| "table_op (OpPoll now) t = (let (r, t') = tt_poll_expired now t in (Expired r, t'))"
| "table_op OpNext t = (Earliest (tt_next_deadline t), t)"

fun table_run :: "timer_op list \<Rightarrow> timer_table \<Rightarrow> timer_out list \<times> timer_table" where
  "table_run [] t = ([], t)"
| "table_run (op # ops) t = (let (r, t') = table_op op t; (rs, t'') = table_run ops t' in (r # rs, t''))"

text \<open>The map of deadlines the table stands for.  Polling takes out the first of the timers that are due, by
  deadline and then by key, and nothing if none is due; the earliest deadline is a least element.\<close>

fun map_op :: "timer_op \<Rightarrow> (timer_key \<Rightarrow> u64 option) \<Rightarrow> timer_out \<Rightarrow> (timer_key \<Rightarrow> u64 option) \<Rightarrow> bool" where
  "map_op (OpSet k d) m r m' \<longleftrightarrow> r = Silent \<and> m' = m(k \<mapsto> d)"
| "map_op (OpCancel k) m r m' \<longleftrightarrow> r = Silent \<and> m' = m(k := None)"
| "map_op (OpCancelSession s) m r m' \<longleftrightarrow> r = Silent \<and> m' = (\<lambda>k. if tk_session k = s then None else m k)"
| "map_op (OpPoll now) m r m' \<longleftrightarrow>
     r = Expired None \<and> m' = m \<and> (\<forall>k d. m k = Some d \<longrightarrow> now < d)
     \<or> (\<exists>k d. r = Expired (Some k) \<and> m' = m(k := None) \<and> m k = Some d \<and> d \<le> now
          \<and> (\<forall>k' d'. m k' = Some d' \<longrightarrow> (d, k) \<le> (d', k')))"
| "map_op OpNext m r m' \<longleftrightarrow> m' = m
     \<and> (r = Earliest None \<and> m = Map.empty
        \<or> (\<exists>k d. r = Earliest (Some d) \<and> m k = Some d \<and> (\<forall>k' d'. m k' = Some d' \<longrightarrow> d \<le> d')))"

fun map_run :: "timer_op list \<Rightarrow> (timer_key \<Rightarrow> u64 option) \<Rightarrow> timer_out list \<Rightarrow> (timer_key \<Rightarrow> u64 option) \<Rightarrow> bool" where
  "map_run [] m rs m' \<longleftrightarrow> rs = [] \<and> m' = m"
| "map_run (op # ops) m rs m' \<longleftrightarrow> (\<exists>r rs' m1. rs = r # rs' \<and> map_op op m r m1 \<and> map_run ops m1 rs' m')"

lemma tt_next_deadline_None:
  assumes "tt_ok t" and "tt_next_deadline t = None"
  shows "tt_view t = Map.empty"
proof -
  have "tt_by_deadline t = []" using assms(2) by (auto simp: tt_next_deadline_def split: list.splits)
  then have "tt_view t k \<noteq> Some d" for k d using assms(1) by (auto simp: tt_ok_def)
  then have "tt_view t k = None" for k by (cases "tt_view t k") auto
  then show ?thesis by (simp add: fun_eq_iff)
qed

lemma table_op_refines:
  assumes "tt_ok t" and "table_op op t = (r, t')"
  shows "tt_ok t' \<and> map_op op (tt_view t) r (tt_view t')"
proof (cases op)
  case (OpPoll now)
  obtain k where poll: "tt_poll_expired now t = (k, t')" and r: "r = Expired k"
    using assms(2) by (auto simp: OpPoll split: prod.splits)
  show ?thesis
  proof (cases k)
    case None
    then show ?thesis using tt_poll_None [OF assms(1), of now t'] poll assms(1) by (simp add: OpPoll r)
  next
    case (Some a)
    then show ?thesis using tt_poll_Some [OF assms(1), of now a t'] poll by (simp add: OpPoll r)
  qed
next
  case OpNext
  then have t': "t' = t" and r: "r = Earliest (tt_next_deadline t)" using assms(2) by auto
  show ?thesis
    using tt_next_deadline_None [OF assms(1)] tt_next_deadline_Some [OF assms(1)] assms(1)
    by (cases "tt_next_deadline t") (simp_all add: OpNext t' r)
qed (use assms in \<open>auto simp: tt_ok_set tt_ok_cancel tt_cancel_session_spec tt_view_set tt_view_cancel fun_eq_iff\<close>)

lemma table_run_refines:
  "tt_ok t \<Longrightarrow> table_run ops t = (rs, t') \<Longrightarrow> tt_ok t' \<and> map_run ops (tt_view t) rs (tt_view t')"
proof (induction ops arbitrary: t rs)
  case (Cons op ops)
  obtain r t1 rs1 where op: "table_op op t = (r, t1)" and rest: "table_run ops t1 = (rs1, t')" and rs: "rs = r # rs1"
    using Cons.prems(2) by (auto split: prod.splits)
  from table_op_refines [OF Cons.prems(1) op] have "tt_ok t1" "map_op op (tt_view t) r (tt_view t1)" by blast+
  with Cons.IH [OF _ rest] show ?case by (auto simp: rs)
qed simp

text \<open>The map leaves no choice, neither in the results nor in what remains.\<close>

lemma map_op_determined:
  assumes "map_op op m r m1" and "map_op op m r' m2"
  shows "r' = r \<and> m2 = m1"
proof (cases op)
  case (OpPoll now)
  have none: "\<not> (m k = Some d \<and> d \<le> now)" if "\<forall>k d. m k = Some d \<longrightarrow> now < d" for k d
    using that by (simp add: not_le [symmetric])
  have least: "k' = k"
    if "m k = Some d" "\<forall>k' d'. m k' = Some d' \<longrightarrow> (d, k) \<le> (d', k')" "m k' = Some d'" "\<forall>k d. m k = Some d \<longrightarrow> (d', k') \<le> (d, k)"
    for k d k' d'
  proof -
    have "(d, k) \<le> (d', k')" "(d', k') \<le> (d, k)" using that by blast+
    then have "(d, k) = (d', k')" by (rule order_antisym)
    then show ?thesis by simp
  qed
  show ?thesis using assms none least unfolding OpPoll map_op.simps by metis
next
  case OpNext
  have least: "d' = d"
    if "m k = Some d" "\<forall>k' d'. m k' = Some d' \<longrightarrow> d \<le> d'" "m k' = Some d'" "\<forall>k d. m k = Some d \<longrightarrow> d' \<le> d" for k d k' d'
    using that by (intro order_antisym) blast+
  show ?thesis using assms least unfolding OpNext map_op.simps by (metis option.distinct(1))
qed (use assms in auto)

lemma map_run_determined: "map_run ops m rs m1 \<Longrightarrow> map_run ops m rs' m2 \<Longrightarrow> rs' = rs \<and> m2 = m1"
proof (induction ops arbitrary: m rs rs')
  case (Cons op ops)
  then obtain r rs1 n1 r' rs2 n2 where "rs = r # rs1" "rs' = r' # rs2" "map_op op m r n1" "map_op op m r' n2"
    and run: "map_run ops n1 rs1 m1" "map_run ops n2 rs2 m2" by auto
  moreover from this have "r' = r" "n2 = n1" using map_op_determined by blast+
  ultimately show ?case using Cons.IH [OF run(1), of rs2] by simp
qed simp

text \<open>C25: after any sequence of \<^verbatim>\<open>set\<close>, \<^verbatim>\<open>cancel\<close>, \<^verbatim>\<open>cancel_session\<close>, \<^verbatim>\<open>poll_expired\<close> and \<^verbatim>\<open>next_deadline\<close> on a new table
  the two indexes agree, and the results and the deadlines that remain are exactly those of a map from keys to
  deadlines: rearming moves a deadline, cancelling a session removes exactly the timers of that session, found
  by the range of its keys, polling hands out the due timer with the least deadline, the least key among
  equals, and removes it, and the next deadline is the least one.\<close>

theorem timer_table_refines:
  "map_run ops Map.empty rs m \<longleftrightarrow> (\<exists>t. table_run ops tt_new = (rs, t) \<and> tt_ok t \<and> tt_view t = m)"
proof -
  obtain rs0 t0 where run: "table_run ops tt_new = (rs0, t0)" by fastforce
  from table_run_refines [OF tt_ok_new(1) this] have ok: "tt_ok t0" and ref: "map_run ops Map.empty rs0 (tt_view t0)"
    by (simp_all add: tt_ok_new)
  show ?thesis
  proof
    assume "map_run ops Map.empty rs m"
    from map_run_determined [OF this ref] show "\<exists>t. table_run ops tt_new = (rs, t) \<and> tt_ok t \<and> tt_view t = m"
      using run ok by auto
  next
    assume "\<exists>t. table_run ops tt_new = (rs, t) \<and> tt_ok t \<and> tt_view t = m"
    then show "map_run ops Map.empty rs m" using run ref by auto
  qed
qed

text \<open>One tick hands out each timer that is due exactly once, in the order of the deadlines, leaves the
  others armed, and afterwards the next deadline lies after the tick.\<close>

theorem timer_drain_exact:
  assumes "tt_ok t" and "tt_drain now t = (ks, t')"
  shows "tt_ok t' \<and> set ks = {k. \<exists>d \<le> now. tt_view t k = Some d} \<and> distinct ks
    \<and> (\<forall>k. tt_view t' k = (if k \<in> set ks then None else tt_view t k))
    \<and> sorted_wrt (\<lambda>a b. the (tt_view t a) \<le> the (tt_view t b)) ks
    \<and> (case tt_next_deadline t' of None \<Rightarrow> True | Some d \<Rightarrow> now < d)"
proof -
  note drained = tt_drain_spec [OF assms]
  have "now < d" if first: "tt_next_deadline t' = Some d" for d
  proof -
    obtain k where "tt_view t' k = Some d" using tt_next_deadline_Some [of t' d] drained first by blast
    then have "k \<notin> set ks" "tt_view t k = Some d" using drained by (auto split: if_splits)
    then have "\<not> d \<le> now" using drained by blast
    then show ?thesis by simp
  qed
  with drained show ?thesis by (simp split: option.split)
qed

definition sample_timers :: timer_table where
  "sample_timers = tt_set (checkpoint_key (SessionId 1 1) 4) 30 (tt_set (inactivity_key (SessionId 1 1) True) 10 tt_new)"

lemma sample_timers_ok: "tt_ok sample_timers"
  by (simp add: sample_timers_def tt_ok_set tt_ok_new)

theorem timer_drain_exact_witness:
  "inactivity_key (SessionId 1 1) True \<in> set (fst (tt_drain 20 sample_timers))
   \<and> tt_view (snd (tt_drain 20 sample_timers)) (checkpoint_key (SessionId 1 1) 4) = Some 30"
  using timer_drain_exact [OF sample_timers_ok prod.collapse [symmetric], of 20]
  by (simp add: sample_timers_def tt_view_set tt_ok_new checkpoint_key_def inactivity_key_def)

end
