(* ===== verification/Engine.thy ===== *)
theory Engine
  imports Session Timer
begin

text \<open>
  The state of the protocol engine (\<^verbatim>\<open>ltp/src/engine/config.rs\<close>, \<^verbatim>\<open>engine/mod.rs\<close>), its round-trip
  timing, and the transmission of a block.  An operation that can panic (it slices a block)
  returns an option, \<open>None\<close> being the panic.
\<close>

section \<open>State\<close>

record engine_config =
  ec_engine_id :: engine_id
  ec_max_segment_payload_len :: u64
  ec_checkpoint_rtx_limit :: u32
  ec_report_rtx_limit :: u32
  ec_cancel_rtx_limit :: u32
  ec_rtt_micros :: u64
  ec_ack_margin_micros :: u64
  ec_max_block_size :: u64
  ec_session_inactivity_timeout_micros :: u64
  ec_initial_session_number :: u64
  ec_max_recv_sessions :: nat
  ec_max_reports_per_session :: nat
  ec_max_claims_per_report :: nat
  ec_allowed_client_services :: "u64 list option"

definition default_config :: engine_config where
  "default_config =
     \<lparr>ec_engine_id = 1, ec_max_segment_payload_len = 1400, ec_checkpoint_rtx_limit = 5,
      ec_report_rtx_limit = 5, ec_cancel_rtx_limit = 5, ec_rtt_micros = 2000000,
      ec_ack_margin_micros = 2000000, ec_max_block_size = 64 * 1024 * 1024,
      ec_session_inactivity_timeout_micros = 60000000, ec_initial_session_number = 1,
      ec_max_recv_sessions = 1024, ec_max_reports_per_session = 64, ec_max_claims_per_report = 20,
      ec_allowed_client_services = None\<rparr>"

record peer_timing =
  pt_rtt_micros :: u64
  pt_ack_margin_micros :: u64

definition timeout_duration_micros :: "peer_timing \<Rightarrow> u64" where
  "timeout_duration_micros t = sat_add (pt_rtt_micros t) (pt_ack_margin_micros t)"

datatype engine_error =
    ParseFailed parse_error
  | InvalidRedLength u64 u64
  | BlockTooLarge u64 u64
  | TrailingBytes nat nat

datatype notice =
    GreenSegmentArrived session_id engine_id u64 bytes bool
  | RedPartReceived session_id engine_id u64 bytes bool
  | TransmissionSessionCompleted session_id
  | TransmissionSessionCancelled session_id cancel_reason

record engine =
  en_config :: engine_config
  en_next_session_number :: u64
  en_send_sessions :: "(session_id, send_session) btree"
  en_recv_sessions :: "(session_id, recv_session) btree"
  en_timers :: timer_table
  en_closed_recv_sessions :: "session_id list"
  en_closed_recv_sessions_set :: "session_id list"
  en_cancelled_sessions :: "session_id list"
  en_cancelled_sessions_set :: "session_id list"
  en_outbound :: "(engine_id \<times> bytes) list"
  en_notices :: "notice list"
  en_peer_timings :: "(engine_id, peer_timing) btree"

definition engine_new :: "engine_config \<Rightarrow> engine" where
  "engine_new config =
     \<lparr>en_config = config, en_next_session_number = max (ec_initial_session_number config) 1,
      en_send_sessions = [], en_recv_sessions = [], en_timers = tt_new,
      en_closed_recv_sessions = [], en_closed_recv_sessions_set = [],
      en_cancelled_sessions = [], en_cancelled_sessions_set = [],
      en_outbound = [], en_notices = [], en_peer_timings = []\<rparr>"

section \<open>Serials and timing\<close>

text \<open>\<^verbatim>\<open>next_nonzero_serial\<close> leaves the serial it returns in \<^verbatim>\<open>cur\<close>.\<close>

definition next_nonzero_serial :: "u64 \<Rightarrow> u64" where
  "next_nonzero_serial cur = (let cur = cur + 1 in if cur = 0 then 1 else cur)"

definition peer_timeout_deadline_with ::
    "(engine_id, peer_timing) btree \<Rightarrow> engine_config \<Rightarrow> engine_id \<Rightarrow> u64 \<Rightarrow> u64" where
  "peer_timeout_deadline_with timings config peer now =
     (let timeout =
        (case bt_get timings peer of
           Some t \<Rightarrow> timeout_duration_micros t
         | None \<Rightarrow> sat_add (ec_rtt_micros config) (ec_ack_margin_micros config))
      in sat_add now timeout)"

definition default_timing :: "engine_config \<Rightarrow> peer_timing" where
  "default_timing config =
     \<lparr>pt_rtt_micros = ec_rtt_micros config, pt_ack_margin_micros = ec_ack_margin_micros config\<rparr>"

definition update_peer_rtt_sample_with ::
    "engine_config \<Rightarrow> engine_id \<Rightarrow> u64 \<Rightarrow> (engine_id, peer_timing) btree \<Rightarrow> (engine_id, peer_timing) btree" where
  "update_peer_rtt_sample_with config peer sample timings =
     (let current = (case bt_get timings peer of Some t \<Rightarrow> t | None \<Rightarrow> default_timing config);
          updated_rtt =
            (if pt_rtt_micros current = 0 then sample
             else sat_add (sat_mul (pt_rtt_micros current) 7) sample div 8)
      in bt_insert peer
           \<lparr>pt_rtt_micros = updated_rtt, pt_ack_margin_micros = pt_ack_margin_micros current\<rparr> timings)"

definition get_peer_timing :: "engine_id \<Rightarrow> engine \<Rightarrow> peer_timing" where
  "get_peer_timing peer e =
     (case bt_get (en_peer_timings e) peer of Some t \<Rightarrow> t | None \<Rightarrow> default_timing (en_config e))"

definition set_peer_timing :: "engine_id \<Rightarrow> u64 \<Rightarrow> u64 \<Rightarrow> engine \<Rightarrow> engine" where
  "set_peer_timing peer rtt margin e =
     e\<lparr>en_peer_timings :=
         bt_insert peer \<lparr>pt_rtt_micros = rtt, pt_ack_margin_micros = margin\<rparr> (en_peer_timings e)\<rparr>"

definition peer_timeout_deadline :: "engine_id \<Rightarrow> u64 \<Rightarrow> engine \<Rightarrow> u64" where
  "peer_timeout_deadline peer now e =
     peer_timeout_deadline_with (en_peer_timings e) (en_config e) peer now"

definition update_peer_rtt_sample :: "engine_id \<Rightarrow> u64 \<Rightarrow> engine \<Rightarrow> engine" where
  "update_peer_rtt_sample peer sample e =
     e\<lparr>en_peer_timings := update_peer_rtt_sample_with (en_config e) peer sample (en_peer_timings e)\<rparr>"

section \<open>Queues and timers\<close>

text \<open>A segment without extensions, as the engine builds all of its own, and the queue operations.\<close>

definition wire :: "session_id \<Rightarrow> segment_body \<Rightarrow> segment" where
  "wire sid body =
     \<lparr>seg_session = sid, seg_header_ext = [], seg_trailer_ext = [], seg_body = body\<rparr>"

definition push_out :: "engine_id \<Rightarrow> segment \<Rightarrow> engine \<Rightarrow> engine" where
  "push_out peer seg e = e\<lparr>en_outbound := en_outbound e @ [(peer, encode_to_vec seg)]\<rparr>"

definition push_notice :: "notice \<Rightarrow> engine \<Rightarrow> engine" where
  "push_notice n e = e\<lparr>en_notices := en_notices e @ [n]\<rparr>"

definition arm_timer :: "timer_key \<Rightarrow> u64 \<Rightarrow> engine \<Rightarrow> engine" where
  "arm_timer key deadline e = e\<lparr>en_timers := tt_set key deadline (en_timers e)\<rparr>"

definition disarm_timer :: "timer_key \<Rightarrow> engine \<Rightarrow> engine" where
  "disarm_timer key e = e\<lparr>en_timers := tt_cancel key (en_timers e)\<rparr>"

definition disarm_session :: "session_id \<Rightarrow> engine \<Rightarrow> engine" where
  "disarm_session sid e = e\<lparr>en_timers := tt_cancel_session sid (en_timers e)\<rparr>"

definition put_send :: "session_id \<Rightarrow> send_session \<Rightarrow> engine \<Rightarrow> engine" where
  "put_send sid s e = e\<lparr>en_send_sessions := bt_insert sid s (en_send_sessions e)\<rparr>"

definition drop_send :: "session_id \<Rightarrow> engine \<Rightarrow> engine" where
  "drop_send sid e = e\<lparr>en_send_sessions := bt_remove sid (en_send_sessions e)\<rparr>"

definition put_recv :: "session_id \<Rightarrow> recv_session \<Rightarrow> engine \<Rightarrow> engine" where
  "put_recv sid s e = e\<lparr>en_recv_sessions := bt_insert sid s (en_recv_sessions e)\<rparr>"

definition drop_recv :: "session_id \<Rightarrow> engine \<Rightarrow> engine" where
  "drop_recv sid e = e\<lparr>en_recv_sessions := bt_remove sid (en_recv_sessions e)\<rparr>"

text \<open>Restarting the inactivity timer; a timeout of zero switches it off.\<close>

definition touch_inactivity :: "session_id \<Rightarrow> bool \<Rightarrow> u64 \<Rightarrow> engine \<Rightarrow> engine" where
  "touch_inactivity sid is_sender now e =
     (let inact = ec_session_inactivity_timeout_micros (en_config e)
      in if 0 < inact then arm_timer (inactivity_key sid is_sender) (sat_add now inact) e else e)"

definition poll_output :: "engine \<Rightarrow> (engine_id \<times> bytes) option \<times> engine" where
  "poll_output e =
     (case en_outbound e of [] \<Rightarrow> (None, e) | x # xs \<Rightarrow> (Some x, e\<lparr>en_outbound := xs\<rparr>))"

definition poll_notice :: "engine \<Rightarrow> notice option \<times> engine" where
  "poll_notice e =
     (case en_notices e of [] \<Rightarrow> (None, e) | x # xs \<Rightarrow> (Some x, e\<lparr>en_notices := xs\<rparr>))"

definition next_timer_deadline :: "engine \<Rightarrow> u64 option" where
  "next_timer_deadline e = tt_next_deadline (en_timers e)"

definition peer_for_session :: "session_id \<Rightarrow> engine \<Rightarrow> engine_id option" where
  "peer_for_session sid e = map_option ss_peer (bt_get (en_send_sessions e) sid)"

definition active_send_sessions :: "engine \<Rightarrow> nat" where
  "active_send_sessions e = length (en_send_sessions e)"

definition active_recv_sessions :: "engine \<Rightarrow> nat" where
  "active_recv_sessions e = length (en_recv_sessions e)"

text \<open>The logs of closed and of cancelled sessions: a queue of at most 1024 identifiers and its members.\<close>

definition LOG_CAPACITY :: nat where
  "LOG_CAPACITY = 1024"

definition log_push :: "'a::linorder \<Rightarrow> 'a list \<times> 'a list \<Rightarrow> 'a list \<times> 'a list" where
  "log_push x log =
     (let (queue, members) = log
      in if x \<in> set members then (queue, members)
         else let queue = queue @ [x]; members = bs_insert x members
              in if LOG_CAPACITY < length queue
                 then (tl queue, bs_remove (hd queue) members)
                 else (queue, members))"

definition record_cancelled :: "session_id \<Rightarrow> engine \<Rightarrow> engine" where
  "record_cancelled sid e =
     (let (queue, members) = log_push sid (en_cancelled_sessions e, en_cancelled_sessions_set e)
      in e\<lparr>en_cancelled_sessions := queue, en_cancelled_sessions_set := members\<rparr>)"

definition record_closed :: "session_id \<Rightarrow> engine \<Rightarrow> engine" where
  "record_closed sid e =
     (let (queue, members) = log_push sid (en_closed_recv_sessions e, en_closed_recv_sessions_set e)
      in e\<lparr>en_closed_recv_sessions := queue, en_closed_recv_sessions_set := members\<rparr>)"

section \<open>Transmission\<close>

definition segment_mtu :: "engine \<Rightarrow> u64" where
  "segment_mtu e = max (ec_max_segment_payload_len (en_config e)) 1"

text \<open>The end of the next chunk: \<^verbatim>\<open>offset + (stop - offset).min(mtu)\<close>.\<close>

definition chunk_end :: "u64 \<Rightarrow> u64 \<Rightarrow> u64 \<Rightarrow> u64" where
  "chunk_end offset stop mtu = offset + min (stop - offset) mtu"

lemma chunk_end_unat:
  "offset \<le> stop \<Longrightarrow> unat (chunk_end offset stop mtu) = min (unat stop) (unat offset + unat mtu)"
proof -
  assume le: "offset \<le> stop"
  have diff: "unat (min (stop - offset) mtu) = min (unat stop - unat offset) (unat mtu)"
    using le by (simp add: unat_min unat_sub_exact)
  have "unat offset + min (unat stop - unat offset) (unat mtu) \<le> unat stop"
    using le by (simp add: word_le_nat_alt)
  from le_unat_less_2_64 [OF this] have "unat offset + unat (min (stop - offset) mtu) < 2 ^ LENGTH(64)"
    by (simp add: diff)
  then have "unat (chunk_end offset stop mtu) = unat offset + min (unat stop - unat offset) (unat mtu)"
    unfolding chunk_end_def by (simp add: unat_add_exact diff)
  then show ?thesis using le unfolding word_le_nat_alt by linarith
qed

lemma segment_mtu_pos: "0 < unat (segment_mtu e)"
  by (simp add: segment_mtu_def unat_max)

lemma chunk_end_progress:
  assumes "offset < stop"
  shows "offset < chunk_end offset stop (segment_mtu e)" "chunk_end offset stop (segment_mtu e) \<le> stop"
    "unat stop - unat (chunk_end offset stop (segment_mtu e)) < unat stop - unat offset"
proof -
  have "offset \<le> stop" using assms by simp
  then have "unat (chunk_end offset stop (segment_mtu e)) = min (unat stop) (unat offset + unat (segment_mtu e))"
    by (rule chunk_end_unat)
  then show "offset < chunk_end offset stop (segment_mtu e)" "chunk_end offset stop (segment_mtu e) \<le> stop"
    "unat stop - unat (chunk_end offset stop (segment_mtu e)) < unat stop - unat offset"
    using assms segment_mtu_pos [of e] unfolding u64_arith by linarith+
qed

definition checkpoint_kind :: "bool \<Rightarrow> bool \<Rightarrow> checkpoint \<Rightarrow> data_seg_kind" where
  "checkpoint_kind eorp eob cp =
     (if eorp then (if eob then RedCpEorpEob cp else RedCpEorp cp) else RedCp cp)"

definition data_wire :: "session_id \<Rightarrow> send_session \<Rightarrow> u64 \<Rightarrow> data_seg_kind \<Rightarrow> bytes \<Rightarrow> segment" where
  "data_wire sid s offset kind data =
     wire sid (Data \<lparr>ds_client_service = ss_client_service s, ds_offset = offset,
       ds_kind = kind, ds_data = data\<rparr>)"

text \<open>Recording an issued checkpoint and arming its timer.\<close>

definition record_checkpoint :: "session_id \<Rightarrow> checkpoint_record \<Rightarrow> u64 \<Rightarrow> send_session \<Rightarrow> engine \<Rightarrow> send_session \<times> engine" where
  "record_checkpoint sid r now s e =
     (let s = s\<lparr>ss_checkpoints := bt_insert (cpr_serial r) r (ss_checkpoints s)\<rparr>;
          deadline = peer_timeout_deadline (ss_peer s) now e
      in (s, arm_timer (checkpoint_key sid (ss_last_cp_serial s)) deadline e))"

text \<open>The loop over the red part; the last chunk is a checkpoint.\<close>

function send_red :: "u64 \<Rightarrow> u64 \<Rightarrow> send_session \<Rightarrow> engine \<Rightarrow> (u64 \<times> send_session \<times> engine) option" where
  "send_red now offset s e =
     (if offset < ss_red_len s
      then let end_off = chunk_end offset (ss_red_len s) (segment_mtu e);
               is_last_red = (end_off = ss_red_len s);
               eob = (end_off = vec_len (ss_block s));
               serial = next_nonzero_serial (ss_last_cp_serial s);
               s' = (if is_last_red then s\<lparr>ss_last_cp_serial := serial\<rparr> else s);
               kind = (if is_last_red
                       then checkpoint_kind True eob \<lparr>cp_serial = serial, cp_report_serial = 0\<rparr>
                       else Red)
           in case slice_get (ss_block s) (unat offset) (unat end_off) of
                None \<Rightarrow> None
              | Some data \<Rightarrow>
                  let e = push_out (ss_peer s) (data_wire (ss_id s) s offset kind data) e;
                      (s', e) =
                        (if is_last_red
                         then record_checkpoint (ss_id s)
                                \<lparr>cpr_serial = serial, cpr_report_serial = 0, cpr_offset = offset,
                                 cpr_length = end_off - offset, cpr_is_eorp = True, cpr_is_eob = eob,
                                 cpr_retries = 0, cpr_transmitted_at = now\<rparr> now s' e
                         else (s', e))
                  in send_red now end_off s' e
      else Some (offset, s, e))"
  by auto

termination
proof (relation "measure (\<lambda>(now, offset, s, e). unat (ss_red_len s) - unat offset)", goal_cases)
  case (2 now offset s e)
  then show ?case
    using chunk_end_progress(3) [of offset "ss_red_len s" e]
    by (auto simp: record_checkpoint_def Let_def split: if_splits)
qed simp

declare send_red.simps [simp del]

function send_green :: "u64 \<Rightarrow> send_session \<Rightarrow> engine \<Rightarrow> engine option" where
  "send_green offset s e =
     (if offset < vec_len (ss_block s)
      then let end_off = chunk_end offset (vec_len (ss_block s)) (segment_mtu e);
               kind = (if end_off = vec_len (ss_block s) then GreenEob else Green)
           in case slice_get (ss_block s) (unat offset) (unat end_off) of
                None \<Rightarrow> None
              | Some data \<Rightarrow>
                  send_green end_off s (push_out (ss_peer s) (data_wire (ss_id s) s offset kind data) e)
      else Some e)"
  by auto

termination
  by (relation "measure (\<lambda>(offset, s, e). unat (vec_len (ss_block s)) - unat offset)")
    (auto intro: chunk_end_progress)

declare send_green.simps [simp del]

definition bump_session_number :: "u64 \<Rightarrow> u64" where
  "bump_session_number n = (let n = n + 1 in if n = 0 then 1 else n)"

definition request_transmission ::
    "engine_id \<Rightarrow> u64 \<Rightarrow> bytes \<Rightarrow> u64 \<Rightarrow> u64 \<Rightarrow> engine \<Rightarrow> ((engine_error + session_id) \<times> engine) option" where
  "request_transmission peer client_service block red_len now e =
     (let block_len = vec_len block;
          max_block_size = ec_max_block_size (en_config e)
      in if max_block_size < block_len then Some (Inl (BlockTooLarge block_len max_block_size), e)
         else if block_len < red_len then Some (Inl (InvalidRedLength red_len block_len), e)
         else let sid = SessionId (ec_engine_id (en_config e)) (en_next_session_number e);
                  e = e\<lparr>en_next_session_number := bump_session_number (en_next_session_number e)\<rparr>;
                  s = send_session_new sid peer client_service block red_len 0 now
              in case send_red now 0 s e of
                   None \<Rightarrow> None
                 | Some (offset, s, e) \<Rightarrow>
                     (case send_green offset s e of
                        None \<Rightarrow> None
                      | Some e \<Rightarrow>
                          let s = s\<lparr>ss_eob_sent := True\<rparr>
                          in if is_complete s
                             then Some (Inr sid, push_notice (TransmissionSessionCompleted sid) e)
                             else Some (Inr sid, put_send sid s (touch_inactivity sid True now e))))"

section \<open>What each step leaves alone\<close>

lemma push_out_frame [simp]:
  "en_config (push_out p seg e) = en_config e"
  "en_next_session_number (push_out p seg e) = en_next_session_number e"
  "en_send_sessions (push_out p seg e) = en_send_sessions e"
  "en_recv_sessions (push_out p seg e) = en_recv_sessions e"
  "en_timers (push_out p seg e) = en_timers e"
  "en_closed_recv_sessions (push_out p seg e) = en_closed_recv_sessions e"
  "en_closed_recv_sessions_set (push_out p seg e) = en_closed_recv_sessions_set e"
  "en_cancelled_sessions (push_out p seg e) = en_cancelled_sessions e"
  "en_cancelled_sessions_set (push_out p seg e) = en_cancelled_sessions_set e"
  "en_outbound (push_out p seg e) = en_outbound e @ [(p, encode_to_vec seg)]"
  "en_notices (push_out p seg e) = en_notices e"
  "en_peer_timings (push_out p seg e) = en_peer_timings e"
  by (simp_all add: push_out_def)

lemma push_notice_frame [simp]:
  "en_config (push_notice n e) = en_config e"
  "en_next_session_number (push_notice n e) = en_next_session_number e"
  "en_send_sessions (push_notice n e) = en_send_sessions e"
  "en_recv_sessions (push_notice n e) = en_recv_sessions e"
  "en_timers (push_notice n e) = en_timers e"
  "en_closed_recv_sessions (push_notice n e) = en_closed_recv_sessions e"
  "en_closed_recv_sessions_set (push_notice n e) = en_closed_recv_sessions_set e"
  "en_cancelled_sessions (push_notice n e) = en_cancelled_sessions e"
  "en_cancelled_sessions_set (push_notice n e) = en_cancelled_sessions_set e"
  "en_outbound (push_notice n e) = en_outbound e"
  "en_notices (push_notice n e) = en_notices e @ [n]"
  "en_peer_timings (push_notice n e) = en_peer_timings e"
  by (simp_all add: push_notice_def)

lemma arm_timer_frame [simp]:
  "en_config (arm_timer k d e) = en_config e"
  "en_next_session_number (arm_timer k d e) = en_next_session_number e"
  "en_send_sessions (arm_timer k d e) = en_send_sessions e"
  "en_recv_sessions (arm_timer k d e) = en_recv_sessions e"
  "en_timers (arm_timer k d e) = tt_set k d (en_timers e)"
  "en_closed_recv_sessions (arm_timer k d e) = en_closed_recv_sessions e"
  "en_closed_recv_sessions_set (arm_timer k d e) = en_closed_recv_sessions_set e"
  "en_cancelled_sessions (arm_timer k d e) = en_cancelled_sessions e"
  "en_cancelled_sessions_set (arm_timer k d e) = en_cancelled_sessions_set e"
  "en_outbound (arm_timer k d e) = en_outbound e"
  "en_notices (arm_timer k d e) = en_notices e"
  "en_peer_timings (arm_timer k d e) = en_peer_timings e"
  by (simp_all add: arm_timer_def)

lemma disarm_timer_frame [simp]:
  "en_config (disarm_timer k e) = en_config e"
  "en_next_session_number (disarm_timer k e) = en_next_session_number e"
  "en_send_sessions (disarm_timer k e) = en_send_sessions e"
  "en_recv_sessions (disarm_timer k e) = en_recv_sessions e"
  "en_timers (disarm_timer k e) = tt_cancel k (en_timers e)"
  "en_closed_recv_sessions (disarm_timer k e) = en_closed_recv_sessions e"
  "en_closed_recv_sessions_set (disarm_timer k e) = en_closed_recv_sessions_set e"
  "en_cancelled_sessions (disarm_timer k e) = en_cancelled_sessions e"
  "en_cancelled_sessions_set (disarm_timer k e) = en_cancelled_sessions_set e"
  "en_outbound (disarm_timer k e) = en_outbound e"
  "en_notices (disarm_timer k e) = en_notices e"
  "en_peer_timings (disarm_timer k e) = en_peer_timings e"
  by (simp_all add: disarm_timer_def)

lemma disarm_session_frame [simp]:
  "en_config (disarm_session sid e) = en_config e"
  "en_next_session_number (disarm_session sid e) = en_next_session_number e"
  "en_send_sessions (disarm_session sid e) = en_send_sessions e"
  "en_recv_sessions (disarm_session sid e) = en_recv_sessions e"
  "en_timers (disarm_session sid e) = tt_cancel_session sid (en_timers e)"
  "en_closed_recv_sessions (disarm_session sid e) = en_closed_recv_sessions e"
  "en_closed_recv_sessions_set (disarm_session sid e) = en_closed_recv_sessions_set e"
  "en_cancelled_sessions (disarm_session sid e) = en_cancelled_sessions e"
  "en_cancelled_sessions_set (disarm_session sid e) = en_cancelled_sessions_set e"
  "en_outbound (disarm_session sid e) = en_outbound e"
  "en_notices (disarm_session sid e) = en_notices e"
  "en_peer_timings (disarm_session sid e) = en_peer_timings e"
  by (simp_all add: disarm_session_def)

lemma put_send_frame [simp]:
  "en_config (put_send sid s e) = en_config e"
  "en_next_session_number (put_send sid s e) = en_next_session_number e"
  "en_send_sessions (put_send sid s e) = bt_insert sid s (en_send_sessions e)"
  "en_recv_sessions (put_send sid s e) = en_recv_sessions e"
  "en_timers (put_send sid s e) = en_timers e"
  "en_closed_recv_sessions (put_send sid s e) = en_closed_recv_sessions e"
  "en_closed_recv_sessions_set (put_send sid s e) = en_closed_recv_sessions_set e"
  "en_cancelled_sessions (put_send sid s e) = en_cancelled_sessions e"
  "en_cancelled_sessions_set (put_send sid s e) = en_cancelled_sessions_set e"
  "en_outbound (put_send sid s e) = en_outbound e"
  "en_notices (put_send sid s e) = en_notices e"
  "en_peer_timings (put_send sid s e) = en_peer_timings e"
  by (simp_all add: put_send_def)

lemma drop_send_frame [simp]:
  "en_config (drop_send sid e) = en_config e"
  "en_next_session_number (drop_send sid e) = en_next_session_number e"
  "en_send_sessions (drop_send sid e) = bt_remove sid (en_send_sessions e)"
  "en_recv_sessions (drop_send sid e) = en_recv_sessions e"
  "en_timers (drop_send sid e) = en_timers e"
  "en_closed_recv_sessions (drop_send sid e) = en_closed_recv_sessions e"
  "en_closed_recv_sessions_set (drop_send sid e) = en_closed_recv_sessions_set e"
  "en_cancelled_sessions (drop_send sid e) = en_cancelled_sessions e"
  "en_cancelled_sessions_set (drop_send sid e) = en_cancelled_sessions_set e"
  "en_outbound (drop_send sid e) = en_outbound e"
  "en_notices (drop_send sid e) = en_notices e"
  "en_peer_timings (drop_send sid e) = en_peer_timings e"
  by (simp_all add: drop_send_def)

lemma put_recv_frame [simp]:
  "en_config (put_recv sid r e) = en_config e"
  "en_next_session_number (put_recv sid r e) = en_next_session_number e"
  "en_send_sessions (put_recv sid r e) = en_send_sessions e"
  "en_recv_sessions (put_recv sid r e) = bt_insert sid r (en_recv_sessions e)"
  "en_timers (put_recv sid r e) = en_timers e"
  "en_closed_recv_sessions (put_recv sid r e) = en_closed_recv_sessions e"
  "en_closed_recv_sessions_set (put_recv sid r e) = en_closed_recv_sessions_set e"
  "en_cancelled_sessions (put_recv sid r e) = en_cancelled_sessions e"
  "en_cancelled_sessions_set (put_recv sid r e) = en_cancelled_sessions_set e"
  "en_outbound (put_recv sid r e) = en_outbound e"
  "en_notices (put_recv sid r e) = en_notices e"
  "en_peer_timings (put_recv sid r e) = en_peer_timings e"
  by (simp_all add: put_recv_def)

lemma drop_recv_frame [simp]:
  "en_config (drop_recv sid e) = en_config e"
  "en_next_session_number (drop_recv sid e) = en_next_session_number e"
  "en_send_sessions (drop_recv sid e) = en_send_sessions e"
  "en_recv_sessions (drop_recv sid e) = bt_remove sid (en_recv_sessions e)"
  "en_timers (drop_recv sid e) = en_timers e"
  "en_closed_recv_sessions (drop_recv sid e) = en_closed_recv_sessions e"
  "en_closed_recv_sessions_set (drop_recv sid e) = en_closed_recv_sessions_set e"
  "en_cancelled_sessions (drop_recv sid e) = en_cancelled_sessions e"
  "en_cancelled_sessions_set (drop_recv sid e) = en_cancelled_sessions_set e"
  "en_outbound (drop_recv sid e) = en_outbound e"
  "en_notices (drop_recv sid e) = en_notices e"
  "en_peer_timings (drop_recv sid e) = en_peer_timings e"
  by (simp_all add: drop_recv_def)

lemma update_peer_rtt_sample_frame [simp]:
  "en_config (update_peer_rtt_sample p x e) = en_config e"
  "en_next_session_number (update_peer_rtt_sample p x e) = en_next_session_number e"
  "en_send_sessions (update_peer_rtt_sample p x e) = en_send_sessions e"
  "en_recv_sessions (update_peer_rtt_sample p x e) = en_recv_sessions e"
  "en_timers (update_peer_rtt_sample p x e) = en_timers e"
  "en_closed_recv_sessions (update_peer_rtt_sample p x e) = en_closed_recv_sessions e"
  "en_closed_recv_sessions_set (update_peer_rtt_sample p x e) = en_closed_recv_sessions_set e"
  "en_cancelled_sessions (update_peer_rtt_sample p x e) = en_cancelled_sessions e"
  "en_cancelled_sessions_set (update_peer_rtt_sample p x e) = en_cancelled_sessions_set e"
  "en_outbound (update_peer_rtt_sample p x e) = en_outbound e"
  "en_notices (update_peer_rtt_sample p x e) = en_notices e"
  by (simp_all add: update_peer_rtt_sample_def)

lemma touch_inactivity_frame [simp]:
  "en_config (touch_inactivity sid b now e) = en_config e"
  "en_next_session_number (touch_inactivity sid b now e) = en_next_session_number e"
  "en_send_sessions (touch_inactivity sid b now e) = en_send_sessions e"
  "en_recv_sessions (touch_inactivity sid b now e) = en_recv_sessions e"
  "en_closed_recv_sessions (touch_inactivity sid b now e) = en_closed_recv_sessions e"
  "en_closed_recv_sessions_set (touch_inactivity sid b now e) = en_closed_recv_sessions_set e"
  "en_cancelled_sessions (touch_inactivity sid b now e) = en_cancelled_sessions e"
  "en_cancelled_sessions_set (touch_inactivity sid b now e) = en_cancelled_sessions_set e"
  "en_outbound (touch_inactivity sid b now e) = en_outbound e"
  "en_notices (touch_inactivity sid b now e) = en_notices e"
  "en_peer_timings (touch_inactivity sid b now e) = en_peer_timings e"
  by (simp_all add: touch_inactivity_def arm_timer_def Let_def)

lemma record_cancelled_frame [simp]:
  "en_config (record_cancelled sid e) = en_config e"
  "en_next_session_number (record_cancelled sid e) = en_next_session_number e"
  "en_send_sessions (record_cancelled sid e) = en_send_sessions e"
  "en_recv_sessions (record_cancelled sid e) = en_recv_sessions e"
  "en_timers (record_cancelled sid e) = en_timers e"
  "en_closed_recv_sessions (record_cancelled sid e) = en_closed_recv_sessions e"
  "en_closed_recv_sessions_set (record_cancelled sid e) = en_closed_recv_sessions_set e"
  "en_outbound (record_cancelled sid e) = en_outbound e"
  "en_notices (record_cancelled sid e) = en_notices e"
  "en_peer_timings (record_cancelled sid e) = en_peer_timings e"
  by (simp_all add: record_cancelled_def split: prod.split)

lemma record_closed_frame [simp]:
  "en_config (record_closed sid e) = en_config e"
  "en_next_session_number (record_closed sid e) = en_next_session_number e"
  "en_send_sessions (record_closed sid e) = en_send_sessions e"
  "en_recv_sessions (record_closed sid e) = en_recv_sessions e"
  "en_timers (record_closed sid e) = en_timers e"
  "en_cancelled_sessions (record_closed sid e) = en_cancelled_sessions e"
  "en_cancelled_sessions_set (record_closed sid e) = en_cancelled_sessions_set e"
  "en_outbound (record_closed sid e) = en_outbound e"
  "en_notices (record_closed sid e) = en_notices e"
  "en_peer_timings (record_closed sid e) = en_peer_timings e"
  by (simp_all add: record_closed_def split: prod.split)

end
