(* ===== verification/Segment_Parse.thy ===== *)
theory Segment_Parse
  imports Segment
begin

text \<open>
  The segment parser (\<^verbatim>\<open>ltp/src/segment/parse.rs\<close>).  A \<open>cursor\<close> is the source's: a buffer and a
  position in it.  Readers return the value and the advanced cursor.  The locale \<open>cursor_reader\<close>
  is the contract between a reader and the writer of the same field; loops over fields are
  proved once inside it and instantiated for SDNVs and extensions.
\<close>

section \<open>Definitions\<close>

definition MAX_PARSED_CLAIMS :: u64 where
  "MAX_PARSED_CLAIMS = 65536"

record cursor =
  cur_buf :: bytes
  cur_pos :: nat

definition cur_u8 :: "cursor \<Rightarrow> parse_error + u8 \<times> cursor" where
  "cur_u8 c =
     (if cur_pos c < length (cur_buf c)
      then Inr (cur_buf c ! cur_pos c, c\<lparr>cur_pos := cur_pos c + 1\<rparr>)
      else Inl SegTruncated)"

definition cur_sdnv :: "cursor \<Rightarrow> parse_error + u64 \<times> cursor" where
  "cur_sdnv c =
     (case decode (drop (cur_pos c) (cur_buf c)) of
        Inl e \<Rightarrow> Inl (SdnvError e)
      | Inr (v, consumed) \<Rightarrow> Inr (v, c\<lparr>cur_pos := cur_pos c + consumed\<rparr>))"

definition cur_bytes :: "cursor \<Rightarrow> u64 \<Rightarrow> parse_error + bytes \<times> cursor" where
  "cur_bytes c len =
     (let end_pos = cur_pos c + unat len
      in if 2 ^ 64 \<le> end_pos then Inl SegTruncated
         else case slice_get (cur_buf c) (cur_pos c) end_pos of
                None \<Rightarrow> Inl SegTruncated
              | Some data \<Rightarrow> Inr (data, c\<lparr>cur_pos := end_pos\<rparr>))"

definition cur_remaining :: "cursor \<Rightarrow> nat" where
  "cur_remaining c = length (cur_buf c) - cur_pos c"

text \<open>A loop \<^verbatim>\<open>for _ in 0..count { out.push(read(cursor)?) }\<close>.\<close>

fun read_many :: "(cursor \<Rightarrow> parse_error + 'a \<times> cursor) \<Rightarrow> nat \<Rightarrow> cursor \<Rightarrow> parse_error + 'a list \<times> cursor" where
  "read_many rd 0 c = Inr ([], c)"
| "read_many rd (Suc n) c =
     and_then (rd c) (\<lambda>(x, c). and_then (read_many rd n c) (\<lambda>(xs, c). Inr (x # xs, c)))"

definition parse_extension :: "cursor \<Rightarrow> parse_error + extension \<times> cursor" where
  "parse_extension c =
     and_then (cur_u8 c) (\<lambda>(tag, c).
     and_then (cur_sdnv c) (\<lambda>(len, c).
     and_then (cur_bytes c len) (\<lambda>(value, c).
     Inr (\<lparr>ext_tag = tag, ext_value = value\<rparr>, c))))"

definition parse_extensions :: "cursor \<Rightarrow> u8 \<Rightarrow> parse_error + extension list \<times> cursor" where
  "parse_extensions c count = read_many parse_extension (unat count) c"

definition parse_checkpoint :: "cursor \<Rightarrow> parse_error + checkpoint \<times> cursor" where
  "parse_checkpoint c =
     and_then (cur_sdnv c) (\<lambda>(raw_serial, c).
     if raw_serial = 0 then Inl ZeroSerial
     else and_then (cur_sdnv c) (\<lambda>(report_serial, c).
          Inr (\<lparr>cp_serial = raw_serial, cp_report_serial = report_serial\<rparr>, c)))"

definition parse_kind :: "cursor \<Rightarrow> u8 \<Rightarrow> parse_error + data_seg_kind \<times> cursor" where
  "parse_kind c code =
     (if code = 0 then Inr (Red, c)
      else if code = 1 then and_then (parse_checkpoint c) (\<lambda>(cp, c). Inr (RedCp cp, c))
      else if code = 2 then and_then (parse_checkpoint c) (\<lambda>(cp, c). Inr (RedCpEorp cp, c))
      else if code = 3 then and_then (parse_checkpoint c) (\<lambda>(cp, c). Inr (RedCpEorpEob cp, c))
      else if code = 4 then Inr (Green, c)
      else if code = 7 then Inr (GreenEob, c)
      else Inl (UndefinedType code))"

definition parse_data :: "cursor \<Rightarrow> u8 \<Rightarrow> parse_error + data_segment \<times> cursor" where
  "parse_data c code =
     and_then (cur_sdnv c) (\<lambda>(client_service, c).
     and_then (cur_sdnv c) (\<lambda>(offset, c).
     and_then (cur_sdnv c) (\<lambda>(len, c).
     and_then (parse_kind c code) (\<lambda>(kind, c).
     and_then (cur_bytes c len) (\<lambda>(data, c).
     Inr (\<lparr>ds_client_service = client_service, ds_offset = offset, ds_kind = kind, ds_data = data\<rparr>, c))))))"

text \<open>The claims loop: \<open>first\<close> is \<^verbatim>\<open>i == 0\<close>, \<open>prev_end\<close> and \<open>scope\<close> are the source's.\<close>

fun parse_claims :: "nat \<Rightarrow> bool \<Rightarrow> u64 \<Rightarrow> u64 \<Rightarrow> cursor \<Rightarrow> parse_error + reception_claim list \<times> cursor" where
  "parse_claims 0 first prev_end scope c = Inr ([], c)"
| "parse_claims (Suc n) first prev_end scope c =
     and_then (cur_sdnv c) (\<lambda>(offset, c).
     and_then (cur_sdnv c) (\<lambda>(len, c).
     if len = 0 then Inl ClaimInvariant
     else if \<not> first \<and> offset < prev_end then Inl ClaimInvariant
     else case checked_add offset len of
            None \<Rightarrow> Inl ClaimInvariant
          | Some end_off \<Rightarrow>
              if scope < end_off then Inl ClaimInvariant
              else and_then (parse_claims n False end_off scope c) (\<lambda>(cs, c).
                   Inr (\<lparr>cl_offset = offset, cl_length = len\<rparr> # cs, c))))"

definition parse_report :: "cursor \<Rightarrow> parse_error + report_segment \<times> cursor" where
  "parse_report c =
     and_then (cur_sdnv c) (\<lambda>(raw_report_serial, c).
     if raw_report_serial = 0 then Inl ZeroSerial else
     and_then (cur_sdnv c) (\<lambda>(checkpoint_serial, c).
     and_then (cur_sdnv c) (\<lambda>(upper_bound, c).
     and_then (cur_sdnv c) (\<lambda>(lower_bound, c).
     if upper_bound \<le> lower_bound then Inl BoundsInvariant else
     and_then (cur_sdnv c) (\<lambda>(claim_count, c).
     if MAX_PARSED_CLAIMS < claim_count
        \<or> 0 < claim_count \<and> word_of_nat (cur_remaining c) div 2 < claim_count
     then Inl ClaimCountInvalid else
     and_then (parse_claims (unat claim_count) True 0 (upper_bound - lower_bound) c) (\<lambda>(claims, c).
     Inr (\<lparr>rs_report_serial = raw_report_serial, rs_checkpoint_serial = checkpoint_serial,
           rs_upper_bound = upper_bound, rs_lower_bound = lower_bound, rs_claims = claims\<rparr>, c)))))))"

definition parse_reason :: "cursor \<Rightarrow> parse_error + cancel_reason \<times> cursor" where
  "parse_reason c =
     and_then (cur_u8 c) (\<lambda>(code, c).
     case from_code code of None \<Rightarrow> Inl (ReservedReason code) | Some r \<Rightarrow> Inr (r, c))"

definition parse_body :: "cursor \<Rightarrow> u8 \<Rightarrow> parse_error + segment_body \<times> cursor" where
  "parse_body c code =
     (if code \<le> 4 \<or> code = 7 then and_then (parse_data c code) (\<lambda>(ds, c). Inr (Data ds, c))
      else if code = 8 then and_then (parse_report c) (\<lambda>(rs, c). Inr (Report rs, c))
      else if code = 9 then and_then (cur_sdnv c) (\<lambda>(n, c). Inr (ReportAck n, c))
      else if code = 12 then and_then (parse_reason c) (\<lambda>(r, c). Inr (CancelSender r, c))
      else if code = 13 then Inr (CancelAckSender, c)
      else if code = 14 then and_then (parse_reason c) (\<lambda>(r, c). Inr (CancelReceiver r, c))
      else if code = 15 then Inr (CancelAckReceiver, c)
      else Inl (UndefinedType code))"

text \<open>The control byte and the session identifier, which \<^verbatim>\<open>parse\<close> and \<^verbatim>\<open>peek_session\<close> both read first.\<close>

definition parse_prefix :: "cursor \<Rightarrow> parse_error + (u8 \<times> session_id) \<times> cursor" where
  "parse_prefix c =
     and_then (cur_u8 c) (\<lambda>(control_byte, c).
     let version = drop_bit 4 control_byte; code = control_byte AND 0x0F
     in if version \<noteq> 0 then Inl (BadVersion version)
        else if code \<in> {5, 6, 10, 11} then Inl (UndefinedType code)
        else and_then (cur_sdnv c) (\<lambda>(orig, c).
             and_then (cur_sdnv c) (\<lambda>(num, c).
             Inr ((code, SessionId orig num), c))))"

definition parse_segment :: "bytes \<Rightarrow> parse_error + segment \<times> nat" where
  "parse_segment buffer =
     and_then (parse_prefix \<lparr>cur_buf = buffer, cur_pos = 0\<rparr>) (\<lambda>((code, session), c).
     and_then (cur_u8 c) (\<lambda>(ext_counts, c).
     and_then (parse_extensions c (drop_bit 4 ext_counts)) (\<lambda>(header_ext, c).
     and_then (parse_body c code) (\<lambda>(body, c).
     and_then (parse_extensions c (ext_counts AND 0x0F)) (\<lambda>(trailer_ext, c).
     Inr (\<lparr>seg_session = session, seg_header_ext = header_ext, seg_trailer_ext = trailer_ext,
           seg_body = body\<rparr>, cur_pos c))))))"

definition peek_session :: "bytes \<Rightarrow> parse_error + session_id" where
  "peek_session buffer =
     and_then (parse_prefix \<lparr>cur_buf = buffer, cur_pos = 0\<rparr>) (\<lambda>((code, session), c). Inr session)"

section \<open>The contract between a reader and a writer\<close>

text \<open>\<open>unread c\<close> is what is left; a Rust slice has fewer than \<open>2 ^ 63\<close> elements.\<close>

definition unread :: "cursor \<Rightarrow> bytes" where
  "unread c = drop (cur_pos c) (cur_buf c)"

definition cursor_ok :: "cursor \<Rightarrow> bool" where
  "cursor_ok c \<longleftrightarrow> cur_pos c \<le> length (cur_buf c) \<and> length (cur_buf c) < 2 ^ 63"

definition advance :: "cursor \<Rightarrow> nat \<Rightarrow> cursor" where
  "advance c n = c\<lparr>cur_pos := cur_pos c + n\<rparr>"

text \<open>\<open>reads c bs rest\<close>: the cursor stands before \<open>bs\<close>, which \<open>rest\<close> follows.\<close>

definition reads :: "cursor \<Rightarrow> bytes \<Rightarrow> bytes \<Rightarrow> bool" where
  "reads c bs rest \<longleftrightarrow> cursor_ok c \<and> unread c = bs @ rest"

lemma length_unread: "length (unread c) = length (cur_buf c) - cur_pos c"
  by (simp add: unread_def)

lemma readsD: "reads c bs rest \<Longrightarrow> cur_pos c + length bs \<le> length (cur_buf c) \<and> length (cur_buf c) < 2 ^ 63"
  using length_unread [of c] by (auto simp: reads_def cursor_ok_def)

lemma reads_advance: "reads c (xs @ ys) rest \<Longrightarrow> reads (advance c (length xs)) ys rest"
  using length_unread [of c]
  by (auto simp: reads_def cursor_ok_def unread_def advance_def add.commute simp flip: drop_drop)

lemma reads_split: "reads c (xs @ ys) rest \<longleftrightarrow> reads c xs (ys @ rest)"
  by (simp add: reads_def)

lemma advance_advance [simp]: "advance (advance c m) n = advance c (m + n)"
  by (simp add: advance_def)

lemma advance_0 [simp]: "advance c 0 = c"
  by (simp add: advance_def)

lemma cur_pos_advance [simp]: "cur_pos (advance c n) = cur_pos c + n"
  by (simp add: advance_def)

lemma cur_buf_advance [simp]: "cur_buf (advance c n) = cur_buf c"
  by (simp add: advance_def)

text \<open>\<open>follows c c'\<close>: a reader went from \<open>c\<close> to \<open>c'\<close> over the same buffer, forwards and never past its end.\<close>

definition follows :: "cursor \<Rightarrow> cursor \<Rightarrow> bool" where
  "follows c c' \<longleftrightarrow>
     cur_buf c' = cur_buf c \<and> cur_pos c \<le> cur_pos c' \<and> (cursor_ok c \<longrightarrow> cursor_ok c')"

lemma follows_refl [simp]: "follows c c"
  by (simp add: follows_def)

lemma follows_trans: "follows a b \<Longrightarrow> follows b c \<Longrightarrow> follows a c"
  by (simp add: follows_def)

locale cursor_reader =
  fixes rd :: "cursor \<Rightarrow> parse_error + 'a \<times> cursor"
    and enc :: "'a \<Rightarrow> bytes"
  assumes rd_enc: "reads c (enc x) rest \<Longrightarrow> rd c = Inr (x, advance c (length (enc x)))"
    and rd_follows: "rd c = Inr (x, c') \<Longrightarrow> follows c c'"
begin

lemma read_many_enc:
  "reads c (concat (map enc xs)) rest
   \<Longrightarrow> read_many rd (length xs) c = Inr (xs, advance c (length (concat (map enc xs))))"
proof (induction xs arbitrary: c)
  case (Cons x xs)
  from Cons.prems have x: "reads c (enc x) (concat (map enc xs) @ rest)"
    and rest: "reads (advance c (length (enc x))) (concat (map enc xs)) rest"
    by (simp_all add: reads_split [symmetric] reads_advance)
  show ?case by (simp add: rd_enc [OF x] Cons.IH [OF rest])
qed simp

lemma read_many_follows: "read_many rd n c = Inr (xs, c') \<Longrightarrow> length xs = n \<and> follows c c'"
proof (induction n arbitrary: c xs)
  case (Suc n)
  from Suc.prems obtain x c1 ys where "rd c = Inr (x, c1)"
    and ys: "read_many rd n c1 = Inr (ys, c')" "xs = x # ys"
    by (auto simp: and_then_Inr_iff)
  with Suc.IH [OF ys(1)] show ?case by (auto dest: rd_follows intro: follows_trans)
qed simp

end

section \<open>The readers meet it\<close>

lemma cur_sdnv_enc: "reads c (sdnv_bytes v) rest \<Longrightarrow> cur_sdnv c = Inr (v, advance c (length (sdnv_bytes v)))"
  by (simp add: reads_def unread_def cur_sdnv_def decode_sdnv_bytes advance_def length_sdnv_bytes)

lemma cur_sdnv_follows: "cur_sdnv c = Inr (v, c') \<Longrightarrow> follows c c'"
  using decode_consumed [of "drop (cur_pos c) (cur_buf c)"]
  by (auto simp: cur_sdnv_def cursor_ok_def follows_def split: sum.splits)

interpretation sdnv: cursor_reader cur_sdnv sdnv_bytes
  by unfold_locales (fact cur_sdnv_enc cur_sdnv_follows)+

lemma cur_u8_enc: "reads c [b] rest \<Longrightarrow> cur_u8 c = Inr (b, advance c 1)"
  using readsD [of c "[b]" rest]
  by (auto simp: reads_def unread_def cur_u8_def advance_def simp flip: Cons_nth_drop_Suc)

lemma cur_u8_follows: "cur_u8 c = Inr (b, c') \<Longrightarrow> follows c c'"
  by (auto simp: cur_u8_def cursor_ok_def follows_def split: if_splits)

interpretation octet: cursor_reader cur_u8 "\<lambda>b. [b]"
  by unfold_locales (simp_all add: cur_u8_enc cur_u8_follows)

lemma cur_bytes_enc:
  assumes "reads c xs rest"
  shows "cur_bytes c (vec_len xs) = Inr (xs, advance c (length xs))"
proof -
  have len: "cur_pos c + length xs \<le> length (cur_buf c)" "length (cur_buf c) < 2 ^ 63"
    using readsD [OF assms] by auto
  then have "unat (vec_len xs) = length xs" by (intro unat_vec_len) simp
  moreover have "take (length xs) (drop (cur_pos c) (cur_buf c)) = xs"
    using assms by (simp add: reads_def unread_def)
  ultimately show ?thesis using len by (simp add: cur_bytes_def slice_get_def advance_def Let_def)
qed

lemma cur_bytes_follows: "cur_bytes c len = Inr (xs, c') \<Longrightarrow> follows c c'"
  by (auto simp: cur_bytes_def cursor_ok_def follows_def slice_get_def Let_def split: if_splits)

text \<open>Reading field after field.\<close>

lemmas read_enc = cur_sdnv_enc cur_u8_enc cur_bytes_enc
lemmas read_follows = cur_sdnv_follows cur_u8_follows cur_bytes_follows

lemma parse_extension_enc:
  assumes "reads c (ext_bytes e) rest"
  shows "parse_extension c = Inr (e, advance c (length (ext_bytes e)))"
proof -
  let ?n = "sdnv_bytes (vec_len (ext_value e))"
  have "reads c [ext_tag e] (?n @ ext_value e @ rest)"
    and "reads (advance c 1) ?n (ext_value e @ rest)"
    and "reads (advance c (1 + length ?n)) (ext_value e) rest"
    using assms reads_advance [of c "[ext_tag e]" "?n @ ext_value e" rest]
      reads_advance [of "advance c 1" ?n "ext_value e" rest]
    by (simp_all add: ext_bytes_def reads_def)
  then show ?thesis
    by (simp add: parse_extension_def read_enc ext_bytes_def)
qed

lemma parse_extension_follows: "parse_extension c = Inr (e, c') \<Longrightarrow> follows c c'"
  by (auto simp: parse_extension_def and_then_Inr_iff dest!: read_follows intro: follows_trans)

interpretation ext: cursor_reader parse_extension ext_bytes
  by unfold_locales (fact parse_extension_enc parse_extension_follows)+

section \<open>Parsing what was written\<close>

lemma reads_append:
  "reads c (xs @ ys) rest \<longleftrightarrow> reads c xs (ys @ rest) \<and> reads (advance c (length xs)) ys rest"
  using reads_advance [of c xs ys rest] by (auto simp: reads_split)

lemma reads_Cons:
  "reads c (x # ys) rest \<longleftrightarrow> reads c [x] (ys @ rest) \<and> reads (advance c 1) ys rest"
  using reads_append [of c "[x]" ys rest] by simp

lemma parse_checkpoint_enc:
  "cp_serial cp \<noteq> 0 \<Longrightarrow> reads c (checkpoint_bytes cp) rest
   \<Longrightarrow> parse_checkpoint c = Inr (cp, advance c (length (checkpoint_bytes cp)))"
  by (auto simp: parse_checkpoint_def checkpoint_bytes_def reads_append read_enc)

lemma parse_kind_enc:
  assumes "case kind_checkpoint k of Some cp \<Rightarrow> cp_serial cp \<noteq> 0 | None \<Rightarrow> True"
    and "reads c (case kind_checkpoint k of Some cp \<Rightarrow> checkpoint_bytes cp | None \<Rightarrow> []) rest"
  shows "parse_kind c (kind_code k)
    = Inr (k, advance c (length (case kind_checkpoint k of Some cp \<Rightarrow> checkpoint_bytes cp | None \<Rightarrow> [])))"
  using assms by (cases k) (simp_all add: parse_kind_def parse_checkpoint_enc)

lemma parse_data_enc:
  assumes "case kind_checkpoint (ds_kind ds) of Some cp \<Rightarrow> cp_serial cp \<noteq> 0 | None \<Rightarrow> True"
    and "reads c (data_bytes ds) rest"
  shows "parse_data c (kind_code (ds_kind ds)) = Inr (ds, advance c (length (data_bytes ds)))"
  using assms(2)
  by (auto simp: parse_data_def data_bytes_def reads_append read_enc parse_kind_enc [OF assms(1)] add.assoc)

lemma valid_claims_checks:
  assumes "valid_claims scope prev (cl # cls)" "scope < 2 ^ 64"
  shows "checked_add (cl_offset cl) (cl_length cl) = Some (cl_offset cl + cl_length cl)"
    and "unat (cl_offset cl + cl_length cl) = unat (cl_offset cl) + unat (cl_length cl)"
  using assms by (auto simp: checked_add_Some_iff unat_add_exact)

lemma parse_claims_enc:
  assumes "valid_claims (unat scope) (unat prev) cls" "reads c (concat (map claim_bytes cls)) rest"
    "first \<longrightarrow> prev = 0"
  shows "parse_claims (length cls) first prev scope c
    = Inr (cls, advance c (length (concat (map claim_bytes cls))))"
  using assms
proof (induction cls arbitrary: c first prev)
  case (Cons cl cls)
  let ?stop = "cl_offset cl + cl_length cl"
  note ends = valid_claims_checks [OF Cons.prems(1)]
  have rest: "reads (advance c (length (claim_bytes cl))) (concat (map claim_bytes cls)) rest"
    using Cons.prems(2) by (simp add: reads_append)
  have IH: "parse_claims (length cls) False ?stop scope (advance c (length (claim_bytes cl)))
    = Inr (cls, advance c (length (claim_bytes cl) + length (concat (map claim_bytes cls))))"
    using Cons.prems(1) ends rest by (subst Cons.IH [where prev = ?stop]) simp_all
  have "\<not> cl_offset cl < prev" "\<not> scope < ?stop" "cl_length cl \<noteq> 0"
    using Cons.prems(1) ends by (simp_all add: word_less_nat_alt)
  moreover from Cons.prems(2) have "reads c (sdnv_bytes (cl_offset cl))
      (sdnv_bytes (cl_length cl) @ concat (map claim_bytes cls) @ rest)"
    and "reads (advance c (length (sdnv_bytes (cl_offset cl)))) (sdnv_bytes (cl_length cl))
      (concat (map claim_bytes cls) @ rest)"
    by (simp_all add: reads_append claim_bytes_def [of cl])
  ultimately show ?case
    using IH ends(1) by (simp add: claim_bytes_def [of cl] read_enc add.assoc)
qed simp

lemma length_claim_bytes_ge_2: "2 \<le> length (claim_bytes cl)"
  using encoded_len_pos [of "cl_offset cl"] encoded_len_pos [of "cl_length cl"]
  by (simp add: claim_bytes_def length_sdnv_bytes)

lemma length_claims_ge: "2 * length cls \<le> length (concat (map claim_bytes cls))"
proof (induction cls)
  case (Cons cl cls)
  with length_claim_bytes_ge_2 [of cl] show ?case by simp
qed simp

lemma parse_report_enc:
  assumes wf: "wf_report rs" and r: "reads c (report_bytes rs) rest"
  shows "parse_report c = Inr (rs, advance c (length (report_bytes rs)))"
proof -
  let ?cs = "rs_claims rs" and ?count = "vec_len (rs_claims rs)"
  let ?hd = "sdnv_bytes (rs_report_serial rs) @ sdnv_bytes (rs_checkpoint_serial rs)
     @ sdnv_bytes (rs_upper_bound rs) @ sdnv_bytes (rs_lower_bound rs) @ sdnv_bytes ?count"
  let ?c = "advance c (length ?hd)"
  have r': "reads c ?hd (concat (map claim_bytes ?cs) @ rest)" "reads ?c (concat (map claim_bytes ?cs)) rest"
    using r reads_append [of c ?hd "concat (map claim_bytes ?cs)" rest] by (simp_all add: report_bytes_def)
  have count: "unat ?count = length ?cs" using wf by (simp add: wf_report_def unat_vec_len)
  have rem: "2 * length ?cs \<le> cur_remaining ?c" "cur_remaining ?c < 2 ^ 63"
    using readsD [OF r'(2)] length_claims_ge [of ?cs] by (auto simp: cur_remaining_def)
  have scope: "unat (rs_upper_bound rs - rs_lower_bound rs) = unat (rs_upper_bound rs) - unat (rs_lower_bound rs)"
    using wf by (simp add: wf_report_def unat_sub_exact less_imp_le)
  have "unat (word_of_nat (cur_remaining ?c) div 2 :: u64) = cur_remaining ?c div 2"
    using rem(2) by (simp add: unat_div_distrib unat_of_nat)
  moreover have half: "\<not> cur_remaining ?c div 2 < length ?cs" using rem(1) by linarith
  ultimately have ok: "\<not> (MAX_PARSED_CLAIMS < ?count \<or> 0 < ?count \<and> word_of_nat (cur_remaining ?c) div 2 < ?count)"
    using wf count half by (simp add: wf_report_def MAX_PARSED_CLAIMS_def word_less_nat_alt)
  have claims: "parse_claims (unat ?count) True 0 (rs_upper_bound rs - rs_lower_bound rs) ?c
    = Inr (?cs, advance ?c (length (concat (map claim_bytes ?cs))))"
    unfolding count using wf r'(2) scope by (intro parse_claims_enc) (simp_all add: wf_report_def)
  have "\<not> rs_upper_bound rs \<le> rs_lower_bound rs" "rs_report_serial rs \<noteq> 0"
    using wf by (auto simp: wf_report_def)
  then show ?thesis
    using r'(1) ok claims
    by (auto simp: parse_report_def report_bytes_def reads_append read_enc add.assoc)
qed

lemma kind_code_range: "kind_code k \<le> 4 \<or> kind_code k = 7"
  by (cases k) simp_all

lemma parse_body_enc:
  assumes wf: "wf_body b" and r: "reads c (body_bytes b) rest"
  shows "parse_body c (body_code b) = Inr (b, advance c (length (body_bytes b)))"
proof (cases b)
  case (Data ds)
  with wf r have "parse_data c (kind_code (ds_kind ds)) = Inr (ds, advance c (length (data_bytes ds)))"
    by (intro parse_data_enc) simp_all
  with Data show ?thesis using kind_code_range [of "ds_kind ds"] by (simp add: parse_body_def)
next
  case (Report rs)
  with wf r show ?thesis by (simp add: parse_body_def parse_report_enc)
qed (use r in \<open>auto simp: parse_body_def parse_reason_def read_enc\<close>)

lemma type_code_nibble:
  "drop_bit 4 (type_code s) = 0 \<and> type_code s AND 0x0F = type_code s \<and> type_code s \<notin> {5, 6, 10, 11}"
  unfolding type_code_def
proof (cases "seg_body s")
  case (Data ds)
  then show "drop_bit 4 (body_code (seg_body s)) = 0 \<and> body_code (seg_body s) AND 0x0F = body_code (seg_body s)
     \<and> body_code (seg_body s) \<notin> {5, 6, 10, 11}"
    by (cases "ds_kind ds") simp_all
qed simp_all

lemma word_nibble_count:
  assumes "n \<le> 15"
  shows "unat (word_of_nat n AND 0x0F :: u8) = n"
proof -
  have "(word_of_nat n AND 0x0F :: u8) = take_bit 4 (word_of_nat n)"
    by (simp add: take_bit_eq_mask mask_eq_exp_minus_1)
  also have "unat \<dots> = n"
    using assms by (simp add: unsigned_take_bit_eq unat_of_nat take_bit_eq_mod [where 'a = nat])
  finally show ?thesis .
qed

lemma ext_count_nibbles:
  assumes "length (seg_header_ext s) \<le> 15" "length (seg_trailer_ext s) \<le> 15"
  shows "unat (drop_bit 4 (ext_count_byte s)) = length (seg_header_ext s)"
    and "unat (ext_count_byte s AND 0x0F) = length (seg_trailer_ext s)"
proof -
  let ?h = "word_of_nat (length (seg_header_ext s)) AND 0x0F :: u8"
  let ?t = "word_of_nat (length (seg_trailer_ext s)) AND 0x0F :: u8"
  have masks: "?h = take_bit 4 ?h" "?t = take_bit 4 ?t" "\<And>x :: u8. x AND 0x0F = take_bit 4 x"
    by (simp_all add: take_bit_eq_mask mask_eq_exp_minus_1)
  have byte: "ext_count_byte s = push_bit 4 (take_bit 4 ?h) OR take_bit 4 ?t"
    using assms masks(1,2) by (simp add: ext_count_byte_def min_def)
  have "drop_bit 4 (ext_count_byte s) = take_bit 4 ?h"
    unfolding byte by (rule bit_word_eqI) (auto simp: bit_simps)
  with assms(1) show "unat (drop_bit 4 (ext_count_byte s)) = length (seg_header_ext s)"
    using masks(1) word_nibble_count by metis
  have "ext_count_byte s AND 0x0F = take_bit 4 ?t"
    unfolding byte masks(3) by (rule bit_word_eqI) (auto simp: bit_simps)
  with assms(2) show "unat (ext_count_byte s AND 0x0F) = length (seg_trailer_ext s)"
    using masks(2) word_nibble_count by metis
qed

lemma parse_prefix_enc:
  assumes "reads c (type_code s # sdnv_bytes (originator (seg_session s)) @ sdnv_bytes (snumber (seg_session s))) rest"
  shows "parse_prefix c = Inr ((type_code s, seg_session s),
    advance c (1 + length (sdnv_bytes (originator (seg_session s))) + length (sdnv_bytes (snumber (seg_session s)))))"
proof -
  let ?o = "sdnv_bytes (originator (seg_session s))" and ?n = "sdnv_bytes (snumber (seg_session s))"
  have "reads c [type_code s] (?o @ ?n @ rest)" "reads (advance c 1) ?o (?n @ rest)"
    "reads (advance c (1 + length ?o)) ?n rest"
    using assms by (simp_all add: reads_Cons [of c _ "?o @ ?n"] reads_append)
  then show ?thesis
    using type_code_nibble [of s] by (simp add: parse_prefix_def read_enc Let_def)
qed

lemma parse_segment_encode:
  assumes wf: "wf_segment s" and len: "length (encode_to_vec s @ rest) < 2 ^ 63"
  shows "parse_segment (encode_to_vec s @ rest) = Inr (s, length (encode_to_vec s))"
proof -
  define c where "c = \<lparr>cur_buf = encode_to_vec s @ rest, cur_pos = 0\<rparr>"
  define hd h t b n where "hd = type_code s # sdnv_bytes (originator (seg_session s)) @ sdnv_bytes (snumber (seg_session s))"
    and "h = concat (map ext_bytes (seg_header_ext s))" and "t = concat (map ext_bytes (seg_trailer_ext s))"
    and "b = body_bytes (seg_body s)" and "n = ext_count_byte s"
  note defs = hd_def h_def b_def t_def n_def
  have few: "length (seg_header_ext s) \<le> 15" "length (seg_trailer_ext s) \<le> 15"
    using wf by (simp_all add: wf_segment_def)
  have wire: "encode_to_vec s = hd @ [n] @ h @ b @ t"
    using few by (simp add: encode_to_vec_bytes defs)
  have "reads c (hd @ [n] @ h @ b @ t) rest"
    using len unfolding wire [symmetric] by (simp add: reads_def cursor_ok_def unread_def c_def)
  then have r: "reads c hd ([n] @ h @ b @ t @ rest)" "reads (advance c (length hd)) [n] (h @ b @ t @ rest)"
    "reads (advance c (length hd + 1)) h (b @ t @ rest)"
    "reads (advance c (length hd + 1 + length h)) b (t @ rest)"
    "reads (advance c (length hd + 1 + length h + length b)) t rest"
    by (simp_all add: reads_append reads_Cons [of _ n "h @ b @ t"])
  have counts: "unat (drop_bit 4 n) = length (seg_header_ext s)" "unat (n AND 0x0F) = length (seg_trailer_ext s)"
    unfolding n_def by (fact ext_count_nibbles [OF few])+
  have "parse_prefix c = Inr ((type_code s, seg_session s), advance c (length hd))"
    using parse_prefix_enc [OF r(1) [unfolded hd_def]] by (simp add: hd_def)
  moreover have "cur_u8 (advance c (length hd)) = Inr (n, advance c (length hd + 1))"
    using cur_u8_enc [OF r(2)] by simp
  moreover have "parse_extensions (advance c (length hd + 1)) (drop_bit 4 n)
    = Inr (seg_header_ext s, advance c (length hd + 1 + length h))"
    unfolding parse_extensions_def counts
    using ext.read_many_enc [OF r(3) [unfolded h_def]] by (simp add: h_def)
  moreover have "parse_body (advance c (length hd + 1 + length h)) (type_code s)
    = Inr (seg_body s, advance c (length hd + 1 + length h + length b))"
    using parse_body_enc [OF _ r(4) [unfolded b_def]] wf by (simp add: b_def type_code_def wf_segment_def)
  moreover have "parse_extensions (advance c (length hd + 1 + length h + length b)) (n AND 0x0F)
    = Inr (seg_trailer_ext s, advance c (length hd + 1 + length h + length b + length t))"
    unfolding parse_extensions_def counts
    using ext.read_many_enc [OF r(5) [unfolded t_def]] by (simp add: t_def)
  moreover have "cur_pos (advance c (length hd + 1 + length h + length b + length t)) = length (encode_to_vec s)"
    by (simp add: wire c_def)
  ultimately show ?thesis
    unfolding parse_segment_def c_def [symmetric] by simp
qed

text \<open>C8: parsing the datagram of a well-formed segment gives the segment back and the number
  of octets the serializer wrote, also when other octets follow it in the buffer.  The
  bound on the buffer is Rust's: no slice is longer than \<^verbatim>\<open>isize::MAX\<close>.\<close>

theorem parse_encode:
  assumes "wf_segment s" and "length (encode_to_vec s @ rest) < 2 ^ 63"
  shows "parse_segment (encode_to_vec s @ rest) = Inr (s, length (encode_to_vec s))"
  using assms by (rule parse_segment_encode)

text \<open>The hypotheses of the round trip hold for a checkpoint that carries an extension.\<close>

definition sample_segment :: segment where
  "sample_segment =
     \<lparr>seg_session = SessionId 7 300, seg_header_ext = [\<lparr>ext_tag = 1, ext_value = [9, 9]\<rparr>], seg_trailer_ext = [],
      seg_body = Data \<lparr>ds_client_service = 1, ds_offset = 128,
        ds_kind = RedCpEorpEob \<lparr>cp_serial = 1, cp_report_serial = 0\<rparr>, ds_data = [10, 20, 30]\<rparr>\<rparr>"

lemma sample_segment_wf: "wf_segment sample_segment"
  by (simp add: sample_segment_def wf_segment_def)

lemma sample_segment_short: "length (encode_to_vec sample_segment @ [255]) < 2 ^ 63"
proof -
  have "encoded_len n \<le> 10" for n by (rule encoded_len_le_10)
  note le10 = this [of 7] this [of 300] this [of "vec_len [9 :: u8, 9]"] this [of 1] this [of 128]
    this [of "vec_len [10 :: u8, 20, 30]"] this [of 0]
  show ?thesis
    using le10 by (simp add: exact_encoded_len_def length_encode_to_vec sample_segment_def ext_len_def)
qed

lemma parse_encode_sample:
  "parse_segment (encode_to_vec sample_segment @ [255]) = Inr (sample_segment, length (encode_to_vec sample_segment))"
  by (rule parse_segment_encode [OF sample_segment_wf sample_segment_short])

theorem parse_encode_witness:
  "parse_segment (encode_to_vec sample_segment @ [255]) = Inr (sample_segment, length (encode_to_vec sample_segment))"
  by (rule parse_encode [OF sample_segment_wf sample_segment_short])

section \<open>What a successful parse guarantees\<close>

lemma parse_claims_valid:
  "parse_claims n first prev scope c = Inr (cs, c')
   \<Longrightarrow> length cs = n \<and> valid_claims (unat scope) (if first then 0 else unat prev) cs \<and> follows c c'"
proof (induction n arbitrary: first prev c cs)
  case (Suc n)
  from Suc.prems obtain off c1 len c2 end_off cs' where
    off: "cur_sdnv c = Inr (off, c1)" and len: "cur_sdnv c1 = Inr (len, c2)" and "len \<noteq> 0"
    and order: "\<not> (\<not> first \<and> off < prev)" and end_off: "checked_add off len = Some end_off" "\<not> scope < end_off"
    and rest: "parse_claims n False end_off scope c2 = Inr (cs', c')"
    and cs: "cs = \<lparr>cl_offset = off, cl_length = len\<rparr> # cs'"
    by (auto simp: and_then_Inr_iff split: if_splits option.splits)
  have "follows c c2" using off len by (auto dest!: read_follows intro: follows_trans)
  with Suc.IH [OF rest] checked_add_SomeD [OF end_off(1)] end_off(2) \<open>len \<noteq> 0\<close> order show ?case
    by (auto simp: cs word_less_nat_alt intro: follows_trans)
qed simp

lemma parse_checkpoint_valid:
  "parse_checkpoint c = Inr (cp, c') \<Longrightarrow> cp_serial cp \<noteq> 0 \<and> follows c c'"
  by (auto simp: parse_checkpoint_def and_then_Inr_iff dest!: read_follows intro: follows_trans split: if_splits)

lemma parse_kind_valid:
  "parse_kind c code = Inr (k, c')
   \<Longrightarrow> (case kind_checkpoint k of Some cp \<Rightarrow> cp_serial cp \<noteq> 0 | None \<Rightarrow> True) \<and> kind_code k = code \<and> follows c c'"
  by (auto simp: parse_kind_def and_then_Inr_iff dest!: parse_checkpoint_valid split: if_splits)

lemma parse_data_valid:
  assumes "parse_data c code = Inr (ds, c')"
  shows "wf_body (Data ds) \<and> kind_code (ds_kind ds) = code \<and> follows c c'"
proof -
  from assms obtain c1 c2 c3 c4 v1 v2 v3 kind xs where
    "cur_sdnv c = Inr (v1, c1)" "cur_sdnv c1 = Inr (v2, c2)" "cur_sdnv c2 = Inr (v3, c3)"
    and kind: "parse_kind c3 code = Inr (kind, c4)" and xs: "cur_bytes c4 v3 = Inr (xs, c')"
    and ds: "ds = \<lparr>ds_client_service = v1, ds_offset = v2, ds_kind = kind, ds_data = xs\<rparr>"
    by (auto simp: parse_data_def and_then_Inr_iff)
  then have "follows c c3" "follows c4 c'" by (auto dest!: read_follows intro: follows_trans)
  with parse_kind_valid [OF kind] show ?thesis by (auto simp: ds intro: follows_trans)
qed

lemma parse_report_valid:
  assumes "parse_report c = Inr (rs, c')"
  shows "wf_report rs \<and> follows c c'"
proof -
  from assms obtain s1 s2 u l n c1 c2 c3 c4 c5 cs where
    "cur_sdnv c = Inr (s1, c1)" "cur_sdnv c1 = Inr (s2, c2)" "cur_sdnv c2 = Inr (u, c3)"
    "cur_sdnv c3 = Inr (l, c4)" "cur_sdnv c4 = Inr (n, c5)"
    and checks: "s1 \<noteq> 0" "\<not> u \<le> l" "\<not> MAX_PARSED_CLAIMS < n"
    and cs: "parse_claims (unat n) True 0 (u - l) c5 = Inr (cs, c')"
    and rs: "rs = \<lparr>rs_report_serial = s1, rs_checkpoint_serial = s2, rs_upper_bound = u, rs_lower_bound = l, rs_claims = cs\<rparr>"
    by (auto simp: parse_report_def and_then_Inr_iff split: if_splits)
  then have "follows c c5" by (auto dest!: read_follows simp: follows_def)
  moreover have "unat (u - l) = unat u - unat l" using checks(2) by (simp add: unat_sub_exact)
  moreover have "unat n \<le> 65536" using checks(3) by (simp add: MAX_PARSED_CLAIMS_def word_less_nat_alt not_less)
  ultimately show ?thesis
    using checks parse_claims_valid [OF cs] by (auto simp: rs wf_report_def intro: follows_trans)
qed

lemma parse_body_valid:
  assumes "parse_body c code = Inr (b, c')"
  shows "wf_body b \<and> body_code b = code \<and> follows c c'"
  using assms
  by (auto simp: parse_body_def parse_reason_def and_then_Inr_iff from_code_Some split: if_splits option.splits
      dest!: parse_report_valid read_follows dest: parse_data_valid intro: follows_trans)

lemma parse_extensions_valid:
  "parse_extensions c count = Inr (es, c') \<Longrightarrow> length es = unat count \<and> follows c c'"
  unfolding parse_extensions_def by (rule ext.read_many_follows)

lemma parse_prefix_valid: "parse_prefix c = Inr (x, c') \<Longrightarrow> follows c c'"
  by (auto simp: parse_prefix_def and_then_Inr_iff Let_def dest!: read_follows intro: follows_trans split: if_splits)

lemma nibble_le_15: "unat ((b :: u8) AND 0x0F) \<le> 15"
  using word_and_le1 [of b "0x0F"] by (simp add: word_le_nat_alt)

lemma high_nibble_le_15: "unat (drop_bit 4 (b :: u8)) \<le> 15"
proof -
  have "unat b < 256" using unsigned_less [of b, where 'a = nat] by simp
  then have "unat b div 16 < 16" by (simp add: less_mult_imp_div_less)
  then show ?thesis by (simp add: unat_drop_bit_eq drop_bit_eq_div [where 'a = nat])
qed

text \<open>C26: whatever octets arrive, a segment the parser accepts is well-formed (non-zero serials, report bounds
  in order, claims non-empty, ascending, disjoint and inside the scope, at most fifteen extensions on
  either side), and the parser consumed no more than the buffer holds.\<close>

theorem parse_segment_valid:
  assumes "parse_segment buffer = Inr (s, n)" and "length buffer < 2 ^ 63"
  shows "wf_segment s \<and> n \<le> length buffer"
proof -
  let ?c = "\<lparr>cur_buf = buffer, cur_pos = 0\<rparr>"
  from assms(1) obtain code sess c1 counts c2 hs c3 b c4 ts c5 where
    steps: "parse_prefix ?c = Inr ((code, sess), c1)" "cur_u8 c1 = Inr (counts, c2)"
      "parse_extensions c2 (drop_bit 4 counts) = Inr (hs, c3)" "parse_body c3 code = Inr (b, c4)"
      "parse_extensions c4 (counts AND 0x0F) = Inr (ts, c5)"
    and s: "s = \<lparr>seg_session = sess, seg_header_ext = hs, seg_trailer_ext = ts, seg_body = b\<rparr>" "n = cur_pos c5"
    by (auto simp: parse_segment_def and_then_Inr_iff)
  note exts = parse_extensions_valid [OF steps(3)] parse_extensions_valid [OF steps(5)]
  have "follows ?c c5"
    using exts parse_prefix_valid [OF steps(1)] cur_u8_follows [OF steps(2)] parse_body_valid [OF steps(4)]
    by (auto simp: follows_def)
  then have "n \<le> length buffer" using assms(2) by (auto simp: follows_def cursor_ok_def s)
  moreover have "wf_segment s"
    using exts parse_body_valid [OF steps(4)] nibble_le_15 [of counts] high_nibble_le_15 [of counts]
    by (simp add: wf_segment_def s)
  ultimately show ?thesis by simp
qed

theorem parse_segment_valid_witness:
  "wf_segment sample_segment \<and> length (encode_to_vec sample_segment) \<le> length (encode_to_vec sample_segment @ [255])"
proof (rule parse_segment_valid [OF parse_encode_sample])
  show "length (encode_to_vec sample_segment @ [255]) < 2 ^ 63" by (rule sample_segment_short)
qed

lemma peek_session_of_parse: "parse_segment buffer = Inr (s, n) \<Longrightarrow> peek_session buffer = Inr (seg_session s)"
  by (auto simp: parse_segment_def peek_session_def and_then_Inr_iff)

text \<open>\<^verbatim>\<open>peek_session\<close> agrees with the full parser: on every buffer the parser accepts it returns the session
  of the parsed segment.\<close>

theorem peek_session_parse:
  assumes "parse_segment buffer = Inr (s, n)"
  shows "peek_session buffer = Inr (seg_session s)"
  using assms by (rule peek_session_of_parse)

theorem peek_session_parse_witness:
  "peek_session (encode_to_vec sample_segment @ [255]) = Inr (SessionId 7 300)"
  using peek_session_parse [OF parse_encode_sample] by (simp add: sample_segment_def)

end
