(* ===== verification/Transmission.thy ===== *)
theory Transmission
  imports Engine Segment_Parse
begin

text \<open>
  What \<^verbatim>\<open>request_transmission\<close> puts on the wire: the segments tile the block, stay within the
  configured payload length, and the last segment of the red part is the checkpoint.
\<close>

section \<open>Segments that tile a block\<close>

text \<open>\<open>tiles B a ds b\<close>: the segments \<open>ds\<close> carry, one after the other, the octets \<open>a\<close> to \<open>b\<close> of \<open>B\<close>.\<close>

fun tiles :: "bytes \<Rightarrow> nat \<Rightarrow> data_segment list \<Rightarrow> nat \<Rightarrow> bool" where
  "tiles B a [] b \<longleftrightarrow> a = b"
| "tiles B a (d # ds) b \<longleftrightarrow>
     unat (ds_offset d) = a \<and> ds_data d \<noteq> []
     \<and> slice_get B a (a + length (ds_data d)) = Some (ds_data d) \<and> tiles B (a + length (ds_data d)) ds b"

lemma tiles_append: "tiles B a (xs @ ys) c \<longleftrightarrow> (\<exists>b. tiles B a xs b \<and> tiles B b ys c)"
  by (induction xs arbitrary: a) auto

lemma tiles_bounds: "tiles B a ds b \<Longrightarrow> a \<le> length B \<Longrightarrow> a \<le> b \<and> b \<le> length B"
proof (induction ds arbitrary: a)
  case (Cons d ds)
  then have "a + length (ds_data d) \<le> length B" by (simp add: slice_get_Some_iff)
  with Cons.IH [of "a + length (ds_data d)"] Cons.prems show ?case by simp
qed simp

lemma tiles_concat:
  "tiles B a ds b \<Longrightarrow> a \<le> length B \<Longrightarrow> concat (map ds_data ds) = take (b - a) (drop a B)"
proof (induction ds arbitrary: a)
  case (Cons d ds)
  let ?n = "length (ds_data d)"
  have d: "a + ?n \<le> length B" "ds_data d = take ?n (drop a B)"
    using Cons.prems by (simp_all add: slice_get_Some_iff)
  have rest: "tiles B (a + ?n) ds b" using Cons.prems by simp
  have "?n \<le> b - a" using tiles_bounds [OF rest d(1)] by linarith
  then obtain m where m: "b - a = ?n + m" using le_Suc_ex by blast
  have "drop ?n (drop a B) = drop (a + ?n) B" by (simp add: add.commute)
  moreover have "b - (a + ?n) = m" using m by simp
  ultimately have "take (b - a) (drop a B) = take ?n (drop a B) @ take (b - (a + ?n)) (drop (a + ?n) B)"
    unfolding m by (simp only: take_add)
  with Cons.IH [OF rest d(1)] d(2) show ?case by simp
qed simp

definition data_out :: "engine_id \<Rightarrow> session_id \<Rightarrow> data_segment list \<Rightarrow> (engine_id \<times> bytes) list" where
  "data_out peer sid ds = map (\<lambda>d. (peer, encode_to_vec (wire sid (Data d)))) ds"

lemma data_out_simps [simp]:
  "data_out peer sid [] = []"
  "data_out peer sid (d # ds) = (peer, encode_to_vec (wire sid (Data d))) # data_out peer sid ds"
  "data_out peer sid (ds @ ds') = data_out peer sid ds @ data_out peer sid ds'"
  by (simp_all add: data_out_def)

lemma next_nonzero_serial_pos [simp]: "next_nonzero_serial n \<noteq> 0"
  by (simp add: next_nonzero_serial_def Let_def)

lemma unat_le_vec_len: "length B < 2 ^ 63 \<Longrightarrow> x \<le> vec_len B \<longleftrightarrow> unat x \<le> length B"
  by (simp add: word_le_nat_alt unat_vec_len)

section \<open>The red loop\<close>

text \<open>One chunk: the slice exists and is neither empty nor longer than the payload limit.\<close>

lemma chunk_slice:
  assumes "offset < stop" "stop \<le> vec_len B" "length B < 2 ^ 63"
  shows "\<exists>d. slice_get B (unat offset) (unat (chunk_end offset stop (segment_mtu e))) = Some d
    \<and> d \<noteq> [] \<and> length d \<le> unat (segment_mtu e) \<and> unat offset + length d = unat (chunk_end offset stop (segment_mtu e))"
proof -
  let ?b = "unat (chunk_end offset stop (segment_mtu e))"
  have b: "?b = min (unat stop) (unat offset + unat (segment_mtu e))"
    using assms(1) by (intro chunk_end_unat) simp
  have "unat offset < ?b" "?b \<le> unat stop"
    using chunk_end_progress [OF assms(1), of e] by (simp_all add: u64_arith)
  moreover have "unat stop \<le> length B" using assms(2,3) by (simp add: unat_le_vec_len)
  ultimately show ?thesis using b by (simp add: slice_get_def) linarith
qed

definition red_kinds :: "bool \<Rightarrow> checkpoint \<Rightarrow> data_segment list \<Rightarrow> bool" where
  "red_kinds eob cp ds \<longleftrightarrow>
     ds \<noteq> [] \<and> (\<forall>d\<in>set (butlast ds). ds_kind d = Red) \<and> ds_kind (last ds) = checkpoint_kind True eob cp"

text \<open>What the red loop leaves: segments, the checkpoint recorded, its timer armed.\<close>

definition red_sent :: "u64 \<Rightarrow> u64 \<Rightarrow> send_session \<Rightarrow> engine \<Rightarrow> data_segment list \<Rightarrow> send_session \<Rightarrow> engine \<Rightarrow> bool" where
  "red_sent now offset s e ds s' e' \<longleftrightarrow>
     tiles (ss_block s) (unat offset) ds (unat (ss_red_len s))
     \<and> (\<forall>d\<in>set ds. length (ds_data d) \<le> unat (segment_mtu e) \<and> ds_client_service d = ss_client_service s)
     \<and> (let serial = next_nonzero_serial (ss_last_cp_serial s) in
        red_kinds (ss_red_len s = vec_len (ss_block s)) \<lparr>cp_serial = serial, cp_report_serial = 0\<rparr> ds
        \<and> (\<exists>r. cpr_serial r = serial \<and> cpr_retries r = 0 \<and> cpr_is_eorp r
             \<and> unat (cpr_offset r) + unat (cpr_length r) = unat (ss_red_len s)
             \<and> s' = s\<lparr>ss_last_cp_serial := serial, ss_checkpoints := bt_insert serial r (ss_checkpoints s)\<rparr>)
        \<and> e' = e\<lparr>en_outbound := en_outbound e @ data_out (ss_peer s) (ss_id s) ds,
             en_timers := tt_set (checkpoint_key (ss_id s) serial) (peer_timeout_deadline (ss_peer s) now e) (en_timers e)\<rparr>)"

lemma peer_timeout_deadline_frame [simp]:
  "peer_timeout_deadline p now (push_out q seg e) = peer_timeout_deadline p now e"
  "peer_timeout_deadline p now (e\<lparr>en_outbound := x\<rparr>) = peer_timeout_deadline p now e"
  by (simp_all add: peer_timeout_deadline_def)

lemma segment_mtu_frame [simp]:
  "segment_mtu (push_out q seg e) = segment_mtu e" "segment_mtu (e\<lparr>en_outbound := x\<rparr>) = segment_mtu e"
  by (simp_all add: segment_mtu_def)

lemma send_red_sent:
  assumes "length (ss_block s) < 2 ^ 63" "ss_red_len s \<le> vec_len (ss_block s)" "offset < ss_red_len s"
  shows "\<exists>ds s' e'. send_red now offset s e = Some (ss_red_len s, s', e') \<and> red_sent now offset s e ds s' e'"
  using assms
proof (induction now offset s e rule: send_red.induct)
  case (1 now offset s e)
  let ?stop = "ss_red_len s"
  let ?upto = "chunk_end offset ?stop (segment_mtu e)"
  obtain d where d: "slice_get (ss_block s) (unat offset) (unat ?upto) = Some d" "d \<noteq> []"
    "length d \<le> unat (segment_mtu e)" "unat offset + length d = unat ?upto"
    using chunk_slice [OF "1.prems"(3,2,1)] by blast
  show ?case
  proof (cases "?upto = ?stop")
    case True
    let ?serial = "next_nonzero_serial (ss_last_cp_serial s)"
    let ?r = "\<lparr>cpr_serial = ?serial, cpr_report_serial = 0, cpr_offset = offset, cpr_length = ?stop - offset,
      cpr_is_eorp = True, cpr_is_eob = (?stop = vec_len (ss_block s)), cpr_retries = 0, cpr_transmitted_at = now\<rparr>"
    let ?ds = "[\<lparr>ds_client_service = ss_client_service s, ds_offset = offset,
      ds_kind = checkpoint_kind True (?stop = vec_len (ss_block s)) \<lparr>cp_serial = ?serial, cp_report_serial = 0\<rparr>, ds_data = d\<rparr>]"
    let ?s = "s\<lparr>ss_last_cp_serial := ?serial, ss_checkpoints := bt_insert ?serial ?r (ss_checkpoints s)\<rparr>"
    let ?e = "e\<lparr>en_outbound := en_outbound e @ data_out (ss_peer s) (ss_id s) ?ds,
      en_timers := tt_set (checkpoint_key (ss_id s) ?serial) (peer_timeout_deadline (ss_peer s) now e) (en_timers e)\<rparr>"
    have "send_red now offset s e = send_red now ?stop ?s ?e"
      using "1.prems"(3) d(1)
      by (subst send_red.simps)
        (simp add: True record_checkpoint_def data_wire_def push_out_def arm_timer_def Let_def peer_timeout_deadline_def)
    also have "\<dots> = Some (?stop, ?s, ?e)" by (subst send_red.simps) simp
    finally have run: "send_red now offset s e = Some (?stop, ?s, ?e)" .
    have "unat (?stop - offset) = unat ?stop - unat offset" "unat offset \<le> unat ?stop"
      using "1.prems"(3) by (simp_all add: unat_sub_exact u64_arith)
    then have "cpr_serial ?r = ?serial \<and> cpr_retries ?r = 0 \<and> cpr_is_eorp ?r
        \<and> unat (cpr_offset ?r) + unat (cpr_length ?r) = unat ?stop" by simp
    then have "\<exists>r. cpr_serial r = ?serial \<and> cpr_retries r = 0 \<and> cpr_is_eorp r
        \<and> unat (cpr_offset r) + unat (cpr_length r) = unat ?stop
        \<and> ?s = s\<lparr>ss_last_cp_serial := ?serial, ss_checkpoints := bt_insert ?serial r (ss_checkpoints s)\<rparr>"
      by blast
    then have "red_sent now offset s e ?ds ?s ?e"
      using d unfolding red_sent_def Let_def red_kinds_def True by simp
    with run show ?thesis by blast
  next
    case False
    let ?d = "\<lparr>ds_client_service = ss_client_service s, ds_offset = offset, ds_kind = Red, ds_data = d\<rparr>"
    let ?e = "push_out (ss_peer s) (wire (ss_id s) (Data ?d)) e"
    have less: "?upto < ?stop" using chunk_end_progress(2) [OF "1.prems"(3), of e] False by simp
    have step: "send_red now offset s e = send_red now ?upto s ?e"
      using "1.prems"(3) d(1) False by (subst send_red.simps) (simp add: data_wire_def Let_def)
    have "\<exists>ds s' e'. send_red now ?upto s ?e = Some (?stop, s', e') \<and> red_sent now ?upto s ?e ds s' e'"
      using "1.IH" [of ?upto "?upto = ?stop" "?upto = vec_len (ss_block s)" _ s Red d ?e "(s, ?e)" s ?e] "1.prems" False d(1) less
      by (simp add: data_wire_def)
    then obtain ds s' e' where rest: "send_red now ?upto s ?e = Some (?stop, s', e')" "red_sent now ?upto s ?e ds s' e'"
      by blast
    then have "red_sent now offset s e (?d # ds) s' e'"
      using d unfolding red_sent_def Let_def red_kinds_def by (auto simp: push_out_def)
    with step rest(1) show ?thesis by auto
  qed
qed

section \<open>The green loop\<close>

definition green_kinds :: "data_segment list \<Rightarrow> bool" where
  "green_kinds ds \<longleftrightarrow> ds \<noteq> [] \<and> (\<forall>d\<in>set (butlast ds). ds_kind d = Green) \<and> ds_kind (last ds) = GreenEob"

lemma send_green_sent:
  assumes "length (ss_block s) < 2 ^ 63" "offset < vec_len (ss_block s)"
  shows "\<exists>ds. send_green offset s e = Some (e\<lparr>en_outbound := en_outbound e @ data_out (ss_peer s) (ss_id s) ds\<rparr>)
    \<and> tiles (ss_block s) (unat offset) ds (length (ss_block s)) \<and> green_kinds ds
    \<and> (\<forall>d\<in>set ds. length (ds_data d) \<le> unat (segment_mtu e) \<and> ds_client_service d = ss_client_service s)"
  using assms
proof (induction offset s e rule: send_green.induct)
  case (1 offset s e)
  let ?stop = "vec_len (ss_block s)"
  let ?upto = "chunk_end offset ?stop (segment_mtu e)"
  have len: "unat ?stop = length (ss_block s)" using "1.prems"(1) by (simp add: unat_vec_len)
  obtain d where d: "slice_get (ss_block s) (unat offset) (unat ?upto) = Some d" "d \<noteq> []"
    "length d \<le> unat (segment_mtu e)" "unat offset + length d = unat ?upto"
    using chunk_slice [OF "1.prems"(2) order_refl "1.prems"(1)] by blast
  let ?d = "\<lambda>k. \<lparr>ds_client_service = ss_client_service s, ds_offset = offset, ds_kind = k, ds_data = d\<rparr>"
  let ?e = "\<lambda>k. push_out (ss_peer s) (wire (ss_id s) (Data (?d k))) e"
  show ?case
  proof (cases "?upto = ?stop")
    case True
    have "send_green offset s e = send_green ?stop s (?e GreenEob)"
      using "1.prems"(2) d(1) by (subst send_green.simps) (simp add: True data_wire_def Let_def)
    also have "\<dots> = Some (?e GreenEob)" by (subst send_green.simps) simp
    finally have "send_green offset s e
      = Some (e\<lparr>en_outbound := en_outbound e @ data_out (ss_peer s) (ss_id s) [?d GreenEob]\<rparr>)"
      by (simp add: push_out_def)
    moreover have "tiles (ss_block s) (unat offset) [?d GreenEob] (length (ss_block s))"
      using d len True by auto
    moreover have "green_kinds [?d GreenEob]" by (simp add: green_kinds_def)
    ultimately show ?thesis using d(3)
      by (metis data_segment.select_convs(1,4) empty_iff insert_iff list.set(1,2))
  next
    case False
    have less: "?upto < ?stop" using chunk_end_progress(2) [OF "1.prems"(2), of e] False by simp
    have step: "send_green offset s e = send_green ?upto s (?e Green)"
      using "1.prems"(2) d(1) False by (subst send_green.simps) (simp add: data_wire_def Let_def)
    have "\<exists>ds. send_green ?upto s (?e Green)
        = Some ((?e Green)\<lparr>en_outbound := en_outbound (?e Green) @ data_out (ss_peer s) (ss_id s) ds\<rparr>)
      \<and> tiles (ss_block s) (unat ?upto) ds (length (ss_block s)) \<and> green_kinds ds
      \<and> (\<forall>d\<in>set ds. length (ds_data d) \<le> unat (segment_mtu (?e Green)) \<and> ds_client_service d = ss_client_service s)"
      using "1.IH" [of ?upto Green d] "1.prems" False d(1) less by (simp add: data_wire_def)
    then obtain ds where ds: "send_green ?upto s (?e Green)
        = Some ((?e Green)\<lparr>en_outbound := en_outbound (?e Green) @ data_out (ss_peer s) (ss_id s) ds\<rparr>)"
      "tiles (ss_block s) (unat ?upto) ds (length (ss_block s))" "green_kinds ds"
      "\<forall>d\<in>set ds. length (ds_data d) \<le> unat (segment_mtu e) \<and> ds_client_service d = ss_client_service s"
      by auto
    have "send_green offset s e
      = Some (e\<lparr>en_outbound := en_outbound e @ data_out (ss_peer s) (ss_id s) (?d Green # ds)\<rparr>)"
      using step ds(1) by (simp add: push_out_def)
    moreover have "tiles (ss_block s) (unat offset) (?d Green # ds) (length (ss_block s))"
      using d ds(2) by simp
    moreover have "green_kinds (?d Green # ds)" using ds(3) by (simp add: green_kinds_def)
    moreover have "\<forall>x\<in>set (?d Green # ds). length (ds_data x) \<le> unat (segment_mtu e) \<and> ds_client_service x = ss_client_service s"
      using d(3) ds(4) by simp
    ultimately show ?thesis by blast
  qed
qed

section \<open>A whole transmission\<close>

text \<open>The segments of a block: red ones up to \<open>red_len\<close>, the last one a checkpoint, then green ones up to the end.\<close>

definition plan_ok :: "bytes \<Rightarrow> nat \<Rightarrow> data_segment list \<Rightarrow> data_segment list \<Rightarrow> bool" where
  "plan_ok block red_len reds greens \<longleftrightarrow>
     tiles block 0 reds red_len \<and> tiles block red_len greens (length block)
     \<and> (if red_len = 0 then reds = []
        else red_kinds (red_len = length block) \<lparr>cp_serial = 1, cp_report_serial = 0\<rparr> reds)
     \<and> (if red_len = length block then greens = [] else green_kinds greens)"

lemma send_red_nothing: "send_red now offset s e = Some (offset, s, e)" if "\<not> offset < ss_red_len s"
  using that by (subst send_red.simps) simp

lemma send_green_nothing: "send_green offset s e = Some e" if "\<not> offset < vec_len (ss_block s)"
  using that by (subst send_green.simps) simp

lemma next_nonzero_serial_0 [simp]: "next_nonzero_serial 0 = 1"
  by (simp add: next_nonzero_serial_def Let_def)

text \<open>The red phase of a new session, with and without a red part.\<close>

lemma send_red_phase:
  assumes "length block < 2 ^ 63" "red_len \<le> vec_len block"
    and s: "s = send_session_new sid peer cs block red_len 0 now"
  shows "\<exists>reds s' e'. send_red now 0 s e = Some (red_len, s', e')
    \<and> tiles block 0 reds (unat red_len)
    \<and> (if red_len = 0 then reds = [] else red_kinds (red_len = vec_len block) \<lparr>cp_serial = 1, cp_report_serial = 0\<rparr> reds)
    \<and> (\<forall>d\<in>set reds. length (ds_data d) \<le> unat (segment_mtu e) \<and> ds_client_service d = cs)
    \<and> (\<exists>cps ser. s' = s\<lparr>ss_checkpoints := cps, ss_last_cp_serial := ser\<rparr> \<and> bt_ok cps
        \<and> (\<forall>k r. bt_get cps k = Some r \<longrightarrow> cpr_serial r = k \<and> k \<noteq> 0 \<and> cpr_retries r = 0
             \<and> unat (cpr_offset r) + unat (cpr_length r) \<le> unat red_len))
    \<and> (\<exists>ts. e' = e\<lparr>en_outbound := en_outbound e @ data_out peer sid reds, en_timers := ts\<rparr>
        \<and> (tt_ok (en_timers e) \<longrightarrow> tt_ok ts))"
proof (cases "red_len = 0")
  case True
  have "send_red now 0 s e = Some (0, s, e)" by (rule send_red_nothing) (simp add: s send_session_new_def True)
  then show ?thesis
    using True by (intro exI [of _ "[]"] exI [of _ s] exI [of _ e])
      (auto simp: s send_session_new_def intro: exI [of _ "en_timers e"])
next
  case False
  then have "0 < ss_red_len s" by (simp add: s send_session_new_def word_gt_0)
  then obtain ds s' e' where run: "send_red now 0 s e = Some (ss_red_len s, s', e')" and sent: "red_sent now 0 s e ds s' e'"
    using send_red_sent [of s 0 now e] assms(1,2) by (auto simp: s send_session_new_def)
  note new = s send_session_new_def
  from sent obtain r where r: "cpr_serial r = 1" "cpr_retries r = 0"
      "unat (cpr_offset r) + unat (cpr_length r) = unat red_len"
      "s' = s\<lparr>ss_last_cp_serial := 1, ss_checkpoints := bt_insert 1 r []\<rparr>"
    and e': "e' = e\<lparr>en_outbound := en_outbound e @ data_out peer sid ds,
      en_timers := tt_set (checkpoint_key sid 1) (peer_timeout_deadline peer now e) (en_timers e)\<rparr>"
    and tiled: "tiles block 0 ds (unat red_len)"
      "red_kinds (red_len = vec_len block) \<lparr>cp_serial = 1, cp_report_serial = 0\<rparr> ds"
      "\<forall>d\<in>set ds. length (ds_data d) \<le> unat (segment_mtu e) \<and> ds_client_service d = cs"
    by (auto simp: red_sent_def Let_def new)
  have "s' = s\<lparr>ss_checkpoints := bt_insert 1 r [], ss_last_cp_serial := 1\<rparr>" using r(4) by simp
  moreover have "bt_ok (bt_insert 1 r [])" by (rule bt_ok_insert) simp
  moreover have "\<forall>k q. bt_get (bt_insert 1 r []) k = Some q \<longrightarrow> cpr_serial q = k \<and> k \<noteq> 0 \<and> cpr_retries q = 0
      \<and> unat (cpr_offset q) + unat (cpr_length q) \<le> unat red_len"
    using r(1-3) by (auto simp del: bt_insert.simps)
  ultimately have "\<exists>cps ser. s' = s\<lparr>ss_checkpoints := cps, ss_last_cp_serial := ser\<rparr> \<and> bt_ok cps
      \<and> (\<forall>k r. bt_get cps k = Some r \<longrightarrow> cpr_serial r = k \<and> k \<noteq> 0 \<and> cpr_retries r = 0
           \<and> unat (cpr_offset r) + unat (cpr_length r) \<le> unat red_len)" by blast
  moreover have "\<exists>ts. e' = e\<lparr>en_outbound := en_outbound e @ data_out peer sid ds, en_timers := ts\<rparr>
      \<and> (tt_ok (en_timers e) \<longrightarrow> tt_ok ts)"
    unfolding e' by (blast intro: tt_ok_set)
  moreover have "ss_red_len s = red_len" by (simp add: new)
  ultimately show ?thesis using run tiled False by auto
qed

lemma send_green_phase:
  assumes "length block < 2 ^ 63" "red_len \<le> vec_len block" "ss_block s = block"
  shows "\<exists>greens. send_green red_len s e = Some (e\<lparr>en_outbound := en_outbound e @ data_out (ss_peer s) (ss_id s) greens\<rparr>)
    \<and> tiles block (unat red_len) greens (length block)
    \<and> (if red_len = vec_len block then greens = [] else green_kinds greens)
    \<and> (\<forall>d\<in>set greens. length (ds_data d) \<le> unat (segment_mtu e) \<and> ds_client_service d = ss_client_service s)"
proof (cases "red_len = vec_len block")
  case True
  then have "send_green red_len s e = Some e" using assms(3) by (intro send_green_nothing) simp
  then show ?thesis using True assms(1) by (intro exI [of _ "[]"]) (simp add: unat_vec_len)
next
  case False
  then have "red_len < vec_len block" using assms(2) by simp
  with send_green_sent [of s red_len e] assms(1,3) False show ?thesis by auto
qed

definition accepted :: "engine \<Rightarrow> bytes \<Rightarrow> u64 \<Rightarrow> bool" where
  "accepted e block red_len \<longleftrightarrow> vec_len block \<le> ec_max_block_size (en_config e) \<and> red_len \<le> vec_len block"

lemma request_transmission_spec:
  assumes small: "length block < 2 ^ 63" and ok: "accepted e block red_len"
  defines "sid \<equiv> SessionId (ec_engine_id (en_config e)) (en_next_session_number e)"
  shows "\<exists>reds greens s e'. request_transmission peer cs block red_len now e = Some (Inr sid, e')
    \<and> plan_ok block (unat red_len) reds greens
    \<and> (\<forall>d\<in>set (reds @ greens). length (ds_data d) \<le> unat (segment_mtu e) \<and> ds_client_service d = cs)
    \<and> (\<exists>cps ser. s = (send_session_new sid peer cs block red_len 0 now)
             \<lparr>ss_checkpoints := cps, ss_last_cp_serial := ser, ss_eob_sent := True\<rparr> \<and> bt_ok cps
        \<and> (\<forall>k r. bt_get cps k = Some r \<longrightarrow> cpr_serial r = k \<and> k \<noteq> 0 \<and> cpr_retries r = 0
             \<and> unat (cpr_offset r) + unat (cpr_length r) \<le> unat red_len))
    \<and> (\<exists>ts. e' = e\<lparr>en_next_session_number := bump_session_number (en_next_session_number e),
            en_outbound := en_outbound e @ data_out peer sid (reds @ greens), en_timers := ts,
            en_notices := en_notices e @ (if red_len = 0 then [TransmissionSessionCompleted sid] else []),
            en_send_sessions := (if red_len = 0 then en_send_sessions e
                                 else bt_insert sid s (en_send_sessions e))\<rparr>
        \<and> (tt_ok (en_timers e) \<longrightarrow> tt_ok ts))"
proof -
  let ?s = "send_session_new sid peer cs block red_len 0 now"
  let ?e = "e\<lparr>en_next_session_number := bump_session_number (en_next_session_number e)\<rparr>"
  have le: "red_len \<le> vec_len block" and cap: "\<not> ec_max_block_size (en_config e) < vec_len block" "\<not> vec_len block < red_len"
    using ok by (simp_all add: accepted_def not_less)
  have mtu: "segment_mtu ?e = segment_mtu e" by (simp add: segment_mtu_def)
  obtain reds s1 e1 cps ser ts where red: "send_red now 0 ?s ?e = Some (red_len, s1, e1)"
    "tiles block 0 reds (unat red_len)"
    "if red_len = 0 then reds = [] else red_kinds (red_len = vec_len block) \<lparr>cp_serial = 1, cp_report_serial = 0\<rparr> reds"
    "\<forall>d\<in>set reds. length (ds_data d) \<le> unat (segment_mtu e) \<and> ds_client_service d = cs"
    and s1: "s1 = ?s\<lparr>ss_checkpoints := cps, ss_last_cp_serial := ser\<rparr>" "bt_ok cps"
      "\<forall>k r. bt_get cps k = Some r \<longrightarrow> cpr_serial r = k \<and> k \<noteq> 0 \<and> cpr_retries r = 0
         \<and> unat (cpr_offset r) + unat (cpr_length r) \<le> unat red_len"
    and e1: "e1 = ?e\<lparr>en_outbound := en_outbound e @ data_out peer sid reds, en_timers := ts\<rparr>"
      "tt_ok (en_timers e) \<longrightarrow> tt_ok ts"
    using send_red_phase [OF small le refl, where sid = sid and peer = peer and cs = cs and now = now and e = ?e] unfolding mtu by auto
  have mtu1: "segment_mtu e1 = segment_mtu e" by (simp add: segment_mtu_def e1(1))
  have fields: "ss_block s1 = block" "ss_peer s1 = peer" "ss_id s1 = sid" "ss_client_service s1 = cs" "ss_red_len s1 = red_len"
    by (simp_all add: s1(1) send_session_new_def)
  obtain greens where green: "send_green red_len s1 e1 = Some (e1\<lparr>en_outbound := en_outbound e1 @ data_out peer sid greens\<rparr>)"
    "tiles block (unat red_len) greens (length block)"
    "if red_len = vec_len block then greens = [] else green_kinds greens"
    "\<forall>d\<in>set greens. length (ds_data d) \<le> unat (segment_mtu e) \<and> ds_client_service d = cs"
    using send_green_phase [OF small le fields(1), of e1] unfolding mtu1 fields by blast
  let ?s2 = "s1\<lparr>ss_eob_sent := True\<rparr>"
  let ?e2 = "e1\<lparr>en_outbound := en_outbound e1 @ data_out peer sid greens\<rparr>"
  have "range_covers range_set_new (0, red_len) \<longleftrightarrow> red_len = 0"
    using rset.covers_iff [OF rset.empty_ok]
    by (auto simp: range_set_new_def range_span_def unat_eq_zero)
  then have complete: "is_complete ?s2 \<longleftrightarrow> red_len = 0"
    by (simp add: is_complete_def s1(1) send_session_new_def)
  have full: "red_len = vec_len block \<longleftrightarrow> unat red_len = length block"
    using small by (simp add: word_unat_eq_iff unat_vec_len)
  have "request_transmission peer cs block red_len now e = Some (Inr sid,
      if red_len = 0 then push_notice (TransmissionSessionCompleted sid) ?e2
      else put_send sid ?s2 (touch_inactivity sid True now ?e2))"
    using red(1) green(1) complete unfolding request_transmission_def Let_def
    by (simp add: cap flip: sid_def)
  moreover have "plan_ok block (unat red_len) reds greens"
    using red(2,3) green(2,3) by (simp add: plan_ok_def full unat_eq_zero split: if_splits)
  moreover have "\<forall>d\<in>set (reds @ greens). length (ds_data d) \<le> unat (segment_mtu e) \<and> ds_client_service d = cs"
    using red(4) green(4) by auto
  moreover have "?s2 = ?s\<lparr>ss_checkpoints := cps, ss_last_cp_serial := ser, ss_eob_sent := True\<rparr>"
    by (simp add: s1(1))
  moreover have "\<exists>ts. (if red_len = 0 then push_notice (TransmissionSessionCompleted sid) ?e2
        else put_send sid ?s2 (touch_inactivity sid True now ?e2))
      = e\<lparr>en_next_session_number := bump_session_number (en_next_session_number e),
          en_outbound := en_outbound e @ data_out peer sid (reds @ greens), en_timers := ts,
          en_notices := en_notices e @ (if red_len = 0 then [TransmissionSessionCompleted sid] else []),
          en_send_sessions := (if red_len = 0 then en_send_sessions e
                               else bt_insert sid ?s2 (en_send_sessions e))\<rparr>
      \<and> (tt_ok (en_timers e) \<longrightarrow> tt_ok ts)"
    using e1(2) unfolding e1(1)
    by (intro exI [of _ "if red_len = 0 then ts else en_timers (touch_inactivity sid True now ?e2)"])
      (simp add: e1(1) push_notice_def put_send_def touch_inactivity_def arm_timer_def Let_def tt_ok_set)
  ultimately show ?thesis using s1(2,3) by blast
qed

section \<open>Properties\<close>

lemma plan_ok_concat:
  "plan_ok block red_len reds greens \<Longrightarrow> concat (map ds_data (reds @ greens)) = block"
proof -
  assume plan: "plan_ok block red_len reds greens"
  then have "tiles block 0 (reds @ greens) (length block)" by (auto simp: plan_ok_def tiles_append)
  from tiles_concat [OF this] show ?thesis by simp
qed

text \<open>C22: an accepted request never panics.  It queues, for the peer and in order, red segments that tile the red
  part, of which only the last is a checkpoint (end of the red part, and of the block when all of it
  is red), then green segments up to the end of the block, of which only the last ends the block;
  no payload is empty or above the configured length, and together they are the block.\<close>

theorem request_transmission_segments:
  assumes "length block < 2 ^ 63" and "accepted e block red_len"
  shows "\<exists>reds greens e'.
    request_transmission peer cs block red_len now e
      = Some (Inr (SessionId (ec_engine_id (en_config e)) (en_next_session_number e)), e')
    \<and> en_outbound e' = en_outbound e
        @ data_out peer (SessionId (ec_engine_id (en_config e)) (en_next_session_number e)) (reds @ greens)
    \<and> plan_ok block (unat red_len) reds greens
    \<and> concat (map ds_data (reds @ greens)) = block
    \<and> (\<forall>d\<in>set (reds @ greens). length (ds_data d) \<le> unat (segment_mtu e) \<and> ds_client_service d = cs)"
proof -
  let ?sid = "SessionId (ec_engine_id (en_config e)) (en_next_session_number e)"
  from request_transmission_spec [OF assms, of peer cs now] obtain reds greens e' where
    "request_transmission peer cs block red_len now e = Some (Inr ?sid, e')" "plan_ok block (unat red_len) reds greens"
    "\<forall>d\<in>set (reds @ greens). length (ds_data d) \<le> unat (segment_mtu e) \<and> ds_client_service d = cs"
    "en_outbound e' = en_outbound e @ data_out peer ?sid (reds @ greens)"
    by (auto simp del: data_out_simps)
  with plan_ok_concat show ?thesis by blast
qed

theorem request_transmission_segments_witness:
  "\<exists>reds greens e'.
    request_transmission 2 7 [10, 20, 30, 40] 3 50 (engine_new default_config) = Some (Inr (SessionId 1 1), e')
    \<and> en_outbound e' = data_out 2 (SessionId 1 1) (reds @ greens)
    \<and> plan_ok [10, 20, 30, 40] 3 reds greens \<and> concat (map ds_data (reds @ greens)) = [10, 20, 30, 40]"
  using request_transmission_segments [of "[10, 20, 30, 40]" "engine_new default_config" 3 2 7 50]
  by (simp add: accepted_def engine_new_def default_config_def vec_len_def del: data_out_simps) blast

end
