(* ===== verification/Engine_Recv.thy ===== *)
theory Engine_Recv
  imports Engine
begin

text \<open>
  The receiving side of the engine (\<^verbatim>\<open>ltp/src/engine/mod.rs\<close>): incoming data segments, the reports
  that answer checkpoints, report acknowledgments and report timeouts.  The long handler
  \<^verbatim>\<open>handle_incoming_data\<close> is cut at its early returns: a part returns \<open>Inl e\<close> where the source
  returns, \<open>Inr (s, e)\<close> where it goes on with the session \<open>s\<close>.
\<close>

section \<open>Cancelling a reception\<close>

definition initiate_cancel_receiver ::
    "session_id \<Rightarrow> engine_id \<Rightarrow> cancel_reason \<Rightarrow> u64 \<Rightarrow> engine \<Rightarrow> engine" where
  "initiate_cancel_receiver sid peer reason now e =
     (case bt_get (en_recv_sessions e) sid of
        None \<Rightarrow> e
      | Some s \<Rightarrow>
          let e = put_recv sid (s\<lparr>rv_cancel_reason := Some reason, rv_cancel_retries := 1\<rparr>) e;
              e = record_cancelled sid e;
              e = push_out peer (wire sid (CancelReceiver reason)) e;
              e = arm_timer (cancel_key sid False) (peer_timeout_deadline peer now e) e
          in push_notice (TransmissionSessionCancelled sid reason) e)"

section \<open>Reports\<close>

text \<open>\<^verbatim>\<open>slice::chunks\<close>.\<close>

function chunks_of :: "nat \<Rightarrow> 'a list \<Rightarrow> 'a list list" where
  "chunks_of n xs = (if xs = [] \<or> n = 0 then [] else take n xs # chunks_of n (drop n xs))"
  by auto

termination
  by (relation "measure (\<lambda>(n, xs). length xs)") auto

declare chunks_of.simps [simp del]

definition closed_report :: "u64 \<Rightarrow> u64 \<Rightarrow> report_segment" where
  "closed_report checkpoint_serial upper_bound =
     \<lparr>rs_report_serial = 1, rs_checkpoint_serial = checkpoint_serial, rs_upper_bound = upper_bound,
      rs_lower_bound = 0, rs_claims = [\<lparr>cl_offset = 0, cl_length = upper_bound\<rparr>]\<rparr>"

text \<open>A checkpoint of a closed session is answered with a claim of everything.\<close>

definition reemit_closed :: "engine_id \<Rightarrow> session_id \<Rightarrow> data_segment \<Rightarrow> engine \<Rightarrow> engine" where
  "reemit_closed from sid ds e =
     (case kind_checkpoint (ds_kind ds) of
        None \<Rightarrow> e
      | Some cp \<Rightarrow>
          let upper_bound = sat_add (ds_offset ds) (vec_len (ds_data ds))
          in push_out from (wire sid (Report (closed_report (cp_serial cp) upper_bound))) e)"

text \<open>Queueing a new report, recording it and arming its timer.\<close>

definition issue_report ::
    "engine_id \<Rightarrow> session_id \<Rightarrow> report_segment \<Rightarrow> u64 \<Rightarrow> recv_session \<Rightarrow> engine \<Rightarrow> recv_session \<times> engine" where
  "issue_report from sid report now s e =
     (let e = push_out from (wire sid (Report report)) e;
          record = \<lparr>rr_report = report, rr_retries = 0, rr_acked = False, rr_transmitted_at = now\<rparr>;
          s = s\<lparr>rv_reports := bt_insert (rs_report_serial report) record (rv_reports s)\<rparr>;
          deadline = peer_timeout_deadline from now e
      in (s, arm_timer (report_key sid (rs_report_serial report)) deadline e))"

definition chunk_report :: "u64 \<Rightarrow> u64 \<Rightarrow> u64 \<Rightarrow> u64 \<Rightarrow> range list \<Rightarrow> report_segment" where
  "chunk_report serial checkpoint_serial lower_bound chunk_upper chunk =
     \<lparr>rs_report_serial = serial, rs_checkpoint_serial = checkpoint_serial,
      rs_upper_bound = chunk_upper, rs_lower_bound = lower_bound,
      rs_claims = map (\<lambda>r. \<lparr>cl_offset = sat_sub (fst r) lower_bound, cl_length = sat_sub (snd r) (fst r)\<rparr>) chunk\<rparr>"

text \<open>The loop over the chunks of claims; \<open>first\<close> is \<^verbatim>\<open>chunk_idx == 0\<close>.\<close>

fun report_chunks ::
    "engine_id \<Rightarrow> session_id \<Rightarrow> u64 \<Rightarrow> u64 \<Rightarrow> u64 \<Rightarrow> bool \<Rightarrow> range list list \<Rightarrow> u64 list
     \<Rightarrow> recv_session \<Rightarrow> engine \<Rightarrow> engine + recv_session \<times> engine" where
  "report_chunks from sid checkpoint_serial upper_bound now first [] rs_serials s e =
     Inr (s\<lparr>rv_cp_serials_answered :=
              bt_insert checkpoint_serial rs_serials (rv_cp_serials_answered s)\<rparr>, e)"
| "report_chunks from sid checkpoint_serial upper_bound now first (chunk # rest) rs_serials s e =
     (if ec_max_reports_per_session (en_config e) \<le> length (rv_reports s)
      then Inl (initiate_cancel_receiver sid from Rlexc now (put_recv sid s e))
      else let serial = next_nonzero_serial (rv_last_report_serial s);
               s = s\<lparr>rv_last_report_serial := serial\<rparr>;
               lower_bound = (if first then 0 else fst (hd chunk));
               chunk_upper = (if rest = [] then upper_bound else snd (last chunk));
               report = chunk_report serial checkpoint_serial lower_bound chunk_upper chunk;
               (s, e) = issue_report from sid report now s e
           in report_chunks from sid checkpoint_serial upper_bound now False rest
                (rs_serials @ [serial]) s e)"

definition fresh_checkpoint ::
    "engine_id \<Rightarrow> session_id \<Rightarrow> u64 \<Rightarrow> u64 \<Rightarrow> u64 \<Rightarrow> recv_session \<Rightarrow> engine \<Rightarrow> engine + recv_session \<times> engine" where
  "fresh_checkpoint from sid checkpoint_serial upper_bound now s e =
     (if ec_max_reports_per_session (en_config e) \<le> length (rv_reports s)
      then Inl (initiate_cancel_receiver sid from Rlexc now (put_recv sid s e))
      else let all_runs = runs_within (rv_red_received s) (0, upper_bound);
               max_claims = max (ec_max_claims_per_report (en_config e)) 1
           in if all_runs = []
              then let serial = next_nonzero_serial (rv_last_report_serial s);
                       s = s\<lparr>rv_last_report_serial := serial\<rparr>;
                       report = chunk_report serial checkpoint_serial 0 upper_bound [];
                       (s, e) = issue_report from sid report now s e
                   in Inr (s\<lparr>rv_cp_serials_answered :=
                              bt_insert checkpoint_serial [serial] (rv_cp_serials_answered s)\<rparr>, e)
              else report_chunks from sid checkpoint_serial upper_bound now True
                     (chunks_of max_claims all_runs) [] s e)"

text \<open>A checkpoint seen before: its unacknowledged reports go out again, retry counts untouched.\<close>

definition reemit_report ::
    "engine_id \<Rightarrow> session_id \<Rightarrow> u64 \<Rightarrow> recv_session \<Rightarrow> u64 \<Rightarrow> engine \<Rightarrow> engine" where
  "reemit_report from sid now s rs_serial e =
     (case bt_get (rv_reports s) rs_serial of
        None \<Rightarrow> e
      | Some rec \<Rightarrow>
          if rr_acked rec then e
          else let e = push_out from (wire sid (Report (rr_report rec))) e
               in arm_timer (report_key sid rs_serial) (peer_timeout_deadline from now e) e)"

definition answer_checkpoint ::
    "engine_id \<Rightarrow> session_id \<Rightarrow> u64 \<Rightarrow> u64 \<Rightarrow> u64 \<Rightarrow> recv_session \<Rightarrow> engine \<Rightarrow> engine + recv_session \<times> engine" where
  "answer_checkpoint from sid checkpoint_serial upper_bound now s e =
     (case bt_get (rv_cp_serials_answered s) checkpoint_serial of
        Some serials \<Rightarrow> Inr (s, fold (reemit_report from sid now s) serials e)
      | None \<Rightarrow> fresh_checkpoint from sid checkpoint_serial upper_bound now s e)"

section \<open>Data segments\<close>

text \<open>The guards before a session is touched, and its creation; \<open>None\<close> drops the segment.\<close>

definition open_recv ::
    "engine_id \<Rightarrow> session_id \<Rightarrow> data_segment \<Rightarrow> u64 \<Rightarrow> engine \<Rightarrow> (recv_session \<times> engine) option" where
  "open_recv from sid ds now e =
     (if sid \<in> set (en_cancelled_sessions_set e) then None
      else let touch = (\<lambda>s. let s = s\<lparr>rv_last_activity := now\<rparr>
                            in Some (s, touch_inactivity sid False now (put_recv sid s e)))
           in case bt_get (en_recv_sessions e) sid of
                Some existing \<Rightarrow> if rv_cancel_reason existing \<noteq> None then None else touch existing
              | None \<Rightarrow>
                  if ec_max_recv_sessions (en_config e) \<le> length (en_recv_sessions e) then None
                  else touch (recv_session_new sid from (ds_client_service ds) 0 now))"

definition segment_end :: "data_segment \<Rightarrow> u64" where
  "segment_end ds = sat_add (ds_offset ds) (vec_len (ds_data ds))"

text \<open>The red/green ordering checks: whether the segment is miscolored, and the session after them.\<close>

definition check_color :: "data_segment \<Rightarrow> recv_session \<Rightarrow> bool \<times> recv_session" where
  "check_color ds s =
     (let seg_end = segment_end ds
      in if is_red (ds_kind ds)
         then ((case rv_red_part_len s of Some r \<Rightarrow> r < seg_end | None \<Rightarrow> False)
               \<or> (case rv_min_green_offset s of Some g \<Rightarrow> g < seg_end | None \<Rightarrow> False)
               \<or> is_eorp (ds_kind ds) \<and> (case rv_red_part_len s of Some r \<Rightarrow> r \<noteq> seg_end | None \<Rightarrow> False), s)
         else let s = s\<lparr>rv_min_green_offset :=
                          Some (case rv_min_green_offset s of None \<Rightarrow> ds_offset ds | Some m \<Rightarrow> min m (ds_offset ds))\<rparr>
              in ((case rv_red_part_len s of Some r \<Rightarrow> ds_offset ds < r | None \<Rightarrow> False)
                  \<or> ds_offset ds < rv_max_red_end s, s))"

text \<open>What a stored red segment says about the ends of the red part and of the block.\<close>

definition note_ends :: "data_segment \<Rightarrow> recv_session \<Rightarrow> recv_session" where
  "note_ends ds s =
     (let stop = checked_add (ds_offset ds) (vec_len (ds_data ds));
          s = (if is_eorp (ds_kind ds) then s\<lparr>rv_red_part_len := stop\<rparr> else s)
      in if is_eob (ds_kind ds)
         then s\<lparr>rv_block_len := stop, rv_red_ends_block := is_eorp (ds_kind ds)\<rparr> else s)"

definition handle_red ::
    "engine_id \<Rightarrow> session_id \<Rightarrow> data_segment \<Rightarrow> u64 \<Rightarrow> recv_session \<Rightarrow> engine
     \<Rightarrow> (engine + recv_session \<times> engine) option" where
  "handle_red from sid ds now s e =
     (case insert_red (ds_offset ds) (ds_data ds) (ec_max_block_size (en_config e)) s of
        None \<Rightarrow> None
      | Some (stored, s) \<Rightarrow>
          if \<not> stored then Some (Inl (put_recv sid s e))
          else let s = note_ends ds s
               in Some (case kind_checkpoint (ds_kind ds) of
                          None \<Rightarrow> Inr (s, e)
                        | Some cp \<Rightarrow> answer_checkpoint from sid (cp_serial cp) (segment_end ds) now s e))"

definition deliver_red :: "engine_id \<Rightarrow> session_id \<Rightarrow> recv_session \<Rightarrow> engine \<Rightarrow> recv_session \<times> engine" where
  "deliver_red from sid s e =
     (if is_red_complete s \<and> \<not> rv_red_delivered s
      then let red_len = (case rv_red_part_len s of Some l \<Rightarrow> unat l | None \<Rightarrow> 0);
               data = take red_len (rv_red_buf s)
           in (s\<lparr>rv_red_buf := [], rv_red_delivered := True\<rparr>,
               push_notice (RedPartReceived sid from (rv_client_service s) data (rv_red_ends_block s)) e)
      else (s, e))"

definition service_refused :: "data_segment \<Rightarrow> engine \<Rightarrow> bool" where
  "service_refused ds e \<longleftrightarrow>
     (case ec_allowed_client_services (en_config e) of
        Some allowed \<Rightarrow> ds_client_service ds \<notin> set allowed
      | None \<Rightarrow> False)"

definition handle_incoming_data ::
    "engine_id \<Rightarrow> session_id \<Rightarrow> data_segment \<Rightarrow> u64 \<Rightarrow> engine \<Rightarrow> engine option" where
  "handle_incoming_data from sid ds now e =
     (if sid \<in> set (en_closed_recv_sessions_set e) then Some (reemit_closed from sid ds e)
      else case open_recv from sid ds now e of
             None \<Rightarrow> Some e
           | Some (s, e) \<Rightarrow>
               if service_refused ds e
               then Some (initiate_cancel_receiver sid from Unreach now (put_recv sid s e))
               else let (miscolored, s) = check_color ds s
                    in if miscolored
                       then Some (initiate_cancel_receiver sid from Miscolored now (put_recv sid s e))
                       else case (if is_red (ds_kind ds) then handle_red from sid ds now s e
                                  else Some (Inr (s, push_notice
                                         (GreenSegmentArrived sid from (ds_offset ds) (ds_data ds)
                                            (is_eob (ds_kind ds))) e))) of
                              None \<Rightarrow> None
                            | Some (Inl e) \<Rightarrow> Some e
                            | Some (Inr (s, e)) \<Rightarrow>
                                let (s, e) = deliver_red from sid s e in Some (put_recv sid s e))"

section \<open>Report acknowledgments\<close>

definition claim_range :: "report_segment \<Rightarrow> reception_claim \<Rightarrow> range" where
  "claim_range rs claim =
     (let start = sat_add (rs_lower_bound rs) (cl_offset claim) in (start, sat_add start (cl_length claim)))"

definition ack_report :: "u64 \<Rightarrow> u64 \<Rightarrow> recv_session \<Rightarrow> engine \<Rightarrow> recv_session \<times> engine" where
  "ack_report report_serial now s e =
     (case bt_get (rv_reports s) report_serial of
        None \<Rightarrow> (s, e)
      | Some rec \<Rightarrow>
          let e = (if \<not> rr_acked rec \<and> rr_retries rec = 0 \<and> rr_transmitted_at rec \<le> now
                   then update_peer_rtt_sample (rv_peer s) (sat_sub now (rr_transmitted_at rec)) e else e);
              report = rr_report rec
          in (s\<lparr>rv_reports := bt_insert report_serial (rec\<lparr>rr_acked := True\<rparr>) (rv_reports s),
                rv_reported_coverage :=
                  fold (\<lambda>claim cov. fst (range_insert cov (claim_range report claim)))
                    (rs_claims report) (rv_reported_coverage s)\<rparr>, e))"

definition handle_incoming_report_ack :: "session_id \<Rightarrow> u64 \<Rightarrow> u64 \<Rightarrow> engine \<Rightarrow> engine" where
  "handle_incoming_report_ack sid report_serial now e =
     (let e = disarm_timer (report_key sid report_serial) e
      in case bt_get (en_recv_sessions e) sid of
           None \<Rightarrow> e
         | Some s \<Rightarrow>
             if rv_cancel_reason s \<noteq> None then e
             else let s = s\<lparr>rv_last_activity := now\<rparr>;
                      e = touch_inactivity sid False now e;
                      (s, e) = ack_report report_serial now s e;
                      red_len = (case rv_red_part_len s of Some l \<Rightarrow> l | None \<Rightarrow> 0)
                  in if is_red_complete s \<and> rv_red_delivered s
                        \<and> range_covers (rv_reported_coverage s) (0, red_len)
                     then record_closed sid (disarm_session sid (drop_recv sid e))
                     else put_recv sid s e)"

section \<open>Report timeouts\<close>

definition handle_rs_timeout :: "session_id \<Rightarrow> u64 \<Rightarrow> u64 \<Rightarrow> engine \<Rightarrow> engine" where
  "handle_rs_timeout sid serial now e =
     (case bt_get (en_recv_sessions e) sid of
        None \<Rightarrow> e
      | Some s \<Rightarrow>
          (case bt_get (rv_reports s) serial of
             None \<Rightarrow> e
           | Some rec \<Rightarrow>
               if rr_acked rec then e
               else if rr_retries rec < ec_report_rtx_limit (en_config e)
               then let rec = rec\<lparr>rr_retries := rr_retries rec + 1\<rparr>;
                        e = put_recv sid (s\<lparr>rv_reports := bt_insert serial rec (rv_reports s)\<rparr>) e;
                        e = push_out (rv_peer s) (wire sid (Report (rr_report rec))) e
                    in arm_timer (report_key sid serial) (peer_timeout_deadline (rv_peer s) now e) e
               else let e = put_recv sid (s\<lparr>rv_cancel_reason := Some Rlexc, rv_cancel_retries := 1\<rparr>) e;
                        e = push_out (rv_peer s) (wire sid (CancelReceiver Rlexc)) e;
                        e = arm_timer (cancel_key sid False) (peer_timeout_deadline (rv_peer s) now e) e
                    in push_notice (TransmissionSessionCancelled sid Rlexc) e))"

end
