(* ===== verification/Engine_Send.thy ===== *)
theory Engine_Send
  imports Engine
begin

text \<open>
  The sending side of the engine (\<^verbatim>\<open>ltp/src/engine/mod.rs\<close>) after transmission: incoming reports,
  which claim data, retransmit the gaps or complete the session, and checkpoint timeouts.
\<close>

section \<open>Reports\<close>

text \<open>The answered checkpoint leaves the session; one never retransmitted gives a round-trip sample (Karn).\<close>

definition retire_checkpoint ::
    "engine_id \<Rightarrow> u64 \<Rightarrow> u64 \<Rightarrow> send_session \<Rightarrow> engine \<Rightarrow> send_session \<times> engine" where
  "retire_checkpoint from serial now s e =
     (case bt_get (ss_checkpoints s) serial of
        None \<Rightarrow> (s, e)
      | Some cp \<Rightarrow>
          (s\<lparr>ss_checkpoints := bt_remove serial (ss_checkpoints s)\<rparr>,
           if cpr_retries cp = 0 \<and> cpr_transmitted_at cp \<le> now
           then update_peer_rtt_sample from (sat_sub now (cpr_transmitted_at cp)) e else e))"

text \<open>A claim as a range of the block, clamped to the red part.\<close>

definition clamp_claim :: "u64 \<Rightarrow> u64 \<Rightarrow> reception_claim \<Rightarrow> range" where
  "clamp_claim lower_bound red_len claim =
     (let start = sat_add lower_bound (cl_offset claim); stop = sat_add start (cl_length claim)
      in (min start red_len, min stop red_len))"

definition record_claim :: "u64 \<Rightarrow> u64 \<Rightarrow> reception_claim \<Rightarrow> range_set \<Rightarrow> range_set" where
  "record_claim lower_bound red_len claim claims =
     (let r = clamp_claim lower_bound red_len claim
      in if fst r < snd r then fst (range_insert claims r) else claims)"

definition report_gaps :: "report_segment \<Rightarrow> send_session \<Rightarrow> range list" where
  "report_gaps rs s =
     (let scope_lower = min (rs_lower_bound rs) (ss_red_len s);
          scope_upper = min (rs_upper_bound rs) (ss_red_len s)
      in if scope_lower < scope_upper then range_gaps (ss_claims_received s) (scope_lower, scope_upper) else [])"

text \<open>The loop over the chunks of one gap; the last chunk of the last gap is a checkpoint.\<close>

function resend_gap ::
    "engine_id \<Rightarrow> session_id \<Rightarrow> u64 \<Rightarrow> u64 \<Rightarrow> bool \<Rightarrow> u64 \<Rightarrow> u64 \<Rightarrow> send_session \<Rightarrow> engine
     \<Rightarrow> (send_session \<times> engine) option" where
  "resend_gap from sid report_serial now is_last_gap gap_end offset s e =
     (if offset < gap_end
      then let end_off = chunk_end offset gap_end (segment_mtu e);
               is_final_chunk = (is_last_gap \<and> end_off = gap_end);
               eorp = (end_off = ss_red_len s);
               eob = (end_off = vec_len (ss_block s));
               serial = next_nonzero_serial (ss_last_cp_serial s);
               s' = (if is_final_chunk then s\<lparr>ss_last_cp_serial := serial\<rparr> else s);
               kind = (if is_final_chunk
                       then checkpoint_kind eorp eob \<lparr>cp_serial = serial, cp_report_serial = report_serial\<rparr>
                       else Red)
           in if unat end_off \<le> length (ss_block s)
              then case slice_get (ss_block s) (unat offset) (unat end_off) of
                     None \<Rightarrow> None
                   | Some data \<Rightarrow>
                       let e = push_out from (data_wire sid s offset kind data) e;
                           (s', e) =
                             (if is_final_chunk
                              then record_checkpoint sid
                                     \<lparr>cpr_serial = serial, cpr_report_serial = report_serial, cpr_offset = offset,
                                      cpr_length = end_off - offset, cpr_is_eorp = eorp, cpr_is_eob = eob,
                                      cpr_retries = 0, cpr_transmitted_at = now\<rparr> now s' e
                              else (s', e))
                       in resend_gap from sid report_serial now is_last_gap gap_end end_off s' e
              else resend_gap from sid report_serial now is_last_gap gap_end end_off s' e
      else Some (s, e))"
  by auto

termination
  by (relation "measure (\<lambda>(from, sid, r, now, l, gap_end, offset, s, e). unat gap_end - unat offset)")
    (auto intro: chunk_end_progress)

declare resend_gap.simps [simp del]

fun resend_gaps ::
    "engine_id \<Rightarrow> session_id \<Rightarrow> u64 \<Rightarrow> u64 \<Rightarrow> range list \<Rightarrow> send_session \<Rightarrow> engine
     \<Rightarrow> (send_session \<times> engine) option" where
  "resend_gaps from sid report_serial now [] s e = Some (s, e)"
| "resend_gaps from sid report_serial now (gap # gaps) s e =
     (case resend_gap from sid report_serial now (gaps = []) (snd gap) (fst gap) s e of
        None \<Rightarrow> None
      | Some (s, e) \<Rightarrow> resend_gaps from sid report_serial now gaps s e)"

text \<open>Without gaps in the scope, without a pending checkpoint and short of completion a checkpoint is reissued.\<close>

definition unstick ::
    "engine_id \<Rightarrow> session_id \<Rightarrow> u64 \<Rightarrow> u64 \<Rightarrow> range list \<Rightarrow> send_session \<Rightarrow> engine
     \<Rightarrow> (send_session \<times> engine) option" where
  "unstick from sid report_serial now gaps s e =
     (if gaps = [] \<and> \<not> range_covers (ss_claims_received s) (0, ss_red_len s) \<and> ss_checkpoints s = []
      then let serial = next_nonzero_serial (ss_last_cp_serial s);
               s' = s\<lparr>ss_last_cp_serial := serial\<rparr>;
               cp_offset = sat_sub (ss_red_len s) 1;
               cp_len = (if 0 < ss_red_len s then 1 else 0);
               eob = (ss_red_len s = vec_len (ss_block s));
               kind = checkpoint_kind True eob \<lparr>cp_serial = serial, cp_report_serial = report_serial\<rparr>
           in if unat (cp_offset + cp_len) \<le> length (ss_block s)
              then case slice_get (ss_block s) (unat cp_offset) (unat (cp_offset + cp_len)) of
                     None \<Rightarrow> None
                   | Some data \<Rightarrow>
                       Some (record_checkpoint sid
                               \<lparr>cpr_serial = serial, cpr_report_serial = report_serial, cpr_offset = cp_offset,
                                cpr_length = cp_len, cpr_is_eorp = True, cpr_is_eob = eob,
                                cpr_retries = 0, cpr_transmitted_at = now\<rparr> now s'
                               (push_out from (data_wire sid s cp_offset kind data) e))
              else Some (s', e)
      else Some (s, e))"

definition complete_send :: "session_id \<Rightarrow> engine \<Rightarrow> engine" where
  "complete_send sid e =
     disarm_session sid (drop_send sid (push_notice (TransmissionSessionCompleted sid) e))"

text \<open>What a report does to the session: claims, gaps, a new checkpoint, or completion.\<close>

definition apply_report ::
    "engine_id \<Rightarrow> session_id \<Rightarrow> report_segment \<Rightarrow> u64 \<Rightarrow> send_session \<Rightarrow> engine \<Rightarrow> engine option" where
  "apply_report from sid rs now s e =
     (let claims = fold (record_claim (rs_lower_bound rs) (ss_red_len s)) (rs_claims rs) (ss_claims_received s);
          s = s\<lparr>ss_claims_received := claims\<rparr>;
          gaps = report_gaps rs s
      in case resend_gaps from sid (rs_report_serial rs) now gaps s e of
           None \<Rightarrow> None
         | Some (s, e) \<Rightarrow>
             (case unstick from sid (rs_report_serial rs) now gaps s e of
                None \<Rightarrow> None
              | Some (s, e) \<Rightarrow> Some (if is_complete s then complete_send sid e else put_send sid s e)))"

definition handle_incoming_report ::
    "engine_id \<Rightarrow> session_id \<Rightarrow> report_segment \<Rightarrow> u64 \<Rightarrow> engine \<Rightarrow> engine option" where
  "handle_incoming_report from sid rs now e =
     (let e = push_out from (wire sid (ReportAck (rs_report_serial rs))) e;
          e = disarm_timer (checkpoint_key sid (rs_checkpoint_serial rs)) e
      in case bt_get (en_send_sessions e) sid of
           None \<Rightarrow> Some e
         | Some s \<Rightarrow>
             if ss_cancel_reason s \<noteq> None then Some e
             else let s = s\<lparr>ss_last_activity := now\<rparr>;
                      e = touch_inactivity sid True now e;
                      (s, e) = retire_checkpoint from (rs_checkpoint_serial rs) now s e
                  in if rs_report_serial rs \<in> set (ss_report_serials_seen s) then Some (put_send sid s e)
                     else apply_report from sid rs now
                            (s\<lparr>ss_report_serials_seen :=
                                 bs_insert (rs_report_serial rs) (ss_report_serials_seen s)\<rparr>) e)"

section \<open>Checkpoint timeouts\<close>

definition handle_cp_timeout :: "session_id \<Rightarrow> u64 \<Rightarrow> u64 \<Rightarrow> engine \<Rightarrow> engine option" where
  "handle_cp_timeout sid serial now e =
     (case bt_get (en_send_sessions e) sid of
        None \<Rightarrow> Some e
      | Some s \<Rightarrow>
          (case bt_get (ss_checkpoints s) serial of
             None \<Rightarrow> Some e
           | Some cp \<Rightarrow>
               if cpr_retries cp < ec_checkpoint_rtx_limit (en_config e)
               then let cp = cp\<lparr>cpr_retries := cpr_retries cp + 1\<rparr>;
                        s = s\<lparr>ss_checkpoints := bt_insert serial cp (ss_checkpoints s)\<rparr>;
                        kind = checkpoint_kind (cpr_is_eorp cp) (cpr_is_eob cp)
                                 \<lparr>cp_serial = cpr_serial cp, cp_report_serial = cpr_report_serial cp\<rparr>
                    in case slice_get (ss_block s) (unat (cpr_offset cp)) (unat (cpr_offset cp + cpr_length cp)) of
                         None \<Rightarrow> None
                       | Some data \<Rightarrow>
                           let e = put_send sid s e;
                               e = push_out (ss_peer s) (data_wire sid s (cpr_offset cp) kind data) e
                           in Some (arm_timer (checkpoint_key sid serial) (peer_timeout_deadline (ss_peer s) now e) e)
               else let e = put_send sid (s\<lparr>ss_cancel_reason := Some Rlexc, ss_cancel_retries := 1\<rparr>) e;
                        e = push_out (ss_peer s) (wire sid (CancelSender Rlexc)) e;
                        e = arm_timer (cancel_key sid True) (peer_timeout_deadline (ss_peer s) now e) e
                    in Some (push_notice (TransmissionSessionCancelled sid Rlexc) e)))"

end
