(* ===== verification/Engine_Dispatch.thy ===== *)
theory Engine_Dispatch
  imports Engine_Recv Engine_Send Segment_Parse
begin

text \<open>
  Cancellation, the remaining timers, and the entry points \<^verbatim>\<open>handle_incoming_segment\<close> and
  \<^verbatim>\<open>handle_timer_tick\<close> (\<^verbatim>\<open>ltp/src/engine/mod.rs\<close>).
\<close>

section \<open>Cancellation\<close>

definition handle_incoming_cancel ::
    "engine_id \<Rightarrow> session_id \<Rightarrow> cancel_reason \<Rightarrow> bool \<Rightarrow> engine \<Rightarrow> engine" where
  "handle_incoming_cancel from sid reason from_sender e =
     (let ack_body = (if from_sender then CancelAckSender else CancelAckReceiver);
          e = push_out from (wire sid ack_body) e;
          notify_send = (case bt_get (en_send_sessions e) sid of
                           Some s \<Rightarrow> ss_cancel_reason s = None | None \<Rightarrow> False);
          e = drop_send sid e;
          notify_recv = (case bt_get (en_recv_sessions e) sid of
                           Some r \<Rightarrow> rv_cancel_reason r = None | None \<Rightarrow> False);
          e = drop_recv sid e;
          e = record_cancelled sid (disarm_session sid e)
      in if notify_send \<or> notify_recv then push_notice (TransmissionSessionCancelled sid reason) e else e)"

definition handle_incoming_cancel_ack :: "session_id \<Rightarrow> bool \<Rightarrow> engine \<Rightarrow> engine" where
  "handle_incoming_cancel_ack sid is_sender e =
     (let e = disarm_timer (cancel_key sid is_sender) e;
          e = (if is_sender then drop_send sid e else drop_recv sid e)
      in record_cancelled sid (disarm_session sid e))"

section \<open>Inactivity and cancel timeouts\<close>

definition handle_inactivity_timeout :: "session_id \<Rightarrow> bool \<Rightarrow> u64 \<Rightarrow> engine \<Rightarrow> engine" where
  "handle_inactivity_timeout sid is_sender now e =
     (let timeout = ec_session_inactivity_timeout_micros (en_config e)
      in if is_sender
         then case bt_get (en_send_sessions e) sid of
                None \<Rightarrow> e
              | Some s \<Rightarrow>
                  if 0 < timeout \<and> timeout \<le> sat_sub now (ss_last_activity s)
                  then let e = record_cancelled sid (disarm_session sid (drop_send sid e));
                           e = push_out (ss_peer s) (wire sid (CancelSender Rlexc)) e
                       in push_notice (TransmissionSessionCancelled sid Rlexc) e
                  else if 0 < timeout
                  then arm_timer (inactivity_key sid True) (sat_add (ss_last_activity s) timeout) e
                  else e
         else case bt_get (en_recv_sessions e) sid of
                None \<Rightarrow> e
              | Some s \<Rightarrow>
                  if 0 < timeout \<and> timeout \<le> sat_sub now (rv_last_activity s)
                  then let e = record_cancelled sid (disarm_session sid (drop_recv sid e));
                           e = push_out (rv_peer s) (wire sid (CancelReceiver Rlexc)) e
                       in push_notice (TransmissionSessionCancelled sid Rlexc) e
                  else if 0 < timeout
                  then arm_timer (inactivity_key sid False) (sat_add (rv_last_activity s) timeout) e
                  else e)"

definition reason_or_rlexc :: "cancel_reason option \<Rightarrow> cancel_reason" where
  "reason_or_rlexc r = (case r of Some x \<Rightarrow> x | None \<Rightarrow> Rlexc)"

definition handle_cancel_timeout :: "session_id \<Rightarrow> bool \<Rightarrow> u64 \<Rightarrow> engine \<Rightarrow> engine" where
  "handle_cancel_timeout sid is_sender now e =
     (if is_sender
      then case bt_get (en_send_sessions e) sid of
             None \<Rightarrow> e
           | Some s \<Rightarrow>
               if ss_cancel_retries s < ec_cancel_rtx_limit (en_config e)
               then let e = put_send sid (s\<lparr>ss_cancel_retries := ss_cancel_retries s + 1\<rparr>) e;
                        e = push_out (ss_peer s) (wire sid (CancelSender (reason_or_rlexc (ss_cancel_reason s)))) e
                    in arm_timer (cancel_key sid True) (peer_timeout_deadline (ss_peer s) now e) e
               else record_cancelled sid (disarm_session sid (drop_send sid e))
      else case bt_get (en_recv_sessions e) sid of
             None \<Rightarrow> e
           | Some s \<Rightarrow>
               if rv_cancel_retries s < ec_cancel_rtx_limit (en_config e)
               then let e = put_recv sid (s\<lparr>rv_cancel_retries := rv_cancel_retries s + 1\<rparr>) e;
                        e = push_out (rv_peer s) (wire sid (CancelReceiver (reason_or_rlexc (rv_cancel_reason s)))) e
                    in arm_timer (cancel_key sid False) (peer_timeout_deadline (rv_peer s) now e) e
               else record_cancelled sid (disarm_session sid (drop_recv sid e)))"

section \<open>The entry points\<close>

definition handle_timeout :: "u64 \<Rightarrow> timer_key \<Rightarrow> engine \<Rightarrow> engine option" where
  "handle_timeout now key e =
     (case tk_kind key of
        TCheckpoint serial \<Rightarrow> handle_cp_timeout (tk_session key) serial now e
      | TReport serial \<Rightarrow> Some (handle_rs_timeout (tk_session key) serial now e)
      | TCancel is_sender \<Rightarrow> Some (handle_cancel_timeout (tk_session key) is_sender now e)
      | TInactivity is_sender \<Rightarrow> Some (handle_inactivity_timeout (tk_session key) is_sender now e))"

fun handle_expired :: "u64 \<Rightarrow> timer_key list \<Rightarrow> engine \<Rightarrow> engine option" where
  "handle_expired now [] e = Some e"
| "handle_expired now (key # keys) e =
     (case handle_timeout now key e of None \<Rightarrow> None | Some e \<Rightarrow> handle_expired now keys e)"

definition handle_timer_tick :: "u64 \<Rightarrow> engine \<Rightarrow> engine option" where
  "handle_timer_tick now e =
     (let (expired, timers) = tt_drain now (en_timers e)
      in handle_expired now expired (e\<lparr>en_timers := timers\<rparr>))"

text \<open>The peer a segment is attributed to.\<close>

definition effective_from :: "engine_id \<Rightarrow> session_id \<Rightarrow> engine \<Rightarrow> engine_id" where
  "effective_from from sid e =
     (if originator sid \<noteq> ec_engine_id (en_config e) then originator sid
      else case bt_get (en_send_sessions e) sid of Some s \<Rightarrow> ss_peer s | None \<Rightarrow> from)"

text \<open>Segments from the sender of a block are ignored by its originator, those to it by all others.\<close>

fun handle_body :: "engine_id \<Rightarrow> session_id \<Rightarrow> segment_body \<Rightarrow> u64 \<Rightarrow> engine \<Rightarrow> engine option" where
  "handle_body from sid (Data ds) now e =
     (if originator sid = ec_engine_id (en_config e) then Some e else handle_incoming_data from sid ds now e)"
| "handle_body from sid (ReportAck report_serial) now e =
     (if originator sid = ec_engine_id (en_config e) then Some e
      else Some (handle_incoming_report_ack sid report_serial now e))"
| "handle_body from sid (CancelSender reason) now e =
     (if originator sid = ec_engine_id (en_config e) then Some e
      else Some (handle_incoming_cancel from sid reason True e))"
| "handle_body from sid CancelAckReceiver now e =
     (if originator sid = ec_engine_id (en_config e) then Some e
      else Some (handle_incoming_cancel_ack sid False e))"
| "handle_body from sid (Report rs) now e =
     (if originator sid \<noteq> ec_engine_id (en_config e) then Some e else handle_incoming_report from sid rs now e)"
| "handle_body from sid (CancelReceiver reason) now e =
     (if originator sid \<noteq> ec_engine_id (en_config e) then Some e
      else Some (handle_incoming_cancel from sid reason False e))"
| "handle_body from sid CancelAckSender now e =
     (if originator sid \<noteq> ec_engine_id (en_config e) then Some e
      else Some (handle_incoming_cancel_ack sid True e))"

definition handle_incoming_segment ::
    "engine_id \<Rightarrow> bytes \<Rightarrow> u64 \<Rightarrow> engine \<Rightarrow> ((engine_error + unit) \<times> engine) option" where
  "handle_incoming_segment from segment_bytes now e =
     (case parse_segment segment_bytes of
        Inl err \<Rightarrow> Some (Inl (ParseFailed err), e)
      | Inr (seg, consumed) \<Rightarrow>
          if consumed \<noteq> length segment_bytes
          then Some (Inl (TrailingBytes consumed (length segment_bytes)), e)
          else case handle_body (effective_from from (seg_session seg) e) (seg_session seg) (seg_body seg) now e of
                 None \<Rightarrow> None
               | Some e \<Rightarrow> Some (Inr (), e))"

end
