(* ===== verification/Engine_Safety.thy ===== *)
theory Engine_Safety
  imports Transmission Engine_Dispatch
begin

text \<open>
  The invariant of the engine and its preservation: for every sequence of requests, datagrams
  (also hostile ones) and ticks the engine returns, so no slice, copy or conversion panics, and
  its tables, logs, retry counters and buffers stay within their bounds.
\<close>

section \<open>The bounded logs\<close>

definition log_ok :: "'a::linorder list \<times> 'a list \<Rightarrow> bool" where
  "log_ok log \<longleftrightarrow> (case log of (queue, members) \<Rightarrow>
     set members = set queue \<and> distinct queue \<and> bs_ok members \<and> length queue \<le> LOG_CAPACITY)"

lemma log_ok_push:
  assumes "log_ok log"
  shows "log_ok (log_push x log)"
proof (cases log)
  case (Pair queue members)
  then have ok: "set members = set queue" "distinct queue" "bs_ok members" "length queue \<le> LOG_CAPACITY"
    using assms by (simp_all add: log_ok_def)
  show ?thesis
  proof (cases "x \<in> set members \<or> length queue < LOG_CAPACITY")
    case True
    then show ?thesis using ok by (cases "x \<in> set members") (simp_all add: Pair log_ok_def log_push_def Let_def)
  next
    case False
    then obtain old rest where q: "queue = old # rest"
      by (cases queue) (auto simp: LOG_CAPACITY_def)
    have new: "log_push x log = (rest @ [x], bs_remove old (bs_insert x members))"
      using False by (simp add: Pair q log_push_def Let_def)
    have "set (bs_remove old (bs_insert x members)) = set (rest @ [x])"
      using ok(1,2) False unfolding q by auto
    then show ?thesis
      using ok False unfolding new log_ok_def by (simp add: q)
  qed
qed

text \<open>The newest entry is in the log, and it is the oldest that goes.\<close>

lemma log_push_member: "x \<in> set (snd (log_push x (queue, members)))" if "log_ok (queue, members)"
proof -
  have "hd (queue @ [x]) \<noteq> x" if "x \<notin> set members" "queue \<noteq> []"
    using that \<open>log_ok (queue, members)\<close> by (auto simp: log_ok_def)
  then show ?thesis
    by (cases "queue = []") (auto simp: log_push_def Let_def LOG_CAPACITY_def)
qed

section \<open>The invariant\<close>

definition checkpoint_ok :: "engine_config \<Rightarrow> send_session \<Rightarrow> u64 \<Rightarrow> checkpoint_record \<Rightarrow> bool" where
  "checkpoint_ok cfg s serial r \<longleftrightarrow>
     cpr_serial r = serial \<and> serial \<noteq> 0 \<and> cpr_retries r \<le> ec_checkpoint_rtx_limit cfg
     \<and> unat (cpr_offset r) + unat (cpr_length r) \<le> unat (ss_red_len s)"

definition send_ok :: "engine_config \<Rightarrow> session_id \<Rightarrow> send_session \<Rightarrow> bool" where
  "send_ok cfg sid s \<longleftrightarrow>
     ss_id s = sid \<and> originator sid = ec_engine_id cfg \<and> length (ss_block s) < 2 ^ 63
     \<and> vec_len (ss_block s) \<le> ec_max_block_size cfg
     \<and> ss_red_len s \<le> vec_len (ss_block s) \<and> ss_eob_sent s
     \<and> rs_ok (ss_claims_received s) \<and> rs_set (ss_claims_received s) \<subseteq> {0..<unat (ss_red_len s)}
     \<and> bt_ok (ss_checkpoints s) \<and> bt.entries (checkpoint_ok cfg s) (ss_checkpoints s)
     \<and> bs_ok (ss_report_serials_seen s)"

definition report_ok :: "engine_config \<Rightarrow> u64 \<Rightarrow> report_record \<Rightarrow> bool" where
  "report_ok cfg serial r \<longleftrightarrow>
     rs_report_serial (rr_report r) = serial \<and> serial \<noteq> 0 \<and> rr_retries r \<le> ec_report_rtx_limit cfg"

definition recv_ok :: "engine_config \<Rightarrow> session_id \<Rightarrow> recv_session \<Rightarrow> bool" where
  "recv_ok cfg sid s \<longleftrightarrow>
     rv_id s = sid \<and> mem_ok (ec_max_block_size cfg) s \<and> rs_ok (rv_reported_coverage s)
     \<and> bt_ok (rv_reports s) \<and> length (rv_reports s) \<le> ec_max_reports_per_session cfg
     \<and> bt.entries (report_ok cfg) (rv_reports s) \<and> bt_ok (rv_cp_serials_answered s)"

definition engine_ok :: "engine \<Rightarrow> bool" where
  "engine_ok e \<longleftrightarrow>
     ec_max_block_size (en_config e) \<noteq> - 1 \<and> en_next_session_number e \<noteq> 0
     \<and> tt_ok (en_timers e)
     \<and> log_ok (en_closed_recv_sessions e, en_closed_recv_sessions_set e)
     \<and> log_ok (en_cancelled_sessions e, en_cancelled_sessions_set e)
     \<and> bt_ok (en_send_sessions e) \<and> bt.entries (send_ok (en_config e)) (en_send_sessions e)
     \<and> bt_ok (en_recv_sessions e) \<and> bt.entries (recv_ok (en_config e)) (en_recv_sessions e)
     \<and> length (en_recv_sessions e) \<le> ec_max_recv_sessions (en_config e)"

named_theorems engine_steps \<open>what preserves the engine's invariant\<close>

lemma length_bt_insert_present:
  "bt_ok m \<Longrightarrow> bt_get m k \<noteq> None \<Longrightarrow> length (bt_insert k v m) = length m"
proof -
  assume ok: "bt_ok m" and "bt_get m k \<noteq> None"
  then have "dom (bt_get (bt_insert k v m)) = dom (bt_get m)" by (auto simp: insert_absorb)
  then show ?thesis using ok by (simp only: length_bt bt_ok_insert)
qed

lemma length_bt_insert_le: "length (bt_insert k v m) \<le> Suc (length m)"
  by (induction m) auto

lemma length_bt_remove_le: "length (bt_remove k m) \<le> length m"
  by (simp add: bt_remove_def)

lemma engine_ok_queues [engine_steps]:
  "engine_ok e \<Longrightarrow> engine_ok (push_out p seg e)"
  "engine_ok e \<Longrightarrow> engine_ok (push_notice n e)"
  "engine_ok e \<Longrightarrow> engine_ok (update_peer_rtt_sample p x e)"
  by (simp_all add: engine_ok_def)

lemma engine_ok_timers [engine_steps]:
  "engine_ok e \<Longrightarrow> engine_ok (arm_timer k d e)"
  "engine_ok e \<Longrightarrow> engine_ok (disarm_timer k e)"
  "engine_ok e \<Longrightarrow> engine_ok (disarm_session sid e)"
  by (simp_all add: engine_ok_def timers.consistent_arm timers.consistent_disarm timers.consistent_disarm_session)

lemma engine_ok_touch [engine_steps]: "engine_ok e \<Longrightarrow> engine_ok (touch_inactivity sid b now e)"
  by (simp add: touch_inactivity_def Let_def engine_ok_timers)

lemma engine_ok_send [engine_steps]:
  "engine_ok e \<Longrightarrow> send_ok (en_config e) sid s \<Longrightarrow> engine_ok (put_send sid s e)"
  "engine_ok e \<Longrightarrow> engine_ok (drop_send sid e)"
  by (simp_all add: engine_ok_def bt.entries_put bt.entries_del)

lemma engine_ok_recv [engine_steps]:
  "engine_ok e \<Longrightarrow> recv_ok (en_config e) sid s \<Longrightarrow> bt_get (en_recv_sessions e) sid \<noteq> None \<Longrightarrow> engine_ok (put_recv sid s e)"
  "engine_ok e \<Longrightarrow> engine_ok (drop_recv sid e)"
  using length_bt_remove_le [of sid "en_recv_sessions e"]
  by (simp_all add: engine_ok_def bt.entries_put bt.entries_del length_bt_insert_present)

lemma engine_ok_logs [engine_steps]:
  "engine_ok e \<Longrightarrow> engine_ok (record_cancelled sid e)"
  "engine_ok e \<Longrightarrow> engine_ok (record_closed sid e)"
  using log_ok_push [of "(en_cancelled_sessions e, en_cancelled_sessions_set e)" sid]
    log_ok_push [of "(en_closed_recv_sessions e, en_closed_recv_sessions_set e)" sid]
  by (auto simp: engine_ok_def record_cancelled_def record_closed_def split: prod.splits)

lemma engine_ok_new:
  assumes "ec_max_block_size cfg \<noteq> - 1"
  shows "engine_ok (engine_new cfg)"
proof -
  have "max (ec_initial_session_number cfg) 1 \<noteq> 0"
    by (cases "ec_initial_session_number cfg = 0") (simp_all add: max_def)
  then show ?thesis
    using assms by (simp add: engine_ok_def engine_new_def log_ok_def bt.entries_empty tt_ok_new(1))
qed

lemma send_okD: "engine_ok e \<Longrightarrow> bt_get (en_send_sessions e) sid = Some s \<Longrightarrow> send_ok (en_config e) sid s"
  unfolding engine_ok_def by (blast dest: bt.entriesD)

lemma recv_okD: "engine_ok e \<Longrightarrow> bt_get (en_recv_sessions e) sid = Some s \<Longrightarrow> recv_ok (en_config e) sid s"
  unfolding engine_ok_def by (blast dest: bt.entriesD)

section \<open>Requests\<close>

lemma bump_session_number_pos: "bump_session_number n \<noteq> 0"
  by (simp add: bump_session_number_def Let_def)

lemma request_transmission_ok:
  assumes ok: "engine_ok e" and small: "length block < 2 ^ 63"
  shows "\<exists>r e'. request_transmission peer cs block red_len now e = Some (r, e') \<and> engine_ok e'"
proof (cases "accepted e block red_len")
  case False
  then show ?thesis
    using ok by (auto simp: request_transmission_def accepted_def Let_def not_le split: if_splits)
next
  case True
  let ?sid = "SessionId (ec_engine_id (en_config e)) (en_next_session_number e)"
  from request_transmission_spec [OF small True, of peer cs now]
  obtain reds greens e' ts cps ser s where run: "request_transmission peer cs block red_len now e = Some (Inr ?sid, e')"
    and s: "s = (send_session_new ?sid peer cs block red_len 0 now)
             \<lparr>ss_checkpoints := cps, ss_last_cp_serial := ser, ss_eob_sent := True\<rparr>" "bt_ok cps"
      "\<forall>k r. bt_get cps k = Some r \<longrightarrow> cpr_serial r = k \<and> k \<noteq> 0 \<and> cpr_retries r = 0
         \<and> unat (cpr_offset r) + unat (cpr_length r) \<le> unat red_len"
    and e': "e' = e\<lparr>en_next_session_number := bump_session_number (en_next_session_number e),
          en_outbound := en_outbound e @ data_out peer ?sid (reds @ greens), en_timers := ts,
          en_notices := en_notices e @ (if red_len = 0 then [TransmissionSessionCompleted ?sid] else []),
          en_send_sessions := (if red_len = 0 then en_send_sessions e else bt_insert ?sid s (en_send_sessions e))\<rparr>"
      "tt_ok (en_timers e) \<longrightarrow> tt_ok ts"
    by blast
  have "send_ok (en_config e) ?sid s"
    using s(2,3) small True
    by (auto simp: send_ok_def s(1) send_session_new_def checkpoint_ok_def bt.entries_def accepted_def range_set_new_def)
  then have "engine_ok e'"
    using ok e'(2) by (simp add: e'(1) engine_ok_def bump_session_number_pos bt.entries_put)
  with run show ?thesis by blast
qed

section \<open>Reception\<close>

text \<open>\<open>fine cfg e\<close>: the invariant, under the configuration the engine was given; \<open>running\<close> adds a session taken
  out of the engine and modified, whose entry is still in the table.\<close>

definition fine :: "engine_config \<Rightarrow> engine \<Rightarrow> bool" where
  "fine cfg e \<longleftrightarrow> en_config e = cfg \<and> engine_ok e"

definition running :: "engine_config \<Rightarrow> session_id \<Rightarrow> recv_session \<Rightarrow> engine \<Rightarrow> bool" where
  "running cfg sid s e \<longleftrightarrow> fine cfg e \<and> recv_ok cfg sid s \<and> bt_get (en_recv_sessions e) sid \<noteq> None"

fun flow_ok :: "engine_config \<Rightarrow> session_id \<Rightarrow> engine + recv_session \<times> engine \<Rightarrow> bool" where
  "flow_ok cfg sid (Inl e) = fine cfg e"
| "flow_ok cfg sid (Inr (s, e)) = running cfg sid s e"

lemma recv_ok_frame [simp]:
  "recv_ok cfg sid (s\<lparr>rv_last_activity := t\<rparr>) = recv_ok cfg sid s"
  "recv_ok cfg sid (s\<lparr>rv_cancel_reason := r\<rparr>) = recv_ok cfg sid s"
  "recv_ok cfg sid (s\<lparr>rv_cancel_retries := n\<rparr>) = recv_ok cfg sid s"
  "recv_ok cfg sid (s\<lparr>rv_cancel_reason := r, rv_cancel_retries := n\<rparr>) = recv_ok cfg sid s"
  "recv_ok cfg sid (s\<lparr>rv_red_part_len := l\<rparr>) = recv_ok cfg sid s"
  "recv_ok cfg sid (s\<lparr>rv_block_len := l, rv_red_ends_block := b\<rparr>) = recv_ok cfg sid s"
  "recv_ok cfg sid (s\<lparr>rv_min_green_offset := g\<rparr>) = recv_ok cfg sid s"
  "recv_ok cfg sid (s\<lparr>rv_last_report_serial := m\<rparr>) = recv_ok cfg sid s"
  by (simp_all add: recv_ok_def mem_ok_def)

lemma fine_steps [engine_steps]:
  "fine cfg e \<Longrightarrow> fine cfg (push_out p seg e)"
  "fine cfg e \<Longrightarrow> fine cfg (push_notice n e)"
  "fine cfg e \<Longrightarrow> fine cfg (update_peer_rtt_sample p x e)"
  "fine cfg e \<Longrightarrow> fine cfg (arm_timer k d e)"
  "fine cfg e \<Longrightarrow> fine cfg (disarm_timer k e)"
  "fine cfg e \<Longrightarrow> fine cfg (disarm_session sid e)"
  "fine cfg e \<Longrightarrow> fine cfg (touch_inactivity sid b now e)"
  "fine cfg e \<Longrightarrow> fine cfg (record_cancelled sid e)"
  "fine cfg e \<Longrightarrow> fine cfg (record_closed sid e)"
  "fine cfg e \<Longrightarrow> fine cfg (drop_send sid e)"
  "fine cfg e \<Longrightarrow> fine cfg (drop_recv sid e)"
  "fine cfg e \<Longrightarrow> send_ok cfg sid ss \<Longrightarrow> fine cfg (put_send sid ss e)"
  "running cfg sid s e \<Longrightarrow> fine cfg (put_recv sid s e)"
  by (auto simp: fine_def running_def intro: engine_steps)

lemma running_steps [engine_steps]:
  "running cfg sid s e \<Longrightarrow> running cfg sid s (push_out p seg e)"
  "running cfg sid s e \<Longrightarrow> running cfg sid s (push_notice n e)"
  "running cfg sid s e \<Longrightarrow> running cfg sid s (arm_timer k d e)"
  "running cfg sid s e \<Longrightarrow> running cfg sid s (touch_inactivity sid b now e)"
  "running cfg sid s e \<Longrightarrow> running cfg sid s (update_peer_rtt_sample p x e)"
  by (auto simp: running_def intro: engine_steps)

lemma running_session: "running cfg sid s e \<Longrightarrow> recv_ok cfg sid s' \<Longrightarrow> running cfg sid s' e"
  by (simp add: running_def)

lemma running_lookup: "fine cfg e \<Longrightarrow> bt_get (en_recv_sessions e) sid = Some s \<Longrightarrow> running cfg sid s e"
  using recv_okD [of e sid s] by (simp add: running_def fine_def)

lemma initiate_cancel_receiver_fine [engine_steps]:
  "fine cfg e \<Longrightarrow> fine cfg (initiate_cancel_receiver sid peer reason now e)"
proof (cases "bt_get (en_recv_sessions e) sid")
  case (Some s)
  assume "fine cfg e"
  then have "running cfg sid (s\<lparr>rv_cancel_reason := Some reason, rv_cancel_retries := 1\<rparr>) e"
    using running_lookup [OF _ Some] by (auto intro: running_session simp: running_def)
  then show ?thesis by (simp add: initiate_cancel_receiver_def Some Let_def engine_steps)
qed (simp add: initiate_cancel_receiver_def)

lemma recv_ok_report:
  assumes "recv_ok cfg sid s" "report_ok cfg k r"
    and "bt_get (rv_reports s) k \<noteq> None \<or> length (rv_reports s) < ec_max_reports_per_session cfg"
  shows "recv_ok cfg sid (s\<lparr>rv_reports := bt_insert k r (rv_reports s)\<rparr>)"
proof -
  have "length (bt_insert k r (rv_reports s)) \<le> ec_max_reports_per_session cfg"
    using assms(1,3) length_bt_insert_present [of "rv_reports s" k r] length_bt_insert_le [of k r "rv_reports s"]
    by (auto simp: recv_ok_def)
  moreover have "bt.entries (report_ok cfg) (bt_insert k r (rv_reports s))"
    using assms(1,2) by (intro bt.entries_put) (simp_all add: recv_ok_def)
  ultimately show ?thesis using assms(1) by (simp add: recv_ok_def mem_ok_def)
qed

lemma issue_report_running:
  assumes "running cfg sid s e" "length (rv_reports s) < ec_max_reports_per_session cfg"
    and "rs_report_serial report \<noteq> 0" "issue_report from sid report now s e = (s', e')"
  shows "running cfg sid s' e'"
proof -
  have "recv_ok cfg sid s'"
    using assms recv_ok_report [of cfg sid s "rs_report_serial report"]
    by (auto simp: running_def issue_report_def Let_def report_ok_def)
  moreover have "running cfg sid s e'"
    using assms by (auto simp: issue_report_def Let_def intro: engine_steps)
  ultimately show ?thesis by (rule running_session [rotated])
qed

lemma recv_ok_answered:
  "recv_ok cfg sid s \<Longrightarrow> recv_ok cfg sid (s\<lparr>rv_cp_serials_answered := bt_insert k v (rv_cp_serials_answered s)\<rparr>)"
  by (simp add: recv_ok_def mem_ok_def)

lemma report_chunks_ok:
  "running cfg sid s e \<Longrightarrow> flow_ok cfg sid (report_chunks from sid cp upper now first chunks serials s e)"
proof (induction chunks arbitrary: first serials s e)
  case Nil
  then show ?case by (auto simp: running_def recv_ok_answered)
next
  case (Cons chunk chunks)
  have cfg: "en_config e = cfg" using Cons.prems by (simp add: running_def fine_def)
  show ?case
  proof (cases "ec_max_reports_per_session cfg \<le> length (rv_reports s)")
    case True
    then show ?thesis using Cons.prems by (simp add: cfg engine_steps)
  next
    case False
    let ?serial = "next_nonzero_serial (rv_last_report_serial s)"
    let ?s = "s\<lparr>rv_last_report_serial := ?serial\<rparr>"
    let ?report = "chunk_report ?serial cp (if first then 0 else fst (hd chunk)) (if chunks = [] then upper else snd (last chunk)) chunk"
    obtain s' e' where issued: "issue_report from sid ?report now ?s e = (s', e')" by fastforce
    have "running cfg sid ?s e" using Cons.prems by (auto simp: running_def)
    then have "running cfg sid s' e'"
      using False by (intro issue_report_running [OF _ _ _ issued]) (simp_all add: chunk_report_def)
    then show ?thesis using Cons.IH False issued by (simp add: cfg Let_def)
  qed
qed

lemma fresh_checkpoint_ok:
  assumes "running cfg sid s e"
  shows "flow_ok cfg sid (fresh_checkpoint from sid cp upper now s e)"
proof (cases "ec_max_reports_per_session cfg \<le> length (rv_reports s)")
  case True
  then show ?thesis using assms by (simp add: fresh_checkpoint_def running_def fine_def [of cfg e] engine_steps assms)
next
  case False
  have cfg: "en_config e = cfg" using assms by (simp add: running_def fine_def)
  let ?serial = "next_nonzero_serial (rv_last_report_serial s)"
  let ?s = "s\<lparr>rv_last_report_serial := ?serial\<rparr>"
  obtain s' e' where issued: "issue_report from sid (chunk_report ?serial cp 0 upper []) now ?s e = (s', e')" by fastforce
  have "running cfg sid ?s e" using assms by (auto simp: running_def)
  then have "running cfg sid s' e'"
    using False by (intro issue_report_running [OF _ _ _ issued]) (simp_all add: chunk_report_def)
  then have "running cfg sid (s'\<lparr>rv_cp_serials_answered := bt_insert cp [?serial] (rv_cp_serials_answered s')\<rparr>) e'"
    by (auto simp: running_def recv_ok_answered)
  then show ?thesis
    using False issued report_chunks_ok [OF assms] by (simp add: fresh_checkpoint_def cfg Let_def)
qed

lemma reemit_reports_running:
  "running cfg sid s e \<Longrightarrow> running cfg sid s (fold (reemit_report from sid now s) serials e)"
proof (induction serials arbitrary: e)
  case (Cons serial serials)
  have "running cfg sid s (reemit_report from sid now s serial e)"
    using Cons.prems by (auto simp: reemit_report_def Let_def intro: engine_steps split: option.split)
  with Cons.IH show ?case by simp
qed simp

lemma answer_checkpoint_ok:
  "running cfg sid s e \<Longrightarrow> flow_ok cfg sid (answer_checkpoint from sid cp upper now s e)"
  by (auto simp: answer_checkpoint_def fresh_checkpoint_ok reemit_reports_running split: option.split)

lemma open_recv_running:
  assumes "fine cfg e" "open_recv from sid ds now e = Some (s, e')"
  shows "running cfg sid s e'"
proof -
  have cfg: "en_config e = cfg" using assms(1) by (simp add: fine_def)
  have old: "running cfg sid (s0\<lparr>rv_last_activity := now\<rparr>) e" if "bt_get (en_recv_sessions e) sid = Some s0" for s0
    using running_lookup [OF assms(1) that] by (simp add: running_def)
  have new: "recv_ok cfg sid (recv_session_new sid from (ds_client_service ds) 0 now)"
    using mem_ok_new [of "ec_max_block_size cfg" sid "from" "ds_client_service ds" 0 now]
    by (simp add: recv_ok_def recv_session_new_def bt.entries_empty range_set_new_def)
  have put: "running cfg sid s1 (touch_inactivity sid False now (put_recv sid s1 e))"
    if "recv_ok cfg sid s1" "bt_get (en_recv_sessions e) sid \<noteq> None \<or> length (en_recv_sessions e) < ec_max_recv_sessions cfg" for s1
  proof -
    have "length (bt_insert sid s1 (en_recv_sessions e)) \<le> ec_max_recv_sessions cfg"
      using that(2) assms(1) length_bt_insert_present [of "en_recv_sessions e" sid s1] length_bt_insert_le [of sid s1 "en_recv_sessions e"]
      by (auto simp: fine_def engine_ok_def)
    then have "fine cfg (put_recv sid s1 e)"
      using assms(1) that(1) by (auto simp: fine_def engine_ok_def intro: bt.entries_put)
    then show ?thesis using that(1) by (simp add: running_def engine_steps)
  qed
  show ?thesis
  proof (cases "bt_get (en_recv_sessions e) sid")
    case (Some s0)
    then show ?thesis
      using assms(2) put [of "s0\<lparr>rv_last_activity := now\<rparr>"] old [OF Some]
      by (auto simp: open_recv_def Let_def running_def split: if_splits)
  next
    case None
    then show ?thesis
      using assms(2) put [of "(recv_session_new sid from (ds_client_service ds) 0 now)\<lparr>rv_last_activity := now\<rparr>"] new
      by (auto simp: open_recv_def Let_def cfg split: if_splits)
  qed
qed

lemma check_color_running:
  "running cfg sid s e \<Longrightarrow> check_color ds s = (b, s') \<Longrightarrow> running cfg sid s' e"
  by (auto simp: check_color_def Let_def running_def split: if_splits)

lemma insert_red_running:
  assumes run: "running cfg sid s e" and small: "length data < 2 ^ 63"
  shows "\<exists>ok s'. insert_red off data (ec_max_block_size cfg) s = Some (ok, s') \<and> running cfg sid s' e
    \<and> rv_reports s' = rv_reports s"
proof -
  have mem: "mem_ok (ec_max_block_size cfg) s" and lim: "ec_max_block_size cfg \<noteq> - 1"
    using run by (auto simp: running_def recv_ok_def fine_def engine_ok_def)
  obtain ok s' where ins: "insert_red off data (ec_max_block_size cfg) s = Some (ok, s')" and mem': "mem_ok (ec_max_block_size cfg) s'"
    using insert_red_mem [OF mem small lim] by blast
  have same: "rv_id s' = rv_id s \<and> rv_reported_coverage s' = rv_reported_coverage s \<and> rv_reports s' = rv_reports s
      \<and> rv_cp_serials_answered s' = rv_cp_serials_answered s"
    using ins by (auto simp: insert_red_def Let_def split: option.splits if_splits)
  then have "recv_ok cfg sid s'" using run mem' by (simp add: running_def recv_ok_def)
  with ins same run show ?thesis by (auto simp: running_def)
qed

lemma note_ends_running: "running cfg sid s e \<Longrightarrow> running cfg sid (note_ends ds s) e"
  by (simp add: note_ends_def Let_def running_def)

lemma handle_red_ok:
  assumes "running cfg sid s e" "length (ds_data ds) < 2 ^ 63"
  shows "\<exists>r. handle_red from sid ds now s e = Some r \<and> flow_ok cfg sid r"
proof -
  have cfg: "en_config e = cfg" using assms(1) by (simp add: running_def fine_def)
  obtain ok s' where "insert_red (ds_offset ds) (ds_data ds) (ec_max_block_size cfg) s = Some (ok, s')" "running cfg sid s' e"
    using insert_red_running [OF assms] by blast
  then show ?thesis
    by (auto simp: handle_red_def cfg Let_def engine_steps note_ends_running answer_checkpoint_ok split: option.split)
qed

lemma deliver_red_running:
  assumes "running cfg sid s e" "deliver_red from sid s e = (s', e')"
  shows "running cfg sid s' e'"
proof -
  have "recv_ok cfg sid (s\<lparr>rv_red_buf := [], rv_red_delivered := True\<rparr>)"
    using assms(1) by (simp add: running_def recv_ok_def mem_ok_def)
  then show ?thesis
    using assms by (auto simp: deliver_red_def Let_def engine_steps running_session split: if_splits)
qed

lemma handle_incoming_data_ok:
  assumes "fine cfg e" "length (ds_data ds) < 2 ^ 63"
  shows "\<exists>e'. handle_incoming_data from sid ds now e = Some e' \<and> fine cfg e'"
proof (cases "sid \<in> set (en_closed_recv_sessions_set e)")
  case True
  then show ?thesis using assms(1)
    by (auto simp: handle_incoming_data_def reemit_closed_def Let_def intro: engine_steps split: option.split)
next
  case reach: False
  show ?thesis
  proof (cases "open_recv from sid ds now e")
    case None
    then show ?thesis using assms(1) reach by (simp add: handle_incoming_data_def)
  next
    case (Some se)
    obtain s e1 where se: "se = (s, e1)" by fastforce
    have run: "running cfg sid s e1" using open_recv_running [OF assms(1)] Some se by simp
    obtain bad s1 where color: "check_color ds s = (bad, s1)" by fastforce
    have run1: "running cfg sid s1 e1" using check_color_running [OF run color] .
    have fine: "fine cfg (put_recv sid s e1)" "fine cfg (put_recv sid s1 e1)"
      using run run1 by (simp_all add: engine_steps)
    let ?r = "if is_red (ds_kind ds) then handle_red from sid ds now s1 e1
      else Some (Inr (s1, push_notice (GreenSegmentArrived sid from (ds_offset ds) (ds_data ds) (is_eob (ds_kind ds))) e1))"
    obtain r where r: "?r = Some r" "flow_ok cfg sid r"
      using handle_red_ok [OF run1 assms(2)] run1 by (cases "is_red (ds_kind ds)") (auto intro: engine_steps)
    have "\<exists>e'. (case r of Inl e \<Rightarrow> Some e
        | Inr (s, e) \<Rightarrow> let (s, e) = deliver_red from sid s e in Some (put_recv sid s e)) = Some e' \<and> fine cfg e'"
      using r(2) by (cases r) (auto split: prod.split intro!: fine_steps(13) dest: deliver_red_running)
    then show ?thesis
      using reach Some fine r(1) initiate_cancel_receiver_fine
      by (auto simp: handle_incoming_data_def se color split: sum.splits prod.splits)
  qed
qed

lemma ack_report_running:
  assumes "running cfg sid s e" "ack_report serial now s e = (s', e')"
  shows "running cfg sid s' e'"
proof (cases "bt_get (rv_reports s) serial")
  case None
  with assms show ?thesis by (simp add: ack_report_def)
next
  case (Some rec)
  have rec: "report_ok cfg serial rec" and ok: "recv_ok cfg sid s"
    using assms(1) Some by (auto simp: running_def recv_ok_def dest: bt.entriesD)
  have cov: "rs_ok (fold (\<lambda>c cov. fst (range_insert cov (f c))) cs cov)" if "rs_ok cov" for f cs cov
    using that by (induction cs arbitrary: cov) (auto simp: rset.ins_ok)
  have "recv_ok cfg sid (s\<lparr>rv_reports := bt_insert serial (rec\<lparr>rr_acked := True\<rparr>) (rv_reports s)\<rparr>)"
    using ok rec Some by (intro recv_ok_report) (simp_all add: report_ok_def)
  then have "recv_ok cfg sid s'"
    using assms(2) Some by (auto simp: ack_report_def Let_def recv_ok_def mem_ok_def cov)
  moreover have "running cfg sid s e'"
    using assms Some by (auto simp: ack_report_def Let_def intro: engine_steps split: if_splits)
  ultimately show ?thesis by (rule running_session [rotated])
qed

lemma handle_incoming_report_ack_fine:
  assumes "fine cfg e"
  shows "fine cfg (handle_incoming_report_ack sid serial now e)"
proof -
  let ?e = "disarm_timer (report_key sid serial) e"
  have fine: "fine cfg ?e" using assms by (rule engine_steps)
  show ?thesis
  proof (cases "bt_get (en_recv_sessions ?e) sid")
    case None
    then show ?thesis using fine by (simp add: handle_incoming_report_ack_def Let_def)
  next
    case (Some s)
    let ?s = "s\<lparr>rv_last_activity := now\<rparr>" and ?e1 = "touch_inactivity sid False now ?e"
    obtain s' e' where ack: "ack_report serial now ?s ?e1 = (s', e')" by fastforce
    have "running cfg sid ?s ?e1"
      using running_lookup [OF fine Some] by (auto intro: engine_steps running_session simp: running_def)
    then have "running cfg sid s' e'" using ack by (rule ack_report_running)
    then have "fine cfg e'" "fine cfg (put_recv sid s' e')" by (auto simp: running_def engine_steps)
    then show ?thesis
      using fine Some ack by (auto simp: handle_incoming_report_ack_def Let_def intro: engine_steps)
  qed
qed

lemma handle_rs_timeout_fine:
  assumes "fine cfg e"
  shows "fine cfg (handle_rs_timeout sid serial now e)"
proof (cases "bt_get (en_recv_sessions e) sid")
  case None
  then show ?thesis using assms by (simp add: handle_rs_timeout_def)
next
  case (Some s)
  note run = running_lookup [OF assms Some]
  have cfg: "en_config e = cfg" using assms by (simp add: fine_def)
  have cancel: "running cfg sid (s\<lparr>rv_cancel_reason := Some Rlexc, rv_cancel_retries := 1\<rparr>) e"
    using run by (simp add: running_def)
  show ?thesis
  proof (cases "bt_get (rv_reports s) serial")
    case None
    then show ?thesis using assms Some by (simp add: handle_rs_timeout_def)
  next
    case rec: (Some rec)
    have "report_ok cfg serial rec" using run rec by (auto simp: running_def recv_ok_def dest: bt.entriesD)
    then have "report_ok cfg serial (rec\<lparr>rr_retries := rr_retries rec + 1\<rparr>)" if "rr_retries rec < ec_report_rtx_limit cfg"
      using inc_le [OF that] by (simp add: report_ok_def add.commute)
    then have "running cfg sid (s\<lparr>rv_reports := bt_insert serial (rec\<lparr>rr_retries := rr_retries rec + 1\<rparr>) (rv_reports s)\<rparr>) e"
      if "rr_retries rec < ec_report_rtx_limit cfg"
      using run rec that by (auto simp: running_def intro: recv_ok_report)
    then show ?thesis
      using assms Some rec cancel by (auto simp: handle_rs_timeout_def Let_def cfg intro: engine_steps)
  qed
qed

end
