(* ===== verification/Retransmission.thy ===== *)
theory Retransmission
  imports Engine_Safety
begin

text \<open>
  What an incoming report makes the sender do: which octets it retransmits, when it issues a new
  checkpoint, when it completes the session; and that none of it panics.
\<close>

section \<open>One gap\<close>

definition sending :: "engine_config \<Rightarrow> session_id \<Rightarrow> send_session \<Rightarrow> engine \<Rightarrow> bool" where
  "sending cfg sid s e \<longleftrightarrow> fine cfg e \<and> send_ok cfg sid s"

lemma send_ok_frame [simp]:
  "send_ok cfg sid (s\<lparr>ss_last_activity := t\<rparr>) = send_ok cfg sid s"
  "send_ok cfg sid (s\<lparr>ss_last_cp_serial := t\<rparr>) = send_ok cfg sid s"
  "send_ok cfg sid (s\<lparr>ss_cancel_reason := r, ss_cancel_retries := n\<rparr>) = send_ok cfg sid s"
  "send_ok cfg sid (s\<lparr>ss_cancel_reason := r\<rparr>) = send_ok cfg sid s"
  "send_ok cfg sid (s\<lparr>ss_cancel_retries := n\<rparr>) = send_ok cfg sid s"
  by (simp_all add: send_ok_def checkpoint_ok_def [abs_def])

lemma send_ok_checkpoint:
  assumes "send_ok cfg sid s" "checkpoint_ok cfg s k r"
  shows "send_ok cfg sid (s\<lparr>ss_checkpoints := bt_insert k r (ss_checkpoints s)\<rparr>)"
proof -
  have "checkpoint_ok cfg (s\<lparr>ss_checkpoints := c\<rparr>) = checkpoint_ok cfg s" for c
    by (simp add: checkpoint_ok_def [abs_def])
  moreover have "bt.entries (checkpoint_ok cfg s) (bt_insert k r (ss_checkpoints s))"
    using assms by (intro bt.entries_put) (simp_all add: send_ok_def)
  ultimately show ?thesis using assms(1) by (simp add: send_ok_def)
qed

lemma sending_steps [engine_steps]:
  "sending cfg sid s e \<Longrightarrow> sending cfg sid s (push_out p seg e)"
  "sending cfg sid s e \<Longrightarrow> sending cfg sid s (push_notice n e)"
  "sending cfg sid s e \<Longrightarrow> sending cfg sid s (arm_timer k d e)"
  "sending cfg sid s e \<Longrightarrow> sending cfg sid s (disarm_timer k e)"
  "sending cfg sid s e \<Longrightarrow> sending cfg sid s (touch_inactivity sid b now e)"
  "sending cfg sid s e \<Longrightarrow> sending cfg sid s (update_peer_rtt_sample p x e)"
  "sending cfg sid s e \<Longrightarrow> fine cfg (put_send sid s e)"
  by (auto simp: sending_def intro: engine_steps)

lemma record_checkpoint_sending:
  assumes "sending cfg sid s e" "checkpoint_ok cfg s (cpr_serial r) r"
  shows "sending cfg sid (fst (record_checkpoint sid r now s e)) (snd (record_checkpoint sid r now s e))"
  using assms by (auto simp: record_checkpoint_def Let_def sending_def intro: engine_steps send_ok_checkpoint)

text \<open>What a queue of data segments holds, and the outcome of the loop over one gap.\<close>

definition seg_span :: "data_segment \<Rightarrow> nat set" where
  "seg_span d = {unat (ds_offset d)..<unat (ds_offset d) + length (ds_data d)}"

lemma tiles_span: "tiles B a ds b \<Longrightarrow> a \<le> length B \<Longrightarrow> (\<Union>d\<in>set ds. seg_span d) = {a..<b}"
proof (induction ds arbitrary: a)
  case (Cons d ds)
  then have le: "a + length (ds_data d) \<le> length B" by (simp add: slice_get_Some_iff)
  have rest: "tiles B (a + length (ds_data d)) ds b" using Cons.prems by simp
  have "a + length (ds_data d) \<le> b" using tiles_bounds [OF rest le] by simp
  moreover have "(\<Union>d\<in>set ds. seg_span d) = {a + length (ds_data d)..<b}" by (rule Cons.IH [OF rest le])
  moreover have "seg_span d = {a..<a + length (ds_data d)}" using Cons.prems by (simp add: seg_span_def)
  ultimately show ?case by auto
qed simp

definition kinds_ok :: "data_seg_kind \<Rightarrow> data_segment list \<Rightarrow> bool" where
  "kinds_ok k ds \<longleftrightarrow> ds \<noteq> [] \<and> (\<forall>d\<in>set (butlast ds). ds_kind d = Red) \<and> ds_kind (last ds) = k"

definition sized :: "engine \<Rightarrow> send_session \<Rightarrow> data_segment list \<Rightarrow> bool" where
  "sized e s ds \<longleftrightarrow> (\<forall>d\<in>set ds. length (ds_data d) \<le> unat (segment_mtu e) \<and> ds_client_service d = ss_client_service s)"

definition gap_kind :: "send_session \<Rightarrow> u64 \<Rightarrow> u64 \<Rightarrow> data_seg_kind" where
  "gap_kind s gap_end report_serial =
     checkpoint_kind (gap_end = ss_red_len s) (gap_end = vec_len (ss_block s))
       \<lparr>cp_serial = next_nonzero_serial (ss_last_cp_serial s), cp_report_serial = report_serial\<rparr>"

definition gap_sent ::
    "engine_id \<Rightarrow> session_id \<Rightarrow> u64 \<Rightarrow> bool \<Rightarrow> u64 \<Rightarrow> u64 \<Rightarrow> send_session \<Rightarrow> engine
     \<Rightarrow> data_segment list \<Rightarrow> send_session \<Rightarrow> engine \<Rightarrow> bool" where
  "gap_sent from sid report_serial is_last gap_end offset s e ds s' e' \<longleftrightarrow>
     tiles (ss_block s) (unat offset) ds (unat gap_end) \<and> sized e s ds
     \<and> kinds_ok (if is_last then gap_kind s gap_end report_serial else Red) ds
     \<and> (\<exists>ts. e' = e\<lparr>en_outbound := en_outbound e @ data_out from sid ds, en_timers := ts\<rparr>)
     \<and> (\<exists>cps ser. s' = s\<lparr>ss_last_cp_serial := ser, ss_checkpoints := cps\<rparr> \<and> (is_last \<longrightarrow> cps \<noteq> []))
     \<and> (\<not> is_last \<longrightarrow> s' = s)"

lemma sending_update:
  "sending cfg sid s e \<Longrightarrow> sending cfg sid (s\<lparr>ss_last_cp_serial := n\<rparr>) e"
  by (simp add: sending_def)

lemma bt_insert_not_Nil [simp]: "bt_insert k v m \<noteq> []"
  by (cases m) auto

lemma resend_gap_sent:
  assumes "sending cfg sid s e" "offset < gap_end" "gap_end \<le> ss_red_len s"
  shows "\<exists>ds s' e'. resend_gap from sid rser now is_last gap_end offset s e = Some (s', e')
    \<and> gap_sent from sid rser is_last gap_end offset s e ds s' e' \<and> sending cfg sid s' e'"
  using assms
proof (induction "from" sid rser now is_last gap_end offset s e rule: resend_gap.induct)
  case (1 "from" sid rser now is_last gap_end offset s e)
  let ?upto = "chunk_end offset gap_end (segment_mtu e)"
  have s: "length (ss_block s) < 2 ^ 63" "ss_red_len s \<le> vec_len (ss_block s)"
    using "1.prems"(1) by (simp_all add: sending_def send_ok_def)
  have within: "gap_end \<le> vec_len (ss_block s)" using "1.prems"(3) s(2) by (rule order_trans)
  obtain d where d: "slice_get (ss_block s) (unat offset) (unat ?upto) = Some d" "d \<noteq> []"
    "length d \<le> unat (segment_mtu e)" "unat offset + length d = unat ?upto"
    using chunk_slice [OF "1.prems"(2) within s(1)] by blast
  have fits: "unat ?upto \<le> length (ss_block s)" using d(1) by (simp add: slice_get_Some_iff)
  show ?case
  proof (cases "?upto = gap_end")
    case True
    let ?serial = "next_nonzero_serial (ss_last_cp_serial s)"
    let ?r = "\<lparr>cpr_serial = ?serial, cpr_report_serial = rser, cpr_offset = offset, cpr_length = gap_end - offset,
      cpr_is_eorp = (gap_end = ss_red_len s), cpr_is_eob = (gap_end = vec_len (ss_block s)), cpr_retries = 0,
      cpr_transmitted_at = now\<rparr>"
    let ?d = "\<lparr>ds_client_service = ss_client_service s, ds_offset = offset,
      ds_kind = (if is_last then gap_kind s gap_end rser else Red), ds_data = d\<rparr>"
    let ?e = "push_out from (wire sid (Data ?d)) e"
    let ?se = "if is_last then record_checkpoint sid ?r now (s\<lparr>ss_last_cp_serial := ?serial\<rparr>) ?e else (s, ?e)"
    have step: "resend_gap from sid rser now is_last gap_end offset s e
      = resend_gap from sid rser now is_last gap_end gap_end (fst ?se) (snd ?se)"
      using "1.prems"(2) d(1) fits
      by (subst resend_gap.simps)
        (cases is_last; simp add: True data_wire_def gap_kind_def Let_def split_beta)
    have run: "resend_gap from sid rser now is_last gap_end offset s e = Some ?se"
      unfolding step by (subst resend_gap.simps) simp
    have "unat (gap_end - offset) = unat gap_end - unat offset" "unat offset \<le> unat gap_end" "unat gap_end \<le> unat (ss_red_len s)"
      using "1.prems"(2,3) by (simp_all add: unat_sub_exact u64_arith)
    then have "checkpoint_ok cfg (s\<lparr>ss_last_cp_serial := ?serial\<rparr>) (cpr_serial ?r) ?r"
      by (simp add: checkpoint_ok_def)
    moreover have "sending cfg sid s ?e" using "1.prems"(1) by (rule engine_steps)
    ultimately have sent: "sending cfg sid (fst ?se) (snd ?se)"
      using record_checkpoint_sending [OF sending_update] by (cases is_last) simp_all
    have "gap_sent from sid rser is_last gap_end offset s e [?d] (fst ?se) (snd ?se)"
    proof (cases is_last)
      case False
      have "s = s\<lparr>ss_last_cp_serial := ss_last_cp_serial s, ss_checkpoints := ss_checkpoints s\<rparr>"
        and "?e = e\<lparr>en_outbound := en_outbound e @ data_out from sid [?d], en_timers := en_timers e\<rparr>"
        by (simp_all add: push_out_def)
      then have "\<exists>cps ser. s = s\<lparr>ss_last_cp_serial := ser, ss_checkpoints := cps\<rparr>"
        and "\<exists>ts. ?e = e\<lparr>en_outbound := en_outbound e @ data_out from sid [?d], en_timers := ts\<rparr>" by blast+
      then show ?thesis using False d True unfolding gap_sent_def sized_def kinds_ok_def by simp
    qed (use d True in \<open>auto simp: gap_sent_def sized_def kinds_ok_def record_checkpoint_def Let_def
          push_out_def arm_timer_def\<close>)
    with run sent show ?thesis by (metis prod.collapse)
  next
    case False
    let ?d = "\<lparr>ds_client_service = ss_client_service s, ds_offset = offset, ds_kind = Red, ds_data = d\<rparr>"
    let ?e = "push_out from (wire sid (Data ?d)) e"
    have less: "?upto < gap_end" using chunk_end_progress(2) [OF "1.prems"(2), of e] False by simp
    have step: "resend_gap from sid rser now is_last gap_end offset s e
      = resend_gap from sid rser now is_last gap_end ?upto s ?e"
      using "1.prems"(2) d(1) False fits by (subst resend_gap.simps) (simp add: data_wire_def Let_def)
    have "sending cfg sid s ?e" using "1.prems"(1) by (rule engine_steps)
    then have "\<exists>ds s' e'. resend_gap from sid rser now is_last gap_end ?upto s ?e = Some (s', e')
      \<and> gap_sent from sid rser is_last gap_end ?upto s ?e ds s' e' \<and> sending cfg sid s' e'"
      using "1.IH"(1) [of ?upto False "?upto = ss_red_len s" "?upto = vec_len (ss_block s)" _ s Red d ?e "(s, ?e)" s ?e]
        "1.prems" False d(1) less fits
      by (simp add: data_wire_def)
    then obtain ds s' e' where rest: "resend_gap from sid rser now is_last gap_end ?upto s ?e = Some (s', e')"
      "gap_sent from sid rser is_last gap_end ?upto s ?e ds s' e'" "sending cfg sid s' e'"
      by blast
    have "gap_sent from sid rser is_last gap_end offset s e (?d # ds) s' e'"
      using d rest(2) unfolding gap_sent_def sized_def kinds_ok_def by (auto simp: push_out_def)
    with step rest show ?thesis by auto
  qed
qed

section \<open>All gaps\<close>

lemma kinds_ok_append:
  "kinds_ok Red xs \<Longrightarrow> kinds_ok k ys \<Longrightarrow> kinds_ok k (xs @ ys)"
  unfolding kinds_ok_def by (cases xs rule: rev_cases) (auto simp: butlast_append)

definition gaps_sent ::
    "engine_id \<Rightarrow> session_id \<Rightarrow> u64 \<Rightarrow> range list \<Rightarrow> send_session \<Rightarrow> engine
     \<Rightarrow> data_segment list list \<Rightarrow> send_session \<Rightarrow> engine \<Rightarrow> bool" where
  "gaps_sent from sid report_serial gaps s e dss s' e' \<longleftrightarrow>
     list_all2 (\<lambda>g ds. tiles (ss_block s) (unat (fst g)) ds (unat (snd g))) gaps dss
     \<and> sized e s (concat dss)
     \<and> (\<exists>ts. e' = e\<lparr>en_outbound := en_outbound e @ data_out from sid (concat dss), en_timers := ts\<rparr>)
     \<and> (\<exists>cps ser. s' = s\<lparr>ss_last_cp_serial := ser, ss_checkpoints := cps\<rparr> \<and> (gaps \<noteq> [] \<longrightarrow> cps \<noteq> []))
     \<and> (if gaps = [] then s' = s \<and> e' = e
        else kinds_ok (gap_kind s (snd (last gaps)) report_serial) (concat dss))"

lemma gap_sent_mtu: "gap_sent from sid rser l g off s e ds s' e' \<Longrightarrow> segment_mtu e' = segment_mtu e"
  by (auto simp: gap_sent_def segment_mtu_def)

lemma resend_gaps_sent:
  assumes "sending cfg sid s e" "\<forall>g\<in>set gaps. fst g < snd g \<and> snd g \<le> ss_red_len s"
  shows "\<exists>dss s' e'. resend_gaps from sid rser now gaps s e = Some (s', e')
    \<and> gaps_sent from sid rser gaps s e dss s' e' \<and> sending cfg sid s' e'"
  using assms
proof (induction gaps arbitrary: s e)
  case Nil
  have "\<exists>cps ser. s = s\<lparr>ss_last_cp_serial := ser, ss_checkpoints := cps\<rparr>"
    by (intro exI [of _ "ss_checkpoints s"] exI [of _ "ss_last_cp_serial s"]) simp
  moreover have "\<exists>ts. e = e\<lparr>en_timers := ts\<rparr>"
    by (intro exI [of _ "en_timers e"]) simp
  ultimately have "gaps_sent from sid rser [] s e [] s e" unfolding gaps_sent_def sized_def by simp
  then show ?case using Nil.prems(1) by auto
next
  case (Cons g gaps)
  have g: "fst g < snd g" "snd g \<le> ss_red_len s" using Cons.prems(2) by auto
  obtain ds s1 e1 where first: "resend_gap from sid rser now (gaps = []) (snd g) (fst g) s e = Some (s1, e1)"
    "gap_sent from sid rser (gaps = []) (snd g) (fst g) s e ds s1 e1" "sending cfg sid s1 e1"
    using resend_gap_sent [OF Cons.prems(1) g] by blast
  show ?case
  proof (cases "gaps = []")
    case True
    have "gaps_sent from sid rser [g] s e [ds] s1 e1"
      using first(2) True by (auto simp: gap_sent_def gaps_sent_def)
    moreover have "resend_gaps from sid rser now [g] s e = Some (s1, e1)" using first(1) True by simp
    ultimately show ?thesis using first(3) True by blast
  next
    case False
    then have s1: "s1 = s" using first(2) by (simp add: gap_sent_def)
    obtain dss s' e' where rest: "resend_gaps from sid rser now gaps s e1 = Some (s', e')"
      "gaps_sent from sid rser gaps s e1 dss s' e'" "sending cfg sid s' e'"
      using Cons.IH [of s e1] Cons.prems(2) first(3) by (auto simp: s1)
    have "sized e s (ds @ concat dss)"
      using first(2) rest(2) gap_sent_mtu [OF first(2)] by (auto simp: gap_sent_def gaps_sent_def sized_def)
    moreover have "kinds_ok (gap_kind s (snd (last gaps)) rser) (ds @ concat dss)"
      using first(2) rest(2) False by (intro kinds_ok_append) (simp_all add: gap_sent_def gaps_sent_def)
    ultimately have "gaps_sent from sid rser (g # gaps) s e (ds # dss) s' e'"
      using first(2) rest(2) False by (auto simp: gap_sent_def gaps_sent_def)
    moreover have "resend_gaps from sid rser now (g # gaps) s e = Some (s', e')"
      using first(1) rest(1) by (simp add: s1)
    ultimately show ?thesis using rest(3) by blast
  qed
qed

lemma gaps_sent_span:
  assumes "gaps_sent from sid rser gaps s e dss s' e'" "\<forall>g\<in>set gaps. unat (fst g) \<le> length (ss_block s)"
  shows "(\<Union>d\<in>set (concat dss). seg_span d) = (\<Union>g\<in>set gaps. range_span g)"
proof -
  have "list_all2 (\<lambda>g ds. tiles (ss_block s) (unat (fst g)) ds (unat (snd g))) gaps dss"
    using assms(1) by (simp add: gaps_sent_def)
  then show ?thesis
    using assms(2)
  proof (induction rule: list_all2_induct)
    case (Cons g gs ds dss)
    then have "(\<Union>d\<in>set ds. seg_span d) = range_span g" by (simp add: tiles_span range_span_def)
    with Cons show ?case by auto
  qed simp
qed

section \<open>Claims\<close>

definition claimed :: "report_segment \<Rightarrow> u64 \<Rightarrow> nat set" where
  "claimed rs red_len = (\<Union>c\<in>set (rs_claims rs). range_span (clamp_claim (rs_lower_bound rs) red_len c))"

lemma clamp_claim_span: "range_span (clamp_claim lower red_len c) \<subseteq> {0..<unat red_len}"
  by (auto simp: clamp_claim_def Let_def range_span_def unat_min)

lemma record_claim_fold:
  "rs_ok cl \<Longrightarrow> rs_ok (fold (record_claim lower red_len) cs cl)
    \<and> rs_set (fold (record_claim lower red_len) cs cl)
        = rs_set cl \<union> (\<Union>c\<in>set cs. range_span (clamp_claim lower red_len c))"
proof (induction cs arbitrary: cl)
  case (Cons c cs)
  let ?r = "clamp_claim lower red_len c"
  have "\<not> fst ?r < snd ?r \<Longrightarrow> range_span ?r = {}" by (simp add: range_span_def word_less_nat_alt)
  then have "rs_ok (record_claim lower red_len c cl) \<and> rs_set (record_claim lower red_len c cl) = rs_set cl \<union> range_span ?r"
    using Cons.prems by (auto simp: record_claim_def Let_def rset.ins_ok rset.elems_ins)
  with Cons.IH [of "record_claim lower red_len c cl"] show ?case by auto
qed simp

text \<open>For a well-formed report a claim means the octets it names, as far as they are red.\<close>

lemma claimed_wf:
  assumes "wf_report rs"
  shows "claimed rs red_len = (\<Union>c\<in>set (rs_claims rs).
    {unat (rs_lower_bound rs) + unat (cl_offset c)..<unat (rs_lower_bound rs) + unat (cl_offset c) + unat (cl_length c)})
    \<inter> {0..<unat red_len}"
proof -
  let ?lo = "unat (rs_lower_bound rs)"
  have bound: "unat (cl_offset c) + unat (cl_length c) \<le> scope"
    if "valid_claims scope prev cs" "c \<in> set cs" for scope prev cs c
    using that by (induction cs arbitrary: prev) auto
  have "range_span (clamp_claim (rs_lower_bound rs) red_len c)
      = {?lo + unat (cl_offset c)..<?lo + unat (cl_offset c) + unat (cl_length c)} \<inter> {0..<unat red_len}"
    if c: "c \<in> set (rs_claims rs)" for c
  proof -
    have "unat (cl_offset c) + unat (cl_length c) \<le> unat (rs_upper_bound rs) - ?lo"
      using assms c by (auto simp: wf_report_def intro: bound)
    moreover have "?lo \<le> unat (rs_upper_bound rs)" using assms by (simp add: wf_report_def u64_arith)
    ultimately have le: "?lo + unat (cl_offset c) + unat (cl_length c) \<le> unat (rs_upper_bound rs)" by linarith
    then have start: "unat (sat_add (rs_lower_bound rs) (cl_offset c)) = ?lo + unat (cl_offset c)"
      using unat_le_max [of "rs_upper_bound rs"] by (simp add: unat_sat_add)
    then have "unat (sat_add (sat_add (rs_lower_bound rs) (cl_offset c)) (cl_length c))
        = ?lo + unat (cl_offset c) + unat (cl_length c)"
      using le unat_le_max [of "rs_upper_bound rs"] by (simp add: unat_sat_add)
    with start show ?thesis by (auto simp: clamp_claim_def Let_def range_span_def unat_min)
  qed
  then show ?thesis unfolding claimed_def by auto
qed

definition report_scope :: "report_segment \<Rightarrow> u64 \<Rightarrow> nat set" where
  "report_scope rs red_len = {unat (rs_lower_bound rs)..<unat (rs_upper_bound rs)} \<inter> {0..<unat red_len}"

lemma report_gaps_spec:
  assumes "rs_ok (ss_claims_received s)"
  shows "(\<Union>g\<in>set (report_gaps rs s). range_span g) = report_scope rs (ss_red_len s) - rs_set (ss_claims_received s)"
    and "\<forall>g\<in>set (report_gaps rs s). fst g < snd g \<and> snd g \<le> ss_red_len s"
    and "report_gaps rs s = [] \<longleftrightarrow> report_scope rs (ss_red_len s) \<subseteq> rs_set (ss_claims_received s)"
proof -
  let ?scope = "(min (rs_lower_bound rs) (ss_red_len s), min (rs_upper_bound rs) (ss_red_len s))"
  have scope: "range_span ?scope = report_scope rs (ss_red_len s)"
    by (auto simp: range_span_def report_scope_def unat_min)
  have empty: "fst ?scope < snd ?scope \<longleftrightarrow> report_scope rs (ss_red_len s) \<noteq> {}"
    unfolding scope [symmetric] by (auto simp: range_span_def word_less_nat_alt)
  show set: "(\<Union>g\<in>set (report_gaps rs s). range_span g) = report_scope rs (ss_red_len s) - rs_set (ss_claims_received s)"
    using empty rset.gaps_set [OF assms, of ?scope] unfolding scope by (auto simp: report_gaps_def Let_def)
  show ok: "\<forall>g\<in>set (report_gaps rs s). fst g < snd g \<and> snd g \<le> ss_red_len s"
  proof
    fix g assume g: "g \<in> set (report_gaps rs s)"
    then have lt: "fst g < snd g" using rset.gaps_nonempty [OF assms] by (auto simp: report_gaps_def Let_def split: if_splits)
    then have "unat (snd g) - 1 \<in> range_span g" by (auto simp: range_span_def u64_arith)
    then have "unat (snd g) - 1 < unat (ss_red_len s)" using g set by (auto simp: report_scope_def)
    then have "snd g \<le> ss_red_len s" by (simp add: u64_arith)
    with lt show "fst g < snd g \<and> snd g \<le> ss_red_len s" ..
  qed
  show "report_gaps rs s = [] \<longleftrightarrow> report_scope rs (ss_red_len s) \<subseteq> rs_set (ss_claims_received s)"
  proof
    assume "report_gaps rs s = []"
    then show "report_scope rs (ss_red_len s) \<subseteq> rs_set (ss_claims_received s)" using set by auto
  next
    assume "report_scope rs (ss_red_len s) \<subseteq> rs_set (ss_claims_received s)"
    then have "range_span g = {}" if "g \<in> set (report_gaps rs s)" for g using set that by auto
    moreover have "range_span g \<noteq> {}" if "g \<in> set (report_gaps rs s)" for g
      using ok that by (auto simp: range_span_def u64_arith)
    ultimately show "report_gaps rs s = []" by (cases "report_gaps rs s") auto
  qed
qed

section \<open>Unsticking\<close>

definition unstuck ::
    "engine_id \<Rightarrow> session_id \<Rightarrow> u64 \<Rightarrow> send_session \<Rightarrow> engine \<Rightarrow> data_segment \<Rightarrow> send_session \<Rightarrow> engine \<Rightarrow> bool" where
  "unstuck from sid report_serial s e d s' e' \<longleftrightarrow>
     seg_span d = {unat (ss_red_len s) - 1} \<and> ds_kind d = gap_kind s (ss_red_len s) report_serial
     \<and> slice_get (ss_block s) (unat (ds_offset d)) (unat (ds_offset d) + length (ds_data d)) = Some (ds_data d)
     \<and> (\<exists>ts. e' = e\<lparr>en_outbound := en_outbound e @ data_out from sid [d], en_timers := ts\<rparr>)
     \<and> (\<exists>cps ser. s' = s\<lparr>ss_last_cp_serial := ser, ss_checkpoints := cps\<rparr> \<and> cps \<noteq> [])"

lemma unstick_idle:
  "gaps \<noteq> [] \<or> range_covers (ss_claims_received s) (0, ss_red_len s) \<or> ss_checkpoints s \<noteq> []
   \<Longrightarrow> unstick from sid rser now gaps s e = Some (s, e)"
  by (auto simp: unstick_def)

lemma unstick_unstuck:
  assumes "sending cfg sid s e" "\<not> range_covers (ss_claims_received s) (0, ss_red_len s)" "ss_checkpoints s = []"
  shows "\<exists>d s' e'. unstick from sid rser now [] s e = Some (s', e') \<and> unstuck from sid rser s e d s' e'
    \<and> sending cfg sid s' e'"
proof -
  have s: "length (ss_block s) < 2 ^ 63" "ss_red_len s \<le> vec_len (ss_block s)" "rs_ok (ss_claims_received s)"
    using assms(1) by (simp_all add: sending_def send_ok_def)
  have pos: "0 < unat (ss_red_len s)"
    using assms(2) rset.covers_iff [OF s(3)] by (auto simp: range_span_def)
  let ?off = "sat_sub (ss_red_len s) 1"
  let ?serial = "next_nonzero_serial (ss_last_cp_serial s)"
  let ?eob = "ss_red_len s = vec_len (ss_block s)"
  let ?r = "\<lparr>cpr_serial = ?serial, cpr_report_serial = rser, cpr_offset = ?off, cpr_length = 1,
    cpr_is_eorp = True, cpr_is_eob = ?eob, cpr_retries = 0, cpr_transmitted_at = now\<rparr>"
  have off: "unat ?off = unat (ss_red_len s) - 1" by (simp add: unat_sat_sub)
  have "?off + 1 = ss_red_len s" using pos by (simp add: sat_sub_def u64_arith Suc_leI)
  then have stop: "unat (?off + 1) = unat (ss_red_len s)" by simp
  have len: "unat (ss_red_len s) \<le> length (ss_block s)" using s(1,2) by (simp add: unat_le_vec_len)
  obtain d where d: "slice_get (ss_block s) (unat ?off) (unat (?off + 1)) = Some d" "length d = 1"
    using len pos by (simp add: slice_get_def stop off)
  let ?d = "\<lparr>ds_client_service = ss_client_service s, ds_offset = ?off, ds_kind = gap_kind s (ss_red_len s) rser, ds_data = d\<rparr>"
  let ?e = "push_out from (wire sid (Data ?d)) e"
  let ?se = "record_checkpoint sid ?r now (s\<lparr>ss_last_cp_serial := ?serial\<rparr>) ?e"
  have "0 < ss_red_len s" using pos by (simp add: u64_arith)
  then have run: "unstick from sid rser now [] s e = Some ?se"
    using assms(2,3) d(1) len by (simp add: unstick_def Let_def stop data_wire_def gap_kind_def)
  have "checkpoint_ok cfg (s\<lparr>ss_last_cp_serial := ?serial\<rparr>) (cpr_serial ?r) ?r"
    using pos by (simp add: checkpoint_ok_def off)
  moreover have "sending cfg sid s ?e" using assms(1) by (rule engine_steps)
  ultimately have sent: "sending cfg sid (fst ?se) (snd ?se)"
    using record_checkpoint_sending [OF sending_update] by simp
  have "unat ?off + length d = unat (?off + 1)" using d(2) pos by (simp add: stop off)
  then have "slice_get (ss_block s) (unat (ds_offset ?d)) (unat (ds_offset ?d) + length (ds_data ?d)) = Some (ds_data ?d)"
    using d(1) by simp
  moreover have "seg_span ?d = {unat (ss_red_len s) - 1}" using d(2) by (auto simp: seg_span_def off)
  ultimately have "unstuck from sid rser s e ?d (fst ?se) (snd ?se)"
    unfolding unstuck_def by (auto simp: record_checkpoint_def Let_def push_out_def arm_timer_def)
  with run sent show ?thesis by (metis prod.collapse)
qed

section \<open>A whole report\<close>

text \<open>The session and the engine when the claims of a fresh report come to be recorded.\<close>

lemma retire_checkpoint_sending:
  assumes "sending cfg sid s e" "retire_checkpoint from ser now s e = (s', e')"
  shows "sending cfg sid s' e'"
proof -
  have "send_ok cfg sid (s\<lparr>ss_checkpoints := bt_remove ser (ss_checkpoints s)\<rparr>)"
  proof -
    have "checkpoint_ok cfg (s\<lparr>ss_checkpoints := c\<rparr>) = checkpoint_ok cfg s" for c
      by (simp add: checkpoint_ok_def [abs_def])
    moreover have "bt.entries (checkpoint_ok cfg s) (bt_remove ser (ss_checkpoints s))"
      using assms(1) by (intro bt.entries_del) (simp add: sending_def send_ok_def)
    ultimately show ?thesis using assms(1) by (simp add: sending_def send_ok_def)
  qed
  with assms show ?thesis
    by (auto simp: retire_checkpoint_def sending_def split: option.splits if_splits intro: engine_steps)
qed

lemma retire_checkpoint_frame:
  assumes "retire_checkpoint from ser now s e = (s', e')"
  shows "\<exists>cps. s' = s\<lparr>ss_checkpoints := cps\<rparr>" "\<exists>pt. e' = e\<lparr>en_peer_timings := pt\<rparr>"
proof -
  have "\<exists>cps. s = s\<lparr>ss_checkpoints := cps\<rparr>" by (intro exI [of _ "ss_checkpoints s"]) simp
  moreover have "\<exists>pt. e = e\<lparr>en_peer_timings := pt\<rparr>" by (intro exI [of _ "en_peer_timings e"]) simp
  ultimately show "\<exists>cps. s' = s\<lparr>ss_checkpoints := cps\<rparr>" "\<exists>pt. e' = e\<lparr>en_peer_timings := pt\<rparr>"
    using assms by (auto simp: retire_checkpoint_def update_peer_rtt_sample_def split: option.splits if_splits)
qed

lemma send_ok_claims:
  assumes "send_ok cfg sid s" "rs_ok cl" "rs_set cl \<subseteq> {0..<unat (ss_red_len s)}"
  shows "send_ok cfg sid (s\<lparr>ss_claims_received := cl\<rparr>)"
  using assms by (simp add: send_ok_def checkpoint_ok_def [abs_def])

lemma send_ok_seen: "send_ok cfg sid s \<Longrightarrow> send_ok cfg sid (s\<lparr>ss_report_serials_seen := bs_insert n (ss_report_serials_seen s)\<rparr>)"
  by (simp add: send_ok_def checkpoint_ok_def [abs_def])

text \<open>The state after the claims: \<open>resent\<close> says what goes out for them and what is kept.\<close>

definition resent ::
    "engine_id \<Rightarrow> session_id \<Rightarrow> report_segment \<Rightarrow> send_session \<Rightarrow> engine \<Rightarrow> data_segment list \<Rightarrow> bool" where
  "resent from sid rs s e ds \<longleftrightarrow>
     (let missing = report_scope rs (ss_red_len s) - rs_set (ss_claims_received s) in
      (\<Union>d\<in>set ds. seg_span d) = (if missing = {} \<and> ds \<noteq> [] then {unat (ss_red_len s) - 1} else missing)
      \<and> (\<forall>d\<in>set ds. slice_get (ss_block s) (unat (ds_offset d)) (unat (ds_offset d) + length (ds_data d)) = Some (ds_data d)
           \<and> length (ds_data d) \<le> unat (segment_mtu e))
      \<and> (ds \<noteq> [] \<longrightarrow> (\<exists>stop. kinds_ok (gap_kind s stop (rs_report_serial rs)) ds)))"

lemma tiles_slices:
  "tiles B a ds b \<Longrightarrow> d \<in> set ds \<Longrightarrow> slice_get B (unat (ds_offset d)) (unat (ds_offset d) + length (ds_data d)) = Some (ds_data d)"
  by (induction ds arbitrary: a) auto

lemma gaps_sent_slices:
  assumes "gaps_sent from sid rser gaps s e dss s' e'" "d \<in> set (concat dss)"
  shows "slice_get (ss_block s) (unat (ds_offset d)) (unat (ds_offset d) + length (ds_data d)) = Some (ds_data d)"
proof -
  have "list_all2 (\<lambda>g ds. tiles (ss_block s) (unat (fst g)) ds (unat (snd g))) gaps dss"
    using assms(1) by (simp add: gaps_sent_def)
  then show ?thesis using assms(2) by (induction rule: list_all2_induct) (auto intro: tiles_slices)
qed

text \<open>The two loops after the claims, for a session that is not complete yet.\<close>

lemma resend_phase:
  assumes run: "sending cfg sid s e" and todo: "\<not> range_covers (ss_claims_received s) (0, ss_red_len s)"
  shows "\<exists>s1 e1 s2 e2 ds. resend_gaps from sid (rs_report_serial rs) now (report_gaps rs s) s e = Some (s1, e1)
    \<and> unstick from sid (rs_report_serial rs) now (report_gaps rs s) s1 e1 = Some (s2, e2)
    \<and> sending cfg sid s2 e2 \<and> resent from sid rs s e ds
    \<and> (\<exists>ts. e2 = e\<lparr>en_outbound := en_outbound e @ data_out from sid ds, en_timers := ts\<rparr>)
    \<and> (\<exists>cps ser. s2 = s\<lparr>ss_last_cp_serial := ser, ss_checkpoints := cps\<rparr> \<and> cps \<noteq> [])"
proof -
  have ok: "rs_ok (ss_claims_received s)" and blk: "length (ss_block s) < 2 ^ 63" "ss_red_len s \<le> vec_len (ss_block s)"
    using run by (simp_all add: sending_def send_ok_def)
  let ?gaps = "report_gaps rs s" and ?rser = "rs_report_serial rs"
  note gaps = report_gaps_spec [OF ok, of rs]
  obtain dss s1 e1 where first: "resend_gaps from sid ?rser now ?gaps s e = Some (s1, e1)"
    "gaps_sent from sid ?rser ?gaps s e dss s1 e1" "sending cfg sid s1 e1"
    using resend_gaps_sent [OF run gaps(2)] by blast
  have starts: "\<forall>g\<in>set ?gaps. unat (fst g) \<le> length (ss_block s)"
  proof
    fix g assume "g \<in> set ?gaps"
    then have "fst g \<le> vec_len (ss_block s)" using gaps(2) blk(2) by (meson order_less_imp_le order_trans)
    then show "unat (fst g) \<le> length (ss_block s)" using blk(1) by (simp add: unat_le_vec_len)
  qed
  note span = gaps_sent_span [OF first(2) starts, unfolded gaps(1)]
  show ?thesis
  proof (cases "?gaps = []")
    case True
    then have s1: "s1 = s" "e1 = e" using first(2) by (auto simp: gaps_sent_def)
    have none: "report_scope rs (ss_red_len s) - rs_set (ss_claims_received s) = {}" using True gaps(3) by blast
    show ?thesis
    proof (cases "ss_checkpoints s = []")
      case False
      have "resent from sid rs s e []" using none by (simp add: resent_def)
      moreover have "unstick from sid ?rser now ?gaps s e = Some (s, e)" using False by (intro unstick_idle) simp
      moreover have "e = e\<lparr>en_outbound := en_outbound e @ data_out from sid [], en_timers := en_timers e\<rparr>"
        "s = s\<lparr>ss_last_cp_serial := ss_last_cp_serial s, ss_checkpoints := ss_checkpoints s\<rparr>" by simp_all
      ultimately show ?thesis using first run False unfolding s1 by blast
    next
      case empty: True
      obtain d s2 e2 where un: "unstick from sid ?rser now [] s e = Some (s2, e2)" "unstuck from sid ?rser s e d s2 e2"
        "sending cfg sid s2 e2"
        using unstick_unstuck [OF run todo empty] by blast
      have "card (seg_span d) = 1" using un(2) by (simp add: unstuck_def)
      then have "length (ds_data d) = 1" by (simp add: seg_span_def)
      then have "length (ds_data d) \<le> unat (segment_mtu e)" using segment_mtu_pos [of e] by simp
      then have "resent from sid rs s e [d]"
        using un(2) none by (auto simp: resent_def unstuck_def kinds_ok_def Let_def)
      moreover have "resend_gaps from sid ?rser now ?gaps s e = Some (s, e)" using first(1) by (simp add: s1)
      moreover have "unstick from sid ?rser now ?gaps s e = Some (s2, e2)" using un(1) True by simp
      moreover have "\<exists>ts. e2 = e\<lparr>en_outbound := en_outbound e @ data_out from sid [d], en_timers := ts\<rparr>"
        "\<exists>cps ser. s2 = s\<lparr>ss_last_cp_serial := ser, ss_checkpoints := cps\<rparr> \<and> cps \<noteq> []"
        using un(2) unfolding unstuck_def by blast+
      ultimately show ?thesis using un(3) by blast
    qed
  next
    case False
    have some: "report_scope rs (ss_red_len s) - rs_set (ss_claims_received s) \<noteq> {}" using False gaps(3) by blast
    have idle: "unstick from sid ?rser now ?gaps s1 e1 = Some (s1, e1)" using False by (intro unstick_idle) simp
    have kinds: "kinds_ok (gap_kind s (snd (last ?gaps)) ?rser) (concat dss)" "sized e s (concat dss)"
      using first(2) False by (simp_all add: gaps_sent_def)
    have "resent from sid rs s e (concat dss)"
      unfolding resent_def Let_def
      using span some gaps_sent_slices [OF first(2)] kinds by (auto simp: sized_def)
    then show ?thesis using first idle False unfolding gaps_sent_def by blast
  qed
qed

lemma apply_report_spec:
  fixes rs :: report_segment
  assumes run: "sending cfg sid s e"
  defines "C \<equiv> rs_set (ss_claims_received s) \<union> claimed rs (ss_red_len s)"
  shows "if {0..<unat (ss_red_len s)} \<subseteq> C
    then apply_report from sid rs now s e = Some (complete_send sid e)
    else \<exists>ds s' ts cl cps ser. apply_report from sid rs now s e
        = Some (put_send sid s' (e\<lparr>en_outbound := en_outbound e @ data_out from sid ds, en_timers := ts\<rparr>))
      \<and> fine cfg (put_send sid s' (e\<lparr>en_outbound := en_outbound e @ data_out from sid ds, en_timers := ts\<rparr>))
      \<and> s' = s\<lparr>ss_claims_received := cl, ss_last_cp_serial := ser, ss_checkpoints := cps\<rparr> \<and> cps \<noteq> []
      \<and> rs_ok cl \<and> rs_set cl = C \<and> resent from sid rs (s\<lparr>ss_claims_received := cl\<rparr>) e ds"
proof -
  let ?cl = "fold (record_claim (rs_lower_bound rs) (ss_red_len s)) (rs_claims rs) (ss_claims_received s)"
  let ?s = "s\<lparr>ss_claims_received := ?cl\<rparr>"
  have s: "send_ok cfg sid s" using run by (simp add: sending_def)
  then have old: "rs_ok (ss_claims_received s)" "rs_set (ss_claims_received s) \<subseteq> {0..<unat (ss_red_len s)}" "ss_eob_sent s"
    by (simp_all add: send_ok_def)
  have cl: "rs_ok ?cl" "rs_set ?cl = C"
    using record_claim_fold [OF old(1)] by (simp_all add: C_def claimed_def)
  have "C \<subseteq> {0..<unat (ss_red_len s)}" using old(2) clamp_claim_span unfolding C_def claimed_def by blast
  then have "send_ok cfg sid ?s" using s cl by (intro send_ok_claims) simp_all
  then have run': "sending cfg sid ?s e" using run by (simp add: sending_def)
  have covers: "range_covers ?cl (0, ss_red_len s) \<longleftrightarrow> {0..<unat (ss_red_len s)} \<subseteq> C"
    using rset.covers_iff [OF cl(1)] by (simp add: cl(2) range_span_def)
  show ?thesis
  proof (cases "{0..<unat (ss_red_len s)} \<subseteq> C")
    case True
    then have "report_scope rs (ss_red_len s) \<subseteq> C" by (auto simp: report_scope_def)
    then have "report_gaps rs ?s = []" using report_gaps_spec(3) [of ?s rs] cl by simp
    moreover have "is_complete ?s" using True covers old(3) by (simp add: is_complete_def)
    ultimately show ?thesis using True covers by (simp add: apply_report_def Let_def unstick_idle)
  next
    case False
    then have todo: "\<not> range_covers (ss_claims_received ?s) (0, ss_red_len ?s)" using covers by simp
    from resend_phase [OF run' todo, of "from" rs now]
    obtain s1 e1 s2 e2 ds ts cps ser where phase:
      "resend_gaps from sid (rs_report_serial rs) now (report_gaps rs ?s) ?s e = Some (s1, e1)"
      "unstick from sid (rs_report_serial rs) now (report_gaps rs ?s) s1 e1 = Some (s2, e2)"
      "sending cfg sid s2 e2" "resent from sid rs ?s e ds"
      "e2 = e\<lparr>en_outbound := en_outbound e @ data_out from sid ds, en_timers := ts\<rparr>"
      "s2 = ?s\<lparr>ss_last_cp_serial := ser, ss_checkpoints := cps\<rparr>" "cps \<noteq> []"
      by blast
    have "\<not> is_complete s2" using todo phase(6) by (simp add: is_complete_def)
    then have "apply_report from sid rs now s e = Some (put_send sid s2 e2)"
      using phase(1,2) by (simp add: apply_report_def Let_def)
    moreover have "fine cfg (put_send sid s2 e2)" using phase(3) by (rule engine_steps)
    ultimately show ?thesis
      unfolding if_not_P [OF False]
      using phase(4-7) cl
      by (intro exI [of _ ds] exI [of _ s2] exI [of _ ts] exI [of _ ?cl] exI [of _ cps] exI [of _ ser]) simp
  qed
qed

lemma handle_incoming_report_fine:
  assumes "fine cfg e"
  shows "\<exists>e'. handle_incoming_report from sid rs now e = Some e' \<and> fine cfg e'"
proof -
  let ?e = "disarm_timer (checkpoint_key sid (rs_checkpoint_serial rs))
    (push_out from (wire sid (ReportAck (rs_report_serial rs))) e)"
  have fine: "fine cfg ?e" using assms by (auto intro: engine_steps)
  show ?thesis
  proof (cases "bt_get (en_send_sessions ?e) sid")
    case None
    then show ?thesis using fine by (auto simp: handle_incoming_report_def Let_def)
  next
    case (Some s)
    let ?s = "s\<lparr>ss_last_activity := now\<rparr>" and ?e1 = "touch_inactivity sid True now ?e"
    obtain s1 e1 where retire: "retire_checkpoint from (rs_checkpoint_serial rs) now ?s ?e1 = (s1, e1)" by fastforce
    have "send_ok cfg sid s" using fine Some send_okD [of ?e sid s] by (simp add: fine_def)
    then have "sending cfg sid ?s ?e1" using fine by (auto simp: sending_def intro: engine_steps)
    then have s1: "sending cfg sid s1 e1" using retire by (rule retire_checkpoint_sending)
    let ?s2 = "s1\<lparr>ss_report_serials_seen := bs_insert (rs_report_serial rs) (ss_report_serials_seen s1)\<rparr>"
    have s2: "sending cfg sid ?s2 e1" using s1 by (simp add: sending_def send_ok_seen)
    have "fine cfg (put_send sid s1 e1)" using s1 by (rule engine_steps)
    moreover have "fine cfg (complete_send sid e1)"
      using s1 unfolding complete_send_def sending_def by (blast intro: engine_steps)
    then have "\<exists>e'. apply_report from sid rs now ?s2 e1 = Some e' \<and> fine cfg e'"
      using apply_report_spec [OF s2, of rs "from" now] by (auto split: if_splits)
    ultimately show ?thesis
      using fine Some retire by (auto simp: handle_incoming_report_def Let_def)
  qed
qed

lemma handle_cp_timeout_fine:
  assumes "fine cfg e"
  shows "\<exists>e'. handle_cp_timeout sid serial now e = Some e' \<and> fine cfg e'"
proof (cases "bt_get (en_send_sessions e) sid")
  case None
  then show ?thesis using assms by (simp add: handle_cp_timeout_def)
next
  case (Some s)
  have cfg: "en_config e = cfg" using assms by (simp add: fine_def)
  have s: "send_ok cfg sid s" using assms Some send_okD [of e sid s] by (simp add: fine_def)
  have cancel: "sending cfg sid (s\<lparr>ss_cancel_reason := Some Rlexc, ss_cancel_retries := 1\<rparr>) e"
    using s assms by (simp add: sending_def)
  show ?thesis
  proof (cases "bt_get (ss_checkpoints s) serial")
    case None
    then show ?thesis using assms Some by (simp add: handle_cp_timeout_def)
  next
    case rec: (Some cp)
    have cp: "checkpoint_ok cfg s serial cp" using s rec by (auto simp: send_ok_def dest: bt.entriesD)
    then have stop: "unat (cpr_offset cp) + unat (cpr_length cp) \<le> unat (ss_red_len s)" by (simp add: checkpoint_ok_def)
    have "unat (cpr_offset cp + cpr_length cp) = unat (cpr_offset cp) + unat (cpr_length cp)"
      using le_unat_less_2_64 [OF stop] by (intro unat_add_exact) simp
    moreover have "length (ss_block s) < 2 ^ 63" "ss_red_len s \<le> vec_len (ss_block s)"
      using s by (simp_all add: send_ok_def)
    then have "unat (ss_red_len s) \<le> length (ss_block s)" by (simp add: unat_le_vec_len)
    ultimately obtain data where data:
      "slice_get (ss_block s) (unat (cpr_offset cp)) (unat (cpr_offset cp + cpr_length cp)) = Some data"
      using stop by (simp add: slice_get_def)
    let ?cp = "cp\<lparr>cpr_retries := cpr_retries cp + 1\<rparr>"
    have "sending cfg sid (s\<lparr>ss_checkpoints := bt_insert serial ?cp (ss_checkpoints s)\<rparr>) e"
      if "cpr_retries cp < ec_checkpoint_rtx_limit cfg"
    proof -
      have "checkpoint_ok cfg s serial ?cp"
        using cp inc_le [OF that] by (simp add: checkpoint_ok_def add.commute)
      then show ?thesis using s assms by (simp add: sending_def send_ok_checkpoint)
    qed
    then show ?thesis
      using Some rec data cancel
      by (auto simp: handle_cp_timeout_def Let_def cfg intro!: engine_steps)
  qed
qed

section \<open>Properties\<close>

definition report_ack :: "session_id \<Rightarrow> report_segment \<Rightarrow> bytes" where
  "report_ack sid rs = encode_to_vec (wire sid (ReportAck (rs_report_serial rs)))"

text \<open>The octets known to have arrived once a report is recorded.\<close>

definition claims_after :: "send_session \<Rightarrow> report_segment \<Rightarrow> nat set" where
  "claims_after s rs = rs_set (ss_claims_received s) \<union> claimed rs (ss_red_len s)"

text \<open>A report is fresh when its session is active and its serial was not seen.\<close>

definition fresh_report :: "engine \<Rightarrow> session_id \<Rightarrow> send_session \<Rightarrow> report_segment \<Rightarrow> bool" where
  "fresh_report e sid s rs \<longleftrightarrow>
     bt_get (en_send_sessions e) sid = Some s \<and> ss_cancel_reason s = None
     \<and> rs_report_serial rs \<notin> set (ss_report_serials_seen s)"

lemma fresh_report_step:
  assumes "fine cfg e" "fresh_report e sid s rs"
  shows "\<exists>s1 e1. handle_incoming_report from sid rs now e = apply_report from sid rs now s1 e1
    \<and> sending cfg sid s1 e1 \<and> ss_claims_received s1 = ss_claims_received s \<and> ss_red_len s1 = ss_red_len s
    \<and> ss_block s1 = ss_block s \<and> en_outbound e1 = en_outbound e @ [(from, report_ack sid rs)]
    \<and> en_notices e1 = en_notices e \<and> en_send_sessions e1 = en_send_sessions e
    \<and> en_recv_sessions e1 = en_recv_sessions e \<and> en_config e1 = en_config e"
proof -
  let ?e = "disarm_timer (checkpoint_key sid (rs_checkpoint_serial rs))
    (push_out from (wire sid (ReportAck (rs_report_serial rs))) e)"
  let ?s = "s\<lparr>ss_last_activity := now\<rparr>" and ?e1 = "touch_inactivity sid True now ?e"
  obtain s1 e1 where retire: "retire_checkpoint from (rs_checkpoint_serial rs) now ?s ?e1 = (s1, e1)" by fastforce
  have s: "bt_get (en_send_sessions e) sid = Some s" "ss_cancel_reason s = None"
    "rs_report_serial rs \<notin> set (ss_report_serials_seen s)" using assms(2) by (simp_all add: fresh_report_def)
  have "send_ok cfg sid s" using assms(1) s(1) send_okD [of e sid s] by (simp add: fine_def)
  then have "sending cfg sid ?s ?e1" using assms(1) by (auto simp: sending_def intro!: engine_steps)
  then have s1: "sending cfg sid s1 e1" using retire by (rule retire_checkpoint_sending)
  obtain cps pt where frame: "s1 = ?s\<lparr>ss_checkpoints := cps\<rparr>" "e1 = ?e1\<lparr>en_peer_timings := pt\<rparr>"
    using retire_checkpoint_frame [OF retire] by blast
  let ?s2 = "s1\<lparr>ss_report_serials_seen := bs_insert (rs_report_serial rs) (ss_report_serials_seen s1)\<rparr>"
  have "handle_incoming_report from sid rs now e = apply_report from sid rs now ?s2 e1"
    using s retire frame(1) by (simp add: handle_incoming_report_def Let_def)
  moreover have "sending cfg sid ?s2 e1" using s1 by (simp add: sending_def send_ok_seen)
  ultimately show ?thesis
    by (intro exI [of _ ?s2] exI [of _ e1]) (simp add: frame report_ack_def)
qed

text \<open>A sender of four red octets, and reports that claim all of them and the first one.\<close>

definition sample_session :: send_session where
  "sample_session = (send_session_new (SessionId 1 1) 2 7 [10, 20, 30, 40] 4 0 50)\<lparr>ss_eob_sent := True\<rparr>"

definition sample_sender :: engine where
  "sample_sender = put_send (SessionId 1 1) sample_session (engine_new default_config)"

definition sample_report :: "u64 \<Rightarrow> report_segment" where
  "sample_report n = \<lparr>rs_report_serial = 9, rs_checkpoint_serial = 1, rs_upper_bound = 4, rs_lower_bound = 0,
     rs_claims = [\<lparr>cl_offset = 0, cl_length = n\<rparr>]\<rparr>"

lemma sample_sender_ok: "engine_ok sample_sender"
proof -
  have "send_ok default_config (SessionId 1 1) sample_session"
    by (simp add: send_ok_def sample_session_def send_session_new_def default_config_def vec_len_def
        range_set_new_def bt.entries_empty)
  then show ?thesis
    unfolding sample_sender_def
    by (intro engine_steps engine_ok_new) (simp_all add: engine_new_def, simp add: default_config_def)
qed

lemma sample_report_fresh: "fresh_report sample_sender (SessionId 1 1) sample_session (sample_report n)"
  by (simp add: fresh_report_def sample_sender_def sample_session_def send_session_new_def sample_report_def
      engine_new_def bt_get_def)

lemma sample_claims: "n \<le> 4 \<Longrightarrow> claims_after sample_session (sample_report n) = {0..<unat n}"
  by (simp add: claims_after_def claimed_def sample_session_def send_session_new_def sample_report_def range_set_new_def
      clamp_claim_def sat_add_def range_span_def min_absorb1)

text \<open>C13: a fresh report that leaves nothing of the red part unclaimed is acknowledged and ends the session: the
  completion is notified, the session and all its timers are gone, and nothing is retransmitted.\<close>

theorem report_completes:
  assumes "engine_ok e" and "fresh_report e sid s rs" and "{0..<unat (ss_red_len s)} \<subseteq> claims_after s rs"
  shows "\<exists>e'. handle_incoming_report from sid rs now e = Some e' \<and> engine_ok e'
    \<and> en_outbound e' = en_outbound e @ [(from, report_ack sid rs)]
    \<and> en_notices e' = en_notices e @ [TransmissionSessionCompleted sid]
    \<and> bt_get (en_send_sessions e') sid = None
    \<and> (\<forall>kind. tt_view (en_timers e') (TimerKey sid kind) = None)"
proof -
  have fine: "fine (en_config e) e" using assms(1) by (simp add: fine_def)
  from fresh_report_step [OF this assms(2), of "from" now] obtain s1 e1 where step:
    "handle_incoming_report from sid rs now e = apply_report from sid rs now s1 e1" "sending (en_config e) sid s1 e1"
    "ss_claims_received s1 = ss_claims_received s" "ss_red_len s1 = ss_red_len s"
    "en_outbound e1 = en_outbound e @ [(from, report_ack sid rs)]" "en_notices e1 = en_notices e" by blast
  have "{0..<unat (ss_red_len s1)} \<subseteq> rs_set (ss_claims_received s1) \<union> claimed rs (ss_red_len s1)"
    using assms(3) step(3,4) by (simp add: claims_after_def)
  then have run: "handle_incoming_report from sid rs now e = Some (complete_send sid e1)"
    using apply_report_spec [OF step(2), of rs "from" now] by (simp add: step(1))
  have "tt_view (en_timers (complete_send sid e1)) (TimerKey sid kind) = None" for kind
    by (simp add: complete_send_def timers.session_silent)
  moreover have "engine_ok (complete_send sid e1)"
    using step(2) unfolding complete_send_def sending_def fine_def by (blast intro: engine_steps)
  ultimately show ?thesis using run step(5,6) by (simp add: complete_send_def)
qed

theorem report_completes_witness:
  "\<exists>e'. handle_incoming_report 2 (SessionId 1 1) (sample_report 4) 60 sample_sender = Some e' \<and> engine_ok e'
    \<and> en_outbound e' = en_outbound sample_sender @ [(2, report_ack (SessionId 1 1) (sample_report 4))]
    \<and> en_notices e' = en_notices sample_sender @ [TransmissionSessionCompleted (SessionId 1 1)]
    \<and> bt_get (en_send_sessions e') (SessionId 1 1) = None
    \<and> (\<forall>kind. tt_view (en_timers e') (TimerKey (SessionId 1 1) kind) = None)"
proof (rule report_completes [OF sample_sender_ok sample_report_fresh])
  have "ss_red_len sample_session = 4" by (simp add: sample_session_def send_session_new_def)
  then show "{0..<unat (ss_red_len sample_session)} \<subseteq> claims_after sample_session (sample_report 4)"
    by (simp add: sample_claims)
qed

text \<open>C12: a fresh report that leaves red octets unclaimed is acknowledged and the session goes on with exactly the
  claims so far.  If octets of the reported scope are missing, the data segments queued carry just
  those octets of the block, in segments of at most the configured size; the last one is a checkpoint
  that echoes the report.  If none is missing, at most one octet goes out, as a checkpoint.  Either
  way a checkpoint is pending afterwards: the session cannot come to a standstill.\<close>

theorem report_retransmits_gaps:
  assumes "engine_ok e" and "fresh_report e sid s rs" and "\<not> {0..<unat (ss_red_len s)} \<subseteq> claims_after s rs"
  shows "\<exists>e' ds s'. handle_incoming_report from sid rs now e = Some e' \<and> engine_ok e'
    \<and> en_outbound e' = en_outbound e @ (from, report_ack sid rs) # data_out from sid ds
    \<and> en_notices e' = en_notices e
    \<and> bt_get (en_send_sessions e') sid = Some s' \<and> ss_block s' = ss_block s
    \<and> rs_set (ss_claims_received s') = claims_after s rs \<and> ss_checkpoints s' \<noteq> []
    \<and> (let missing = report_scope rs (ss_red_len s) - claims_after s rs in
       (\<Union>d\<in>set ds. seg_span d) = (if missing = {} \<and> ds \<noteq> [] then {unat (ss_red_len s) - 1} else missing))
    \<and> (\<forall>d\<in>set ds. slice_get (ss_block s) (unat (ds_offset d)) (unat (ds_offset d) + length (ds_data d)) = Some (ds_data d)
         \<and> length (ds_data d) \<le> unat (segment_mtu e))
    \<and> (ds \<noteq> [] \<longrightarrow> (\<forall>d\<in>set (butlast ds). ds_kind d = Red)
         \<and> (\<exists>cp. kind_checkpoint (ds_kind (last ds)) = Some cp \<and> cp_report_serial cp = rs_report_serial rs))"
proof -
  have fine: "fine (en_config e) e" using assms(1) by (simp add: fine_def)
  from fresh_report_step [OF this assms(2), of "from" now] obtain s1 e1 where step:
    "handle_incoming_report from sid rs now e = apply_report from sid rs now s1 e1" "sending (en_config e) sid s1 e1"
    and s1: "ss_claims_received s1 = ss_claims_received s" "ss_red_len s1 = ss_red_len s" "ss_block s1 = ss_block s"
    and e1: "en_outbound e1 = en_outbound e @ [(from, report_ack sid rs)]" "en_notices e1 = en_notices e"
      "en_config e1 = en_config e" by blast
  have C: "rs_set (ss_claims_received s1) \<union> claimed rs (ss_red_len s) = claims_after s rs"
    by (simp add: claims_after_def s1)
  from apply_report_spec [OF step(2), of rs "from" now, unfolded s1(2), unfolded C if_not_P [OF assms(3)]]
  obtain ds s' ts cl cps ser where applied: "apply_report from sid rs now s1 e1
        = Some (put_send sid s' (e1\<lparr>en_outbound := en_outbound e1 @ data_out from sid ds, en_timers := ts\<rparr>))"
    and ok: "fine (en_config e) (put_send sid s' (e1\<lparr>en_outbound := en_outbound e1 @ data_out from sid ds, en_timers := ts\<rparr>))"
    and s': "s' = s1\<lparr>ss_claims_received := cl, ss_last_cp_serial := ser, ss_checkpoints := cps\<rparr>" "cps \<noteq> []"
      "rs_set cl = claims_after s rs" and out: "resent from sid rs (s1\<lparr>ss_claims_received := cl\<rparr>) e1 ds"
    by blast
  have mtu: "segment_mtu e1 = segment_mtu e" by (simp add: segment_mtu_def e1(3))
  have kinds: "\<exists>cp. kind_checkpoint k = Some cp \<and> cp_report_serial cp = rs_report_serial rs"
    if "k = gap_kind t stop (rs_report_serial rs)" for k t stop
    by (simp add: that gap_kind_def checkpoint_kind_def)
  show ?thesis
    using step(1) applied ok out
    by (intro exI [of _ "put_send sid s' (e1\<lparr>en_outbound := en_outbound e1 @ data_out from sid ds, en_timers := ts\<rparr>)"]
        exI [of _ ds] exI [of _ s'])
      (auto simp: fine_def e1 s' s1 mtu resent_def Let_def kinds_ok_def dest!: kinds)
qed

theorem report_retransmits_gaps_witness:
  "\<exists>e' ds. handle_incoming_report 2 (SessionId 1 1) (sample_report 1) 60 sample_sender = Some e' \<and> ds \<noteq> []
    \<and> en_outbound e' = en_outbound sample_sender @ (2, report_ack (SessionId 1 1) (sample_report 1)) # data_out 2 (SessionId 1 1) ds
    \<and> (\<Union>d\<in>set ds. seg_span d) = {1..<4}"
proof -
  have red: "ss_red_len sample_session = 4" by (simp add: sample_session_def send_session_new_def)
  have claims: "claims_after sample_session (sample_report 1) = {0..<1}" by (simp add: sample_claims)
  have scope: "report_scope (sample_report 1) 4 = {0..<4}" by (auto simp: report_scope_def sample_report_def)
  have "\<not> {0..<unat (ss_red_len sample_session)} \<subseteq> claims_after sample_session (sample_report 1)"
    unfolding claims red by (simp add: subset_iff) (intro exI [of _ 1], simp)
  from report_retransmits_gaps [OF sample_sender_ok sample_report_fresh this, of 2 60, unfolded claims red scope]
  obtain e' ds where run: "handle_incoming_report 2 (SessionId 1 1) (sample_report 1) 60 sample_sender = Some e'"
    "en_outbound e' = en_outbound sample_sender @ (2, report_ack (SessionId 1 1) (sample_report 1)) # data_out 2 (SessionId 1 1) ds"
    and span: "let missing = {0..<4} - {0..<1 :: nat} in
       (\<Union>d\<in>set ds. seg_span d) = (if missing = {} \<and> ds \<noteq> [] then {unat (4 :: u64) - 1} else missing)" by blast
  have missing: "{0..<4} - {0..<1 :: nat} = {1..<4}" by auto
  have "(\<Union>d\<in>set ds. seg_span d) = {1..<4}" using span unfolding missing by simp
  moreover from this have "ds \<noteq> []" by auto
  ultimately show ?thesis using run by blast
qed

end
