(* ===== verification/Engine_Run.thy ===== *)
theory Engine_Run
  imports Retransmission
begin

text \<open>
  The engine over whole executions: the events an application drives it with, the states they
  reach, and the properties that hold in all of them.
\<close>

section \<open>Events\<close>

datatype event =
    Request engine_id u64 bytes u64 u64
  | Incoming engine_id bytes u64
  | Tick u64
  | PollOutput
  | PollNotice
  | SetTiming engine_id u64 u64

fun apply_event :: "event \<Rightarrow> engine \<Rightarrow> engine option" where
  "apply_event (Request peer cs block red_len now) e =
     map_option snd (request_transmission peer cs block red_len now e)"
| "apply_event (Incoming from datagram now) e = map_option snd (handle_incoming_segment from datagram now e)"
| "apply_event (Tick now) e = handle_timer_tick now e"
| "apply_event PollOutput e = Some (snd (poll_output e))"
| "apply_event PollNotice e = Some (snd (poll_notice e))"
| "apply_event (SetTiming peer rtt margin) e = Some (set_peer_timing peer rtt margin e)"

text \<open>Rust bounds the size of every buffer.\<close>

fun event_small :: "event \<Rightarrow> bool" where
  "event_small (Request peer cs block red_len now) \<longleftrightarrow> length block < 2 ^ 63"
| "event_small (Incoming from datagram now) \<longleftrightarrow> length datagram < 2 ^ 63"
| "event_small _ \<longleftrightarrow> True"

fun run_events :: "event list \<Rightarrow> engine \<Rightarrow> engine option" where
  "run_events [] e = Some e"
| "run_events (ev # evs) e = (case apply_event ev e of None \<Rightarrow> None | Some e \<Rightarrow> run_events evs e)"

inductive reachable :: "engine_config \<Rightarrow> engine \<Rightarrow> bool" for cfg where
  start: "reachable cfg (engine_new cfg)"
| event: "reachable cfg e \<Longrightarrow> event_small ev \<Longrightarrow> apply_event ev e = Some e' \<Longrightarrow> reachable cfg e'"

section \<open>Every operation keeps the invariant\<close>

lemma handle_incoming_cancel_fine:
  "fine cfg e \<Longrightarrow> fine cfg (handle_incoming_cancel from sid reason b e)"
  by (auto simp: handle_incoming_cancel_def Let_def intro!: engine_steps)

lemma handle_incoming_cancel_ack_fine: "fine cfg e \<Longrightarrow> fine cfg (handle_incoming_cancel_ack sid b e)"
  by (auto simp: handle_incoming_cancel_ack_def Let_def intro!: engine_steps)

lemma handle_inactivity_timeout_fine: "fine cfg e \<Longrightarrow> fine cfg (handle_inactivity_timeout sid b now e)"
  by (auto simp: handle_inactivity_timeout_def Let_def intro!: engine_steps split: option.split)

lemma fine_send: "fine cfg e \<Longrightarrow> bt_get (en_send_sessions e) sid = Some s \<Longrightarrow> send_ok cfg sid s"
  using send_okD [of e sid s] by (simp add: fine_def)

lemma handle_cancel_timeout_fine:
  assumes "fine cfg e"
  shows "fine cfg (handle_cancel_timeout sid b now e)"
proof (cases b)
  case True
  have "fine cfg (put_send sid (s\<lparr>ss_cancel_retries := n\<rparr>) e)"
    if "bt_get (en_send_sessions e) sid = Some s" for s n
    using assms fine_send [OF assms that] by (intro fine_steps) simp_all
  then show ?thesis
    using assms True by (auto simp: handle_cancel_timeout_def Let_def intro!: fine_steps(1-11) split: option.split)
next
  case False
  have "fine cfg (put_recv sid (s\<lparr>rv_cancel_retries := n\<rparr>) e)"
    if "bt_get (en_recv_sessions e) sid = Some s" for s n
    using running_lookup [OF assms that] by (intro fine_steps) (simp add: running_def)
  then show ?thesis
    using assms False by (auto simp: handle_cancel_timeout_def Let_def intro!: fine_steps(1-11) split: option.split)
qed

lemma handle_timeout_fine:
  assumes "fine cfg e"
  shows "\<exists>e'. handle_timeout now key e = Some e' \<and> fine cfg e'"
  using assms handle_cp_timeout_fine [OF assms] handle_rs_timeout_fine handle_cancel_timeout_fine
    handle_inactivity_timeout_fine
  by (cases "tk_kind key") (auto simp: handle_timeout_def)

lemma handle_expired_fine:
  "fine cfg e \<Longrightarrow> \<exists>e'. handle_expired now keys e = Some e' \<and> fine cfg e'"
proof (induction keys arbitrary: e)
  case (Cons key keys)
  obtain e1 where "handle_timeout now key e = Some e1" "fine cfg e1"
    using handle_timeout_fine [OF Cons.prems] by blast
  with Cons.IH show ?case by simp
qed simp

lemma handle_timer_tick_fine:
  assumes "fine cfg e"
  shows "\<exists>e'. handle_timer_tick now e = Some e' \<and> fine cfg e'"
proof -
  obtain keys ts where drain: "tt_drain now (en_timers e) = (keys, ts)" by fastforce
  have "tt_ok ts" using tt_drain_spec [OF _ drain] assms by (simp add: fine_def engine_ok_def)
  then have "fine cfg (e\<lparr>en_timers := ts\<rparr>)" using assms by (auto simp: fine_def engine_ok_def)
  then show ?thesis using handle_expired_fine by (simp add: handle_timer_tick_def drain)
qed

text \<open>A parsed payload is no longer than the datagram.\<close>

lemma cur_bytes_length: "cur_bytes c n = Inr (xs, c') \<Longrightarrow> length xs \<le> length (cur_buf c)"
  by (auto simp: cur_bytes_def Let_def slice_get_Some_iff split: if_splits option.splits)

lemma parse_data_length:
  assumes "parse_data c code = Inr (ds, c')"
  shows "length (ds_data ds) \<le> length (cur_buf c)"
proof -
  from assms obtain c1 c2 c3 c4 v1 v2 v3 kind xs where
    steps: "cur_sdnv c = Inr (v1, c1)" "cur_sdnv c1 = Inr (v2, c2)" "cur_sdnv c2 = Inr (v3, c3)"
      "parse_kind c3 code = Inr (kind, c4)" and xs: "cur_bytes c4 v3 = Inr (xs, c')"
    and ds: "ds = \<lparr>ds_client_service = v1, ds_offset = v2, ds_kind = kind, ds_data = xs\<rparr>"
    by (auto simp: parse_data_def and_then_Inr_iff)
  have "cur_buf c4 = cur_buf c"
    using steps parse_kind_valid [OF steps(4)] by (auto dest!: read_follows simp: follows_def)
  with cur_bytes_length [OF xs] show ?thesis by (simp add: ds)
qed

lemma parse_segment_payload:
  assumes "parse_segment buffer = Inr (seg, n)" "seg_body seg = Data ds"
  shows "length (ds_data ds) \<le> length buffer"
proof -
  let ?c = "\<lparr>cur_buf = buffer, cur_pos = 0\<rparr>"
  from assms(1) obtain code sess c1 counts c2 hs c3 c4 where
    steps: "parse_prefix ?c = Inr ((code, sess), c1)" "cur_u8 c1 = Inr (counts, c2)"
      "parse_extensions c2 (drop_bit 4 counts) = Inr (hs, c3)" and body: "parse_body c3 code = Inr (seg_body seg, c4)"
    by (auto simp: parse_segment_def and_then_Inr_iff)
  have "cur_buf c3 = buffer"
    using parse_prefix_valid [OF steps(1)] cur_u8_follows [OF steps(2)] parse_extensions_valid [OF steps(3)]
    by (auto simp: follows_def)
  moreover obtain c5 where "parse_data c3 code = Inr (ds, c5)"
    using body assms(2) by (auto simp: parse_body_def and_then_Inr_iff split: if_splits)
  ultimately show ?thesis using parse_data_length by auto
qed

lemma handle_body_fine:
  assumes "fine cfg e" "\<And>ds. body = Data ds \<Longrightarrow> length (ds_data ds) < 2 ^ 63"
  shows "\<exists>e'. handle_body from sid body now e = Some e' \<and> fine cfg e'"
proof (cases body)
  case (Data ds)
  then show ?thesis using assms handle_incoming_data_ok [OF assms(1), of ds "from" sid now] by simp
next
  case (Report rs)
  then show ?thesis using assms(1) handle_incoming_report_fine [OF assms(1), of "from" sid rs now] by simp
qed (use assms(1) in \<open>auto intro: handle_incoming_report_ack_fine handle_incoming_cancel_fine handle_incoming_cancel_ack_fine\<close>)

lemma handle_incoming_segment_fine:
  assumes "fine cfg e" "length datagram < 2 ^ 63"
  shows "\<exists>r e'. handle_incoming_segment from datagram now e = Some (r, e') \<and> fine cfg e'"
proof (cases "parse_segment datagram")
  case (Inl err)
  then show ?thesis using assms(1) by (simp add: handle_incoming_segment_def)
next
  case (Inr p)
  obtain seg n where p: "p = (seg, n)" by fastforce
  have "\<exists>e'. handle_body (effective_from from (seg_session seg) e) (seg_session seg) (seg_body seg) now e = Some e'
    \<and> fine cfg e'"
    using parse_segment_payload [OF Inr [unfolded p]] assms(2)
    by (intro handle_body_fine [OF assms(1)]) (blast intro: le_less_trans)
  then show ?thesis using assms(1) Inr by (auto simp: handle_incoming_segment_def p)
qed

lemma apply_event_fine:
  assumes "fine cfg e" "event_small ev"
  shows "\<exists>e'. apply_event ev e = Some e' \<and> fine cfg e'"
proof (cases ev)
  case (Request peer cs block red_len now)
  have "en_config e' = en_config e" if "request_transmission peer cs block red_len now e = Some (r, e')" for r e'
  proof (cases "accepted e block red_len")
    case True
    then show ?thesis
      using request_transmission_spec [of block e red_len peer cs now] that assms(2) by (auto simp: Request)
  next
    case False
    then show ?thesis
      using that by (auto simp: request_transmission_def accepted_def Let_def not_le split: if_splits)
  qed
  then show ?thesis
    using assms request_transmission_ok [of e block peer cs red_len now] by (auto simp: Request fine_def)
next
  case (Incoming p datagram now)
  then show ?thesis using assms handle_incoming_segment_fine [of cfg e datagram p now] by auto
next
  case (Tick now)
  then show ?thesis using assms(1) handle_timer_tick_fine by simp
next
  case PollOutput
  then show ?thesis using assms(1) by (auto simp: poll_output_def fine_def engine_ok_def split: list.split)
next
  case PollNotice
  then show ?thesis using assms(1) by (auto simp: poll_notice_def fine_def engine_ok_def split: list.split)
next
  case (SetTiming peer rtt margin)
  then show ?thesis using assms(1) by (auto simp: set_peer_timing_def fine_def engine_ok_def)
qed

lemma run_events_fine:
  "fine cfg e \<Longrightarrow> \<forall>ev\<in>set evs. event_small ev \<Longrightarrow> \<exists>e'. run_events evs e = Some e' \<and> fine cfg e'"
proof (induction evs arbitrary: e)
  case (Cons ev evs)
  obtain e1 where "apply_event ev e = Some e1" "fine cfg e1"
    using apply_event_fine [OF Cons.prems(1), of ev] Cons.prems(2) by auto
  with Cons show ?case by simp
qed simp

lemma fine_new: "ec_max_block_size cfg \<noteq> - 1 \<Longrightarrow> fine cfg (engine_new cfg)"
  using engine_ok_new [of cfg] by (simp add: fine_def engine_new_def)

lemma reachable_fine: "reachable cfg e \<Longrightarrow> ec_max_block_size cfg \<noteq> - 1 \<Longrightarrow> fine cfg e"
proof (induction rule: reachable.induct)
  case start
  then show ?case by (rule fine_new)
next
  case (event e ev e')
  then show ?case using apply_event_fine [of cfg e ev] by auto
qed

section \<open>Properties\<close>

text \<open>C3: the engine never panics.  From a new engine, whose block size limit is not the largest \<^verbatim>\<open>u64\<close>, every
  sequence of requests, datagrams with any content from any peer, ticks, polls and timing updates
  runs to its end, and the engine's invariant holds after it.\<close>

theorem engine_never_panics:
  assumes "ec_max_block_size cfg \<noteq> - 1" and "\<forall>ev\<in>set evs. event_small ev"
  shows "\<exists>e. run_events evs (engine_new cfg) = Some e \<and> engine_ok e"
  using run_events_fine [OF fine_new [OF assms(1)] assms(2)] by (auto simp: fine_def)

theorem engine_never_panics_witness:
  "\<exists>e. run_events [Request 2 7 [1, 2, 3] 2 10, Incoming 3 [0, 5, 1, 0, 0, 0, 1, 9] 20, Tick 90000000]
     (engine_new default_config) = Some e \<and> engine_ok e"
  by (rule engine_never_panics) (simp_all add: default_config_def)

text \<open>C21: what a peer can make the engine hold is bounded in every reachable state: the number of receive sessions,
  the octets and the reports of each, the retransmissions of a report and of a checkpoint, and the
  logs of closed and cancelled sessions, which list each session once.\<close>

theorem engine_resources_bounded:
  assumes "reachable cfg e" and "ec_max_block_size cfg \<noteq> - 1"
  shows "length (en_recv_sessions e) \<le> ec_max_recv_sessions cfg
    \<and> (\<forall>sid s. bt_get (en_recv_sessions e) sid = Some s \<longrightarrow>
         length (rv_red_buf s) \<le> unat (ec_max_block_size cfg)
         \<and> sparse_bytes (rv_sparse_red s) \<le> unat (ec_max_block_size cfg)
         \<and> length (rv_reports s) \<le> ec_max_reports_per_session cfg
         \<and> (\<forall>n r. bt_get (rv_reports s) n = Some r \<longrightarrow> rr_retries r \<le> ec_report_rtx_limit cfg))
    \<and> (\<forall>sid s. bt_get (en_send_sessions e) sid = Some s \<longrightarrow>
         (\<forall>n r. bt_get (ss_checkpoints s) n = Some r \<longrightarrow> cpr_retries r \<le> ec_checkpoint_rtx_limit cfg))
    \<and> length (en_closed_recv_sessions e) \<le> 1024 \<and> distinct (en_closed_recv_sessions e)
    \<and> length (en_cancelled_sessions e) \<le> 1024 \<and> distinct (en_cancelled_sessions e)"
proof -
  have fine: "fine cfg e" by (rule reachable_fine [OF assms])
  then have logs: "log_ok (en_closed_recv_sessions e, en_closed_recv_sessions_set e)"
    "log_ok (en_cancelled_sessions e, en_cancelled_sessions_set e)"
    "length (en_recv_sessions e) \<le> ec_max_recv_sessions cfg"
    by (auto simp: fine_def engine_ok_def)
  have recv: "length (rv_red_buf s) \<le> unat (ec_max_block_size cfg)
      \<and> sparse_bytes (rv_sparse_red s) \<le> unat (ec_max_block_size cfg)
      \<and> length (rv_reports s) \<le> ec_max_reports_per_session cfg
      \<and> (\<forall>n r. bt_get (rv_reports s) n = Some r \<longrightarrow> rr_retries r \<le> ec_report_rtx_limit cfg)"
    if "bt_get (en_recv_sessions e) sid = Some s" for sid s
    using running_lookup [OF fine that]
    by (auto simp: running_def recv_ok_def mem_ok_def report_ok_def dest: bt.entriesD)
  have send: "cpr_retries r \<le> ec_checkpoint_rtx_limit cfg"
    if "bt_get (en_send_sessions e) sid = Some s" "bt_get (ss_checkpoints s) n = Some r" for sid s n r
    using fine_send [OF fine that(1)] that(2) by (auto simp: send_ok_def checkpoint_ok_def dest: bt.entriesD)
  show ?thesis using logs recv send by (auto simp: log_ok_def LOG_CAPACITY_def)
qed

theorem engine_resources_bounded_witness:
  "length (en_recv_sessions (engine_new default_config)) \<le> 1024
   \<and> distinct (en_cancelled_sessions (engine_new default_config))"
  using engine_resources_bounded [OF reachable.start [of default_config]] by (simp add: default_config_def)

end
