(* ===== verification/Delivery.thy ===== *)
theory Delivery
  imports Engine_Run
begin

text \<open>
  End-to-end correctness of the red part: when the red segments that reach an engine carry the
  octets of the sender's blocks, every delivery notice carries exactly the sender's red part,
  whatever is lost, duplicated, reordered or interleaved, and whatever else arrives.
\<close>

section \<open>Genuine segments\<close>

text \<open>What a sender transmits in a session: the client service, the red part, and whether it is the whole block.\<close>

record transmission =
  tr_service :: u64
  tr_red :: bytes
  tr_all_red :: bool

definition genuine :: "transmission \<Rightarrow> data_segment \<Rightarrow> bool" where
  "genuine t ds \<longleftrightarrow>
     ds_client_service ds = tr_service t
     \<and> (is_red (ds_kind ds) \<longrightarrow> fits (tr_red t) (ds_offset ds) (ds_data ds))
     \<and> (is_eorp (ds_kind ds) \<longrightarrow>
          unat (ds_offset ds) + length (ds_data ds) = length (tr_red t) \<and> is_eob (ds_kind ds) = tr_all_red t)"

text \<open>A receive session and the notices agree with what was sent.\<close>

definition recv_true :: "transmission \<Rightarrow> session_id \<Rightarrow> recv_session \<Rightarrow> bool" where
  "recv_true t sid s \<longleftrightarrow>
     length (tr_red t) < 2 ^ 63 \<and> rs_ok (rv_red_received s) \<and> rv_client_service s = tr_service t
     \<and> (if rv_red_delivered s then {0..<length (tr_red t)} \<subseteq> rs_set (rv_red_received s)
        else reassembling (tr_red t) s)
     \<and> (rv_red_ends_block s \<longrightarrow> tr_all_red t)
     \<and> (rv_red_part_len s = None
        \<or> rv_red_part_len s = Some (vec_len (tr_red t)) \<and> rv_red_ends_block s = tr_all_red t)"

fun notice_true :: "(session_id \<Rightarrow> transmission) \<Rightarrow> notice \<Rightarrow> bool" where
  "notice_true T (RedPartReceived sid peer service data whole) \<longleftrightarrow>
     peer = originator sid \<and> service = tr_service (T sid) \<and> data = tr_red (T sid) \<and> whole = tr_all_red (T sid)"
| "notice_true T _ \<longleftrightarrow> True"

definition true_ok :: "(session_id \<Rightarrow> transmission) \<Rightarrow> engine \<Rightarrow> bool" where
  "true_ok T e \<longleftrightarrow>
     bt.entries (\<lambda>sid. recv_true (T sid) sid) (en_recv_sessions e) \<and> (\<forall>n\<in>set (en_notices e). notice_true T n)"

text \<open>An event is truthful when the datagram it brings, if it parses as a data segment, is genuine.\<close>

fun truthful :: "(session_id \<Rightarrow> transmission) \<Rightarrow> event \<Rightarrow> bool" where
  "truthful T (Incoming peer datagram now) \<longleftrightarrow>
     (\<forall>seg n ds. parse_segment datagram = Inr (seg, n) \<and> seg_body seg = Data ds \<longrightarrow> genuine (T (seg_session seg)) ds)"
| "truthful T _ \<longleftrightarrow> True"

section \<open>Steps that keep the agreement\<close>

named_theorems true_steps \<open>what keeps the agreement with the senders\<close>

lemma true_ok_frame:
  "true_ok T e \<Longrightarrow> en_recv_sessions e' = en_recv_sessions e \<Longrightarrow> set (en_notices e') \<subseteq> set (en_notices e) \<Longrightarrow> true_ok T e'"
  by (auto simp: true_ok_def)

lemma true_ok_steps [true_steps]:
  "true_ok T e \<Longrightarrow> true_ok T (push_out p seg e)"
  "true_ok T e \<Longrightarrow> true_ok T (arm_timer k d e)"
  "true_ok T e \<Longrightarrow> true_ok T (disarm_timer k e)"
  "true_ok T e \<Longrightarrow> true_ok T (disarm_session sid e)"
  "true_ok T e \<Longrightarrow> true_ok T (touch_inactivity sid b now e)"
  "true_ok T e \<Longrightarrow> true_ok T (record_cancelled sid e)"
  "true_ok T e \<Longrightarrow> true_ok T (record_closed sid e)"
  "true_ok T e \<Longrightarrow> true_ok T (update_peer_rtt_sample p x e)"
  "true_ok T e \<Longrightarrow> true_ok T (put_send sid s e)"
  "true_ok T e \<Longrightarrow> true_ok T (drop_send sid e)"
  "true_ok T e \<Longrightarrow> true_ok T (drop_recv sid e)"
  "true_ok T e \<Longrightarrow> recv_true (T sid) sid r \<Longrightarrow> true_ok T (put_recv sid r e)"
  "true_ok T e \<Longrightarrow> notice_true T n \<Longrightarrow> true_ok T (push_notice n e)"
  by (auto simp: true_ok_def intro: bt.entries_put bt.entries_del)

lemma recv_trueD: "true_ok T e \<Longrightarrow> bt_get (en_recv_sessions e) sid = Some s \<Longrightarrow> recv_true (T sid) sid s"
  unfolding true_ok_def by (blast dest: bt.entriesD)

lemma recv_true_frame [simp]:
  "recv_true t sid (s\<lparr>rv_last_activity := x1\<rparr>) = recv_true t sid s"
  "recv_true t sid (s\<lparr>rv_cancel_reason := x2\<rparr>) = recv_true t sid s"
  "recv_true t sid (s\<lparr>rv_cancel_retries := x3\<rparr>) = recv_true t sid s"
  "recv_true t sid (s\<lparr>rv_cancel_reason := x2, rv_cancel_retries := x3\<rparr>) = recv_true t sid s"
  "recv_true t sid (s\<lparr>rv_reports := x4\<rparr>) = recv_true t sid s"
  "recv_true t sid (s\<lparr>rv_last_report_serial := x5\<rparr>) = recv_true t sid s"
  "recv_true t sid (s\<lparr>rv_cp_serials_answered := x6\<rparr>) = recv_true t sid s"
  "recv_true t sid (s\<lparr>rv_reported_coverage := x7\<rparr>) = recv_true t sid s"
  "recv_true t sid (s\<lparr>rv_min_green_offset := x8\<rparr>) = recv_true t sid s"
  "recv_true t sid (s\<lparr>rv_block_len := x9\<rparr>) = recv_true t sid s"
  by (simp_all add: recv_true_def reassembling_def)

text \<open>A session taken out of the engine and modified.\<close>

definition handling :: "(session_id \<Rightarrow> transmission) \<Rightarrow> session_id \<Rightarrow> recv_session \<Rightarrow> engine \<Rightarrow> bool" where
  "handling T sid s e \<longleftrightarrow> true_ok T e \<and> recv_true (T sid) sid s"

fun flow_true :: "(session_id \<Rightarrow> transmission) \<Rightarrow> session_id \<Rightarrow> engine + recv_session \<times> engine \<Rightarrow> bool" where
  "flow_true T sid (Inl e) = true_ok T e"
| "flow_true T sid (Inr (s, e)) = handling T sid s e"

lemma handling_steps [true_steps]:
  "handling T sid s e \<Longrightarrow> handling T sid s (push_out p seg e)"
  "handling T sid s e \<Longrightarrow> handling T sid s (arm_timer k d e)"
  "handling T sid s e \<Longrightarrow> handling T sid s (touch_inactivity sid b now e)"
  "handling T sid s e \<Longrightarrow> handling T sid s (update_peer_rtt_sample p x e)"
  "handling T sid s e \<Longrightarrow> true_ok T (put_recv sid s e)"
  by (simp_all add: handling_def true_steps)

lemma initiate_cancel_receiver_true [true_steps]:
  "true_ok T e \<Longrightarrow> true_ok T (initiate_cancel_receiver sid peer reason now e)"
  by (auto simp: initiate_cancel_receiver_def Let_def handling_def intro!: true_steps dest: recv_trueD split: option.split)

lemma issue_report_handling:
  "handling T sid s e \<Longrightarrow> issue_report from sid report now s e = (s', e') \<Longrightarrow> handling T sid s' e'"
  by (auto simp: issue_report_def Let_def handling_def intro!: true_steps)

lemma report_chunks_true:
  "handling T sid s e \<Longrightarrow> flow_true T sid (report_chunks from sid cp upper now first chunks serials s e)"
proof (induction chunks arbitrary: first serials s e)
  case Nil
  then show ?case by (simp add: handling_def)
next
  case (Cons chunk chunks)
  show ?case
  proof (cases "ec_max_reports_per_session (en_config e) \<le> length (rv_reports s)")
    case True
    then show ?thesis using Cons.prems by (simp add: true_steps)
  next
    case False
    let ?serial = "next_nonzero_serial (rv_last_report_serial s)"
    let ?s = "s\<lparr>rv_last_report_serial := ?serial\<rparr>"
    let ?report = "chunk_report ?serial cp (if first then 0 else fst (hd chunk)) (if chunks = [] then upper else snd (last chunk)) chunk"
    obtain s' e' where issued: "issue_report from sid ?report now ?s e = (s', e')" by fastforce
    have "handling T sid ?s e" using Cons.prems by (simp add: handling_def)
    then have "handling T sid s' e'" using issued by (rule issue_report_handling)
    then show ?thesis using Cons.IH False issued by (simp add: Let_def)
  qed
qed

lemma fresh_checkpoint_true:
  assumes "handling T sid s e"
  shows "flow_true T sid (fresh_checkpoint from sid cp upper now s e)"
proof -
  let ?serial = "next_nonzero_serial (rv_last_report_serial s)"
  let ?s = "s\<lparr>rv_last_report_serial := ?serial\<rparr>"
  obtain s' e' where issued: "issue_report from sid (chunk_report ?serial cp 0 upper []) now ?s e = (s', e')" by fastforce
  have "handling T sid ?s e" using assms by (simp add: handling_def)
  then have "handling T sid s' e'" using issued by (rule issue_report_handling)
  then have "handling T sid (s'\<lparr>rv_cp_serials_answered := bt_insert cp [?serial] (rv_cp_serials_answered s')\<rparr>) e'"
    by (simp add: handling_def)
  then show ?thesis
    using issued report_chunks_true [OF assms] assms by (simp add: fresh_checkpoint_def Let_def true_steps)
qed

lemma answer_checkpoint_true:
  assumes "handling T sid s e"
  shows "flow_true T sid (answer_checkpoint from sid cp upper now s e)"
proof -
  have "handling T sid s (fold (reemit_report from sid now s) serials e)" for serials
    using assms
  proof (induction serials arbitrary: e)
    case (Cons serial serials)
    have "handling T sid s (reemit_report from sid now s serial e)"
      using Cons.prems by (auto simp: reemit_report_def Let_def intro: true_steps split: option.split)
    with Cons.IH show ?case by simp
  qed simp
  then show ?thesis using fresh_checkpoint_true [OF assms] by (auto simp: answer_checkpoint_def split: option.split)
qed

section \<open>Data segments\<close>

lemma recv_true_new:
  assumes "length (tr_red t) < 2 ^ 63" "genuine t ds"
  shows "recv_true t sid ((recv_session_new sid from (ds_client_service ds) 0 now)\<lparr>rv_last_activity := now\<rparr>)"
  using assms reassembling_new [OF assms(1), of sid "from" "ds_client_service ds" 0 now]
  by (simp add: recv_true_def genuine_def) (simp add: recv_session_new_def range_set_new_def)

lemma open_recv_handling:
  assumes "true_ok T e" "length (tr_red (T sid)) < 2 ^ 63" "genuine (T sid) ds"
    and "open_recv from sid ds now e = Some (s, e')"
  shows "handling T sid s e'"
proof (cases "bt_get (en_recv_sessions e) sid")
  case (Some old)
  then have "recv_true (T sid) sid old" using assms(1) by (simp add: recv_trueD)
  then show ?thesis
    using assms(1,4) Some by (auto simp: open_recv_def Let_def handling_def intro!: true_steps split: if_splits)
next
  case None
  note new = recv_true_new [OF assms(2,3), of sid now "from"]
  show ?thesis
    using assms(1,4) None new
    by (auto simp: open_recv_def Let_def handling_def intro!: true_steps split: if_splits)
qed

lemma check_color_handling: "handling T sid s e \<Longrightarrow> check_color ds s = (b, s') \<Longrightarrow> handling T sid s' e"
  by (auto simp: check_color_def Let_def handling_def split: if_splits)

text \<open>Storing a genuine segment; once the red part is delivered every such segment is covered.\<close>

lemma insert_red_true:
  assumes s: "recv_true t sid s" and fit: "fits (tr_red t) off d"
  shows "\<exists>ok s'. insert_red off d limit s = Some (ok, s') \<and> recv_true t sid s'"
proof (cases "rv_red_delivered s")
  case True
  have B: "length (tr_red t) < 2 ^ 63" and rs: "rs_ok (rv_red_received s)"
    and all: "{0..<length (tr_red t)} \<subseteq> rs_set (rv_red_received s)" using s True by (simp_all add: recv_true_def)
  have len: "unat (vec_len d) = length d" using fit B by (rule fits_length)
  show ?thesis
  proof (cases "checked_add off (vec_len d)")
    case None
    then show ?thesis using s insert_red_rejected by blast
  next
    case (Some stop)
    then have "unat stop = unat off + length d" using checked_add_SomeD [OF Some] by (simp add: len)
    then have "range_covers (rv_red_received s) (off, stop)"
      using all fit rset.covers_iff [OF rs] by (auto simp: range_span_def fits_def)
    then show ?thesis using s insert_red_done [OF Some] by blast
  qed
next
  case False
  then have inv: "reassembling (tr_red t) s" using s by (simp add: recv_true_def)
  from insert_red_reassembling [OF inv fit] obtain ok s' where
    ins: "insert_red off d limit s = Some (ok, s')" "reassembling (tr_red t) s'" by blast
  have "rv_red_delivered s' = rv_red_delivered s \<and> rv_client_service s' = rv_client_service s
      \<and> rv_red_ends_block s' = rv_red_ends_block s \<and> rv_red_part_len s' = rv_red_part_len s"
    using ins(1) by (auto simp: insert_red_def Let_def split: option.splits if_splits)
  then have "recv_true t sid s'" using ins(2) s False by (simp add: recv_true_def) (simp add: reassembling_def)
  with ins(1) show ?thesis by blast
qed

lemma is_eob_red: "is_red k \<Longrightarrow> is_eob k \<Longrightarrow> is_eorp k"
  by (cases k) simp_all

lemma note_ends_true:
  assumes s: "recv_true t sid s" and g: "genuine t ds" and red: "is_red (ds_kind ds)"
  shows "recv_true t sid (note_ends ds s)"
proof (cases "is_eorp (ds_kind ds)")
  case True
  then have stop: "unat (ds_offset ds) + length (ds_data ds) = length (tr_red t)" "is_eob (ds_kind ds) = tr_all_red t"
    using g by (simp_all add: genuine_def)
  have B: "length (tr_red t) < 2 ^ 63" using s by (simp add: recv_true_def)
  have len: "unat (vec_len (ds_data ds)) = length (ds_data ds)" using stop(1) B by (simp add: unat_vec_len)
  then have "ds_offset ds + vec_len (ds_data ds) = vec_len (tr_red t)"
    using stop(1) B by (simp add: word_unat_eq_iff unat_add_exact unat_vec_len)
  moreover have "checked_add (ds_offset ds) (vec_len (ds_data ds)) \<noteq> None"
    using stop(1) B by (simp add: checked_add_None_iff len)
  ultimately have "checked_add (ds_offset ds) (vec_len (ds_data ds)) = Some (vec_len (tr_red t))"
    by (auto simp: checked_add_def split: if_splits)
  then show ?thesis
    using s True stop(2) by (auto simp: note_ends_def Let_def recv_true_def reassembling_def)
next
  case False
  moreover from this have "\<not> is_eob (ds_kind ds)" using is_eob_red red by blast
  ultimately show ?thesis using s by (simp add: note_ends_def)
qed

lemma handle_red_true:
  assumes "handling T sid s e" "genuine (T sid) ds" "is_red (ds_kind ds)"
  shows "\<exists>r. handle_red from sid ds now s e = Some r \<and> flow_true T sid r"
proof -
  have s: "recv_true (T sid) sid s" and fit: "fits (tr_red (T sid)) (ds_offset ds) (ds_data ds)"
    using assms by (simp_all add: handling_def genuine_def)
  obtain ok s' where ins: "insert_red (ds_offset ds) (ds_data ds) (ec_max_block_size (en_config e)) s = Some (ok, s')"
    and s': "recv_true (T sid) sid s'" using insert_red_true [OF s fit] by blast
  have "handling T sid s' e" "handling T sid (note_ends ds s') e"
    using assms s' note_ends_true [OF s' assms(2,3)] by (simp_all add: handling_def)
  then show ?thesis using ins answer_checkpoint_true
    by (auto simp: handle_red_def Let_def true_steps split: option.split)
qed

lemma deliver_red_true:
  assumes "handling T sid s e" "deliver_red (originator sid) sid s e = (s', e')"
  shows "handling T sid s' e'"
proof (cases "is_red_complete s \<and> \<not> rv_red_delivered s")
  case True
  let ?t = "T sid"
  have s: "recv_true ?t sid s" and e: "true_ok T e" using assms(1) by (simp_all add: handling_def)
  then have inv: "reassembling (tr_red ?t) s" using True by (simp add: recv_true_def)
  have B: "unat (vec_len (tr_red ?t)) = length (tr_red ?t)" using s by (simp add: recv_true_def unat_vec_len)
  have len: "rv_red_part_len s = Some (vec_len (tr_red ?t))" "rv_red_ends_block s = tr_all_red ?t"
    using s True by (auto simp: recv_true_def is_red_complete_def)
  have cov: "{0..<length (tr_red ?t)} \<subseteq> rs_set (rv_red_received s)"
    using True inv by (simp add: is_red_complete_def len reassembling_def rset.covers_iff range_span_def B)
  from red_complete_prefix [OF inv len(1)] True have "take (length (tr_red ?t)) (rv_red_buf s) = tr_red ?t"
    by (simp add: B)
  then have "s' = s\<lparr>rv_red_buf := [], rv_red_delivered := True\<rparr>"
    "e' = push_notice (RedPartReceived sid (originator sid) (tr_service ?t) (tr_red ?t) (tr_all_red ?t)) e"
    using assms(2) True s by (simp_all add: deliver_red_def len B recv_true_def)
  then show ?thesis using s e cov by (auto simp: handling_def recv_true_def intro!: true_steps)
next
  case False
  then show ?thesis using assms by (auto simp: deliver_red_def)
qed

lemma handle_incoming_data_true:
  assumes "true_ok T e" "length (tr_red (T sid)) < 2 ^ 63" "genuine (T sid) ds"
    and "handle_incoming_data (originator sid) sid ds now e = Some e'"
  shows "true_ok T e'"
proof (cases "sid \<in> set (en_closed_recv_sessions_set e) \<or> open_recv (originator sid) sid ds now e = None")
  case True
  then show ?thesis using assms(1,4)
    by (auto simp: handle_incoming_data_def reemit_closed_def Let_def intro: true_steps split: option.splits if_splits)
next
  case False
  then obtain s e1 where opened: "open_recv (originator sid) sid ds now e = Some (s, e1)" by auto
  then have run: "handling T sid s e1" by (rule open_recv_handling [OF assms(1-3)])
  obtain bad s1 where color: "check_color ds s = (bad, s1)" by fastforce
  have run1: "handling T sid s1 e1" using run color by (rule check_color_handling)
  let ?r = "if is_red (ds_kind ds) then handle_red (originator sid) sid ds now s1 e1
    else Some (Inr (s1, push_notice (GreenSegmentArrived sid (originator sid) (ds_offset ds) (ds_data ds) (is_eob (ds_kind ds))) e1))"
  obtain r where r: "?r = Some r" "flow_true T sid r"
    using handle_red_true [OF run1 assms(3), of "originator sid" now] run1
    by (cases "is_red (ds_kind ds)") (auto simp: handling_def true_steps(13))
  have "true_ok T e'" if "(case r of Inl e \<Rightarrow> Some e
      | Inr (s, e) \<Rightarrow> let (s, e) = deliver_red (originator sid) sid s e in Some (put_recv sid s e)) = Some e'"
    using that r(2) by (cases r) (auto split: prod.splits intro!: true_steps(18) dest: deliver_red_true)
  moreover have "true_ok T (put_recv sid s e1)" "true_ok T (put_recv sid s1 e1)"
    using run run1 by (simp_all add: true_steps)
  ultimately show ?thesis
    using False opened color r(1) assms(4) initiate_cancel_receiver_true
    by (auto simp: handle_incoming_data_def split: sum.splits prod.splits if_splits)
qed

section \<open>Every event\<close>

lemma request_transmission_true:
  assumes "true_ok T e" "length block < 2 ^ 63" "request_transmission peer cs block red_len now e = Some (r, e')"
  shows "true_ok T e'"
proof (cases "accepted e block red_len")
  case True
  have "en_recv_sessions e' = en_recv_sessions e" "set (en_notices e') \<subseteq> set (en_notices e) \<union> {n. notice_true T n}"
    using request_transmission_spec [OF assms(2) True, of peer cs now] assms(3) by auto
  then show ?thesis using assms(1) by (auto simp: true_ok_def)
next
  case False
  then show ?thesis
    using assms(1,3) by (auto simp: request_transmission_def accepted_def Let_def not_le split: if_splits)
qed

lemma apply_report_true:
  fixes rs :: report_segment
  assumes "sending cfg sid s e" "true_ok T e" "apply_report from sid rs now s e = Some e'"
  shows "true_ok T e'"
proof (cases "{0..<unat (ss_red_len s)} \<subseteq> rs_set (ss_claims_received s) \<union> claimed rs (ss_red_len s)")
  case True
  then have "e' = complete_send sid e" using apply_report_spec [OF assms(1), of rs "from" now] assms(3) by simp
  then show ?thesis using assms(2) by (simp add: complete_send_def true_steps)
next
  case False
  then obtain ds s' ts where
    "apply_report from sid rs now s e
      = Some (put_send sid s' (e\<lparr>en_outbound := en_outbound e @ data_out from sid ds, en_timers := ts\<rparr>))"
    using apply_report_spec [OF assms(1), of rs "from" now] unfolding if_not_P [OF False] by blast
  then have "e' = put_send sid s' (e\<lparr>en_outbound := en_outbound e @ data_out from sid ds, en_timers := ts\<rparr>)"
    using assms(3) by simp
  then show ?thesis using assms(2) by (simp add: true_ok_def)
qed

lemma handle_incoming_report_true:
  assumes "fine cfg e" "true_ok T e" "handle_incoming_report from sid rs now e = Some e'"
  shows "true_ok T e'"
proof -
  let ?e = "disarm_timer (checkpoint_key sid (rs_checkpoint_serial rs))
    (push_out from (wire sid (ReportAck (rs_report_serial rs))) e)"
  have base: "fine cfg ?e" "true_ok T ?e" using assms(1,2) by (auto intro: engine_steps true_steps)
  show ?thesis
  proof (cases "\<exists>s. bt_get (en_send_sessions ?e) sid = Some s \<and> ss_cancel_reason s = None")
    case False
    then show ?thesis
      using assms(3) base(2) by (auto simp: handle_incoming_report_def Let_def split: option.splits if_splits)
  next
    case True
    then obtain s where s: "bt_get (en_send_sessions ?e) sid = Some s" "ss_cancel_reason s = None" by blast
    let ?s = "s\<lparr>ss_last_activity := now\<rparr>" and ?e1 = "touch_inactivity sid True now ?e"
    obtain s1 e1 where retire: "retire_checkpoint from (rs_checkpoint_serial rs) now ?s ?e1 = (s1, e1)" by fastforce
    have "sending cfg sid ?s ?e1"
      using base(1) fine_send [OF base(1) s(1)] by (auto simp: sending_def intro: engine_steps)
    then have s1: "sending cfg sid s1 e1" using retire by (rule retire_checkpoint_sending)
    have e1: "true_ok T e1"
      using retire base(2) by (auto simp: retire_checkpoint_def intro!: true_steps split: option.splits if_splits)
    let ?s2 = "s1\<lparr>ss_report_serials_seen := bs_insert (rs_report_serial rs) (ss_report_serials_seen s1)\<rparr>"
    have s2: "sending cfg sid ?s2 e1" using s1 by (simp add: sending_def send_ok_seen)
    show ?thesis
    proof (cases "rs_report_serial rs \<in> set (ss_report_serials_seen s1)")
      case True
      then have "e' = put_send sid s1 e1"
        using assms(3) s retire by (simp add: handle_incoming_report_def Let_def)
      then show ?thesis using e1 by (simp add: true_steps)
    next
      case False
      then have "apply_report from sid rs now ?s2 e1 = Some e'"
        using assms(3) s retire by (simp add: handle_incoming_report_def Let_def)
      then show ?thesis by (rule apply_report_true [OF s2 e1])
    qed
  qed
qed

lemma handle_incoming_report_ack_true:
  assumes "true_ok T e"
  shows "true_ok T (handle_incoming_report_ack sid serial now e)"
proof -
  let ?e = "disarm_timer (report_key sid serial) e"
  have e: "true_ok T ?e" using assms by (rule true_steps)
  show ?thesis
  proof (cases "bt_get (en_recv_sessions ?e) sid")
    case None
    then show ?thesis using e by (simp add: handle_incoming_report_ack_def Let_def)
  next
    case (Some s)
    let ?s = "s\<lparr>rv_last_activity := now\<rparr>" and ?e1 = "touch_inactivity sid False now ?e"
    obtain s' e' where ack: "ack_report serial now ?s ?e1 = (s', e')" by fastforce
    have "handling T sid ?s ?e1" using e Some recv_trueD [OF e Some] by (auto simp: handling_def intro: true_steps)
    then have "handling T sid s' e'"
      using ack by (auto simp: ack_report_def Let_def handling_def intro!: true_steps split: option.splits if_splits)
    then have "true_ok T e'" "true_ok T (put_recv sid s' e')" by (auto simp: handling_def true_steps)
    then show ?thesis
      using e Some ack by (auto simp: handle_incoming_report_ack_def Let_def intro: true_steps)
  qed
qed

lemma handle_rs_timeout_true: "true_ok T e \<Longrightarrow> true_ok T (handle_rs_timeout sid serial now e)"
  by (auto simp: handle_rs_timeout_def Let_def intro!: true_steps(1-13) dest: recv_trueD split: option.split)

lemma handle_cp_timeout_true:
  "true_ok T e \<Longrightarrow> handle_cp_timeout sid serial now e = Some e' \<Longrightarrow> true_ok T e'"
  by (auto simp: handle_cp_timeout_def Let_def intro!: true_steps(1-13) split: option.splits if_splits)

lemma cancel_true [true_steps]:
  "true_ok T e \<Longrightarrow> true_ok T (handle_incoming_cancel from sid reason b e)"
  "true_ok T e \<Longrightarrow> true_ok T (handle_incoming_cancel_ack sid b e)"
  by (auto simp: handle_incoming_cancel_def handle_incoming_cancel_ack_def Let_def intro!: true_steps(1-13))

lemma timeouts_true [true_steps]:
  "true_ok T e \<Longrightarrow> true_ok T (handle_inactivity_timeout sid b now e)"
  "true_ok T e \<Longrightarrow> true_ok T (handle_cancel_timeout sid b now e)"
  by (auto simp: handle_inactivity_timeout_def handle_cancel_timeout_def Let_def
      intro!: true_steps(1-13) dest: recv_trueD split: option.split)

lemma handle_timeout_true:
  "true_ok T e \<Longrightarrow> handle_timeout now key e = Some e' \<Longrightarrow> true_ok T e'"
  by (cases "tk_kind key")
    (auto simp: handle_timeout_def handle_rs_timeout_true intro: true_steps dest: handle_cp_timeout_true)

lemma handle_expired_true:
  "true_ok T e \<Longrightarrow> handle_expired now keys e = Some e' \<Longrightarrow> true_ok T e'"
  by (induction keys arbitrary: e) (auto split: option.splits dest: handle_timeout_true)

lemma handle_timer_tick_true:
  assumes "true_ok T e" "handle_timer_tick now e = Some e'"
  shows "true_ok T e'"
proof -
  have "true_ok T (e\<lparr>en_timers := ts\<rparr>)" for ts using assms(1) by (simp add: true_ok_def)
  with assms(2) show ?thesis
    by (auto simp: handle_timer_tick_def split: prod.splits dest: handle_expired_true)
qed

lemma handle_body_true:
  assumes "fine cfg e" "true_ok T e" "length (tr_red (T sid)) < 2 ^ 63"
    and "\<And>ds. body = Data ds \<Longrightarrow> genuine (T sid) ds"
    and "handle_body (effective_from from sid e) sid body now e = Some e'"
  shows "true_ok T e'"
proof (cases body)
  case (Data ds)
  then show ?thesis
    using assms by (auto simp: effective_from_def split: if_splits dest: handle_incoming_data_true)
next
  case (Report rs)
  then show ?thesis using assms by (auto split: if_splits dest: handle_incoming_report_true)
qed (use assms(2,5) in \<open>auto intro: handle_incoming_report_ack_true true_steps split: if_splits\<close>)

lemma handle_incoming_segment_true:
  assumes "fine cfg e" "true_ok T e" "\<And>sid. length (tr_red (T sid)) < 2 ^ 63"
    and "truthful T (Incoming from datagram now)" "handle_incoming_segment from datagram now e = Some (r, e')"
  shows "true_ok T e'"
proof (cases "parse_segment datagram")
  case (Inl err)
  then show ?thesis using assms(2,5) by (simp add: handle_incoming_segment_def)
next
  case (Inr p)
  obtain seg n where p: "p = (seg, n)" by fastforce
  have gen: "\<And>ds. seg_body seg = Data ds \<Longrightarrow> genuine (T (seg_session seg)) ds"
    using assms(4) Inr p by auto
  have "true_ok T e1"
    if "handle_body (effective_from from (seg_session seg) e) (seg_session seg) (seg_body seg) now e = Some e1" for e1
    using gen that by (rule handle_body_true [OF assms(1-3)])
  then show ?thesis
    using assms(2,5) Inr by (auto simp: handle_incoming_segment_def p split: if_splits option.splits)
qed

lemma apply_event_true:
  assumes "fine cfg e" "true_ok T e" "\<And>sid. length (tr_red (T sid)) < 2 ^ 63"
    and "event_small ev" "truthful T ev" "apply_event ev e = Some e'"
  shows "true_ok T e'"
proof (cases ev)
  case (Request peer cs block red_len now)
  then show ?thesis using assms request_transmission_true [of T e block] by auto
next
  case (Incoming p datagram now)
  then show ?thesis using assms handle_incoming_segment_true [OF assms(1-3), of p datagram now] by auto
next
  case (Tick now)
  then show ?thesis using assms handle_timer_tick_true by simp
next
  case PollOutput
  then show ?thesis using assms(2,6) by (auto simp: poll_output_def true_ok_def split: list.splits)
next
  case PollNotice
  then show ?thesis using assms(2,6) by (auto simp: poll_notice_def true_ok_def split: list.splits)
next
  case (SetTiming peer rtt margin)
  then show ?thesis using assms(2,6) by (auto simp: set_peer_timing_def true_ok_def)
qed

lemma run_events_true:
  assumes "\<And>sid. length (tr_red (T sid)) < 2 ^ 63"
  shows "fine cfg e \<Longrightarrow> true_ok T e \<Longrightarrow> \<forall>ev\<in>set evs. event_small ev \<and> truthful T ev
    \<Longrightarrow> \<exists>e'. run_events evs e = Some e' \<and> true_ok T e'"
proof (induction evs arbitrary: e)
  case (Cons ev evs)
  obtain e1 where "apply_event ev e = Some e1" "fine cfg e1"
    using apply_event_fine [OF Cons.prems(1), of ev] Cons.prems(3) by auto
  moreover from this have "true_ok T e1" using apply_event_true [OF Cons.prems(1,2) assms] Cons.prems(3) by auto
  ultimately show ?case using Cons by simp
qed simp

section \<open>What a sender transmits is genuine\<close>

definition transmission_of :: "u64 \<Rightarrow> bytes \<Rightarrow> u64 \<Rightarrow> transmission" where
  "transmission_of cs block red_len =
     \<lparr>tr_service = cs, tr_red = take (unat red_len) block, tr_all_red = (red_len = vec_len block)\<rparr>"

lemma tiles_within:
  assumes "tiles B a ds b" "d \<in> set ds" "a \<le> length B"
  shows "unat (ds_offset d) + length (ds_data d) \<le> b \<and> b \<le> length B"
proof -
  obtain xs ys where ds: "ds = xs @ d # ys" using assms(2) by (meson split_list)
  then obtain m where m: "tiles B a xs m" "tiles B m (d # ys) b" using assms(1) by (auto simp: tiles_append)
  then have "m + length (ds_data d) \<le> length B" "tiles B (m + length (ds_data d)) ys b" "unat (ds_offset d) = m"
    by (auto simp: slice_get_Some_iff)
  with tiles_bounds [of B _ ys b] show ?thesis by auto
qed

lemma slice_fits:
  assumes "slice_get B (unat off) (unat off + length d) = Some d" "unat off + length d \<le> n" "n \<le> length B"
  shows "fits (take n B) off d"
proof -
  have "d = take (length d) (drop (unat off) B)" using assms(1) by (simp add: slice_get_Some_iff)
  also have "\<dots> = take (length d) (drop (unat off) (take n B))" using assms(2) by (simp add: drop_take min_def)
  finally show ?thesis using assms(2,3) by (simp add: fits_def)
qed

lemma checkpoint_kind_simps [simp]:
  "is_red (checkpoint_kind a b cp)" "is_eorp (checkpoint_kind a b cp) = a"
  "is_eob (checkpoint_kind a b cp) = (a \<and> b)" "kind_checkpoint (checkpoint_kind a b cp) = Some cp"
  by (simp_all add: checkpoint_kind_def)

lemma plan_genuine:
  assumes plan: "plan_ok block (unat red_len) reds greens" and small: "length block < 2 ^ 63"
    and d: "d \<in> set (reds @ greens)" "ds_client_service d = cs"
  shows "genuine (transmission_of cs block red_len) d \<and> wf_segment (wire sid (Data d))"
proof (cases "d \<in> set reds")
  case True
  let ?n = "unat red_len"
  have tiled: "tiles block 0 reds ?n" and kinds: "red_kinds (?n = length block) \<lparr>cp_serial = 1, cp_report_serial = 0\<rparr> reds"
    using plan True by (auto simp: plan_ok_def split: if_splits)
  have within: "unat (ds_offset d) + length (ds_data d) \<le> ?n" "?n \<le> length block"
    using tiles_within [OF tiled True] by simp_all
  have "reds \<noteq> []" using True by auto
  then have split: "reds = butlast reds @ [last reds]" by simp
  then obtain m where "tiles block m [last reds] ?n" using tiled tiles_append by metis
  then have stop: "unat (ds_offset (last reds)) + length (ds_data (last reds)) = ?n" by simp
  have kind: "ds_kind d = Red \<or> d = last reds"
    using True split kinds unfolding red_kinds_def by (metis Un_iff empty_iff insert_iff list.set(1,2) set_append)
  have "vec_len block = red_len \<longleftrightarrow> ?n = length block"
    using small by (simp add: word_unat_eq_iff unat_vec_len) linarith
  moreover have "fits (take ?n block) (ds_offset d) (ds_data d)"
    by (rule slice_fits [OF tiles_slices [OF tiled True] within])
  ultimately have "genuine (transmission_of cs block red_len) d"
    using kind kinds stop d(2) within(2) by (auto simp: genuine_def transmission_of_def red_kinds_def)
  moreover have "wf_segment (wire sid (Data d))"
    using kind kinds by (auto simp: wf_segment_def wire_def red_kinds_def)
  ultimately show ?thesis by simp
next
  case False
  then have "d \<in> set greens" "green_kinds greens" using d(1) plan by (auto simp: plan_ok_def split: if_splits)
  then have "ds_kind d = Green \<or> ds_kind d = GreenEob"
    unfolding green_kinds_def by (metis append_butlast_last_id empty_iff insert_iff list.set(1,2) set_append Un_iff)
  then show ?thesis using d(2) by (auto simp: genuine_def transmission_of_def wf_segment_def wire_def)
qed

section \<open>Properties\<close>

lemma fine_true_new: "true_ok T (engine_new cfg)"
  by (simp add: true_ok_def engine_new_def bt.entries_empty)

text \<open>C2: the red part is delivered exactly.  Let \<open>T\<close> give, for every session, what its sender transmits.  If all data
  segments that reach an engine are genuine, in whatever order and number, and mixed with any other
  datagrams, requests and ticks, every delivery notice names the session's originator, its client
  service and the very octets of its red part, and says whether they are the whole block.\<close>

theorem red_delivery_exact:
  assumes "ec_max_block_size cfg \<noteq> - 1" and "\<forall>sid. length (tr_red (T sid)) < 2 ^ 63"
    and "\<forall>ev\<in>set evs. event_small ev \<and> truthful T ev"
  shows "\<exists>e. run_events evs (engine_new cfg) = Some e
    \<and> (\<forall>sid peer service data whole. RedPartReceived sid peer service data whole \<in> set (en_notices e) \<longrightarrow>
         peer = originator sid \<and> service = tr_service (T sid) \<and> data = tr_red (T sid) \<and> whole = tr_all_red (T sid))"
proof -
  obtain e where e: "run_events evs (engine_new cfg) = Some e" "true_ok T e"
    using run_events_true [OF _ fine_new [OF assms(1)] fine_true_new assms(3)] assms(2) by blast
  then have "\<forall>n\<in>set (en_notices e). notice_true T n" by (simp add: true_ok_def)
  with e(1) show ?thesis by fastforce
qed

text \<open>The hypotheses hold for a datagram with a whole block of three octets, received twice.\<close>

lemma datagram_small:
  assumes "length (ds_data ds) < 2 ^ 62"
  shows "length (encode_to_vec (wire sid (Data ds))) < 2 ^ 63"
proof -
  have "(case kind_checkpoint (ds_kind ds) of
      Some cp \<Rightarrow> encoded_len (cp_serial cp) + encoded_len (cp_report_serial cp) | None \<Rightarrow> 0) \<le> 20"
    using add_le_mono [OF encoded_len_le_10 encoded_len_le_10] by (auto split: option.split)
  moreover note le10 = encoded_len_le_10 [of "originator sid"] encoded_len_le_10 [of "snumber sid"]
    encoded_len_le_10 [of "ds_client_service ds"] encoded_len_le_10 [of "ds_offset ds"] encoded_len_le_10 [of "vec_len (ds_data ds)"]
  ultimately have "length (encode_to_vec (wire sid (Data ds))) \<le> 100 + length (ds_data ds)"
    by (simp add: length_encode_to_vec exact_encoded_len_def wire_def)
  with assms show ?thesis by simp
qed

definition sample_block :: data_segment where
  "sample_block = \<lparr>ds_client_service = 1, ds_offset = 0,
     ds_kind = RedCpEorpEob \<lparr>cp_serial = 1, cp_report_serial = 0\<rparr>, ds_data = [10, 20, 30]\<rparr>"

lemma sample_block_parses:
  "parse_segment (encode_to_vec (wire (SessionId 7 1) (Data sample_block)))
   = Inr (wire (SessionId 7 1) (Data sample_block), length (encode_to_vec (wire (SessionId 7 1) (Data sample_block))))"
  using parse_segment_encode [of "wire (SessionId 7 1) (Data sample_block)" "[]"]
    datagram_small [of sample_block "SessionId 7 1"]
  by (simp add: wf_segment_def wire_def sample_block_def)

theorem red_delivery_exact_witness:
  "let datagram = encode_to_vec (wire (SessionId 7 1) (Data sample_block))
   in \<exists>e. run_events [Incoming 7 datagram 10, Tick 20, Incoming 7 datagram 30] (engine_new default_config) = Some e
     \<and> (\<forall>sid peer service data whole. RedPartReceived sid peer service data whole \<in> set (en_notices e) \<longrightarrow>
          peer = originator sid \<and> service = 1 \<and> data = [10, 20, 30] \<and> whole)"
proof -
  let ?T = "\<lambda>_ :: session_id. \<lparr>tr_service = 1, tr_red = [10, 20, 30], tr_all_red = True\<rparr>"
  let ?d = "encode_to_vec (wire (SessionId 7 1) (Data sample_block))"
  have "truthful ?T (Incoming 7 ?d t)" for t
    by (simp add: sample_block_parses) (simp add: wire_def sample_block_def genuine_def fits_def)
  moreover have "length ?d < 2 ^ 63" by (rule datagram_small) (simp add: sample_block_def)
  ultimately show ?thesis
    using red_delivery_exact [of default_config ?T "[Incoming 7 ?d 10, Tick 20, Incoming 7 ?d 30]"]
    by (simp add: default_config_def Let_def)
qed

text \<open>The datagrams of one request.\<close>

lemma request_datagrams_genuine:
  assumes small: "length block < 2 ^ 63" and acc: "accepted e block red_len" and idle: "en_outbound e = []"
    and run: "request_transmission peer cs block red_len now e = Some (r, e')"
    and d: "(p, datagram) \<in> set (en_outbound e')" "length datagram < 2 ^ 63"
  shows "truthful (\<lambda>_. transmission_of cs block red_len) (Incoming q datagram t)"
proof -
  let ?sid = "SessionId (ec_engine_id (en_config e)) (en_next_session_number e)"
  from request_transmission_spec [OF small acc, of peer cs now] obtain reds greens where
    plan: "plan_ok block (unat red_len) reds greens" "\<forall>d\<in>set (reds @ greens). ds_client_service d = cs"
    and out: "en_outbound e' = data_out peer ?sid (reds @ greens)"
    using run idle by (auto simp del: data_out_simps)
  then obtain ds where ds: "ds \<in> set (reds @ greens)" "datagram = encode_to_vec (wire ?sid (Data ds))"
    using d(1) by (auto simp: data_out_def)
  then have "genuine (transmission_of cs block red_len) ds \<and> wf_segment (wire ?sid (Data ds))"
    using plan small by (intro plan_genuine) auto
  moreover from this have "parse_segment datagram = Inr (wire ?sid (Data ds), length datagram)"
    using parse_segment_encode [of "wire ?sid (Data ds)" "[]"] d(2) ds(2) by simp
  ultimately show ?thesis by (simp add: wire_def)
qed

text \<open>C1: sender and receiver together.  One engine accepts a block for transmission and its datagrams are carried to
  another, new engine: any of them, in any order, any number of times, between any requests, ticks
  and polls there.  The receiver runs without panic and delivers nothing but the red part of the
  block, attributed to the session's originator, with the client service of the request.\<close>

theorem end_to_end_red_part:
  assumes "length block < 2 ^ 63" and "accepted e block red_len" and "en_outbound e = []"
    and "request_transmission peer cs block red_len now e = Some (r, e')"
    and "ec_max_block_size cfg \<noteq> - 1" and "\<forall>ev\<in>set evs. event_small ev"
    and "\<forall>q datagram t. Incoming q datagram t \<in> set evs \<longrightarrow> datagram \<in> snd ` set (en_outbound e')"
  shows "\<exists>f. run_events evs (engine_new cfg) = Some f
    \<and> (\<forall>sid p service data whole. RedPartReceived sid p service data whole \<in> set (en_notices f) \<longrightarrow>
         p = originator sid \<and> service = cs \<and> data = take (unat red_len) block \<and> whole = (red_len = vec_len block))"
proof -
  let ?T = "\<lambda>_ :: session_id. transmission_of cs block red_len"
  have "event_small ev \<and> truthful ?T ev" if ev: "ev \<in> set evs" for ev
  proof (cases ev)
    case (Incoming q datagram t)
    then have "datagram \<in> snd ` set (en_outbound e')" using ev assms(7) by blast
    then obtain p where "(p, datagram) \<in> set (en_outbound e')" by auto
    moreover have "length datagram < 2 ^ 63" using ev assms(6) Incoming by fastforce
    ultimately show ?thesis using request_datagrams_genuine [OF assms(1-4)] Incoming by simp
  qed (use ev assms(6) in auto)
  moreover have "length (tr_red (?T sid)) < 2 ^ 63" for sid using assms(1) by (simp add: transmission_of_def)
  ultimately obtain f where f: "run_events evs (engine_new cfg) = Some f" "true_ok ?T f"
    using run_events_true [OF _ fine_new [OF assms(5)] fine_true_new, of ?T evs] by blast
  then have "\<forall>n\<in>set (en_notices f). notice_true ?T n" by (simp add: true_ok_def)
  with f(1) show ?thesis by (fastforce simp: transmission_of_def)
qed

theorem end_to_end_red_part_witness:
  "\<exists>r e'. request_transmission 2 5 [10, 20, 30] 2 50 (engine_new default_config) = Some (r, e')
    \<and> (\<exists>f. run_events (map (\<lambda>p. Incoming 1 (snd p) 60) (rev (en_outbound e'))) (engine_new (default_config\<lparr>ec_engine_id := 2\<rparr>)) = Some f
      \<and> (\<forall>sid p service data whole. RedPartReceived sid p service data whole \<in> set (en_notices f) \<longrightarrow>
           p = originator sid \<and> service = 5 \<and> data = [10, 20] \<and> \<not> whole))"
proof -
  let ?e = "engine_new default_config" and ?block = "[10, 20, 30] :: bytes"
  have acc: "accepted ?e ?block 2" by (simp add: accepted_def engine_new_def default_config_def vec_len_def)
  have idle: "en_outbound ?e = []" by (simp add: engine_new_def)
  obtain reds greens r e' where run: "request_transmission 2 5 ?block 2 50 ?e = Some (r, e')"
    and plan: "plan_ok ?block 2 reds greens"
    and out: "en_outbound e' = data_out 2 (SessionId (ec_engine_id (en_config ?e)) (en_next_session_number ?e)) (reds @ greens)"
    using request_transmission_spec [OF _ acc, of 2 5 50] idle by (auto simp del: data_out_simps)
  have "tiles ?block 0 (reds @ greens) (length ?block)"
    using plan by (auto simp: plan_ok_def tiles_append)
  then have "length (ds_data d) \<le> 3" if "d \<in> set (reds @ greens)" for d
    using tiles_within [OF _ that, of ?block 0 "length ?block"] by simp
  then have "length d < 2 ^ 63" if "(p, d) \<in> set (en_outbound e')" for p d
    using that datagram_small by (fastforce simp: out data_out_def)
  then have "\<forall>ev\<in>set (map (\<lambda>p. Incoming 1 (snd p) 60) (rev (en_outbound e'))). event_small ev" by auto
  from end_to_end_red_part [OF _ acc idle run _ this, of "default_config\<lparr>ec_engine_id := 2\<rparr>"] run show ?thesis
    by (fastforce simp: default_config_def vec_len_def)
qed

end
