(* ===== verification/Kiss.thy ===== *)
theory Kiss
  imports Prelude
begin

text \<open>
  The KISS framing codec (\<^verbatim>\<open>ltp/src/kiss.rs\<close>): escaping, frames, and the decoder that
  resynchronizes on the next delimiter after a corrupted frame.  The searches of the
  \<^verbatim>\<open>memchr\<close> package are parameters; \<open>is_memchr\<close> and \<open>is_memchr2\<close> state what it documents.
\<close>

section \<open>Octets, commands, frames\<close>

definition FEND :: u8 where "FEND = 0xC0"
definition FESC :: u8 where "FESC = 0xDB"
definition TFEND :: u8 where "TFEND = 0xDC"
definition TFESC :: u8 where "TFESC = 0xDD"

lemmas kiss_octets = FEND_def FESC_def TFEND_def TFESC_def

datatype kiss_error = InvalidEscape u8 | TruncatedEscape | EmptyFrame

datatype kiss_command =
  KData | TxDelay | Persistence | SlotTime | TxTail | FullDuplex | SetHardware | Return | Unknown u8

definition command_of :: "u8 \<Rightarrow> kiss_command" where
  "command_of code =
     (let c = code AND 0x0F
      in if c = 0x00 then KData
         else if c = 0x01 then TxDelay
         else if c = 0x02 then Persistence
         else if c = 0x03 then SlotTime
         else if c = 0x04 then TxTail
         else if c = 0x05 then FullDuplex
         else if c = 0x06 then SetHardware
         else if c = 0x0F then Return
         else Unknown c)"

fun command_code :: "kiss_command \<Rightarrow> u8" where
  "command_code KData = 0x00"
| "command_code TxDelay = 0x01"
| "command_code Persistence = 0x02"
| "command_code SlotTime = 0x03"
| "command_code TxTail = 0x04"
| "command_code FullDuplex = 0x05"
| "command_code SetHardware = 0x06"
| "command_code Return = 0x0F"
| "command_code (Unknown code) = code AND 0x0F"

record kiss_frame =
  kf_port :: u8
  kf_command :: kiss_command
  kf_payload :: bytes

definition new_data :: "u8 \<Rightarrow> bytes \<Rightarrow> kiss_frame" where
  "new_data port payload = \<lparr>kf_port = port AND 0x0F, kf_command = KData, kf_payload = payload\<rparr>"

section \<open>The search functions\<close>

fun first_index :: "('a \<Rightarrow> bool) \<Rightarrow> 'a list \<Rightarrow> nat option" where
  "first_index P [] = None"
| "first_index P (x # xs) = (if P x then Some 0 else map_option Suc (first_index P xs))"

definition is_memchr :: "(u8 \<Rightarrow> bytes \<Rightarrow> nat option) \<Rightarrow> bool" where
  "is_memchr memchr \<longleftrightarrow> (\<forall>n xs. memchr n xs = first_index (\<lambda>b. b = n) xs)"

definition is_memchr2 :: "(u8 \<Rightarrow> u8 \<Rightarrow> bytes \<Rightarrow> nat option) \<Rightarrow> bool" where
  "is_memchr2 memchr2 \<longleftrightarrow> (\<forall>m n xs. memchr2 m n xs = first_index (\<lambda>b. b = m \<or> b = n) xs)"

lemma first_index_None: "first_index P xs = None \<longleftrightarrow> (\<forall>x\<in>set xs. \<not> P x)"
  by (induction xs) auto

lemma first_index_Some:
  "first_index P xs = Some i \<longleftrightarrow>
     i < length xs \<and> P (xs ! i) \<and> take i xs = takeWhile (\<lambda>x. \<not> P x) xs \<and> i = length (takeWhile (\<lambda>x. \<not> P x) xs)"
  by (induction xs arbitrary: i) (auto simp: nth_Cons split: nat.split)

section \<open>Escaping\<close>

text \<open>The loop of \<^verbatim>\<open>escape\<close>: runs without special octets are copied, a special octet becomes two.\<close>

function escape_loop :: "(u8 \<Rightarrow> u8 \<Rightarrow> bytes \<Rightarrow> nat option) \<Rightarrow> bytes \<Rightarrow> nat \<Rightarrow> bytes \<Rightarrow> bytes" where
  "escape_loop memchr2 input start out =
     (if start < length input
      then case memchr2 FEND FESC (drop start input) of
             Some rel_idx \<Rightarrow>
               let pos = start + rel_idx;
                   out = out @ take (pos - start) (drop start input)
                         @ (if input ! pos = FEND then [FESC, TFEND] else [FESC, TFESC])
               in escape_loop memchr2 input (pos + 1) out
           | None \<Rightarrow> out @ drop start input
      else out)"
  by auto

termination
  by (relation "measure (\<lambda>(m, input, start, out). length input - start)") auto

declare escape_loop.simps [simp del]

definition escape :: "(u8 \<Rightarrow> u8 \<Rightarrow> bytes \<Rightarrow> nat option) \<Rightarrow> bytes \<Rightarrow> bytes \<Rightarrow> bytes" where
  "escape memchr2 input out = escape_loop memchr2 input 0 out"

function unescape_loop :: "(u8 \<Rightarrow> bytes \<Rightarrow> nat option) \<Rightarrow> bytes \<Rightarrow> nat \<Rightarrow> bytes \<Rightarrow> kiss_error + bytes" where
  "unescape_loop memchr input start out =
     (if start < length input
      then case memchr FESC (drop start input) of
             Some rel_idx \<Rightarrow>
               let pos = start + rel_idx;
                   out = out @ take (pos - start) (drop start input);
                   next_idx = pos + 1
               in if length input \<le> next_idx then Inl TruncatedEscape
                  else if input ! next_idx = TFEND then unescape_loop memchr input (next_idx + 1) (out @ [FEND])
                  else if input ! next_idx = TFESC then unescape_loop memchr input (next_idx + 1) (out @ [FESC])
                  else Inl (InvalidEscape (input ! next_idx))
           | None \<Rightarrow> Inr (out @ drop start input)
      else Inr out)"
  by auto

termination
  by (relation "measure (\<lambda>(m, input, start, out). length input - start)") auto

declare unescape_loop.simps [simp del]

definition unescape :: "(u8 \<Rightarrow> bytes \<Rightarrow> nat option) \<Rightarrow> bytes \<Rightarrow> kiss_error + bytes" where
  "unescape memchr input =
     (case memchr FESC input of
        None \<Rightarrow> Inr input
      | Some first_fesc \<Rightarrow> unescape_loop memchr input first_fesc (take first_fesc input))"

section \<open>Frames\<close>

definition encode_frame ::
    "(u8 \<Rightarrow> u8 \<Rightarrow> bytes \<Rightarrow> nat option) \<Rightarrow> u8 \<Rightarrow> kiss_command \<Rightarrow> bytes \<Rightarrow> bytes \<Rightarrow> bytes" where
  "encode_frame memchr2 port command payload out =
     (let cmd_byte = push_bit 4 (port AND 0x0F) OR (command_code command AND 0x0F);
          out = out @ [FEND];
          out = (if cmd_byte = FEND then out @ [FESC, TFEND]
                 else if cmd_byte = FESC then out @ [FESC, TFESC]
                 else out @ [cmd_byte]);
          out = escape memchr2 payload out
      in out @ [FEND])"

fun count_fends :: "bytes \<Rightarrow> nat" where
  "count_fends [] = 0"
| "count_fends (b # bs) = (if b = FEND then Suc (count_fends bs) else 0)"

text \<open>The frame between two delimiters; \<open>None\<close> where the decoder discards it and goes on.\<close>

definition parse_slice :: "(u8 \<Rightarrow> bytes \<Rightarrow> nat option) \<Rightarrow> bytes \<Rightarrow> kiss_frame option" where
  "parse_slice memchr frame_slice =
     (let head =
        (if frame_slice = [] then None
         else if frame_slice ! 0 = FESC
         then if length frame_slice < 2 then None
              else if frame_slice ! 1 = TFEND then Some (FEND, drop 2 frame_slice)
              else if frame_slice ! 1 = TFESC then Some (FESC, drop 2 frame_slice)
              else None
         else Some (frame_slice ! 0, drop 1 frame_slice))
      in case head of
           None \<Rightarrow> None
         | Some (cmd_byte, payload_slice) \<Rightarrow>
             (case unescape memchr payload_slice of
                Inl _ \<Rightarrow> None
              | Inr payload \<Rightarrow>
                  Some \<lparr>kf_port = drop_bit 4 cmd_byte AND 0x0F, kf_command = command_of (cmd_byte AND 0x0F),
                        kf_payload = payload\<rparr>))"

function decode_loop_frames ::
    "(u8 \<Rightarrow> bytes \<Rightarrow> nat option) \<Rightarrow> bytes \<Rightarrow> nat \<Rightarrow> kiss_error + (kiss_frame \<times> nat) option" where
  "decode_loop_frames memchr buf base =
     (if base < length buf
      then let cur = drop base buf;
               start_idx = count_fends cur
           in if length cur \<le> start_idx then Inr None
              else let remaining = drop start_idx cur
                   in case memchr FEND remaining of
                        None \<Rightarrow> Inr None
                      | Some end_offset \<Rightarrow>
                          let total_consumed = base + start_idx + end_offset + 1
                          in (case parse_slice memchr (take end_offset remaining) of
                                None \<Rightarrow> decode_loop_frames memchr buf total_consumed
                              | Some frame \<Rightarrow> Inr (Some (frame, total_consumed)))
      else Inr None)"
  by auto

termination
  by (relation "measure (\<lambda>(m, buf, base). length buf - base)") auto

declare decode_loop_frames.simps [simp del]

definition decode_frame :: "(u8 \<Rightarrow> bytes \<Rightarrow> nat option) \<Rightarrow> bytes \<Rightarrow> kiss_error + (kiss_frame \<times> nat) option" where
  "decode_frame memchr buf = decode_loop_frames memchr buf 0"

section \<open>Escaping, octet by octet\<close>

fun esc :: "bytes \<Rightarrow> bytes" where
  "esc [] = []"
| "esc (b # bs) = (if b = FEND then [FESC, TFEND] else if b = FESC then [FESC, TFESC] else [b]) @ esc bs"

fun unesc :: "bytes \<Rightarrow> kiss_error + bytes" where
  "unesc [] = Inr []"
| "unesc [b] = (if b = FESC then Inl TruncatedEscape else Inr [b])"
| "unesc (b # c # bs) =
     (if b = FESC
      then if c = TFEND then map_sum id ((#) FEND) (unesc bs)
           else if c = TFESC then map_sum id ((#) FESC) (unesc bs)
           else Inl (InvalidEscape c)
      else map_sum id ((#) b) (unesc (c # bs)))"

lemma esc_append: "esc (xs @ ys) = esc xs @ esc ys"
  by (induction xs) auto

lemma esc_plain: "\<forall>b\<in>set xs. b \<noteq> FEND \<and> b \<noteq> FESC \<Longrightarrow> esc xs = xs"
  by (induction xs) auto

lemma esc_no_FEND: "FEND \<notin> set (esc xs)"
  by (induction xs) (auto simp: kiss_octets)

lemma unesc_esc: "unesc (esc xs) = Inr xs"
proof (induction xs)
  case (Cons b bs)
  then show ?case by (cases "esc bs") (auto simp: kiss_octets)
qed simp

lemma unesc_plain: "\<forall>b\<in>set xs. b \<noteq> FESC \<Longrightarrow> unesc (xs @ ys) = map_sum id ((@) xs) (unesc ys)"
proof (induction xs)
  case Nil
  then show ?case by (cases "unesc ys") auto
next
  case (Cons b bs)
  then have "unesc (b # bs @ ys) = map_sum id ((#) b) (unesc (bs @ ys))"
    by (cases "bs @ ys") auto
  with Cons show ?case by (cases "unesc ys") auto
qed

text \<open>The first octet that satisfies \<open>P\<close> splits the rest of the input.\<close>

lemma first_index_split:
  assumes "first_index P (drop start input) = Some rel"
  shows "drop start input = take rel (drop start input) @ input ! (start + rel) # drop (start + rel + 1) input"
    and "P (input ! (start + rel))" "\<forall>b\<in>set (take rel (drop start input)). \<not> P b" "start + rel < length input"
proof -
  from assms have i: "rel < length (drop start input)" "P (drop start input ! rel)"
    "take rel (drop start input) = takeWhile (\<lambda>x. \<not> P x) (drop start input)"
    by (auto simp: first_index_Some)
  then show "drop start input = take rel (drop start input) @ input ! (start + rel) # drop (start + rel + 1) input"
    using id_take_nth_drop [OF i(1)] by (simp add: add.commute)
  show "P (input ! (start + rel))" "start + rel < length input" using i(1,2) by auto
  show "\<forall>b\<in>set (take rel (drop start input)). \<not> P b" unfolding i(3) by (auto dest: set_takeWhileD)
qed

lemma escape_loop_esc:
  assumes "is_memchr2 memchr2"
  shows "escape_loop memchr2 input start out = out @ esc (drop start input)"
  using assms
proof (induction memchr2 input start out rule: escape_loop.induct)
  case (1 memchr2 input start out)
  let ?P = "\<lambda>b. b = FEND \<or> b = FESC"
  have search: "memchr2 FEND FESC (drop start input) = first_index ?P (drop start input)"
    using "1.prems" by (simp add: is_memchr2_def)
  show ?case
  proof (cases "start < length input")
    case True
    show ?thesis
    proof (cases "first_index ?P (drop start input)")
      case None
      then have "esc (drop start input) = drop start input" by (intro esc_plain) (simp add: first_index_None)
      then show ?thesis using True None search by (subst escape_loop.simps) simp
    next
      case (Some rel)
      let ?c = "input ! (start + rel)" and ?run = "take rel (drop start input)"
      note split = first_index_split [OF Some]
      have "esc ?run = ?run" using split(3) by (intro esc_plain) simp
      then have "esc (drop start input) = ?run @ (if ?c = FEND then [FESC, TFEND] else [FESC, TFESC])
          @ esc (drop (start + rel + 1) input)"
        using split(2) by (subst split(1)) (auto simp: esc_append)
      then show ?thesis
        using True Some search "1.IH" [OF True, of rel] "1.prems" by (subst escape_loop.simps) (simp add: Let_def)
    qed
  qed (subst escape_loop.simps, simp)
qed

lemma escape_esc: "is_memchr2 memchr2 \<Longrightarrow> escape memchr2 input out = out @ esc input"
  by (simp add: escape_def escape_loop_esc)

lemma map_sum_append: "map_sum id ((@) xs) (map_sum id ((@) ys) r) = map_sum id ((@) (xs @ ys)) r"
  by (cases r) simp_all

lemma unescape_loop_unesc:
  assumes "is_memchr memchr"
  shows "unescape_loop memchr input start out = map_sum id ((@) out) (unesc (drop start input))"
  using assms
proof (induction memchr input start out rule: unescape_loop.induct)
  case (1 memchr input start out)
  let ?P = "\<lambda>b. b = FESC" and ?ys = "drop start input"
  have search: "memchr FESC ?ys = first_index ?P ?ys" using "1.prems" by (simp add: is_memchr_def)
  show ?case
  proof (cases "start < length input")
    case True
    show ?thesis
    proof (cases "first_index ?P ?ys")
      case None
      then have "unesc (?ys @ []) = map_sum id ((@) ?ys) (unesc [])" by (intro unesc_plain) (simp add: first_index_None)
      then show ?thesis using True None search by (subst unescape_loop.simps) simp
    next
      case (Some rel)
      let ?run = "take rel ?ys" and ?rest = "drop (start + rel + 1) input"
      note split = first_index_split [OF Some]
      have "unesc (?run @ FESC # ?rest) = map_sum id ((@) ?run) (unesc (FESC # ?rest))"
        using split(3) by (intro unesc_plain) simp
      then have ys: "unesc ?ys = map_sum id ((@) ?run) (unesc (FESC # ?rest))"
        using split(1,2) by simp
      show ?thesis
      proof (cases "length input \<le> start + rel + 1")
        case True
        then show ?thesis using \<open>start < length input\<close> Some search ys by (subst unescape_loop.simps) (simp add: Let_def)
      next
        case False
        then have rest: "drop (Suc (start + rel)) input = input ! Suc (start + rel) # drop (Suc (Suc (start + rel))) input"
          by (simp add: Cons_nth_drop_Suc)
        have differ: "TFEND \<noteq> TFESC" by (simp add: kiss_octets)
        show ?thesis
          using True False Some search "1.IH" [OF True, of rel] "1.prems" differ
          by (subst unescape_loop.simps)
            (cases "unesc (drop (Suc (Suc (start + rel))) input)"; auto simp: Let_def ys rest)
      qed
    qed
  qed (subst unescape_loop.simps, simp)
qed

lemma unescape_unesc:
  assumes "is_memchr memchr"
  shows "unescape memchr input = unesc input"
proof (cases "first_index (\<lambda>b. b = FESC) input")
  case None
  then show ?thesis
    using assms unesc_plain [of input "[]"] by (simp add: unescape_def is_memchr_def) (simp add: first_index_None)
next
  case (Some i)
  then have run: "\<forall>b\<in>set (take i input). b \<noteq> FESC" using first_index_split(3) [of _ 0] by simp
  have "unesc input = map_sum id ((@) (take i input)) (unesc (drop i input))"
    using unesc_plain [OF run, of "drop i input"] by simp
  then show ?thesis
    using assms Some by (simp add: unescape_def unescape_loop_unesc is_memchr_def)
qed

section \<open>The decoder, slice by slice\<close>

definition frame_of :: "u8 \<Rightarrow> bytes \<Rightarrow> kiss_frame" where
  "frame_of cmd_byte payload =
     \<lparr>kf_port = drop_bit 4 cmd_byte AND 0x0F, kf_command = command_of (cmd_byte AND 0x0F), kf_payload = payload\<rparr>"

fun head_frame :: "kiss_error + bytes \<Rightarrow> kiss_frame option" where
  "head_frame (Inr (cmd # payload)) = Some (frame_of cmd payload)"
| "head_frame _ = None"

lemma head_frame_cons: "head_frame (map_sum id ((#) c) r) = (case r of Inr p \<Rightarrow> Some (frame_of c p) | Inl _ \<Rightarrow> None)"
  by (cases r) simp_all

text \<open>A frame is accepted exactly when its slice unescapes to at least a command octet.\<close>

lemma parse_slice_unesc:
  assumes "is_memchr memchr"
  shows "parse_slice memchr part = head_frame (unesc part)"
proof -
  have differ: "TFEND \<noteq> TFESC" by (simp add: kiss_octets)
  show ?thesis
    using differ
    by (cases part rule: unesc.cases)
      (auto simp: parse_slice_def unescape_unesc [OF assms] frame_of_def head_frame_cons split: sum.split)
qed

function kiss_next :: "bytes \<Rightarrow> (kiss_frame \<times> nat) option" where
  "kiss_next buf =
     (let body = dropWhile (\<lambda>b. b = FEND) buf;
          part = takeWhile (\<lambda>b. b \<noteq> FEND) body;
          used = (length buf - length body) + length part + 1
      in if FEND \<notin> set body then None
         else case head_frame (unesc part) of
                Some f \<Rightarrow> Some (f, used)
              | None \<Rightarrow> map_option (\<lambda>(f, n). (f, used + n)) (kiss_next (drop used buf)))"
  by auto

termination
proof (relation "measure length", goal_cases)
  case (2 buf)
  then have "buf \<noteq> []" by auto
  then show ?case using 2 by simp
qed simp

declare kiss_next.simps [simp del]

lemma count_fends_dropWhile:
  "count_fends xs + length (dropWhile (\<lambda>b. b = FEND) xs) = length xs"
  "drop (count_fends xs) xs = dropWhile (\<lambda>b. b = FEND) xs"
  by (induction xs) auto

lemma decode_loop_next:
  assumes "is_memchr memchr"
  shows "decode_loop_frames memchr buf base = Inr (map_option (\<lambda>(f, n). (f, base + n)) (kiss_next (drop base buf)))"
  using assms
proof (induction memchr buf base rule: decode_loop_frames.induct)
  case (1 memchr buf base)
  let ?cur = "drop base buf"
  let ?body = "dropWhile (\<lambda>b. b = FEND) ?cur"
  have count: "count_fends ?cur = length ?cur - length ?body" "drop (count_fends ?cur) ?cur = ?body"
    "length ?body \<le> length ?cur"
    using count_fends_dropWhile [of ?cur] by (simp_all add: length_dropWhile_le)
  have search: "memchr FEND ?body = first_index (\<lambda>b. b = FEND) ?body" using "1.prems" by (simp add: is_memchr_def)
  show ?case
  proof (cases "base < length buf")
    case False
    then have "kiss_next ?cur = None" by (subst kiss_next.simps) (simp add: Let_def)
    then show ?thesis using False by (subst decode_loop_frames.simps) simp
  next
    case True
    show ?thesis
    proof (cases "FEND \<in> set ?body")
      case False
      then have "kiss_next ?cur = None" by (subst kiss_next.simps) (simp add: Let_def)
      moreover have "memchr FEND ?body = None" using False search by (auto simp: first_index_None)
      ultimately show ?thesis
        using True count by (subst decode_loop_frames.simps) (simp add: Let_def)
    next
      case in_body: True
      then have "first_index (\<lambda>b. b = FEND) ?body \<noteq> None" by (auto simp: first_index_None)
      then obtain k where k: "memchr FEND ?body = Some k" using search by auto
      then have slice: "take k ?body = takeWhile (\<lambda>b. b \<noteq> FEND) ?body" "k = length (takeWhile (\<lambda>b. b \<noteq> FEND) ?body)"
        using search first_index_Some [of "\<lambda>b. b = FEND" ?body k] by metis+
      let ?used = "count_fends ?cur + k + 1"
      have pos: "\<not> length ?cur \<le> count_fends ?cur" using in_body count by (cases ?body) auto
      have used: "length ?cur - length ?body + length (takeWhile (\<lambda>b. b \<noteq> FEND) ?body) + 1 = ?used"
        using slice(2) count(1) by simp
      have rest: "drop ?used ?cur = drop (base + ?used) buf" by (simp add: add.commute)
      have next_eq: "kiss_next ?cur = (case parse_slice memchr (take k ?body) of
          Some f \<Rightarrow> Some (f, ?used)
        | None \<Rightarrow> map_option (\<lambda>(f, n). (f, ?used + n)) (kiss_next (drop (base + ?used) buf)))"
        using in_body unfolding parse_slice_unesc [OF "1.prems"] slice(1) rest [symmetric]
        by (subst kiss_next.simps) (simp only: Let_def used if_False not_True_eq_False)
      show ?thesis
      proof (cases "parse_slice memchr (take k ?body)")
        case (Some f)
        then show ?thesis
          using True pos k count(2) next_eq by (subst decode_loop_frames.simps) (simp add: Let_def)
      next
        case None
        then have "decode_loop_frames memchr buf base = decode_loop_frames memchr buf (base + ?used)"
          using True pos k count(2) by (subst decode_loop_frames.simps) (simp add: Let_def add.assoc)
        also have "\<dots> = Inr (map_option (\<lambda>(f, n). (f, base + ?used + n)) (kiss_next (drop (base + ?used) buf)))"
          using "1.IH" [OF True refl refl pos refl, unfolded count(2), OF k refl None "1.prems"]
          by (simp add: add.assoc)
        also have "\<dots> = Inr (map_option (\<lambda>(f, n). (f, base + n)) (kiss_next ?cur))"
          using None by (simp add: next_eq option.map_comp comp_def split_def add.assoc)
        finally show ?thesis .
      qed
    qed
  qed
qed

lemma decode_frame_next: "is_memchr memchr \<Longrightarrow> decode_frame memchr buf = Inr (kiss_next buf)"
  by (simp add: decode_frame_def decode_loop_next option.map_id)

section \<open>Streams\<close>

text \<open>One delimiter-free part and its delimiter, possibly after other delimiters.\<close>

lemma kiss_next_part:
  assumes "part \<noteq> []" "FEND \<notin> set part"
  shows "kiss_next (replicate n FEND @ part @ FEND # rest)
    = (case head_frame (unesc part) of
         Some f \<Rightarrow> Some (f, n + length part + 1)
       | None \<Rightarrow> map_option (\<lambda>(f, k). (f, n + length part + 1 + k)) (kiss_next rest))"
proof -
  let ?buf = "replicate n FEND @ part @ FEND # rest"
  have "hd part \<noteq> FEND" using assms by (metis hd_in_set)
  then have body: "dropWhile (\<lambda>b. b = FEND) ?buf = part @ FEND # rest"
    using assms(1) by (cases part) (simp_all add: dropWhile_append)
  have "\<forall>b\<in>set part. b \<noteq> FEND" using assms(2) by auto
  then have part: "takeWhile (\<lambda>b. b \<noteq> FEND) (part @ FEND # rest) = part" by simp
  have used: "length ?buf - length (part @ FEND # rest) + length part + 1 = n + length part + 1"
    and rest: "drop (n + length part + 1) ?buf = rest" by simp_all
  show ?thesis by (subst kiss_next.simps) (simp only: Let_def body part used rest, simp)
qed

lemma kiss_next_open: "FEND \<notin> set r \<Longrightarrow> kiss_next (replicate n FEND @ r) = None"
proof -
  assume "FEND \<notin> set r"
  moreover from this have "dropWhile (\<lambda>b. b = FEND) (replicate n FEND @ r) = r"
    by (cases r) (auto simp: dropWhile_append)
  ultimately show ?thesis by (subst kiss_next.simps) (simp only: Let_def, simp)
qed

text \<open>A buffer holds no delimited part, or a first one.\<close>

lemma kiss_cases:
  obtains (opened) n r where "a = replicate n FEND @ r" "FEND \<notin> set r"
  | (part) n part rest where "a = replicate n FEND @ part @ FEND # rest" "part \<noteq> []" "FEND \<notin> set part"
proof -
  define n where "n = length (takeWhile (\<lambda>b. b = FEND) a)"
  define r where "r = dropWhile (\<lambda>b. b = FEND) a"
  have "takeWhile (\<lambda>b. b = FEND) a = replicate n FEND"
    unfolding n_def by (rule replicate_eqI [symmetric, THEN sym]) (auto dest: set_takeWhileD)
  then have a: "a = replicate n FEND @ r" using takeWhile_dropWhile_id [of "\<lambda>b. b = FEND" a] by (simp add: r_def)
  show ?thesis
  proof (cases "FEND \<in> set r")
    case False
    then show ?thesis using a opened by blast
  next
    case True
    then obtain xs ys where r: "r = xs @ FEND # ys" "FEND \<notin> set xs" by (meson split_list_first)
    then have "r \<noteq> []" by auto
    then have "hd r \<noteq> FEND" using hd_dropWhile [of "\<lambda>b. b = FEND" a] by (simp add: r_def)
    then have "xs \<noteq> []" using r(1) by auto
    then show ?thesis using a r part by blast
  qed
qed

lemma replicate_FEND: "replicate n FEND @ replicate m FEND @ xs = replicate (n + m) FEND @ xs"
  by (simp add: replicate_add)

lemma kiss_next_delimiters: "kiss_next (replicate n FEND @ a) = map_option (\<lambda>(f, k). (f, n + k)) (kiss_next a)"
proof (cases a rule: kiss_cases)
  case (opened m r)
  then show ?thesis by (simp add: replicate_FEND kiss_next_open)
next
  case (part m p rest)
  show ?thesis
    unfolding part(1) replicate_FEND kiss_next_part [OF part(2,3)]
    by (simp add: option.map_comp comp_def split_def add.assoc split: option.split)
qed

text \<open>What follows in the stream does not change a frame that is complete.\<close>

lemma kiss_next_prefix:
  "kiss_next a = Some (f, k) \<Longrightarrow> 0 < k \<and> k \<le> length a \<and> kiss_next (a @ b) = Some (f, k)"
proof (induction "length a" arbitrary: a k rule: less_induct)
  case less
  show ?case
  proof (cases a rule: kiss_cases)
    case (opened m r)
    then show ?thesis using less.prems by (simp add: kiss_next_open)
  next
    case (part m p rest)
    have ab: "a @ b = replicate m FEND @ p @ FEND # (rest @ b)" by (simp add: part(1))
    show ?thesis
    proof (cases "head_frame (unesc p)")
      case (Some g)
      then have "f = g" "k = m + length p + 1"
        using less.prems unfolding part(1) kiss_next_part [OF part(2,3)] by auto
      then show ?thesis unfolding ab kiss_next_part [OF part(2,3)] by (simp add: Some part(1))
    next
      case None
      then obtain j where j: "kiss_next rest = Some (f, j)" "k = m + length p + 1 + j"
        using less.prems unfolding part(1) kiss_next_part [OF part(2,3)] by auto
      have "length rest < length a" by (simp add: part(1))
      from less.hyps [OF this j(1)] show ?thesis
        using None unfolding ab kiss_next_part [OF part(2,3)] by (simp add: j(2) part(1))
    qed
  qed
qed

text \<open>After a delimiter the decoder starts afresh, whatever came before.\<close>

lemma kiss_next_resync:
  "kiss_next a = None \<Longrightarrow> a = [] \<or> last a = FEND \<Longrightarrow> kiss_next (a @ b) = map_option (\<lambda>(f, k). (f, length a + k)) (kiss_next b)"
proof (induction "length a" arbitrary: a rule: less_induct)
  case less
  show ?case
  proof (cases a rule: kiss_cases)
    case (opened m r)
    then have "r = []" using less.prems(2) by (cases r rule: rev_cases) auto
    then show ?thesis by (simp add: opened(1) kiss_next_delimiters)
  next
    case (part m p rest)
    have ab: "a @ b = replicate m FEND @ p @ FEND # (rest @ b)" by (simp add: part(1))
    have none: "head_frame (unesc p) = None" "kiss_next rest = None"
      using less.prems(1) unfolding part(1) kiss_next_part [OF part(2,3)] by (auto split: option.splits)
    have "length rest < length a" "rest = [] \<or> last rest = FEND"
      using less.prems(2) by (auto simp: part(1) split: if_splits)
    from less.hyps [OF this(1) none(2) this(2)] show ?thesis
      unfolding ab kiss_next_part [OF part(2,3)]
      by (simp add: none(1) part(1) option.map_comp comp_def split_def add.assoc)
  qed
qed

text \<open>All frames of a buffer and what is left of it.\<close>

function kiss_frames :: "bytes \<Rightarrow> kiss_frame list \<times> bytes" where
  "kiss_frames buf =
     (case kiss_next buf of
        None \<Rightarrow> ([], buf)
      | Some (f, k) \<Rightarrow> map_prod ((#) f) id (kiss_frames (drop k buf)))"
  by auto

termination
proof (relation "measure length", goal_cases)
  case (2 buf x2 f k)
  then have "0 < k \<and> k \<le> length buf" using kiss_next_prefix [of buf f k "[]"] by simp
  then show ?case by simp linarith
qed simp

declare kiss_frames.simps [simp del]

lemma kiss_frames_append:
  "kiss_frames (a @ b) = map_prod ((@) (fst (kiss_frames a))) id (kiss_frames (snd (kiss_frames a) @ b))"
proof (induction a rule: kiss_frames.induct)
  case (1 a)
  show ?case
  proof (cases "kiss_next a")
    case None
    then show ?thesis by (simp add: kiss_frames.simps [of a] prod.map_id0)
  next
    case (Some p)
    obtain f k where p: "p = (f, k)" by fastforce
    note pre = kiss_next_prefix [OF Some [unfolded p], of b]
    have "kiss_frames (a @ b) = map_prod ((#) f) id (kiss_frames (drop k a @ b))"
      using pre by (subst kiss_frames.simps) simp
    also have "\<dots> = map_prod ((#) f) id (map_prod ((@) (fst (kiss_frames (drop k a)))) id
        (kiss_frames (snd (kiss_frames (drop k a)) @ b)))"
      unfolding "1.IH" [OF Some p [symmetric]] ..
    finally show ?thesis
      using Some p by (simp add: kiss_frames.simps [of a] map_prod.compositionality comp_def)
  qed
qed

lemma kiss_frames_rest: "kiss_next (snd (kiss_frames a)) = None"
proof (induction a rule: kiss_frames.induct)
  case (1 a)
  then show ?case by (cases "kiss_next a") (auto simp: kiss_frames.simps [of a])
qed

section \<open>Properties\<close>

lemma and_0F: "(x :: u8) AND 0x0F = take_bit 4 x"
  by (simp add: take_bit_eq_mask mask_eq_exp_minus_1)

definition cmd_octet :: "u8 \<Rightarrow> kiss_command \<Rightarrow> u8" where
  "cmd_octet port command = push_bit 4 (port AND 0x0F) OR (command_code command AND 0x0F)"

lemma cmd_octet_port: "drop_bit 4 (cmd_octet port command) AND 0x0F = port AND 0x0F"
  unfolding cmd_octet_def and_0F by (rule bit_word_eqI) (auto simp: bit_simps)

lemma cmd_octet_command: "cmd_octet port command AND 0x0F = command_code command AND 0x0F"
  unfolding cmd_octet_def and_0F by (rule bit_word_eqI) (auto simp: bit_simps)

lemma command_of_masked: "command_of (c AND 0x0F) = command_of c"
  by (simp add: command_of_def Let_def)

definition frame_body :: "u8 \<Rightarrow> kiss_command \<Rightarrow> bytes \<Rightarrow> bytes" where
  "frame_body port command payload = esc (cmd_octet port command # payload)"

lemma frame_body: "FEND \<notin> set (frame_body port command payload)" "frame_body port command payload \<noteq> []"
    "unesc (frame_body port command payload) = Inr (cmd_octet port command # payload)"
  unfolding frame_body_def by (rule esc_no_FEND, simp, rule unesc_esc)

definition frame_bytes :: "u8 \<Rightarrow> kiss_command \<Rightarrow> bytes \<Rightarrow> bytes" where
  "frame_bytes port command payload =
     FEND # frame_body port command payload @ [FEND]"

lemma encode_frame_bytes:
  "is_memchr2 memchr2 \<Longrightarrow> encode_frame memchr2 port command payload out = out @ frame_bytes port command payload"
  unfolding encode_frame_def cmd_octet_def [symmetric] Let_def by (simp add: escape_esc frame_bytes_def frame_body_def)

lemma kiss_next_frame_bytes:
  "kiss_next (replicate n FEND @ frame_bytes port command payload @ rest)
   = Some (\<lparr>kf_port = port AND 0x0F, kf_command = command_of (command_code command), kf_payload = payload\<rparr>,
           n + length (frame_bytes port command payload))"
proof -
  let ?p = "frame_body port command payload"
  have buf: "replicate n FEND @ frame_bytes port command payload @ rest = replicate (Suc n) FEND @ ?p @ FEND # rest"
    by (simp add: frame_bytes_def replicate_append_same [symmetric])
  show ?thesis
    unfolding buf kiss_next_part [OF frame_body(2,1)]
    by (simp add: frame_body(3) frame_of_def cmd_octet_port cmd_octet_command command_of_masked frame_bytes_def)
qed

text \<open>Unless a command is an \<open>Unknown\<close> whose code is a known one, its code gives it back.\<close>

lemma command_of_code: "(\<forall>c. command \<noteq> Unknown c) \<Longrightarrow> command_of (command_code command) = command"
  by (cases command) (simp_all add: command_of_def Let_def)

text \<open>C9: a frame survives the stream.  After any number of delimiters, and whatever octets follow, the
  decoder returns the port nibble, the command and the very payload that were encoded, and consumes
  exactly the frame; inside the frame the delimiter does not occur.\<close>

theorem kiss_frame_roundtrip:
  assumes "is_memchr memchr" and "is_memchr2 memchr2"
  shows "decode_frame memchr (replicate n FEND @ encode_frame memchr2 port command payload [] @ rest)
      = Inr (Some (\<lparr>kf_port = port AND 0x0F, kf_command = command_of (command_code command), kf_payload = payload\<rparr>,
                   n + length (encode_frame memchr2 port command payload [])))
    \<and> (\<exists>part. encode_frame memchr2 port command payload [] = FEND # part @ [FEND] \<and> FEND \<notin> set part)"
proof -
  have bytes: "encode_frame memchr2 port command payload [] = frame_bytes port command payload"
    by (simp add: encode_frame_bytes [OF assms(2)])
  have "\<exists>part. frame_bytes port command payload = FEND # part @ [FEND] \<and> FEND \<notin> set part"
    using frame_body(1) by (auto simp: frame_bytes_def)
  then show ?thesis by (simp add: bytes decode_frame_next [OF assms(1)] kiss_next_frame_bytes)
qed

text \<open>The decoder resynchronizes.  If no frame is recognized in some octets up to a delimiter, the next frame
  on the line is decoded, and the corrupted octets are consumed with it.\<close>

theorem kiss_resynchronizes:
  assumes "is_memchr memchr" and "is_memchr2 memchr2" and "decode_frame memchr (noise @ [FEND]) = Inr None"
  shows "decode_frame memchr (noise @ encode_frame memchr2 port command payload [] @ rest)
    = Inr (Some (\<lparr>kf_port = port AND 0x0F, kf_command = command_of (command_code command), kf_payload = payload\<rparr>,
                 length noise + length (encode_frame memchr2 port command payload [])))"
proof -
  let ?f = "frame_bytes port command payload"
  let ?tail = "frame_body port command payload @ [FEND]"
  let ?frame = "\<lparr>kf_port = port AND 0x0F, kf_command = command_of (command_code command), kf_payload = payload\<rparr>"
  have f: "?f = FEND # ?tail" by (simp add: frame_bytes_def)
  have tail: "kiss_next (?tail @ rest) = Some (?frame, length ?tail)"
    using kiss_next_part [OF frame_body(2,1), of 0 port command payload rest]
    by (simp add: frame_body(3) frame_of_def cmd_octet_port cmd_octet_command command_of_masked)
  have "kiss_next ((noise @ [FEND]) @ (?tail @ rest)) = Some (?frame, length (noise @ [FEND]) + length ?tail)"
    using assms(3) tail by (subst kiss_next_resync) (simp_all add: decode_frame_next [OF assms(1)])
  then show ?thesis
    by (simp add: encode_frame_bytes [OF assms(2)] decode_frame_next [OF assms(1)] f)
qed

definition memchr_model :: "u8 \<Rightarrow> bytes \<Rightarrow> nat option" where
  "memchr_model n = first_index (\<lambda>b. b = n)"

definition memchr2_model :: "u8 \<Rightarrow> u8 \<Rightarrow> bytes \<Rightarrow> nat option" where
  "memchr2_model m n = first_index (\<lambda>b. b = m \<or> b = n)"

lemma search_models: "is_memchr memchr_model" "is_memchr2 memchr2_model"
  by (simp_all add: is_memchr_def memchr_model_def is_memchr2_def memchr2_model_def)

theorem kiss_frame_roundtrip_witness:
  "decode_frame memchr_model (replicate 2 FEND @ encode_frame memchr2_model 2 KData [1, 0xC0, 0xDB] [] @ [9])
      = Inr (Some (\<lparr>kf_port = 2, kf_command = KData, kf_payload = [1, 0xC0, 0xDB]\<rparr>,
                   2 + length (encode_frame memchr2_model 2 KData [1, 0xC0, 0xDB] [])))
    \<and> (\<exists>part. encode_frame memchr2_model 2 KData [1, 0xC0, 0xDB] [] = FEND # part @ [FEND] \<and> FEND \<notin> set part)"
  using kiss_frame_roundtrip [OF search_models, of 2 2 KData "[1, 0xC0, 0xDB]" "[9]"]
  by (simp add: command_of_code del: command_code.simps)

text \<open>An invalid escape sequence between two delimiters is such noise.\<close>

lemma sample_noise: "decode_frame memchr_model ([FEND, 0, FESC, 0] @ [FEND]) = Inr None"
proof -
  have "kiss_next (replicate 1 FEND @ [0, FESC, 0] @ FEND # []) = None"
    by (subst kiss_next_part) (auto simp: kiss_octets kiss_next_open [of "[]" 0, simplified])
  then show ?thesis by (simp add: decode_frame_next [OF search_models(1)])
qed

theorem kiss_resynchronizes_witness:
  "decode_frame memchr_model ([FEND, 0, FESC, 0] @ encode_frame memchr2_model 1 KData [0xAA] [] @ [])
    = Inr (Some (\<lparr>kf_port = 1, kf_command = KData, kf_payload = [0xAA]\<rparr>,
                 4 + length (encode_frame memchr2_model 1 KData [0xAA] [])))"
  using kiss_resynchronizes [OF search_models sample_noise, of 1 KData "[0xAA]" "[]"]
  by (simp add: command_of_code del: command_code.simps)

end
