(* ===== verification/Ltp_Config.thy ===== *)
theory Ltp_Config
  imports Engine
begin

text \<open>
  The configuration of the LTP convergence layer adapter (\<^verbatim>\<open>ltp-cla/src/config.rs\<close>) and the addresses
  under which the bundle agent knows its peers (\<^verbatim>\<open>ltp-cla/src/cla.rs\<close>).  A socket address is a numbered
  host and a port; node identifiers are the type variable \<open>'n\<close>; a \<^verbatim>\<open>Duration\<close> is its number of microseconds.
\<close>

section \<open>Socket addresses\<close>

datatype socket_addr = SocketAddr (sa_host: nat) (sa_port: u16)

instantiation socket_addr :: linorder
begin

definition less_eq_socket_addr :: "socket_addr \<Rightarrow> socket_addr \<Rightarrow> bool" where
  "less_eq_socket_addr a b \<longleftrightarrow> sa_host a < sa_host b \<or> sa_host a = sa_host b \<and> sa_port a \<le> sa_port b"

definition less_socket_addr :: "socket_addr \<Rightarrow> socket_addr \<Rightarrow> bool" where
  "less_socket_addr a b \<longleftrightarrow> sa_host a < sa_host b \<or> sa_host a = sa_host b \<and> sa_port a < sa_port b"

instance
  by standard (auto simp: less_eq_socket_addr_def less_socket_addr_def intro: socket_addr.expand)

end

section \<open>Configuration\<close>

record 'n peer_entry =
  pe_engine_id :: engine_id
  pe_address :: "socket_addr option"
  pe_node_id :: "'n option"
  pe_rtt :: "nat option"
  pe_ack_margin :: "nat option"

definition default_peer_entry :: "'n peer_entry" where
  "default_peer_entry =
     \<lparr>pe_engine_id = 0, pe_address = None, pe_node_id = None, pe_rtt = None, pe_ack_margin = None\<rparr>"

datatype transport_mode =
    Udp (udp_bind_addr: socket_addr)
  | KissTcp (kiss_server_addr: socket_addr) (kiss_bind_addr: "socket_addr option") (kiss_port: u8)
      (kiss_reconnect_initial: nat) (kiss_reconnect_max: nat) (kiss_min_frame_len: nat)

definition default_mtu :: u64 where "default_mtu = 1400"
definition default_rtt :: nat where "default_rtt = 500000"
definition default_ack_margin :: nat where "default_ack_margin = 250000"
definition default_rtx_limit :: u32 where "default_rtx_limit = 10"
definition default_reconnect_initial :: nat where "default_reconnect_initial = 500000"
definition default_reconnect_max :: nat where "default_reconnect_max = 30000000"

definition kiss_tcp :: "socket_addr \<Rightarrow> u8 \<Rightarrow> transport_mode" where
  "kiss_tcp server_addr port =
     KissTcp server_addr None port default_reconnect_initial default_reconnect_max 0"

fun with_min_frame_len :: "nat \<Rightarrow> transport_mode \<Rightarrow> transport_mode" where
  "with_min_frame_len min_len (KissTcp server bind port initial maximum _) = KissTcp server bind port initial maximum min_len"
| "with_min_frame_len min_len (Udp bind) = Udp bind"

record 'n ltp_config =
  lc_engine_id :: engine_id
  lc_transport :: "transport_mode"
  lc_max_segment_payload_len :: u64
  lc_rtt :: nat
  lc_ack_margin :: nat
  lc_checkpoint_rtx_limit :: u32
  lc_report_rtx_limit :: u32
  lc_peers :: "'n peer_entry list"

text \<open>The default, with the address \<^verbatim>\<open>0.0.0.0:1113\<close> as its argument.\<close>

definition default_ltp_config :: "socket_addr \<Rightarrow> 'n ltp_config" where
  "default_ltp_config default_udp_bind =
     \<lparr>lc_engine_id = 1, lc_transport = Udp default_udp_bind, lc_max_segment_payload_len = default_mtu,
      lc_rtt = default_rtt, lc_ack_margin = default_ack_margin, lc_checkpoint_rtx_limit = default_rtx_limit,
      lc_report_rtx_limit = default_rtx_limit, lc_peers = []\<rparr>"

text \<open>\<^verbatim>\<open>u64::try_from(d.as_micros()).unwrap_or(u64::MAX)\<close>.\<close>

definition micros_u64 :: "nat \<Rightarrow> u64" where
  "micros_u64 n = (if n < 2 ^ 64 then word_of_nat n else - 1)"

section \<open>Addresses\<close>

datatype cla_address = Private bytes | Tcp socket_addr

definition engine_id_to_cla_address :: "engine_id \<Rightarrow> cla_address" where
  "engine_id_to_cla_address engine_id = Private (to_be_bytes engine_id)"

fun cla_address_to_engine_id :: "cla_address \<Rightarrow> engine_id option" where
  "cla_address_to_engine_id (Private b) = (if length b = 8 then Some (from_be_bytes b) else None)"
| "cla_address_to_engine_id (Tcp _) = None"

end
