(* ===== verification/Ltp_Driver.thy ===== *)
theory Ltp_Driver
  imports Engine_Run Kiss Ltp_Config
begin

text \<open>
  The driver of the LTP adapter (\<^verbatim>\<open>ltp-cla/src/driver.rs\<close>): it couples the engine with a UDP socket
  or a KISS stream and with the bundle agent.  What it does to the outside is a list of effects,
  in the order it does them.  The hash maps are ordered maps; where the source takes the first key
  of one, whose choice is unspecified, the choice is the parameter \<open>any_key\<close>.  \<open>now\<close> is the
  engine's clock, \<open>clock\<close> the reading of \<^verbatim>\<open>Instant::now()\<close> in microseconds while one event is
  handled.  An operation returns \<open>None\<close> where the source panics.
\<close>

section \<open>State\<close>

datatype transfer_outcome = Completed | Failed

datatype forward_reply = ReplyAccepted | ReplyNoNeighbour | ReplyError engine_error

datatype ('n, 'b) effect =
    Dispatch "'n option" cla_address bytes
  | Outcome 'b transfer_outcome
  | AddPeer cla_address
  | SendDatagram socket_addr bytes
  | SendStream bytes
  | Reply forward_reply

datatype ('n, 'b) driver_command =
    Forward 'b engine_id bytes u64
  | RegisterPeer engine_id socket_addr "'n option"
  | UnregisterPeer engine_id
  | SetPeerTiming engine_id nat nat
  | Shutdown

record green_reassembly =
  gr_source :: engine_id
  gr_data :: bytes
  gr_received_bytes :: nat
  gr_total_len :: "nat option"
  gr_last_update :: nat

record ('n, 'b) driver =
  dr_config :: "'n ltp_config"
  dr_engine :: engine
  dr_engine_to_addr :: "(engine_id, socket_addr) btree"
  dr_addr_to_engine :: "(socket_addr, engine_id) btree"
  dr_engine_to_node :: "(engine_id, 'n) btree"
  dr_pending_transfers :: "(session_id, 'b) btree"
  dr_green_reassemblies :: "(session_id, green_reassembly) btree"

definition engine_config_of :: "'n ltp_config \<Rightarrow> engine_config" where
  "engine_config_of config = default_config
     \<lparr>ec_engine_id := lc_engine_id config,
      ec_max_segment_payload_len := lc_max_segment_payload_len config,
      ec_checkpoint_rtx_limit := lc_checkpoint_rtx_limit config,
      ec_report_rtx_limit := lc_report_rtx_limit config,
      ec_rtt_micros := micros_u64 (lc_rtt config),
      ec_ack_margin_micros := micros_u64 (lc_ack_margin config),
      ec_allowed_client_services := Some [1]\<rparr>"

definition configure_peer :: "'n peer_entry \<Rightarrow> engine \<Rightarrow> engine" where
  "configure_peer peer e =
     (case (pe_rtt peer, pe_ack_margin peer) of
        (Some rtt, Some margin) \<Rightarrow> set_peer_timing (pe_engine_id peer) (micros_u64 rtt) (micros_u64 margin) e
      | _ \<Rightarrow> e)"

definition driver_new :: "'n ltp_config \<Rightarrow> ('n, 'b) driver" where
  "driver_new config =
     \<lparr>dr_config = config,
      dr_engine = fold configure_peer (lc_peers config) (engine_new (engine_config_of config)),
      dr_engine_to_addr = [], dr_addr_to_engine = [], dr_engine_to_node = [],
      dr_pending_transfers = [], dr_green_reassemblies = []\<rparr>"

text \<open>The transfers that are pending when the driver ends have failed.\<close>

definition fail_pending :: "('n, 'b) driver \<Rightarrow> ('n, 'b) driver \<times> ('n, 'b) effect list" where
  "fail_pending d =
     (d\<lparr>dr_pending_transfers := []\<rparr>, map (\<lambda>(_, bundle_id). Outcome bundle_id Failed) (dr_pending_transfers d))"

section \<open>Padding\<close>

definition pad_segment_for_tnc :: "bytes \<Rightarrow> nat \<Rightarrow> bytes" where
  "pad_segment_for_tnc bs min_frame_len =
     (if min_frame_len = 0 \<or> min_frame_len \<le> length bs then bs
      else case parse_segment bs of
             Inl _ \<Rightarrow> bs
           | Inr (seg, consumed) \<Rightarrow>
               if consumed = length bs \<and> length (seg_trailer_ext seg) < 15
               then let cur_len = length bs;
                        pad_len = min_frame_len - (cur_len + 2);
                        pad_zeros = replicate pad_len 0
                    in encode_to_vec
                         (seg\<lparr>seg_trailer_ext := seg_trailer_ext seg @ [\<lparr>ext_tag = 0, ext_value = pad_zeros\<rparr>]\<rparr>)
               else bs)"

section \<open>Commands\<close>

definition handle_command ::
    "u64 \<Rightarrow> ('n, 'b) driver_command \<Rightarrow> ('n, 'b) driver \<Rightarrow> (bool \<times> ('n, 'b) driver \<times> ('n, 'b) effect list) option" where
  "handle_command now cmd d =
     (case cmd of
        Forward bundle_id destination data red_len \<Rightarrow>
          if bt_get (dr_engine_to_addr d) destination = None
          then Some (True, d, [Reply ReplyNoNeighbour])
          else (case request_transmission destination 1 data red_len now (dr_engine d) of
                  None \<Rightarrow> None
                | Some (Inr sid, e) \<Rightarrow>
                    Some (True, d\<lparr>dr_engine := e,
                                  dr_pending_transfers := bt_insert sid bundle_id (dr_pending_transfers d)\<rparr>,
                          [Reply ReplyAccepted])
                | Some (Inl err, e) \<Rightarrow> Some (True, d\<lparr>dr_engine := e\<rparr>, [Reply (ReplyError err)]))
      | RegisterPeer engine_id addr node_id \<Rightarrow>
          let d = d\<lparr>dr_engine_to_addr := bt_insert engine_id addr (dr_engine_to_addr d),
                    dr_addr_to_engine := bt_insert addr engine_id (dr_addr_to_engine d)\<rparr>
          in Some (True,
               (case node_id of
                  Some node \<Rightarrow> d\<lparr>dr_engine_to_node := bt_insert engine_id node (dr_engine_to_node d)\<rparr>
                | None \<Rightarrow> d), [])
      | UnregisterPeer engine_id \<Rightarrow>
          let d = (case bt_get (dr_engine_to_addr d) engine_id of
                     Some addr \<Rightarrow> d\<lparr>dr_engine_to_addr := bt_remove engine_id (dr_engine_to_addr d),
                                   dr_addr_to_engine := bt_remove addr (dr_addr_to_engine d)\<rparr>
                   | None \<Rightarrow> d)
          in Some (True, d\<lparr>dr_engine_to_node := bt_remove engine_id (dr_engine_to_node d)\<rparr>, [])
      | SetPeerTiming engine_id rtt ack_margin \<Rightarrow>
          Some (True, d\<lparr>dr_engine := set_peer_timing engine_id (micros_u64 rtt) (micros_u64 ack_margin) (dr_engine d)\<rparr>, [])
      | Shutdown \<Rightarrow> let (d, effects) = fail_pending d in Some (False, d, effects))"

section \<open>Notices\<close>

definition MAX_GREEN_REASSEMBLIES :: nat where "MAX_GREEN_REASSEMBLIES = 64"
definition MAX_GREEN_BUNDLE_SIZE :: nat where "MAX_GREEN_BUNDLE_SIZE = 16 * 1024 * 1024"

definition retain_recent :: "nat \<Rightarrow> nat \<Rightarrow> (session_id, green_reassembly) btree \<Rightarrow> (session_id, green_reassembly) btree" where
  "retain_recent clock age green = filter (\<lambda>(_, r). clock - gr_last_update r < age) green"

text \<open>Copying a segment into its reassembly buffer.\<close>

definition green_put :: "nat \<Rightarrow> u64 \<Rightarrow> nat \<Rightarrow> bytes \<Rightarrow> bool \<Rightarrow> green_reassembly \<Rightarrow> green_reassembly option" where
  "green_put clock offset end_offset data eob entry =
     (case slice_copy (vec_grow end_offset (gr_data entry)) (unat offset) end_offset data of
        None \<Rightarrow> None
      | Some buf \<Rightarrow>
          Some (entry\<lparr>gr_last_update := clock, gr_data := buf,
                  gr_received_bytes := gr_received_bytes entry + length data,
                  gr_total_len := (if eob then Some end_offset else gr_total_len entry)\<rparr>))"

definition green_done :: "green_reassembly \<Rightarrow> bool" where
  "green_done entry \<longleftrightarrow>
     (case gr_total_len entry of
        Some len \<Rightarrow> len \<le> gr_received_bytes entry \<and> length (gr_data entry) = len
      | None \<Rightarrow> False)"

definition handle_green ::
    "nat \<Rightarrow> session_id \<Rightarrow> engine_id \<Rightarrow> u64 \<Rightarrow> bytes \<Rightarrow> bool \<Rightarrow> ('n, 'b) driver
     \<Rightarrow> (('n, 'b) driver \<times> ('n, 'b) effect list) option" where
  "handle_green clock sid source offset data eob d =
     (let deliver = Dispatch (bt_get (dr_engine_to_node d) source) (engine_id_to_cla_address source)
      in if offset = 0 \<and> eob then Some (d, [deliver data])
         else case checked_add offset (vec_len data) of
           None \<Rightarrow> Some (d, [])
         | Some end_off \<Rightarrow>
             let end_offset = unat end_off
             in if MAX_GREEN_BUNDLE_SIZE < end_offset
                then Some (d\<lparr>dr_green_reassemblies := bt_remove sid (dr_green_reassemblies d)\<rparr>, [])
                else let green = dr_green_reassemblies d;
                         full = (bt_get green sid = None \<and> MAX_GREEN_REASSEMBLIES \<le> length green);
                         green = (if full then retain_recent clock 60000000 green else green)
                     in if full \<and> MAX_GREEN_REASSEMBLIES \<le> length green
                        then Some (d\<lparr>dr_green_reassemblies := green\<rparr>, [])
                        else let entry = (case bt_get green sid of
                                            Some entry \<Rightarrow> entry
                                          | None \<Rightarrow> \<lparr>gr_source = source, gr_data = [], gr_received_bytes = 0,
                                                     gr_total_len = None, gr_last_update = clock\<rparr>)
                             in case green_put clock offset end_offset data eob entry of
                                  None \<Rightarrow> None
                                | Some entry \<Rightarrow>
                                    let (green, effects) =
                                          (if green_done entry then (bt_remove sid green, [deliver (gr_data entry)])
                                           else (bt_insert sid entry green, []));
                                        green = (if 128 < length green then retain_recent clock 30000000 green else green)
                                    in Some (d\<lparr>dr_green_reassemblies := green\<rparr>, effects))"

definition settle :: "session_id \<Rightarrow> transfer_outcome \<Rightarrow> ('n, 'b) driver \<Rightarrow> ('n, 'b) driver \<times> ('n, 'b) effect list" where
  "settle sid outcome d =
     (case bt_get (dr_pending_transfers d) sid of
        None \<Rightarrow> (d, [])
      | Some bundle_id \<Rightarrow>
          (d\<lparr>dr_pending_transfers := bt_remove sid (dr_pending_transfers d)\<rparr>, [Outcome bundle_id outcome]))"

fun handle_notice ::
    "nat \<Rightarrow> notice \<Rightarrow> ('n, 'b) driver \<Rightarrow> (('n, 'b) driver \<times> ('n, 'b) effect list) option" where
  "handle_notice clock (RedPartReceived sid source client_service data eob) d =
     Some (d, if client_service \<noteq> 1 then []
              else [Dispatch (bt_get (dr_engine_to_node d) source) (engine_id_to_cla_address source) data])"
| "handle_notice clock (TransmissionSessionCompleted sid) d = Some (settle sid Completed d)"
| "handle_notice clock (TransmissionSessionCancelled sid reason) d = Some (settle sid Failed d)"
| "handle_notice clock (GreenSegmentArrived sid source offset data eob) d =
     handle_green clock sid source offset data eob d"

lemma handle_green_engine: "handle_green clock sid source offset data eob d = Some (d', effects) \<Longrightarrow> dr_engine d' = dr_engine d"
  by (auto simp: handle_green_def Let_def split: if_splits option.splits)

lemma handle_notice_engine: "handle_notice clock n d = Some (d', effects) \<Longrightarrow> dr_engine d' = dr_engine d"
  by (cases n) (auto simp: settle_def handle_green_engine split: option.splits)

text \<open>The loop over the notices of the engine.\<close>

function drain_notices :: "nat \<Rightarrow> ('n, 'b) driver \<Rightarrow> (('n, 'b) driver \<times> ('n, 'b) effect list) option" where
  "drain_notices clock d =
     (case poll_notice (dr_engine d) of
        (None, e) \<Rightarrow> Some (d\<lparr>dr_engine := e\<rparr>, [])
      | (Some n, e) \<Rightarrow>
          (case handle_notice clock n (d\<lparr>dr_engine := e\<rparr>) of
             None \<Rightarrow> None
           | Some (d, effects) \<Rightarrow>
               (case drain_notices clock d of
                  None \<Rightarrow> None
                | Some (d, effects') \<Rightarrow> Some (d, effects @ effects'))))"
  by pat_completeness auto

termination
  by (relation "measure (\<lambda>(clock, d). length (en_notices (dr_engine d)))")
    (auto simp: poll_notice_def dest!: handle_notice_engine split: list.splits)

declare drain_notices.simps [simp del]

section \<open>Waiting for a timer\<close>

text \<open>How long the loops sleep before the next timer is due; \<open>None\<close> where no timer is armed.\<close>

definition timer_wait :: "u64 \<Rightarrow> ('n, 'b) driver \<Rightarrow> nat option" where
  "timer_wait now d =
     (case next_timer_deadline (dr_engine d) of
        Some deadline \<Rightarrow> Some (if now < deadline then unat (deadline - now) else 0)
      | None \<Rightarrow> None)"

section \<open>The UDP transport\<close>

function drain_outputs_udp :: "('n, 'b) driver \<Rightarrow> ('n, 'b) driver \<times> ('n, 'b) effect list" where
  "drain_outputs_udp d =
     (case poll_output (dr_engine d) of
        (None, e) \<Rightarrow> (d\<lparr>dr_engine := e\<rparr>, [])
      | (Some (peer, bs), e) \<Rightarrow>
          let effects = (case bt_get (dr_engine_to_addr d) peer of
                           Some dest_addr \<Rightarrow> [SendDatagram dest_addr bs]
                         | None \<Rightarrow> []);
              (d, effects') = drain_outputs_udp (d\<lparr>dr_engine := e\<rparr>)
          in (d, effects @ effects'))"
  by pat_completeness auto

termination
  by (relation "measure (\<lambda>d. length (en_outbound (dr_engine d)))")
    (auto simp: poll_output_def split: list.splits)

declare drain_outputs_udp.simps [simp del]

text \<open>The engine a datagram is attributed to, and what the driver learns from it.\<close>

definition resolve_udp_peer ::
    "socket_addr \<Rightarrow> bytes \<Rightarrow> ('n, 'b) driver \<Rightarrow> engine_id \<times> ('n, 'b) driver \<times> ('n, 'b) effect list" where
  "resolve_udp_peer peer_addr datagram d =
     (case bt_get (dr_addr_to_engine d) peer_addr of
        Some peer_id \<Rightarrow>
          (peer_id, if bt_get (dr_engine_to_addr d) peer_id \<noteq> None
               then d\<lparr>dr_engine_to_addr := bt_insert peer_id peer_addr (dr_engine_to_addr d)\<rparr> else d, [])
      | None \<Rightarrow>
          (case peek_session datagram of
             Inl _ \<Rightarrow> (ucast (sa_port peer_addr), d, [])
           | Inr session \<Rightarrow>
               let peer_id = (if originator session \<noteq> lc_engine_id (dr_config d) then originator session
                         else case peer_for_session session (dr_engine d) of
                                Some peer \<Rightarrow> peer
                              | None \<Rightarrow> if length (dr_engine_to_addr d) = 1 then fst (hd (dr_engine_to_addr d))
                                        else ucast (sa_port peer_addr));
                   is_new_peer = (bt_get (dr_engine_to_addr d) peer_id = None);
                   known = (if 1024 \<le> length (dr_addr_to_engine d) then [] else dr_addr_to_engine d)
               in (peer_id, d\<lparr>dr_addr_to_engine := bt_insert peer_addr peer_id known,
                         dr_engine_to_addr := bt_insert peer_id peer_addr (dr_engine_to_addr d)\<rparr>,
                   if is_new_peer then [AddPeer (engine_id_to_cla_address peer_id)] else [])))"

definition receive_udp ::
    "u64 \<Rightarrow> socket_addr \<Rightarrow> bytes \<Rightarrow> ('n, 'b) driver \<Rightarrow> (('n, 'b) driver \<times> ('n, 'b) effect list) option" where
  "receive_udp now peer_addr datagram d =
     (let (peer_engine, d, effects) = resolve_udp_peer peer_addr datagram d
      in case handle_incoming_segment peer_engine datagram now (dr_engine d) of
           None \<Rightarrow> None
         | Some (_, e) \<Rightarrow> Some (d\<lparr>dr_engine := e\<rparr>, effects))"

datatype ('n, 'b) driver_event = Received socket_addr bytes | TimerExpired | Commanded "('n, 'b) driver_command"

text \<open>Outputs and notices are drained after every event.\<close>

definition drain_udp :: "nat \<Rightarrow> ('n, 'b) driver \<Rightarrow> (('n, 'b) driver \<times> ('n, 'b) effect list) option" where
  "drain_udp clock d =
     (let (d, sent) = drain_outputs_udp d
      in map_option (\<lambda>(d, effects). (d, sent @ effects)) (drain_notices clock d))"

text \<open>One turn of the loop of \<^verbatim>\<open>run_udp\<close>; the boolean says whether the loop goes on.\<close>

definition udp_step ::
    "u64 \<Rightarrow> nat \<Rightarrow> ('n, 'b) driver_event \<Rightarrow> ('n, 'b) driver \<Rightarrow> (bool \<times> ('n, 'b) driver \<times> ('n, 'b) effect list) option" where
  "udp_step now clock ev d =
     (case ev of
        Received peer_addr datagram \<Rightarrow>
          if datagram = [0, 0, 0, 0] then Some (True, d, [])
          else (case receive_udp now peer_addr datagram d of
                  None \<Rightarrow> None
                | Some (d, effects) \<Rightarrow> map_option (\<lambda>(d, drained). (True, d, effects @ drained)) (drain_udp clock d))
      | TimerExpired \<Rightarrow>
          (case handle_timer_tick now (dr_engine d) of
             None \<Rightarrow> None
           | Some e \<Rightarrow> map_option (\<lambda>(d, drained). (True, d, drained)) (drain_udp clock (d\<lparr>dr_engine := e\<rparr>)))
      | Commanded cmd \<Rightarrow>
          (case handle_command now cmd d of
             None \<Rightarrow> None
           | Some (goes_on, d, effects) \<Rightarrow>
               if goes_on then map_option (\<lambda>(d, drained). (True, d, effects @ drained)) (drain_udp clock d)
               else Some (False, d, effects)))"

section \<open>The KISS transport\<close>

definition MAX_KISS_ACCUMULATOR :: nat where "MAX_KISS_ACCUMULATOR = 2 * 1024 * 1024"

text \<open>All segments waiting in the engine, padded and framed, in one batch.\<close>

function kiss_batch ::
    "(u8 \<Rightarrow> u8 \<Rightarrow> bytes \<Rightarrow> nat option) \<Rightarrow> u8 \<Rightarrow> nat \<Rightarrow> engine \<Rightarrow> bytes \<Rightarrow> engine \<times> bytes" where
  "kiss_batch memchr2 port min_frame_len e frame_buf =
     (case poll_output e of
        (None, e) \<Rightarrow> (e, frame_buf)
      | (Some (peer, bs), e) \<Rightarrow>
          let payload = pad_segment_for_tnc bs min_frame_len
          in kiss_batch memchr2 port min_frame_len e (encode_frame memchr2 port KData payload frame_buf))"
  by pat_completeness auto

termination
  by (relation "measure (\<lambda>(m, port, len, e, buf). length (en_outbound e))")
    (auto simp: poll_output_def split: list.splits)

declare kiss_batch.simps [simp del]

definition drain_outputs_kiss ::
    "(u8 \<Rightarrow> u8 \<Rightarrow> bytes \<Rightarrow> nat option) \<Rightarrow> u8 \<Rightarrow> nat \<Rightarrow> ('n, 'b) driver \<Rightarrow> ('n, 'b) driver \<times> ('n, 'b) effect list" where
  "drain_outputs_kiss memchr2 port min_frame_len d =
     (let (e, frame_buf) = kiss_batch memchr2 port min_frame_len (dr_engine d) []
      in (d\<lparr>dr_engine := e\<rparr>, if frame_buf = [] then [] else [SendStream frame_buf]))"

definition resolve_kiss_peer ::
    "((engine_id, socket_addr) btree \<Rightarrow> engine_id option) \<Rightarrow> bytes \<Rightarrow> ('n, 'b) driver \<Rightarrow> engine_id" where
  "resolve_kiss_peer any_key payload d =
     (let default_peer = (case any_key (dr_engine_to_addr d) of Some peer \<Rightarrow> peer | None \<Rightarrow> 2)
      in case peek_session payload of
           Inl _ \<Rightarrow> default_peer
         | Inr session \<Rightarrow>
             if originator session \<noteq> lc_engine_id (dr_config d) then originator session
             else case peer_for_session session (dr_engine d) of
                    Some peer \<Rightarrow> peer
                  | None \<Rightarrow> default_peer)"

definition receive_frame ::
    "((engine_id, socket_addr) btree \<Rightarrow> engine_id option) \<Rightarrow> u64 \<Rightarrow> kiss_frame \<Rightarrow> ('n, 'b) driver \<Rightarrow> ('n, 'b) driver option" where
  "receive_frame any_key now frame d =
     (if kf_command frame = KData
      then let peer_engine = resolve_kiss_peer any_key (kf_payload frame) d
           in map_option (\<lambda>(_, e). d\<lparr>dr_engine := e\<rparr>) (handle_incoming_segment peer_engine (kf_payload frame) now (dr_engine d))
      else Some d)"

lemma decode_loop_consumed:
  "decode_loop_frames memchr buf base = Inr (Some (f, k)) \<Longrightarrow> base < k \<and> base < length buf"
proof (induction memchr buf base rule: decode_loop_frames.induct)
  case (1 memchr buf base)
  have base: "base < length buf"
    using "1.prems" by (subst (asm) decode_loop_frames.simps) (simp split: if_splits)
  moreover from this have "base < k"
    using "1.prems" "1.IH" [OF base refl refl _ refl _ refl]
    by (subst (asm) decode_loop_frames.simps) (fastforce simp: Let_def split: if_splits option.splits)
  ultimately show ?case by simp
qed

lemma decode_frame_consumed:
  assumes "decode_frame memchr (drop offset acc) = Inr (Some (f, k))"
  shows "length acc - (offset + k) < length acc - offset"
  using decode_loop_consumed [OF assms [unfolded decode_frame_def]] by simp linarith

text \<open>The frames of the accumulated octets are handled one after the other; the offset reached is returned.\<close>

function kiss_extract ::
    "(u8 \<Rightarrow> bytes \<Rightarrow> nat option) \<Rightarrow> ((engine_id, socket_addr) btree \<Rightarrow> engine_id option) \<Rightarrow> u64 \<Rightarrow> bytes \<Rightarrow> nat
     \<Rightarrow> ('n, 'b) driver \<Rightarrow> (nat \<times> ('n, 'b) driver) option" where
  "kiss_extract memchr any_key now acc offset d =
     (case decode_frame memchr (drop offset acc) of
        Inr (Some (frame, consumed)) \<Rightarrow>
          (case receive_frame any_key now frame d of
             None \<Rightarrow> None
           | Some d \<Rightarrow> kiss_extract memchr any_key now acc (offset + consumed) d)
      | _ \<Rightarrow> Some (offset, d))"
  by pat_completeness auto

termination
  by (relation "measure (\<lambda>(memchr, any_key, now, acc, offset, d). length acc - offset)")
    (auto intro: decode_frame_consumed)

declare kiss_extract.simps [simp del]

definition kiss_read ::
    "(u8 \<Rightarrow> bytes \<Rightarrow> nat option) \<Rightarrow> ((engine_id, socket_addr) btree \<Rightarrow> engine_id option) \<Rightarrow> u64 \<Rightarrow> bytes \<Rightarrow> bytes
     \<Rightarrow> ('n, 'b) driver \<Rightarrow> (bytes \<times> ('n, 'b) driver) option" where
  "kiss_read memchr any_key now chunk acc d =
     (let acc = (if MAX_KISS_ACCUMULATOR < length acc + length chunk then [] else acc);
          acc = acc @ chunk
      in map_option (\<lambda>(offset, d). (if 0 < offset then drop offset acc else acc, d))
           (kiss_extract memchr any_key now acc 0 d))"

text \<open>The delay before the next attempt to connect, doubled up to a maximum.\<close>

definition next_delay :: "nat \<Rightarrow> nat \<Rightarrow> nat" where
  "next_delay reconnect_max_delay current_delay = min (current_delay * 2) reconnect_max_delay"

datatype ('n, 'b) kiss_event = StreamRead bytes | StreamTimer | StreamCommand "('n, 'b) driver_command"

text \<open>A failed write ends the connection: the batch is lost, the notices are left for later.\<close>

definition drain_kiss ::
    "(u8 \<Rightarrow> u8 \<Rightarrow> bytes \<Rightarrow> nat option) \<Rightarrow> u8 \<Rightarrow> nat \<Rightarrow> bool \<Rightarrow> nat \<Rightarrow> ('n, 'b) driver
     \<Rightarrow> (('n, 'b) driver \<times> ('n, 'b) effect list) option" where
  "drain_kiss memchr2 port min_frame_len written clock d =
     (let (d, sent) = drain_outputs_kiss memchr2 port min_frame_len d
      in if sent \<noteq> [] \<and> \<not> written then Some (d, [])
         else map_option (\<lambda>(d, effects). (d, sent @ effects)) (drain_notices clock d))"

text \<open>A new connection starts with an empty accumulator and sends the segments that waited for it.\<close>

definition connect_step ::
    "(u8 \<Rightarrow> u8 \<Rightarrow> bytes \<Rightarrow> nat option) \<Rightarrow> u8 \<Rightarrow> nat \<Rightarrow> bool \<Rightarrow> ('n, 'b) driver \<Rightarrow> bytes \<times> ('n, 'b) driver \<times> ('n, 'b) effect list" where
  "connect_step memchr2 port min_frame_len written d =
     (let (d, sent) = drain_outputs_kiss memchr2 port min_frame_len d
      in ([], d, if written then sent else []))"

text \<open>One turn of the loop while connected: the accumulator is part of the state, the boolean says whether the
  driver goes on.\<close>

definition kiss_step ::
    "(u8 \<Rightarrow> bytes \<Rightarrow> nat option) \<Rightarrow> (u8 \<Rightarrow> u8 \<Rightarrow> bytes \<Rightarrow> nat option) \<Rightarrow> ((engine_id, socket_addr) btree \<Rightarrow> engine_id option)
     \<Rightarrow> u8 \<Rightarrow> nat \<Rightarrow> bool \<Rightarrow> u64 \<Rightarrow> nat \<Rightarrow> ('n, 'b) kiss_event \<Rightarrow> bytes \<Rightarrow> ('n, 'b) driver
     \<Rightarrow> (bool \<times> bytes \<times> ('n, 'b) driver \<times> ('n, 'b) effect list) option" where
  "kiss_step memchr memchr2 any_key port min_frame_len written now clock ev acc d =
     (case ev of
        StreamRead chunk \<Rightarrow>
          (case kiss_read memchr any_key now chunk acc d of
             None \<Rightarrow> None
           | Some (acc, d) \<Rightarrow>
               map_option (\<lambda>(d, effects). (True, acc, d, effects)) (drain_kiss memchr2 port min_frame_len written clock d))
      | StreamTimer \<Rightarrow>
          (case handle_timer_tick now (dr_engine d) of
             None \<Rightarrow> None
           | Some e \<Rightarrow>
               map_option (\<lambda>(d, effects). (True, acc, d, effects))
                 (drain_kiss memchr2 port min_frame_len written clock (d\<lparr>dr_engine := e\<rparr>)))
      | StreamCommand cmd \<Rightarrow>
          (case handle_command now cmd d of
             None \<Rightarrow> None
           | Some (goes_on, d, effects) \<Rightarrow>
               if goes_on
               then map_option (\<lambda>(d, drained). (True, acc, d, effects @ drained))
                      (drain_kiss memchr2 port min_frame_len written clock d)
               else Some (False, acc, d, effects)))"

text \<open>One turn of the loop while disconnected: segments wait in the engine, a command leaves the notices for later.\<close>

definition backoff_step ::
    "u64 \<Rightarrow> nat \<Rightarrow> ('n, 'b) driver_command option \<Rightarrow> ('n, 'b) driver \<Rightarrow> (bool \<times> ('n, 'b) driver \<times> ('n, 'b) effect list) option" where
  "backoff_step now clock cmd d =
     (case cmd of
        None \<Rightarrow>
          (case handle_timer_tick now (dr_engine d) of
             None \<Rightarrow> None
           | Some e \<Rightarrow> map_option (\<lambda>(d, effects). (True, d, effects)) (drain_notices clock (d\<lparr>dr_engine := e\<rparr>)))
      | Some cmd \<Rightarrow> handle_command now cmd d)"

end
