(* ===== verification/Engine_Frame.thy ===== *)
theory Engine_Frame
  imports Engine_Dispatch
begin

text \<open>
  A property of the engine that none of its elementary updates can break is kept by every
  handler.  The locale states the elementary updates as its assumptions and lifts the property
  through the handlers once; its interpretations give the facts that the handlers of incoming
  segments and of timers leave the configuration and the session number alone.
\<close>

fun notice_in :: "(bytes \<Rightarrow> bool) \<Rightarrow> notice \<Rightarrow> bool" where
  "notice_in G (GreenSegmentArrived sid source offset data eob) = G data"
| "notice_in G _ = True"

locale engine_frame =
  fixes P :: "engine \<Rightarrow> bool" and G :: "bytes \<Rightarrow> bool"
  assumes out: "P e \<Longrightarrow> P (push_out p seg e)"
    and notify: "P e \<Longrightarrow> notice_in G n \<Longrightarrow> P (push_notice n e)"
    and timers: "P e \<Longrightarrow> P (e\<lparr>en_timers := ts\<rparr>)"
    and timings: "P e \<Longrightarrow> P (e\<lparr>en_peer_timings := ps\<rparr>)"
    and sends: "P e \<Longrightarrow> P (e\<lparr>en_send_sessions := ss\<rparr>)"
    and recvs: "P e \<Longrightarrow> P (e\<lparr>en_recv_sessions := rs\<rparr>)"
    and closed: "P e \<Longrightarrow> P (record_closed sid e)"
    and cancelled: "P e \<Longrightarrow> P (record_cancelled sid e)"
begin

lemma steps:
  "P e \<Longrightarrow> P (arm_timer k d e)"
  "P e \<Longrightarrow> P (disarm_timer k e)"
  "P e \<Longrightarrow> P (disarm_session sid e)"
  "P e \<Longrightarrow> P (touch_inactivity sid b now e)"
  "P e \<Longrightarrow> P (update_peer_rtt_sample p x e)"
  "P e \<Longrightarrow> P (set_peer_timing p rtt margin e)"
  "P e \<Longrightarrow> P (put_send sid s e)"
  "P e \<Longrightarrow> P (drop_send sid e)"
  "P e \<Longrightarrow> P (put_recv sid r e)"
  "P e \<Longrightarrow> P (drop_recv sid e)"
  by (simp_all add: arm_timer_def disarm_timer_def disarm_session_def touch_inactivity_def update_peer_rtt_sample_def
      set_peer_timing_def put_send_def drop_send_def put_recv_def drop_recv_def Let_def out notify timers timings sends recvs)

lemmas all_steps = steps out notify closed cancelled

lemma initiate_cancel_receiver: "P e \<Longrightarrow> P (initiate_cancel_receiver sid peer reason now e)"
  by (simp add: initiate_cancel_receiver_def Let_def all_steps split: option.split)

lemma issue_report: "P e \<Longrightarrow> P (snd (issue_report from sid report now s e))"
  by (simp add: issue_report_def Let_def all_steps)

definition flow :: "engine + recv_session \<times> engine \<Rightarrow> bool" where
  "flow r \<longleftrightarrow> (case r of Inl e \<Rightarrow> P e | Inr (s, e) \<Rightarrow> P e)"

lemma report_chunks: "P e \<Longrightarrow> flow (report_chunks from sid cp upper now first chunks serials s e)"
proof (induction chunks arbitrary: first serials s e)
  case (Cons chunk chunks)
  have "P e'" if "issue_report from sid report now s1 e = (s', e')" for report s1 s' e'
    using issue_report [OF Cons.prems, of "from" sid report now s1] that by simp
  with Cons show ?case by (auto simp: flow_def Let_def initiate_cancel_receiver all_steps split: prod.split)
qed (simp add: flow_def)

lemma answer_checkpoint:
  assumes "P e"
  shows "flow (answer_checkpoint from sid cp upper now s e)"
proof -
  have "P (fold (reemit_report from sid now s) serials e)" for serials
    using assms
    by (induction serials arbitrary: e) (auto simp: reemit_report_def Let_def all_steps split: option.split)
  moreover have "P e'" if "issue_report from sid report now s1 e = (s', e')" for report s1 s' e'
    using issue_report [OF assms, of "from" sid report now s1] that by simp
  then have "flow (fresh_checkpoint from sid cp upper now s e)"
    using assms report_chunks
    by (auto simp: fresh_checkpoint_def flow_def [of "Inl _"] flow_def [of "Inr _"] Let_def initiate_cancel_receiver
        all_steps split: prod.split)
  ultimately show ?thesis by (simp add: answer_checkpoint_def flow_def [of "Inr _"] split: option.split)
qed

lemma handle_red:
  assumes "P e" "handle_red from sid ds now s e = Some r"
  shows "flow r"
  using assms
  by (auto simp: handle_red_def Let_def flow_def [of "Inl _"] flow_def [of "Inr _"] all_steps answer_checkpoint
      split: option.splits if_splits)

lemma deliver_red: "P e \<Longrightarrow> deliver_red from sid s e = (s', e') \<Longrightarrow> P e'"
  by (auto simp: deliver_red_def Let_def all_steps split: if_splits)

lemma open_recv: "P e \<Longrightarrow> open_recv from sid ds now e = Some (s, e') \<Longrightarrow> P e'"
  by (auto simp: open_recv_def Let_def all_steps split: if_splits option.splits)

lemma handle_incoming_data:
  assumes "P e" "G (ds_data ds)" "handle_incoming_data from sid ds now e = Some e'"
  shows "P e'"
proof (cases "sid \<in> set (en_closed_recv_sessions_set e) \<or> open_recv from sid ds now e = None")
  case True
  then show ?thesis using assms(1,3)
    by (auto simp: handle_incoming_data_def reemit_closed_def Let_def all_steps split: option.splits if_splits)
next
  case False
  then obtain s e1 where opened: "open_recv from sid ds now e = Some (s, e1)" by auto
  then have e1: "P e1" by (rule open_recv [OF assms(1)])
  obtain bad s1 where color: "check_color ds s = (bad, s1)" by fastforce
  let ?r = "if is_red (ds_kind ds) then handle_red from sid ds now s1 e1
    else Some (Inr (s1, push_notice (GreenSegmentArrived sid from (ds_offset ds) (ds_data ds) (is_eob (ds_kind ds))) e1))"
  have flow: "flow r" if "?r = Some r" for r
    using that handle_red [OF e1] e1 assms(2) by (cases "is_red (ds_kind ds)") (auto simp: flow_def all_steps)
  have "P e2" if "?r = Some r" "(case r of Inl e \<Rightarrow> Some e
      | Inr (s, e) \<Rightarrow> let (s, e) = deliver_red from sid s e in Some (put_recv sid s e)) = Some e2" for r e2
    using that(2) flow [OF that(1)]
    by (cases r) (auto simp: flow_def all_steps split: prod.splits dest: deliver_red)
  then show ?thesis
    using False opened color assms(3) e1 initiate_cancel_receiver
    by (auto simp: handle_incoming_data_def all_steps split: option.splits sum.splits prod.splits if_splits)
qed

lemma handle_incoming_report_ack: "P e \<Longrightarrow> P (handle_incoming_report_ack sid serial now e)"
  by (auto simp: handle_incoming_report_ack_def ack_report_def Let_def all_steps split: option.splits prod.splits if_splits)

lemma handle_rs_timeout: "P e \<Longrightarrow> P (handle_rs_timeout sid serial now e)"
  by (auto simp: handle_rs_timeout_def Let_def all_steps split: option.split)

lemma record_checkpoint: "P e \<Longrightarrow> record_checkpoint sid r now s e = (s', e') \<Longrightarrow> P e'"
  by (auto simp: record_checkpoint_def Let_def all_steps)

lemma resend_gap: "P e \<Longrightarrow> resend_gap from sid rser now l stop off s e = Some (s', e') \<Longrightarrow> P e'"
proof (induction "from" sid rser now l stop off s e rule: resend_gap.induct)
  case (1 "from" sid rser now l stop off s e)
  show ?case
  proof (cases "off < stop")
    case False
    then show ?thesis using "1.prems" by (subst (asm) resend_gap.simps) simp
  next
    case True
    let ?upto = "chunk_end off stop (segment_mtu e)"
    let ?final = "l \<and> ?upto = stop"
    let ?serial = "next_nonzero_serial (ss_last_cp_serial s)"
    let ?s = "if ?final then s\<lparr>ss_last_cp_serial := ?serial\<rparr> else s"
    let ?kind = "if ?final then checkpoint_kind (?upto = ss_red_len s) (?upto = vec_len (ss_block s))
        \<lparr>cp_serial = ?serial, cp_report_serial = rser\<rparr> else Red"
    show ?thesis
    proof (cases "unat ?upto \<le> length (ss_block s)")
      case False
      then show ?thesis
        using True "1.prems" "1.IH"(2) [OF True refl refl refl refl refl refl refl False]
        by (subst (asm) resend_gap.simps) (simp add: Let_def)
    next
      case fits: True
      show ?thesis
      proof (cases "slice_get (ss_block s) (unat off) (unat ?upto)")
        case None
        then show ?thesis using True fits "1.prems" by (subst (asm) resend_gap.simps) (simp add: Let_def)
      next
        case (Some data)
        let ?e = "push_out from (data_wire sid s off ?kind data) e"
        let ?r = "\<lparr>cpr_serial = ?serial, cpr_report_serial = rser, cpr_offset = off, cpr_length = ?upto - off,
          cpr_is_eorp = (?upto = ss_red_len s), cpr_is_eob = (?upto = vec_len (ss_block s)), cpr_retries = 0,
          cpr_transmitted_at = now\<rparr>"
        obtain s1 e1 where rec: "(if ?final then record_checkpoint sid ?r now ?s ?e else (?s, ?e)) = (s1, e1)"
          by fastforce
        have "P ?e" using "1.prems"(1) by (rule out)
        then have "P e1" using rec by (cases ?final) (auto dest: record_checkpoint)
        moreover have "resend_gap from sid rser now l stop ?upto s1 e1 = Some (s', e')"
          using "1.prems"(2) True fits Some rec by (subst (asm) resend_gap.simps) (simp add: Let_def)
        ultimately show ?thesis
          using "1.IH"(1) [OF True refl refl refl refl refl refl refl fits Some refl rec [symmetric] refl] by blast
      qed
    qed
  qed
qed

lemma resend_gaps: "P e \<Longrightarrow> resend_gaps from sid rser now gaps s e = Some (s', e') \<Longrightarrow> P e'"
  by (induction gaps arbitrary: s e) (auto split: option.splits dest: resend_gap)

lemma unstick: "P e \<Longrightarrow> unstick from sid rser now gaps s e = Some (s', e') \<Longrightarrow> P e'"
  by (auto simp: unstick_def Let_def all_steps split: option.splits if_splits dest: record_checkpoint [rotated])

lemma apply_report:
  assumes "P e" "apply_report from sid rs now s e = Some e'"
  shows "P e'"
proof -
  let ?s = "s\<lparr>ss_claims_received :=
    fold (record_claim (rs_lower_bound rs) (ss_red_len s)) (rs_claims rs) (ss_claims_received s)\<rparr>"
  obtain s1 e1 where gaps: "resend_gaps from sid (rs_report_serial rs) now (report_gaps rs ?s) ?s e = Some (s1, e1)"
    using assms(2) by (auto simp: apply_report_def Let_def split: option.splits)
  obtain s2 e2 where stuck: "unstick from sid (rs_report_serial rs) now (report_gaps rs ?s) s1 e1 = Some (s2, e2)"
    using assms(2) gaps by (auto simp: apply_report_def Let_def split: option.splits)
  have "P e2" by (rule unstick [OF resend_gaps [OF assms(1) gaps] stuck])
  moreover have "e' = (if is_complete s2 then complete_send sid e2 else put_send sid s2 e2)"
    using assms(2) gaps stuck by (simp add: apply_report_def Let_def)
  ultimately show ?thesis by (simp add: complete_send_def all_steps)
qed

lemma handle_incoming_report:
  assumes "P e" "handle_incoming_report from sid rs now e = Some e'"
  shows "P e'"
proof -
  let ?e = "disarm_timer (checkpoint_key sid (rs_checkpoint_serial rs))
    (push_out from (wire sid (ReportAck (rs_report_serial rs))) e)"
  have base: "P ?e" using assms(1) by (simp add: all_steps)
  show ?thesis
  proof (cases "\<exists>s. bt_get (en_send_sessions ?e) sid = Some s \<and> ss_cancel_reason s = None")
    case False
    then have "e' = ?e"
      using assms(2) by (auto simp: handle_incoming_report_def Let_def split: option.splits if_splits)
    then show ?thesis using base by simp
  next
    case True
    then obtain s where s: "bt_get (en_send_sessions ?e) sid = Some s" "ss_cancel_reason s = None" by blast
    obtain s1 e1 where retire: "retire_checkpoint from (rs_checkpoint_serial rs) now (s\<lparr>ss_last_activity := now\<rparr>)
      (touch_inactivity sid True now ?e) = (s1, e1)" by fastforce
    then have e1: "P e1" using base by (auto simp: retire_checkpoint_def all_steps split: option.splits if_splits)
    have "e' = put_send sid s1 e1 \<or> apply_report from sid rs now
        (s1\<lparr>ss_report_serials_seen := bs_insert (rs_report_serial rs) (ss_report_serials_seen s1)\<rparr>) e1 = Some e'"
      using assms(2) s retire by (simp add: handle_incoming_report_def Let_def split: if_splits)
    then show ?thesis using e1 apply_report [OF e1] by (auto simp: all_steps)
  qed
qed

lemma handle_cp_timeout: "P e \<Longrightarrow> handle_cp_timeout sid serial now e = Some e' \<Longrightarrow> P e'"
  by (auto simp: handle_cp_timeout_def Let_def all_steps split: option.splits if_splits)

lemma cancellations:
  "P e \<Longrightarrow> P (handle_incoming_cancel from sid reason b e)"
  "P e \<Longrightarrow> P (handle_incoming_cancel_ack sid b e)"
  "P e \<Longrightarrow> P (handle_inactivity_timeout sid b now e)"
  "P e \<Longrightarrow> P (handle_cancel_timeout sid b now e)"
  by (simp_all add: handle_incoming_cancel_def handle_incoming_cancel_ack_def handle_inactivity_timeout_def
      handle_cancel_timeout_def Let_def all_steps split: option.split)

lemma handle_timeout: "P e \<Longrightarrow> handle_timeout now key e = Some e' \<Longrightarrow> P e'"
  by (cases "tk_kind key")
    (auto simp: handle_timeout_def handle_rs_timeout cancellations dest: handle_cp_timeout)

lemma handle_expired: "P e \<Longrightarrow> handle_expired now keys e = Some e' \<Longrightarrow> P e'"
  by (induction keys arbitrary: e) (auto split: option.splits dest: handle_timeout)

lemma handle_timer_tick: "P e \<Longrightarrow> handle_timer_tick now e = Some e' \<Longrightarrow> P e'"
  by (auto simp: handle_timer_tick_def split: prod.splits dest: handle_expired [OF timers])

lemma handle_body:
  "P e \<Longrightarrow> (\<And>ds. body = Data ds \<Longrightarrow> G (ds_data ds)) \<Longrightarrow> handle_body from sid body now e = Some e' \<Longrightarrow> P e'"
  by (cases body)
    (auto simp: handle_incoming_report_ack cancellations split: if_splits
      dest: handle_incoming_data handle_incoming_report)

lemma handle_incoming_segment:
  assumes "P e" "handle_incoming_segment from datagram now e = Some (r, e')"
    and data: "\<And>seg n ds. parse_segment datagram = Inr (seg, n) \<Longrightarrow> seg_body seg = Data ds \<Longrightarrow> G (ds_data ds)"
  shows "P e'"
proof (cases "parse_segment datagram")
  case (Inl err)
  then show ?thesis using assms(1,2) by (simp add: handle_incoming_segment_def)
next
  case (Inr p)
  obtain seg n where p: "p = (seg, n)" by fastforce
  have "P e1" if "handle_body peer sid (seg_body seg) now e = Some e1" for peer sid e1
    using handle_body [OF assms(1) _ that] data [OF Inr [unfolded p]] by blast
  then show ?thesis
    using assms(1,2) Inr by (auto simp: handle_incoming_segment_def p split: if_splits option.splits)
qed

end

interpretation config_frame: engine_frame "\<lambda>e. en_config e = cfg" "\<lambda>_. True" for cfg
  by unfold_locales (simp_all add: record_closed_def record_cancelled_def split: prod.split)

interpretation number_frame: engine_frame "\<lambda>e. en_next_session_number e = n" "\<lambda>_. True" for n
  by unfold_locales (simp_all add: record_closed_def record_cancelled_def split: prod.split)

end
