(* ===== verification/Driver_Safety.thy ===== *)
theory Driver_Safety
  imports Driver_Properties "HOL-Library.Multiset"
begin

text \<open>
  What holds of the adapter's driver in every state it reaches: it never panics, its green
  reassembly stays within its limits, every turn of its loop leaves the engine's queues empty, and
  every accepted transfer has exactly one outcome.
\<close>

section \<open>The green data the engine announces\<close>

definition notices_small :: "engine \<Rightarrow> bool" where
  "notices_small e \<longleftrightarrow> (\<forall>n\<in>set (en_notices e). notice_in (\<lambda>data. length data < 2 ^ 63) n)"

interpretation notices_frame: engine_frame notices_small "\<lambda>data. length data < 2 ^ 63"
  by unfold_locales (auto simp: notices_small_def record_closed_def record_cancelled_def split: prod.split)

lemma incoming_notices_small:
  assumes "notices_small e" "length datagram < 2 ^ 63" "handle_incoming_segment from datagram now e = Some (r, e')"
  shows "notices_small e'"
  using parse_segment_payload [of datagram] assms(2)
  by (intro notices_frame.handle_incoming_segment [OF assms(1,3)]) (blast intro: le_less_trans)

lemma request_not_accepted:
  "\<not> accepted e block red_len \<Longrightarrow> request_transmission peer cs block red_len now e = Some (r, e') \<Longrightarrow> e' = e \<and> (\<exists>err. r = Inl err)"
  by (auto simp: request_transmission_def accepted_def Let_def not_le split: if_splits)

text \<open>What a request changes besides the sessions and the timers.\<close>

lemma request_effects:
  assumes "length block < 2 ^ 63" "request_transmission peer cs block red_len now e = Some (r, e')"
  shows "en_config e' = en_config e \<and> (case r of
      Inl err \<Rightarrow> e' = e
    | Inr sid \<Rightarrow> sid = SessionId (ec_engine_id (en_config e)) (en_next_session_number e)
        \<and> en_next_session_number e' = bump_session_number (en_next_session_number e)
        \<and> en_notices e' = en_notices e @ (if red_len = 0 then [TransmissionSessionCompleted sid] else []))"
proof (cases "accepted e block red_len")
  case True
  then show ?thesis using request_transmission_spec [OF assms(1) True, of peer cs now] assms(2) by auto
next
  case False
  then show ?thesis using request_not_accepted [OF False assms(2)] by auto
qed

section \<open>The invariant\<close>

definition green_ok :: "(session_id, green_reassembly) btree \<Rightarrow> bool" where
  "green_ok green \<longleftrightarrow> bt_ok green \<and> length green \<le> MAX_GREEN_REASSEMBLIES
     \<and> (\<forall>(sid, r)\<in>set green. length (gr_data r) \<le> MAX_GREEN_BUNDLE_SIZE)"

definition driver_ok :: "('n, 'b) driver \<Rightarrow> bool" where
  "driver_ok d \<longleftrightarrow> fine (engine_config_of (dr_config d)) (dr_engine d) \<and> notices_small (dr_engine d)
     \<and> bt_ok (dr_pending_transfers d) \<and> green_ok (dr_green_reassemblies d)"

lemma driver_okI:
  "driver_ok d \<Longrightarrow> fine (engine_config_of (dr_config d)) e \<Longrightarrow> notices_small e \<Longrightarrow> driver_ok (d\<lparr>dr_engine := e\<rparr>)"
  by (simp add: driver_ok_def)

lemma set_peer_timing_fine: "fine cfg e \<Longrightarrow> fine cfg (set_peer_timing peer rtt margin e)"
  by (auto simp: set_peer_timing_def fine_def engine_ok_def)

lemma configure_peer_frame:
  "fine cfg e \<Longrightarrow> fine cfg (configure_peer peer e)" "en_notices (configure_peer peer e) = en_notices e"
  by (simp_all add: configure_peer_def set_peer_timing_fine split: option.split) (simp add: set_peer_timing_def)

lemma fold_configure_fine: "fine cfg e \<Longrightarrow> fine cfg (fold configure_peer peers e)"
  by (induction peers arbitrary: e) (simp_all add: configure_peer_frame(1))

lemma fold_configure_notices: "en_notices (fold configure_peer peers e) = en_notices e"
  by (induction peers arbitrary: e) (simp_all add: configure_peer_frame(2))

lemma driver_ok_new: "driver_ok (driver_new config)"
proof -
  have "ec_max_block_size (engine_config_of config) \<noteq> - 1"
    by (simp add: engine_config_of_def default_config_def)
  then have "fine (engine_config_of config) (fold configure_peer (lc_peers config) (engine_new (engine_config_of config)))"
    by (intro fold_configure_fine fine_new)
  then show ?thesis
    by (simp add: driver_ok_def driver_new_def notices_small_def fold_configure_notices engine_new_def green_ok_def)
qed

section \<open>Green data\<close>

lemma bt_insert_set: "set (bt_insert k v m) \<subseteq> insert (k, v) (set m)"
  by (induction m) auto

lemma green_ok_filter: "green_ok green \<Longrightarrow> green_ok (filter P green)"
  using order_trans [OF length_filter_le] by (auto simp: green_ok_def bt_ok_def sorted_wrt_map sorted_wrt_filter)

lemma green_ok_remove: "green_ok green \<Longrightarrow> green_ok (bt_remove sid green)"
  unfolding bt_remove_def by (rule green_ok_filter)

lemma green_ok_retain: "green_ok green \<Longrightarrow> green_ok (retain_recent clock age green)"
  unfolding retain_recent_def by (rule green_ok_filter)

lemma green_ok_insert:
  assumes "green_ok green" "length (gr_data r) \<le> MAX_GREEN_BUNDLE_SIZE"
    and room: "bt_get green sid = None \<Longrightarrow> length green < MAX_GREEN_REASSEMBLIES"
  shows "green_ok (bt_insert sid r green)"
proof -
  have "length (bt_insert sid r green) \<le> MAX_GREEN_REASSEMBLIES"
  proof (cases "bt_get green sid")
    case None
    then show ?thesis using room length_bt_insert_le [of sid r green] by simp
  next
    case (Some x)
    then show ?thesis using assms(1) length_bt_insert_present [of green sid r] by (simp add: green_ok_def)
  qed
  then show ?thesis using assms(1,2) bt_insert_set [of sid r green] by (auto simp: green_ok_def)
qed

lemma green_put_ok:
  assumes "length data < 2 ^ 63" "checked_add offset (vec_len data) = Some end_off"
  shows "\<exists>entry'. green_put clock offset (unat end_off) data eob entry = Some entry'
    \<and> length (gr_data entry') = max (length (gr_data entry)) (unat end_off)"
proof -
  have "unat end_off = unat offset + length data"
    using assms checked_add_SomeD [OF assms(2)] by (simp add: unat_vec_len)
  then show ?thesis by (auto simp: green_put_def slice_copy_def vec_grow_def vec_resize_def max_def)
qed

lemma handle_green_ok:
  assumes "driver_ok d" "length data < 2 ^ 63"
  shows "\<exists>d' effects. handle_green clock sid source offset data eob d = Some (d', effects) \<and> driver_ok d'"
proof -
  have green: "green_ok (dr_green_reassemblies d)" using assms(1) by (simp add: driver_ok_def)
  have put: "driver_ok (d\<lparr>dr_green_reassemblies := g\<rparr>)" if "green_ok g" for g
    using assms(1) that by (simp add: driver_ok_def)
  show ?thesis
  proof (cases "(offset = 0 \<and> eob) \<or> checked_add offset (vec_len data) = None")
    case True
    then show ?thesis using assms(1) by (cases "offset = 0 \<and> eob") (simp_all add: handle_green_def Let_def)
  next
    case False
    then obtain end_off where end_off: "checked_add offset (vec_len data) = Some end_off" by auto
    let ?full = "bt_get (dr_green_reassemblies d) sid = None \<and> MAX_GREEN_REASSEMBLIES \<le> length (dr_green_reassemblies d)"
    define g where "g = (if ?full then retain_recent clock 60000000 (dr_green_reassemblies d) else dr_green_reassemblies d)"
    have g: "green_ok g" using green by (simp add: g_def green_ok_retain)
    show ?thesis
    proof (cases "MAX_GREEN_BUNDLE_SIZE < unat end_off \<or> (?full \<and> MAX_GREEN_REASSEMBLIES \<le> length g)")
      case True
      then show ?thesis
        using False end_off green g
        by (auto simp: handle_green_def Let_def g_def intro!: put green_ok_remove split: if_splits)
    next
      case small: False
      define entry where "entry = (case bt_get g sid of Some entry \<Rightarrow> entry
        | None \<Rightarrow> \<lparr>gr_source = source, gr_data = [], gr_received_bytes = 0, gr_total_len = None, gr_last_update = clock\<rparr>)"
      have "length (gr_data entry) \<le> MAX_GREEN_BUNDLE_SIZE"
        using g by (auto simp: entry_def green_ok_def bt_get_in_set split: option.split)
      then obtain entry' where entry': "green_put clock offset (unat end_off) data eob entry = Some entry'"
        "length (gr_data entry') \<le> MAX_GREEN_BUNDLE_SIZE"
        using green_put_ok [OF assms(2) end_off, of clock eob entry] small by auto
      have room: "length g < MAX_GREEN_REASSEMBLIES" if "bt_get g sid = None"
        using that small by (cases ?full) (auto simp: g_def)
      define g1 where "g1 = (if green_done entry' then bt_remove sid g else bt_insert sid entry' g)"
      have g1: "green_ok (if 128 < length g1 then retain_recent clock 30000000 g1 else g1)"
        using g green_ok_insert [OF g entry'(2) room] by (simp add: g1_def green_ok_remove green_ok_retain)
      have "handle_green clock sid source offset data eob d
        = Some (d\<lparr>dr_green_reassemblies := if 128 < length g1 then retain_recent clock 30000000 g1 else g1\<rparr>,
            if green_done entry' then [Dispatch (bt_get (dr_engine_to_node d) source) (engine_id_to_cla_address source) (gr_data entry')] else [])"
      proof -
        have conds: "(offset = 0 \<and> eob) = False" "(MAX_GREEN_BUNDLE_SIZE < unat end_off) = False"
          "(?full \<and> MAX_GREEN_REASSEMBLIES \<le> length g) = False"
          using False small by simp_all
        show ?thesis
          unfolding handle_green_def Let_def
          by (simp only: conds if_False end_off option.case g_def [symmetric] entry_def [symmetric] entry'(1))
            (simp add: g1_def)
      qed
      then show ?thesis using put [OF g1] by blast
    qed
  qed
qed

section \<open>Conservation of transfers\<close>

definition pending_bundles :: "('n, 'b) driver \<Rightarrow> 'b multiset" where
  "pending_bundles d = mset (map snd (dr_pending_transfers d))"

fun settled :: "('n, 'b) effect list \<Rightarrow> 'b multiset" where
  "settled [] = {#}"
| "settled (Outcome b outcome # effects) = add_mset b (settled effects)"
| "settled (_ # effects) = settled effects"

lemma settled_append [simp]: "settled (xs @ ys) = settled xs + settled ys"
  by (induction xs rule: settled.induct) simp_all

definition next_number :: "('n, 'b) driver \<Rightarrow> nat" where
  "next_number d = unat (en_next_session_number (dr_engine d))"

text \<open>The pending transfers belong to sessions that were numbered before.\<close>

definition numbered :: "('n, 'b) driver \<Rightarrow> bool" where
  "numbered d \<longleftrightarrow> (\<forall>sid\<in>fst ` set (dr_pending_transfers d). unat (snumber sid) < next_number d)"

text \<open>What every operation but a request does: it keeps the invariant, and what it removes from the
  pending transfers is what it reports the outcome of, and it replies to no command.\<close>

definition turn :: "('n, 'b) driver \<Rightarrow> ('n, 'b) driver \<Rightarrow> ('n, 'b) effect list \<Rightarrow> bool" where
  "turn d d' effects \<longleftrightarrow> driver_ok d' \<and> next_number d' = next_number d
     \<and> set (dr_pending_transfers d') \<subseteq> set (dr_pending_transfers d)
     \<and> pending_bundles d = settled effects + pending_bundles d' \<and> (\<forall>r. Reply r \<notin> set effects)"

lemma turn_refl: "driver_ok d \<Longrightarrow> turn d d []"
  by (simp add: turn_def)

lemma turn_trans: "turn d d1 xs \<Longrightarrow> turn d1 d2 ys \<Longrightarrow> turn d d2 (xs @ ys)"
  by (auto simp: turn_def)

lemma turn_ok: "turn d d' effects \<Longrightarrow> driver_ok d'"
  by (simp add: turn_def)

lemma turn_numbered: "turn d d' effects \<Longrightarrow> numbered d \<Longrightarrow> numbered d'"
  by (auto simp: turn_def numbered_def)

text \<open>Changes outside the pending transfers.\<close>

lemma turn_same:
  "driver_ok d' \<Longrightarrow> dr_pending_transfers d' = dr_pending_transfers d
    \<Longrightarrow> en_next_session_number (dr_engine d') = en_next_session_number (dr_engine d) \<Longrightarrow> settled effects = {#}
    \<Longrightarrow> \<forall>r. Reply r \<notin> set effects \<Longrightarrow> turn d d' effects"
  by (simp add: turn_def next_number_def pending_bundles_def)

lemma mset_bt_insert: "bt_get m k = None \<Longrightarrow> mset (map snd (bt_insert k v m)) = add_mset v (mset (map snd m))"
proof (induction m)
  case (Cons e m)
  then have "fst e \<noteq> k" "bt_get m k = None" by (auto simp: bt_get_def split: if_splits)
  with Cons.IH show ?case by auto
qed simp

lemma mset_bt_remove:
  "bt_ok m \<Longrightarrow> bt_get m k = Some v \<Longrightarrow> mset (map snd m) = add_mset v (mset (map snd (bt_remove k m)))"
proof (induction m)
  case (Cons e m)
  show ?case
  proof (cases "fst e = k")
    case True
    then have "\<forall>x\<in>set m. fst x \<noteq> k" using Cons.prems(1) by (auto simp: bt_ok_Cons)
    then have "bt_remove k (e # m) = m" using True by (simp add: bt_remove_def)
    then show ?thesis using True Cons.prems(2) by (cases e) (simp add: bt_get_def)
  next
    case False
    then have "bt_get m k = Some v" using Cons.prems(2) by (simp add: bt_get_def)
    then show ?thesis using Cons False by (simp add: bt_ok_Cons bt_remove_def)
  qed
qed simp

lemma settle_turn:
  assumes "driver_ok d"
  shows "turn d (fst (settle sid outcome d)) (snd (settle sid outcome d))"
proof (cases "bt_get (dr_pending_transfers d) sid")
  case None
  then show ?thesis using assms by (simp add: settle_def turn_refl)
next
  case (Some b)
  have "bt_ok (dr_pending_transfers d)" using assms by (simp add: driver_ok_def)
  note removed = mset_bt_remove [OF this Some]
  have "set (bt_remove sid (dr_pending_transfers d)) \<subseteq> set (dr_pending_transfers d)" by (auto simp: bt_remove_def)
  with removed show ?thesis
    using assms Some by (simp add: settle_def turn_def driver_ok_def next_number_def pending_bundles_def)
qed

lemma handle_green_frame:
  assumes "handle_green clock sid source offset data eob d = Some (d', effects)"
  shows "dr_pending_transfers d' = dr_pending_transfers d \<and> settled effects = {#} \<and> (\<forall>r. Reply r \<notin> set effects)"
  using assms by (auto simp: handle_green_def Let_def split: if_splits option.splits)

lemma handle_notice_turn:
  assumes "driver_ok d" "notice_in (\<lambda>data. length data < 2 ^ 63) n"
  shows "\<exists>d' effects. handle_notice clock n d = Some (d', effects) \<and> turn d d' effects"
proof (cases n)
  case (GreenSegmentArrived sid source offset data eob)
  then obtain d' effects where green: "handle_green clock sid source offset data eob d = Some (d', effects)" "driver_ok d'"
    using handle_green_ok [OF assms(1), of data] assms(2) by fastforce
  then show ?thesis
    using handle_green_frame [OF green(1)] handle_green_engine [OF green(1)] by (auto simp: GreenSegmentArrived intro: turn_same)
next
  case (TransmissionSessionCompleted sid)
  then show ?thesis using settle_turn [OF assms(1), of sid Completed] by (cases "settle sid Completed d") simp
next
  case (TransmissionSessionCancelled sid reason)
  then show ?thesis using settle_turn [OF assms(1), of sid Failed] by (cases "settle sid Failed d") simp
qed (use assms(1) in \<open>auto intro: turn_same\<close>)

lemma drain_notices_turn:
  "driver_ok d \<Longrightarrow> \<exists>d' effects. drain_notices clock d = Some (d', effects) \<and> turn d d' effects
    \<and> en_notices (dr_engine d') = [] \<and> en_outbound (dr_engine d') = en_outbound (dr_engine d)"
proof (induction "length (en_notices (dr_engine d))" arbitrary: d)
  case 0
  then have "poll_notice (dr_engine d) = (None, dr_engine d)" by (simp add: poll_notice_def)
  then show ?case using 0 by (subst drain_notices.simps) (simp add: turn_refl)
next
  case (Suc len)
  then obtain n ns where ns: "en_notices (dr_engine d) = n # ns" by (cases "en_notices (dr_engine d)") auto
  let ?e = "dr_engine d\<lparr>en_notices := ns\<rparr>"
  let ?d = "d\<lparr>dr_engine := ?e\<rparr>"
  have poll: "poll_notice (dr_engine d) = (Some n, ?e)" by (simp add: poll_notice_def ns)
  have "fine cfg ?e" if "fine cfg (dr_engine d)" for cfg using that by (auto simp: fine_def engine_ok_def)
  then have ok: "driver_ok ?d" "notice_in (\<lambda>data. length data < 2 ^ 63) n"
    using Suc.prems ns by (auto simp: driver_ok_def notices_small_def)
  have first: "turn d ?d []" using ok(1) by (intro turn_same) simp_all
  obtain d1 xs where d1: "handle_notice clock n ?d = Some (d1, xs)" "turn ?d d1 xs"
    using handle_notice_turn [OF ok] by blast
  have e1: "dr_engine d1 = ?e" using handle_notice_engine [OF d1(1)] by simp
  have "len = length (en_notices (dr_engine d1))" "driver_ok d1"
    using Suc.hyps(2) d1(2) by (simp_all add: e1 ns turn_def)
  from Suc.hyps(1) [OF this] obtain d2 ys where d2: "drain_notices clock d1 = Some (d2, ys)" "turn d1 d2 ys"
    "en_notices (dr_engine d2) = []" "en_outbound (dr_engine d2) = en_outbound ?e"
    by (auto simp: e1)
  have "turn d d2 (xs @ ys)" using turn_trans [OF turn_trans [OF first d1(2)] d2(2)] by simp
  then show ?case using d1(1) d2 by (subst drain_notices.simps) (simp add: poll)
qed

lemma drain_outputs_udp_turn:
  "driver_ok d \<Longrightarrow> turn d (fst (drain_outputs_udp d)) (snd (drain_outputs_udp d))
    \<and> en_outbound (dr_engine (fst (drain_outputs_udp d))) = []"
proof (induction "length (en_outbound (dr_engine d))" arbitrary: d)
  case 0
  then have "poll_output (dr_engine d) = (None, dr_engine d)" by (simp add: poll_output_def)
  then show ?case using 0 by (simp add: drain_outputs_udp.simps [of d] turn_refl)
next
  case (Suc len)
  then obtain peer bs xs where xs: "en_outbound (dr_engine d) = (peer, bs) # xs" by (cases "en_outbound (dr_engine d)") auto
  let ?e = "dr_engine d\<lparr>en_outbound := xs\<rparr>"
  let ?d = "d\<lparr>dr_engine := ?e\<rparr>"
  let ?sent = "case bt_get (dr_engine_to_addr d) peer of Some dest_addr \<Rightarrow> [SendDatagram dest_addr bs] | None \<Rightarrow> []"
  have poll: "poll_output (dr_engine d) = (Some (peer, bs), ?e)" by (simp add: poll_output_def xs)
  have "fine cfg ?e" if "fine cfg (dr_engine d)" for cfg using that by (auto simp: fine_def engine_ok_def)
  then have ok: "driver_ok ?d" using Suc.prems by (simp add: driver_ok_def notices_small_def)
  then have first: "turn d ?d ?sent" by (intro turn_same) (simp_all split: option.split)
  have "len = length (en_outbound (dr_engine ?d))" using Suc.hyps(2) by (simp add: xs)
  note rest = Suc.hyps(1) [OF this ok]
  have "drain_outputs_udp d = (fst (drain_outputs_udp ?d), ?sent @ snd (drain_outputs_udp ?d))"
    by (subst drain_outputs_udp.simps) (simp add: poll split_beta)
  then show ?case using turn_trans [OF first] rest by simp
qed

lemma drain_udp_turn:
  assumes "driver_ok d"
  shows "\<exists>d' effects. drain_udp clock d = Some (d', effects) \<and> turn d d' effects
    \<and> en_notices (dr_engine d') = [] \<and> en_outbound (dr_engine d') = []"
proof -
  obtain d1 xs where d1: "drain_outputs_udp d = (d1, xs)" by fastforce
  note out = drain_outputs_udp_turn [OF assms, unfolded d1 fst_conv snd_conv]
  then have "driver_ok d1" by (simp add: turn_def)
  from drain_notices_turn [OF this, of clock] obtain d2 ys where d2: "drain_notices clock d1 = Some (d2, ys)"
    "turn d1 d2 ys" "en_notices (dr_engine d2) = []" "en_outbound (dr_engine d2) = en_outbound (dr_engine d1)"
    by blast
  then show ?thesis using out turn_trans [of d d1 xs d2 ys] by (simp add: drain_udp_def d1)
qed

text \<open>A segment, however it arrived.\<close>

lemma incoming_turn:
  assumes "driver_ok d" "length datagram < 2 ^ 63"
  shows "\<exists>r e. handle_incoming_segment from datagram now (dr_engine d) = Some (r, e) \<and> turn d (d\<lparr>dr_engine := e\<rparr>) []"
proof -
  obtain r e where e: "handle_incoming_segment from datagram now (dr_engine d) = Some (r, e)"
    "fine (engine_config_of (dr_config d)) e"
    using handle_incoming_segment_fine [OF _ assms(2)] assms(1) by (fastforce simp: driver_ok_def)
  have "notices_small e" using incoming_notices_small [OF _ assms(2) e(1)] assms(1) by (simp add: driver_ok_def)
  moreover have "en_next_session_number e = en_next_session_number (dr_engine d)"
    by (rule number_frame.handle_incoming_segment [OF refl e(1)]) simp
  ultimately show ?thesis using assms(1) e by (auto intro!: turn_same driver_okI)
qed

lemma resolve_udp_peer_frame:
  assumes "resolve_udp_peer peer_addr datagram d = (peer, d', effects)"
  shows "driver_ok d' = driver_ok d \<and> dr_engine d' = dr_engine d \<and> dr_pending_transfers d' = dr_pending_transfers d
    \<and> settled effects = {#} \<and> (\<forall>r. Reply r \<notin> set effects)"
  using assms by (auto simp: resolve_udp_peer_def driver_ok_def Let_def split: option.splits sum.splits if_splits)

lemma receive_udp_turn:
  assumes "driver_ok d" "length datagram < 2 ^ 63"
  shows "\<exists>d' effects. receive_udp now peer_addr datagram d = Some (d', effects) \<and> turn d d' effects"
proof -
  obtain peer d1 xs where r: "resolve_udp_peer peer_addr datagram d = (peer, d1, xs)" by (metis prod_cases3)
  note frame = resolve_udp_peer_frame [OF r]
  then have d1: "driver_ok d1" "turn d d1 xs" using assms(1) by (auto intro: turn_same)
  obtain r' e where "handle_incoming_segment peer datagram now (dr_engine d1) = Some (r', e)" "turn d1 (d1\<lparr>dr_engine := e\<rparr>) []"
    using incoming_turn [OF d1(1) assms(2)] by blast
  then show ?thesis using turn_trans [OF d1(2)] by (fastforce simp: receive_udp_def r)
qed

lemma timer_turn:
  assumes "driver_ok d"
  shows "\<exists>e. handle_timer_tick now (dr_engine d) = Some e \<and> turn d (d\<lparr>dr_engine := e\<rparr>) []"
proof -
  obtain e where e: "handle_timer_tick now (dr_engine d) = Some e" "fine (engine_config_of (dr_config d)) e"
    using handle_timer_tick_fine [of _ "dr_engine d" now] assms by (fastforce simp: driver_ok_def)
  have "notices_small e" using notices_frame.handle_timer_tick [OF _ e(1)] assms by (simp add: driver_ok_def)
  moreover have "en_next_session_number e = en_next_session_number (dr_engine d)"
    by (rule number_frame.handle_timer_tick [OF refl e(1)])
  ultimately show ?thesis using assms e by (auto intro!: turn_same driver_okI)
qed

section \<open>Commands\<close>

fun command_small :: "('n, 'b) driver_command \<Rightarrow> bool" where
  "command_small (Forward bundle_id destination data red_len) \<longleftrightarrow> length data < 2 ^ 63"
| "command_small _ \<longleftrightarrow> True"

text \<open>The bundle a command hands over, when it is accepted.\<close>

fun accepted_by :: "('n, 'b) driver_command \<Rightarrow> ('n, 'b) effect list \<Rightarrow> 'b multiset" where
  "accepted_by (Forward bundle_id destination data red_len) effects =
     (if Reply ReplyAccepted \<in> set effects then {#bundle_id#} else {#})"
| "accepted_by _ effects = {#}"

lemma bump_session_number_unat: "unat n + 1 < 2 ^ 64 \<Longrightarrow> unat (bump_session_number n) = unat n + 1"
proof -
  assume "unat n + 1 < 2 ^ 64"
  then have "unat (n + 1) = unat n + 1" using unat_add_exact [of n 1] by simp
  then show ?thesis by (cases "n + 1 = 0") (simp_all add: bump_session_number_def Let_def)
qed

text \<open>A turn of the loop that may also accept a bundle.\<close>

definition served :: "('n, 'b) driver \<Rightarrow> ('n, 'b) driver \<Rightarrow> 'b multiset \<Rightarrow> ('n, 'b) effect list \<Rightarrow> bool" where
  "served d d' acc effects \<longleftrightarrow> driver_ok d' \<and>
     (numbered d \<and> next_number d + 1 < 2 ^ 64 \<longrightarrow>
        numbered d' \<and> next_number d' \<le> next_number d + 1 \<and> pending_bundles d + acc = settled effects + pending_bundles d')"

lemma served_turn: "turn d d' effects \<Longrightarrow> served d d' {#} effects"
  using turn_numbered [of d d' effects] by (auto simp: served_def turn_def)

lemma served_ok: "served d d' acc effects \<Longrightarrow> driver_ok d'"
  by (simp add: served_def)

lemma served_then_turn: "served d d1 acc xs \<Longrightarrow> turn d1 d2 ys \<Longrightarrow> served d d2 acc (xs @ ys)"
  using turn_numbered [of d1 d2 ys] by (auto simp: served_def turn_def ac_simps)

lemma served_same:
  "driver_ok d' \<Longrightarrow> dr_pending_transfers d' = dr_pending_transfers d
    \<Longrightarrow> en_next_session_number (dr_engine d') = en_next_session_number (dr_engine d) \<Longrightarrow> settled effects = {#}
    \<Longrightarrow> served d d' {#} effects"
  by (simp add: served_def next_number_def pending_bundles_def numbered_def)

lemma accepted_by_turn: "turn d d' drained \<Longrightarrow> accepted_by cmd (effects @ drained) = accepted_by cmd effects"
  by (cases cmd) (auto simp: turn_def)

lemma handle_forward_served:
  assumes ok: "driver_ok d" and small: "length data < 2 ^ 63"
  shows "\<exists>d' effects. handle_command now (Forward bundle_id destination data red_len) d = Some (True, d', effects)
    \<and> served d d' (accepted_by (Forward bundle_id destination data red_len) effects) effects"
proof (cases "bt_get (dr_engine_to_addr d) destination = None")
  case True
  then show ?thesis using ok by (simp add: handle_command_def served_same)
next
  case False
  have fine: "fine (engine_config_of (dr_config d)) (dr_engine d)" "notices_small (dr_engine d)"
    using ok by (simp_all add: driver_ok_def)
  then obtain r e where req: "request_transmission destination 1 data red_len now (dr_engine d) = Some (r, e)" "engine_ok e"
    using request_transmission_ok [OF _ small, of "dr_engine d" destination 1 red_len now] by (auto simp: fine_def)
  note effects = request_effects [OF small req(1)]
  have e: "fine (engine_config_of (dr_config d)) e" "notices_small e"
    using effects fine req(2) by (auto simp: fine_def notices_small_def split: sum.splits)
  show ?thesis
  proof (cases r)
    case (Inl err)
    then show ?thesis using effects req(1) ok e False
      by (auto simp: handle_command_def intro!: served_same driver_okI)
  next
    case (Inr sid)
    let ?d = "d\<lparr>dr_engine := e, dr_pending_transfers := bt_insert sid bundle_id (dr_pending_transfers d)\<rparr>"
    have "served d ?d {#bundle_id#} [Reply ReplyAccepted]"
    proof -
      have "driver_ok ?d" using ok e by (simp add: driver_ok_def)
      moreover have "numbered ?d \<and> next_number ?d \<le> next_number d + 1
          \<and> pending_bundles d + {#bundle_id#} = pending_bundles ?d"
        if "numbered d" "next_number d + 1 < 2 ^ 64"
      proof -
        have sid: "unat (snumber sid) = next_number d" "next_number ?d = next_number d + 1"
          using effects bump_session_number_unat that(2) by (simp_all add: Inr next_number_def)
        have "sid \<notin> fst ` set (dr_pending_transfers d)" using that(1) sid(1) by (auto simp: numbered_def)
        then have "bt_get (dr_pending_transfers d) sid = None" using dom_bt_get [of "dr_pending_transfers d"] by auto
        from mset_bt_insert [OF this] show ?thesis
          using that(1) sid by (auto simp: numbered_def keys_bt_insert pending_bundles_def)
      qed
      ultimately show ?thesis by (simp add: served_def)
    qed
    then show ?thesis using req(1) False by (auto simp: handle_command_def Inr)
  qed
qed

lemma settled_failed: "settled (map (\<lambda>(sid, b). Outcome b Failed) xs) = mset (map snd xs)"
  by (induction xs) auto

lemma fail_pending_turn:
  "driver_ok d \<Longrightarrow> turn d (fst (fail_pending d)) (snd (fail_pending d)) \<and> pending_bundles (fst (fail_pending d)) = {#}"
  by (auto simp: fail_pending_def turn_def driver_ok_def next_number_def pending_bundles_def settled_failed)

lemma handle_command_served:
  assumes "driver_ok d" "command_small cmd"
  shows "\<exists>goes_on d' effects. handle_command now cmd d = Some (goes_on, d', effects)
    \<and> served d d' (accepted_by cmd effects) effects \<and> (\<not> goes_on \<longrightarrow> pending_bundles d' = {#})"
proof (cases cmd)
  case (Forward bundle_id destination data red_len)
  then show ?thesis using handle_forward_served [OF assms(1)] assms(2) by fastforce
next
  case (SetPeerTiming engine_id rtt margin)
  let ?e = "set_peer_timing engine_id (micros_u64 rtt) (micros_u64 margin) (dr_engine d)"
  have "notices_small ?e" "en_next_session_number ?e = en_next_session_number (dr_engine d)"
    using assms(1) by (simp_all add: driver_ok_def notices_small_def set_peer_timing_def)
  moreover have "fine (engine_config_of (dr_config d)) ?e"
    using assms(1) by (simp add: driver_ok_def set_peer_timing_fine)
  ultimately have "turn d (d\<lparr>dr_engine := ?e\<rparr>) []" using assms(1) by (intro turn_same driver_okI) simp_all
  then show ?thesis by (auto simp: handle_command_def SetPeerTiming served_turn)
next
  case Shutdown
  then show ?thesis using fail_pending_turn [OF assms(1)] by (cases "fail_pending d") (auto simp: handle_command_def served_turn)
next
  case (RegisterPeer engine_id addr node_id)
  then obtain d' where "handle_command now cmd d = Some (True, d', [])" "driver_ok d'"
    "dr_pending_transfers d' = dr_pending_transfers d" "dr_engine d' = dr_engine d"
    using assms(1) by (cases node_id) (simp_all add: handle_command_def driver_ok_def)
  then show ?thesis using served_same [of d' d "[]"] by (auto simp: RegisterPeer)
next
  case (UnregisterPeer engine_id)
  then obtain d' where "handle_command now cmd d = Some (True, d', [])" "driver_ok d'"
    "dr_pending_transfers d' = dr_pending_transfers d" "dr_engine d' = dr_engine d"
    using assms(1) by (cases "bt_get (dr_engine_to_addr d) engine_id") (simp_all add: handle_command_def driver_ok_def)
  then show ?thesis using served_same [of d' d "[]"] by (auto simp: UnregisterPeer)
qed

section \<open>The loops\<close>

text \<open>A loop that handles one event after the other until an operation ends it; the log pairs the events
  with their effects.\<close>

fun run_turns ::
    "('ev \<Rightarrow> 's \<Rightarrow> (bool \<times> 's \<times> 'f list) option) \<Rightarrow> 'ev list \<Rightarrow> 's \<Rightarrow> (bool \<times> 's \<times> ('ev \<times> 'f list) list) option" where
  "run_turns step [] s = Some (True, s, [])"
| "run_turns step (ev # evs) s =
     (case step ev s of
        None \<Rightarrow> None
      | Some (goes_on, s, effects) \<Rightarrow>
          if goes_on then map_option (\<lambda>(goes_on, s, log). (goes_on, s, (ev, effects) # log)) (run_turns step evs s)
          else Some (False, s, [(ev, effects)]))"

definition logged :: "('ev \<Rightarrow> 'f list \<Rightarrow> 'b multiset) \<Rightarrow> ('ev \<times> 'f list) list \<Rightarrow> 'b multiset" where
  "logged f log = sum_list (map (\<lambda>(ev, effects). f ev effects) log)"

text \<open>What the loops of both transports rely on.\<close>

locale event_loop =
  fixes step :: "'ev \<Rightarrow> 's \<Rightarrow> (bool \<times> 's \<times> ('n, 'b) effect list) option"
    and driver_of :: "'s \<Rightarrow> ('n, 'b) driver"
    and inv :: "'s \<Rightarrow> bool"
    and small :: "'ev \<Rightarrow> bool"
    and taken :: "'ev \<Rightarrow> ('n, 'b) effect list \<Rightarrow> 'b multiset"
  assumes step_served: "inv s \<Longrightarrow> small ev \<Longrightarrow>
    \<exists>goes_on s' effects. step ev s = Some (goes_on, s', effects) \<and> inv s'
      \<and> served (driver_of s) (driver_of s') (taken ev effects) effects
      \<and> (\<not> goes_on \<longrightarrow> pending_bundles (driver_of s') = {#})"
begin

lemma run_ok:
  "inv s \<Longrightarrow> \<forall>ev\<in>set evs. small ev \<Longrightarrow> \<exists>goes_on s' log. run_turns step evs s = Some (goes_on, s', log) \<and> inv s'"
proof (induction evs arbitrary: s)
  case (Cons ev evs)
  have small: "small ev" "\<forall>ev\<in>set evs. small ev" using Cons.prems(2) by simp_all
  obtain goes_on s1 effects where s1: "step ev s = Some (goes_on, s1, effects)" "inv s1"
    using step_served [OF Cons.prems(1) small(1)] by blast
  obtain g s2 log where rest: "run_turns step evs s1 = Some (g, s2, log)" "inv s2"
    using Cons.IH [OF s1(2) small(2)] by blast
  show ?case by (cases goes_on) (auto simp: s1 rest)
qed auto

lemma run_conserves:
  assumes "inv s" "\<forall>ev\<in>set evs. small ev" "numbered (driver_of s)" "next_number (driver_of s) + length evs < 2 ^ 64"
    and "run_turns step evs s = Some (goes_on, s', log)"
  shows "pending_bundles (driver_of s) + logged taken log
    = logged (\<lambda>ev. settled) log + pending_bundles (driver_of s') \<and> (\<not> goes_on \<longrightarrow> pending_bundles (driver_of s') = {#})"
  using assms
proof (induction evs arbitrary: s log)
  case Nil
  then show ?case by (simp add: logged_def)
next
  case (Cons ev evs)
  have small: "small ev" using Cons.prems(2) by simp
  obtain g s1 effects where s1: "step ev s = Some (g, s1, effects)" "inv s1"
    and served: "served (driver_of s) (driver_of s1) (taken ev effects) effects"
    and stop: "\<not> g \<longrightarrow> pending_bundles (driver_of s1) = {#}"
    using step_served [OF Cons.prems(1) small] by blast
  have one: "numbered (driver_of s1)" "next_number (driver_of s1) + length evs < 2 ^ 64"
    "pending_bundles (driver_of s) + taken ev effects = settled effects + pending_bundles (driver_of s1)"
    using served Cons.prems(3,4) by (auto simp: served_def)
  show ?case
  proof (cases g)
    case False
    then show ?thesis using Cons.prems(5) s1(1) one(3) stop by (auto simp: logged_def)
  next
    case True
    then obtain log' where log: "run_turns step evs s1 = Some (goes_on, s', log')" "log = (ev, effects) # log'"
      using Cons.prems(5) s1(1) by auto
    have "pending_bundles (driver_of s1) + logged taken log'
        = logged (\<lambda>ev. settled) log' + pending_bundles (driver_of s') \<and> (\<not> goes_on \<longrightarrow> pending_bundles (driver_of s') = {#})"
      using Cons.prems(2) by (intro Cons.IH [OF s1(2) _ one(1,2) log(1)]) simp
    then show ?thesis using one(3) by (simp add: log(2) logged_def) (metis add.assoc add.commute)
  qed
qed

end

subsection \<open>UDP\<close>

type_synonym ('n, 'b) udp_turn = "u64 \<times> nat \<times> ('n, 'b) driver_event"

fun udp_turn_step ::
    "('n, 'b) udp_turn \<Rightarrow> ('n, 'b) driver \<Rightarrow> (bool \<times> ('n, 'b) driver \<times> ('n, 'b) effect list) option" where
  "udp_turn_step (now, clock, ev) d = udp_step now clock ev d"

fun udp_small :: "('n, 'b) udp_turn \<Rightarrow> bool" where
  "udp_small (now, clock, Received addr datagram) \<longleftrightarrow> length datagram < 2 ^ 63"
| "udp_small (now, clock, TimerExpired) \<longleftrightarrow> True"
| "udp_small (now, clock, Commanded cmd) \<longleftrightarrow> command_small cmd"

fun udp_taken :: "('n, 'b) udp_turn \<Rightarrow> ('n, 'b) effect list \<Rightarrow> 'b multiset" where
  "udp_taken (now, clock, Commanded cmd) effects = accepted_by cmd effects"
| "udp_taken _ effects = {#}"

lemma udp_step_served:
  assumes ok: "driver_ok d" and small: "udp_small ev"
  shows "\<exists>goes_on d' effects. udp_turn_step ev d = Some (goes_on, d', effects) \<and> driver_ok d'
    \<and> served d d' (udp_taken ev effects) effects \<and> (\<not> goes_on \<longrightarrow> pending_bundles d' = {#})"
proof -
  obtain now clock ev' where ev: "ev = (now, clock, ev')" by (metis prod_cases3)
  have drained: "\<exists>d2 ys. drain_udp clock d1 = Some (d2, ys) \<and> turn d1 d2 ys" if "driver_ok d1" for d1
    using drain_udp_turn [OF that] by blast
  show ?thesis
  proof (cases ev')
    case (Received addr datagram)
    obtain d1 xs where d1: "receive_udp now addr datagram d = Some (d1, xs)" "turn d d1 xs"
      using receive_udp_turn [OF ok] small by (fastforce simp: ev Received)
    obtain d2 ys where d2: "drain_udp clock d1 = Some (d2, ys)" "turn d1 d2 ys"
      using drained [OF turn_ok [OF d1(2)]] by blast
    have "turn d d2 (xs @ ys)" by (rule turn_trans [OF d1(2) d2(2)])
    then show ?thesis
      using ok d1(1) d2(1)
      by (cases "datagram = [0, 0, 0, 0]") (auto simp: ev Received udp_step_def turn_def [of d d2] intro!: served_turn turn_refl)
  next
    case TimerExpired
    obtain e where e: "handle_timer_tick now (dr_engine d) = Some e" "turn d (d\<lparr>dr_engine := e\<rparr>) []"
      using timer_turn [OF ok] by blast
    obtain d2 ys where d2: "drain_udp clock (d\<lparr>dr_engine := e\<rparr>) = Some (d2, ys)" "turn (d\<lparr>dr_engine := e\<rparr>) d2 ys"
      using drained [OF turn_ok [OF e(2)]] by blast
    have "turn d d2 ys" using turn_trans [OF e(2) d2(2)] by simp
    then show ?thesis using e(1) d2(1) by (auto simp: ev TimerExpired udp_step_def turn_def [of d d2] intro!: served_turn)
  next
    case (Commanded cmd)
    obtain g d1 xs where d1: "handle_command now cmd d = Some (g, d1, xs)" "served d d1 (accepted_by cmd xs) xs"
      "\<not> g \<longrightarrow> pending_bundles d1 = {#}"
      using handle_command_served [OF ok, of cmd now] small by (auto simp: ev Commanded)
    show ?thesis
    proof (cases g)
      case False
      then show ?thesis using d1 by (auto simp: ev Commanded udp_step_def served_def)
    next
      case True
      obtain d2 ys where d2: "drain_udp clock d1 = Some (d2, ys)" "turn d1 d2 ys"
        using drained [OF served_ok [OF d1(2)]] by blast
      have "served d d2 (accepted_by cmd (xs @ ys)) (xs @ ys)"
        using served_then_turn [OF d1(2) d2(2)] by (simp add: accepted_by_turn [OF d2(2)])
      then show ?thesis using True d1(1) d2(1) by (auto simp: ev Commanded udp_step_def served_def)
    qed
  qed
qed

interpretation udp_loop: event_loop udp_turn_step "\<lambda>d. d" driver_ok udp_small udp_taken
  by unfold_locales (rule udp_step_served)

subsection \<open>KISS\<close>

text \<open>A turn with the adapter's connection up or down, or one that connects; the state is the accumulator
  and the driver.\<close>

datatype ('n, 'b) kiss_turn =
    Up bool u64 nat "('n, 'b) kiss_event"
  | Down u64 nat "('n, 'b) driver_command option"
  | Connect bool

fun kiss_turn_step ::
    "(u8 \<Rightarrow> bytes \<Rightarrow> nat option) \<Rightarrow> (u8 \<Rightarrow> u8 \<Rightarrow> bytes \<Rightarrow> nat option) \<Rightarrow> ((engine_id, socket_addr) btree \<Rightarrow> engine_id option)
     \<Rightarrow> u8 \<Rightarrow> nat \<Rightarrow> ('n, 'b) kiss_turn \<Rightarrow> bytes \<times> ('n, 'b) driver
     \<Rightarrow> (bool \<times> (bytes \<times> ('n, 'b) driver) \<times> ('n, 'b) effect list) option" where
  "kiss_turn_step memchr memchr2 any_key port min_frame_len (Up written now clock ev) (acc, d) =
     map_option (\<lambda>(goes_on, acc, d, effects). (goes_on, (acc, d), effects))
       (kiss_step memchr memchr2 any_key port min_frame_len written now clock ev acc d)"
| "kiss_turn_step memchr memchr2 any_key port min_frame_len (Down now clock cmd) (acc, d) =
     map_option (\<lambda>(goes_on, d, effects). (goes_on, (acc, d), effects)) (backoff_step now clock cmd d)"
| "kiss_turn_step memchr memchr2 any_key port min_frame_len (Connect written) (acc, d) =
     (let (acc, d, effects) = connect_step memchr2 port min_frame_len written d in Some (True, (acc, d), effects))"

fun kiss_small :: "('n, 'b) kiss_turn \<Rightarrow> bool" where
  "kiss_small (Up written now clock (StreamRead chunk)) \<longleftrightarrow> length chunk < 2 ^ 62"
| "kiss_small (Up written now clock (StreamCommand cmd)) \<longleftrightarrow> command_small cmd"
| "kiss_small (Down now clock (Some cmd)) \<longleftrightarrow> command_small cmd"
| "kiss_small _ \<longleftrightarrow> True"

fun kiss_taken :: "('n, 'b) kiss_turn \<Rightarrow> ('n, 'b) effect list \<Rightarrow> 'b multiset" where
  "kiss_taken (Up written now clock (StreamCommand cmd)) effects = accepted_by cmd effects"
| "kiss_taken (Down now clock (Some cmd)) effects = accepted_by cmd effects"
| "kiss_taken _ effects = {#}"

definition kiss_ok :: "(u8 \<Rightarrow> bytes \<Rightarrow> nat option) \<Rightarrow> bytes \<times> ('n, 'b) driver \<Rightarrow> bool" where
  "kiss_ok memchr s \<longleftrightarrow> is_memchr memchr \<and> length (fst s) < 2 ^ 62 + MAX_KISS_ACCUMULATOR \<and> driver_ok (snd s)"

text \<open>The payload of a frame is no longer than the octets it came from.\<close>

lemma unesc_length: "unesc bs = Inr xs \<Longrightarrow> length xs \<le> length bs"
proof (induction bs arbitrary: xs rule: unesc.induct)
  case (3 b c bs)
  show ?case
  proof (cases "b = FESC")
    case True
    then show ?thesis using "3.prems" "3.IH"(1,2) by (cases "unesc bs") (fastforce split: if_splits)+
  next
    case False
    then show ?thesis using "3.prems" "3.IH"(3) by (cases "unesc (c # bs)") fastforce+
  qed
qed (auto split: if_splits)

lemma kiss_next_payload: "kiss_next a = Some (f, k) \<Longrightarrow> length (kf_payload f) \<le> length a"
proof (induction "length a" arbitrary: a k rule: less_induct)
  case less
  show ?case
  proof (cases a rule: kiss_cases)
    case (opened m r)
    then show ?thesis using less.prems by (simp add: kiss_next_open)
  next
    case (part m p rest)
    show ?thesis
    proof (cases "head_frame (unesc p)")
      case (Some g)
      then have "length (kf_payload g) \<le> length p"
        using unesc_length [of p] by (cases "unesc p" rule: head_frame.cases) (auto simp: frame_of_def)
      then show ?thesis using less.prems Some unfolding part(1) kiss_next_part [OF part(2,3)] by auto
    next
      case None
      then obtain j where "kiss_next rest = Some (f, j)"
        using less.prems unfolding part(1) kiss_next_part [OF part(2,3)] by auto
      from less.hyps [OF _ this] show ?thesis by (simp add: part(1))
    qed
  qed
qed

lemma receive_frame_turn:
  assumes "driver_ok d" "length (kf_payload f) < 2 ^ 63"
  shows "\<exists>d'. receive_frame any_key now f d = Some d' \<and> turn d d' []"
proof (cases "kf_command f = KData")
  case True
  then show ?thesis
    using incoming_turn [OF assms, of "resolve_kiss_peer any_key (kf_payload f) d" now] by (auto simp: receive_frame_def)
qed (use assms(1) in \<open>simp add: receive_frame_def turn_refl\<close>)

lemma kiss_extract_turn:
  assumes "is_memchr memchr" "length acc < 2 ^ 63"
  shows "driver_ok d \<Longrightarrow> offset \<le> length acc \<Longrightarrow> \<exists>reached d'. kiss_extract memchr any_key now acc offset d = Some (reached, d') \<and> turn d d' []"
proof (induction "length acc - offset" arbitrary: offset d rule: less_induct)
  case less
  note dec = decode_frame_next [OF assms(1), of "drop offset acc"]
  show ?case
  proof (cases "kiss_next (drop offset acc)")
    case None
    then show ?thesis using less.prems by (subst kiss_extract.simps) (simp add: dec turn_refl)
  next
    case (Some p)
    obtain f k where p: "p = (f, k)" by fastforce
    have k: "0 < k" "k \<le> length acc - offset" using kiss_next_prefix [OF Some [unfolded p], of "[]"] by simp_all
    have "length (kf_payload f) < 2 ^ 63" using kiss_next_payload [OF Some [unfolded p]] assms(2) by simp
    then obtain d1 where d1: "receive_frame any_key now f d = Some d1" "turn d d1 []"
      using receive_frame_turn [OF less.prems(1)] by blast
    have "length acc - (offset + k) < length acc - offset" "offset + k \<le> length acc" using k less.prems(2) by linarith+
    from less.hyps [OF this(1) turn_ok [OF d1(2)] this(2)] obtain reached d2 where
      d2: "kiss_extract memchr any_key now acc (offset + k) d1 = Some (reached, d2)" "turn d1 d2 []" by blast
    have "turn d d2 []" using turn_trans [OF d1(2) d2(2)] by simp
    then show ?thesis using d1(1) d2(1) Some by (subst kiss_extract.simps) (simp add: dec p)
  qed
qed

lemma kiss_read_turn:
  assumes "kiss_ok memchr (acc, d)" "length chunk < 2 ^ 62"
  shows "\<exists>acc' d'. kiss_read memchr any_key now chunk acc d = Some (acc', d') \<and> turn d d' [] \<and> kiss_ok memchr (acc', d')"
proof -
  define buf where "buf = (if MAX_KISS_ACCUMULATOR < length acc + length chunk then [] else acc) @ chunk"
  have "MAX_KISS_ACCUMULATOR < 2 ^ 62" by (simp add: MAX_KISS_ACCUMULATOR_def)
  moreover have "(2 :: nat) ^ 63 = 2 * 2 ^ 62" by simp
  ultimately have buf: "length buf < 2 ^ 62 + MAX_KISS_ACCUMULATOR" "length buf < 2 ^ 63"
    using assms(2) unfolding buf_def by (auto simp del: power_numeral)
  have memchr: "is_memchr memchr" "driver_ok d" using assms(1) by (simp_all add: kiss_ok_def)
  obtain reached d' where d': "kiss_extract memchr any_key now buf 0 d = Some (reached, d')" "turn d d' []"
    using kiss_extract_turn [OF memchr(1) buf(2) memchr(2), of 0] by blast
  let ?acc = "if 0 < reached then drop reached buf else buf"
  have "kiss_ok memchr (?acc, d')" using memchr(1) buf(1) turn_ok [OF d'(2)] by (auto simp: kiss_ok_def)
  moreover have "kiss_read memchr any_key now chunk acc d = Some (?acc, d')"
    using d'(1) by (simp add: kiss_read_def buf_def Let_def)
  ultimately show ?thesis using d'(2) by blast
qed

lemma kiss_batch_frame:
  "fst (kiss_batch memchr2 port n e buf) = e\<lparr>en_outbound := []\<rparr>"
proof (induction "length (en_outbound e)" arbitrary: e buf)
  case 0
  then show ?case by (subst kiss_batch.simps) (simp add: poll_output_def)
next
  case (Suc len)
  then obtain x xs where xs: "en_outbound e = x # xs" by (cases "en_outbound e") auto
  obtain peer bs where x: "x = (peer, bs)" by fastforce
  have "len = length (en_outbound (e\<lparr>en_outbound := xs\<rparr>))" using Suc.hyps(2) xs by simp
  from Suc.hyps(1) [OF this] show ?case
    by (subst kiss_batch.simps) (simp add: poll_output_def xs x Let_def)
qed

lemma drain_outputs_kiss_turn:
  assumes "driver_ok d" "drain_outputs_kiss memchr2 port n d = (d', sent)"
  shows "turn d d' sent \<and> turn d d' [] \<and> en_outbound (dr_engine d') = []"
proof -
  let ?e = "dr_engine d\<lparr>en_outbound := []\<rparr>"
  have d': "d' = d\<lparr>dr_engine := ?e\<rparr>" "sent = [] \<or> (\<exists>bs. sent = [SendStream bs])"
    using assms(2) kiss_batch_frame [of memchr2 port n "dr_engine d" "[]"]
    by (auto simp: drain_outputs_kiss_def split_beta split: if_splits)
  have "fine cfg ?e" if "fine cfg (dr_engine d)" for cfg using that by (auto simp: fine_def engine_ok_def)
  then have "driver_ok d'" using assms(1) d'(1) by (simp add: driver_ok_def notices_small_def)
  then show ?thesis using d' by (auto intro!: turn_same)
qed

lemma drain_kiss_turn:
  assumes "driver_ok d"
  shows "\<exists>d' effects. drain_kiss memchr2 port n written clock d = Some (d', effects) \<and> turn d d' effects"
proof -
  obtain d1 sent where d1: "drain_outputs_kiss memchr2 port n d = (d1, sent)" by fastforce
  note t1 = drain_outputs_kiss_turn [OF assms d1]
  then obtain d2 ys where d2: "drain_notices clock d1 = Some (d2, ys)" "turn d1 d2 ys"
    using drain_notices_turn [OF turn_ok, of d d1 sent clock] by blast
  then show ?thesis using t1 turn_trans [of d d1 sent d2 ys] by (simp add: drain_kiss_def d1)
qed

lemma kiss_turn_served:
  assumes ok: "kiss_ok memchr s" and small: "kiss_small ev"
  shows "\<exists>goes_on s' effects. kiss_turn_step memchr memchr2 any_key port n ev s = Some (goes_on, s', effects) \<and> kiss_ok memchr s'
    \<and> served (snd s) (snd s') (kiss_taken ev effects) effects \<and> (\<not> goes_on \<longrightarrow> pending_bundles (snd s') = {#})"
proof -
  obtain acc d where s: "s = (acc, d)" by fastforce
  have d: "driver_ok d" using ok by (simp add: s kiss_ok_def)
  have keep: "kiss_ok memchr (acc, d')" if "driver_ok d'" for d' using ok that by (simp add: s kiss_ok_def)
  have command: "\<exists>g d1 xs. handle_command now cmd d = Some (g, d1, xs) \<and> served d d1 (accepted_by cmd xs) xs
      \<and> (\<not> g \<longrightarrow> pending_bundles d1 = {#})" if "command_small cmd" for now cmd
    using handle_command_served [OF d that] by blast
  have drained: "\<exists>d2 ys. drain_kiss memchr2 port n written clock d1 = Some (d2, ys) \<and> turn d1 d2 ys" if "driver_ok d1"
    for written clock d1 by (rule drain_kiss_turn [OF that])
  show ?thesis
  proof (cases ev)
    case (Up written now clock ev')
    show ?thesis
    proof (cases ev')
      case (StreamRead chunk)
      have "length chunk < 2 ^ 62" using small by (simp add: Up StreamRead)
      from kiss_read_turn [OF ok [unfolded s] this] obtain acc1 d1 where
        d1: "kiss_read memchr any_key now chunk acc d = Some (acc1, d1)" "turn d d1 []" "kiss_ok memchr (acc1, d1)"
        by blast
      obtain d2 ys where d2: "drain_kiss memchr2 port n written clock d1 = Some (d2, ys)" "turn d1 d2 ys"
        using drained [OF turn_ok [OF d1(2)]] by blast
      have "turn d d2 ys" "kiss_ok memchr (acc1, d2)"
        using turn_trans [OF d1(2) d2(2)] d1(3) turn_ok [OF d2(2)] by (simp_all add: kiss_ok_def)
      then show ?thesis using d1(1) d2(1) by (auto simp: s Up StreamRead kiss_step_def intro: served_turn)
    next
      case StreamTimer
      obtain e where e: "handle_timer_tick now (dr_engine d) = Some e" "turn d (d\<lparr>dr_engine := e\<rparr>) []"
        using timer_turn [OF d] by blast
      obtain d2 ys where d2: "drain_kiss memchr2 port n written clock (d\<lparr>dr_engine := e\<rparr>) = Some (d2, ys)"
        "turn (d\<lparr>dr_engine := e\<rparr>) d2 ys"
        using drained [OF turn_ok [OF e(2)]] by blast
      have "turn d d2 ys" using turn_trans [OF e(2) d2(2)] by simp
      then show ?thesis
        using e(1) d2(1) keep [OF turn_ok [OF d2(2)]] by (auto simp: s Up StreamTimer kiss_step_def intro: served_turn)
    next
      case (StreamCommand cmd)
      obtain g d1 xs where d1: "handle_command now cmd d = Some (g, d1, xs)" "served d d1 (accepted_by cmd xs) xs"
        "\<not> g \<longrightarrow> pending_bundles d1 = {#}"
        using command [of cmd now] small by (auto simp: Up StreamCommand)
      show ?thesis
      proof (cases g)
        case False
        then show ?thesis using d1 keep [OF served_ok [OF d1(2)]] by (auto simp: s Up StreamCommand kiss_step_def)
      next
        case True
        obtain d2 ys where d2: "drain_kiss memchr2 port n written clock d1 = Some (d2, ys)" "turn d1 d2 ys"
          using drained [OF served_ok [OF d1(2)]] by blast
        have "served d d2 (accepted_by cmd (xs @ ys)) (xs @ ys)"
          using served_then_turn [OF d1(2) d2(2)] by (simp add: accepted_by_turn [OF d2(2)])
        then show ?thesis
          using True d1(1) d2(1) keep [OF turn_ok [OF d2(2)]] by (auto simp: s Up StreamCommand kiss_step_def)
      qed
    qed
  next
    case (Down now clock cmd)
    show ?thesis
    proof (cases cmd)
      case None
      obtain e where e: "handle_timer_tick now (dr_engine d) = Some e" "turn d (d\<lparr>dr_engine := e\<rparr>) []"
        using timer_turn [OF d] by blast
      obtain d2 ys where d2: "drain_notices clock (d\<lparr>dr_engine := e\<rparr>) = Some (d2, ys)" "turn (d\<lparr>dr_engine := e\<rparr>) d2 ys"
        using drain_notices_turn [OF turn_ok [OF e(2)], of clock] by blast
      have "turn d d2 ys" using turn_trans [OF e(2) d2(2)] by simp
      then show ?thesis
        using e(1) d2(1) keep [OF turn_ok [OF d2(2)]] by (auto simp: s Down None backoff_step_def intro: served_turn)
    next
      case (Some cmd')
      obtain g d1 xs where "handle_command now cmd' d = Some (g, d1, xs)" "served d d1 (accepted_by cmd' xs) xs"
        "\<not> g \<longrightarrow> pending_bundles d1 = {#}"
        using command [of cmd' now] small by (auto simp: Down Some)
      then show ?thesis using keep [OF served_ok] by (fastforce simp: s Down Some backoff_step_def)
    qed
  next
    case (Connect written)
    obtain d1 sent where d1: "drain_outputs_kiss memchr2 port n d = (d1, sent)" by fastforce
    note t = drain_outputs_kiss_turn [OF d d1]
    have "kiss_ok memchr ([], d1)" using ok t by (simp add: s kiss_ok_def) (auto dest: turn_ok)
    then show ?thesis using t by (auto simp: s Connect connect_step_def d1 intro: served_turn)
  qed
qed

interpretation kiss_loop: event_loop "kiss_turn_step memchr memchr2 any_key port n" snd "kiss_ok memchr" kiss_small kiss_taken
  for memchr memchr2 any_key port n
  by unfold_locales (rule kiss_turn_served)

section \<open>Properties\<close>

lemma fold_configure_number: "en_next_session_number (fold configure_peer peers e) = en_next_session_number e"
  by (induction peers arbitrary: e) (auto simp: configure_peer_def set_peer_timing_def split: option.split)

lemma new_driver: "numbered (driver_new config)" "next_number (driver_new config) = 1" "pending_bundles (driver_new config) = {#}"
  by (simp_all add: driver_new_def numbered_def next_number_def pending_bundles_def engine_new_def
      engine_config_of_def default_config_def fold_configure_number)

text \<open>C4: the adapter never panics.  From a new driver every sequence of datagrams with any content, timer
  expirations and commands is handled to its end over UDP, and every sequence of reads, writes, timers,
  commands and reconnections over KISS; after it at most 64 green blocks are being
  assembled, none of them larger than 16 MiB.\<close>

theorem driver_never_panics:
  assumes "is_memchr memchr" and "\<forall>ev\<in>set evs. udp_small ev" and "\<forall>ev\<in>set kevs. kiss_small ev"
  shows "(\<exists>goes_on d log. run_turns udp_turn_step evs (driver_new config) = Some (goes_on, d, log)
        \<and> length (dr_green_reassemblies d) \<le> 64
        \<and> (\<forall>(sid, r)\<in>set (dr_green_reassemblies d). length (gr_data r) \<le> 16 * 1024 * 1024))
    \<and> (\<exists>goes_on acc d log. run_turns (kiss_turn_step memchr memchr2 any_key port n) kevs ([], driver_new config) = Some (goes_on, (acc, d), log)
        \<and> length (dr_green_reassemblies d) \<le> 64
        \<and> (\<forall>(sid, r)\<in>set (dr_green_reassemblies d). length (gr_data r) \<le> 16 * 1024 * 1024))"
proof -
  have green: "length (dr_green_reassemblies d) \<le> 64
      \<and> (\<forall>(sid, r)\<in>set (dr_green_reassemblies d). length (gr_data r) \<le> 16 * 1024 * 1024)" if "driver_ok d" for d
    using that by (simp add: driver_ok_def green_ok_def MAX_GREEN_REASSEMBLIES_def MAX_GREEN_BUNDLE_SIZE_def)
  obtain g d log where udp: "run_turns udp_turn_step evs (driver_new config) = Some (g, d, log)" "driver_ok d"
    using udp_loop.run_ok [OF driver_ok_new assms(2)] by blast
  have "kiss_ok memchr ([], driver_new config)" using assms(1) driver_ok_new by (simp add: kiss_ok_def)
  from kiss_loop.run_ok [OF this assms(3)] obtain g' acc d' log' where
    kiss: "run_turns (kiss_turn_step memchr memchr2 any_key port n) kevs ([], driver_new config) = Some (g', (acc, d'), log')"
      "kiss_ok memchr (acc, d')"
    by (metis prod.exhaust)
  have "driver_ok d'" using kiss(2) by (simp add: kiss_ok_def)
  then show ?thesis using udp(1) green [OF udp(2)] kiss(1) green by blast
qed

definition sample_commands :: "(nat, nat) driver_command list" where
  "sample_commands = [RegisterPeer 2 (SocketAddr 0 1113) None, Forward 7 2 [1, 2, 3] 3, Shutdown]"

theorem driver_never_panics_witness:
  "(\<exists>goes_on d log. run_turns udp_turn_step [(5, 0, Received (SocketAddr 0 9) [1, 2, 3]), (6, 0, Commanded (hd sample_commands))] sample_driver
        = Some (goes_on, d, log)
      \<and> length (dr_green_reassemblies d) \<le> 64
      \<and> list_all (\<lambda>(sid, r). length (gr_data r) \<le> 16 * 1024 * 1024) (dr_green_reassemblies d))
    \<and> (\<exists>goes_on acc d log. run_turns (kiss_turn_step memchr_model memchr2_model (\<lambda>_. None) 0 15) [Connect True, Up True 3 0 (StreamRead [0xC0])] ([], sample_driver)
        = Some (goes_on, (acc, d), log)
      \<and> length (dr_green_reassemblies d) \<le> 64
      \<and> list_all (\<lambda>(sid, r). length (gr_data r) \<le> 16 * 1024 * 1024) (dr_green_reassemblies d))"
  unfolding sample_driver_def list_all_iff
  by (rule driver_never_panics [OF search_models(1)]) (simp_all add: sample_commands_def)

text \<open>C5: every transfer is settled once.  Over a run of fewer than \<open>2 ^ 64 - 1\<close> turns from a new driver, over UDP or
  KISS, the bundles that were accepted are, counted with multiplicity, the bundles whose outcome was
  reported and the bundles still pending; and after a shutdown none is pending.\<close>

theorem transfers_conserved:
  assumes "is_memchr memchr" and "\<forall>ev\<in>set evs. udp_small ev" and "\<forall>ev\<in>set kevs. kiss_small ev"
    and "length evs < 2 ^ 64 - 1" and "length kevs < 2 ^ 64 - 1"
    and "run_turns udp_turn_step evs (driver_new config) = Some (goes_on, d, log)"
    and "run_turns (kiss_turn_step memchr memchr2 any_key port n) kevs ([], driver_new config) = Some (kgoes_on, (acc, kd), klog)"
  shows "logged udp_taken log = logged (\<lambda>ev. settled) log + pending_bundles d
    \<and> (\<not> goes_on \<longrightarrow> logged udp_taken log = logged (\<lambda>ev. settled) log)
    \<and> logged kiss_taken klog = logged (\<lambda>ev. settled) klog + pending_bundles kd
    \<and> (\<not> kgoes_on \<longrightarrow> logged kiss_taken klog = logged (\<lambda>ev. settled) klog)"
proof -
  have ok: "kiss_ok memchr ([], driver_new config)" using assms(1) driver_ok_new by (simp add: kiss_ok_def)
  have "next_number (driver_new config) + length evs < 2 ^ 64" "next_number (driver_new config) + length kevs < 2 ^ 64"
    using assms(4,5) by (simp_all add: new_driver(2))
  with udp_loop.run_conserves [OF driver_ok_new assms(2) new_driver(1) _ assms(6)]
    kiss_loop.run_conserves [OF ok assms(3) _ _ assms(7)]
  show ?thesis by (simp add: new_driver)
qed

theorem transfers_conserved_witness:
  "\<exists>goes_on d log. run_turns udp_turn_step (map (\<lambda>cmd. (9, 0, Commanded cmd)) sample_commands) sample_driver = Some (goes_on, d, log)
    \<and> logged udp_taken log = logged (\<lambda>ev. settled) log + pending_bundles d"
proof -
  let ?evs = "map (\<lambda>cmd. (9, 0, Commanded cmd)) sample_commands :: (nat, nat) udp_turn list"
  let ?kevs = "[Connect True, Down 9 0 (Some Shutdown)] :: (nat, nat) kiss_turn list"
  have small: "\<forall>ev\<in>set ?evs. udp_small ev" "\<forall>ev\<in>set ?kevs. kiss_small ev" by (simp_all add: sample_commands_def)
  have ok: "driver_ok sample_driver" "kiss_ok memchr_model ([], sample_driver)"
    by (simp_all add: sample_driver_def kiss_ok_def driver_ok_new search_models)
  obtain g d log where udp: "run_turns udp_turn_step ?evs sample_driver = Some (g, d, log)"
    using udp_loop.run_ok [OF ok(1) small(1)] by blast
  obtain kg acc kd klog where kiss:
    "run_turns (kiss_turn_step memchr_model memchr2_model (\<lambda>_. None) 0 0) ?kevs ([], sample_driver) = Some (kg, (acc, kd), klog)"
    using kiss_loop.run_ok [OF ok(2) small(2)] by (metis prod.exhaust)
  have "logged udp_taken log = logged (\<lambda>ev. settled) log + pending_bundles d"
    using transfers_conserved [OF search_models(1) small _ _ udp [unfolded sample_driver_def] kiss [unfolded sample_driver_def]]
    by (simp add: sample_commands_def)
  then show ?thesis using udp by blast
qed

text \<open>No timer is starved.  Where a timer is armed the loop sleeps for a definite time, and a tick at any
  later moment handles at least one expired timer, the one with the earliest deadline among them; where none is
  armed it sleeps until another event.\<close>

theorem timers_not_starved:
  assumes "driver_ok d"
  shows "case timer_wait now d of
      None \<Rightarrow> \<forall>later. fst (tt_drain later (en_timers (dr_engine d))) = []
    | Some wait \<Rightarrow> \<exists>key deadline. tt_view (en_timers (dr_engine d)) key = Some deadline
        \<and> (\<forall>k t. tt_view (en_timers (dr_engine d)) k = Some t \<longrightarrow> deadline \<le> t)
        \<and> wait = unat deadline - unat now
        \<and> (\<forall>later. unat now + wait \<le> unat later \<longrightarrow> key \<in> set (fst (tt_drain later (en_timers (dr_engine d)))))"
proof -
  let ?t = "en_timers (dr_engine d)"
  have ok: "tt_ok ?t" using assms by (simp add: driver_ok_def fine_def engine_ok_def)
  have drained: "set (fst (tt_drain later ?t)) = {k. \<exists>x. tt_view ?t k = Some x \<and> x \<le> later}" for later
    using tt_drain_spec [OF ok, of later] by (cases "tt_drain later ?t") auto
  show ?thesis
  proof (cases "tt_next_deadline ?t")
    case None
    then have "tt_by_deadline ?t = []" by (auto simp: tt_next_deadline_def split: list.splits)
    then have "tt_view ?t k = None" for k using ok by (cases "tt_view ?t k") (auto simp: tt_ok_def)
    then have "fst (tt_drain later ?t) = []" for later using drained [of later] by simp
    then show ?thesis using None by (simp add: timer_wait_def next_timer_deadline_def)
  next
    case (Some deadline)
    obtain key where key: "tt_view ?t key = Some deadline" "\<forall>k t. tt_view ?t k = Some t \<longrightarrow> deadline \<le> t"
      using tt_next_deadline_Some [OF ok Some] by blast
    let ?wait = "unat deadline - unat now"
    have wait: "timer_wait now d = Some ?wait"
      using Some by (simp add: timer_wait_def next_timer_deadline_def unat_sub_exact word_less_nat_alt word_le_nat_alt)
    have "key \<in> set (fst (tt_drain later ?t))" if "unat now + ?wait \<le> unat later" for later
      unfolding drained using key(1) that by (auto simp: word_le_nat_alt)
    then show ?thesis using key wait by auto
  qed
qed

theorem timers_not_starved_witness:
  "timer_wait 4 (sample_driver\<lparr>dr_engine := (dr_engine sample_driver)\<lparr>en_timers := sample_timers\<rparr>\<rparr>) = Some 6
    \<and> fst (tt_drain 12 sample_timers) \<noteq> []"
proof -
  let ?d = "sample_driver\<lparr>dr_engine := (dr_engine sample_driver)\<lparr>en_timers := sample_timers\<rparr>\<rparr>"
  have "driver_ok sample_driver" unfolding sample_driver_def by (rule driver_ok_new)
  then have "driver_ok ?d" using sample_timers_ok by (auto simp: driver_ok_def fine_def engine_ok_def notices_small_def)
  moreover have wait: "timer_wait 4 ?d = Some 6" by (simp add: sample_timers_def timer_wait_def next_timer_deadline_def) code_simp
  ultimately obtain key where "\<forall>later. unat (4 :: u64) + 6 \<le> unat later \<longrightarrow> key \<in> set (fst (tt_drain later sample_timers))"
    using timers_not_starved [of ?d 4] by auto
  then have "key \<in> set (fst (tt_drain 12 sample_timers))" by simp
  then show ?thesis using wait by auto
qed

end
