(* ===== verification/Basket.thy ===== *)
theory Basket
  imports Prelude
begin

text \<open>
  The messages of the basket protocol and their CBOR form (\<^verbatim>\<open>src/basket.rs\<close>).  The sources read and
  write CBOR through the hardy-cbor library: what it hands to a callback of the sources is a
  \<open>cbor_item\<close>, a value with its tags and its shortest-form flag, or the error it found instead.  How the
  library reads integers and skips values is the parameter \<open>cbor_lib\<close>.
\<close>

section \<open>CBOR items\<close>

datatype decode_error = UnexpectedTag | IncorrectType string string | PartialMap | LibraryError nat

datatype cbor_item =
    Item "u64 list" bool cbor_value
  | Malformed decode_error
and cbor_value =
    UnsignedInteger u64 | NegativeInteger u64 | Bytes bytes | ByteStream "bytes list"
  | Text string | TextStream "string list" | Array "cbor_item list" | Map "(cbor_item \<times> cbor_item) list" | OtherValue nat

record cbor_lib =
  lib_u64 :: "cbor_item \<Rightarrow> decode_error + u64"
  lib_i64 :: "cbor_item \<Rightarrow> decode_error + int"
  lib_skip :: "cbor_item \<Rightarrow> decode_error + unit"
  lib_item_type :: "u64 list \<Rightarrow> cbor_value \<Rightarrow> string"
  lib_narrow :: decode_error
  lib_hex :: "bytes \<Rightarrow> string"

text \<open>What the sources rely on: untagged integers are read as the integers they are.\<close>

definition lib_reads :: "cbor_lib \<Rightarrow> bool" where
  "lib_reads lib \<longleftrightarrow>
     (\<forall>n s. lib_u64 lib (Item [] s (UnsignedInteger n)) = Inr n)
     \<and> (\<forall>n s. unat n < 2 ^ 63 \<longrightarrow> lib_i64 lib (Item [] s (UnsignedInteger n)) = Inr (int (unat n)))
     \<and> (\<forall>n s. unat n < 2 ^ 63 \<longrightarrow> lib_i64 lib (Item [] s (NegativeInteger n)) = Inr (- 1 - int (unat n)))"

section \<open>Messages\<close>

record request_item =
  ri_op :: u64
  ri_uri :: string
  ri_max_size :: "u64 option"
  ri_accepted_formats :: "string list option"
  ri_have_hashes :: "bytes list option"
  ri_if_modified_since :: "u64 option"
  ri_lifetime_override :: "u64 option"

record basket_request =
  bq_experiment_tag :: "u64 option"
  bq_version :: u64
  bq_req_id :: string
  bq_reply_to :: "string option"
  bq_default_lifetime :: "u64 option"
  bq_items :: "request_item list"

record item_metadata =
  im_hash :: bytes
  im_size :: "u64 option"
  im_mime_type :: "string option"
  im_uri :: "string option"
  im_last_modified :: "u64 option"

record item_response =
  ir_item_idx :: u64
  ir_coap_status :: u8
  ir_metadata :: "item_metadata option"
  ir_diagnostic :: "string option"

record basket_response =
  bp_experiment_tag :: "u64 option"
  bp_version :: u64
  bp_req_id :: string
  bp_items :: "item_response list"

definition CHANGED :: u8 where "CHANGED = 66"
definition CONTENT :: u8 where "CONTENT = 69"
definition BAD_REQUEST :: u8 where "BAD_REQUEST = 128"
definition FORBIDDEN :: u8 where "FORBIDDEN = 131"
definition NOT_FOUND :: u8 where "NOT_FOUND = 132"
definition NOT_ACCEPTABLE :: u8 where "NOT_ACCEPTABLE = 134"
definition REQUEST_ENTITY_TOO_LARGE :: u8 where "REQUEST_ENTITY_TOO_LARGE = 141"
definition INTERNAL_SERVER_ERROR :: u8 where "INTERNAL_SERVER_ERROR = 160"

lemmas coap_status_defs = CHANGED_def CONTENT_def BAD_REQUEST_def FORBIDDEN_def NOT_FOUND_def NOT_ACCEPTABLE_def
  REQUEST_ENTITY_TOO_LARGE_def INTERNAL_SERVER_ERROR_def

section \<open>Reading single values\<close>

fun cbor_bytes :: "cbor_lib \<Rightarrow> cbor_item \<Rightarrow> decode_error + bytes" where
  "cbor_bytes lib (Malformed e) = Inl e"
| "cbor_bytes lib (Item tags shortest v) =
     (if tags \<noteq> [] then Inl UnexpectedTag
      else case v of
             Bytes r \<Rightarrow> Inr r
           | ByteStream chunks \<Rightarrow> Inr (concat chunks)
           | _ \<Rightarrow> Inl (IncorrectType ''Bytes'' (lib_item_type lib tags v)))"

definition parse_cbor_text_value :: "cbor_lib \<Rightarrow> u64 list \<Rightarrow> cbor_value \<Rightarrow> decode_error + string" where
  "parse_cbor_text_value lib tags v =
     (if tags \<noteq> [] then Inl UnexpectedTag
      else case v of
             Text t \<Rightarrow> Inr t
           | TextStream parts \<Rightarrow> Inr (foldl (@) [] parts)
           | _ \<Rightarrow> Inl (IncorrectType ''Text'' (lib_item_type lib tags v)))"

fun cbor_string :: "cbor_lib \<Rightarrow> cbor_item \<Rightarrow> decode_error + string" where
  "cbor_string lib (Malformed e) = Inl e"
| "cbor_string lib (Item tags shortest v) = parse_cbor_text_value lib tags v"

text \<open>\<^verbatim>\<open>n.to_string()\<close>.\<close>

fun digits :: "nat \<Rightarrow> string" where
  "digits n = (if n < 10 then [char_of (48 + n)] else digits (n div 10) @ [char_of (48 + n mod 10)])"

declare digits.simps [simp del]

fun cbor_format :: "cbor_lib \<Rightarrow> cbor_item \<Rightarrow> decode_error + string" where
  "cbor_format lib (Malformed e) = Inl e"
| "cbor_format lib (Item tags shortest v) =
     (case v of
        UnsignedInteger n \<Rightarrow> Inr (digits (unat n))
      | Text t \<Rightarrow> Inr t
      | _ \<Rightarrow> Inl (IncorrectType ''Uint or Text'' (lib_item_type lib tags v)))"

fun cbor_req_id :: "cbor_lib \<Rightarrow> cbor_item \<Rightarrow> decode_error + string" where
  "cbor_req_id lib (Malformed e) = Inl e"
| "cbor_req_id lib (Item tags shortest v) =
     (case v of
        Text _ \<Rightarrow> parse_cbor_text_value lib tags v
      | TextStream _ \<Rightarrow> parse_cbor_text_value lib tags v
      | Bytes r \<Rightarrow> Inr (lib_hex lib r)
      | ByteStream chunks \<Rightarrow> Inr (lib_hex lib (concat chunks))
      | _ \<Rightarrow> Inl (IncorrectType ''Text or Bytes'' (lib_item_type lib tags v)))"

section \<open>Reading maps and arrays\<close>

text \<open>The loop over the entries of a map: each entry updates what has been read so far.\<close>

fun read_entries :: "(cbor_item \<Rightarrow> cbor_item \<Rightarrow> 's \<Rightarrow> decode_error + 's) \<Rightarrow> (cbor_item \<times> cbor_item) list \<Rightarrow> 's \<Rightarrow> decode_error + 's" where
  "read_entries f [] s = Inr s"
| "read_entries f ((k, v) # entries) s = and_then (f k v s) (read_entries f entries)"

fun read_items :: "(cbor_item \<Rightarrow> decode_error + 'a) \<Rightarrow> cbor_item list \<Rightarrow> decode_error + 'a list" where
  "read_items f [] = Inr []"
| "read_items f (x # xs) = and_then (f x) (\<lambda>a. and_then (read_items f xs) (\<lambda>as. Inr (a # as)))"

fun parse_map :: "cbor_lib \<Rightarrow> (u64 list \<Rightarrow> bool \<Rightarrow> (cbor_item \<times> cbor_item) list \<Rightarrow> decode_error + 'a) \<Rightarrow> cbor_item \<Rightarrow> decode_error + 'a" where
  "parse_map lib f (Malformed e) = Inl e"
| "parse_map lib f (Item tags shortest v) =
     (case v of Map entries \<Rightarrow> f tags shortest entries | _ \<Rightarrow> Inl (IncorrectType ''Map'' (lib_item_type lib tags v)))"

fun parse_array :: "cbor_lib \<Rightarrow> (cbor_item \<Rightarrow> decode_error + 'a) \<Rightarrow> cbor_item \<Rightarrow> decode_error + 'a list" where
  "parse_array lib f (Malformed e) = Inl e"
| "parse_array lib f (Item tags shortest v) =
     (case v of Array xs \<Rightarrow> read_items f xs | _ \<Rightarrow> Inl (IncorrectType ''Array'' (lib_item_type lib [] v)))"

definition map_ok :: "('a \<Rightarrow> 'b) \<Rightarrow> 'e + 'a \<Rightarrow> 'e + 'b" where
  "map_ok f r = map_sum id f r"

section \<open>Requests\<close>

definition request_item_entry :: "cbor_lib \<Rightarrow> cbor_item \<Rightarrow> cbor_item \<Rightarrow> request_item \<Rightarrow> decode_error + request_item" where
  "request_item_entry lib k v r = and_then (lib_u64 lib k) (\<lambda>key.
     if key = 0 then map_ok (\<lambda>n. r\<lparr>ri_op := n\<rparr>) (lib_u64 lib v)
     else if key = 1 then map_ok (\<lambda>s. r\<lparr>ri_uri := s\<rparr>) (cbor_string lib v)
     else if key = 2 then map_ok (\<lambda>n. r\<lparr>ri_max_size := Some n\<rparr>) (lib_u64 lib v)
     else if key = 3 then map_ok (\<lambda>fs. r\<lparr>ri_accepted_formats := Some fs\<rparr>) (parse_array lib (cbor_format lib) v)
     else if key = 4 then map_ok (\<lambda>hs. r\<lparr>ri_have_hashes := Some hs\<rparr>) (parse_array lib (cbor_bytes lib) v)
     else if key = 5 then map_ok (\<lambda>n. r\<lparr>ri_if_modified_since := Some n\<rparr>) (lib_u64 lib v)
     else if key = 6 then map_ok (\<lambda>n. r\<lparr>ri_lifetime_override := Some n\<rparr>) (lib_u64 lib v)
     else map_ok (\<lambda>_. r) (lib_skip lib v))"

definition no_request_item :: request_item where
  "no_request_item = \<lparr>ri_op = 0, ri_uri = '''', ri_max_size = None, ri_accepted_formats = None, ri_have_hashes = None,
     ri_if_modified_since = None, ri_lifetime_override = None\<rparr>"

definition request_item_from_cbor :: "cbor_lib \<Rightarrow> cbor_item \<Rightarrow> decode_error + request_item \<times> bool" where
  "request_item_from_cbor lib = parse_map lib (\<lambda>tags shortest entries.
     map_ok (\<lambda>r. (r, shortest)) (read_entries (request_item_entry lib) entries no_request_item))"

text \<open>The local variables of the parser of a request.\<close>

record request_fields =
  rf_version :: "u64 option"
  rf_req_id :: "string option"
  rf_reply_to :: "string option"
  rf_default_lifetime :: "u64 option"
  rf_items :: "request_item list"

definition request_entry :: "cbor_lib \<Rightarrow> cbor_item \<Rightarrow> cbor_item \<Rightarrow> request_fields \<Rightarrow> decode_error + request_fields" where
  "request_entry lib k v r = and_then (lib_i64 lib k) (\<lambda>key.
     if key = - 1 then map_ok (\<lambda>_. r) (lib_u64 lib v)
     else if key = 0 then map_ok (\<lambda>n. r\<lparr>rf_version := Some n\<rparr>) (lib_u64 lib v)
     else if key = 1 then map_ok (\<lambda>s. r\<lparr>rf_req_id := Some s\<rparr>) (cbor_req_id lib v)
     else if key = 2 then map_ok (\<lambda>s. r\<lparr>rf_reply_to := Some s\<rparr>) (cbor_string lib v)
     else if key = 3 then map_ok (\<lambda>n. r\<lparr>rf_default_lifetime := Some n\<rparr>) (lib_u64 lib v)
     else if key = 4
     then map_ok (\<lambda>xs. r\<lparr>rf_items := rf_items r @ xs\<rparr>) (parse_array lib (\<lambda>x. map_ok fst (request_item_from_cbor lib x)) v)
     else map_ok (\<lambda>_. r) (lib_skip lib v))"

definition tag_of :: "u64 list \<Rightarrow> u64 option" where
  "tag_of tags = (if 44444 \<in> set tags then Some 44444 else None)"

fun ok_or :: "'a option \<Rightarrow> 'e \<Rightarrow> 'e + 'a" where
  "ok_or (Some x) e = Inr x"
| "ok_or None e = Inl e"

definition request_from_cbor :: "cbor_lib \<Rightarrow> cbor_item \<Rightarrow> decode_error + basket_request \<times> bool" where
  "request_from_cbor lib = parse_map lib (\<lambda>tags shortest entries.
     and_then (read_entries (request_entry lib) entries
         \<lparr>rf_version = None, rf_req_id = None, rf_reply_to = None, rf_default_lifetime = None, rf_items = []\<rparr>) (\<lambda>r.
     and_then (ok_or (rf_version r) PartialMap) (\<lambda>version.
     and_then (ok_or (rf_req_id r) PartialMap) (\<lambda>req_id.
       Inr (\<lparr>bq_experiment_tag = tag_of tags, bq_version = version, bq_req_id = req_id, bq_reply_to = rf_reply_to r,
             bq_default_lifetime = rf_default_lifetime r, bq_items = rf_items r\<rparr>, shortest)))))"

section \<open>Responses\<close>

definition item_metadata_entry :: "cbor_lib \<Rightarrow> cbor_item \<Rightarrow> cbor_item \<Rightarrow> item_metadata \<Rightarrow> decode_error + item_metadata" where
  "item_metadata_entry lib k v m = and_then (lib_u64 lib k) (\<lambda>key.
     if key = 0 then map_ok (\<lambda>h. m\<lparr>im_hash := h\<rparr>) (cbor_bytes lib v)
     else if key = 1 then map_ok (\<lambda>n. m\<lparr>im_size := Some n\<rparr>) (lib_u64 lib v)
     else if key = 2 then map_ok (\<lambda>s. m\<lparr>im_mime_type := Some s\<rparr>) (cbor_string lib v)
     else if key = 3 then map_ok (\<lambda>s. m\<lparr>im_uri := Some s\<rparr>) (cbor_string lib v)
     else if key = 4 then map_ok (\<lambda>n. m\<lparr>im_last_modified := Some n\<rparr>) (lib_u64 lib v)
     else map_ok (\<lambda>_. m) (lib_skip lib v))"

definition item_metadata_from_cbor :: "cbor_lib \<Rightarrow> cbor_item \<Rightarrow> decode_error + item_metadata \<times> bool" where
  "item_metadata_from_cbor lib = parse_map lib (\<lambda>tags shortest entries.
     map_ok (\<lambda>m. (m, shortest)) (read_entries (item_metadata_entry lib) entries
       \<lparr>im_hash = [], im_size = None, im_mime_type = None, im_uri = None, im_last_modified = None\<rparr>))"

text \<open>\<^verbatim>\<open>u8::try_from(val)?\<close>.\<close>

definition narrow :: "cbor_lib \<Rightarrow> u64 \<Rightarrow> decode_error + u8" where
  "narrow lib n = (if n < 256 then Inr (ucast n) else Inl (lib_narrow lib))"

definition item_response_entry :: "cbor_lib \<Rightarrow> cbor_item \<Rightarrow> cbor_item \<Rightarrow> item_response \<Rightarrow> decode_error + item_response" where
  "item_response_entry lib k v r = and_then (lib_u64 lib k) (\<lambda>key.
     if key = 0 then map_ok (\<lambda>n. r\<lparr>ir_item_idx := n\<rparr>) (lib_u64 lib v)
     else if key = 1 then map_ok (\<lambda>c. r\<lparr>ir_coap_status := c\<rparr>) (and_then (lib_u64 lib v) (narrow lib))
     else if key = 2 then map_ok (\<lambda>(m, _). r\<lparr>ir_metadata := Some m\<rparr>) (item_metadata_from_cbor lib v)
     else if key = 3 then map_ok (\<lambda>s. r\<lparr>ir_diagnostic := Some s\<rparr>) (cbor_string lib v)
     else map_ok (\<lambda>_. r) (lib_skip lib v))"

definition item_response_from_cbor :: "cbor_lib \<Rightarrow> cbor_item \<Rightarrow> decode_error + item_response \<times> bool" where
  "item_response_from_cbor lib = parse_map lib (\<lambda>tags shortest entries.
     map_ok (\<lambda>r. (r, shortest)) (read_entries (item_response_entry lib) entries
       \<lparr>ir_item_idx = 0, ir_coap_status = 0, ir_metadata = None, ir_diagnostic = None\<rparr>))"

record response_fields =
  pf_version :: "u64 option"
  pf_req_id :: "string option"
  pf_items :: "item_response list"

definition response_entry :: "cbor_lib \<Rightarrow> cbor_item \<Rightarrow> cbor_item \<Rightarrow> response_fields \<Rightarrow> decode_error + response_fields" where
  "response_entry lib k v r = and_then (lib_i64 lib k) (\<lambda>key.
     if key = - 1 then map_ok (\<lambda>_. r) (lib_u64 lib v)
     else if key = 0 then map_ok (\<lambda>n. r\<lparr>pf_version := Some n\<rparr>) (lib_u64 lib v)
     else if key = 1 then map_ok (\<lambda>s. r\<lparr>pf_req_id := Some s\<rparr>) (cbor_req_id lib v)
     else if key = 2
     then map_ok (\<lambda>xs. r\<lparr>pf_items := pf_items r @ xs\<rparr>) (parse_array lib (\<lambda>x. map_ok fst (item_response_from_cbor lib x)) v)
     else map_ok (\<lambda>_. r) (lib_skip lib v))"

definition response_from_cbor :: "cbor_lib \<Rightarrow> cbor_item \<Rightarrow> decode_error + basket_response \<times> bool" where
  "response_from_cbor lib = parse_map lib (\<lambda>tags shortest entries.
     and_then (read_entries (response_entry lib) entries \<lparr>pf_version = None, pf_req_id = None, pf_items = []\<rparr>) (\<lambda>r.
     and_then (ok_or (pf_version r) PartialMap) (\<lambda>version.
     and_then (ok_or (pf_req_id r) PartialMap) (\<lambda>req_id.
       Inr (\<lparr>bp_experiment_tag = tag_of tags, bp_version = version, bp_req_id = req_id, bp_items = pf_items r\<rparr>, shortest)))))"

section \<open>Writing\<close>

text \<open>What the encoder of the library is told to emit.  A map announces the number of its entries first; where it
  does not match the entries that follow, what was written is malformed.\<close>

definition uint :: "u64 \<Rightarrow> cbor_item" where "uint n = Item [] True (UnsignedInteger n)"
definition minus_one :: cbor_item where "minus_one = Item [] True (NegativeInteger 0)"
definition str :: "string \<Rightarrow> cbor_item" where "str s = Item [] True (Text s)"
definition byte_str :: "bytes \<Rightarrow> cbor_item" where "byte_str b = Item [] True (Bytes b)"

definition emit_array :: "cbor_item list \<Rightarrow> cbor_item" where
  "emit_array xs = Item [] True (Array xs)"

definition emit_map :: "nat \<Rightarrow> (cbor_item \<times> cbor_item) list \<Rightarrow> cbor_item" where
  "emit_map count entries = (if count = length entries then Item [] True (Map entries) else Malformed (LibraryError 0))"

text \<open>\<^verbatim>\<open>Tagged<TAG, _>\<close>.\<close>

fun with_tag :: "u64 \<Rightarrow> cbor_item \<Rightarrow> cbor_item" where
  "with_tag t (Item tags shortest v) = Item (t # tags) shortest v"
| "with_tag t (Malformed e) = Malformed e"

text \<open>\<^verbatim>\<open>if x.is_some() { count += 1 }\<close> and \<^verbatim>\<open>if let Some(x) = x { emit key, emit x }\<close>.\<close>

definition is_some :: "'a option \<Rightarrow> nat" where
  "is_some x = (if x = None then 0 else 1)"

definition emit_some :: "cbor_item \<Rightarrow> ('a \<Rightarrow> cbor_item) \<Rightarrow> 'a option \<Rightarrow> (cbor_item \<times> cbor_item) list" where
  "emit_some k f x = (case x of None \<Rightarrow> [] | Some a \<Rightarrow> [(k, f a)])"

definition request_item_to_cbor :: "request_item \<Rightarrow> cbor_item" where
  "request_item_to_cbor r =
     (let count = 2 + is_some (ri_max_size r) + is_some (ri_accepted_formats r) + is_some (ri_have_hashes r)
            + is_some (ri_if_modified_since r) + is_some (ri_lifetime_override r)
      in emit_map count
           ([(uint 0, uint (ri_op r)), (uint 1, str (ri_uri r))]
            @ emit_some (uint 2) uint (ri_max_size r)
            @ emit_some (uint 3) (\<lambda>fs. emit_array (map str fs)) (ri_accepted_formats r)
            @ emit_some (uint 4) (\<lambda>hs. emit_array (map byte_str hs)) (ri_have_hashes r)
            @ emit_some (uint 5) uint (ri_if_modified_since r)
            @ emit_some (uint 6) uint (ri_lifetime_override r)))"

definition request_to_cbor :: "basket_request \<Rightarrow> cbor_item" where
  "request_to_cbor r =
     (let count = 3 + is_some (bq_experiment_tag r) + is_some (bq_reply_to r) + is_some (bq_default_lifetime r)
      in emit_map count
           (emit_some minus_one uint (bq_experiment_tag r)
            @ [(uint 0, uint (bq_version r)), (uint 1, str (bq_req_id r))]
            @ emit_some (uint 2) str (bq_reply_to r)
            @ emit_some (uint 3) uint (bq_default_lifetime r)
            @ [(uint 4, emit_array (map request_item_to_cbor (bq_items r)))]))"

definition item_metadata_to_cbor :: "item_metadata \<Rightarrow> cbor_item" where
  "item_metadata_to_cbor m =
     (let count = 1 + is_some (im_size m) + is_some (im_mime_type m) + is_some (im_uri m) + is_some (im_last_modified m)
      in emit_map count
           ([(uint 0, byte_str (im_hash m))]
            @ emit_some (uint 1) uint (im_size m)
            @ emit_some (uint 2) str (im_mime_type m)
            @ emit_some (uint 3) str (im_uri m)
            @ emit_some (uint 4) uint (im_last_modified m)))"

definition item_response_to_cbor :: "item_response \<Rightarrow> cbor_item" where
  "item_response_to_cbor r =
     (let count = 2 + is_some (ir_metadata r) + is_some (ir_diagnostic r)
      in emit_map count
           ([(uint 0, uint (ir_item_idx r)), (uint 1, uint (ucast (ir_coap_status r)))]
            @ emit_some (uint 2) item_metadata_to_cbor (ir_metadata r)
            @ emit_some (uint 3) str (ir_diagnostic r)))"

definition response_to_cbor :: "basket_response \<Rightarrow> cbor_item" where
  "response_to_cbor r =
     (let count = 3 + is_some (bp_experiment_tag r)
      in emit_map count
           (emit_some minus_one uint (bp_experiment_tag r)
            @ [(uint 0, uint (bp_version r)), (uint 1, str (bp_req_id r)),
               (uint 2, emit_array (map item_response_to_cbor (bp_items r)))]))"

section \<open>Round trips\<close>

lemma and_then_assoc: "and_then (and_then r f) g = and_then r (\<lambda>x. and_then (f x) g)"
  by (cases r) simp_all

lemma read_entries_append: "read_entries f (xs @ ys) s = and_then (read_entries f xs s) (read_entries f ys)"
proof (induction f xs s rule: read_entries.induct)
  case (2 f k v entries s)
  then show ?case by (cases "f k v s") simp_all
qed simp

lemma read_entries_some:
  "read_entries f (emit_some k g x) s = (case x of None \<Rightarrow> Inr s | Some a \<Rightarrow> f k (g a) s)"
proof (cases x)
  case (Some a)
  then show ?thesis by (cases "f k (g a) s") (simp_all add: emit_some_def)
qed (simp add: emit_some_def)

lemma read_items_map: "(\<And>x. x \<in> set xs \<Longrightarrow> f (g x) = Inr x) \<Longrightarrow> read_items f (map g xs) = Inr xs"
  by (induction xs) simp_all

lemma length_emit_some: "length (emit_some k f x) = is_some x"
  by (cases x) (simp_all add: emit_some_def is_some_def)

lemma map_ok_Inr [simp]: "map_ok f (Inr x) = Inr (f x)"
  by (simp add: map_ok_def)

lemma emit_map_parse:
  "parse_map lib f (emit_map (length entries) entries) = f [] True entries"
  "parse_map lib f (with_tag t (emit_map (length entries) entries)) = f [t] True entries"
  by (simp_all add: emit_map_def)

lemma read_uint: "lib_reads lib \<Longrightarrow> lib_u64 lib (uint n) = Inr n"
  by (simp add: lib_reads_def uint_def)

lemma read_key:
  "lib_reads lib \<Longrightarrow> unat n < 2 ^ 63 \<Longrightarrow> lib_i64 lib (uint n) = Inr (int (unat n))"
  "lib_reads lib \<Longrightarrow> lib_i64 lib minus_one = Inr (- 1)"
  by (simp_all add: lib_reads_def uint_def minus_one_def)

lemma read_str: "cbor_string lib (str s) = Inr s" "cbor_req_id lib (str s) = Inr s" "cbor_format lib (str s) = Inr s"
  by (simp_all add: str_def parse_cbor_text_value_def)

lemma read_bytes: "cbor_bytes lib (byte_str b) = Inr b"
  by (simp add: byte_str_def)

lemma read_array: "(\<And>x. x \<in> set xs \<Longrightarrow> f (g x) = Inr x) \<Longrightarrow> parse_array lib f (emit_array (map g xs)) = Inr xs"
  by (simp add: emit_array_def read_items_map)

lemmas codec_simps = emit_map_def length_emit_some read_entries_append read_entries_some read_uint read_key read_str read_bytes

lemma request_item_roundtrip:
  assumes lib: "lib_reads lib"
  shows "request_item_from_cbor lib (request_item_to_cbor r) = Inr (r, True)"
proof -
  have formats: "parse_array lib (cbor_format lib) (emit_array (map str fs)) = Inr fs" for fs
    by (intro read_array read_str)
  have hashes: "parse_array lib (cbor_bytes lib) (emit_array (map byte_str hs)) = Inr hs" for hs
    by (intro read_array read_bytes)
  show ?thesis
    by (cases r) (simp add: request_item_from_cbor_def request_item_to_cbor_def codec_simps lib request_item_entry_def formats hashes
        no_request_item_def split: option.split)
qed

lemma item_metadata_roundtrip:
  "lib_reads lib \<Longrightarrow> item_metadata_from_cbor lib (item_metadata_to_cbor m) = Inr (m, True)"
  by (cases m) (simp add: item_metadata_from_cbor_def item_metadata_to_cbor_def codec_simps item_metadata_entry_def split: option.split)

lemma narrow_ucast: "narrow lib (ucast c) = Inr c"
proof -
  have "unat (ucast c :: u64) = unat c" by transfer simp
  then have "(ucast c :: u64) < 256" using unsigned_less [of c] by (simp add: word_less_nat_alt)
  moreover have "ucast (ucast c :: u64) = c" by transfer simp
  ultimately show ?thesis by (simp add: narrow_def)
qed

lemma item_response_roundtrip:
  "lib_reads lib \<Longrightarrow> item_response_from_cbor lib (item_response_to_cbor r) = Inr (r, True)"
  by (cases r) (simp add: item_response_from_cbor_def item_response_to_cbor_def codec_simps item_response_entry_def
      item_metadata_roundtrip narrow_ucast split: option.split)

section \<open>Properties\<close>

lemma request_read:
  assumes "lib_reads lib"
  shows "request_from_cbor lib (with_tag 44444 (request_to_cbor r)) = Inr (r\<lparr>bq_experiment_tag := Some 44444\<rparr>, True)
    \<and> request_from_cbor lib (request_to_cbor r) = Inr (r\<lparr>bq_experiment_tag := None\<rparr>, True)"
proof -
  have items: "parse_array lib (\<lambda>x. map_ok fst (request_item_from_cbor lib x)) (emit_array (map request_item_to_cbor xs)) = Inr xs" for xs
    by (intro read_array) (simp add: request_item_roundtrip [OF assms])
  show ?thesis
    by (cases r) (simp add: request_from_cbor_def request_to_cbor_def codec_simps assms request_entry_def items tag_of_def split: option.split)
qed

text \<open>Requests survive the wire.  A request of the protocol, in the envelope tag all programs of the repository
  put around it, is read back as it was written, whatever fields are present, except that the
  experiment tag is the one of the envelope; without the envelope there is no experiment tag.\<close>

theorem basket_request_roundtrip:
  assumes "lib_reads lib"
  shows "request_from_cbor lib (with_tag 44444 (request_to_cbor r)) = Inr (r\<lparr>bq_experiment_tag := Some 44444\<rparr>, True)
    \<and> request_from_cbor lib (request_to_cbor r) = Inr (r\<lparr>bq_experiment_tag := None\<rparr>, True)"
  by (rule request_read [OF assms])

text \<open>Responses survive the wire in the same way: statuses, metadata and diagnostics of every item.\<close>

theorem basket_response_roundtrip:
  assumes "lib_reads lib"
  shows "response_from_cbor lib (with_tag 44444 (response_to_cbor r)) = Inr (r\<lparr>bp_experiment_tag := Some 44444\<rparr>, True)
    \<and> response_from_cbor lib (response_to_cbor r) = Inr (r\<lparr>bp_experiment_tag := None\<rparr>, True)"
proof -
  have items: "parse_array lib (\<lambda>x. map_ok fst (item_response_from_cbor lib x)) (emit_array (map item_response_to_cbor xs)) = Inr xs" for xs
    by (intro read_array) (simp add: item_response_roundtrip [OF assms])
  show ?thesis
    by (cases r) (simp add: response_from_cbor_def response_to_cbor_def codec_simps assms response_entry_def items tag_of_def split: option.split)
qed

definition sample_lib :: cbor_lib where
  "sample_lib = \<lparr>lib_u64 = (\<lambda>x. case x of Item [] s (UnsignedInteger n) \<Rightarrow> Inr n | _ \<Rightarrow> Inl UnexpectedTag),
     lib_i64 = (\<lambda>x. case x of Item [] s (UnsignedInteger n) \<Rightarrow> Inr (int (unat n)) | Item [] s (NegativeInteger n) \<Rightarrow> Inr (- 1 - int (unat n))
       | _ \<Rightarrow> Inl UnexpectedTag),
     lib_skip = (\<lambda>_. Inr ()), lib_item_type = (\<lambda>_ _. ''?''), lib_narrow = LibraryError 1, lib_hex = (\<lambda>_. '''')\<rparr>"

lemma sample_lib_reads: "lib_reads sample_lib"
  by (simp add: lib_reads_def sample_lib_def)

definition sample_request :: basket_request where
  "sample_request = \<lparr>bq_experiment_tag = None, bq_version = 1, bq_req_id = ''r1'', bq_reply_to = None, bq_default_lifetime = Some 60,
     bq_items = [no_request_item\<lparr>ri_uri := ''a'', ri_have_hashes := Some [[1, 2]]\<rparr>]\<rparr>"

definition sample_response :: basket_response where
  "sample_response = \<lparr>bp_experiment_tag = Some 44444, bp_version = 1, bp_req_id = ''r'',
     bp_items = [\<lparr>ir_item_idx = 0, ir_coap_status = NOT_FOUND, ir_metadata = None, ir_diagnostic = Some ''d''\<rparr>]\<rparr>"

theorem basket_request_roundtrip_witness:
  "request_from_cbor sample_lib (with_tag 44444 (request_to_cbor sample_request))
   = Inr (sample_request\<lparr>bq_experiment_tag := Some 44444\<rparr>, True)"
  using basket_request_roundtrip [OF sample_lib_reads] by blast

theorem basket_response_roundtrip_witness:
  "response_from_cbor sample_lib (with_tag 44444 (response_to_cbor sample_response)) = Inr (sample_response, True)"
  using basket_response_roundtrip [OF sample_lib_reads, of sample_response] by (simp add: sample_response_def)

text \<open>The reader of requests reads the first entries, then the others.\<close>

lemma request_from_cbor_map:
  "request_from_cbor lib (Item tags s (Map zs)) =
     and_then (read_entries (request_entry lib) zs
         \<lparr>rf_version = None, rf_req_id = None, rf_reply_to = None, rf_default_lifetime = None, rf_items = []\<rparr>) (\<lambda>r.
     and_then (ok_or (rf_version r) PartialMap) (\<lambda>version.
     and_then (ok_or (rf_req_id r) PartialMap) (\<lambda>req_id.
       Inr (\<lparr>bq_experiment_tag = tag_of tags, bq_version = version, bq_req_id = req_id, bq_reply_to = rf_reply_to r,
             bq_default_lifetime = rf_default_lifetime r, bq_items = rf_items r\<rparr>, s))))"
  by (simp add: request_from_cbor_def)

lemma map_ok_Inr_iff: "map_ok f r = Inr y \<longleftrightarrow> (\<exists>x. r = Inr x \<and> y = f x)"
  by (cases r) (auto simp: map_ok_def)

text \<open>A field that no key names stays absent.\<close>

lemma request_fields_absent:
  "read_entries (request_entry lib) zs r = Inr r' \<Longrightarrow> \<forall>(k, v)\<in>set zs. lib_i64 lib k \<noteq> Inr 0 \<Longrightarrow> rf_version r' = rf_version r"
  "read_entries (request_entry lib) zs r = Inr r' \<Longrightarrow> \<forall>(k, v)\<in>set zs. lib_i64 lib k \<noteq> Inr 1 \<Longrightarrow> rf_req_id r' = rf_req_id r"
  by (induction "request_entry lib" zs r rule: read_entries.induct)
    (auto simp: and_then_Inr_iff request_entry_def map_ok_Inr_iff split: if_splits)

text \<open>The reader of requests is forward compatible and strict.  An entry with a key the protocol does not define, and a value the library can
  skip, changes nothing, wherever it stands; and a request without a version or without an identifier is rejected.\<close>

theorem basket_request_unknown_keys:
  "(lib_i64 lib k = Inr n \<and> n \<notin> {- 1, 0, 1, 2, 3, 4} \<and> lib_skip lib v = Inr () \<longrightarrow>
      request_from_cbor lib (Item tags s (Map (xs @ (k, v) # ys))) = request_from_cbor lib (Item tags s (Map (xs @ ys))))
   \<and> ((\<forall>(k, v)\<in>set zs. lib_i64 lib k \<noteq> Inr 0) \<or> (\<forall>(k, v)\<in>set zs. lib_i64 lib k \<noteq> Inr 1) \<longrightarrow>
      (\<exists>e. request_from_cbor lib (Item tags s (Map zs)) = Inl e))"
proof (intro conjI impI)
  assume unknown: "lib_i64 lib k = Inr n \<and> n \<notin> {- 1, 0, 1, 2, 3, 4} \<and> lib_skip lib v = Inr ()"
  have "read_entries (request_entry lib) ((k, v) # ys) = read_entries (request_entry lib) ys"
    using unknown by (simp add: fun_eq_iff request_entry_def)
  then show "request_from_cbor lib (Item tags s (Map (xs @ (k, v) # ys))) = request_from_cbor lib (Item tags s (Map (xs @ ys)))"
    unfolding request_from_cbor_map read_entries_append by (simp only:)
next
  let ?init = "\<lparr>rf_version = None, rf_req_id = None, rf_reply_to = None, rf_default_lifetime = None, rf_items = []\<rparr>"
  assume missing: "(\<forall>(k, v)\<in>set zs. lib_i64 lib k \<noteq> Inr 0) \<or> (\<forall>(k, v)\<in>set zs. lib_i64 lib k \<noteq> Inr 1)"
  show "\<exists>e. request_from_cbor lib (Item tags s (Map zs)) = Inl e"
  proof (cases "read_entries (request_entry lib) zs ?init")
    case (Inl e)
    then show ?thesis by (simp add: request_from_cbor_map)
  next
    case (Inr r)
    from missing have "rf_version r = None \<or> rf_req_id r = None"
      using request_fields_absent [OF Inr] by auto
    then show ?thesis by (cases "rf_version r") (auto simp: request_from_cbor_map Inr)
  qed
qed

theorem basket_request_unknown_keys_witness:
  "request_from_cbor sample_lib (Item [] True (Map ([(uint 0, uint 1)] @ (uint 9, uint 3) # [(uint 1, str ''r'')])))
     = request_from_cbor sample_lib (Item [] True (Map ([(uint 0, uint 1)] @ [(uint 1, str ''r'')])))
   \<and> (\<exists>e. request_from_cbor sample_lib (Item [] True (Map [(uint 0, uint 1)])) = Inl e)"
  using basket_request_unknown_keys [of sample_lib "uint 9" 9 "uint 3" "[]" True "[(uint 0, uint 1)]" "[(uint 1, str ''r'')]" "[(uint 0, uint 1)]"]
  by (simp add: sample_lib_def uint_def)

end
