(* ===== verification/Strings.thy ===== *)
theory Strings
  imports Main "HOL-Library.Sublist"
begin

text \<open>
  The string functions of the Rust standard library that the sources use.  A string is the list of
  its characters; the case and whitespace functions are those of the ASCII characters.
\<close>

definition is_space :: "char \<Rightarrow> bool" where
  "is_space c \<longleftrightarrow> c \<in> set [CHR '' '', CHR 0x09, CHR 0x0A, CHR 0x0B, CHR 0x0C, CHR 0x0D]"

definition trim_start :: "(char \<Rightarrow> bool) \<Rightarrow> string \<Rightarrow> string" where
  "trim_start P s = dropWhile P s"

definition trim_end :: "(char \<Rightarrow> bool) \<Rightarrow> string \<Rightarrow> string" where
  "trim_end P s = rev (dropWhile P (rev s))"

definition trim :: "string \<Rightarrow> string" where
  "trim s = trim_end is_space (trim_start is_space s)"

definition lower_char :: "char \<Rightarrow> char" where
  "lower_char c = (let n = of_char c :: nat in if 65 \<le> n \<and> n \<le> 90 then char_of (n + 32) else c)"

definition strip_prefix :: "string \<Rightarrow> string \<Rightarrow> string option" where
  "strip_prefix p s = (if prefix p s then Some (drop (length p) s) else None)"

definition strip_suffix :: "string \<Rightarrow> string \<Rightarrow> string option" where
  "strip_suffix p s = (if suffix p s then Some (take (length s - length p) s) else None)"

definition trim_matches :: "char \<Rightarrow> string \<Rightarrow> string" where
  "trim_matches c s = trim_end (\<lambda>x. x = c) (trim_start (\<lambda>x. x = c) s)"

text \<open>\<^verbatim>\<open>s.find(c)\<close> with the text before and from the character on.\<close>

definition split_find :: "char \<Rightarrow> string \<Rightarrow> (string \<times> string) option" where
  "split_find c s = (if c \<in> set s then Some (takeWhile (\<lambda>x. x \<noteq> c) s, dropWhile (\<lambda>x. x \<noteq> c) s) else None)"

fun contains :: "string \<Rightarrow> string \<Rightarrow> bool" where
  "contains s p \<longleftrightarrow> prefix p s \<or> (case s of [] \<Rightarrow> False | _ # s \<Rightarrow> contains s p)"

declare contains.simps [simp del]

text \<open>\<^verbatim>\<open>s.parse()\<close> to an unsigned integer below \<open>bound\<close>: decimal digits after an optional plus sign.\<close>

fun digits_value :: "nat \<Rightarrow> nat \<Rightarrow> string \<Rightarrow> nat option" where
  "digits_value bound n [] = Some n"
| "digits_value bound n (c # s) =
     (let d = of_char c :: nat
      in if 48 \<le> d \<and> d \<le> 57 \<and> n * 10 + (d - 48) < bound then digits_value bound (n * 10 + (d - 48)) s else None)"

definition parse_unsigned :: "nat \<Rightarrow> string \<Rightarrow> nat option" where
  "parse_unsigned bound s =
     (let s = (if prefix ''+'' s then tl s else s) in if s = [] then None else digits_value bound 0 s)"

definition parse_u16 :: "string \<Rightarrow> nat option" where
  "parse_u16 = parse_unsigned 65536"

definition parse_u32 :: "string \<Rightarrow> nat option" where
  "parse_u32 = parse_unsigned 4294967296"

fun split_on :: "char \<Rightarrow> string \<Rightarrow> string list" where
  "split_on c [] = [[]]"
| "split_on c (x # s) = (if x = c then [] # split_on c s else (case split_on c s of [] \<Rightarrow> [[x]] | p # ps \<Rightarrow> (x # p) # ps))"

text \<open>\<^verbatim>\<open>s.split_whitespace()\<close>: the maximal runs of other characters.\<close>

fun split_space :: "string \<Rightarrow> string list" where
  "split_space [] = []"
| "split_space (x # s) =
     (if is_space x then split_space s
      else (if s = [] \<or> is_space (hd s) then [x] # split_space s
            else (case split_space s of [] \<Rightarrow> [[x]] | w # ws \<Rightarrow> (x # w) # ws)))"

definition upper_char :: "char \<Rightarrow> char" where
  "upper_char c = (let n = of_char c :: nat in if 97 \<le> n \<and> n \<le> 122 then char_of (n - 32) else c)"

text \<open>\<^verbatim>\<open>s.split_once(c)\<close>.\<close>

definition split_once :: "char \<Rightarrow> string \<Rightarrow> (string \<times> string) option" where
  "split_once c s = (case split_find c s of Some (a, b) \<Rightarrow> Some (a, tl b) | None \<Rightarrow> None)"

section \<open>Splitting and joining\<close>

fun join :: "char \<Rightarrow> string list \<Rightarrow> string" where
  "join c [] = []"
| "join c [p] = p"
| "join c (p # ps) = p @ c # join c ps"

lemma split_on_nonempty [simp]: "split_on c s \<noteq> []"
  by (induction s) (auto split: list.splits)

lemma split_on_free: "c \<notin> set p \<Longrightarrow> split_on c p = [p]"
  by (induction p) auto

lemma split_on_append: "c \<notin> set p \<Longrightarrow> split_on c (p @ c # s) = p # split_on c s"
  by (induction p) auto

lemma split_on_join: "ps \<noteq> [] \<Longrightarrow> \<forall>p\<in>set ps. c \<notin> set p \<Longrightarrow> split_on c (join c ps) = ps"
  by (induction c ps rule: join.induct) (simp_all add: split_on_free split_on_append)

lemma split_on_absent: "p \<in> set (split_on c s) \<Longrightarrow> c \<notin> set p"
  by (induction s arbitrary: p) (auto split: if_splits list.splits)

lemma split_once_append [simp]: "c \<notin> set a \<Longrightarrow> split_once c (a @ c # b) = Some (a, b)"
  by (induction a) (auto simp: split_once_def split_find_def split: if_splits)

lemma split_once_absent: "split_once c s = None \<longleftrightarrow> c \<notin> set s"
  by (simp add: split_once_def split_find_def)

section \<open>Decimal numbers\<close>

fun decimal :: "nat \<Rightarrow> string" where
  "decimal n = (if n < 10 then [char_of (48 + n)] else decimal (n div 10) @ [char_of (48 + n mod 10)])"

declare decimal.simps [simp del]

lemma of_char_digit: "n < 10 \<Longrightarrow> of_char (char_of (48 + n) :: char) = (48 + n :: nat)"
  by simp

lemma digits_value_append:
  "digits_value bound n (xs @ ys) = (case digits_value bound n xs of None \<Rightarrow> None | Some m \<Rightarrow> digits_value bound m ys)"
proof (induction xs arbitrary: n)
  case (Cons x xs)
  let ?m = "n * 10 + (of_char x - 48)"
  show ?case
    by (cases "48 \<le> (of_char x :: nat) \<and> of_char x \<le> (57::nat) \<and> ?m < bound")
      (simp_all only: append_Cons digits_value.simps Let_def Cons simp_thms if_True if_False option.case)
qed simp

lemma digits_value_decimal: "n < bound \<Longrightarrow> digits_value bound 0 (decimal n) = Some n"
proof (induction n rule: decimal.induct)
  case (1 n)
  show ?case
  proof (cases "n < 10")
    case True
    then show ?thesis using 1 by (simp add: decimal.simps [of n] of_char_digit Let_def)
  next
    case False
    then have "digits_value bound 0 (decimal (n div 10)) = Some (n div 10)" using 1 by simp
    then show ?thesis using False 1
      by (simp add: decimal.simps [of n] digits_value_append of_char_digit Let_def)
  qed
qed

lemma decimal_digits: "c \<in> set (decimal n) \<Longrightarrow> \<exists>d<10. c = char_of (48 + d :: nat)"
proof (induction n rule: decimal.induct)
  case (1 n)
  show ?case
  proof (cases "n < 10")
    case True
    then show ?thesis using 1 by (auto simp: decimal.simps [of n])
  next
    case False
    then have "c \<in> set (decimal (n div 10)) \<or> c = char_of (48 + n mod 10 :: nat)" using 1(2) by (auto simp add: decimal.simps [of n])
    moreover have "n mod 10 < 10" by simp
    ultimately show ?thesis using 1(1) False by blast
  qed
qed

lemma decimal_char: "c \<in> set (decimal n) \<Longrightarrow> (48::nat) \<le> of_char c \<and> of_char c \<le> (57::nat)"
  using decimal_digits [of c n] of_char_digit by fastforce

lemma decimal_nonempty [simp]: "decimal n \<noteq> []"
  by (simp add: decimal.simps [of n])

lemma parse_unsigned_decimal: "n < bound \<Longrightarrow> parse_unsigned bound (decimal n) = Some n"
proof -
  assume "n < bound"
  have "\<not> prefix ''+'' (decimal n)"
  proof
    assume "prefix ''+'' (decimal n)"
    then have "CHR ''+'' \<in> set (decimal n)" by (cases "decimal n") auto
    then show False using decimal_char [of "CHR ''+''" n] by simp
  qed
  then show ?thesis using \<open>n < bound\<close> by (simp add: parse_unsigned_def digits_value_decimal)
qed

end
