(* ===== verification/Basket_Fetch.thy ===== *)
theory Basket_Fetch
  imports Basket Strings
begin

text \<open>
  Fetching resources for the basket responder (\<^verbatim>\<open>src/bin/dtnbasket.rs\<close>): which hosts and files it
  may touch, redirects, size limits.  The URL and HTTP libraries, name resolution, TLS and the file
  system are the parameter \<open>net\<close>; an \<open>access\<close> is one use of the network or of a file, and the
  functions that fetch return the accesses they made, in order.
\<close>

section \<open>Paths\<close>

text \<open>The components of a path: the root, then the names, without empty names and, except at the start, without dots.\<close>

definition components :: "string \<Rightarrow> string list" where
  "components p =
     (let parts = split_on CHR ''/'' p;
          names = filter (\<lambda>c. c \<noteq> [] \<and> c \<noteq> ''.'') parts
      in if prefix ''/'' p then ''/'' # names else if hd parts = ''.'' then ''.'' # names else names)"

definition path_starts_with :: "string \<Rightarrow> string \<Rightarrow> bool" where
  "path_starts_with p dir \<longleftrightarrow> prefix (components dir) (components p)"

definition file_name :: "string \<Rightarrow> string option" where
  "file_name p =
     (case rev (components p) of
        [] \<Rightarrow> None
      | n # _ \<Rightarrow> if n = ''/'' \<or> n = ''.'' \<or> n = ''..'' then None else Some n)"

text \<open>The extension: what follows the last dot of the file name, unless that dot is its first character.\<close>

definition extension :: "string \<Rightarrow> string option" where
  "extension p =
     (case file_name p of
        None \<Rightarrow> None
      | Some n \<Rightarrow>
          let r = rev n; ext = takeWhile (\<lambda>c. c \<noteq> CHR ''.'') r
          in if CHR ''.'' \<notin> set n \<or> length ext + 1 = length n then None else Some (rev ext))"

definition guess_mime_type :: "string \<Rightarrow> string" where
  "guess_mime_type p =
     (case extension p of
        None \<Rightarrow> ''application/octet-stream''
      | Some e \<Rightarrow>
          if e = ''pdf'' then ''application/pdf''
          else if e = ''txt'' then ''text/plain; charset=utf-8''
          else if e = ''html'' \<or> e = ''htm'' then ''text/html; charset=utf-8''
          else if e = ''md'' \<or> e = ''markdown'' then ''text/markdown; charset=utf-8''
          else if e = ''png'' then ''image/png''
          else if e = ''jpg'' \<or> e = ''jpeg'' then ''image/jpeg''
          else if e = ''gif'' then ''image/gif''
          else if e = ''cbor'' then ''application/cbor''
          else if e = ''xml'' then ''application/xml''
          else if e = ''json'' then ''application/json''
          else if e = ''toml'' then ''application/toml''
          else if e = ''csv'' then ''text/csv; charset=utf-8''
          else if e = ''zip'' then ''application/zip''
          else ''application/octet-stream'')"

section \<open>Addresses\<close>

datatype ip_addr = V4 u8 u8 u8 u8 | V6 u16 u16 u16 u16 u16 u16 u16 u16

text \<open>The predicates of the standard library on IPv4 addresses.\<close>

definition v4_private :: "u8 \<Rightarrow> u8 \<Rightarrow> bool" where
  "v4_private a b \<longleftrightarrow> a = 10 \<or> a = 172 \<and> 16 \<le> b \<and> b \<le> 31 \<or> a = 192 \<and> b = 168"

definition v4_broadcast :: "u8 \<Rightarrow> u8 \<Rightarrow> u8 \<Rightarrow> u8 \<Rightarrow> bool" where
  "v4_broadcast a b c d \<longleftrightarrow> a = 255 \<and> b = 255 \<and> c = 255 \<and> d = 255"

fun is_loopback :: "ip_addr \<Rightarrow> bool" where
  "is_loopback (V4 a b c d) \<longleftrightarrow> a = 127"
| "is_loopback (V6 s0 s1 s2 s3 s4 s5 s6 s7) \<longleftrightarrow>
     s0 = 0 \<and> s1 = 0 \<and> s2 = 0 \<and> s3 = 0 \<and> s4 = 0 \<and> s5 = 0 \<and> s6 = 0 \<and> s7 = 1"

fun is_unspecified :: "ip_addr \<Rightarrow> bool" where
  "is_unspecified (V4 a b c d) \<longleftrightarrow> a = 0 \<and> b = 0 \<and> c = 0 \<and> d = 0"
| "is_unspecified (V6 s0 s1 s2 s3 s4 s5 s6 s7) \<longleftrightarrow>
     s0 = 0 \<and> s1 = 0 \<and> s2 = 0 \<and> s3 = 0 \<and> s4 = 0 \<and> s5 = 0 \<and> s6 = 0 \<and> s7 = 0"

fun to_ipv4_mapped :: "ip_addr \<Rightarrow> ip_addr option" where
  "to_ipv4_mapped (V6 s0 s1 s2 s3 s4 s5 s6 s7) =
     (if s0 = 0 \<and> s1 = 0 \<and> s2 = 0 \<and> s3 = 0 \<and> s4 = 0 \<and> s5 = 0xFFFF
      then Some (V4 (ucast (drop_bit 8 s6)) (ucast s6) (ucast (drop_bit 8 s7)) (ucast s7)) else None)"
| "to_ipv4_mapped (V4 a b c d) = None"

definition is_safe_v4 :: "u8 \<Rightarrow> u8 \<Rightarrow> u8 \<Rightarrow> u8 \<Rightarrow> bool" where
  "is_safe_v4 a b c d \<longleftrightarrow>
     a \<noteq> 127 \<and> \<not> is_unspecified (V4 a b c d) \<and> a \<noteq> 0 \<and> \<not> (a = 100 \<and> b AND 0xC0 = 64)
     \<and> \<not> v4_private a b \<and> \<not> (a = 169 \<and> b = 254) \<and> \<not> v4_broadcast a b c d"

text \<open>The IPv4 address inside a mapped IPv6 address is checked by the same function; it is not mapped again.\<close>

fun is_safe_ip :: "ip_addr \<Rightarrow> bool" where
  "is_safe_ip (V4 a b c d) \<longleftrightarrow> is_safe_v4 a b c d"
| "is_safe_ip (V6 s0 s1 s2 s3 s4 s5 s6 s7) \<longleftrightarrow>
     (let ip = V6 s0 s1 s2 s3 s4 s5 s6 s7
      in if is_loopback ip \<or> is_unspecified ip then False
         else case to_ipv4_mapped ip of
                Some (V4 a b c d) \<Rightarrow> is_safe_v4 a b c d
              | _ \<Rightarrow> \<not> s0 AND 0xFFC0 = 0xFE80 \<and> \<not> s0 AND 0xFE00 = 0xFC00)"

section \<open>The outside\<close>

record http_response =
  hr_status :: nat
  hr_status_text :: string
  hr_content_type :: "string option"
  hr_location :: "string option"
  hr_content_length :: "u64 option"
  hr_body :: "string + bytes"

text \<open>
  What the outside answers depends on the moment it is asked: two resolutions of one name, or of one path,
  need not agree.  The other fields are functions of the libraries.
\<close>

record 'u net =
  parse_url :: "string \<Rightarrow> string + 'u"
  url_scheme :: "'u \<Rightarrow> string"
  url_host :: "'u \<Rightarrow> string option"
  url_port :: "'u \<Rightarrow> nat option"
  url_join :: "'u \<Rightarrow> string \<Rightarrow> string + 'u"
  url_text :: "'u \<Rightarrow> string"
  parse_ip :: "string \<Rightarrow> ip_addr option"
  lookup_host :: "nat \<Rightarrow> string \<Rightarrow> nat \<Rightarrow> ip_addr list option"
  http_get :: "nat \<Rightarrow> string \<Rightarrow> string + http_response"
  gemini_reply :: "nat \<Rightarrow> string \<Rightarrow> nat \<Rightarrow> string \<Rightarrow> string + bytes \<times> (string + bytes) list"
  utf8_lossy :: "bytes \<Rightarrow> string"
  canonicalize :: "nat \<Rightarrow> string \<Rightarrow> string + string"
  read_file :: "nat \<Rightarrow> string \<Rightarrow> string + bytes"

text \<open>An access with its moment; a connection resolves the host's name at that moment again.\<close>

datatype access = HttpGet nat string | GeminiRequest nat string nat string | ReadFile nat string

datatype fetch_error = PayloadTooLarge | Forbidden string | NotFound string | OtherError string

fun fetch_error_text :: "fetch_error \<Rightarrow> string" where
  "fetch_error_text PayloadTooLarge = ''Payload too large''"
| "fetch_error_text (Forbidden msg) = ''Access denied: '' @ msg"
| "fetch_error_text (NotFound msg) = ''Not found: '' @ msg"
| "fetch_error_text (OtherError msg) = msg"

record basket_config =
  bc_insecure_tls :: bool
  bc_bpa_grpc_port :: nat
  bc_service_name :: string
  bc_allowed_dirs :: "string list"
  bc_mappings :: "(string \<times> string) list"
  bc_max_search_depth :: nat

definition default_basket_config :: basket_config where
  "default_basket_config = \<lparr>bc_insecure_tls = False, bc_bpa_grpc_port = 50051, bc_service_name = ''dtnbasket'',
     bc_allowed_dirs = [], bc_mappings = [], bc_max_search_depth = 3\<rparr>"

definition check_file_path :: "'u net \<Rightarrow> nat \<Rightarrow> string \<Rightarrow> string list \<Rightarrow> bool" where
  "check_file_path net m p allowed_dirs =
     (case canonicalize net m p of
        Inl _ \<Rightarrow> False
      | Inr p \<Rightarrow> list_ex (path_starts_with p) allowed_dirs)"

definition is_safe_host :: "'u net \<Rightarrow> nat \<Rightarrow> string \<Rightarrow> nat \<Rightarrow> bool" where
  "is_safe_host net m host port =
     (let host_trimmed = trim_end (\<lambda>c. c = CHR '']'') (trim_start (\<lambda>c. c = CHR ''['') (trim host))
      in case parse_ip net host_trimmed of
           Some ip \<Rightarrow> is_safe_ip ip
         | None \<Rightarrow>
             if map lower_char host = ''localhost'' then False
             else case lookup_host net m host port of
                    Some addrs \<Rightarrow> list_all is_safe_ip addrs \<and> addrs \<noteq> []
                  | None \<Rightarrow> False)"

section \<open>Gemini\<close>

definition parse_gemini_url :: "string \<Rightarrow> string + string \<times> nat \<times> string" where
  "parse_gemini_url url =
     (let url = trim url
      in case strip_prefix ''gemini://'' url of
           None \<Rightarrow> Inl ''URL does not start with gemini://''
         | Some rest \<Rightarrow>
             let authority = (case split_find CHR ''/'' rest of Some (a, _) \<Rightarrow> a | None \<Rightarrow> rest)
             in case split_find CHR '':'' authority of
                  Some (host, colon_port) \<Rightarrow>
                    (case parse_u16 (tl colon_port) of
                       Some port \<Rightarrow> Inr (host, port, url)
                     | None \<Rightarrow> Inl ''invalid port'')
                | None \<Rightarrow> Inr (authority, 1965, url))"

text \<open>The loop that reads the body, chunk by chunk.\<close>

fun read_body :: "u64 \<Rightarrow> (string + bytes) list \<Rightarrow> bytes \<Rightarrow> string + bytes" where
  "read_body max_size [] body = Inr body"
| "read_body max_size (Inl e # chunks) body = Inl e"
| "read_body max_size (Inr chunk # chunks) body =
     (if chunk = [] then Inr body
      else let body = body @ chunk
           in if max_size < vec_len body then Inl ''Payload too large'' else read_body max_size chunks body)"

definition fetch_gemini :: "'u net \<Rightarrow> nat \<Rightarrow> string \<Rightarrow> u64 \<Rightarrow> (string + bytes \<times> string) \<times> access list" where
  "fetch_gemini net m url_str max_size =
     (case parse_gemini_url url_str of
        Inl e \<Rightarrow> (Inl e, [])
      | Inr (host, port, full_url) \<Rightarrow>
          let request = full_url @ [CHR 0x0D, CHR 0x0A]
          in (case gemini_reply net m host port request of
                Inl e \<Rightarrow> Inl e
              | Inr (header_bytes, chunks) \<Rightarrow>
                  if header_bytes = [] then Inl ''Connection closed before header received''
                  else if 1026 < length header_bytes then Inl ''Response header too long''
                  else let header_str = trim_end (\<lambda>c. c = CHR 0x0D \<or> c = CHR 0x0A) (utf8_lossy net header_bytes);
                           (status_str, meta) = (case split_find CHR '' '' header_str of
                                                   Some (st, rest) \<Rightarrow> (st, tl rest) | None \<Rightarrow> (header_str, []))
                       in if length status_str \<noteq> 2 then Inl (''Invalid Gemini status code: '' @ status_str)
                          else if hd status_str = CHR ''2''
                          then let mime = (if meta = [] then ''text/gemini; charset=utf-8'' else meta)
                               in (case read_body max_size chunks [] of
                                     Inl e \<Rightarrow> Inl e
                                   | Inr body \<Rightarrow> Inr (body, mime))
                          else if hd status_str = CHR ''3'' then Inl (''REDIRECT: '' @ meta)
                          else Inl (''Gemini error status '' @ status_str @ '': '' @ meta),
              [GeminiRequest m host port request]))"

section \<open>Fetching\<close>

text \<open>A redirect: only to a known scheme and a safe host.\<close>

definition follow_redirect :: "'u net \<Rightarrow> nat \<Rightarrow> string \<Rightarrow> string \<Rightarrow> ('u \<Rightarrow> nat) \<Rightarrow> fetch_error + string" where
  "follow_redirect net m current_uri location default_port =
     (case parse_url net current_uri of
        Inl e \<Rightarrow> Inl (OtherError e)
      | Inr base \<Rightarrow>
          (case url_join net base location of
             Inl e \<Rightarrow> Inl (OtherError e)
           | Inr resolved \<Rightarrow>
               let scheme = url_scheme net resolved
               in if scheme \<noteq> ''http'' \<and> scheme \<noteq> ''https'' \<and> scheme \<noteq> ''gemini''
                  then Inl (Forbidden (''Forbidden redirect scheme: '' @ scheme))
                  else let port = (case url_port net resolved of Some p \<Rightarrow> p | None \<Rightarrow> default_port resolved);
                           host_safe = (case url_host net resolved of Some host \<Rightarrow> is_safe_host net m host port | None \<Rightarrow> True)
                       in if \<not> host_safe
                          then Inl (Forbidden (''Forbidden redirect host (SSRF protection): ''
                                 @ (case url_host net resolved of Some host \<Rightarrow> host | None \<Rightarrow> [])))
                          else Inr (url_text net resolved)))"

definition http_port :: "'u net \<Rightarrow> 'u \<Rightarrow> nat" where
  "http_port net url = (if url_scheme net url = ''https'' then 443 else 80)"

text \<open>A file is read as a whole, then its size is checked.\<close>

definition read_limited :: "'u net \<Rightarrow> nat \<Rightarrow> string \<Rightarrow> u64 \<Rightarrow> fetch_error + bytes \<times> string" where
  "read_limited net m p max_size =
     (case read_file net m p of
        Inl e \<Rightarrow> Inl (NotFound e)
      | Inr bs \<Rightarrow> if max_size < vec_len bs then Inl PayloadTooLarge else Inr (bs, guess_mime_type p))"

text \<open>The body of a successful response.\<close>

definition http_body :: "http_response \<Rightarrow> u64 \<Rightarrow> fetch_error + bytes \<times> string" where
  "http_body res max_size =
     (let mime = (case hr_content_type res of Some m \<Rightarrow> m | None \<Rightarrow> ''application/octet-stream'')
      in if (case hr_content_length res of Some len \<Rightarrow> max_size < len | None \<Rightarrow> False) then Inl PayloadTooLarge
         else case hr_body res of
                Inl e \<Rightarrow> Inl (OtherError e)
              | Inr bs \<Rightarrow> if max_size < vec_len bs then Inl PayloadTooLarge else Inr (bs, mime))"

text \<open>One turn of the loop over redirects either returns or continues with another URI; the accesses it made come
  with it.  A turn that begins at moment \<open>m\<close> checks at \<open>m\<close>, makes its access at \<open>Suc m\<close> and checks the target of a
  redirect one moment later.\<close>

datatype turn = Return "fetch_error + bytes \<times> string" | Continue string

definition redirect_turn :: "'u net \<Rightarrow> nat \<Rightarrow> string \<Rightarrow> string \<Rightarrow> ('u \<Rightarrow> nat) \<Rightarrow> turn" where
  "redirect_turn net m current_uri location default_port =
     (case follow_redirect net m current_uri location default_port of Inl e \<Rightarrow> Return (Inl e) | Inr uri \<Rightarrow> Continue uri)"

definition fetch_http :: "'u net \<Rightarrow> nat \<Rightarrow> u64 \<Rightarrow> string \<Rightarrow> nat \<Rightarrow> turn \<times> access list" where
  "fetch_http net m max_size current_uri redirect_count =
     (case parse_url net current_uri of
        Inl e \<Rightarrow> (Return (Inl (OtherError e)), [])
      | Inr url \<Rightarrow>
          let port = (case url_port net url of Some p \<Rightarrow> p | None \<Rightarrow> http_port net url);
              host_safe = (case url_host net url of Some host \<Rightarrow> is_safe_host net m host port | None \<Rightarrow> True)
          in if \<not> host_safe
             then (Return (Inl (Forbidden (''Forbidden host (SSRF protection): ''
                     @ (case url_host net url of Some host \<Rightarrow> host | None \<Rightarrow> [])))), [])
             else (case http_get net (Suc m) current_uri of
                     Inl e \<Rightarrow> Return (Inl (NotFound e))
                   | Inr res \<Rightarrow>
                       if 200 \<le> hr_status res \<and> hr_status res < 300 then Return (http_body res max_size)
                       else if 300 \<le> hr_status res \<and> hr_status res < 400
                       then if 5 \<le> redirect_count then Return (Inl (OtherError ''Too many redirects''))
                            else (case hr_location res of
                                    None \<Rightarrow> Return (Inl (OtherError ''Redirect without Location header''))
                                  | Some location \<Rightarrow> redirect_turn net (Suc (Suc m)) current_uri location (http_port net))
                       else Return (Inl (NotFound (''HTTP error: '' @ hr_status_text res))),
                   [HttpGet (Suc m) current_uri]))"

definition fetch_gemini_turn :: "'u net \<Rightarrow> nat \<Rightarrow> u64 \<Rightarrow> string \<Rightarrow> nat \<Rightarrow> turn \<times> access list" where
  "fetch_gemini_turn net m max_size current_uri redirect_count =
     (case parse_gemini_url current_uri of
        Inl e \<Rightarrow> (Return (Inl (OtherError e)), [])
      | Inr (host, port, _) \<Rightarrow>
          if \<not> is_safe_host net m host port
          then (Return (Inl (Forbidden (''Forbidden host (SSRF protection): '' @ host))), [])
          else let (r, accesses) = fetch_gemini net (Suc m) current_uri max_size
               in (case r of
                     Inr res \<Rightarrow> Return (Inr res)
                   | Inl err_msg \<Rightarrow>
                       (case strip_prefix ''REDIRECT: '' err_msg of
                          Some redirect_meta \<Rightarrow>
                            if 5 \<le> redirect_count then Return (Inl (OtherError ''Too many redirects''))
                            else redirect_turn net (Suc (Suc m)) current_uri (trim redirect_meta) (\<lambda>_. 1965)
                        | None \<Rightarrow>
                            if contains err_msg ''Payload too large'' then Return (Inl PayloadTooLarge)
                            else Return (Inl (NotFound err_msg))),
                   accesses))"

definition fetch_local :: "'u net \<Rightarrow> nat \<Rightarrow> basket_config \<Rightarrow> u64 \<Rightarrow> string \<Rightarrow> turn \<times> access list" where
  "fetch_local net m config max_size current_uri =
     (case strip_prefix ''file://'' current_uri of
        Some file_path \<Rightarrow>
          if \<not> check_file_path net m file_path (bc_allowed_dirs config)
          then (Return (Inl (Forbidden (''Access denied or file not allowed: '' @ file_path))), [])
          else (Return (read_limited net (Suc m) file_path max_size), [ReadFile (Suc m) file_path])
      | None \<Rightarrow>
          (case map_of (bc_mappings config) current_uri of
             Some mapped_path \<Rightarrow>
               (case canonicalize net m mapped_path of
                  Inl e \<Rightarrow> (Return (Inl (NotFound e)), [])
                | Inr canonical \<Rightarrow> (Return (read_limited net (Suc m) canonical max_size), [ReadFile (Suc m) canonical]))
           | None \<Rightarrow> (Return (Inl (NotFound (''Unsupported URI scheme or mapping: '' @ current_uri))), [])))"

definition fetch_turn :: "'u net \<Rightarrow> nat \<Rightarrow> basket_config \<Rightarrow> u64 \<Rightarrow> string \<Rightarrow> nat \<Rightarrow> turn \<times> access list" where
  "fetch_turn net m config max_size current_uri redirect_count =
     (if prefix ''http://'' current_uri \<or> prefix ''https://'' current_uri
      then fetch_http net m max_size current_uri redirect_count
      else if prefix ''gemini://'' current_uri then fetch_gemini_turn net m max_size current_uri redirect_count
      else fetch_local net m config max_size current_uri)"

text \<open>Only a redirect continues, and there are at most five.\<close>

lemma fetch_turn_Continue:
  "fetch_turn net m config max_size uri n = (Continue uri', accesses) \<Longrightarrow> n < 5"
  by (auto simp: fetch_turn_def fetch_http_def fetch_gemini_turn_def fetch_local_def Let_def
      split: if_splits sum.splits option.splits prod.splits)

function fetch_loop ::
    "'u net \<Rightarrow> nat \<Rightarrow> basket_config \<Rightarrow> u64 \<Rightarrow> string \<Rightarrow> nat \<Rightarrow> (fetch_error + bytes \<times> string) \<times> access list" where
  "fetch_loop net m config max_size current_uri redirect_count =
     (case fetch_turn net m config max_size current_uri redirect_count of
        (Return r, accesses) \<Rightarrow> (r, accesses)
      | (Continue uri, accesses) \<Rightarrow>
          let (r, more) = fetch_loop net (m + 3) config max_size uri (redirect_count + 1) in (r, accesses @ more))"
  by pat_completeness auto

termination
  by (relation "measure (\<lambda>(net, m, config, max_size, uri, redirect_count). 5 - redirect_count)")
    (auto dest!: fetch_turn_Continue [OF sym])

declare fetch_loop.simps [simp del]

definition fetch_resource :: "'u net \<Rightarrow> nat \<Rightarrow> basket_config \<Rightarrow> string \<Rightarrow> u64 \<Rightarrow> (fetch_error + bytes \<times> string) \<times> access list" where
  "fetch_resource net m config uri max_size = fetch_loop net m config max_size uri 0"

section \<open>What may be touched\<close>

text \<open>The addresses a host stands for at a moment: the one it spells, or those its name resolves to.\<close>

definition host_addresses :: "'u net \<Rightarrow> nat \<Rightarrow> string \<Rightarrow> nat \<Rightarrow> ip_addr list" where
  "host_addresses net m host port =
     (case parse_ip net (trim_end (\<lambda>c. c = CHR '']'') (trim_start (\<lambda>c. c = CHR ''['') (trim host))) of
        Some ip \<Rightarrow> [ip]
      | None \<Rightarrow> (case lookup_host net m host port of Some addrs \<Rightarrow> addrs | None \<Rightarrow> []))"

definition public_host :: "'u net \<Rightarrow> nat \<Rightarrow> string \<Rightarrow> nat \<Rightarrow> bool" where
  "public_host net m host port \<longleftrightarrow> host_addresses net m host port \<noteq> [] \<and> (\<forall>ip\<in>set (host_addresses net m host port). is_safe_ip ip)"

text \<open>The host and port of an access, if it is one to the network.\<close>

fun contacts :: "'u net \<Rightarrow> access \<Rightarrow> (string \<times> nat) option" where
  "contacts net (HttpGet m uri) =
     (case parse_url net uri of
        Inr url \<Rightarrow> map_option (\<lambda>host. (host, case url_port net url of Some p \<Rightarrow> p | None \<Rightarrow> http_port net url)) (url_host net url)
      | Inl _ \<Rightarrow> None)"
| "contacts net (GeminiRequest m host port request) = Some (host, port)"
| "contacts net (ReadFile m p) = None"

fun moment :: "access \<Rightarrow> nat" where
  "moment (HttpGet m uri) = m"
| "moment (GeminiRequest m host port request) = m"
| "moment (ReadFile m p) = m"

text \<open>The addresses a connection may go to: what the name stands for at the moment of the access.\<close>

definition reached :: "'u net \<Rightarrow> access \<Rightarrow> ip_addr set" where
  "reached net a = (case contacts net a of Some (host, port) \<Rightarrow> set (host_addresses net (moment a) host port) | None \<Rightarrow> {})"

text \<open>An access is permitted by a check at the moment before it.\<close>

fun permitted_at :: "'u net \<Rightarrow> basket_config \<Rightarrow> nat \<Rightarrow> access \<Rightarrow> bool" where
  "permitted_at net config c (HttpGet m uri) \<longleftrightarrow>
     (prefix ''http://'' uri \<or> prefix ''https://'' uri)
     \<and> (\<exists>url. parse_url net uri = Inr url \<and> (\<forall>host. url_host net url = Some host \<longrightarrow>
          public_host net c host (case url_port net url of Some p \<Rightarrow> p | None \<Rightarrow> http_port net url)))"
| "permitted_at net config c (GeminiRequest m host port request) \<longleftrightarrow> public_host net c host port"
| "permitted_at net config c (ReadFile m p) \<longleftrightarrow>
     (\<exists>canon dir. canonicalize net c p = Inr canon \<and> dir \<in> set (bc_allowed_dirs config) \<and> path_starts_with canon dir)
     \<or> (\<exists>uri mapped. map_of (bc_mappings config) uri = Some mapped \<and> canonicalize net c mapped = Inr p)"

definition permitted :: "'u net \<Rightarrow> basket_config \<Rightarrow> access \<Rightarrow> bool" where
  "permitted net config a \<longleftrightarrow> (\<exists>c. moment a = Suc c \<and> permitted_at net config c a)"

lemma is_safe_host_public: "is_safe_host net m host port \<Longrightarrow> public_host net m host port"
  by (auto simp: is_safe_host_def public_host_def host_addresses_def Let_def list_all_iff split: option.splits if_splits)

text \<open>Where a name stands for the same addresses at the check and at the access, only safe ones are reached.\<close>

lemma permitted_reaches:
  assumes "permitted net config a"
    and "\<And>host port. contacts net a = Some (host, port) \<Longrightarrow> host_addresses net (moment a) host port = host_addresses net (moment a - 1) host port"
    and "ip \<in> reached net a"
  shows "is_safe_ip ip"
  using assms
  by (cases a) (auto simp: permitted_def reached_def public_host_def split: sum.splits option.splits)

lemma read_body_bound:
  "read_body max_size chunks body = Inr r \<Longrightarrow> vec_len body \<le> max_size \<Longrightarrow> vec_len r \<le> max_size"
  by (induction max_size chunks body rule: read_body.induct) (auto simp: Let_def not_less split: if_splits)

lemma fetch_gemini_spec:
  assumes "fetch_gemini net m uri max_size = (r, accesses)" "parse_gemini_url uri = Inr (host, port, full)"
  shows "(\<forall>a\<in>set accesses. \<exists>req. a = GeminiRequest m host port req) \<and> length accesses \<le> 1
    \<and> (case r of Inr (body, mime) \<Rightarrow> vec_len body \<le> max_size | Inl _ \<Rightarrow> True)"
  using assms
  by (auto simp: fetch_gemini_def Let_def vec_len_def [of "[]"] split: sum.splits prod.splits if_splits dest: read_body_bound)

text \<open>One turn touches one thing at most, and only what is permitted.\<close>

definition turn_ok :: "'u net \<Rightarrow> basket_config \<Rightarrow> u64 \<Rightarrow> turn \<times> access list \<Rightarrow> bool" where
  "turn_ok net config max_size t \<longleftrightarrow> (\<forall>a\<in>set (snd t). permitted net config a) \<and> length (snd t) \<le> 1
     \<and> (\<forall>body mime. fst t = Return (Inr (body, mime)) \<longrightarrow> vec_len body \<le> max_size)"

lemma redirect_turn_not_ok: "redirect_turn net m uri location default_port \<noteq> Return (Inr r)"
  by (simp add: redirect_turn_def split: sum.split)

lemma http_body_bound: "http_body res max_size = Inr (body, mime) \<Longrightarrow> vec_len body \<le> max_size"
  by (auto simp: http_body_def Let_def not_less split: if_splits sum.splits)

lemma read_limited_bound: "read_limited net m p max_size = Inr (body, mime) \<Longrightarrow> vec_len body \<le> max_size"
  by (auto simp: read_limited_def not_less split: if_splits sum.splits)

lemma fetch_http_ok:
  assumes "prefix ''http://'' uri \<or> prefix ''https://'' uri"
  shows "turn_ok net config max_size (fetch_http net m max_size uri n)"
proof (cases "parse_url net uri")
  case (Inl e)
  then show ?thesis by (simp add: fetch_http_def turn_ok_def)
next
  case (Inr url)
  define port where "port = (case url_port net url of Some p \<Rightarrow> p | None \<Rightarrow> http_port net url)"
  define safe where "safe = (case url_host net url of Some host \<Rightarrow> is_safe_host net m host port | None \<Rightarrow> True)"
  show ?thesis
  proof (cases safe)
    case False
    then show ?thesis
      unfolding fetch_http_def Inr sum.case port_def [symmetric] Let_def safe_def [symmetric] by (simp add: turn_ok_def)
  next
    case True
    have "permitted net config (HttpGet (Suc m) uri)"
      using assms Inr True by (auto simp: permitted_def safe_def port_def dest: is_safe_host_public split: option.splits)
    then show ?thesis
      using True unfolding fetch_http_def Inr sum.case port_def [symmetric] Let_def safe_def [symmetric]
      by (auto simp: turn_ok_def redirect_turn_not_ok split: sum.split option.split dest: http_body_bound)
  qed
qed

lemma fetch_gemini_ok: "turn_ok net config max_size (fetch_gemini_turn net m max_size uri n)"
proof (cases "parse_gemini_url uri")
  case (Inl e)
  then show ?thesis by (simp add: fetch_gemini_turn_def turn_ok_def)
next
  case (Inr p)
  obtain host port full where p: "p = (host, port, full)" by (metis prod_cases3)
  obtain r accesses where fetched: "fetch_gemini net (Suc m) uri max_size = (r, accesses)" by fastforce
  note spec = fetch_gemini_spec [OF fetched Inr [unfolded p]]
  show ?thesis
  proof (cases "is_safe_host net m host port")
    case False
    then show ?thesis by (simp add: fetch_gemini_turn_def Inr p turn_ok_def)
  next
    case True
    then have "\<forall>a\<in>set accesses. permitted net config a" using spec is_safe_host_public [of net m host port] by (fastforce simp: permitted_def)
    then show ?thesis using True spec
      by (auto simp: fetch_gemini_turn_def Inr p turn_ok_def fetched redirect_turn_not_ok split: sum.splits option.splits)
  qed
qed

lemma fetch_local_ok: "turn_ok net config max_size (fetch_local net m config max_size uri)"
  by (auto simp: fetch_local_def turn_ok_def permitted_def check_file_path_def list_ex_iff split: option.split sum.splits
      dest: read_limited_bound)

lemma fetch_turn_ok: "turn_ok net config max_size (fetch_turn net m config max_size uri n)"
  by (simp add: fetch_turn_def fetch_http_ok fetch_gemini_ok fetch_local_ok)

lemma fetch_loop_ok:
  "n \<le> 5 \<Longrightarrow> fetch_loop net m config max_size uri n = (r, accesses) \<Longrightarrow>
    (\<forall>a\<in>set accesses. permitted net config a) \<and> length accesses \<le> 6 - n
    \<and> (\<forall>body mime. r = Inr (body, mime) \<longrightarrow> vec_len body \<le> max_size)"
proof (induction net m config max_size uri n arbitrary: accesses rule: fetch_loop.induct)
  case (1 net m config max_size uri n)
  obtain t xs where t: "fetch_turn net m config max_size uri n = (t, xs)" by fastforce
  have ok: "turn_ok net config max_size (t, xs)" using fetch_turn_ok [of net config max_size m uri n] by (simp add: t)
  show ?case
  proof (cases t)
    case (Return r')
    then show ?thesis using "1.prems" ok by (subst (asm) fetch_loop.simps) (auto simp: t turn_ok_def)
  next
    case (Continue uri')
    obtain ys where ys: "fetch_loop net (m + 3) config max_size uri' (n + 1) = (r, ys)" "accesses = xs @ ys"
      using "1.prems"(2) Continue by (subst (asm) fetch_loop.simps) (auto simp: t split: prod.splits)
    have n: "n < 5" using fetch_turn_Continue t Continue by blast
    from "1.IH" [OF t [symmetric] Continue _ ys(1)] n show ?thesis
      using ok ys(2) by (auto simp: turn_ok_def)
  qed
qed

section \<open>Properties\<close>

text \<open>C6: a remote request cannot reach into the network or the file system.  Whatever the URI, the redirects the
  servers answer with and the contents they send, fetching makes at most six accesses, and each is permitted by a
  check at the moment before it: of a host contacted, every address its name then resolved to was safe; a
  file read lay, after the resolution of its path then, in an allowed directory, or is one that a mapping names; and no
  more octets than asked for are returned.  A connection resolves the name again.  As long as a name stands
  for the same addresses at its check and at its use, every address reached is safe; the following lemma
  shows that otherwise it need not be.
\<close>

theorem fetch_resource_confined:
  assumes "fetch_resource net m config uri max_size = (r, accesses)"
  shows "(\<forall>a\<in>set accesses. permitted net config a) \<and> length accesses \<le> 6
    \<and> (\<forall>body mime. r = Inr (body, mime) \<longrightarrow> vec_len body \<le> max_size)
    \<and> (\<forall>a\<in>set accesses. (\<forall>host port. contacts net a = Some (host, port) \<longrightarrow>
          host_addresses net (moment a) host port = host_addresses net (moment a - 1) host port)
        \<longrightarrow> (\<forall>ip\<in>reached net a. is_safe_ip ip))"
  using fetch_loop_ok [of 0 net m config max_size uri r accesses] assms permitted_reaches [of net config]
  unfolding fetch_resource_def by fastforce

definition sample_net :: "string net" where
  "sample_net = \<lparr>parse_url = Inr, url_scheme = (\<lambda>u. takeWhile (\<lambda>c. c \<noteq> CHR '':'') u), url_host = (\<lambda>u. Some ''h''), url_port = (\<lambda>_. None),
     url_join = (\<lambda>_. Inr), url_text = id, parse_ip = (\<lambda>_. None), lookup_host = (\<lambda>_ _ _. Some [V4 44 0 0 1]),
     http_get = (\<lambda>_ _. Inr \<lparr>hr_status = 302, hr_status_text = ''302 Found'', hr_content_type = None, hr_location = Some ''http://h/b'',
       hr_content_length = None, hr_body = Inr [1, 2, 3]\<rparr>),
     gemini_reply = (\<lambda>_ _ _ _. Inl ''refused''), utf8_lossy = map (\<lambda>b. char_of (unat b)), canonicalize = (\<lambda>_. Inr),
     read_file = (\<lambda>_ _. Inr [7, 7])\<rparr>"

theorem fetch_resource_confined_witness:
  "length (snd (fetch_resource sample_net 0 default_basket_config ''http://h/a'' 100)) \<le> 6
    \<and> list_all (permitted sample_net default_basket_config) (snd (fetch_resource sample_net 0 default_basket_config ''http://h/a'' 100))"
  using fetch_resource_confined [OF prod.collapse [symmetric], of sample_net 0 default_basket_config "''http://h/a''" 100]
  unfolding list_all_iff by blast

text \<open>
  A name that resolves to a public address when it is checked and to the loopback address when it is contacted
  passes the check, and the request goes to the loopback address.
\<close>

definition rebinding_net :: "string net" where
  "rebinding_net = sample_net\<lparr>lookup_host := (\<lambda>m _ _. Some [if m = 0 then V4 44 0 0 1 else V4 127 0 0 1]),
     http_get := (\<lambda>_ _. Inr \<lparr>hr_status = 200, hr_status_text = ''200 OK'', hr_content_type = None, hr_location = None,
       hr_content_length = None, hr_body = Inr [1]\<rparr>)\<rparr>"

lemma rebinding_reaches_inside:
  "snd (fetch_resource rebinding_net 0 default_basket_config ''http://h/a'' 100) = [HttpGet 1 ''http://h/a'']"
  "V4 127 0 0 1 \<in> reached rebinding_net (HttpGet 1 ''http://h/a'')" "\<not> is_safe_ip (V4 127 0 0 1)"
proof -
  have "is_safe_host rebinding_net 0 ''h'' 80"
    by (simp add: is_safe_host_def rebinding_net_def sample_net_def lower_char_def is_safe_v4_def is_unspecified.simps
        v4_private_def v4_broadcast_def)
  then show "snd (fetch_resource rebinding_net 0 default_basket_config ''http://h/a'' 100) = [HttpGet 1 ''http://h/a'']"
    by (simp add: fetch_resource_def fetch_loop.simps fetch_turn_def fetch_http_def Let_def)
      (simp add: rebinding_net_def sample_net_def http_port_def http_body_def vec_len_def)
  show "V4 127 0 0 1 \<in> reached rebinding_net (HttpGet 1 ''http://h/a'')"
    by (simp add: reached_def host_addresses_def rebinding_net_def sample_net_def)
  show "\<not> is_safe_ip (V4 127 0 0 1)" by (simp add: is_safe_v4_def)
qed

definition v4_number :: "u8 \<Rightarrow> u8 \<Rightarrow> u8 \<Rightarrow> u8 \<Rightarrow> nat" where
  "v4_number a b c d = ((unat a * 256 + unat b) * 256 + unat c) * 256 + unat d"

text \<open>The CIDR block \<open>a.b.0.0/len\<close> for a length up to 16.\<close>

definition in_block :: "nat \<Rightarrow> nat \<Rightarrow> nat \<Rightarrow> nat \<Rightarrow> bool" where
  "in_block a b len n \<longleftrightarrow> (a * 256 + b) * 65536 \<le> n \<and> n < (a * 256 + b) * 65536 + 2 ^ (32 - len)"

lemma shared_octet: "b AND 0xC0 = 64 \<longleftrightarrow> 64 \<le> unat b \<and> unat b < 128" for b :: u8
proof -
  have mask: "(0xC0 :: u8) = NOT (mask 6)" by (simp add: mask_eq_exp_minus_1)
  have cut: "b AND 0xC0 = push_bit 6 (drop_bit 6 b)"
    unfolding mask by (rule bit_word_eqI) (auto simp: bit_simps)
  have small: "unat b < 256" using unsigned_less [of b] by simp
  then have "unat b div 64 * 64 < 256" using div_times_less_eq_dividend [of "unat b" 64] by linarith
  then have "unat (push_bit 6 (drop_bit 6 b)) = unat b div 64 * 64"
    by (simp only: unsigned_push_bit_eq unsigned_drop_bit_eq) (simp add: take_bit_eq_mod drop_bit_eq_div push_bit_eq_mult small)
  then have "unat (b AND 0xC0) = unat b div 64 * 64" by (simp only: cut)
  moreover have "unat b div 64 * 64 = 64 \<longleftrightarrow> unat b div 64 = 1" by linarith
  moreover have "unat b div 64 = 1 \<longleftrightarrow> 64 \<le> unat b \<and> unat b < 128" by linarith
  ultimately show ?thesis by (simp add: word_unat_eq_iff)
qed

lemma block_high_part:
  assumes "k * 65536 = 2 ^ (32 - len)" "r < (65536 :: nat)"
  shows "in_block p q len (m * 65536 + r) \<longleftrightarrow> p * 256 + q \<le> m \<and> m < p * 256 + q + k"
  unfolding in_block_def assms(1) [symmetric] using assms(2) by (auto simp: algebra_simps)

lemma block_octets:
  fixes a b p q k :: nat
  assumes "b < 256" "q + k \<le> 256"
  shows "p * 256 + q \<le> a * 256 + b \<and> a * 256 + b < p * 256 + q + k \<longleftrightarrow> a = p \<and> q \<le> b \<and> b < q + k"
proof (cases a p rule: linorder_cases)
  case less
  then have "Suc a * 256 \<le> p * 256" by (intro mult_le_mono) simp_all
  then show ?thesis using assms less by auto
next
  case greater
  then have "Suc p * 256 \<le> a * 256" by (intro mult_le_mono) simp_all
  then show ?thesis using assms greater by auto
qed auto

lemma safe_blocks_nat:
  fixes a b c d :: nat
  assumes "a < 256" "b < 256" "c < 256" "d < 256"
  defines "n \<equiv> ((a * 256 + b) * 256 + c) * 256 + d"
  shows "in_block 0 0 8 n \<longleftrightarrow> a = 0" "in_block 10 0 8 n \<longleftrightarrow> a = 10" "in_block 127 0 8 n \<longleftrightarrow> a = 127"
    "in_block 100 64 10 n \<longleftrightarrow> a = 100 \<and> 64 \<le> b \<and> b < 128" "in_block 172 16 12 n \<longleftrightarrow> a = 172 \<and> 16 \<le> b \<and> b \<le> 31"
    "in_block 169 254 16 n \<longleftrightarrow> a = 169 \<and> b = 254" "in_block 192 168 16 n \<longleftrightarrow> a = 192 \<and> b = 168"
    "n = 2 ^ 32 - 1 \<longleftrightarrow> a = 255 \<and> b = 255 \<and> c = 255 \<and> d = 255"
proof -
  have n: "n = (a * 256 + b) * 65536 + (c * 256 + d)" by (simp add: n_def)
  have low: "c * 256 + d < 65536" using assms by linarith
  have block: "in_block p q len n \<longleftrightarrow> a = p \<and> q \<le> b \<and> b < q + k" if "k * 65536 = 2 ^ (32 - len)" "q + k \<le> 256" for p q len k
    unfolding n block_high_part [OF that(1) low] by (rule block_octets [OF assms(2) that(2)])
  show "in_block 0 0 8 n \<longleftrightarrow> a = 0" "in_block 10 0 8 n \<longleftrightarrow> a = 10" "in_block 127 0 8 n \<longleftrightarrow> a = 127"
    using assms(2) block [of 256 8 0] by simp_all
  show "in_block 100 64 10 n \<longleftrightarrow> a = 100 \<and> 64 \<le> b \<and> b < 128" using block [of 64 10 64] by simp
  show "in_block 172 16 12 n \<longleftrightarrow> a = 172 \<and> 16 \<le> b \<and> b \<le> 31" using block [of 16 12 16] by auto
  show "in_block 169 254 16 n \<longleftrightarrow> a = 169 \<and> b = 254" using block [of 1 16 254] by auto
  show "in_block 192 168 16 n \<longleftrightarrow> a = 192 \<and> b = 168" using block [of 1 16 168] by auto
  show "n = 2 ^ 32 - 1 \<longleftrightarrow> a = 255 \<and> b = 255 \<and> c = 255 \<and> d = 255" using assms by (simp add: n_def) linarith
qed

lemma word8_eq: "x = y \<longleftrightarrow> unat x = unat y" for x y :: u8
  by (rule word_unat_eq_iff)

text \<open>the filter of addresses, read on the address as a number.  An IPv4 address is safe exactly when it is outside
  the current network, the private, shared, loopback and link-local ranges, and is not the broadcast address;
  an IPv6 address that maps one is safe exactly when that one is.\<close>

theorem is_safe_ip_blocks:
  "is_safe_ip (V4 a b c d) \<longleftrightarrow>
     (let n = v4_number a b c d
      in \<not> in_block 0 0 8 n \<and> \<not> in_block 10 0 8 n \<and> \<not> in_block 100 64 10 n \<and> \<not> in_block 127 0 8 n
         \<and> \<not> in_block 169 254 16 n \<and> \<not> in_block 172 16 12 n \<and> \<not> in_block 192 168 16 n \<and> n \<noteq> 2 ^ 32 - 1)"
proof -
  have small: "unat x < 256" for x :: u8 using unsigned_less [of x] by simp
  note blocks = safe_blocks_nat [OF small small small small, of a b c d, folded v4_number_def]
  have octets: "unat (0 :: u8) = 0" "unat (10 :: u8) = 10" "unat (16 :: u8) = 16" "unat (31 :: u8) = 31" "unat (100 :: u8) = 100"
    "unat (127 :: u8) = 127" "unat (168 :: u8) = 168" "unat (169 :: u8) = 169" "unat (172 :: u8) = 172" "unat (192 :: u8) = 192"
    "unat (254 :: u8) = 254" "unat (255 :: u8) = 255"
    by simp_all
  show ?thesis
    unfolding Let_def blocks is_safe_ip.simps is_safe_v4_def is_unspecified.simps v4_private_def v4_broadcast_def shared_octet
    unfolding word8_eq word_le_nat_alt octets
    by blast
qed

end
