(* ===== verification/Basket_Service.thy ===== *)
theory Basket_Service
  imports Basket_Fetch "HOL-Library.Multiset"
begin

text \<open>
  The basket responder (\<^verbatim>\<open>src/bin/dtnbasket.rs\<close>): the search of the allowed directories, the
  handlers of the five operations and the processing of a request.  The file system's directories,
  the clock, the hash function and the regular expressions are the parameter \<open>host\<close>, which
  contains the \<open>net\<close> of the fetcher and the moment \<open>h_at\<close> at which what a URI or path names is first asked for.
\<close>

section \<open>Search\<close>

datatype entry_kind = Directory | RegularFile | OtherEntry | Unreadable

record 'u host =
  h_net :: "'u net"
  h_at :: "string \<Rightarrow> nat"
  regex :: "string \<Rightarrow> (string \<Rightarrow> bool) option"
  read_dir :: "string \<Rightarrow> (string \<times> entry_kind) list option"
  sha256 :: "bytes \<Rightarrow> bytes"
  hex_encode :: "bytes \<Rightarrow> string"
  file_len :: "string \<Rightarrow> u64 option"
  modified_secs :: "string \<Rightarrow> u64 option"
  clock_secs :: u64
  text_bytes :: "string \<Rightarrow> bytes"

definition name_of :: "string \<Rightarrow> string" where
  "name_of p = (case file_name p of Some n \<Rightarrow> n | None \<Rightarrow> [])"

definition skipped_dir :: "string \<Rightarrow> bool" where
  "skipped_dir n \<longleftrightarrow> prefix ''.'' n \<or> n = ''target'' \<or> n = ''node_modules''"

definition push_result :: "string \<Rightarrow> string \<Rightarrow> (string \<times> string) list \<Rightarrow> (string \<times> string) list" where
  "push_result uri p results = (if list_ex (\<lambda>(u, _). u = uri) results then results else results @ [(uri, p)])"

definition file_uri :: "string \<Rightarrow> string" where
  "file_uri p = ''file://'' @ p"

text \<open>The entries of a directory: subdirectories go on the stack, files that match into the results.\<close>

fun visit_entries ::
    "(string \<Rightarrow> bool) \<Rightarrow> nat \<Rightarrow> (string \<times> entry_kind) list \<Rightarrow> (string \<times> nat) list \<Rightarrow> (string \<times> string) list
     \<Rightarrow> (string \<times> nat) list \<times> (string \<times> string) list" where
  "visit_entries re depth [] stack results = (stack, results)"
| "visit_entries re depth ((p, kind) # entries) stack results =
     (case kind of
        Directory \<Rightarrow>
          if skipped_dir (name_of p) then visit_entries re depth entries stack results
          else visit_entries re depth entries ((p, depth + 1) # stack) results
      | RegularFile \<Rightarrow>
          visit_entries re depth entries stack
            (if re (name_of p) then push_result (file_uri p) p results else results)
      | _ \<Rightarrow> visit_entries re depth entries stack results)"

definition subdirs :: "(string \<times> entry_kind) list \<Rightarrow> string list" where
  "subdirs entries = map fst (filter (\<lambda>(p, kind). kind = Directory \<and> \<not> skipped_dir (name_of p)) entries)"

definition hits :: "(string \<Rightarrow> bool) \<Rightarrow> (string \<times> entry_kind) list \<Rightarrow> string list" where
  "hits re entries = map fst (filter (\<lambda>(p, kind). kind = RegularFile \<and> re (name_of p)) entries)"

lemma visit_entries_split:
  "visit_entries re depth entries stack results
   = (rev (map (\<lambda>p. (p, depth + 1)) (subdirs entries)) @ stack,
      fold (\<lambda>p. push_result (file_uri p) p) (hits re entries) results)"
  by (induction re depth entries stack results rule: visit_entries.induct)
    (auto simp: subdirs_def hits_def split: entry_kind.split)

text \<open>In the search a directory is replaced by deeper ones, and none is deeper than the limit.\<close>

definition search_measure :: "nat \<Rightarrow> (string \<times> nat) list \<Rightarrow> nat multiset" where
  "search_measure max_depth stack = mset (map (\<lambda>(_, depth). max_depth + 2 - depth) stack)"

lemma search_measure_pop: "(search_measure m stack, search_measure m ((d, depth) # stack)) \<in> mult less_than"
  using one_step_implies_mult [of "{#m + 2 - depth#}" "{#}" less_than "search_measure m stack"]
  by (simp add: search_measure_def)

lemma search_measure_push:
  assumes "depth \<le> m"
  shows "(search_measure m (rev (map (\<lambda>p. (p, depth + 1)) ps) @ stack), search_measure m ((d, depth) # stack)) \<in> mult less_than"
proof -
  let ?new = "mset (map (\<lambda>p. m + 2 - (depth + 1)) ps)"
  have "(search_measure m stack + ?new, search_measure m stack + {#m + 2 - depth#}) \<in> mult less_than"
    using assms by (intro one_step_implies_mult) auto
  moreover have "search_measure m (rev (map (\<lambda>p. (p, depth + 1)) ps) @ stack) = search_measure m stack + ?new"
    by (simp add: search_measure_def comp_def rev_map [symmetric])
  ultimately show ?thesis by (simp add: search_measure_def ac_simps)
qed

text \<open>The loop over the stack of directories, its top first.\<close>

function search_loop ::
    "'u host \<Rightarrow> (string \<Rightarrow> bool) \<Rightarrow> nat \<Rightarrow> (string \<times> nat) list \<Rightarrow> (string \<times> string) list \<Rightarrow> (string \<times> string) list" where
  "search_loop host re max_depth [] results = results"
| "search_loop host re max_depth ((current_dir, depth) # stack) results =
     (if max_depth < depth then search_loop host re max_depth stack results
      else case read_dir host current_dir of
             None \<Rightarrow> search_loop host re max_depth stack results
           | Some entries \<Rightarrow>
               let (stack, results) = visit_entries re depth entries stack results
               in search_loop host re max_depth stack results)"
  by pat_completeness auto

termination
proof (relation "inv_image (mult less_than) (\<lambda>(host, re, m, stack, results). search_measure m stack)", goal_cases)
  case 1
  show ?case by (intro wf_inv_image wf_mult wf_less_than)
next
  case (4 host re m d depth stack results entries x stack' results')
  then have "stack' = rev (map (\<lambda>p. (p, depth + 1)) (subdirs entries)) @ stack" by (simp add: visit_entries_split)
  then show ?case using 4(1) search_measure_push [of depth m "subdirs entries" stack d] by simp
qed (simp_all add: search_measure_pop)

definition perform_search :: "'u host \<Rightarrow> string \<Rightarrow> basket_config \<Rightarrow> (string \<times> string) list" where
  "perform_search host query config =
     (case regex host query of
        None \<Rightarrow> []
      | Some re \<Rightarrow>
          let results = filter (\<lambda>(uri, p). re uri \<or> re (name_of p)) (bc_mappings config)
          in fold (\<lambda>dir. search_loop host re (bc_max_search_depth config) [(dir, 0)]) (bc_allowed_dirs config) results)"

section \<open>The index document\<close>

definition newline :: string where "newline = [CHR 0x0A]"

text \<open>One entry of the document; the file's digest is left empty where it cannot be read.\<close>

definition list_entry :: "'u host \<Rightarrow> string \<times> string \<Rightarrow> string" where
  "list_entry host = (\<lambda>(uri, p).
     let filename = (case file_name p of Some n \<Rightarrow> n | None \<Rightarrow> ''Unknown'');
         size = (case file_len host p of Some n \<Rightarrow> n | None \<Rightarrow> 0);
         posix_date = (case modified_secs host p of Some n \<Rightarrow> n | None \<Rightarrow> 0);
         hash_hex = (case read_file (h_net host) (h_at host p) p of Inr bs \<Rightarrow> hex_encode host (sha256 host bs) | Inl _ \<Rightarrow> []);
         mime = guess_mime_type p
     in ''### '' @ filename @ newline @ newline
        @ ''- **Title**: '' @ filename @ newline
        @ ''- **Author**: Local System Proxy'' @ newline
        @ ''- **MIME**: '' @ mime @ newline
        @ ''- **Size**: '' @ digits (unat size) @ '' bytes'' @ newline
        @ ''- **POSIX Date**: '' @ digits (unat posix_date) @ newline
        @ ''- **SHA-256**: '' @ hash_hex @ newline
        @ ''- **URI**: '' @ uri @ newline @ newline)"

definition compile_list_document :: "'u host \<Rightarrow> string \<Rightarrow> (string \<times> string) list \<Rightarrow> string" where
  "compile_list_document host query results =
     ''# Bibliographic Index: '' @ query @ newline @ newline @ concat (map (list_entry host) results)"

section \<open>Operations\<close>

text \<open>A content bundle to send: its octets, their digest and its lifetime.\<close>

type_synonym raw_bundle = "bytes \<times> bytes \<times> u64"

definition diagnose :: "u64 \<Rightarrow> u8 \<Rightarrow> string \<Rightarrow> item_response" where
  "diagnose item_idx status text =
     \<lparr>ir_item_idx = item_idx, ir_coap_status = status, ir_metadata = None, ir_diagnostic = Some text\<rparr>"

definition error_status :: "fetch_error \<Rightarrow> u8" where
  "error_status e =
     (case e of
        PayloadTooLarge \<Rightarrow> REQUEST_ENTITY_TOO_LARGE
      | Forbidden _ \<Rightarrow> FORBIDDEN
      | NotFound _ \<Rightarrow> NOT_FOUND
      | OtherError _ \<Rightarrow> NOT_FOUND)"

definition size_limit :: "request_item \<Rightarrow> u64" where
  "size_limit item = (case ri_max_size item of Some n \<Rightarrow> n | None \<Rightarrow> 50 * 1024 * 1024)"

definition lifetime_of :: "request_item \<Rightarrow> u64 \<Rightarrow> u64" where
  "lifetime_of item default_lifetime = (case ri_lifetime_override item of Some n \<Rightarrow> n | None \<Rightarrow> default_lifetime)"

definition format_accepted :: "request_item \<Rightarrow> string \<Rightarrow> bool" where
  "format_accepted item mime =
     (case ri_accepted_formats item of
        None \<Rightarrow> True
      | Some formats \<Rightarrow> formats = [] \<or> list_ex (\<lambda>f. if f = ''*/*'' then True else contains mime f) formats)"

definition last_modified_of :: "'u host \<Rightarrow> basket_config \<Rightarrow> string \<Rightarrow> u64 option" where
  "last_modified_of host config uri =
     (case strip_prefix ''file://'' uri of
        Some path_str \<Rightarrow> modified_secs host path_str
      | None \<Rightarrow> (case map_of (bc_mappings config) uri of Some p \<Rightarrow> modified_secs host p | None \<Rightarrow> None))"

text \<open>\<open>interrupted\<close>: the cancellation arrives before the fetch is done.\<close>

definition fetch_and_hash_item ::
    "'u host \<Rightarrow> basket_config \<Rightarrow> bool \<Rightarrow> request_item \<Rightarrow> u64 \<Rightarrow> string + item_response \<times> (bytes \<times> bytes) option" where
  "fetch_and_hash_item host config interrupted item item_idx =
     (if interrupted then Inl ''Operation cancelled''
      else case fst (fetch_resource (h_net host) (h_at host (ri_uri item)) config (ri_uri item) (size_limit item)) of
             Inl e \<Rightarrow> Inr (diagnose item_idx (error_status e) (fetch_error_text e), None)
           | Inr (body, mime) \<Rightarrow>
               if \<not> format_accepted item mime
               then Inr (diagnose item_idx NOT_ACCEPTABLE (''MIME type '' @ mime @ '' not accepted''), None)
               else let hash = sha256 host body;
                        metadata = \<lparr>im_hash = hash, im_size = Some (vec_len body), im_mime_type = Some mime,
                                    im_uri = Some (ri_uri item), im_last_modified = last_modified_of host config (ri_uri item)\<rparr>
                    in Inr (\<lparr>ir_item_idx = item_idx, ir_coap_status = CONTENT, ir_metadata = Some metadata, ir_diagnostic = None\<rparr>,
                            Some (body, hash)))"

definition handle_get ::
    "'u host \<Rightarrow> basket_config \<Rightarrow> bool \<Rightarrow> request_item \<Rightarrow> u64 \<Rightarrow> u64 \<Rightarrow> string + item_response \<times> raw_bundle option" where
  "handle_get host config interrupted item item_idx default_lifetime =
     and_then (fetch_and_hash_item host config interrupted item item_idx) (\<lambda>(item_resp, body_hash).
       Inr (item_resp, map_option (\<lambda>(body, hash). (body, hash, lifetime_of item default_lifetime)) body_hash))"

definition handle_check :: "'u host \<Rightarrow> basket_config \<Rightarrow> bool \<Rightarrow> request_item \<Rightarrow> u64 \<Rightarrow> string + item_response" where
  "handle_check host config interrupted item item_idx =
     and_then (fetch_and_hash_item host config interrupted item item_idx) (\<lambda>(item_resp, _). Inr item_resp)"

definition SEARCH_RESULT_INLINE_LIMIT :: nat where "SEARCH_RESULT_INLINE_LIMIT = 50"

definition limit_text :: string where
  "limit_text = ''Result size exceeded '' @ digits SEARCH_RESULT_INLINE_LIMIT @ '', index document returned''"

text \<open>The index document as a response and a bundle.\<close>

definition index_response ::
    "'u host \<Rightarrow> request_item \<Rightarrow> u64 \<Rightarrow> u64 \<Rightarrow> (string \<times> string) list \<Rightarrow> string option \<Rightarrow> item_response \<times> raw_bundle" where
  "index_response host item item_idx default_lifetime results diagnostic =
     (let doc_bytes = text_bytes host (compile_list_document host (ri_uri item) results);
          hash = sha256 host doc_bytes;
          metadata = \<lparr>im_hash = hash, im_size = Some (vec_len doc_bytes), im_mime_type = Some ''text/markdown; charset=utf-8'',
                      im_uri = Some (ri_uri item), im_last_modified = Some (clock_secs host)\<rparr>
      in (\<lparr>ir_item_idx = item_idx, ir_coap_status = CONTENT, ir_metadata = Some metadata, ir_diagnostic = diagnostic\<rparr>,
          (doc_bytes, hash, lifetime_of item default_lifetime)))"

text \<open>The loop over the results of a small search; \<open>cancelled k\<close> says whether the cancellation is seen before the
  \<open>k\<close>-th of them.\<close>

fun inline_results ::
    "'u host \<Rightarrow> (nat \<Rightarrow> bool) \<Rightarrow> request_item \<Rightarrow> u64 \<Rightarrow> u64 \<Rightarrow> nat \<Rightarrow> (string \<times> string) list \<Rightarrow> item_response list \<times> raw_bundle list" where
  "inline_results host cancelled item item_idx default_lifetime k [] = ([], [])"
| "inline_results host cancelled item item_idx default_lifetime k ((uri, p) # results) =
     (if cancelled k then ([], [])
      else let rest = inline_results host cancelled item item_idx default_lifetime (k + 1) results
           in case read_file (h_net host) (h_at host p) p of
                Inl _ \<Rightarrow> rest
              | Inr bs \<Rightarrow>
                  if size_limit item < vec_len bs
                  then (diagnose item_idx REQUEST_ENTITY_TOO_LARGE (''Resource '' @ uri @ '' exceeds max size limit'') # fst rest, snd rest)
                  else let hash = sha256 host bs;
                           already_owned = (case ri_have_hashes item of Some have \<Rightarrow> list_ex (\<lambda>h. prefix h hash) have | None \<Rightarrow> False);
                           metadata = \<lparr>im_hash = hash, im_size = Some (vec_len bs), im_mime_type = Some (guess_mime_type p),
                                       im_uri = Some uri, im_last_modified = modified_secs host p\<rparr>;
                           resp = \<lparr>ir_item_idx = item_idx, ir_coap_status = CONTENT, ir_metadata = Some metadata, ir_diagnostic = None\<rparr>
                       in (resp # fst rest,
                           if already_owned then snd rest else (bs, hash, lifetime_of item default_lifetime) # snd rest))"

definition handle_search ::
    "'u host \<Rightarrow> basket_config \<Rightarrow> (nat \<Rightarrow> bool) \<Rightarrow> request_item \<Rightarrow> u64 \<Rightarrow> u64 \<Rightarrow> item_response list \<times> raw_bundle list" where
  "handle_search host config cancelled item item_idx default_lifetime =
     (let search_results = perform_search host (ri_uri item) config;
          m = length search_results
      in if m = 0 then ([diagnose item_idx NOT_FOUND ''No matching resources found''], [])
         else if SEARCH_RESULT_INLINE_LIMIT < m
         then let (resp, raw) = index_response host item item_idx default_lifetime search_results
                    (Some limit_text)
              in ([resp], [raw])
         else inline_results host cancelled item item_idx default_lifetime 0 search_results)"

definition handle_list ::
    "'u host \<Rightarrow> basket_config \<Rightarrow> request_item \<Rightarrow> u64 \<Rightarrow> u64 \<Rightarrow> item_response \<times> raw_bundle option" where
  "handle_list host config item item_idx default_lifetime =
     (let search_results = perform_search host (ri_uri item) config
      in if search_results = [] then (diagnose item_idx NOT_FOUND ''No matching resources found'', None)
         else let (resp, raw) = index_response host item item_idx default_lifetime search_results None in (resp, Some raw))"

section \<open>Requests\<close>

text \<open>The registry of running requests: the task that registered an identifier last, and the tasks whose
  cancellation flag is set.\<close>

record tasks =
  ta_active :: "(string \<times> nat) list"
  ta_cancelled :: "nat list"

definition register_task :: "string \<Rightarrow> nat \<Rightarrow> tasks \<Rightarrow> tasks" where
  "register_task req_id task t = t\<lparr>ta_active := (req_id, task) # filter (\<lambda>(r, _). r \<noteq> req_id) (ta_active t)\<rparr>"

definition remove_task :: "string \<Rightarrow> tasks \<Rightarrow> tasks" where
  "remove_task req_id t = t\<lparr>ta_active := filter (\<lambda>(r, _). r \<noteq> req_id) (ta_active t)\<rparr>"

text \<open>An operation 3: the named request is removed and its flag set.\<close>

definition cancel_task :: "string \<Rightarrow> tasks \<Rightarrow> bool \<times> tasks" where
  "cancel_task req_id t =
     (case map_of (ta_active t) req_id of
        Some task \<Rightarrow> (True, (remove_task req_id t)\<lparr>ta_cancelled := task # ta_cancelled t\<rparr>)
      | None \<Rightarrow> (False, t))"

text \<open>What other requests do meanwhile is the environment: \<open>seen i\<close>, the flag is set when item \<open>i\<close> starts;
  \<open>cut i\<close>, it is set while item \<open>i\<close> is fetched; \<open>stop i k\<close>, it is set before the \<open>k\<close>-th result of item \<open>i\<close>.\<close>

record environment =
  seen :: "nat \<Rightarrow> bool"
  cut :: "nat \<Rightarrow> bool"
  stop :: "nat \<Rightarrow> nat \<Rightarrow> bool"

fun or_internal_error :: "u64 \<Rightarrow> string + item_response \<times> raw_bundle option \<Rightarrow> item_response list \<times> raw_bundle list" where
  "or_internal_error item_idx (Inl e) = ([diagnose item_idx INTERNAL_SERVER_ERROR e], [])"
| "or_internal_error item_idx (Inr (resp, raw)) = ([resp], case raw of Some r \<Rightarrow> [r] | None \<Rightarrow> [])"

definition process_item ::
    "'u host \<Rightarrow> basket_config \<Rightarrow> environment \<Rightarrow> u64 \<Rightarrow> nat \<Rightarrow> request_item \<Rightarrow> tasks
     \<Rightarrow> item_response list \<times> raw_bundle list \<times> tasks" where
  "process_item host config env default_lifetime idx item t =
     (let item_idx = word_of_nat idx
      in if ri_op item = 0
         then let (resps, raws) = or_internal_error item_idx (handle_get host config (cut env idx) item item_idx default_lifetime)
              in (resps, raws, t)
         else if ri_op item = 1
         then let (resps, raws) = or_internal_error item_idx
                    (and_then (handle_check host config (cut env idx) item item_idx) (\<lambda>resp. Inr (resp, None)))
              in (resps, raws, t)
         else if ri_op item = 2
         then let (resps, raws) = handle_search host config (stop env idx) item item_idx default_lifetime in (resps, raws, t)
         else if ri_op item = 3
         then let (success, t) = cancel_task (ri_uri item) t;
                  status = (if success then CHANGED else NOT_FOUND)
              in ([diagnose item_idx status (''Request '' @ ri_uri item @ '' successfully cancelled'')], [], t)
         else if ri_op item = 4
         then let (resp, raw) = handle_list host config item item_idx default_lifetime
              in ([resp], case raw of Some r \<Rightarrow> [r] | None \<Rightarrow> [], t)
         else ([diagnose item_idx NOT_FOUND (''Unsupported operation: '' @ digits (unat (ri_op item)))], [], t))"

text \<open>The loop over the items of the request of a task.\<close>

fun process_items ::
    "'u host \<Rightarrow> basket_config \<Rightarrow> environment \<Rightarrow> nat \<Rightarrow> u64 \<Rightarrow> nat \<Rightarrow> request_item list \<Rightarrow> tasks
     \<Rightarrow> item_response list \<times> raw_bundle list \<times> tasks" where
  "process_items host config env task default_lifetime idx [] t = ([], [], t)"
| "process_items host config env task default_lifetime idx (item # items) t =
     (if seen env idx \<or> task \<in> set (ta_cancelled t) then ([], [], t)
      else let (resps, raws, t) = process_item host config env default_lifetime idx item t;
               (resps', raws', t) = process_items host config env task default_lifetime (idx + 1) items t
           in (resps @ resps', raws @ raws', t))"

text \<open>What is sent: the response in its envelope, then the content bundles, each with its lifetime in seconds.\<close>

datatype payload = Control cbor_item | Content bytes

definition process_request ::
    "'u host \<Rightarrow> cbor_lib \<Rightarrow> basket_config \<Rightarrow> (string \<Rightarrow> 'e option) \<Rightarrow> environment \<Rightarrow> nat \<Rightarrow> 'e \<Rightarrow> cbor_item \<Rightarrow> tasks
     \<Rightarrow> ('e \<times> payload \<times> u64) list \<times> tasks" where
  "process_request host lib config parse_eid env task source payload_item t =
     (case request_from_cbor lib payload_item of
        Inl _ \<Rightarrow> ([], t)
      | Inr (request, _) \<Rightarrow>
          let reply_dest = (case bq_reply_to request of
                              Some dest_str \<Rightarrow> (case parse_eid dest_str of Some eid \<Rightarrow> eid | None \<Rightarrow> source)
                            | None \<Rightarrow> source);
              default_lifetime = (case bq_default_lifetime request of Some n \<Rightarrow> n | None \<Rightarrow> 3600);
              t = register_task (bq_req_id request) task t;
              (item_responses, raw_bundles, t) = process_items host config env task default_lifetime 0 (bq_items request) t;
              t = remove_task (bq_req_id request) t;
              response = \<lparr>bp_experiment_tag = bq_experiment_tag request, bp_version = 1, bp_req_id = bq_req_id request,
                          bp_items = item_responses\<rparr>
          in ((reply_dest, Control (with_tag 44444 (response_to_cbor response)), default_lifetime)
                # map (\<lambda>(body, hash, lifetime). (reply_dest, Content body, lifetime)) raw_bundles, t))"

section \<open>What a search finds\<close>

text \<open>Directories below a directory, with their depth, through subdirectories that are not skipped.\<close>

inductive reaches :: "'u host \<Rightarrow> string \<Rightarrow> nat \<Rightarrow> string \<Rightarrow> bool" for host dir where
  here: "reaches host dir 0 dir"
| down: "reaches host dir n d \<Longrightarrow> read_dir host d = Some entries \<Longrightarrow> p \<in> set (subdirs entries) \<Longrightarrow> reaches host dir (Suc n) p"

definition found :: "'u host \<Rightarrow> (string \<Rightarrow> bool) \<Rightarrow> nat \<Rightarrow> nat \<Rightarrow> string \<Rightarrow> string \<Rightarrow> bool" where
  "found host re max_depth k dir p \<longleftrightarrow>
     (\<exists>n d entries. reaches host dir n d \<and> k + n \<le> max_depth \<and> read_dir host d = Some entries \<and> p \<in> set (hits re entries))"

lemma reaches_step:
  "reaches host p n d \<Longrightarrow> read_dir host dir = Some entries \<Longrightarrow> p \<in> set (subdirs entries) \<Longrightarrow> reaches host dir (Suc n) d"
  by (induction rule: reaches.induct) (auto intro: reaches.intros)

lemma reaches_cases:
  "reaches host dir n d \<Longrightarrow> n = 0 \<and> d = dir
    \<or> (\<exists>m entries p. n = Suc m \<and> read_dir host dir = Some entries \<and> p \<in> set (subdirs entries) \<and> reaches host p m d)"
proof (induction rule: reaches.induct)
  case (down n d entries p)
  from down.IH show ?case
  proof
    assume "n = 0 \<and> d = dir"
    then show ?thesis using down.hyps(2,3) by (auto intro: reaches.here)
  next
    assume "\<exists>m entries p. n = Suc m \<and> read_dir host dir = Some entries \<and> p \<in> set (subdirs entries) \<and> reaches host p m d"
    then show ?thesis using down.hyps(2,3) by (blast intro: reaches.down)
  qed
qed simp

lemma found_unfold:
  "found host re m k dir p \<longleftrightarrow> k \<le> m \<and>
     (\<exists>entries. read_dir host dir = Some entries \<and> (p \<in> set (hits re entries) \<or> (\<exists>d\<in>set (subdirs entries). found host re m (k + 1) d p)))"
    (is "?l \<longleftrightarrow> ?r")
proof
  assume ?l
  then obtain n d entries where f: "reaches host dir n d" "k + n \<le> m" "read_dir host d = Some entries" "p \<in> set (hits re entries)"
    by (auto simp: found_def)
  from reaches_cases [OF f(1)] show ?r
  proof
    assume "n = 0 \<and> d = dir"
    then show ?r using f by auto
  next
    assume "\<exists>j entries p. n = Suc j \<and> read_dir host dir = Some entries \<and> p \<in> set (subdirs entries) \<and> reaches host p j d"
    then obtain j es q where "n = Suc j" "read_dir host dir = Some es" "q \<in> set (subdirs es)" "reaches host q j d" by blast
    moreover from this have "found host re m (k + 1) q p"
      unfolding found_def using f by (intro exI [of _ j] exI [of _ d] exI [of _ entries]) simp
    ultimately show ?r using f(2) by auto
  qed
next
  assume ?r
  then obtain es where es: "k \<le> m" "read_dir host dir = Some es"
    and "p \<in> set (hits re es) \<or> (\<exists>d\<in>set (subdirs es). found host re m (k + 1) d p)" by blast
  from this(3) show ?l
  proof
    assume "p \<in> set (hits re es)"
    then show ?l unfolding found_def using es reaches.here [of host dir] by (intro exI [of _ 0] exI [of _ dir] exI [of _ es]) simp
  next
    assume "\<exists>d\<in>set (subdirs es). found host re m (k + 1) d p"
    then obtain q n d entries where q: "q \<in> set (subdirs es)" "reaches host q n d" "k + 1 + n \<le> m"
      "read_dir host d = Some entries" "p \<in> set (hits re entries)" unfolding found_def by blast
    have "reaches host dir (Suc n) d" by (rule reaches_step [OF q(2) es(2) q(1)])
    then show ?l unfolding found_def using q by (intro exI [of _ "Suc n"] exI [of _ d] exI [of _ entries]) simp
  qed
qed

text \<open>What a search may add to its results, and what it must.\<close>

definition extends_results :: "(string \<times> string) list \<Rightarrow> (string \<times> string) list \<Rightarrow> (string \<Rightarrow> bool) \<Rightarrow> bool" where
  "extends_results old new F \<longleftrightarrow> set old \<subseteq> set new
     \<and> (\<forall>(uri, p)\<in>set new. (uri, p) \<in> set old \<or> uri = file_uri p \<and> F p)
     \<and> (\<forall>p. F p \<longrightarrow> file_uri p \<in> fst ` set new)
     \<and> (distinct (map fst old) \<longrightarrow> distinct (map fst new))"

lemma extends_results_refl: "extends_results old old (\<lambda>_. False)"
  by (auto simp: extends_results_def)

lemma extends_results_trans:
  assumes "extends_results a b F" "extends_results b c G"
  shows "extends_results a c (\<lambda>p. F p \<or> G p)"
proof -
  have "fst ` set b \<subseteq> fst ` set c" using assms(2) by (auto simp: extends_results_def)
  then show ?thesis using assms unfolding extends_results_def by blast
qed

lemma extends_results_push: "extends_results old (push_result (file_uri p) p old) (\<lambda>q. q = p)"
proof (cases "list_ex (\<lambda>(u, _). u = file_uri p) old")
  case True
  then have "file_uri p \<in> fst ` set old" by (auto simp: list_ex_iff) force
  then show ?thesis using True by (auto simp: extends_results_def push_result_def)
next
  case False
  then have "file_uri p \<notin> fst ` set old" by (auto simp: list_ex_iff)
  then show ?thesis using False by (auto simp: extends_results_def push_result_def)
qed

lemma extends_results_hits: "extends_results old (fold (\<lambda>p. push_result (file_uri p) p) ps old) (\<lambda>q. q \<in> set ps)"
proof (induction ps arbitrary: old)
  case (Cons p ps)
  from extends_results_trans [OF extends_results_push Cons.IH] show ?case by simp
qed (simp add: extends_results_refl)

lemma search_loop_extends:
  "extends_results results (search_loop host re m stack results) (\<lambda>p. \<exists>(d, k)\<in>set stack. found host re m k d p)"
proof (induction host re m stack results rule: search_loop.induct)
  case (1 host re m results)
  then show ?case by (simp add: extends_results_refl)
next
  case (2 host re m dir depth stack results)
  note unfold = found_unfold [of host re m depth dir]
  show ?case
  proof (cases "m < depth \<or> read_dir host dir = None")
    case True
    then have "\<not> found host re m depth dir p" for p by (auto simp: unfold)
    then show ?thesis using True "2.IH"(1,2) by (cases "m < depth") simp_all
  next
    case False
    then obtain es where es: "\<not> m < depth" "read_dir host dir = Some es" by auto
    let ?stack = "rev (map (\<lambda>p. (p, depth + 1)) (subdirs es)) @ stack"
    let ?mid = "fold (\<lambda>p. push_result (file_uri p) p) (hits re es) results"
    have ih: "extends_results ?mid (search_loop host re m ?stack ?mid) (\<lambda>p. \<exists>(d, k)\<in>set ?stack. found host re m k d p)"
      by (rule "2.IH"(3) [OF es _ refl]) (simp add: visit_entries_split)
    have "(\<lambda>p. p \<in> set (hits re es) \<or> (\<exists>(d, k)\<in>set ?stack. found host re m k d p))
        = (\<lambda>p. \<exists>(d, k)\<in>set ((dir, depth) # stack). found host re m k d p)"
      using es by (auto simp: unfold fun_eq_iff)
    with extends_results_trans [OF extends_results_hits ih] show ?thesis
      using es by (simp add: visit_entries_split)
  qed
qed

lemma search_dirs_extends:
  "extends_results results (fold (\<lambda>dir. search_loop host re m [(dir, 0)]) dirs results) (\<lambda>p. \<exists>dir\<in>set dirs. found host re m 0 dir p)"
proof (induction dirs arbitrary: results)
  case (Cons dir dirs)
  from extends_results_trans [OF search_loop_extends [of results host re m "[(dir, 0)]"] Cons.IH] show ?case by simp
qed (simp add: extends_results_refl)

text \<open>C19: a search is confined and complete.  Its results are the mappings that match and files that match in directories
  at most as deep as configured below an allowed directory, entered through no hidden or skipped directory;
  every such file is among them under its \<^verbatim>\<open>file://\<close> URI, and no URI twice.\<close>

theorem search_confined_complete:
  assumes "regex host query = Some re" and "distinct (map fst (bc_mappings config))"
  defines "results \<equiv> perform_search host query config"
    and "F \<equiv> \<lambda>p. \<exists>dir\<in>set (bc_allowed_dirs config). \<exists>n d entries. reaches host dir n d \<and> n \<le> bc_max_search_depth config
           \<and> read_dir host d = Some entries \<and> (p, RegularFile) \<in> set entries \<and> re (name_of p)"
  shows "(\<forall>(uri, p)\<in>set results. (uri, p) \<in> set (bc_mappings config) \<and> (re uri \<or> re (name_of p)) \<or> uri = file_uri p \<and> F p)
    \<and> (\<forall>(uri, p)\<in>set (bc_mappings config). re uri \<or> re (name_of p) \<longrightarrow> (uri, p) \<in> set results)
    \<and> (\<forall>p. F p \<longrightarrow> file_uri p \<in> fst ` set results) \<and> distinct (map fst results)"
proof -
  let ?maps = "filter (\<lambda>(uri, p). re uri \<or> re (name_of p)) (bc_mappings config)"
  have F: "F = (\<lambda>p. \<exists>dir\<in>set (bc_allowed_dirs config). found host re (bc_max_search_depth config) 0 dir p)"
    unfolding F_def found_def hits_def by force
  have "distinct (map fst ?maps)" using assms(2) by (rule distinct_map_filter)
  moreover have "extends_results ?maps results F"
    using search_dirs_extends [of ?maps host re "bc_max_search_depth config" "bc_allowed_dirs config"]
    by (simp add: results_def perform_search_def assms(1) F)
  ultimately show ?thesis unfolding extends_results_def by auto
qed

definition sample_host :: "string host" where
  "sample_host = \<lparr>h_net = sample_net, h_at = (\<lambda>_. 0), regex = (\<lambda>q. Some (\<lambda>s. prefix q s)),
     read_dir = (\<lambda>d. if d = ''/d'' then Some [(''/d/sub'', Directory), (''/d/ab'', RegularFile)] else Some [(''/d/sub/ac'', RegularFile)]),
     sha256 = (\<lambda>bs. [ucast (vec_len bs)]), hex_encode = (\<lambda>_. ''00''), file_len = (\<lambda>_. Some 2), modified_secs = (\<lambda>_. None),
     clock_secs = 5, text_bytes = map (\<lambda>c. word_of_nat (of_char c))\<rparr>"

definition sample_config :: basket_config where
  "sample_config = default_basket_config\<lparr>bc_allowed_dirs := [''/d''], bc_mappings := [(''urn:a'', ''/m'')]\<rparr>"

theorem search_confined_complete_witness:
  "distinct (map fst (perform_search sample_host ''a'' sample_config))
    \<and> file_uri ''/d/ab'' \<in> fst ` set (perform_search sample_host ''a'' sample_config)"
proof -
  have re: "regex sample_host ''a'' = Some (prefix ''a'')" by (simp add: sample_host_def)
  have "distinct (map fst (bc_mappings sample_config))" by (simp add: sample_config_def)
  note all = search_confined_complete [OF re this]
  have "\<exists>dir\<in>set (bc_allowed_dirs sample_config). \<exists>n d entries. reaches sample_host dir n d \<and> n \<le> bc_max_search_depth sample_config
      \<and> read_dir sample_host d = Some entries \<and> (''/d/ab'', RegularFile) \<in> set entries \<and> prefix ''a'' (name_of ''/d/ab'')"
    using reaches.here [of sample_host "''/d''"]
    by (intro bexI [of _ "''/d''"] exI [of _ 0] exI [of _ "''/d''"])
      (simp_all add: sample_host_def sample_config_def default_basket_config_def name_of_def file_name_def components_def Let_def)
  with all show ?thesis by blast
qed

section \<open>What a request gets\<close>

text \<open>
  What a bundle may carry: what fetching the item's URI gave, within its size limit; of a small search a file it found, within
  the limit and not one the client has; of a large search or a list the index document of what was found,
  for which the code has no limit.
\<close>

definition index_document :: "'u host \<Rightarrow> basket_config \<Rightarrow> request_item \<Rightarrow> bytes" where
  "index_document host config item =
     text_bytes host (compile_list_document host (ri_uri item) (perform_search host (ri_uri item) config))"

definition wanted :: "request_item \<Rightarrow> bytes \<Rightarrow> bool" where
  "wanted item hash \<longleftrightarrow> (case ri_have_hashes item of Some have \<Rightarrow> \<not> list_ex (\<lambda>h. prefix h hash) have | None \<Rightarrow> True)"

definition found_content :: "'u host \<Rightarrow> request_item \<Rightarrow> (string \<times> string) list \<Rightarrow> bytes \<Rightarrow> bool" where
  "found_content host item results body \<longleftrightarrow>
     (\<exists>(uri, p)\<in>set results. read_file (h_net host) (h_at host p) p = Inr body)
     \<and> vec_len body \<le> size_limit item \<and> wanted item (sha256 host body)"

definition content_of :: "'u host \<Rightarrow> basket_config \<Rightarrow> request_item \<Rightarrow> bytes \<Rightarrow> bool" where
  "content_of host config item body \<longleftrightarrow>
     (if ri_op item = 0
      then (\<exists>mime. fst (fetch_resource (h_net host) (h_at host (ri_uri item)) config (ri_uri item) (size_limit item)) = Inr (body, mime))
           \<and> vec_len body \<le> size_limit item
      else if ri_op item = 2 \<and> length (perform_search host (ri_uri item) config) \<le> SEARCH_RESULT_INLINE_LIMIT
      then found_content host item (perform_search host (ri_uri item) config) body
      else ri_op item \<in> {2, 4} \<and> body = index_document host config item)"

text \<open>A content bundle is announced by a response with its digest and size.\<close>

definition listed :: "'u host \<Rightarrow> u64 \<Rightarrow> nat \<Rightarrow> request_item \<Rightarrow> item_response list \<Rightarrow> raw_bundle \<Rightarrow> bool" where
  "listed host default_lifetime idx item resps raw \<longleftrightarrow>
     (case raw of (body, hash, lifetime) \<Rightarrow>
        hash = sha256 host body \<and> lifetime = lifetime_of item default_lifetime
        \<and> (\<exists>r\<in>set resps. ir_item_idx r = word_of_nat idx \<and> ir_coap_status r = CONTENT
             \<and> (\<exists>m. ir_metadata r = Some m \<and> im_hash m = hash \<and> im_size m = Some (vec_len body))))"

definition announced :: "'u host \<Rightarrow> basket_config \<Rightarrow> u64 \<Rightarrow> nat \<Rightarrow> request_item \<Rightarrow> item_response list \<Rightarrow> raw_bundle \<Rightarrow> bool" where
  "announced host config default_lifetime idx item resps raw \<longleftrightarrow>
     listed host default_lifetime idx item resps raw \<and> content_of host config item (fst raw)"

lemma listed_mono: "listed host dl idx item resps raw \<Longrightarrow> set resps \<subseteq> set resps' \<Longrightarrow> listed host dl idx item resps' raw"
  by (auto simp: listed_def)

lemma announced_mono: "announced host config dl idx item resps raw \<Longrightarrow> set resps \<subseteq> set resps' \<Longrightarrow> announced host config dl idx item resps' raw"
  unfolding announced_def using listed_mono by blast

lemma fetch_item_spec:
  assumes "fetch_and_hash_item host config interrupted item idx = Inr (resp, body_hash)"
  shows "ir_item_idx resp = idx \<and> (case body_hash of None \<Rightarrow> True | Some (body, hash) \<Rightarrow>
    hash = sha256 host body \<and> vec_len body \<le> size_limit item
    \<and> (\<exists>mime. fst (fetch_resource (h_net host) (h_at host (ri_uri item)) config (ri_uri item) (size_limit item)) = Inr (body, mime)) \<and> ir_coap_status resp = CONTENT
    \<and> (\<exists>m. ir_metadata resp = Some m \<and> im_hash m = hash \<and> im_size m = Some (vec_len body)))"
proof -
  obtain r accesses where r: "fetch_resource (h_net host) (h_at host (ri_uri item)) config (ri_uri item) (size_limit item) = (r, accesses)" by fastforce
  have "vec_len body \<le> size_limit item" if "r = Inr (body, mime)" for body mime
    using fetch_loop_ok [of 0 "h_net host" "h_at host (ri_uri item)" config "size_limit item" "ri_uri item" r accesses] r that by (simp add: fetch_resource_def)
  then show ?thesis
    using assms by (auto simp: fetch_and_hash_item_def r diagnose_def Let_def split: if_splits sum.splits prod.splits)
qed

lemma index_response_spec:
  "index_response host item idx dl results diagnostic = (resp, raw) \<Longrightarrow> ir_item_idx resp = idx \<and> ir_coap_status resp = CONTENT
    \<and> (case raw of (body, hash, lifetime) \<Rightarrow> hash = sha256 host body \<and> lifetime = lifetime_of item dl
         \<and> (\<exists>m. ir_metadata resp = Some m \<and> im_hash m = hash \<and> im_size m = Some (vec_len body)))"
  by (auto simp: index_response_def Let_def)

lemma index_response_body:
  "index_response host item idx dl results diagnostic = (resp, raw)
    \<Longrightarrow> fst raw = text_bytes host (compile_list_document host (ri_uri item) results)"
  by (auto simp: index_response_def Let_def)

lemma listed_inline:
  "listed host dl idx item
    (\<lparr>ir_item_idx = word_of_nat idx, ir_coap_status = CONTENT,
      ir_metadata = Some \<lparr>im_hash = sha256 host bs, im_size = Some (vec_len bs), im_mime_type = mime, im_uri = uri, im_last_modified = lm\<rparr>,
      ir_diagnostic = None\<rparr> # resps) (bs, sha256 host bs, lifetime_of item dl)"
  by (simp add: listed_def)

lemma found_content_more: "found_content host item results body \<Longrightarrow> found_content host item (r # results) body"
  by (auto simp: found_content_def)

lemma inline_results_spec:
  "(\<forall>r\<in>set (fst (inline_results host cancelled item (word_of_nat idx) dl k results)). ir_item_idx r = word_of_nat idx)
   \<and> (\<forall>raw\<in>set (snd (inline_results host cancelled item (word_of_nat idx) dl k results)).
        listed host dl idx item (fst (inline_results host cancelled item (word_of_nat idx) dl k results)) raw
        \<and> found_content host item results (fst raw))"
proof (induction results arbitrary: k)
  case (Cons result results)
  obtain uri p where result: "result = (uri, p)" by fastforce
  note ih = Cons.IH [of "k + 1"]
  show ?case
  proof (cases "cancelled k")
    case False
    show ?thesis
    proof (cases "read_file (h_net host) (h_at host p) p")
      case (Inl e)
      then show ?thesis using ih False by (simp add: result found_content_more)
    next
      case (Inr bs)
      have "found_content host item ((uri, p) # results) bs" if "\<not> size_limit item < vec_len bs" "wanted item (sha256 host bs)"
        using Inr that by (auto simp: found_content_def not_less)
      then show ?thesis
        using ih False Inr
        by (auto simp: result Let_def diagnose_def listed_inline wanted_def intro: listed_mono found_content_more split: option.splits)
    qed
  qed (simp add: result)
qed simp

lemma process_item_spec:
  assumes "process_item host config env dl idx item t = (resps, raws, t')"
  shows "(\<forall>r\<in>set resps. ir_item_idx r = word_of_nat idx) \<and> (ri_op item \<noteq> 2 \<longrightarrow> length resps = 1)
    \<and> (\<forall>raw\<in>set raws. announced host config dl idx item resps raw) \<and> set (ta_cancelled t) \<subseteq> set (ta_cancelled t')"
proof -
  let ?idx = "word_of_nat idx :: u64"
  consider "ri_op item = 0" | "ri_op item = 1" | "ri_op item = 2" | "ri_op item = 3" | "ri_op item = 4"
    | "ri_op item \<notin> {0, 1, 2, 3, 4}" by blast
  then show ?thesis
  proof cases
    case 1
    then show ?thesis
      using assms
      by (cases "fetch_and_hash_item host config (cut env idx) item ?idx")
        (auto simp: process_item_def handle_get_def announced_def listed_def content_of_def diagnose_def split: option.splits dest!: fetch_item_spec)
  next
    case 2
    then show ?thesis
      using assms
      by (cases "fetch_and_hash_item host config (cut env idx) item ?idx")
        (auto simp: process_item_def handle_check_def diagnose_def dest!: fetch_item_spec)
  next
    case 3
    let ?found = "perform_search host (ri_uri item) config"
    obtain resp raw where index: "index_response host item ?idx dl ?found (Some limit_text) = (resp, raw)" by (metis surj_pair)
    note inline = inline_results_spec [of host "stop env idx" item idx dl 0 ?found]
    consider "?found = []" | "?found \<noteq> []" "SEARCH_RESULT_INLINE_LIMIT < length ?found"
      | "?found \<noteq> []" "length ?found \<le> SEARCH_RESULT_INLINE_LIMIT" by linarith
    then show ?thesis
    proof cases
      case 1
      then show ?thesis using assms 3 by (auto simp: process_item_def handle_search_def diagnose_def)
    next
      case 2
      then have "resps = [resp]" "raws = [raw]" "t' = t"
        using assms 3 by (auto simp: process_item_def handle_search_def index)
      then show ?thesis
        using 2 3 index_response_spec [OF index] index_response_body [OF index]
        by (auto simp: announced_def listed_def content_of_def index_document_def)
    next
      case c: 3
      then have "(resps, raws) = inline_results host (stop env idx) item ?idx dl 0 ?found" "t' = t"
        using assms 3 by (auto simp: process_item_def handle_search_def not_less split: prod.splits)
      then have "resps = fst (inline_results host (stop env idx) item ?idx dl 0 ?found)" "t' = t"
        "raws = snd (inline_results host (stop env idx) item ?idx dl 0 ?found)" by (metis fst_conv snd_conv)+
      then show ?thesis using inline c 3 by (simp add: announced_def content_of_def)
    qed
  next
    case 4
    then show ?thesis
      using assms by (auto simp: process_item_def cancel_task_def remove_task_def diagnose_def split: option.splits)
  next
    case 5
    obtain resp raw where index: "index_response host item ?idx dl (perform_search host (ri_uri item) config) None = (resp, raw)" by (metis surj_pair)
    show ?thesis
      using assms 5 index_response_spec [OF index] index_response_body [OF index]
      by (auto simp: process_item_def handle_list_def Let_def diagnose_def index announced_def listed_def content_of_def index_document_def
          split: if_splits)
  next
    case 6
    then show ?thesis using assms by (auto simp: process_item_def diagnose_def)
  qed
qed

lemma process_items_spec:
  assumes "process_items host config env task dl idx items t = (resps, raws, t')"
  shows "set (ta_cancelled t) \<subseteq> set (ta_cancelled t')
    \<and> (\<forall>r\<in>set resps. \<exists>i<length items. ir_item_idx r = word_of_nat (idx + i))
    \<and> (\<forall>raw\<in>set raws. \<exists>i<length items. announced host config dl (idx + i) (items ! i) resps raw)
    \<and> (idx + length items \<le> 2 ^ 64 \<and> (\<forall>i. \<not> seen env i) \<and> task \<notin> set (ta_cancelled t')
        \<longrightarrow> (\<forall>i<length items. ri_op (items ! i) \<noteq> 2 \<longrightarrow> length (filter (\<lambda>r. ir_item_idx r = word_of_nat (idx + i)) resps) = 1))"
  using assms
proof (induction items arbitrary: idx t resps raws)
  case Nil
  then show ?case by simp
next
  case (Cons item items)
  show ?case
  proof (cases "seen env idx \<or> task \<in> set (ta_cancelled t)")
    case True
    then show ?thesis using Cons.prems by auto
  next
    case False
    obtain xs as t1 where item: "process_item host config env dl idx item t = (xs, as, t1)" by (metis prod_cases3)
    obtain ys bs where rest: "process_items host config env task dl (idx + 1) items t1 = (ys, bs, t')"
      and out: "resps = xs @ ys" "raws = as @ bs"
      using Cons.prems False by (auto simp: item split: prod.splits)
    note one = process_item_spec [OF item]
    note ih = Cons.IH [OF rest]
    have ih_index: "\<And>r. r \<in> set ys \<Longrightarrow> \<exists>i<length items. ir_item_idx r = word_of_nat (idx + 1 + i)"
      and ih_content: "\<And>raw. raw \<in> set bs \<Longrightarrow> \<exists>i<length items. announced host config dl (idx + 1 + i) (items ! i) ys raw"
      using ih by blast+
    have index: "\<exists>i<length (item # items). ir_item_idx r = word_of_nat (idx + i)" if "r \<in> set resps" for r
    proof (cases "r \<in> set xs")
      case True
      then show ?thesis using one by (intro exI [of _ 0]) simp
    next
      case False
      then have "r \<in> set ys" using that out by simp
      from ih_index [OF this] obtain i where "i < length items" "ir_item_idx r = word_of_nat (idx + 1 + i)" by blast
      then show ?thesis by (intro exI [of _ "Suc i"]) (simp add: algebra_simps)
    qed
    have content: "\<exists>i<length (item # items). announced host config dl (idx + i) ((item # items) ! i) resps raw" if "raw \<in> set raws" for raw
    proof (cases "raw \<in> set as")
      case True
      then have "announced host config dl idx item xs raw" using one by blast
      then show ?thesis by (intro exI [of _ 0]) (auto simp: out intro: announced_mono)
    next
      case False
      then have "raw \<in> set bs" using that out by simp
      from ih_content [OF this] obtain i where "i < length items" "announced host config dl (idx + 1 + i) (items ! i) ys raw" by blast
      then show ?thesis by (intro exI [of _ "Suc i"]) (auto simp: out intro: announced_mono)
    qed
    have count: "length (filter (\<lambda>r. ir_item_idx r = word_of_nat (idx + i)) resps) = 1"
      if bound: "idx + length (item # items) \<le> 2 ^ 64" and alive: "\<forall>i. \<not> seen env i" "task \<notin> set (ta_cancelled t')"
        and i: "i < length (item # items)" "ri_op ((item # items) ! i) \<noteq> 2" for i
    proof -
      have inj: "(word_of_nat (idx + m) :: u64) \<noteq> word_of_nat (idx + k)" if "m \<noteq> k" "m < length (item # items)" "k < length (item # items)" for m k
        using that bound by (simp add: word_unat_eq_iff unat_of_nat take_bit_eq_mod del: of_nat_add)
      show ?thesis
      proof (cases i)
        case 0
        have "\<forall>r\<in>set ys. ir_item_idx r \<noteq> word_of_nat idx"
        proof
          fix r assume "r \<in> set ys"
          then obtain j where "j < length items" "ir_item_idx r = word_of_nat (idx + 1 + j)" using ih_index by blast
          then show "ir_item_idx r \<noteq> word_of_nat idx" using inj [of "Suc j" 0] by simp
        qed
        then have none: "filter (\<lambda>r. ir_item_idx r = word_of_nat idx) ys = []" by (simp add: filter_empty_conv)
        have "filter (\<lambda>r. ir_item_idx r = word_of_nat idx) xs = xs" using one by (simp add: filter_id_conv)
        then show ?thesis using one i(2) 0 none by (simp add: out)
      next
        case (Suc j)
        have "\<forall>r\<in>set xs. ir_item_idx r \<noteq> word_of_nat (idx + i)" using one inj [of 0 i] i(1) Suc by auto
        then have none: "filter (\<lambda>r. ir_item_idx r = word_of_nat (idx + i)) xs = []" by (simp add: filter_empty_conv)
        have "length (filter (\<lambda>r. ir_item_idx r = word_of_nat (idx + 1 + j)) ys) = 1"
          using ih bound alive i Suc by auto
        then show ?thesis using none by (simp add: out Suc)
      qed
    qed
    have "set (ta_cancelled t) \<subseteq> set (ta_cancelled t')" using one ih by blast
    then show ?thesis using index content count by blast
  qed
qed

lemma request_answers:
  assumes "lib_reads lib" and "process_request host lib config parse_eid env task source (with_tag 44444 (request_to_cbor request)) t = (sent, t')"
  defines "dest \<equiv> (case bq_reply_to request of Some d \<Rightarrow> (case parse_eid d of Some eid \<Rightarrow> eid | None \<Rightarrow> source) | None \<Rightarrow> source)"
    and "dl \<equiv> (case bq_default_lifetime request of Some n \<Rightarrow> n | None \<Rightarrow> 3600)"
  shows "\<exists>resps raws. sent = (dest, Control (with_tag 44444 (response_to_cbor \<lparr>bp_experiment_tag = Some 44444, bp_version = 1,
              bp_req_id = bq_req_id request, bp_items = resps\<rparr>)), dl) # map (\<lambda>(body, hash, lifetime). (dest, Content body, lifetime)) raws
      \<and> (\<forall>raw\<in>set raws. \<exists>i<length (bq_items request). announced host config dl i (bq_items request ! i) resps raw)
      \<and> (length (bq_items request) \<le> 2 ^ 64 \<and> (\<forall>i. \<not> seen env i) \<and> task \<notin> set (ta_cancelled t')
          \<longrightarrow> (\<forall>i<length (bq_items request). ri_op (bq_items request ! i) \<noteq> 2
                \<longrightarrow> length (filter (\<lambda>r. ir_item_idx r = word_of_nat i) resps) = 1))
      \<and> map_of (ta_active t') (bq_req_id request) = None"
proof -
  let ?r = "request\<lparr>bq_experiment_tag := Some 44444\<rparr>"
  have read: "request_from_cbor lib (with_tag 44444 (request_to_cbor request)) = Inr (?r, True)"
    using request_read [OF assms(1)] by simp
  obtain resps raws t1 where items: "process_items host config env task dl 0 (bq_items request) (register_task (bq_req_id request) task t) = (resps, raws, t1)"
    by (metis prod_cases3)
  have out: "sent = (dest, Control (with_tag 44444 (response_to_cbor \<lparr>bp_experiment_tag = Some 44444, bp_version = 1,
              bp_req_id = bq_req_id request, bp_items = resps\<rparr>)), dl) # map (\<lambda>(body, hash, lifetime). (dest, Content body, lifetime)) raws"
    and t': "t' = remove_task (bq_req_id request) t1"
    using assms(2) items by (simp_all add: process_request_def read dest_def dl_def Let_def)
  have "map_of (filter (\<lambda>(r, _). r \<noteq> k) m) k = None" for k :: string and m :: "(string \<times> nat) list"
    by (induction m) auto
  then have gone: "map_of (ta_active t') (bq_req_id request) = None" by (simp add: t' remove_task_def)
  have "ta_cancelled t' = ta_cancelled t1" by (simp add: t' remove_task_def)
  with process_items_spec [OF items] show ?thesis using out gone by (intro exI [of _ resps] exI [of _ raws]) auto
qed

text \<open>C14: every item is answered, and nothing is sent unannounced.  The answer to a request that can be read is one response, in the envelope, to the
  address the request names or else its source, followed by content bundles.  Unless the request was cancelled the response has
  exactly one answer for each item that is not a search.  Every content bundle is announced in the
  response, with its digest and size, by an answer to an item that asked for content, and has that item's
  lifetime; it carries what was fetched for a get item, or a found file of a small search that the client does not have, within the
  item's size limit, or the index document of a list or a large search, for which there is no limit.
  In the end the request is no longer registered.\<close>

theorem basket_request_answered:
  assumes "lib_reads lib" and "process_request host lib config parse_eid env task source (with_tag 44444 (request_to_cbor request)) t = (sent, t')"
  defines "dest \<equiv> (case bq_reply_to request of Some d \<Rightarrow> (case parse_eid d of Some eid \<Rightarrow> eid | None \<Rightarrow> source) | None \<Rightarrow> source)"
    and "dl \<equiv> (case bq_default_lifetime request of Some n \<Rightarrow> n | None \<Rightarrow> 3600)"
  shows "\<exists>resps raws. sent = (dest, Control (with_tag 44444 (response_to_cbor \<lparr>bp_experiment_tag = Some 44444, bp_version = 1,
              bp_req_id = bq_req_id request, bp_items = resps\<rparr>)), dl) # map (\<lambda>(body, hash, lifetime). (dest, Content body, lifetime)) raws
      \<and> (\<forall>raw\<in>set raws. \<exists>i<length (bq_items request). announced host config dl i (bq_items request ! i) resps raw)
      \<and> (length (bq_items request) \<le> 2 ^ 64 \<and> (\<forall>i. \<not> seen env i) \<and> task \<notin> set (ta_cancelled t')
          \<longrightarrow> (\<forall>i<length (bq_items request). ri_op (bq_items request ! i) \<noteq> 2
                \<longrightarrow> length (filter (\<lambda>r. ir_item_idx r = word_of_nat i) resps) = 1))
      \<and> map_of (ta_active t') (bq_req_id request) = None"
  unfolding dest_def dl_def by (rule request_answers [OF assms(1,2)])

definition sample_env :: environment where
  "sample_env = \<lparr>seen = (\<lambda>_. False), cut = (\<lambda>_. False), stop = (\<lambda>_ _. False)\<rparr>"

text \<open>A request for the mapped resource: one response and the contents of the file, announced.\<close>

definition mapped_request :: basket_request where
  "mapped_request = \<lparr>bq_experiment_tag = None, bq_version = 1, bq_req_id = ''r1'', bq_reply_to = None, bq_default_lifetime = Some 60,
     bq_items = [\<lparr>ri_op = 0, ri_uri = ''urn:a'', ri_max_size = Some 5, ri_accepted_formats = None, ri_have_hashes = None,
       ri_if_modified_since = None, ri_lifetime_override = None\<rparr>]\<rparr>"

lemma mapped_fetch:
  "fst (fetch_resource sample_net 0 sample_config ''urn:a'' 5) = Inr ([7, 7], ''application/octet-stream'')"
  by (simp add: fetch_resource_def fetch_loop.simps fetch_turn_def fetch_local_def strip_prefix_def sample_config_def sample_net_def
      read_limited_def vec_len_def guess_mime_type_def extension_def file_name_def components_def Let_def)

theorem basket_request_answered_witness:
  "\<exists>resps raw t'. process_request sample_host sample_lib sample_config (\<lambda>_. None) sample_env 0 ''dtn://n1/s''
      (with_tag 44444 (request_to_cbor mapped_request)) \<lparr>ta_active = [], ta_cancelled = []\<rparr>
      = ([(''dtn://n1/s'', Control (with_tag 44444 (response_to_cbor \<lparr>bp_experiment_tag = Some 44444, bp_version = 1, bp_req_id = ''r1'',
            bp_items = resps\<rparr>)), 60), (''dtn://n1/s'', Content (fst raw), snd (snd raw))], t')
    \<and> announced sample_host sample_config 60 0 (hd (bq_items mapped_request)) resps raw \<and> fst raw = [7, 7]"
proof -
  let ?run = "process_request sample_host sample_lib sample_config (\<lambda>_. None) sample_env 0 ''dtn://n1/s''
      (with_tag 44444 (request_to_cbor mapped_request)) \<lparr>ta_active = [], ta_cancelled = []\<rparr>"
  obtain sent t' where run: "?run = (sent, t')" by fastforce
  from basket_request_answered [OF sample_lib_reads run] obtain resps raws
    where sent: "sent = (''dtn://n1/s'', Control (with_tag 44444 (response_to_cbor \<lparr>bp_experiment_tag = Some 44444, bp_version = 1,
              bp_req_id = ''r1'', bp_items = resps\<rparr>)), 60) # map (\<lambda>(body, hash, lifetime). (''dtn://n1/s'', Content body, lifetime)) raws"
      and raws: "\<forall>raw\<in>set raws. announced sample_host sample_config 60 0 (hd (bq_items mapped_request)) resps raw"
    by (auto simp: mapped_request_def)
  have "length sent = 2"
    using run request_read [OF sample_lib_reads, of mapped_request]
    by (auto simp: process_request_def mapped_request_def register_task_def sample_env_def process_item_def handle_get_def
        fetch_and_hash_item_def sample_host_def size_limit_def mapped_fetch format_accepted_def Let_def)
  then obtain raw where raw: "raws = [raw]" using sent by (cases raws) auto
  then have a: "announced sample_host sample_config 60 0 (hd (bq_items mapped_request)) resps raw" using raws by simp
  then have "fst raw = [7, 7]"
    by (simp add: announced_def content_of_def mapped_request_def sample_host_def size_limit_def mapped_fetch)
  then show ?thesis using run sent raw a
    by (intro exI [of _ resps] exI [of _ raw] exI [of _ t']) (simp add: case_prod_beta)
qed

end
