(* ===== verification/Hqfbp_Session.thy ===== *)
theory Hqfbp_Session
  imports Ordered_Map
begin

text \<open>
  The receiver of the HQFBP adapter (\<^verbatim>\<open>hqfbp-cla/src/session.rs\<close>): which senders it tracks, the
  memory it accounts to them, eviction, and the suppression of duplicates.  The deframer and the
  header parser of the hqfbp-rs library are the parameter \<open>lib\<close>; \<open>drain_events\<close> is what its
  \<^verbatim>\<open>next_event\<close> hands out until it is empty.  A hash map is an association list with distinct keys.
  \<open>now\<close> is the reading of the clock during a call.
\<close>

section \<open>State\<close>

type_synonym sender = "string option"

record hq_header =
  hh_src_callsign :: "string option"
  hh_dst_callsign :: "string option"
  hh_original_message_id :: "u32 option"
  hh_message_id :: "u32 option"

datatype hq_event = PduEvent hq_header | MessageEvent hq_header bytes | SessionExpired | Duplicate

record 'd hqfbp_lib =
  unpack :: "bytes \<Rightarrow> hq_header option"
  receive_bytes :: "bytes \<Rightarrow> 'd \<Rightarrow> 'd"
  drain_events :: "'d \<Rightarrow> hq_event list \<times> 'd"
  cleanup_expired :: "nat \<Rightarrow> 'd \<Rightarrow> nat \<times> 'd"

record completed_message =
  cm_src_callsign :: "string option"
  cm_dst_callsign :: "string option"
  cm_message_id :: "u32 option"
  cm_payload :: bytes

record sender_state =
  sn_last_active :: nat
  sn_buffered_bytes :: nat
  sn_active_message_ids :: "u32 list"
  sn_session_bytes :: "(u32 \<times> nat) list"

record 'd rx_manager =
  rx_deframer :: 'd
  rx_senders :: "(sender \<times> sender_state) list"
  rx_lru_senders :: "sender list"
  rx_completed_sessions :: "((sender \<times> u32) \<times> nat) list"
  rx_completed_payloads :: "((sender \<times> u64) \<times> nat) list"
  rx_completed_messages :: "completed_message list"
  rx_total_buffered_bytes :: nat
  rx_max_concurrent_senders :: nat
  rx_max_in_flight_bytes :: nat
  rx_session_ttl :: nat

datatype hq_error = PayloadTooLarge nat nat | MemoryCapExceeded nat nat

section \<open>Maps\<close>

definition hm_put :: "'k \<Rightarrow> 'v \<Rightarrow> ('k \<times> 'v) list \<Rightarrow> ('k \<times> 'v) list" where
  "hm_put k v m = (k, v) # bt_remove k m"

lemma hm_get_put [simp]: "bt_get (hm_put k v m) = (bt_get m)(k \<mapsto> v)"
  by (rule ext) (simp add: hm_put_def bt_get_def, simp add: bt_get_def [symmetric])

interpretation hm: key_store bt_get hm_put bt_remove "[]"
  by unfold_locales simp_all

section \<open>Operations\<close>

definition hash_payload :: "bytes \<Rightarrow> u64" where
  "hash_payload data = fold (\<lambda>b h. (h XOR ucast b) * 0x100000001b3) data 0xcbf29ce484222325"

definition rx_new :: "'d \<Rightarrow> nat \<Rightarrow> nat \<Rightarrow> nat \<Rightarrow> 'd rx_manager" where
  "rx_new deframer max_concurrent_senders max_in_flight_bytes session_ttl =
     \<lparr>rx_deframer = deframer, rx_senders = [], rx_lru_senders = [], rx_completed_sessions = [], rx_completed_payloads = [],
      rx_completed_messages = [], rx_total_buffered_bytes = 0, rx_max_concurrent_senders = max_concurrent_senders,
      rx_max_in_flight_bytes = max_in_flight_bytes, rx_session_ttl = session_ttl\<rparr>"

definition touch_sender :: "sender \<Rightarrow> 'd rx_manager \<Rightarrow> 'd rx_manager" where
  "touch_sender s m = m\<lparr>rx_lru_senders := remove1 s (rx_lru_senders m) @ [s]\<rparr>"

text \<open>\<^verbatim>\<open>cleanup_expired(Duration::ZERO)\<close>, once for each active message of the evicted sender.\<close>

definition purge :: "'d hqfbp_lib \<Rightarrow> u32 list \<Rightarrow> 'd \<Rightarrow> 'd" where
  "purge lib ids d = fold (\<lambda>_ d. snd (cleanup_expired lib 0 d)) ids d"

definition evict_oldest_sender :: "'d hqfbp_lib \<Rightarrow> sender option \<Rightarrow> 'd rx_manager \<Rightarrow> bool \<times> 'd rx_manager" where
  "evict_oldest_sender lib skip m =
     (let target = (case skip of
                      Some skip_sender \<Rightarrow> find (\<lambda>s. s \<noteq> skip_sender) (rx_lru_senders m)
                    | None \<Rightarrow> (case rx_lru_senders m of [] \<Rightarrow> None | s # _ \<Rightarrow> Some s))
      in case target of
           None \<Rightarrow> (False, m)
         | Some oldest_sender \<Rightarrow>
             let m = m\<lparr>rx_lru_senders := remove1 oldest_sender (rx_lru_senders m)\<rparr>
             in case bt_get (rx_senders m) oldest_sender of
                  None \<Rightarrow> (False, m)
                | Some state \<Rightarrow>
                    (True, m\<lparr>rx_senders := bt_remove oldest_sender (rx_senders m),
                             rx_total_buffered_bytes := rx_total_buffered_bytes m - sn_buffered_bytes state,
                             rx_deframer := purge lib (sn_active_message_ids state) (rx_deframer m)\<rparr>))"

lemma evict_lru: "evict_oldest_sender lib skip m = (True, m') \<Longrightarrow> length (rx_lru_senders m') < length (rx_lru_senders m)"
  by (auto simp: evict_oldest_sender_def Let_def find_Some_iff length_remove1 split: option.splits list.splits dest: nth_mem)

text \<open>The loop that makes room for a PDU; \<open>False\<close> where no sender is left to evict.\<close>

function make_room :: "'d hqfbp_lib \<Rightarrow> sender \<Rightarrow> nat \<Rightarrow> 'd rx_manager \<Rightarrow> bool \<times> 'd rx_manager" where
  "make_room lib s pdu_len m =
     (if rx_max_in_flight_bytes m < rx_total_buffered_bytes m + pdu_len
      then case evict_oldest_sender lib (Some s) m of
             (False, m) \<Rightarrow> (False, m)
           | (True, m) \<Rightarrow> make_room lib s pdu_len m
      else (True, m))"
  by pat_completeness auto

termination
  by (relation "measure (\<lambda>(lib, s, pdu_len, m). length (rx_lru_senders m))") (auto dest!: evict_lru [OF sym])

declare make_room.simps [simp del]

definition new_sender :: "nat \<Rightarrow> sender_state" where
  "new_sender now = \<lparr>sn_last_active = now, sn_buffered_bytes = 0, sn_active_message_ids = [], sn_session_bytes = []\<rparr>"

text \<open>The accounting of a PDU to its sender.\<close>

definition account :: "nat \<Rightarrow> nat \<Rightarrow> u32 option \<Rightarrow> sender_state \<Rightarrow> sender_state" where
  "account now pdu_len msg_id st =
     (let st = st\<lparr>sn_buffered_bytes := sn_buffered_bytes st + pdu_len, sn_last_active := now\<rparr>
      in case msg_id of
           None \<Rightarrow> st
         | Some mid \<Rightarrow>
             st\<lparr>sn_session_bytes := hm_put mid ((case bt_get (sn_session_bytes st) mid of Some n \<Rightarrow> n | None \<Rightarrow> 0) + pdu_len) (sn_session_bytes st),
                sn_active_message_ids := List.insert mid (sn_active_message_ids st)\<rparr>)"

definition or_else :: "'a option \<Rightarrow> 'a option \<Rightarrow> 'a option" where
  "or_else x y = (case x of Some a \<Rightarrow> Some a | None \<Rightarrow> y)"

text \<open>The finished messages of a sender are released: the octets of their sessions or, where none is known, all of
  the sender's.\<close>

definition finish_ids :: "u32 option \<Rightarrow> sender_state \<Rightarrow> u32 list \<times> sender_state" where
  "finish_ids mid st =
     (case mid of
        Some i \<Rightarrow> ([i], st\<lparr>sn_active_message_ids := removeAll i (sn_active_message_ids st)\<rparr>)
      | None \<Rightarrow> (sn_active_message_ids st, st\<lparr>sn_active_message_ids := []\<rparr>))"

fun release_ids :: "u32 list \<Rightarrow> (u32 \<times> nat) list \<Rightarrow> nat \<Rightarrow> bool \<Rightarrow> (u32 \<times> nat) list \<times> nat \<times> bool" where
  "release_ids [] session_bytes deducted found_session = (session_bytes, deducted, found_session)"
| "release_ids (i # ids) session_bytes deducted found_session =
     (case bt_get session_bytes i of
        Some n \<Rightarrow> release_ids ids (bt_remove i session_bytes) (deducted + n) True
      | None \<Rightarrow> release_ids ids session_bytes deducted found_session)"

definition release_sender :: "nat \<Rightarrow> sender \<Rightarrow> u32 option \<Rightarrow> 'd rx_manager \<Rightarrow> 'd rx_manager" where
  "release_sender now src mid m =
     (case bt_get (rx_senders m) src of
        None \<Rightarrow> m
      | Some st \<Rightarrow>
          let (finished_ids, st) = finish_ids mid st;
              (session_bytes, deducted, found_session) = release_ids finished_ids (sn_session_bytes st) 0 False;
              deducted = (if found_session then deducted else sn_buffered_bytes st);
              st = st\<lparr>sn_session_bytes := session_bytes, sn_buffered_bytes := sn_buffered_bytes st - deducted\<rparr>
          in m\<lparr>rx_completed_sessions := fold (\<lambda>i. hm_put (src, i) now) finished_ids (rx_completed_sessions m),
               rx_senders := hm_put src st (rx_senders m),
               rx_total_buffered_bytes := rx_total_buffered_bytes m - deducted\<rparr>)"

fun handle_event :: "nat \<Rightarrow> hq_event \<Rightarrow> (sender \<times> u32) list \<times> 'd rx_manager \<Rightarrow> (sender \<times> u32) list \<times> 'd rx_manager" where
  "handle_event now (PduEvent h) (last_mids, m) =
     (case or_else (hh_original_message_id h) (hh_message_id h) of
        Some i \<Rightarrow> (hm_put (hh_src_callsign h) i last_mids, m)
      | None \<Rightarrow> (last_mids, m))"
| "handle_event now (MessageEvent h payload) (last_mids, m) =
     (let src = hh_src_callsign h;
          mid = or_else (or_else (hh_original_message_id h) (hh_message_id h)) (bt_get last_mids src);
          dup_key = (src, hash_payload payload)
      in if bt_get (rx_completed_payloads m) dup_key \<noteq> None then (last_mids, m)
         else let m = m\<lparr>rx_completed_payloads := hm_put dup_key now (rx_completed_payloads m)\<rparr>;
                  m = release_sender now src mid m
              in (last_mids, m\<lparr>rx_completed_messages := rx_completed_messages m
                    @ [\<lparr>cm_src_callsign = src, cm_dst_callsign = hh_dst_callsign h, cm_message_id = mid, cm_payload = payload\<rparr>]\<rparr>))"
| "handle_event now SessionExpired s = s"
| "handle_event now Duplicate s = s"

definition poll_deframer_events :: "'d hqfbp_lib \<Rightarrow> nat \<Rightarrow> 'd rx_manager \<Rightarrow> 'd rx_manager" where
  "poll_deframer_events lib now m =
     (let (events, d) = drain_events lib (rx_deframer m)
      in snd (fold (handle_event now) events ([], m\<lparr>rx_deframer := d\<rparr>)))"

definition process_pdu :: "'d hqfbp_lib \<Rightarrow> nat \<Rightarrow> bytes \<Rightarrow> 'd rx_manager \<Rightarrow> (hq_error + unit) \<times> 'd rx_manager" where
  "process_pdu lib now pdu m =
     (let pdu_len = length pdu
      in if rx_max_in_flight_bytes m < pdu_len then (Inl (PayloadTooLarge pdu_len (rx_max_in_flight_bytes m)), m)
         else let (peek_sender, peek_msg_id) = (case unpack lib pdu of
                    Some h \<Rightarrow> (hh_src_callsign h, or_else (hh_original_message_id h) (hh_message_id h))
                  | None \<Rightarrow> (None, None))
              in if (case peek_msg_id of Some mid \<Rightarrow> bt_get (rx_completed_sessions m) (peek_sender, mid) \<noteq> None | None \<Rightarrow> False)
                 then (Inr (), m)
                 else let m = (if bt_get (rx_senders m) peek_sender = None \<and> rx_max_concurrent_senders m \<le> length (rx_senders m)
                               then snd (evict_oldest_sender lib None m) else m)
                      in case make_room lib peek_sender pdu_len m of
                           (False, m) \<Rightarrow> (Inl (MemoryCapExceeded (rx_total_buffered_bytes m + pdu_len) (rx_max_in_flight_bytes m)), m)
                         | (True, m) \<Rightarrow>
                             let m = touch_sender peek_sender (m\<lparr>rx_total_buffered_bytes := rx_total_buffered_bytes m + pdu_len\<rparr>);
                                 st = (case bt_get (rx_senders m) peek_sender of Some st \<Rightarrow> st | None \<Rightarrow> new_sender now);
                                 m = m\<lparr>rx_senders := hm_put peek_sender (account now pdu_len peek_msg_id st) (rx_senders m),
                                       rx_deframer := receive_bytes lib pdu (rx_deframer m)\<rparr>
                             in (Inr (), poll_deframer_events lib now m))"

definition drain_completed_messages :: "'d hqfbp_lib \<Rightarrow> nat \<Rightarrow> 'd rx_manager \<Rightarrow> completed_message list \<times> 'd rx_manager" where
  "drain_completed_messages lib now m =
     (let m = poll_deframer_events lib now m in (rx_completed_messages m, m\<lparr>rx_completed_messages := []\<rparr>))"

text \<open>Senders without activity for the timeout are forgotten, and so are old completions.\<close>

definition forget_sender :: "sender \<Rightarrow> 'd rx_manager \<Rightarrow> 'd rx_manager" where
  "forget_sender s m =
     (let m = (case bt_get (rx_senders m) s of
                 Some st \<Rightarrow> m\<lparr>rx_senders := bt_remove s (rx_senders m),
                              rx_total_buffered_bytes := rx_total_buffered_bytes m - sn_buffered_bytes st\<rparr>
               | None \<Rightarrow> m)
      in m\<lparr>rx_lru_senders := remove1 s (rx_lru_senders m)\<rparr>)"

definition sweep_expired_at :: "'d hqfbp_lib \<Rightarrow> nat \<Rightarrow> nat \<Rightarrow> 'd rx_manager \<Rightarrow> nat \<times> 'd rx_manager" where
  "sweep_expired_at lib now timeout m =
     (let (count, d) = cleanup_expired lib timeout (rx_deframer m);
          stale_senders = map fst (filter (\<lambda>(_, st). timeout \<le> now - sn_last_active st) (rx_senders m));
          m = fold forget_sender stale_senders (m\<lparr>rx_deframer := d\<rparr>)
      in (count, m\<lparr>rx_completed_sessions := filter (\<lambda>(_, time). now - time < timeout) (rx_completed_sessions m),
                   rx_completed_payloads := filter (\<lambda>(_, time). now - time < timeout) (rx_completed_payloads m)\<rparr>))"

section \<open>The invariant\<close>

definition buffered_sum :: "(sender \<times> sender_state) list \<Rightarrow> nat" where
  "buffered_sum ss = sum_list (map (\<lambda>(_, st). sn_buffered_bytes st) ss)"

definition rx_ok :: "'d rx_manager \<Rightarrow> bool" where
  "rx_ok m \<longleftrightarrow> distinct (map fst (rx_senders m)) \<and> distinct (rx_lru_senders m)
     \<and> set (rx_lru_senders m) = fst ` set (rx_senders m)
     \<and> length (rx_senders m) \<le> max 1 (rx_max_concurrent_senders m)
     \<and> rx_total_buffered_bytes m \<le> rx_max_in_flight_bytes m
     \<and> rx_total_buffered_bytes m \<le> buffered_sum (rx_senders m)"

text \<open>The limits are never changed.\<close>

definition same_limits :: "'d rx_manager \<Rightarrow> 'd rx_manager \<Rightarrow> bool" where
  "same_limits m m' \<longleftrightarrow> rx_max_concurrent_senders m' = rx_max_concurrent_senders m
     \<and> rx_max_in_flight_bytes m' = rx_max_in_flight_bytes m"

lemma same_limits_refl [simp]: "same_limits m m"
  by (simp add: same_limits_def)

lemma same_limits_trans: "same_limits a b \<Longrightarrow> same_limits b c \<Longrightarrow> same_limits a c"
  by (simp add: same_limits_def)

lemma bt_remove_absent: "bt_get m k = None \<Longrightarrow> bt_remove k m = m"
  by (auto simp: bt_get_def bt_remove_def map_of_eq_None_iff filter_id_conv image_iff)

lemma keys_bt_remove: "fst ` set (bt_remove k m) = fst ` set m - {k}"
  by (auto simp: bt_remove_def image_iff)

lemma distinct_bt_remove: "distinct (map fst m) \<Longrightarrow> distinct (map fst (bt_remove k m))"
  by (auto simp: bt_remove_def distinct_map intro: inj_on_subset)

lemma bt_remove_present:
  "distinct (map fst m) \<Longrightarrow> bt_get m k = Some v \<Longrightarrow>
    sum_list (map f m) = f (k, v) + sum_list (map f (bt_remove k m)) \<and> length m = Suc (length (bt_remove k m))" for f :: "_ \<Rightarrow> nat"
proof (induction m)
  case (Cons e m)
  show ?case
  proof (cases "fst e = k")
    case True
    then have "bt_get m k = None" using Cons.prems(1) by (auto simp: bt_get_def map_of_eq_None_iff)
    then show ?thesis using True Cons.prems(2) bt_remove_absent [of m k] by (cases e) (auto simp: bt_get_def bt_remove_def)
  next
    case False
    then show ?thesis using Cons by (auto simp: bt_get_def bt_remove_def)
  qed
qed simp

lemma keys_hm_put: "fst ` set (hm_put k v m) = insert k (fst ` set m)"
  by (auto simp: hm_put_def keys_bt_remove)

lemma distinct_hm_put: "distinct (map fst m) \<Longrightarrow> distinct (map fst (hm_put k v m))"
  by (simp add: hm_put_def distinct_bt_remove keys_bt_remove flip: image_set)

lemma buffered_sum_put: "buffered_sum (hm_put k v m) = sn_buffered_bytes v + buffered_sum (bt_remove k m)"
  by (simp add: buffered_sum_def hm_put_def)

lemma buffered_sum_remove:
  "distinct (map fst m) \<Longrightarrow> bt_get m k = Some v \<Longrightarrow> buffered_sum m = sn_buffered_bytes v + buffered_sum (bt_remove k m)"
  using bt_remove_present [of m k v "\<lambda>(_, st). sn_buffered_bytes st"] by (simp add: buffered_sum_def)

lemma length_hm_put:
  "distinct (map fst m) \<Longrightarrow> length (hm_put k v m) = (if bt_get m k = None then Suc (length m) else length m)"
  using bt_remove_present [of m k _ "\<lambda>_. 0"] by (auto simp: hm_put_def bt_remove_absent split: option.splits)

lemma known_sender: "k \<in> fst ` set m \<longleftrightarrow> bt_get m k \<noteq> None"
  using dom_bt_get [of m] by auto

lemma length_put_le:
  assumes "distinct (map fst m)" "distinct (map fst m')" "k \<in> fst ` set m" "fst ` set m' \<subseteq> fst ` set m"
  shows "length (hm_put k v m') \<le> length m"
proof -
  have "card (fst ` set (hm_put k v m')) \<le> card (fst ` set m)"
    using assms by (intro card_mono) (auto simp: keys_hm_put)
  then show ?thesis
    using distinct_card [OF assms(1)] distinct_card [OF distinct_hm_put [OF assms(2), of k v]] by simp
qed

section \<open>Eviction\<close>

lemma evict_spec:
  assumes ok: "rx_ok m" and evict: "evict_oldest_sender lib skip m = (b, m')"
  shows "rx_ok m' \<and> same_limits m m' \<and> rx_completed_payloads m' = rx_completed_payloads m
    \<and> rx_completed_messages m' = rx_completed_messages m
    \<and> fst ` set (rx_senders m') \<subseteq> fst ` set (rx_senders m)
    \<and> (if b then length (rx_senders m) = Suc (length (rx_senders m'))
       else m' = m \<and> (case skip of None \<Rightarrow> rx_senders m = [] | Some s \<Rightarrow> fst ` set (rx_senders m) \<subseteq> {s}))"
proof -
  let ?target = "case skip of Some s \<Rightarrow> find (\<lambda>x. x \<noteq> s) (rx_lru_senders m)
    | None \<Rightarrow> (case rx_lru_senders m of [] \<Rightarrow> None | s # _ \<Rightarrow> Some s)"
  show ?thesis
  proof (cases ?target)
    case None
    then have "b = False" "m' = m" using evict by (simp_all add: evict_oldest_sender_def)
    moreover have "case skip of None \<Rightarrow> rx_senders m = [] | Some s \<Rightarrow> fst ` set (rx_senders m) \<subseteq> {s}"
    proof (cases skip)
      case None
      then have "rx_lru_senders m = []" using \<open>?target = None\<close> by (auto split: list.splits)
      then show ?thesis using ok None by (auto simp: rx_ok_def)
    next
      case (Some s)
      then have "\<forall>x\<in>set (rx_lru_senders m). x = s" using \<open>?target = None\<close> by (auto simp: find_None_iff)
      then show ?thesis using ok Some by (auto simp: rx_ok_def)
    qed
    ultimately show ?thesis using ok by (auto split: option.split)
  next
    case (Some oldest)
    have "oldest \<in> set (rx_lru_senders m)"
      using Some by (auto simp: find_Some_iff split: option.splits list.splits)
    then have "oldest \<in> fst ` set (rx_senders m)" using ok by (simp add: rx_ok_def)
    then obtain st where st: "bt_get (rx_senders m) oldest = Some st" by (auto simp: known_sender)
    have m': "b" "m' = m\<lparr>rx_lru_senders := remove1 oldest (rx_lru_senders m), rx_senders := bt_remove oldest (rx_senders m),
        rx_total_buffered_bytes := rx_total_buffered_bytes m - sn_buffered_bytes st,
        rx_deframer := purge lib (sn_active_message_ids st) (rx_deframer m)\<rparr>"
      using evict Some st by (auto simp: evict_oldest_sender_def)
    have distinct: "distinct (map fst (rx_senders m))" using ok by (simp add: rx_ok_def)
    note sum = buffered_sum_remove [OF distinct st]
    have len: "length (rx_senders m) = Suc (length (bt_remove oldest (rx_senders m)))"
      using bt_remove_present [OF distinct st, of "\<lambda>_. 0"] by simp
    have "rx_ok m'"
      using ok sum len unfolding m' rx_ok_def
      by (auto simp: distinct_bt_remove keys_bt_remove set_remove1_eq)
    then show ?thesis using m' len by (auto simp: same_limits_def keys_bt_remove)
  qed
qed

lemma make_room_spec:
  "rx_ok m \<Longrightarrow> make_room lib s len m = (b, m') \<Longrightarrow>
    rx_ok m' \<and> same_limits m m' \<and> rx_completed_payloads m' = rx_completed_payloads m
    \<and> rx_completed_messages m' = rx_completed_messages m
    \<and> fst ` set (rx_senders m') \<subseteq> fst ` set (rx_senders m) \<and> length (rx_senders m') \<le> length (rx_senders m)
    \<and> (if b then rx_total_buffered_bytes m' + len \<le> rx_max_in_flight_bytes m'
       else rx_max_in_flight_bytes m' < rx_total_buffered_bytes m' + len \<and> fst ` set (rx_senders m') \<subseteq> {s})"
proof (induction lib s len m rule: make_room.induct)
  case (1 lib s len m)
  show ?case
  proof (cases "rx_max_in_flight_bytes m < rx_total_buffered_bytes m + len")
    case False
    then show ?thesis using "1.prems" by (auto simp: make_room.simps [of lib s len m])
  next
    case True
    note True' = this
    obtain c m1 where evict: "evict_oldest_sender lib (Some s) m = (c, m1)" by fastforce
    note spec = evict_spec [OF "1.prems"(1) evict]
    show ?thesis
    proof (cases c)
      case False
      then have "b = False" "m' = m1" using "1.prems"(2) True evict by (simp_all add: make_room.simps [of lib s len m])
      then show ?thesis using spec False True' by auto
    next
      case True
      then have "make_room lib s len m1 = (b, m')"
        using "1.prems"(2) \<open>rx_max_in_flight_bytes m < _\<close> evict by (simp add: make_room.simps [of lib s len m])
      from "1.IH" [OF \<open>rx_max_in_flight_bytes m < _\<close> evict [symmetric] _ _ this] show ?thesis
        using spec True by (auto intro: same_limits_trans)
    qed
  qed
qed

section \<open>Events\<close>

definition msg_key :: "completed_message \<Rightarrow> sender \<times> u64" where
  "msg_key c = (cm_src_callsign c, hash_payload (cm_payload c))"

text \<open>What handling events keeps, and what it delivers: new messages, none with the key of an earlier one.\<close>

definition delivers :: "nat \<Rightarrow> 'd rx_manager \<Rightarrow> 'd rx_manager \<Rightarrow> completed_message list \<Rightarrow> bool" where
  "delivers now m m' new \<longleftrightarrow> rx_completed_messages m' = rx_completed_messages m @ new \<and> distinct (map msg_key new)
     \<and> snd ` set (rx_completed_payloads m') \<subseteq> insert now (snd ` set (rx_completed_payloads m))
     \<and> set (map msg_key new) \<inter> dom (bt_get (rx_completed_payloads m)) = {}
     \<and> dom (bt_get (rx_completed_payloads m')) = dom (bt_get (rx_completed_payloads m)) \<union> set (map msg_key new)"

lemma snd_hm_put: "snd ` set (hm_put k v m) \<subseteq> insert v (snd ` set m)"
  by (auto simp: hm_put_def bt_remove_def)

lemma delivers_same:
  "rx_completed_messages m' = rx_completed_messages m \<Longrightarrow> rx_completed_payloads m' = rx_completed_payloads m \<Longrightarrow> delivers now m m' []"
  by (simp add: delivers_def subset_insertI)

lemma delivers_trans:
  assumes "delivers now a b xs" "delivers now b c ys"
  shows "delivers now a c (xs @ ys)"
proof -
  let ?known = "\<lambda>m. dom (bt_get (rx_completed_payloads m))" and ?times = "\<lambda>m. snd ` set (rx_completed_payloads m)"
  have a: "rx_completed_messages b = rx_completed_messages a @ xs" "distinct (map msg_key xs)"
      "?times b \<subseteq> insert now (?times a)" "set (map msg_key xs) \<inter> ?known a = {}" "?known b = ?known a \<union> set (map msg_key xs)"
    using assms(1) unfolding delivers_def by blast+
  have b: "rx_completed_messages c = rx_completed_messages b @ ys" "distinct (map msg_key ys)"
      "?times c \<subseteq> insert now (?times b)" "set (map msg_key ys) \<inter> ?known b = {}" "?known c = ?known b \<union> set (map msg_key ys)"
    using assms(2) unfolding delivers_def by blast+
  have disjoint: "set (map msg_key xs) \<inter> set (map msg_key ys) = {}" "set (map msg_key ys) \<inter> ?known a = {}"
    using b(4) unfolding a(5) by blast+
  have "distinct (map msg_key (xs @ ys))" using a(2) b(2) disjoint(1) by (simp only: map_append distinct_append)
  moreover have "?times c \<subseteq> insert now (?times a)" using a(3) b(3) by blast
  moreover have "set (map msg_key (xs @ ys)) \<inter> ?known a = {}"
    using a(4) disjoint(2) by (simp only: map_append set_append) blast
  moreover have "?known c = ?known a \<union> set (map msg_key (xs @ ys))"
    using a(5) b(5) by (simp only: map_append set_append) blast
  ultimately show ?thesis using a(1) b(1) unfolding delivers_def by (simp only: append_assoc simp_thms)
qed

lemma release_sender_spec:
  assumes ok: "rx_ok m"
  shows "rx_ok (release_sender now src mid m) \<and> same_limits m (release_sender now src mid m)
    \<and> rx_completed_messages (release_sender now src mid m) = rx_completed_messages m
    \<and> rx_completed_payloads (release_sender now src mid m) = rx_completed_payloads m"
proof (cases "bt_get (rx_senders m) src")
  case None
  then show ?thesis using ok by (simp add: release_sender_def)
next
  case (Some st)
  obtain ids st1 where ids: "finish_ids mid st = (ids, st1)" by fastforce
  then have st1: "sn_buffered_bytes st1 = sn_buffered_bytes st" by (auto simp: finish_ids_def split: option.splits)
  obtain sb ded fnd where rel: "release_ids ids (sn_session_bytes st1) 0 False = (sb, ded, fnd)" by (metis prod_cases3)
  define d where "d = (if fnd then ded else sn_buffered_bytes st)"
  define st2 where "st2 = st1\<lparr>sn_session_bytes := sb, sn_buffered_bytes := sn_buffered_bytes st - d\<rparr>"
  have m': "release_sender now src mid m = m\<lparr>rx_completed_sessions := fold (\<lambda>i. hm_put (src, i) now) ids (rx_completed_sessions m),
      rx_senders := hm_put src st2 (rx_senders m), rx_total_buffered_bytes := rx_total_buffered_bytes m - d\<rparr>"
    by (simp add: release_sender_def Some ids rel st1 d_def st2_def)
  have distinct: "distinct (map fst (rx_senders m))" using ok by (simp add: rx_ok_def)
  have "src \<in> fst ` set (rx_senders m)" using Some by (simp add: known_sender)
  moreover have "rx_total_buffered_bytes m - d \<le> buffered_sum (hm_put src st2 (rx_senders m))"
    using ok buffered_sum_remove [OF distinct Some] by (simp add: rx_ok_def buffered_sum_put st2_def) linarith
  ultimately have "rx_ok (release_sender now src mid m)"
    using ok Some unfolding m' rx_ok_def
    by (simp add: distinct_hm_put length_hm_put keys_hm_put insert_absorb) linarith
  then show ?thesis unfolding m' by (simp add: same_limits_def)
qed

lemma handle_event_spec:
  assumes "rx_ok m" "handle_event now ev (mids, m) = (mids', m')"
  shows "rx_ok m' \<and> same_limits m m' \<and> (\<exists>new. delivers now m m' new)"
proof (cases ev)
  case (MessageEvent h payload)
  let ?src = "hh_src_callsign h"
  let ?mid = "or_else (or_else (hh_original_message_id h) (hh_message_id h)) (bt_get mids ?src)"
  let ?key = "(?src, hash_payload payload)"
  show ?thesis
  proof (cases "bt_get (rx_completed_payloads m) ?key = None")
    case False
    then show ?thesis using assms by (auto simp: MessageEvent intro: delivers_same)
  next
    case True
    let ?c = "\<lparr>cm_src_callsign = ?src, cm_dst_callsign = hh_dst_callsign h, cm_message_id = ?mid, cm_payload = payload\<rparr>"
    define m1 where "m1 = m\<lparr>rx_completed_payloads := hm_put ?key now (rx_completed_payloads m)\<rparr>"
    define m2 where "m2 = release_sender now ?src ?mid m1"
    have m': "m' = m2\<lparr>rx_completed_messages := rx_completed_messages m2 @ [?c]\<rparr>"
      using assms(2) True by (auto simp: MessageEvent m1_def m2_def Let_def)
    have "rx_ok m1" using assms(1) by (simp add: m1_def rx_ok_def)
    note rel = release_sender_spec [OF this, of now ?src ?mid, folded m2_def]
    have "delivers now m m' [?c]"
      using rel True snd_hm_put [of ?key now "rx_completed_payloads m"]
      by (auto simp: m' m1_def delivers_def msg_key_def)
    moreover have "rx_ok m'" "same_limits m m'" using rel by (auto simp: m' rx_ok_def same_limits_def m1_def)
    ultimately show ?thesis by blast
  qed
qed (use assms in \<open>auto simp: delivers_def intro!: exI [of _ "[]"] split: option.splits\<close>)

lemma handle_events_spec:
  "rx_ok m \<Longrightarrow> rx_ok (snd (fold (handle_event now) evs (mids, m))) \<and> same_limits m (snd (fold (handle_event now) evs (mids, m)))
    \<and> (\<exists>new. delivers now m (snd (fold (handle_event now) evs (mids, m))) new)"
proof (induction evs arbitrary: mids m)
  case Nil
  then show ?case by (auto intro: delivers_same)
next
  case (Cons ev evs)
  obtain mids1 m1 where m1: "handle_event now ev (mids, m) = (mids1, m1)" by fastforce
  note one = handle_event_spec [OF Cons.prems m1]
  then have "rx_ok m1" by blast
  from Cons.IH [OF this, of mids1] one show ?case
    by (simp add: m1) (blast intro: same_limits_trans delivers_trans)
qed

lemma poll_spec:
  assumes "rx_ok m"
  shows "rx_ok (poll_deframer_events lib now m) \<and> same_limits m (poll_deframer_events lib now m)
    \<and> (\<exists>new. delivers now m (poll_deframer_events lib now m) new)"
proof -
  obtain evs d where evs: "drain_events lib (rx_deframer m) = (evs, d)" by fastforce
  have "rx_ok (m\<lparr>rx_deframer := d\<rparr>)" using assms by (simp add: rx_ok_def)
  from handle_events_spec [OF this, of now evs "[]"] show ?thesis
    by (simp add: poll_deframer_events_def evs same_limits_def delivers_def)
qed

lemma process_pdu_spec:
  assumes ok: "rx_ok m" and process: "process_pdu lib now pdu m = (r, m')"
  shows "rx_ok m' \<and> same_limits m m' \<and> (\<exists>new. delivers now m m' new)
    \<and> (case r of Inr _ \<Rightarrow> length pdu \<le> rx_max_in_flight_bytes m
       | Inl (PayloadTooLarge len limit) \<Rightarrow> len = length pdu \<and> limit = rx_max_in_flight_bytes m \<and> limit < len \<and> m' = m
       | Inl (MemoryCapExceeded cur limit) \<Rightarrow> length pdu \<le> limit \<and> limit = rx_max_in_flight_bytes m
           \<and> cur = rx_total_buffered_bytes m' + length pdu \<and> limit < cur \<and> length (rx_senders m') \<le> 1)"
proof (cases "rx_max_in_flight_bytes m < length pdu")
  case True
  then show ?thesis using assms by (auto simp: process_pdu_def intro: delivers_same)
next
  case False
  obtain s mid where peek: "(case unpack lib pdu of Some h \<Rightarrow> (hh_src_callsign h, or_else (hh_original_message_id h) (hh_message_id h))
      | None \<Rightarrow> (None, None)) = (s, mid)" by fastforce
  define known where "known = (case mid of Some i \<Rightarrow> bt_get (rx_completed_sessions m) (s, i) \<noteq> None | None \<Rightarrow> False)"
  define m1 where "m1 = (if bt_get (rx_senders m) s = None \<and> rx_max_concurrent_senders m \<le> length (rx_senders m)
    then snd (evict_oldest_sender lib None m) else m)"
  obtain b m2 where room: "make_room lib s (length pdu) m1 = (b, m2)" by fastforce
  have m1: "rx_ok m1 \<and> same_limits m m1 \<and> rx_completed_payloads m1 = rx_completed_payloads m
      \<and> rx_completed_messages m1 = rx_completed_messages m
      \<and> (bt_get (rx_senders m1) s = None \<longrightarrow> length (rx_senders m1) < max 1 (rx_max_concurrent_senders m))"
  proof (cases "bt_get (rx_senders m) s = None \<and> rx_max_concurrent_senders m \<le> length (rx_senders m)")
    case True
    obtain c m3 where evict: "evict_oldest_sender lib None m = (c, m3)" by fastforce
    note spec = evict_spec [OF ok evict]
    have "length (rx_senders m3) < max 1 (rx_max_concurrent_senders m)" using spec ok by (cases c) (auto simp: rx_ok_def)
    then show ?thesis using spec True by (simp add: m1_def evict)
  qed (use ok in \<open>auto simp: m1_def\<close>)
  note room_spec = make_room_spec [OF conjunct1 [OF m1] room]
  show ?thesis
  proof (cases "known \<or> \<not> b")
    case True
    show ?thesis
    proof (cases known)
      case True
      then have "r = Inr ()" "m' = m" using process False by (simp_all add: process_pdu_def peek known_def)
      then show ?thesis using ok False by (auto intro: delivers_same)
    next
      case unknown: False
      then have r: "r = Inl (MemoryCapExceeded (rx_total_buffered_bytes m2 + length pdu) (rx_max_in_flight_bytes m2))" "m' = m2"
        using process False True unknown room by (auto simp: process_pdu_def peek known_def m1_def)
      have "card (fst ` set (rx_senders m2)) \<le> card {s}" using room_spec True unknown by (intro card_mono) auto
      moreover have "card (fst ` set (rx_senders m2)) = length (rx_senders m2)"
        using room_spec distinct_card [of "map fst (rx_senders m2)"] by (simp add: rx_ok_def)
      ultimately have "length (rx_senders m2) \<le> 1" by simp
      moreover have "delivers now m m2 []" using m1 room_spec by (intro delivers_same) simp_all
      moreover have "same_limits m m2" using m1 room_spec same_limits_trans by blast
      moreover have "rx_max_in_flight_bytes m2 < rx_total_buffered_bytes m2 + length pdu"
        using room_spec True unknown by simp
      moreover have "rx_ok m2" using room_spec by blast
      ultimately show ?thesis using r False by (auto simp: same_limits_def)
    qed
  next
    case False': False
    define st where "st = account now (length pdu) mid (case bt_get (rx_senders m2) s of Some st \<Rightarrow> st | None \<Rightarrow> new_sender now)"
    define m3 where "m3 = (touch_sender s (m2\<lparr>rx_total_buffered_bytes := rx_total_buffered_bytes m2 + length pdu\<rparr>))
      \<lparr>rx_senders := hm_put s st (rx_senders m2), rx_deframer := receive_bytes lib pdu (rx_deframer m2)\<rparr>"
    have out: "r = Inr ()" "m' = poll_deframer_events lib now m3"
      using process False False' room by (auto simp: process_pdu_def peek known_def m1_def m3_def st_def touch_sender_def Let_def)
    have st: "sn_buffered_bytes st = (case bt_get (rx_senders m2) s of Some st \<Rightarrow> sn_buffered_bytes st | None \<Rightarrow> 0) + length pdu"
      by (simp add: st_def account_def new_sender_def Let_def split: option.split)
    have distinct: "distinct (map fst (rx_senders m2))" using room_spec by (simp add: rx_ok_def)
    have sum: "rx_total_buffered_bytes m2 + length pdu \<le> buffered_sum (hm_put s st (rx_senders m2))"
      using room_spec st buffered_sum_remove [OF distinct, of s]
      by (cases "bt_get (rx_senders m2) s") (auto simp: buffered_sum_put rx_ok_def bt_remove_absent)
    have "length (hm_put s st (rx_senders m2)) \<le> max 1 (rx_max_concurrent_senders m)"
    proof (cases "bt_get (rx_senders m1) s")
      case None
      then show ?thesis using m1 room_spec by (auto simp: length_hm_put [OF distinct])
    next
      case (Some x)
      then have "s \<in> fst ` set (rx_senders m1)" by (simp add: known_sender)
      then have "length (hm_put s st (rx_senders m2)) \<le> length (rx_senders m1)"
        using m1 room_spec by (intro length_put_le) (simp_all add: rx_ok_def)
      then show ?thesis using m1 by (simp add: rx_ok_def same_limits_def) linarith
    qed
    moreover have "set (remove1 s (rx_lru_senders m2) @ [s]) = insert s (set (rx_lru_senders m2))"
      "distinct (remove1 s (rx_lru_senders m2) @ [s])"
      using room_spec by (auto simp: rx_ok_def set_remove1_eq)
    ultimately have "rx_ok m3"
      using room_spec m1 sum False'
      unfolding rx_ok_def m3_def touch_sender_def same_limits_def
      by (simp add: distinct_hm_put keys_hm_put)
    note poll = poll_spec [OF this, of lib now]
    have "delivers now m m3 []" using m1 room_spec by (intro delivers_same) (simp_all add: m3_def touch_sender_def)
    moreover have "same_limits m m3" using m1 room_spec by (simp add: same_limits_def m3_def touch_sender_def)
    ultimately show ?thesis using poll out False delivers_trans same_limits_trans by fastforce
  qed
qed

section \<open>Sweeping\<close>

lemma rx_ok_update [simp]:
  "rx_ok (m\<lparr>rx_completed_messages := msgs\<rparr>) \<longleftrightarrow> rx_ok m"
  "rx_ok (m\<lparr>rx_completed_sessions := ss\<rparr>) \<longleftrightarrow> rx_ok m"
  "rx_ok (m\<lparr>rx_completed_payloads := ps\<rparr>) \<longleftrightarrow> rx_ok m"
  "rx_ok (m\<lparr>rx_deframer := d\<rparr>) \<longleftrightarrow> rx_ok m"
  by (simp_all add: rx_ok_def)

lemma forget_sender_spec:
  assumes ok: "rx_ok m"
  shows "rx_ok (forget_sender s m) \<and> same_limits m (forget_sender s m)
    \<and> rx_completed_messages (forget_sender s m) = rx_completed_messages m
    \<and> rx_completed_payloads (forget_sender s m) = rx_completed_payloads m"
proof (cases "bt_get (rx_senders m) s")
  case None
  then have "s \<notin> set (rx_lru_senders m)" using ok known_sender [of s "rx_senders m"] by (simp add: rx_ok_def)
  then have "forget_sender s m = m" using None by (simp add: forget_sender_def remove1_idem)
  then show ?thesis using ok by simp
next
  case (Some st)
  have distinct: "distinct (map fst (rx_senders m))" using ok by (simp add: rx_ok_def)
  note sum = buffered_sum_remove [OF distinct Some]
  have "length (rx_senders m) = Suc (length (bt_remove s (rx_senders m)))"
    using bt_remove_present [OF distinct Some, of "\<lambda>_. 0"] by simp
  then have "rx_ok (forget_sender s m)"
    using ok sum Some unfolding rx_ok_def
    by (auto simp: forget_sender_def distinct_bt_remove keys_bt_remove set_remove1_eq)
  then show ?thesis using Some by (simp add: forget_sender_def same_limits_def)
qed

lemma forget_senders_spec:
  "rx_ok m \<Longrightarrow> rx_ok (fold forget_sender ss m) \<and> same_limits m (fold forget_sender ss m)
    \<and> rx_completed_messages (fold forget_sender ss m) = rx_completed_messages m
    \<and> rx_completed_payloads (fold forget_sender ss m) = rx_completed_payloads m"
proof (induction ss arbitrary: m)
  case (Cons s ss)
  note one = forget_sender_spec [OF Cons.prems, of s]
  from Cons.IH [OF conjunct1 [OF one]] one show ?case by (auto intro: same_limits_trans)
qed simp

lemma sweep_spec:
  assumes ok: "rx_ok m" and sweep: "sweep_expired_at lib now timeout m = (n, m')"
  shows "rx_ok m' \<and> same_limits m m' \<and> rx_completed_messages m' = rx_completed_messages m
    \<and> rx_completed_payloads m' = filter (\<lambda>(_, time). now - time < timeout) (rx_completed_payloads m)"
proof -
  obtain d where d: "cleanup_expired lib timeout (rx_deframer m) = (n, d)"
    using sweep by (cases "cleanup_expired lib timeout (rx_deframer m)") (simp add: sweep_expired_at_def Let_def)
  define stale where "stale = map fst (filter (\<lambda>(_, st). timeout \<le> now - sn_last_active st) (rx_senders m))"
  have "rx_ok (m\<lparr>rx_deframer := d\<rparr>)" using ok by (simp add: rx_ok_def)
  note spec = forget_senders_spec [OF this, of stale]
  have "m' = (fold forget_sender stale (m\<lparr>rx_deframer := d\<rparr>))
      \<lparr>rx_completed_sessions := filter (\<lambda>(_, time). now - time < timeout) (rx_completed_sessions (fold forget_sender stale (m\<lparr>rx_deframer := d\<rparr>))),
       rx_completed_payloads := filter (\<lambda>(_, time). now - time < timeout) (rx_completed_payloads (fold forget_sender stale (m\<lparr>rx_deframer := d\<rparr>)))\<rparr>"
    using sweep by (simp add: sweep_expired_at_def d stale_def Let_def)
  then show ?thesis using spec by (simp add: same_limits_def)
qed

section \<open>Runs of the receiver\<close>

datatype rx_op = Pdu nat bytes | Drain nat | Sweep nat nat

fun rx_step :: "'d hqfbp_lib \<Rightarrow> rx_op \<Rightarrow> completed_message list \<times> 'd rx_manager \<Rightarrow> completed_message list \<times> 'd rx_manager" where
  "rx_step lib (Pdu now pdu) (out, m) = (out, snd (process_pdu lib now pdu m))"
| "rx_step lib (Drain now) (out, m) =
     (let (msgs, m') = drain_completed_messages lib now m in (out @ msgs, m'))"
| "rx_step lib (Sweep now timeout) (out, m) = (out, snd (sweep_expired_at lib now timeout m))"

definition rx_run :: "'d hqfbp_lib \<Rightarrow> rx_op list \<Rightarrow> 'd rx_manager \<Rightarrow> completed_message list \<times> 'd rx_manager" where
  "rx_run lib ops m = fold (rx_step lib) ops ([], m)"

lemma rx_step_spec:
  assumes "rx_ok m" "rx_step lib op (out, m) = (out', m')"
  shows "rx_ok m' \<and> same_limits m m'"
proof (cases op)
  case (Pdu now pdu)
  then show ?thesis using assms process_pdu_spec [OF assms(1) surjective_pairing, of lib now pdu] by auto
next
  case (Drain now)
  then show ?thesis using assms poll_spec [OF assms(1), of lib now]
    by (auto simp: drain_completed_messages_def Let_def same_limits_def)
next
  case (Sweep now timeout)
  then show ?thesis using assms sweep_spec [OF assms(1) surjective_pairing, of lib now timeout] by auto
qed

lemma rx_steps_spec:
  "rx_ok m \<Longrightarrow> rx_ok (snd (fold (rx_step lib) ops (out, m))) \<and> same_limits m (snd (fold (rx_step lib) ops (out, m)))"
proof (induction ops arbitrary: out m)
  case (Cons op ops)
  obtain out1 m1 where one: "rx_step lib op (out, m) = (out1, m1)" by fastforce
  note spec = rx_step_spec [OF Cons.prems one]
  from Cons.IH [OF conjunct1 [OF spec], of out1] spec one show ?case by (auto intro: same_limits_trans)
qed simp

lemma rx_new_ok: "rx_ok (rx_new d cap max_bytes ttl)"
  by (simp add: rx_ok_def rx_new_def buffered_sum_def)

lemma rx_reachable:
  "rx_ok (snd (rx_run lib ops (rx_new d cap max_bytes ttl)))
    \<and> rx_max_concurrent_senders (snd (rx_run lib ops (rx_new d cap max_bytes ttl))) = cap
    \<and> rx_max_in_flight_bytes (snd (rx_run lib ops (rx_new d cap max_bytes ttl))) = max_bytes"
  using rx_steps_spec [OF rx_new_ok, of lib ops "[]" d cap max_bytes ttl]
  by (simp add: rx_run_def same_limits_def rx_new_def)

text \<open>The completions of a period and the times they carry.\<close>

definition since :: "nat \<Rightarrow> completed_message list \<Rightarrow> 'd rx_manager \<Rightarrow> bool" where
  "since t0 out m \<longleftrightarrow> distinct (map msg_key (out @ rx_completed_messages m))
     \<and> set (map msg_key (out @ rx_completed_messages m)) \<subseteq> dom (bt_get (rx_completed_payloads m))
     \<and> (\<forall>t\<in>snd ` set (rx_completed_payloads m). t0 \<le> t)"

fun in_period :: "nat \<Rightarrow> rx_op \<Rightarrow> bool" where
  "in_period t0 (Pdu now pdu) \<longleftrightarrow> t0 \<le> now"
| "in_period t0 (Drain now) \<longleftrightarrow> t0 \<le> now"
| "in_period t0 (Sweep now timeout) \<longleftrightarrow> t0 \<le> now \<and> now - t0 < timeout"

lemma since_delivers:
  assumes since: "since t0 out m" and new: "delivers now m m' new" and "t0 \<le> now"
  shows "since t0 out m'"
proof -
  have m': "rx_completed_messages m' = rx_completed_messages m @ new" "distinct (map msg_key new)"
    "snd ` set (rx_completed_payloads m') \<subseteq> insert now (snd ` set (rx_completed_payloads m))"
    "set (map msg_key new) \<inter> dom (bt_get (rx_completed_payloads m)) = {}"
    "dom (bt_get (rx_completed_payloads m')) = dom (bt_get (rx_completed_payloads m)) \<union> set (map msg_key new)"
    using new unfolding delivers_def by blast+
  let ?old = "map msg_key (out @ rx_completed_messages m)"
  have old: "distinct ?old" "set ?old \<subseteq> dom (bt_get (rx_completed_payloads m))"
    "\<forall>t\<in>snd ` set (rx_completed_payloads m). t0 \<le> t"
    using since unfolding since_def by blast+
  have "set ?old \<inter> set (map msg_key new) = {}" using old(2) m'(4) by blast
  then have "distinct (?old @ map msg_key new)" using old(1) m'(2) by (simp only: distinct_append)
  moreover have "set (?old @ map msg_key new) \<subseteq> dom (bt_get (rx_completed_payloads m'))"
    using old(2) m'(5) by (simp only: set_append) blast
  moreover have "\<forall>t\<in>snd ` set (rx_completed_payloads m'). t0 \<le> t" using old(3) m'(3) \<open>t0 \<le> now\<close> by blast
  ultimately show ?thesis unfolding since_def m'(1) by (simp only: map_append append_assoc)
qed

lemma since_step:
  assumes "rx_ok m" "since t0 out m" "in_period t0 op" "rx_step lib op (out, m) = (out', m')"
  shows "since t0 out' m'"
proof (cases op)
  case (Pdu now pdu)
  then show ?thesis
    using assms process_pdu_spec [OF assms(1) surjective_pairing, of lib now pdu] since_delivers by fastforce
next
  case (Drain now)
  let ?m = "poll_deframer_events lib now m"
  have "since t0 out ?m" using assms Drain poll_spec [OF assms(1), of lib now] since_delivers by fastforce
  moreover have "out' = out @ rx_completed_messages ?m" "m' = ?m\<lparr>rx_completed_messages := []\<rparr>"
    using assms(4) by (simp_all add: Drain drain_completed_messages_def Let_def)
  ultimately show ?thesis by (simp add: since_def)
next
  case (Sweep now timeout)
  have period: "t0 \<le> now" "now - t0 < timeout" using assms(3) Sweep by simp_all
  have "filter (\<lambda>(_, time). now - time < timeout) (rx_completed_payloads m) = rx_completed_payloads m"
  proof (rule filter_True, rule ballI)
    fix e assume e: "e \<in> set (rx_completed_payloads m)"
    then have "t0 \<le> snd e" using assms(2) by (auto simp: since_def)
    then show "case e of (_, time) \<Rightarrow> now - time < timeout" using period by (cases e) simp
  qed
  then show ?thesis
    using assms Sweep sweep_spec [OF assms(1) surjective_pairing, of lib now timeout] by (auto simp: since_def)
qed

lemma since_run:
  "rx_ok m \<Longrightarrow> since t0 out m \<Longrightarrow> list_all (in_period t0) ops \<Longrightarrow> fold (rx_step lib) ops (out, m) = (out', m') \<Longrightarrow> since t0 out' m'"
proof (induction ops arbitrary: out m)
  case (Cons op ops)
  obtain out1 m1 where one: "rx_step lib op (out, m) = (out1, m1)" by fastforce
  have "rx_ok m1" using rx_step_spec [OF Cons.prems(1) one] by blast
  moreover have "since t0 out1 m1" using since_step [OF Cons.prems(1,2) _ one] Cons.prems(3) by simp
  ultimately show ?case using Cons.IH Cons.prems(3,4) one by simp
qed simp

section \<open>Properties\<close>

text \<open>C18: Whatever PDUs arrive and whenever completed messages are drained and senders swept, the receiver never tracks
more senders than its limit (or one, with a limit of 0), never accounts more octets than its memory cap, keeps one entry
per sender, and its eviction order names exactly the senders it tracks, each once.\<close>

theorem rx_bounded:
  "let m = snd (rx_run lib ops (rx_new deframer max_concurrent_senders max_in_flight_bytes session_ttl))
   in length (rx_senders m) \<le> max 1 max_concurrent_senders \<and> rx_total_buffered_bytes m \<le> max_in_flight_bytes
    \<and> distinct (map fst (rx_senders m)) \<and> distinct (rx_lru_senders m) \<and> set (rx_lru_senders m) = fst ` set (rx_senders m)"
proof -
  define m where "m = snd (rx_run lib ops (rx_new deframer max_concurrent_senders max_in_flight_bytes session_ttl))"
  have "rx_ok m" "rx_max_concurrent_senders m = max_concurrent_senders" "rx_max_in_flight_bytes m = max_in_flight_bytes"
    by (simp_all add: m_def rx_reachable)
  then show ?thesis unfolding m_def [symmetric] Let_def rx_ok_def by blast
qed

text \<open>In every state it can reach, the receiver rejects a PDU with \<^verbatim>\<open>PayloadTooLarge\<close> only where it alone exceeds the
memory cap, and then changes nothing; with \<^verbatim>\<open>MemoryCapExceeded\<close> only where every other sender has already been evicted and
the octets left do not fit with it; an accepted PDU is within the cap.\<close>

theorem rx_pdu_errors:
  "let m = snd (rx_run lib ops (rx_new deframer max_concurrent_senders max_in_flight_bytes session_ttl));
       (r, m') = process_pdu lib now pdu m
   in case r of
        Inr _ \<Rightarrow> length pdu \<le> max_in_flight_bytes
      | Inl (PayloadTooLarge len limit) \<Rightarrow> len = length pdu \<and> limit = max_in_flight_bytes \<and> limit < len \<and> m' = m
      | Inl (MemoryCapExceeded cur limit) \<Rightarrow> length pdu \<le> limit \<and> limit = max_in_flight_bytes
          \<and> cur = rx_total_buffered_bytes m' + length pdu \<and> limit < cur \<and> length (rx_senders m') \<le> 1"
proof -
  define m where "m = snd (rx_run lib ops (rx_new deframer max_concurrent_senders max_in_flight_bytes session_ttl))"
  have m: "rx_ok m" "rx_max_in_flight_bytes m = max_in_flight_bytes" by (simp_all add: m_def rx_reachable)
  obtain r m' where process: "process_pdu lib now pdu m = (r, m')" by fastforce
  show ?thesis using process_pdu_spec [OF m(1) process] unfolding m_def [symmetric] m(2) Let_def process by simp
qed

text \<open>C24: No message is delivered twice: while the clock readings stay in a period and every sweep's timeout is longer
than the time since its start, the messages drained and those waiting to be drained have pairwise different sender and
payload hash.\<close>

theorem rx_no_duplicates:
  assumes "list_all (in_period t0) ops"
    and "rx_run lib ops (rx_new deframer max_concurrent_senders max_in_flight_bytes session_ttl) = (out, m)"
  shows "distinct (map (\<lambda>c. (cm_src_callsign c, hash_payload (cm_payload c))) (out @ rx_completed_messages m))"
proof -
  let ?m = "rx_new deframer max_concurrent_senders max_in_flight_bytes session_ttl"
  have "since t0 [] ?m" by (simp add: since_def rx_new_def)
  then have "since t0 out m"
    using since_run [OF rx_new_ok _ assms(1), of _ deframer] assms(2) by (simp add: rx_run_def)
  then show ?thesis by (simp add: since_def msg_key_def [abs_def])
qed

section \<open>A deframer for examples\<close>

text \<open>Its state is the events not handed out yet.  The first octet of a PDU selects what the PDU is: a fragment of
message 1 of N0A; a message 2 of N0A inside an encoding that only the deframer can undo; a fragment of N0B; the end of
message 1 of N0A.\<close>

definition toy_header :: "string \<Rightarrow> u32 \<Rightarrow> hq_header" where
  "toy_header src i = \<lparr>hh_src_callsign = Some src, hh_dst_callsign = None, hh_original_message_id = None, hh_message_id = Some i\<rparr>"

definition toy_lib :: "hq_event list hqfbp_lib" where
  "toy_lib = \<lparr>unpack = (\<lambda>pdu. case pdu of [] \<Rightarrow> None
       | b # _ \<Rightarrow> (if b = 1 then None else Some (if b = 2 then toy_header ''N0B'' 3 else toy_header ''N0A'' 1))),
     receive_bytes = (\<lambda>pdu d. case pdu of [] \<Rightarrow> d
       | b # _ \<Rightarrow> (if b = 1 then d @ [MessageEvent (toy_header ''N0A'' 2) []]
                   else if b = 3 then d @ [MessageEvent (toy_header ''N0A'' 1) [7]] else d)),
     drain_events = (\<lambda>d. (d, [])), cleanup_expired = (\<lambda>timeout d. (0, d))\<rparr>"

theorem rx_no_duplicates_witness:
  "distinct (map (\<lambda>c. (cm_src_callsign c, hash_payload (cm_payload c)))
     (fst (rx_run toy_lib [Pdu 5 [1], Drain 6, Pdu 7 [1], Sweep 8 10, Pdu 9 [3]] (rx_new [] 2 100 50))
      @ rx_completed_messages (snd (rx_run toy_lib [Pdu 5 [1], Drain 6, Pdu 7 [1], Sweep 8 10, Pdu 9 [3]] (rx_new [] 2 100 50)))))"
  by (rule rx_no_duplicates [of 5, OF _ surjective_pairing]) simp

text \<open>The octets accounted to the senders can exceed the total: a message whose identifier has no accounted octets
releases all of its sender's, leaving the sender's other sessions in place, and their completion is deducted from the
total a second time.\<close>

theorem rx_total_undercounts:
  "let m = snd (rx_run toy_lib [Pdu 0 [0, 0, 0], Pdu 1 [1], Pdu 2 [2, 0, 0, 0, 0], Pdu 3 [3]] (rx_new [] 5 1000 50))
   in rx_total_buffered_bytes m = 3 \<and> buffered_sum (rx_senders m) = 6"
  by code_simp

end
