(* ===== verification/Cron.thy ===== *)
theory Cron
  imports Prelude Strings
begin

text \<open>
  Cron expressions of the contact coordinator (\<^verbatim>\<open>dtn-hdy-ham/src/coordinator/cron.rs\<close>): the parser.
  A field is a bit set held in a machine word.  The addition that steps through a range overflows
  for steps near \<^verbatim>\<open>u32::MAX\<close>: with overflow checks that is a panic, here the error
  \<open>StepOverflow\<close>.  The messages of the errors are values of a datatype.
\<close>

section \<open>Expressions\<close>

record cron_expr =
  ce_second :: u64
  ce_minute :: u64
  ce_hour :: u32
  ce_dom :: u32
  ce_month :: u16
  ce_dow :: u8
  ce_source :: string

datatype cron_error =
    FieldCount nat
  | UnknownShortcut string
  | EmptyItem string
  | MatchesNothing string
  | InvalidValue string string
  | InvalidStep string string
  | ZeroStep string
  | OutOfRange string nat nat nat
  | EmptyRange string nat nat
  | StepOverflow

definition DOW_NAMES :: "string list" where
  "DOW_NAMES = [''SUN'', ''MON'', ''TUE'', ''WED'', ''THU'', ''FRI'', ''SAT'']"

definition MONTH_NAMES :: "string list" where
  "MONTH_NAMES = [''JAN'', ''FEB'', ''MAR'', ''APR'', ''MAY'', ''JUN'', ''JUL'', ''AUG'', ''SEP'', ''OCT'', ''NOV'', ''DEC'']"

definition ALL_HOURS :: u32 where "ALL_HOURS = push_bit 24 1 - 1"

definition ALL_DOM :: u32 where "ALL_DOM = NOT 1"

definition ALL_MONTHS :: u16 where "ALL_MONTHS = 0x1FFE"

definition ALL_DOW :: u8 where "ALL_DOW = 0x7F"

section \<open>Fields\<close>

fun position :: "('a \<Rightarrow> bool) \<Rightarrow> 'a list \<Rightarrow> nat option" where
  "position P [] = None"
| "position P (x # xs) = (if P x then Some 0 else map_option Suc (position P xs))"

definition parse_value :: "string \<Rightarrow> nat \<Rightarrow> string \<Rightarrow> string list \<Rightarrow> cron_error + nat" where
  "parse_value s lo name names =
     (case (if names = [] then None else position (\<lambda>n. n = map upper_char s) names) of
        Some pos \<Rightarrow> Inr (lo + pos)
      | None \<Rightarrow> (case parse_u32 s of Some n \<Rightarrow> Inr n | None \<Rightarrow> Inl (InvalidValue name s)))"

text \<open>The loop that sets the bits of a range; \<open>None\<close> where \<^verbatim>\<open>v += step\<close> overflows, or
for the step 0, which the parser has rejected before.\<close>

function step_bits :: "nat \<Rightarrow> nat \<Rightarrow> nat \<Rightarrow> u64 \<Rightarrow> u64 option" where
  "step_bits v hi step bits =
     (if step = 0 then None
      else if hi < v then Some bits
      else if 2 ^ 32 \<le> v + step then None
      else step_bits (v + step) hi step (bits OR push_bit v 1))"
  by pat_completeness auto

termination
  by (relation "measure (\<lambda>(v, hi, step, bits). Suc hi - v)") auto

declare step_bits.simps [simp del]

definition parse_step :: "string \<Rightarrow> string \<Rightarrow> cron_error + string \<times> nat option" where
  "parse_step item name =
     (case split_once CHR ''/'' item of
        Some (r, s) \<Rightarrow>
          (case parse_u32 s of
             None \<Rightarrow> Inl (InvalidStep name s)
           | Some step \<Rightarrow> if step = 0 then Inl (ZeroStep name) else Inr (r, Some step))
      | None \<Rightarrow> Inr (item, None))"

definition check_range :: "nat \<Rightarrow> nat \<Rightarrow> nat \<Rightarrow> string \<Rightarrow> cron_error + unit" where
  "check_range v lo hi name = (if v < lo \<or> hi < v then Inl (OutOfRange name v lo hi) else Inr ())"

definition parse_item :: "string \<Rightarrow> nat \<Rightarrow> nat \<Rightarrow> string \<Rightarrow> string list \<Rightarrow> cron_error + u64" where
  "parse_item item lo hi name names =
     (case parse_step item name of
        Inl e \<Rightarrow> Inl e
      | Inr (range_part, step) \<Rightarrow>
          let bits_of = (\<lambda>first stop. case step_bits first stop (case step of Some n \<Rightarrow> n | None \<Rightarrow> 1) 0 of
                                       Some bits \<Rightarrow> Inr bits | None \<Rightarrow> Inl StepOverflow)
          in if range_part = ''*'' then bits_of lo hi
             else (case split_once CHR ''-'' range_part of
                     Some (a, b) \<Rightarrow>
                       (case parse_value a lo name names of
                          Inl e \<Rightarrow> Inl e
                        | Inr a \<Rightarrow>
                            (case parse_value b lo name names of
                               Inl e \<Rightarrow> Inl e
                             | Inr b \<Rightarrow>
                                 (case check_range a lo hi name of
                                    Inl e \<Rightarrow> Inl e
                                  | Inr _ \<Rightarrow>
                                      (case check_range b lo hi name of
                                         Inl e \<Rightarrow> Inl e
                                       | Inr _ \<Rightarrow> if b < a then Inl (EmptyRange name a b) else bits_of a b))))
                   | None \<Rightarrow>
                       (case parse_value range_part lo name names of
                          Inl e \<Rightarrow> Inl e
                        | Inr v \<Rightarrow>
                            (case check_range v lo hi name of
                               Inl e \<Rightarrow> Inl e
                             | Inr _ \<Rightarrow> (case step of Some _ \<Rightarrow> bits_of v hi | None \<Rightarrow> Inr (push_bit v 1))))))"

fun parse_items :: "string list \<Rightarrow> nat \<Rightarrow> nat \<Rightarrow> string \<Rightarrow> string list \<Rightarrow> u64 \<Rightarrow> cron_error + u64" where
  "parse_items [] lo hi name names bits = Inr bits"
| "parse_items (item # items) lo hi name names bits =
     (if item = [] then Inl (EmptyItem name)
      else (case parse_item item lo hi name names of
              Inl e \<Rightarrow> Inl e
            | Inr b \<Rightarrow> parse_items items lo hi name names (bits OR b)))"

definition parse_field :: "string \<Rightarrow> nat \<Rightarrow> nat \<Rightarrow> string \<Rightarrow> string list \<Rightarrow> cron_error + u64" where
  "parse_field field lo hi name names =
     (case parse_items (split_on CHR '','' field) lo hi name names 0 of
        Inl e \<Rightarrow> Inl e
      | Inr bits \<Rightarrow> if bits = 0 then Inl (MatchesNothing name) else Inr bits)"

definition parse_dow :: "string \<Rightarrow> cron_error + u8" where
  "parse_dow field =
     (case parse_field field 0 7 ''dow'' DOW_NAMES of
        Inl e \<Rightarrow> Inl e
      | Inr bits \<Rightarrow> Inr (ucast ((bits AND 0x7F) OR (drop_bit 7 bits AND 1))))"

section \<open>The parser\<close>

definition parse_fields :: "u64 \<Rightarrow> u64 \<Rightarrow> string \<Rightarrow> string \<Rightarrow> string \<Rightarrow> string \<Rightarrow> string \<Rightarrow> cron_error + cron_expr" where
  "parse_fields second minute f_hour f_dom f_month f_dow source =
     (case parse_field f_hour 0 23 ''hour'' [] of
        Inl e \<Rightarrow> Inl e
      | Inr hour \<Rightarrow>
          (case parse_field f_dom 1 31 ''dom'' [] of
             Inl e \<Rightarrow> Inl e
           | Inr days \<Rightarrow>
               (case parse_field f_month 1 12 ''month'' MONTH_NAMES of
                  Inl e \<Rightarrow> Inl e
                | Inr month \<Rightarrow>
                    (case parse_dow f_dow of
                       Inl e \<Rightarrow> Inl e
                     | Inr dow \<Rightarrow> Inr \<lparr>ce_second = second, ce_minute = minute, ce_hour = ucast hour, ce_dom = ucast days,
                                      ce_month = ucast month, ce_dow = dow, ce_source = source\<rparr>))))"

definition parse_5 :: "string list \<Rightarrow> string \<Rightarrow> cron_error + cron_expr" where
  "parse_5 parts source =
     (case parse_field (parts ! 0) 0 59 ''minute'' [] of
        Inl e \<Rightarrow> Inl e
      | Inr minute \<Rightarrow> parse_fields 1 minute (parts ! 1) (parts ! 2) (parts ! 3) (parts ! 4) source)"

definition parse_6 :: "string list \<Rightarrow> string \<Rightarrow> cron_error + cron_expr" where
  "parse_6 parts source =
     (case parse_field (parts ! 0) 0 59 ''second'' [] of
        Inl e \<Rightarrow> Inl e
      | Inr second \<Rightarrow>
          (case parse_field (parts ! 1) 0 59 ''minute'' [] of
             Inl e \<Rightarrow> Inl e
           | Inr minute \<Rightarrow> parse_fields second minute (parts ! 2) (parts ! 3) (parts ! 4) (parts ! 5) source))"

definition parse_shortcut :: "string \<Rightarrow> string \<Rightarrow> cron_error + cron_expr" where
  "parse_shortcut shortcut source =
     (let s = map lower_char shortcut;
          expr = (\<lambda>hour days month dow. Inr \<lparr>ce_second = 1, ce_minute = 1, ce_hour = hour, ce_dom = days, ce_month = month,
                    ce_dow = dow, ce_source = source\<rparr>)
      in if s = ''yearly'' \<or> s = ''annually'' then expr 1 (push_bit 1 1) (push_bit 1 1) ALL_DOW
         else if s = ''monthly'' then expr 1 (push_bit 1 1) ALL_MONTHS ALL_DOW
         else if s = ''weekly'' then expr 1 ALL_DOM ALL_MONTHS 1
         else if s = ''daily'' \<or> s = ''midnight'' then expr 1 ALL_DOM ALL_MONTHS ALL_DOW
         else if s = ''hourly'' then expr ALL_HOURS ALL_DOM ALL_MONTHS ALL_DOW
         else Inl (UnknownShortcut shortcut))"

definition cron_parse :: "string \<Rightarrow> cron_error + cron_expr" where
  "cron_parse s =
     (let trimmed = trim s
      in case strip_prefix ''@'' trimmed of
           Some shortcut \<Rightarrow> parse_shortcut shortcut s
         | None \<Rightarrow>
             let parts = split_space trimmed
             in if length parts = 5 then parse_5 parts s
                else if length parts = 6 then parse_6 parts s
                else Inl (FieldCount (length parts)))"

end
