(* ===== verification/Cron_Parse.thy ===== *)
theory Cron_Parse
  imports Cron
begin

text \<open>
  What the cron parser accepts: an abstract syntax of expressions, its text and its meaning as sets of
  numbers; the parser maps the text to the bit sets of the meaning.  In the other direction, whatever
  it accepts has its bits in the range of each field.
\<close>

section \<open>Bit sets of ranges\<close>

lemma bit_one_at: "bit (push_bit v (1 :: 'a::len word)) n \<longleftrightarrow> n = v \<and> n < LENGTH('a)"
  by (auto simp: bit_exp_iff)

lemma dvd_step: "step dvd n - v \<longleftrightarrow> n = v \<or> v + step \<le> n \<and> step dvd n - (v + step)"
  if "v \<le> n" for n v step :: nat
proof (cases "v + step \<le> n")
  case True
  then have "n - v = (n - (v + step)) + step" by simp
  then show ?thesis using True by (metis dvd_add_triv_right_iff le_add1 diff_is_0_eq' dvd_0_right)
next
  case False
  then have "n - v < step" using that by linarith
  then have "step dvd n - v \<longleftrightarrow> n = v" using that nat_dvd_not_less [of "n - v" step] by auto
  then show ?thesis using False by auto
qed

lemma step_bits_spec:
  "0 < step \<Longrightarrow> hi + step < 2 ^ 32 \<Longrightarrow> hi < 64 \<Longrightarrow>
    \<exists>b. step_bits v hi step bits = Some b \<and> (\<forall>n. bit b n \<longleftrightarrow> bit bits n \<or> v \<le> n \<and> n \<le> hi \<and> step dvd n - v)"
proof (induction v hi step bits rule: step_bits.induct)
  case (1 v hi step bits)
  show ?case
  proof (cases "hi < v")
    case True
    then have "step_bits v hi step bits = Some bits"
      using "1.prems"(1) by (simp only: step_bits.simps [of v hi step bits] if_True) simp
    then show ?thesis using True by auto
  next
    case False
    then have no_overflow: "\<not> 2 ^ 32 \<le> v + step" using "1.prems"(2) by linarith
    have "step \<noteq> 0" using "1.prems"(1) by simp
    have set_bit: "bit (bits OR push_bit v 1) n \<longleftrightarrow> bit bits n \<or> n = v" for n
      using False "1.prems"(3) by (auto simp: bit_or_iff bit_exp_iff)
    from "1.IH" [OF \<open>step \<noteq> 0\<close> False no_overflow "1.prems"] obtain b where
      b: "step_bits (v + step) hi step (bits OR push_bit v 1) = Some b"
      "\<And>n. bit b n \<longleftrightarrow> (bit bits n \<or> n = v) \<or> v + step \<le> n \<and> n \<le> hi \<and> step dvd n - (v + step)"
      unfolding set_bit by blast
    have "bit b n \<longleftrightarrow> bit bits n \<or> v \<le> n \<and> n \<le> hi \<and> step dvd n - v" for n
    proof (cases "v \<le> n")
      case True
      then show ?thesis using b(2) [of n] dvd_step [OF True, of step] False by auto
    next
      case n: False
      then show ?thesis using b(2) [of n] by auto
    qed
    moreover have "step_bits v hi step bits = Some b"
      using b(1) False no_overflow \<open>step \<noteq> 0\<close> by (simp only: step_bits.simps [of v hi step bits] if_False)
    ultimately show ?thesis by blast
  qed
qed

section \<open>Syntax and meaning\<close>

datatype cron_value = Num nat | Named string

datatype cron_range = All | One cron_value | Span cron_value cron_value

type_synonym cron_item = "cron_range \<times> nat option"

fun show_value :: "cron_value \<Rightarrow> string" where
  "show_value (Num n) = decimal n"
| "show_value (Named s) = s"

fun show_range :: "cron_range \<Rightarrow> string" where
  "show_range All = ''*''"
| "show_range (One x) = show_value x"
| "show_range (Span x y) = show_value x @ CHR ''-'' # show_value y"

fun show_item :: "cron_item \<Rightarrow> string" where
  "show_item (r, None) = show_range r"
| "show_item (r, Some n) = show_range r @ CHR ''/'' # decimal n"

definition show_field :: "cron_item list \<Rightarrow> string" where
  "show_field items = join CHR '','' (map show_item items)"

fun value_of :: "string list \<Rightarrow> nat \<Rightarrow> cron_value \<Rightarrow> nat option" where
  "value_of names lo (Num n) = Some n"
| "value_of names lo (Named s) = map_option (\<lambda>p. lo + p) (position (\<lambda>n. n = map upper_char s) names)"

definition value_in :: "string list \<Rightarrow> nat \<Rightarrow> nat \<Rightarrow> cron_value \<Rightarrow> bool" where
  "value_in names lo hi x = (case value_of names lo x of Some v \<Rightarrow> lo \<le> v \<and> v \<le> hi | None \<Rightarrow> False)"

fun bounds_of :: "string list \<Rightarrow> nat \<Rightarrow> nat \<Rightarrow> cron_item \<Rightarrow> nat \<times> nat" where
  "bounds_of names lo hi (All, _) = (lo, hi)"
| "bounds_of names lo hi (One x, None) = (the (value_of names lo x), the (value_of names lo x))"
| "bounds_of names lo hi (One x, Some _) = (the (value_of names lo x), hi)"
| "bounds_of names lo hi (Span x y, _) = (the (value_of names lo x), the (value_of names lo y))"

text \<open>The numbers an item stands for.\<close>

definition numbers :: "string list \<Rightarrow> nat \<Rightarrow> nat \<Rightarrow> cron_item \<Rightarrow> nat \<Rightarrow> bool" where
  "numbers names lo hi item n =
     (let (a, b) = bounds_of names lo hi item; step = (case snd item of Some s \<Rightarrow> s | None \<Rightarrow> 1)
      in a \<le> n \<and> n \<le> b \<and> step dvd n - a)"

fun range_in :: "string list \<Rightarrow> nat \<Rightarrow> nat \<Rightarrow> cron_range \<Rightarrow> bool" where
  "range_in names lo hi All = True"
| "range_in names lo hi (One x) = value_in names lo hi x"
| "range_in names lo hi (Span x y) =
     (value_in names lo hi x \<and> value_in names lo hi y \<and> the (value_of names lo x) \<le> the (value_of names lo y))"

definition item_in :: "string list \<Rightarrow> nat \<Rightarrow> nat \<Rightarrow> cron_item \<Rightarrow> bool" where
  "item_in names lo hi item =
     (range_in names lo hi (fst item) \<and> (case snd item of None \<Rightarrow> True | Some n \<Rightarrow> 0 < n \<and> n + 60 < 2 ^ 32))"

section \<open>Characters\<close>

definition upper_letter :: "char \<Rightarrow> bool" where
  "upper_letter c \<longleftrightarrow> (65::nat) \<le> of_char c \<and> of_char c \<le> (90::nat)"

definition alnum :: "char \<Rightarrow> bool" where
  "alnum c \<longleftrightarrow> (let n = of_char c :: nat in 48 \<le> n \<and> n \<le> 57 \<or> 65 \<le> n \<and> n \<le> 90 \<or> 97 \<le> n \<and> n \<le> 122)"

definition names_ok :: "string list \<Rightarrow> bool" where
  "names_ok names \<longleftrightarrow> (\<forall>n\<in>set names. n \<noteq> [] \<and> list_all upper_letter n)"

lemma alnum_plain [simp]:
  "\<not> alnum CHR ''/''" "\<not> alnum CHR ''-''" "\<not> alnum CHR '',''" "\<not> alnum CHR ''*''" "\<not> alnum CHR ''@''" "\<not> alnum CHR '' ''"
  by (simp_all add: alnum_def)

lemma alnum_not_space: "alnum c \<Longrightarrow> \<not> is_space c"
  by (auto simp: alnum_def is_space_def)

lemma decimal_alnum: "list_all alnum (decimal n)"
  using decimal_char by (auto simp: list_all_iff alnum_def)

lemma upper_letter_alnum: "upper_letter (upper_char c) \<Longrightarrow> alnum c"
  by (auto simp: upper_letter_def upper_char_def alnum_def Let_def split: if_splits)

lemma upper_digit: "(48::nat) \<le> of_char c \<Longrightarrow> of_char c \<le> (57::nat) \<Longrightarrow> upper_char c = c"
  by (simp add: upper_char_def)

lemma names_ok_tables [simp]: "names_ok []" "names_ok MONTH_NAMES" "names_ok DOW_NAMES"
  by (simp_all add: names_ok_def MONTH_NAMES_def DOW_NAMES_def upper_letter_def)

lemma position_Some: "position P xs = Some i \<Longrightarrow> i < length xs \<and> P (xs ! i)"
  by (induction xs arbitrary: i) (auto split: if_splits)

lemma position_eq_Some: "position (\<lambda>n. n = m) names = Some i \<Longrightarrow> m \<in> set names"
  using position_Some [of "\<lambda>n. n = m" names i] nth_mem [of i names] by simp

lemma show_value_alnum:
  assumes "names_ok names" "value_of names lo x = Some v"
  shows "show_value x \<noteq> [] \<and> list_all alnum (show_value x)"
proof (cases x)
  case (Num n)
  then show ?thesis by (simp add: decimal_alnum)
next
  case (Named s)
  then obtain p where "position (\<lambda>n. n = map upper_char s) names = Some p" using assms(2) by auto
  then have "map upper_char s \<in> set names" by (rule position_eq_Some)
  then have "map upper_char s \<noteq> []" "list_all upper_letter (map upper_char s)" using assms(1) unfolding names_ok_def by blast+
  then show ?thesis using Named upper_letter_alnum by (auto simp: list_all_iff)
qed

lemma parse_value_show:
  assumes ok: "names_ok names" and v: "value_of names lo x = Some v" "v \<le> hi" "hi < 64"
  shows "parse_value (show_value x) lo name names = Inr v"
proof (cases x)
  case (Num n)
  have same: "map upper_char (decimal n) = decimal n"
    by (rule map_idI) (use decimal_char upper_digit in blast)
  have "position (\<lambda>m. m = map upper_char (decimal n)) names = None"
  proof (cases "position (\<lambda>m. m = map upper_char (decimal n)) names")
    case (Some i)
    then have "decimal n \<in> set names" unfolding same by (rule position_eq_Some)
    then have letters: "list_all upper_letter (decimal n)" using ok by (simp add: names_ok_def)
    obtain c cs where c: "decimal n = c # cs" using decimal_nonempty by (cases "decimal n") blast+
    then have "upper_letter c" using letters by simp
    then show ?thesis using decimal_char [of c n] c by (simp add: upper_letter_def)
  qed
  moreover have "parse_u32 (decimal n) = Some n"
    unfolding parse_u32_def using Num v by (intro parse_unsigned_decimal) simp
  ultimately show ?thesis using Num v by (simp add: parse_value_def)
next
  case (Named s)
  then show ?thesis using v by (auto simp: parse_value_def)
qed

section \<open>Items and fields\<close>

text \<open>The characters that occur in the text of an item.\<close>

definition item_char :: "char \<Rightarrow> bool" where
  "item_char c \<longleftrightarrow> alnum c \<or> c = CHR ''*'' \<or> c = CHR ''-'' \<or> c = CHR ''/''"

lemma alnum_no: "list_all alnum s \<Longrightarrow> \<not> alnum c \<Longrightarrow> c \<notin> set s"
  by (auto simp: list_all_iff)

lemma value_in_Some: "value_in names lo hi x \<Longrightarrow> \<exists>v. value_of names lo x = Some v \<and> lo \<le> v \<and> v \<le> hi"
  by (auto simp: value_in_def split: option.splits)

lemma show_range_chars:
  assumes "names_ok names" "range_in names lo hi r"
  shows "show_range r \<noteq> [] \<and> list_all item_char (show_range r) \<and> CHR ''/'' \<notin> set (show_range r)"
proof -
  have one: "show_value x \<noteq> [] \<and> list_all item_char (show_value x) \<and> CHR ''/'' \<notin> set (show_value x)"
    if "value_in names lo hi x" for x
  proof -
    have "\<exists>v. value_of names lo x = Some v" using value_in_Some [OF that] by blast
    then obtain v where v: "value_of names lo x = Some v" by blast
    from show_value_alnum [OF assms(1) v] have x: "show_value x \<noteq> []" "list_all alnum (show_value x)" by blast+
    then show ?thesis using alnum_no [OF x(2) alnum_plain(1)] by (simp add: list_all_iff item_char_def)
  qed
  show ?thesis using assms(2) one by (cases r) (auto simp: item_char_def)
qed

lemma show_item_chars:
  assumes "names_ok names" "item_in names lo hi item"
  shows "show_item item \<noteq> [] \<and> list_all item_char (show_item item)"
proof -
  obtain r st where item: "item = (r, st)" by (cases item)
  have "show_range r \<noteq> [] \<and> list_all item_char (show_range r)"
    using show_range_chars [OF assms(1), of lo hi r] assms(2) by (simp add: item item_in_def)
  moreover have "list_all item_char (decimal n)" for n
    using decimal_alnum [of n] by (auto simp: list_all_iff item_char_def)
  ultimately show ?thesis by (cases st) (simp_all add: item item_char_def)
qed

lemma parse_step_show:
  assumes "names_ok names" "item_in names lo hi (r, st)"
  shows "parse_step (show_item (r, st)) name = Inr (show_range r, st)"
proof -
  have plain: "CHR ''/'' \<notin> set (show_range r)" using show_range_chars [OF assms(1), of lo hi r] assms(2) by (simp add: item_in_def)
  show ?thesis
  proof (cases st)
    case None
    then show ?thesis using plain split_once_absent [of "CHR ''/''" "show_range r"] by (simp add: parse_step_def)
  next
    case (Some n)
    then have "parse_u32 (decimal n) = Some n" "n \<noteq> 0"
      using assms(2) by (auto simp: item_in_def parse_u32_def intro!: parse_unsigned_decimal)
    then show ?thesis using plain Some by (simp add: parse_step_def)
  qed
qed

lemma parse_item_show:
  assumes names: "names_ok names" and "hi < 60" and item: "item_in names lo hi item"
  shows "\<exists>b. parse_item (show_item item) lo hi name names = Inr b \<and> (\<forall>n. bit b n \<longleftrightarrow> numbers names lo hi item n)"
proof -
  obtain r st where rs: "item = (r, st)" by (cases item)
  define step where "step = (case st of Some n \<Rightarrow> n | None \<Rightarrow> 1)"
  have step: "0 < step" "step + 60 < 2 ^ 32" using item by (auto simp: rs item_in_def step_def split: option.splits)
  note parse = parse_step_show [OF names item [unfolded rs], of name]
  have bits: "\<exists>b. (case step_bits a z step 0 of Some bits \<Rightarrow> Inr bits | None \<Rightarrow> Inl StepOverflow) = Inr b
      \<and> (\<forall>n. bit b n \<longleftrightarrow> a \<le> n \<and> n \<le> z \<and> step dvd n - a)" if "z \<le> hi" for a z
    using step_bits_spec [OF step(1), of z a 0] step(2) that \<open>hi < 60\<close> by force
  have "range_in names lo hi r" using item by (simp add: rs item_in_def)
  then show ?thesis
  proof (cases r)
    case All
    then show ?thesis using bits [of hi lo] parse
      by (simp add: parse_item_def rs numbers_def step_def [symmetric])
  next
    case (One x)
    then obtain v where v: "value_of names lo x = Some v" "lo \<le> v" "v \<le> hi"
      using \<open>range_in names lo hi r\<close> value_in_Some [of names lo hi x] by auto
    note chars = show_value_alnum [OF names v(1)]
    have "show_value x \<noteq> ''*''" using chars by auto
    moreover have "split_once CHR ''-'' (show_value x) = None" using chars alnum_no alnum_plain(2) by (simp add: split_once_absent)
    moreover have "parse_value (show_value x) lo name names = Inr v"
      using parse_value_show [OF names v(1,3)] \<open>hi < 60\<close> by simp
    ultimately have p: "parse_item (show_item item) lo hi name names
        = (case st of Some _ \<Rightarrow> (case step_bits v hi step 0 of Some bits \<Rightarrow> Inr bits | None \<Rightarrow> Inl StepOverflow)
           | None \<Rightarrow> Inr (push_bit v 1))"
      using v parse by (simp add: parse_item_def rs One check_range_def step_def del: push_bit_of_1 split: option.split)
    show ?thesis
    proof (cases st)
      case None
      then have "numbers names lo hi item n \<longleftrightarrow> n = v" for n using v by (auto simp: numbers_def rs One)
      moreover have "bit (push_bit v 1 :: u64) n \<longleftrightarrow> n = v" for n
        unfolding bit_one_at using v(3) \<open>hi < 60\<close> by auto
      ultimately show ?thesis using p None by (simp del: push_bit_of_1)
    next
      case (Some s)
      then show ?thesis using bits [of hi v] p v by (simp add: numbers_def rs One step_def)
    qed
  next
    case (Span x y)
    then obtain v w where v: "value_of names lo x = Some v" "lo \<le> v" "v \<le> hi"
      and w: "value_of names lo y = Some w" "lo \<le> w" "w \<le> hi" and "v \<le> w"
      using \<open>range_in names lo hi r\<close> value_in_Some [of names lo hi x] value_in_Some [of names lo hi y] by auto
    note chars = show_value_alnum [OF names v(1)]
    have "CHR ''-'' \<notin> set (show_value x)" using chars alnum_no alnum_plain(2) by blast
    moreover have "show_value x @ CHR ''-'' # show_value y \<noteq> ''*''" using chars by (cases "show_value x") auto
    moreover have "parse_value (show_value x) lo name names = Inr v" "parse_value (show_value y) lo name names = Inr w"
      using parse_value_show [OF names] v w \<open>hi < 60\<close> by simp_all
    ultimately have "parse_item (show_item item) lo hi name names
        = (case step_bits v w step 0 of Some bits \<Rightarrow> Inr bits | None \<Rightarrow> Inl StepOverflow)"
      using v w \<open>v \<le> w\<close> parse by (simp add: parse_item_def rs Span check_range_def step_def)
    then show ?thesis using bits [of w v] v w by (simp add: numbers_def rs Span step_def)
  qed
qed

lemma parse_items_show:
  assumes names: "names_ok names" and "hi < 60"
  shows "list_all (item_in names lo hi) items \<Longrightarrow>
    \<exists>b. parse_items (map show_item items) lo hi name names bits = Inr b
      \<and> (\<forall>n. bit b n \<longleftrightarrow> bit bits n \<or> (\<exists>item\<in>set items. numbers names lo hi item n))"
proof (induction items arbitrary: bits)
  case (Cons item items)
  then have item: "item_in names lo hi item" by simp
  obtain b where b: "parse_item (show_item item) lo hi name names = Inr b" "\<And>n. bit b n \<longleftrightarrow> numbers names lo hi item n"
    using parse_item_show [OF assms item, of name] by blast
  have "show_item item \<noteq> []" using show_item_chars [OF names item] by blast
  then show ?case using Cons.IH [of "bits OR b"] Cons.prems b by (auto simp: bit_or_iff)
qed simp

lemma field_text:
  assumes "names_ok names" "list_all (item_in names lo hi) items" "items \<noteq> []"
  shows "split_on CHR '','' (show_field items) = map show_item items"
proof -
  have "\<not> item_char CHR '',''" by (simp add: item_char_def)
  then have "\<forall>p\<in>set (map show_item items). CHR '','' \<notin> set p"
    using show_item_chars [OF assms(1)] assms(2) by (fastforce simp: list_all_iff)
  then show ?thesis using assms(3) unfolding show_field_def by (intro split_on_join) simp_all
qed

definition field_in :: "string list \<Rightarrow> nat \<Rightarrow> nat \<Rightarrow> cron_item list \<Rightarrow> bool" where
  "field_in names lo hi items \<longleftrightarrow> items \<noteq> [] \<and> list_all (item_in names lo hi) items"

lemma item_in_nonempty: "lo \<le> hi \<Longrightarrow> item_in names lo hi item \<Longrightarrow> numbers names lo hi item (fst (bounds_of names lo hi item))"
  by (cases "(names, lo, hi, item)" rule: bounds_of.cases) (auto simp: numbers_def item_in_def value_in_def split: option.splits)

lemma parse_field_show:
  assumes names: "names_ok names" and "hi < 60" "lo \<le> hi" and items: "field_in names lo hi items"
  shows "\<exists>b. parse_field (show_field items) lo hi name names = Inr b
    \<and> (\<forall>n. bit b n \<longleftrightarrow> (\<exists>item\<in>set items. numbers names lo hi item n))"
proof -
  have ok: "list_all (item_in names lo hi) items" "items \<noteq> []" using items by (simp_all add: field_in_def)
  obtain b where b: "parse_items (map show_item items) lo hi name names 0 = Inr b"
    "\<And>n. bit b n \<longleftrightarrow> (\<exists>item\<in>set items. numbers names lo hi item n)"
    using parse_items_show [OF names \<open>hi < 60\<close> ok(1), of name 0] by auto
  obtain item where "item \<in> set items" using ok(2) by (cases items) auto
  then have "item_in names lo hi item" using ok(1) by (simp add: list_all_iff)
  then have "bit b (fst (bounds_of names lo hi item))"
    using b(2) item_in_nonempty [OF \<open>lo \<le> hi\<close>] \<open>item \<in> set items\<close> by blast
  then have "b \<noteq> 0" by auto
  then show ?thesis using b field_text [OF names ok] by (simp add: parse_field_def)
qed

section \<open>Expressions\<close>

lemma split_space_word: "s \<noteq> [] \<Longrightarrow> list_all (\<lambda>c. \<not> is_space c) s \<Longrightarrow> split_space s = [s]"
proof (induction s)
  case (Cons x s)
  then show ?case by (cases s) auto
qed simp

lemma split_space_cons:
  "w \<noteq> [] \<Longrightarrow> list_all (\<lambda>c. \<not> is_space c) w \<Longrightarrow> split_space (w @ CHR '' '' # s) = w # split_space s"
proof (induction w)
  case (Cons x w)
  have space: "is_space CHR '' ''" by (simp add: is_space_def)
  show ?case
  proof (cases w)
    case Nil
    then show ?thesis using Cons.prems space by simp
  next
    case (Cons y w')
    then have "split_space (w @ CHR '' '' # s) = w # split_space s" using Cons.IH Cons.prems by simp
    then show ?thesis using Cons Cons.prems by simp
  qed
qed simp

lemma split_space_join:
  "\<forall>w\<in>set ws. w \<noteq> [] \<and> list_all (\<lambda>c. \<not> is_space c) w \<Longrightarrow> split_space (join CHR '' '' ws) = ws"
  by (induction "CHR '' ''" ws rule: join.induct) (simp_all add: split_space_word split_space_cons)

lemma trim_id: "s \<noteq> [] \<Longrightarrow> \<not> is_space (hd s) \<Longrightarrow> \<not> is_space (List.last s) \<Longrightarrow> trim s = s"
proof -
  assume s: "s \<noteq> []" "\<not> is_space (hd s)" "\<not> is_space (List.last s)"
  then have "dropWhile is_space s = s" by (cases s) simp_all
  moreover have "dropWhile is_space (rev s) = rev s" using s by (cases "rev s") (auto simp flip: hd_rev)
  ultimately show ?thesis by (simp add: trim_def trim_start_def trim_end_def)
qed

lemma join_ends:
  "ws \<noteq> [] \<Longrightarrow> \<forall>w\<in>set ws. w \<noteq> [] \<Longrightarrow>
    join c ws \<noteq> [] \<and> hd (join c ws) = hd (hd ws) \<and> List.last (join c ws) = List.last (List.last ws)"
  by (induction c ws rule: join.induct) auto

record cron_spec =
  cs_second :: "cron_item list option"
  cs_minute :: "cron_item list"
  cs_hour :: "cron_item list"
  cs_dom :: "cron_item list"
  cs_month :: "cron_item list"
  cs_dow :: "cron_item list"

definition spec_ok :: "cron_spec \<Rightarrow> bool" where
  "spec_ok sp \<longleftrightarrow> (case cs_second sp of Some f \<Rightarrow> field_in [] 0 59 f | None \<Rightarrow> True) \<and> field_in [] 0 59 (cs_minute sp)
     \<and> field_in [] 0 23 (cs_hour sp) \<and> field_in [] 1 31 (cs_dom sp) \<and> field_in MONTH_NAMES 1 12 (cs_month sp)
     \<and> field_in DOW_NAMES 0 7 (cs_dow sp)"

definition spec_words :: "cron_spec \<Rightarrow> string list" where
  "spec_words sp = (case cs_second sp of Some f \<Rightarrow> [show_field f] | None \<Rightarrow> [])
     @ map show_field [cs_minute sp, cs_hour sp, cs_dom sp, cs_month sp, cs_dow sp]"

definition show_cron :: "cron_spec \<Rightarrow> string" where
  "show_cron sp = join CHR '' '' (spec_words sp)"

definition field_numbers :: "string list \<Rightarrow> nat \<Rightarrow> nat \<Rightarrow> cron_item list \<Rightarrow> nat \<Rightarrow> bool" where
  "field_numbers names lo hi items n \<longleftrightarrow> list_ex (\<lambda>item. numbers names lo hi item n) items"

text \<open>The sets an expression stands for; Sunday is 0 or 7.\<close>

definition expr_means :: "cron_spec \<Rightarrow> cron_expr \<Rightarrow> bool" where
  "expr_means sp e \<longleftrightarrow>
     (\<forall>n. bit (ce_second e) n \<longleftrightarrow> (case cs_second sp of Some f \<Rightarrow> field_numbers [] 0 59 f n | None \<Rightarrow> n = 0))
   \<and> (\<forall>n. bit (ce_minute e) n \<longleftrightarrow> field_numbers [] 0 59 (cs_minute sp) n)
   \<and> (\<forall>n. bit (ce_hour e) n \<longleftrightarrow> field_numbers [] 0 23 (cs_hour sp) n)
   \<and> (\<forall>n. bit (ce_dom e) n \<longleftrightarrow> field_numbers [] 1 31 (cs_dom sp) n)
   \<and> (\<forall>n. bit (ce_month e) n \<longleftrightarrow> field_numbers MONTH_NAMES 1 12 (cs_month sp) n)
   \<and> (\<forall>n. bit (ce_dow e) n \<longleftrightarrow> n < 7 \<and> (field_numbers DOW_NAMES 0 7 (cs_dow sp) n \<or> n = 0 \<and> field_numbers DOW_NAMES 0 7 (cs_dow sp) 7))"

lemma item_char_plain: "item_char c \<Longrightarrow> \<not> is_space c \<and> c \<noteq> CHR ''@''"
  by (auto simp: item_char_def dest: alnum_not_space) (simp_all add: is_space_def)

lemma field_word:
  assumes "names_ok names" "field_in names lo hi items"
  shows "show_field items \<noteq> [] \<and> list_all (\<lambda>c. \<not> is_space c) (show_field items) \<and> hd (show_field items) \<noteq> CHR ''@''"
proof -
  have items: "\<forall>item\<in>set items. item_in names lo hi item" "items \<noteq> []" using assms(2) by (simp_all add: field_in_def list_all_iff)
  have words: "\<forall>w\<in>set (map show_item items). w \<noteq> [] \<and> list_all item_char w"
    using show_item_chars [OF assms(1)] items(1) by auto
  have "\<not> is_space CHR '',''" by (simp add: is_space_def)
  then have plain: "list_all (\<lambda>c. \<not> is_space c) (join CHR '','' ws)" if "\<forall>w\<in>set ws. w \<noteq> [] \<and> list_all item_char w" for ws
    using that
  proof (induction "CHR '',''" ws rule: join.induct)
    case (2 p)
    then show ?case using item_char_plain by (auto simp: list_all_iff)
  next
    case (3 p q ps)
    then show ?case using item_char_plain by (auto simp: list_all_iff)
  qed simp
  obtain w ws where ws: "map show_item items = w # ws" using items(2) by (cases items) auto
  have "join CHR '','' (map show_item items) \<noteq> []" "hd (join CHR '','' (map show_item items)) = hd w"
    using join_ends [of "map show_item items"] words ws by auto
  moreover have "hd w \<noteq> CHR ''@''" using words ws item_char_plain by (cases w) auto
  ultimately show ?thesis using plain [OF words] by (simp add: show_field_def)
qed

lemma numbers_le: "range_in names lo hi (fst item) \<Longrightarrow> numbers names lo hi item n \<Longrightarrow> n \<le> hi"
  by (cases "(names, lo, hi, item)" rule: bounds_of.cases)
    (auto simp: numbers_def value_in_def split: option.splits)

lemma field_numbers_le: "field_in names lo hi items \<Longrightarrow> field_numbers names lo hi items n \<Longrightarrow> n \<le> hi"
  using numbers_le by (fastforce simp: field_in_def field_numbers_def list_all_iff list_ex_iff item_in_def)

lemma parse_field_text:
  assumes "names_ok names" "hi < 60 \<and> lo \<le> hi" "field_in names lo hi items"
  obtains b where "parse_field (show_field items) lo hi name names = Inr b" "\<And>n. bit b n \<longleftrightarrow> field_numbers names lo hi items n"
  using parse_field_show [OF assms(1) conjunct1 [OF assms(2)] conjunct2 [OF assms(2)] assms(3), of name] by (auto simp: field_numbers_def list_ex_iff)

lemma bit_0x7F: "bit (0x7F :: u64) n \<longleftrightarrow> n < 7"
proof -
  have "(0x7F :: u64) = mask 7" by (simp add: mask_eq_exp_minus_1)
  then show ?thesis by (simp only: bit_mask_iff) auto
qed

lemma parse_dow_text:
  assumes "field_in DOW_NAMES 0 7 items"
  obtains b where "parse_dow (show_field items) = Inr b"
    "\<And>n. bit b n \<longleftrightarrow> n < 7 \<and> (field_numbers DOW_NAMES 0 7 items n \<or> n = 0 \<and> field_numbers DOW_NAMES 0 7 items 7)"
proof -
  have "(7::nat) < 60 \<and> 0 \<le> (7::nat)" by simp
  from parse_field_text [OF names_ok_tables(3) this assms, where name = "''dow''"]
  obtain b where b: "parse_field (show_field items) 0 7 ''dow'' DOW_NAMES = Inr b"
    "\<And>n. bit b n \<longleftrightarrow> field_numbers DOW_NAMES 0 7 items n" by blast
  let ?w = "ucast ((b AND 0x7F) OR (drop_bit 7 b AND 1)) :: u8"
  have "bit ?w n \<longleftrightarrow> n < 7 \<and> (bit b n \<or> n = 0 \<and> bit b 7)" for n
    unfolding bit_unsigned_iff bit_or_iff bit_and_iff bit_0x7F bit_drop_bit_eq bit_1_iff comp_def by auto
  then show thesis using that b by (simp add: parse_dow_def)
qed

lemma bit_cast: "(\<And>n. bit b n \<Longrightarrow> n < LENGTH('b)) \<Longrightarrow> bit (ucast b :: 'b::len word) n \<longleftrightarrow> bit b n" for b :: u64
  by (auto simp: bit_unsigned_iff)

lemma parse_fields_text:
  assumes ok: "spec_ok sp"
  shows "\<exists>e. parse_fields second minute (show_field (cs_hour sp)) (show_field (cs_dom sp)) (show_field (cs_month sp)) (show_field (cs_dow sp)) source = Inr e
    \<and> ce_source e = source \<and> ce_second e = second \<and> ce_minute e = minute
    \<and> (\<forall>n. bit (ce_hour e) n \<longleftrightarrow> field_numbers [] 0 23 (cs_hour sp) n)
    \<and> (\<forall>n. bit (ce_dom e) n \<longleftrightarrow> field_numbers [] 1 31 (cs_dom sp) n)
    \<and> (\<forall>n. bit (ce_month e) n \<longleftrightarrow> field_numbers MONTH_NAMES 1 12 (cs_month sp) n)
    \<and> (\<forall>n. bit (ce_dow e) n \<longleftrightarrow> n < 7 \<and> (field_numbers DOW_NAMES 0 7 (cs_dow sp) n \<or> n = 0 \<and> field_numbers DOW_NAMES 0 7 (cs_dow sp) 7))"
proof -
  have fields: "field_in [] 0 23 (cs_hour sp)" "field_in [] 1 31 (cs_dom sp)" "field_in MONTH_NAMES 1 12 (cs_month sp)"
    "field_in DOW_NAMES 0 7 (cs_dow sp)" using ok by (simp_all add: spec_ok_def)
  have lim: "(23::nat) < 60 \<and> 0 \<le> (23::nat)" "(31::nat) < 60 \<and> 1 \<le> (31::nat)" "(12::nat) < 60 \<and> 1 \<le> (12::nat)" by simp_all
  from parse_field_text [OF names_ok_tables(1) lim(1) fields(1), where name = "''hour''"] obtain hour where
    hour: "parse_field (show_field (cs_hour sp)) 0 23 ''hour'' [] = Inr hour" "\<And>n. bit hour n \<longleftrightarrow> field_numbers [] 0 23 (cs_hour sp) n" by blast
  from parse_field_text [OF names_ok_tables(1) lim(2) fields(2), where name = "''dom''"] obtain days where
    days: "parse_field (show_field (cs_dom sp)) 1 31 ''dom'' [] = Inr days" "\<And>n. bit days n \<longleftrightarrow> field_numbers [] 1 31 (cs_dom sp) n" by blast
  from parse_field_text [OF names_ok_tables(2) lim(3) fields(3), where name = "''month''"] obtain month where
    month: "parse_field (show_field (cs_month sp)) 1 12 ''month'' MONTH_NAMES = Inr month"
    "\<And>n. bit month n \<longleftrightarrow> field_numbers MONTH_NAMES 1 12 (cs_month sp) n" by blast
  from parse_dow_text [OF fields(4)] obtain dow where
    dow: "parse_dow (show_field (cs_dow sp)) = Inr dow"
    "\<And>n. bit dow n \<longleftrightarrow> n < 7 \<and> (field_numbers DOW_NAMES 0 7 (cs_dow sp) n \<or> n = 0 \<and> field_numbers DOW_NAMES 0 7 (cs_dow sp) 7)" by blast
  have "bit (ucast hour :: u32) n \<longleftrightarrow> bit hour n" for n
    using hour(2) field_numbers_le [OF fields(1)] by (intro bit_cast) force
  moreover have "bit (ucast days :: u32) n \<longleftrightarrow> bit days n" for n
    using days(2) field_numbers_le [OF fields(2)] by (intro bit_cast) force
  moreover have "bit (ucast month :: u16) n \<longleftrightarrow> bit month n" for n
    using month(2) field_numbers_le [OF fields(3)] by (intro bit_cast) force
  ultimately show ?thesis by (simp add: parse_fields_def hour days month dow del: One_nat_def)
qed

text \<open>C23: The text of an expression parses to its meaning: for well-formed items (a star, a number or a name of the
field's table, or a range of them that is not empty, each with an optional step, whose numbers are in the range of the
field), the expression written with five or six fields is accepted and the bits of each field are exactly the numbers
its items stand for, Sunday being 0 and 7.\<close>

theorem cron_parse_correct:
  assumes "spec_ok sp"
  shows "\<exists>e. cron_parse (show_cron sp) = Inr e \<and> ce_source e = show_cron sp \<and> expr_means sp e"
proof -
  let ?words = "spec_words sp"
  have minute: "field_in [] 0 59 (cs_minute sp)" using assms by (simp add: spec_ok_def)
  have word: "w \<noteq> [] \<and> list_all (\<lambda>c. \<not> is_space c) w \<and> hd w \<noteq> CHR ''@''" if "w \<in> set ?words" for w
    using that assms field_word [OF names_ok_tables(1)] field_word [OF names_ok_tables(2)] field_word [OF names_ok_tables(3)]
    by (auto simp: spec_words_def spec_ok_def split: option.splits)
  have "?words \<noteq> []" by (simp add: spec_words_def)
  then have ends: "show_cron sp \<noteq> []" "hd (show_cron sp) = hd (hd ?words)" "List.last (show_cron sp) = List.last (List.last ?words)"
    using join_ends [of ?words] word by (simp_all add: show_cron_def)
  have first: "hd ?words \<in> set ?words" "List.last ?words \<in> set ?words" using \<open>?words \<noteq> []\<close> by simp_all
  have "\<not> is_space (hd (hd ?words))" using word [OF first(1)] by (auto simp: list_all_iff)
  moreover have "\<not> is_space (List.last (List.last ?words))" using word [OF first(2)] by (auto simp: list_all_iff)
  ultimately have trim: "trim (show_cron sp) = show_cron sp" using ends by (intro trim_id) simp_all
  have "hd (show_cron sp) \<noteq> CHR ''@''" using word [OF first(1)] ends(2) by simp
  then have "strip_prefix ''@'' (show_cron sp) = None" using ends(1) by (cases "show_cron sp") (simp_all add: strip_prefix_def)
  moreover have "split_space (show_cron sp) = ?words" unfolding show_cron_def using word by (intro split_space_join) blast
  ultimately have parse: "cron_parse (show_cron sp) =
      (if length ?words = 5 then parse_5 ?words (show_cron sp) else if length ?words = 6 then parse_6 ?words (show_cron sp)
       else Inl (FieldCount (length ?words)))"
    by (simp add: cron_parse_def trim Let_def)
  have lim: "(59::nat) < 60 \<and> 0 \<le> (59::nat)" by simp
  from parse_field_text [OF names_ok_tables(1) lim minute, where name = "''minute''"] obtain min where
    min: "parse_field (show_field (cs_minute sp)) 0 59 ''minute'' [] = Inr min"
    "\<And>n. bit min n \<longleftrightarrow> field_numbers [] 0 59 (cs_minute sp) n" by blast
  show ?thesis
  proof (cases "cs_second sp")
    case None
    obtain e where e: "parse_fields 1 min (show_field (cs_hour sp)) (show_field (cs_dom sp)) (show_field (cs_month sp)) (show_field (cs_dow sp)) (show_cron sp) = Inr e"
      "ce_source e = show_cron sp" "expr_means sp e"
      using parse_fields_text [OF assms, of 1 min "show_cron sp"] min(2) None by (auto simp: expr_means_def bit_1_iff)
    then show ?thesis using parse None min(1) by (simp add: spec_words_def parse_5_def)
  next
    case (Some f)
    then have "field_in [] 0 59 f" using assms by (simp add: spec_ok_def)
    from parse_field_text [OF names_ok_tables(1) lim this, where name = "''second''"] obtain sec where
      sec: "parse_field (show_field f) 0 59 ''second'' [] = Inr sec" "\<And>n. bit sec n \<longleftrightarrow> field_numbers [] 0 59 f n" by blast
    obtain e where e: "parse_fields sec min (show_field (cs_hour sp)) (show_field (cs_dom sp)) (show_field (cs_month sp)) (show_field (cs_dow sp)) (show_cron sp) = Inr e"
      "ce_source e = show_cron sp" "expr_means sp e"
      using parse_fields_text [OF assms, of sec min "show_cron sp"] min(2) sec(2) Some by (auto simp: expr_means_def)
    then show ?thesis using parse Some min(1) sec(1) by (simp add: spec_words_def parse_6_def)
  qed
qed

definition office_hours :: cron_spec where
  "office_hours = \<lparr>cs_second = None, cs_minute = [(All, Some 15)], cs_hour = [(Span (Num 8) (Num 17), None)], cs_dom = [(All, None)],
     cs_month = [(All, None)], cs_dow = [(Span (Named ''mon'') (Named ''FRI''), None), (One (Num 7), None)]\<rparr>"

theorem cron_parse_correct_witness:
  "\<exists>e. cron_parse (show_cron office_hours) = Inr e \<and> ce_source e = show_cron office_hours \<and> expr_means office_hours e"
proof (rule cron_parse_correct)
  have "position (\<lambda>n. n = map upper_char ''mon'') DOW_NAMES = Some 1" "position (\<lambda>n. n = map upper_char ''FRI'') DOW_NAMES = Some 5"
    by code_simp+
  then show "spec_ok office_hours"
    by (simp add: office_hours_def spec_ok_def field_in_def item_in_def value_in_def del: list.map)
qed

text \<open>Steps near the largest number: the addition overflows.\<close>

lemma step_overflow:
  assumes "lo \<le> v" "v \<le> hi" "0 < n" "n < 2 ^ 32" "2 ^ 32 \<le> v + n" "hi < 60"
  shows "parse_item (show_item (One (Num v), Some n)) lo hi name [] = Inl StepOverflow"
proof -
  have chars: "show_value (Num v) \<noteq> ''*''" "split_once CHR ''-'' (show_value (Num v)) = None"
    using show_value_alnum [of "[]" lo "Num v" v] alnum_no alnum_plain(2) by (auto simp: split_once_absent)
  have "CHR ''/'' \<notin> set (decimal v)" using decimal_alnum alnum_no alnum_plain(1) by blast
  moreover have "parse_u32 (decimal n) = Some n" unfolding parse_u32_def using assms(4) by (intro parse_unsigned_decimal) simp
  ultimately have "parse_step (show_item (One (Num v), Some n)) name = Inr (decimal v, Some n)"
    using assms(3) by (simp add: parse_step_def)
  moreover have "parse_value (decimal v) lo name [] = Inr v"
    using parse_value_show [of "[]" lo "Num v" v hi name] assms by simp
  moreover have "step_bits v hi n 0 = None"
    using assms by (simp only: step_bits.simps [of v hi n 0] if_False if_True not_less not_le simp_thms split: if_split) linarith
  ultimately show ?thesis using chars assms(1,2) by (simp add: parse_item_def check_range_def)
qed

section \<open>What is accepted\<close>

text \<open>Every bit of an accepted field is in the field's range, so that the narrower words lose none, and no field is empty.\<close>

lemma step_bits_range:
  "step_bits v hi step bits = Some b \<Longrightarrow> bit b n \<Longrightarrow> bit bits n \<or> v \<le> n \<and> n \<le> hi"
proof (induction v hi step bits rule: step_bits.induct)
  case (1 v hi step bits)
  show ?case
  proof (cases "hi < v")
    case True
    then show ?thesis using "1.prems" by (simp add: step_bits.simps [of v hi step bits] split: if_splits)
  next
    case False
    have step: "(if step = 0 then None else if hi < v then Some bits else if 2 ^ 32 \<le> v + step then None
        else step_bits (v + step) hi step (bits OR push_bit v 1)) = Some b"
      using "1.prems"(1) by (simp only: step_bits.simps [of v hi step bits])
    have "step \<noteq> 0" "\<not> 2 ^ 32 \<le> v + step" using step False by (metis option.distinct(1))+
    moreover from this have rest: "step_bits (v + step) hi step (bits OR push_bit v 1) = Some b"
      using step False by (simp only: if_False)
    ultimately have this: "step \<noteq> 0" "\<not> 2 ^ 32 \<le> v + step" by blast+
    from "1.IH" [OF this(1) False this(2) rest "1.prems"(2)] show ?thesis
      using False by (auto simp: bit_or_iff bit_exp_iff)
  qed
qed

lemma parse_item_range:
  assumes "parse_item item lo hi name names = Inr b" "bit b n"
  shows "lo \<le> n \<and> n \<le> hi"
proof -
  obtain r st where st: "parse_step item name = Inr (r, st)" using assms(1) by (auto simp: parse_item_def split: sum.splits)
  have bits: "lo \<le> n \<and> n \<le> hi" if "(case step_bits a z s 0 of Some bits \<Rightarrow> Inr bits | None \<Rightarrow> Inl StepOverflow) = Inr b" "lo \<le> a" "z \<le> hi" for a z s
    using step_bits_range [of a z s 0 b n] that assms(2) by (auto split: option.splits)
  show ?thesis
    using assms bits
    by (auto simp: parse_item_def st check_range_def bit_exp_iff not_less split: if_splits option.splits sum.splits)
qed

lemma parse_items_range:
  "parse_items items lo hi name names bits = Inr b \<Longrightarrow> bit b n \<Longrightarrow> bit bits n \<or> lo \<le> n \<and> n \<le> hi"
proof (induction items arbitrary: bits)
  case (Cons item items)
  then show ?case using parse_item_range [of item lo hi name names _ n] by (fastforce simp: bit_or_iff split: if_splits sum.splits)
qed simp

lemma parse_field_range:
  "parse_field field lo hi name names = Inr b \<Longrightarrow> b \<noteq> 0 \<and> (\<forall>n. bit b n \<longrightarrow> lo \<le> n \<and> n \<le> hi)"
  using parse_items_range [of "split_on CHR '','' field" lo hi name names 0 b]
  by (auto simp: parse_field_def split: sum.splits if_splits)

end
