(* ===== verification/Cron_Next.thy ===== *)
theory Cron_Next
  imports Cron
begin

text \<open>
  The next and the previous time of a cron expression (\<^verbatim>\<open>cron.rs\<close>).  The date-time type of the
  \<^verbatim>\<open>time\<close> library is the parameter \<open>cal\<close>; what the code relies on is \<open>calendar_ok\<close>, which states
  the library's documentation: the clock fields are the digits of the instant (all evaluation is in
  UTC), dates are ordered like instants, replacing a field fails exactly where the result is no date,
  additions fail past the ends of the calendar.  A loop is a partial function: that it returns is part of the theorems.
\<close>

section \<open>Date-times\<close>

record 'd calendar =
  cal_year :: "'d \<Rightarrow> int"
  cal_month :: "'d \<Rightarrow> nat"
  cal_day :: "'d \<Rightarrow> nat"
  cal_weekday :: "'d \<Rightarrow> nat"
  cal_hour :: "'d \<Rightarrow> nat"
  cal_minute :: "'d \<Rightarrow> nat"
  cal_second :: "'d \<Rightarrow> nat"
  cal_nanosecond :: "'d \<Rightarrow> nat"
  cal_instant :: "'d \<Rightarrow> int"
  cal_replace_nanosecond :: "nat \<Rightarrow> 'd \<Rightarrow> 'd option"
  cal_replace_second :: "nat \<Rightarrow> 'd \<Rightarrow> 'd option"
  cal_replace_minute :: "nat \<Rightarrow> 'd \<Rightarrow> 'd option"
  cal_replace_hour :: "nat \<Rightarrow> 'd \<Rightarrow> 'd option"
  cal_replace_day :: "nat \<Rightarrow> 'd \<Rightarrow> 'd option"
  cal_replace_month :: "nat \<Rightarrow> 'd \<Rightarrow> 'd option"
  cal_replace_year :: "int \<Rightarrow> 'd \<Rightarrow> 'd option"
  cal_plus_seconds :: "int \<Rightarrow> 'd \<Rightarrow> 'd option"

text \<open>What an expression of the code yields: a value, \<^verbatim>\<open>None\<close> returned by \<^verbatim>\<open>?\<close>, or a panic.\<close>

datatype 'a attempt = Yields 'a | Fails | Panics

definition ok_or_fail :: "'a option \<Rightarrow> ('a \<Rightarrow> 'b attempt) \<Rightarrow> 'b attempt" where
  "ok_or_fail x f = (case x of Some a \<Rightarrow> f a | None \<Rightarrow> Fails)"

definition plus_or_panic :: "'d calendar \<Rightarrow> int \<Rightarrow> 'd \<Rightarrow> 'd attempt" where
  "plus_or_panic cal seconds dt = (case cal_plus_seconds cal seconds dt of Some d \<Rightarrow> Yields d | None \<Rightarrow> Panics)"

definition month_next :: "nat \<Rightarrow> nat" where
  "month_next m = (if m = 12 then 1 else m + 1)"

definition month_previous :: "nat \<Rightarrow> nat" where
  "month_previous m = (if m = 1 then 12 else m - 1)"

section \<open>Moving through the calendar\<close>

definition advance_minute :: "'d calendar \<Rightarrow> 'd \<Rightarrow> 'd attempt" where
  "advance_minute cal dt = ok_or_fail (cal_replace_second cal 0 dt) (plus_or_panic cal 60)"

definition advance_hour :: "'d calendar \<Rightarrow> 'd \<Rightarrow> 'd attempt" where
  "advance_hour cal dt =
     ok_or_fail (cal_replace_second cal 0 dt) (\<lambda>dt. ok_or_fail (cal_replace_minute cal 0 dt) (plus_or_panic cal 3600))"

definition advance_day :: "'d calendar \<Rightarrow> 'd \<Rightarrow> 'd attempt" where
  "advance_day cal dt =
     ok_or_fail (cal_replace_second cal 0 dt) (\<lambda>dt. ok_or_fail (cal_replace_minute cal 0 dt)
       (\<lambda>dt. ok_or_fail (cal_replace_hour cal 0 dt) (plus_or_panic cal 86400)))"

definition advance_month :: "'d calendar \<Rightarrow> 'd \<Rightarrow> 'd attempt" where
  "advance_month cal dt =
     ok_or_fail (cal_replace_second cal 0 dt) (\<lambda>dt. ok_or_fail (cal_replace_minute cal 0 dt)
       (\<lambda>dt. ok_or_fail (cal_replace_hour cal 0 dt) (\<lambda>dt. ok_or_fail (cal_replace_day cal 1 dt)
         (\<lambda>dt. let m = month_next (cal_month cal dt);
                   y = (if m = 1 then cal_year cal dt + 1 else cal_year cal dt)
               in ok_or_fail (cal_replace_month cal m dt) (\<lambda>dt. ok_or_fail (cal_replace_year cal y dt) Yields)))))"

definition retreat_minute :: "'d calendar \<Rightarrow> 'd \<Rightarrow> 'd attempt" where
  "retreat_minute cal dt = ok_or_fail (cal_replace_second cal 59 dt) (plus_or_panic cal (- 60))"

definition retreat_hour :: "'d calendar \<Rightarrow> 'd \<Rightarrow> 'd attempt" where
  "retreat_hour cal dt =
     ok_or_fail (cal_replace_second cal 59 dt) (\<lambda>dt. ok_or_fail (cal_replace_minute cal 59 dt) (plus_or_panic cal (- 3600)))"

definition retreat_day :: "'d calendar \<Rightarrow> 'd \<Rightarrow> 'd attempt" where
  "retreat_day cal dt =
     ok_or_fail (cal_replace_second cal 59 dt) (\<lambda>dt. ok_or_fail (cal_replace_minute cal 59 dt)
       (\<lambda>dt. ok_or_fail (cal_replace_hour cal 23 dt) (plus_or_panic cal (- 86400))))"

definition days_in_month :: "int \<Rightarrow> nat \<Rightarrow> nat" where
  "days_in_month year month =
     (if month = 2 then (if year mod 4 = 0 \<and> (year mod 100 \<noteq> 0 \<or> year mod 400 = 0) then 29 else 28)
      else if month = 4 \<or> month = 6 \<or> month = 9 \<or> month = 11 then 30 else 31)"

definition retreat_month :: "'d calendar \<Rightarrow> 'd \<Rightarrow> 'd attempt" where
  "retreat_month cal dt =
     (let m = month_previous (cal_month cal dt);
          y = (if m = 12 then cal_year cal dt - 1 else cal_year cal dt);
          last_day = days_in_month y m
      in ok_or_fail (cal_replace_month cal m dt) (\<lambda>dt. ok_or_fail (cal_replace_year cal y dt)
           (\<lambda>dt. ok_or_fail (cal_replace_day cal last_day dt) (\<lambda>dt. ok_or_fail (cal_replace_hour cal 23 dt)
             (\<lambda>dt. ok_or_fail (cal_replace_minute cal 59 dt) (\<lambda>dt. ok_or_fail (cal_replace_second cal 59 dt) Yields))))))"

section \<open>The searches\<close>

definition has_seconds :: "cron_expr \<Rightarrow> bool" where
  "has_seconds e \<longleftrightarrow> ce_second e \<noteq> 1"

text \<open>One turn of the loop: \<open>None\<close> where \<open>dt\<close> matches, else where the search goes on.\<close>

definition next_turn :: "'d calendar \<Rightarrow> cron_expr \<Rightarrow> 'd \<Rightarrow> 'd attempt option" where
  "next_turn cal e dt =
     (if ce_month e AND push_bit (cal_month cal dt) 1 = 0 then Some (advance_month cal dt)
      else if ce_dom e AND push_bit (cal_day cal dt) 1 = 0 then Some (advance_day cal dt)
      else if ce_dow e AND push_bit (cal_weekday cal dt) 1 = 0 then Some (advance_day cal dt)
      else if ce_hour e AND push_bit (cal_hour cal dt) 1 = 0 then Some (advance_hour cal dt)
      else if ce_minute e AND push_bit (cal_minute cal dt) 1 = 0 then Some (advance_minute cal dt)
      else if ce_second e AND push_bit (cal_second cal dt) 1 = 0 then Some (plus_or_panic cal 1 dt)
      else None)"

partial_function (option) next_loop :: "'d calendar \<Rightarrow> cron_expr \<Rightarrow> int \<Rightarrow> 'd \<Rightarrow> 'd attempt option" where
  "next_loop cal e limit dt =
     (if cal_instant cal dt \<le> limit
      then (case next_turn cal e dt of
              None \<Rightarrow> Some (Yields dt)
            | Some r \<Rightarrow> (case r of Yields dt \<Rightarrow> next_loop cal e limit dt | Fails \<Rightarrow> Some Fails | Panics \<Rightarrow> Some Panics))
      else Some Fails)"

text \<open>The start of a search: whole seconds, and whole minutes for expressions without seconds.\<close>

definition search_start :: "'d calendar \<Rightarrow> cron_expr \<Rightarrow> 'd \<Rightarrow> 'd option" where
  "search_start cal e dt =
     Option.bind (cal_replace_nanosecond cal 0 dt)
       (\<lambda>dt. if \<not> has_seconds e then cal_replace_second cal 0 dt else Some dt)"

definition next_after :: "'d calendar \<Rightarrow> cron_expr \<Rightarrow> 'd \<Rightarrow> 'd attempt option" where
  "next_after cal e after =
     (case search_start cal e after of
        None \<Rightarrow> Some Fails
      | Some dt \<Rightarrow>
          (case plus_or_panic cal (366 * 4 * 86400) after of
             Yields limit \<Rightarrow> next_loop cal e (cal_instant cal limit) dt
           | Fails \<Rightarrow> Some Fails
           | Panics \<Rightarrow> Some Panics))"

definition prev_turn :: "'d calendar \<Rightarrow> cron_expr \<Rightarrow> 'd \<Rightarrow> 'd attempt option" where
  "prev_turn cal e dt =
     (if ce_month e AND push_bit (cal_month cal dt) 1 = 0 then Some (retreat_month cal dt)
      else if ce_dom e AND push_bit (cal_day cal dt) 1 = 0 then Some (retreat_day cal dt)
      else if ce_dow e AND push_bit (cal_weekday cal dt) 1 = 0 then Some (retreat_day cal dt)
      else if ce_hour e AND push_bit (cal_hour cal dt) 1 = 0 then Some (retreat_hour cal dt)
      else if ce_minute e AND push_bit (cal_minute cal dt) 1 = 0 then Some (retreat_minute cal dt)
      else if ce_second e AND push_bit (cal_second cal dt) 1 = 0 then Some (plus_or_panic cal (- 1) dt)
      else None)"

partial_function (option) prev_loop :: "'d calendar \<Rightarrow> cron_expr \<Rightarrow> int \<Rightarrow> 'd \<Rightarrow> 'd attempt option" where
  "prev_loop cal e limit dt =
     (if limit \<le> cal_instant cal dt
      then (case prev_turn cal e dt of
              None \<Rightarrow> Some (Yields dt)
            | Some r \<Rightarrow> (case r of Yields dt \<Rightarrow> prev_loop cal e limit dt | Fails \<Rightarrow> Some Fails | Panics \<Rightarrow> Some Panics))
      else Some Fails)"

definition prev_before :: "'d calendar \<Rightarrow> cron_expr \<Rightarrow> 'd \<Rightarrow> 'd attempt option" where
  "prev_before cal e before =
     (case search_start cal e before of
        None \<Rightarrow> Some Fails
      | Some dt \<Rightarrow>
          (case plus_or_panic cal (- 366 * 4 * 86400) before of
             Yields limit \<Rightarrow> prev_loop cal e (cal_instant cal limit) dt
           | Fails \<Rightarrow> Some Fails
           | Panics \<Rightarrow> Some Panics))"

section \<open>What the code relies on\<close>

abbreviation (input) second_ns :: int where "second_ns \<equiv> 1000000000"
abbreviation (input) minute_ns :: int where "minute_ns \<equiv> 60000000000"
abbreviation (input) hour_ns :: int where "hour_ns \<equiv> 3600000000000"
abbreviation (input) day_ns :: int where "day_ns \<equiv> 86400000000000"

text \<open>The lengths of the months in the Gregorian calendar.\<close>

definition month_length :: "int \<Rightarrow> nat \<Rightarrow> nat" where
  "month_length y m = (if m \<in> {4, 6, 9, 11} then 30 else if m = 2 then (if 4 dvd y \<and> (100 dvd y \<longrightarrow> 400 dvd y) then 29 else 28) else 31)"

text \<open>The clock of an instant in UTC.\<close>

definition clock_ok :: "'d calendar \<Rightarrow> bool" where
  "clock_ok cal \<longleftrightarrow>
     (\<forall>d. int (cal_hour cal d) = cal_instant cal d div hour_ns mod 24
        \<and> int (cal_minute cal d) = cal_instant cal d div minute_ns mod 60
        \<and> int (cal_second cal d) = cal_instant cal d div second_ns mod 60
        \<and> int (cal_nanosecond cal d) = cal_instant cal d mod second_ns)"

text \<open>Dates change with the day, are ordered like the instants and stay in their ranges.\<close>

definition date_ok :: "'d calendar \<Rightarrow> bool" where
  "date_ok cal \<longleftrightarrow>
     (\<forall>d. 1 \<le> cal_month cal d \<and> cal_month cal d \<le> 12 \<and> 1 \<le> cal_day cal d
        \<and> cal_day cal d \<le> month_length (cal_year cal d) (cal_month cal d) \<and> cal_weekday cal d < 7)
   \<and> (\<forall>x y. cal_instant cal x div day_ns = cal_instant cal y div day_ns \<longrightarrow>
        cal_year cal x = cal_year cal y \<and> cal_month cal x = cal_month cal y \<and> cal_day cal x = cal_day cal y
        \<and> cal_weekday cal x = cal_weekday cal y)
   \<and> (\<forall>x y. cal_instant cal x \<le> cal_instant cal y \<longrightarrow>
        12 * cal_year cal x + int (cal_month cal x) \<le> 12 * cal_year cal y + int (cal_month cal y))
   \<and> (\<forall>x y. cal_year cal x = cal_year cal y \<longrightarrow> cal_month cal x = cal_month cal y \<longrightarrow> cal_day cal x \<le> cal_day cal y \<longrightarrow>
        cal_instant cal x div day_ns \<le> cal_instant cal y div day_ns)"

text \<open>Replacing a field of the clock moves the instant.\<close>

definition replace_clock_ok :: "'d calendar \<Rightarrow> bool" where
  "replace_clock_ok cal \<longleftrightarrow>
     (\<forall>n d. n < 1000000000 \<longrightarrow> (\<exists>d'. cal_replace_nanosecond cal n d = Some d'
        \<and> cal_instant cal d' = cal_instant cal d + (int n - int (cal_nanosecond cal d))))
   \<and> (\<forall>n d. n < 60 \<longrightarrow> (\<exists>d'. cal_replace_second cal n d = Some d'
        \<and> cal_instant cal d' = cal_instant cal d + (int n - int (cal_second cal d)) * second_ns))
   \<and> (\<forall>n d. n < 60 \<longrightarrow> (\<exists>d'. cal_replace_minute cal n d = Some d'
        \<and> cal_instant cal d' = cal_instant cal d + (int n - int (cal_minute cal d)) * minute_ns))
   \<and> (\<forall>n d. n < 24 \<longrightarrow> (\<exists>d'. cal_replace_hour cal n d = Some d'
        \<and> cal_instant cal d' = cal_instant cal d + (int n - int (cal_hour cal d)) * hour_ns))"

text \<open>Replacing a part of the date keeps the others and the time of day, and fails where the month is too short.\<close>

definition is_date :: "'d calendar \<Rightarrow> 'd \<Rightarrow> int \<Rightarrow> nat \<Rightarrow> nat \<Rightarrow> 'd \<Rightarrow> bool" where
  "is_date cal d' y m n d \<longleftrightarrow> cal_year cal d' = y \<and> cal_month cal d' = m \<and> cal_day cal d' = n
     \<and> cal_instant cal d' mod day_ns = cal_instant cal d mod day_ns"

definition replace_date_ok :: "'d calendar \<Rightarrow> bool" where
  "replace_date_ok cal \<longleftrightarrow>
     (\<forall>n d. 1 \<le> n \<longrightarrow> n \<le> month_length (cal_year cal d) (cal_month cal d) \<longrightarrow>
        (\<exists>d'. cal_replace_day cal n d = Some d' \<and> is_date cal d' (cal_year cal d) (cal_month cal d) n d))
   \<and> (\<forall>m d. 1 \<le> m \<longrightarrow> m \<le> 12 \<longrightarrow>
        (if cal_day cal d \<le> month_length (cal_year cal d) m
         then \<exists>d'. cal_replace_month cal m d = Some d' \<and> is_date cal d' (cal_year cal d) m (cal_day cal d) d
         else cal_replace_month cal m d = None))
   \<and> (\<forall>y d. - 9999 \<le> y \<longrightarrow> y \<le> 9999 \<longrightarrow> cal_day cal d \<le> month_length y (cal_month cal d) \<longrightarrow>
        (\<exists>d'. cal_replace_year cal y d = Some d' \<and> is_date cal d' y (cal_month cal d) (cal_day cal d) d))"

text \<open>Additions succeed between the first and the last instant of the calendar, the year 9999 being the last.\<close>

definition plus_ok :: "'d calendar \<Rightarrow> int \<Rightarrow> int \<Rightarrow> bool" where
  "plus_ok cal first final \<longleftrightarrow>
     (\<forall>n d. first \<le> cal_instant cal d + n * second_ns \<longrightarrow> cal_instant cal d + n * second_ns \<le> final \<longrightarrow>
        (\<exists>d'. cal_plus_seconds cal n d = Some d' \<and> cal_instant cal d' = cal_instant cal d + n * second_ns))
   \<and> (\<forall>d. cal_instant cal d + 366 * day_ns \<le> final \<longrightarrow> cal_year cal d < 9999)
   \<and> (\<forall>d. first + 366 * day_ns \<le> cal_instant cal d \<longrightarrow> - 9999 < cal_year cal d)"

definition calendar_ok :: "'d calendar \<Rightarrow> int \<Rightarrow> int \<Rightarrow> bool" where
  "calendar_ok cal first final \<longleftrightarrow>
     clock_ok cal \<and> date_ok cal \<and> replace_clock_ok cal \<and> replace_date_ok cal \<and> plus_ok cal first final"

text \<open>A time that matches an expression.\<close>

definition cron_matches :: "'d calendar \<Rightarrow> cron_expr \<Rightarrow> 'd \<Rightarrow> bool" where
  "cron_matches cal e d \<longleftrightarrow> bit (ce_second e) (cal_second cal d) \<and> bit (ce_minute e) (cal_minute cal d)
     \<and> bit (ce_hour e) (cal_hour cal d) \<and> bit (ce_dom e) (cal_day cal d) \<and> bit (ce_month e) (cal_month cal d)
     \<and> bit (ce_dow e) (cal_weekday cal d)"

end
