(* ===== verification/Gregorian.thy ===== *)
theory Gregorian
  imports Cron_Next
begin

text \<open>
  The proleptic Gregorian calendar on nanoseconds since 1970: a calendar with the documented behaviour
  on which the code of the contact coordinator relies, so that \<open>calendar_ok\<close> can hold.
\<close>

section \<open>Years and months\<close>

text \<open>The number of the first of January, counted from the first of January 1970.\<close>

definition jan1 :: "int \<Rightarrow> int" where
  "jan1 y = 365 * (y - 1) + (y - 1) div 4 - (y - 1) div 100 + (y - 1) div 400 - 719162"

definition leap :: "int \<Rightarrow> bool" where
  "leap y \<longleftrightarrow> 4 dvd y \<and> (100 dvd y \<longrightarrow> 400 dvd y)"

lemma div_pred: "0 < k \<Longrightarrow> y div k = (y - 1) div k + (if k dvd y then 1 else 0)" for y k :: int
proof -
  assume k: "0 < k"
  have r: "0 \<le> y mod k" "y mod k < k" "y = y div k * k + y mod k" using k by simp_all
  show ?thesis
  proof (cases "k dvd y")
    case True
    then have "y - 1 = (y div k - 1) * k + (k - 1)" by (simp add: left_diff_distrib)
    then have "(y - 1) div k = y div k - 1" using k by (smt (verit) div_mult_self1 div_pos_pos_trivial add.commute)
    then show ?thesis using True by simp
  next
    case False
    then have "0 < y mod k" using r(1) by (simp add: dvd_eq_mod_eq_0)
    then have "y - 1 = y div k * k + (y mod k - 1)" "0 \<le> y mod k - 1" "y mod k - 1 < k" using r by simp_all
    then have "(y - 1) div k = y div k" by (smt (verit) div_mult_self1 div_pos_pos_trivial add.commute k)
    then show ?thesis using False by simp
  qed
qed

lemma count_ifs:
  "q \<longrightarrow> p \<Longrightarrow> r \<longrightarrow> q \<Longrightarrow>
    (if p then 1 else 0) - (if q then 1 else 0) + (if r then 1 else 0) = (if p \<and> (q \<longrightarrow> r) then 1 else 0 :: int)"
  by (cases p; cases q; cases r; simp)

lemma leap_count:
  "(if 4 dvd y then 1 else 0) - (if 100 dvd y then 1 else 0) + (if 400 dvd y then 1 else 0) = (if leap y then 1 else 0 :: int)"
proof -
  have d: "(4::int) dvd 100" "(100::int) dvd 400" by simp_all
  have "100 dvd y \<longrightarrow> 4 dvd y" "400 dvd y \<longrightarrow> 100 dvd y"
    by (rule impI, erule dvd_trans [OF d(1)], rule impI, erule dvd_trans [OF d(2)])
  then show ?thesis unfolding leap_def by (rule count_ifs)
qed

lemma jan1_next: "jan1 (y + 1) = jan1 y + (if leap y then 366 else 365)"
proof -
  define a b c where "a = (y - 1) div 4" and "b = (y - 1) div 100" and "c = (y - 1) div 400"
  define i j k :: int where "i = (if 4 dvd y then 1 else 0)" and "j = (if 100 dvd y then 1 else 0)" and "k = (if 400 dvd y then 1 else 0)"
  have "y div 4 = a + i" "y div 100 = b + j" "y div 400 = c + k"
    unfolding a_def b_def c_def i_def j_def k_def by (rule div_pred; simp)+
  then have "jan1 (y + 1) = 365 * y + (a + i) - (b + j) + (c + k) - 719162"
    unfolding jan1_def add_diff_cancel_right' by (simp only:)
  moreover have "jan1 y = 365 * (y - 1) + a - b + c - 719162" by (simp only: jan1_def a_def b_def c_def)
  moreover have "i - j + k = (if leap y then 1 else 0)" unfolding i_def j_def k_def by (rule leap_count)
  ultimately show ?thesis by (simp add: right_diff_distrib split: if_splits)
qed

lemma jan1_step: "jan1 y \<le> jan1 (y + 1)"
  unfolding jan1_next by simp

lemma jan1_plus: "jan1 y \<le> jan1 (y + int k)"
proof (induction k)
  case (Suc k)
  have "y + int (Suc k) = y + int k + 1" by simp
  then show ?case using Suc jan1_step [of "y + int k"] by (metis order_trans)
qed simp

lemma jan1_mono: "y < z \<Longrightarrow> jan1 (y + 1) \<le> jan1 z"
  using jan1_plus [of "y + 1" "nat (z - (y + 1))"] by simp

definition year_of :: "int \<Rightarrow> int" where
  "year_of n =
     (let y = 1970 + (400 * n) div 146097
      in if jan1 (y + 1) \<le> n then y + 1 else if n < jan1 y then y - 1 else y)"

lemma jan1_bounds_aux:
  fixes a b c d e f y :: int
  assumes "4 * a = y - d" "100 * b = y - e" "400 * c = y - f" "0 \<le> d" "d < 4" "0 \<le> e" "e < 100" "0 \<le> f" "f < 400"
  shows "146097 * y - 287665499 \<le> 400 * (365 * y + a - b + c - 719162)" "400 * (365 * y + a - b + c - 719162) \<le> 146097 * y - 287664404"
  using assms by simp_all

lemma jan1_bounds:
  "146097 * k - 506 \<le> 400 * jan1 (1970 + k)" "400 * jan1 (1970 + k) \<le> 146097 * k + 589"
proof -
  let ?y = "1969 + k"
  have "4 * (?y div 4) = ?y - ?y mod 4" "100 * (?y div 100) = ?y - ?y mod 100" "400 * (?y div 400) = ?y - ?y mod 400"
    by (simp_all only: minus_mod_eq_mult_div)
  note bounds = jan1_bounds_aux [OF this]
  have "jan1 (1970 + k) = 365 * ?y + ?y div 4 - ?y div 100 + ?y div 400 - 719162" by (simp add: jan1_def)
  then show "146097 * k - 506 \<le> 400 * jan1 (1970 + k)" "400 * jan1 (1970 + k) \<le> 146097 * k + 589"
    using bounds by simp_all
qed

lemma year_of_correct: "jan1 (year_of n) \<le> n \<and> n < jan1 (year_of n + 1)"
proof -
  let ?k = "(400 * n) div 146097"
  have k: "146097 * ?k \<le> 400 * n" "400 * n < 146097 * (?k + 1)"
    using div_mult_mod_eq [of "400 * n" 146097] pos_mod_sign [of 146097 "400 * n"] pos_mod_bound [of 146097 "400 * n"] by simp_all
  have near: "jan1 (1970 + (q - 1)) \<le> n \<and> n < jan1 (1970 + (q + 2))" if "146097 * q \<le> 400 * n" "400 * n < 146097 * (q + 1)" for q
    using jan1_bounds(2) [of "q - 1", unfolded right_diff_distrib] jan1_bounds(1) [of "q + 2", unfolded distrib_left] that by simp
  have "1970 + (?k - 1) = 1970 + ?k - 1" "1970 + (?k + 2) = 1970 + ?k + 1 + 1" by simp_all
  then have "jan1 (1970 + ?k - 1) \<le> n" "n < jan1 (1970 + ?k + 1 + 1)" using near [OF k] by metis+
  then show ?thesis by (auto simp: year_of_def Let_def)
qed

lemma year_of_eqI: "jan1 y \<le> n \<Longrightarrow> n < jan1 (y + 1) \<Longrightarrow> year_of n = y"
  using year_of_correct [of n] jan1_mono [of y "year_of n"] jan1_mono [of "year_of n" y] by linarith

lemma year_of_mono: "m \<le> n \<Longrightarrow> year_of m \<le> year_of n"
  using year_of_correct [of n] year_of_correct [of m] jan1_mono [of "year_of n" "year_of m"] by linarith

definition days_before :: "int \<Rightarrow> nat \<Rightarrow> nat" where
  "days_before y m = sum (month_length y) {1..<m}"

function month_day :: "int \<Rightarrow> nat \<Rightarrow> nat \<Rightarrow> nat \<times> nat" where
  "month_day y m doy =
     (if 12 \<le> m \<or> doy < month_length y m then (m, doy + 1) else month_day y (m + 1) (doy - month_length y m))"
  by pat_completeness auto

termination
  by (relation "measure (\<lambda>(y, m, doy). 12 - m)") auto

declare month_day.simps [simp del]

lemma days_before_next: "1 \<le> m \<Longrightarrow> days_before y (m + 1) = days_before y m + month_length y m"
  by (simp add: days_before_def)

lemma days_before_mono: "1 \<le> m \<Longrightarrow> m < m' \<Longrightarrow> days_before y m + month_length y m \<le> days_before y m'"
proof -
  assume "1 \<le> m" "m < m'"
  then have "days_before y (m + 1) \<le> days_before y m'" unfolding days_before_def by (intro sum_mono2) auto
  then show ?thesis using days_before_next [OF \<open>1 \<le> m\<close>] by simp
qed

lemma year_days: "days_before y 13 = (if leap y then 366 else 365)"
proof -
  have "{1..<13} = {1, 2, 3, 4, 5, 6, 7, 8, 9, 10, 11, 12 :: nat}" by (simp add: set_eq_iff) arith
  then show ?thesis by (simp add: days_before_def month_length_def leap_def)
qed

lemma month_day_correct:
  "1 \<le> m \<Longrightarrow> m \<le> 12 \<Longrightarrow> days_before y m + doy < days_before y 13 \<Longrightarrow>
    month_day y m doy = (m', d) \<Longrightarrow> m \<le> m' \<and> m' \<le> 12 \<and> 1 \<le> d \<and> d \<le> month_length y m'
      \<and> days_before y m + doy = days_before y m' + (d - 1)"
proof (induction y m doy arbitrary: m' d rule: month_day.induct)
  case (1 y m doy)
  show ?case
  proof (cases "12 \<le> m \<or> doy < month_length y m")
    case True
    then have "m' = m" "d = doy + 1" using "1.prems"(4) by (simp_all add: month_day.simps [of y m doy])
    moreover have "doy < month_length y m"
      using True "1.prems"(2,3) days_before_next [OF "1.prems"(1), of y] by (cases "m = 12") auto
    ultimately show ?thesis using "1.prems"(2) by simp
  next
    case False
    have "days_before y (m + 1) + (doy - month_length y m) = days_before y m + doy"
      using False days_before_next [OF "1.prems"(1), of y] by simp
    then show ?thesis using "1.IH" [OF False, of m' d] "1.prems" False by (simp add: month_day.simps [of y m doy])
  qed
qed

definition day_number :: "int \<Rightarrow> nat \<Rightarrow> nat \<Rightarrow> int" where
  "day_number y m d = jan1 y + int (days_before y m + (d - 1))"

definition valid_date :: "int \<Rightarrow> nat \<Rightarrow> nat \<Rightarrow> bool" where
  "valid_date y m d \<longleftrightarrow> 1 \<le> m \<and> m \<le> 12 \<and> 1 \<le> d \<and> d \<le> month_length y m"

definition month_of :: "int \<Rightarrow> nat" where
  "month_of n = fst (month_day (year_of n) 1 (nat (n - jan1 (year_of n))))"

definition day_of :: "int \<Rightarrow> nat" where
  "day_of n = snd (month_day (year_of n) 1 (nat (n - jan1 (year_of n))))"

lemma date_correct: "valid_date (year_of n) (month_of n) (day_of n) \<and> day_number (year_of n) (month_of n) (day_of n) = n"
proof -
  let ?y = "year_of n" and ?doy = "nat (n - jan1 (year_of n))"
  obtain m d where md: "month_day ?y 1 ?doy = (m, d)" by fastforce
  have "?doy < days_before ?y 13" using year_of_correct [of n] jan1_next [of ?y] by (auto simp: year_days)
  then have "days_before ?y 1 + ?doy < days_before ?y 13" by (simp add: days_before_def)
  from month_day_correct [OF _ _ this md] have "1 \<le> m" "m \<le> 12" "1 \<le> d" "d \<le> month_length ?y m" "?doy = days_before ?y m + (d - 1)"
    by (simp_all add: days_before_def)
  moreover from this have "day_number ?y m d = n" using year_of_correct [of n] unfolding day_number_def by linarith
  ultimately show ?thesis using md by (simp add: valid_date_def month_of_def day_of_def)
qed

lemma in_year: "valid_date y m d \<Longrightarrow> days_before y m + (d - 1) < days_before y 13"
  using days_before_mono [of m 13 y] by (auto simp: valid_date_def)

lemma day_number_order:
  assumes "valid_date y m d" "valid_date y m' d'" "days_before y m + (d - 1) \<le> days_before y m' + (d' - 1)"
  shows "m \<le> m'"
  using assms days_before_mono [of m' m y] by (cases "m' < m") (auto simp: valid_date_def)

lemma date_unique:
  assumes "valid_date y m d"
  shows "year_of (day_number y m d) = y \<and> month_of (day_number y m d) = m \<and> day_of (day_number y m d) = d"
proof -
  let ?n = "day_number y m d"
  have "jan1 y \<le> ?n" "?n < jan1 (y + 1)" using in_year [OF assms] by (auto simp: day_number_def jan1_next year_days)
  then have y: "year_of ?n = y" by (rule year_of_eqI)
  have n: "valid_date y (month_of ?n) (day_of ?n)" "day_number y (month_of ?n) (day_of ?n) = ?n"
    using date_correct [of ?n] unfolding y by blast+
  then have eq: "days_before y (month_of ?n) + (day_of ?n - 1) = days_before y m + (d - 1)" by (simp add: day_number_def)
  then have "month_of ?n = m" using day_number_order [OF assms n(1)] day_number_order [OF n(1) assms] by simp
  then show ?thesis using y eq n(1) assms by (auto simp: valid_date_def)
qed

lemma month_order: "m \<le> n \<Longrightarrow> 12 * year_of m + int (month_of m) \<le> 12 * year_of n + int (month_of n)"
proof -
  assume "m \<le> n"
  note m = date_correct [of m] and n = date_correct [of n]
  show ?thesis
  proof (cases "year_of m = year_of n")
    case True
    then have "days_before (year_of n) (month_of m) + (day_of m - 1) \<le> days_before (year_of n) (month_of n) + (day_of n - 1)"
      using m n \<open>m \<le> n\<close> by (simp add: day_number_def)
    then have "month_of m \<le> month_of n" using day_number_order m n True by metis
    then show ?thesis using True by simp
  next
    case False
    then have "year_of m + 1 \<le> year_of n" using year_of_mono [OF \<open>m \<le> n\<close>] by simp
    then show ?thesis using m n by (auto simp: valid_date_def)
  qed
qed

section \<open>The calendar\<close>

definition date_number :: "int \<Rightarrow> int" where
  "date_number t = t div day_ns"

text \<open>The instant of a date at the time of day of another.\<close>

definition at_date :: "int \<Rightarrow> int \<Rightarrow> nat \<Rightarrow> nat \<Rightarrow> int option" where
  "at_date t y m d =
     (if valid_date y m d then Some (day_number y m d * day_ns + t mod day_ns) else None)"

definition replace_clock :: "nat \<Rightarrow> int \<Rightarrow> int \<Rightarrow> nat \<Rightarrow> int \<Rightarrow> int option" where
  "replace_clock base unit old n t = (if n < base then Some (t + (int n - old) * unit) else None)"

definition last_instant :: int where
  "last_instant = jan1 10000 * day_ns - 1"

definition first_instant :: int where
  "first_instant = jan1 (- 9999) * day_ns"

definition clock_digit :: "int \<Rightarrow> int \<Rightarrow> int \<Rightarrow> nat" where
  "clock_digit unit base t = nat (t div unit mod base)"

definition gregorian :: "int calendar" where
  "gregorian = \<lparr>cal_year = (\<lambda>t. year_of (date_number t)), cal_month = (\<lambda>t. month_of (date_number t)),
     cal_day = (\<lambda>t. day_of (date_number t)), cal_weekday = (\<lambda>t. nat ((date_number t + 4) mod 7)),
     cal_hour = clock_digit hour_ns 24, cal_minute = clock_digit minute_ns 60, cal_second = clock_digit second_ns 60,
     cal_nanosecond = (\<lambda>t. nat (t mod second_ns)), cal_instant = (\<lambda>t. t),
     cal_replace_nanosecond = (\<lambda>n t. replace_clock 1000000000 1 (t mod second_ns) n t),
     cal_replace_second = (\<lambda>n t. replace_clock 60 second_ns (int (clock_digit second_ns 60 t)) n t),
     cal_replace_minute = (\<lambda>n t. replace_clock 60 minute_ns (int (clock_digit minute_ns 60 t)) n t),
     cal_replace_hour = (\<lambda>n t. replace_clock 24 hour_ns (int (clock_digit hour_ns 24 t)) n t),
     cal_replace_day = (\<lambda>n t. at_date t (year_of (date_number t)) (month_of (date_number t)) n),
     cal_replace_month = (\<lambda>m t. at_date t (year_of (date_number t)) m (day_of (date_number t))),
     cal_replace_year = (\<lambda>y t. if - 9999 \<le> y \<and> y \<le> 9999 then at_date t y (month_of (date_number t)) (day_of (date_number t)) else None),
     cal_plus_seconds = (\<lambda>n t. if first_instant \<le> t + n * second_ns \<and> t + n * second_ns \<le> last_instant
                               then Some (t + n * second_ns) else None)\<rparr>"

lemma at_date_day: "0 \<le> r \<Longrightarrow> r < day_ns \<Longrightarrow> date_number (n * day_ns + r) = n \<and> (n * day_ns + r) mod day_ns = r"
  by (simp add: date_number_def)

lemma at_date_is_date:
  assumes "valid_date y m d"
  shows "\<exists>t'. at_date t y m d = Some t' \<and> is_date gregorian t' y m d t"
proof -
  let ?t' = "day_number y m d * day_ns + t mod day_ns"
  have "date_number ?t' = day_number y m d" "?t' mod day_ns = t mod day_ns"
    using at_date_day [of "t mod day_ns" "day_number y m d"] by simp_all
  then show ?thesis using assms date_unique [OF assms] by (simp add: at_date_def is_date_def gregorian_def)
qed

lemma digit_int: "0 < base \<Longrightarrow> int (clock_digit unit base t) = t div unit mod base"
  by (simp add: clock_digit_def)

lemma gregorian_clock: "clock_ok gregorian"
  unfolding clock_ok_def gregorian_def by (simp add: digit_int)

lemma gregorian_date: "date_ok gregorian"
proof -
  have valid: "valid_date (year_of n) (month_of n) (day_of n)" for n using date_correct by blast
  have "int (nat ((n + 4) mod 7)) < 7" for n :: int by simp
  then have "nat ((n + 4) mod 7) < 7" for n :: int by (metis of_nat_less_numeral_iff)
  moreover have "m \<le> n" if "year_of m = year_of n" "month_of m = month_of n" "day_of m \<le> day_of n" for m n
    using date_correct [of m] date_correct [of n] that unfolding day_number_def valid_date_def by (smt (verit) diff_le_mono nat_add_left_cancel_le of_nat_le_iff)
  ultimately show ?thesis
    unfolding date_ok_def using valid month_order [OF zdiv_mono1 [of _ _ day_ns]]
    by (auto simp: gregorian_def date_number_def valid_date_def)
qed

lemma replace_clock_in: "n < base \<Longrightarrow> replace_clock base unit old n t = Some (t + (int n - old) * unit)"
  by (simp add: replace_clock_def)

lemma gregorian_replace_clock: "replace_clock_ok gregorian"
  unfolding replace_clock_ok_def gregorian_def by (simp add: replace_clock_in)

lemma gregorian_fields [simp]:
  "cal_year gregorian t = year_of (date_number t)" "cal_month gregorian t = month_of (date_number t)"
  "cal_day gregorian t = day_of (date_number t)" "cal_instant gregorian t = t"
  by (simp_all add: gregorian_def)

lemma gregorian_replace_date: "replace_date_ok gregorian"
proof -
  have valid: "valid_date (year_of n) (month_of n) (day_of n)" for n using date_correct by blast
  show ?thesis unfolding replace_date_ok_def
  proof (intro conjI allI impI)
    fix n :: nat and t
    assume "1 \<le> n" "n \<le> month_length (cal_year gregorian t) (cal_month gregorian t)"
    then have "valid_date (year_of (date_number t)) (month_of (date_number t)) n" using valid [of "date_number t"] by (simp add: valid_date_def)
    then show "\<exists>t'. cal_replace_day gregorian n t = Some t' \<and> is_date gregorian t' (cal_year gregorian t) (cal_month gregorian t) n t"
      using at_date_is_date by (simp add: gregorian_def [THEN arg_cong [of _ _ cal_replace_day]])
  next
    fix m :: nat and t
    assume m: "1 \<le> m" "m \<le> 12"
    let ?y = "year_of (date_number t)" and ?d = "day_of (date_number t)"
    have "valid_date ?y m ?d \<longleftrightarrow> ?d \<le> month_length ?y m" using m valid [of "date_number t"] by (auto simp: valid_date_def)
    moreover have "cal_replace_month gregorian m t = at_date t ?y m ?d" by (simp add: gregorian_def)
    ultimately show "if cal_day gregorian t \<le> month_length (cal_year gregorian t) m
         then \<exists>t'. cal_replace_month gregorian m t = Some t' \<and> is_date gregorian t' (cal_year gregorian t) m (cal_day gregorian t) t
         else cal_replace_month gregorian m t = None"
      using at_date_is_date [of ?y m ?d t] by (simp add: at_date_def)
  next
    fix y :: int and t
    assume y: "- 9999 \<le> y" "y \<le> 9999" "cal_day gregorian t \<le> month_length y (cal_month gregorian t)"
    let ?m = "month_of (date_number t)" and ?d = "day_of (date_number t)"
    have "valid_date y ?m ?d" using y(3) valid [of "date_number t"] by (simp add: valid_date_def)
    moreover have "cal_replace_year gregorian y t = at_date t y ?m ?d" using y(1,2) by (simp add: gregorian_def)
    ultimately show "\<exists>t'. cal_replace_year gregorian y t = Some t' \<and> is_date gregorian t' y (cal_month gregorian t) (cal_day gregorian t) t"
      using at_date_is_date [of y ?m ?d t] by simp
  qed
qed

lemma gregorian_plus: "plus_ok gregorian first_instant last_instant"
proof -
  have "year_of (date_number t) < 9999" if "t + 366 * day_ns \<le> last_instant" for t
  proof -
    have "jan1 10000 = jan1 9999 + 365" using jan1_next [of 9999] by (simp add: leap_def)
    then have "t + 366 * day_ns < (jan1 9999 + 365) * day_ns" using that by (simp add: last_instant_def)
    then have "t < jan1 9999 * day_ns" by simp
    moreover have "date_number t * day_ns \<le> t" using div_mult_mod_eq [of t day_ns] pos_mod_sign [of day_ns t] by (simp add: date_number_def)
    ultimately have "date_number t * day_ns < jan1 9999 * day_ns" by linarith
    then have "date_number t < jan1 9999" by simp
    then show ?thesis using year_of_correct [of "date_number t"] jan1_mono [of 9998 "year_of (date_number t)"] by fastforce
  qed
  moreover have "- 9999 < year_of (date_number t)" if "first_instant + 366 * day_ns \<le> t" for t
  proof -
    have "jan1 (- 9998) \<le> jan1 (- 9999) + 366" using jan1_next [of "- 9999"] by (simp split: if_splits)
    moreover have "(jan1 (- 9999) + 366) * day_ns \<le> t" using that by (simp add: first_instant_def)
    then have "jan1 (- 9999) + 366 \<le> date_number t"
      using zdiv_mono1 [of "(jan1 (- 9999) + 366) * day_ns" t day_ns] by (simp add: date_number_def)
    ultimately have "jan1 (- 9998) \<le> date_number t" by linarith
    then show ?thesis using year_of_correct [of "date_number t"] jan1_mono [of "year_of (date_number t)" "- 9998"] by fastforce
  qed
  ultimately show ?thesis unfolding plus_ok_def by (simp add: gregorian_def [THEN arg_cong [of _ _ cal_plus_seconds]])
qed

lemma gregorian_ok: "calendar_ok gregorian first_instant last_instant"
  using gregorian_clock gregorian_date gregorian_replace_clock gregorian_replace_date gregorian_plus by (simp add: calendar_ok_def)

end
