(* ===== verification/Cron_Schedule.thy ===== *)
theory Cron_Schedule
  imports Gregorian
begin

text \<open>
  Correctness of the search for the next time of a cron expression: every turn skips only times that do
  not match, so the search ends with the earliest match, or there is none up to the limit; and what goes
  wrong in the search backwards.
\<close>

section \<open>Slots of the clock\<close>

lemma calendar_okD:
  assumes "calendar_ok cal first final"
  shows "clock_ok cal" "date_ok cal" "replace_clock_ok cal" "replace_date_ok cal" "plus_ok cal first final"
  using assms by (simp_all add: calendar_ok_def)

text \<open>Instants between one and the end of its slot are in the same slot.\<close>

lemma same_slot: "0 < u \<Longrightarrow> t \<le> x \<Longrightarrow> x < (t div u + 1) * u \<Longrightarrow> x div u = t div u" for t x u :: int
proof -
  assume u: "0 < u" and "t \<le> x" and x: "x < (t div u + 1) * u"
  have "t div u \<le> x div u" using \<open>t \<le> x\<close> u by (rule zdiv_mono1)
  moreover have "x div u < t div u + 1" using x u pos_imp_zdiv_pos_iff [of u] zdiv_mono1 [of x "(t div u + 1) * u - 1" u]
    by (smt (verit) div_mult_mod_eq mult_less_cancel_right pos_mod_sign)
  ultimately show ?thesis by linarith
qed

lemma slot_up: "x div a = t div a \<Longrightarrow> 0 \<le> a \<Longrightarrow> 0 \<le> b \<Longrightarrow> x div (a * b) = t div (a * b)" for x t a b :: int
  by (simp add: zdiv_zmult2_eq)

lemma slots:
  fixes x t :: int
  shows "x div second_ns = t div second_ns \<Longrightarrow> x div minute_ns = t div minute_ns"
    "x div minute_ns = t div minute_ns \<Longrightarrow> x div hour_ns = t div hour_ns"
    "x div hour_ns = t div hour_ns \<Longrightarrow> x div day_ns = t div day_ns"
  using slot_up [of x second_ns t 60] slot_up [of x minute_ns t 60] slot_up [of x hour_ns t 24] by simp_all

lemma clock_same:
  assumes "clock_ok cal"
  shows "cal_instant cal x div hour_ns = cal_instant cal t div hour_ns \<Longrightarrow> cal_hour cal x = cal_hour cal t"
    "cal_instant cal x div minute_ns = cal_instant cal t div minute_ns \<Longrightarrow> cal_minute cal x = cal_minute cal t"
    "cal_instant cal x div second_ns = cal_instant cal t div second_ns \<Longrightarrow> cal_second cal x = cal_second cal t"
  using assms unfolding clock_ok_def by (metis of_nat_eq_iff)+

lemma clock_range:
  assumes "clock_ok cal"
  shows "cal_hour cal d < 24" "cal_minute cal d < 60" "cal_second cal d < 60" "cal_nanosecond cal d < 1000000000"
proof -
  have "int (cal_hour cal d) < 24" "int (cal_minute cal d) < 60" "int (cal_second cal d) < 60" "int (cal_nanosecond cal d) < second_ns"
    using assms unfolding clock_ok_def by simp_all
  then show "cal_hour cal d < 24" "cal_minute cal d < 60" "cal_second cal d < 60" "cal_nanosecond cal d < 1000000000" by linarith+
qed

lemma date_range:
  assumes "date_ok cal"
  shows "1 \<le> cal_month cal d" "cal_month cal d \<le> 12" "1 \<le> cal_day cal d" "cal_day cal d \<le> 31" "cal_weekday cal d < 7"
proof -
  have "month_length y m \<le> 31" for y m by (simp add: month_length_def)
  then show "1 \<le> cal_month cal d" "cal_month cal d \<le> 12" "1 \<le> cal_day cal d" "cal_day cal d \<le> 31" "cal_weekday cal d < 7"
    using assms unfolding date_ok_def by (meson le_trans)+
qed

lemma date_same:
  assumes "date_ok cal" "cal_instant cal x div day_ns = cal_instant cal t div day_ns"
  shows "cal_month cal x = cal_month cal t" "cal_day cal x = cal_day cal t" "cal_weekday cal x = cal_weekday cal t"
  using assms unfolding date_ok_def by metis+

text \<open>The instant from its digits.\<close>

lemma clock_digits:
  assumes "clock_ok cal" "cal_instant cal d mod second_ns = 0"
  shows "cal_instant cal d mod minute_ns = int (cal_second cal d) * second_ns"
    "cal_instant cal d mod hour_ns = int (cal_minute cal d) * minute_ns + int (cal_second cal d) * second_ns"
    "cal_instant cal d mod day_ns = int (cal_hour cal d) * hour_ns + int (cal_minute cal d) * minute_ns + int (cal_second cal d) * second_ns"
proof -
  let ?t = "cal_instant cal d"
  have d: "int (cal_hour cal d) = ?t div hour_ns mod 24" "int (cal_minute cal d) = ?t div minute_ns mod 60"
    "int (cal_second cal d) = ?t div second_ns mod 60" using assms(1) by (simp_all add: clock_ok_def)
  have "?t mod minute_ns = second_ns * (?t div second_ns mod 60) + ?t mod second_ns"
    using zmod_zmult2_eq [of 60 ?t second_ns] by simp
  then show m: "?t mod minute_ns = int (cal_second cal d) * second_ns" using assms(2) d(3) by simp
  have "?t mod hour_ns = minute_ns * (?t div minute_ns mod 60) + ?t mod minute_ns"
    using zmod_zmult2_eq [of 60 ?t minute_ns] by simp
  then show h: "?t mod hour_ns = int (cal_minute cal d) * minute_ns + int (cal_second cal d) * second_ns" using m d(2) by simp
  have "?t mod day_ns = hour_ns * (?t div hour_ns mod 24) + ?t mod hour_ns"
    using zmod_zmult2_eq [of 24 ?t hour_ns] by simp
  then show "?t mod day_ns = int (cal_hour cal d) * hour_ns + int (cal_minute cal d) * minute_ns + int (cal_second cal d) * second_ns"
    using h d(1) by simp
qed

lemma word_bit_test: "w AND push_bit n 1 = 0 \<longleftrightarrow> \<not> bit w n" if "n < LENGTH('a)" for w :: "'a::len word"
proof -
  have "bit (w AND push_bit n 1) m \<longleftrightarrow> m = n \<and> bit w n" for m
    using that by (auto simp: bit_and_iff bit_exp_iff)
  then show ?thesis by (metis bit_eqI bit_0_eq bot_apply bot_bool_def)
qed

section \<open>Each turn skips no match\<close>

text \<open>No time from \<open>a\<close> and before \<open>b\<close> matches.\<close>

definition no_match :: "'d calendar \<Rightarrow> cron_expr \<Rightarrow> int \<Rightarrow> int \<Rightarrow> bool" where
  "no_match cal e a b \<longleftrightarrow> (\<forall>x. a \<le> cal_instant cal x \<longrightarrow> cal_instant cal x < b \<longrightarrow> \<not> cron_matches cal e x)"

text \<open>The result of a search from \<open>a\<close> to \<open>limit\<close>: the earliest match, or none.\<close>

definition search_result :: "'d calendar \<Rightarrow> cron_expr \<Rightarrow> int \<Rightarrow> int \<Rightarrow> 'd attempt \<Rightarrow> bool" where
  "search_result cal e a limit r \<longleftrightarrow>
     (case r of
        Yields d \<Rightarrow> cron_matches cal e d \<and> a \<le> cal_instant cal d \<and> cal_instant cal d \<le> limit \<and> no_match cal e a (cal_instant cal d)
      | Fails \<Rightarrow> no_match cal e a (limit + 1)
      | Panics \<Rightarrow> False)"

definition skips :: "'d calendar \<Rightarrow> cron_expr \<Rightarrow> 'd \<Rightarrow> 'd \<Rightarrow> bool" where
  "skips cal e dt dt' \<longleftrightarrow> cal_instant cal dt < cal_instant cal dt' \<and> cal_instant cal dt' mod second_ns = 0
     \<and> (\<forall>x. cal_instant cal dt \<le> cal_instant cal x \<longrightarrow> cal_instant cal x < cal_instant cal dt' \<longrightarrow> \<not> cron_matches cal e x)"

text \<open>Moving to the next slot, where no time of the slot matches.\<close>

lemma skips_slot:
  assumes "0 < u" "u mod second_ns = 0" "cal_instant cal d' = (cal_instant cal dt div u + 1) * u"
    and "\<And>x. cal_instant cal x div u = cal_instant cal dt div u \<Longrightarrow> \<not> cron_matches cal e x"
  shows "skips cal e dt d'"
proof -
  have "cal_instant cal dt < (cal_instant cal dt div u + 1) * u"
    using assms(1) by (metis add.commute distrib_right div_mult_mod_eq mult_1 pos_mod_bound add_strict_left_mono)
  moreover have "(cal_instant cal dt div u + 1) * u mod second_ns = 0" using assms(2) by (metis mod_mult_right_eq mult_zero_right mod_0)
  ultimately show ?thesis
    unfolding skips_def assms(3) using same_slot [OF assms(1)] assms(4) by blast
qed

lemma replace_clockD:
  assumes "replace_clock_ok cal"
  shows "n < 1000000000 \<Longrightarrow> \<exists>d'. cal_replace_nanosecond cal n d = Some d' \<and> cal_instant cal d' = cal_instant cal d + (int n - int (cal_nanosecond cal d))"
    "\<exists>d'. cal_replace_second cal 0 d = Some d' \<and> cal_instant cal d' = cal_instant cal d - int (cal_second cal d) * second_ns"
    "\<exists>d'. cal_replace_minute cal 0 d = Some d' \<and> cal_instant cal d' = cal_instant cal d - int (cal_minute cal d) * minute_ns"
    "\<exists>d'. cal_replace_hour cal 0 d = Some d' \<and> cal_instant cal d' = cal_instant cal d - int (cal_hour cal d) * hour_ns"
proof -
  have zero: "t + (int 0 - b) * c = t - b * c" for t b c :: int by simp
  have "(0::nat) < 60" "(0::nat) < 24" by simp_all
  then show "\<exists>d'. cal_replace_second cal 0 d = Some d' \<and> cal_instant cal d' = cal_instant cal d - int (cal_second cal d) * second_ns"
    "\<exists>d'. cal_replace_minute cal 0 d = Some d' \<and> cal_instant cal d' = cal_instant cal d - int (cal_minute cal d) * minute_ns"
    "\<exists>d'. cal_replace_hour cal 0 d = Some d' \<and> cal_instant cal d' = cal_instant cal d - int (cal_hour cal d) * hour_ns"
    using assms unfolding replace_clock_ok_def zero [symmetric] by blast+
  show "n < 1000000000 \<Longrightarrow> \<exists>d'. cal_replace_nanosecond cal n d = Some d' \<and> cal_instant cal d' = cal_instant cal d + (int n - int (cal_nanosecond cal d))"
    using assms unfolding replace_clock_ok_def by blast
qed

text \<open>Clearing the lower fields of the clock.\<close>

lemma clear_clock:
  assumes ok: "calendar_ok cal first final" and whole: "cal_instant cal d mod second_ns = 0"
  shows "\<exists>d1 d2 d3. cal_replace_second cal 0 d = Some d1 \<and> cal_instant cal d1 = cal_instant cal d div minute_ns * minute_ns
    \<and> cal_replace_minute cal 0 d1 = Some d2 \<and> cal_instant cal d2 = cal_instant cal d div hour_ns * hour_ns
    \<and> cal_replace_hour cal 0 d2 = Some d3 \<and> cal_instant cal d3 = cal_instant cal d div day_ns * day_ns"
proof -
  note ok = calendar_okD [OF ok]
  let ?t = "cal_instant cal d"
  note digits = clock_digits [OF ok(1) whole]
  obtain d1 where d1: "cal_replace_second cal 0 d = Some d1" "cal_instant cal d1 = ?t - int (cal_second cal d) * second_ns"
    using replace_clockD(2) [OF ok(3), of d] by blast
  then have t1: "cal_instant cal d1 = ?t div minute_ns * minute_ns"
    using digits(1) div_mult_mod_eq [of ?t minute_ns] by linarith
  have "cal_instant cal d1 div minute_ns = ?t div minute_ns" unfolding t1 by simp
  then have m1: "cal_minute cal d1 = cal_minute cal d" "cal_hour cal d1 = cal_hour cal d"
    using clock_same(1,2) [OF ok(1), of d1 d] slots(2) by blast+
  obtain d2 where d2: "cal_replace_minute cal 0 d1 = Some d2" "cal_instant cal d2 = cal_instant cal d1 - int (cal_minute cal d) * minute_ns"
    using replace_clockD(3) [OF ok(3), of d1] unfolding m1 by blast
  then have t2: "cal_instant cal d2 = ?t div hour_ns * hour_ns"
    using d1 digits(2) div_mult_mod_eq [of ?t hour_ns] by linarith
  have "cal_instant cal d2 div hour_ns = ?t div hour_ns" unfolding t2 by simp
  then have h2: "cal_hour cal d2 = cal_hour cal d" using clock_same(1) [OF ok(1), of d2 d] by blast
  obtain d3 where d3: "cal_replace_hour cal 0 d2 = Some d3" "cal_instant cal d3 = cal_instant cal d2 - int (cal_hour cal d) * hour_ns"
    using replace_clockD(4) [OF ok(3), of d2] unfolding h2 by blast
  then have "cal_instant cal d3 = ?t div day_ns * day_ns"
    using d1 d2 digits(3) div_mult_mod_eq [of ?t day_ns] by linarith
  then show ?thesis using d1(1) d2(1) d3(1) t1 t2 by blast
qed

lemma plus_up:
  assumes "calendar_ok cal first final" "first \<le> cal_instant cal d" "0 \<le> n" "cal_instant cal d + n * second_ns \<le> final"
  shows "\<exists>d'. plus_or_panic cal n d = Yields d' \<and> cal_instant cal d' = cal_instant cal d + n * second_ns"
proof -
  have "first \<le> cal_instant cal d + n * second_ns" using assms(2,3) by simp
  then show ?thesis
    using calendar_okD(5) [OF assms(1)] assms(4) unfolding plus_ok_def plus_or_panic_def by (metis option.case(2))
qed

lemma slot_near: "0 < u \<Longrightarrow> t - u \<le> t div u * u \<and> t div u * u \<le> t" for t u :: int
  using div_mult_mod_eq [of t u] pos_mod_sign [of u t] pos_mod_bound [of u t] by linarith

text \<open>The moves within a day.\<close>

lemma advance_clock:
  assumes ok: "calendar_ok cal first final" and whole: "cal_instant cal d mod second_ns = 0"
    and room: "first + day_ns \<le> cal_instant cal d" "cal_instant cal d + day_ns \<le> final"
  shows "\<exists>d'. advance_minute cal d = Yields d' \<and> cal_instant cal d' = (cal_instant cal d div minute_ns + 1) * minute_ns"
    "\<exists>d'. advance_hour cal d = Yields d' \<and> cal_instant cal d' = (cal_instant cal d div hour_ns + 1) * hour_ns"
    "\<exists>d'. advance_day cal d = Yields d' \<and> cal_instant cal d' = (cal_instant cal d div day_ns + 1) * day_ns"
proof -
  let ?t = "cal_instant cal d"
  obtain d1 d2 d3 where clear: "cal_replace_second cal 0 d = Some d1" "cal_instant cal d1 = ?t div minute_ns * minute_ns"
    "cal_replace_minute cal 0 d1 = Some d2" "cal_instant cal d2 = ?t div hour_ns * hour_ns"
    "cal_replace_hour cal 0 d2 = Some d3" "cal_instant cal d3 = ?t div day_ns * day_ns"
    using clear_clock [OF ok whole] by blast
  have "?t - day_ns \<le> ?t div minute_ns * minute_ns" "?t - day_ns \<le> ?t div hour_ns * hour_ns" "?t - day_ns \<le> ?t div day_ns * day_ns"
    "?t div minute_ns * minute_ns \<le> ?t" "?t div hour_ns * hour_ns \<le> ?t" "?t div day_ns * day_ns \<le> ?t"
    using slot_near [of minute_ns ?t] slot_near [of hour_ns ?t] slot_near [of day_ns ?t] by linarith+
  note near = this
  have "first \<le> cal_instant cal d1" "cal_instant cal d1 + 60 * second_ns \<le> final" using clear near room by linarith+
  from plus_up [OF ok this(1) _ this(2)] obtain d' where d': "plus_or_panic cal 60 d1 = Yields d'"
    "cal_instant cal d' = cal_instant cal d1 + 60 * second_ns" by auto
  then show "\<exists>d'. advance_minute cal d = Yields d' \<and> cal_instant cal d' = (?t div minute_ns + 1) * minute_ns"
    using clear by (simp add: advance_minute_def ok_or_fail_def distrib_right)
  have "first \<le> cal_instant cal d2" "cal_instant cal d2 + 3600 * second_ns \<le> final" using clear near room by linarith+
  from plus_up [OF ok this(1) _ this(2)] obtain d' where d': "plus_or_panic cal 3600 d2 = Yields d'"
    "cal_instant cal d' = cal_instant cal d2 + 3600 * second_ns" by auto
  then show "\<exists>d'. advance_hour cal d = Yields d' \<and> cal_instant cal d' = (?t div hour_ns + 1) * hour_ns"
    using clear by (simp add: advance_hour_def ok_or_fail_def distrib_right)
  have "first \<le> cal_instant cal d3" "cal_instant cal d3 + 86400 * second_ns \<le> final" using clear near room by linarith+
  from plus_up [OF ok this(1) _ this(2)] obtain d' where d': "plus_or_panic cal 86400 d3 = Yields d'"
    "cal_instant cal d' = cal_instant cal d3 + 86400 * second_ns" by auto
  then show "\<exists>d'. advance_day cal d = Yields d' \<and> cal_instant cal d' = (?t div day_ns + 1) * day_ns"
    using clear by (simp add: advance_day_def ok_or_fail_def distrib_right)
qed

text \<open>The move to the first instant of the next month.\<close>

lemma advance_month_first:
  assumes ok: "calendar_ok cal first final" and whole: "cal_instant cal d mod second_ns = 0"
    and room: "cal_instant cal d + 366 * day_ns \<le> final" "first + 366 * day_ns \<le> cal_instant cal d"
  shows "\<exists>d'. advance_month cal d = Yields d' \<and> cal_day cal d' = 1 \<and> cal_instant cal d' mod day_ns = 0
    \<and> 12 * cal_year cal d' + int (cal_month cal d') = 12 * cal_year cal d + int (cal_month cal d) + 1"
proof -
  note ok' = calendar_okD [OF ok]
  obtain d1 d2 d3 where clear: "cal_replace_second cal 0 d = Some d1" "cal_replace_minute cal 0 d1 = Some d2"
    "cal_replace_hour cal 0 d2 = Some d3" and t3: "cal_instant cal d3 = cal_instant cal d div day_ns * day_ns"
    using clear_clock [OF ok whole] by blast
  have "cal_instant cal d3 div day_ns = cal_instant cal d div day_ns" unfolding t3 by simp
  then have date3: "cal_year cal d3 = cal_year cal d" "cal_month cal d3 = cal_month cal d"
    using ok'(2) unfolding date_ok_def by metis+
  have len: "1 \<le> month_length y m" "28 \<le> month_length y m" for y m by (simp_all add: month_length_def)
  obtain d4 where d4: "cal_replace_day cal 1 d3 = Some d4" "is_date cal d4 (cal_year cal d) (cal_month cal d) 1 d3"
    using ok'(4) len(1) date3 unfolding replace_date_ok_def by (metis le_refl)
  let ?m = "month_next (cal_month cal d)"
  let ?y = "if ?m = 1 then cal_year cal d + 1 else cal_year cal d"
  have month: "1 \<le> cal_month cal d" "cal_month cal d \<le> 12" using date_range [OF ok'(2)] by blast+
  then have m: "1 \<le> ?m" "?m \<le> 12" by (simp_all add: month_next_def)
  have year: "cal_year cal d < 9999" "- 9999 < cal_year cal d" using ok'(5) room unfolding plus_ok_def by blast+
  have d4': "cal_year cal d4 = cal_year cal d" "cal_month cal d4 = cal_month cal d" "cal_day cal d4 = 1"
    "cal_instant cal d4 mod day_ns = 0" using d4(2) t3 by (simp_all add: is_date_def)
  obtain d5 where d5: "cal_replace_month cal ?m d4 = Some d5" "is_date cal d5 (cal_year cal d) ?m 1 d4"
    using ok'(4) m len(1) d4' unfolding replace_date_ok_def by metis
  then have d5': "cal_month cal d5 = ?m" "cal_day cal d5 = 1" "cal_instant cal d5 mod day_ns = 0"
    using d4' by (simp_all add: is_date_def)
  have "- 9999 \<le> ?y" "?y \<le> 9999" using year by auto
  then obtain d6 where d6: "cal_replace_year cal ?y d5 = Some d6" "is_date cal d6 ?y ?m 1 d5"
    using ok'(4) len(1) d5' unfolding replace_date_ok_def by metis
  have "12 * ?y + int ?m = 12 * cal_year cal d + int (cal_month cal d) + 1"
    using month by (auto simp: month_next_def)
  moreover have "advance_month cal d = Yields d6"
    using d6(1) d5(1) by (cases "?m = 1") (simp_all add: advance_month_def ok_or_fail_def clear d4(1) d4' Let_def del: One_nat_def)
  ultimately show ?thesis using d6(2) d5' by (auto simp: is_date_def)
qed

lemma advance_month_skips:
  assumes ok: "calendar_ok cal first final"
    and index: "12 * cal_year cal d' + int (cal_month cal d') = 12 * cal_year cal d + int (cal_month cal d) + 1"
    and d': "cal_day cal d' = 1" "cal_instant cal d' mod day_ns = 0"
    and month: "\<not> bit (ce_month e) (cal_month cal d)"
  shows "skips cal e d d'"
proof -
  note ok' = calendar_okD [OF ok]
  have order: "cal_instant cal x \<le> cal_instant cal y \<Longrightarrow>
      12 * cal_year cal x + int (cal_month cal x) \<le> 12 * cal_year cal y + int (cal_month cal y)" for x y
    using ok'(2) unfolding date_ok_def by blast
  have index_eq: "cal_year cal x = cal_year cal y \<and> cal_month cal x = cal_month cal y"
    if "12 * cal_year cal x + int (cal_month cal x) = 12 * cal_year cal y + int (cal_month cal y)" for x y
    using that date_range(1,2) [OF ok'(2), of x] date_range(1,2) [OF ok'(2), of y] by presburger
  have less: "cal_instant cal d < cal_instant cal d'"
    using order [of d' d] index by linarith
  have nomatch: "\<not> cron_matches cal e x" if x: "cal_instant cal d \<le> cal_instant cal x" "cal_instant cal x < cal_instant cal d'" for x
  proof (cases "12 * cal_year cal x + int (cal_month cal x) = 12 * cal_year cal d + int (cal_month cal d)")
    case True
    then show ?thesis using index_eq [of x d] month by (simp add: cron_matches_def)
  next
    case False
    then have "12 * cal_year cal x + int (cal_month cal x) = 12 * cal_year cal d' + int (cal_month cal d')"
      using order [OF x(1)] order [of x d'] x(2) index by linarith
    then have "cal_year cal d' = cal_year cal x" "cal_month cal d' = cal_month cal x" using index_eq [of x d'] by simp_all
    moreover have "cal_day cal d' \<le> cal_day cal x" using d'(1) date_range(3) [OF ok'(2), of x] by simp
    ultimately have "cal_instant cal d' div day_ns \<le> cal_instant cal x div day_ns"
      using ok'(2) unfolding date_ok_def by blast
    moreover have "cal_instant cal d' = cal_instant cal d' div day_ns * day_ns" using d'(2) by (simp add: mod_0_imp_dvd)
    ultimately have "cal_instant cal d' \<le> cal_instant cal x" using slot_near [of day_ns "cal_instant cal x"] by linarith
    then show ?thesis using x(2) by simp
  qed
  have "cal_instant cal d' mod second_ns = 0"
    using d'(2) mod_mod_cancel [of second_ns day_ns "cal_instant cal d'"] by simp
  then show ?thesis unfolding skips_def using less nomatch by blast
qed

lemma next_turn_correct:
  assumes ok: "calendar_ok cal first final" and whole: "cal_instant cal d mod second_ns = 0"
    and room: "cal_instant cal d + 366 * day_ns \<le> final" "first + 366 * day_ns \<le> cal_instant cal d"
  shows "case next_turn cal e d of
      None \<Rightarrow> cron_matches cal e d
    | Some r \<Rightarrow> (\<exists>d'. r = Yields d' \<and> skips cal e d d')"
proof -
  note ok' = calendar_okD [OF ok]
  let ?t = "cal_instant cal d"
  note date = date_range [OF ok'(2), of d] and clock = clock_range [OF ok'(1), of d]
  have tests: "ce_month e AND push_bit (cal_month cal d) 1 = 0 \<longleftrightarrow> \<not> bit (ce_month e) (cal_month cal d)"
    "ce_dom e AND push_bit (cal_day cal d) 1 = 0 \<longleftrightarrow> \<not> bit (ce_dom e) (cal_day cal d)"
    "ce_dow e AND push_bit (cal_weekday cal d) 1 = 0 \<longleftrightarrow> \<not> bit (ce_dow e) (cal_weekday cal d)"
    "ce_hour e AND push_bit (cal_hour cal d) 1 = 0 \<longleftrightarrow> \<not> bit (ce_hour e) (cal_hour cal d)"
    "ce_minute e AND push_bit (cal_minute cal d) 1 = 0 \<longleftrightarrow> \<not> bit (ce_minute e) (cal_minute cal d)"
    "ce_second e AND push_bit (cal_second cal d) 1 = 0 \<longleftrightarrow> \<not> bit (ce_second e) (cal_second cal d)"
    using date clock by (intro word_bit_test; simp)+
  have near: "?t + day_ns \<le> final" "first + day_ns \<le> ?t" using room by linarith+
  note moves = advance_clock [OF ok whole near(2) near(1)]
  have day: "\<exists>d'. advance_day cal d = Yields d' \<and> skips cal e d d'"
    if miss: "\<not> bit (ce_dom e) (cal_day cal d) \<or> \<not> bit (ce_dow e) (cal_weekday cal d)"
  proof -
    obtain d' where d': "advance_day cal d = Yields d'" "cal_instant cal d' = (?t div day_ns + 1) * day_ns" using moves(3) by blast
    have "\<not> cron_matches cal e x" if "cal_instant cal x div day_ns = ?t div day_ns" for x
      using miss unfolding cron_matches_def date_same [OF ok'(2) that] by blast
    then have "skips cal e d d'" by (intro skips_slot [OF _ _ d'(2)]) simp_all
    then show ?thesis using d'(1) by blast
  qed
  have hour: "\<exists>d'. advance_hour cal d = Yields d' \<and> skips cal e d d'" if miss: "\<not> bit (ce_hour e) (cal_hour cal d)"
  proof -
    obtain d' where d': "advance_hour cal d = Yields d'" "cal_instant cal d' = (?t div hour_ns + 1) * hour_ns" using moves(2) by blast
    have "\<not> cron_matches cal e x" if "cal_instant cal x div hour_ns = ?t div hour_ns" for x
      using miss unfolding cron_matches_def clock_same(1) [OF ok'(1) that] by blast
    then have "skips cal e d d'" by (intro skips_slot [OF _ _ d'(2)]) simp_all
    then show ?thesis using d'(1) by blast
  qed
  have minute: "\<exists>d'. advance_minute cal d = Yields d' \<and> skips cal e d d'" if miss: "\<not> bit (ce_minute e) (cal_minute cal d)"
  proof -
    obtain d' where d': "advance_minute cal d = Yields d'" "cal_instant cal d' = (?t div minute_ns + 1) * minute_ns" using moves(1) by blast
    have "\<not> cron_matches cal e x" if "cal_instant cal x div minute_ns = ?t div minute_ns" for x
      using miss unfolding cron_matches_def clock_same(2) [OF ok'(1) that] by blast
    then have "skips cal e d d'" by (intro skips_slot [OF _ _ d'(2)]) simp_all
    then show ?thesis using d'(1) by blast
  qed
  have second: "\<exists>d'. plus_or_panic cal 1 d = Yields d' \<and> skips cal e d d'" if miss: "\<not> bit (ce_second e) (cal_second cal d)"
  proof -
    have "first \<le> ?t" "?t + 1 * second_ns \<le> final" using near by linarith+
    then obtain d' where d': "plus_or_panic cal 1 d = Yields d'" "cal_instant cal d' = ?t + second_ns" using plus_up [OF ok, of d 1] by auto
    have "?t = ?t div second_ns * second_ns" using whole by (simp add: mod_0_imp_dvd)
    then have "cal_instant cal d' = (?t div second_ns + 1) * second_ns" unfolding d'(2) distrib_right by simp
    moreover have "\<not> cron_matches cal e x" if "cal_instant cal x div second_ns = ?t div second_ns" for x
      using miss unfolding cron_matches_def clock_same(3) [OF ok'(1) that] by blast
    ultimately have "skips cal e d d'" by (intro skips_slot [of second_ns cal d' d e]) simp_all
    then show ?thesis using d'(1) by blast
  qed
  have month: "\<exists>d'. advance_month cal d = Yields d' \<and> skips cal e d d'" if miss: "\<not> bit (ce_month e) (cal_month cal d)"
  proof -
    from advance_month_first [OF ok whole room] show ?thesis
    proof (elim exE conjE)
      fix d'
      assume d': "advance_month cal d = Yields d'" "cal_day cal d' = 1" "cal_instant cal d' mod day_ns = 0"
        "12 * cal_year cal d' + int (cal_month cal d') = 12 * cal_year cal d + int (cal_month cal d) + 1"
      show ?thesis
        by (rule exI [of _ d'], rule conjI, rule d'(1), rule advance_month_skips [OF ok d'(4,2,3) miss])
    qed
  qed
  show ?thesis
  proof (cases "next_turn cal e d")
    case None
    then show ?thesis unfolding next_turn_def tests by (auto simp: cron_matches_def split: if_splits)
  next
    case (Some r)
    then consider "r = advance_month cal d" "\<not> bit (ce_month e) (cal_month cal d)"
      | "r = advance_day cal d" "\<not> bit (ce_dom e) (cal_day cal d) \<or> \<not> bit (ce_dow e) (cal_weekday cal d)"
      | "r = advance_hour cal d" "\<not> bit (ce_hour e) (cal_hour cal d)"
      | "r = advance_minute cal d" "\<not> bit (ce_minute e) (cal_minute cal d)"
      | "r = plus_or_panic cal 1 d" "\<not> bit (ce_second e) (cal_second cal d)"
      unfolding next_turn_def tests by (auto split: if_splits)
    then have "\<exists>d'. r = Yields d' \<and> skips cal e d d'"
      by cases (use month day hour minute second in blast)+
    then show ?thesis using Some by simp
  qed
qed

lemma no_match_extend: "no_match cal e a b \<Longrightarrow> no_match cal e b c \<Longrightarrow> no_match cal e a c"
  unfolding no_match_def by (meson not_le)

lemma search_extend:
  "no_match cal e a b \<Longrightarrow> a \<le> b \<Longrightarrow> search_result cal e b limit r \<Longrightarrow> search_result cal e a limit r"
  unfolding search_result_def using no_match_extend by (cases r) fastforce+

lemma next_loop_correct:
  assumes ok: "calendar_ok cal first final" and "first + 366 * day_ns \<le> t0" "limit + 366 * day_ns \<le> final"
  shows "cal_instant cal d mod second_ns = 0 \<Longrightarrow> t0 \<le> cal_instant cal d \<Longrightarrow>
    \<exists>r. next_loop cal e limit d = Some r \<and> search_result cal e (cal_instant cal d) limit r"
proof (induction "nat (limit + 1 - cal_instant cal d)" arbitrary: d rule: less_induct)
  case less
  show ?case
  proof (cases "cal_instant cal d \<le> limit")
    case False
    then show ?thesis by (simp add: next_loop.simps [of cal e limit d] search_result_def no_match_def)
  next
    case True
    have "cal_instant cal d + 366 * day_ns \<le> final" "first + 366 * day_ns \<le> cal_instant cal d" using True assms less.prems by linarith+
    note turn = next_turn_correct [OF ok less.prems(1) this, of e]
    show ?thesis
    proof (cases "next_turn cal e d")
      case None
      then show ?thesis using turn True by (simp add: next_loop.simps [of cal e limit d] search_result_def no_match_def)
    next
      case (Some r)
      then obtain d1 where d1: "r = Yields d1" "skips cal e d d1" using turn by auto
      then have d1': "cal_instant cal d < cal_instant cal d1" "cal_instant cal d1 mod second_ns = 0"
        "no_match cal e (cal_instant cal d) (cal_instant cal d1)"
        unfolding skips_def no_match_def by blast+
      have "nat (limit + 1 - cal_instant cal d1) < nat (limit + 1 - cal_instant cal d)" using d1'(1) True by linarith
      moreover have "t0 \<le> cal_instant cal d1" using d1'(1) less.prems(2) by linarith
      ultimately obtain s where s: "next_loop cal e limit d1 = Some s" "search_result cal e (cal_instant cal d1) limit s"
        using less.hyps [OF _ d1'(2)] by blast
      have "next_loop cal e limit d = Some s"
        using True Some d1(1) s(1) by (simp add: next_loop.simps [of cal e limit d])
      then show ?thesis using search_extend [OF d1'(3) _ s(2)] d1'(1) by simp
    qed
  qed
qed

section \<open>The start of the search\<close>

definition resolution :: "cron_expr \<Rightarrow> int" where
  "resolution e = (if has_seconds e then second_ns else minute_ns)"

lemma search_start_correct:
  assumes ok: "calendar_ok cal first final"
  shows "\<exists>d. search_start cal e after = Some d \<and> cal_instant cal d = cal_instant cal after div resolution e * resolution e"
proof -
  note ok' = calendar_okD [OF ok]
  let ?t = "cal_instant cal after"
  have "(0::nat) < 1000000000" by simp
  then obtain d0 where d0: "cal_replace_nanosecond cal 0 after = Some d0" "cal_instant cal d0 = ?t + (int 0 - int (cal_nanosecond cal after))"
    using replace_clockD(1) [OF ok'(3)] by blast
  have "int (cal_nanosecond cal after) = ?t mod second_ns" using ok'(1) by (simp add: clock_ok_def)
  then have t0: "cal_instant cal d0 = ?t div second_ns * second_ns" using d0(2) div_mult_mod_eq [of ?t second_ns] by linarith
  then have whole: "cal_instant cal d0 mod second_ns = 0" by simp
  obtain d1 where d1: "cal_replace_second cal 0 d0 = Some d1" "cal_instant cal d1 = cal_instant cal d0 div minute_ns * minute_ns"
    using clear_clock [OF ok whole] by blast
  have "cal_instant cal d0 div second_ns = ?t div second_ns" using t0 by simp
  then have "cal_instant cal d0 div minute_ns = ?t div minute_ns" by (rule slots(1))
  then show ?thesis using d0(1) d1 t0 by (auto simp: search_start_def resolution_def)
qed

lemma next_after_earliest:
  assumes ok: "calendar_ok cal first final" and room: "first + 367 * day_ns \<le> cal_instant cal after"
    "cal_instant cal after + 1831 * day_ns \<le> final"
  shows "\<exists>r. next_after cal e after = Some r
    \<and> search_result cal e (cal_instant cal after div resolution e * resolution e) (cal_instant cal after + 366 * 4 * day_ns) r"
proof -
  let ?t = "cal_instant cal after"
  obtain d where d: "search_start cal e after = Some d" "cal_instant cal d = ?t div resolution e * resolution e"
    using search_start_correct [OF ok] by blast
  have "first \<le> ?t" "?t + (366 * 4 * 86400) * second_ns \<le> final" using room by linarith+
  from plus_up [OF ok this(1) _ this(2)] obtain l where
    l: "plus_or_panic cal (366 * 4 * 86400) after = Yields l" "cal_instant cal l = ?t + 366 * 4 * day_ns" by auto
  have "?t div minute_ns * minute_ns mod second_ns = 0"
    using mod_mod_cancel [of second_ns minute_ns "?t div minute_ns * minute_ns"] by simp
  then have "cal_instant cal d mod second_ns = 0" using d(2) by (simp add: resolution_def)
  moreover have "first + 366 * day_ns \<le> cal_instant cal d"
  proof (cases "has_seconds e")
    case True
    then show ?thesis using d(2) room(1) slot_near [of second_ns ?t] by (simp add: resolution_def)
  next
    case False
    then show ?thesis using d(2) room(1) slot_near [of minute_ns ?t] by (simp add: resolution_def)
  qed
  moreover have "cal_instant cal l + 366 * day_ns \<le> final" using l(2) room(2) by linarith
  ultimately have "\<exists>r. next_loop cal e (cal_instant cal l) d = Some r \<and> search_result cal e (cal_instant cal d) (cal_instant cal l) r"
    by (intro next_loop_correct [OF ok, of "cal_instant cal d" "cal_instant cal l" d e] order.refl)
  then show ?thesis using d l by (auto simp add: next_after_def)
qed

text \<open>The current second (or minute) matches.\<close>

definition slot_matches :: "'d calendar \<Rightarrow> cron_expr \<Rightarrow> int \<Rightarrow> bool" where
  "slot_matches cal e t \<longleftrightarrow> (\<exists>d. cal_instant cal d = t div resolution e * resolution e \<and> cron_matches cal e d)"

text \<open>Within a second all times match or none; an expression without seconds matches the first second of a minute only.\<close>

lemma slot_start:
  fixes t x u :: int
  assumes "0 < u" and "t div u * u \<le> x" and "x \<le> t"
  shows "x div u = t div u"
proof (rule order_antisym)
  show "x div u \<le> t div u" using assms(3,1) by (rule zdiv_mono1)
  have "t div u = (t div u * u) div u" using assms(1) by simp
  also have "\<dots> \<le> x div u" using assms(2,1) by (rule zdiv_mono1)
  finally show "t div u \<le> x div u" .
qed

lemma resolution_pos: "0 < resolution e"
  by (simp add: resolution_def)

lemma slot_silent:
  assumes ok: "calendar_ok cal first final" and silent: "\<not> slot_matches cal e (cal_instant cal after)"
  shows "no_match cal e (cal_instant cal after div resolution e * resolution e) (cal_instant cal after)"
  unfolding no_match_def
proof (intro allI impI)
  fix x
  let ?t = "cal_instant cal after"
  assume x: "?t div resolution e * resolution e \<le> cal_instant cal x" "cal_instant cal x < ?t"
  note ok' = calendar_okD [OF ok]
  obtain d where d: "cal_instant cal d = ?t div resolution e * resolution e"
    using search_start_correct [OF ok, of e after] by blast
  have miss: "\<not> cron_matches cal e d" using silent d unfolding slot_matches_def by blast
  have same: "cal_instant cal x div resolution e = ?t div resolution e"
    by (rule slot_start [OF resolution_pos x(1) less_imp_le [OF x(2)]])
  have start: "cal_instant cal d div resolution e = ?t div resolution e"
    unfolding d using resolution_pos [of e] by simp
  have minute: "cal_instant cal x div minute_ns = cal_instant cal d div minute_ns"
  proof (cases "has_seconds e")
    case True
    then have "cal_instant cal x div second_ns = cal_instant cal d div second_ns" using same start by (simp only: resolution_def if_True)
    then show ?thesis by (rule slots(1))
  next
    case False
    then show ?thesis using same start by (simp only: resolution_def if_False)
  qed
  then have hour: "cal_instant cal x div hour_ns = cal_instant cal d div hour_ns" by (rule slots(2))
  then have day: "cal_instant cal x div day_ns = cal_instant cal d div day_ns" by (rule slots(3))
  note fields = clock_same(1) [OF ok'(1) hour] clock_same(2) [OF ok'(1) minute] date_same [OF ok'(2) day]
  show "\<not> cron_matches cal e x"
  proof
    assume match: "cron_matches cal e x"
    have "bit (ce_second e) (cal_second cal d)"
    proof (cases "has_seconds e")
      case True
      then have "cal_instant cal x div second_ns = cal_instant cal d div second_ns" using same start by (simp only: resolution_def if_True)
      then have "cal_second cal x = cal_second cal d" by (rule clock_same(3) [OF ok'(1)])
      then show ?thesis using match by (simp add: cron_matches_def)
    next
      case False
      have "int (cal_second cal d) = cal_instant cal d div second_ns mod 60" using ok'(1) by (simp add: clock_ok_def)
      moreover have "cal_instant cal d = (?t div minute_ns * 60) * second_ns" using False by (simp only: d resolution_def if_False)
      moreover have "(q * 60) * second_ns div second_ns mod 60 = 0" for q :: int by simp
      ultimately have "cal_second cal d = 0" by (metis of_nat_eq_0_iff)
      then show ?thesis using False by (simp add: has_seconds_def)
    qed
    then have "cron_matches cal e d" using match fields by (simp add: cron_matches_def)
    then show False using miss by blast
  qed
qed

lemma search_result_later:
  assumes "search_result cal e a limit r" and "no_match cal e a t" and "a \<le> t"
  shows "search_result cal e t limit r"
proof (cases r)
  case (Yields d)
  then have d: "cron_matches cal e d" "a \<le> cal_instant cal d" "cal_instant cal d \<le> limit" "no_match cal e a (cal_instant cal d)"
    using assms(1) by (simp_all add: search_result_def)
  then have "t \<le> cal_instant cal d" using assms(2) unfolding no_match_def by (meson not_le)
  moreover have "no_match cal e t (cal_instant cal d)" using d(4) assms(3) unfolding no_match_def by (meson order_trans)
  ultimately show ?thesis using d by (simp add: Yields search_result_def)
next
  case Fails
  then have "no_match cal e a (limit + 1)" using assms(1) by (simp add: search_result_def)
  then have "no_match cal e t (limit + 1)" using assms(3) unfolding no_match_def by (meson order_trans)
  then show ?thesis by (simp add: Fails search_result_def)
qed (use assms(1) in \<open>simp add: search_result_def\<close>)

text \<open>C10: In a calendar that behaves as documented, more than a year after its beginning and five before its end, the
search for the next time of a cron expression terminates without panic, and its result is the earliest matching time at or
after the given one, up to four years later; it finds nothing only if nothing matches there.  This holds for a given time that is a
whole second (a whole minute, for an expression without seconds), and for every other one whose second (or minute) does
not begin with a match; where it does, the code goes back to that beginning.\<close>

theorem next_after_correct:
  assumes ok: "calendar_ok cal first final" and room: "first + 367 * day_ns \<le> cal_instant cal after"
    "cal_instant cal after + 1831 * day_ns \<le> final"
    and "resolution e dvd cal_instant cal after \<or> \<not> slot_matches cal e (cal_instant cal after)"
  shows "\<exists>r. next_after cal e after = Some r
    \<and> search_result cal e (cal_instant cal after) (cal_instant cal after + 366 * 4 * day_ns) r"
proof -
  let ?t = "cal_instant cal after"
  obtain r where r: "next_after cal e after = Some r"
    "search_result cal e (?t div resolution e * resolution e) (?t + 366 * 4 * day_ns) r"
    using next_after_earliest [OF ok room] by blast
  have "no_match cal e (?t div resolution e * resolution e) ?t"
    using assms(4) slot_silent [OF ok, of e after] by (auto simp: no_match_def)
  moreover have "?t div resolution e * resolution e \<le> ?t"
    using slot_near [of second_ns ?t] slot_near [of minute_ns ?t] by (simp add: resolution_def)
  ultimately show ?thesis using r search_result_later by blast
qed

section \<open>Examples\<close>

text \<open>At the first minute of every year, in the code's shortcut \<^verbatim>\<open>@yearly\<close>.\<close>

definition yearly :: cron_expr where
  "yearly = \<lparr>ce_second = 1, ce_minute = 1, ce_hour = 1, ce_dom = 2, ce_month = 2, ce_dow = 0x7F, ce_source = ''@yearly''\<rparr>"

theorem next_after_correct_witness:
  "\<exists>r. next_after gregorian yearly 999999960000000000 = Some r
    \<and> search_result gregorian yearly (cal_instant gregorian 999999960000000000)
        (cal_instant gregorian 999999960000000000 + 366 * 4 * day_ns) r"
  by (rule next_after_correct [OF gregorian_ok])
    (simp_all add: first_instant_def last_instant_def jan1_def resolution_def has_seconds_def yearly_def)

text \<open>The search returns a time before the given one where the current second or minute begins with a match and the
given time lies behind that beginning.\<close>

lemma next_after_may_be_past:
  assumes ok: "calendar_ok cal first final" and room: "first + 367 * day_ns \<le> cal_instant cal after"
    "cal_instant cal after + 1831 * day_ns \<le> final"
    and d: "cron_matches cal e d" "cal_instant cal d = cal_instant cal after div resolution e * resolution e"
  shows "\<exists>d'. next_after cal e after = Some (Yields d') \<and> cal_instant cal d' = cal_instant cal d"
proof -
  obtain r where r: "next_after cal e after = Some r" "search_result cal e (cal_instant cal d) (cal_instant cal after + 366 * 4 * day_ns) r"
    using next_after_earliest [OF ok room] d(2) by auto
  have "cal_instant cal d \<le> cal_instant cal after"
    using d(2) slot_near [of second_ns "cal_instant cal after"] slot_near [of minute_ns "cal_instant cal after"]
    by (simp add: resolution_def split: if_splits)
  then have "\<not> no_match cal e (cal_instant cal d) (cal_instant cal after + 366 * 4 * day_ns + 1)"
    using d(1) unfolding no_match_def by force
  then obtain d' where d': "r = Yields d'" using r(2) by (cases r) (auto simp: search_result_def)
  then have "cal_instant cal d \<le> cal_instant cal d'" "no_match cal e (cal_instant cal d) (cal_instant cal d')"
    using r(2) by (simp_all add: search_result_def)
  then have "cal_instant cal d' = cal_instant cal d" using d(1) unfolding no_match_def by force
  then show ?thesis using r(1) d' by blast
qed

text \<open>The search backwards gives up at the end of a month that does not match, where the month before is shorter: the month
is replaced before the day, and there is no such date.\<close>

lemma prev_before_gives_up:
  assumes ok: "calendar_ok cal first final" and room: "first + 1464 * day_ns \<le> cal_instant cal before" "cal_instant cal before \<le> final"
    and month: "\<not> bit (ce_month e) (cal_month cal before)"
    and day: "month_length (cal_year cal before) (month_previous (cal_month cal before)) < cal_day cal before"
  shows "prev_before cal e before = Some Fails"
proof -
  note ok' = calendar_okD [OF ok]
  let ?t = "cal_instant cal before"
  obtain d where d: "search_start cal e before = Some d" "cal_instant cal d = ?t div resolution e * resolution e"
    using search_start_correct [OF ok] by blast
  have same: "cal_instant cal d div day_ns = ?t div day_ns"
  proof (cases "has_seconds e")
    case True
    then have "cal_instant cal d div second_ns = ?t div second_ns" using d(2) by (simp add: resolution_def)
    then show ?thesis using slots by blast
  next
    case False
    then have "cal_instant cal d div minute_ns = ?t div minute_ns" using d(2) by (simp add: resolution_def)
    then show ?thesis using slots by blast
  qed
  then have date: "cal_year cal d = cal_year cal before" "cal_month cal d = cal_month cal before" "cal_day cal d = cal_day cal before"
    using ok'(2) unfolding date_ok_def by metis+
  have "1 \<le> month_previous (cal_month cal d)" "month_previous (cal_month cal d) \<le> 12"
    using date_range(1,2) [OF ok'(2), of d] by (auto simp: month_previous_def)
  then have "cal_replace_month cal (month_previous (cal_month cal d)) d = None"
    using ok'(4) day date unfolding replace_date_ok_def by (metis not_le)
  then have "retreat_month cal d = Fails" by (simp add: retreat_month_def ok_or_fail_def Let_def)
  moreover have "ce_month e AND push_bit (cal_month cal d) 1 = 0"
    using month date(2) date_range(2) [OF ok'(2), of d] by (subst word_bit_test) simp_all
  ultimately have "prev_turn cal e d = Some Fails" by (simp only: prev_turn_def simp_thms if_True)
  have "first \<le> ?t + (- 366 * 4 * 86400) * second_ns" "?t + (- 366 * 4 * 86400) * second_ns \<le> final" using room by simp_all
  then obtain l where l: "cal_plus_seconds cal (- 366 * 4 * 86400) before = Some l" "cal_instant cal l = ?t + (- 366 * 4 * 86400) * second_ns"
    using ok'(5) unfolding plus_ok_def by blast
  have "?t - minute_ns \<le> cal_instant cal d"
    using d(2) slot_near [of second_ns ?t] slot_near [of minute_ns ?t] by (simp add: resolution_def split: if_splits)
  then have "cal_instant cal l \<le> cal_instant cal d" using l(2) by simp
  then have "prev_loop cal e (cal_instant cal l) d = Some Fails"
    using \<open>prev_turn cal e d = Some Fails\<close> by (simp add: prev_loop.simps [of cal e "cal_instant cal l" d])
  then show ?thesis using d(1) l(1) by (simp add: prev_before_def plus_or_panic_def)
qed

text \<open>The 31st of March 2026 at noon: no time of \<^verbatim>\<open>@yearly\<close> is found before it.\<close>

lemma prev_before_yearly: "prev_before gregorian yearly 1774958400000000000 = Some Fails"
proof (rule prev_before_gives_up [OF gregorian_ok])
  have date: "valid_date 2026 3 31" "day_number 2026 3 31 = 20543"
    by (simp_all add: valid_date_def month_length_def day_number_def jan1_def days_before_def numeral_eq_Suc)
  have n: "date_number 1774958400000000000 = day_number 2026 3 31" by (simp add: date date_number_def)
  have "cal_month gregorian 1774958400000000000 = 3" "cal_day gregorian 1774958400000000000 = 31" "cal_year gregorian 1774958400000000000 = 2026"
    using date_unique [OF date(1)] by (simp_all add: n)
  then show "\<not> bit (ce_month yearly) (cal_month gregorian 1774958400000000000)"
    "month_length (cal_year gregorian 1774958400000000000) (month_previous (cal_month gregorian 1774958400000000000)) < cal_day gregorian 1774958400000000000"
    by (simp_all add: yearly_def month_previous_def month_length_def)
qed (simp_all add: first_instant_def last_instant_def jan1_def)

end
