(* ===== verification/Coordinator.thy ===== *)
theory Coordinator
  imports Cron_Schedule
begin

text \<open>
  The contact coordinator (\<^verbatim>\<open>dtn-hdy-ham/src/coordinator/mod.rs\<close>): which contact window comes next, and
  the task that waits for it, starts the contact and ends it.  A turn of the task's loop ends where it
  waits: what wakes it up is an event, with the reading of the clock at the start of the next turn and,
  for a contact to start, the answer of the endpoint.  Durations are in nanoseconds.
\<close>

section \<open>Targets\<close>

datatype 'd contact_schedule = Recurring cron_expr nat | OneShot "'d option" "'d option"

record 'd contact_target =
  ct_callsign :: string
  ct_node_id :: "string option"
  ct_schedule :: "'d contact_schedule"
  ct_grace_period :: nat

type_synonym 'd window = "'d contact_target \<times> 'd \<times> nat"

text \<open>A difference of instants as a standard duration, which cannot be negative.\<close>

definition to_duration :: "int \<Rightarrow> nat option" where
  "to_duration d = (if 0 \<le> d then Some (nat d) else None)"

section \<open>The next window\<close>

text \<open>The window of one target; \<open>None\<close> where the search for it panics or does not end.\<close>

definition target_window :: "'d calendar \<Rightarrow> 'd \<Rightarrow> 'd contact_target \<Rightarrow> 'd window option option" where
  "target_window cal now target =
     (case ct_schedule target of
        Recurring cron duration \<Rightarrow>
          (case next_after cal cron now of
             Some (Yields next_start) \<Rightarrow> Some (Some (target, next_start, duration))
           | Some Fails \<Rightarrow> Some None
           | _ \<Rightarrow> None)
      | OneShot start final \<Rightarrow>
          (case start of
             Some s \<Rightarrow>
               if cal_instant cal now < cal_instant cal s
               then let dur = (case final of
                                 Some e \<Rightarrow> (case to_duration (cal_instant cal e - cal_instant cal s) of Some d \<Rightarrow> d | None \<Rightarrow> 60000000000)
                               | None \<Rightarrow> 180000000000)
                    in Some (Some (target, s, dur))
               else Some None
           | None \<Rightarrow> Some None))"

text \<open>The earlier of two windows, the first of those that start together.\<close>

definition earlier :: "'d calendar \<Rightarrow> 'd window option \<Rightarrow> 'd window \<Rightarrow> 'd window option" where
  "earlier cal best w =
     (case best of
        None \<Rightarrow> Some w
      | Some (_, t, _) \<Rightarrow> if cal_instant cal (fst (snd w)) < cal_instant cal t then Some w else best)"

fun next_target :: "'d calendar \<Rightarrow> 'd \<Rightarrow> 'd contact_target list \<Rightarrow> 'd window option \<Rightarrow> 'd window option option" where
  "next_target cal now [] best = Some best"
| "next_target cal now (target # targets) best =
     (case target_window cal now target of
        None \<Rightarrow> None
      | Some None \<Rightarrow> next_target cal now targets best
      | Some (Some w) \<Rightarrow> next_target cal now targets (earlier cal best w))"

section \<open>The task\<close>

datatype 'd coordinator = Idle | Waiting "'d contact_target" nat nat | InContact "'d contact_target" nat | Ended

datatype 'd coordinator_event = Elapsed 'd bool | Cancelled

datatype endpoint_call = StartContact string bool | EndContact string

text \<open>The start of a turn of the loop, up to where it waits; without targets the task only waits to be cancelled.\<close>

definition plan :: "'d calendar \<Rightarrow> 'd contact_target list \<Rightarrow> 'd \<Rightarrow> 'd coordinator option" where
  "plan cal targets now =
     (if targets = [] then Some Idle
      else case next_target cal now targets None of
             None \<Rightarrow> None
           | Some None \<Rightarrow> Some Idle
           | Some (Some (target, next_start, duration)) \<Rightarrow>
               let delay = (case to_duration (cal_instant cal next_start - cal_instant cal now) of Some d \<Rightarrow> d | None \<Rightarrow> 0)
               in Some (Waiting target delay duration))"

fun coordinator_step ::
  "'d calendar \<Rightarrow> 'd contact_target list \<Rightarrow> 'd coordinator_event \<Rightarrow> 'd coordinator \<Rightarrow> (endpoint_call list \<times> 'd coordinator) option" where
  "coordinator_step cal targets Cancelled (InContact target _) = Some ([EndContact (ct_callsign target)], Ended)"
| "coordinator_step cal targets Cancelled _ = Some ([], Ended)"
| "coordinator_step cal targets (Elapsed now started) (Waiting target _ duration) =
     (if started then Some ([StartContact (ct_callsign target) True], InContact target duration)
      else (case plan cal targets now of None \<Rightarrow> None | Some s \<Rightarrow> Some ([StartContact (ct_callsign target) False], s)))"
| "coordinator_step cal targets (Elapsed now _) (InContact target _) =
     (case plan cal targets now of None \<Rightarrow> None | Some s \<Rightarrow> Some ([EndContact (ct_callsign target)], s))"
| "coordinator_step cal targets (Elapsed _ _) Idle = Some ([], Idle)"
| "coordinator_step cal targets (Elapsed _ _) Ended = Some ([], Ended)"

fun coordinator_run ::
  "'d calendar \<Rightarrow> 'd contact_target list \<Rightarrow> 'd coordinator_event list \<Rightarrow> 'd coordinator \<Rightarrow> (endpoint_call list \<times> 'd coordinator) option" where
  "coordinator_run cal targets [] s = Some ([], s)"
| "coordinator_run cal targets (ev # evs) s =
     (case coordinator_step cal targets ev s of
        None \<Rightarrow> None
      | Some (calls, s') \<Rightarrow>
          (case coordinator_run cal targets evs s' of None \<Rightarrow> None | Some (rest, t) \<Rightarrow> Some (calls @ rest, t)))"

section \<open>The earliest window\<close>

definition window_start :: "'d calendar \<Rightarrow> 'd window \<Rightarrow> int" where
  "window_start cal w = cal_instant cal (fst (snd w))"

lemma earlier_start: "earlier cal best w = Some w' \<Longrightarrow>
    window_start cal w' \<le> window_start cal w \<and> (\<forall>b. best = Some b \<longrightarrow> window_start cal w' \<le> window_start cal b)
    \<and> (w' = w \<or> best = Some w')"
  by (auto simp: earlier_def window_start_def split: option.splits if_splits)

lemma earlier_Some: "\<exists>w'. earlier cal best w = Some w'"
  by (cases best; cases w) (auto simp: earlier_def)

lemma next_target_spec:
  "next_target cal now targets best = Some r \<Longrightarrow>
    (case r of
       None \<Rightarrow> best = None \<and> (\<forall>t\<in>set targets. target_window cal now t = Some None)
     | Some w \<Rightarrow> (best = Some w \<or> (\<exists>t\<in>set targets. target_window cal now t = Some (Some w)))
         \<and> (\<forall>b. best = Some b \<longrightarrow> window_start cal w \<le> window_start cal b)
         \<and> (\<forall>t\<in>set targets. \<forall>w'. target_window cal now t = Some (Some w') \<longrightarrow> window_start cal w \<le> window_start cal w'))"
proof (induction targets arbitrary: best)
  case Nil
  then show ?case by (auto split: option.splits)
next
  case (Cons t targets)
  show ?case
  proof (cases "target_window cal now t")
    case None
    then show ?thesis using Cons.prems by simp
  next
    case (Some ow)
    show ?thesis
    proof (cases ow)
      case None
      then have n: "next_target cal now targets best = Some r" "target_window cal now t = Some None"
        using Cons.prems Some by simp_all
      from Cons.IH [OF n(1)] n(2) show ?thesis by (cases r) auto
    next
      case (Some w)
      obtain b where b: "earlier cal best w = Some b" using earlier_Some by blast
      have "next_target cal now targets (Some b) = Some r" using Cons.prems Some \<open>target_window cal now t = Some ow\<close> b by simp
      from Cons.IH [OF this] obtain w' where r: "r = Some w'"
        and w': "w' = b \<or> (\<exists>t\<in>set targets. target_window cal now t = Some (Some w'))" "window_start cal w' \<le> window_start cal b"
          "\<forall>t\<in>set targets. \<forall>w''. target_window cal now t = Some (Some w'') \<longrightarrow> window_start cal w' \<le> window_start cal w''"
        by (auto split: option.splits)
      note e = earlier_start [OF b]
      have "best = Some w' \<or> (\<exists>t\<in>set (t # targets). target_window cal now t = Some (Some w'))"
        using w'(1) e Some \<open>target_window cal now t = Some ow\<close> by auto
      moreover have "\<forall>b. best = Some b \<longrightarrow> window_start cal w' \<le> window_start cal b" using e w'(2) by fastforce
      moreover have "\<forall>t\<in>set (t # targets). \<forall>w''. target_window cal now t = Some (Some w'') \<longrightarrow> window_start cal w' \<le> window_start cal w''"
        using w'(2,3) e Some \<open>target_window cal now t = Some ow\<close> by fastforce
      ultimately show ?thesis by (simp add: r)
    qed
  qed
qed

section \<open>Contacts are ended\<close>

text \<open>A run of calls that leaves the contact \<open>c\<close> open: every contact that was started has been ended before the next
call to start, and only such contacts are ended.\<close>

fun calls_ok :: "string option \<Rightarrow> endpoint_call list \<Rightarrow> string option \<Rightarrow> bool" where
  "calls_ok open [] final \<longleftrightarrow> open = final"
| "calls_ok open (StartContact c started # calls) final \<longleftrightarrow> open = None \<and> calls_ok (if started then Some c else None) calls final"
| "calls_ok open (EndContact c # calls) final \<longleftrightarrow> open = Some c \<and> calls_ok None calls final"

definition contact_of :: "'d coordinator \<Rightarrow> string option" where
  "contact_of s = (case s of InContact target _ \<Rightarrow> Some (ct_callsign target) | _ \<Rightarrow> None)"

lemma calls_ok_append: "calls_ok a xs b \<Longrightarrow> calls_ok b ys c \<Longrightarrow> calls_ok a (xs @ ys) c"
  by (induction a xs b rule: calls_ok.induct) auto

lemma plan_contact: "plan cal targets now = Some s \<Longrightarrow> contact_of s = None"
  by (auto simp: plan_def contact_of_def Let_def split: if_splits option.splits prod.splits)

lemma coordinator_step_calls:
  "coordinator_step cal targets ev s = Some (calls, s') \<Longrightarrow> calls_ok (contact_of s) calls (contact_of s')"
  by (cases "(cal, targets, ev, s)" rule: coordinator_step.cases)
    (auto dest: plan_contact simp: contact_of_def split: if_splits option.splits)

lemma coordinator_run_calls:
  "coordinator_run cal targets evs s = Some (calls, s') \<Longrightarrow> calls_ok (contact_of s) calls (contact_of s')"
proof (induction evs arbitrary: s calls)
  case (Cons ev evs)
  then obtain c1 s1 c2 where "coordinator_step cal targets ev s = Some (c1, s1)"
    "coordinator_run cal targets evs s1 = Some (c2, s')" "calls = c1 @ c2"
    by (auto split: option.splits)
  then show ?case using Cons.IH coordinator_step_calls calls_ok_append by metis
qed simp

section \<open>Properties\<close>

text \<open>The instants where the searches stay inside the calendar.\<close>

definition inside :: "'d calendar \<Rightarrow> int \<Rightarrow> int \<Rightarrow> 'd \<Rightarrow> bool" where
  "inside cal first final now \<longleftrightarrow> first + 367 * day_ns \<le> cal_instant cal now \<and> cal_instant cal now + 1831 * day_ns \<le> final"

lemma target_window_total:
  assumes "calendar_ok cal first final" "inside cal first final now"
  shows "target_window cal now target \<noteq> None"
proof (cases "ct_schedule target")
  case (Recurring cron duration)
  obtain r where r: "next_after cal cron now = Some r"
    "search_result cal cron (cal_instant cal now div resolution cron * resolution cron) (cal_instant cal now + 366 * 4 * day_ns) r"
    using next_after_earliest [OF assms(1), of now cron] assms(2) unfolding inside_def by blast
  then show ?thesis using Recurring by (cases r) (simp_all add: target_window_def search_result_def)
next
  case (OneShot start final)
  then show ?thesis by (simp add: target_window_def Let_def split: option.split)
qed

lemma next_target_total:
  assumes "calendar_ok cal first final" "inside cal first final now"
  shows "next_target cal now targets best \<noteq> None"
  using target_window_total [OF assms] by (induction targets arbitrary: best) (auto split: option.splits)

lemma plan_total:
  assumes "calendar_ok cal first final" "inside cal first final now"
  shows "\<exists>s. plan cal targets now = Some s"
  using next_target_total [OF assms, of targets None] by (auto simp: plan_def Let_def split: option.split)

lemma coordinator_step_total:
  assumes "calendar_ok cal first final" "case ev of Elapsed now _ \<Rightarrow> inside cal first final now | Cancelled \<Rightarrow> True"
  shows "\<exists>calls s'. coordinator_step cal targets ev s = Some (calls, s')"
proof (cases ev)
  case (Elapsed now started)
  then obtain p where "plan cal targets now = Some p" using plan_total assms by fastforce
  then show ?thesis using Elapsed by (cases s) auto
next
  case Cancelled
  then show ?thesis by (cases s) auto
qed

definition event_inside :: "'d calendar \<Rightarrow> int \<Rightarrow> int \<Rightarrow> 'd coordinator_event \<Rightarrow> bool" where
  "event_inside cal first final ev = (case ev of Elapsed now _ \<Rightarrow> inside cal first final now | Cancelled \<Rightarrow> True)"

lemma coordinator_run_total:
  assumes "calendar_ok cal first final"
  shows "list_all (event_inside cal first final) evs \<Longrightarrow> \<exists>calls s'. coordinator_run cal targets evs s = Some (calls, s')"
proof (induction evs arbitrary: s)
  case (Cons ev evs)
  then obtain c1 s1 where "coordinator_step cal targets ev s = Some (c1, s1)"
    using coordinator_step_total [OF assms, of ev targets s] by (auto simp: event_inside_def)
  moreover have "\<exists>c2 s2. coordinator_run cal targets evs s1 = Some (c2, s2)" using Cons.IH [of s1] Cons.prems by simp
  ultimately show ?case by auto
qed simp

text \<open>In a calendar that behaves as documented, the coordinator chooses among the windows of its targets one that
starts first, where a recurring target's window starts at the next time of its cron expression and a one-shot target's
at its start, if that is in the future; it chooses none only where no target has one.\<close>

theorem next_contact_earliest:
  assumes "calendar_ok cal first final" "inside cal first final now"
  shows "\<exists>r. next_target cal now targets None = Some r
    \<and> (case r of
         None \<Rightarrow> \<forall>t\<in>set targets. target_window cal now t = Some None
       | Some w \<Rightarrow> (\<exists>t\<in>set targets. target_window cal now t = Some (Some w))
           \<and> (\<forall>t\<in>set targets. \<forall>w'. target_window cal now t = Some (Some w') \<longrightarrow> window_start cal w \<le> window_start cal w'))"
proof -
  obtain r where r: "next_target cal now targets None = Some r" using next_target_total [OF assms] by blast
  from next_target_spec [OF this] show ?thesis using r by (auto split: option.splits)
qed

text \<open>C17: Whatever the clock shows and the endpoint answers, the coordinator's task never panics, no contact is started
while another is open, a contact is ended exactly if its start succeeded, and when the task has ended none is open.\<close>

theorem contacts_bracketed:
  assumes "calendar_ok cal first final" "inside cal first final now" "list_all (event_inside cal first final) evs"
  shows "\<exists>s0 calls s. plan cal targets now = Some s0 \<and> coordinator_run cal targets evs s0 = Some (calls, s)
    \<and> calls_ok None calls (contact_of s)"
proof -
  obtain s0 where s0: "plan cal targets now = Some s0" using plan_total [OF assms(1,2)] by blast
  obtain calls s where run: "coordinator_run cal targets evs s0 = Some (calls, s)"
    using coordinator_run_total [OF assms(1,3)] by blast
  from coordinator_run_calls [OF run] show ?thesis unfolding plan_contact [OF s0] using s0 run by blast
qed

definition new_year_targets :: "int contact_target list" where
  "new_year_targets =
     [\<lparr>ct_callsign = ''F4JXQ'', ct_node_id = None, ct_schedule = Recurring yearly 60000000000, ct_grace_period = 0\<rparr>,
      \<lparr>ct_callsign = ''N0A'', ct_node_id = None, ct_schedule = OneShot (Some 1000000000500000000) None, ct_grace_period = 0\<rparr>]"

theorem next_contact_earliest_witness:
  "\<exists>r. next_target gregorian 1000000000000000000 new_year_targets None = Some r"
proof -
  have "inside gregorian first_instant last_instant 1000000000000000000"
    by (simp add: inside_def first_instant_def last_instant_def jan1_def)
  from next_contact_earliest [OF gregorian_ok this, of new_year_targets] show ?thesis by blast
qed

theorem contacts_bracketed_witness:
  "\<exists>s0 calls s. plan gregorian new_year_targets 1000000000000000000 = Some s0
    \<and> coordinator_run gregorian new_year_targets [Elapsed 1000000000500000000 True, Elapsed 1000000180500000000 True, Cancelled] s0 = Some (calls, s)
    \<and> calls_ok None calls (contact_of s)"
  by (rule contacts_bracketed [OF gregorian_ok])
    (simp_all add: event_inside_def inside_def first_instant_def last_instant_def jan1_def)

end
