(* ===== verification/Internal_Storage.thy ===== *)
theory Internal_Storage
  imports Prelude Strings "HOL-Library.Char_ord" "HOL-Library.List_Lexorder"
begin

text \<open>
  The store of the internal chat and files services (\<^verbatim>\<open>dtn-hdy-ham/src/internal_storage.rs\<close>).  A
  table of the database is the list of its rows in the order of their row identifiers: \<^verbatim>\<open>INSERT OR
  REPLACE\<close> removes the row with the same key and appends the new one, \<^verbatim>\<open>MAX(rowid)\<close> names the last
  row.  Where an \<^verbatim>\<open>ORDER BY\<close> leaves rows equal, the model keeps them in row order.  Timestamps are
  integers; texts of dates, which the sources get from the \<^verbatim>\<open>time\<close> library, are arguments.  Failures of
  the database engine itself (a poisoned lock, an error of the disk) are not modelled; a violated
  \<^verbatim>\<open>CHECK\<close> is.
\<close>

section \<open>Rows\<close>

record chat_message =
  cm_id :: string
  cm_conversation_peer :: string
  cm_sender_eid :: string
  cm_recipient_eid :: string
  cm_content :: string
  cm_direction :: string
  cm_status :: string
  cm_is_read :: bool
  cm_is_sticky :: bool
  cm_timestamp :: int
  cm_expiry_timestamp :: int
  cm_created_at :: string

record conversation_summary =
  cs_peer :: string
  cs_callsign :: "string option"
  cs_last_message :: string
  cs_last_direction :: string
  cs_last_status :: string
  cs_last_timestamp :: int
  cs_last_created_at :: string
  cs_unread_count :: nat
  cs_total_messages :: nat

record file_bundle =
  fb_id :: string
  fb_source_eid :: string
  fb_destination_eid :: string
  fb_creation_timestamp :: int
  fb_lifetime_secs :: u64
  fb_expiry_timestamp :: int
  fb_size :: u64
  fb_payload_path :: string
  fb_mime_type :: string
  fb_is_sticky :: bool
  fb_is_read :: bool
  fb_created_at :: string

text \<open>The database with its \<^verbatim>\<open>user_version\<close>, and the payload files on the disk.\<close>

record storage =
  st_conversations :: "(string \<times> string) list"
  st_messages :: "chat_message list"
  st_bundles :: "file_bundle list"
  st_user_version :: int
  st_disk :: "string \<rightharpoonup> bytes"

datatype storage_error = Constraint_Failed | Chat_Message_Not_Found | File_Bundle_Not_Found

section \<open>Endpoint names\<close>

definition normalize_peer_node :: "string \<Rightarrow> string" where
  "normalize_peer_node input =
     (let trimmed = trim input
      in if trimmed = [] then ''dtn:none''
         else case strip_prefix ''ipn:'' trimmed of
                Some rest \<Rightarrow> ''ipn:'' @ hd (split_on CHR ''.'' rest) @ ''.0''
              | None \<Rightarrow>
                  let without_prefix =
                        (case strip_prefix ''dtn://'' trimmed of
                           Some stripped \<Rightarrow> stripped
                         | None \<Rightarrow> (case strip_prefix ''dtn:'' trimmed of Some stripped \<Rightarrow> stripped | None \<Rightarrow> trimmed));
                      node_part = hd (split_on CHR ''/'' without_prefix);
                      node_clean = map lower_char (trim node_part)
                  in ''dtn://'' @ node_clean @ ''/'')"

definition normalize_chat_target :: "string \<Rightarrow> string" where
  "normalize_chat_target input =
     (let trimmed = trim input
      in if trimmed = [] then ''dtn:none''
         else if prefix ''ipn:'' trimmed then trimmed
         else case strip_prefix ''dtn://'' trimmed of
                Some stripped \<Rightarrow>
                  (case filter (\<lambda>p. trim p \<noteq> []) (split_on CHR ''/'' stripped) of
                     [] \<Rightarrow> ''dtn://none/chat''
                   | [node] \<Rightarrow> ''dtn://'' @ map lower_char node @ ''/chat''
                   | node # service \<Rightarrow> ''dtn://'' @ map lower_char node @ ''/'' @ join CHR ''/'' service)
              | None \<Rightarrow> ''dtn://'' @ map lower_char (trim_matches CHR ''/'' trimmed) @ ''/chat'')"

definition normalize_chat_endpoint :: "string \<Rightarrow> string" where
  "normalize_chat_endpoint input = normalize_chat_target input"

definition normalize_files_endpoint :: "string \<Rightarrow> string" where
  "normalize_files_endpoint input =
     (let peer = normalize_peer_node input
      in if prefix ''ipn:'' peer
         then (case strip_suffix ''.0'' peer of Some stripped \<Rightarrow> stripped @ ''.2'' | None \<Rightarrow> peer)
         else peer @ ''files'')"

definition is_alphanumeric :: "char \<Rightarrow> bool" where
  "is_alphanumeric c = (let n = of_char c :: nat
     in 48 \<le> n \<and> n \<le> 57 \<or> 65 \<le> n \<and> n \<le> 90 \<or> 97 \<le> n \<and> n \<le> 122)"

definition extract_callsign :: "string \<Rightarrow> string option" where
  "extract_callsign peer_eid =
     (case strip_prefix ''dtn://'' peer_eid of
        Some stripped \<Rightarrow>
          let node = hd (split_on CHR ''/'' (trim_end (\<lambda>c. c = CHR ''/'') stripped));
              callsign = map upper_char (hd (split_on CHR ''-'' node))
          in if callsign \<noteq> [] \<and> list_all is_alphanumeric callsign then Some callsign else None
      | None \<Rightarrow> None)"

section \<open>Opening the database\<close>

text \<open>\<^verbatim>\<open>INSERT OR IGNORE\<close> of a conversation and \<^verbatim>\<open>INSERT OR REPLACE\<close> of a row by its key.\<close>

definition insert_or_ignore :: "string \<times> string \<Rightarrow> (string \<times> string) list \<Rightarrow> (string \<times> string) list" where
  "insert_or_ignore row rows = (if fst row \<in> set (map fst rows) then rows else rows @ [row])"

definition insert_or_replace :: "('r \<Rightarrow> string) \<Rightarrow> 'r \<Rightarrow> 'r list \<Rightarrow> 'r list" where
  "insert_or_replace key row rows = filter (\<lambda>r. key r \<noteq> key row) rows @ [row]"

definition DTN_EPOCH_OFFSET :: int where
  "DTN_EPOCH_OFFSET = 946684800000"

text \<open>The three \<^verbatim>\<open>UPDATE\<close>s of the migration, on the rows they are applied to.\<close>

definition migrate_message_epoch :: "chat_message \<Rightarrow> chat_message" where
  "migrate_message_epoch m =
     (if 0 < cm_timestamp m \<and> cm_timestamp m < 1000000000000
      then m\<lparr>cm_timestamp := cm_timestamp m + DTN_EPOCH_OFFSET,
             cm_expiry_timestamp := cm_expiry_timestamp m + DTN_EPOCH_OFFSET\<rparr>
      else m)"

definition migrate_message_lifetime :: "chat_message \<Rightarrow> chat_message" where
  "migrate_message_lifetime m =
     (if \<not> cm_is_sticky m \<and> 3600000 < cm_expiry_timestamp m - cm_timestamp m
      then m\<lparr>cm_expiry_timestamp := cm_timestamp m + 3600000\<rparr>
      else m)"

definition migrate_bundle_epoch :: "file_bundle \<Rightarrow> file_bundle" where
  "migrate_bundle_epoch b =
     (if 0 < fb_creation_timestamp b \<and> fb_creation_timestamp b < 1000000000000
      then b\<lparr>fb_creation_timestamp := fb_creation_timestamp b + DTN_EPOCH_OFFSET,
             fb_expiry_timestamp := fb_expiry_timestamp b + DTN_EPOCH_OFFSET\<rparr>
      else b)"

definition init_tables :: "storage \<Rightarrow> storage" where
  "init_tables st =
     (let st = st\<lparr>st_conversations :=
                  fold insert_or_ignore (remdups (map (\<lambda>m. (cm_conversation_peer m, cm_created_at m)) (st_messages st)))
                    (st_conversations st)\<rparr>
      in if st_user_version st < 1
         then st\<lparr>st_messages := map (migrate_message_lifetime \<circ> migrate_message_epoch) (st_messages st),
                 st_bundles := map migrate_bundle_epoch (st_bundles st),
                 st_user_version := 1\<rparr>
         else st)"

definition empty_storage :: storage where
  "empty_storage = \<lparr>st_conversations = [], st_messages = [], st_bundles = [], st_user_version = 0, st_disk = Map.empty\<rparr>"

definition new_in_memory :: storage where
  "new_in_memory = init_tables empty_storage"

section \<open>Chat\<close>

definition insert_chat_message :: "chat_message \<Rightarrow> storage \<Rightarrow> storage \<times> (storage_error + unit)" where
  "insert_chat_message msg st =
     (let st = st\<lparr>st_conversations := insert_or_ignore (cm_conversation_peer msg, cm_created_at msg) (st_conversations st)\<rparr>
      in if cm_direction msg \<in> set [''inbound'', ''outbound'']
            \<and> cm_status msg \<in> set [''queued'', ''sent'', ''received'']
         then (st\<lparr>st_messages := insert_or_replace cm_id msg (st_messages st)\<rparr>, Inr ())
         else (st, Inl Constraint_Failed))"

definition insert_message :: "chat_message \<Rightarrow> storage \<Rightarrow> storage \<times> (storage_error + unit)" where
  "insert_message msg st = insert_chat_message msg st"

text \<open>The messages of a peer, and the row of the query that joins a conversation with its last message.\<close>

definition peer_messages :: "string \<Rightarrow> storage \<Rightarrow> chat_message list" where
  "peer_messages peer st = filter (\<lambda>m. cm_conversation_peer m = peer) (st_messages st)"

definition conversation_row :: "storage \<Rightarrow> string \<times> string \<Rightarrow> conversation_summary" where
  "conversation_row st c =
     (let ms = peer_messages (fst c) st;
          m = (if ms = [] then None else Some (List.last ms))
      in \<lparr>cs_peer = fst c,
          cs_callsign = Some (fst c),
          cs_last_message = (case m of Some m \<Rightarrow> cm_content m | None \<Rightarrow> []),
          cs_last_direction = (case m of Some m \<Rightarrow> cm_direction m | None \<Rightarrow> ''outbound''),
          cs_last_status = (case m of Some m \<Rightarrow> cm_status m | None \<Rightarrow> ''queued''),
          cs_last_timestamp = (case m of Some m \<Rightarrow> cm_timestamp m | None \<Rightarrow> 0),
          cs_last_created_at = (case m of Some m \<Rightarrow> cm_created_at m | None \<Rightarrow> snd c),
          cs_unread_count = length (filter (\<lambda>m. \<not> cm_is_read m \<and> cm_direction m = ''inbound'') ms),
          cs_total_messages = length ms\<rparr>)"

definition get_conversation_summary :: "string \<Rightarrow> string \<Rightarrow> storage \<Rightarrow> conversation_summary" where
  "get_conversation_summary now peer st =
     (let canonical = normalize_chat_target peer
      in case filter (\<lambda>c. fst c = canonical) (st_conversations st) of
           c # _ \<Rightarrow> conversation_row st c
         | [] \<Rightarrow> \<lparr>cs_peer = canonical, cs_callsign = Some canonical, cs_last_message = [],
                   cs_last_direction = ''outbound'', cs_last_status = ''queued'', cs_last_timestamp = 0,
                   cs_last_created_at = now, cs_unread_count = 0, cs_total_messages = 0\<rparr>)"

definition create_conversation :: "string \<Rightarrow> string \<Rightarrow> storage \<Rightarrow> storage \<times> conversation_summary" where
  "create_conversation now peer st =
     (let canonical = normalize_chat_target peer;
          st = st\<lparr>st_conversations := insert_or_ignore (canonical, now) (st_conversations st)\<rparr>
      in (st, get_conversation_summary now canonical st))"

text \<open>\<^verbatim>\<open>ORDER BY key DESC\<close>.\<close>

definition order_desc :: "('r \<Rightarrow> 'k::linorder) \<Rightarrow> 'r list \<Rightarrow> 'r list" where
  "order_desc key rows = rev (sort_key key (rev rows))"

definition list_conversations :: "storage \<Rightarrow> conversation_summary list" where
  "list_conversations st =
     map (conversation_row st)
       (order_desc (\<lambda>c. cs_last_timestamp (conversation_row st c)) (order_desc snd (st_conversations st)))"

definition get_conversation_messages :: "string \<Rightarrow> storage \<Rightarrow> chat_message list" where
  "get_conversation_messages peer st = sort_key cm_timestamp (peer_messages (normalize_chat_target peer) st)"

definition mark_conversation_read :: "string \<Rightarrow> storage \<Rightarrow> storage \<times> nat" where
  "mark_conversation_read peer st =
     (let norm = normalize_chat_target peer;
          hit = (\<lambda>m. cm_conversation_peer m = norm \<and> \<not> cm_is_read m)
      in (st\<lparr>st_messages := map (\<lambda>m. if hit m then m\<lparr>cm_is_read := True\<rparr> else m) (st_messages st)\<rparr>,
          length (filter hit (st_messages st))))"

definition toggle_chat_sticky :: "string \<Rightarrow> storage \<Rightarrow> storage \<times> (storage_error + bool)" where
  "toggle_chat_sticky i st =
     (case filter (\<lambda>m. cm_id m = i) (st_messages st) of
        [] \<Rightarrow> (st, Inl Chat_Message_Not_Found)
      | m # _ \<Rightarrow>
          let sticky = (\<not> cm_is_sticky m)
          in (st\<lparr>st_messages := map (\<lambda>m. if cm_id m = i then m\<lparr>cm_is_sticky := sticky\<rparr> else m) (st_messages st)\<rparr>,
              Inr sticky))"

section \<open>Files\<close>

definition insert_file_bundle :: "file_bundle \<Rightarrow> storage \<Rightarrow> storage" where
  "insert_file_bundle b st = st\<lparr>st_bundles := insert_or_replace fb_id b (st_bundles st)\<rparr>"

definition list_file_bundles :: "storage \<Rightarrow> file_bundle list" where
  "list_file_bundles st = order_desc fb_creation_timestamp (st_bundles st)"

definition get_file_bundle :: "string \<Rightarrow> storage \<Rightarrow> file_bundle option" where
  "get_file_bundle i st = (case filter (\<lambda>b. fb_id b = i) (st_bundles st) of [] \<Rightarrow> None | b # _ \<Rightarrow> Some b)"

definition toggle_file_sticky :: "string \<Rightarrow> storage \<Rightarrow> storage \<times> (storage_error + bool)" where
  "toggle_file_sticky i st =
     (case filter (\<lambda>b. fb_id b = i) (st_bundles st) of
        [] \<Rightarrow> (st, Inl File_Bundle_Not_Found)
      | b # _ \<Rightarrow>
          let sticky = (\<not> fb_is_sticky b)
          in (st\<lparr>st_bundles := map (\<lambda>b. if fb_id b = i then b\<lparr>fb_is_sticky := sticky\<rparr> else b) (st_bundles st)\<rparr>,
              Inr sticky))"

definition mark_file_read :: "string \<Rightarrow> storage \<Rightarrow> storage" where
  "mark_file_read i st =
     st\<lparr>st_bundles := map (\<lambda>b. if fb_id b = i then b\<lparr>fb_is_read := True\<rparr> else b) (st_bundles st)\<rparr>"

text \<open>Removing a payload file: \<open>unlink\<close> says of each path whether the system removes it.\<close>

definition remove_payload :: "(string \<Rightarrow> bool) \<Rightarrow> string \<Rightarrow> storage \<Rightarrow> storage" where
  "remove_payload unlink path st =
     (if st_disk st path \<noteq> None \<and> unlink path then st\<lparr>st_disk := (st_disk st)(path := None)\<rparr> else st)"

definition delete_file_bundle :: "(string \<Rightarrow> bool) \<Rightarrow> string \<Rightarrow> storage \<Rightarrow> storage \<times> bool" where
  "delete_file_bundle unlink i st =
     (case get_file_bundle i st of
        None \<Rightarrow> (st, False)
      | Some rec \<Rightarrow>
          let st = remove_payload unlink (fb_payload_path rec) st;
              count = length (filter (\<lambda>b. fb_id b = i) (st_bundles st))
          in (st\<lparr>st_bundles := filter (\<lambda>b. fb_id b \<noteq> i) (st_bundles st)\<rparr>, 0 < count))"

definition count_unread_files :: "storage \<Rightarrow> nat" where
  "count_unread_files st = length (filter (\<lambda>b. \<not> fb_is_read b) (st_bundles st)) mod 2 ^ 32"

section \<open>Expiration\<close>

definition min_of :: "int list \<Rightarrow> int option" where
  "min_of xs = (case xs of [] \<Rightarrow> None | x # xs \<Rightarrow> Some (fold min xs x))"

definition get_next_expiration_deadline :: "storage \<Rightarrow> int option" where
  "get_next_expiration_deadline st =
     (let min_files = min_of (map fb_expiry_timestamp
                        (filter (\<lambda>b. \<not> fb_is_sticky b \<and> 0 < fb_expiry_timestamp b) (st_bundles st)));
          min_chat = min_of (map cm_expiry_timestamp
                        (filter (\<lambda>m. \<not> cm_is_sticky m \<and> 0 < cm_expiry_timestamp m) (st_messages st)))
      in case (min_files, min_chat) of
           (Some f, Some c) \<Rightarrow> Some (min f c)
         | (Some f, None) \<Rightarrow> Some f
         | (None, Some c) \<Rightarrow> Some c
         | (None, None) \<Rightarrow> None)"

definition message_expired :: "int \<Rightarrow> chat_message \<Rightarrow> bool" where
  "message_expired now m \<longleftrightarrow> \<not> cm_is_sticky m \<and> 0 < cm_expiry_timestamp m \<and> cm_expiry_timestamp m \<le> now"

definition bundle_expired :: "int \<Rightarrow> file_bundle \<Rightarrow> bool" where
  "bundle_expired now b \<longleftrightarrow> \<not> fb_is_sticky b \<and> 0 < fb_expiry_timestamp b \<and> fb_expiry_timestamp b \<le> now"

definition purge_expired :: "(string \<Rightarrow> bool) \<Rightarrow> int \<Rightarrow> storage \<Rightarrow> storage \<times> nat" where
  "purge_expired unlink now st =
     (let st = fold (\<lambda>b. remove_payload unlink (fb_payload_path b)) (filter (bundle_expired now) (st_bundles st)) st;
          purged_files = length (filter (bundle_expired now) (st_bundles st));
          st = st\<lparr>st_bundles := filter (\<lambda>b. \<not> bundle_expired now b) (st_bundles st)\<rparr>;
          purged_chat = length (filter (message_expired now) (st_messages st));
          st = st\<lparr>st_messages := filter (\<lambda>m. \<not> message_expired now m) (st_messages st)\<rparr>
      in (st, purged_files + purged_chat))"

text \<open>
  A turn of the reaper at \<open>now\<close>: the purge, whether the change is broadcast, and the milliseconds it
  sleeps before the next turn.
\<close>

definition reaper_sleep :: "int \<Rightarrow> storage \<Rightarrow> nat" where
  "reaper_sleep now st =
     (case get_next_expiration_deadline st of
        Some deadline \<Rightarrow> if deadline \<le> now then 50 else min (max (nat (deadline - now)) 200) (3600 * 1000)
      | None \<Rightarrow> 600000)"

definition reaper_turn :: "(string \<Rightarrow> bool) \<Rightarrow> int \<Rightarrow> storage \<Rightarrow> storage \<times> bool \<times> nat" where
  "reaper_turn unlink now st =
     (let (st, purged) = purge_expired unlink now st
      in (st, 0 < purged, reaper_sleep now st))"

end
