(* ===== verification/Storage_Safety.thy ===== *)
theory Storage_Safety
  imports Internal_Storage
begin

text \<open>
  What the store keeps: the invariant of its tables under every sequence of operations, the account
  its list of conversations gives of the messages, and the turn of the reaper.
\<close>

section \<open>Tables with a key\<close>

definition keyed :: "('r \<Rightarrow> 'k) \<Rightarrow> 'r list \<Rightarrow> bool" where
  "keyed key rows \<longleftrightarrow> distinct (map key rows)"

lemma keyed_filter [intro]: "keyed key rows \<Longrightarrow> keyed key (filter P rows)"
  by (simp add: keyed_def distinct_map inj_on_def)

lemma keyed_map [intro]: "keyed key rows \<Longrightarrow> (\<And>r. key (f r) = key r) \<Longrightarrow> keyed key (map f rows)"
  by (simp add: keyed_def comp_def)

lemma keyed_insert_or_replace [intro]: "keyed key rows \<Longrightarrow> keyed key (insert_or_replace key row rows)"
  using keyed_filter [of key rows "\<lambda>r. key r \<noteq> key row"] by (auto simp: keyed_def insert_or_replace_def)

lemma keyed_insert_or_ignore [intro]: "keyed fst rows \<Longrightarrow> keyed fst (insert_or_ignore row rows)"
  by (auto simp: keyed_def insert_or_ignore_def)

lemma set_insert_or_replace: "set (insert_or_replace key row rows) = insert row {r \<in> set rows. key r \<noteq> key row}"
  by (auto simp: insert_or_replace_def)

lemma fst_insert_or_ignore: "fst ` set (insert_or_ignore row rows) = insert (fst row) (fst ` set rows)"
  by (auto simp: insert_or_ignore_def)

lemma keyed_fold_ignore [intro]: "keyed fst rows \<Longrightarrow> keyed fst (fold insert_or_ignore new rows)"
  by (induction new arbitrary: rows) auto

lemma fst_fold_ignore: "fst ` set (fold insert_or_ignore new rows) = fst ` set new \<union> fst ` set rows"
  by (induction new arbitrary: rows) (auto simp: fst_insert_or_ignore)

section \<open>The invariant\<close>

text \<open>What the constraints of the tables give of any database, and what the store adds: a message's
  conversation is in the list of conversations.\<close>

definition message_ok :: "chat_message \<Rightarrow> bool" where
  "message_ok m \<longleftrightarrow> cm_direction m \<in> set [''inbound'', ''outbound'']
     \<and> cm_status m \<in> set [''queued'', ''sent'', ''received'']"

definition database_ok :: "storage \<Rightarrow> bool" where
  "database_ok st \<longleftrightarrow> keyed fst (st_conversations st) \<and> keyed cm_id (st_messages st)
     \<and> keyed fb_id (st_bundles st) \<and> list_all message_ok (st_messages st)"

definition storage_ok :: "storage \<Rightarrow> bool" where
  "storage_ok st \<longleftrightarrow> database_ok st
     \<and> list_all (\<lambda>m. cm_conversation_peer m \<in> set (map fst (st_conversations st))) (st_messages st)"

lemmas storage_ok_defs = storage_ok_def database_ok_def list_all_iff

datatype storage_op =
    Insert_Message chat_message
  | Create_Conversation string string
  | Mark_Conversation_Read string
  | Toggle_Chat_Sticky string
  | Insert_File file_bundle
  | Toggle_File_Sticky string
  | Mark_File_Read string
  | Delete_File string
  | Reaper_Turn int
  | Reopen

fun storage_step :: "(string \<Rightarrow> bool) \<Rightarrow> storage_op \<Rightarrow> storage \<Rightarrow> storage" where
  "storage_step unlink (Insert_Message m) st = fst (insert_message m st)"
| "storage_step unlink (Create_Conversation now peer) st = fst (create_conversation now peer st)"
| "storage_step unlink (Mark_Conversation_Read peer) st = fst (mark_conversation_read peer st)"
| "storage_step unlink (Toggle_Chat_Sticky i) st = fst (toggle_chat_sticky i st)"
| "storage_step unlink (Insert_File b) st = insert_file_bundle b st"
| "storage_step unlink (Toggle_File_Sticky i) st = fst (toggle_file_sticky i st)"
| "storage_step unlink (Mark_File_Read i) st = mark_file_read i st"
| "storage_step unlink (Delete_File i) st = fst (delete_file_bundle unlink i st)"
| "storage_step unlink (Reaper_Turn now) st = fst (reaper_turn unlink now st)"
| "storage_step unlink Reopen st = init_tables st"

lemma storage_ok_map_messages:
  assumes "storage_ok st"
    and "\<And>m. cm_id (f m) = cm_id m \<and> cm_conversation_peer (f m) = cm_conversation_peer m
               \<and> cm_direction (f m) = cm_direction m \<and> cm_status (f m) = cm_status m"
  shows "storage_ok (st\<lparr>st_messages := map f (st_messages st)\<rparr>)"
  using assms by (auto simp: storage_ok_defs message_ok_def)

lemma storage_ok_map_bundles:
  assumes "storage_ok st" and "\<And>b. fb_id (f b) = fb_id b"
  shows "storage_ok (st\<lparr>st_bundles := map f (st_bundles st)\<rparr>)"
  using assms by (auto simp: storage_ok_defs)

lemma storage_ok_filter:
  assumes "storage_ok st"
  shows "storage_ok (st\<lparr>st_bundles := filter P (st_bundles st)\<rparr>)"
    and "storage_ok (st\<lparr>st_messages := filter Q (st_messages st)\<rparr>)"
  using assms by (auto simp: storage_ok_defs)

lemma storage_ok_disk [simp]: "storage_ok (st\<lparr>st_disk := D\<rparr>) \<longleftrightarrow> storage_ok st"
  by (simp add: storage_ok_defs)

lemma remove_payload_simps [simp]:
  "st_conversations (remove_payload unlink p st) = st_conversations st"
  "st_messages (remove_payload unlink p st) = st_messages st"
  "st_bundles (remove_payload unlink p st) = st_bundles st"
  "st_user_version (remove_payload unlink p st) = st_user_version st"
  "storage_ok (remove_payload unlink p st) = storage_ok st"
  "st_disk (remove_payload unlink p st) = st_disk st |` (- {q. q = p \<and> unlink q})"
  by (auto simp: remove_payload_def restrict_map_def fun_eq_iff)

lemma remove_payloads_simps [simp]:
  "st_conversations (fold (\<lambda>b. remove_payload unlink (f b)) bs st) = st_conversations st"
  "st_messages (fold (\<lambda>b. remove_payload unlink (f b)) bs st) = st_messages st"
  "st_bundles (fold (\<lambda>b. remove_payload unlink (f b)) bs st) = st_bundles st"
  "st_user_version (fold (\<lambda>b. remove_payload unlink (f b)) bs st) = st_user_version st"
  "storage_ok (fold (\<lambda>b. remove_payload unlink (f b)) bs st) = storage_ok st"
  "st_disk (fold (\<lambda>b. remove_payload unlink (f b)) bs st) = st_disk st |` (- {p \<in> f ` set bs. unlink p})"
  by (induction bs arbitrary: st) (auto simp: Un_commute intro!: arg_cong2 [of _ _ _ _ restrict_map])

lemma storage_ok_conversation:
  "storage_ok st \<Longrightarrow> storage_ok (st\<lparr>st_conversations := insert_or_ignore c (st_conversations st)\<rparr>)"
  by (auto simp: storage_ok_defs fst_insert_or_ignore)

lemma storage_ok_insert_chat_message: "storage_ok st \<Longrightarrow> storage_ok (fst (insert_chat_message m st))"
  by (auto simp: insert_chat_message_def Let_def storage_ok_defs fst_insert_or_ignore set_insert_or_replace message_ok_def)

lemma storage_ok_toggle:
  assumes "storage_ok st"
  shows "storage_ok (fst (toggle_chat_sticky i st))" and "storage_ok (fst (toggle_file_sticky i st))"
  using assms unfolding toggle_chat_sticky_def toggle_file_sticky_def
  by (auto simp: Let_def split: list.split intro: storage_ok_map_messages storage_ok_map_bundles)

lemma storage_ok_purge_expired: "storage_ok st \<Longrightarrow> storage_ok (fst (purge_expired unlink now st))"
  by (auto simp: purge_expired_def Let_def storage_ok_defs)

lemma storage_ok_init_tables:
  assumes "database_ok st"
  shows "storage_ok (init_tables st)"
proof -
  let ?c = "fold insert_or_ignore (remdups (map (\<lambda>m. (cm_conversation_peer m, cm_created_at m)) (st_messages st)))
              (st_conversations st)"
  have "storage_ok (st\<lparr>st_conversations := ?c\<rparr>)" (is "storage_ok ?st")
    using assms by (auto simp: storage_ok_defs fst_fold_ignore image_image)
  moreover have "storage_ok (?st\<lparr>st_messages := map (migrate_message_lifetime \<circ> migrate_message_epoch) (st_messages ?st),
                 st_bundles := map migrate_bundle_epoch (st_bundles ?st), st_user_version := 1\<rparr>)"
    if "storage_ok ?st"
  proof -
    have "storage_ok (?st\<lparr>st_messages := map (migrate_message_lifetime \<circ> migrate_message_epoch) (st_messages ?st)\<rparr>)"
      by (rule storage_ok_map_messages [OF that]) (simp add: migrate_message_lifetime_def migrate_message_epoch_def)
    from storage_ok_map_bundles [OF this, of migrate_bundle_epoch] show ?thesis
      by (simp add: migrate_bundle_epoch_def storage_ok_defs)
  qed
  ultimately show ?thesis by (simp add: init_tables_def Let_def)
qed

lemma storage_ok_step: "storage_ok st \<Longrightarrow> storage_ok (storage_step unlink op st)"
proof (induction op)
  case (Mark_Conversation_Read peer)
  then show ?case by (simp add: mark_conversation_read_def Let_def) (rule storage_ok_map_messages, auto)
next
  case (Mark_File_Read i)
  then show ?case by (simp add: mark_file_read_def) (rule storage_ok_map_bundles, auto)
next
  case Reopen
  then have "database_ok st" by (simp add: storage_ok_def)
  then show ?case by (simp add: storage_ok_init_tables)
next
  case (Insert_File b)
  then show ?case by (auto simp: insert_file_bundle_def storage_ok_defs)
next
  case (Delete_File i)
  then show ?case by (auto simp: delete_file_bundle_def Let_def storage_ok_defs split: option.split)
next
  case (Reaper_Turn now)
  then show ?case
    using storage_ok_purge_expired [of st unlink now] by (simp add: reaper_turn_def case_prod_beta)
qed (simp_all add: insert_message_def storage_ok_insert_chat_message create_conversation_def Let_def
       storage_ok_conversation storage_ok_toggle)

lemma storage_ok_run: "storage_ok st \<Longrightarrow> storage_ok (fold (storage_step unlink) ops st)"
  by (induction ops arbitrary: st) (auto intro: storage_ok_step)

section \<open>The account of the messages\<close>

lemma order_desc_simps [simp]:
  "set (order_desc key rows) = set rows"
  "length (order_desc key rows) = length rows"
  "distinct (order_desc key rows) = distinct rows"
  by (simp_all add: order_desc_def)

lemma order_desc_sorted: "sorted_wrt (\<lambda>a b. key b \<le> key a) (order_desc key rows)"
proof -
  have "sorted_wrt (\<lambda>a b. key a \<le> key b) (sort_key key (rev rows))"
    using sorted_sort_key [of key "rev rows"] unfolding sorted_wrt_map by simp
  then show ?thesis by (simp add: order_desc_def sorted_wrt_rev)
qed

lemma sum_list_bump:
  "k \<in> set ks \<Longrightarrow> distinct ks \<Longrightarrow> sum_list (map (\<lambda>i. if k = i then Suc (f i) else f i) ks) = Suc (sum_list (map f ks))"
proof (induction ks)
  case (Cons i ks)
  show ?case
  proof (cases "k = i")
    case True
    with Cons.prems have "map (\<lambda>i. if k = i then Suc (f i) else f i) ks = map f ks" by auto
    then show ?thesis using True by (simp del: map_eq_conv)
  qed (use Cons in auto)
qed simp

text \<open>With every message under exactly one of the keys, the counts of the keys add up.\<close>

lemma sum_of_groups:
  assumes "distinct ks" and "\<forall>x\<in>set xs. g x \<in> set ks"
  shows "sum_list (map (\<lambda>k. length (filter (\<lambda>x. g x = k \<and> P x) xs)) ks) = length (filter P xs)"
  using assms(2)
proof (induction xs)
  case (Cons x xs)
  have "g x \<in> set ks" using Cons.prems by simp
  then have count: "sum_list (map (\<lambda>k. if g x = k then Suc (f k) else f k) ks) = Suc (sum_list (map f ks))" for f
    using assms(1) by (rule sum_list_bump)
  show ?case
  proof (cases "P x")
    case True
    have "sum_list (map (\<lambda>k. length (filter (\<lambda>y. g y = k \<and> P y) (x # xs))) ks)
        = sum_list (map (\<lambda>k. if g x = k then Suc (length (filter (\<lambda>y. g y = k \<and> P y) xs))
                                else length (filter (\<lambda>y. g y = k \<and> P y) xs)) ks)"
      using True by (intro arg_cong [of _ _ sum_list] map_cong) auto
    also have "\<dots> = Suc (length (filter P xs))" using Cons by (simp add: count)
    finally show ?thesis using True by simp
  qed (use Cons in simp)
qed simp

lemma sum_of_all_groups:
  assumes "distinct ks" and "\<forall>x\<in>set xs. g x \<in> set ks"
  shows "sum_list (map (\<lambda>k. length (filter (\<lambda>x. g x = k) xs)) ks) = length xs"
  using sum_of_groups [OF assms, of "\<lambda>_. True"] by simp

definition inbound_unread :: "chat_message \<Rightarrow> bool" where
  "inbound_unread m \<longleftrightarrow> \<not> cm_is_read m \<and> cm_direction m = ''inbound''"

lemma conversation_row_simps [simp]:
  "cs_peer (conversation_row st c) = fst c"
  "cs_total_messages (conversation_row st c) = length (filter (\<lambda>m. cm_conversation_peer m = fst c) (st_messages st))"
  "cs_unread_count (conversation_row st c)
     = length (filter (\<lambda>m. cm_conversation_peer m = fst c \<and> inbound_unread m) (st_messages st))"
  by (simp_all add: conversation_row_def peer_messages_def inbound_unread_def Let_def conj_ac)

lemma list_conversations_account:
  assumes "storage_ok st"
  shows "distinct (map cs_peer (list_conversations st))"
    and "sum_list (map cs_total_messages (list_conversations st)) = length (st_messages st)"
    and "sum_list (map cs_unread_count (list_conversations st)) = length (filter inbound_unread (st_messages st))"
proof -
  define cs where "cs = order_desc (\<lambda>c. cs_last_timestamp (conversation_row st c)) (order_desc snd (st_conversations st))"
  have list: "list_conversations st = map (conversation_row st) cs" by (simp add: list_conversations_def cs_def)
  have "distinct (st_conversations st)" and inj: "inj_on fst (set (st_conversations st))"
    using assms by (auto simp: storage_ok_defs keyed_def distinct_map)
  then have keys: "distinct (map fst cs)" by (simp add: distinct_map cs_def)
  have peers: "\<forall>m\<in>set (st_messages st). cm_conversation_peer m \<in> set (map fst cs)"
    using assms by (simp add: storage_ok_defs cs_def)
  show "distinct (map cs_peer (list_conversations st))" using keys by (simp add: list comp_def)
  show "sum_list (map cs_total_messages (list_conversations st)) = length (st_messages st)"
    using sum_of_all_groups [OF keys peers] by (simp add: list comp_def)
  show "sum_list (map cs_unread_count (list_conversations st)) = length (filter inbound_unread (st_messages st))"
    using sum_of_groups [OF keys peers, of inbound_unread] by (simp add: list comp_def)
qed

lemma list_conversations_sorted:
  "sorted_wrt (\<lambda>a b. cs_last_timestamp b \<le> cs_last_timestamp a) (list_conversations st)"
  unfolding list_conversations_def sorted_wrt_map by (rule order_desc_sorted)

section \<open>Opening again\<close>

lemma fold_ignore_present:
  "fst ` set new \<subseteq> fst ` set rows \<Longrightarrow> fold insert_or_ignore new rows = rows"
  by (induction new) (auto simp: insert_or_ignore_def)

text \<open>A database that was opened before is neither migrated again nor changed.\<close>

lemma init_tables_unchanged:
  assumes "storage_ok st" and "1 \<le> st_user_version st"
  shows "init_tables st = st"
proof -
  have "fst ` set (remdups (map (\<lambda>m. (cm_conversation_peer m, cm_created_at m)) (st_messages st)))
      \<subseteq> fst ` set (st_conversations st)"
    using assms(1) by (auto simp: storage_ok_defs)
  from fold_ignore_present [OF this] show ?thesis using assms(2) by (simp add: init_tables_def Let_def)
qed

lemma init_tables_version: "1 \<le> st_user_version (init_tables st)"
  by (simp add: init_tables_def Let_def)

lemma version_kept: "1 \<le> st_user_version st \<Longrightarrow> 1 \<le> st_user_version (storage_step unlink op st)"
  by (cases op)
    (simp_all add: insert_message_def insert_chat_message_def create_conversation_def mark_conversation_read_def
      toggle_chat_sticky_def toggle_file_sticky_def insert_file_bundle_def mark_file_read_def delete_file_bundle_def
      reaper_turn_def purge_expired_def init_tables_version Let_def case_prod_beta split: list.split option.split)

lemma version_run: "1 \<le> st_user_version st \<Longrightarrow> 1 \<le> st_user_version (fold (storage_step unlink) ops st)"
  by (induction ops arbitrary: st) (auto intro: version_kept)

text \<open>C27: the store keeps its tables consistent and its list of conversations accounts for every message.
  Any database the constraints of the tables allow is opened (which migrates it), then any sequence of
  operations is applied: messages stored, conversations created and marked read, retention flags
  toggled, files stored, marked and deleted, turns of the reaper at any times, and reopenings.  Then
  the identifiers are still unique, every message has a valid direction and status and its conversation
  is in the list of conversations; that list has every peer once, the latest first, and its totals and
  unread counts add up to all the messages and to all the unread inbound ones; and opening the database
  once more changes nothing.
\<close>

theorem conversations_account:
  assumes "database_ok st" and "st' = fold (storage_step unlink) ops (init_tables st)"
  shows "storage_ok st'
    \<and> distinct (map cs_peer (list_conversations st'))
    \<and> sorted_wrt (\<lambda>a b. cs_last_timestamp b \<le> cs_last_timestamp a) (list_conversations st')
    \<and> sum_list (map cs_total_messages (list_conversations st')) = length (st_messages st')
    \<and> sum_list (map cs_unread_count (list_conversations st')) = length (filter inbound_unread (st_messages st'))
    \<and> init_tables st' = st'"
proof -
  have ok: "storage_ok st'" unfolding assms(2) by (rule storage_ok_run [OF storage_ok_init_tables [OF assms(1)]])
  have "1 \<le> st_user_version st'" unfolding assms(2) by (rule version_run [OF init_tables_version])
  with ok show ?thesis by (simp add: list_conversations_account list_conversations_sorted init_tables_unchanged)
qed

definition example_message :: chat_message where
  "example_message = \<lparr>cm_id = ''m'', cm_conversation_peer = ''p'', cm_sender_eid = ''p'', cm_recipient_eid = ''q'',
     cm_content = ''hello'', cm_direction = ''inbound'', cm_status = ''received'', cm_is_read = False,
     cm_is_sticky = False, cm_timestamp = 1000, cm_expiry_timestamp = 0, cm_created_at = ''d''\<rparr>"

definition example_storage :: storage where
  "example_storage = empty_storage\<lparr>st_messages := [example_message]\<rparr>"

lemma example_database_ok: "database_ok example_storage"
  by (simp add: example_storage_def empty_storage_def example_message_def database_ok_def keyed_def message_ok_def)

lemma conversations_account_witness:
  "init_tables (fold (storage_step (\<lambda>_. True)) [Toggle_Chat_Sticky ''m'', Reaper_Turn 946684801000] (init_tables example_storage))
     = fold (storage_step (\<lambda>_. True)) [Toggle_Chat_Sticky ''m'', Reaper_Turn 946684801000] (init_tables example_storage)"
  using conversations_account [OF example_database_ok refl, of "\<lambda>_. True" "[Toggle_Chat_Sticky ''m'', Reaper_Turn 946684801000]"]
  by blast

text \<open>
  The migration moves an expiry of zero, which stands for none, along with the timestamp: a message that
  should stay is removed by the next turn of the reaper.
\<close>

lemma migration_expires_permanent:
  assumes "0 < cm_timestamp m" and "cm_timestamp m < 1000000000000" and "\<not> cm_is_sticky m"
    and "cm_expiry_timestamp m = 0" and "DTN_EPOCH_OFFSET \<le> now"
  shows "\<not> message_expired now m" and "message_expired now (migrate_message_lifetime (migrate_message_epoch m))"
  using assms by (simp_all add: message_expired_def migrate_message_epoch_def migrate_message_lifetime_def DTN_EPOCH_OFFSET_def)

section \<open>The reaper\<close>

lemma fold_min_le: "fold min xs (x::int) \<le> x \<and> (\<forall>y\<in>set xs. fold min xs x \<le> y)"
proof (induction xs arbitrary: x)
  case (Cons a xs)
  from Cons.IH [of "min a x"] show ?case by auto
qed simp

lemma fold_min_in: "fold min xs (x::int) \<in> insert x (set xs)"
proof (induction xs arbitrary: x)
  case (Cons a xs)
  from Cons.IH [of "min a x"] show ?case by (auto simp: min_def split: if_splits)
qed simp

lemma min_of_None [simp]: "min_of xs = None \<longleftrightarrow> xs = []"
  by (simp add: min_of_def split: list.split)

lemma min_of_Some: "min_of xs = Some d \<Longrightarrow> d \<in> set xs \<and> (\<forall>x\<in>set xs. d \<le> x)"
  using fold_min_le fold_min_in by (fastforce simp: min_of_def split: list.splits)

text \<open>The instants at which something is to be removed.\<close>

definition deadlines :: "storage \<Rightarrow> int set" where
  "deadlines st =
     {fb_expiry_timestamp b |b. b \<in> set (st_bundles st) \<and> \<not> fb_is_sticky b \<and> 0 < fb_expiry_timestamp b}
     \<union> {cm_expiry_timestamp m |m. m \<in> set (st_messages st) \<and> \<not> cm_is_sticky m \<and> 0 < cm_expiry_timestamp m}"

lemma next_deadline_None: "get_next_expiration_deadline st = None \<longleftrightarrow> deadlines st = {}"
  unfolding get_next_expiration_deadline_def Let_def
  by (fastforce simp: deadlines_def filter_empty_conv dest!: min_of_Some split: option.splits)

lemma next_deadline_Some:
  assumes "get_next_expiration_deadline st = Some d"
  shows "d \<in> deadlines st \<and> (\<forall>e\<in>deadlines st. d \<le> e)"
  using assms unfolding get_next_expiration_deadline_def Let_def
  by (fastforce simp: deadlines_def filter_empty_conv min_def dest!: min_of_Some split: option.splits if_splits)

lemma purge_expired_rows:
  assumes "purge_expired unlink now st = (st', n)"
  shows "st_messages st' = filter (\<lambda>m. \<not> message_expired now m) (st_messages st)"
    and "st_bundles st' = filter (\<lambda>b. \<not> bundle_expired now b) (st_bundles st)"
    and "st_disk st' = st_disk st |` (- {p. unlink p \<and> (\<exists>b\<in>set (st_bundles st). bundle_expired now b \<and> fb_payload_path b = p)})"
    and "n + length (st_messages st') + length (st_bundles st') = length (st_messages st) + length (st_bundles st)"
  using assms sum_length_filter_compl [of "bundle_expired now" "st_bundles st"]
    sum_length_filter_compl [of "message_expired now" "st_messages st"]
  by (auto simp: purge_expired_def Let_def intro!: arg_cong2 [of _ _ _ _ restrict_map])

lemma purge_expired_deadlines:
  assumes "purge_expired unlink now st = (st', n)"
  shows "deadlines st' = {e \<in> deadlines st. now < e}"
  using purge_expired_rows(1,2) [OF assms]
  by (auto simp: deadlines_def bundle_expired_def message_expired_def)

lemma filter_all_iff_length: "length (filter P xs) = length xs \<longleftrightarrow> filter P xs = xs"
  by (metis length_filter_less filter_id_conv less_irrefl)

text \<open>After a purge the reaper sleeps until the next deadline, but not less than 200 ms or more than an hour.\<close>

lemma reaper_sleep_bounds:
  assumes "\<forall>e\<in>deadlines st. now < e"
  shows "200 \<le> reaper_sleep now st" and "reaper_sleep now st \<le> 3600000"
    and "e \<in> deadlines st \<Longrightarrow> now + int (reaper_sleep now st) \<le> max e (now + 200)"
  using assms next_deadline_Some [of st] next_deadline_None [of st]
  by (fastforce simp: reaper_sleep_def split: option.splits)+

text \<open>C28: a turn of the reaper removes exactly what has expired, and the next turn comes in time.  The
  messages and bundles that remain are those that are pinned, have no expiry or expire later, in their
  order; the payload files that disappear are those of the removed bundles the system lets be removed;
  a change is broadcast exactly if a row went.  What is scheduled afterwards is what was scheduled for
  later than now, and the reaper sleeps between 200 ms and an hour: it wakes up for every remaining
  deadline at the latest at that deadline, or 200 ms from now.
\<close>

theorem reaper_turn_correct:
  assumes "reaper_turn unlink now st = (st', changed, sleep)"
  shows "st_messages st' = filter (\<lambda>m. cm_is_sticky m \<or> cm_expiry_timestamp m \<le> 0 \<or> now < cm_expiry_timestamp m) (st_messages st)
    \<and> st_bundles st' = filter (\<lambda>b. fb_is_sticky b \<or> fb_expiry_timestamp b \<le> 0 \<or> now < fb_expiry_timestamp b) (st_bundles st)
    \<and> st_disk st' = st_disk st |` (- {p. unlink p \<and> (\<exists>b\<in>set (st_bundles st). b \<notin> set (st_bundles st') \<and> fb_payload_path b = p)})
    \<and> (changed \<longleftrightarrow> st_messages st' \<noteq> st_messages st \<or> st_bundles st' \<noteq> st_bundles st)
    \<and> deadlines st' = {e \<in> deadlines st. now < e}
    \<and> 200 \<le> sleep \<and> sleep \<le> 3600000
    \<and> (\<forall>e\<in>deadlines st'. now + int sleep \<le> max e (now + 200))"
proof -
  obtain n where purge: "purge_expired unlink now st = (st', n)" and rest: "changed = (0 < n)" "sleep = reaper_sleep now st'"
    using assms by (auto simp: reaper_turn_def split: prod.splits)
  note rows = purge_expired_rows [OF purge] and due = purge_expired_deadlines [OF purge]
  have m: "st_messages st' = filter (\<lambda>m. cm_is_sticky m \<or> cm_expiry_timestamp m \<le> 0 \<or> now < cm_expiry_timestamp m) (st_messages st)"
    unfolding rows(1) by (rule filter_cong) (auto simp: message_expired_def)
  have b: "st_bundles st' = filter (\<lambda>b. fb_is_sticky b \<or> fb_expiry_timestamp b \<le> 0 \<or> now < fb_expiry_timestamp b) (st_bundles st)"
    unfolding rows(2) by (rule filter_cong) (auto simp: bundle_expired_def)
  have d: "st_disk st' = st_disk st |` (- {p. unlink p \<and> (\<exists>b\<in>set (st_bundles st). b \<notin> set (st_bundles st') \<and> fb_payload_path b = p)})"
    unfolding rows(3) using rows(2) by (auto intro!: arg_cong2 [of _ _ _ _ restrict_map])
  have "length (st_messages st') \<le> length (st_messages st)" "length (st_bundles st') \<le> length (st_bundles st)"
    by (simp_all add: rows(1,2))
  with rows(4) have "0 < n \<longleftrightarrow> length (st_messages st') \<noteq> length (st_messages st) \<or> length (st_bundles st') \<noteq> length (st_bundles st)"
    by linarith
  then have c: "changed \<longleftrightarrow> st_messages st' \<noteq> st_messages st \<or> st_bundles st' \<noteq> st_bundles st"
    unfolding rest(1) rows(1,2) filter_all_iff_length .
  have late: "\<forall>e\<in>deadlines st'. now < e" by (simp add: due)
  show ?thesis using m b d c due reaper_sleep_bounds [OF late] by (simp add: rest(2))
qed

lemma reaper_turn_correct_witness:
  "st_messages (fst (reaper_turn (\<lambda>_. True) 5 (example_storage\<lparr>st_messages :=
       [example_message\<lparr>cm_expiry_timestamp := 3\<rparr>, example_message\<lparr>cm_expiry_timestamp := 900\<rparr>, example_message]\<rparr>)))
     = [example_message\<lparr>cm_expiry_timestamp := 900\<rparr>, example_message]"
proof -
  let ?st = "example_storage\<lparr>st_messages :=
       [example_message\<lparr>cm_expiry_timestamp := 3\<rparr>, example_message\<lparr>cm_expiry_timestamp := 900\<rparr>, example_message]\<rparr>"
  obtain st' changed sleep where "reaper_turn (\<lambda>_. True) 5 ?st = (st', changed, sleep)" by (metis prod_cases3)
  from reaper_turn_correct [OF this] this show ?thesis by (simp add: example_message_def)
qed

end
