(* ===== verification/Service_Tracker.thy ===== *)
theory Service_Tracker
  imports Internal_Storage Ordered_Map
begin

text \<open>
  The tracker of the services registered with the bundle agent (\<^verbatim>\<open>dtn-hdy-ham/src/service_tracker.rs\<close>):
  the wrapper put around every service records it when the agent registers it and removes it when the
  agent lets it go; every change is broadcast.  The events sent are kept in a log.
\<close>

record service_info =
  si_eid :: string
  si_service_type :: string
  si_registered_at :: string

datatype service_event = Services_Update "service_info list" | Bundles_Update | Chat_Event chat_message

record tracker =
  tk_services :: "(string, service_info) btree"
  tk_sent :: "service_event list"

definition new_tracker :: tracker where
  "new_tracker = \<lparr>tk_services = [], tk_sent = []\<rparr>"

definition list_services :: "tracker \<Rightarrow> service_info list" where
  "list_services t = map snd (tk_services t)"

definition send_event :: "service_event \<Rightarrow> tracker \<Rightarrow> tracker" where
  "send_event e t = t\<lparr>tk_sent := tk_sent t @ [e]\<rparr>"

definition broadcast_update :: "tracker \<Rightarrow> tracker" where
  "broadcast_update t = send_event (Services_Update (list_services t)) t"

definition broadcast_bundles_update :: "tracker \<Rightarrow> tracker" where
  "broadcast_bundles_update t = send_event Bundles_Update t"

definition broadcast_chat_message :: "chat_message \<Rightarrow> tracker \<Rightarrow> tracker" where
  "broadcast_chat_message m t = send_event (Chat_Event m) t"

definition record_service :: "string \<Rightarrow> string \<Rightarrow> string \<Rightarrow> tracker \<Rightarrow> tracker" where
  "record_service now eid service_type t =
     (let info = \<lparr>si_eid = eid, si_service_type = service_type, si_registered_at = now\<rparr>
      in broadcast_update (t\<lparr>tk_services := bt_insert eid info (tk_services t)\<rparr>))"

definition remove_service :: "string \<Rightarrow> tracker \<Rightarrow> tracker" where
  "remove_service eid t = broadcast_update (t\<lparr>tk_services := bt_remove eid (tk_services t)\<rparr>)"

section \<open>The wrappers\<close>

text \<open>Low-level services and applications are wrapped alike; what the wrapper calls of the service it
  holds is a call of the log.\<close>

record tracked_service =
  ts_service_type :: string
  ts_registered_eid :: "string option"

datatype inner_call = Inner_Register string | Inner_Unregister

definition GRPC_CLIENT :: string where "GRPC_CLIENT = ''gRPC Client''"

definition new_tracked :: "string \<Rightarrow> tracked_service" where
  "new_tracked service_type = \<lparr>ts_service_type = service_type, ts_registered_eid = None\<rparr>"

definition tracked_on_register ::
  "string \<Rightarrow> string \<Rightarrow> tracked_service \<times> tracker \<Rightarrow> (tracked_service \<times> tracker) \<times> inner_call" where
  "tracked_on_register now source w =
     (case w of (s, t) \<Rightarrow>
        ((s\<lparr>ts_registered_eid := Some source\<rparr>, record_service now source (ts_service_type s) t), Inner_Register source))"

definition tracked_on_unregister :: "tracked_service \<times> tracker \<Rightarrow> (tracked_service \<times> tracker) \<times> inner_call" where
  "tracked_on_unregister w =
     (case w of (s, t) \<Rightarrow>
        (case ts_registered_eid s of
           Some eid \<Rightarrow> ((s\<lparr>ts_registered_eid := None\<rparr>, remove_service eid t), Inner_Unregister)
         | None \<Rightarrow> ((s, t), Inner_Unregister)))"

section \<open>What the agent calls\<close>

text \<open>
  The wrappers that exist and the tracker they share.  The agent gives a service that is not registered
  an endpoint no registered service has, and unregisters services; services are wrapped at any time.
\<close>

inductive registry :: "tracked_service list \<times> tracker \<Rightarrow> bool" where
  empty: "registry ([], new_tracker)"
| wrap: "registry (ws, t) \<Longrightarrow> registry (ws @ [new_tracked service_type], t)"
| register: "registry (ws, t) \<Longrightarrow> i < length ws \<Longrightarrow> ts_registered_eid (ws ! i) = None
    \<Longrightarrow> \<forall>w\<in>set ws. ts_registered_eid w \<noteq> Some eid
    \<Longrightarrow> tracked_on_register now eid (ws ! i, t) = ((w', t'), c) \<Longrightarrow> registry (ws[i := w'], t')"
| unregister: "registry (ws, t) \<Longrightarrow> i < length ws \<Longrightarrow> tracked_on_unregister (ws ! i, t) = ((w', t'), c)
    \<Longrightarrow> registry (ws[i := w'], t')"
| other_event: "registry (ws, t) \<Longrightarrow> registry (ws, send_event e t)"
  if "case e of Services_Update _ \<Rightarrow> False | _ \<Rightarrow> True"

text \<open>What is registered: the endpoints of the wrappers with the type each has.\<close>

definition registered :: "tracked_service list \<Rightarrow> (string \<times> string) set" where
  "registered ws = {(eid, ts_service_type w) |eid w. w \<in> set ws \<and> ts_registered_eid w = Some eid}"

definition recorded :: "tracker \<Rightarrow> (string \<times> string) set" where
  "recorded t = {(si_eid s, si_service_type s) |s. s \<in> set (list_services t)}"

definition one_holder :: "tracked_service list \<Rightarrow> bool" where
  "one_holder ws \<longleftrightarrow> (\<forall>i j eid. i < length ws \<longrightarrow> j < length ws \<longrightarrow> ts_registered_eid (ws ! i) = Some eid
     \<longrightarrow> ts_registered_eid (ws ! j) = Some eid \<longrightarrow> i = j)"

definition registry_ok :: "tracked_service list \<Rightarrow> tracker \<Rightarrow> bool" where
  "registry_ok ws t \<longleftrightarrow> one_holder ws \<and> bt_ok (tk_services t)
     \<and> (\<forall>eid s. bt_get (tk_services t) eid = Some s \<longrightarrow> si_eid s = eid)
     \<and> (\<forall>eid ty. (\<exists>s. bt_get (tk_services t) eid = Some s \<and> si_service_type s = ty) \<longleftrightarrow> (eid, ty) \<in> registered ws)"

lemma send_event_simps [simp]:
  "tk_services (send_event e t) = tk_services t" "tk_sent (send_event e t) = tk_sent t @ [e]"
  "list_services (send_event e t) = list_services t"
  by (simp_all add: send_event_def list_services_def)

lemma registered_append: "registered (ws @ [new_tracked ty]) = registered ws"
  by (auto simp: registered_def new_tracked_def)

lemma one_holder_append: "one_holder ws \<Longrightarrow> one_holder (ws @ [new_tracked ty])"
  by (auto simp: one_holder_def nth_append new_tracked_def)

lemma registered_update:
  assumes "one_holder ws" and "i < length ws"
  shows "registered (ws[i := w']) =
    {e \<in> registered ws. ts_registered_eid (ws ! i) \<noteq> Some (fst e)}
    \<union> {(eid, ts_service_type w') |eid. ts_registered_eid w' = Some eid}" (is "?l = ?r")
proof -
  have members: "registered xs = {(eid, ts_service_type (xs ! j)) |eid j. j < length xs \<and> ts_registered_eid (xs ! j) = Some eid}" for xs
    by (force simp: registered_def in_set_conv_nth)
  show ?thesis
  proof (intro set_eqI iffI)
    fix e assume "e \<in> ?l"
    then obtain eid j where j: "j < length ws" "ts_registered_eid (ws[i := w'] ! j) = Some eid"
        "e = (eid, ts_service_type (ws[i := w'] ! j))" by (auto simp: members)
    show "e \<in> ?r"
    proof (cases "j = i")
      case True
      then show ?thesis using j assms(2) by auto
    next
      case False
      then have "e \<in> registered ws" and "ts_registered_eid (ws ! i) \<noteq> Some eid"
        using j assms by (auto simp: members one_holder_def)
      then show ?thesis using j(3) by simp
    qed
  next
    fix e assume "e \<in> ?r"
    then consider eid j where "j < length ws" "ts_registered_eid (ws ! j) = Some eid" "e = (eid, ts_service_type (ws ! j))"
        "ts_registered_eid (ws ! i) \<noteq> Some eid" | eid where "e = (eid, ts_service_type w')" "ts_registered_eid w' = Some eid"
      by (auto simp: members)
    then show "e \<in> ?l"
    proof cases
      case 1
      then have "j \<noteq> i" by auto
      then show ?thesis using 1 by (auto simp: members intro!: exI [of _ j])
    next
      case 2
      then show ?thesis using assms(2) by (auto simp: members intro!: exI [of _ i])
    qed
  qed
qed

lemma one_holder_update:
  assumes "one_holder ws" and "\<And>eid w. ts_registered_eid w' = Some eid \<Longrightarrow> w \<in> set ws \<Longrightarrow> ts_registered_eid w \<noteq> Some eid"
  shows "one_holder (ws[i := w'])"
proof -
  have "j = k" if "j < length ws" "k < length ws" "ts_registered_eid (ws[i := w'] ! j) = Some eid"
      "ts_registered_eid (ws[i := w'] ! k) = Some eid" for j k eid
  proof (cases "j = i"; cases "k = i")
    assume "j \<noteq> i" "k \<noteq> i"
    then show ?thesis using that assms(1) by (auto simp: one_holder_def)
  qed (use that assms(2) nth_mem in \<open>fastforce+\<close>)
  then show ?thesis by (simp add: one_holder_def)
qed

lemma registry_ok_reachable: "registry (ws, t) \<Longrightarrow> registry_ok ws t"
proof (induction "(ws, t)" arbitrary: ws t rule: registry.induct)
  case empty
  then show ?case by (simp add: registry_ok_def one_holder_def registered_def new_tracker_def)
next
  case (wrap ws t ty)
  then show ?case by (simp add: registry_ok_def one_holder_append registered_append)
next
  case (register ws t i eid now w' t' c)
  then have w': "w' = (ws ! i)\<lparr>ts_registered_eid := Some eid\<rparr>" and t': "t' = record_service now eid (ts_service_type (ws ! i)) t"
    by (auto simp: tracked_on_register_def)
  have holder: "one_holder ws" using register by (simp add: registry_ok_def)
  then have "one_holder (ws[i := w'])" by (rule one_holder_update) (use register w' in auto)
  moreover have "registered (ws[i := w']) = insert (eid, ts_service_type (ws ! i)) (registered ws)"
    using registered_update [OF holder register(3), of w'] register(4) by (auto simp: w')
  moreover have "\<forall>ty. (eid, ty) \<notin> registered ws" using register by (auto simp: registered_def)
  ultimately show ?case using register(2)
    by (auto simp: registry_ok_def t' record_service_def broadcast_update_def Let_def split: if_splits)
next
  case (unregister ws t i w' t' c)
  have holder: "one_holder ws" using unregister by (simp add: registry_ok_def)
  show ?case
  proof (cases "ts_registered_eid (ws ! i)")
    case None
    then have "w' = ws ! i" "t' = t" using unregister by (auto simp: tracked_on_unregister_def)
    then show ?thesis using unregister by simp
  next
    case (Some eid)
    then have w': "w' = (ws ! i)\<lparr>ts_registered_eid := None\<rparr>" and t': "t' = remove_service eid t"
      using unregister by (auto simp: tracked_on_unregister_def)
    have "one_holder (ws[i := w'])" by (rule one_holder_update [OF holder]) (simp add: w')
    moreover have "registered (ws[i := w']) = {e \<in> registered ws. fst e \<noteq> eid}"
      using registered_update [OF holder unregister(3), of w'] Some by (auto simp: w')
    ultimately show ?thesis using unregister(2)
      by (auto simp: registry_ok_def t' remove_service_def broadcast_update_def)
  qed
next
  case (other_event e ws t)
  then show ?case by (simp add: registry_ok_def)
qed

section \<open>The list and the events\<close>

text \<open>What a subscriber that has followed all events takes for the list of services.\<close>

definition followed :: "service_event list \<Rightarrow> service_info list" where
  "followed es = fold (\<lambda>e cur. case e of Services_Update l \<Rightarrow> l | _ \<Rightarrow> cur) es []"

lemma followed_update [simp]: "followed (es @ [Services_Update l]) = l"
  by (simp add: followed_def)

lemma followed_other: "(case e of Services_Update _ \<Rightarrow> False | _ \<Rightarrow> True) \<Longrightarrow> followed (es @ [e]) = followed es"
  by (cases e) (simp_all add: followed_def)

lemma followed_broadcast [simp]:
  "followed (tk_sent (broadcast_update t)) = list_services t" "list_services (broadcast_update t) = list_services t"
  by (simp_all add: broadcast_update_def)

lemma followed_reachable: "registry (ws, t) \<Longrightarrow> followed (tk_sent t) = list_services t"
proof (induction "(ws, t)" arbitrary: ws t rule: registry.induct)
  case empty
  then show ?case by (simp add: new_tracker_def followed_def list_services_def)
next
  case (register ws t i eid now w' t' c)
  then show ?case by (auto simp: tracked_on_register_def record_service_def Let_def)
next
  case (unregister ws t i w' t' c)
  then show ?case by (auto simp: tracked_on_unregister_def remove_service_def split: option.splits)
qed (simp_all add: followed_other)

text \<open>The list of services is the list of what is registered.  However services are wrapped, registered
  and unregistered by an agent that gives no endpoint to two services at once, and whatever else is
  broadcast in between, the list has exactly the endpoints of the registered services, each once and in
  order, with their types; and whoever follows the broadcast events knows exactly this list.
\<close>

theorem services_tracked:
  assumes "registry (ws, t)"
  shows "{(si_eid s, si_service_type s) |s. s \<in> set (list_services t)} = registered ws
    \<and> sorted_wrt (<) (map si_eid (list_services t))
    \<and> followed (tk_sent t) = list_services t"
proof -
  have ok: "bt_ok (tk_services t)" and eid: "\<And>e s. bt_get (tk_services t) e = Some s \<Longrightarrow> si_eid s = e"
    and reg: "\<And>e ty. (\<exists>s. bt_get (tk_services t) e = Some s \<and> si_service_type s = ty) \<longleftrightarrow> (e, ty) \<in> registered ws"
    using registry_ok_reachable [OF assms] by (auto simp: registry_ok_def)
  have mem: "(e, s) \<in> set (tk_services t) \<longleftrightarrow> bt_get (tk_services t) e = Some s" for e s
    by (rule bt_get_in_set [OF ok])
  have listed: "s \<in> set (list_services t) \<longleftrightarrow> (\<exists>e. bt_get (tk_services t) e = Some s)" for s
    unfolding list_services_def set_map mem [symmetric] by (force simp: image_iff)
  have "(e, ty) \<in> {(si_eid s, si_service_type s) |s. s \<in> set (list_services t)} \<longleftrightarrow> (e, ty) \<in> registered ws" for e ty
  proof -
    have "(e, ty) \<in> {(si_eid s, si_service_type s) |s. s \<in> set (list_services t)}
        \<longleftrightarrow> (\<exists>s. bt_get (tk_services t) e = Some s \<and> si_service_type s = ty)"
      unfolding listed using eid by blast
    then show ?thesis unfolding reg .
  qed
  then have "{(si_eid s, si_service_type s) |s. s \<in> set (list_services t)} = registered ws" by (simp only: set_eq_iff split_paired_All simp_thms)
  moreover have "map si_eid (list_services t) = map fst (tk_services t)"
    using eid by (auto simp: list_services_def mem [symmetric])
  moreover have "sorted_wrt (<) (map fst (tk_services t))" using ok by (simp add: bt_ok_def)
  ultimately show ?thesis using followed_reachable [OF assms] by simp
qed

lemma services_tracked_witness:
  "followed (tk_sent (snd (fst (tracked_on_register ''d'' ''dtn://a/echo'' (new_tracked GRPC_CLIENT, new_tracker)))))
    = list_services (snd (fst (tracked_on_register ''d'' ''dtn://a/echo'' (new_tracked GRPC_CLIENT, new_tracker))))"
proof -
  let ?w = "new_tracked GRPC_CLIENT"
  obtain w' t' c where r: "tracked_on_register ''d'' ''dtn://a/echo'' (?w, new_tracker) = ((w', t'), c)"
    by (metis surj_pair)
  have "registry ([?w], new_tracker)" using registry.wrap [OF registry.empty] by simp
  then have "registry ([?w][0 := w'], t')"
    by (rule registry.register [where now = "''d''" and eid = "''dtn://a/echo''" and c = c])
      (simp_all only: r nth_Cons_0, simp_all add: new_tracked_def)
  from services_tracked [OF this] show ?thesis by (simp only: r fst_conv snd_conv)
qed

end
