(* ===== verification/Utf8.thy ===== *)
theory Utf8
  imports Prelude Strings
begin

text \<open>
  UTF-8 as the standard library of Rust reads it.  A text of the sources is the list of the octets of
  its encoding, each as a character.
\<close>

definition is_cont :: "u8 \<Rightarrow> bool" where
  "is_cont b \<longleftrightarrow> 0x80 \<le> b \<and> b \<le> 0xBF"

text \<open>The second octets a first octet allows.\<close>

definition second_ok :: "u8 \<Rightarrow> u8 \<Rightarrow> bool" where
  "second_ok b c =
     (if b = 0xE0 then 0xA0 \<le> c \<and> c \<le> 0xBF
      else if b = 0xED then 0x80 \<le> c \<and> c \<le> 0x9F
      else if b = 0xF0 then 0x90 \<le> c \<and> c \<le> 0xBF
      else if b = 0xF4 then 0x80 \<le> c \<and> c \<le> 0x8F
      else is_cont c)"

text \<open>The length of a character by its first octet; zero where no character begins with it.\<close>

definition utf8_width :: "u8 \<Rightarrow> nat" where
  "utf8_width b =
     (if b < 0x80 then 1
      else if 0xC2 \<le> b \<and> b \<le> 0xDF then 2
      else if 0xE0 \<le> b \<and> b \<le> 0xEF then 3
      else if 0xF0 \<le> b \<and> b \<le> 0xF4 then 4
      else 0)"

text \<open>Whether a character begins the octets, and how many octets it or the invalid sequence takes.\<close>

definition utf8_head :: "u8 \<Rightarrow> bytes \<Rightarrow> bool \<times> nat" where
  "utf8_head b bs =
     (let w = utf8_width b
      in if w = 0 then (False, 1)
         else if w = 1 then (True, 1)
         else case bs of
                c # bs' \<Rightarrow>
                  if \<not> second_ok b c then (False, 1)
                  else if w = 2 then (True, 2)
                  else (case bs' of
                          d # bs'' \<Rightarrow>
                            if \<not> is_cont d then (False, 2)
                            else if w = 3 then (True, 3)
                            else (case bs'' of e # _ \<Rightarrow> if is_cont e then (True, 4) else (False, 3) | [] \<Rightarrow> (False, 3))
                        | [] \<Rightarrow> (False, 2))
              | [] \<Rightarrow> (False, 1))"

lemma utf8_head_pos [simp]: "0 < snd (utf8_head b bs)"
  by (simp add: utf8_head_def Let_def split: list.split)

definition text_of :: "bytes \<Rightarrow> string" where
  "text_of = map (\<lambda>b. char_of (unat b))"

definition bytes_of :: "string \<Rightarrow> bytes" where
  "bytes_of s = map of_char s"

lemma text_of_bytes_of [simp]: "text_of (bytes_of s) = s"
proof -
  have "char_of (unat (of_char c :: u8)) = c" for c
    using nat_of_char_less_256 [of c] unfolding of_nat_of_char [symmetric, where ?'a = u8]
    by (simp add: unat_of_nat del: of_nat_of_char)
  then show ?thesis by (simp add: text_of_def bytes_of_def map_idI)
qed

text \<open>\<^verbatim>\<open>str::from_utf8\<close> and \<^verbatim>\<open>String::from_utf8_lossy\<close>, which puts U+FFFD for every invalid sequence.\<close>

function utf8_valid :: "bytes \<Rightarrow> bool" where
  "utf8_valid bs =
     (case bs of
        [] \<Rightarrow> True
      | b # rest \<Rightarrow> (let (ok, n) = utf8_head b rest in ok \<and> utf8_valid (drop n bs)))"
  by auto
termination
proof (relation "measure length")
  fix bs rest :: bytes and b ok n and p :: "bool \<times> nat"
  assume "bs = b # rest" "p = utf8_head b rest" "(ok, n) = p" 
  then have "n = snd (utf8_head b rest)" by (metis snd_conv)
  then have "0 < n" by simp
  then show "(drop n bs, bs) \<in> measure length" using \<open>bs = b # rest\<close> by simp
qed simp

function utf8_lossy_text :: "bytes \<Rightarrow> string" where
  "utf8_lossy_text bs =
     (case bs of
        [] \<Rightarrow> []
      | b # rest \<Rightarrow>
          (let (ok, n) = utf8_head b rest
           in (if ok then text_of (take n bs) else text_of [0xEF, 0xBF, 0xBD]) @ utf8_lossy_text (drop n bs)))"
  by auto
termination
proof (relation "measure length")
  fix bs rest :: bytes and b ok n and p :: "bool \<times> nat"
  assume "bs = b # rest" "p = utf8_head b rest" "(ok, n) = p" 
  then have "n = snd (utf8_head b rest)" by (metis snd_conv)
  then have "0 < n" by simp
  then show "(drop n bs, bs) \<in> measure length" using \<open>bs = b # rest\<close> by simp
qed simp

declare utf8_valid.simps [simp del] utf8_lossy_text.simps [simp del]

lemma text_of_append: "text_of (as @ bs) = text_of as @ text_of bs"
  by (simp add: text_of_def)

text \<open>Valid octets are their own text.\<close>

lemma utf8_lossy_valid: "utf8_valid bs \<Longrightarrow> utf8_lossy_text bs = text_of bs"
proof (induction bs rule: utf8_lossy_text.induct)
  case (1 bs)
  show ?case
  proof (cases bs)
    case Nil
    then show ?thesis by (simp add: utf8_lossy_text.simps [of "[]"] text_of_def)
  next
    case (Cons b rest)
    obtain ok n where head: "utf8_head b rest = (ok, n)" by (metis surj_pair)
    have ok: "ok" and valid: "utf8_valid (drop n bs)"
      using "1.prems" by (simp_all add: utf8_valid.simps [of "b # rest"] Cons head)
    have "utf8_lossy_text bs = text_of (take n bs) @ utf8_lossy_text (drop n bs)"
      by (simp add: utf8_lossy_text.simps [of "b # rest"] Cons head ok)
    also have "utf8_lossy_text (drop n bs) = text_of (drop n bs)"
      using "1.IH" [OF Cons head [symmetric]] valid by (simp add: head)
    also have "text_of (take n bs) @ text_of (drop n bs) = text_of bs"
      by (simp add: text_of_append [symmetric])
    finally show ?thesis .
  qed
qed

end
