(* ===== verification/Bundle_Inspector.thy ===== *)
theory Bundle_Inspector
  imports Utf8
begin

text \<open>
  The inspector of the bundle store (\<^verbatim>\<open>dtn-hdy-ham/src/bundle_inspector.rs\<close>): types of payloads by their
  content, paths below the payload directory, hex dumps, and the operations on the agent's metadata
  database and payload files.  Decoding of JSON, of bundle identifiers and of bundles is a library's and
  a parameter.
\<close>

section \<open>JSON values and the libraries\<close>

datatype json = JNull | JBool bool | JNumber "u64 option" | JString string | JArray "json list" | JObject "(string \<times> json) list"

definition json_get :: "string \<Rightarrow> json \<Rightarrow> json option" where
  "json_get k v = (case v of JObject kvs \<Rightarrow> map_of kvs k | _ \<Rightarrow> None)"

text \<open>\<^verbatim>\<open>value[key]\<close> is null where there is no such member.\<close>

definition json_index :: "json \<Rightarrow> string \<Rightarrow> json" where
  "json_index v k = (case json_get k v of Some w \<Rightarrow> w | None \<Rightarrow> JNull)"

definition json_str :: "json \<Rightarrow> string option" where
  "json_str v = (case v of JString s \<Rightarrow> Some s | _ \<Rightarrow> None)"

definition json_u64 :: "json \<Rightarrow> u64 option" where
  "json_u64 v = (case v of JNumber n \<Rightarrow> n | _ \<Rightarrow> None)"

text \<open>What is read of a bundle identifier: its key, its source and the forms of its creation time.\<close>

record id_view =
  iv_key :: string
  iv_source :: string
  iv_created_at :: "string option"
  iv_creation_time :: "u64 option"

record inspector_lib =
  il_json :: "bytes \<Rightarrow> json option"
  il_id :: "bytes \<Rightarrow> id_view option"
  il_payload :: "bytes \<Rightarrow> bytes option"

section \<open>Paths\<close>

datatype path_component = Root_Dir | Cur_Dir | Parent_Dir | Normal string

text \<open>\<^verbatim>\<open>Path::components\<close> and \<^verbatim>\<open>Path::join\<close> with a relative path.\<close>

definition path_components :: "string \<Rightarrow> path_component list" where
  "path_components s =
     (if prefix ''/'' s then [Root_Dir] else if s = ''.'' \<or> prefix ''./'' s then [Cur_Dir] else [])
     @ map (\<lambda>p. if p = ''..'' then Parent_Dir else Normal p)
         (filter (\<lambda>p. p \<noteq> [] \<and> p \<noteq> ''.'') (split_on CHR ''/'' s))"

definition path_join :: "string \<Rightarrow> string \<Rightarrow> string" where
  "path_join dir name = dir @ (if dir \<noteq> [] \<and> List.last dir \<noteq> CHR ''/'' then ''/'' else []) @ name"

definition is_normal :: "path_component \<Rightarrow> bool" where
  "is_normal c = (case c of Normal _ \<Rightarrow> True | _ \<Rightarrow> False)"

datatype inspector_error = Path_Traversal string

definition safe_payload_path :: "string \<Rightarrow> string \<Rightarrow> inspector_error + string" where
  "safe_payload_path payload_dir storage_name =
     (if CHR 0x5C \<in> set storage_name then Inl (Path_Traversal storage_name)
      else if prefix ''/'' storage_name then Inl (Path_Traversal storage_name)
      else if \<not> list_all is_normal (path_components storage_name) then Inl (Path_Traversal storage_name)
      else Inr (path_join payload_dir storage_name))"

section \<open>Types of payloads\<close>

definition has_member :: "string \<Rightarrow> json \<Rightarrow> bool" where
  "has_member k v = (json_get k v \<noteq> None)"

definition is_senml :: "json \<Rightarrow> bool" where
  "is_senml v =
     (case v of
        JArray arr \<Rightarrow> list_ex (\<lambda>item. has_member ''n'' item \<or> has_member ''v'' item \<or> has_member ''bn'' item) arr
      | JObject _ \<Rightarrow> has_member ''bn'' v \<or> has_member ''n'' v \<or> has_member ''e'' v
      | _ \<Rightarrow> False)"

text \<open>\<^verbatim>\<open>&data[a..b] == pattern\<close> where the data is long enough.\<close>

definition has_bytes :: "bytes \<Rightarrow> nat \<Rightarrow> bytes \<Rightarrow> bool" where
  "has_bytes data i pat \<longleftrightarrow> i + length pat \<le> length data \<and> take (length pat) (drop i data) = pat"

definition RIFF :: bytes where "RIFF = [0x52, 0x49, 0x46, 0x46]"

definition infer_mime_type :: "inspector_lib \<Rightarrow> bytes \<Rightarrow> string \<times> bool" where
  "infer_mime_type lib data =
     (if data = [] then (''text/plain'', False)
      else if has_bytes data 0 [0x89, 0x50, 0x4E, 0x47, 0x0D, 0x0A, 0x1A, 0x0A] then (''image/png'', True)
      else if has_bytes data 0 [0xFF, 0xD8, 0xFF] then (''image/jpeg'', True)
      else if has_bytes data 0 [0x47, 0x49, 0x46, 0x38, 0x37, 0x61] \<or> has_bytes data 0 [0x47, 0x49, 0x46, 0x38, 0x39, 0x61]
           then (''image/gif'', True)
      else if has_bytes data 0 RIFF \<and> has_bytes data 8 [0x57, 0x45, 0x42, 0x50] then (''image/webp'', True)
      else if has_bytes data 0 RIFF \<and> has_bytes data 8 [0x57, 0x41, 0x56, 0x45] then (''audio/wav'', True)
      else if has_bytes data 0 [0x4F, 0x67, 0x67, 0x53]
           then (if 36 \<le> length data
                    \<and> has_bytes data (27 + unat (data ! 26)) [0x4F, 0x70, 0x75, 0x73, 0x48, 0x65, 0x61, 0x64]
                 then (''audio/ogg; codecs=opus'', True) else (''audio/ogg'', True))
      else if has_bytes data 0 [0x49, 0x44, 0x33]
              \<or> 2 \<le> length data \<and> data ! 0 = 0xFF \<and> (data ! 1) AND 0xE0 = 0xE0
           then (''audio/mpeg'', True)
      else if utf8_valid data
           then (case il_json lib data of
                   Some v \<Rightarrow> (if is_senml v then ''application/senml+json'' else ''application/json'', False)
                 | None \<Rightarrow>
                     let text = text_of data
                     in if CHR ''#'' \<in> set text \<or> CHR ''*'' \<in> set text \<or> CHR ''['' \<in> set text \<or> CHR 0x60 \<in> set text
                        then (''text/markdown'', False) else (''text/plain'', False))
      else (''application/octet-stream'', True))"

section \<open>Hex dumps\<close>

definition hex_digit :: "nat \<Rightarrow> char" where
  "hex_digit n = char_of (if n < 10 then 48 + n else 87 + n)"

fun hex_number :: "nat \<Rightarrow> string" where
  "hex_number n = (if n < 16 then [hex_digit n] else hex_number (n div 16) @ [hex_digit (n mod 16)])"

declare hex_number.simps [simp del]

definition hex_padded :: "nat \<Rightarrow> nat \<Rightarrow> string" where
  "hex_padded w n = replicate (w - length (hex_number n)) CHR ''0'' @ hex_number n"

definition gap :: "nat \<Rightarrow> string" where
  "gap j = (if j = 8 then '' '' else [])"

fun hex_columns :: "nat \<Rightarrow> bytes \<Rightarrow> string" where
  "hex_columns j [] = []"
| "hex_columns j (b # bs) = gap j @ hex_padded 2 (unat b) @ '' '' @ hex_columns (Suc j) bs"

definition printable :: "u8 \<Rightarrow> char" where
  "printable b = (if 0x20 \<le> b \<and> b \<le> 0x7E then char_of (unat b) else CHR ''.'')"

definition hex_line :: "nat \<Rightarrow> bytes \<Rightarrow> string" where
  "hex_line i chunk =
     hex_padded 8 (i * 16) @ ''  ''
     @ hex_columns 0 chunk
     @ concat (map (\<lambda>j. gap (length chunk + j) @ ''   '') [0..<16 - length chunk])
     @ '' |'' @ map printable chunk @ ''|'' @ [CHR 0x0A]"

function hex_lines :: "nat \<Rightarrow> bytes \<Rightarrow> string" where
  "hex_lines i data = (if data = [] then [] else hex_line i (take 16 data) @ hex_lines (Suc i) (drop 16 data))"
  by auto
termination by (relation "measure (length \<circ> snd)") auto

declare hex_lines.simps [simp del]

definition format_hex_dump :: "bytes \<Rightarrow> string" where
  "format_hex_dump data = hex_lines 0 data"

section \<open>The metadata database and the payload files\<close>

text \<open>A row that cannot be read is \<open>None\<close>; the rows are in the order of their row identifiers.\<close>

record bundle_row =
  br_bundle_id :: bytes
  br_bundle :: "bytes option"
  br_status_code :: "int option"

record bundle_store =
  bs_database :: "bundle_row option list option"
  bs_files :: "string \<rightharpoonup> bytes"

record bundle_summary =
  bsum_id :: string
  bsum_source :: string
  bsum_destination :: string
  bsum_creation_time :: u64
  bsum_created_at :: string
  bsum_lifetime_secs :: u64
  bsum_size :: u64
  bsum_status :: string

definition status_name :: "int \<Rightarrow> string" where
  "status_name code =
     (if code = 0 then ''New'' else if code = 1 then ''Waiting'' else if code = 2 then ''ForwardPending''
      else if code = 3 then ''AduFragment'' else if code = 4 then ''Dispatching''
      else if code = 5 then ''WaitingForService'' else ''Stored'')"

definition or_default :: "'a \<Rightarrow> 'a option \<Rightarrow> 'a" where
  "or_default d x = (case x of Some v \<Rightarrow> v | None \<Rightarrow> d)"

definition blocks_size :: "json \<Rightarrow> u64" where
  "blocks_size blocks =
     (case blocks of
        JObject kvs \<Rightarrow> fold max (List.map_filter (\<lambda>(_, b). json_u64 (json_index (json_index b ''extent'') ''end'')) kvs) 0
      | _ \<Rightarrow> 0)"

definition summarise_row :: "inspector_lib \<Rightarrow> bundle_row option \<Rightarrow> bundle_summary option" where
  "summarise_row lib r =
     (case r of None \<Rightarrow> None | Some row \<Rightarrow>
        (case il_id lib (br_bundle_id row) of None \<Rightarrow> None | Some bpv7_id \<Rightarrow>
           (case (case br_bundle row of
                    Some data \<Rightarrow>
                      (case il_json lib data of None \<Rightarrow> None | Some bundle_json \<Rightarrow>
                         let primary = json_index (json_index bundle_json ''bpv7'') ''primary''
                         in Some (or_default ''dtn:none'' (json_str (json_index primary ''destination'')),
                                  or_default 3600 (json_u64 (json_index primary ''lifetime'')),
                                  blocks_size (json_index (json_index bundle_json ''bpv7'') ''blocks''),
                                  status_name (or_default 0 (br_status_code row))))
                  | None \<Rightarrow> Some (''-'', 3600, 0, ''Completed'')) of
              None \<Rightarrow> None
            | Some (dest, lifetime_secs, bundle_size, status) \<Rightarrow>
                Some \<lparr>bsum_id = iv_key bpv7_id, bsum_source = iv_source bpv7_id, bsum_destination = dest,
                      bsum_creation_time = or_default 0 (iv_creation_time bpv7_id),
                      bsum_created_at = or_default ''Clockless'' (iv_created_at bpv7_id),
                      bsum_lifetime_secs = lifetime_secs, bsum_size = bundle_size, bsum_status = status\<rparr>)))"

definition list_bundles_from_db :: "inspector_lib \<Rightarrow> bundle_store \<Rightarrow> bundle_summary list" where
  "list_bundles_from_db lib s =
     (case bs_database s of None \<Rightarrow> [] | Some rows \<Rightarrow> List.map_filter (summarise_row lib) (rev rows))"

fun lookup_rows :: "inspector_lib \<Rightarrow> string \<Rightarrow> bundle_row option list \<Rightarrow> (bytes \<times> string option) option" where
  "lookup_rows lib bundle_key [] = None"
| "lookup_rows lib bundle_key (r # rows) =
     (case r of None \<Rightarrow> lookup_rows lib bundle_key rows | Some row \<Rightarrow>
        (case il_id lib (br_bundle_id row) of
           None \<Rightarrow> lookup_rows lib bundle_key rows
         | Some bpv7_id \<Rightarrow>
             if iv_key bpv7_id = bundle_key
             then Some (br_bundle_id row,
                    (case br_bundle row of
                       Some data \<Rightarrow> json_str (json_index (json_index (or_default JNull (il_json lib data)) ''metadata'') ''storage_name'')
                     | None \<Rightarrow> None))
             else lookup_rows lib bundle_key rows))"

definition lookup_bundle_storage_info :: "inspector_lib \<Rightarrow> string \<Rightarrow> bundle_store \<Rightarrow> (bytes \<times> string option) option" where
  "lookup_bundle_storage_info lib bundle_key s =
     (case bs_database s of None \<Rightarrow> None | Some rows \<Rightarrow> lookup_rows lib bundle_key (rev rows))"

definition delete_bundle_db_record :: "bytes \<Rightarrow> bundle_store \<Rightarrow> bundle_store \<times> bool" where
  "delete_bundle_db_record id_bytes s =
     (case bs_database s of
        None \<Rightarrow> (s, False)
      | Some rows \<Rightarrow>
          let hit = (\<lambda>r. case r of Some row \<Rightarrow> br_bundle_id row = id_bytes | None \<Rightarrow> False)
          in (s\<lparr>bs_database := Some (filter (\<lambda>r. \<not> hit r) rows)\<rparr>, list_ex hit rows))"

definition get_bundle_payload ::
  "inspector_lib \<Rightarrow> string \<Rightarrow> string \<Rightarrow> bundle_store \<Rightarrow> inspector_error + (bytes \<times> string) option" where
  "get_bundle_payload lib payload_dir bundle_key s =
     (case lookup_bundle_storage_info lib bundle_key s of
        Some (_, Some name) \<Rightarrow>
          (case safe_payload_path payload_dir name of
             Inl e \<Rightarrow> Inl e
           | Inr payload_path \<Rightarrow>
               (case bs_files s payload_path of
                  None \<Rightarrow> Inr None
                | Some raw_bytes \<Rightarrow>
                    (case il_payload lib raw_bytes of
                       Some payload_slice \<Rightarrow> Inr (Some (payload_slice, fst (infer_mime_type lib payload_slice)))
                     | None \<Rightarrow> Inr (Some (raw_bytes, fst (infer_mime_type lib raw_bytes))))))
      | _ \<Rightarrow> Inr None)"

record bundle_detail =
  bd_summary :: bundle_summary
  bd_mime_type :: string
  bd_is_binary :: bool
  bd_payload_size :: nat
  bd_storage_name :: "string option"
  bd_payload_preview :: "string option"
  bd_hex_dump :: "string option"

definition MAX_PREVIEW_BYTES :: nat where "MAX_PREVIEW_BYTES = 16 * 1024"
definition MAX_HEX_BYTES :: nat where "MAX_HEX_BYTES = 4 * 1024"

definition RELEASED_NOTE :: string where
  "RELEASED_NOTE = ''[Payload released: bundle forwarding or local delivery completed successfully]''"

definition payload_preview :: "bytes \<Rightarrow> string option" where
  "payload_preview payload_bytes =
     (let preview_slice = take (min (length payload_bytes) MAX_PREVIEW_BYTES) payload_bytes
      in if utf8_valid preview_slice then Some (text_of preview_slice) else None)"

definition bundle_detail_of :: "inspector_lib \<Rightarrow> bundle_summary \<Rightarrow> string option \<Rightarrow> bytes \<Rightarrow> bundle_detail" where
  "bundle_detail_of lib summary storage_name payload_bytes =
     (let completed = (bsum_status summary = ''Completed'');
          (mime_type, is_binary) = (if completed then (''text/plain'', False) else infer_mime_type lib payload_bytes)
      in \<lparr>bd_summary = summary, bd_mime_type = mime_type, bd_is_binary = is_binary,
          bd_payload_size = length payload_bytes, bd_storage_name = storage_name,
          bd_payload_preview =
            (if completed then Some RELEASED_NOTE else if \<not> is_binary then payload_preview payload_bytes else None),
          bd_hex_dump =
            (if is_binary \<and> payload_bytes \<noteq> []
             then Some (format_hex_dump (take (min (length payload_bytes) MAX_HEX_BYTES) payload_bytes)) else None)\<rparr>)"

definition get_bundle_detail ::
  "inspector_lib \<Rightarrow> string \<Rightarrow> string \<Rightarrow> bundle_store \<Rightarrow> inspector_error + bundle_detail option" where
  "get_bundle_detail lib payload_dir bundle_key s =
     (if bs_database s = None then Inr None
      else case find (\<lambda>x. bsum_id x = bundle_key) (list_bundles_from_db lib s) of
             None \<Rightarrow> Inr None
           | Some summary \<Rightarrow>
               let storage_name = (case lookup_bundle_storage_info lib bundle_key s of Some (_, name) \<Rightarrow> name | None \<Rightarrow> None)
               in case get_bundle_payload lib payload_dir bundle_key s of
                    Inl e \<Rightarrow> Inl e
                  | Inr p \<Rightarrow> Inr (Some (bundle_detail_of lib summary storage_name (case p of Some (data, _) \<Rightarrow> data | None \<Rightarrow> []))))"

definition delete_bundle_from_storage ::
  "(string \<Rightarrow> bool) \<Rightarrow> inspector_lib \<Rightarrow> string \<Rightarrow> string \<Rightarrow> bundle_store \<Rightarrow> bundle_store \<times> bool" where
  "delete_bundle_from_storage unlink lib payload_dir bundle_key s =
     (case lookup_bundle_storage_info lib bundle_key s of
        None \<Rightarrow> (s, False)
      | Some (id_bytes, storage_name) \<Rightarrow>
          let s = (case storage_name of
                     Some name \<Rightarrow>
                       (case safe_payload_path payload_dir name of
                          Inr payload_file \<Rightarrow>
                            if bs_files s payload_file \<noteq> None \<and> unlink payload_file
                            then s\<lparr>bs_files := (bs_files s)(payload_file := None)\<rparr> else s
                        | Inl _ \<Rightarrow> s)
                   | None \<Rightarrow> s)
          in delete_bundle_db_record id_bytes s)"

end
