(* ===== verification/Internal_Services.thy ===== *)
theory Internal_Services
  imports Storage_Safety Service_Tracker Bundle_Inspector
begin

text \<open>
  The permanent chat and files services (\<^verbatim>\<open>dtn-hdy-ham/src/chat_service.rs\<close>, \<^verbatim>\<open>files_service.rs\<close>): what
  becomes of a delivered bundle.  Parsing the bundle is the bundle library's and a parameter; so is the
  clock, which stands in for a bundle without a creation time.
\<close>

text \<open>A bundle as the library parses it; a time is in milliseconds with its text.\<close>

record delivered_bundle =
  dl_source :: string
  dl_source_is_null :: bool
  dl_is_admin_record :: bool
  dl_destination :: string
  dl_payload :: "bytes option"
  dl_key :: string
  dl_datetime :: "(int \<times> string) option"
  dl_lifetime_secs :: u64

record service_world =
  sw_storage :: storage
  sw_tracker :: tracker

text \<open>The result of an \<^verbatim>\<open>i64\<close> operation, which wraps around in a release build.\<close>

definition i64_wrap :: "int \<Rightarrow> int" where
  "i64_wrap x = (x + 2 ^ 63) mod 2 ^ 64 - 2 ^ 63"

definition expiry_of :: "int \<Rightarrow> u64 \<Rightarrow> int" where
  "expiry_of creation_time_ms lifetime_secs =
     i64_wrap (creation_time_ms + i64_wrap (i64_wrap (uint lifetime_secs) * 1000))"

section \<open>Chat\<close>

definition chat_message_of :: "int \<times> string \<Rightarrow> delivered_bundle \<Rightarrow> bytes \<Rightarrow> chat_message" where
  "chat_message_of now bundle payload_slice =
     (let (creation_time_ms, created_at) = or_default now (dl_datetime bundle)
      in \<lparr>cm_id = dl_key bundle, cm_conversation_peer = normalize_chat_target (dl_source bundle),
          cm_sender_eid = dl_source bundle, cm_recipient_eid = dl_destination bundle,
          cm_content = utf8_lossy_text payload_slice, cm_direction = ''inbound'', cm_status = ''received'',
          cm_is_read = False, cm_is_sticky = False, cm_timestamp = creation_time_ms,
          cm_expiry_timestamp = expiry_of creation_time_ms (dl_lifetime_secs bundle), cm_created_at = created_at\<rparr>)"

definition chat_deliver ::
  "(bytes \<Rightarrow> delivered_bundle option) \<Rightarrow> int \<times> string \<Rightarrow> bytes \<Rightarrow> service_world \<Rightarrow> service_world" where
  "chat_deliver parse now data w =
     (case parse data of
        None \<Rightarrow> w
      | Some bundle \<Rightarrow>
          if dl_source_is_null bundle \<or> dl_is_admin_record bundle then w
          else (case dl_payload bundle of
                  None \<Rightarrow> w
                | Some payload_slice \<Rightarrow>
                    let msg = chat_message_of now bundle payload_slice;
                        (st, res) = insert_message msg (sw_storage w);
                        w = w\<lparr>sw_storage := st\<rparr>
                    in case res of
                         Inl _ \<Rightarrow> w
                       | Inr _ \<Rightarrow> w\<lparr>sw_tracker := broadcast_chat_message msg (sw_tracker w)\<rparr>))"

section \<open>Files\<close>

definition mime_extension :: "string \<Rightarrow> string" where
  "mime_extension mime_type =
     (if mime_type = ''text/markdown'' then ''md''
      else if mime_type = ''text/plain'' then ''txt''
      else if mime_type = ''application/json'' then ''json''
      else if mime_type = ''application/senml+json'' then ''senml.json''
      else if mime_type = ''image/png'' then ''png''
      else if mime_type = ''image/jpeg'' then ''jpg''
      else if mime_type = ''image/gif'' then ''gif''
      else if mime_type = ''image/webp'' then ''webp''
      else if mime_type = ''audio/wav'' then ''wav''
      else if mime_type = ''audio/mpeg'' then ''mp3''
      else if prefix ''audio/ogg'' mime_type then ''ogg''
      else if prefix ''audio/webm'' mime_type then ''webm''
      else ''bin'')"

definition safe_file_char :: "char \<Rightarrow> char" where
  "safe_file_char c = (if is_alphanumeric c \<or> c = CHR ''-'' \<or> c = CHR ''_'' then c else CHR ''_'')"

definition payload_filename :: "string \<Rightarrow> string \<Rightarrow> string" where
  "payload_filename bundle_id mime_type = map safe_file_char bundle_id @ ''.'' @ mime_extension mime_type"

definition file_record_of :: "inspector_lib \<Rightarrow> string \<Rightarrow> int \<times> string \<Rightarrow> delivered_bundle \<Rightarrow> bytes \<Rightarrow> file_bundle" where
  "file_record_of lib files_dir now bundle payload_slice =
     (let (creation_timestamp, created_at) = or_default now (dl_datetime bundle);
          mime_type = fst (infer_mime_type lib payload_slice)
      in \<lparr>fb_id = dl_key bundle, fb_source_eid = dl_source bundle, fb_destination_eid = dl_destination bundle,
          fb_creation_timestamp = creation_timestamp, fb_lifetime_secs = dl_lifetime_secs bundle,
          fb_expiry_timestamp = expiry_of creation_timestamp (dl_lifetime_secs bundle),
          fb_size = vec_len payload_slice,
          fb_payload_path = path_join files_dir (payload_filename (dl_key bundle) mime_type),
          fb_mime_type = mime_type, fb_is_sticky = False, fb_is_read = False, fb_created_at = created_at\<rparr>)"

text \<open>\<open>writable\<close> says of each path whether the system lets the payload be written there.\<close>

definition files_deliver ::
  "inspector_lib \<Rightarrow> (bytes \<Rightarrow> delivered_bundle option) \<Rightarrow> (string \<Rightarrow> bool) \<Rightarrow> string \<Rightarrow> int \<times> string \<Rightarrow> bytes
     \<Rightarrow> service_world \<Rightarrow> service_world" where
  "files_deliver lib parse writable files_dir now data w =
     (case parse data of
        None \<Rightarrow> w
      | Some bundle \<Rightarrow>
          if dl_source_is_null bundle \<or> dl_is_admin_record bundle then w
          else (case dl_payload bundle of
                  None \<Rightarrow> w
                | Some payload_slice \<Rightarrow>
                    let record = file_record_of lib files_dir now bundle payload_slice;
                        payload_path = fb_payload_path record
                    in if \<not> writable payload_path then w
                       else let st = sw_storage w;
                                st = st\<lparr>st_disk := (st_disk st)(payload_path \<mapsto> payload_slice)\<rparr>
                            in w\<lparr>sw_storage := insert_file_bundle record st,
                                 sw_tracker := broadcast_bundles_update (sw_tracker w)\<rparr>))"

section \<open>A delivered bundle is stored\<close>

lemma i64_wrap_id: "- (2 ^ 63) \<le> x \<Longrightarrow> x < 2 ^ 63 \<Longrightarrow> i64_wrap x = x"
  by (simp add: i64_wrap_def)

lemma expiry_of_exact:
  assumes "0 \<le> c" and "c + uint l * 1000 < 2 ^ 63"
  shows "expiry_of c l = c + uint l * 1000"
proof -
  have l: "0 \<le> uint l" by simp
  have "i64_wrap (uint l) = uint l" by (rule i64_wrap_id) (use assms l in linarith)+
  moreover have "i64_wrap (uint l * 1000) = uint l * 1000" by (rule i64_wrap_id) (use assms l in linarith)+
  moreover have "i64_wrap (c + uint l * 1000) = c + uint l * 1000"
    by (rule i64_wrap_id) (use assms l in linarith)+
  ultimately show ?thesis by (simp only: expiry_of_def)
qed

lemma filter_insert_or_replace:
  "filter (\<lambda>r. key r = k) (insert_or_replace key row rows)
     = (if key row = k then [row] else filter (\<lambda>r. key r = k) rows)"
  by (auto simp: insert_or_replace_def filter_empty_conv intro: filter_cong)

lemma get_after_insert: "get_file_bundle i (insert_file_bundle r st) = (if fb_id r = i then Some r else get_file_bundle i st)"
  by (simp add: get_file_bundle_def insert_file_bundle_def filter_insert_or_replace)

lemma storage_ok_deliver:
  assumes "storage_ok (sw_storage w)"
  shows "storage_ok (sw_storage (chat_deliver parse now data w))"
    and "storage_ok (sw_storage (files_deliver lib parse writable files_dir now data w))"
proof -
  show "storage_ok (sw_storage (chat_deliver parse now data w))"
    using assms storage_ok_insert_chat_message
    by (auto simp: chat_deliver_def insert_message_def Let_def case_prod_beta split: option.split sum.split)
  show "storage_ok (sw_storage (files_deliver lib parse writable files_dir now data w))"
    using assms by (auto simp: files_deliver_def insert_file_bundle_def storage_ok_defs Let_def split: option.split)
qed

text \<open>A file bundle that is delivered is stored with its payload.  The record under the bundle's key is
  unread, unpinned, names a file below the files directory that holds exactly the payload, with its
  length and type, and expires one lifetime after its creation; every other record stays, and no file
  but that one changes; the tables stay consistent and one update is broadcast.
\<close>

theorem file_delivered:
  assumes "parse data = Some bundle" and "\<not> dl_source_is_null bundle" and "\<not> dl_is_admin_record bundle"
    and "dl_payload bundle = Some payload" and "dl_datetime bundle = Some (created, date)"
    and "0 \<le> created" and "created + uint (dl_lifetime_secs bundle) * 1000 < 2 ^ 63"
    and "\<forall>p. writable p" and "storage_ok (sw_storage w)"
    and "w' = files_deliver lib parse writable files_dir now data w"
  shows "\<exists>r. get_file_bundle (dl_key bundle) (sw_storage w') = Some r
      \<and> st_disk (sw_storage w') = (st_disk (sw_storage w))(fb_payload_path r \<mapsto> payload)
      \<and> fb_size r = vec_len payload \<and> fb_mime_type r = fst (infer_mime_type lib payload)
      \<and> fb_payload_path r = path_join files_dir (payload_filename (dl_key bundle) (fb_mime_type r))
      \<and> CHR ''/'' \<notin> set (payload_filename (dl_key bundle) (fb_mime_type r))
      \<and> \<not> fb_is_read r \<and> \<not> fb_is_sticky r
      \<and> fb_expiry_timestamp r = created + 1000 * uint (dl_lifetime_secs bundle)
      \<and> (\<forall>i. i \<noteq> dl_key bundle \<longrightarrow> get_file_bundle i (sw_storage w') = get_file_bundle i (sw_storage w))
      \<and> storage_ok (sw_storage w')
      \<and> tk_sent (sw_tracker w') = tk_sent (sw_tracker w) @ [Bundles_Update]"
proof -
  let ?r = "file_record_of lib files_dir now bundle payload"
  let ?st = "(sw_storage w)\<lparr>st_disk := (st_disk (sw_storage w))(fb_payload_path ?r \<mapsto> payload)\<rparr>"
  have w': "w' = w\<lparr>sw_storage := insert_file_bundle ?r ?st, sw_tracker := broadcast_bundles_update (sw_tracker w)\<rparr>"
    using assms by (simp add: files_deliver_def Let_def)
  have r: "fb_id ?r = dl_key bundle" "fb_size ?r = vec_len payload" "fb_mime_type ?r = fst (infer_mime_type lib payload)"
    "fb_payload_path ?r = path_join files_dir (payload_filename (dl_key bundle) (fb_mime_type ?r))"
    "\<not> fb_is_read ?r" "\<not> fb_is_sticky ?r"
    "fb_expiry_timestamp ?r = created + 1000 * uint (dl_lifetime_secs bundle)"
    using assms(5) expiry_of_exact [OF assms(6,7)] by (simp_all add: file_record_of_def or_default_def Let_def)
  have "safe_file_char c \<noteq> CHR ''/''" for c
    by (auto simp: safe_file_char_def is_alphanumeric_def)
  then have safe: "CHR ''/'' \<notin> set (map safe_file_char s)" for s by (metis (no_types) ex_map_conv)
  have "CHR ''/'' \<notin> set (mime_extension m)" for m by (simp add: mime_extension_def)
  then have name: "CHR ''/'' \<notin> set (payload_filename (dl_key bundle) (fb_mime_type ?r))"
    using safe by (simp add: payload_filename_def)
  have get: "get_file_bundle (dl_key bundle) (sw_storage w') = Some ?r"
    "i \<noteq> dl_key bundle \<Longrightarrow> get_file_bundle i (sw_storage w') = get_file_bundle i (sw_storage w)" for i
    by (simp_all add: w' get_after_insert r(1)) (simp add: get_file_bundle_def)
  have disk: "st_disk (sw_storage w') = (st_disk (sw_storage w))(fb_payload_path ?r \<mapsto> payload)"
    by (simp add: w' insert_file_bundle_def)
  have ok: "storage_ok (sw_storage w')" unfolding assms(10) by (rule storage_ok_deliver(2) [OF assms(9)])
  have sent: "tk_sent (sw_tracker w') = tk_sent (sw_tracker w) @ [Bundles_Update]"
    by (simp add: w' broadcast_bundles_update_def)
  show ?thesis using get disk r name ok sent by (intro exI [of _ ?r]) simp
qed

definition example_bundle :: delivered_bundle where
  "example_bundle = \<lparr>dl_source = ''a'', dl_source_is_null = False, dl_is_admin_record = False, dl_destination = ''b'',
     dl_payload = Some [1, 2], dl_key = ''k'', dl_datetime = Some (5, ''d''), dl_lifetime_secs = 60\<rparr>"

lemma file_delivered_witness:
  "\<exists>r. get_file_bundle ''k'' (sw_storage (files_deliver \<lparr>il_json = (\<lambda>_. None), il_id = (\<lambda>_. None), il_payload = (\<lambda>_. None)\<rparr>
      (\<lambda>_. Some example_bundle) (\<lambda>_. True) ''f'' (0, ''d'') [] \<lparr>sw_storage = empty_storage, sw_tracker = new_tracker\<rparr>)) = Some r
    \<and> fb_expiry_timestamp r = 60005"
proof -
  have ok: "storage_ok (sw_storage \<lparr>sw_storage = empty_storage, sw_tracker = new_tracker\<rparr>)"
    by (simp add: empty_storage_def storage_ok_defs keyed_def)
  have b: "\<not> dl_source_is_null example_bundle" "\<not> dl_is_admin_record example_bundle"
    "dl_payload example_bundle = Some [1, 2]" "dl_datetime example_bundle = Some (5, ''d'')" "(0::int) \<le> 5"
    "5 + uint (dl_lifetime_secs example_bundle) * 1000 < 2 ^ 63" "\<forall>p. (\<lambda>_. True) p"
    by (simp_all add: example_bundle_def)
  have key: "dl_key example_bundle = ''k''" "5 + 1000 * uint (dl_lifetime_secs example_bundle) = 60005"
    by (simp_all add: example_bundle_def)
  have parse: "(\<lambda>_. Some example_bundle) [] = Some example_bundle" ..
  from file_delivered [where lib = "\<lparr>il_json = (\<lambda>_. None), il_id = (\<lambda>_. None), il_payload = (\<lambda>_. None)\<rparr>"
      and files_dir = "''f''" and now = "(0, ''d'')" and data = "[]", OF parse b ok refl]
  show ?thesis unfolding key by - (elim exE conjE, intro exI conjI, assumption+)
qed

end
