(* ===== verification/Routing.thy ===== *)
theory Routing
  imports Internal_Storage
begin

text \<open>
  The manager of the static routes (\<^verbatim>\<open>dtn-hdy-ham/src/routing.rs\<close>): the list of routes, what is pushed
  to and withdrawn from the routing table of the bundle agent, and the configuration file.  The parsers
  of patterns and endpoints and the agent's side of the routing sink are a library's and a parameter.
\<close>

record route_config =
  rc_pattern :: string
  rc_cla :: string
  rc_next_hop :: "string option"

datatype 'e route_action = Via 'e

text \<open>The libraries: a route pushed to or withdrawn from the agent is rejected, or was new or known there.\<close>

record ('p, 'e, 's) routing_lib =
  rl_pattern :: "string \<Rightarrow> 'p option"
  rl_eid :: "string \<Rightarrow> 'e option"
  rl_null :: 'e
  rl_add :: "'p \<Rightarrow> 'e route_action \<Rightarrow> nat \<Rightarrow> 's \<Rightarrow> 's \<times> bool option"
  rl_remove :: "'p \<Rightarrow> 'e route_action \<Rightarrow> nat \<Rightarrow> 's \<Rightarrow> 's \<times> bool option"

datatype route_error = Invalid_Pattern string | Invalid_Next_Hop string | Rejected string

text \<open>A configuration file that can be read as a mapping; the routes are one of its entries.\<close>

datatype 'y config_value = Routes_Value "route_config list" | Other_Value 'y

record ('s, 'y) route_manager =
  rm_routes :: "route_config list"
  rm_sink :: "'s option"
  rm_config_path :: "string option"
  rm_files :: "string \<rightharpoonup> (string \<times> 'y config_value) list"

section \<open>Parsing a route\<close>

definition route_pattern_text :: "string \<Rightarrow> string" where
  "route_pattern_text pattern =
     (if pattern = ''dtn://**'' then ''dtn:**'' else if pattern = ''ipn://**'' then ''ipn:**'' else pattern)"

definition next_hop_text :: "string \<Rightarrow> string" where
  "next_hop_text hop = (if prefix ''dtn:'' hop \<or> prefix ''ipn:'' hop then hop else normalize_peer_node hop)"

definition default_patterns :: "string list" where
  "default_patterns = [''dtn://**'', ''dtn:**'', ''ipn://**'', ''ipn:**'', ''*:**'']"

definition parse_route ::
  "('p, 'e, 's) routing_lib \<Rightarrow> route_config \<Rightarrow> route_error + ('p \<times> 'e route_action \<times> nat)" where
  "parse_route lib route =
     (case rl_pattern lib (route_pattern_text (rc_pattern route)) of
        None \<Rightarrow> Inl (Invalid_Pattern (rc_pattern route))
      | Some pattern \<Rightarrow>
          let priority = (if rc_pattern route \<in> set default_patterns then 10 else 100)
          in case rc_next_hop route of
               Some hop \<Rightarrow>
                 (case rl_eid lib (next_hop_text hop) of
                    None \<Rightarrow> Inl (Invalid_Next_Hop hop)
                  | Some via_eid \<Rightarrow> Inr (pattern, Via via_eid, priority))
             | None \<Rightarrow> Inr (pattern, Via (rl_null lib), priority))"

definition push_route_to_sink ::
  "('p, 'e, 's) routing_lib \<Rightarrow> route_config \<Rightarrow> 's \<Rightarrow> 's \<times> (route_error + bool)" where
  "push_route_to_sink lib route s =
     (case parse_route lib route of
        Inl e \<Rightarrow> (s, Inl e)
      | Inr (pattern, action, priority) \<Rightarrow>
          (case rl_add lib pattern action priority s of
             (s, None) \<Rightarrow> (s, Inl (Rejected (rc_pattern route)))
           | (s, Some inserted) \<Rightarrow> (s, Inr inserted)))"

definition remove_route_from_sink ::
  "('p, 'e, 's) routing_lib \<Rightarrow> route_config \<Rightarrow> 's \<Rightarrow> 's \<times> (route_error + bool)" where
  "remove_route_from_sink lib route s =
     (case parse_route lib route of
        Inl e \<Rightarrow> (s, Inl e)
      | Inr (pattern, action, priority) \<Rightarrow>
          (case rl_remove lib pattern action priority s of
             (s, None) \<Rightarrow> (s, Inl (Rejected (rc_pattern route)))
           | (s, Some removed) \<Rightarrow> (s, Inr removed)))"

section \<open>The manager\<close>

definition new_route_manager :: "route_config list \<Rightarrow> string option \<Rightarrow> (string \<rightharpoonup> (string \<times> 'y config_value) list)
    \<Rightarrow> ('s, 'y) route_manager" where
  "new_route_manager initial_routes config_path files =
     \<lparr>rm_routes = initial_routes, rm_sink = None, rm_config_path = config_path, rm_files = files\<rparr>"

definition set_config_path :: "string \<Rightarrow> ('s, 'y) route_manager \<Rightarrow> ('s, 'y) route_manager" where
  "set_config_path path m = m\<lparr>rm_config_path := Some path\<rparr>"

definition list_routes :: "('s, 'y) route_manager \<Rightarrow> route_config list" where
  "list_routes m = rm_routes m"

text \<open>\<^verbatim>\<open>map.insert\<close> keeps the place of a key that is there and appends a new one.\<close>

fun mapping_insert :: "'k \<Rightarrow> 'v \<Rightarrow> ('k \<times> 'v) list \<Rightarrow> ('k \<times> 'v) list" where
  "mapping_insert k v [] = [(k, v)]"
| "mapping_insert k v (e # es) = (if fst e = k then (k, v) # es else e # mapping_insert k v es)"

text \<open>\<open>writable\<close> says of each path whether the file can be written.\<close>

definition persist :: "(string \<Rightarrow> bool) \<Rightarrow> ('s, 'y) route_manager \<Rightarrow> ('s, 'y) route_manager" where
  "persist writable m =
     (case rm_config_path m of
        None \<Rightarrow> m
      | Some path \<Rightarrow>
          (case rm_files m path of
             None \<Rightarrow> m
           | Some doc \<Rightarrow>
               let doc = mapping_insert ''routes'' (Routes_Value (rm_routes m)) doc
               in if writable path then m\<lparr>rm_files := (rm_files m)(path \<mapsto> doc)\<rparr> else m))"

definition add_route ::
  "(string \<Rightarrow> bool) \<Rightarrow> ('p, 'e, 's) routing_lib \<Rightarrow> route_config \<Rightarrow> ('s, 'y) route_manager
     \<Rightarrow> ('s, 'y) route_manager \<times> (route_error + unit)" where
  "add_route writable lib route m =
     (case parse_route lib route of
        Inl e \<Rightarrow> (m, Inl e)
      | Inr _ \<Rightarrow>
          (case (case rm_sink m of
                   Some s \<Rightarrow> (let (s, res) = push_route_to_sink lib route s
                              in (m\<lparr>rm_sink := Some s\<rparr>, (case res of Inl e \<Rightarrow> Some e | Inr _ \<Rightarrow> None)))
                 | None \<Rightarrow> (m, None)) of
             (m, Some e) \<Rightarrow> (m, Inl e)
           | (m, None) \<Rightarrow>
               let m = m\<lparr>rm_routes := filter (\<lambda>r. rc_pattern r \<noteq> rc_pattern route) (rm_routes m) @ [route]\<rparr>
               in (persist writable m, Inr ())))"

text \<open>\<^verbatim>\<open>list.remove(pos)\<close> at the first position that satisfies a test.\<close>

fun remove_first :: "('r \<Rightarrow> bool) \<Rightarrow> 'r list \<Rightarrow> ('r \<times> 'r list) option" where
  "remove_first P [] = None"
| "remove_first P (r # rs) = (if P r then Some (r, rs) else map_option (\<lambda>(x, rest). (x, r # rest)) (remove_first P rs))"

definition delete_route ::
  "(string \<Rightarrow> bool) \<Rightarrow> ('p, 'e, 's) routing_lib \<Rightarrow> string \<Rightarrow> ('s, 'y) route_manager \<Rightarrow> ('s, 'y) route_manager \<times> bool" where
  "delete_route writable lib pattern_str m =
     (case remove_first (\<lambda>r. rc_pattern r = pattern_str) (rm_routes m) of
        None \<Rightarrow> (m, False)
      | Some (route, rest) \<Rightarrow>
          let m = m\<lparr>rm_routes := rest\<rparr>;
              m = (case rm_sink m of
                     Some s \<Rightarrow> m\<lparr>rm_sink := Some (fst (remove_route_from_sink lib route s))\<rparr>
                   | None \<Rightarrow> m)
          in (persist writable m, True))"

text \<open>Registering pushes a copy of the list to the agent, whose rejections are only logged, and then makes the sink
  the manager's.\<close>

definition push_snapshot :: "('p, 'e, 's) routing_lib \<Rightarrow> route_config list \<Rightarrow> 's \<Rightarrow> 's" where
  "push_snapshot lib rs sink = fold (\<lambda>r s. fst (push_route_to_sink lib r s)) rs sink"

definition routes_on_register :: "('p, 'e, 's) routing_lib \<Rightarrow> 's \<Rightarrow> ('s, 'y) route_manager \<Rightarrow> ('s, 'y) route_manager" where
  "routes_on_register lib sink m = m\<lparr>rm_sink := Some (push_snapshot lib (rm_routes m) sink)\<rparr>"

definition routes_on_unregister :: "('s, 'y) route_manager \<Rightarrow> ('s, 'y) route_manager" where
  "routes_on_unregister m = m\<lparr>rm_sink := None\<rparr>"

section \<open>What the agent's table holds\<close>

text \<open>
  The documented behaviour of the sink, with the entries its state holds: an accepted push adds the
  entry, an accepted withdrawal takes it away, and a rejected call changes nothing.
\<close>

definition sink_ok :: "('p, 'e, 's) routing_lib \<Rightarrow> ('s \<Rightarrow> ('p \<times> 'e route_action \<times> nat) set) \<Rightarrow> bool" where
  "sink_ok lib rib \<longleftrightarrow>
     (\<forall>p a n s. rib (fst (rl_add lib p a n s)) = (if snd (rl_add lib p a n s) = None then rib s else insert (p, a, n) (rib s)))
     \<and> (\<forall>p a n s. rib (fst (rl_remove lib p a n s)) = (if snd (rl_remove lib p a n s) = None then rib s else rib s - {(p, a, n)}))"

text \<open>The operations in the order they take effect.  Registering holds no lock while it pushes the copy of the
  list, so it is two steps, with the sink in the meantime, if any, beside the manager; the other operations are
  taken one after another.\<close>

datatype 's route_op =
    Add_Route route_config
  | Delete_Route string
  | Set_Config_Path string
  | Push_Snapshot 's
  | Set_Sink
  | On_Unregister

type_synonym ('s, 'y) route_state = "('s, 'y) route_manager \<times> 's option"

fun route_step :: "(string \<Rightarrow> bool) \<Rightarrow> ('p, 'e, 's) routing_lib \<Rightarrow> 's route_op \<Rightarrow> ('s, 'y) route_state \<Rightarrow> ('s, 'y) route_state" where
  "route_step writable lib (Add_Route r) (m, new_sink) = (fst (add_route writable lib r m), new_sink)"
| "route_step writable lib (Delete_Route p) (m, new_sink) = (fst (delete_route writable lib p m), new_sink)"
| "route_step writable lib (Set_Config_Path p) (m, new_sink) = (set_config_path p m, new_sink)"
| "route_step writable lib (Push_Snapshot s) (m, new_sink) = (m, Some (push_snapshot lib (rm_routes m) s))"
| "route_step writable lib Set_Sink (m, new_sink) =
     (case new_sink of Some s \<Rightarrow> (m\<lparr>rm_sink := Some s\<rparr>, None) | None \<Rightarrow> (m, None))"
| "route_step writable lib On_Unregister (m, new_sink) = (routes_on_unregister m, new_sink)"

lemma registered_at_once:
  "route_step writable lib Set_Sink (route_step writable lib (Push_Snapshot s) (m, p)) = (routes_on_register lib s m, None)"
  by (simp add: routes_on_register_def)

lemma persist_simps [simp]:
  "rm_routes (persist writable m) = rm_routes m" "rm_sink (persist writable m) = rm_sink m"
  "rm_config_path (persist writable m) = rm_config_path m"
  by (simp_all add: persist_def Let_def split: option.split)

lemma persist_sink [simp]: "persist writable m\<lparr>rm_sink := s\<rparr> = persist writable (m\<lparr>rm_sink := s\<rparr>)"
  by (cases m) (simp add: persist_def Let_def split: option.split)

lemma rib_push:
  assumes "sink_ok lib rib"
  shows "rib (fst (push_route_to_sink lib r s)) =
    (case (parse_route lib r, snd (push_route_to_sink lib r s)) of (Inr e, Inr _) \<Rightarrow> insert e (rib s) | _ \<Rightarrow> rib s)"
proof (cases "parse_route lib r")
  case (Inr e)
  obtain p a n where e: "e = (p, a, n)" by (metis prod_cases3)
  obtain s' res where add: "rl_add lib p a n s = (s', res)" by (metis surj_pair)
  have "rib s' = (if res = None then rib s else insert (p, a, n) (rib s))"
    using assms add unfolding sink_ok_def by (metis fst_conv snd_conv)
  then show ?thesis using Inr e add by (cases res) (simp_all add: push_route_to_sink_def)
qed (simp add: push_route_to_sink_def)

lemma rib_remove:
  assumes "sink_ok lib rib"
  shows "rib (fst (remove_route_from_sink lib r s)) =
    (case (parse_route lib r, snd (remove_route_from_sink lib r s)) of (Inr e, Inr _) \<Rightarrow> rib s - {e} | _ \<Rightarrow> rib s)"
proof (cases "parse_route lib r")
  case (Inr e)
  obtain p a n where e: "e = (p, a, n)" by (metis prod_cases3)
  obtain s' res where del: "rl_remove lib p a n s = (s', res)" by (metis surj_pair)
  have "rib s' = (if res = None then rib s else rib s - {(p, a, n)})"
    using assms del unfolding sink_ok_def by (metis fst_conv snd_conv)
  then show ?thesis using Inr e del by (cases res) (simp_all add: remove_route_from_sink_def)
qed (simp add: remove_route_from_sink_def)

end
