(* ===== verification/Routing_Safety.thy ===== *)
theory Routing_Safety
  imports Routing
begin

text \<open>
  The list of routes and the agent's routing table agree as far as the code makes them: which active
  routes are installed and which may be missing, and that a failed addition changes nothing; and how the table
  keeps too much.
\<close>

section \<open>Which active routes are installed\<close>

lemma remove_first_Some:
  "remove_first P xs = Some (x, rest) \<Longrightarrow> \<exists>as bs. xs = as @ x # bs \<and> rest = as @ bs \<and> P x"
proof (induction xs arbitrary: rest)
  case (Cons y xs)
  show ?case
  proof (cases "P y")
    case True
    then show ?thesis using Cons.prems by (intro exI [of _ "[]"] exI [of _ rest]) auto
  next
    case False
    then obtain rest' where "remove_first P xs = Some (x, rest')" "rest = y # rest'"
      using Cons.prems by auto
    with Cons.IH obtain as bs where "xs = as @ x # bs" "rest' = as @ bs" "P x" by blast
    then show ?thesis using \<open>rest = y # rest'\<close> by (intro exI [of _ "y # as"] exI [of _ bs]) auto
  qed
qed simp

lemma remove_first_None: "remove_first P xs = None \<longleftrightarrow> (\<forall>x\<in>set xs. \<not> P x)"
  by (induction xs) auto

lemma sink_None_update:
  assumes "rm_sink m = None"
  shows "m\<lparr>rm_routes := rs, rm_sink := None\<rparr> = m\<lparr>rm_routes := rs\<rparr>"
    and "m\<lparr>rm_sink := None, rm_routes := rs\<rparr> = m\<lparr>rm_routes := rs\<rparr>"
  using assms by (cases m; simp)+

text \<open>Adding: nothing without an entry or when the agent rejects it, else the list has the route at its end.\<close>

lemma add_route_cases:
  "add_route writable lib route m =
    (case parse_route lib route of
       Inl e \<Rightarrow> (m, Inl e)
     | Inr _ \<Rightarrow>
         (case rm_sink m of
            None \<Rightarrow> (persist writable (m\<lparr>rm_routes := filter (\<lambda>r. rc_pattern r \<noteq> rc_pattern route) (rm_routes m) @ [route]\<rparr>), Inr ())
          | Some s \<Rightarrow>
              (case push_route_to_sink lib route s of
                 (s', Inl e) \<Rightarrow> (m\<lparr>rm_sink := Some s'\<rparr>, Inl e)
               | (s', Inr _) \<Rightarrow>
                   (persist writable (m\<lparr>rm_sink := Some s',
                      rm_routes := filter (\<lambda>r. rc_pattern r \<noteq> rc_pattern route) (rm_routes m) @ [route]\<rparr>), Inr ()))))"
  by (simp add: add_route_def Let_def split: sum.split option.split prod.split)

text \<open>The entries a table may lack, among those of routes of the list.  In the registered table: those of the last
  registration, and of a route with the same entry as one that was withdrawn, until the route is added again.  In the
  table that is being registered: those the agent rejected, and those of routes added since the copy.\<close>

fun rejected :: "('p, 'e, 's) routing_lib \<Rightarrow> route_config list \<Rightarrow> 's \<Rightarrow> route_config set" where
  "rejected lib [] s = {}"
| "rejected lib (r # rs) s =
     (case push_route_to_sink lib r s of
        (s', Inl _) \<Rightarrow> insert r (rejected lib rs s')
      | (s', Inr _) \<Rightarrow> rejected lib rs s')"

fun lacking :: "('p, 'e, 's) routing_lib \<Rightarrow> 's route_op \<Rightarrow> ('s, 'y) route_state \<Rightarrow> route_config set \<times> route_config set
    \<Rightarrow> route_config set \<times> route_config set" where
  "lacking lib (Add_Route r) (m, new_sink) (x, y) =
     (case snd (add_route (\<lambda>_. True) lib r m) of Inr _ \<Rightarrow> (x - {r}, insert r y) | Inl _ \<Rightarrow> (x, y))"
| "lacking lib (Delete_Route p) (m, new_sink) (x, y) =
     (case (remove_first (\<lambda>r. rc_pattern r = p) (rm_routes m), rm_sink m) of
        (Some (route, rest), Some s) \<Rightarrow>
          (case snd (remove_route_from_sink lib route s) of
             Inr _ \<Rightarrow> (x \<union> {r\<in>set rest. parse_route lib r = parse_route lib route}, y)
           | Inl _ \<Rightarrow> (x, y))
      | _ \<Rightarrow> (x, y))"
| "lacking lib (Push_Snapshot s) (m, new_sink) (x, y) = (x, rejected lib (rm_routes m) s)"
| "lacking lib Set_Sink (m, new_sink) (x, y) = (case new_sink of Some _ \<Rightarrow> (y, {}) | None \<Rightarrow> (x, y))"
| "lacking lib _ (m, new_sink) (x, y) = (x, y)"

fun route_run :: "(string \<Rightarrow> bool) \<Rightarrow> ('p, 'e, 's) routing_lib \<Rightarrow> 's route_op list \<Rightarrow> ('s, 'y) route_state
    \<Rightarrow> route_config set \<times> route_config set \<Rightarrow> ('s, 'y) route_state \<times> route_config set \<times> route_config set" where
  "route_run writable lib [] st lacks = (st, lacks)"
| "route_run writable lib (op # ops) st lacks = route_run writable lib ops (route_step writable lib op st) (lacking lib op st lacks)"

definition installed ::
  "('p, 'e, 's) routing_lib \<Rightarrow> ('s \<Rightarrow> ('p \<times> 'e route_action \<times> nat) set) \<Rightarrow> route_config list \<Rightarrow> 's option \<Rightarrow> route_config set \<Rightarrow> bool" where
  "installed lib rib rs sink lack \<longleftrightarrow>
     (\<forall>s r e. sink = Some s \<longrightarrow> r \<in> set rs - lack \<longrightarrow> parse_route lib r = Inr e \<longrightarrow> e \<in> rib s)"

lemma installed_mono: "installed lib rib rs sink lack \<Longrightarrow> set rs' \<subseteq> set rs \<Longrightarrow> installed lib rib rs' sink lack"
  unfolding installed_def by blast

definition route_inv ::
  "('p, 'e, 's) routing_lib \<Rightarrow> ('s \<Rightarrow> ('p \<times> 'e route_action \<times> nat) set) \<Rightarrow> ('s, 'y) route_state
     \<Rightarrow> route_config set \<times> route_config set \<Rightarrow> bool" where
  "route_inv lib rib st lacks \<longleftrightarrow> distinct (map rc_pattern (rm_routes (fst st)))
     \<and> installed lib rib (rm_routes (fst st)) (rm_sink (fst st)) (fst lacks)
     \<and> installed lib rib (rm_routes (fst st)) (snd st) (snd lacks)"

lemma snapshot_installed:
  assumes "sink_ok lib rib"
  shows "rib s \<subseteq> rib (push_snapshot lib rs s)
    \<and> (\<forall>r e. r \<in> set rs - rejected lib rs s \<longrightarrow> parse_route lib r = Inr e \<longrightarrow> e \<in> rib (push_snapshot lib rs s))"
proof (induction rs arbitrary: s)
  case Nil
  then show ?case by (simp add: push_snapshot_def)
next
  case (Cons r rs)
  obtain s' res where push: "push_route_to_sink lib r s = (s', res)" by (metis surj_pair)
  have more: "push_snapshot lib (r # rs) s = push_snapshot lib rs s'" by (simp add: push_snapshot_def push)
  have "rib s \<subseteq> rib s'" and new: "\<And>e b. parse_route lib r = Inr e \<Longrightarrow> res = Inr b \<Longrightarrow> e \<in> rib s'"
    using rib_push [OF assms, of r s] push by (auto split: sum.splits)
  with Cons.IH [of s'] show ?case unfolding more by (auto simp: push split: sum.splits)
qed

lemma add_route_inv:
  assumes "sink_ok lib rib" and "route_inv lib rib (m, p) (x, y)"
  shows "route_inv lib rib (route_step writable lib (Add_Route r) (m, p)) (lacking lib (Add_Route r) (m, p) (x, y))"
proof (cases "parse_route lib r")
  case (Inl e)
  then show ?thesis using assms(2) by (simp add: add_route_cases)
next
  case (Inr e)
  let ?rs = "filter (\<lambda>q. rc_pattern q \<noteq> rc_pattern r) (rm_routes m) @ [r]"
  have d: "distinct (map rc_pattern ?rs)" and x: "installed lib rib (rm_routes m) (rm_sink m) x" and y: "installed lib rib (rm_routes m) p y"
    using assms(2) by (auto simp: route_inv_def distinct_map inj_on_def)
  have y': "installed lib rib ?rs p (insert r y)" using y by (auto simp: installed_def)
  show ?thesis
  proof (cases "rm_sink m")
    case None
    then show ?thesis using d y' Inr by (simp add: add_route_cases route_inv_def installed_def)
  next
    case (Some s)
    obtain s' res where push: "push_route_to_sink lib r s = (s', res)" by (metis surj_pair)
    note rib' = rib_push [OF assms(1), of r s, unfolded push fst_conv snd_conv Inr]
    show ?thesis
    proof (cases res)
      case (Inl err)
      then have "rib s' = rib s" using rib' by simp
      then have "installed lib rib (rm_routes m) (Some s') x" using x Some by (simp add: installed_def)
      then show ?thesis using assms(2) y Inr Some push Inl by (simp add: add_route_cases route_inv_def)
    next
      case (Inr b)
      then have "rib s' = insert e (rib s)" using rib' by simp
      then have "installed lib rib ?rs (Some s') (x - {r})" using x Some \<open>parse_route lib r = Inr e\<close> by (auto simp: installed_def)
      then show ?thesis using d y' \<open>parse_route lib r = Inr e\<close> Some push Inr by (simp add: add_route_cases route_inv_def)
    qed
  qed
qed

lemma delete_route_inv:
  assumes "sink_ok lib rib" and "route_inv lib rib (m, p) (x, y)"
  shows "route_inv lib rib (route_step writable lib (Delete_Route q) (m, p)) (lacking lib (Delete_Route q) (m, p) (x, y))"
proof (cases "remove_first (\<lambda>r. rc_pattern r = q) (rm_routes m)")
  case None
  then show ?thesis using assms(2) by (simp add: delete_route_def)
next
  case (Some found)
  obtain route rest where found: "found = (route, rest)" by (metis surj_pair)
  then obtain as bs where split: "rm_routes m = as @ route # bs" "rest = as @ bs"
    using remove_first_Some [OF Some [unfolded found]] by blast
  have sub: "set rest \<subseteq> set (rm_routes m)" by (auto simp: split)
  have d: "distinct (map rc_pattern rest)" using assms(2) by (auto simp: route_inv_def split)
  have x: "installed lib rib rest (rm_sink m) x" and y: "installed lib rib rest p y"
    using assms(2) by (auto simp only: route_inv_def fst_conv snd_conv intro: installed_mono [OF _ sub])
  show ?thesis
  proof (cases "rm_sink m")
    case None
    then show ?thesis using d y Some by (simp add: delete_route_def found Let_def route_inv_def installed_def)
  next
    case (Some s)
    obtain s' res where del: "remove_route_from_sink lib route s = (s', res)" by (metis surj_pair)
    note rib' = rib_remove [OF assms(1), of route s, unfolded del fst_conv snd_conv]
    have "installed lib rib rest (Some s')
        (case res of Inr _ \<Rightarrow> x \<union> {r\<in>set rest. parse_route lib r = parse_route lib route} | Inl _ \<Rightarrow> x)"
      using x Some rib' by (cases "parse_route lib route"; cases res) (auto simp: installed_def)
    then show ?thesis
      using d y Some del \<open>remove_first _ _ = Some found\<close>
      by (cases res) (simp_all add: delete_route_def found Let_def route_inv_def)
  qed
qed

lemma route_step_inv:
  assumes "sink_ok lib rib" and "route_inv lib rib st lacks"
  shows "route_inv lib rib (route_step writable lib op st) (lacking lib op st lacks)"
proof -
  obtain m p x y where st: "st = (m, p)" "lacks = (x, y)" by (metis surj_pair)
  show ?thesis
  proof (cases op)
    case (Add_Route r)
    then show ?thesis using add_route_inv assms by (simp add: st)
  next
    case (Delete_Route q)
    then show ?thesis using delete_route_inv assms by (simp add: st)
  next
    case (Push_Snapshot s)
    then show ?thesis using assms(2) snapshot_installed [OF assms(1), of s "rm_routes m"]
      by (simp add: st route_inv_def installed_def)
  next
    case Set_Sink
    then show ?thesis using assms(2) by (cases p) (simp_all add: st route_inv_def installed_def)
  qed (use assms(2) in \<open>simp_all add: st route_inv_def installed_def set_config_path_def routes_on_unregister_def\<close>)
qed

lemma route_run_inv:
  assumes "sink_ok lib rib"
  shows "route_inv lib rib st lacks \<Longrightarrow> route_run writable lib ops st lacks = (st', lacks') \<Longrightarrow> route_inv lib rib st' lacks'"
proof (induction ops arbitrary: st lacks)
  case (Cons op ops)
  from Cons.IH [OF route_step_inv [OF assms Cons.prems(1)]] Cons.prems(2) show ?case by simp
qed simp

text \<open>C31: which active routes the agent has.  Start with routes with different patterns and apply any sequence
  of additions, deletions, registrations with the agent's table in any state, in two steps between which
  anything may happen, and unregistrations.  The list always has one route per pattern; and while the manager is
  registered the table has the entry of every route of the list that can be parsed, except for those the agent rejected
  at the last registration, those added between its two steps, and those for which another route of the list with
  the very same entry, a pattern spelt differently, has been withdrawn; each until it is added again.
\<close>

theorem routes_installed:
  assumes "sink_ok lib rib" and "distinct (map rc_pattern initial)"
    and "route_run writable lib ops (new_route_manager initial path files, None) ({}, {}) = ((m, new_sink), lack, lack')"
  shows "distinct (map rc_pattern (list_routes m))
    \<and> (\<forall>s r e. rm_sink m = Some s \<longrightarrow> r \<in> set (list_routes m) - lack \<longrightarrow> parse_route lib r = Inr e \<longrightarrow> e \<in> rib s)"
proof -
  have "route_inv lib rib (new_route_manager initial path files, None) ({}, {})"
    using assms(2) by (simp add: new_route_manager_def route_inv_def installed_def)
  from route_run_inv [OF assms(1) this assms(3)] show ?thesis
    by (auto simp: route_inv_def installed_def list_routes_def)
qed

text \<open>A table of entries as a sink, with texts as patterns and endpoints.\<close>

definition list_sink :: "(string, string, (string \<times> string route_action \<times> nat) list) routing_lib" where
  "list_sink = \<lparr>rl_pattern = Some, rl_eid = Some, rl_null = [],
     rl_add = (\<lambda>p a n s. ((p, a, n) # s, Some ((p, a, n) \<notin> set s))),
     rl_remove = (\<lambda>p a n s. (filter (\<lambda>e. e \<noteq> (p, a, n)) s, Some ((p, a, n) \<in> set s)))\<rparr>"

lemma list_sink_ok: "sink_ok list_sink set"
  by (auto simp: sink_ok_def list_sink_def)

definition example_route :: "string \<Rightarrow> route_config" where
  "example_route hop = \<lparr>rc_pattern = ''p'', rc_cla = ''c'', rc_next_hop = Some hop\<rparr>"

lemma parse_example_route: "parse_route list_sink (example_route hop) = Inr (''p'', Via (next_hop_text hop), 100)"
  by (simp add: parse_route_def list_sink_def example_route_def route_pattern_text_def default_patterns_def)

definition no_files :: "string \<rightharpoonup> (string \<times> unit config_value) list" where
  "no_files = (\<lambda>_. None)"

lemma push_example_route:
  "push_route_to_sink list_sink (example_route hop) s =
     ((''p'', Via (next_hop_text hop), 100) # s, Inr ((''p'', Via (next_hop_text hop), 100) \<notin> set s))"
  by (simp add: push_route_to_sink_def parse_example_route) (simp add: list_sink_def)

text \<open>A route that is there when the manager registers, and one that replaces it.\<close>

definition example_ops :: "(string \<times> string route_action \<times> nat) list route_op list" where
  "example_ops = [Push_Snapshot [], Set_Sink, Add_Route (example_route ''dtn:b'')]"

lemma routes_installed_witness:
  "\<exists>m s. route_run (\<lambda>_. True) list_sink example_ops (new_route_manager [example_route ''dtn:a''] None no_files, None) ({}, {})
       = ((m, None), {}, {example_route ''dtn:b''})
     \<and> rm_sink m = Some s \<and> (''p'', Via (next_hop_text ''dtn:b''), 100) \<in> set s"
proof -
  let ?m = "new_route_manager [example_route ''dtn:a''] None no_files"
  let ?r = "route_run (\<lambda>_. True) list_sink example_ops (?m, None) ({}, {})"
  have "\<exists>m s. ?r = ((m, None), {}, {example_route ''dtn:b''}) \<and> rm_sink m = Some s \<and> example_route ''dtn:b'' \<in> set (list_routes m)"
    by (simp add: example_ops_def new_route_manager_def push_snapshot_def push_example_route add_route_cases parse_example_route
        list_routes_def)
  then obtain m s where run: "?r = ((m, None), {}, {example_route ''dtn:b''})" and s: "rm_sink m = Some s"
    and r: "example_route ''dtn:b'' \<in> set (list_routes m)" by blast
  have "distinct (map rc_pattern [example_route ''dtn:a''])" by simp
  from routes_installed [OF list_sink_ok this run] have "(''p'', Via (next_hop_text ''dtn:b''), 100) \<in> set s"
    using s r parse_example_route [of "''dtn:b''"] by fastforce
  then show ?thesis using run s by blast
qed

section \<open>Additions\<close>

lemma add_route_error:
  assumes "sink_ok lib rib" and "add_route writable lib route m = (m', Inl e)"
  shows "rm_routes m' = rm_routes m \<and> rm_files m' = rm_files m \<and> map_option rib (rm_sink m') = map_option rib (rm_sink m)"
proof (cases "parse_route lib route")
  case (Inr x)
  obtain p a n where x: "x = (p, a, n)" by (metis prod_cases3)
  show ?thesis
  proof (cases "rm_sink m")
    case None
    then show ?thesis using assms(2) Inr by (simp add: add_route_def Let_def)
  next
    case (Some s)
    obtain s' res where add: "rl_add lib p a n s = (s', res)" by (metis surj_pair)
    have "rib s' = rib s" if "res = None"
      using assms(1) add that unfolding sink_ok_def by (metis fst_conv snd_conv)
    then show ?thesis using assms(2) Inr Some x add
      by (auto simp: add_route_def push_route_to_sink_def Let_def split: option.splits)
  qed
qed (use assms(2) in \<open>auto simp: add_route_def\<close>)

lemma map_of_mapping_insert: "map_of (mapping_insert k v es) = (map_of es)(k \<mapsto> v)"
  by (induction es) (auto simp: fun_upd_twist fun_eq_iff)

text \<open>What a file says of the routes once it is written, and that its other entries stay.\<close>

lemma persist_file:
  assumes "rm_config_path m = Some path" and "rm_files m path = Some doc" and "writable path"
  shows "\<exists>doc'. rm_files (persist writable m) = (rm_files m)(path \<mapsto> doc')
    \<and> map_of doc' = (map_of doc)(''routes'' \<mapsto> Routes_Value (rm_routes m))"
  using assms
  by (intro exI [of _ "mapping_insert ''routes'' (Routes_Value (rm_routes m)) doc"]) (simp add: persist_def Let_def map_of_mapping_insert)

text \<open>C39: adding a route is all or nothing, and lasting.  If the route cannot be parsed or the agent rejects
  it, the list, the configuration file and the agent's entries are as before.  Otherwise the list has the
  route in place of any with the same pattern, all others kept in order, the agent has its entry, and
  the configuration file, if it can be read and written, holds the new list with every other entry
  unchanged.
\<close>

theorem add_route_all_or_nothing:
  assumes "sink_ok lib rib" and "add_route writable lib route m = (m', res)"
  shows "case res of
      Inl _ \<Rightarrow> rm_routes m' = rm_routes m \<and> rm_files m' = rm_files m \<and> map_option rib (rm_sink m') = map_option rib (rm_sink m)
    | Inr _ \<Rightarrow> rm_routes m' = filter (\<lambda>r. rc_pattern r \<noteq> rc_pattern route) (rm_routes m) @ [route]
        \<and> (\<exists>e. parse_route lib route = Inr e \<and> map_option rib (rm_sink m') = map_option (insert e \<circ> rib) (rm_sink m))
        \<and> (\<forall>path doc. rm_config_path m = Some path \<longrightarrow> rm_files m path = Some doc \<longrightarrow> writable path \<longrightarrow>
              (\<exists>doc'. rm_files m' = (rm_files m)(path \<mapsto> doc')
                 \<and> map_of doc' = (map_of doc)(''routes'' \<mapsto> Routes_Value (rm_routes m'))))"
proof (cases res)
  case (Inl e)
  then show ?thesis using add_route_error [OF assms(1)] assms(2) by simp
next
  case (Inr u)
  then obtain x where x: "parse_route lib route = Inr x" using assms(2) by (auto simp: add_route_def split: sum.splits)
  obtain p a n where pan: "x = (p, a, n)" by (metis prod_cases3)
  define sink where "sink = map_option (\<lambda>s. fst (rl_add lib p a n s)) (rm_sink m)"
  define m1 where "m1 = m\<lparr>rm_sink := sink, rm_routes := filter (\<lambda>r. rc_pattern r \<noteq> rc_pattern route) (rm_routes m) @ [route]\<rparr>"
  have accepted: "\<forall>s. rm_sink m = Some s \<longrightarrow> snd (rl_add lib p a n s) \<noteq> None" and m': "m' = persist writable m1"
    using assms(2) Inr x pan
    by (auto simp: add_route_def push_route_to_sink_def Let_def m1_def sink_def sink_None_update case_prod_beta
        split: option.splits)
  have "map_option rib sink = map_option (insert x \<circ> rib) (rm_sink m)"
    using assms(1) accepted unfolding sink_ok_def by (cases "rm_sink m") (auto simp: sink_def pan)
  then show ?thesis using x Inr persist_file [of m1 _ _ writable] by (simp add: m' m1_def)
qed

lemma add_route_all_or_nothing_witness:
  "rm_routes (fst (add_route (\<lambda>_. True) list_sink (example_route ''dtn:b'')
       (new_route_manager [example_route ''dtn:a''] None no_files :: (_, unit) route_manager))) = [example_route ''dtn:b'']"
proof -
  let ?m = "new_route_manager [example_route ''dtn:a''] None no_files :: (_, unit) route_manager"
  obtain m' res where add: "add_route (\<lambda>_. True) list_sink (example_route ''dtn:b'') ?m = (m', res)" by (metis surj_pair)
  moreover have "\<exists>u. res = Inr u"
    using add by (auto simp: add_route_cases parse_example_route new_route_manager_def)
  ultimately show ?thesis using add_route_all_or_nothing [OF list_sink_ok add]
    by (auto simp: new_route_manager_def example_route_def)
qed

section \<open>Entries that stay or go too early\<close>

text \<open>
  A route added in place of one with another next hop leaves the old entry in the agent's table, where
  nothing withdraws it any more.
\<close>

lemma replaced_route_stays:
  assumes "sink_ok lib rib" and "rm_sink m = Some s" and "e \<in> rib s"
    and "add_route writable lib route m = (m', Inr ())" and "rm_sink m' = Some s'"
  shows "e \<in> rib s'"
proof -
  obtain x where "parse_route lib route = Inr x" using assms(4) by (auto simp: add_route_def split: sum.splits)
  moreover obtain p a n where "x = (p, a, n)" by (metis prod_cases3)
  ultimately have "s' = fst (rl_add lib p a n s)"
    using assms(2,4,5) by (auto simp: add_route_def push_route_to_sink_def Let_def case_prod_beta split: option.splits)
  then show ?thesis using assms(1,3) unfolding sink_ok_def by auto
qed

end
