(* ===== verification/Security.thy ===== *)
theory Security
  imports Bundle_Inspector
begin

text \<open>
  Keys, signing and verification of bundles (\<^verbatim>\<open>src/security.rs\<close>, and the endpoint names of \<^verbatim>\<open>src/lib.rs\<close>).
  The bundle library, base64 and hexadecimal decoding, the TOML reader and the file system are
  parameters.
\<close>

section \<open>Endpoint names and ports\<close>

definition normalize_eid :: "string \<Rightarrow> string" where
  "normalize_eid s =
     (let s = trim s
      in case strip_prefix ''dtn://'' s of
           Some rest \<Rightarrow> if rest \<noteq> [] \<and> CHR ''/'' \<notin> set rest then ''dtn://'' @ rest @ ''/'' else s
         | None \<Rightarrow> s)"

definition resolve_grpc_port :: "(string \<Rightarrow> string option) \<Rightarrow> u16 option \<Rightarrow> string" where
  "resolve_grpc_port env cli_port =
     (case env ''HARDY_GRPC_PORT'' of
        Some env_port \<Rightarrow> env_port
      | None \<Rightarrow>
          (case env ''DTN_WEB_PORT'' of
             Some env_port \<Rightarrow> env_port
           | None \<Rightarrow> (case cli_port of Some port \<Rightarrow> decimal (unat port) | None \<Rightarrow> ''50051'')))"

section \<open>Keys\<close>

datatype sign_alg = HmacSha256
datatype verify_policy = Strict | Warn | Ignore

datatype key_operation = Op_Sign | Op_Verify
datatype key_algorithm = HS256

record bpsec_key =
  bk_octets :: bytes
  bk_algorithm :: "key_algorithm option"
  bk_operations :: "key_operation set option"

record key_entry_config =
  ke_eid :: string
  ke_alg :: "sign_alg option"
  ke_key :: "string option"
  ke_key_file :: "string option"

type_synonym keystore = "(string \<times> bpsec_key) list"

datatype key_error = Read_Failed string | Toml_Failed string | Both_Given | None_Given | Invalid_Hex

text \<open>The decoders, the files and the reader of the key store's configuration.\<close>

record key_lib =
  kl_base64 :: "string \<Rightarrow> bytes option"
  kl_base64_url :: "string \<Rightarrow> bytes option"
  kl_hex :: "string \<Rightarrow> bytes option"
  kl_read :: "string \<Rightarrow> bytes option"
  kl_toml :: "bytes \<Rightarrow> key_entry_config list option"
  kl_default_path :: "string option"

text \<open>\<^verbatim>\<open>s.lines()\<close>: split at line feeds, a carriage return before them dropped, no empty last line.\<close>

definition lines_of :: "string \<Rightarrow> string list" where
  "lines_of s =
     (let ls = split_on CHR 0x0A s
      in map (\<lambda>l. case strip_suffix [CHR 0x0D] l of Some l \<Rightarrow> l | None \<Rightarrow> l) (butlast ls)
         @ (if List.last ls = [] then [] else [List.last ls]))"

definition base64_decode :: "key_lib \<Rightarrow> string \<Rightarrow> bytes option" where
  "base64_decode lib input = (case kl_base64 lib input of Some d \<Rightarrow> Some d | None \<Rightarrow> kl_base64_url lib input)"

definition is_ascii_hexdigit :: "char \<Rightarrow> bool" where
  "is_ascii_hexdigit c = (let n = of_char c :: nat
     in 48 \<le> n \<and> n \<le> 57 \<or> 65 \<le> n \<and> n \<le> 70 \<or> 97 \<le> n \<and> n \<le> 102)"

definition PEM_BEGIN :: string where "PEM_BEGIN = ''-----BEGIN''"
definition PEM_DASHES :: string where "PEM_DASHES = ''-----''"

definition pem_body :: "string \<Rightarrow> string" where
  "pem_body text =
     filter (\<lambda>c. c \<notin> set [CHR 0x0D, CHR 0x0A, CHR '' ''])
       (concat (filter (\<lambda>l. \<not> prefix PEM_DASHES l) (lines_of text)))"

text \<open>The part after the PEM detection: hexadecimal with and without prefix, raw text or octets.\<close>

definition parse_hex_or_raw :: "key_lib \<Rightarrow> bytes \<Rightarrow> string \<Rightarrow> bool \<Rightarrow> key_error + bytes" where
  "parse_hex_or_raw lib data text is_file =
     (case (case strip_prefix ''0x'' text of Some s \<Rightarrow> Some s | None \<Rightarrow> strip_prefix ''0X'' text) of
        Some stripped \<Rightarrow> (case kl_hex lib stripped of Some d \<Rightarrow> Inr d | None \<Rightarrow> Inl Invalid_Hex)
      | None \<Rightarrow>
          let fallback = (if is_file then data else bytes_of text)
          in if text \<noteq> [] \<and> even (length text) \<and> list_all is_ascii_hexdigit text
             then (case kl_hex lib text of Some d \<Rightarrow> Inr d | None \<Rightarrow> Inr fallback)
             else Inr fallback)"

definition parse_key_data :: "key_lib \<Rightarrow> bytes \<Rightarrow> bool \<Rightarrow> key_error + bytes" where
  "parse_key_data lib data is_file =
     (let text = trim (utf8_lossy_text data)
      in if contains text PEM_BEGIN
         then (case base64_decode lib (pem_body text) of
                 Some decoded \<Rightarrow> Inr decoded
               | None \<Rightarrow> parse_hex_or_raw lib data text is_file)
         else parse_hex_or_raw lib data text is_file)"

definition load_key :: "key_lib \<Rightarrow> string option \<Rightarrow> string option \<Rightarrow> key_error + bytes" where
  "load_key lib key_opt key_file_opt =
     (case (key_opt, key_file_opt) of
        (Some inline_key, None) \<Rightarrow> parse_key_data lib (bytes_of inline_key) False
      | (None, Some file_path) \<Rightarrow>
          (case kl_read lib file_path of Some data \<Rightarrow> parse_key_data lib data True | None \<Rightarrow> Inl (Read_Failed file_path))
      | (Some _, Some _) \<Rightarrow> Inl Both_Given
      | (None, None) \<Rightarrow> Inl None_Given)"

section \<open>The key store\<close>

definition add_key :: "string \<Rightarrow> bytes \<Rightarrow> keystore \<Rightarrow> keystore" where
  "add_key eid_pattern key_bytes store =
     store @ [(eid_pattern, \<lparr>bk_octets = key_bytes, bk_algorithm = Some HS256, bk_operations = Some {Op_Sign, Op_Verify}\<rparr>)]"

text \<open>\<^verbatim>\<open>dir.join(f)\<close>, where an absolute path replaces the directory.\<close>

definition join_any :: "string \<Rightarrow> string \<Rightarrow> string" where
  "join_any dir f = (if prefix ''/'' f then f else path_join dir f)"

fun add_entries :: "key_lib \<Rightarrow> string option \<Rightarrow> key_entry_config list \<Rightarrow> keystore \<Rightarrow> key_error + keystore" where
  "add_entries lib base_dir [] store = Inr store"
| "add_entries lib base_dir (e # es) store =
     (let key_file = map_option (\<lambda>f. case base_dir of Some dir \<Rightarrow> join_any dir f | None \<Rightarrow> f) (ke_key_file e)
      in case load_key lib (ke_key e) key_file of
           Inl err \<Rightarrow> Inl err
         | Inr key_mat \<Rightarrow> add_entries lib base_dir es (add_key (ke_eid e) key_mat store))"

definition from_config :: "key_lib \<Rightarrow> key_entry_config list \<Rightarrow> string option \<Rightarrow> key_error + keystore" where
  "from_config lib keys base_dir = add_entries lib base_dir keys []"

text \<open>\<open>parent\<close> is \<^verbatim>\<open>Path::parent\<close>.\<close>

definition load_file :: "key_lib \<Rightarrow> (string \<Rightarrow> string option) \<Rightarrow> string \<Rightarrow> key_error + keystore" where
  "load_file lib parent path =
     (case kl_read lib path of
        None \<Rightarrow> Inl (Read_Failed path)
      | Some content \<Rightarrow>
          (case kl_toml lib content of
             None \<Rightarrow> Inl (Toml_Failed path)
           | Some config \<Rightarrow> from_config lib config (parent path)))"

definition load_default_or :: "key_lib \<Rightarrow> (string \<Rightarrow> string option) \<Rightarrow> string option \<Rightarrow> key_error + keystore" where
  "load_default_or lib parent path_opt =
     (case path_opt of
        Some path \<Rightarrow> load_file lib parent path
      | None \<Rightarrow>
          (case kl_default_path lib of
             Some default_path \<Rightarrow> if kl_read lib default_path \<noteq> None then load_file lib parent default_path else Inr []
           | None \<Rightarrow> Inr []))"

definition matches_eid_pattern :: "string \<Rightarrow> string \<Rightarrow> bool" where
  "matches_eid_pattern pattern eid =
     (if pattern = ''*'' \<or> pattern = eid then True
      else case strip_suffix ''*'' pattern of Some p \<Rightarrow> prefix p eid | None \<Rightarrow> False)"

definition find_keys :: "keystore \<Rightarrow> string \<Rightarrow> bpsec_key list" where
  "find_keys store source = map snd (filter (\<lambda>e. matches_eid_pattern (fst e) source) store)"

fun key_of :: "keystore \<Rightarrow> string \<Rightarrow> bpsec_key option" where
  "key_of [] source = None"
| "key_of ((pattern, key) # store) source = (if matches_eid_pattern pattern source then Some key else key_of store source)"

section \<open>Signing and verifying\<close>

text \<open>
  The bundle library: parsing (an error has a text), the security sources of the integrity blocks it
  read, whether the bundle has a block of the integrity type, its payload, source, key, creation time and
  lifetime (in nanoseconds), the null endpoint, building a bundle from its source, destination, payload
  and lifetime, the checks with a source of keys, and signing the payload block.
\<close>

record ('b, 'v) bpv7_lib =
  bl_parse :: "bytes \<Rightarrow> string + 'b"
  bl_bib_sources :: "'b \<Rightarrow> string list"
  bl_has_bib_block :: "'b \<Rightarrow> bool"
  bl_payload :: "'b \<Rightarrow> bytes option"
  bl_source :: "'b \<Rightarrow> string"
  bl_key :: "'b \<Rightarrow> string"
  bl_created :: "'b \<Rightarrow> int option"
  bl_lifetime :: "'b \<Rightarrow> nat"
  bl_null :: string
  bl_build :: "string \<Rightarrow> string \<Rightarrow> bytes \<Rightarrow> nat \<Rightarrow> string + ('b \<times> bytes)"
  bl_verify_all :: "'b \<Rightarrow> (string \<Rightarrow> bpsec_key option) \<Rightarrow> string option"
  bl_begin_payload :: "'b \<Rightarrow> (string \<Rightarrow> bpsec_key option) \<Rightarrow> string + 'v list"
  bl_finish :: "'v \<Rightarrow> bytes \<Rightarrow> string option"
  bl_sign :: "'b \<Rightarrow> bytes \<Rightarrow> string \<Rightarrow> bpsec_key \<Rightarrow> string + bytes"
  bl_parse_eid :: "string \<Rightarrow> string option"

datatype verify_result = Valid | Invalid string | Unsigned

fun first_error :: "('v \<Rightarrow> string option) \<Rightarrow> 'v list \<Rightarrow> string option" where
  "first_error f [] = None"
| "first_error f (v # vs) = (case f v of Some e \<Rightarrow> Some e | None \<Rightarrow> first_error f vs)"

definition missing_key :: "keystore \<Rightarrow> string \<Rightarrow> string option" where
  "missing_key store source =
     (if find_keys store source = [] then Some (''Missing key for security source '' @ source) else None)"

definition verify_bundle :: "('b, 'v) bpv7_lib \<Rightarrow> bytes \<Rightarrow> keystore \<Rightarrow> verify_result" where
  "verify_bundle lib binbundle store =
     (case bl_parse lib binbundle of
        Inl err_msg \<Rightarrow>
          if contains err_msg ''expecting Array'' \<or> contains err_msg ''violates RFC 9171 canonical CBOR''
             \<or> contains err_msg ''NotCanonical''
          then Unsigned else Invalid err_msg
      | Inr parsed \<Rightarrow>
          if \<not> (bl_bib_sources lib parsed \<noteq> [] \<or> bl_has_bib_block lib parsed) then Unsigned
          else (case first_error (missing_key store) (bl_bib_sources lib parsed) of
                  Some e \<Rightarrow> Invalid e
                | None \<Rightarrow>
                    (case bl_verify_all lib parsed (key_of store) of
                       Some e \<Rightarrow> Invalid e
                     | None \<Rightarrow>
                         (case bl_begin_payload lib parsed (key_of store) of
                            Inl e \<Rightarrow> Invalid e
                          | Inr verifiers \<Rightarrow>
                              let payload_slice = or_default [] (bl_payload lib parsed)
                              in case first_error (\<lambda>v. bl_finish lib v payload_slice) verifiers of
                                   Some e \<Rightarrow> Invalid e
                                 | None \<Rightarrow> Valid))))"

datatype sign_error = Parse_Failed string | Sign_Failed string | Reparse_Failed string | Key_Failed key_error | Invalid_Source

definition sign_bundle ::
  "('b, 'v) bpv7_lib \<Rightarrow> bytes \<Rightarrow> bytes \<Rightarrow> string option \<Rightarrow> sign_error + ('b \<times> bytes)" where
  "sign_bundle lib binbundle key_mat security_source =
     (case bl_parse lib binbundle of
        Inl e \<Rightarrow> Inl (Parse_Failed e)
      | Inr parsed \<Rightarrow>
          let sec_source = or_default (bl_source lib parsed) security_source;
              key = \<lparr>bk_octets = key_mat, bk_algorithm = Some HS256, bk_operations = Some {Op_Sign}\<rparr>
          in case bl_sign lib parsed binbundle sec_source key of
               Inl e \<Rightarrow> Inl (Sign_Failed e)
             | Inr signed_bytes \<Rightarrow>
                 (case bl_parse lib signed_bytes of
                    Inl e \<Rightarrow> Inl (Reparse_Failed e)
                  | Inr signed_parsed \<Rightarrow> Inr (signed_parsed, signed_bytes)))"

definition maybe_sign_bundle ::
  "('b, 'v) bpv7_lib \<Rightarrow> key_lib \<Rightarrow> 'b \<Rightarrow> bytes \<Rightarrow> string option \<Rightarrow> string option \<Rightarrow> string option
     \<Rightarrow> sign_error + ('b \<times> bytes)" where
  "maybe_sign_bundle lib klib bundle binbundle sign_key sign_key_file security_source =
     (if sign_key \<noteq> None \<or> sign_key_file \<noteq> None
      then (case load_key klib sign_key sign_key_file of
              Inl e \<Rightarrow> Inl (Key_Failed e)
            | Inr key_mat \<Rightarrow>
                (case security_source of
                   Some sec_str \<Rightarrow>
                     (case bl_parse_eid lib (normalize_eid sec_str) of
                        Some eid \<Rightarrow> sign_bundle lib binbundle key_mat (Some eid)
                      | None \<Rightarrow> Inl Invalid_Source)
                 | None \<Rightarrow> sign_bundle lib binbundle key_mat None))
      else Inr (bundle, binbundle))"

section \<open>The policy of the receivers\<close>

text \<open>Whether a receiver goes on with a delivered bundle.\<close>

definition policy_accepts :: "('b, 'v) bpv7_lib \<Rightarrow> verify_policy \<Rightarrow> keystore \<Rightarrow> bytes \<Rightarrow> bool" where
  "policy_accepts lib policy store data =
     (if policy \<noteq> Ignore
      then (case verify_bundle lib data store of
              Valid \<Rightarrow> True
            | Invalid _ \<Rightarrow> policy \<noteq> Strict
            | Unsigned \<Rightarrow> policy \<noteq> Strict)
      else True)"

end
