(* ===== verification/Receivers.thy ===== *)
theory Receivers
  imports Security Basket
begin

text \<open>
  The programs that act on delivered bundles: printing (\<^verbatim>\<open>src/bin/dtnprint.rs\<close>), running a command
  (\<^verbatim>\<open>src/bin/dtntrigger.rs\<close>), saving files (\<^verbatim>\<open>src/bin/dtnfiles.rs\<close>) and forwarding inside another bundle
  (\<^verbatim>\<open>src/bin/dtnforward.rs\<close>).  What a delivery does to the world is the list of its effects; diagnostics on
  the error output are left out.
\<close>

datatype effect =
    Print_Line string
  | Temp_File string bytes
  | Run_Command string "string list"
  | Write_File string bytes
  | Dispatch bytes

text \<open>The source and the payload of a delivered bundle; the whole data where there is no payload.\<close>

definition source_and_payload :: "('b, 'v) bpv7_lib \<Rightarrow> bytes \<Rightarrow> string \<times> bytes" where
  "source_and_payload lib data =
     (case bl_parse lib data of
        Inr parsed \<Rightarrow> (bl_source lib parsed, or_default data (bl_payload lib parsed))
      | Inl _ \<Rightarrow> (bl_null lib, data))"

section \<open>Printing\<close>

definition print_deliver :: "('b, 'v) bpv7_lib \<Rightarrow> verify_policy \<Rightarrow> keystore \<Rightarrow> bytes \<Rightarrow> effect list" where
  "print_deliver lib policy store data =
     (let (source, payload) = source_and_payload lib data
      in if policy_accepts lib policy store data
         then [Print_Line (''From: '' @ source), Print_Line (utf8_lossy_text payload)]
         else [])"

section \<open>Running a command\<close>

record trigger_app =
  ta_print :: bool
  ta_command :: string

definition execute_cmd :: "string \<Rightarrow> string \<Rightarrow> string \<Rightarrow> effect" where
  "execute_cmd command fname source =
     Run_Command ''/bin/sh'' [''-c'', command @ '' \"$1\" \"$2\"'', ''--'', source, fname]"

definition ARROW :: string where "ARROW = text_of [0xE2, 0x86, 0x92]"

text \<open>\<open>temp\<close> is the name of the temporary file the system creates, if it can; \<open>now\<close> the text of the time.\<close>

definition trigger_deliver ::
  "('b, 'v) bpv7_lib \<Rightarrow> trigger_app \<Rightarrow> verify_policy \<Rightarrow> keystore \<Rightarrow> string \<Rightarrow> string option \<Rightarrow> bytes \<Rightarrow> effect list" where
  "trigger_deliver lib app policy store now temp data =
     (let (source, payload) = source_and_payload lib data
      in if policy_accepts lib policy store data
         then (if ta_print app
               then [Print_Line (''['' @ now @ ''] '' @ source @ '' '' @ ARROW @ '' '' @ utf8_lossy_text payload)]
               else (case temp of
                       Some fname \<Rightarrow> [Temp_File fname payload, execute_cmd (ta_command app) fname source]
                     | None \<Rightarrow> []))
         else [])"

section \<open>Saving files\<close>

text \<open>
  What the file saver takes from libraries: whether a payload is a basket response and its form as JSON,
  the hash of an unreadable bundle as text, and the description of a bundle as JSON.
\<close>

record 'b files_lib =
  fl_is_basket :: "bytes \<Rightarrow> bool"
  fl_basket_json :: "bytes \<Rightarrow> bytes option"
  fl_sha256_hex :: "bytes \<Rightarrow> string"
  fl_meta_json :: "'b \<Rightarrow> bytes option"

definition detect_extension :: "'b files_lib \<Rightarrow> bytes \<Rightarrow> string" where
  "detect_extension fl data =
     (let is_text = utf8_valid data; text = text_of data;
          fallback = (if is_text
                      then (if prefix ''#'' text \<or> contains text ''**'' \<or> contains text ''* '' then ''md'' else ''txt'')
                      else ''bin'');
          sync = (2 \<le> length data \<and> data ! 0 = 0xFF \<and> (data ! 1) AND 0xE0 = 0xE0)
      in if fl_is_basket fl data then ''basket.json''
         else if 4 \<le> length data
         then (if has_bytes data 0 [0x89, 0x50, 0x4E, 0x47] then ''png''
               else if has_bytes data 0 [0xFF, 0xD8, 0xFF] then ''jpg''
               else if has_bytes data 0 [0x47, 0x49, 0x46] then ''gif''
               else if has_bytes data 0 [0x50, 0x4B, 0x03, 0x04] then ''zip''
               else if has_bytes data 0 RIFF \<and> has_bytes data 8 [0x57, 0x45, 0x42, 0x50] then ''webp''
               else if has_bytes data 0 [0x42, 0x4D] then ''bmp''
               else if has_bytes data 0 [0x4F, 0x67, 0x67, 0x53] then ''ogg''
               else if has_bytes data 0 [0x49, 0x44, 0x33] \<or> sync then ''mp3''
               else if has_bytes data 0 [0x1F, 0x8B] then ''tar.gz''
               else if has_bytes data 4 [0x66, 0x74, 0x79, 0x70] then ''m4a''
               else fallback)
         else if 3 \<le> length data
         then (if has_bytes data 0 [0xFF, 0xD8, 0xFF] then ''jpg''
               else if has_bytes data 0 [0x47, 0x49, 0x46] then ''gif''
               else if has_bytes data 0 [0x49, 0x44, 0x33] then ''mp3''
               else if has_bytes data 0 [0x42, 0x4D] then ''bmp''
               else if has_bytes data 0 [0x1F, 0x8B] then ''tar.gz''
               else if sync then ''mp3''
               else fallback)
         else if 2 \<le> length data
         then (if has_bytes data 0 [0x42, 0x4D] then ''bmp''
               else if has_bytes data 0 [0x1F, 0x8B] then ''tar.gz''
               else if sync then ''mp3''
               else fallback)
         else fallback)"

definition safe_bundle_id :: "string \<Rightarrow> string" where
  "safe_bundle_id i = map (\<lambda>c. if c = CHR ''/'' \<or> c = CHR 0x5C then CHR ''_'' else c) i"

text \<open>\<open>writable\<close> says of each path whether it can be written.\<close>

definition save_deliver ::
  "('b, 'v) bpv7_lib \<Rightarrow> 'b files_lib \<Rightarrow> string \<Rightarrow> bool \<Rightarrow> (string \<Rightarrow> bool) \<Rightarrow> verify_policy \<Rightarrow> keystore \<Rightarrow> bytes \<Rightarrow> effect list" where
  "save_deliver lib fl dir metadata writable policy store data =
     (let (bundle_id_str, payload, bundle_meta) =
            (case bl_parse lib data of
               Inr parsed \<Rightarrow> (bl_key lib parsed, or_default data (bl_payload lib parsed), Some parsed)
             | Inl _ \<Rightarrow> (fl_sha256_hex fl data, data, None))
      in if \<not> policy_accepts lib policy store data then []
         else let ext = detect_extension fl payload;
                  dest_path = join_any dir (safe_bundle_id bundle_id_str @ ''.'' @ ext);
                  to_write = (if ext = ''basket.json'' then or_default payload (fl_basket_json fl payload) else payload)
              in if \<not> writable dest_path then []
                 else Write_File dest_path to_write #
                      (if metadata
                       then (case bundle_meta of
                               Some parsed \<Rightarrow>
                                 (let meta_path = join_any dir (safe_bundle_id bundle_id_str @ ''-metadata.json'')
                                  in case fl_meta_json fl parsed of
                                       Some meta_str \<Rightarrow> if writable meta_path then [Write_File meta_path meta_str] else []
                                     | None \<Rightarrow> [])
                             | None \<Rightarrow> [])
                       else []))"

section \<open>Forwarding\<close>

text \<open>The loop runs as long as the payload is a bundle again; a library whose payloads do not get
  shorter could keep it going for ever.\<close>

partial_function (option) depth_loop :: "('b, 'v) bpv7_lib \<Rightarrow> bytes \<Rightarrow> nat \<Rightarrow> nat option" where
  "depth_loop lib current_bytes depth =
     (case bl_parse lib current_bytes of
        Inl _ \<Rightarrow> Some depth
      | Inr parsed \<Rightarrow>
          (case bl_payload lib parsed of
             Some payload \<Rightarrow> depth_loop lib payload (Suc depth)
           | None \<Rightarrow> Some (Suc depth)))"

definition get_bundle_depth :: "('b, 'v) bpv7_lib \<Rightarrow> bytes \<Rightarrow> nat option" where
  "get_bundle_depth lib data = depth_loop lib data 0"

text \<open>Durations and instants in nanoseconds.\<close>

definition NANOS :: nat where "NANOS = 1000000000"

definition get_remaining_lifetime :: "('b, 'v) bpv7_lib \<Rightarrow> int \<Rightarrow> 'b \<Rightarrow> nat option" where
  "get_remaining_lifetime lib now bundle =
     (case bl_created lib bundle of
        Some created_at \<Rightarrow>
          let age_since_creation = now - created_at
          in if age_since_creation < 0 then Some (bl_lifetime lib bundle)
             else let age_duration = nat (age_since_creation div int NANOS) * NANOS
                  in if age_duration \<le> bl_lifetime lib bundle then Some (bl_lifetime lib bundle - age_duration) else None
      | None \<Rightarrow> None)"

record forward_service =
  fs_target_destination :: string
  fs_sender_eid :: string
  fs_lifetime :: "u64 option"
  fs_lifetime_default :: u64
  fs_max_depth :: u32
  fs_sign_key :: "string option"
  fs_sign_key_file :: "string option"
  fs_security_source :: "string option"
  fs_raw :: bool
  fs_has_sink :: bool

definition secs_duration :: "u64 \<Rightarrow> nat" where
  "secs_duration s = unat s * NANOS"

definition outer_lifetime :: "('b, 'v) bpv7_lib \<Rightarrow> forward_service \<Rightarrow> int \<Rightarrow> bytes \<Rightarrow> nat" where
  "outer_lifetime lib fs now data =
     (case fs_lifetime fs of
        Some lt \<Rightarrow> secs_duration lt
      | None \<Rightarrow>
          (case (case bl_parse lib data of Inr parsed \<Rightarrow> get_remaining_lifetime lib now parsed | Inl _ \<Rightarrow> None) of
             Some rem \<Rightarrow> if 0 < rem then rem else secs_duration (fs_lifetime_default fs)
           | None \<Rightarrow> secs_duration (fs_lifetime_default fs)))"

text \<open>
  The record that carries the data: its type, and an array of an identifier, a time and the data.
  \<open>hash\<close> is the standard library's default hasher run over the data, whose algorithm it leaves
  unspecified; \<open>emit\<close> is the octets of a CBOR item in the library's encoding.
\<close>

definition transmission_id :: "(bytes \<Rightarrow> u64) \<Rightarrow> bytes \<Rightarrow> u32" where
  "transmission_id hash data = ucast (hash data AND 0x7FFFFFFF)"

definition bibe_pdu :: "(bytes \<Rightarrow> u64) \<Rightarrow> bytes \<Rightarrow> cbor_item" where
  "bibe_pdu hash data =
     (let pdu_content = emit_array [uint (ucast (transmission_id hash data)), uint 0, byte_str data]
      in emit_array [uint 64443, pdu_content])"

text \<open>The depth of the data is \<open>None\<close> where the loop does not end.\<close>

definition forward_deliver ::
  "('b, 'v) bpv7_lib \<Rightarrow> key_lib \<Rightarrow> (cbor_item \<Rightarrow> bytes) \<Rightarrow> (bytes \<Rightarrow> u64) \<Rightarrow> forward_service \<Rightarrow> verify_policy \<Rightarrow> keystore \<Rightarrow> int
     \<Rightarrow> bytes \<Rightarrow> effect list option" where
  "forward_deliver lib klib emit hash fs policy store now data =
     (if \<not> policy_accepts lib policy store data then Some []
      else
        let dispatch =
              (let outer_payload = (if fs_raw fs then data else emit (bibe_pdu hash data))
               in case bl_build lib (fs_sender_eid fs) (fs_target_destination fs) outer_payload (outer_lifetime lib fs now data) of
                    Inl _ \<Rightarrow> []
                  | Inr (outer_bundle, outer_binbundle) \<Rightarrow>
                      (case maybe_sign_bundle lib klib outer_bundle outer_binbundle (fs_sign_key fs) (fs_sign_key_file fs)
                              (fs_security_source fs) of
                         Inl _ \<Rightarrow> []
                       | Inr (_, outer_binbundle) \<Rightarrow> if fs_has_sink fs then [Dispatch outer_binbundle] else []))
        in if 0 < fs_max_depth fs
           then (case get_bundle_depth lib data of
                   None \<Rightarrow> None
                 | Some depth \<Rightarrow> Some (if unat (fs_max_depth fs) \<le> depth then [] else dispatch))
           else Some dispatch)"

end
