(* ===== verification/Endpoint_Names.thy ===== *)
theory Endpoint_Names
  imports Storage_Safety
begin

text \<open>
  The normal forms of endpoint names: the usual spellings of a node's chat endpoint lead to the same
  conversation, and what becomes of the others.
\<close>

section \<open>Characters\<close>

lemma is_space_code: "is_space c \<longleftrightarrow> (of_char c :: nat) \<in> {32, 9, 10, 11, 12, 13}"
proof -
  have eq: "c = d \<longleftrightarrow> (of_char c :: nat) = of_char d" for d by (simp add: of_char_eq_iff)
  show ?thesis by (simp add: is_space_def eq)
qed

lemma slash_code: "c = CHR ''/'' \<longleftrightarrow> (of_char c :: nat) = 47"
proof -
  have "c = CHR ''/'' \<longleftrightarrow> (of_char c :: nat) = of_char (CHR ''/'')" by (simp only: of_char_eq_iff)
  then show ?thesis by simp
qed

lemma of_char_lower: "(of_char (lower_char c) :: nat) = (let n = of_char c in if 65 \<le> n \<and> n \<le> 90 then n + 32 else n)"
  by (simp add: lower_char_def Let_def)

lemma lower_char_simps [simp]:
  "is_space (lower_char c) = is_space c"
  "lower_char c = CHR ''/'' \<longleftrightarrow> c = CHR ''/''"
  "lower_char (lower_char c) = lower_char c"
proof -
  show "is_space (lower_char c) = is_space c" by (auto simp: is_space_code of_char_lower Let_def)
  show "lower_char c = CHR ''/'' \<longleftrightarrow> c = CHR ''/''" by (auto simp: slash_code of_char_lower Let_def)
  have "(of_char (lower_char (lower_char c)) :: nat) = of_char (lower_char c)"
    by (auto simp: of_char_lower Let_def)
  then show "lower_char (lower_char c) = lower_char c" by (simp only: of_char_eq_iff)
qed

section \<open>Trimming\<close>

lemma trim_end_pad: "list_all P post \<Longrightarrow> s \<noteq> [] \<Longrightarrow> \<not> P (List.last s) \<Longrightarrow> trim_end P (s @ post) = s"
  by (cases s rule: rev_cases) (simp_all add: trim_end_def list_all_iff dropWhile_append3 dropWhile_eq_Nil_conv)

lemma trim_start_pad: "list_all P pre \<Longrightarrow> s \<noteq> [] \<Longrightarrow> \<not> P (hd s) \<Longrightarrow> trim_start P (pre @ s) = s"
  by (cases s) (simp_all add: trim_start_def list_all_iff dropWhile_append2)

lemma trim_pad:
  assumes "list_all is_space pre" and "list_all is_space post" and "s \<noteq> []"
    and "\<not> is_space (hd s)" and "\<not> is_space (List.last s)"
  shows "trim (pre @ s @ post) = s"
proof -
  have "trim_start is_space (pre @ s @ post) = s @ post"
    using trim_start_pad [of is_space pre "s @ post"] assms by simp
  then show ?thesis using trim_end_pad [of is_space post s] assms by (simp add: trim_def)
qed

lemma trim_clean: "s \<noteq> [] \<Longrightarrow> \<not> is_space (hd s) \<Longrightarrow> \<not> is_space (List.last s) \<Longrightarrow> trim s = s"
  using trim_pad [of "[]" "[]" s] by simp

text \<open>The name of a node: not empty, without whitespace and slashes.\<close>

definition node_name :: "string \<Rightarrow> bool" where
  "node_name n \<longleftrightarrow> n \<noteq> [] \<and> list_all (\<lambda>c. \<not> is_space c \<and> c \<noteq> CHR ''/'') n"

lemma node_nameD:
  assumes "node_name n"
  shows "n \<noteq> []" and "CHR ''/'' \<notin> set n" and "\<not> is_space (hd n)" and "\<not> is_space (List.last n)" and "trim n = n"
proof -
  have "\<forall>c\<in>set n. \<not> is_space c" and ne: "n \<noteq> []" using assms by (auto simp: node_name_def list_all_iff)
  then have *: "\<not> is_space (hd n)" "\<not> is_space (List.last n)" by simp_all
  show "n \<noteq> []" "\<not> is_space (hd n)" "\<not> is_space (List.last n)" "trim n = n"
    using ne * by (simp_all add: trim_clean)
  show "CHR ''/'' \<notin> set n" using assms by (auto simp: node_name_def list_all_iff)
qed

lemma node_name_lower [simp]: "node_name (map lower_char n) = node_name n"
  by (simp add: node_name_def list_all_iff)

section \<open>The chat endpoint of a node\<close>

definition chat_endpoint :: "string \<Rightarrow> string" where
  "chat_endpoint n = ''dtn://'' @ map lower_char n @ ''/chat''"

lemma lower_map_idem [simp]: "map lower_char (map lower_char n) = map lower_char n"
  by simp

lemma chat_endpoint_lower [simp]: "chat_endpoint (map lower_char n) = chat_endpoint n"
  by (simp add: chat_endpoint_def)

lemma normalize_schemed:
  assumes "list_all is_space pre" and "list_all is_space post" and "node_name n"
    and "rest \<in> set [[], ''/'', ''/chat'']"
  shows "normalize_chat_target (pre @ (''dtn://'' @ n @ rest) @ post) = chat_endpoint n"
proof -
  note n = node_nameD [OF assms(3)]
  have last: "\<not> is_space (List.last (''dtn://'' @ n @ rest))"
    using assms(4) n by (auto simp: is_space_def)
  have trim: "trim (pre @ (''dtn://'' @ n @ rest) @ post) = ''dtn://'' @ n @ rest"
    by (rule trim_pad [OF assms(1,2) _ _ last]) (simp_all add: is_space_def)
  have parts: "filter (\<lambda>p. trim p \<noteq> []) (split_on CHR ''/'' (n @ rest)) = (if rest = ''/chat'' then [n, ''chat''] else [n])"
  proof -
    have "trim [] = []" by (simp add: trim_def trim_start_def trim_end_def)
    moreover have "trim ''chat'' = ''chat''" by (rule trim_clean) (simp_all add: is_space_def)
    moreover have "split_on CHR ''/'' (n @ rest) = (if rest = ''/chat'' then [n, ''chat''] else if rest = ''/'' then [n, []] else [n])"
      using assms(4) split_on_free [of "CHR ''/''" n] split_on_append [of "CHR ''/''" n] n(2) by auto
    ultimately show ?thesis using n by auto
  qed
  show ?thesis unfolding normalize_chat_target_def trim Let_def
    using parts by (simp add: strip_prefix_def chat_endpoint_def)
qed

lemma normalize_bare:
  assumes "list_all is_space pre" and "list_all is_space post" and "node_name n" and "\<not> prefix ''ipn:'' n"
    and "rest \<in> set [[], ''/'']"
  shows "normalize_chat_target (pre @ (n @ rest) @ post) = chat_endpoint n"
proof -
  note n = node_nameD [OF assms(3)]
  have last: "\<not> is_space (List.last (n @ rest))" and hd: "\<not> is_space (hd (n @ rest))" and ne: "n @ rest \<noteq> []"
    using assms(5) n by (auto simp: is_space_def)
  have trim: "trim (pre @ (n @ rest) @ post) = n @ rest" by (rule trim_pad [OF assms(1,2) ne hd last])
  have ipn: "\<not> prefix ''ipn:'' (n @ rest)"
  proof
    assume "prefix ''ipn:'' (n @ rest)"
    with assms(4,5) have "prefix ''ipn:'' (n @ ''/'')" by auto
    then show False using assms(4) prefix_snoc [of "''ipn:''" n "CHR ''/''"] by auto
  qed
  have dtn: "strip_prefix ''dtn://'' (n @ rest) = None"
  proof -
    have "\<not> prefix ''dtn://'' (n @ rest)"
    proof
      assume *: "prefix ''dtn://'' (n @ rest)"
      then obtain zs where eq: "n @ rest = ''dtn://'' @ zs" by (auto elim!: prefixE)
      have "count_list (n @ rest) CHR ''/'' = 2 + count_list zs CHR ''/''" unfolding eq by simp
      moreover have "count_list n CHR ''/'' = 0" using n(2) by (simp add: count_notin)
      ultimately show False using assms(5) by auto
    qed
    then show ?thesis by (simp add: strip_prefix_def)
  qed
  have strip: "trim_matches CHR ''/'' (n @ rest) = n"
  proof -
    have "hd n \<noteq> CHR ''/''" "List.last n \<noteq> CHR ''/''" using n(1,2) by (metis hd_in_set, metis last_in_set)
    moreover have "list_all (\<lambda>x. x = CHR ''/'') rest" using assms(5) by auto
    ultimately show ?thesis
      using trim_start_pad [of _ "[]" "n @ rest"] trim_end_pad [of _ rest n] n(1)
      by (simp add: trim_matches_def)
  qed
  show ?thesis unfolding normalize_chat_target_def trim Let_def
    using n(1) ipn dtn strip by (simp add: chat_endpoint_def)
qed

text \<open>A service behind the scheme and the name is kept; without the scheme it is taken as part of the name.\<close>

lemma normalize_service:
  assumes "list_all is_space pre" and "list_all is_space post" and "node_name n" and "node_name service"
  shows "normalize_chat_target (pre @ (''dtn://'' @ n @ ''/'' @ service) @ post) = ''dtn://'' @ map lower_char n @ ''/'' @ service"
proof -
  note n = node_nameD [OF assms(3)] and m = node_nameD [OF assms(4)]
  have last: "\<not> is_space (List.last (''dtn://'' @ n @ ''/'' @ service))" using n m by simp
  have trim: "trim (pre @ (''dtn://'' @ n @ ''/'' @ service) @ post) = ''dtn://'' @ n @ ''/'' @ service"
    by (rule trim_pad [OF assms(1,2) _ _ last]) (simp_all add: is_space_def)
  have "split_on CHR ''/'' (n @ ''/'' @ service) = [n, service]"
    using split_on_free [of "CHR ''/''" service] split_on_append [of "CHR ''/''" n] n(2) m(2) by auto
  then have parts: "filter (\<lambda>p. trim p \<noteq> []) (split_on CHR ''/'' (n @ ''/'' @ service)) = [n, service]" using n m by simp
  show ?thesis unfolding normalize_chat_target_def trim Let_def
    using parts by (simp add: strip_prefix_def)
qed

lemma normalize_bare_service:
  assumes "list_all is_space pre" and "list_all is_space post" and "node_name n" and "node_name service" and "\<not> prefix ''ipn:'' n"
  shows "normalize_chat_target (pre @ (n @ ''/'' @ service) @ post)
    = ''dtn://'' @ map lower_char n @ ''/'' @ map lower_char service @ ''/chat''"
proof -
  note n = node_nameD [OF assms(3)] and m = node_nameD [OF assms(4)]
  have last: "\<not> is_space (List.last (n @ ''/'' @ service))" and hd: "\<not> is_space (hd (n @ ''/'' @ service))" and ne: "n @ ''/'' @ service \<noteq> []"
    using n m by simp_all
  have trim: "trim (pre @ (n @ ''/'' @ service) @ post) = n @ ''/'' @ service" by (rule trim_pad [OF assms(1,2) ne hd last])
  have slashes: "count_list n CHR ''/'' = 0" "count_list service CHR ''/'' = 0" using n(2) m(2) by (simp_all add: count_notin)
  have short: "\<not> prefix p (n @ ''/'' @ service)" if "prefix ''ipn:'' p \<or> prefix ''dtn://'' p" for p
  proof
    assume "prefix p (n @ ''/'' @ service)"
    with that have "prefix ''ipn:'' (n @ ''/'' @ service) \<or> prefix ''dtn://'' (n @ ''/'' @ service)"
      using prefix_order.trans by blast
    then show False
    proof
      assume *: "prefix ''ipn:'' (n @ ''/'' @ service)"
      have "prefix ''ipn:'' n \<or> prefix n ''ipn:''" by (rule prefix_same_cases [OF *]) simp
      then have "n \<in> {[], ''i'', ''ip'', ''ipn''}" using assms(5) by (auto simp: prefix_Cons)
      then show False using * n(1) by (auto simp: prefix_Cons)
    next
      assume "prefix ''dtn://'' (n @ ''/'' @ service)"
      then obtain zs where eq: "n @ ''/'' @ service = ''dtn://'' @ zs" by (auto elim!: prefixE)
      have "count_list (n @ ''/'' @ service) CHR ''/'' = 2 + count_list zs CHR ''/''" unfolding eq by simp
      then show False using slashes by simp
    qed
  qed
  have ipn: "\<not> prefix ''ipn:'' (n @ ''/'' @ service)" by (rule short) simp
  have dtn: "strip_prefix ''dtn://'' (n @ ''/'' @ service) = None"
    using short [of "''dtn://''"] by (simp add: strip_prefix_def)
  have strip: "trim_matches CHR ''/'' (n @ ''/'' @ service) = n @ ''/'' @ service"
  proof -
    have "hd n \<noteq> CHR ''/''" "List.last service \<noteq> CHR ''/''" using n(1,2) m(1,2) by (metis hd_in_set, metis last_in_set)
    then show ?thesis
      using trim_start_pad [of _ "[]" "n @ ''/'' @ service"] trim_end_pad [of _ "[]" "n @ ''/'' @ service"] n(1) m(1)
      by (simp add: trim_matches_def)
  qed
  have lower: "lower_char CHR ''/'' = CHR ''/''" by simp
  show ?thesis unfolding normalize_chat_target_def trim Let_def
    using n(1) ipn dtn strip lower by simp
qed

text \<open>A scheme in capitals is no scheme to the code.\<close>

lemma capital_scheme: "normalize_chat_target ''DTN://ab'' = ''dtn://'' @ map lower_char ''DTN://ab'' @ ''/chat''"
proof -
  have "trim ''DTN://ab'' = ''DTN://ab''" by (rule trim_clean) (simp_all add: is_space_def)
  then show ?thesis
    by (simp add: normalize_chat_target_def strip_prefix_def trim_matches_def trim_start_def trim_end_def)
qed

text \<open>C29: the usual spellings of a node lead to the same conversation.  The name of a node (no whitespace, no
  slash, not beginning with \<^verbatim>\<open>ipn:\<close>), bare or with a slash behind it, and the same name after \<^verbatim>\<open>dtn://\<close> with nothing, a slash or the service
  \<^verbatim>\<open>chat\<close> behind it, the name in any case and the whole with whitespace around it, is normalised to one chat
  endpoint, which is its own normal form; so a conversation created under any of them is the one whose summary
  is returned, stored under that endpoint.  Another service than \<^verbatim>\<open>chat\<close> is kept after \<^verbatim>\<open>dtn://\<close>; without the
  scheme, a service, even \<^verbatim>\<open>chat\<close>, is taken as part of the name, and \<^verbatim>\<open>chat\<close> is added once more.
\<close>

theorem chat_target_canonical:
  assumes "node_name n" and "\<not> prefix ''ipn:'' n"
    and "spelling \<in> set [n, n @ ''/'', ''dtn://'' @ n, ''dtn://'' @ n @ ''/'', ''dtn://'' @ n @ ''/chat'']"
    and "list_all is_space pre" and "list_all is_space post"
    and "create_conversation now (pre @ spelling @ post) st = (st', summary)" and "node_name service"
  shows "normalize_chat_target (pre @ spelling @ post) = chat_endpoint n
    \<and> normalize_chat_target (chat_endpoint n) = chat_endpoint n
    \<and> cs_peer summary = chat_endpoint n
    \<and> (\<exists>date. (chat_endpoint n, date) \<in> set (st_conversations st') \<and> summary = conversation_row st' (chat_endpoint n, date))
    \<and> normalize_chat_target (pre @ (''dtn://'' @ n @ ''/'' @ service) @ post) = ''dtn://'' @ map lower_char n @ ''/'' @ service
    \<and> normalize_chat_target (pre @ (n @ ''/'' @ service) @ post) = ''dtn://'' @ map lower_char n @ ''/'' @ map lower_char service @ ''/chat''"
proof -
  have target: "normalize_chat_target (pre @ spelling @ post) = chat_endpoint n"
    using assms(3) normalize_bare [OF assms(4,5,1,2)] normalize_schemed [OF assms(4,5,1)] by fastforce
  have fixed: "normalize_chat_target (chat_endpoint n) = chat_endpoint n"
    using normalize_schemed [of "[]" "[]" "map lower_char n" "''/chat''"] assms(1) by (simp add: chat_endpoint_def)
  have st': "st_conversations st' = insert_or_ignore (chat_endpoint n, now) (st_conversations st)"
    and summary: "summary = get_conversation_summary now (chat_endpoint n) st'"
    using assms(6) by (auto simp: create_conversation_def Let_def target)
  have "chat_endpoint n \<in> fst ` set (st_conversations st')" by (simp add: st' fst_insert_or_ignore)
  then have "filter (\<lambda>c. fst c = chat_endpoint n) (st_conversations st') \<noteq> []" by (fastforce simp: filter_empty_conv)
  then obtain c cs where c: "filter (\<lambda>c. fst c = chat_endpoint n) (st_conversations st') = c # cs"
    by (cases "filter (\<lambda>c. fst c = chat_endpoint n) (st_conversations st')") auto
  then have "c \<in> set (filter (\<lambda>c. fst c = chat_endpoint n) (st_conversations st'))" by simp
  then have "c \<in> set (st_conversations st')" and "fst c = chat_endpoint n" by simp_all
  moreover have "summary = conversation_row st' c" by (simp add: summary get_conversation_summary_def fixed c)
  ultimately have ex: "\<exists>date. (chat_endpoint n, date) \<in> set (st_conversations st') \<and> summary = conversation_row st' (chat_endpoint n, date)"
    by (intro exI [of _ "snd c"]) (simp add: prod_eq_iff [symmetric], metis prod.collapse)
  have "cs_peer summary = chat_endpoint n" using ex by (auto simp: conversation_row_def Let_def)
  then show ?thesis
    using target fixed ex normalize_service [OF assms(4,5,1,7)] normalize_bare_service [OF assms(4,5,1,7,2)] by blast
qed

lemma chat_target_canonical_witness:
  "normalize_chat_target ('' '' @ (''dtn://'' @ ''Ab'' @ ''/'') @ [CHR 0x0A]) = chat_endpoint ''Ab''
    \<and> normalize_chat_target ('' '' @ (''Ab'' @ ''/'' @ ''chat'') @ [CHR 0x0A]) = ''dtn://'' @ map lower_char ''Ab'' @ ''/'' @ map lower_char ''chat'' @ ''/chat''"
proof -
  obtain st' s where "create_conversation ''d'' ('' '' @ (''dtn://'' @ ''Ab'' @ ''/'') @ [CHR 0x0A]) empty_storage = (st', s)"
    by (metis surj_pair)
  from chat_target_canonical [OF _ _ _ _ _ this, of "''Ab''" "''chat''"] show ?thesis
    by (simp add: node_name_def is_space_def)
qed

end
