(* ===== verification/Inspector_Safety.thy ===== *)
theory Inspector_Safety
  imports Bundle_Inspector
begin

text \<open>
  The inspector stays inside the payload directory and a deletion takes exactly one bundle; a hex dump
  determines the octets it shows.
\<close>

section \<open>Paths below a directory\<close>

lemma split_on_concat: "split_on c (a @ c # b) = split_on c a @ split_on c b"
  by (induction a) (auto split: list.split)

definition below :: "string \<Rightarrow> string \<Rightarrow> bool" where
  "below dir p \<longleftrightarrow> (\<exists>parts. path_components p = path_components dir @ map Normal parts)"

definition path_parts :: "string \<Rightarrow> path_component list" where
  "path_parts s = map (\<lambda>p. if p = ''..'' then Parent_Dir else Normal p)
                    (filter (\<lambda>p. p \<noteq> [] \<and> p \<noteq> ''.'') (split_on CHR ''/'' s))"

definition path_root :: "string \<Rightarrow> path_component list" where
  "path_root s = (if prefix ''/'' s then [Root_Dir] else if s = ''.'' \<or> prefix ''./'' s then [Cur_Dir] else [])"

lemma path_components_split: "path_components s = path_root s @ path_parts s"
  by (simp add: path_components_def path_root_def path_parts_def)

lemma path_parts_slash: "path_parts (a @ CHR ''/'' # b) = path_parts a @ path_parts b"
  by (simp add: path_parts_def split_on_concat)

lemma path_parts_Nil [simp]: "path_parts [] = []"
  by (simp add: path_parts_def)

lemma path_root_slash: "dir \<noteq> [] \<Longrightarrow> path_root (dir @ CHR ''/'' # name) = path_root dir"
  by (cases dir; cases "tl dir") (auto simp: path_root_def)

lemma path_components_join:
  assumes "path_root name = []" and "dir \<noteq> []"
  shows "path_components (path_join dir name) = path_components dir @ path_parts name"
proof (cases "List.last dir = CHR ''/''")
  case False
  then have "path_join dir name = dir @ CHR ''/'' # name" using assms(2) by (simp add: path_join_def)
  then show ?thesis using path_root_slash [OF assms(2)] by (simp add: path_components_split path_parts_slash)
next
  case True
  then obtain d where d: "dir = d @ [CHR ''/'']" using assms(2) by (metis append_butlast_last_id)
  then have "path_join dir name = d @ CHR ''/'' # name" by (simp add: path_join_def)
  moreover have "path_parts dir = path_parts d" using path_parts_slash [of d "[]"] by (simp add: d)
  moreover have "path_root (d @ CHR ''/'' # name) = path_root dir"
    by (cases d; cases "tl d") (auto simp: path_root_def d)
  ultimately show ?thesis by (simp add: path_components_split path_parts_slash)
qed

lemma normal_path:
  assumes "list_all is_normal (path_components name)"
  shows "path_root name = []" and "\<exists>parts. path_parts name = map Normal parts"
proof -
  have all: "list_all is_normal (path_root name)" "list_all is_normal (path_parts name)"
    using assms by (simp_all add: path_components_split)
  from all(1) show "path_root name = []" by (auto simp: path_root_def is_normal_def split: if_splits)
  have "\<exists>ns. cs = map Normal ns" if "list_all is_normal cs" for cs
    using that
  proof (induction cs)
    case (Cons c cs)
    then obtain ns where "cs = map Normal ns" by auto
    moreover obtain n where "c = Normal n" using Cons.prems by (cases c) (auto simp: is_normal_def)
    ultimately show ?case by (metis list.map(2))
  qed simp
  with all(2) show "\<exists>parts. path_parts name = map Normal parts" by blast
qed

lemma safe_payload_path_below:
  assumes "safe_payload_path dir name = Inr p"
  shows "below dir p"
proof -
  have p: "p = path_join dir name" and normal: "list_all is_normal (path_components name)"
    using assms by (auto simp: safe_payload_path_def split: if_splits)
  obtain parts where parts: "path_parts name = map Normal parts" using normal_path(2) [OF normal] by auto
  show ?thesis
  proof (cases "dir = []")
    case True
    then show ?thesis using p parts normal_path(1) [OF normal]
      by (auto simp: below_def path_join_def path_components_split path_root_def)
  next
    case False
    with path_components_join [OF normal_path(1) [OF normal]] parts p show ?thesis by (auto simp: below_def)
  qed
qed

section \<open>Reading and deleting\<close>

lemma lookup_rows_hit:
  "lookup_rows lib key rows = Some (i, name)
     \<Longrightarrow> \<exists>row. Some row \<in> set rows \<and> br_bundle_id row = i \<and> (\<exists>v. il_id lib i = Some v \<and> iv_key v = key)"
proof (induction rows)
  case (Cons r rows)
  show ?case
  proof (cases r)
    case None
    then show ?thesis using Cons by auto
  next
    case (Some row)
    show ?thesis
    proof (cases "\<exists>v. il_id lib (br_bundle_id row) = Some v \<and> iv_key v = key")
      case True
      then show ?thesis using Cons.prems Some by (intro exI [of _ row]) auto
    next
      case False
      then have "lookup_rows lib key rows = Some (i, name)" using Cons.prems Some by (auto split: option.splits)
      then show ?thesis using Cons.IH by auto
    qed
  qed
qed simp

lemma lookup_rows_filter:
  assumes "\<And>row v. Some row \<in> set rows \<Longrightarrow> \<not> P (Some row) \<Longrightarrow> il_id lib (br_bundle_id row) = Some v \<Longrightarrow> iv_key v \<noteq> key"
  shows "lookup_rows lib key (filter P rows) = lookup_rows lib key rows"
  using assms
proof (induction rows)
  case (Cons r rows)
  have IH: "lookup_rows lib key (filter P rows) = lookup_rows lib key rows"
    by (rule Cons.IH) (rule Cons.prems, simp_all)
  show ?case
  proof (cases r)
    case None
    then show ?thesis by (simp add: IH)
  next
    case (Some row)
    show ?thesis
    proof (cases "P r")
      case True
      then show ?thesis using Some by (simp add: IH split: option.split)
    next
      case False
      then have "\<And>v. il_id lib (br_bundle_id row) = Some v \<Longrightarrow> iv_key v \<noteq> key" using Cons.prems [of row] Some by simp
      then show ?thesis using False Some by (auto simp: IH split: option.split)
    qed
  qed
qed simp

text \<open>The rows with the identifier of a bundle.\<close>

definition row_of :: "bytes \<Rightarrow> bundle_row option \<Rightarrow> bool" where
  "row_of i r \<longleftrightarrow> (case r of Some row \<Rightarrow> br_bundle_id row = i | None \<Rightarrow> False)"

lemma delete_bundle_db_record_row_of:
  "delete_bundle_db_record i s =
     (case bs_database s of
        None \<Rightarrow> (s, False)
      | Some rows \<Rightarrow> (s\<lparr>bs_database := Some (filter (\<lambda>r. \<not> row_of i r) rows)\<rparr>, list_ex (row_of i) rows))"
  unfolding delete_bundle_db_record_def row_of_def by (simp add: Let_def split: option.split)

lemma lookup_after_delete:
  assumes "lookup_bundle_storage_info lib key s = Some (i, name)" and "key' \<noteq> key"
  shows "lookup_bundle_storage_info lib key' (fst (delete_bundle_db_record i s)) = lookup_bundle_storage_info lib key' s"
proof (cases "bs_database s")
  case (Some rows)
  with assms(1) obtain v where v: "il_id lib i = Some v" "iv_key v = key"
    by (auto simp: lookup_bundle_storage_info_def dest: lookup_rows_hit)
  have "lookup_rows lib key' (filter (\<lambda>r. \<not> row_of i r) (rev rows)) = lookup_rows lib key' (rev rows)"
    by (rule lookup_rows_filter) (use v assms(2) in \<open>auto simp: row_of_def\<close>)
  then show ?thesis using Some
    by (simp add: lookup_bundle_storage_info_def delete_bundle_db_record_row_of rev_filter)
qed (simp add: delete_bundle_db_record_row_of)

text \<open>The payload file a bundle's entry names, where that is allowed.\<close>

definition payload_file :: "inspector_lib \<Rightarrow> string \<Rightarrow> string \<Rightarrow> bundle_store \<Rightarrow> string option" where
  "payload_file lib payload_dir key s =
     (case lookup_bundle_storage_info lib key s of
        Some (_, Some name) \<Rightarrow> (case safe_payload_path payload_dir name of Inr p \<Rightarrow> Some p | Inl _ \<Rightarrow> None)
      | _ \<Rightarrow> None)"

lemma payload_file_below: "payload_file lib dir key s = Some p \<Longrightarrow> below dir p"
  by (auto simp: payload_file_def safe_payload_path_below split: option.splits sum.splits)

definition unlinked :: "(string \<Rightarrow> bool) \<Rightarrow> string option \<Rightarrow> bundle_store \<Rightarrow> bundle_store" where
  "unlinked unlink f s =
     (case f of
        Some p \<Rightarrow> if bs_files s p \<noteq> None \<and> unlink p then s\<lparr>bs_files := (bs_files s)(p := None)\<rparr> else s
      | None \<Rightarrow> s)"

lemma unlinked_simps [simp]:
  "bs_database (unlinked unlink f s) = bs_database s"
  "lookup_bundle_storage_info lib key (unlinked unlink f s) = lookup_bundle_storage_info lib key s"
  by (simp_all add: unlinked_def lookup_bundle_storage_info_def split: option.split)

lemma delete_bundle_unlinks:
  assumes "lookup_bundle_storage_info lib key s = Some (i, name)"
  shows "delete_bundle_from_storage unlink lib dir key s
    = delete_bundle_db_record i (unlinked unlink (payload_file lib dir key s) s)"
  using assms by (auto simp: delete_bundle_from_storage_def payload_file_def unlinked_def Let_def split: option.split sum.split)

lemma delete_record_files [simp]: "bs_files (fst (delete_bundle_db_record i s)) = bs_files s"
  by (simp add: delete_bundle_db_record_def Let_def split: option.split)

lemma delete_record_found:
  assumes "lookup_bundle_storage_info lib key s = Some (i, name)" and "bs_database t = bs_database s"
  shows "snd (delete_bundle_db_record i t)"
proof -
  obtain rows where rows: "bs_database s = Some rows" and "lookup_rows lib key (rev rows) = Some (i, name)"
    using assms(1) by (auto simp: lookup_bundle_storage_info_def split: option.splits)
  then obtain row where "Some row \<in> set rows" "br_bundle_id row = i" by (auto dest: lookup_rows_hit)
  then have "list_ex (row_of i) rows" unfolding list_ex_iff by (intro bexI [of _ "Some row"]) (simp_all add: row_of_def)
  then show ?thesis using rows assms(2) by (simp add: delete_bundle_db_record_row_of)
qed

lemma get_bundle_payload_files:
  assumes "\<And>p. below dir p \<Longrightarrow> f p = bs_files s p"
  shows "get_bundle_payload lib dir key (s\<lparr>bs_files := f\<rparr>) = get_bundle_payload lib dir key s"
proof -
  have "lookup_bundle_storage_info lib key (s\<lparr>bs_files := f\<rparr>) = lookup_bundle_storage_info lib key s"
    by (simp add: lookup_bundle_storage_info_def)
  moreover have "f p = bs_files s p" if "safe_payload_path dir name = Inr p" for name p
    using assms safe_payload_path_below [OF that] by simp
  ultimately show ?thesis by (auto simp: get_bundle_payload_def split: option.split sum.split)
qed

text \<open>C30: the inspector stays inside the payload directory, whatever file names the metadata database holds.
  What it reads of a bundle depends on no file outside the directory: a path it opens is the directory's
  path followed by plain names, without parent components.  Deleting a bundle removes at most one file,
  inside the directory; it reports success exactly if the bundle was found, and no other bundle's entry
  is lost or changed.
\<close>

theorem inspector_confined:
  assumes "delete_bundle_from_storage unlink lib dir key s = (s', deleted)"
  shows "(\<forall>f. (\<forall>p. below dir p \<longrightarrow> f p = bs_files s p)
            \<longrightarrow> get_bundle_payload lib dir key (s\<lparr>bs_files := f\<rparr>) = get_bundle_payload lib dir key s)
    \<and> (bs_files s' = bs_files s \<or> (\<exists>p. below dir p \<and> bs_files s' = (bs_files s)(p := None)))
    \<and> (deleted \<longleftrightarrow> lookup_bundle_storage_info lib key s \<noteq> None)
    \<and> (\<forall>key'. key' \<noteq> key \<longrightarrow> lookup_bundle_storage_info lib key' s' = lookup_bundle_storage_info lib key' s)"
proof (cases "lookup_bundle_storage_info lib key s")
  case None
  then have "s' = s" "\<not> deleted" using assms by (auto simp: delete_bundle_from_storage_def)
  then show ?thesis using None get_bundle_payload_files by auto
next
  case (Some found)
  obtain i name where found: "found = (i, name)" by fastforce
  note lookup = Some [unfolded found]
  let ?u = "unlinked unlink (payload_file lib dir key s) s"
  have s': "s' = fst (delete_bundle_db_record i ?u)" and deleted: "deleted = snd (delete_bundle_db_record i ?u)"
    using assms delete_bundle_unlinks [OF lookup, of unlink dir] by auto
  have files: "bs_files s' = bs_files s \<or> (\<exists>p. below dir p \<and> bs_files s' = (bs_files s)(p := None))"
    using payload_file_below [of lib dir key s]
    by (cases "payload_file lib dir key s") (auto simp: s' unlinked_def)
  have others: "lookup_bundle_storage_info lib key' s' = lookup_bundle_storage_info lib key' s" if "key' \<noteq> key" for key'
    using lookup_after_delete [of lib key ?u i name key'] lookup that by (simp add: s')
  have "deleted" unfolding deleted by (rule delete_record_found [OF lookup]) simp
  then show ?thesis using files others lookup get_bundle_payload_files by auto
qed

definition example_lib :: inspector_lib where
  "example_lib = \<lparr>il_json = (\<lambda>_. Some (JObject [(''metadata'', JObject [(''storage_name'', JString ''../x'')])])),
     il_id = (\<lambda>b. Some \<lparr>iv_key = text_of b, iv_source = ''s'', iv_created_at = None, iv_creation_time = None\<rparr>),
     il_payload = (\<lambda>_. None)\<rparr>"

definition example_store :: bundle_store where
  "example_store = \<lparr>bs_database = Some [Some \<lparr>br_bundle_id = [97], br_bundle = Some [], br_status_code = None\<rparr>],
     bs_files = [''d/../x'' \<mapsto> [1]]\<rparr>"

lemma inspector_confined_witness:
  "snd (delete_bundle_from_storage (\<lambda>_. True) example_lib ''d'' ''a'' example_store)
     \<longleftrightarrow> lookup_bundle_storage_info example_lib ''a'' example_store \<noteq> None"
proof -
  obtain s' deleted where "delete_bundle_from_storage (\<lambda>_. True) example_lib ''d'' ''a'' example_store = (s', deleted)"
    by (metis surj_pair)
  from inspector_confined [OF this] this show ?thesis by simp
qed

section \<open>Hex dumps\<close>

lemma of_hex_digit: "n < 16 \<Longrightarrow> of_char (hex_digit n) = (if n < 10 then 48 + n else 87 + n)"
  by (simp add: hex_digit_def)

lemma hex_digit_inj: "m < 16 \<Longrightarrow> n < 16 \<Longrightarrow> hex_digit m = hex_digit n \<longleftrightarrow> m = n"
proof
  assume less: "m < 16" "n < 16" and "hex_digit m = hex_digit n"
  then have "(of_char (hex_digit m) :: nat) = of_char (hex_digit n)" by simp
  then have "(if m < 10 then 48 + m else 87 + m) = (if n < 10 then 48 + n else 87 + n)" using less by (simp only: of_hex_digit)
  then show "m = n" by (simp split: if_splits)
qed simp

lemma hex_digit_blank: "n < 16 \<Longrightarrow> hex_digit n \<noteq> CHR '' ''"
proof
  assume "n < 16" and "hex_digit n = CHR '' ''"
  then have "(if n < 10 then 48 + n else 87 + n) = (of_char (CHR '' '') :: nat)" by (metis of_hex_digit)
  then show False by (simp split: if_splits)
qed

lemma hex_digit_0: "hex_digit 0 = CHR ''0''"
proof -
  have "(of_char (hex_digit 0) :: nat) = of_char (CHR ''0'')" by (simp add: of_hex_digit)
  then show ?thesis by (simp only: of_char_eq_iff)
qed

lemma hex_octet: "n < 256 \<Longrightarrow> hex_padded 2 n = [hex_digit (n div 16), hex_digit (n mod 16)]"
  by (auto simp: hex_padded_def hex_number.simps [of n] hex_number.simps [of "n div 16"] hex_digit_0)

text \<open>The columns of the octets, with the blanks of those that are missing, from column \<open>j\<close> on.\<close>

definition hex_field :: "nat \<Rightarrow> bytes \<Rightarrow> string" where
  "hex_field j bs = hex_columns j bs @ concat (map (\<lambda>i. gap i @ ''   '') [j + length bs..<16])"

lemma hex_field_Cons: "hex_field j (b # bs) = gap j @ hex_padded 2 (unat b) @ '' '' @ hex_field (Suc j) bs"
  by (simp add: hex_field_def)

lemma hex_field_Nil: "j < 16 \<Longrightarrow> hex_field j [] = gap j @ ''   '' @ hex_field (Suc j) []"
  by (simp add: hex_field_def upt_conv_Cons)

lemma octet_less: "unat (b :: u8) < 256"
  using unsigned_less [of b] by simp

lemma length_hex_field:
  "j + length bs \<le> 16 \<Longrightarrow> length (hex_field j bs) = 3 * (16 - j) + (if j \<le> 8 then 1 else 0)"
proof (induction "16 - j" arbitrary: j bs)
  case 0
  then have "length bs = 0" by arith
  then have "bs = []" by simp
  then show ?case using 0 by (simp add: hex_field_def)
next
  case (Suc k)
  then have j: "j < 16" "k = 16 - Suc j" by auto
  have rest: "length (hex_field (Suc j) (tl bs)) = 3 * (16 - Suc j) + (if Suc j \<le> 8 then 1 else 0)"
    using Suc.hyps(1) [OF j(2)] Suc.prems j(1) by (cases bs) auto
  have "length (hex_field j bs) = length (gap j) + 3 + length (hex_field (Suc j) (tl bs))"
    by (cases bs) (simp_all add: hex_field_Cons hex_field_Nil j(1) hex_octet octet_less)
  then show ?case using rest j(1) by (auto simp: gap_def)
qed

lemma hex_field_inj:
  "j + length as \<le> 16 \<Longrightarrow> j + length bs \<le> 16 \<Longrightarrow> hex_field j as = hex_field j bs \<Longrightarrow> as = bs"
proof (induction as arbitrary: j bs)
  case Nil
  show ?case
  proof (cases bs)
    case (Cons b bs')
    with Nil have j: "j < 16" by simp
    have "unat b div 16 < 16" using octet_less [of b] by (simp add: div_less_iff_less_mult)
    from hex_digit_blank [OF this] show ?thesis using Nil.prems(3)
      by (auto simp: Cons hex_field_Cons hex_field_Nil [OF j] hex_octet octet_less)
  qed simp
next
  case (Cons a as)
  then have j: "j < 16" by simp
  show ?case
  proof (cases bs)
    case Nil
    have "unat a div 16 < 16" using octet_less [of a] by (simp add: div_less_iff_less_mult)
    from hex_digit_blank [OF this] Nil show ?thesis using Cons.prems(3)
      by (auto simp: hex_field_Cons hex_field_Nil [OF j] hex_octet octet_less)
  next
    case (Cons b bs')
    have eq: "hex_digit (unat a div 16) = hex_digit (unat b div 16)" "hex_digit (unat a mod 16) = hex_digit (unat b mod 16)"
      and rest: "hex_field (Suc j) as = hex_field (Suc j) bs'"
      using Cons.prems(3) by (simp_all add: Cons hex_field_Cons hex_octet octet_less)
    from eq have "unat a div 16 = unat b div 16" "unat a mod 16 = unat b mod 16"
      using octet_less [of a] octet_less [of b] by (simp_all add: hex_digit_inj div_less_iff_less_mult)
    then have "unat a = unat b" by (metis div_mult_mod_eq)
    moreover have "as = bs'" by (rule Cons.IH [OF _ _ rest]) (use Cons.prems Cons in simp_all)
    ultimately show ?thesis using Cons by (simp add: word_unat_eq_iff)
  qed
qed

lemma hex_line_field:
  "length chunk \<le> 16 \<Longrightarrow>
     hex_line i chunk = hex_padded 8 (i * 16) @ ''  '' @ hex_field 0 chunk @ '' |'' @ map printable chunk @ ''|'' @ [CHR 0x0A]"
proof -
  have shift: "map (\<lambda>j. gap (n + j) @ ''   '') [0..<16 - n] = map (\<lambda>i. gap i @ ''   '') [n..<16]" for n
    by (intro nth_equalityI) auto
  show ?thesis by (simp add: hex_line_def hex_field_def shift)
qed

lemma hex_line_inj:
  assumes "length as \<le> 16" and "length bs \<le> 16" and "hex_line i as @ x = hex_line i bs @ y"
  shows "as = bs \<and> x = y"
proof -
  have eq: "hex_field 0 as @ '' |'' @ map printable as @ ''|'' @ [CHR 0x0A] @ x
      = hex_field 0 bs @ '' |'' @ map printable bs @ ''|'' @ [CHR 0x0A] @ y"
    using assms by (simp add: hex_line_field)
  moreover have "length (hex_field 0 as) = length (hex_field 0 bs)"
    using assms by (simp add: length_hex_field)
  ultimately have "hex_field 0 as = hex_field 0 bs" by (metis append_eq_append_conv)
  then have "as = bs" using hex_field_inj [of 0 as bs] assms by simp
  then show ?thesis using eq by simp
qed

lemma hex_lines_inj: "hex_lines i as = hex_lines i bs \<Longrightarrow> as = bs"
proof (induction i as arbitrary: bs rule: hex_lines.induct)
  case (1 i as)
  have ne: "hex_line i c @ x \<noteq> []" for c x by (simp add: hex_line_def)
  show ?case
  proof (cases "as = [] \<or> bs = []")
    case True
    then show ?thesis using "1.prems" ne by (auto simp: hex_lines.simps [of i as] hex_lines.simps [of i bs] split: if_splits)
  next
    case False
    then have "hex_line i (take 16 as) @ hex_lines (Suc i) (drop 16 as) = hex_line i (take 16 bs) @ hex_lines (Suc i) (drop 16 bs)"
      using "1.prems" by (simp add: hex_lines.simps [of i as] hex_lines.simps [of i bs])
    from hex_line_inj [OF _ _ this] have "take 16 as = take 16 bs" "hex_lines (Suc i) (drop 16 as) = hex_lines (Suc i) (drop 16 bs)"
      by simp_all
    moreover have "drop 16 as = drop 16 bs" using "1.IH" [OF _ calculation(2)] False by simp
    ultimately show ?thesis by (metis append_take_drop_id)
  qed
qed

text \<open>A hex dump determines the octets it shows: the offsets, the columns with their gap in the middle
  and the blanks of a short last line are laid out so that no two different payloads have the same dump.
\<close>

theorem hex_dump_injective: "format_hex_dump as = format_hex_dump bs \<longleftrightarrow> as = bs"
  unfolding format_hex_dump_def using hex_lines_inj by blast

section \<open>Previews\<close>

text \<open>
  The preview of a text cuts it after 16 KiB and is lost where the cut falls inside a character: a valid
  text of more than 16 KiB then has none.
\<close>

lemma utf8_valid_ascii: "b < 0x80 \<Longrightarrow> utf8_valid (b # bs) = utf8_valid bs"
  by (simp add: utf8_valid.simps [of "b # bs"] utf8_head_def utf8_width_def Let_def)

lemma utf8_valid_replicate: "utf8_valid (replicate n 0x61 @ bs) = utf8_valid bs"
  by (induction n) (simp_all add: utf8_valid_ascii)

lemma preview_lost:
  assumes "bs = replicate 16383 0x61 @ [0xC3, 0xA9]"
  shows "utf8_valid bs \<and> payload_preview bs = None"
proof -
  define n :: nat where "n = 16383"
  have bs: "bs = replicate n 0x61 @ [0xC3, 0xA9]" by (simp only: assms n_def)
  have "min (length bs) MAX_PREVIEW_BYTES = Suc n" by (simp add: bs n_def MAX_PREVIEW_BYTES_def)
  then have "take (min (length bs) MAX_PREVIEW_BYTES) bs = replicate n 0x61 @ [0xC3]" by (simp add: bs)
  moreover have "utf8_valid [0xC3, 0xA9]" "\<not> utf8_valid [0xC3]"
    by (simp_all add: utf8_valid.simps utf8_head_def utf8_width_def second_ok_def is_cont_def Let_def)
  ultimately show ?thesis by (simp add: payload_preview_def utf8_valid_replicate bs)
qed

end
