(* ===== verification/Security_Safety.thy ===== *)
theory Security_Safety
  imports Receivers Endpoint_Names Inspector_Safety
begin

text \<open>
  What the keys and the policy of the receivers guarantee: the key store's precedence, the forms a key
  may be given in, the strict policy, and the bound on nested bundles.
\<close>

section \<open>Endpoint names\<close>

lemma dropWhile_stop: "dropWhile P xs = [] \<or> \<not> P (hd (dropWhile P xs))"
  by (induction xs) auto

lemma trim_ends: "trim s = [] \<or> \<not> is_space (hd (trim s)) \<and> \<not> is_space (List.last (trim s))"
proof -
  let ?a = "dropWhile is_space s"
  let ?b = "dropWhile is_space (rev ?a)"
  have t: "trim s = rev ?b" by (simp add: trim_def trim_start_def trim_end_def)
  obtain cs where split: "rev ?a = cs @ ?b" by (metis takeWhile_dropWhile_id)
  then have a: "?a = rev ?b @ rev cs" by (metis rev_append rev_rev_ident)
  show ?thesis
  proof (cases "?b = []")
    case False
    then have "hd (rev ?b) = hd ?a" using a by (metis hd_append2 rev_is_Nil_conv)
    moreover have "?a \<noteq> []" using False a by (metis Nil_is_append_conv rev_is_Nil_conv)
    ultimately have "\<not> is_space (hd (rev ?b))" using dropWhile_stop [of is_space s] by metis
    moreover have "\<not> is_space (hd ?b)" using False dropWhile_stop [of is_space "rev ?a"] by blast
    ultimately show ?thesis unfolding t last_rev by blast
  qed (simp add: t)
qed

lemma trim_Nil [simp]: "trim [] = []"
  by (simp add: trim_def trim_start_def trim_end_def)

lemma trim_trim [simp]: "trim (trim s) = trim s"
  using trim_ends [of s] by (cases "trim s = []") (auto simp: trim_clean)

lemma normalize_eid_idem: "normalize_eid (normalize_eid s) = normalize_eid s"
proof (cases "\<exists>rest. trim s = ''dtn://'' @ rest \<and> rest \<noteq> [] \<and> CHR ''/'' \<notin> set rest")
  case True
  then obtain rest where rest: "trim s = ''dtn://'' @ rest" "rest \<noteq> []" "CHR ''/'' \<notin> set rest" by blast
  then have n: "normalize_eid s = ''dtn://'' @ rest @ ''/''"
    by (simp add: normalize_eid_def strip_prefix_def del: trim_trim)
  have "trim (''dtn://'' @ rest @ ''/'') = ''dtn://'' @ rest @ ''/''"
    by (rule trim_clean) (simp_all add: is_space_def)
  then show ?thesis unfolding n by (simp add: normalize_eid_def strip_prefix_def)
next
  case False
  then have "normalize_eid s = trim s"
    by (auto simp: normalize_eid_def strip_prefix_def Let_def elim!: prefixE split: option.split)
  moreover from False have "normalize_eid (trim s) = trim s"
    by (auto simp: normalize_eid_def strip_prefix_def Let_def elim!: prefixE split: option.split)
  ultimately show ?thesis by simp
qed

section \<open>The key store\<close>

lemma key_of_first: "key_of store source = (case find_keys store source of [] \<Rightarrow> None | k # _ \<Rightarrow> Some k)"
  by (induction store source rule: key_of.induct) (auto simp: find_keys_def)

lemma key_of_matches: "key_of store source = Some k \<Longrightarrow> \<exists>p. (p, k) \<in> set store \<and> matches_eid_pattern p source"
  by (induction store source rule: key_of.induct) (auto split: if_splits)

lemma first_error_None: "first_error f vs = None \<longleftrightarrow> (\<forall>v\<in>set vs. f v = None)"
  by (induction vs) (auto split: option.split)

text \<open>What a valid bundle has passed.\<close>

definition checked :: "('b, 'v) bpv7_lib \<Rightarrow> keystore \<Rightarrow> bytes \<Rightarrow> 'b \<Rightarrow> bool" where
  "checked lib store data parsed \<longleftrightarrow> bl_parse lib data = Inr parsed
     \<and> (bl_bib_sources lib parsed \<noteq> [] \<or> bl_has_bib_block lib parsed)
     \<and> (\<forall>s\<in>set (bl_bib_sources lib parsed). \<exists>p k. (p, k) \<in> set store \<and> matches_eid_pattern p s \<and> key_of store s = Some k)
     \<and> bl_verify_all lib parsed (key_of store) = None
     \<and> (\<exists>vs. bl_begin_payload lib parsed (key_of store) = Inr vs
           \<and> (\<forall>v\<in>set vs. bl_finish lib v (or_default [] (bl_payload lib parsed)) = None))"

lemma verify_bundle_Valid: "verify_bundle lib data store = Valid \<longleftrightarrow> (\<exists>parsed. checked lib store data parsed)"
proof -
  have keys: "first_error (missing_key store) ss = None
      \<longleftrightarrow> (\<forall>s\<in>set ss. \<exists>p k. (p, k) \<in> set store \<and> matches_eid_pattern p s \<and> key_of store s = Some k)" for ss
  proof -
    have "missing_key store s = None \<longleftrightarrow> (\<exists>p k. (p, k) \<in> set store \<and> matches_eid_pattern p s \<and> key_of store s = Some k)" for s
      using key_of_matches [of store s] by (cases "find_keys store s") (auto simp: missing_key_def key_of_first)
    then show ?thesis by (simp add: first_error_None)
  qed
  show ?thesis
  proof (cases "bl_parse lib data")
    case (Inr parsed)
    show ?thesis
      unfolding verify_bundle_def checked_def keys [symmetric] first_error_None [of "\<lambda>v. bl_finish lib v _", symmetric]
      by (auto simp: Inr Let_def split: option.splits sum.splits)
  qed (simp add: verify_bundle_def checked_def)
qed

lemma policy_strict: "policy_accepts lib Strict store data \<longleftrightarrow> verify_bundle lib data store = Valid"
  by (simp add: policy_accepts_def split: verify_result.split)

text \<open>C32: under the strict policy nothing happens without a valid signature.  If the printer prints, the
  trigger writes a file or runs a command, the file saver writes anything, or the forwarder sends
  anything (or gets as far as measuring the depth), then the bundle could be parsed, has an integrity
  block, the key store has a matching key for every security source the library found (the first
  matching entry is the one used), and the library's checks of all blocks and of the payload with
  these keys succeeded.
\<close>

theorem strict_policy_enforced:
  assumes "print_deliver lib Strict store data \<noteq> [] \<or> trigger_deliver lib app Strict store date temp data \<noteq> []
    \<or> save_deliver lib fl dir metadata writable Strict store data \<noteq> []
    \<or> forward_deliver lib klib emit hash fs Strict store now data \<noteq> Some []"
  shows "\<exists>parsed. bl_parse lib data = Inr parsed
    \<and> (bl_bib_sources lib parsed \<noteq> [] \<or> bl_has_bib_block lib parsed)
    \<and> (\<forall>s\<in>set (bl_bib_sources lib parsed). \<exists>p k. (p, k) \<in> set store \<and> matches_eid_pattern p s \<and> key_of store s = Some k)
    \<and> bl_verify_all lib parsed (key_of store) = None
    \<and> (\<exists>vs. bl_begin_payload lib parsed (key_of store) = Inr vs
          \<and> (\<forall>v\<in>set vs. bl_finish lib v (or_default [] (bl_payload lib parsed)) = None))"
proof -
  have "policy_accepts lib Strict store data"
    using assms by (auto simp: print_deliver_def trigger_deliver_def save_deliver_def forward_deliver_def case_prod_beta
        split: if_splits)
  then obtain parsed where "checked lib store data parsed" by (auto simp: policy_strict verify_bundle_Valid)
  then show ?thesis unfolding checked_def by blast
qed

text \<open>A library for which every bundle is signed by \<open>a\<close> and checks against the key \<open>[1]\<close>.\<close>

definition demo_lib :: "(bytes, unit) bpv7_lib" where
  "demo_lib = \<lparr>bl_parse = (\<lambda>d. case d of [] \<Rightarrow> Inl ''empty'' | b # p \<Rightarrow> Inr p), bl_bib_sources = (\<lambda>_. [''a'']),
     bl_has_bib_block = (\<lambda>_. True), bl_payload = Some, bl_source = (\<lambda>_. ''a''), bl_key = (\<lambda>_. ''k''),
     bl_created = (\<lambda>_. None), bl_lifetime = (\<lambda>_. 0), bl_null = ''dtn:none'', bl_build = (\<lambda>_ _ p _. Inr (p, 0 # p)),
     bl_verify_all = (\<lambda>_ f. case f ''a'' of Some k \<Rightarrow> if bk_octets k = [1] then None else Some ''bad'' | None \<Rightarrow> Some ''none''),
     bl_begin_payload = (\<lambda>_ _. Inr [()]), bl_finish = (\<lambda>_ _. None), bl_sign = (\<lambda>_ d _ _. Inr d), bl_parse_eid = Some\<rparr>"

lemma strict_policy_enforced_witness:
  "print_deliver demo_lib Strict (add_key ''*'' [1] []) [0, 65] \<noteq> []
    \<and> (\<exists>parsed. bl_parse demo_lib [0, 65] = Inr parsed \<and> bl_verify_all demo_lib parsed (key_of (add_key ''*'' [1] [])) = None)"
proof -
  have "verify_bundle demo_lib [0, 65] (add_key ''*'' [1] []) = Valid"
    by (simp add: verify_bundle_def demo_lib_def add_key_def missing_key_def find_keys_def matches_eid_pattern_def)
  then have p: "print_deliver demo_lib Strict (add_key ''*'' [1] []) [0, 65] \<noteq> []"
    by (simp add: print_deliver_def policy_strict case_prod_beta)
  from strict_policy_enforced [OF disjI1 [OF p]] p show ?thesis by blast
qed

section \<open>Nested bundles\<close>

text \<open>What the library documents of payloads: they are a proper part of the bundle.\<close>

definition payloads_shorter :: "('b, 'v) bpv7_lib \<Rightarrow> bool" where
  "payloads_shorter lib \<longleftrightarrow>
     (\<forall>d b p. bl_parse lib d = Inr b \<longrightarrow> bl_payload lib b = Some p \<longrightarrow> length p < length d)"

text \<open>A bundle that is built has the payload it is built with, and a signed bundle that of the unsigned one.\<close>

definition builder_ok :: "('b, 'v) bpv7_lib \<Rightarrow> bool" where
  "builder_ok lib \<longleftrightarrow>
     (\<forall>s t p l b d. bl_build lib s t p l = Inr (b, d) \<longrightarrow> (\<exists>b'. bl_parse lib d = Inr b' \<and> bl_payload lib b' = Some p))
     \<and> (\<forall>b d s k d'. bl_parse lib d = Inr b \<longrightarrow> bl_sign lib b d s k = Inr d'
            \<longrightarrow> (\<exists>b'. bl_parse lib d' = Inr b' \<and> bl_payload lib b' = bl_payload lib b))"

lemma depth_loop_returns:
  assumes "payloads_shorter lib"
  shows "\<exists>n. \<forall>m. depth_loop lib data m = Some (m + n)"
proof (induction "length data" arbitrary: data rule: less_induct)
  case less
  show ?case
  proof (cases "bl_parse lib data")
    case (Inl e)
    then show ?thesis by (intro exI [of _ 0]) (simp add: depth_loop.simps [of lib data])
  next
    case (Inr b)
    show ?thesis
    proof (cases "bl_payload lib b")
      case None
      then show ?thesis using Inr by (intro exI [of _ 1]) (simp add: depth_loop.simps [of lib data])
    next
      case (Some p)
      then have "length p < length data" using assms Inr unfolding payloads_shorter_def by blast
      from less [OF this] obtain n where n: "\<forall>m. depth_loop lib p m = Some (m + n)" by blast
      then show ?thesis using Inr Some by (intro exI [of _ "Suc n"]) (simp add: depth_loop.simps [of lib data])
    qed
  qed
qed

lemma depth_of_payload:
  assumes "payloads_shorter lib" and "bl_parse lib d = Inr b" and "bl_payload lib b = Some p"
  shows "get_bundle_depth lib d = map_option Suc (get_bundle_depth lib p)"
proof -
  obtain n where "\<forall>m. depth_loop lib p m = Some (m + n)" using depth_loop_returns [OF assms(1)] by blast
  then show ?thesis using assms(2,3) by (simp add: get_bundle_depth_def depth_loop.simps [of lib d])
qed

lemma maybe_sign_payload:
  assumes "builder_ok lib" and "bl_parse lib d = Inr b0" and "bl_payload lib b0 = Some p"
    and "maybe_sign_bundle lib klib b d key key_file src = Inr (b', d')"
  shows "\<exists>b''. bl_parse lib d' = Inr b'' \<and> bl_payload lib b'' = Some p"
proof -
  have sign: "\<exists>b''. bl_parse lib d' = Inr b'' \<and> bl_payload lib b'' = Some p"
    if signed: "sign_bundle lib d mat s = Inr (b', d')" for mat s
  proof -
    obtain sb where "bl_sign lib b0 d (or_default (bl_source lib b0) s)
        \<lparr>bk_octets = mat, bk_algorithm = Some HS256, bk_operations = Some {Op_Sign}\<rparr> = Inr sb" and "d' = sb"
      using signed assms(2) by (auto simp: sign_bundle_def Let_def split: sum.splits)
    then show ?thesis using assms(1-3) unfolding builder_ok_def by metis
  qed
  show ?thesis using assms(2-4) by (auto simp: maybe_sign_bundle_def intro: sign split: if_splits sum.splits option.splits)
qed

text \<open>The forwarder returns, and its depth limit bounds nested bundles.  If payloads are proper parts of
  their bundles, measuring the depth ends for every input, so a delivery always returns; and when bundles
  are wrapped as they are, every bundle sent, signed or not, is nested exactly one level deeper than
  the one received and not deeper than a limit that is set.
\<close>

theorem forward_depth_bounded:
  assumes "payloads_shorter lib" and "builder_ok lib"
  shows "\<exists>effects. forward_deliver lib klib emit hash fs policy store now data = Some effects
    \<and> (\<forall>out. fs_raw fs \<and> Dispatch out \<in> set effects
         \<longrightarrow> (\<exists>d. get_bundle_depth lib data = Some d \<and> get_bundle_depth lib out = Some (Suc d)
               \<and> (0 < fs_max_depth fs \<longrightarrow> Suc d \<le> unat (fs_max_depth fs))))"
proof -
  obtain d where d: "get_bundle_depth lib data = Some d"
    using depth_loop_returns [OF assms(1), of data] unfolding get_bundle_depth_def by auto
  then have "\<exists>effects. forward_deliver lib klib emit hash fs policy store now data = Some effects"
    by (simp add: forward_deliver_def Let_def)
  then obtain effects where effects: "forward_deliver lib klib emit hash fs policy store now data = Some effects" ..
  have "get_bundle_depth lib out = Some (Suc d) \<and> (0 < fs_max_depth fs \<longrightarrow> Suc d \<le> unat (fs_max_depth fs))"
    if raw: "fs_raw fs" and out: "Dispatch out \<in> set effects" for out
  proof -
    from effects out raw d obtain b0 d0 b1
      where limit: "0 < fs_max_depth fs \<Longrightarrow> d < unat (fs_max_depth fs)"
        and build: "bl_build lib (fs_sender_eid fs) (fs_target_destination fs) data (outer_lifetime lib fs now data) = Inr (b0, d0)"
        and sign: "maybe_sign_bundle lib klib b0 d0 (fs_sign_key fs) (fs_sign_key_file fs) (fs_security_source fs) = Inr (b1, out)"
      by (auto simp: forward_deliver_def Let_def split: if_splits sum.splits)
    obtain b' where "bl_parse lib d0 = Inr b'" "bl_payload lib b' = Some data"
      using build assms(2) unfolding builder_ok_def by metis
    from maybe_sign_payload [OF assms(2) this sign] obtain b'' where "bl_parse lib out = Inr b''" "bl_payload lib b'' = Some data"
      by blast
    from depth_of_payload [OF assms(1) this] show ?thesis using d limit by auto
  qed
  then show ?thesis using effects d by blast
qed

text \<open>
  A bundle wrapped in the standard record has depth one whatever it carries, if the record itself is not
  a bundle: the limit only works for bundles wrapped as they are.
\<close>

lemma record_hides_depth:
  assumes "bl_parse lib out = Inr b" and "bl_payload lib b = Some (emit (bibe_pdu hash data))" and "bl_parse lib (emit (bibe_pdu hash data)) = Inl e"
  shows "get_bundle_depth lib out = Some 1"
  using assms by (simp add: get_bundle_depth_def depth_loop.simps)

lemma demo_lib_laws: "payloads_shorter demo_lib" "builder_ok demo_lib"
  by (auto simp: payloads_shorter_def builder_ok_def demo_lib_def split: list.splits)

definition no_keys :: key_lib where
  "no_keys = \<lparr>kl_base64 = (\<lambda>_. None), kl_base64_url = (\<lambda>_. None), kl_hex = (\<lambda>_. None), kl_read = (\<lambda>_. None),
     kl_toml = (\<lambda>_. None), kl_default_path = None\<rparr>"

lemma forward_depth_bounded_witness:
  "\<exists>effects. forward_deliver demo_lib no_keys (\<lambda>_. []) (\<lambda>_. 0)
      \<lparr>fs_target_destination = ''t'', fs_sender_eid = ''s'', fs_lifetime = None, fs_lifetime_default = 60, fs_max_depth = 1,
       fs_sign_key = None, fs_sign_key_file = None, fs_security_source = None, fs_raw = True, fs_has_sink = True\<rparr>
      Ignore [] 0 [] = Some effects"
  using forward_depth_bounded [OF demo_lib_laws] by blast

end
