(* ===== verification/Key_Formats.thy ===== *)
theory Key_Formats
  imports Security_Safety
begin

text \<open>
  A key may be given as hexadecimal digits, with and without a prefix, or as a PEM file: all are read as
  the same octets.
\<close>

section \<open>ASCII texts\<close>

lemma unat_of_char [simp]: "unat (of_char c :: u8) = of_char c"
proof -
  have "(of_char c :: u8) = of_nat (of_char c)" by (simp add: of_nat_of_char)
  then show ?thesis by (simp add: unat_of_nat)
qed

definition ascii :: "string \<Rightarrow> bool" where
  "ascii s \<longleftrightarrow> list_all (\<lambda>c. of_char c < (128 :: nat)) s"

lemma utf8_valid_bytes_of: "ascii s \<Longrightarrow> utf8_valid (bytes_of s)"
proof (induction s)
  case Nil
  then show ?case by (simp add: bytes_of_def utf8_valid.simps)
next
  case (Cons c s)
  then have "(of_char c :: u8) < 0x80" by (simp add: ascii_def word_less_nat_alt)
  then show ?case using Cons by (simp add: bytes_of_def utf8_valid_ascii ascii_def)
qed

lemma lossy_bytes_of: "ascii s \<Longrightarrow> utf8_lossy_text (bytes_of s) = s"
  by (simp add: utf8_lossy_valid utf8_valid_bytes_of)

lemma contains_set: "contains s p \<Longrightarrow> set p \<subseteq> set s"
proof (induction s)
  case Nil
  then show ?case by (simp add: contains.simps)
next
  case (Cons x s)
  then show ?case using set_mono_prefix [of p "x # s"] by (auto simp: contains.simps [of "x # s"])
qed

lemma contains_prefix: "prefix p s \<Longrightarrow> contains s p"
  by (simp add: contains.simps [of s])

section \<open>Hexadecimal digits\<close>

definition hex_text :: "bytes \<Rightarrow> string" where
  "hex_text k = concat (map (\<lambda>b. hex_padded 2 (unat b)) k)"

lemma hex_text_Cons: "hex_text (b # k) = hex_digit (unat b div 16) # hex_digit (unat b mod 16) # hex_text k"
  by (simp add: hex_text_def hex_octet octet_less)

lemma hex_digit_char: "n < 16 \<Longrightarrow> is_ascii_hexdigit (hex_digit n)"
  by (simp add: is_ascii_hexdigit_def of_hex_digit)

lemma hex_text_chars: "c \<in> set (hex_text k) \<Longrightarrow> is_ascii_hexdigit c"
proof (induction k)
  case (Cons b k)
  have "unat b div 16 < 16" using octet_less [of b] by (simp add: div_less_iff_less_mult)
  then show ?case using Cons by (auto simp: hex_text_Cons hex_digit_char)
qed (simp add: hex_text_def)

lemma length_hex_text: "length (hex_text k) = 2 * length k"
  by (induction k) (simp_all add: hex_text_Cons, simp add: hex_text_def)

lemma hexdigit_code:
  assumes "is_ascii_hexdigit c"
  shows "of_char c < (128 :: nat)" and "\<not> is_space c" and "c \<noteq> CHR ''-''" and "c \<noteq> CHR ''x''" and "c \<noteq> CHR ''X''"
proof -
  have n: "48 \<le> (of_char c :: nat) \<and> (of_char c :: nat) \<le> 57 \<or> 65 \<le> (of_char c :: nat) \<and> (of_char c :: nat) \<le> 70
      \<or> 97 \<le> (of_char c :: nat) \<and> (of_char c :: nat) \<le> 102"
    using assms by (simp add: is_ascii_hexdigit_def Let_def)
  then show "of_char c < (128 :: nat)" and "\<not> is_space c" by (auto simp: is_space_code)
  show "c \<noteq> CHR ''-''" "c \<noteq> CHR ''x''" "c \<noteq> CHR ''X''" using assms by (auto simp: is_ascii_hexdigit_def Let_def)
qed

lemma hex_text_facts:
  assumes "k \<noteq> []"
  shows "hex_text k \<noteq> []" and "ascii (hex_text k)" and "\<not> is_space (hd (hex_text k))" and "\<not> is_space (List.last (hex_text k))"
    and "CHR ''-'' \<notin> set (hex_text k)" and "CHR ''x'' \<notin> set (hex_text k)" and "CHR ''X'' \<notin> set (hex_text k)"
    and "list_all is_ascii_hexdigit (hex_text k)"
proof -
  show ne: "hex_text k \<noteq> []" using assms length_hex_text [of k] by auto
  show "ascii (hex_text k)" unfolding ascii_def list_all_iff using hex_text_chars hexdigit_code(1) by blast
  show "\<not> is_space (hd (hex_text k))" by (rule hexdigit_code(2) [OF hex_text_chars [OF hd_in_set [OF ne]]])
  show "\<not> is_space (List.last (hex_text k))" by (rule hexdigit_code(2) [OF hex_text_chars [OF last_in_set [OF ne]]])
  show "CHR ''-'' \<notin> set (hex_text k)" "CHR ''x'' \<notin> set (hex_text k)" "CHR ''X'' \<notin> set (hex_text k)"
    using hex_text_chars hexdigit_code(3-5) by blast+
  show "list_all is_ascii_hexdigit (hex_text k)" using hex_text_chars by (auto simp: list_all_iff)
qed

lemma no_pem: "CHR ''-'' \<notin> set s \<Longrightarrow> \<not> contains s PEM_BEGIN"
  using contains_set [of s PEM_BEGIN] by (auto simp: PEM_BEGIN_def)

lemma parse_hex:
  assumes "k \<noteq> []" and "kl_hex lib (hex_text k) = Some k"
  shows "parse_key_data lib (bytes_of (hex_text k)) f = Inr k"
    and "parse_key_data lib (bytes_of (''0x'' @ hex_text k)) f = Inr k"
proof -
  note h = hex_text_facts [OF assms(1)]
  have none: "strip_prefix ''0x'' (hex_text k) = None" "strip_prefix ''0X'' (hex_text k) = None"
    using h(6,7) set_mono_prefix [of "''0x''" "hex_text k"] set_mono_prefix [of "''0X''" "hex_text k"]
    by (auto simp: strip_prefix_def)
  have "trim (hex_text k) = hex_text k" by (rule trim_clean [OF h(1,3,4)])
  then show "parse_key_data lib (bytes_of (hex_text k)) f = Inr k"
    using none assms(2) h(1,8) no_pem [OF h(5)]
    by (simp add: parse_key_data_def parse_hex_or_raw_def lossy_bytes_of [OF h(2)] length_hex_text)
  have asc: "ascii (''0x'' @ hex_text k)" using h(2) by (simp add: ascii_def)
  have "trim (''0x'' @ hex_text k) = ''0x'' @ hex_text k"
    by (rule trim_clean) (use h in \<open>simp_all add: is_space_def\<close>)
  moreover have "\<not> contains (''0x'' @ hex_text k) PEM_BEGIN" by (rule no_pem) (use h(5) in simp)
  ultimately show "parse_key_data lib (bytes_of (''0x'' @ hex_text k)) f = Inr k"
    using assms(2) unfolding parse_key_data_def lossy_bytes_of [OF asc]
    by (simp add: parse_hex_or_raw_def strip_prefix_def)
qed

section \<open>PEM\<close>

definition pem_text :: "string \<Rightarrow> string list \<Rightarrow> string" where
  "pem_text label ls =
     join CHR 0x0A ((''-----BEGIN '' @ label @ ''-----'') # ls @ [''-----END '' @ label @ ''-----''])"

text \<open>A line of the body: not empty, ASCII, without whitespace, not beginning with the dashes.\<close>

definition body_line :: "string \<Rightarrow> bool" where
  "body_line l \<longleftrightarrow> l \<noteq> [] \<and> ascii l \<and> list_all (\<lambda>c. \<not> is_space c) l \<and> \<not> prefix PEM_DASHES l"

definition label_ok :: "string \<Rightarrow> bool" where
  "label_ok s \<longleftrightarrow> ascii s \<and> CHR 0x0A \<notin> set s \<and> CHR 0x0D \<notin> set s"

lemma set_join: "set (join c ps) \<subseteq> insert c (\<Union>p\<in>set ps. set p)"
  by (induction c ps rule: join.induct) auto

lemma prefix_join: "prefix p q \<Longrightarrow> prefix p (join c (q # qs))"
  by (cases qs) (auto simp: prefix_def)

lemma last_join: "q \<noteq> [] \<Longrightarrow> List.last (join c (ps @ [q])) = List.last q"
proof (induction ps)
  case (Cons p ps)
  have "join c (p # ps @ [q]) = p @ c # join c (ps @ [q])" by (cases "ps @ [q]") simp_all
  moreover have "join c (ps @ [q]) \<noteq> []" using Cons.prems by (cases ps; cases "tl ps") auto
  ultimately show ?case using Cons by simp
qed simp

lemma pem_lines:
  assumes "label_ok label" and "list_all body_line ls" and "t = pem_text label ls"
  shows "lines_of t = (''-----BEGIN '' @ label @ ''-----'') # ls @ [''-----END '' @ label @ ''-----'']"
proof -
  define b where "b = ''-----BEGIN '' @ label @ ''-----''"
  define e where "e = ''-----END '' @ label @ ''-----''"
  have eol: "CHR 0x0A \<notin> set b" "CHR 0x0A \<notin> set e" "CHR 0x0D \<notin> set b" "e \<noteq> []"
    using assms(1) by (auto simp: b_def e_def label_ok_def)
  have body: "CHR 0x0A \<notin> set l \<and> CHR 0x0D \<notin> set l" if "l \<in> set ls" for l
    using assms(2) that by (auto simp: list_all_iff body_line_def is_space_def)
  have "split_on CHR 0x0A t = b # ls @ [e]"
    unfolding assms(3) pem_text_def b_def [symmetric] e_def [symmetric]
    by (rule split_on_join) (use eol body in auto)
  moreover have keep: "(case strip_suffix [CHR 0x0D] l of Some l \<Rightarrow> l | None \<Rightarrow> l) = l" if "CHR 0x0D \<notin> set l" for l
    using that by (auto simp: strip_suffix_def suffix_def split: option.split)
  have "map (\<lambda>l. case strip_suffix [CHR 0x0D] l of Some l \<Rightarrow> l | None \<Rightarrow> l) (b # ls) = b # ls"
    using keep eol(3) body by (simp add: map_idI)
  ultimately show ?thesis using eol(4) by (simp add: lines_of_def b_def e_def butlast_append)
qed

lemma pem_body_text:
  assumes "label_ok label" and "list_all body_line ls" and "t = pem_text label ls"
  shows "pem_body t = concat ls"
proof -
  have "filter (\<lambda>l. \<not> prefix PEM_DASHES l) (lines_of t) = ls"
    using assms(2) unfolding pem_lines [OF assms]
    by (auto simp: PEM_DASHES_def list_all_iff body_line_def filter_id_conv)
  moreover have "c \<notin> set [CHR 0x0D, CHR 0x0A, CHR '' '']" if "c \<in> set (concat ls)" for c
    using assms(2) that by (auto simp: list_all_iff body_line_def is_space_def)
  ultimately show ?thesis by (simp add: pem_body_def filter_id_conv)
qed

lemma parse_pem:
  assumes "label_ok label" and "list_all body_line ls" and "kl_base64 lib (concat ls) = Some k"
  shows "parse_key_data lib (bytes_of (pem_text label ls @ [CHR 0x0A])) f = Inr k"
proof -
  define t where "t = pem_text label ls"
  define b where "b = ''-----BEGIN '' @ label @ ''-----''"
  define e where "e = ''-----END '' @ label @ ''-----''"
  have t: "t = join CHR 0x0A ((b # ls) @ [e])" by (simp add: t_def pem_text_def b_def e_def)
  have starts: "prefix PEM_BEGIN b" by (simp add: PEM_BEGIN_def b_def)
  have pre: "prefix PEM_BEGIN t" unfolding t append_Cons by (rule prefix_join [OF starts])
  then have ne: "t \<noteq> []" and hd: "hd t = CHR ''-''" by (auto simp: PEM_BEGIN_def elim!: prefixE)
  have last: "List.last t = CHR ''-''" unfolding t by (subst last_join) (simp_all add: e_def)
  have trim: "trim (t @ [CHR 0x0A]) = t"
    using trim_pad [of "[]" "[CHR 0x0A]" t] ne by (simp add: hd last is_space_def)
  have "ascii t"
  proof -
    have "ascii b" "ascii e" "\<forall>l\<in>set ls. ascii l"
      using assms(1,2) by (auto simp: ascii_def b_def e_def label_ok_def list_all_iff body_line_def)
    moreover have "set t \<subseteq> insert (CHR 0x0A) (\<Union>p\<in>set ((b # ls) @ [e]). set p)" unfolding t by (rule set_join)
    ultimately show ?thesis by (auto simp: ascii_def list_all_iff)
  qed
  then have "ascii (t @ [CHR 0x0A])" by (simp add: ascii_def)
  then show ?thesis
    using contains_prefix [OF pre] pem_body_text [OF assms(1,2) t_def] assms(3)
    by (simp add: parse_key_data_def lossy_bytes_of trim base64_decode_def t_def [symmetric])
qed

text \<open>A key is the same in every form it may be given in.  For a non-empty key, its hexadecimal digits
  given inline, the digits behind \<^verbatim>\<open>0x\<close>, a file with either, and a PEM file whose body, over any lines,
  is a base64 form of the key, are all loaded as the octets of the key; giving both a key and a file,
  or none, is an error.
\<close>

theorem key_formats_agree:
  assumes "k \<noteq> []" and "kl_hex lib (hex_text k) = Some k"
    and "label_ok label" and "list_all body_line ls" and "kl_base64 lib (concat ls) = Some k"
    and "kl_read lib path \<in> {Some (bytes_of (hex_text k)), Some (bytes_of (''0x'' @ hex_text k)),
           Some (bytes_of (pem_text label ls @ [CHR 0x0A]))}"
  shows "load_key lib (Some (hex_text k)) None = Inr k
    \<and> load_key lib (Some (''0x'' @ hex_text k)) None = Inr k
    \<and> load_key lib (Some (pem_text label ls @ [CHR 0x0A])) None = Inr k
    \<and> load_key lib None (Some path) = Inr k
    \<and> load_key lib (Some s) (Some path) = Inl Both_Given
    \<and> load_key lib None None = Inl None_Given"
  using parse_hex [OF assms(1,2)] parse_pem [OF assms(3-5)] assms(6) by (auto simp: load_key_def)

definition demo_keys :: key_lib where
  "demo_keys = \<lparr>kl_base64 = (\<lambda>_. Some [1]), kl_base64_url = (\<lambda>_. None), kl_hex = (\<lambda>_. Some [1]),
     kl_read = (\<lambda>_. Some (bytes_of (pem_text ''K'' [''AQ==''] @ [CHR 0x0A]))), kl_toml = (\<lambda>_. None), kl_default_path = None\<rparr>"

lemma key_formats_agree_witness: "load_key demo_keys None (Some ''f'') = Inr [1]"
proof -
  have "label_ok ''K''" "list_all body_line [''AQ=='']"
    by (simp_all add: label_ok_def ascii_def body_line_def is_space_def PEM_DASHES_def)
  from key_formats_agree [OF _ _ this, of "[1]" demo_keys "''f''"] show ?thesis by (simp add: demo_keys_def)
qed

end
