(* ===== verification/Ping.thy ===== *)
theory Ping
  imports Security_Safety
begin

text \<open>
  The ping program (\<^verbatim>\<open>src/bin/dtnping.rs\<close>): the payload of a ping, durations on the command line, and
  the account of what was sent and answered.  Instants and durations are in nanoseconds; hash maps are
  maps.  What is printed is an effect; the summary's floating point figures are left out.
\<close>

section \<open>Durations\<close>

text \<open>\<open>None\<close> where the product overflows, \<open>Some None\<close> where the text is not a duration.\<close>

definition secs_times :: "nat \<Rightarrow> string \<Rightarrow> nat option option" where
  "secs_times k s =
     (case parse_unsigned (2 ^ 64) s of
        None \<Rightarrow> Some None
      | Some val \<Rightarrow> if val * k < 2 ^ 64 then Some (Some (val * k * NANOS)) else None)"

definition parse_duration :: "string \<Rightarrow> nat option option" where
  "parse_duration s =
     (let s = trim s
      in case strip_suffix ''ms'' s of
           Some stripped \<Rightarrow> Some (map_option (\<lambda>val. val * 1000000) (parse_unsigned (2 ^ 64) stripped))
         | None \<Rightarrow>
             (case strip_suffix ''s'' s of
                Some stripped \<Rightarrow> secs_times 1 stripped
              | None \<Rightarrow>
                  (case strip_suffix ''m'' s of
                     Some stripped \<Rightarrow> secs_times 60 stripped
                   | None \<Rightarrow>
                       (case strip_suffix ''h'' s of
                          Some stripped \<Rightarrow> secs_times 3600 stripped
                        | None \<Rightarrow> secs_times 1 s))))"

section \<open>The payload\<close>

text \<open>\<^verbatim>\<open>to_be_bytes\<close> and \<^verbatim>\<open>from_be_bytes\<close>.\<close>

definition u16_be :: "u16 \<Rightarrow> bytes" where
  "u16_be x = [ucast (drop_bit 8 x), ucast x]"

definition u32_be :: "u32 \<Rightarrow> bytes" where
  "u32_be x = [ucast (drop_bit 24 x), ucast (drop_bit 16 x), ucast (drop_bit 8 x), ucast x]"

definition u16_of_be :: "u8 \<Rightarrow> u8 \<Rightarrow> u16" where
  "u16_of_be a b = push_bit 8 (ucast a) OR ucast b"

definition u32_of_be :: "u8 \<Rightarrow> u8 \<Rightarrow> u8 \<Rightarrow> u8 \<Rightarrow> u32" where
  "u32_of_be a b c d = push_bit 24 (ucast a) OR push_bit 16 (ucast b) OR push_bit 8 (ucast c) OR ucast d"

definition encode_ping_payload :: "u32 \<Rightarrow> u64 \<Rightarrow> bytes" where
  "encode_ping_payload seq_no padding_len =
     [0x82]
     @ (if seq_no < 24 then [ucast seq_no]
        else if seq_no < 256 then [0x18, ucast seq_no]
        else if seq_no < 65536 then 0x19 # u16_be (ucast seq_no)
        else 0x1a # u32_be seq_no)
     @ (if 0 < padding_len
        then [0xa1, 0x00]
             @ (if padding_len < 24 then [0x40 + ucast padding_len]
                else if padding_len < 256 then [0x58, ucast padding_len]
                else if padding_len < 65536 then 0x59 # u16_be (ucast padding_len)
                else 0x5a # u32_be (ucast padding_len))
             @ replicate (unat padding_len) 0
        else [0xa0])"

definition decode_ping_payload :: "bytes \<Rightarrow> u32 option" where
  "decode_ping_payload payload =
     (if length payload < 2 \<or> payload ! 0 \<noteq> 0x82 then None
      else let b = payload ! 1
           in if b < 24 then Some (ucast b)
              else if b = 0x18 then (if length payload < 3 then None else Some (ucast (payload ! 2)))
              else if b = 0x19
              then (if length payload < 4 then None else Some (ucast (u16_of_be (payload ! 2) (payload ! 3))))
              else if b = 0x1a
              then (if length payload < 6 then None
                    else Some (u32_of_be (payload ! 2) (payload ! 3) (payload ! 4) (payload ! 5)))
              else None)"

text \<open>The padding for a wanted size of the bundle.\<close>

definition ping_padding :: "u64 option \<Rightarrow> string \<Rightarrow> string \<Rightarrow> u64" where
  "ping_padding wanted local_eid destination =
     (case wanted of
        Some n \<Rightarrow> sat_sub n (50 + vec_len local_eid + vec_len destination)
      | None \<Rightarrow> 0)"

text \<open>The lifetime of the pings in seconds, from the options and durations.\<close>

definition ping_lifetime :: "u64 option \<Rightarrow> u32 option \<Rightarrow> u64 \<Rightarrow> u64 \<Rightarrow> u64 option \<Rightarrow> u64 option" where
  "ping_lifetime lifetime count interval_secs wait_secs timeout_secs =
     (case lifetime of
        Some lt \<Rightarrow> Some lt
      | None \<Rightarrow>
          (case count of
             Some c \<Rightarrow> map_option (max 30) (checked_add (sat_mul interval_secs (ucast c)) wait_secs)
           | None \<Rightarrow> Some (max 30 (or_default 300 timeout_secs))))"

section \<open>The account\<close>

datatype status_kind = Received | Forwarded | Delivered | Deleted

record path_hop =
  ph_node :: string
  ph_elapsed :: nat
  ph_kind :: status_kind

record 'i ping_state =
  ps_sent :: nat
  ps_received :: nat
  ps_min_rtt :: "nat option"
  ps_max_rtt :: "nat option"
  ps_sum_rtt :: nat
  ps_sum_rtt_squared_us :: nat
  ps_sent_times :: "u32 \<rightharpoonup> nat"
  ps_replied :: "u32 set"
  ps_path_hops :: "u32 \<rightharpoonup> path_hop list"
  ps_bundle_ids :: "'i \<rightharpoonup> u32"
  ps_permits :: nat

definition ping_state_new :: "'i ping_state" where
  "ping_state_new = \<lparr>ps_sent = 0, ps_received = 0, ps_min_rtt = None, ps_max_rtt = None, ps_sum_rtt = 0,
     ps_sum_rtt_squared_us = 0, ps_sent_times = Map.empty, ps_replied = {}, ps_path_hops = Map.empty,
     ps_bundle_ids = Map.empty, ps_permits = 0\<rparr>"

record ping_app =
  pa_quiet :: bool
  pa_destination :: string
  pa_local_node_id :: "string option"
  pa_keystore :: keystore
  pa_policy :: verify_policy

datatype ping_output = Reply string u32 nat | Path "path_hop list" | Notify u32 status_kind bool string nat

text \<open>A ping that was handed to the agent, with the identifier its bundle got.\<close>

definition ping_sent :: "u32 \<Rightarrow> nat \<Rightarrow> 'i \<Rightarrow> 'i ping_state \<Rightarrow> 'i ping_state" where
  "ping_sent seq send_time bundle_id s =
     s\<lparr>ps_sent := ps_sent s + 1, ps_sent_times := (ps_sent_times s)(seq \<mapsto> send_time),
       ps_bundle_ids := (ps_bundle_ids s)(bundle_id \<mapsto> seq)\<rparr>"

definition print_path :: "bool \<Rightarrow> u32 \<Rightarrow> 'i ping_state \<Rightarrow> 'i ping_state \<times> ping_output list" where
  "print_path quiet seq_no s =
     (let hops = or_default [] (ps_path_hops s seq_no);
          s = s\<lparr>ps_path_hops := (ps_path_hops s)(seq_no := None)\<rparr>
      in (s, if hops = [] \<or> quiet then [] else [Path (sort_key ph_elapsed hops)]))"

definition record_reply :: "u32 \<Rightarrow> nat \<Rightarrow> 'i ping_state \<Rightarrow> 'i ping_state" where
  "record_reply seq_no rtt s =
     (let rtt_us = rtt div 1000
      in s\<lparr>ps_received := ps_received s + 1, ps_replied := insert seq_no (ps_replied s),
           ps_sum_rtt := ps_sum_rtt s + rtt,
           ps_sum_rtt_squared_us := ps_sum_rtt_squared_us s + rtt_us * rtt_us,
           ps_min_rtt := Some (case ps_min_rtt s of None \<Rightarrow> rtt | Some m \<Rightarrow> min m rtt),
           ps_max_rtt := Some (case ps_max_rtt s of None \<Rightarrow> rtt | Some m \<Rightarrow> max m rtt)\<rparr>)"

definition ping_deliver ::
  "('b, 'v) bpv7_lib \<Rightarrow> ping_app \<Rightarrow> nat \<Rightarrow> bytes \<Rightarrow> 'i ping_state \<Rightarrow> 'i ping_state \<times> ping_output list" where
  "ping_deliver lib app receive_time data s =
     (let (source, payload) = source_and_payload lib data
      in if \<not> policy_accepts lib (pa_policy app) (pa_keystore app) data then (s, [])
         else if source \<noteq> pa_destination app then (s, [])
         else (case decode_ping_payload payload of
                 None \<Rightarrow> (s, [])
               | Some seq_no \<Rightarrow>
                   (case ps_sent_times s seq_no of
                      None \<Rightarrow> (s, [])
                    | Some sent_time \<Rightarrow>
                        let s = s\<lparr>ps_sent_times := (ps_sent_times s)(seq_no := None)\<rparr>;
                            rtt = receive_time - sent_time;
                            s = record_reply seq_no rtt s;
                            (s, path) = print_path (pa_quiet app) seq_no s
                        in (s\<lparr>ps_permits := ps_permits s + 1\<rparr>,
                            (if pa_quiet app then [] else [Reply source seq_no rtt]) @ path))))"

text \<open>\<open>reason\<close> is the text of a reason that is worth mentioning, empty otherwise.\<close>

definition ping_status_notify ::
  "ping_app \<Rightarrow> nat \<Rightarrow> 'i \<Rightarrow> string \<Rightarrow> status_kind \<Rightarrow> string \<Rightarrow> 'i ping_state \<Rightarrow> 'i ping_state \<times> ping_output list" where
  "ping_status_notify app now bundle_id node kind reason s =
     (case ps_bundle_ids s bundle_id of
        None \<Rightarrow> (s, [])
      | Some seq_no \<Rightarrow>
          (case ps_sent_times s seq_no of
             None \<Rightarrow> (s, [])
           | Some sent_time \<Rightarrow>
               let elapsed = now - sent_time;
                   s = (if kind = Deleted then s\<lparr>ps_permits := ps_permits s + 1\<rparr> else s);
                   local_id = or_default [] (pa_local_node_id app);
                   remote = (node \<noteq> local_id);
                   s = (if remote
                        then s\<lparr>ps_path_hops := (ps_path_hops s)(seq_no \<mapsto>
                                 or_default [] (ps_path_hops s seq_no) @ [\<lparr>ph_node = node, ph_elapsed = elapsed, ph_kind = kind\<rparr>])\<rparr>
                        else s)
               in (s, if pa_quiet app then [] else [Notify seq_no kind remote reason elapsed])))"

section \<open>The session\<close>

text \<open>
  The loop sends the next number at each tick, as long as there are numbers left; the agent takes the
  bundle and gives its identifier, or not.
\<close>

datatype 'i ping_event =
    Tick "('i \<times> nat) option"
  | Deliver nat bytes
  | Status nat 'i string status_kind string

definition ping_tick :: "u32 \<Rightarrow> ('i \<times> nat) option \<Rightarrow> u32 \<times> 'i ping_state \<Rightarrow> u32 \<times> 'i ping_state" where
  "ping_tick count result w =
     (case w of (seq, s) \<Rightarrow>
        if count \<le> seq then (seq, s)
        else (seq + 1, case result of Some (bundle_id, send_time) \<Rightarrow> ping_sent seq send_time bundle_id s | None \<Rightarrow> s))"

fun ping_step :: "('b, 'v) bpv7_lib \<Rightarrow> ping_app \<Rightarrow> u32 \<Rightarrow> 'i ping_event \<Rightarrow> u32 \<times> 'i ping_state \<Rightarrow> u32 \<times> 'i ping_state" where
  "ping_step lib app count (Tick result) w = ping_tick count result w"
| "ping_step lib app count (Deliver now data) w = (fst w, fst (ping_deliver lib app now data (snd w)))"
| "ping_step lib app count (Status now i node kind reason) w = (fst w, fst (ping_status_notify app now i node kind reason (snd w)))"

definition all_replied :: "'i ping_state \<Rightarrow> bool" where
  "all_replied s \<longleftrightarrow> ps_sent s \<le> ps_received s"

definition exit_code :: "'i ping_state \<Rightarrow> nat" where
  "exit_code s = (if 0 < ps_received s then 0 else 1)"

section \<open>Round trip of the payload\<close>

lemma u16_be_inverse: "u16_of_be (ucast (drop_bit 8 x)) (ucast x) = x" for x :: u16
  by (rule bit_word_eqI) (auto simp: u16_of_be_def bit_simps)

lemma u32_be_inverse:
  "u32_of_be (ucast (drop_bit 24 x)) (ucast (drop_bit 16 x)) (ucast (drop_bit 8 x)) (ucast x) = x" for x :: u32
proof (rule bit_word_eqI)
  fix n assume "n < LENGTH(32)"
  then have "n < 32" by simp
  then consider "n < 8" | "8 \<le> n" "n < 16" | "16 \<le> n" "n < 24" | "24 \<le> n" "n < 32" by linarith
  then show "bit (u32_of_be (ucast (drop_bit 24 x)) (ucast (drop_bit 16 x)) (ucast (drop_bit 8 x)) (ucast x)) n = bit x n"
    by cases (simp_all add: u32_of_be_def bit_simps less_diff_conv2)
qed

lemma u32_small:
  fixes x :: u32
  assumes "x < 256"
  shows "ucast (ucast x :: u8) = x"
proof -
  have "unat x < 256" using assms by (simp add: word_less_nat_alt)
  then have "unat (ucast (ucast x :: u8) :: u32) = unat x" by (simp add: unsigned_ucast_eq take_bit_eq_mod unat_mod)
  then show ?thesis by (rule unsigned_word_eqI)
qed

lemma u32_medium:
  fixes x :: u32
  assumes "x < 65536"
  shows "ucast (ucast x :: u16) = x"
proof -
  have "unat x < 65536" using assms by (simp add: word_less_nat_alt)
  then have "unat (ucast (ucast x :: u16) :: u32) = unat x" by (simp add: unsigned_ucast_eq take_bit_eq_mod unat_mod)
  then show ?thesis by (rule unsigned_word_eqI)
qed

text \<open>The header of the number in front of what follows.\<close>

definition seq_head :: "u32 \<Rightarrow> bytes" where
  "seq_head seq_no =
     (if seq_no < 24 then [ucast seq_no]
      else if seq_no < 256 then [0x18, ucast seq_no]
      else if seq_no < 65536 then 0x19 # u16_be (ucast seq_no)
      else 0x1a # u32_be seq_no)"

lemma decode_seq_head: "decode_ping_payload (0x82 # seq_head n @ rest) = Some n"
proof -
  consider "n < 24" | "\<not> n < 24" "n < 256" | "\<not> n < 256" "n < 65536" | "\<not> n < 65536" by blast
  then show ?thesis
  proof cases
    case 1
    then have "(ucast n :: u8) < 24" by (simp add: word_less_nat_alt unsigned_ucast_eq take_bit_eq_mod)
    moreover have "n < 256" using 1 by (rule less_trans) simp
    ultimately show ?thesis using 1 by (simp add: seq_head_def decode_ping_payload_def u32_small)
  next
    case 2
    then show ?thesis by (simp add: seq_head_def decode_ping_payload_def u32_small)
  next
    case 3
    then have "\<not> n < 24" by (auto simp: word_less_nat_alt)
    then show ?thesis using 3 by (simp add: seq_head_def decode_ping_payload_def u16_be_def u16_be_inverse u32_medium)
  next
    case 4
    then have "\<not> n < 24" "\<not> n < 256" by (auto simp: word_less_nat_alt)
    then show ?thesis using 4 by (simp add: seq_head_def decode_ping_payload_def u32_be_def u32_be_inverse)
  qed
qed

text \<open>The answer to a ping names the ping: decoding the payload made for any number and any padding,
  whatever is appended to it, gives the number.\<close>

theorem ping_payload_roundtrip: "decode_ping_payload (encode_ping_payload n padding @ rest) = Some n"
  using decode_seq_head [of n] unfolding seq_head_def [of n, symmetric] encode_ping_payload_def by simp

end
