(* ===== verification/Ping_Safety.thy ===== *)
theory Ping_Safety
  imports Ping
begin

text \<open>The account of the ping program: what is counted are answers to different pings that were sent.\<close>

section \<open>The figures of a list of times\<close>

definition figures :: "nat list \<Rightarrow> 'i ping_state \<Rightarrow> bool" where
  "figures rtts s \<longleftrightarrow> ps_received s = length rtts \<and> ps_sum_rtt s = sum_list rtts
     \<and> ps_sum_rtt_squared_us s = sum_list (map (\<lambda>r. (r div 1000)\<^sup>2) rtts)
     \<and> ps_min_rtt s = (if rtts = [] then None else Some (Min (set rtts)))
     \<and> ps_max_rtt s = (if rtts = [] then None else Some (Max (set rtts)))"

lemma figures_record_reply: "figures rtts s \<Longrightarrow> figures (r # rtts) (record_reply q r s)"
  by (cases rtts) (auto simp: figures_def record_reply_def Let_def power2_eq_square min.commute max.commute Min_insert2 Max_insert2)

definition ping_ok :: "u32 \<Rightarrow> u32 \<times> 'i ping_state \<Rightarrow> bool" where
  "ping_ok count w \<longleftrightarrow> (case w of (seq, s) \<Rightarrow>
     finite (ps_replied s) \<and> finite (dom (ps_sent_times s))
     \<and> ps_replied s \<inter> dom (ps_sent_times s) = {}
     \<and> ps_received s = card (ps_replied s)
     \<and> ps_sent s = card (dom (ps_sent_times s)) + card (ps_replied s)
     \<and> (\<forall>q\<in>ps_replied s \<union> dom (ps_sent_times s). q < seq)
     \<and> dom (ps_path_hops s) \<subseteq> dom (ps_sent_times s)
     \<and> seq \<le> count \<and> (\<exists>rtts. figures rtts s))"

lemma record_reply_simps:
  "ps_sent (record_reply q r s) = ps_sent s"
  "ps_received (record_reply q r s) = ps_received s + 1"
  "ps_replied (record_reply q r s) = insert q (ps_replied s)"
  "ps_sent_times (record_reply q r s) = ps_sent_times s"
  "ps_path_hops (record_reply q r s) = ps_path_hops s"
  "ps_permits (record_reply q r s) = ps_permits s"
  by (simp_all add: record_reply_def Let_def)

lemma ping_okD:
  assumes "ping_ok count (seq, s)"
  shows "finite (ps_replied s)" and "finite (dom (ps_sent_times s))"
    and "ps_replied s \<inter> dom (ps_sent_times s) = {}"
    and "ps_received s = card (ps_replied s)"
    and "ps_sent s = card (dom (ps_sent_times s)) + card (ps_replied s)"
    and "\<forall>q\<in>ps_replied s \<union> dom (ps_sent_times s). q < seq"
    and "dom (ps_path_hops s) \<subseteq> dom (ps_sent_times s)"
    and "seq \<le> count" and "\<exists>rtts. figures rtts s"
proof -
  note ok = assms [unfolded ping_ok_def case_prod_conv]
  show "finite (ps_replied s)" using ok by (elim conjE)
  show "finite (dom (ps_sent_times s))" using ok by (elim conjE)
  show "ps_replied s \<inter> dom (ps_sent_times s) = {}" using ok by (elim conjE)
  show "ps_received s = card (ps_replied s)" using ok by (elim conjE)
  show "ps_sent s = card (dom (ps_sent_times s)) + card (ps_replied s)" using ok by (elim conjE)
  show "\<forall>q\<in>ps_replied s \<union> dom (ps_sent_times s). q < seq" using ok by (elim conjE)
  show "dom (ps_path_hops s) \<subseteq> dom (ps_sent_times s)" using ok by (elim conjE)
  show "seq \<le> count" using ok by (elim conjE)
  show "\<exists>rtts. figures rtts s" using ok by (elim conjE)
qed

lemma ping_okI:
  assumes "finite (ps_replied s)" "finite (dom (ps_sent_times s))"
    "ps_replied s \<inter> dom (ps_sent_times s) = {}"
    "ps_received s = card (ps_replied s)"
    "ps_sent s = card (dom (ps_sent_times s)) + card (ps_replied s)"
    "\<forall>q\<in>ps_replied s \<union> dom (ps_sent_times s). q < seq"
    "dom (ps_path_hops s) \<subseteq> dom (ps_sent_times s)"
    "seq \<le> count" "\<exists>rtts. figures rtts s"
  shows "ping_ok count (seq, s)"
  unfolding ping_ok_def case_prod_conv by (intro conjI assms)

lemma ping_ok_new: "ping_ok count (0, ping_state_new)"
proof -
  have "figures [] ping_state_new" by (simp add: figures_def ping_state_new_def)
  then show ?thesis by (auto simp: ping_ok_def ping_state_new_def)
qed

lemma ping_ok_tick:
  assumes "ping_ok count (seq, s)"
  shows "ping_ok count (ping_tick count result (seq, s))"
proof (cases "count \<le> seq")
  case True
  then show ?thesis using assms by (simp add: ping_tick_def)
next
  case False
  then have less: "seq < count" by simp
  have step: "unat (seq + 1) = Suc (unat seq)"
  proof -
    have "unat seq < unat count" using less by (simp add: word_less_nat_alt)
    moreover have "unat count < 2 ^ LENGTH(32)" by (rule unsigned_less)
    ultimately have "unat seq + unat (1 :: u32) < 2 ^ LENGTH(32)" by simp
    then have "unat (seq + 1) = unat seq + unat (1 :: u32)" by (rule unat_add_lem [THEN iffD1])
    then show ?thesis by simp
  qed
  have lt: "q < seq \<Longrightarrow> q < seq + 1" and self: "seq < seq + 1" and le: "seq + 1 \<le> count" for q
    using less step by (simp_all add: word_less_nat_alt word_le_nat_alt)
  show ?thesis
  proof (cases result)
    case None
    then show ?thesis using assms False lt le by (auto simp: ping_tick_def ping_ok_def)
  next
    case (Some r)
    obtain i t where r: "r = (i, t)" by (metis surj_pair)
    have new: "seq \<notin> ps_replied s \<union> dom (ps_sent_times s)" using assms by (auto simp: ping_ok_def)
    obtain rtts where "figures rtts s" using assms by (auto simp: ping_ok_def)
    then have fig: "\<exists>rtts. figures rtts (ping_sent seq t i s)" by (intro exI [of _ rtts]) (simp add: figures_def ping_sent_def)
    show ?thesis using assms False lt le self new fig Some
      by (auto simp: ping_tick_def ping_ok_def ping_sent_def r card_insert_if)
  qed
qed

lemma ping_deliver_cases:
  "fst (ping_deliver lib app now data s) = s
   \<or> (\<exists>q t. ps_sent_times s q = Some t
        \<and> policy_accepts lib (pa_policy app) (pa_keystore app) data
        \<and> fst (source_and_payload lib data) = pa_destination app
        \<and> decode_ping_payload (snd (source_and_payload lib data)) = Some q
        \<and> fst (ping_deliver lib app now data s) =
            (record_reply q (now - t) (s\<lparr>ps_sent_times := (ps_sent_times s)(q := None)\<rparr>))
              \<lparr>ps_path_hops := (ps_path_hops s)(q := None), ps_permits := ps_permits s + 1\<rparr>)"
proof (cases "policy_accepts lib (pa_policy app) (pa_keystore app) data \<and> fst (source_and_payload lib data) = pa_destination app")
  case True
  show ?thesis
  proof (cases "decode_ping_payload (snd (source_and_payload lib data))")
    case (Some q)
    show ?thesis
    proof (cases "ps_sent_times s q")
      case (Some t)
      then show ?thesis using True \<open>decode_ping_payload _ = Some q\<close>
        by (intro disjI2 exI [of _ q] exI [of _ t]) (simp add: ping_deliver_def print_path_def case_prod_beta Let_def record_reply_simps)
    qed (use True Some in \<open>simp add: ping_deliver_def case_prod_beta\<close>)
  qed (simp add: ping_deliver_def case_prod_beta)
qed (auto simp: ping_deliver_def case_prod_beta)

lemma ping_ok_reply:
  assumes "ping_ok count (seq, s)" and "ps_sent_times s q = Some t"
    and sent: "ps_sent s' = ps_sent s" and received: "ps_received s' = ps_received s + 1"
    and replied: "ps_replied s' = insert q (ps_replied s)"
    and waiting: "ps_sent_times s' = (ps_sent_times s)(q := None)"
    and hops: "ps_path_hops s' = (ps_path_hops s)(q := None)"
    and figures: "\<And>rtts. figures rtts s \<Longrightarrow> figures (r # rtts) s'"
  shows "ping_ok count (seq, s')"
proof -
  note ok = ping_okD [OF assms(1)]
  have q: "q \<in> dom (ps_sent_times s)" using assms(2) by blast
  then have fresh: "q \<notin> ps_replied s" using ok(3) by blast
  have dom: "dom (ps_sent_times s') = dom (ps_sent_times s) - {q}" "dom (ps_path_hops s') = dom (ps_path_hops s) - {q}"
    by (simp_all add: waiting hops)
  have card_replied: "card (insert q (ps_replied s)) = card (ps_replied s) + 1" using fresh ok(1) by simp
  have card_waiting: "card (dom (ps_sent_times s)) = card (dom (ps_sent_times s) - {q}) + 1"
    using card.remove [OF ok(2) q] by simp
  show ?thesis
  proof (rule ping_okI)
    show "finite (ps_replied s')" "finite (dom (ps_sent_times s'))"
      unfolding dom replied using ok(1,2) by simp_all
    show "ps_replied s' \<inter> dom (ps_sent_times s') = {}"
      unfolding dom replied using ok(3) by blast
    show "ps_received s' = card (ps_replied s')"
      unfolding received replied card_replied ok(4) ..
    show "ps_sent s' = card (dom (ps_sent_times s')) + card (ps_replied s')"
      unfolding sent replied dom card_replied ok(5) card_waiting by simp
    show "\<forall>p\<in>ps_replied s' \<union> dom (ps_sent_times s'). p < seq"
      unfolding replied dom using ok(6) q by blast
    show "dom (ps_path_hops s') \<subseteq> dom (ps_sent_times s')"
      unfolding dom using ok(7) by blast
    show "\<exists>rtts. figures rtts s'" using ok(9) figures by blast
  qed (rule ok(8))
qed

lemma figures_cong:
  assumes "figures rtts s" and "ps_received s' = ps_received s" "ps_sum_rtt s' = ps_sum_rtt s"
    "ps_sum_rtt_squared_us s' = ps_sum_rtt_squared_us s" "ps_min_rtt s' = ps_min_rtt s" "ps_max_rtt s' = ps_max_rtt s"
  shows "figures rtts s'"
  using assms by (simp add: figures_def)

lemma ping_ok_deliver:
  assumes "ping_ok count (seq, s)"
  shows "ping_ok count (seq, fst (ping_deliver lib app now data s))"
  using ping_deliver_cases [of lib app now data s]
proof
  assume "fst (ping_deliver lib app now data s) = s"
  then show ?thesis using assms by (simp only:)
next
  assume "\<exists>q t. ps_sent_times s q = Some t
        \<and> policy_accepts lib (pa_policy app) (pa_keystore app) data
        \<and> fst (source_and_payload lib data) = pa_destination app
        \<and> decode_ping_payload (snd (source_and_payload lib data)) = Some q
        \<and> fst (ping_deliver lib app now data s) =
            (record_reply q (now - t) (s\<lparr>ps_sent_times := (ps_sent_times s)(q := None)\<rparr>))
              \<lparr>ps_path_hops := (ps_path_hops s)(q := None), ps_permits := ps_permits s + 1\<rparr>"
  then obtain q t where t: "ps_sent_times s q = Some t"
    and s': "fst (ping_deliver lib app now data s) =
            (record_reply q (now - t) (s\<lparr>ps_sent_times := (ps_sent_times s)(q := None)\<rparr>))
              \<lparr>ps_path_hops := (ps_path_hops s)(q := None), ps_permits := ps_permits s + 1\<rparr>"
    by blast
  show ?thesis unfolding s'
  proof (rule ping_ok_reply [OF assms t])
    fix rtts assume "figures rtts s"
    then have "figures rtts (s\<lparr>ps_sent_times := (ps_sent_times s)(q := None)\<rparr>)" by (rule figures_cong) simp_all
    from figures_record_reply [OF this]
    show "figures ((now - t) # rtts) ((record_reply q (now - t) (s\<lparr>ps_sent_times := (ps_sent_times s)(q := None)\<rparr>))
              \<lparr>ps_path_hops := (ps_path_hops s)(q := None), ps_permits := ps_permits s + 1\<rparr>)"
      by (rule figures_cong) simp_all
  qed (simp_all add: record_reply_simps)
qed

text \<open>A status report changes the permits and the notes of the path of a ping that waits.\<close>

lemma ping_status_cases:
  "\<exists>hops p. fst (ping_status_notify app now i node kind reason s) = s\<lparr>ps_permits := p, ps_path_hops := hops\<rparr>
     \<and> dom hops \<subseteq> dom (ps_path_hops s) \<union> dom (ps_sent_times s)"
proof (cases "ps_bundle_ids s i")
  case None
  then show ?thesis by (intro exI [of _ "ps_path_hops s"] exI [of _ "ps_permits s"]) (simp add: ping_status_notify_def)
next
  case (Some q)
  show ?thesis
  proof (cases "ps_sent_times s q")
    case None
    then show ?thesis using Some
      by (intro exI [of _ "ps_path_hops s"] exI [of _ "ps_permits s"]) (simp add: ping_status_notify_def)
  next
    case (Some t)
    let ?hops = "or_default [] (ps_path_hops s q) @ [\<lparr>ph_node = node, ph_elapsed = now - t, ph_kind = kind\<rparr>]"
    show ?thesis using Some \<open>ps_bundle_ids s i = Some q\<close>
      by (intro exI [of _ "if node \<noteq> or_default [] (pa_local_node_id app) then (ps_path_hops s)(q \<mapsto> ?hops) else ps_path_hops s"]
          exI [of _ "if kind = Deleted then ps_permits s + 1 else ps_permits s"])
        (auto simp: ping_status_notify_def Let_def)
  qed
qed

lemma ping_ok_status:
  assumes "ping_ok count (seq, s)"
  shows "ping_ok count (seq, fst (ping_status_notify app now i node kind reason s))"
proof -
  obtain hops p where s': "fst (ping_status_notify app now i node kind reason s) = s\<lparr>ps_permits := p, ps_path_hops := hops\<rparr>"
    and hops: "dom hops \<subseteq> dom (ps_path_hops s) \<union> dom (ps_sent_times s)"
    using ping_status_cases [of app now i node kind reason s] by blast
  note ok = ping_okD [OF assms]
  obtain rtts where "figures rtts s" using ok(9) by blast
  then have fig: "figures rtts (s\<lparr>ps_permits := p, ps_path_hops := hops\<rparr>)" by (rule figures_cong) simp_all
  have "dom hops \<subseteq> dom (ps_sent_times s)" using hops ok(7) by blast
  then show ?thesis unfolding s'
    by (intro ping_okI exI [of _ rtts] fig) (use ok in simp_all)
qed

lemma ping_ok_run: "ping_ok count w \<Longrightarrow> ping_ok count (fold (ping_step lib app count) events w)"
proof (induction events arbitrary: w)
  case (Cons e events)
  obtain seq s where w: "w = (seq, s)" by (metis surj_pair)
  have "ping_ok count (ping_step lib app count e w)"
    using Cons.prems unfolding w by (cases e) (simp_all add: ping_ok_tick ping_ok_deliver ping_ok_status)
  then show ?case using Cons.IH by simp
qed simp

text \<open>
  Only answers to pings still waiting for one are counted.
\<close>

lemma duplicate_ignored:
  assumes "decode_ping_payload (snd (source_and_payload lib data)) = Some q" and "ps_sent_times s q = None"
  shows "fst (ping_deliver lib app now data s) = s"
  using assms by (simp add: ping_deliver_def case_prod_beta)

section \<open>The times\<close>

text \<open>A journal of the session, read off its events alone: for every number sent, when it was, and the time from then to the
  first answer to it.  An answer is an accepted bundle from the destination whose payload has the number.\<close>

definition answers :: "('b, 'v) bpv7_lib \<Rightarrow> ping_app \<Rightarrow> bytes \<Rightarrow> u32 \<Rightarrow> bool" where
  "answers lib app data q \<longleftrightarrow> policy_accepts lib (pa_policy app) (pa_keystore app) data
     \<and> fst (source_and_payload lib data) = pa_destination app
     \<and> decode_ping_payload (snd (source_and_payload lib data)) = Some q"

type_synonym journal = "u32 \<rightharpoonup> nat \<times> nat option"

fun journal_step :: "('b, 'v) bpv7_lib \<Rightarrow> ping_app \<Rightarrow> u32 \<Rightarrow> 'i ping_event \<Rightarrow> u32 \<times> journal \<Rightarrow> u32 \<times> journal" where
  "journal_step lib app count (Tick result) (seq, log) =
     (if count \<le> seq then (seq, log)
      else (seq + 1, case result of Some (_, send_time) \<Rightarrow> log(seq \<mapsto> (send_time, None)) | None \<Rightarrow> log))"
| "journal_step lib app count (Deliver now data) (seq, log) =
     (seq, \<lambda>q. case log q of
                 Some (send_time, None) \<Rightarrow> Some (send_time, if answers lib app data q then Some (now - send_time) else None)
               | entry \<Rightarrow> entry)"
| "journal_step lib app count (Status now i node kind reason) (seq, log) = (seq, log)"

definition journal_of :: "('b, 'v) bpv7_lib \<Rightarrow> ping_app \<Rightarrow> u32 \<Rightarrow> 'i ping_event list \<Rightarrow> journal" where
  "journal_of lib app count events = snd (fold (journal_step lib app count) events (0, Map.empty))"

definition round_trip :: "journal \<Rightarrow> u32 \<Rightarrow> nat" where
  "round_trip log q = (case log q of Some (_, Some r) \<Rightarrow> r | _ \<Rightarrow> 0)"

definition waiting_since :: "journal \<Rightarrow> u32 \<rightharpoonup> nat" where
  "waiting_since log q = (case log q of Some (t, None) \<Rightarrow> Some t | _ \<Rightarrow> None)"

definition answered :: "journal \<Rightarrow> u32 set" where
  "answered log = {q. \<exists>t r. log q = Some (t, Some r)}"

definition times_ok :: "journal \<Rightarrow> 'i ping_state \<Rightarrow> bool" where
  "times_ok log s \<longleftrightarrow> ps_sent_times s = waiting_since log \<and> ps_replied s = answered log
     \<and> ps_sum_rtt s = (\<Sum>q\<in>answered log. round_trip log q)
     \<and> ps_sum_rtt_squared_us s = (\<Sum>q\<in>answered log. (round_trip log q div 1000)\<^sup>2)
     \<and> ps_min_rtt s = (if answered log = {} then None else Some (Min (round_trip log ` answered log)))
     \<and> ps_max_rtt s = (if answered log = {} then None else Some (Max (round_trip log ` answered log)))"

lemma journal_answer:
  assumes "log q = Some (t, None)"
  shows "answered (log(q \<mapsto> (t, Some r))) = insert q (answered log)" and "q \<notin> answered log"
    and "round_trip (log(q \<mapsto> (t, Some r))) q = r"
    and "p \<in> answered log \<Longrightarrow> round_trip (log(q \<mapsto> (t, Some r))) p = round_trip log p"
    and "waiting_since (log(q \<mapsto> (t, Some r))) = (waiting_since log)(q := None)"
  using assms by (auto simp: answered_def round_trip_def waiting_since_def fun_eq_iff)

lemma times_ok_answer:
  assumes "times_ok log s" and "finite (ps_replied s)" and "log q = Some (t, None)"
  shows "times_ok (log(q \<mapsto> (t, Some r)))
    (record_reply q r (s\<lparr>ps_sent_times := (ps_sent_times s)(q := None)\<rparr>)\<lparr>ps_path_hops := hops, ps_permits := permits\<rparr>)"
proof -
  let ?log = "log(q \<mapsto> (t, Some r))"
  note new = journal_answer(1) [of log q t r, OF assms(3)] journal_answer(3) [of log q t r, OF assms(3)]
    journal_answer(4) [of log q t _ r, OF assms(3)] journal_answer(5) [of log q t r, OF assms(3)]
    and fresh = journal_answer(2) [of log q t, OF assms(3)]
  have ok: "ps_sent_times s = waiting_since log" "ps_replied s = answered log"
    "ps_sum_rtt s = (\<Sum>q\<in>answered log. round_trip log q)"
    "ps_sum_rtt_squared_us s = (\<Sum>q\<in>answered log. (round_trip log q div 1000)\<^sup>2)"
    "ps_min_rtt s = (if answered log = {} then None else Some (Min (round_trip log ` answered log)))"
    "ps_max_rtt s = (if answered log = {} then None else Some (Max (round_trip log ` answered log)))"
    using assms(1) unfolding times_ok_def by blast+
  have fin: "finite (answered log)" using assms(2) ok(2) by simp
  have sum: "(\<Sum>p\<in>answered ?log. f (round_trip ?log p)) = f r + (\<Sum>p\<in>answered log. f (round_trip log p))" for f :: "nat \<Rightarrow> nat"
  proof -
    have "(\<Sum>p\<in>answered log. f (round_trip ?log p)) = (\<Sum>p\<in>answered log. f (round_trip log p))"
      by (rule sum.cong) (simp_all only: new(3))
    then show ?thesis unfolding new(1) using fin fresh new(2) by simp
  qed
  have image: "round_trip ?log ` answered log = round_trip log ` answered log" by (rule image_cong) (simp_all only: new(3))
  have least: "Min (insert r (round_trip log ` answered log)) = min (Min (round_trip log ` answered log)) r"
    and greatest: "Max (insert r (round_trip log ` answered log)) = max (Max (round_trip log ` answered log)) r"
    if "answered log \<noteq> {}" using fin that by (simp_all add: min.commute max.commute)
  show ?thesis
    using ok sum [of "\<lambda>x. x"] sum [of "\<lambda>x. (x div 1000)\<^sup>2"]
    by (simp add: times_ok_def record_reply_def Let_def image least greatest new(1,2,4) power2_eq_square min.commute max.commute)
qed

lemma times_ok_cong:
  "times_ok log s \<Longrightarrow> ps_sent_times s' = ps_sent_times s \<Longrightarrow> ps_replied s' = ps_replied s \<Longrightarrow> ps_sum_rtt s' = ps_sum_rtt s
    \<Longrightarrow> ps_sum_rtt_squared_us s' = ps_sum_rtt_squared_us s \<Longrightarrow> ps_min_rtt s' = ps_min_rtt s \<Longrightarrow> ps_max_rtt s' = ps_max_rtt s
    \<Longrightarrow> times_ok log s'"
  by (simp add: times_ok_def)

lemma journal_deliver_other:
  assumes "\<And>q t. log q = Some (t, None) \<Longrightarrow> \<not> answers lib app data q"
  shows "journal_step lib app count (Deliver now data) (seq, log) = (seq, log)"
  using assms by (auto simp: fun_eq_iff split: option.split)

lemma journal_deliver_answer:
  assumes "log q = Some (t, None)" and "answers lib app data q"
  shows "journal_step lib app count (Deliver now data) (seq, log) = (seq, log(q \<mapsto> (t, Some (now - t))))"
proof -
  have "answers lib app data p \<longleftrightarrow> p = q" for p using assms(2) by (auto simp: answers_def)
  then show ?thesis using assms(1) by (auto simp: fun_eq_iff split: option.split)
qed

lemma times_ok_deliver:
  assumes "times_ok log s" and "finite (ps_replied s)"
  shows "times_ok (snd (journal_step lib app count (Deliver now data) (seq, log))) (fst (ping_deliver lib app now data s))"
proof (cases "\<exists>q t. log q = Some (t, None) \<and> answers lib app data q")
  case True
  then obtain q t where q: "log q = Some (t, None)" "answers lib app data q" by blast
  then have "ps_sent_times s q = Some t" using assms(1) by (simp add: times_ok_def waiting_since_def)
  then have "fst (ping_deliver lib app now data s) =
      (record_reply q (now - t) (s\<lparr>ps_sent_times := (ps_sent_times s)(q := None)\<rparr>))
        \<lparr>ps_path_hops := (ps_path_hops s)(q := None), ps_permits := ps_permits s + 1\<rparr>"
    using q(2) by (simp add: answers_def ping_deliver_def print_path_def case_prod_beta Let_def record_reply_simps)
  then show ?thesis
    using times_ok_answer [OF assms q(1)] by (simp only: journal_deliver_answer [of log q t lib app data, OF q] snd_conv)
next
  case False
  then have log: "journal_step lib app count (Deliver now data) (seq, log) = (seq, log)"
    by (intro journal_deliver_other) blast
  have "fst (ping_deliver lib app now data s) = s"
  proof (rule ccontr)
    assume "fst (ping_deliver lib app now data s) \<noteq> s"
    then obtain q t where "ps_sent_times s q = Some t" "answers lib app data q"
      using ping_deliver_cases [of lib app now data s] unfolding answers_def by blast
    then have "log q = Some (t, None)"
      using assms(1) by (auto simp: times_ok_def waiting_since_def split: option.splits)
    then show False using False \<open>answers lib app data q\<close> by blast
  qed
  then show ?thesis using assms(1) by (simp only: log snd_conv)
qed

text \<open>The numbers of the journal have been used.\<close>

definition journal_ok :: "u32 \<Rightarrow> u32 \<times> journal \<Rightarrow> u32 \<times> 'i ping_state \<Rightarrow> bool" where
  "journal_ok count j w \<longleftrightarrow> ping_ok count w \<and> fst j = fst w \<and> times_ok (snd j) (snd w) \<and> (\<forall>q\<in>dom (snd j). q < fst w)"

lemma journal_ok_step:
  assumes "journal_ok count (seq, log) (seq, s)"
  shows "journal_ok count (journal_step lib app count e (seq, log)) (ping_step lib app count e (seq, s))"
proof -
  have ok: "ping_ok count (seq, s)" and times: "times_ok log s" and used: "\<forall>q\<in>dom log. q < seq"
    using assms by (simp_all add: journal_ok_def)
  show ?thesis
  proof (cases e)
    case (Tick result)
    show ?thesis
    proof (cases "count \<le> seq")
      case True
      then show ?thesis using assms by (simp add: Tick ping_tick_def)
    next
      case False
      have next_ok: "ping_ok count (ping_tick count result (seq, s))" by (rule ping_ok_tick [OF ok])
      have "unat count < 2 ^ LENGTH(32)" by (rule unsigned_less)
      then have "unat seq + unat (1 :: u32) < 2 ^ LENGTH(32)" using False by (simp add: word_le_nat_alt)
      then have "unat (seq + 1) = unat seq + unat (1 :: u32)" by (rule unat_add_lem [THEN iffD1])
      then have up: "q < seq \<or> q = seq \<Longrightarrow> q < seq + 1" for q by (auto simp: word_less_nat_alt)
      show ?thesis
      proof (cases result)
        case None
        then show ?thesis using next_ok times used False up by (auto simp: Tick journal_ok_def ping_tick_def)
      next
        case (Some r)
        obtain i t where r: "r = (i, t)" by (metis surj_pair)
        have fresh: "log seq = None" using used by (metis domIff less_irrefl not_None_eq domI)
        then have "answered (log(seq \<mapsto> (t, None))) = answered log" "round_trip (log(seq \<mapsto> (t, None))) = round_trip log"
          "waiting_since (log(seq \<mapsto> (t, None))) = (waiting_since log)(seq \<mapsto> t)"
          by (auto simp: answered_def round_trip_def waiting_since_def fun_eq_iff)
        then have "times_ok (log(seq \<mapsto> (t, None))) (ping_sent seq t i s)" using times by (simp add: times_ok_def ping_sent_def)
        then show ?thesis using next_ok used False up Some by (auto simp: Tick journal_ok_def ping_tick_def r)
      qed
    qed
  next
    case (Deliver now data)
    have "finite (ps_replied s)" using ping_okD(1) [OF ok] .
    from times_ok_deliver [OF times this, of lib app count now data seq]
    have "times_ok (snd (journal_step lib app count e (seq, log))) (fst (ping_deliver lib app now data s))" by (simp only: Deliver)
    moreover have "dom (snd (journal_step lib app count e (seq, log))) \<subseteq> dom log"
      by (auto simp: Deliver split: option.splits)
    moreover have "fst (journal_step lib app count e (seq, log)) = seq" by (simp add: Deliver)
    ultimately show ?thesis using ping_ok_deliver [OF ok, of lib app now data] used
      by (auto simp: journal_ok_def Deliver)
  next
    case (Status now i node kind reason)
    obtain hops p where s': "fst (ping_status_notify app now i node kind reason s) = s\<lparr>ps_permits := p, ps_path_hops := hops\<rparr>"
      using ping_status_cases [of app now i node kind reason s] by blast
    have "times_ok log (s\<lparr>ps_permits := p, ps_path_hops := hops\<rparr>)" by (rule times_ok_cong [OF times]) simp_all
    then show ?thesis using ping_ok_status [OF ok, of app now i node kind reason] used s'
      by (simp add: journal_ok_def Status)
  qed
qed

lemma journal_ok_run:
  "journal_ok count j w \<Longrightarrow> journal_ok count (fold (journal_step lib app count) events j) (fold (ping_step lib app count) events w)"
proof (induction events arbitrary: j w)
  case (Cons e events)
  obtain seq log s where "j = (seq, log)" "w = (seq, s)" using Cons.prems by (cases j; cases w) (auto simp: journal_ok_def)
  then show ?case using Cons journal_ok_step by fastforce
qed simp

text \<open>C33: the summary of a ping session is right.  Whatever the order of sending, deliveries (duplicates, foreign
  bundles and late answers included) and status reports: every number of at most the wanted count is sent
  once and answered once; what was sent is what was answered and what still waits, so not more is received
  than sent, and nothing waits exactly if all was answered.  The journal of the events says which numbers those are; the least,
  greatest and summed times and squares are those of the round trip times of the numbers answered, each from when it was sent to its
  first answer; notes of the path are kept only for pings that wait; and the
  program's exit code is 0 exactly if there was an answer.\<close>

theorem ping_account:
  assumes "(seq, s) = fold (ping_step lib app count) events (0, ping_state_new)" and "log = journal_of lib app count events"
  shows "ps_replied s = answered log \<and> ps_sent_times s = waiting_since log
    \<and> ps_received s = card (ps_replied s)
    \<and> ps_sent s = card (dom (ps_sent_times s)) + ps_received s
    \<and> ps_replied s \<inter> dom (ps_sent_times s) = {}
    \<and> (\<forall>q\<in>ps_replied s \<union> dom (ps_sent_times s). q < seq) \<and> seq \<le> count
    \<and> (all_replied s \<longleftrightarrow> dom (ps_sent_times s) = {})
    \<and> dom (ps_path_hops s) \<subseteq> dom (ps_sent_times s)
    \<and> ps_sum_rtt s = (\<Sum>q\<in>ps_replied s. round_trip log q)
    \<and> ps_sum_rtt_squared_us s = (\<Sum>q\<in>ps_replied s. (round_trip log q div 1000)\<^sup>2)
    \<and> ps_min_rtt s = (if ps_replied s = {} then None else Some (Min (round_trip log ` ps_replied s)))
    \<and> ps_max_rtt s = (if ps_replied s = {} then None else Some (Max (round_trip log ` ps_replied s)))
    \<and> (exit_code s = 0 \<longleftrightarrow> ps_replied s \<noteq> {})"
proof -
  have "journal_ok count (0, Map.empty) (0, ping_state_new :: 'd ping_state)"
    using ping_ok_new by (simp add: journal_ok_def times_ok_def answered_def waiting_since_def ping_state_new_def fun_eq_iff)
  from journal_ok_run [OF this, of lib app events]
  have ok: "ping_ok count (seq, s)" and times: "times_ok log s"
    unfolding assms(2) journal_of_def journal_ok_def assms(1) [symmetric] by simp_all
  have fin: "finite (ps_replied s)" "finite (dom (ps_sent_times s))" using ok by (auto simp: ping_ok_def)
  then have "all_replied s \<longleftrightarrow> dom (ps_sent_times s) = {}" "exit_code s = 0 \<longleftrightarrow> ps_replied s \<noteq> {}"
    using ok by (auto simp: ping_ok_def all_replied_def exit_code_def card_gt_0_iff)
  then show ?thesis using ok times by (simp add: ping_ok_def times_ok_def)
qed

definition demo_ping :: ping_app where
  "demo_ping = \<lparr>pa_quiet = True, pa_destination = ''a'', pa_local_node_id = None, pa_keystore = [], pa_policy = Ignore\<rparr>"

text \<open>A ping, its answer and a late duplicate of it.\<close>

definition demo_events :: "nat ping_event list" where
  "demo_events = [Tick (Some (7, 100)), Deliver 250 (0 # encode_ping_payload 0 0), Deliver 900 (0 # encode_ping_payload 0 0)]"

definition demo_session :: "u32 \<times> nat ping_state" where
  "demo_session = fold (ping_step demo_lib demo_ping 5) demo_events (0, ping_state_new)"

lemma ping_account_witness:
  "ps_replied (snd demo_session) = {0} \<and> ps_sum_rtt (snd demo_session) = 150
    \<and> ps_sent (snd demo_session) = card (dom (ps_sent_times (snd demo_session))) + ps_received (snd demo_session)"
proof -
  obtain seq s where w: "(seq, s) = demo_session" by (metis surj_pair)
  have ans: "answers demo_lib demo_ping (0 # encode_ping_payload 0 0) q \<longleftrightarrow> q = 0" for q
    using ping_payload_roundtrip [of 0 0 "[]"]
    by (auto simp: answers_def policy_accepts_def demo_ping_def source_and_payload_def demo_lib_def or_default_def)
  have log: "journal_of demo_lib demo_ping 5 demo_events = [0 \<mapsto> (100, Some 150)]"
    by (auto simp: journal_of_def demo_events_def ans fun_eq_iff)
  from ping_account [OF w [unfolded demo_session_def] refl] show ?thesis
    unfolding log by (simp add: w [symmetric] answered_def round_trip_def)
qed

end
