(* ===== verification/Hqfbp_Encoding.thy ===== *)
theory Hqfbp_Encoding
  imports Utf8
begin

text \<open>
  Callsigns, content encodings and the configuration of the HQFBP adapter (\<^verbatim>\<open>hqfbp-cla/src/address.rs\<close>,
  \<^verbatim>\<open>encoding.rs\<close>, \<^verbatim>\<open>config.rs\<close>).  A content encoding and its two conversions from and to text
  are those of the hqfbp-rs library: the type \<open>'e\<close> and the parameters \<open>try_from\<close> and \<open>to_string\<close>.
\<close>

section \<open>Addresses\<close>

datatype 'a hq_address = Private bytes | Tcp 'a

definition BROADCAST_CALLSIGN :: string where
  "BROADCAST_CALLSIGN = ''CQ''"

definition callsign_to_cla_address :: "string \<Rightarrow> 'a hq_address" where
  "callsign_to_cla_address callsign = Private (bytes_of callsign)"

definition cla_address_to_callsign :: "'a hq_address \<Rightarrow> string option" where
  "cla_address_to_callsign cla_addr =
     (case cla_addr of
        Private bs \<Rightarrow> if utf8_valid bs then Some (text_of bs) else None
      | _ \<Rightarrow> None)"

definition is_broadcast_callsign :: "string \<Rightarrow> bool" where
  "is_broadcast_callsign callsign =
     (let trimmed = trim callsign
      in trimmed = [] \<or> map lower_char trimmed = map lower_char BROADCAST_CALLSIGN)"

section \<open>Lists of encodings\<close>

text \<open>The end of an item: it is read, unless it is blank.\<close>

definition push_encoding :: "(string \<Rightarrow> 'x + 'e) \<Rightarrow> string \<Rightarrow> 'e list \<Rightarrow> 'x + 'e list" where
  "push_encoding try_from current xs =
     (let trimmed = trim current
      in if trimmed = [] then Inr xs
         else case try_from trimmed of Inl e \<Rightarrow> Inl e | Inr enc \<Rightarrow> Inr (xs @ [enc]))"

fun encodings_loop :: "(string \<Rightarrow> 'x + 'e) \<Rightarrow> string \<Rightarrow> string \<Rightarrow> nat \<Rightarrow> 'e list \<Rightarrow> 'x + 'e list" where
  "encodings_loop try_from [] current paren_depth xs = push_encoding try_from current xs"
| "encodings_loop try_from (ch # s) current paren_depth xs =
     (if ch = CHR ''('' then encodings_loop try_from s (current @ [ch]) (paren_depth + 1) xs
      else if ch = CHR '')'' then encodings_loop try_from s (current @ [ch]) (paren_depth - 1) xs
      else if (ch = CHR '','' \<or> ch = CHR '';'') \<and> paren_depth = 0
      then (case push_encoding try_from current xs of
              Inl e \<Rightarrow> Inl e
            | Inr xs \<Rightarrow> encodings_loop try_from s [] paren_depth xs)
      else encodings_loop try_from s (current @ [ch]) paren_depth xs)"

definition parse_encodings_from_str :: "(string \<Rightarrow> 'x + 'e) \<Rightarrow> string \<Rightarrow> 'x + 'e list" where
  "parse_encodings_from_str try_from s = encodings_loop try_from s [] 0 []"

text \<open>What a configuration file may hold in the place of a list.\<close>

datatype serde_value = Text string | Sequence "string option list" | Null | Other

datatype 'x encodings_error = Invalid 'x | Wrong_Type

fun visit_seq :: "(string \<Rightarrow> 'x + 'e) \<Rightarrow> string option list \<Rightarrow> 'x encodings_error + 'e list" where
  "visit_seq try_from [] = Inr []"
| "visit_seq try_from (None # items) = Inl Wrong_Type"
| "visit_seq try_from (Some item # items) =
     (case try_from item of
        Inl e \<Rightarrow> Inl (Invalid e)
      | Inr enc \<Rightarrow> (case visit_seq try_from items of Inl e \<Rightarrow> Inl e | Inr encs \<Rightarrow> Inr (enc # encs)))"

definition serialize_encodings :: "('e \<Rightarrow> string) \<Rightarrow> 'e list \<Rightarrow> serde_value" where
  "serialize_encodings to_string encodings = Sequence (map (\<lambda>e. Some (to_string e)) encodings)"

definition deserialize_encodings :: "(string \<Rightarrow> 'x + 'e) \<Rightarrow> serde_value \<Rightarrow> 'x encodings_error + 'e list" where
  "deserialize_encodings try_from v =
     (case v of
        Text s \<Rightarrow> (case parse_encodings_from_str try_from s of Inl e \<Rightarrow> Inl (Invalid e) | Inr encs \<Rightarrow> Inr encs)
      | Sequence items \<Rightarrow> visit_seq try_from items
      | _ \<Rightarrow> Inl Wrong_Type)"

definition serialize_option_encodings :: "('e \<Rightarrow> string) \<Rightarrow> 'e list option \<Rightarrow> serde_value" where
  "serialize_option_encodings to_string encodings =
     (case encodings of Some list \<Rightarrow> serialize_encodings to_string list | None \<Rightarrow> Null)"

definition deserialize_option_encodings ::
    "(string \<Rightarrow> 'x + 'e) \<Rightarrow> serde_value \<Rightarrow> 'x encodings_error + 'e list option" where
  "deserialize_option_encodings try_from v =
     (if v = Null then Inr None
      else case deserialize_encodings try_from v of Inl e \<Rightarrow> Inl e | Inr list \<Rightarrow> Inr (Some list))"

text \<open>The default selector: the encodings of the lane, if it has any, else the default ones.\<close>

definition with_lane_encoding :: "u32 \<Rightarrow> 'e list \<Rightarrow> (u32 \<rightharpoonup> 'e list) \<Rightarrow> (u32 \<rightharpoonup> 'e list)" where
  "with_lane_encoding lane encodings lane_encodings = lane_encodings(lane \<mapsto> encodings)"

type_synonym ('i, 'e) selector = "string option \<Rightarrow> u32 option \<Rightarrow> 'i \<Rightarrow> u64 \<Rightarrow> 'e list \<Rightarrow> 'e list"

definition select_encodings :: "(u32 \<rightharpoonup> 'e list) \<Rightarrow> ('i, 'e) selector" where
  "select_encodings lane_encodings destination lane bundle_id total_len default_encodings =
     (case lane of
        Some l \<Rightarrow> (case lane_encodings l of Some lane_encs \<Rightarrow> lane_encs | None \<Rightarrow> default_encodings)
      | None \<Rightarrow> default_encodings)"

section \<open>Configuration\<close>

text \<open>Durations are in nanoseconds.  The first fields of the transports are TxDelay, persistence, SlotTime and TxTail.\<close>

record kiss_params =
  kp_tx_delay :: "u8 option"
  kp_persistence :: "u8 option"
  kp_slot_time :: "u8 option"
  kp_tx_tail :: "u8 option"

datatype 'a hq_transport =
    Kiss_Tcp (kt_server_addr: 'a) (kt_bind_addr: "'a option") (kt_port: u8) (kt_params: kiss_params)
      (kt_reconnect_initial: nat) (kt_reconnect_max: nat)
  | Kiss_Serial (ks_path: string) (ks_baud_rate: u32) (ks_port: u8) (ks_params: kiss_params)
  | Udp_Socket (us_bind_addr: 'a) (us_peer_addr: "'a option")

record ('a, 'n, 'e) hq_peer =
  hp_callsign :: string
  hp_node_id :: "'n option"
  hp_address :: "'a option"
  hp_encodings :: "'e list option"

record ('a, 'n, 'e) hq_config =
  cf_callsign :: "string option"
  cf_transport :: "'a hq_transport"
  cf_hailing_encodings :: "'e list"
  cf_default_bundle_encodings :: "'e list"
  cf_initial_msg_id :: u32
  cf_peers :: "('a, 'n, 'e) hq_peer list"
  cf_max_concurrent_senders :: nat
  cf_max_in_flight_bytes :: nat
  cf_session_ttl :: nat
  cf_sweep_interval :: nat

text \<open>The encodings of the library the defaults name.\<close>

record 'e encoding_lib =
  el_h :: 'e
  el_crc32 :: 'e
  el_chunk :: "u32 \<Rightarrow> 'e"

definition default_tcp_port :: u8 where "default_tcp_port = 0"
definition default_baud_rate :: u32 where "default_baud_rate = 9600"
definition default_msg_id :: u32 where "default_msg_id = 1"
definition default_max_senders :: nat where "default_max_senders = 64"
definition default_max_in_flight_bytes :: nat where "default_max_in_flight_bytes = 16 * 1024 * 1024"
definition default_session_ttl :: nat where "default_session_ttl = 60 * 10 ^ 9"
definition default_sweep_interval :: nat where "default_sweep_interval = 5 * 10 ^ 9"
definition default_hq_reconnect_initial :: nat where "default_hq_reconnect_initial = 500 * 1000000"
definition default_hq_reconnect_max :: nat where "default_hq_reconnect_max = 30 * 10 ^ 9"

definition default_hailing_encodings :: "'e encoding_lib \<Rightarrow> 'e list" where
  "default_hailing_encodings el = [el_h el, el_crc32 el]"

definition default_bundle_encodings :: "'e encoding_lib \<Rightarrow> 'e list" where
  "default_bundle_encodings el = [el_chunk el 240, el_h el, el_crc32 el]"

text \<open>\<open>address\<close> is what the text \<^verbatim>\<open>127.0.0.1:10042\<close> stands for.\<close>

definition default_hq_config :: "'e encoding_lib \<Rightarrow> 'a \<Rightarrow> ('a, 'n, 'e) hq_config" where
  "default_hq_config el address =
     \<lparr>cf_callsign = None, cf_transport = Udp_Socket address None,
      cf_hailing_encodings = default_hailing_encodings el, cf_default_bundle_encodings = default_bundle_encodings el,
      cf_initial_msg_id = default_msg_id, cf_peers = [], cf_max_concurrent_senders = default_max_senders,
      cf_max_in_flight_bytes = default_max_in_flight_bytes, cf_session_ttl = default_session_ttl,
      cf_sweep_interval = default_sweep_interval\<rparr>"

section \<open>Reading a list back\<close>

text \<open>The nesting after a text that has no separator outside parentheses; \<open>None\<close> if it has one.\<close>

fun nesting :: "nat \<Rightarrow> string \<Rightarrow> nat option" where
  "nesting d [] = Some d"
| "nesting d (ch # s) =
     (if ch = CHR ''('' then nesting (d + 1) s
      else if ch = CHR '')'' then nesting (d - 1) s
      else if (ch = CHR '','' \<or> ch = CHR '';'') \<and> d = 0 then None
      else nesting d s)"

lemma encodings_loop_token:
  "nesting d t = Some d' \<Longrightarrow>
    encodings_loop try_from (t @ rest) current d xs = encodings_loop try_from rest (current @ t) d' xs"
  by (induction d t arbitrary: current rule: nesting.induct) (auto split: if_splits)

lemma nesting_blank: "list_all is_space s \<Longrightarrow> nesting d s = Some d"
  by (induction s) (auto simp: is_space_def)

lemma nesting_append: "nesting d (s @ t) = Option.bind (nesting d s) (\<lambda>d'. nesting d' t)"
  by (induction d s rule: nesting.induct) auto

text \<open>A text that may stand in a list: not blank, no space around it, parentheses closed, no separator outside them.\<close>

definition list_item :: "string \<Rightarrow> bool" where
  "list_item t \<longleftrightarrow> t \<noteq> [] \<and> \<not> is_space (hd t) \<and> \<not> is_space (List.last t) \<and> nesting 0 t = Some 0"

lemma dropWhile_padded: "list_all P l \<Longrightarrow> t \<noteq> [] \<Longrightarrow> \<not> P (hd t) \<Longrightarrow> dropWhile P (l @ t) = t"
  by (induction l) (cases t; simp)+

lemma trim_padded:
  assumes "list_item t" "list_all is_space l" "list_all is_space r"
  shows "trim (l @ t @ r) = t"
proof -
  have t: "t \<noteq> []" "\<not> is_space (hd t)" "\<not> is_space (List.last t)" using assms(1) by (simp_all add: list_item_def)
  have l: "dropWhile is_space (l @ t @ r) = t @ r"
    using assms(2) t by (intro dropWhile_padded) simp_all
  have "dropWhile is_space (rev r @ rev t) = rev t"
    using assms(3) t by (intro dropWhile_padded) (simp_all add: hd_rev list_all_iff)
  then show ?thesis using l by (simp add: trim_def trim_start_def trim_end_def)
qed

lemma push_encoding_item:
  assumes "list_item t" "list_all is_space l" "list_all is_space r"
  shows "push_encoding try_from (l @ t @ r) xs = (case try_from t of Inl e \<Rightarrow> Inl e | Inr enc \<Rightarrow> Inr (xs @ [enc]))"
  using assms(1) unfolding push_encoding_def trim_padded [OF assms] by (simp add: list_item_def Let_def)

lemma nesting_item: "list_item t \<Longrightarrow> list_all is_space l \<Longrightarrow> list_all is_space r \<Longrightarrow> nesting 0 (l @ t @ r) = Some 0"
  by (simp add: list_item_def nesting_append nesting_blank)

text \<open>The text of a list: every item between spaces and followed by a separator.\<close>

definition item_text :: "('e \<Rightarrow> string) \<Rightarrow> string \<times> 'e \<times> string \<Rightarrow> string" where
  "item_text to_string p = (case p of (l, e, r) \<Rightarrow> l @ to_string e @ r)"

definition list_text :: "('e \<Rightarrow> string) \<Rightarrow> ((string \<times> 'e \<times> string) \<times> char) list \<Rightarrow> string" where
  "list_text to_string ps = concat (map (\<lambda>(p, c). item_text to_string p @ [c]) ps)"

definition padded :: "string \<times> 'e \<times> string \<Rightarrow> bool" where
  "padded p \<longleftrightarrow> list_all is_space (fst p) \<and> list_all is_space (snd (snd p))"

lemma encodings_loop_list:
  assumes "\<And>e. try_from (to_string e) = Inr e" "\<And>e. list_item (to_string e)"
    and "list_all (\<lambda>(p, c). padded p \<and> (c = CHR '','' \<or> c = CHR '';'')) ps"
  shows "encodings_loop try_from (list_text to_string ps @ rest) [] 0 xs =
    encodings_loop try_from rest [] 0 (xs @ map (\<lambda>(p, c). fst (snd p)) ps)"
  using assms(3)
proof (induction ps arbitrary: xs)
  case (Cons q ps)
  obtain l e r c where q: "q = ((l, e, r), c)" by (metis surj_pair)
  have pad: "list_all is_space l" "list_all is_space r" and c: "c = CHR '','' \<or> c = CHR '';''"
    using Cons.prems by (simp_all add: q padded_def)
  have split: "list_text to_string (q # ps) @ rest = (l @ to_string e @ r) @ c # (list_text to_string ps @ rest)"
    by (simp add: list_text_def item_text_def q)
  have "encodings_loop try_from (list_text to_string (q # ps) @ rest) [] 0 xs
    = encodings_loop try_from (c # (list_text to_string ps @ rest)) (l @ to_string e @ r) 0 xs"
    unfolding split by (subst encodings_loop_token [OF nesting_item [OF assms(2) pad]]) (simp only: append_Nil)
  also have "\<dots> = encodings_loop try_from (list_text to_string ps @ rest) [] 0 (xs @ [e])"
    using c push_encoding_item [OF assms(2) pad, of try_from e xs] by (auto simp: assms(1))
  also have "\<dots> = encodings_loop try_from rest [] 0 (xs @ map (\<lambda>(p, c). fst (snd p)) (q # ps))"
    using Cons by (simp add: q)
  finally show ?case .
qed (simp add: list_text_def)

lemma visit_seq_items:
  "(\<And>e. try_from (to_string e) = Inr e) \<Longrightarrow> visit_seq try_from (map (\<lambda>e. Some (to_string e)) es) = Inr es"
  by (induction es) simp_all

text \<open>Lists of encodings survive the configuration file.  If the library reads back the text of every
encoding, and the texts close their parentheses and have separators only inside them, then a
list of them is read as it was meant from a text with commas or semicolons and any spaces between the
items, with or without a separator at the end, and from the sequence it is written as; so is an absent list.\<close>

theorem encodings_roundtrip:
  assumes "\<And>e. try_from (to_string e) = Inr e" and "\<And>e. list_item (to_string e)"
    and "list_all (\<lambda>(p, c). padded p \<and> (c = CHR '','' \<or> c = CHR '';'')) ps" and "padded p"
  shows "deserialize_encodings try_from (Text (list_text to_string ps)) = Inr (map (\<lambda>(p, c). fst (snd p)) ps)
    \<and> deserialize_encodings try_from (Text (list_text to_string ps @ item_text to_string p))
        = Inr (map (\<lambda>(p, c). fst (snd p)) ps @ [fst (snd p)])
    \<and> deserialize_encodings try_from (serialize_encodings to_string es) = Inr es
    \<and> deserialize_option_encodings try_from (serialize_option_encodings to_string opt) = Inr opt"
proof -
  note loop = encodings_loop_list [where try_from = try_from and to_string = to_string, OF assms(1,2,3)]
  obtain l e r where p: "p = (l, e, r)" by (metis prod_cases3)
  have pad: "list_all is_space l" "list_all is_space r" using assms(4) by (simp_all add: p padded_def)
  have "encodings_loop try_from (l @ to_string e @ r) [] 0 xs = Inr (xs @ [e])" for xs
    using encodings_loop_token [OF nesting_item [OF assms(2) pad], of try_from e "[]" "[]" xs]
      push_encoding_item [OF assms(2) pad, of try_from e xs] by (simp add: assms(1))
  moreover have "push_encoding try_from [] xs = Inr xs" for xs :: "'a list"
    by (simp add: push_encoding_def trim_def trim_start_def trim_end_def)
  moreover have "visit_seq try_from (map (\<lambda>e. Some (to_string e)) es) = Inr es" for es
    by (rule visit_seq_items) (rule assms(1))
  ultimately show ?thesis using loop [of "[]" "[]"] loop [of "l @ to_string e @ r" "[]"]
    by (auto simp: deserialize_encodings_def parse_encodings_from_str_def item_text_def p serialize_encodings_def
        serialize_option_encodings_def deserialize_option_encodings_def split: option.split)
qed

definition demo_to_string :: "bool \<Rightarrow> string" where
  "demo_to_string e = (if e then ''rs(255, 223)'' else ''h'')"

definition demo_try_from :: "string \<Rightarrow> string + bool" where
  "demo_try_from s = (if s = ''rs(255, 223)'' then Inr True else if s = ''h'' then Inr False else Inl s)"

lemma encodings_roundtrip_witness:
  "deserialize_encodings demo_try_from (Text ''h , rs(255, 223);h'') = Inr [False, True, False]"
proof -
  have "demo_try_from (demo_to_string e) = Inr e" "list_item (demo_to_string e)" for e
    by (auto simp: demo_try_from_def demo_to_string_def list_item_def is_space_def)
  from encodings_roundtrip [OF this, of "[(([], False, '' ''), CHR '',''), (('' '', True, []), CHR '';'')]" "([], False, [])"]
  show ?thesis by (simp add: padded_def is_space_def list_text_def item_text_def demo_to_string_def)
qed

end
