(* ===== verification/Hqfbp_Driver.thy ===== *)
theory Hqfbp_Driver
  imports Hqfbp_Session Hqfbp_Encoding
begin

text \<open>
  The driver of the HQFBP adapter (\<^verbatim>\<open>hqfbp-cla/src/driver.rs\<close>): the loops over a UDP socket, a KISS TCP
  connection and a KISS serial port.  Each turn of a loop is a function from the event it wakes up for to
  what it does to the outside world, a list of effects.  The PDU generator, the KISS decoder and encoder and the
  encodings of the deframer are those of the hqfbp-rs library.
\<close>

section \<open>State\<close>

record ('d, 'e, 'k) hq_codec =
  hl_session :: "'d hqfbp_lib"
  hl_new_deframer :: 'd
  hl_register :: "string \<Rightarrow> 'e list \<Rightarrow> 'd \<Rightarrow> 'd"
  hl_unregister :: "string \<Rightarrow> 'd \<Rightarrow> 'd"
  hl_encodings :: "'d \<Rightarrow> string \<Rightarrow> 'e list option"
  hl_generate :: "string option \<Rightarrow> string option \<Rightarrow> 'e list option \<Rightarrow> 'e list option \<Rightarrow> u32 \<Rightarrow> bytes \<Rightarrow> string + bytes list"
  hl_kiss_new :: 'k
  hl_kiss_byte :: "u8 \<Rightarrow> 'k \<Rightarrow> bytes option \<times> 'k"
  hl_kiss_encode :: "bytes \<Rightarrow> bytes"

definition register_peer_encodings :: "('d, 'e, 'k) hq_codec \<Rightarrow> string \<Rightarrow> 'e list \<Rightarrow> 'd rx_manager \<Rightarrow> 'd rx_manager" where
  "register_peer_encodings lib callsign encodings m = m\<lparr>rx_deframer := hl_register lib callsign encodings (rx_deframer m)\<rparr>"

definition unregister_peer_encodings :: "('d, 'e, 'k) hq_codec \<Rightarrow> string \<Rightarrow> 'd rx_manager \<Rightarrow> 'd rx_manager" where
  "unregister_peer_encodings lib callsign m = m\<lparr>rx_deframer := hl_unregister lib callsign (rx_deframer m)\<rparr>"

definition peer_encodings :: "('d, 'e, 'k) hq_codec \<Rightarrow> 'd rx_manager \<Rightarrow> string \<Rightarrow> 'e list option" where
  "peer_encodings lib m callsign = hl_encodings lib (rx_deframer m) callsign"

datatype ('a, 'n, 'e) hq_command =
    Forward "string option" "'e list" bytes
  | SetDefaultEncodings "'e list"
  | SetPeerEncodings string "'e list"
  | RegisterPeer string "'a option" "'n option"
  | UnregisterPeer string
  | Shutdown

record ('a, 'n, 'e, 'd) hq_driver =
  hd_config :: "('a, 'n, 'e) hq_config"
  hd_rx_manager :: "'d rx_manager"
  hd_next_msg_id :: u32
  hd_callsign_to_addr :: "string \<rightharpoonup> 'a"
  hd_addr_to_callsign :: "'a \<rightharpoonup> string"
  hd_callsign_to_node :: "string \<rightharpoonup> 'n"

datatype forward_result = Sent | NoNeighbour

datatype driver_error = Io | Hqfbp string | Serial

datatype ('a, 'n) hq_effect =
    Send_To 'a bytes
  | Write bytes
  | Dispatch "'n option" "'a hq_address option" bytes
  | Reply "driver_error + forward_result"

section \<open>Peers\<close>

definition add_address :: "string \<Rightarrow> 'a option \<Rightarrow> ('a, 'n, 'e, 'd) hq_driver \<Rightarrow> ('a, 'n, 'e, 'd) hq_driver" where
  "add_address callsign addr d =
     (case addr of
        Some a \<Rightarrow> d\<lparr>hd_callsign_to_addr := (hd_callsign_to_addr d)(callsign \<mapsto> a),
                     hd_addr_to_callsign := (hd_addr_to_callsign d)(a \<mapsto> callsign)\<rparr>
      | None \<Rightarrow> d)"

definition add_node :: "string \<Rightarrow> 'n option \<Rightarrow> ('a, 'n, 'e, 'd) hq_driver \<Rightarrow> ('a, 'n, 'e, 'd) hq_driver" where
  "add_node callsign node_id d =
     (case node_id of
        Some node \<Rightarrow> d\<lparr>hd_callsign_to_node := (hd_callsign_to_node d)(callsign \<mapsto> node)\<rparr>
      | None \<Rightarrow> d)"

definition add_configured_peer ::
    "('d, 'e, 'k) hq_codec \<Rightarrow> ('a, 'n, 'e) hq_peer \<Rightarrow> ('a, 'n, 'e, 'd) hq_driver \<Rightarrow> ('a, 'n, 'e, 'd) hq_driver" where
  "add_configured_peer lib peer d =
     (let d = (case hp_encodings peer of
                 Some encs \<Rightarrow> d\<lparr>hd_rx_manager := register_peer_encodings lib (hp_callsign peer) encs (hd_rx_manager d)\<rparr>
               | None \<Rightarrow> d)
      in add_node (hp_callsign peer) (hp_node_id peer) (add_address (hp_callsign peer) (hp_address peer) d))"

definition hq_driver_new :: "('d, 'e, 'k) hq_codec \<Rightarrow> ('a, 'n, 'e) hq_config \<Rightarrow> ('a, 'n, 'e, 'd) hq_driver" where
  "hq_driver_new lib config =
     fold (add_configured_peer lib) (cf_peers config)
       \<lparr>hd_config = config,
        hd_rx_manager = rx_new (hl_new_deframer lib) (cf_max_concurrent_senders config) (cf_max_in_flight_bytes config)
                          (cf_session_ttl config),
        hd_next_msg_id = cf_initial_msg_id config, hd_callsign_to_addr = Map.empty, hd_addr_to_callsign = Map.empty,
        hd_callsign_to_node = Map.empty\<rparr>"

text \<open>The commands that the three loops treat alike.\<close>

fun peer_command :: "('d, 'e, 'k) hq_codec \<Rightarrow> ('a, 'n, 'e) hq_command \<Rightarrow> ('a, 'n, 'e, 'd) hq_driver \<Rightarrow> ('a, 'n, 'e, 'd) hq_driver" where
  "peer_command lib (SetDefaultEncodings encodings) d = d\<lparr>hd_config := (hd_config d)\<lparr>cf_default_bundle_encodings := encodings\<rparr>\<rparr>"
| "peer_command lib (SetPeerEncodings callsign encodings) d =
     d\<lparr>hd_rx_manager := register_peer_encodings lib callsign encodings (hd_rx_manager d)\<rparr>"
| "peer_command lib (RegisterPeer callsign addr node_id) d = add_node callsign node_id (add_address callsign addr d)"
| "peer_command lib (UnregisterPeer callsign) d =
     (let d = (case hd_callsign_to_addr d callsign of
                 Some addr \<Rightarrow> d\<lparr>hd_callsign_to_addr := (hd_callsign_to_addr d)(callsign := None),
                                 hd_addr_to_callsign := (hd_addr_to_callsign d)(addr := None)\<rparr>
               | None \<Rightarrow> d);
          d = d\<lparr>hd_callsign_to_node := (hd_callsign_to_node d)(callsign := None)\<rparr>
      in d\<lparr>hd_rx_manager := unregister_peer_encodings lib callsign (hd_rx_manager d)\<rparr>)"
| "peer_command lib (Forward dst encodings data) d = d"
| "peer_command lib Shutdown d = d"

section \<open>Receiving\<close>

definition FEND8 :: u8 where "FEND8 = 0xC0"

text \<open>A frame of the KISS decoder that carries data.\<close>

definition data_frame :: "bytes \<Rightarrow> bool" where
  "data_frame frame \<longleftrightarrow> frame \<noteq> [] \<and> hd frame AND 0x0F = 0"

fun first_data_frame :: "('d, 'e, 'k) hq_codec \<Rightarrow> 'k \<Rightarrow> bytes \<Rightarrow> bytes option" where
  "first_data_frame lib k [] = None"
| "first_data_frame lib k (b # bs) =
     (case hl_kiss_byte lib b k of
        (Some frame, k) \<Rightarrow> if data_frame frame then Some (tl frame) else first_data_frame lib k bs
      | (None, k) \<Rightarrow> first_data_frame lib k bs)"

definition pdu_of_packet :: "('d, 'e, 'k) hq_codec \<Rightarrow> bytes \<Rightarrow> bytes" where
  "pdu_of_packet lib packet =
     (if packet \<noteq> [] \<and> hd packet = FEND8 then (case first_data_frame lib (hl_kiss_new lib) packet of Some pdu \<Rightarrow> pdu | None \<Rightarrow> packet)
      else packet)"

definition dispatch_message :: "('a, 'n, 'e, 'd) hq_driver \<Rightarrow> completed_message \<Rightarrow> ('a, 'n) hq_effect" where
  "dispatch_message d msg =
     Dispatch (case cm_src_callsign msg of Some c \<Rightarrow> hd_callsign_to_node d c | None \<Rightarrow> None)
       (map_option callsign_to_cla_address (cm_src_callsign msg)) (cm_payload msg)"

definition handle_incoming_packet ::
    "('d, 'e, 'k) hq_codec \<Rightarrow> nat \<Rightarrow> bytes \<Rightarrow> ('a, 'n, 'e, 'd) hq_driver \<Rightarrow> ('a, 'n, 'e, 'd) hq_driver \<times> ('a, 'n) hq_effect list" where
  "handle_incoming_packet lib now packet d =
     (case process_pdu (hl_session lib) now (pdu_of_packet lib packet) (hd_rx_manager d) of
        (Inl _, m) \<Rightarrow> (d\<lparr>hd_rx_manager := m\<rparr>, [])
      | (Inr _, m) \<Rightarrow>
          let (completed, m) = drain_completed_messages (hl_session lib) now m;
              d = d\<lparr>hd_rx_manager := m\<rparr>
          in (d, map (dispatch_message d) completed))"

definition hq_sweep :: "('d, 'e, 'k) hq_codec \<Rightarrow> nat \<Rightarrow> ('a, 'n, 'e, 'd) hq_driver \<Rightarrow> ('a, 'n, 'e, 'd) hq_driver" where
  "hq_sweep lib now d =
     d\<lparr>hd_rx_manager := snd (sweep_expired_at (hl_session lib) now (cf_session_ttl (hd_config d)) (hd_rx_manager d))\<rparr>"

section \<open>Sending\<close>

text \<open>The identifier of a bundle's first PDU is the counter, which then goes on by ten.\<close>

definition next_pdus ::
    "('d, 'e, 'k) hq_codec \<Rightarrow> string option \<Rightarrow> 'e list \<Rightarrow> bytes \<Rightarrow> ('a, 'n, 'e, 'd) hq_driver
      \<Rightarrow> (string + bytes list) \<times> ('a, 'n, 'e, 'd) hq_driver" where
  "next_pdus lib dst_callsign encodings data d =
     (hl_generate lib (cf_callsign (hd_config d)) dst_callsign (Some encodings) (Some (cf_hailing_encodings (hd_config d)))
        (hd_next_msg_id d) data,
      d\<lparr>hd_next_msg_id := hd_next_msg_id d + 10\<rparr>)"

text \<open>\<open>io n\<close> says whether the \<open>n\<close>-th transmission succeeds; the first that fails ends the loop.\<close>

fun send_all :: "(nat \<Rightarrow> bool) \<Rightarrow> nat \<Rightarrow> bytes list \<Rightarrow> bytes list \<times> bool" where
  "send_all io n [] = ([], True)"
| "send_all io n (pdu # pdus) =
     (if io n then (case send_all io (n + 1) pdus of (sent, ok) \<Rightarrow> (pdu # sent, ok)) else ([], False))"

definition udp_target :: "'a option \<Rightarrow> ('a, 'n, 'e, 'd) hq_driver \<Rightarrow> string option \<Rightarrow> 'a option" where
  "udp_target default_peer d dst_callsign =
     or_else (case dst_callsign of Some c \<Rightarrow> hd_callsign_to_addr d c | None \<Rightarrow> None) default_peer"

definition transmit_bundle_udp ::
    "('d, 'e, 'k) hq_codec \<Rightarrow> (nat \<Rightarrow> bool) \<Rightarrow> 'a option \<Rightarrow> string option \<Rightarrow> 'e list \<Rightarrow> bytes \<Rightarrow> ('a, 'n, 'e, 'd) hq_driver
      \<Rightarrow> (driver_error + forward_result) \<times> ('a, 'n, 'e, 'd) hq_driver \<times> ('a, 'n) hq_effect list" where
  "transmit_bundle_udp lib io target_addr dst_callsign encodings data d =
     (case target_addr of
        None \<Rightarrow> (Inr NoNeighbour, d, [])
      | Some addr \<Rightarrow>
          (case next_pdus lib dst_callsign encodings data d of
             (Inl e, d) \<Rightarrow> (Inl (Hqfbp e), d, [])
           | (Inr pdus, d) \<Rightarrow>
               let (sent, ok) = send_all io 0 pdus
               in (if ok then Inr Sent else Inl Io, d, map (Send_To addr) sent)))"

definition transmit_kiss ::
    "('d, 'e, 'k) hq_codec \<Rightarrow> driver_error \<Rightarrow> (nat \<Rightarrow> bool) \<Rightarrow> string option \<Rightarrow> 'e list \<Rightarrow> bytes \<Rightarrow> ('a, 'n, 'e, 'd) hq_driver
      \<Rightarrow> (driver_error + forward_result) \<times> ('a, 'n, 'e, 'd) hq_driver \<times> ('a, 'n) hq_effect list" where
  "transmit_kiss lib failure io dst_callsign encodings data d =
     (case next_pdus lib dst_callsign encodings data d of
        (Inl e, d) \<Rightarrow> (Inl (Hqfbp e), d, [])
      | (Inr pdus, d) \<Rightarrow>
          let (sent, ok) = send_all io 0 (map (hl_kiss_encode lib) pdus)
          in (if ok then Inr Sent else Inl failure, d, map Write sent))"

section \<open>The loop over a UDP socket\<close>

text \<open>A command is absent where the channel is closed.\<close>

datatype ('a, 'n, 'e) udp_event =
    Sweep_Due nat
  | Packet nat 'a bytes
  | Receive_Failed
  | Command "('a, 'n, 'e) hq_command option" "nat \<Rightarrow> bool"

definition hq_udp_step ::
    "('d, 'e, 'k) hq_codec \<Rightarrow> 'a option \<Rightarrow> ('a, 'n, 'e) udp_event \<Rightarrow> ('a, 'n, 'e, 'd) hq_driver
      \<Rightarrow> bool \<times> ('a, 'n, 'e, 'd) hq_driver \<times> ('a, 'n) hq_effect list" where
  "hq_udp_step lib default_peer ev d =
     (case ev of
        Sweep_Due now \<Rightarrow> (True, hq_sweep lib now d, [])
      | Packet now src bs \<Rightarrow> (True, handle_incoming_packet lib now bs d)
      | Receive_Failed \<Rightarrow> (True, d, [])
      | Command None io \<Rightarrow> (False, d, [])
      | Command (Some cmd) io \<Rightarrow>
          (case cmd of
             Shutdown \<Rightarrow> (False, d, [])
           | Forward dst_callsign encodings data \<Rightarrow>
               let (outcome, d, effects) = transmit_bundle_udp lib io (udp_target default_peer d dst_callsign) dst_callsign encodings data d
               in (True, d, effects @ [Reply outcome])
           | _ \<Rightarrow> (True, peer_command lib cmd d, [])))"

section \<open>The loops over a KISS stream\<close>

text \<open>The parameter frames sent at the start.\<close>

definition make_kiss_param_frame :: "u8 \<Rightarrow> u8 \<Rightarrow> u8 \<Rightarrow> bytes" where
  "make_kiss_param_frame port cmd val = [FEND8, push_bit 4 port OR (cmd AND 0x0F), val, FEND8]"

definition param_frames :: "u8 \<Rightarrow> kiss_params \<Rightarrow> bytes list" where
  "param_frames port params =
     (let frame = (\<lambda>cmd v. case v of Some v \<Rightarrow> [make_kiss_param_frame port cmd v] | None \<Rightarrow> [])
      in frame 1 (kp_tx_delay params) @ frame 2 (kp_persistence params) @ frame 3 (kp_slot_time params)
         @ frame 4 (kp_tx_tail params))"

text \<open>The outcome of an attempt to connect: \<open>waiting\<close> while nobody has been told the local address yet.\<close>

datatype connect_result = No_Socket | Connect_Failed | Connected

datatype connect_next = Give_Up | Retry_After nat nat | Begin_Session nat

definition kiss_connect :: "nat \<Rightarrow> nat \<Rightarrow> bool \<Rightarrow> nat \<Rightarrow> connect_result \<Rightarrow> connect_next" where
  "kiss_connect reconnect_initial reconnect_max waiting backoff result =
     (case result of
        No_Socket \<Rightarrow> Give_Up
      | Connect_Failed \<Rightarrow> if waiting then Give_Up else Retry_After backoff (min (backoff * 2) reconnect_max)
      | Connected \<Rightarrow> Begin_Session reconnect_initial)"

text \<open>A read of nothing is the end of the stream, an absent one an error.\<close>

datatype ('a, 'n, 'e) hq_kiss_event =
    Kiss_Sweep nat
  | Kiss_Read nat "bytes option"
  | Kiss_Command "('a, 'n, 'e) hq_command option" "nat \<Rightarrow> bool"

datatype loop_end = Continue | Stream_Closed | Finished

fun kiss_octets ::
    "('d, 'e, 'k) hq_codec \<Rightarrow> nat \<Rightarrow> bytes \<Rightarrow> ('a, 'n, 'e, 'd) hq_driver \<times> 'k
      \<Rightarrow> (('a, 'n, 'e, 'd) hq_driver \<times> 'k) \<times> ('a, 'n) hq_effect list" where
  "kiss_octets lib now [] w = (w, [])"
| "kiss_octets lib now (b # bs) (d, k) =
     (let (frame, k) = hl_kiss_byte lib b k;
          (d, effects) = (case frame of
             Some frame \<Rightarrow> if data_frame frame then handle_incoming_packet lib now (tl frame) d else (d, [])
           | None \<Rightarrow> (d, []));
          (w, effects') = kiss_octets lib now bs (d, k)
      in (w, effects @ effects'))"

definition hq_kiss_step ::
    "('d, 'e, 'k) hq_codec \<Rightarrow> driver_error \<Rightarrow> ('a, 'n, 'e) hq_kiss_event \<Rightarrow> ('a, 'n, 'e, 'd) hq_driver \<times> 'k
      \<Rightarrow> loop_end \<times> (('a, 'n, 'e, 'd) hq_driver \<times> 'k) \<times> ('a, 'n) hq_effect list" where
  "hq_kiss_step lib failure ev w =
     (case w of (d, k) \<Rightarrow>
       (case ev of
          Kiss_Sweep now \<Rightarrow> (Continue, (hq_sweep lib now d, k), [])
        | Kiss_Read now None \<Rightarrow> (Stream_Closed, w, [])
        | Kiss_Read now (Some bs) \<Rightarrow> if bs = [] then (Stream_Closed, w, []) else (Continue, kiss_octets lib now bs w)
        | Kiss_Command None io \<Rightarrow> (Finished, w, [])
        | Kiss_Command (Some cmd) io \<Rightarrow>
            (case cmd of
               Shutdown \<Rightarrow> (Finished, w, [])
             | Forward dst_callsign encodings data \<Rightarrow>
                 let (outcome, d, effects) = transmit_kiss lib failure io dst_callsign encodings data d
                 in (Continue, (d, k), effects @ [Reply outcome])
             | _ \<Rightarrow> (Continue, (peer_command lib cmd d, k), []))))"

text \<open>
  The TCP transport: the stream's decoder while connected, the delay before the next attempt, and whether
  somebody still waits to be told the local address.
\<close>

record ('a, 'n, 'e, 'd, 'k) tcp_link =
  tl_driver :: "('a, 'n, 'e, 'd) hq_driver"
  tl_decoder :: "'k option"
  tl_backoff :: nat
  tl_waiting :: bool

datatype ('a, 'n, 'e) tcp_event = Connect_Result connect_result | Stream "('a, 'n, 'e) hq_kiss_event"

definition tcp_link_new :: "nat \<Rightarrow> ('a, 'n, 'e, 'd) hq_driver \<Rightarrow> ('a, 'n, 'e, 'd, 'k) tcp_link" where
  "tcp_link_new reconnect_initial d = \<lparr>tl_driver = d, tl_decoder = None, tl_backoff = reconnect_initial, tl_waiting = True\<rparr>"

definition hq_tcp_step ::
    "('d, 'e, 'k) hq_codec \<Rightarrow> u8 \<Rightarrow> kiss_params \<Rightarrow> nat \<Rightarrow> nat \<Rightarrow> ('a, 'n, 'e) tcp_event \<Rightarrow> ('a, 'n, 'e, 'd, 'k) tcp_link
      \<Rightarrow> loop_end \<times> ('a, 'n, 'e, 'd, 'k) tcp_link \<times> ('a, 'n) hq_effect list" where
  "hq_tcp_step lib port params reconnect_initial reconnect_max ev l =
     (case (ev, tl_decoder l) of
        (Connect_Result result, None) \<Rightarrow>
          (case kiss_connect reconnect_initial reconnect_max (tl_waiting l) (tl_backoff l) result of
             Give_Up \<Rightarrow> (Finished, l, [])
           | Retry_After _ backoff \<Rightarrow> (Continue, l\<lparr>tl_backoff := backoff\<rparr>, [])
           | Begin_Session backoff \<Rightarrow>
               (Continue, l\<lparr>tl_decoder := Some (hl_kiss_new lib), tl_backoff := backoff, tl_waiting := False\<rparr>,
                map Write (param_frames port params)))
      | (Stream e, Some k) \<Rightarrow>
          (case hq_kiss_step lib Io e (tl_driver l, k) of (end_of_turn, (d, k), effects) \<Rightarrow>
             (if end_of_turn = Stream_Closed then Continue else end_of_turn,
              l\<lparr>tl_driver := d, tl_decoder := if end_of_turn = Stream_Closed then None else Some k\<rparr>, effects))
      | _ \<Rightarrow> (Continue, l, []))"

text \<open>A turn of the KISS loops, with whether the loop goes on.\<close>

definition hq_tcp_turn ::
    "('d, 'e, 'k) hq_codec \<Rightarrow> u8 \<Rightarrow> kiss_params \<Rightarrow> nat \<Rightarrow> nat \<Rightarrow> ('a, 'n, 'e) tcp_event \<Rightarrow> ('a, 'n, 'e, 'd, 'k) tcp_link
      \<Rightarrow> bool \<times> ('a, 'n, 'e, 'd, 'k) tcp_link \<times> ('a, 'n) hq_effect list" where
  "hq_tcp_turn lib port params reconnect_initial reconnect_max ev l =
     (case hq_tcp_step lib port params reconnect_initial reconnect_max ev l of
        (end_of_turn, l, effects) \<Rightarrow> (end_of_turn = Continue, l, effects))"

definition hq_serial_turn ::
    "('d, 'e, 'k) hq_codec \<Rightarrow> ('a, 'n, 'e) hq_kiss_event \<Rightarrow> ('a, 'n, 'e, 'd) hq_driver \<times> 'k
      \<Rightarrow> bool \<times> (('a, 'n, 'e, 'd) hq_driver \<times> 'k) \<times> ('a, 'n) hq_effect list" where
  "hq_serial_turn lib ev w =
     (case hq_kiss_step lib Serial ev w of (end_of_turn, w, effects) \<Rightarrow> (end_of_turn = Continue, w, effects))"

end
