(* ===== verification/Hqfbp_Safety.thy ===== *)
theory Hqfbp_Safety
  imports Hqfbp_Driver
begin

text \<open>
  What holds in every run of the HQFBP driver, over each of its transports: the locale \<open>forward_loop\<close> states
  what a turn of a loop does, and its lemmas follow for the UDP, the KISS TCP and the KISS serial loop.
\<close>

section \<open>A turn\<close>

type_synonym 'e forward_request = "string option \<times> 'e list \<times> bytes"

fun request_of :: "('a, 'n, 'e) hq_command option \<Rightarrow> 'e forward_request option" where
  "request_of (Some (Forward dst encodings data)) = Some (dst, encodings, data)"
| "request_of _ = None"

fun is_reply :: "('a, 'n) hq_effect \<Rightarrow> bool" where
  "is_reply (Reply _) = True"
| "is_reply _ = False"

text \<open>\<open>wrap\<close> is how the transport sends a PDU.\<close>

definition request_answered ::
    "('d, 'e, 'k) hq_codec \<Rightarrow> (('a, 'n, 'e, 'd) hq_driver \<Rightarrow> string option \<Rightarrow> (bytes \<Rightarrow> ('a, 'n) hq_effect) option)
      \<Rightarrow> 'e forward_request \<Rightarrow> ('a, 'n, 'e, 'd) hq_driver \<Rightarrow> ('a, 'n, 'e, 'd) hq_driver \<Rightarrow> ('a, 'n) hq_effect list \<Rightarrow> bool" where
  "request_answered lib wrap req d d' effects \<longleftrightarrow> (case req of (dst, encodings, data) \<Rightarrow>
     \<exists>sends outcome. effects = sends @ [Reply outcome] \<and> \<not> list_ex is_reply sends
       \<and> (case wrap d dst of
            None \<Rightarrow> outcome = Inr NoNeighbour \<and> sends = [] \<and> d' = d
          | Some w \<Rightarrow> d' = d\<lparr>hd_next_msg_id := hd_next_msg_id d + 10\<rparr>
              \<and> (case hl_generate lib (cf_callsign (hd_config d)) dst (Some encodings)
                        (Some (cf_hailing_encodings (hd_config d))) (hd_next_msg_id d) data of
                   Inl e \<Rightarrow> outcome = Inl (Hqfbp e) \<and> sends = []
                 | Inr pdus \<Rightarrow> outcome = Inr Sent \<and> sends = map w pdus
                     \<or> (outcome = Inl Io \<or> outcome = Inl Serial) \<and> (\<exists>n<length pdus. sends = map w (take n pdus)))))"

definition forward_turn_ok ::
    "('d, 'e, 'k) hq_codec \<Rightarrow> (('a, 'n, 'e, 'd) hq_driver \<Rightarrow> string option \<Rightarrow> (bytes \<Rightarrow> ('a, 'n) hq_effect) option)
      \<Rightarrow> 'e forward_request option \<Rightarrow> ('a, 'n, 'e, 'd) hq_driver \<Rightarrow> ('a, 'n, 'e, 'd) hq_driver \<Rightarrow> ('a, 'n) hq_effect list \<Rightarrow> bool" where
  "forward_turn_ok lib wrap req d d' effects \<longleftrightarrow>
     (rx_ok (hd_rx_manager d) \<longrightarrow> rx_ok (hd_rx_manager d') \<and> same_limits (hd_rx_manager d) (hd_rx_manager d'))
     \<and> (case req of
          None \<Rightarrow> \<not> list_ex is_reply effects \<and> hd_next_msg_id d' = hd_next_msg_id d
        | Some r \<Rightarrow> request_answered lib wrap r d d' effects)"

lemma same_deframer_ok [simp]:
  "rx_ok (m\<lparr>rx_deframer := x\<rparr>) = rx_ok m" "same_limits m (m\<lparr>rx_deframer := x\<rparr>)"
  by (simp_all add: rx_ok_def same_limits_def)

lemma process_pdu_ok:
  assumes "rx_ok m" "process_pdu lib now pdu m = (r, m')"
  shows "rx_ok m'" "same_limits m m'"
  using process_pdu_spec [OF assms] by blast+

lemma drain_ok:
  assumes "rx_ok m" "drain_completed_messages lib now m = (out, m')"
  shows "rx_ok m'" "same_limits m m'"
proof -
  have m': "m' = poll_deframer_events lib now m\<lparr>rx_completed_messages := []\<rparr>"
    using assms(2) by (simp add: drain_completed_messages_def Let_def)
  note poll = poll_spec [OF assms(1), of lib now]
  have "rx_ok (x\<lparr>rx_completed_messages := []\<rparr>) = rx_ok x" "same_limits m (x\<lparr>rx_completed_messages := []\<rparr>) = same_limits m x"
    for x :: "'a rx_manager" by (simp_all add: rx_ok_def same_limits_def)
  then show "rx_ok m'" "same_limits m m'" unfolding m' using poll by simp_all
qed

lemma packet_turn:
  assumes "handle_incoming_packet lib now packet d = (d', effects)"
  shows "forward_turn_ok lib wrap None d d' effects"
proof -
  obtain r m where process: "process_pdu (hl_session lib) now (pdu_of_packet lib packet) (hd_rx_manager d) = (r, m)"
    by (metis surj_pair)
  show ?thesis
  proof (cases r)
    case (Inl e)
    then show ?thesis using assms process process_pdu_ok [OF _ process]
      by (auto simp: handle_incoming_packet_def forward_turn_ok_def)
  next
    case (Inr u)
    obtain out m2 where drain: "drain_completed_messages (hl_session lib) now m = (out, m2)" by (metis surj_pair)
    have "d' = d\<lparr>hd_rx_manager := m2\<rparr>" "effects = map (dispatch_message (d\<lparr>hd_rx_manager := m2\<rparr>)) out"
      using assms process drain Inr by (auto simp: handle_incoming_packet_def Let_def)
    moreover have "\<not> list_ex is_reply (map (dispatch_message x) out)" for x :: "('a, 'b, 'c, 'd) hq_driver"
      by (simp add: list_ex_iff dispatch_message_def)
    ultimately show ?thesis using process_pdu_ok [OF _ process] drain_ok [OF _ drain]
      by (auto simp: forward_turn_ok_def intro: same_limits_trans)
  qed
qed

lemma sweep_turn: "forward_turn_ok lib wrap None d (hq_sweep lib now d) []"
  using sweep_spec [OF _ surjective_pairing] by (auto simp: hq_sweep_def forward_turn_ok_def)

lemma add_simps [simp]:
  "hd_rx_manager (add_node callsign node_id d) = hd_rx_manager d" "hd_next_msg_id (add_node callsign node_id d) = hd_next_msg_id d"
  "hd_rx_manager (add_address callsign addr d) = hd_rx_manager d" "hd_next_msg_id (add_address callsign addr d) = hd_next_msg_id d"
  by (simp_all add: add_node_def add_address_def split: option.split)

lemma peer_command_turn:
  "request_of (Some cmd) = None \<Longrightarrow> forward_turn_ok lib wrap None d (peer_command lib cmd d) []"
  by (cases cmd) (auto simp: forward_turn_ok_def register_peer_encodings_def unregister_peer_encodings_def
      split: option.split)

lemma idle_turn: "forward_turn_ok lib wrap None d d []"
  by (simp add: forward_turn_ok_def)

lemma forward_turn_trans:
  assumes "forward_turn_ok lib wrap None d d1 e1" "forward_turn_ok lib wrap None d1 d2 e2"
  shows "forward_turn_ok lib wrap None d d2 (e1 @ e2)"
  using assms by (auto simp: forward_turn_ok_def intro: same_limits_trans)

lemma send_all_spec:
  "send_all io n pdus = (sent, ok) \<Longrightarrow> (if ok then sent = pdus else \<exists>k<length pdus. sent = take k pdus)"
proof (induction pdus arbitrary: n sent ok)
  case (Cons p pdus)
  show ?case
  proof (cases "io n")
    case True
    obtain sent' ok' where rest: "send_all io (n + 1) pdus = (sent', ok')" by (metis surj_pair)
    then have "sent = p # sent'" "ok = ok'" using Cons.prems True by simp_all
    moreover have "\<exists>j<length (p # pdus). p # take k pdus = take j (p # pdus)" if "k < length pdus" for k
      using that by (intro exI [of _ "Suc k"]) simp
    ultimately show ?thesis using Cons.IH [OF rest] by auto
  qed (use Cons.prems in auto)
qed simp

lemma map_no_reply: "(\<And>p. \<not> is_reply (w p)) \<Longrightarrow> \<not> list_ex is_reply (map w ps)"
  by (simp add: list_ex_iff)

lemma udp_request:
  assumes "transmit_bundle_udp lib io (udp_target default_peer d dst) dst encodings data d = (outcome, d', sends)"
  shows "request_answered lib (\<lambda>d dst. map_option Send_To (udp_target default_peer d dst))
    (dst, encodings, data) d d' (sends @ [Reply outcome])"
proof (cases "udp_target default_peer d dst")
  case None
  then show ?thesis using assms by (simp add: request_answered_def transmit_bundle_udp_def)
next
  case (Some a)
  let ?g = "hl_generate lib (cf_callsign (hd_config d)) dst (Some encodings) (Some (cf_hailing_encodings (hd_config d)))
    (hd_next_msg_id d) data"
  show ?thesis
  proof (cases ?g)
    case (Inl e)
    then have "d' = d\<lparr>hd_next_msg_id := hd_next_msg_id d + 10\<rparr>" "outcome = Inl (Hqfbp e)" "sends = []"
      using assms Some by (simp_all add: transmit_bundle_udp_def next_pdus_def)
    then show ?thesis using Some Inl by (simp add: request_answered_def)
  next
    case (Inr pdus)
    obtain sent ok where send: "send_all io 0 pdus = (sent, ok)" by (metis surj_pair)
    have d': "d' = d\<lparr>hd_next_msg_id := hd_next_msg_id d + 10\<rparr>" "outcome = (if ok then Inr Sent else Inl Io)"
      "sends = map (Send_To a) sent"
      using assms Some Inr send by (auto simp: transmit_bundle_udp_def next_pdus_def)
    have "\<not> list_ex is_reply (map (Send_To a) xs)" for xs by (rule map_no_reply) simp
    then show ?thesis using send_all_spec [OF send] Some Inr unfolding d'
      by (auto simp: request_answered_def split: if_splits)
  qed
qed

lemma kiss_request:
  assumes "transmit_kiss lib failure io dst encodings data d = (outcome, d', sends)" "failure = Io \<or> failure = Serial"
  shows "request_answered lib (\<lambda>d dst. Some (\<lambda>p. Write (hl_kiss_encode lib p))) (dst, encodings, data) d d' (sends @ [Reply outcome])"
proof -
  let ?g = "hl_generate lib (cf_callsign (hd_config d)) dst (Some encodings) (Some (cf_hailing_encodings (hd_config d)))
    (hd_next_msg_id d) data"
  show ?thesis
  proof (cases ?g)
    case (Inl e)
    then have "d' = d\<lparr>hd_next_msg_id := hd_next_msg_id d + 10\<rparr>" "outcome = Inl (Hqfbp e)" "sends = []"
      using assms by (simp_all add: transmit_kiss_def next_pdus_def)
    then show ?thesis using Inl by (simp add: request_answered_def)
  next
    case (Inr pdus)
    obtain sent ok where send: "send_all io 0 (map (hl_kiss_encode lib) pdus) = (sent, ok)" by (metis surj_pair)
    have d': "d' = d\<lparr>hd_next_msg_id := hd_next_msg_id d + 10\<rparr>" "outcome = (if ok then Inr Sent else Inl failure)"
      "sends = map Write sent"
      using assms(1) Inr send by (auto simp: transmit_kiss_def next_pdus_def)
    have "\<not> list_ex is_reply (map (\<lambda>p. Write (hl_kiss_encode lib p)) xs)" for xs by (rule map_no_reply) simp
    then show ?thesis using send_all_spec [OF send] Inr assms(2) unfolding d'
      by (auto simp: request_answered_def take_map comp_def split: if_splits)
  qed
qed

section \<open>Runs\<close>

text \<open>The turns of a loop until one ends it, each with the state before, the state after and its effects.\<close>

fun turns :: "('ev \<Rightarrow> 's \<Rightarrow> bool \<times> 's \<times> 'eff list) \<Rightarrow> 'ev list \<Rightarrow> 's \<Rightarrow> ('ev \<times> 's \<times> 's \<times> 'eff list) list" where
  "turns step [] s = []"
| "turns step (ev # evs) s =
     (case step ev s of (goes_on, s', effects) \<Rightarrow> (ev, s, s', effects) # (if goes_on then turns step evs s' else []))"

text \<open>The identifiers the generator was given.\<close>

definition used_ids :: "('s \<Rightarrow> ('a, 'n, 'e, 'd) hq_driver) \<Rightarrow> ('ev \<times> 's \<times> 's \<times> 'eff list) list \<Rightarrow> u32 list" where
  "used_ids driver_of log =
     map (\<lambda>(_, s, _, _). hd_next_msg_id (driver_of s))
       (filter (\<lambda>(_, s, s', _). hd_next_msg_id (driver_of s') \<noteq> hd_next_msg_id (driver_of s)) log)"

lemma ids_distinct:
  assumes "i < 2 ^ 31" "j < 2 ^ 31" "x + 10 * of_nat i = (x :: u32) + 10 * of_nat j"
  shows "i = j"
proof -
  have eq: "(of_nat (10 * i) :: u32) = of_nat (10 * j)" using assms(3) by simp
  then have "(10 * i) mod 2 ^ 32 = (10 * j) mod 2 ^ 32"
    using word_of_nat_eq_iff [of "10 * i" "10 * j", where ?'a = 32] by (simp add: take_bit_eq_mod)
  then have "(5 * i) mod 2 ^ 31 = (5 * j) mod 2 ^ 31"
    using mod_mult_mult1 [of 2 "5 * i" "2 ^ 31"] mod_mult_mult1 [of 2 "5 * j" "2 ^ 31"] by simp
  then have "(5 * i * 1288490189) mod 2 ^ 31 = (5 * j * 1288490189) mod 2 ^ 31" by (metis mod_mult_left_eq)
  moreover have "(5 * k * 1288490189) mod 2 ^ 31 = k mod 2 ^ 31" for k :: nat
  proof -
    have "5 * k * 1288490189 = k + (3 * k) * 2 ^ 31" by simp
    then show ?thesis by (simp only: mod_mult_self1)
  qed
  ultimately show ?thesis using assms(1,2) by simp
qed

locale forward_loop =
  fixes step :: "'ev \<Rightarrow> 's \<Rightarrow> bool \<times> 's \<times> ('a, 'n) hq_effect list"
    and driver_of :: "'s \<Rightarrow> ('a, 'n, 'e, 'd) hq_driver"
    and request :: "'ev \<Rightarrow> 's \<Rightarrow> 'e forward_request option"
    and lib :: "('d, 'e, 'k) hq_codec"
    and wrap :: "('a, 'n, 'e, 'd) hq_driver \<Rightarrow> string option \<Rightarrow> (bytes \<Rightarrow> ('a, 'n) hq_effect) option"
  assumes step_ok: "step ev s = (goes_on, s', effects) \<Longrightarrow>
    forward_turn_ok lib wrap (request ev s) (driver_of s) (driver_of s') effects"
begin

lemma turns_ok: "list_all (\<lambda>(ev, s, s', effects). forward_turn_ok lib wrap (request ev s) (driver_of s) (driver_of s') effects) (turns step evs s)"
proof (induction evs arbitrary: s)
  case (Cons ev evs)
  obtain goes_on s' effects where one: "step ev s = (goes_on, s', effects)" by (metis prod_cases3)
  show ?case using Cons.IH [of s'] step_ok [OF one] by (simp add: one)
qed simp

lemma turns_within:
  "rx_ok (hd_rx_manager (driver_of s)) \<Longrightarrow>
    list_all (\<lambda>(ev, t, t', effects). rx_ok (hd_rx_manager (driver_of t')) \<and> same_limits (hd_rx_manager (driver_of s)) (hd_rx_manager (driver_of t')))
      (turns step evs s)"
proof (induction evs arbitrary: s)
  case (Cons ev evs)
  obtain goes_on s' effects where one: "step ev s = (goes_on, s', effects)" by (metis prod_cases3)
  have ok: "rx_ok (hd_rx_manager (driver_of s'))" "same_limits (hd_rx_manager (driver_of s)) (hd_rx_manager (driver_of s'))"
    using step_ok [OF one] Cons.prems by (simp_all add: forward_turn_ok_def)
  show ?case using Cons.IH [OF ok(1)] ok by (auto simp: one list_all_iff intro: same_limits_trans)
qed simp

lemma step_id:
  assumes "step ev s = (goes_on, s', effects)"
  shows "hd_next_msg_id (driver_of s') = hd_next_msg_id (driver_of s)
    \<or> hd_next_msg_id (driver_of s') = hd_next_msg_id (driver_of s) + 10"
  using step_ok [OF assms]
  by (auto simp: forward_turn_ok_def request_answered_def split: option.splits prod.splits)

lemma ids_run: "\<exists>n\<le>length evs. used_ids driver_of (turns step evs s) = map (\<lambda>i. hd_next_msg_id (driver_of s) + 10 * of_nat i) [0..<n]"
proof (induction evs arbitrary: s)
  case (Cons ev evs)
  obtain goes_on s' effects where one: "step ev s = (goes_on, s', effects)" by (metis prod_cases3)
  obtain n where n: "n \<le> length (if goes_on then evs else [])"
    "used_ids driver_of (if goes_on then turns step evs s' else []) = map (\<lambda>i. hd_next_msg_id (driver_of s') + 10 * of_nat i) [0..<n]"
    using Cons.IH [of s'] by (cases goes_on) (auto simp: used_ids_def)
  show ?case
  proof (cases "hd_next_msg_id (driver_of s') = hd_next_msg_id (driver_of s)")
    case True
    then show ?thesis using n by (intro exI [of _ n]) (auto simp: one used_ids_def split: if_splits)
  next
    case False
    then have id: "hd_next_msg_id (driver_of s') = hd_next_msg_id (driver_of s) + 10" using step_id [OF one] by blast
    have "[0..<Suc n] = 0 # map Suc [0..<n]" by (simp add: map_Suc_upt upt_conv_Cons del: upt_Suc)
    then show ?thesis using n False
      by (intro exI [of _ "Suc n"]) (auto simp: one used_ids_def id algebra_simps simp del: upt_Suc split: if_splits)
  qed
qed (simp add: used_ids_def)

lemma ids_fresh: "length evs \<le> 2 ^ 31 \<Longrightarrow> distinct (used_ids driver_of (turns step evs s))"
proof -
  assume len: "length evs \<le> 2 ^ 31"
  obtain n where n: "n \<le> length evs" "used_ids driver_of (turns step evs s) = map (\<lambda>i. hd_next_msg_id (driver_of s) + 10 * of_nat i) [0..<n]"
    using ids_run by blast
  have "inj_on (\<lambda>i. hd_next_msg_id (driver_of s) + 10 * of_nat i) (set [0..<n])"
    using len n(1) by (intro inj_onI ids_distinct) auto
  then show ?thesis by (simp add: n(2) distinct_map)
qed

end

section \<open>The three loops\<close>

fun udp_request_of :: "('a, 'n, 'e) udp_event \<Rightarrow> 'e forward_request option" where
  "udp_request_of (Command cmd io) = request_of cmd"
| "udp_request_of _ = None"

fun kiss_request_of :: "('a, 'n, 'e) hq_kiss_event \<Rightarrow> 'e forward_request option" where
  "kiss_request_of (Kiss_Command cmd io) = request_of cmd"
| "kiss_request_of _ = None"

text \<open>Commands are read while the TCP stream is open.\<close>

definition tcp_request_of :: "('a, 'n, 'e) tcp_event \<Rightarrow> ('a, 'n, 'e, 'd, 'k) tcp_link \<Rightarrow> 'e forward_request option" where
  "tcp_request_of ev l =
     (case ev of Stream e \<Rightarrow> if tl_decoder l = None then None else kiss_request_of e | _ \<Rightarrow> None)"

definition udp_wrap :: "'a option \<Rightarrow> ('a, 'n, 'e, 'd) hq_driver \<Rightarrow> string option \<Rightarrow> (bytes \<Rightarrow> ('a, 'n) hq_effect) option" where
  "udp_wrap default_peer d dst = map_option Send_To (udp_target default_peer d dst)"

definition kiss_wrap :: "('d, 'e, 'k) hq_codec \<Rightarrow> ('a, 'n, 'e, 'd) hq_driver \<Rightarrow> string option \<Rightarrow> (bytes \<Rightarrow> ('a, 'n) hq_effect) option" where
  "kiss_wrap lib d dst = Some (\<lambda>pdu. Write (hl_kiss_encode lib pdu))"

lemma udp_turn:
  assumes "hq_udp_step lib default_peer ev d = (goes_on, d', effects)"
  shows "forward_turn_ok lib (udp_wrap default_peer) (udp_request_of ev) d d' effects"
proof (cases ev)
  case (Sweep_Due now)
  then show ?thesis using assms by (auto simp: hq_udp_step_def sweep_turn)
next
  case (Packet now src bs)
  then show ?thesis using assms by (auto simp: hq_udp_step_def intro: packet_turn)
next
  case Receive_Failed
  then show ?thesis using assms by (auto simp: hq_udp_step_def idle_turn)
next
  case (Command c io)
  show ?thesis
  proof (cases c)
    case None
    then show ?thesis using assms Command by (auto simp: hq_udp_step_def idle_turn)
  next
    case (Some cmd)
    show ?thesis
    proof (cases cmd)
      case (Forward dst encodings data)
      obtain outcome d1 sends where t:
          "transmit_bundle_udp lib io (udp_target default_peer d dst) dst encodings data d = (outcome, d1, sends)"
        by (metis prod_cases3)
      have "d' = d1" "effects = sends @ [Reply outcome]" using assms Command Some Forward t by (auto simp: hq_udp_step_def)
      moreover have "hd_rx_manager d1 = hd_rx_manager d"
        using t by (auto simp: transmit_bundle_udp_def next_pdus_def split: option.splits sum.splits prod.splits)
      ultimately show ?thesis using udp_request [OF t] Command Some Forward
        by (simp add: forward_turn_ok_def udp_wrap_def [abs_def])
    qed (use assms Command Some peer_command_turn [of cmd lib "udp_wrap default_peer" d] in
        \<open>auto simp: hq_udp_step_def idle_turn simp del: peer_command.simps\<close>)
  qed
qed

definition octet_frame ::
    "('d, 'e, 'k) hq_codec \<Rightarrow> nat \<Rightarrow> bytes option \<Rightarrow> ('a, 'n, 'e, 'd) hq_driver \<Rightarrow> ('a, 'n, 'e, 'd) hq_driver \<times> ('a, 'n) hq_effect list" where
  "octet_frame lib now frame d =
     (case frame of
        Some frame \<Rightarrow> if data_frame frame then handle_incoming_packet lib now (tl frame) d else (d, [])
      | None \<Rightarrow> (d, []))"

lemma octet_frame_turn: "octet_frame lib now frame d = (d', effects) \<Longrightarrow> forward_turn_ok lib wrap None d d' effects"
  by (cases frame) (auto simp: octet_frame_def idle_turn intro: packet_turn split: if_splits)

lemma kiss_octets_Cons:
  assumes "hl_kiss_byte lib b k = (frame, k1)" "octet_frame lib now frame d = (d1, e1)" "kiss_octets lib now bs (d1, k1) = (w, e2)"
  shows "kiss_octets lib now (b # bs) (d, k) = (w, e1 @ e2)"
  using assms(2) unfolding octet_frame_def by (simp add: assms(1,3))

lemma octets_turn: "forward_turn_ok lib wrap None d (fst (fst (kiss_octets lib now bs (d, k)))) (snd (kiss_octets lib now bs (d, k)))"
proof (induction bs arbitrary: d k)
  case (Cons b bs)
  obtain frame k1 where byte: "hl_kiss_byte lib b k = (frame, k1)" by (metis surj_pair)
  obtain d1 e1 where one: "octet_frame lib now frame d = (d1, e1)" by (metis surj_pair)
  have split: "kiss_octets lib now (b # bs) (d, k) =
      (fst (kiss_octets lib now bs (d1, k1)), e1 @ snd (kiss_octets lib now bs (d1, k1)))"
    by (rule kiss_octets_Cons [OF byte one]) simp
  show ?case unfolding split fst_conv snd_conv by (rule forward_turn_trans [OF octet_frame_turn [OF one] Cons.IH])
qed (simp add: idle_turn)

lemma kiss_turn:
  assumes "hq_kiss_step lib failure ev (d, k) = (end_of_turn, (d', k'), effects)" and "failure = Io \<or> failure = Serial"
  shows "forward_turn_ok lib (kiss_wrap lib) (kiss_request_of ev) d d' effects"
proof (cases ev)
  case (Kiss_Sweep now)
  then show ?thesis using assms by (auto simp: hq_kiss_step_def sweep_turn)
next
  case (Kiss_Read now r)
  then have "(d', k') = (d, k) \<and> effects = [] \<or> (\<exists>bs. kiss_octets lib now bs (d, k) = ((d', k'), effects))"
    using assms by (auto simp: hq_kiss_step_def split: option.splits if_splits)
  then show ?thesis
  proof
    assume "(d', k') = (d, k) \<and> effects = []"
    then show ?thesis using Kiss_Read by (simp add: idle_turn)
  next
    assume "\<exists>bs. kiss_octets lib now bs (d, k) = ((d', k'), effects)"
    then obtain bs where "kiss_octets lib now bs (d, k) = ((d', k'), effects)" by blast
    then show ?thesis using octets_turn [of lib _ d now bs k] Kiss_Read by simp
  qed
next
  case (Kiss_Command c io)
  show ?thesis
  proof (cases c)
    case None
    then show ?thesis using assms Kiss_Command by (auto simp: hq_kiss_step_def idle_turn)
  next
    case (Some cmd)
    show ?thesis
    proof (cases cmd)
      case (Forward dst encodings data)
      obtain outcome d1 sends where t: "transmit_kiss lib failure io dst encodings data d = (outcome, d1, sends)"
        by (metis prod_cases3)
      have "d' = d1" "effects = sends @ [Reply outcome]" using assms Kiss_Command Some Forward t by (auto simp: hq_kiss_step_def)
      moreover have "hd_rx_manager d1 = hd_rx_manager d"
        using t by (auto simp: transmit_kiss_def next_pdus_def split: sum.splits prod.splits)
      ultimately show ?thesis using kiss_request [OF t assms(2)] Kiss_Command Some Forward
        by (simp add: forward_turn_ok_def kiss_wrap_def [abs_def])
    qed (use assms Kiss_Command Some peer_command_turn [of cmd lib "kiss_wrap lib" d] in
        \<open>auto simp: hq_kiss_step_def idle_turn simp del: peer_command.simps\<close>)
  qed
qed

lemma tcp_turn:
  assumes "hq_tcp_turn lib port params reconnect_initial reconnect_max ev l = (goes_on, l', effects)"
  shows "forward_turn_ok lib (kiss_wrap lib) (tcp_request_of ev l) (tl_driver l) (tl_driver l') effects"
proof (cases ev)
  case (Connect_Result r)
  have "\<not> list_ex is_reply (map Write xs)" for xs by (rule map_no_reply) simp
  then show ?thesis using assms Connect_Result
    by (auto simp: hq_tcp_turn_def hq_tcp_step_def tcp_request_of_def forward_turn_ok_def split: option.splits connect_next.splits)
next
  case (Stream e)
  show ?thesis
  proof (cases "tl_decoder l")
    case None
    then show ?thesis using assms Stream by (auto simp: hq_tcp_turn_def hq_tcp_step_def tcp_request_of_def idle_turn)
  next
    case (Some k)
    obtain r d' k' effs where one: "hq_kiss_step lib Io e (tl_driver l, k) = (r, (d', k'), effs)" by (metis surj_pair)
    have "tl_driver l' = d'" "effects = effs"
      using assms Stream Some one by (auto simp: hq_tcp_turn_def hq_tcp_step_def split: if_splits)
    then show ?thesis using kiss_turn [OF one] Stream Some by (simp add: tcp_request_of_def)
  qed
qed

interpretation hq_udp: forward_loop "hq_udp_step lib default_peer" "\<lambda>d. d" "\<lambda>ev d. udp_request_of ev" lib "udp_wrap default_peer"
  for lib default_peer
  by unfold_locales (rule udp_turn)

interpretation hq_tcp: forward_loop "hq_tcp_turn lib port params reconnect_initial reconnect_max" tl_driver tcp_request_of lib "kiss_wrap lib"
  for lib port params reconnect_initial reconnect_max
  by unfold_locales (rule tcp_turn)

lemma serial_turn:
  assumes "hq_serial_turn lib ev w = (goes_on, w', effects)"
  shows "forward_turn_ok lib (kiss_wrap lib) (kiss_request_of ev) (fst w) (fst w') effects"
proof -
  obtain r w1 e1 where one: "hq_kiss_step lib Serial ev w = (r, w1, e1)" by (metis prod_cases3)
  then have "w1 = w'" "e1 = effects" using assms by (simp_all add: hq_serial_turn_def)
  then have "hq_kiss_step lib Serial ev (fst w, snd w) = (r, (fst w', snd w'), effects)" using one by simp
  from kiss_turn [OF this] show ?thesis by simp
qed

interpretation hq_serial: forward_loop "hq_serial_turn lib" fst "\<lambda>ev w. kiss_request_of ev" lib "kiss_wrap lib" for lib
  by unfold_locales (rule serial_turn)

section \<open>Properties\<close>

lemma configured_rx:
  "\<exists>x. hd_rx_manager (fold (add_configured_peer lib) peers d) = hd_rx_manager d\<lparr>rx_deframer := x\<rparr>"
proof (induction peers arbitrary: d)
  case Nil
  have "hd_rx_manager d = hd_rx_manager d\<lparr>rx_deframer := rx_deframer (hd_rx_manager d)\<rparr>" by simp
  then show ?case by (metis fold_simps(1))
next
  case (Cons p peers)
  have "\<exists>x. hd_rx_manager (add_configured_peer lib p d) = hd_rx_manager d\<lparr>rx_deframer := x\<rparr>"
  proof (cases "hp_encodings p")
    case None
    then have "hd_rx_manager (add_configured_peer lib p d) = hd_rx_manager d\<lparr>rx_deframer := rx_deframer (hd_rx_manager d)\<rparr>"
      by (simp add: add_configured_peer_def)
    then show ?thesis ..
  next
    case (Some encs)
    then have "hd_rx_manager (add_configured_peer lib p d) =
        hd_rx_manager d\<lparr>rx_deframer := hl_register lib (hp_callsign p) encs (rx_deframer (hd_rx_manager d))\<rparr>"
      by (simp add: add_configured_peer_def register_peer_encodings_def)
    then show ?thesis ..
  qed
  then show ?case using Cons.IH [of "add_configured_peer lib p d"] by auto
qed

lemma driver_new_rx:
  "rx_ok (hd_rx_manager (hq_driver_new lib config))
   \<and> rx_max_concurrent_senders (hd_rx_manager (hq_driver_new lib config)) = cf_max_concurrent_senders config
   \<and> rx_max_in_flight_bytes (hd_rx_manager (hq_driver_new lib config)) = cf_max_in_flight_bytes config"
proof -
  let ?d = "\<lparr>hd_config = config,
        hd_rx_manager = rx_new (hl_new_deframer lib) (cf_max_concurrent_senders config) (cf_max_in_flight_bytes config)
                          (cf_session_ttl config),
        hd_next_msg_id = cf_initial_msg_id config, hd_callsign_to_addr = Map.empty, hd_addr_to_callsign = Map.empty,
        hd_callsign_to_node = Map.empty\<rparr>"
  obtain x where "hd_rx_manager (hq_driver_new lib config) = hd_rx_manager ?d\<lparr>rx_deframer := x\<rparr>"
    unfolding hq_driver_new_def using configured_rx [of lib "cf_peers config" ?d] by blast
  then show ?thesis by (simp add: rx_new_ok) (simp add: rx_new_def)
qed

text \<open>
  What is shown of a run: in every turn a request to forward a bundle is answered as \<open>request_answered\<close> says and nothing
  else is answered, the receiver keeps within the limits of the configuration, and no identifier is used twice.
\<close>

definition run_answered where
  "run_answered lib config wrap driver_of request log \<longleftrightarrow>
     list_all (\<lambda>(ev, s, s', effects).
       (case request ev s of
          Some req \<Rightarrow> request_answered lib wrap req (driver_of s) (driver_of s') effects
        | None \<Rightarrow> \<not> list_ex is_reply effects)
       \<and> length (rx_senders (hd_rx_manager (driver_of s'))) \<le> max 1 (cf_max_concurrent_senders config)
       \<and> rx_total_buffered_bytes (hd_rx_manager (driver_of s')) \<le> cf_max_in_flight_bytes config) log
     \<and> distinct (used_ids driver_of log)"

lemma run_answeredI:
  assumes "list_all (\<lambda>(ev, s, s', effects). forward_turn_ok lib wrap (request ev s) (driver_of s) (driver_of s') effects) log"
    and "list_all (\<lambda>(ev, t, t', effects). rx_ok (hd_rx_manager (driver_of t'))
      \<and> same_limits (hd_rx_manager (hq_driver_new lib config)) (hd_rx_manager (driver_of t'))) log"
    and "distinct (used_ids driver_of log)"
  shows "run_answered lib config wrap driver_of request log"
  unfolding run_answered_def
proof (intro conjI list_all_iff [THEN iffD2] ballI assms(3))
  fix x assume x: "x \<in> set log"
  obtain ev s s' effects where x4: "x = (ev, s, s', effects)" by (metis prod_cases4)
  have "forward_turn_ok lib wrap (request ev s) (driver_of s) (driver_of s') effects"
    and rx: "rx_ok (hd_rx_manager (driver_of s'))" "same_limits (hd_rx_manager (hq_driver_new lib config)) (hd_rx_manager (driver_of s'))"
    using assms(1,2) x unfolding list_all_iff x4 by blast+
  then show "case x of (ev, s, s', effects) \<Rightarrow>
       (case request ev s of
          Some req \<Rightarrow> request_answered lib wrap req (driver_of s) (driver_of s') effects
        | None \<Rightarrow> \<not> list_ex is_reply effects)
       \<and> length (rx_senders (hd_rx_manager (driver_of s'))) \<le> max 1 (cf_max_concurrent_senders config)
       \<and> rx_total_buffered_bytes (hd_rx_manager (driver_of s')) \<le> cf_max_in_flight_bytes config"
    using driver_new_rx [of lib config] unfolding x4 by (auto simp: forward_turn_ok_def rx_ok_def same_limits_def split: option.splits)
qed

text \<open>C34: The HQFBP driver answers every request and stays within its limits.  Whatever the order of datagrams or
  octets, sweeps, commands, failures and reconnections, over UDP, KISS TCP and a serial port: each request to forward a bundle is
  answered exactly once, after its transmissions; the answer is that it was sent exactly if all PDUs that the library makes of it under
  the identifier of its turn went out, in order, to the address of the callsign or else the default peer; if none
  is known nothing is sent and the state is unchanged; on an error a proper part was sent; nothing else is answered.  In 2^31 turns no
  identifier is given to two bundles, and the receiver never exceeds its limits.\<close>

theorem hq_requests_answered:
  assumes "length udp_evs \<le> 2 ^ 31" "length tcp_evs \<le> 2 ^ 31" "length serial_evs \<le> 2 ^ 31"
  shows "run_answered lib config (udp_wrap default_peer) (\<lambda>d. d) (\<lambda>ev d. udp_request_of ev)
      (turns (hq_udp_step lib default_peer) udp_evs (hq_driver_new lib config))
    \<and> run_answered lib config (kiss_wrap lib) tl_driver tcp_request_of
      (turns (hq_tcp_turn lib port params reconnect_initial reconnect_max) tcp_evs
        (tcp_link_new reconnect_initial (hq_driver_new lib config)))
    \<and> run_answered lib config (kiss_wrap lib) fst (\<lambda>ev w. kiss_request_of ev)
      (turns (hq_serial_turn lib) serial_evs (hq_driver_new lib config, hl_kiss_new lib))"
proof (intro conjI)
  have ok: "rx_ok (hd_rx_manager (hq_driver_new lib config))" by (simp add: driver_new_rx)
  show "run_answered lib config (udp_wrap default_peer) (\<lambda>d. d) (\<lambda>ev d. udp_request_of ev)
      (turns (hq_udp_step lib default_peer) udp_evs (hq_driver_new lib config))"
    by (rule run_answeredI [OF hq_udp.turns_ok hq_udp.turns_within [OF ok] hq_udp.ids_fresh [OF assms(1)]])
  let ?l = "tcp_link_new reconnect_initial (hq_driver_new lib config)"
  have l: "tl_driver ?l = hq_driver_new lib config" by (simp add: tcp_link_new_def)
  show "run_answered lib config (kiss_wrap lib) tl_driver tcp_request_of
      (turns (hq_tcp_turn lib port params reconnect_initial reconnect_max) tcp_evs ?l)"
    by (rule run_answeredI [OF hq_tcp.turns_ok hq_tcp.turns_within [where s = ?l, unfolded l, OF ok] hq_tcp.ids_fresh [OF assms(2)]])
  let ?w = "(hq_driver_new lib config, hl_kiss_new lib)"
  show "run_answered lib config (kiss_wrap lib) fst (\<lambda>ev w. kiss_request_of ev) (turns (hq_serial_turn lib) serial_evs ?w)"
    by (rule run_answeredI [OF hq_serial.turns_ok hq_serial.turns_within [where s = ?w, unfolded fst_conv, OF ok] hq_serial.ids_fresh [OF assms(3)]])
qed

definition demo_codec :: "(unit, nat, unit) hq_codec" where
  "demo_codec = \<lparr>hl_session = \<lparr>unpack = (\<lambda>_. None), receive_bytes = (\<lambda>_ d. d), drain_events = (\<lambda>d. ([], d)), cleanup_expired = (\<lambda>_ d. (0, d))\<rparr>,
     hl_new_deframer = (), hl_register = (\<lambda>_ _ d. d), hl_unregister = (\<lambda>_ d. d), hl_encodings = (\<lambda>_ _. None),
     hl_generate = (\<lambda>_ _ _ _ msg_id data. Inr [ucast msg_id # data]), hl_kiss_new = (), hl_kiss_byte = (\<lambda>_ k. (None, k)),
     hl_kiss_encode = (\<lambda>bs. bs)\<rparr>"

definition demo_hq_config :: "(nat, nat, nat) hq_config" where
  "demo_hq_config = default_hq_config \<lparr>el_h = 0, el_crc32 = 1, el_chunk = unat\<rparr> 0"

definition demo_log where
  "demo_log = turns (hq_udp_step demo_codec (Some 9)) [Command (Some (Forward None [] [5])) (\<lambda>_. True), Command (Some (Forward None [] [6])) (\<lambda>_. True)]
     (hq_driver_new demo_codec demo_hq_config)"

lemma hq_requests_answered_witness:
  "run_answered demo_codec demo_hq_config (udp_wrap (Some 9)) (\<lambda>d. d) (\<lambda>ev d. udp_request_of ev) demo_log \<and> length demo_log = 2"
proof
  show "run_answered demo_codec demo_hq_config (udp_wrap (Some 9)) (\<lambda>d. d) (\<lambda>ev d. udp_request_of ev) demo_log"
    unfolding demo_log_def
    by (rule hq_requests_answered [where tcp_evs = "[]" and serial_evs = "[]" and tcp_evs = "[]", THEN conjunct1]) simp_all
  show "length demo_log = 2" by (simp add: demo_log_def hq_udp_step_def split: prod.split)
qed

end
