(* ===== verification/Hqfbp_Cla.thy ===== *)
theory Hqfbp_Cla
  imports Hqfbp_Driver
begin

text \<open>
  The HQFBP adapter towards the bundle node (\<^verbatim>\<open>hqfbp-cla/src/cla.rs\<close>): its tables of peers and encodings, what it tells
  the driver, and how a bundle is forwarded.  What it does to the node and the driver is a list of effects;
  \<open>opened\<close> says whether the driver still takes commands.
\<close>

section \<open>State\<close>

record 'a cla_inner =
  ci_local_addr :: 'a
  ci_max_bundle_size :: "u64 option"

record ('a, 'n, 'e, 'i) hqfbp_cla =
  hc_config :: "('a, 'n, 'e) hq_config"
  hc_inner :: "'a cla_inner option"
  hc_peer_mappings :: "'a hq_address \<rightharpoonup> string"
  hc_peer_encodings :: "string \<rightharpoonup> 'e list"
  hc_default_encodings :: "'e list"
  hc_encoding_selector :: "('i, 'e) selector"

datatype cla_failure = Not_Registered | Driver_Closed | Driver_Failed driver_error

datatype cla_error = Disconnected | Too_Large u64 u64 | Buffer_Failed | Internal cla_failure

datatype ('a, 'n, 'e) cla_effect =
    Add_Peer "'a hq_address" 'n
  | Remove_Peer "'a hq_address"
  | Spawn_Driver "('a, 'n, 'e) hq_config"
  | Tell_Driver "('a, 'n, 'e) hq_command"
  | Unregister_Sink

definition hqfbp_cla_new :: "('a, 'n, 'e) hq_config \<Rightarrow> ('a, 'n, 'e, 'i) hqfbp_cla" where
  "hqfbp_cla_new config =
     \<lparr>hc_config = config, hc_inner = None, hc_peer_mappings = Map.empty,
      hc_peer_encodings =
        fold (\<lambda>peer m. case hp_encodings peer of Some encs \<Rightarrow> m(hp_callsign peer \<mapsto> encs) | None \<Rightarrow> m) (cf_peers config) Map.empty,
      hc_default_encodings = cf_default_bundle_encodings config, hc_encoding_selector = select_encodings Map.empty\<rparr>"

definition hq_local_addr :: "('a, 'n, 'e, 'i) hqfbp_cla \<Rightarrow> cla_failure + 'a" where
  "hq_local_addr c = (case hc_inner c of None \<Rightarrow> Inl Not_Registered | Some inner \<Rightarrow> Inr (ci_local_addr inner))"

section \<open>Changing the tables\<close>

text \<open>A command for the driver, if the adapter is registered.\<close>

definition tell_driver ::
    "bool \<Rightarrow> ('a, 'n, 'e) hq_command \<Rightarrow> ('a, 'n, 'e, 'i) hqfbp_cla \<Rightarrow> ('a, 'n, 'e) cla_effect list
      \<Rightarrow> (cla_failure + unit) \<times> ('a, 'n, 'e, 'i) hqfbp_cla \<times> ('a, 'n, 'e) cla_effect list" where
  "tell_driver opened cmd c effects =
     (case hc_inner c of
        None \<Rightarrow> (Inr (), c, [])
      | Some inner \<Rightarrow> if opened then (Inr (), c, effects @ [Tell_Driver cmd]) else (Inl Driver_Closed, c, effects))"

definition set_default_bundle_encodings where
  "set_default_bundle_encodings opened encodings c =
     tell_driver opened (SetDefaultEncodings encodings) (c\<lparr>hc_default_encodings := encodings\<rparr>) []"

definition set_peer_encodings where
  "set_peer_encodings opened callsign encodings c =
     tell_driver opened (SetPeerEncodings callsign encodings)
       (c\<lparr>hc_peer_encodings := (hc_peer_encodings c)(callsign \<mapsto> encodings)\<rparr>) []"

definition set_encoding_selector :: "('i, 'e) selector \<Rightarrow> ('a, 'n, 'e, 'i) hqfbp_cla \<Rightarrow> ('a, 'n, 'e, 'i) hqfbp_cla" where
  "set_encoding_selector sel c = c\<lparr>hc_encoding_selector := sel\<rparr>"

definition add_mapping :: "string \<Rightarrow> 'a option \<Rightarrow> ('a hq_address \<rightharpoonup> string) \<Rightarrow> ('a hq_address \<rightharpoonup> string)" where
  "add_mapping callsign addr m =
     (let m = m(callsign_to_cla_address callsign \<mapsto> callsign)
      in case addr of Some a \<Rightarrow> m(Tcp a \<mapsto> callsign) | None \<Rightarrow> m)"

definition register_peer where
  "register_peer opened callsign addr node_id c =
     tell_driver opened (RegisterPeer callsign addr node_id)
       (c\<lparr>hc_peer_mappings := add_mapping callsign addr (hc_peer_mappings c)\<rparr>)
       (case node_id of Some nid \<Rightarrow> [Add_Peer (callsign_to_cla_address callsign) nid] | None \<Rightarrow> [])"

definition unregister_peer where
  "unregister_peer opened callsign c =
     tell_driver opened (UnregisterPeer callsign)
       (c\<lparr>hc_peer_mappings := (hc_peer_mappings c)(callsign_to_cla_address callsign := None),
          hc_peer_encodings := (hc_peer_encodings c)(callsign := None)\<rparr>)
       [Remove_Peer (callsign_to_cla_address callsign)]"

section \<open>Registration\<close>

text \<open>\<open>bound\<close> is the address the driver reports, absent if it fails.\<close>

definition hq_on_register ::
    "'a option \<Rightarrow> u64 option \<Rightarrow> ('a, 'n, 'e, 'i) hqfbp_cla \<Rightarrow> ('a, 'n, 'e, 'i) hqfbp_cla \<times> ('a, 'n, 'e) cla_effect list" where
  "hq_on_register bound max_bundle_size c =
     (case bound of
        None \<Rightarrow> (c, [Spawn_Driver (hc_config c)])
      | Some local_addr \<Rightarrow>
          (c\<lparr>hc_peer_mappings := fold (\<lambda>peer. add_mapping (hp_callsign peer) (hp_address peer)) (cf_peers (hc_config c)) (hc_peer_mappings c),
             hc_inner := Some \<lparr>ci_local_addr = local_addr, ci_max_bundle_size = max_bundle_size\<rparr>\<rparr>,
           Spawn_Driver (hc_config c)
           # concat (map (\<lambda>peer. case hp_node_id peer of
                             Some nid \<Rightarrow> [Add_Peer (callsign_to_cla_address (hp_callsign peer)) nid]
                           | None \<Rightarrow> []) (cf_peers (hc_config c)))))"

definition hq_unregister :: "('a, 'n, 'e, 'i) hqfbp_cla \<Rightarrow> ('a, 'n, 'e, 'i) hqfbp_cla \<times> ('a, 'n, 'e) cla_effect list" where
  "hq_unregister c =
     (case hc_inner c of
        None \<Rightarrow> (c, [])
      | Some _ \<Rightarrow> (c\<lparr>hc_inner := None\<rparr>, [Unregister_Sink, Tell_Driver Shutdown]))"

definition hq_on_unregister :: "('a, 'n, 'e, 'i) hqfbp_cla \<Rightarrow> ('a, 'n, 'e, 'i) hqfbp_cla \<times> ('a, 'n, 'e) cla_effect list" where
  "hq_on_unregister c =
     (case hc_inner c of None \<Rightarrow> (c, []) | Some _ \<Rightarrow> (c\<lparr>hc_inner := None\<rparr>, [Tell_Driver Shutdown]))"

section \<open>Forwarding\<close>

definition resolve_callsign :: "('a, 'n, 'e, 'i) hqfbp_cla \<Rightarrow> 'a hq_address \<Rightarrow> string option" where
  "resolve_callsign c cla_addr =
     (case hc_peer_mappings c cla_addr of
        Some call \<Rightarrow> Some call
      | None \<Rightarrow>
          (case cla_address_to_callsign cla_addr of
             Some call \<Rightarrow> if is_broadcast_callsign call then None else Some call
           | None \<Rightarrow> None))"

definition resolve_encodings where
  "resolve_encodings c dst_callsign lane bundle_id total_len =
     (case (case dst_callsign of Some call \<Rightarrow> hc_peer_encodings c call | None \<Rightarrow> None) of
        Some encs \<Rightarrow> encs
      | None \<Rightarrow> hc_encoding_selector c dst_callsign lane bundle_id total_len (hc_default_encodings c))"

definition too_large :: "'a cla_inner \<Rightarrow> u64 \<Rightarrow> cla_error option" where
  "too_large inner total_len =
     (case ci_max_bundle_size inner of
        Some cap \<Rightarrow> if cap < total_len then Some (Too_Large total_len cap) else None
      | None \<Rightarrow> None)"

text \<open>The command for a bundle; \<open>buffered\<close> is what the stream holds, absent if reading it fails.\<close>

definition forward_command ::
    "bool \<Rightarrow> u32 option \<Rightarrow> 'a hq_address \<Rightarrow> 'i \<Rightarrow> u64 \<Rightarrow> bytes option \<Rightarrow> ('a, 'n, 'e, 'i) hqfbp_cla
      \<Rightarrow> cla_error + ('a, 'n, 'e) hq_command" where
  "forward_command opened lane cla_addr bundle_id total_len buffered c =
     (case hc_inner c of
        None \<Rightarrow> Inl Disconnected
      | Some inner \<Rightarrow>
          (case too_large inner total_len of
             Some e \<Rightarrow> Inl e
           | None \<Rightarrow>
               let dst_callsign = resolve_callsign c cla_addr;
                   encodings = resolve_encodings c dst_callsign lane bundle_id total_len
               in case buffered of
                    None \<Rightarrow> Inl Buffer_Failed
                  | Some bundle_bytes \<Rightarrow>
                      if opened then Inr (Forward dst_callsign encodings bundle_bytes) else Inl (Internal Driver_Closed)))"

text \<open>What the node is told; the reply is absent if the driver ended without one.\<close>

definition forward_outcome :: "(driver_error + forward_result) option \<Rightarrow> cla_error + forward_result" where
  "forward_outcome reply =
     (case reply of
        None \<Rightarrow> Inl (Internal Driver_Closed)
      | Some (Inl e) \<Rightarrow> Inl (Internal (Driver_Failed e))
      | Some (Inr r) \<Rightarrow> Inr r)"

section \<open>The adapter and its driver\<close>

text \<open>Commands wait in a queue that the driver takes from in turns of its loop.\<close>

record ('a, 'n, 'e, 'i, 'd) hq_system =
  sy_cla :: "('a, 'n, 'e, 'i) hqfbp_cla"
  sy_queue :: "('a, 'n, 'e) hq_command list"
  sy_driver :: "('a, 'n, 'e, 'd) hq_driver"

datatype ('a, 'n, 'e, 'i) system_op =
    Set_Default "'e list"
  | Set_Peer string "'e list"
  | Register_Peer string "'a option" "'n option"
  | Unregister_Peer string
  | Forward_Bundle "u32 option" "'a hq_address" 'i u64 "bytes option"
  | Take_Command "nat \<Rightarrow> bool"
  | Sweep_Turn nat
  | Packet_Turn nat 'a bytes

definition commands_of :: "('a, 'n, 'e) cla_effect list \<Rightarrow> ('a, 'n, 'e) hq_command list" where
  "commands_of effects = concat (map (\<lambda>e. case e of Tell_Driver cmd \<Rightarrow> [cmd] | _ \<Rightarrow> []) effects)"

definition after_call ::
    "(cla_failure + unit) \<times> ('a, 'n, 'e, 'i) hqfbp_cla \<times> ('a, 'n, 'e) cla_effect list \<Rightarrow> ('a, 'n, 'e, 'i, 'd) hq_system
      \<Rightarrow> ('a, 'n, 'e, 'i, 'd) hq_system" where
  "after_call result s = (case result of (_, c, effects) \<Rightarrow> s\<lparr>sy_cla := c, sy_queue := sy_queue s @ commands_of effects\<rparr>)"

definition driver_turn ::
    "('d, 'e, 'k) hq_codec \<Rightarrow> 'a option \<Rightarrow> ('a, 'n, 'e) udp_event \<Rightarrow> ('a, 'n, 'e, 'i, 'd) hq_system
      \<Rightarrow> ('a, 'n, 'e, 'i, 'd) hq_system" where
  "driver_turn lib default_peer ev s = (case hq_udp_step lib default_peer ev (sy_driver s) of (_, d, _) \<Rightarrow> s\<lparr>sy_driver := d\<rparr>)"

fun system_step ::
    "('d, 'e, 'k) hq_codec \<Rightarrow> 'a option \<Rightarrow> ('a, 'n, 'e, 'i) system_op \<Rightarrow> ('a, 'n, 'e, 'i, 'd) hq_system
      \<Rightarrow> ('a, 'n, 'e, 'i, 'd) hq_system" where
  "system_step lib peer (Set_Default encs) s = after_call (set_default_bundle_encodings True encs (sy_cla s)) s"
| "system_step lib peer (Set_Peer callsign encs) s = after_call (set_peer_encodings True callsign encs (sy_cla s)) s"
| "system_step lib peer (Register_Peer callsign addr nid) s = after_call (register_peer True callsign addr nid (sy_cla s)) s"
| "system_step lib peer (Unregister_Peer callsign) s = after_call (unregister_peer True callsign (sy_cla s)) s"
| "system_step lib peer (Forward_Bundle lane addr i len data) s =
     (case forward_command True lane addr i len data (sy_cla s) of
        Inl _ \<Rightarrow> s
      | Inr cmd \<Rightarrow> s\<lparr>sy_queue := sy_queue s @ [cmd]\<rparr>)"
| "system_step lib peer (Take_Command io) s =
     (case sy_queue s of
        [] \<Rightarrow> s
      | cmd # q \<Rightarrow> driver_turn lib peer (Command (Some cmd) io) (s\<lparr>sy_queue := q\<rparr>))"
| "system_step lib peer (Sweep_Turn now) s = driver_turn lib peer (Sweep_Due now) s"
| "system_step lib peer (Packet_Turn now src bs) s = driver_turn lib peer (Packet now src bs) s"

text \<open>The system after a successful registration.\<close>

definition system_new ::
    "('d, 'e, 'k) hq_codec \<Rightarrow> ('a, 'n, 'e) hq_config \<Rightarrow> 'a \<Rightarrow> u64 option \<Rightarrow> ('a, 'n, 'e, 'i, 'd) hq_system" where
  "system_new lib config local_addr max_bundle_size =
     \<lparr>sy_cla = fst (hq_on_register (Some local_addr) max_bundle_size (hqfbp_cla_new config)), sy_queue = [],
      sy_driver = hq_driver_new lib config\<rparr>"

section \<open>The encodings on both sides\<close>

text \<open>The documented behaviour of the deframer's table of peer encodings.\<close>

definition encodings_table :: "('d, 'e, 'k) hq_codec \<Rightarrow> bool" where
  "encodings_table lib \<longleftrightarrow>
     hl_encodings lib (hl_new_deframer lib) = Map.empty
     \<and> (\<forall>d c encs. hl_encodings lib (hl_register lib c encs d) = (hl_encodings lib d)(c \<mapsto> encs))
     \<and> (\<forall>d c. hl_encodings lib (hl_unregister lib c d) = (hl_encodings lib d)(c := None))
     \<and> (\<forall>d bs. hl_encodings lib (receive_bytes (hl_session lib) bs d) = hl_encodings lib d)
     \<and> (\<forall>d. hl_encodings lib (snd (drain_events (hl_session lib) d)) = hl_encodings lib d)
     \<and> (\<forall>d t. hl_encodings lib (snd (cleanup_expired (hl_session lib) t d)) = hl_encodings lib d)"

definition driver_encodings :: "('d, 'e, 'k) hq_codec \<Rightarrow> ('a, 'n, 'e, 'd) hq_driver \<Rightarrow> string \<rightharpoonup> 'e list" where
  "driver_encodings lib d = peer_encodings lib (hd_rx_manager d)"

text \<open>The part of the receiver that only the library changes.\<close>

lemma fold_event_deframer: "rx_deframer (snd (fold (handle_event now) events (l, m))) = rx_deframer m"
proof (induction events arbitrary: l m)
  case (Cons e events)
  obtain l1 m1 where one: "handle_event now e (l, m) = (l1, m1)" by (metis surj_pair)
  have "rx_deframer (release_sender now src mid x) = rx_deframer x" for src mid and x :: "'a rx_manager"
    by (simp add: release_sender_def Let_def split: option.split prod.split)
  then have "rx_deframer m1 = rx_deframer m"
    using one by (cases e) (auto simp: Let_def split: option.splits if_splits)
  then show ?case using Cons.IH [of l1 m1] one by simp
qed simp

text \<open>A view of the deframer that its own operations keep is kept by the receiver.\<close>

definition view_kept :: "'d hqfbp_lib \<Rightarrow> ('d \<Rightarrow> 'v) \<Rightarrow> bool" where
  "view_kept lib view \<longleftrightarrow> (\<forall>bs d. view (receive_bytes lib bs d) = view d)
     \<and> (\<forall>d. view (snd (drain_events lib d)) = view d) \<and> (\<forall>t d. view (snd (cleanup_expired lib t d)) = view d)"

lemma purge_kept: "view_kept lib view \<Longrightarrow> view (purge lib ids d) = view d"
  unfolding purge_def by (induction ids arbitrary: d) (simp_all add: view_kept_def)

lemma evict_kept: "view_kept lib view \<Longrightarrow> view (rx_deframer (snd (evict_oldest_sender lib skip m))) = view (rx_deframer m)"
  by (simp add: evict_oldest_sender_def Let_def purge_kept split: option.split)

lemma make_room_kept:
  assumes "view_kept lib view"
  shows "view (rx_deframer (snd (make_room lib s len m))) = view (rx_deframer m)"
proof (induction "length (rx_lru_senders m)" arbitrary: m rule: less_induct)
  case less
  obtain ok m1 where evict: "evict_oldest_sender lib (Some s) m = (ok, m1)" by (metis surj_pair)
  have kept: "view (rx_deframer m1) = view (rx_deframer m)" using evict_kept [OF assms, of "Some s" m] by (simp add: evict)
  show ?case
  proof (cases ok)
    case True
    have "length (rx_lru_senders m1) < length (rx_lru_senders m)" using evict True by (auto dest: evict_lru)
    from less [OF this] show ?thesis using kept evict True by (simp add: make_room.simps [of lib s len m])
  next
    case False
    then show ?thesis using kept evict by (simp add: make_room.simps [of lib s len m])
  qed
qed

lemma poll_kept: "view_kept lib view \<Longrightarrow> view (rx_deframer (poll_deframer_events lib now m)) = view (rx_deframer m)"
  by (simp add: poll_deframer_events_def case_prod_beta fold_event_deframer view_kept_def)

lemma drain_messages_kept: "view_kept lib view \<Longrightarrow> view (rx_deframer (snd (drain_completed_messages lib now m))) = view (rx_deframer m)"
  by (simp add: drain_completed_messages_def Let_def poll_kept)

lemma forget_kept: "view (rx_deframer (fold forget_sender ss m)) = view (rx_deframer m)"
proof (induction ss arbitrary: m)
  case (Cons s ss)
  have "rx_deframer (forget_sender s m) = rx_deframer m" by (simp add: forget_sender_def Let_def split: option.split)
  then show ?case using Cons by simp
qed simp

lemma sweep_kept: "view_kept lib view \<Longrightarrow> view (rx_deframer (snd (sweep_expired_at lib now timeout m))) = view (rx_deframer m)"
  by (simp add: sweep_expired_at_def Let_def case_prod_beta forget_kept view_kept_def)

lemma process_kept:
  assumes kept: "view_kept lib view"
  shows "view (rx_deframer (snd (process_pdu lib now pdu m))) = view (rx_deframer m)"
proof (cases "rx_max_in_flight_bytes m < length pdu")
  case False
  define peek where "peek = (case unpack lib pdu of
                    Some h \<Rightarrow> (hh_src_callsign h, or_else (hh_original_message_id h) (hh_message_id h))
                  | None \<Rightarrow> (None, None))"
  define m1 where "m1 = (if bt_get (rx_senders m) (fst peek) = None \<and> rx_max_concurrent_senders m \<le> length (rx_senders m)
                               then snd (evict_oldest_sender lib None m) else m)"
  obtain ok m2 where room: "make_room lib (fst peek) (length pdu) m1 = (ok, m2)" by (metis surj_pair)
  have "view (rx_deframer m1) = view (rx_deframer m)" by (simp add: m1_def evict_kept [OF kept])
  moreover have "view (rx_deframer m2) = view (rx_deframer m1)" using make_room_kept [OF kept, of "fst peek" "length pdu" m1] by (simp add: room)
  moreover have "view (receive_bytes lib pdu d) = view d" for d using kept by (simp add: view_kept_def)
  ultimately show ?thesis using False
    by (simp add: process_pdu_def peek_def [symmetric] case_prod_beta m1_def [symmetric] room touch_sender_def
        Let_def poll_kept [OF kept] split: bool.split)
qed (simp add: process_pdu_def)

text \<open>What a command does to the encodings of the driver.\<close>

fun encodings_command :: "('a, 'n, 'e) hq_command \<Rightarrow> (string \<rightharpoonup> 'e list) \<Rightarrow> (string \<rightharpoonup> 'e list)" where
  "encodings_command (SetPeerEncodings callsign encs) m = m(callsign \<mapsto> encs)"
| "encodings_command (UnregisterPeer callsign) m = m(callsign := None)"
| "encodings_command _ m = m"

lemma add_kept [simp]:
  "driver_encodings lib (add_node callsign node_id d) = driver_encodings lib d"
  "driver_encodings lib (add_address callsign addr d) = driver_encodings lib d"
  by (auto simp: driver_encodings_def add_node_def add_address_def split: option.split)

lemma peer_command_encodings:
  "encodings_table lib \<Longrightarrow> driver_encodings lib (peer_command lib cmd d) = encodings_command cmd (driver_encodings lib d)"
  by (cases cmd) (auto simp: driver_encodings_def peer_encodings_def [abs_def] register_peer_encodings_def
      unregister_peer_encodings_def encodings_table_def Let_def add_node_def add_address_def split: option.split)

lemma driver_encodings_rx: "driver_encodings lib d = hl_encodings lib (rx_deframer (hd_rx_manager d))"
  by (rule ext) (simp add: driver_encodings_def peer_encodings_def)

lemma encodings_kept: "encodings_table lib \<Longrightarrow> view_kept (hl_session lib) (hl_encodings lib)"
  by (simp add: encodings_table_def view_kept_def)

lemma packet_encodings:
  assumes "encodings_table lib"
  shows "driver_encodings lib (fst (handle_incoming_packet lib now packet d)) = driver_encodings lib d"
proof -
  note kept = encodings_kept [OF assms]
  obtain r m where process: "process_pdu (hl_session lib) now (pdu_of_packet lib packet) (hd_rx_manager d) = (r, m)"
    by (metis surj_pair)
  then have m: "hl_encodings lib (rx_deframer m) = hl_encodings lib (rx_deframer (hd_rx_manager d))"
    using process_kept [OF kept, of now "pdu_of_packet lib packet" "hd_rx_manager d"] by simp
  show ?thesis
    using m drain_messages_kept [OF kept, of now m]
    by (simp add: handle_incoming_packet_def process case_prod_beta Let_def driver_encodings_rx split: sum.split)
qed

lemma step_encodings:
  assumes "encodings_table lib"
  shows "driver_encodings lib (fst (snd (hq_udp_step lib default_peer ev d))) =
    (case ev of Command (Some cmd) io \<Rightarrow> encodings_command cmd (driver_encodings lib d) | _ \<Rightarrow> driver_encodings lib d)"
proof (cases ev)
  case (Sweep_Due now)
  then show ?thesis
    by (simp add: hq_udp_step_def hq_sweep_def driver_encodings_rx sweep_kept [OF encodings_kept [OF assms]])
next
  case (Packet now src bs)
  then show ?thesis by (simp add: hq_udp_step_def packet_encodings [OF assms])
next
  case Receive_Failed
  then show ?thesis by (simp add: hq_udp_step_def)
next
  case (Command c io)
  show ?thesis
  proof (cases c)
    case None
    then show ?thesis using Command by (simp add: hq_udp_step_def)
  next
    case (Some cmd)
    show ?thesis
    proof (cases cmd)
      case (Forward dst encodings data)
      let ?t = "transmit_bundle_udp lib io (udp_target default_peer d dst) dst encodings data d"
      have "hd_rx_manager (fst (snd ?t)) = hd_rx_manager d"
        by (simp add: transmit_bundle_udp_def next_pdus_def case_prod_beta split: option.split sum.split)
      then show ?thesis using Command Some Forward
        by (simp add: hq_udp_step_def case_prod_beta driver_encodings_rx)
    qed (use Command Some peer_command_encodings [OF assms, of cmd d] in
        \<open>simp_all add: hq_udp_step_def del: peer_command.simps\<close>)
  qed
qed

text \<open>The encodings the driver will have once it has taken all commands are the adapter's.\<close>

definition in_step :: "('d, 'e, 'k) hq_codec \<Rightarrow> ('a, 'n, 'e, 'i, 'd) hq_system \<Rightarrow> bool" where
  "in_step lib s \<longleftrightarrow> hc_inner (sy_cla s) \<noteq> None
     \<and> fold encodings_command (sy_queue s) (driver_encodings lib (sy_driver s)) = hc_peer_encodings (sy_cla s)"

lemmas call_defs = after_call_def tell_driver_def commands_of_def set_default_bundle_encodings_def set_peer_encodings_def
  register_peer_def unregister_peer_def

lemma in_step_kept:
  assumes table: "encodings_table lib" and "in_step lib s"
  shows "in_step lib (system_step lib peer op s)"
proof -
  obtain inner where inner: "hc_inner (sy_cla s) = Some inner" using assms(2) by (auto simp: in_step_def)
  have enc: "fold encodings_command (sy_queue s) (driver_encodings lib (sy_driver s)) = hc_peer_encodings (sy_cla s)"
    using assms(2) by (simp add: in_step_def)
  show ?thesis
  proof (cases op)
    case (Forward_Bundle lane addr i len data)
    have "\<exists>dst encs bs. cmd = Forward dst encs bs" if "forward_command True lane addr i len data (sy_cla s) = Inr cmd" for cmd
      using that by (auto simp: forward_command_def Let_def split: option.splits)
    then show ?thesis using Forward_Bundle inner enc by (auto simp: in_step_def split: sum.split)
  next
    case (Take_Command io)
    show ?thesis
    proof (cases "sy_queue s")
      case Nil
      then show ?thesis using Take_Command assms(2) by simp
    next
      case (Cons cmd q)
      then show ?thesis using Take_Command inner enc step_encodings [OF table, of peer "Command (Some cmd) io" "sy_driver s"]
        by (simp add: in_step_def driver_turn_def case_prod_beta)
    qed
  next
    case (Sweep_Turn now)
    then show ?thesis using inner enc step_encodings [OF table, of peer "Sweep_Due now" "sy_driver s"]
      by (simp add: in_step_def driver_turn_def case_prod_beta)
  next
    case (Packet_Turn now src bs)
    then show ?thesis using inner enc step_encodings [OF table, of peer "Packet now src bs" "sy_driver s"]
      by (simp add: in_step_def driver_turn_def case_prod_beta)
  qed (use inner enc in \<open>simp_all add: in_step_def call_defs split: option.split\<close>)
qed

lemma configured_encodings:
  "encodings_table lib \<Longrightarrow> driver_encodings lib (fold (add_configured_peer lib) peers d) =
    fold (\<lambda>peer m. case hp_encodings peer of Some encs \<Rightarrow> m(hp_callsign peer \<mapsto> encs) | None \<Rightarrow> m) peers (driver_encodings lib d)"
proof (induction peers arbitrary: d)
  case (Cons p peers)
  have "driver_encodings lib (add_configured_peer lib p d) =
      (case hp_encodings p of Some encs \<Rightarrow> (driver_encodings lib d)(hp_callsign p \<mapsto> encs) | None \<Rightarrow> driver_encodings lib d)"
    using Cons.prems by (simp add: add_configured_peer_def driver_encodings_rx register_peer_encodings_def encodings_table_def
        add_node_def add_address_def Let_def split: option.split)
  then show ?case using Cons by simp
qed simp

lemma driver_new_encodings:
  assumes "encodings_table lib"
  shows "driver_encodings lib (hq_driver_new lib config) = hc_peer_encodings (hqfbp_cla_new config)"
proof -
  have "hl_encodings lib (hl_new_deframer lib) = Map.empty" using assms by (simp add: encodings_table_def)
  then show ?thesis unfolding hq_driver_new_def configured_encodings [OF assms]
    by (simp add: hqfbp_cla_new_def driver_encodings_rx rx_new_def)
qed

lemma in_step_new: "encodings_table lib \<Longrightarrow> in_step lib (system_new lib config local_addr cap)"
  using driver_new_encodings [of lib config] by (simp add: in_step_def system_new_def hq_on_register_def hqfbp_cla_new_def)

lemma in_step_run: "encodings_table lib \<Longrightarrow> in_step lib s \<Longrightarrow> in_step lib (fold (system_step lib peer) ops s)"
  by (induction ops arbitrary: s) (simp_all add: in_step_kept)

text \<open>The address of a callsign stands for nothing but that callsign, and the limit of the registration stays.\<close>

lemma callsign_address_inj: "callsign_to_cla_address a = (callsign_to_cla_address b :: 'a hq_address) \<longleftrightarrow> a = b"
  unfolding callsign_to_cla_address_def by (metis hq_address.inject(1) text_of_bytes_of)

definition mappings_ok :: "('a hq_address \<rightharpoonup> string) \<Rightarrow> bool" where
  "mappings_ok m \<longleftrightarrow> (\<forall>c. m (callsign_to_cla_address c) = None \<or> m (callsign_to_cla_address c) = Some c)"

lemma add_mapping_ok: "mappings_ok m \<Longrightarrow> mappings_ok (add_mapping callsign addr m)"
  by (auto simp: mappings_ok_def add_mapping_def Let_def callsign_address_inj callsign_to_cla_address_def split: option.split)
    (metis callsign_address_inj callsign_to_cla_address_def)+

lemma mappings_configured: "mappings_ok m \<Longrightarrow> mappings_ok (fold (\<lambda>peer. add_mapping (hp_callsign peer) (hp_address peer)) peers m)"
  by (induction peers arbitrary: m) (simp_all add: add_mapping_ok)

definition cla_ok :: "u64 option \<Rightarrow> ('a, 'n, 'e, 'i) hqfbp_cla \<Rightarrow> bool" where
  "cla_ok cap c \<longleftrightarrow> mappings_ok (hc_peer_mappings c) \<and> map_option ci_max_bundle_size (hc_inner c) = Some cap"

lemma cla_ok_step:
  assumes "cla_ok cap (sy_cla s)"
  shows "cla_ok cap (sy_cla (system_step lib peer op s))"
proof (cases op)
  case (Register_Peer callsign addr nid)
  then show ?thesis using assms
    by (auto simp: cla_ok_def call_defs add_mapping_ok split: option.split)
next
  case (Unregister_Peer callsign)
  then show ?thesis using assms by (auto simp: cla_ok_def call_defs mappings_ok_def split: option.split)
qed (use assms in \<open>auto simp: cla_ok_def call_defs driver_turn_def case_prod_beta split: option.split sum.split list.split\<close>)

lemma cla_ok_run: "cla_ok cap (sy_cla s) \<Longrightarrow> cla_ok cap (sy_cla (fold (system_step lib peer) ops s))"
  by (induction ops arbitrary: s) (simp_all add: cla_ok_step)

lemma cla_ok_new: "cla_ok cap (sy_cla (system_new lib config local_addr cap))"
proof -
  have "mappings_ok Map.empty" by (simp add: mappings_ok_def)
  from mappings_configured [OF this] show ?thesis
    by (simp add: cla_ok_def system_new_def hq_on_register_def hqfbp_cla_new_def)
qed

lemma resolve_known:
  assumes "mappings_ok (hc_peer_mappings c)" "utf8_valid (bytes_of callsign)" "\<not> is_broadcast_callsign callsign"
  shows "resolve_callsign c (callsign_to_cla_address callsign) = Some callsign"
proof -
  have "hc_peer_mappings c (callsign_to_cla_address callsign) = None \<or> hc_peer_mappings c (callsign_to_cla_address callsign) = Some callsign"
    using assms(1) by (simp add: mappings_ok_def)
  then show ?thesis using assms(2,3)
    by (auto simp: resolve_callsign_def cla_address_to_callsign_def) (simp_all add: callsign_to_cla_address_def)
qed

lemma settled_encodings:
  "encodings_table lib \<Longrightarrow> driver_encodings lib (fold (peer_command lib) q d) = fold encodings_command q (driver_encodings lib d)"
  by (induction q arbitrary: d) (simp_all add: peer_command_encodings)

text \<open>C35: Both halves of the HQFBP adapter use the same encodings.  After a registration, whatever is set, registered,
unregistered and forwarded, and whatever the driver receives meanwhile, the encodings by which the receiver will read a
station's messages, once it has taken the waiting commands, are those of the adapter's table; a bundle for a
callsign within the size limit becomes a request to that callsign with the bundle's octets and those encodings, and with
the selector's choice where the callsign has none.\<close>

theorem peer_encodings_agree:
  assumes "encodings_table lib"
    and s: "s = fold (system_step lib peer) ops (system_new lib config local_addr cap)"
    and "utf8_valid (bytes_of callsign)" "\<not> is_broadcast_callsign callsign"
    and fits: "case cap of Some c \<Rightarrow> len \<le> c | None \<Rightarrow> True"
  shows "let d = fold (peer_command lib) (sy_queue s) (sy_driver s)
    in (\<forall>c. peer_encodings lib (hd_rx_manager d) c = hc_peer_encodings (sy_cla s) c)
      \<and> forward_command True lane (callsign_to_cla_address callsign) i len (Some data) (sy_cla s)
        = Inr (Forward (Some callsign)
            (case peer_encodings lib (hd_rx_manager d) callsign of
               Some encs \<Rightarrow> encs
             | None \<Rightarrow> hc_encoding_selector (sy_cla s) (Some callsign) lane i len (hc_default_encodings (sy_cla s))) data)"
proof -
  have "in_step lib s" unfolding s by (intro in_step_run in_step_new assms(1))
  then have enc: "driver_encodings lib (fold (peer_command lib) (sy_queue s) (sy_driver s)) = hc_peer_encodings (sy_cla s)"
    by (simp add: in_step_def settled_encodings [OF assms(1)])
  have ok: "cla_ok cap (sy_cla s)" unfolding s by (intro cla_ok_run cla_ok_new)
  then obtain inner where inner: "hc_inner (sy_cla s) = Some inner" "ci_max_bundle_size inner = cap"
    by (auto simp: cla_ok_def)
  have small: "too_large inner len = None" using fits inner(2) by (auto simp: too_large_def split: option.split)
  have resolve: "resolve_callsign (sy_cla s) (callsign_to_cla_address callsign) = Some callsign"
    using ok assms(3,4) by (intro resolve_known) (simp_all add: cla_ok_def)
  show ?thesis
    using enc by (simp add: forward_command_def inner small resolve resolve_encodings_def driver_encodings_def Let_def)
qed

text \<open>What is set before a registration does not reach the driver, which starts from the configuration.\<close>

lemma early_encodings_lost:
  assumes table: "encodings_table lib" and "cf_peers config = []"
    and c: "(r, c, e) = set_peer_encodings True callsign encs (hqfbp_cla_new config)"
    and register: "(c', Spawn_Driver config' # effects) = hq_on_register (Some local_addr) cap c"
  shows "hc_peer_encodings c' callsign = Some encs \<and> driver_encodings lib (hq_driver_new lib config') callsign = None
    \<and> commands_of effects = []"
proof -
  have "hc_config c = config" "hc_peer_encodings c callsign = Some encs"
    using c by (simp_all add: set_peer_encodings_def tell_driver_def hqfbp_cla_new_def)
  then have "config' = config" "hc_peer_encodings c' callsign = Some encs" "effects = []"
    using register assms(2) by (simp_all add: hq_on_register_def)
  then show ?thesis using driver_new_encodings [OF table, of config] assms(2)
    by (simp add: hqfbp_cla_new_def commands_of_def)
qed

definition table_codec :: "(string \<rightharpoonup> nat list, nat, unit) hq_codec" where
  "table_codec = \<lparr>hl_session = \<lparr>unpack = (\<lambda>_. None), receive_bytes = (\<lambda>_ d. d), drain_events = (\<lambda>d. ([], d)), cleanup_expired = (\<lambda>_ d. (0, d))\<rparr>,
     hl_new_deframer = Map.empty, hl_register = (\<lambda>c encs d. d(c \<mapsto> encs)), hl_unregister = (\<lambda>c d. d(c := None)), hl_encodings = (\<lambda>d c. d c),
     hl_generate = (\<lambda>_ _ _ _ msg_id data. Inr [data]), hl_kiss_new = (), hl_kiss_byte = (\<lambda>_ k. (None, k)),
     hl_kiss_encode = (\<lambda>bs. bs)\<rparr>"

definition table_system :: "(nat, nat, nat, nat, string \<rightharpoonup> nat list) hq_system" where
  "table_system = fold (system_step table_codec None) [Set_Peer ''F4'' [7]]
     (system_new table_codec (default_hq_config \<lparr>el_h = 0, el_crc32 = 1, el_chunk = unat\<rparr> 0) 0 (Some 10))"

lemma peer_encodings_agree_witness:
  "forward_command True None (callsign_to_cla_address ''F4'') 0 3 (Some [1, 2, 3]) (sy_cla table_system) = Inr (Forward (Some ''F4'') [7] [1, 2, 3])"
proof -
  have table: "encodings_table table_codec" by (simp add: encodings_table_def table_codec_def)
  have valid: "utf8_valid (bytes_of ''F4'')" by (simp add: bytes_of_def utf8_valid.simps utf8_head_def utf8_width_def)
  have cq: "\<not> is_broadcast_callsign ''F4''"
    by (simp add: is_broadcast_callsign_def BROADCAST_CALLSIGN_def trim_def trim_start_def trim_end_def is_space_def lower_char_def)
  have "hc_peer_encodings (sy_cla table_system) ''F4'' = Some [7]"
    by (simp add: table_system_def system_new_def hq_on_register_def hqfbp_cla_new_def call_defs)
  then show ?thesis
    using peer_encodings_agree [OF table table_system_def valid cq, of 3 None 0 "[1, 2, 3]"] by (simp add: Let_def)
qed

end
