(* ===== verification/Mercury.thy ===== *)
theory Mercury
  imports Utf8
begin

text \<open>
  The Mercury adapter (\<^verbatim>\<open>mercury-cla/src/driver.rs\<close>, \<^verbatim>\<open>cla.rs\<close>, \<^verbatim>\<open>config.rs\<close>): a connected session over a modem
  that is told what to do on a control stream and carries bundles on a data stream.  The driver's loops are
  functions from the event they wake up for to effects.  A request that expects an answer carries a handle
  \<open>'r\<close>; a handle that is dropped unanswered is an effect too, for its caller then learns that the driver has
  gone.  Instants and durations are in nanoseconds; \<open>parse_node\<close> is the parser of node identifiers, absent where
  it fails and the code panics.
\<close>

section \<open>Configuration\<close>

definition to_uppercase :: "string \<Rightarrow> string" where
  "to_uppercase = map upper_char"

definition to_lowercase :: "string \<Rightarrow> string" where
  "to_lowercase = map lower_char"

datatype merc_address = Callsign_Address bytes

definition merc_cla_address :: "string \<Rightarrow> merc_address" where
  "merc_cla_address callsign = Callsign_Address (bytes_of (to_uppercase callsign))"

record 'n merc_peer =
  mp_callsign :: string
  mp_node_id :: "'n option"

text \<open>The addresses of the modem's two ports are left out: an attempt to reach it is an event.\<close>

record 'n merc_config =
  mc_my_callsign :: string
  mc_bandwidth :: nat
  mc_connect_timeout :: "nat option"
  mc_grace_period :: "nat option"
  mc_idle_timeout :: "nat option"
  mc_peers :: "'n merc_peer list"

definition default_merc_config :: "'n merc_config" where
  "default_merc_config =
     \<lparr>mc_my_callsign = ''N0CALL'', mc_bandwidth = 2300, mc_connect_timeout = Some (30 * 10 ^ 9),
      mc_grace_period = Some (30 * 10 ^ 9), mc_idle_timeout = None, mc_peers = []\<rparr>"

text \<open>The node of a callsign that has none configured.\<close>

definition callsign_node :: "(string \<Rightarrow> 'n option) \<Rightarrow> string \<Rightarrow> 'n option" where
  "callsign_node parse_node callsign = parse_node (''dtn://'' @ to_lowercase callsign @ ''/'')"

definition effective_node_id :: "(string \<Rightarrow> 'n option) \<Rightarrow> 'n merc_peer \<Rightarrow> 'n option" where
  "effective_node_id parse_node p =
     (case mp_node_id p of Some nid \<Rightarrow> Some nid | None \<Rightarrow> callsign_node parse_node (mp_callsign p))"

section \<open>The streams\<close>

definition is_ascii_alphanumeric :: "char \<Rightarrow> bool" where
  "is_ascii_alphanumeric c \<longleftrightarrow>
     (let n = of_char c :: nat in 48 \<le> n \<and> n \<le> 57 \<or> 65 \<le> n \<and> n \<le> 90 \<or> 97 \<le> n \<and> n \<le> 122)"

definition is_valid_callsign :: "string \<Rightarrow> bool" where
  "is_valid_callsign call =
     (let call = trim call
      in call \<noteq> [] \<and> length call \<le> 15 \<and> list_all (\<lambda>c. is_ascii_alphanumeric c \<or> c = CHR ''-'') call)"

definition CR :: char where "CR = CHR 0x0D"

definition LF :: char where "LF = CHR 0x0A"

text \<open>What the modem is told at the start; absent if the configured callsign is not valid.\<close>

definition init_mercury_tnc :: "(nat \<Rightarrow> string) \<Rightarrow> 'n merc_config \<Rightarrow> string option" where
  "init_mercury_tnc number config =
     (let mycall = to_uppercase (trim (mc_my_callsign config))
      in if \<not> is_valid_callsign mycall then None
         else Some (''MYCALL '' @ mycall @ [CR] @ ''BW'' @ number (mc_bandwidth config) @ [CR] @ ''LISTEN ON'' @ [CR]))"

text \<open>
  The reader of the control stream: after each read the complete lines are taken off the buffer; a longer rest without an
  end of line is thrown away.
\<close>

definition MAX_CTL_BUF :: nat where "MAX_CTL_BUF = 4096"

definition is_newline :: "char \<Rightarrow> bool" where
  "is_newline c \<longleftrightarrow> c = CR \<or> c = LF"

function take_lines :: "string \<Rightarrow> string list \<times> string" where
  "take_lines buf =
     (if \<exists>c\<in>set buf. is_newline c
      then let line = trim (utf8_lossy_text (bytes_of (takeWhile (\<lambda>c. \<not> is_newline c) buf @ [hd (dropWhile (\<lambda>c. \<not> is_newline c) buf)])));
               (rest_lines, rest) = take_lines (tl (dropWhile (\<lambda>c. \<not> is_newline c) buf))
           in ((if line = [] then [] else [line]) @ rest_lines, rest)
      else ([], buf))"
  by pat_completeness auto

termination
proof (relation "measure length", simp)
  fix buf :: string assume "\<exists>c\<in>set buf. is_newline c"
  then have "dropWhile (\<lambda>c. \<not> is_newline c) buf \<noteq> []" by auto
  then have "length (tl (dropWhile (\<lambda>c. \<not> is_newline c) buf)) < length (dropWhile (\<lambda>c. \<not> is_newline c) buf)" by (simp add: neq_Nil_conv)
  also have "\<dots> \<le> length buf" by (rule length_dropWhile_le)
  finally show "(tl (dropWhile (\<lambda>c. \<not> is_newline c) buf), buf) \<in> measure length" by simp
qed

declare take_lines.simps [simp del]

definition control_read :: "string \<Rightarrow> string \<Rightarrow> string list \<times> string" where
  "control_read chunk buf =
     (let (ls, rest) = take_lines (buf @ chunk) in (ls, if MAX_CTL_BUF < length rest then [] else rest))"

text \<open>The reader of the data stream, over all the octets that come: the bundles, and whether it stopped for a frame that is too large.\<close>

definition MAX_MERCURY_FRAME :: nat where "MAX_MERCURY_FRAME = 16 * 1024 * 1024"

definition be32 :: "nat \<Rightarrow> bytes" where
  "be32 n = map (\<lambda>k. word_of_nat (n div 256 ^ k)) [3, 2, 1, 0]"

fun of_be32 :: "bytes \<Rightarrow> nat" where
  "of_be32 bs = foldl (\<lambda>n b. n * 256 + unat b) 0 bs"

function data_read :: "bytes \<Rightarrow> bytes list \<times> bool" where
  "data_read bs =
     (if length bs < 4 then ([], False)
      else let n = of_be32 (take 4 bs); rest = drop 4 bs
           in if n = 0 then data_read rest
              else if MAX_MERCURY_FRAME < n then ([], True)
              else if length rest < n then ([], False)
              else case data_read (drop n rest) of (frames, stopped) \<Rightarrow> (take n rest # frames, stopped))"
  by pat_completeness auto

termination
  by (relation "measure length") auto

declare data_read.simps [simp del]

text \<open>What the writer puts on the stream for a bundle.\<close>

definition data_frame_of :: "bytes \<Rightarrow> bytes" where
  "data_frame_of bundle = be32 (length bundle mod 2 ^ 32) @ bundle"

section \<open>The session\<close>

datatype merc_error = Io_Error | Offline | Invalid_Callsign | Rejected | Busy | Connection_Failed

datatype ('n, 'r) merc_command =
    Connect string 'n 'r
  | Disconnect 'r
  | Forward_Bundle bytes 'r
  | Register_Peer "'n merc_peer"
  | Is_Connected 'r
  | Shutdown

datatype 'n session_state =
    Disconnected
  | Connecting string 'n
  | Connected string 'n nat nat
  | Disconnecting

text \<open>The driver, with the session on the present streams: the requests that wait for the modem, the bundles that wait
  for the writer of the data stream, and whether the writer still runs.\<close>

record ('n, 'r) merc_driver =
  md_config :: "'n merc_config"
  md_peers :: "string \<rightharpoonup> 'n"
  md_session :: "'n session_state"
  md_pending_connect :: "'r option"
  md_pending_disconnect :: "'r option"
  md_outgoing :: "(bytes \<times> 'r) list"
  md_writer_open :: bool

datatype ('n, 'r) merc_effect =
    Control string
  | Write_Data bytes
  | Add_Peer merc_address 'n
  | Remove_Peer merc_address
  | Dispatch 'n merc_address bytes
  | Answer 'r "merc_error + bool"
  | Drop_Request 'r

text \<open>An answer without a value is written \<open>Inr True\<close>.\<close>

datatype merc_next = Continue | Reconnect | Stop

fun drop_pending :: "'r option \<Rightarrow> ('n, 'r) merc_effect list" where
  "drop_pending (Some r) = [Drop_Request r]"
| "drop_pending None = []"

text \<open>The end of a session drops what waits, and the next one starts afresh.  When the driver itself ends, the writer
  goes on until its queue is empty.\<close>

definition fresh_session :: "('n, 'r) merc_driver \<Rightarrow> ('n, 'r) merc_driver" where
  "fresh_session d = d\<lparr>md_session := Disconnected, md_pending_connect := None, md_pending_disconnect := None,
     md_outgoing := [], md_writer_open := True\<rparr>"

definition dropped_requests :: "('n, 'r) merc_driver \<Rightarrow> ('n, 'r) merc_effect list" where
  "dropped_requests d = drop_pending (md_pending_connect d) @ drop_pending (md_pending_disconnect d)"

definition dropped_bundles :: "('n, 'r) merc_driver \<Rightarrow> ('n, 'r) merc_effect list" where
  "dropped_bundles d = map (\<lambda>(_, r). Drop_Request r) (md_outgoing d)"

definition merc_driver_new :: "(string \<Rightarrow> 'n option) \<Rightarrow> 'n merc_config \<Rightarrow> ('n, 'r) merc_driver option" where
  "merc_driver_new parse_node config =
     (if list_all (\<lambda>p. effective_node_id parse_node p \<noteq> None) (mc_peers config)
      then Some (fresh_session
        \<lparr>md_config = config,
         md_peers = fold (\<lambda>p m. m(to_uppercase (mp_callsign p) := effective_node_id parse_node p)) (mc_peers config) Map.empty,
         md_session = Disconnected, md_pending_connect = None, md_pending_disconnect = None, md_outgoing = [],
         md_writer_open = True\<rparr>)
      else None)"

definition add_merc_peer ::
    "(string \<Rightarrow> 'n option) \<Rightarrow> 'n merc_peer \<Rightarrow> ('n, 'r) merc_driver \<Rightarrow> ('n, 'r) merc_driver option" where
  "add_merc_peer parse_node p d =
     (case effective_node_id parse_node p of
        None \<Rightarrow> None
      | Some nid \<Rightarrow> Some (d\<lparr>md_peers := (md_peers d)(to_uppercase (mp_callsign p) \<mapsto> nid)\<rparr>))"

text \<open>A line from the modem; absent where the code panics.\<close>

definition connected_peer :: "'n merc_config \<Rightarrow> string \<Rightarrow> string" where
  "connected_peer config line =
     (let parts = split_space line;
          (src, dst) = (if 3 \<le> length parts then (to_uppercase (parts ! 1), to_uppercase (parts ! 2)) else ([], []))
      in if src = to_uppercase (mc_my_callsign config) then dst else src)"

fun answer_pending :: "'r option \<Rightarrow> merc_error + bool \<Rightarrow> ('n, 'r) merc_effect list" where
  "answer_pending (Some r) result = [Answer r result]"
| "answer_pending None result = []"

definition handle_ctl_line ::
    "(string \<Rightarrow> 'n option) \<Rightarrow> nat \<Rightarrow> string \<Rightarrow> ('n, 'r) merc_driver \<Rightarrow> (('n, 'r) merc_driver \<times> ('n, 'r) merc_effect list) option" where
  "handle_ctl_line parse_node now line d =
     (if prefix ''CONNECTED'' line
      then let peer = connected_peer (md_config d) line
           in case (case md_peers d peer of Some nid \<Rightarrow> Some nid | None \<Rightarrow> callsign_node parse_node peer) of
                None \<Rightarrow> None
              | Some peer_node \<Rightarrow>
                  Some (d\<lparr>md_peers := (md_peers d)(peer \<mapsto> peer_node), md_session := Connected peer peer_node now now,
                          md_pending_connect := None\<rparr>,
                        Add_Peer (merc_cla_address peer) peer_node # answer_pending (md_pending_connect d) (Inr True))
      else if line = ''DISCONNECTED''
      then Some (d\<lparr>md_session := Disconnected, md_pending_connect := None, md_pending_disconnect := None\<rparr>,
                 (case md_session d of Connected peer _ _ _ \<Rightarrow> [Remove_Peer (merc_cla_address peer)] | _ \<Rightarrow> [])
                 @ answer_pending (md_pending_connect d) (Inl Connection_Failed)
                 @ answer_pending (md_pending_disconnect d) (Inr True))
      else if line = ''WRONG''
      then Some (d\<lparr>md_pending_connect := None\<rparr>, answer_pending (md_pending_connect d) (Inl Rejected))
      else Some (d, []))"

text \<open>The timer that looks for an idle session; the command may not reach the modem.\<close>

definition idle_tick :: "nat \<Rightarrow> ('n, 'r) merc_driver \<Rightarrow> ('n, 'r) merc_driver \<times> ('n, 'r) merc_effect list" where
  "idle_tick now d =
     (case (md_session d, mc_idle_timeout (md_config d)) of
        (Connected peer _ _ last_activity, Some idle_to) \<Rightarrow>
          if idle_to \<le> now - last_activity
          then (d\<lparr>md_session := Disconnecting\<rparr>, [Remove_Peer (merc_cla_address peer), Control (''DISCONNECT'' @ [CR])])
          else (d, [])
      | _ \<Rightarrow> (d, []))"

definition incoming_bundle :: "nat \<Rightarrow> bytes \<Rightarrow> ('n, 'r) merc_driver \<Rightarrow> ('n, 'r) merc_driver \<times> ('n, 'r) merc_effect list" where
  "incoming_bundle now bundle d =
     (case md_session d of
        Connected peer node since _ \<Rightarrow>
          (d\<lparr>md_session := Connected peer node since now\<rparr>, [Dispatch node (merc_cla_address peer) bundle])
      | _ \<Rightarrow> (d, []))"

text \<open>A turn of the writer of the data stream; \<open>ok\<close> says whether the write succeeds.\<close>

definition writer_turn :: "bool \<Rightarrow> ('n, 'r) merc_driver \<Rightarrow> ('n, 'r) merc_driver \<times> ('n, 'r) merc_effect list" where
  "writer_turn ok d =
     (case md_outgoing d of
        [] \<Rightarrow> (d, [])
      | (bundle, r) # waiting \<Rightarrow>
          if ok then (d\<lparr>md_outgoing := waiting\<rparr>, [Write_Data (data_frame_of bundle), Answer r (Inr True)])
          else (d\<lparr>md_outgoing := [], md_writer_open := False\<rparr>,
                Answer r (Inl Io_Error) # map (\<lambda>(_, r). Drop_Request r) waiting))"

text \<open>A command; \<open>ok\<close> says whether the control stream takes what is written.\<close>

definition connect_request ::
    "bool \<Rightarrow> string \<Rightarrow> 'n \<Rightarrow> 'r \<Rightarrow> ('n, 'r) merc_driver \<Rightarrow> ('n, 'r) merc_driver \<times> ('n, 'r) merc_effect list" where
  "connect_request ok callsign node_id r d =
     (if \<not> is_valid_callsign callsign \<or> \<not> is_valid_callsign (mc_my_callsign (md_config d))
      then (d, [Answer r (Inl Invalid_Callsign)])
      else case md_session d of
             Disconnected \<Rightarrow>
               if ok
               then (d\<lparr>md_session := Connecting (to_uppercase callsign) node_id, md_pending_connect := Some r\<rparr>,
                     Control (''CONNECT '' @ mc_my_callsign (md_config d) @ '' '' @ to_uppercase callsign @ [CR])
                     # drop_pending (md_pending_connect d))
               else (d, [Answer r (Inl Io_Error)])
           | Connected peer _ _ _ \<Rightarrow>
               if peer = to_uppercase callsign then (d, [Answer r (Inr True)]) else (d, [Answer r (Inl Busy)])
           | _ \<Rightarrow> (d, [Answer r (Inl Busy)]))"

definition disconnect_request ::
    "bool \<Rightarrow> 'r \<Rightarrow> ('n, 'r) merc_driver \<Rightarrow> ('n, 'r) merc_driver \<times> ('n, 'r) merc_effect list" where
  "disconnect_request ok r d =
     (case (case md_session d of Connected peer _ _ _ \<Rightarrow> Some peer | Connecting peer _ \<Rightarrow> Some peer | _ \<Rightarrow> None) of
        None \<Rightarrow> (d, [Answer r (Inr True)])
      | Some peer \<Rightarrow>
          if ok
          then (d\<lparr>md_session := Disconnecting, md_pending_disconnect := Some r\<rparr>,
                [Remove_Peer (merc_cla_address peer), Control (''DISCONNECT'' @ [CR])] @ drop_pending (md_pending_disconnect d))
          else (d, [Remove_Peer (merc_cla_address peer), Answer r (Inl Io_Error)]))"

definition merc_forward_request ::
    "nat \<Rightarrow> bytes \<Rightarrow> 'r \<Rightarrow> ('n, 'r) merc_driver \<Rightarrow> merc_next \<times> ('n, 'r) merc_driver \<times> ('n, 'r) merc_effect list" where
  "merc_forward_request now data r d =
     (case md_session d of
        Connected peer node since _ \<Rightarrow>
          let d = d\<lparr>md_session := Connected peer node since now\<rparr>
          in if md_writer_open d then (Continue, d\<lparr>md_outgoing := md_outgoing d @ [(data, r)]\<rparr>, [])
             else (Reconnect, d, [Drop_Request r])
      | _ \<Rightarrow> (Continue, d, [Answer r (Inl Connection_Failed)]))"

definition is_connected_state :: "'n session_state \<Rightarrow> bool" where
  "is_connected_state st = (case st of Connected _ _ _ _ \<Rightarrow> True | _ \<Rightarrow> False)"

definition merc_command_step ::
    "(string \<Rightarrow> 'n option) \<Rightarrow> nat \<Rightarrow> bool \<Rightarrow> ('n, 'r) merc_command \<Rightarrow> ('n, 'r) merc_driver
      \<Rightarrow> (merc_next \<times> ('n, 'r) merc_driver \<times> ('n, 'r) merc_effect list) option" where
  "merc_command_step parse_node now ok cmd d =
     (case cmd of
        Connect callsign node_id r \<Rightarrow> Some (Continue, connect_request ok callsign node_id r d)
      | Disconnect r \<Rightarrow> Some (Continue, disconnect_request ok r d)
      | Forward_Bundle data r \<Rightarrow> Some (merc_forward_request now data r d)
      | Is_Connected r \<Rightarrow> Some (Continue, d, [Answer r (Inr (is_connected_state (md_session d)))])
      | Register_Peer p \<Rightarrow> map_option (\<lambda>d. (Continue, d, [])) (add_merc_peer parse_node p d)
      | Shutdown \<Rightarrow>
          Some (Stop, d, case md_session d of
                           Connected peer _ _ _ \<Rightarrow> [Remove_Peer (merc_cla_address peer), Control (''DISCONNECT'' @ [CR])]
                         | _ \<Rightarrow> []))"

section \<open>The loops\<close>

text \<open>What wakes the driver while the modem is connected; an absent line, bundle or command is a closed channel.\<close>

datatype ('n, 'r) merc_event =
    Idle_Tick nat
  | Ctl_Line nat "string option"
  | Bundle_In nat "bytes option"
  | Writer_Turn bool
  | Command nat bool "('n, 'r) merc_command option"

definition session_step ::
    "(string \<Rightarrow> 'n option) \<Rightarrow> ('n, 'r) merc_event \<Rightarrow> ('n, 'r) merc_driver
      \<Rightarrow> (merc_next \<times> ('n, 'r) merc_driver \<times> ('n, 'r) merc_effect list) option" where
  "session_step parse_node ev d =
     (case ev of
        Idle_Tick now \<Rightarrow> Some (Continue, idle_tick now d)
      | Ctl_Line now None \<Rightarrow> Some (Reconnect, d, [])
      | Ctl_Line now (Some line) \<Rightarrow> map_option (\<lambda>w. (Continue, w)) (handle_ctl_line parse_node now line d)
      | Bundle_In now None \<Rightarrow> Some (Reconnect, d, [])
      | Bundle_In now (Some bundle) \<Rightarrow> Some (Continue, incoming_bundle now bundle d)
      | Writer_Turn ok \<Rightarrow> Some (Continue, writer_turn ok d)
      | Command now ok None \<Rightarrow> Some (Stop, d, [])
      | Command now ok (Some cmd) \<Rightarrow> merc_command_step parse_node now ok cmd d)"

text \<open>A command while the modem cannot be reached.\<close>

definition offline_command ::
    "(string \<Rightarrow> 'n option) \<Rightarrow> ('n, 'r) merc_command option \<Rightarrow> ('n, 'r) merc_driver
      \<Rightarrow> (merc_next \<times> ('n, 'r) merc_driver \<times> ('n, 'r) merc_effect list) option" where
  "offline_command parse_node cmd d =
     (case cmd of
        None \<Rightarrow> Some (Stop, d, [])
      | Some Shutdown \<Rightarrow> Some (Stop, d, [])
      | Some (Connect _ _ r) \<Rightarrow> Some (Reconnect, d, [Answer r (Inl Offline)])
      | Some (Disconnect r) \<Rightarrow> Some (Reconnect, d, [Answer r (Inr True)])
      | Some (Forward_Bundle _ r) \<Rightarrow> Some (Reconnect, d, [Answer r (Inl Offline)])
      | Some (Is_Connected r) \<Rightarrow> Some (Reconnect, d, [Answer r (Inr False)])
      | Some (Register_Peer p) \<Rightarrow> map_option (\<lambda>d. (Reconnect, d, [])) (add_merc_peer parse_node p d))"

text \<open>
  The whole driver: on-line with a session, off-line with the delay before the next attempt.  An attempt fails, or reaches
  the modem, which may still refuse to be set up.
\<close>

datatype merc_attempt = Unreachable | Refused | Reached

datatype ('n, 'r) outer_event =
    Attempt merc_attempt
  | Delay_Over
  | Offline_Command "('n, 'r) merc_command option"
  | Session_Event "('n, 'r) merc_event"

datatype link_state = Trying | Waiting | Online | Ended

record ('n, 'r) merc_link =
  ml_driver :: "('n, 'r) merc_driver"
  ml_state :: link_state
  ml_retry_delay :: nat

definition INITIAL_DELAY :: nat where "INITIAL_DELAY = 500 * 10 ^ 6"

definition MAX_DELAY :: nat where "MAX_DELAY = 5 * 10 ^ 9"

definition after_session ::
    "merc_next \<times> ('n, 'r) merc_driver \<times> ('n, 'r) merc_effect list \<Rightarrow> ('n, 'r) merc_link
      \<Rightarrow> ('n, 'r) merc_link \<times> ('n, 'r) merc_effect list" where
  "after_session result l =
     (case result of (next, d, effects) \<Rightarrow>
        (case next of
           Continue \<Rightarrow> (l\<lparr>ml_driver := d\<rparr>, effects)
         | Reconnect \<Rightarrow> (l\<lparr>ml_driver := fresh_session d, ml_state := Trying\<rparr>, effects @ dropped_requests d @ dropped_bundles d)
         | Stop \<Rightarrow> (l\<lparr>ml_driver := d\<lparr>md_pending_connect := None, md_pending_disconnect := None\<rparr>, ml_state := Ended\<rparr>,
                    effects @ dropped_requests d)))"

definition merc_step ::
    "(string \<Rightarrow> 'n option) \<Rightarrow> (nat \<Rightarrow> string) \<Rightarrow> ('n, 'r) outer_event \<Rightarrow> ('n, 'r) merc_link
      \<Rightarrow> (('n, 'r) merc_link \<times> ('n, 'r) merc_effect list) option" where
  "merc_step parse_node number ev l =
     (case (ml_state l, ev) of
        (Trying, Attempt Unreachable) \<Rightarrow> Some (l\<lparr>ml_state := Waiting\<rparr>, [])
      | (Trying, Attempt Refused) \<Rightarrow> Some (l\<lparr>ml_retry_delay := INITIAL_DELAY\<rparr>, [])
      | (Trying, Attempt Reached) \<Rightarrow>
          Some (case init_mercury_tnc number (md_config (ml_driver l)) of
                  None \<Rightarrow> (l\<lparr>ml_retry_delay := INITIAL_DELAY\<rparr>, [])
                | Some setup \<Rightarrow> (l\<lparr>ml_driver := fresh_session (ml_driver l), ml_retry_delay := INITIAL_DELAY, ml_state := Online\<rparr>,
                                [Control setup]))
      | (Waiting, Delay_Over) \<Rightarrow> Some (l\<lparr>ml_retry_delay := min (ml_retry_delay l * 2) MAX_DELAY, ml_state := Trying\<rparr>, [])
      | (Waiting, Offline_Command cmd) \<Rightarrow> map_option (\<lambda>w. after_session w l) (offline_command parse_node cmd (ml_driver l))
      | (Ended, Session_Event (Writer_Turn ok)) \<Rightarrow>
          Some (case writer_turn ok (ml_driver l) of (d, effects) \<Rightarrow> (l\<lparr>ml_driver := d\<rparr>, effects))
      | (Online, Session_Event e) \<Rightarrow> map_option (\<lambda>w. after_session w l) (session_step parse_node e (ml_driver l))
      | _ \<Rightarrow> Some (l, []))"

definition merc_link_new :: "('n, 'r) merc_driver \<Rightarrow> ('n, 'r) merc_link" where
  "merc_link_new d = \<lparr>ml_driver = d, ml_state = Trying, ml_retry_delay = INITIAL_DELAY\<rparr>"

end
