(* ===== verification/Mercury_Safety.thy ===== *)
theory Mercury_Safety
  imports Mercury "HOL-Library.Multiset"
begin

text \<open>
  The properties of the Mercury driver: the framing of bundles, that every request gets exactly one answer or is dropped
  when its session ends, and which peers the node knows.
\<close>

section \<open>Framing\<close>

lemma of_be32_be32: "n < 2 ^ 32 \<Longrightarrow> of_be32 (be32 n) = n"
proof -
  assume n: "n < 2 ^ 32"
  have byte: "unat (word_of_nat k :: u8) = k mod 256" for k by (simp add: unat_of_nat)
  have "n div 256 ^ 3 mod 256 = n div 256 ^ 3" using n by simp
  then have "of_be32 (be32 n) = ((n div 256 ^ 3 * 256 + n div 256 ^ 2 mod 256) * 256 + n div 256 mod 256) * 256 + n mod 256"
    by (simp add: be32_def byte)
  also have "n div 256 ^ 3 * 256 + n div 256 ^ 2 mod 256 = n div 256 ^ 2"
    using div_mult_mod_eq [of "n div 256 ^ 2" 256] by (simp add: div_mult2_eq [symmetric])
  also have "n div 256 ^ 2 * 256 + n div 256 mod 256 = n div 256"
    using div_mult_mod_eq [of "n div 256" 256] by (simp add: div_mult2_eq [symmetric])
  also have "n div 256 * 256 + n mod 256 = n" by (rule div_mult_mod_eq)
  finally show ?thesis .
qed

lemma length_be32 [simp]: "length (be32 n) = 4"
  by (simp add: be32_def)

lemma data_read_frame:
  assumes "0 < length b" "length b \<le> MAX_MERCURY_FRAME"
  shows "data_read (data_frame_of b @ rest) = (case data_read rest of (frames, stopped) \<Rightarrow> (b # frames, stopped))"
proof -
  have n: "length b mod 2 ^ 32 = length b" using assms(2) by (simp add: MAX_MERCURY_FRAME_def)
  have "take 4 (be32 (length b) @ b @ rest) = be32 (length b)" "drop 4 (be32 (length b) @ b @ rest) = b @ rest" by simp_all
  moreover have "of_be32 (be32 (length b)) = length b" using n by (intro of_be32_be32) (simp add: mod_eq_self_iff_div_eq_0 div_eq_0_iff)
  ultimately show ?thesis using assms n
    by (subst data_read.simps) (simp add: data_frame_of_def Let_def split: prod.split)
qed

section \<open>Requests\<close>

text \<open>The handles a list of effects disposes of, and those that wait.\<close>

fun settled_by :: "('n, 'r) merc_effect \<Rightarrow> 'r multiset" where
  "settled_by (Answer r _) = {#r#}"
| "settled_by (Drop_Request r) = {#r#}"
| "settled_by _ = {#}"

definition settled_all :: "('n, 'r) merc_effect list \<Rightarrow> 'r multiset" where
  "settled_all effects = sum_list (map settled_by effects)"

definition waiting :: "('n, 'r) merc_driver \<Rightarrow> 'r multiset" where
  "waiting d = mset (case md_pending_connect d of Some r \<Rightarrow> [r] | None \<Rightarrow> [])
     + mset (case md_pending_disconnect d of Some r \<Rightarrow> [r] | None \<Rightarrow> []) + mset (map snd (md_outgoing d))"

fun handle_of :: "('n, 'r) merc_command option \<Rightarrow> 'r multiset" where
  "handle_of (Some (Connect _ _ r)) = {#r#}"
| "handle_of (Some (Disconnect r)) = {#r#}"
| "handle_of (Some (Forward_Bundle _ r)) = {#r#}"
| "handle_of (Some (Is_Connected r)) = {#r#}"
| "handle_of _ = {#}"

lemma msettled_append [simp]: "settled_all (xs @ ys) = settled_all xs + settled_all ys"
  and settled_Cons [simp]: "settled_all (x # xs) = settled_by x + settled_all xs"
  and settled_Nil [simp]: "settled_all [] = {#}"
  by (simp_all add: settled_all_def)

lemma settled_pending [simp]:
  "settled_all (drop_pending p) = mset (case p of Some r \<Rightarrow> [r] | None \<Rightarrow> [])"
  "settled_all (answer_pending p x) = mset (case p of Some r \<Rightarrow> [r] | None \<Rightarrow> [])"
  by (cases p; simp)+

lemma settled_bundles [simp]: "settled_all (map (\<lambda>(_, r). Drop_Request r) q) = mset (map snd q)"
  by (induction q) auto

lemma idle_conserves: "idle_tick now d = (d', e) \<Longrightarrow> waiting d = settled_all e + waiting d'"
  by (auto simp: idle_tick_def waiting_def split: session_state.splits option.splits if_splits)

lemma incoming_conserves: "incoming_bundle now b d = (d', e) \<Longrightarrow> waiting d = settled_all e + waiting d'"
  by (auto simp: incoming_bundle_def waiting_def split: session_state.splits)

lemma writer_conserves: "writer_turn ok d = (d', e) \<Longrightarrow> waiting d = settled_all e + waiting d'"
  by (auto simp: writer_turn_def waiting_def split: list.splits if_splits prod.splits)

lemma line_conserves: "handle_ctl_line parse_node now line d = Some (d', e) \<Longrightarrow> waiting d = settled_all e + waiting d'"
  by (auto simp: handle_ctl_line_def Let_def waiting_def split: session_state.splits option.splits if_splits)

lemma connect_conserves: "connect_request ok c n r d = (d', e) \<Longrightarrow> waiting d + {#r#} = settled_all e + waiting d'"
  by (auto simp: connect_request_def waiting_def split: session_state.splits option.splits if_splits)

lemma disconnect_conserves: "disconnect_request ok r d = (d', e) \<Longrightarrow> waiting d + {#r#} = settled_all e + waiting d'"
  by (auto simp: disconnect_request_def waiting_def split: session_state.splits option.splits if_splits)

lemma forward_conserves: "merc_forward_request now b r d = (x, d', e) \<Longrightarrow> waiting d + {#r#} = settled_all e + waiting d'"
  by (auto simp: merc_forward_request_def Let_def waiting_def split: session_state.splits option.splits if_splits)

lemma command_conserves:
  assumes "merc_command_step parse_node now ok cmd d = Some (x, d', e)"
  shows "waiting d + handle_of (Some cmd) = settled_all e + waiting d'"
proof (cases cmd)
  case (Connect callsign nid r)
  then show ?thesis using assms connect_conserves [of ok callsign nid r d d' e] by (simp add: merc_command_step_def)
next
  case (Disconnect r)
  then show ?thesis using assms disconnect_conserves [of ok r d d' e] by (simp add: merc_command_step_def)
next
  case (Forward_Bundle b r)
  then show ?thesis using assms forward_conserves [of now b r d x d' e] by (simp add: merc_command_step_def)
qed (use assms in \<open>auto simp: merc_command_step_def add_merc_peer_def waiting_def split: option.splits session_state.splits\<close>)

fun event_handle :: "('n, 'r) merc_event \<Rightarrow> 'r multiset" where
  "event_handle (Command _ _ cmd) = handle_of cmd"
| "event_handle _ = {#}"

lemma session_conserves:
  assumes "session_step parse_node ev d = Some (x, d', e)"
  shows "waiting d + event_handle ev = settled_all e + waiting d'"
proof (cases ev)
  case (Idle_Tick now)
  then show ?thesis using assms idle_conserves [of now d d' e] by (simp add: session_step_def)
next
  case (Ctl_Line now line)
  then show ?thesis using assms line_conserves [of parse_node now _ d d' e]
    by (auto simp: session_step_def split: option.splits)
next
  case (Bundle_In now b)
  then show ?thesis using assms incoming_conserves [of now _ d d' e]
    by (auto simp: session_step_def split: option.splits)
next
  case (Writer_Turn ok)
  then show ?thesis using assms writer_conserves [of ok d d' e] by (simp add: session_step_def)
next
  case (Command now ok cmd)
  then show ?thesis using assms command_conserves [of parse_node now ok _ d x d' e]
    by (cases cmd) (auto simp: session_step_def)
qed

lemma offline_conserves:
  assumes "offline_command parse_node cmd d = Some (x, d', e)"
  shows "waiting d + handle_of cmd = settled_all e + waiting d'"
proof (cases cmd)
  case (Some c)
  then show ?thesis using assms
    by (cases c) (auto simp: offline_command_def add_merc_peer_def waiting_def split: option.splits)
qed (use assms in \<open>simp add: offline_command_def\<close>)

lemma after_conserves:
  assumes "after_session (x, d, e) l = (l', e')"
  shows "settled_all e + waiting d = settled_all e' + waiting (ml_driver l')"
proof (cases x)
  case Continue
  then show ?thesis using assms by (auto simp: after_session_def)
next
  case Reconnect
  then have "l' = l\<lparr>ml_driver := fresh_session d, ml_state := Trying\<rparr>" "e' = e @ dropped_requests d @ dropped_bundles d"
    using assms by (simp_all add: after_session_def)
  then show ?thesis by (simp add: dropped_requests_def dropped_bundles_def waiting_def fresh_session_def)
next
  case Stop
  then have "l' = l\<lparr>ml_driver := d\<lparr>md_pending_connect := None, md_pending_disconnect := None\<rparr>, ml_state := Ended\<rparr>"
      "e' = e @ dropped_requests d"
    using assms by (simp_all add: after_session_def)
  then show ?thesis by (simp add: dropped_requests_def waiting_def)
qed

text \<open>The handle an event brings, in the state of the link that reads it.\<close>

definition taken_handles :: "('n, 'r) merc_link \<Rightarrow> ('n, 'r) outer_event \<Rightarrow> 'r multiset" where
  "taken_handles l ev =
     (case (ml_state l, ev) of
        (Waiting, Offline_Command cmd) \<Rightarrow> handle_of cmd
      | (Online, Session_Event e) \<Rightarrow> event_handle e
      | _ \<Rightarrow> {#})"

text \<open>Nothing waits while there is no session.\<close>

definition quiet :: "('n, 'r) merc_link \<Rightarrow> bool" where
  "quiet l \<longleftrightarrow> (ml_state l = Trying \<or> ml_state l = Waiting \<longrightarrow> waiting (ml_driver l) = {#})"

lemma fresh_waiting [simp]: "waiting (fresh_session d) = {#}"
  by (simp add: waiting_def fresh_session_def)

lemma after_quiet: "after_session w l = (l', e') \<Longrightarrow> ml_state l = Online \<or> fst w \<noteq> Continue \<Longrightarrow> quiet l'"
  by (auto simp: after_session_def quiet_def split: prod.splits merc_next.splits)

lemma step_conserves:
  assumes "merc_step parse_node number ev l = Some (l', e)" and "quiet l"
  shows "waiting (ml_driver l) + taken_handles l ev = settled_all e + waiting (ml_driver l') \<and> quiet l'"
proof -
  consider (attempt) "ml_state l = Trying" | (delay) "ml_state l = Waiting" | (online) "ml_state l = Online" | (ended) "ml_state l = Ended"
    by (cases "ml_state l") blast+
  then show ?thesis
  proof cases
    case attempt
    then have none: "waiting (ml_driver l) = {#}" using assms(2) by (simp add: quiet_def)
    show ?thesis using assms attempt none
      by (auto simp: merc_step_def quiet_def taken_handles_def split: outer_event.splits merc_attempt.splits option.splits)
  next
    case delay
    show ?thesis
    proof (cases ev)
      case (Offline_Command cmd)
      then obtain x d1 e1 where one: "offline_command parse_node cmd (ml_driver l) = Some (x, d1, e1)"
        and after: "after_session (x, d1, e1) l = (l', e)"
        using assms(1) delay by (auto simp: merc_step_def)
      have "x \<noteq> Continue" using one by (auto simp: offline_command_def split: option.splits merc_command.splits)
      then show ?thesis
        using offline_conserves [OF one] after_conserves [OF after] after_quiet [OF after] delay Offline_Command
        by (simp add: taken_handles_def)
    qed (use assms delay in \<open>auto simp: merc_step_def quiet_def taken_handles_def\<close>)
  next
    case online
    show ?thesis
    proof (cases ev)
      case (Session_Event se)
      then obtain x d1 e1 where one: "session_step parse_node se (ml_driver l) = Some (x, d1, e1)"
        and after: "after_session (x, d1, e1) l = (l', e)"
        using assms(1) online by (auto simp: merc_step_def)
      show ?thesis
        using session_conserves [OF one] after_conserves [OF after] after_quiet [OF after] online Session_Event
        by (simp add: taken_handles_def)
    qed (use assms online in \<open>auto simp: merc_step_def quiet_def taken_handles_def\<close>)
  next
    case ended
    show ?thesis
    proof (cases "\<exists>ok. ev = Session_Event (Writer_Turn ok)")
      case True
      then obtain ok where ev: "ev = Session_Event (Writer_Turn ok)" by blast
      obtain d1 e1 where one: "writer_turn ok (ml_driver l) = (d1, e1)" by (metis surj_pair)
      have "l' = l\<lparr>ml_driver := d1\<rparr>" "e = e1" using assms(1) ended one by (simp_all add: merc_step_def ev)
      then show ?thesis using writer_conserves [OF one] ended by (simp add: taken_handles_def ev quiet_def)
    next
      case False
      then have "l' = l" "e = []" using assms(1) ended
        by (auto simp: merc_step_def split: outer_event.splits merc_event.splits)
      then show ?thesis using ended assms(2) by (simp add: taken_handles_def)
    qed
  qed
qed

section \<open>Runs\<close>

text \<open>A run with the handles it took and the effects it had.\<close>

fun merc_run ::
    "(string \<Rightarrow> 'n option) \<Rightarrow> (nat \<Rightarrow> string) \<Rightarrow> ('n, 'r) outer_event list \<Rightarrow> ('n, 'r) merc_link
      \<Rightarrow> (('n, 'r) merc_link \<times> 'r multiset \<times> ('n, 'r) merc_effect list) option" where
  "merc_run parse_node number [] l = Some (l, {#}, [])"
| "merc_run parse_node number (ev # evs) l =
     (case merc_step parse_node number ev l of
        None \<Rightarrow> None
      | Some (l', e) \<Rightarrow>
          (case merc_run parse_node number evs l' of
             None \<Rightarrow> None
           | Some (l'', taken, effects) \<Rightarrow> Some (l'', taken_handles l ev + taken, e @ effects)))"

lemma merc_run_conserves:
  "merc_run parse_node number evs l = Some (l', taken, effects) \<Longrightarrow> quiet l \<Longrightarrow>
    waiting (ml_driver l) + taken = settled_all effects + waiting (ml_driver l') \<and> quiet l'"
proof (induction evs arbitrary: l taken effects)
  case (Cons ev evs)
  obtain l1 e where one: "merc_step parse_node number ev l = Some (l1, e)"
    using Cons.prems(1) by (auto split: option.splits)
  obtain taken' effects' where rest: "merc_run parse_node number evs l1 = Some (l', taken', effects')"
    and split: "taken = taken_handles l ev + taken'" "effects = e @ effects'"
    using Cons.prems(1) one by (auto split: option.splits)
  note step = step_conserves [OF one Cons.prems(2)]
  then have "waiting (ml_driver l1) + taken' = settled_all effects' + waiting (ml_driver l')" "quiet l'"
    using Cons.IH [OF rest] by blast+
  then show ?case using step unfolding split by (simp add: ac_simps)
qed simp

text \<open>The callsign whose node an event makes the driver ask for: that of the peer in a \<^verbatim>\<open>CONNECTED\<close> line that is not in the
  table (the empty one if the line is short), or that of a peer registered without a node.  A step panics exactly
  where the parser has no node for it.\<close>

fun peer_asks :: "'n merc_peer \<Rightarrow> string option" where
  "peer_asks p = (if mp_node_id p = None then Some (mp_callsign p) else None)"

definition line_asks :: "('n, 'r) merc_driver \<Rightarrow> string \<Rightarrow> string option" where
  "line_asks d line =
     (if prefix ''CONNECTED'' line \<and> md_peers d (connected_peer (md_config d) line) = None
      then Some (connected_peer (md_config d) line) else None)"

fun command_asks :: "('n, 'r) merc_command option \<Rightarrow> string option" where
  "command_asks (Some (Register_Peer p)) = peer_asks p"
| "command_asks _ = None"

fun session_asks :: "('n, 'r) merc_driver \<Rightarrow> ('n, 'r) merc_event \<Rightarrow> string option" where
  "session_asks d (Ctl_Line now line) = (case line of Some l \<Rightarrow> line_asks d l | None \<Rightarrow> None)"
| "session_asks d (Command now ok cmd) = command_asks cmd"
| "session_asks d _ = None"

definition asked_callsign :: "('n, 'r) merc_link \<Rightarrow> ('n, 'r) outer_event \<Rightarrow> string option" where
  "asked_callsign l ev =
     (case (ml_state l, ev) of
        (Online, Session_Event e) \<Rightarrow> session_asks (ml_driver l) e
      | (Waiting, Offline_Command cmd) \<Rightarrow> command_asks cmd
      | _ \<Rightarrow> None)"

definition no_node :: "(string \<Rightarrow> 'n option) \<Rightarrow> string option \<Rightarrow> bool" where
  "no_node parse_node asked \<longleftrightarrow> (\<exists>c. asked = Some c \<and> callsign_node parse_node c = None)"

lemma no_node_None [simp]: "\<not> no_node parse_node None"
  by (simp add: no_node_def)

lemma add_peer_panics: "add_merc_peer parse_node p d = None \<longleftrightarrow> no_node parse_node (peer_asks p)"
  by (auto simp: add_merc_peer_def effective_node_id_def no_node_def split: option.split)

lemma line_panics: "handle_ctl_line parse_node now line d = None \<longleftrightarrow> no_node parse_node (line_asks d line)"
  by (auto simp: handle_ctl_line_def Let_def line_asks_def no_node_def split: option.split)

lemma command_panics:
  "merc_command_step parse_node now ok cmd d = None \<longleftrightarrow> no_node parse_node (command_asks (Some cmd))"
  by (cases cmd) (simp_all add: merc_command_step_def add_peer_panics del: peer_asks.simps)

lemma command_asks_None: "command_asks None = None"
  by simp

lemma session_panics: "session_step parse_node e d = None \<longleftrightarrow> no_node parse_node (session_asks d e)"
  by (cases e) (auto simp: session_step_def line_panics command_panics command_asks_None split: option.split
      simp del: command_asks.simps)

lemma offline_panics: "offline_command parse_node cmd d = None \<longleftrightarrow> no_node parse_node (command_asks cmd)"
  by (cases cmd; cases "the cmd") (simp_all add: offline_command_def add_peer_panics del: peer_asks.simps)

lemma step_panics: "merc_step parse_node number ev l = None \<longleftrightarrow> no_node parse_node (asked_callsign l ev)"
  by (cases "ml_state l"; cases ev)
    (simp_all add: merc_step_def asked_callsign_def session_panics offline_panics split: merc_attempt.split merc_event.split)

lemma run_panics:
  "merc_run parse_node number evs l = None \<longleftrightarrow>
     (\<exists>pre ev post l' taken effects. evs = pre @ ev # post \<and> merc_run parse_node number pre l = Some (l', taken, effects)
        \<and> no_node parse_node (asked_callsign l' ev))"
proof (induction evs arbitrary: l)
  case (Cons e evs)
  show ?case
  proof (cases "merc_step parse_node number e l")
    case None
    then have "no_node parse_node (asked_callsign l e)" by (simp add: step_panics)
    then show ?thesis using None by (auto intro!: exI [of _ "[]"])
  next
    case (Some w)
    obtain l1 f where w: "w = (l1, f)" by (metis surj_pair)
    have fine: "\<not> no_node parse_node (asked_callsign l e)" using Some step_panics [of parse_node number e l] by simp
    have "merc_run parse_node number (e # evs) l = None \<longleftrightarrow> merc_run parse_node number evs l1 = None"
      using Some w by (auto split: option.split)
    also have "\<dots> \<longleftrightarrow> (\<exists>pre ev post l' taken effects. evs = pre @ ev # post
        \<and> merc_run parse_node number pre l1 = Some (l', taken, effects) \<and> no_node parse_node (asked_callsign l' ev))" by (rule Cons.IH)
    also have "\<dots> \<longleftrightarrow> (\<exists>pre ev post l' taken effects. e # evs = pre @ ev # post
        \<and> merc_run parse_node number pre l = Some (l', taken, effects) \<and> no_node parse_node (asked_callsign l' ev))"
      (is "?L \<longleftrightarrow> ?R")
    proof
      assume ?L
      then obtain pre ev post l' taken effects where *: "evs = pre @ ev # post"
        "merc_run parse_node number pre l1 = Some (l', taken, effects)" "no_node parse_node (asked_callsign l' ev)" by blast
      then have "merc_run parse_node number (e # pre) l = Some (l', taken_handles l e + taken, f @ effects)"
        using Some w by simp
      moreover have "e # evs = (e # pre) @ ev # post" by (simp add: *)
      ultimately show ?R using *(3) by blast
    next
      assume ?R
      then obtain pre ev post l' taken effects where *: "e # evs = pre @ ev # post"
        "merc_run parse_node number pre l = Some (l', taken, effects)" "no_node parse_node (asked_callsign l' ev)" by blast
      then obtain p pre' where pre: "pre = p # pre'" using fine by (cases pre) auto
      then have "p = e" "evs = pre' @ ev # post" using *(1) by simp_all
      moreover have "\<exists>t f'. merc_run parse_node number pre' l1 = Some (l', t, f')"
        using *(2) Some w \<open>p = e\<close> by (auto simp: pre split: option.splits)
      ultimately show ?L using *(3) by blast
    qed
    finally show ?thesis .
  qed
qed simp

text \<open>The delay between attempts.\<close>

lemma after_delay [simp]: "ml_retry_delay (fst (after_session w l)) = ml_retry_delay l"
proof -
  obtain x d e where w: "w = (x, d, e)" by (metis prod_cases3)
  show ?thesis by (cases x) (simp_all add: after_session_def w)
qed

definition delay_ok :: "('n, 'r) merc_link \<Rightarrow> bool" where
  "delay_ok l \<longleftrightarrow> INITIAL_DELAY \<le> ml_retry_delay l \<and> ml_retry_delay l \<le> MAX_DELAY"

lemma step_delay:
  assumes "merc_step parse_node number ev l = Some (l', e)" "delay_ok l"
  shows "delay_ok l'"
proof (cases "\<exists>w. after_session w l = (l', e)")
  case True
  then have "ml_retry_delay l' = ml_retry_delay l" by (metis after_delay fst_conv)
  then show ?thesis using assms(2) by (simp add: delay_ok_def)
next
  case False
  then show ?thesis using assms
    by (auto simp: merc_step_def delay_ok_def INITIAL_DELAY_def MAX_DELAY_def
        split: link_state.splits outer_event.splits merc_attempt.splits option.splits merc_event.splits prod.splits)
qed

lemma run_delay: "merc_run parse_node number evs l = Some (l', taken, effects) \<Longrightarrow> delay_ok l \<Longrightarrow> delay_ok l'"
proof (induction evs arbitrary: l taken effects)
  case (Cons ev evs)
  obtain l1 e where one: "merc_step parse_node number ev l = Some (l1, e)"
    using Cons.prems(1) by (auto split: option.splits)
  obtain taken' effects' where "merc_run parse_node number evs l1 = Some (l', taken', effects')"
    using Cons.prems(1) one by (auto split: option.splits)
  then show ?case using Cons.IH step_delay [OF one Cons.prems(2)] by blast
qed simp

section \<open>The peers the node knows\<close>

text \<open>The addresses announced and not withdrawn.\<close>

definition announce :: "('n, 'r) merc_effect \<Rightarrow> merc_address set \<Rightarrow> merc_address set" where
  "announce e known = (case e of Add_Peer a _ \<Rightarrow> insert a known | Remove_Peer a \<Rightarrow> known - {a} | _ \<Rightarrow> known)"

definition connected_address :: "('n, 'r) merc_driver \<Rightarrow> merc_address set" where
  "connected_address d = (case md_session d of Connected peer _ _ _ \<Rightarrow> {merc_cla_address peer} | _ \<Rightarrow> {})"

text \<open>A modem and streams that behave: no second \<^verbatim>\<open>CONNECTED\<close> while connected, no write to the control stream fails
  while connected, and the streams are not lost while connected.\<close>

definition orderly :: "('n, 'r) merc_event \<Rightarrow> ('n, 'r) merc_driver \<Rightarrow> bool" where
  "orderly ev d \<longleftrightarrow> is_connected_state (md_session d) \<longrightarrow>
     (case ev of
        Ctl_Line _ (Some line) \<Rightarrow> \<not> prefix ''CONNECTED'' line
      | Ctl_Line _ None \<Rightarrow> False
      | Bundle_In _ None \<Rightarrow> False
      | Command _ ok (Some (Disconnect _)) \<Rightarrow> ok
      | Command _ _ None \<Rightarrow> False
      | Command _ _ (Some (Forward_Bundle _ _)) \<Rightarrow> md_writer_open d
      | _ \<Rightarrow> True)"

fun known_run ::
    "(string \<Rightarrow> 'n option) \<Rightarrow> ('n, 'r) merc_event list \<Rightarrow> ('n, 'r) merc_driver \<Rightarrow> merc_address set
      \<Rightarrow> (('n, 'r) merc_driver \<times> merc_address set \<times> ('n, 'r) merc_effect list) option" where
  "known_run parse_node [] d known = Some (d, known, [])"
| "known_run parse_node (ev # evs) d known =
     (if \<not> orderly ev d then None
      else case session_step parse_node ev d of
             Some (Continue, d', e) \<Rightarrow>
               map_option (\<lambda>(d'', known, effects). (d'', known, e @ effects)) (known_run parse_node evs d' (fold announce e known))
           | _ \<Rightarrow> None)"

lemma announce_simps [simp]:
  "announce (Answer r x) known = known" "announce (Drop_Request r) known = known" "announce (Control c) known = known"
  "announce (Write_Data bs) known = known" "announce (Dispatch n a bs) known = known"
  "announce (Add_Peer a n) known = insert a known" "announce (Remove_Peer a) known = known - {a}"
  by (simp_all add: announce_def)

lemma announce_pending [simp]:
  "fold announce (drop_pending p) known = known" "fold announce (answer_pending p x) known = known"
  by (cases p; simp)+

lemma announce_dropped [simp]: "fold announce (map (\<lambda>(_, r). Drop_Request r) q) known = known"
  by (induction q) (simp_all add: case_prod_beta)

lemma line_known:
  assumes line: "handle_ctl_line parse_node now line d = Some (d', e)"
    and ok: "\<not> (is_connected_state (md_session d) \<and> prefix ''CONNECTED'' line)"
  shows "fold announce e (connected_address d) = connected_address d'"
proof (cases "prefix ''CONNECTED'' line")
  case True
  let ?peer = "connected_peer (md_config d) line"
  have none: "connected_address d = {}" using ok True by (simp add: connected_address_def is_connected_state_def split: session_state.splits)
  obtain node where "d' = d\<lparr>md_peers := (md_peers d)(?peer \<mapsto> node), md_session := Connected ?peer node now now, md_pending_connect := None\<rparr>"
      "e = Add_Peer (merc_cla_address ?peer) node # answer_pending (md_pending_connect d) (Inr True)"
    using line True by (auto simp: handle_ctl_line_def Let_def split: option.splits)
  then show ?thesis using none by (simp add: connected_address_def)
next
  case False
  note not_connected = this
  show ?thesis
  proof (cases "line = ''DISCONNECTED''")
    case True
    then have "d' = d\<lparr>md_session := Disconnected, md_pending_connect := None, md_pending_disconnect := None\<rparr>"
      "e = (case md_session d of Connected peer _ _ _ \<Rightarrow> [Remove_Peer (merc_cla_address peer)] | _ \<Rightarrow> [])
           @ answer_pending (md_pending_connect d) (Inl Connection_Failed) @ answer_pending (md_pending_disconnect d) (Inr True)"
      using line not_connected by (simp_all add: handle_ctl_line_def)
    then show ?thesis by (simp add: connected_address_def split: session_state.split)
  next
    case False
    show ?thesis
    proof (cases "line = ''WRONG''")
      case True
      then show ?thesis using line not_connected by (auto simp: handle_ctl_line_def connected_address_def)
    next
      case False
      then show ?thesis using line not_connected \<open>line \<noteq> ''DISCONNECTED''\<close> by (simp add: handle_ctl_line_def)
    qed
  qed
qed

lemma connect_known: "connect_request ok c n r d = (d', e) \<Longrightarrow> fold announce e (connected_address d) = connected_address d'"
  by (auto simp: connect_request_def connected_address_def split: session_state.splits if_splits)

lemma disconnect_known:
  "disconnect_request ok r d = (d', e) \<Longrightarrow> ok \<or> \<not> is_connected_state (md_session d) \<Longrightarrow>
    fold announce e (connected_address d) = connected_address d'"
  by (auto simp: disconnect_request_def connected_address_def is_connected_state_def split: session_state.splits if_splits)

lemma forward_known: "merc_forward_request now b r d = (x, d', e) \<Longrightarrow> fold announce e (connected_address d) = connected_address d'"
  by (auto simp: merc_forward_request_def connected_address_def Let_def split: session_state.splits if_splits)

lemma command_known:
  assumes "merc_command_step parse_node now ok cmd d = Some (Continue, d', e)" and "orderly (Command now ok (Some cmd)) d"
  shows "fold announce e (connected_address d) = connected_address d'"
proof (cases cmd)
  case (Connect c n r)
  then show ?thesis using assms connect_known [of ok c n r d d' e] by (simp add: merc_command_step_def)
next
  case (Disconnect r)
  then show ?thesis using assms disconnect_known [of ok r d d' e] by (auto simp: merc_command_step_def orderly_def)
next
  case (Forward_Bundle b r)
  then show ?thesis using assms forward_known [of now b r d _ d' e] by (auto simp: merc_command_step_def)
qed (use assms in \<open>auto simp: merc_command_step_def add_merc_peer_def connected_address_def split: option.splits\<close>)

lemma session_known:
  assumes "session_step parse_node ev d = Some (Continue, d', e)" and "orderly ev d"
  shows "fold announce e (connected_address d) = connected_address d'"
proof (cases ev)
  case (Idle_Tick now)
  then show ?thesis using assms
    by (auto simp: session_step_def idle_tick_def connected_address_def split: session_state.splits option.splits if_splits)
next
  case (Ctl_Line now line)
  then show ?thesis using assms line_known [of parse_node now _ d d' e]
    by (auto simp: session_step_def orderly_def split: option.splits)
next
  case (Bundle_In now b)
  then show ?thesis using assms
    by (auto simp: session_step_def incoming_bundle_def connected_address_def split: option.splits session_state.splits)
next
  case (Writer_Turn ok)
  then show ?thesis using assms
    by (auto simp: session_step_def writer_turn_def connected_address_def split: list.splits if_splits prod.splits)
next
  case (Command now ok cmd)
  then show ?thesis using assms command_known [of parse_node now ok _ d d' e]
    by (cases cmd) (auto simp: session_step_def)
qed

lemma known_run_exact:
  "known_run parse_node evs d (connected_address d) = Some (d', known, effects) \<Longrightarrow> known = connected_address d'"
proof (induction evs arbitrary: d effects)
  case (Cons ev evs)
  then obtain d1 e where one: "session_step parse_node ev d = Some (Continue, d1, e)" and ok: "orderly ev d"
    by (auto split: if_splits option.splits merc_next.splits)
  then obtain effects' where rest: "known_run parse_node evs d1 (fold announce e (connected_address d)) = Some (d', known, effects')"
    using Cons.prems by auto
  show ?case using Cons.IH rest unfolding session_known [OF one ok] by blast
qed simp

text \<open>After \<^verbatim>\<open>WRONG\<close> the caller is told, but the session is still connecting, and the next attempt finds it busy.\<close>

lemma rejected_stays_busy:
  assumes "md_session d = Connecting peer node" "handle_ctl_line parse_node now ''WRONG'' d = Some (d', e)"
    and "is_valid_callsign callsign" "is_valid_callsign (mc_my_callsign (md_config d))"
  shows "md_session d' = Connecting peer node \<and> connect_request ok callsign n r d' = (d', [Answer r (Inl Busy)])"
proof -
  have "d' = d\<lparr>md_pending_connect := None\<rparr>" using assms(2) by (simp add: handle_ctl_line_def)
  then show ?thesis using assms by (simp add: connect_request_def)
qed

text \<open>When the streams are lost, the node is not told that the peer is gone.\<close>

lemma lost_peer_stays:
  assumes "ml_state l = Online" "merc_step parse_node number (Session_Event (Ctl_Line now None)) l = Some (l', e)"
  shows "md_session (ml_driver l') = Disconnected \<and> fold announce e known = known"
  using assms by (auto simp: merc_step_def session_step_def after_session_def fresh_session_def dropped_requests_def dropped_bundles_def)

section \<open>Lines\<close>

lemma take_lines_none: "\<not> list_ex is_newline buf \<Longrightarrow> take_lines buf = ([], buf)"
  by (subst take_lines.simps) (auto simp: list_ex_iff)

lemma take_lines_line:
  assumes "\<not> list_ex is_newline l" "is_newline c"
  shows "take_lines (l @ c # r) =
    ((if trim (utf8_lossy_text (bytes_of (l @ [c]))) = [] then [] else [trim (utf8_lossy_text (bytes_of (l @ [c])))])
       @ fst (take_lines r), snd (take_lines r))"
proof -
  let ?P = "\<lambda>c. \<not> is_newline c"
  have l: "\<forall>x\<in>set l. ?P x" using assms(1) by (simp add: list_ex_iff)
  have "takeWhile ?P (l @ c # r) = l" "dropWhile ?P (l @ c # r) = c # r"
    using l assms(2) by (simp_all add: takeWhile_append2 dropWhile_append2)
  moreover have "\<exists>x\<in>set (l @ c # r). is_newline x" using assms(2) by simp
  ultimately show ?thesis
    by (subst take_lines.simps) (simp only: if_True Let_def case_prod_beta list.sel)
qed

lemma newline_cases:
  obtains "\<not> list_ex is_newline s" | l c r where "s = l @ c # r" "\<not> list_ex is_newline l" "is_newline c"
  using split_list_first_prop [of s is_newline] by (metis list_ex_iff)

lemma take_lines_append:
  "take_lines (a @ b) = (fst (take_lines a) @ fst (take_lines (snd (take_lines a) @ b)), snd (take_lines (snd (take_lines a) @ b)))"
proof (induction "length a" arbitrary: a rule: less_induct)
  case less
  show ?case
  proof (cases a rule: newline_cases)
    case 1
    then show ?thesis by (simp add: take_lines_none)
  next
    case (2 l c r)
    have "length r < length a" by (simp add: 2)
    from less [OF this] show ?thesis
      using take_lines_line [OF 2(2,3), of r] take_lines_line [OF 2(2,3), of "r @ b"] by (simp add: 2(1))
  qed
qed

text \<open>A text all of whose lines, and whose unfinished last line, fit in the buffer.\<close>

fun short_lines :: "nat \<Rightarrow> string \<Rightarrow> bool" where
  "short_lines n [] = (n \<le> MAX_CTL_BUF)"
| "short_lines n (c # s) = (n \<le> MAX_CTL_BUF \<and> short_lines (if is_newline c then 0 else n + 1) s)"

fun open_length :: "nat \<Rightarrow> string \<Rightarrow> nat" where
  "open_length n [] = n"
| "open_length n (c # s) = open_length (if is_newline c then 0 else n + 1) s"

lemma short_lines_open: "short_lines n (s @ t) \<Longrightarrow> open_length n s \<le> MAX_CTL_BUF"
  by (induction s arbitrary: n) (cases t; auto)+

lemma open_length_append: "open_length n (s @ t) = open_length (open_length n s) t"
  by (induction s arbitrary: n) auto

lemma open_length_line: "\<not> list_ex is_newline s \<Longrightarrow> open_length n s = n + length s"
  by (induction s arbitrary: n) auto

lemma rest_length: "length (snd (take_lines s)) = open_length 0 s"
proof (induction "length s" arbitrary: s rule: less_induct)
  case less
  show ?case
  proof (cases s rule: newline_cases)
    case 1
    then show ?thesis using open_length_line [OF 1, of 0] by (simp add: take_lines_none)
  next
    case (2 l c r)
    have "length r < length s" by (simp add: 2)
    from less [OF this] show ?thesis
      using take_lines_line [OF 2(2,3), of r] 2(3) by (simp add: 2(1) open_length_append)
  qed
qed

definition control_reads :: "string list \<Rightarrow> string list \<times> string" where
  "control_reads chunks = fold (\<lambda>chunk (ls, buf). case control_read chunk buf of (ls', buf) \<Rightarrow> (ls @ ls', buf)) chunks ([], [])"

lemma control_reads_snoc:
  "control_reads (chunks @ [c]) = (fst (control_reads chunks) @ fst (control_read c (snd (control_reads chunks))),
     snd (control_read c (snd (control_reads chunks))))"
  by (simp add: control_reads_def case_prod_beta)

lemma control_reads_lines: "short_lines 0 (concat chunks) \<Longrightarrow> control_reads chunks = take_lines (concat chunks)"
proof (induction chunks rule: rev_induct)
  case Nil
  then show ?case by (simp add: control_reads_def take_lines_none)
next
  case (snoc c chunks)
  let ?s = "concat chunks"
  have prefix: "short_lines 0 ?s"
  proof -
    have "short_lines n (s @ t) \<Longrightarrow> short_lines n s" for n s t
      by (induction s arbitrary: n) (cases t; auto)+
    then show ?thesis using snoc.prems by simp
  qed
  have fits: "length (snd (take_lines (?s @ c))) \<le> MAX_CTL_BUF"
    using short_lines_open [of 0 "?s @ c" "[]"] snoc.prems by (simp add: rest_length)
  have IH: "control_reads chunks = take_lines ?s" using snoc.IH prefix by blast
  have "snd (take_lines (snd (take_lines ?s) @ c)) = snd (take_lines (?s @ c))" using take_lines_append [of ?s c] by simp
  then have "\<not> MAX_CTL_BUF < length (snd (take_lines (snd (take_lines ?s) @ c)))" using fits by simp
  then have "control_read c (snd (control_reads chunks)) = take_lines (snd (take_lines ?s) @ c)"
    unfolding control_read_def IH Let_def case_prod_beta by simp
  then show ?case unfolding control_reads_snoc IH using take_lines_append [of ?s c] by simp
qed

section \<open>Properties\<close>

text \<open>C36: Every request to the Mercury driver is settled once.  Whatever the modem says and in whatever order commands,
lines, bundles, writes, losses of the streams and attempts come, as long as the driver runs: the requests it has taken are, with
multiplicity, those it has answered, those it has dropped (whose callers learn that the session is gone) and those still waiting;
between sessions none waits; and the delay between attempts stays within half a second and five seconds.  It
panics exactly where the node of a callsign cannot be made from its text: that of a peer in a \<^verbatim>\<open>CONNECTED\<close> line, which is empty for a
line of fewer than three words, or of a peer registered without a node.\<close>

theorem merc_requests_settled:
  assumes new: "merc_driver_new parse_node config = Some d"
  shows "(\<forall>l taken effects. merc_run parse_node number evs (merc_link_new d) = Some (l, taken, effects) \<longrightarrow>
        taken = settled_all effects + waiting (ml_driver l)
      \<and> (ml_state l = Trying \<or> ml_state l = Waiting \<longrightarrow> waiting (ml_driver l) = {#})
      \<and> 500 * 10 ^ 6 \<le> ml_retry_delay l \<and> ml_retry_delay l \<le> 5 * 10 ^ 9)
    \<and> (merc_run parse_node number evs (merc_link_new d) = None \<longleftrightarrow>
        (\<exists>pre ev post l taken effects c. evs = pre @ ev # post
           \<and> merc_run parse_node number pre (merc_link_new d) = Some (l, taken, effects)
           \<and> asked_callsign l ev = Some c \<and> callsign_node parse_node c = None))"
proof (intro conjI)
  show "merc_run parse_node number evs (merc_link_new d) = None \<longleftrightarrow>
        (\<exists>pre ev post l taken effects c. evs = pre @ ev # post
           \<and> merc_run parse_node number pre (merc_link_new d) = Some (l, taken, effects)
           \<and> asked_callsign l ev = Some c \<and> callsign_node parse_node c = None)"
    unfolding run_panics no_node_def by blast
  have none: "waiting d = {#}"
    using new by (auto simp: merc_driver_new_def split: if_splits)
  then have "quiet (merc_link_new d)" by (simp add: quiet_def merc_link_new_def)
  note conserves = merc_run_conserves [OF _ this]
  have "delay_ok (merc_link_new d)" by (simp add: delay_ok_def merc_link_new_def INITIAL_DELAY_def MAX_DELAY_def)
  note delays = run_delay [OF _ this]
  show "\<forall>l taken effects. merc_run parse_node number evs (merc_link_new d) = Some (l, taken, effects) \<longrightarrow>
        taken = settled_all effects + waiting (ml_driver l)
      \<and> (ml_state l = Trying \<or> ml_state l = Waiting \<longrightarrow> waiting (ml_driver l) = {#})
      \<and> 500 * 10 ^ 6 \<le> ml_retry_delay l \<and> ml_retry_delay l \<le> 5 * 10 ^ 9"
  proof (intro allI impI)
    fix l taken effects
    assume run: "merc_run parse_node number evs (merc_link_new d) = Some (l, taken, effects)"
    note conserved = conserves [OF run] and delay = delays [OF run]
    have "taken = settled_all effects + waiting (ml_driver l)" using conserved none by (simp add: merc_link_new_def)
    moreover have "ml_state l = Trying \<or> ml_state l = Waiting \<longrightarrow> waiting (ml_driver l) = {#}" using conserved by (simp add: quiet_def)
    moreover have "500 * 10 ^ 6 \<le> ml_retry_delay l \<and> ml_retry_delay l \<le> 5 * 10 ^ 9"
      using delay by (simp add: delay_ok_def INITIAL_DELAY_def MAX_DELAY_def)
    ultimately show "taken = settled_all effects + waiting (ml_driver l)
      \<and> (ml_state l = Trying \<or> ml_state l = Waiting \<longrightarrow> waiting (ml_driver l) = {#})
      \<and> 500 * 10 ^ 6 \<le> ml_retry_delay l \<and> ml_retry_delay l \<le> 5 * 10 ^ 9" by blast
  qed
qed

text \<open>C37: The node knows the connected peer.  In a session with a modem and streams that behave, the addresses that were
announced to the node and not withdrawn are, after any lines, bundles, commands and idle ticks, exactly that of
the connected peer, and none while there is no connection.\<close>

theorem merc_peers_known:
  assumes "known_run parse_node evs (fresh_session d) {} = Some (d', known, effects)"
  shows "known = connected_address d'"
proof -
  have "connected_address (fresh_session d) = {}" by (simp add: connected_address_def fresh_session_def)
  then show ?thesis using known_run_exact [of parse_node evs "fresh_session d"] assms by simp
qed

text \<open>C38: Both streams of the Mercury adapter carry what was put on them.  Bundles of one octet to 16 MiB that the
writer frames are read back in order from the data stream, whatever follows; and the lines of the
control stream, none longer than the buffer, do not depend on how the stream is cut into reads.\<close>

theorem merc_streams_read:
  assumes "list_all (\<lambda>b. 0 < length b \<and> length b \<le> MAX_MERCURY_FRAME) bundles" and "short_lines 0 (concat chunks)"
  shows "data_read (concat (map data_frame_of bundles) @ rest) = (bundles @ fst (data_read rest), snd (data_read rest))
    \<and> control_reads chunks = take_lines (concat chunks)"
proof
  show "data_read (concat (map data_frame_of bundles) @ rest) = (bundles @ fst (data_read rest), snd (data_read rest))"
    using assms(1)
  proof (induction bundles)
    case (Cons b bundles)
    then show ?case using data_read_frame [of b "concat (map data_frame_of bundles) @ rest"] by simp
  qed simp
  show "control_reads chunks = take_lines (concat chunks)" by (rule control_reads_lines [OF assms(2)])
qed

text \<open>A parser that has no node without a name.\<close>

definition demo_parse :: "string \<Rightarrow> nat option" where
  "demo_parse s = (if s = ''dtn:///'' then None else Some (length s))"

lemma to_lowercase_Nil: "to_lowercase s = [] \<longleftrightarrow> s = []"
  by (simp add: to_lowercase_def)

definition demo_driver :: "(nat, nat) merc_driver" where
  "demo_driver = the (merc_driver_new demo_parse default_merc_config)"

lemma demo_driver: "merc_driver_new demo_parse default_merc_config = Some demo_driver"
  by (simp add: demo_driver_def merc_driver_new_def default_merc_config_def)

definition demo_merc_events :: "(nat, nat) outer_event list" where
  "demo_merc_events = [Attempt Reached, Session_Event (Command 0 True (Some (Connect ''F4'' 7 1))), Session_Event (Ctl_Line 5 None)]"

definition demo_short_line :: "(nat, nat) outer_event list" where
  "demo_short_line = [Attempt Reached, Session_Event (Ctl_Line 5 (Some ''CONNECTED''))]"

lemma demo_setup: "init_mercury_tnc number (md_config demo_driver) \<noteq> None"
proof -
  have config: "mc_my_callsign (md_config demo_driver) = ''N0CALL''"
    by (simp add: demo_driver_def merc_driver_new_def default_merc_config_def fresh_session_def)
  have upper: "to_uppercase ''N0CALL'' = ''N0CALL''" by (simp add: to_uppercase_def upper_char_def)
  have trim: "trim ''N0CALL'' = ''N0CALL''" by (simp add: trim_def trim_start_def trim_end_def is_space_def)
  show ?thesis
    by (simp add: init_mercury_tnc_def config upper trim is_valid_callsign_def is_ascii_alphanumeric_def Let_def)
qed

lemma demo_session_config: "md_config (fresh_session d) = md_config d" "md_peers (fresh_session d) = md_peers d"
  by (simp_all add: fresh_session_def)

lemma merc_requests_settled_witness:
  "(\<exists>l taken effects. merc_run demo_parse (\<lambda>_. ''0'') demo_merc_events (merc_link_new demo_driver) = Some (l, taken, effects)
      \<and> taken = settled_all effects + waiting (ml_driver l))
   \<and> merc_run demo_parse (\<lambda>_. ''0'') demo_short_line (merc_link_new demo_driver) = None"
proof -
  obtain told where told: "init_mercury_tnc (\<lambda>_. ''0'') (md_config demo_driver) = Some told" using demo_setup by blast
  let ?l = "(merc_link_new demo_driver)\<lparr>ml_driver := fresh_session demo_driver, ml_retry_delay := INITIAL_DELAY, ml_state := Online\<rparr>"
  have first: "merc_step demo_parse (\<lambda>_. ''0'') (Attempt Reached) (merc_link_new demo_driver) = Some (?l, [Control told])"
    using told by (simp add: merc_step_def merc_link_new_def)
  have peers: "md_peers demo_driver = Map.empty"
    by (simp add: demo_driver_def merc_driver_new_def default_merc_config_def fresh_session_def)
  have config: "mc_my_callsign (md_config demo_driver) = ''N0CALL''"
    by (simp add: demo_driver_def merc_driver_new_def default_merc_config_def fresh_session_def)
  have "connected_peer (md_config demo_driver) ''CONNECTED'' = []"
    by (simp add: connected_peer_def config is_space_def to_uppercase_def)
  then have "asked_callsign ?l (Session_Event (Ctl_Line 5 (Some ''CONNECTED''))) = Some []"
    by (simp add: asked_callsign_def line_asks_def demo_session_config peers)
  moreover have "callsign_node demo_parse [] = None" by (simp add: callsign_node_def demo_parse_def to_lowercase_def)
  moreover have "demo_short_line = [Attempt Reached] @ Session_Event (Ctl_Line 5 (Some ''CONNECTED'')) # []"
    by (simp add: demo_short_line_def)
  moreover have "merc_run demo_parse (\<lambda>_. ''0'') [Attempt Reached] (merc_link_new demo_driver)
      = Some (?l, taken_handles (merc_link_new demo_driver) (Attempt Reached), [Control told])"
    using first by simp
  ultimately have short: "merc_run demo_parse (\<lambda>_. ''0'') demo_short_line (merc_link_new demo_driver) = None"
    using merc_requests_settled [OF demo_driver, of "\<lambda>_. ''0''" demo_short_line] by blast
  have "\<not> no_node demo_parse (asked_callsign l ev)" if "ev \<in> set demo_merc_events" for l ev
    using that by (auto simp: demo_merc_events_def asked_callsign_def split: link_state.split)
  then have "merc_run demo_parse (\<lambda>_. ''0'') demo_merc_events (merc_link_new demo_driver) \<noteq> None"
    unfolding run_panics by (metis in_set_conv_decomp)
  then obtain l taken effects where "merc_run demo_parse (\<lambda>_. ''0'') demo_merc_events (merc_link_new demo_driver) = Some (l, taken, effects)"
    by auto
  then show ?thesis using merc_requests_settled [OF demo_driver, of "\<lambda>_. ''0''" demo_merc_events] short by blast
qed

definition demo_session_run where
  "demo_session_run = known_run demo_parse [Ctl_Line 3 (Some ''CONNECTED N0CALL F4''), Idle_Tick 9] (fresh_session demo_driver) {}"

lemma merc_peers_known_witness: "fst (snd (the demo_session_run)) = {merc_cla_address ''F4''} \<and> demo_session_run \<noteq> None"
proof -
  have config: "mc_my_callsign (md_config demo_driver) = ''N0CALL''" "mc_idle_timeout (md_config demo_driver) = None"
    by (simp_all add: demo_driver_def merc_driver_new_def default_merc_config_def fresh_session_def)
  have peer: "connected_peer (md_config demo_driver) ''CONNECTED N0CALL F4'' = ''F4''"
    by (simp add: connected_peer_def config is_space_def to_uppercase_def upper_char_def)
  have "md_peers demo_driver = Map.empty"
    by (simp add: demo_driver_def merc_driver_new_def default_merc_config_def fresh_session_def)
  then obtain d' known effects where run: "demo_session_run = Some (d', known, effects)" and conn: "connected_address d' = {merc_cla_address ''F4''}"
    using config peer
    by (auto simp: demo_session_run_def orderly_def session_step_def handle_ctl_line_def is_connected_state_def fresh_session_def
        callsign_node_def demo_parse_def to_lowercase_Nil idle_tick_def connected_address_def Let_def)
  have "known = connected_address d'" by (rule merc_peers_known [OF run [unfolded demo_session_run_def]])
  then have "fst (snd (the demo_session_run)) = {merc_cla_address ''F4''}" using conn by (simp add: run)
  then show ?thesis using run by (metis option.distinct(1))
qed

lemma merc_streams_read_witness:
  "fst (data_read (concat (map data_frame_of [[7], [8, 9]]))) = [[7], [8, 9 :: u8]]
   \<and> control_reads [''BU'', ''SY'' @ [CR]] = take_lines (''BUSY'' @ [CR])"
proof -
  have small: "list_all (\<lambda>b. 0 < length b \<and> length b \<le> MAX_MERCURY_FRAME) [[7], [8, 9 :: u8]]"
    by (simp add: MAX_MERCURY_FRAME_def)
  have short: "short_lines 0 (concat [''BU'', ''SY'' @ [CR]])" by (simp add: MAX_CTL_BUF_def is_newline_def CR_def LF_def)
  from merc_streams_read [OF small short, of "[]"] show ?thesis by (simp add: data_read.simps [of "[]"])
qed

end
