(* ===== verification/Contacts.thy ===== *)
theory Contacts
  imports Mercury
begin

text \<open>
  What schedules and closes contacts from above: the Mercury adapter towards the bundle node
  (\<^verbatim>\<open>mercury-cla/src/cla.rs\<close>), the manager of the TCP peers (\<^verbatim>\<open>dtn-hdy-ham/src/cla_manager.rs\<close>) and the two kinds of
  contact endpoints (\<^verbatim>\<open>coordinator/endpoint.rs\<close>).  An answer that is awaited comes, is dropped with
  its sender, or comes too late.
\<close>

section \<open>The Mercury adapter\<close>

datatype 'x awaited = Came 'x | Gone | Too_Late

datatype mercury_error = Not_Registered | Driver_Closed | Timed_Out | Buffer_Error | Driver_Error merc_error

datatype bpa_error = Bpa_Disconnected | Bpa_Buffer | Bpa_Internal mercury_error

record 'n mercury_cla =
  mcl_config :: "'n merc_config"
  mcl_registered :: bool

definition mercury_cla_new :: "'n merc_config \<Rightarrow> 'n mercury_cla" where
  "mercury_cla_new config = \<lparr>mcl_config = config, mcl_registered = False\<rparr>"

text \<open>The command that is sent, absent where the code panics; \<open>opened\<close> says whether the driver takes commands.\<close>

definition send_command :: "bool \<Rightarrow> ('n, 'r) merc_command \<Rightarrow> 'n mercury_cla \<Rightarrow> mercury_error + ('n, 'r) merc_command" where
  "send_command opened cmd c =
     (if \<not> mcl_registered c then Inl Not_Registered else if opened then Inr cmd else Inl Driver_Closed)"

definition connect_peer ::
    "(string \<Rightarrow> 'n option) \<Rightarrow> bool \<Rightarrow> string \<Rightarrow> 'n option \<Rightarrow> 'r \<Rightarrow> 'n mercury_cla
      \<Rightarrow> (mercury_error + ('n, 'r) merc_command) option" where
  "connect_peer parse_node opened callsign node_id r c =
     (if \<not> mcl_registered c then Some (Inl Not_Registered)
      else case (case node_id of Some nid \<Rightarrow> Some nid | None \<Rightarrow> callsign_node parse_node callsign) of
             None \<Rightarrow> None
           | Some nid \<Rightarrow> Some (send_command opened (Connect callsign nid r) c))"

definition connect_timeout :: "'n mercury_cla \<Rightarrow> nat" where
  "connect_timeout c = (case mc_connect_timeout (mcl_config c) of Some t \<Rightarrow> t | None \<Rightarrow> 30 * 10 ^ 9)"

fun awaited_result :: "(merc_error + bool) awaited \<Rightarrow> mercury_error + unit" where
  "awaited_result (Came (Inr _)) = Inr ()"
| "awaited_result (Came (Inl e)) = Inl (Driver_Error e)"
| "awaited_result Gone = Inl Driver_Closed"
| "awaited_result Too_Late = Inl Timed_Out"

definition disconnect :: "bool \<Rightarrow> 'r \<Rightarrow> 'n mercury_cla \<Rightarrow> mercury_error + ('n, 'r) merc_command" where
  "disconnect opened r c = send_command opened (Disconnect r) c"

definition is_connected_command :: "bool \<Rightarrow> 'r \<Rightarrow> 'n mercury_cla \<Rightarrow> ('n, 'r) merc_command option" where
  "is_connected_command opened r c = (if mcl_registered c \<and> opened then Some (Is_Connected r) else None)"

fun is_connected_result :: "(merc_error + bool) awaited option \<Rightarrow> bool" where
  "is_connected_result (Some (Came (Inr b))) = b"
| "is_connected_result _ = False"

definition merc_register_peer :: "bool \<Rightarrow> 'n merc_peer \<Rightarrow> 'n mercury_cla \<Rightarrow> mercury_error + ('n, 'r) merc_command" where
  "merc_register_peer opened peer c = send_command opened (Register_Peer peer) c"

definition merc_on_register :: "'n mercury_cla \<Rightarrow> 'n mercury_cla" where
  "merc_on_register c = c\<lparr>mcl_registered := True\<rparr>"

text \<open>Both ways to unregister tell a registered driver to shut down; \<^verbatim>\<open>unregister\<close> tells the node first.\<close>

definition merc_unregister :: "'n mercury_cla \<Rightarrow> 'n mercury_cla \<times> ('n, 'r) merc_command list" where
  "merc_unregister c = (if mcl_registered c then (c\<lparr>mcl_registered := False\<rparr>, [Shutdown]) else (c, []))"

definition bpa_error_of :: "mercury_error \<Rightarrow> bpa_error" where
  "bpa_error_of e = (case e of Buffer_Error \<Rightarrow> Bpa_Buffer | _ \<Rightarrow> Bpa_Internal e)"

definition merc_forward ::
    "bool \<Rightarrow> bytes option \<Rightarrow> 'r \<Rightarrow> 'n mercury_cla \<Rightarrow> bpa_error + ('n, 'r) merc_command" where
  "merc_forward opened buffered r c =
     (if \<not> mcl_registered c then Inl Bpa_Disconnected
      else case buffered of
             None \<Rightarrow> Inl (bpa_error_of Buffer_Error)
           | Some bundle_bytes \<Rightarrow> if opened then Inr (Forward_Bundle bundle_bytes r) else Inl Bpa_Disconnected)"

fun merc_forward_result :: "(merc_error + bool) awaited \<Rightarrow> bpa_error + unit" where
  "merc_forward_result (Came (Inr _)) = Inr ()"
| "merc_forward_result (Came (Inl e)) = Inl (bpa_error_of (Driver_Error e))"
| "merc_forward_result _ = Inl Bpa_Disconnected"

section \<open>The manager of the TCP peers\<close>

datatype peer_status = Peer_Connected | Peer_Disconnected | Peer_Connecting

text \<open>An instant is the text of its time; a registered adapter is named by a handle.\<close>

record 'a peer_status_info =
  pi_address :: 'a
  pi_status :: peer_status
  pi_last_attempt_at :: "string option"

record ('a, 'c) cla_manager =
  cm_tcp_peers :: "('c \<times> 'a) list"
  cm_statuses :: "'a \<rightharpoonup> 'a peer_status_info"

definition cla_manager_new :: "('a, 'c) cla_manager" where
  "cla_manager_new = \<lparr>cm_tcp_peers = [], cm_statuses = Map.empty\<rparr>"

definition register_tcp_peer :: "'c \<Rightarrow> 'a \<Rightarrow> ('a, 'c) cla_manager \<Rightarrow> ('a, 'c) cla_manager" where
  "register_tcp_peer cla addr m =
     m\<lparr>cm_tcp_peers := cm_tcp_peers m @ [(cla, addr)],
       cm_statuses := (case cm_statuses m addr of
          Some _ \<Rightarrow> cm_statuses m
        | None \<Rightarrow> (cm_statuses m)(addr \<mapsto> \<lparr>pi_address = addr, pi_status = Peer_Disconnected, pi_last_attempt_at = None\<rparr>))\<rparr>"

definition set_peer_status :: "string \<Rightarrow> 'a \<Rightarrow> peer_status \<Rightarrow> ('a, 'c) cla_manager \<Rightarrow> ('a, 'c) cla_manager" where
  "set_peer_status now addr status m =
     m\<lparr>cm_statuses := (cm_statuses m)(addr \<mapsto> \<lparr>pi_address = addr, pi_status = status, pi_last_attempt_at = Some now\<rparr>)\<rparr>"

definition is_peer_connected :: "'a \<Rightarrow> ('a, 'c) cla_manager \<Rightarrow> bool" where
  "is_peer_connected addr m =
     (case cm_statuses m addr of Some info \<Rightarrow> pi_status info = Peer_Connected | None \<Rightarrow> False)"

text \<open>
  The first adapter whose peer the text names is asked to connect; \<open>show_addr\<close> and \<open>parse_addr\<close> are the text of a socket
  address and its parser, \<open>attempt\<close> whether the adapter connects.  The result says whether it was found and connected.
\<close>

datatype connect_failure = Connection_Failed_To | No_Adapter

definition names_addr :: "('a \<Rightarrow> string) \<Rightarrow> (string \<Rightarrow> 'a option) \<Rightarrow> string \<Rightarrow> 'a \<Rightarrow> bool" where
  "names_addr show_addr parse_addr target addr \<longleftrightarrow> show_addr addr = target \<or> parse_addr target = Some addr"

fun connect_first ::
    "('a \<Rightarrow> string) \<Rightarrow> (string \<Rightarrow> 'a option) \<Rightarrow> ('c \<Rightarrow> 'a \<Rightarrow> bool) \<Rightarrow> string \<Rightarrow> string \<Rightarrow> ('c \<times> 'a) list \<Rightarrow> ('a, 'c) cla_manager
      \<Rightarrow> (connect_failure + unit) \<times> ('a, 'c) cla_manager" where
  "connect_first show_addr parse_addr attempt now target [] m = (Inl No_Adapter, m)"
| "connect_first show_addr parse_addr attempt now target ((cla, addr) # peers) m =
     (if names_addr show_addr parse_addr target addr
      then let m = set_peer_status now addr Peer_Connecting m
           in if attempt cla addr then (Inr (), set_peer_status now addr Peer_Connected m)
              else (Inl Connection_Failed_To, set_peer_status now addr Peer_Disconnected m)
      else connect_first show_addr parse_addr attempt now target peers m)"

definition manager_connect where
  "manager_connect show_addr parse_addr attempt now peer_str m =
     connect_first show_addr parse_addr attempt now (trim peer_str) (cm_tcp_peers m) m"

section \<open>Contact endpoints\<close>

text \<open>The endpoint of a TCP peer; the end of a window leaves the connection as it is.\<close>

definition tcp_start_contact where
  "tcp_start_contact show_addr parse_addr attempt now addr m =
     manager_connect show_addr parse_addr attempt now (show_addr addr) m"

definition tcp_end_contact :: "('a, 'c) cla_manager \<Rightarrow> (connect_failure + unit) \<times> ('a, 'c) cla_manager" where
  "tcp_end_contact m = (Inr (), m)"

definition tcp_is_active :: "'a \<Rightarrow> ('a, 'c) cla_manager \<Rightarrow> bool" where
  "tcp_is_active addr m = is_peer_connected addr m"

definition connect_recorded where
  "connect_recorded attempt now cla addr r m m' \<longleftrightarrow>
     (if attempt cla addr then r = Inr () else r = Inl Connection_Failed_To) \<and> cm_tcp_peers m' = cm_tcp_peers m
     \<and> cm_statuses m' = (cm_statuses m)(addr \<mapsto> \<lparr>pi_address = addr,
         pi_status = (if attempt cla addr then Peer_Connected else Peer_Disconnected), pi_last_attempt_at = Some now\<rparr>)"

lemma connect_first_spec:
  assumes "connect_first show_addr parse_addr attempt now target peers m = (r, m')"
  shows "(r = Inl No_Adapter \<and> m' = m \<and> \<not> list_ex (\<lambda>(_, a). names_addr show_addr parse_addr target a) peers)
    \<or> (\<exists>cla addr. (cla, addr) \<in> set peers \<and> names_addr show_addr parse_addr target addr
        \<and> connect_recorded attempt now cla addr r m m')"
  using assms
proof (induction peers)
  case (Cons p peers)
  obtain cla addr where p: "p = (cla, addr)" by (metis surj_pair)
  show ?case
  proof (cases "names_addr show_addr parse_addr target addr")
    case True
    then have "connect_recorded attempt now cla addr r m m'" using Cons.prems unfolding p
      by (auto simp: connect_recorded_def set_peer_status_def Let_def split: if_splits)
    then show ?thesis using True by (auto simp: p)
  next
    case False
    then have "connect_first show_addr parse_addr attempt now target peers m = (r, m')" using Cons.prems by (simp add: p)
    from Cons.IH [OF this] False show ?thesis unfolding p by auto
  qed
qed simp

text \<open>Starting a contact with a TCP peer that an adapter is registered for asks an adapter of that very peer, and
succeeds exactly if that adapter connects; from then on the peer, and no other, has the outcome as its status,
until something else is recorded, and the end of the window does not change it.  Without an adapter for the peer the start fails and nothing changes.\<close>

theorem tcp_contact_correct:
  assumes "\<And>a b. show_addr a = show_addr b \<longleftrightarrow> a = b" and "\<And>a. parse_addr (show_addr a) = Some a"
    and "\<And>a. trim (show_addr a) = show_addr a"
    and start: "tcp_start_contact show_addr parse_addr attempt now addr m = (r, m')"
  shows "(if list_ex (\<lambda>(_, a). a = addr) (cm_tcp_peers m)
      then \<exists>cla. (cla, addr) \<in> set (cm_tcp_peers m) \<and> (r = Inr () \<longleftrightarrow> attempt cla addr)
        \<and> (r = Inr () \<longleftrightarrow> tcp_is_active addr m') \<and> (\<forall>a. a = addr \<or> cm_statuses m' a = cm_statuses m a)
        \<and> tcp_end_contact m' = (Inr (), m')
      else r = Inl No_Adapter \<and> m' = m)"
proof -
  have names: "names_addr show_addr parse_addr (show_addr addr) a \<longleftrightarrow> a = addr" for a
    using assms(1,2) by (auto simp: names_addr_def)
  have "connect_first show_addr parse_addr attempt now (show_addr addr) (cm_tcp_peers m) m = (r, m')"
    using start assms(3) by (simp add: tcp_start_contact_def manager_connect_def)
  from connect_first_spec [OF this] show ?thesis unfolding names
  proof (elim disjE)
    assume "r = Inl No_Adapter \<and> m' = m \<and> \<not> list_ex (\<lambda>(_, a). a = addr) (cm_tcp_peers m)"
    then show ?thesis by simp
  next
    assume "\<exists>cla a. (cla, a) \<in> set (cm_tcp_peers m) \<and> a = addr \<and> connect_recorded attempt now cla a r m m'"
    then obtain cla where cla: "(cla, addr) \<in> set (cm_tcp_peers m)" "if attempt cla addr then r = Inr () else r = Inl Connection_Failed_To"
      "cm_statuses m' = (cm_statuses m)(addr \<mapsto> \<lparr>pi_address = addr,
            pi_status = (if attempt cla addr then Peer_Connected else Peer_Disconnected), pi_last_attempt_at = Some now\<rparr>)" unfolding connect_recorded_def by blast
    have "list_ex (\<lambda>(_, a). a = addr) (cm_tcp_peers m)" using cla(1) by (auto simp: list_ex_iff)
    moreover have "r = Inr () \<longleftrightarrow> tcp_is_active addr m'"
      using cla(2,3) by (auto simp: tcp_is_active_def is_peer_connected_def split: if_splits)
    ultimately show ?thesis using cla by (auto simp: tcp_end_contact_def split: if_splits)
  qed
qed

definition demo_manager :: "(nat, nat) cla_manager" where
  "demo_manager = register_tcp_peer 1 5 cla_manager_new"

definition show_demo :: "nat \<Rightarrow> string" where "show_demo n = replicate n CHR ''x''"

definition parse_demo :: "string \<Rightarrow> nat option" where "parse_demo s = Some (length s)"

lemma tcp_contact_correct_witness:
  "tcp_is_active 5 (snd (tcp_start_contact show_demo parse_demo (\<lambda>_ _. True) ''now'' 5 demo_manager))"
proof -
  have inj: "show_demo a = show_demo b \<longleftrightarrow> a = b" for a b unfolding show_demo_def by (metis length_replicate)
  have parse: "parse_demo (show_demo a) = Some a" for a by (simp add: parse_demo_def show_demo_def)
  have "dropWhile is_space (replicate a CHR ''x'') = replicate a CHR ''x''" for a
    by (cases a) (simp_all add: is_space_def)
  then have trim: "trim (show_demo a) = show_demo a" for a
    by (simp add: show_demo_def trim_def trim_start_def trim_end_def)
  obtain r m' where start: "tcp_start_contact show_demo parse_demo (\<lambda>_ _. True) ''now'' 5 demo_manager = (r, m')" by (metis surj_pair)
  have "list_ex (\<lambda>(_, a). a = 5) (cm_tcp_peers demo_manager)"
    by (simp add: demo_manager_def register_tcp_peer_def cla_manager_new_def)
  then show ?thesis using tcp_contact_correct [OF inj parse trim start] by (auto simp: start)
qed

end
