(* ===== verification/Bibe.thy ===== *)
theory Bibe
  imports Security_Safety
begin

text \<open>
  The decapsulating service (\<^verbatim>\<open>src/bin/dtnbib.rs\<close>): it takes the bundle out of the outer one the forwarder
  has made, checks its signature, rewrites an aliased destination, signs the rebuilt bundle again, and
  hands it back to the agent.  A delivery is the list of its effects; it is \<open>None\<close> where the code panics.
\<close>

section \<open>What the service takes from libraries\<close>

text \<open>
  The third item of the inner array of a record, by its ranges; \<open>bi_view\<close> is the decoder's reading of a
  payload as an array of an unsigned 32-bit type and another array, at an offset, of two unsigned
  numbers and a value, itself at an offset in that array.  It is \<open>None\<close> where the decoder fails.
  \<open>bi_rebuild\<close> builds a bundle from source, destination, lifetime, flags, payload and creation timestamp.
\<close>

datatype bibe_value = Byte_Range "nat \<times> nat" | Byte_Ranges "(nat \<times> nat) list" | No_Bytes

record bibe_view =
  bv_type :: u32
  bv_offset :: nat
  bv_transmission :: u64
  bv_retransmission :: u64
  bv_content_offset :: nat
  bv_value :: bibe_value

record 'b bibe_lib =
  bi_view :: "bytes \<Rightarrow> bibe_view option"
  bi_destination :: "'b \<Rightarrow> string"
  bi_flags :: "'b \<Rightarrow> nat"
  bi_timestamp :: "'b \<Rightarrow> nat \<times> nat"
  bi_rebuild :: "string \<Rightarrow> string \<Rightarrow> nat \<Rightarrow> nat \<Rightarrow> bytes \<Rightarrow> nat \<times> nat \<Rightarrow> string + ('b \<times> bytes)"

section \<open>The record\<close>

definition BIBE_RECORD :: u32 where "BIBE_RECORD = 64443"

text \<open>\<^verbatim>\<open>payload_data[start..end]\<close>, which panics out of range.\<close>

definition bytes_at :: "bytes \<Rightarrow> nat \<Rightarrow> nat \<times> nat \<Rightarrow> bytes option" where
  "bytes_at data base r =
     (let first = base + fst r; past = base + snd r
      in if first \<le> past \<and> past \<le> length data then Some (take (past - first) (drop first data)) else None)"

fun bytes_at_all :: "bytes \<Rightarrow> nat \<Rightarrow> (nat \<times> nat) list \<Rightarrow> bytes \<Rightarrow> bytes option" where
  "bytes_at_all data base [] acc = Some acc"
| "bytes_at_all data base (r # rs) acc =
     (case bytes_at data base r of None \<Rightarrow> None | Some part \<Rightarrow> bytes_at_all data base rs (acc @ part))"

text \<open>\<open>None\<close> is a panic, \<open>Some None\<close> an error.\<close>

definition parse_bibe_pdu :: "'b bibe_lib \<Rightarrow> bytes \<Rightarrow> bytes option option" where
  "parse_bibe_pdu bl payload_data =
     (case bi_view bl payload_data of
        None \<Rightarrow> Some None
      | Some view \<Rightarrow>
          if bv_type view \<noteq> BIBE_RECORD then Some None
          else let base = bv_offset view + bv_content_offset view
               in case bv_value view of
                    Byte_Range r \<Rightarrow> map_option Some (bytes_at payload_data base r)
                  | Byte_Ranges ranges \<Rightarrow> map_option Some (bytes_at_all payload_data base ranges [])
                  | No_Bytes \<Rightarrow> Some None)"

section \<open>The service\<close>

record bib_service =
  bs_local_node_eid :: string
  bs_alias_mappings :: "(string \<times> string) list"
  bs_no_transit :: bool
  bs_keystore :: keystore
  bs_policy :: verify_policy
  bs_sign_key :: "string option"
  bs_sign_key_file :: "string option"
  bs_security_source :: "string option"
  bs_has_sink :: bool

text \<open>\<open>parse_eid\<close> gives the text of the endpoint it reads.\<close>

fun rewrite_eid :: "(string \<Rightarrow> string option) \<Rightarrow> (string \<times> string) list \<Rightarrow> string \<Rightarrow> (string \<times> bool) option" where
  "rewrite_eid parse_eid [] eid_str = Some (eid_str, False)"
| "rewrite_eid parse_eid ((alias, local) # mappings) eid_str =
     (if prefix alias eid_str
      then map_option (\<lambda>rewritten. (rewritten, True)) (parse_eid (local @ drop (length alias) eid_str))
      else rewrite_eid parse_eid mappings eid_str)"

text \<open>The payload of the outer bundle, and the bundle in it; \<open>Some None\<close> where there is none.\<close>

definition decapsulate :: "('b, 'v) bpv7_lib \<Rightarrow> 'b bibe_lib \<Rightarrow> bytes \<Rightarrow> bytes option option" where
  "decapsulate lib bl data =
     (case bl_parse lib data of
        Inl _ \<Rightarrow> Some None
      | Inr outer_parsed \<Rightarrow>
          (case bl_payload lib outer_parsed of
             None \<Rightarrow> Some None
           | Some outer_payload \<Rightarrow>
               map_option (\<lambda>r. case r of Some inner \<Rightarrow> Some inner | None \<Rightarrow> Some outer_payload)
                 (parse_bibe_pdu bl outer_payload)))"

definition signature_valid :: "('b, 'v) bpv7_lib \<Rightarrow> bib_service \<Rightarrow> bytes \<Rightarrow> bool" where
  "signature_valid lib bs inner \<longleftrightarrow> bs_policy bs \<noteq> Ignore \<and> verify_bundle lib inner (bs_keystore bs) = Valid"

text \<open>The key the rebuilt bundle is signed with, if any; an error is a key that cannot be loaded.\<close>

definition key_to_use :: "key_lib \<Rightarrow> bib_service \<Rightarrow> bool \<Rightarrow> string \<Rightarrow> key_error + bytes option" where
  "key_to_use klib bs is_signature_valid source =
     (if is_signature_valid
      then (if bs_sign_key bs \<noteq> None \<or> bs_sign_key_file bs \<noteq> None
            then (case load_key klib (bs_sign_key bs) (bs_sign_key_file bs) of Inr k \<Rightarrow> Inr (Some k) | Inl e \<Rightarrow> Inl e)
            else (case find_keys (bs_keystore bs) source of
                    key # _ \<Rightarrow> Inr (Some (bk_octets key))
                  | [] \<Rightarrow> Inr None))
      else Inr None)"

definition resign_source :: "('b, 'v) bpv7_lib \<Rightarrow> bib_service \<Rightarrow> string \<Rightarrow> string" where
  "resign_source lib bs source =
     (case bs_security_source bs of
        Some s \<Rightarrow> (case bl_parse_eid lib s of Some eid \<Rightarrow> eid | None \<Rightarrow> source)
      | None \<Rightarrow> source)"

text \<open>The rebuilt bundle, signed again if a key is used; \<open>None\<close> where the code gives up.\<close>

definition rebuild_inner ::
  "('b, 'v) bpv7_lib \<Rightarrow> key_lib \<Rightarrow> 'b bibe_lib \<Rightarrow> bib_service \<Rightarrow> bytes \<Rightarrow> 'b \<Rightarrow> string \<Rightarrow> bytes option" where
  "rebuild_inner lib klib bl bs inner parsed rewritten_dest =
     (case bl_payload lib parsed of
        None \<Rightarrow> None
      | Some inner_payload \<Rightarrow>
          (case bi_rebuild bl (bl_source lib parsed) rewritten_dest (bl_lifetime lib parsed) (bi_flags bl parsed)
                  inner_payload (bi_timestamp bl parsed) of
             Inl _ \<Rightarrow> None
           | Inr (_, rebuilt) \<Rightarrow>
               (case key_to_use klib bs (signature_valid lib bs inner) (bl_source lib parsed) of
                  Inl _ \<Rightarrow> None
                | Inr None \<Rightarrow> Some rebuilt
                | Inr (Some key_mat) \<Rightarrow>
                    (case sign_bundle lib rebuilt key_mat (Some (resign_source lib bs (bl_source lib parsed))) of
                       Inl _ \<Rightarrow> None
                     | Inr (_, resigned) \<Rightarrow> Some resigned))))"

definition is_local_eid :: "bib_service \<Rightarrow> string \<Rightarrow> bool" where
  "is_local_eid bs eid_str = prefix (bs_local_node_eid bs) eid_str"

definition reinject ::
  "('b, 'v) bpv7_lib \<Rightarrow> key_lib \<Rightarrow> 'b bibe_lib \<Rightarrow> bib_service \<Rightarrow> bytes \<Rightarrow> effect list" where
  "reinject lib klib bl bs inner =
     (case bl_parse lib inner of
        Inl _ \<Rightarrow> []
      | Inr parsed \<Rightarrow>
          if \<not> policy_accepts lib (bs_policy bs) (bs_keystore bs) inner then []
          else (case rewrite_eid (bl_parse_eid lib) (bs_alias_mappings bs) (bi_destination bl parsed) of
                  None \<Rightarrow> []
                | Some (rewritten_dest, eid_was_rewritten) \<Rightarrow>
                    if \<not> is_local_eid bs rewritten_dest \<and> bs_no_transit bs then []
                    else (case (if eid_was_rewritten then rebuild_inner lib klib bl bs inner parsed rewritten_dest
                                else Some inner) of
                            None \<Rightarrow> []
                          | Some final_binbundle \<Rightarrow> if bs_has_sink bs then [Dispatch final_binbundle] else [])))"

definition bib_deliver ::
  "('b, 'v) bpv7_lib \<Rightarrow> key_lib \<Rightarrow> 'b bibe_lib \<Rightarrow> bib_service \<Rightarrow> bytes \<Rightarrow> effect list option" where
  "bib_deliver lib klib bl bs data =
     (case decapsulate lib bl data of
        None \<Rightarrow> None
      | Some None \<Rightarrow> Some []
      | Some (Some inner) \<Rightarrow> Some (reinject lib klib bl bs inner))"

section \<open>Starting the service\<close>

definition parse_alias :: "string \<Rightarrow> string \<Rightarrow> string \<times> string" where
  "parse_alias local_str alias_arg =
     (if CHR ''='' \<in> set alias_arg
      then (let alias = takeWhile (\<lambda>c. c \<noteq> CHR ''='') alias_arg; local = tl (dropWhile (\<lambda>c. c \<noteq> CHR ''='') alias_arg)
            in (normalize_eid alias, normalize_eid local))
      else (normalize_eid alias_arg, local_str))"

record bib_args =
  ba_alias :: "string list"
  ba_no_transit :: bool
  ba_keystore :: "string option"
  ba_verify_key :: "string option"
  ba_verify_key_file :: "string option"
  ba_verify_policy :: verify_policy
  ba_sign_key :: "string option"
  ba_sign_key_file :: "string option"
  ba_security_source :: "string option"

text \<open>The service \<^verbatim>\<open>main\<close> makes; \<open>local_node\<close> is the text of the endpoint the agent gave.\<close>

definition bib_start ::
  "('b, 'v) bpv7_lib \<Rightarrow> key_lib \<Rightarrow> (string \<Rightarrow> string option) \<Rightarrow> bib_args \<Rightarrow> string \<Rightarrow> sign_error + bib_service" where
  "bib_start lib klib parent args local_node =
     (if (case ba_security_source args of Some s \<Rightarrow> bl_parse_eid lib (normalize_eid s) = None | None \<Rightarrow> False)
      then Inl Invalid_Source
      else (case load_default_or klib parent (ba_keystore args) of
              Inl e \<Rightarrow> Inl (Key_Failed e)
            | Inr store \<Rightarrow>
                (case (if ba_verify_key args \<noteq> None \<or> ba_verify_key_file args \<noteq> None
                       then (case load_key klib (ba_verify_key args) (ba_verify_key_file args) of
                               Inl e \<Rightarrow> Inl e
                             | Inr key_mat \<Rightarrow> Inr (add_key ''*'' key_mat store))
                       else Inr store) of
                   Inl e \<Rightarrow> Inl (Key_Failed e)
                 | Inr store \<Rightarrow>
                     Inr \<lparr>bs_local_node_eid = local_node,
                          bs_alias_mappings = map (parse_alias local_node) (ba_alias args),
                          bs_no_transit = ba_no_transit args, bs_keystore = store,
                          bs_policy = ba_verify_policy args, bs_sign_key = ba_sign_key args,
                          bs_sign_key_file = ba_sign_key_file args,
                          bs_security_source = ba_security_source args, bs_has_sink = True\<rparr>)))"

section \<open>What is handed back to the agent\<close>

lemma bytes_at_range [simp]: "bytes_at (a @ d @ z) (length a) (0, length d) = Some d"
  by (simp add: bytes_at_def)

lemma rewrite_eid_unaliased:
  "(\<forall>m \<in> set ms. \<not> prefix (fst m) d) \<Longrightarrow> rewrite_eid pe ms d = Some (d, False)"
  by (induction ms) auto

text \<open>The first mapping whose alias the destination begins with decides.\<close>

lemma rewrite_eid_find:
  "rewrite_eid pe ms d =
     (case find (\<lambda>m. prefix (fst m) d) ms of
        None \<Rightarrow> Some (d, False)
      | Some (a, l) \<Rightarrow> map_option (\<lambda>d'. (d', True)) (pe (l @ drop (length a) d)))"
  by (induction ms) auto

lemma bib_deliver_cases:
  assumes "bib_deliver lib klib bl bs data = Some effects" and "effects \<noteq> []"
  obtains inner parsed dest rw w
  where "decapsulate lib bl data = Some (Some inner)" "bl_parse lib inner = Inr parsed"
    "policy_accepts lib (bs_policy bs) (bs_keystore bs) inner"
    "rewrite_eid (bl_parse_eid lib) (bs_alias_mappings bs) (bi_destination bl parsed) = Some (dest, rw)"
    "is_local_eid bs dest \<or> \<not> bs_no_transit bs" "bs_has_sink bs" "effects = [Dispatch w]"
    "(if rw then rebuild_inner lib klib bl bs inner parsed dest else Some inner) = Some w"
  using assms unfolding bib_deliver_def reinject_def
  by (auto split: option.splits sum.splits if_splits prod.splits)

text \<open>The key of the new signature: the one of the options if there is one, else the first of the key store
  for the bundle's source.\<close>

definition signing_key :: "key_lib \<Rightarrow> bib_service \<Rightarrow> string \<Rightarrow> bytes \<Rightarrow> bool" where
  "signing_key klib bs source k \<longleftrightarrow>
     (if bs_sign_key bs \<noteq> None \<or> bs_sign_key_file bs \<noteq> None
      then load_key klib (bs_sign_key bs) (bs_sign_key_file bs) = Inr k
      else find_keys (bs_keystore bs) source \<noteq> [] \<and> k = bk_octets (hd (find_keys (bs_keystore bs) source)))"

text \<open>The octets that replace a bundle with an alias: those of the rebuilt one, signed again if the signature
  was valid and there is a key.\<close>

definition rebuilt_as ::
  "('b, 'v) bpv7_lib \<Rightarrow> key_lib \<Rightarrow> 'b bibe_lib \<Rightarrow> bib_service \<Rightarrow> bytes \<Rightarrow> 'b \<Rightarrow> string \<Rightarrow> bytes \<Rightarrow> bool" where
  "rebuilt_as lib klib bl bs inner parsed dest w \<longleftrightarrow>
     (\<exists>payload b rebuilt. bl_payload lib parsed = Some payload
        \<and> bi_rebuild bl (bl_source lib parsed) dest (bl_lifetime lib parsed) (bi_flags bl parsed) payload
            (bi_timestamp bl parsed) = Inr (b, rebuilt)
        \<and> (if signature_valid lib bs inner \<and> (\<exists>k. signing_key klib bs (bl_source lib parsed) k)
           then \<exists>k b'. signing_key klib bs (bl_source lib parsed) k
             \<and> sign_bundle lib rebuilt k (Some (resign_source lib bs (bl_source lib parsed))) = Inr (b', w)
           else w = rebuilt))"

lemma key_to_use_Inr:
  assumes "key_to_use klib bs v s = Inr r"
  shows "case r of None \<Rightarrow> \<not> (v \<and> (\<exists>k. signing_key klib bs s k)) | Some k \<Rightarrow> v \<and> signing_key klib bs s k"
  using assms by (auto simp: key_to_use_def signing_key_def split: if_splits sum.splits list.splits)

lemma rebuild_inner_as:
  assumes "rebuild_inner lib klib bl bs inner parsed dest = Some w"
  shows "rebuilt_as lib klib bl bs inner parsed dest w"
proof -
  from assms obtain payload b rebuilt r
    where built: "bl_payload lib parsed = Some payload"
      "bi_rebuild bl (bl_source lib parsed) dest (bl_lifetime lib parsed) (bi_flags bl parsed) payload
         (bi_timestamp bl parsed) = Inr (b, rebuilt)"
      and key: "key_to_use klib bs (signature_valid lib bs inner) (bl_source lib parsed) = Inr r"
      and w: "case r of None \<Rightarrow> w = rebuilt
        | Some k \<Rightarrow> \<exists>b'. sign_bundle lib rebuilt k (Some (resign_source lib bs (bl_source lib parsed))) = Inr (b', w)"
    by (auto simp: rebuild_inner_def split: option.splits sum.splits prod.splits)
  show ?thesis
    using built w key_to_use_Inr [OF key] by (cases r) (auto simp: rebuilt_as_def)
qed

text \<open>Nothing else of the bundle survives: two bundles that agree in these fields are rebuilt to the same octets,
  whatever extension blocks and report-to endpoint they have.\<close>

lemma rebuild_forgets_blocks:
  assumes "bl_source lib p1 = bl_source lib p2" and "bl_lifetime lib p1 = bl_lifetime lib p2" and "bi_flags bl p1 = bi_flags bl p2"
    and "bl_payload lib p1 = bl_payload lib p2" and "bi_timestamp bl p1 = bi_timestamp bl p2"
    and "signature_valid lib bs d1 = signature_valid lib bs d2"
  shows "rebuild_inner lib klib bl bs d1 p1 dest = rebuild_inner lib klib bl bs d2 p2 dest"
  unfolding rebuild_inner_def assms by (rule refl)

section \<open>Decapsulation undoes encapsulation\<close>

text \<open>What the decoder's documentation says of an array of a number and an array of two numbers and a byte string,
  as the encoder writes it: the numbers are those written, and the octets of the string are where the
  range says.\<close>

definition records_read :: "'b bibe_lib \<Rightarrow> (cbor_item \<Rightarrow> bytes) \<Rightarrow> bool" where
  "records_read bl emit \<longleftrightarrow>
     (\<forall>(t :: u32) (i :: u32) (r :: u32) d. \<exists>view a z n.
        let written = emit (emit_array [uint (ucast t), emit_array [uint (ucast i), uint (ucast r), byte_str d]])
        in bi_view bl written = Some view \<and> bv_type view = t
          \<and> bv_transmission view = ucast i \<and> bv_retransmission view = ucast r
          \<and> bv_value view = Byte_Range (n, n + length d) \<and> written = a @ d @ z
          \<and> bv_offset view + bv_content_offset view + n = length a)"

definition not_a_record :: "'b bibe_lib \<Rightarrow> bytes \<Rightarrow> bool" where
  "not_a_record bl data \<longleftrightarrow> (case bi_view bl data of Some view \<Rightarrow> bv_type view \<noteq> BIBE_RECORD | None \<Rightarrow> True)"

lemma parse_written_record:
  assumes "records_read bl emit"
  shows "parse_bibe_pdu bl (emit (bibe_pdu hash d)) = Some (Some d)"
proof -
  have pdu: "bibe_pdu hash d = emit_array [uint (ucast (64443 :: u32)),
      emit_array [uint (ucast (transmission_id hash d)), uint (ucast (0 :: u32)), byte_str d]]"
    by (simp add: bibe_pdu_def)
  from assms [unfolded records_read_def Let_def, rule_format, of 64443 "transmission_id hash d" 0 d]
  obtain view a z n
    where v: "bi_view bl (emit (bibe_pdu hash d)) = Some view" "bv_type view = BIBE_RECORD" "emit (bibe_pdu hash d) = a @ d @ z"
      "bv_value view = Byte_Range (n, n + length d)" "bv_offset view + bv_content_offset view + n = length a"
    unfolding pdu BIBE_RECORD_def by blast
  have "bytes_at (emit (bibe_pdu hash d)) (bv_offset view + bv_content_offset view) (n, n + length d) = Some d"
    using v(3,5) by (simp add: bytes_at_def add.assoc [symmetric])
  then show ?thesis using v(1,2,4) by (simp add: parse_bibe_pdu_def)
qed

lemma parse_no_record: "not_a_record bl d \<Longrightarrow> parse_bibe_pdu bl d = Some None"
  by (auto simp: not_a_record_def parse_bibe_pdu_def split: option.splits)

lemma forwarded_payload:
  assumes "builder_ok lib" and "forward_deliver lib klib emit hash fs policy store now data = Some effects"
    and "Dispatch out \<in> set effects"
  shows "\<exists>b. bl_parse lib out = Inr b \<and> bl_payload lib b = Some (if fs_raw fs then data else emit (bibe_pdu hash data))"
proof -
  from assms(2,3) obtain b0 d0 b1
    where build: "bl_build lib (fs_sender_eid fs) (fs_target_destination fs) (if fs_raw fs then data else emit (bibe_pdu hash data))
        (outer_lifetime lib fs now data) = Inr (b0, d0)"
      and sign: "maybe_sign_bundle lib klib b0 d0 (fs_sign_key fs) (fs_sign_key_file fs) (fs_security_source fs) = Inr (b1, out)"
    by (auto simp: forward_deliver_def Let_def split: if_splits sum.splits option.splits)
  obtain b' where "bl_parse lib d0 = Inr b'" "bl_payload lib b' = Some (if fs_raw fs then data else emit (bibe_pdu hash data))"
    using build assms(1) unfolding builder_ok_def by metis
  from maybe_sign_payload [OF assms(1) this sign] show ?thesis .
qed

text \<open>A codec that writes such records with heads of nine octets and reads them back, and a service for the node
  \<open>n\<close> that has the alias \<open>f\<close>.\<close>

fun number_in :: "cbor_item \<Rightarrow> u64" where
  "number_in (Item tags shortest (UnsignedInteger n)) = n"
| "number_in _ = 0"

fun octets_in :: "cbor_item \<Rightarrow> bytes" where
  "octets_in (Item tags shortest (Bytes d)) = d"
| "octets_in _ = []"

fun parts_in :: "cbor_item \<Rightarrow> cbor_item list" where
  "parts_in (Item tags shortest (Array xs)) = xs"
| "parts_in _ = []"

definition long_emit :: "cbor_item \<Rightarrow> bytes" where
  "long_emit x =
     (let content = parts_in (parts_in x ! 1); d = octets_in (content ! 2)
      in [0x82, 0x1B] @ to_be_bytes (number_in (parts_in x ! 0)) @ [0x83, 0x1B] @ to_be_bytes (number_in (content ! 0))
           @ [0x1B] @ to_be_bytes (number_in (content ! 1)) @ [0x5B] @ to_be_bytes (vec_len d) @ d)"

definition long_view :: "bytes \<Rightarrow> bibe_view option" where
  "long_view d =
     (if length d < 38 \<or> d ! 0 \<noteq> 0x82 then None
      else Some \<lparr>bv_type = ucast (from_be_bytes (take 8 (drop 2 d))), bv_offset = 10,
             bv_transmission = from_be_bytes (take 8 (drop 12 d)), bv_retransmission = from_be_bytes (take 8 (drop 21 d)),
             bv_content_offset = 19, bv_value = Byte_Range (9, 9 + (length d - 38))\<rparr>)"

definition demo_bibe :: "bytes bibe_lib" where
  "demo_bibe = \<lparr>bi_view = long_view, bi_destination = (\<lambda>_. ''dtn://f/s''), bi_flags = (\<lambda>_. 0), bi_timestamp = (\<lambda>_. (0, 0)),
     bi_rebuild = (\<lambda>_ _ _ _ p _. Inr (p, 7 # p))\<rparr>"

definition demo_bib :: "(string \<times> string) list \<Rightarrow> string \<Rightarrow> bib_service" where
  "demo_bib mappings node = \<lparr>bs_local_node_eid = node, bs_alias_mappings = mappings, bs_no_transit = True,
     bs_keystore = add_key ''*'' [1] [], bs_policy = Strict, bs_sign_key = None, bs_sign_key_file = None,
     bs_security_source = None, bs_has_sink = True\<rparr>"

lemma demo_records: "records_read demo_bibe long_emit"
  unfolding records_read_def
proof (intro allI)
  fix t i r :: u32 and d :: bytes
  let ?a = "[0x82, 0x1B] @ to_be_bytes (ucast t) @ [0x83, 0x1B] @ to_be_bytes (ucast i) @ [0x1B] @ to_be_bytes (ucast r) @ [0x5B]
    @ to_be_bytes (vec_len d)"
  let ?written = "long_emit (emit_array [uint (ucast t), emit_array [uint (ucast i), uint (ucast r), byte_str d]])"
  have written: "?written = ?a @ d @ []" by (simp add: long_emit_def emit_array_def uint_def byte_str_def)
  have "bi_view demo_bibe ?written = Some \<lparr>bv_type = t, bv_offset = 10, bv_transmission = ucast i, bv_retransmission = ucast r,
      bv_content_offset = 19, bv_value = Byte_Range (9, 9 + length d)\<rparr>"
    unfolding written by (simp add: demo_bibe_def long_view_def from_be_bytes_to_be_bytes) (rule bit_word_eqI, simp add: bit_simps)
  then show "\<exists>view a z n. let written = ?written
      in bi_view demo_bibe written = Some view \<and> bv_type view = t
        \<and> bv_transmission view = ucast i \<and> bv_retransmission view = ucast r
        \<and> bv_value view = Byte_Range (n, n + length d) \<and> written = a @ d @ z
        \<and> bv_offset view + bv_content_offset view + n = length a"
    unfolding Let_def written
    by (intro exI [of _ ?a] exI [of _ "[]"] exI [of _ 9] exI [of _ "\<lparr>bv_type = t, bv_offset = 10, bv_transmission = ucast i,
        bv_retransmission = ucast r, bv_content_offset = 19, bv_value = Byte_Range (9, 9 + length d)\<rparr>"]) simp
qed

lemma demo_verified: "verify_bundle demo_lib [0, 65] (add_key ''*'' [1] []) = Valid"
  by (simp add: verify_bundle_def demo_lib_def add_key_def missing_key_def find_keys_def matches_eid_pattern_def)

text \<open>C16: what the forwarder encapsulates the decapsulating service restores.  Whatever bundle the
  forwarder sent for a received one, as a record or as it is, signed or not, the service behind the
  outer destination hands exactly the octets received to its agent, if it accepts their signature, their
  destination has no alias, and it is allowed to pass them on.
\<close>

theorem bib_restores_forwarded:
  assumes "builder_ok lib" and "records_read bl emit" and "fs_raw fs \<Longrightarrow> not_a_record bl data"
    and "forward_deliver lib klib emit hash fs policy store now data = Some effects" and "Dispatch out \<in> set effects"
    and "bl_parse lib data = Inr parsed" and "policy_accepts lib (bs_policy bs) (bs_keystore bs) data"
    and "\<forall>m \<in> set (bs_alias_mappings bs). \<not> prefix (fst m) (bi_destination bl parsed)"
    and "is_local_eid bs (bi_destination bl parsed) \<or> \<not> bs_no_transit bs" and "bs_has_sink bs"
  shows "bib_deliver lib klib' bl bs out = Some [Dispatch data]"
proof -
  from forwarded_payload [OF assms(1,4,5)] obtain b
    where "bl_parse lib out = Inr b" "bl_payload lib b = Some (if fs_raw fs then data else emit (bibe_pdu hash data))" by blast
  then have "decapsulate lib bl out = Some (Some data)"
    using assms(3) by (simp add: decapsulate_def parse_written_record [OF assms(2)] parse_no_record)
  moreover have "reinject lib klib' bl bs data = [Dispatch data]"
    using assms(6,7,9,10) rewrite_eid_unaliased [OF assms(8)] by (auto simp: reinject_def)
  ultimately show ?thesis by (simp add: bib_deliver_def)
qed

definition demo_forward :: forward_service where
  "demo_forward = \<lparr>fs_target_destination = ''t'', fs_sender_eid = ''s'', fs_lifetime = Some 60, fs_lifetime_default = 60,
     fs_max_depth = 0, fs_sign_key = None, fs_sign_key_file = None, fs_security_source = None, fs_raw = False, fs_has_sink = True\<rparr>"

definition demo_outer :: bytes where
  "demo_outer = 0 # long_emit (bibe_pdu (\<lambda>_. 5) [0, 65])"

lemma bib_restores_forwarded_witness:
  "bib_deliver demo_lib no_keys demo_bibe (demo_bib [] ''dtn://f/'') demo_outer = Some [Dispatch [0, 65]]"
proof (rule bib_restores_forwarded [where klib = no_keys and policy = Ignore and store = "[]" and now = 0])
  show "builder_ok demo_lib" by (rule demo_lib_laws(2))
  show "records_read demo_bibe long_emit" by (rule demo_records)
  show "forward_deliver demo_lib no_keys long_emit (\<lambda>_. 5) demo_forward Ignore [] 0 [0, 65] = Some [Dispatch demo_outer]"
    by (simp add: forward_deliver_def demo_forward_def policy_accepts_def maybe_sign_bundle_def demo_lib_def demo_outer_def)
  show "bl_parse demo_lib [0, 65] = Inr [65]" by (simp add: demo_lib_def)
qed (simp_all add: demo_forward_def demo_bib_def demo_bibe_def is_local_eid_def policy_strict demo_verified)

section \<open>What a delivery may do\<close>

text \<open>C40: whatever arrives, a delivery hands at most one bundle to the agent, made from the one found in the outer
  bundle.  Under the strict policy its signature was valid; without transit the destination it is sent
  with begins with the local node's name.  If no alias is the beginning of its destination, its octets are
  unchanged, signature included.  Otherwise it is rewritten: the first such alias is replaced by its mapping, and the bundle is
  built anew from its source, the new destination, its lifetime, flags, payload and creation time, which is all
  that is kept of it; it is signed again, with the key of the options or else the first of the key store for its source,
  exactly if the original signature was found valid and there is such a key.
\<close>

theorem bib_deliver_sound:
  assumes "bib_deliver lib klib bl bs data = Some effects" and "effects \<noteq> []"
  shows "\<exists>inner parsed dest w. decapsulate lib bl data = Some (Some inner) \<and> bl_parse lib inner = Inr parsed
    \<and> effects = [Dispatch w]
    \<and> (bs_policy bs = Strict \<longrightarrow> verify_bundle lib inner (bs_keystore bs) = Valid)
    \<and> (bs_no_transit bs \<longrightarrow> prefix (bs_local_node_eid bs) dest)
    \<and> (case find (\<lambda>m. prefix (fst m) (bi_destination bl parsed)) (bs_alias_mappings bs) of
         None \<Rightarrow> dest = bi_destination bl parsed \<and> w = inner
       | Some (alias_of, local_of) \<Rightarrow>
           bl_parse_eid lib (local_of @ drop (length alias_of) (bi_destination bl parsed)) = Some dest
           \<and> (\<exists>payload b rebuilt. bl_payload lib parsed = Some payload
              \<and> bi_rebuild bl (bl_source lib parsed) dest (bl_lifetime lib parsed) (bi_flags bl parsed) payload
                  (bi_timestamp bl parsed) = Inr (b, rebuilt)
              \<and> (if bs_policy bs \<noteq> Ignore \<and> verify_bundle lib inner (bs_keystore bs) = Valid
                    \<and> (\<exists>k. signing_key klib bs (bl_source lib parsed) k)
                 then \<exists>k b'. signing_key klib bs (bl_source lib parsed) k
                   \<and> sign_bundle lib rebuilt k (Some (resign_source lib bs (bl_source lib parsed))) = Inr (b', w)
                 else w = rebuilt)))"
proof -
  from assms obtain inner parsed dest rw w
    where c: "decapsulate lib bl data = Some (Some inner)" "bl_parse lib inner = Inr parsed"
      "policy_accepts lib (bs_policy bs) (bs_keystore bs) inner"
      "rewrite_eid (bl_parse_eid lib) (bs_alias_mappings bs) (bi_destination bl parsed) = Some (dest, rw)"
      "is_local_eid bs dest \<or> \<not> bs_no_transit bs" "bs_has_sink bs" "effects = [Dispatch w]"
      "(if rw then rebuild_inner lib klib bl bs inner parsed dest else Some inner) = Some w"
    by (rule bib_deliver_cases)
  have strict: "bs_policy bs = Strict \<longrightarrow> verify_bundle lib inner (bs_keystore bs) = Valid"
    using c(3) by (auto simp: policy_strict)
  have transit: "bs_no_transit bs \<longrightarrow> prefix (bs_local_node_eid bs) dest" using c(5) by (auto simp: is_local_eid_def)
  note rewrite = c(4) [unfolded rewrite_eid_find]
  show ?thesis
  proof (cases "find (\<lambda>m. prefix (fst m) (bi_destination bl parsed)) (bs_alias_mappings bs)")
    case None
    then have "dest = bi_destination bl parsed" "w = inner" using rewrite c(8) by auto
    then show ?thesis using c(1,2,7) strict transit None by auto
  next
    case (Some m)
    obtain a l where m: "m = (a, l)" by fastforce
    have rewritten: "bl_parse_eid lib (l @ drop (length a) (bi_destination bl parsed)) = Some dest" and rw
      using rewrite by (auto simp: Some m)
    have "rebuilt_as lib klib bl bs inner parsed dest w" using c(8) \<open>rw\<close> by (intro rebuild_inner_as) simp
    then show ?thesis
      using c(1,2,7) strict transit rewritten
      by (intro exI [of _ inner] exI [of _ parsed] exI [of _ dest] exI [of _ w])
        (simp add: Some m rebuilt_as_def signature_valid_def)
  qed
qed

lemma bib_deliver_sound_witness:
  "\<exists>b'. bib_deliver demo_lib no_keys demo_bibe (demo_bib [(''dtn://f/'', ''dtn://n/'')] ''dtn://n/'') demo_outer
      = Some [Dispatch [7, 65]] \<and> sign_bundle demo_lib [7, 65] [1] (Some ''a'') = Inr (b', [7, 65])"
proof -
  let ?bs = "demo_bib [(''dtn://f/'', ''dtn://n/'')] ''dtn://n/''"
  have bs: "bs_policy ?bs = Strict" "bs_keystore ?bs = add_key ''*'' [1] []" "bs_alias_mappings ?bs = [(''dtn://f/'', ''dtn://n/'')]"
    by (simp_all add: demo_bib_def)
  have lib: "bl_parse demo_lib [0, 65] = Inr [65]" "bl_source demo_lib [65] = ''a''" "bl_payload demo_lib [65] = Some [65]"
    "bi_destination demo_bibe [65] = ''dtn://f/s''" "bl_parse_eid demo_lib s = Some s" "resign_source demo_lib ?bs src = src"
    "bi_rebuild demo_bibe src d lt f [65] ts = Inr ([65], [7, 65])" for s d src lt f ts
    by (simp_all add: demo_lib_def demo_bibe_def demo_bib_def resign_source_def)
  have dec: "decapsulate demo_lib demo_bibe demo_outer = Some (Some [0, 65])"
    by (simp add: decapsulate_def demo_lib_def demo_outer_def parse_written_record [OF demo_records])
  have key: "signing_key no_keys ?bs ''a'' k \<longleftrightarrow> k = [1]" for k
    by (auto simp: signing_key_def demo_bib_def add_key_def find_keys_def matches_eid_pattern_def)
  then have some_key: "Ex (signing_key no_keys ?bs ''a'')" by blast
  have valid: "signature_valid demo_lib ?bs [0, 65]" by (simp add: signature_valid_def bs demo_verified)
  have rebuilt: "rebuild_inner demo_lib no_keys demo_bibe ?bs [0, 65] [65] d = Some [7, 65]" for d
    by (simp add: rebuild_inner_def valid key_to_use_def sign_bundle_def resign_source_def demo_lib_def demo_bibe_def
        demo_bib_def add_key_def find_keys_def matches_eid_pattern_def)
  have "is_local_eid ?bs ''dtn://n/s''" and "bs_has_sink ?bs" by (simp_all add: demo_bib_def is_local_eid_def)
  then have run: "bib_deliver demo_lib no_keys demo_bibe ?bs demo_outer = Some [Dispatch [7, 65]]"
    by (simp add: bib_deliver_def dec reinject_def bs policy_strict demo_verified lib rebuilt)
  from bib_deliver_sound [OF run] have "\<exists>b'. sign_bundle demo_lib [7, 65] [1] (Some ''a'') = Inr (b', [7, 65])"
    by (auto simp: dec lib bs demo_verified key some_key)
  then show ?thesis using run by blast
qed

section \<open>Where the service does less than it means to\<close>

text \<open>
  A node with a numbered name is known to the service as service zero of that name.  Without transit
  a bundle for any service of the node whose number does not begin with zero is then dropped.
\<close>

lemma numbered_services_dropped:
  assumes "bs_local_node_eid bs = ''ipn:'' @ node @ ''.0''" and "bs_no_transit bs"
    and "bl_parse lib inner = Inr parsed" and "bi_destination bl parsed = ''ipn:'' @ node @ ''.'' @ c # service"
    and "c \<noteq> CHR ''0''" and "\<forall>m \<in> set (bs_alias_mappings bs). \<not> prefix (fst m) (bi_destination bl parsed)"
  shows "reinject lib klib bl bs inner = []"
proof -
  have "\<not> is_local_eid bs (bi_destination bl parsed)"
    using assms(1,4,5) by (simp add: is_local_eid_def)
  then show ?thesis using assms(2,3) rewrite_eid_unaliased [OF assms(6)] by (simp add: reinject_def)
qed

text \<open>
  Starting checks the security source after normalising it; a delivery reads it as it was given, and falls
  back to the source of the bundle when that fails.
\<close>

lemma security_source_unnormalised:
  assumes "bl_parse_eid lib (normalize_eid s) = Some eid" and "bl_parse_eid lib s = None"
    and "load_default_or klib parent (ba_keystore args) = Inr store" and "ba_security_source args = Some s"
    and "ba_verify_key args = None" and "ba_verify_key_file args = None"
  shows "\<exists>bs. bib_start lib klib parent args node = Inr bs \<and> resign_source lib bs source = source"
  using assms by (simp add: bib_start_def resign_source_def)

end
