(* ===== verification/Sending.thy ===== *)
theory Sending
  imports Bibe Key_Formats
begin

text \<open>
  The program that sends a file (\<^verbatim>\<open>src/bin/dtnsend.rs\<close>), and what it shares with the basket client: the
  endpoint a sender's name stands for, building, signing and handing the bundle to the agent.  A run is
  the list of its effects and the error it ends with, if any.
\<close>

section \<open>The endpoint of the sender\<close>

text \<open>The node's name as the agent gives it, and the text of the endpoint of a service of such a node.\<close>

datatype 'n node_id = Dtn_Node string | Ipn_Node 'n

record 'n eid_lib =
  el_dtn :: "string \<Rightarrow> string \<Rightarrow> string"
  el_ipn :: "'n \<Rightarrow> u32 \<Rightarrow> string"

definition service_number :: "string \<Rightarrow> u32" where
  "service_number s = word_of_nat (case parse_u32 (trim s) of Some n \<Rightarrow> n | None \<Rightarrow> 0)"

text \<open>An endpoint in full, or a service of the local node; \<open>None\<close> where the agent has no name.\<close>

definition relative_eid :: "('b, 'v) bpv7_lib \<Rightarrow> 'n eid_lib \<Rightarrow> 'n node_id option \<Rightarrow> string \<Rightarrow> string option" where
  "relative_eid lib el node s =
     (case bl_parse_eid lib (normalize_eid s) of
        Some eid \<Rightarrow> Some eid
      | None \<Rightarrow>
          (case node of
             Some (Dtn_Node name) \<Rightarrow> Some (el_dtn el name (trim s))
           | Some (Ipn_Node fqnn) \<Rightarrow> Some (el_ipn el fqnn (service_number s))
           | None \<Rightarrow> None))"

definition node_eid :: "('b, 'v) bpv7_lib \<Rightarrow> 'n eid_lib \<Rightarrow> 'n node_id option \<Rightarrow> string" where
  "node_eid lib el node =
     (case node of
        Some (Dtn_Node name) \<Rightarrow> el_dtn el name []
      | Some (Ipn_Node fqnn) \<Rightarrow> el_ipn el fqnn 0
      | None \<Rightarrow> bl_null lib)"

definition sender_eid :: "('b, 'v) bpv7_lib \<Rightarrow> 'n eid_lib \<Rightarrow> 'n node_id option \<Rightarrow> string option \<Rightarrow> string" where
  "sender_eid lib el node sender =
     (case sender of
        Some s \<Rightarrow> or_default (bl_null lib) (relative_eid lib el node s)
      | None \<Rightarrow> node_eid lib el node)"

definition dryrun_eid :: "('b, 'v) bpv7_lib \<Rightarrow> 'n eid_lib \<Rightarrow> string option \<Rightarrow> string" where
  "dryrun_eid lib el sender =
     (case sender of
        Some s \<Rightarrow> or_default (el_dtn el ''localhost'' []) (bl_parse_eid lib (normalize_eid s))
      | None \<Rightarrow> el_dtn el ''localhost'' [])"

section \<open>Sending\<close>

record send_args =
  sa_sender :: "string option"
  sa_receiver :: string
  sa_dryrun :: bool
  sa_lifetime :: u64
  sa_sign_key :: "string option"
  sa_sign_key_file :: "string option"
  sa_security_source :: "string option"

datatype send_error =
    No_Input | Bad_Receiver | Build_Failed string | Not_Signed sign_error | Not_Sent | No_Cla_Sink | No_Items | Bad_Hash
  | Bad_Request_File

text \<open>The bundle that is built and, with a key, signed.\<close>

definition build_signed ::
  "('b, 'v) bpv7_lib \<Rightarrow> key_lib \<Rightarrow> string \<Rightarrow> string \<Rightarrow> bytes \<Rightarrow> u64 \<Rightarrow> string option \<Rightarrow> string option \<Rightarrow> string option
     \<Rightarrow> send_error + ('b \<times> bytes)" where
  "build_signed lib klib source_eid destination_eid data lifetime sign_key sign_key_file security_source =
     (case bl_build lib source_eid destination_eid data (secs_duration lifetime) of
        Inl e \<Rightarrow> Inl (Build_Failed e)
      | Inr (bundle, binbundle) \<Rightarrow>
          (case maybe_sign_bundle lib klib bundle binbundle sign_key sign_key_file security_source of
             Inl e \<Rightarrow> Inl (Not_Signed e)
           | Inr signed_bundle \<Rightarrow> Inr signed_bundle))"

text \<open>Handing a bundle to the agent and printing its identifier; \<open>takes\<close> says whether the agent takes it.\<close>

definition dispatch_bundle ::
  "('b, 'v) bpv7_lib \<Rightarrow> bool \<Rightarrow> bool \<Rightarrow> send_error + ('b \<times> bytes) \<Rightarrow> effect list \<times> send_error option" where
  "dispatch_bundle lib has_sink takes built =
     (case built of
        Inl e \<Rightarrow> ([], Some e)
      | Inr (bundle, binbundle) \<Rightarrow>
          if \<not> has_sink then ([], Some No_Cla_Sink)
          else if \<not> takes then ([Dispatch binbundle], Some Not_Sent)
          else ([Dispatch binbundle, Print_Line (''Bundle-Id: '' @ bl_key lib bundle)], None))"

text \<open>\<open>input\<close> is what the file or the standard input gives; \<open>node_ids\<close> the names of the node.\<close>

definition send_main ::
  "('b, 'v) bpv7_lib \<Rightarrow> key_lib \<Rightarrow> 'n eid_lib \<Rightarrow> send_args \<Rightarrow> bytes option \<Rightarrow> 'n node_id list \<Rightarrow> bool \<Rightarrow> bool
     \<Rightarrow> effect list \<times> send_error option" where
  "send_main lib klib el args input node_ids has_sink takes =
     (case input of
        None \<Rightarrow> ([], Some No_Input)
      | Some buffer \<Rightarrow>
          (case bl_parse_eid lib (normalize_eid (sa_receiver args)) of
             None \<Rightarrow> ([], Some Bad_Receiver)
           | Some destination_eid \<Rightarrow>
               if sa_dryrun args
               then (case build_signed lib klib (dryrun_eid lib el (sa_sender args)) destination_eid buffer (sa_lifetime args)
                            (sa_sign_key args) (sa_sign_key_file args) (sa_security_source args) of
                       Inl e \<Rightarrow> ([], Some e)
                     | Inr (bundle, binbundle) \<Rightarrow>
                         ([Print_Line (''Bundle-Id: '' @ bl_key lib bundle), Print_Line (hex_text binbundle)], None))
               else dispatch_bundle lib has_sink takes
                      (build_signed lib klib (sender_eid lib el (case node_ids of [] \<Rightarrow> None | n # _ \<Rightarrow> Some n) (sa_sender args))
                         destination_eid buffer (sa_lifetime args)
                         (sa_sign_key args) (sa_sign_key_file args) (sa_security_source args))))"

section \<open>What is sent arrives\<close>

lemma build_signed_payload:
  assumes "builder_ok lib" and "build_signed lib klib s d data lt key key_file src = Inr (b, out)"
  shows "\<exists>b'. bl_parse lib out = Inr b' \<and> bl_payload lib b' = Some data"
proof -
  from assms(2) obtain b0 d0 where build: "bl_build lib s d data (secs_duration lt) = Inr (b0, d0)"
    and sign: "maybe_sign_bundle lib klib b0 d0 key key_file src = Inr (b, out)"
    by (auto simp: build_signed_def split: sum.splits prod.splits)
  from build obtain b' where "bl_parse lib d0 = Inr b'" "bl_payload lib b' = Some data"
    using assms(1) unfolding builder_ok_def by metis
  from maybe_sign_payload [OF assms(1) this sign] show ?thesis .
qed

lemma dispatched_built:
  assumes "Dispatch out \<in> set (fst (dispatch_bundle lib has_sink takes built))"
  obtains b where "built = Inr (b, out)" "has_sink"
  using assms by (auto simp: dispatch_bundle_def split: sum.splits if_splits prod.splits)

lemma dispatched_error:
  "Dispatch out \<in> set (fst (dispatch_bundle lib has_sink takes built)) \<Longrightarrow>
     snd (dispatch_bundle lib has_sink takes built) = (if takes then None else Some Not_Sent)"
  by (auto simp: dispatch_bundle_def split: sum.splits if_splits prod.splits)

lemma sent_payload:
  assumes "builder_ok lib" and "Dispatch out \<in> set (fst (send_main lib klib el args input node_ids has_sink takes))"
  shows "\<exists>data b. input = Some data \<and> \<not> sa_dryrun args \<and> bl_parse lib out = Inr b \<and> bl_payload lib b = Some data"
  using assms(2)
  by (auto simp: send_main_def split: option.splits if_splits sum.splits prod.splits elim!: dispatched_built
      dest!: build_signed_payload [OF assms(1)])

text \<open>A file that is sent and accepted by the file saver is written as it was read, if it is no basket response.\<close>

lemma sent_file_saved:
  assumes "builder_ok lib" and "Dispatch out \<in> set (fst (send_main lib klib el args (Some data) node_ids has_sink takes))"
    and "policy_accepts lib policy store out" and "\<not> fl_is_basket fl data"
    and "\<And>p. writable p"
  shows "\<exists>path rest. save_deliver lib fl dir metadata writable policy store out = Write_File path data # rest"
proof -
  from sent_payload [OF assms(1,2)] obtain b where b: "bl_parse lib out = Inr b" "bl_payload lib b = Some data" by auto
  have "detect_extension fl data \<noteq> ''basket.json''"
    using assms(4) by (simp add: detect_extension_def Let_def)
  then show ?thesis using b assms(3,5) by (auto simp: save_deliver_def Let_def or_default_def)
qed

end
