(* ===== verification/Basket_Exchange.thy ===== *)
theory Basket_Exchange
  imports Basket_Service Sending "HOL-Library.Countable"
begin

text \<open>
  The basket client (\<^verbatim>\<open>src/bin/dtnbasket-cli.rs\<close>) and the responder's side of the agent
  (\<^verbatim>\<open>src/bin/dtnbasket.rs\<close>): a request from the command line to the bundle, and from a delivered
  bundle to the bundles sent in answer.
\<close>

unbundle bit_operations_syntax

section \<open>The client\<close>

record request_file_item =
  rq_op :: "string option"
  rq_uri :: string
  rq_max_size :: "u64 option"
  rq_accepted_formats :: "string list option"
  rq_have_hashes :: "string list option"
  rq_if_modified_since :: "u64 option"
  rq_lifetime_override :: "u64 option"

record client_args =
  ca_sender :: string
  ca_receiver :: string
  ca_req_id :: "string option"
  ca_reply_to :: "string option"
  ca_default_lifetime :: u64
  ca_experiment_tag :: "u64 option"
  ca_lifetime :: u64
  ca_gets :: "string list"
  ca_searches :: "string list"
  ca_lists :: "string list"
  ca_request_file :: "string option"
  ca_sign_key :: "string option"
  ca_sign_key_file :: "string option"
  ca_security_source :: "string option"

definition op_code :: "string option \<Rightarrow> u64" where
  "op_code op =
     (if op = Some ''GET'' \<or> op = Some ''get'' then 0
      else if op = Some ''CHECK'' \<or> op = Some ''check'' then 1
      else if op = Some ''SEARCH'' \<or> op = Some ''search'' then 2
      else if op = Some ''CANCEL'' \<or> op = Some ''cancel'' then 3
      else if op = Some ''LIST'' \<or> op = Some ''list'' then 4
      else 0)"

fun decode_hashes :: "key_lib \<Rightarrow> string list \<Rightarrow> send_error + bytes list" where
  "decode_hashes klib [] = Inr []"
| "decode_hashes klib (h # hs) =
     (case kl_hex klib (trim h) of
        None \<Rightarrow> Inl Bad_Hash
      | Some d \<Rightarrow> map_ok (Cons d) (decode_hashes klib hs))"

definition file_item :: "key_lib \<Rightarrow> request_file_item \<Rightarrow> send_error + request_item" where
  "file_item klib fi =
     (case (case rq_have_hashes fi of Some hs \<Rightarrow> map_ok Some (decode_hashes klib hs) | None \<Rightarrow> Inr None) of
        Inl e \<Rightarrow> Inl e
      | Inr have_hashes \<Rightarrow>
          Inr \<lparr>ri_op = op_code (rq_op fi), ri_uri = rq_uri fi, ri_max_size = rq_max_size fi,
               ri_accepted_formats = rq_accepted_formats fi, ri_have_hashes = have_hashes,
               ri_if_modified_since = rq_if_modified_since fi, ri_lifetime_override = rq_lifetime_override fi\<rparr>)"

fun file_items :: "key_lib \<Rightarrow> request_file_item list \<Rightarrow> send_error + request_item list" where
  "file_items klib [] = Inr []"
| "file_items klib (fi # fis) =
     (case file_item klib fi of Inl e \<Rightarrow> Inl e | Inr i \<Rightarrow> map_ok (Cons i) (file_items klib fis))"

definition inline_item :: "u64 \<Rightarrow> string \<Rightarrow> request_item" where
  "inline_item op uri = \<lparr>ri_op = op, ri_uri = uri, ri_max_size = None, ri_accepted_formats = None, ri_have_hashes = None,
     ri_if_modified_since = None, ri_lifetime_override = None\<rparr>"

text \<open>\<open>files\<close> reads a request file, \<open>None\<close> where it cannot be read or parsed.\<close>

definition gather_items ::
  "key_lib \<Rightarrow> (string \<Rightarrow> request_file_item list option) \<Rightarrow> client_args \<Rightarrow> send_error + request_item list" where
  "gather_items klib files args =
     (case (case ca_request_file args of
              None \<Rightarrow> Inr []
            | Some path \<Rightarrow> (case files path of None \<Rightarrow> Inl Bad_Request_File | Some fis \<Rightarrow> file_items klib fis)) of
        Inl e \<Rightarrow> Inl e
      | Inr items \<Rightarrow>
          let items = items @ map (inline_item 0) (ca_gets args) @ map (inline_item 2) (ca_searches args)
                        @ map (inline_item 4) (ca_lists args)
          in if items = [] then Inl No_Items else Inr items)"

definition request_seed :: "u64 \<Rightarrow> u32 \<Rightarrow> u64" where
  "request_seed now pid =
     (let seed = (now XOR ucast pid) * 0x517cc1b727220a95 in seed XOR drop_bit 32 seed)"

definition generated_id :: "u64 \<Rightarrow> u32 \<Rightarrow> string" where
  "generated_id now pid = ''req-'' @ hex_number (unat (request_seed now pid)) @ ''-'' @ hex_number (unat pid)"

definition client_source :: "('b, 'v) bpv7_lib \<Rightarrow> 'n eid_lib \<Rightarrow> 'n node_id option \<Rightarrow> client_args \<Rightarrow> string" where
  "client_source lib el node args = or_default (bl_null lib) (relative_eid lib el node (ca_sender args))"

definition client_reply_to :: "('b, 'v) bpv7_lib \<Rightarrow> 'n eid_lib \<Rightarrow> 'n node_id option \<Rightarrow> client_args \<Rightarrow> string option" where
  "client_reply_to lib el node args =
     (case ca_reply_to args of
        Some reply_to_str \<Rightarrow> relative_eid lib el node reply_to_str
      | None \<Rightarrow> Some (client_source lib el node args))"

definition client_request ::
  "('b, 'v) bpv7_lib \<Rightarrow> 'n eid_lib \<Rightarrow> 'n node_id option \<Rightarrow> client_args \<Rightarrow> u64 \<Rightarrow> u32 \<Rightarrow> request_item list \<Rightarrow> basket_request" where
  "client_request lib el node args now pid items =
     \<lparr>bq_experiment_tag = ca_experiment_tag args, bq_version = 1, bq_req_id = or_default (generated_id now pid) (ca_req_id args),
      bq_reply_to = client_reply_to lib el node args, bq_default_lifetime = Some (ca_default_lifetime args), bq_items = items\<rparr>"

text \<open>\<open>emit\<close> is the octets of an item in the library's encoding.  What the library documents of it concerns the
  items an encoder can write: without an error, in their shortest form, of definite length.  Reading them
  back gives the item.\<close>

fun plain_item :: "cbor_item \<Rightarrow> bool" and plain_value :: "cbor_value \<Rightarrow> bool" where
  "plain_item (Item tags shortest v) \<longleftrightarrow> shortest \<and> plain_value v"
| "plain_item (Malformed e) \<longleftrightarrow> False"
| "plain_value (UnsignedInteger n) \<longleftrightarrow> True"
| "plain_value (NegativeInteger n) \<longleftrightarrow> True"
| "plain_value (Bytes b) \<longleftrightarrow> True"
| "plain_value (Text s) \<longleftrightarrow> True"
| "plain_value (Array xs) \<longleftrightarrow> (\<forall>x\<in>set xs. plain_item x)"
| "plain_value (Map es) \<longleftrightarrow> (\<forall>e\<in>set es. plain_item (fst e) \<and> plain_item (snd e))"
| "plain_value (ByteStream bs) \<longleftrightarrow> False"
| "plain_value (TextStream ss) \<longleftrightarrow> False"
| "plain_value (OtherValue n) \<longleftrightarrow> False"

definition items_read_back :: "(cbor_item \<Rightarrow> bytes) \<Rightarrow> (bytes \<Rightarrow> cbor_item) \<Rightarrow> bool" where
  "items_read_back emit items_of \<longleftrightarrow> (\<forall>x. plain_item x \<longrightarrow> items_of (emit x) = x)"

lemma plain_parts [simp]:
  "plain_item (uint n)" "plain_item minus_one" "plain_item (str s)" "plain_item (byte_str b)"
  "plain_item (emit_array xs) \<longleftrightarrow> (\<forall>x\<in>set xs. plain_item x)"
  "plain_item (with_tag t x) \<longleftrightarrow> plain_item x"
  "plain_item (emit_map m es) \<longleftrightarrow> m = length es \<and> (\<forall>e\<in>set es. plain_item (fst e) \<and> plain_item (snd e))"
  by (simp_all add: uint_def minus_one_def str_def byte_str_def emit_array_def emit_map_def) (cases x; simp)

lemma plain_some [simp]:
  "(\<forall>e\<in>set (emit_some k f x). plain_item (fst e) \<and> plain_item (snd e)) \<longleftrightarrow> (\<forall>a. x = Some a \<longrightarrow> plain_item k \<and> plain_item (f a))"
  by (cases x) (simp_all add: emit_some_def)

text \<open>The counts announced are those of the entries that follow, so every message written is such an item.\<close>

lemma plain_messages: "plain_item (request_to_cbor request)" "plain_item (response_to_cbor response)"
proof -
  have "plain_item (request_item_to_cbor r)" for r
    by (auto simp: request_item_to_cbor_def length_emit_some ball_Un)
  then show "plain_item (request_to_cbor request)"
    by (auto simp: request_to_cbor_def length_emit_some ball_Un)
  have "plain_item (item_metadata_to_cbor m)" for m
    by (auto simp: item_metadata_to_cbor_def length_emit_some ball_Un)
  then have "plain_item (item_response_to_cbor r)" for r
    by (auto simp: item_response_to_cbor_def length_emit_some ball_Un)
  then show "plain_item (response_to_cbor response)"
    by (auto simp: response_to_cbor_def length_emit_some ball_Un)
qed

lemma message_read_back:
  assumes "items_read_back emit items_of"
  shows "items_of (emit (with_tag t (request_to_cbor request))) = with_tag t (request_to_cbor request)"
    "items_of (emit (with_tag t (response_to_cbor response))) = with_tag t (response_to_cbor response)"
  using assms plain_messages by (simp_all add: items_read_back_def)

definition basket_client ::
  "('b, 'v) bpv7_lib \<Rightarrow> key_lib \<Rightarrow> 'n eid_lib \<Rightarrow> (cbor_item \<Rightarrow> bytes) \<Rightarrow> (string \<Rightarrow> request_file_item list option) \<Rightarrow> client_args
     \<Rightarrow> 'n node_id list \<Rightarrow> u64 \<Rightarrow> u32 \<Rightarrow> bool \<Rightarrow> bool \<Rightarrow> effect list \<times> send_error option" where
  "basket_client lib klib el emit files args node_ids now pid has_sink takes =
     (case gather_items klib files args of
        Inl e \<Rightarrow> ([], Some e)
      | Inr items \<Rightarrow>
          let node = (case node_ids of [] \<Rightarrow> None | n # _ \<Rightarrow> Some n)
          in case bl_parse_eid lib (normalize_eid (ca_receiver args)) of
               None \<Rightarrow> ([], Some Bad_Receiver)
             | Some destination_eid \<Rightarrow>
                 dispatch_bundle lib has_sink takes
                   (build_signed lib klib (client_source lib el node args) destination_eid
                      (emit (with_tag 44444 (request_to_cbor (client_request lib el node args now pid items))))
                      (ca_lifetime args) (ca_sign_key args) (ca_sign_key_file args) (ca_security_source args)))"

section \<open>The responder\<close>

record basket_service =
  sv_local_eid :: "string option"
  sv_has_sink :: bool
  sv_config :: basket_config
  sv_keystore :: keystore
  sv_policy :: verify_policy
  sv_sign_key :: "string option"
  sv_sign_key_file :: "string option"
  sv_security_source :: "string option"

fun payload_octets :: "(cbor_item \<Rightarrow> bytes) \<Rightarrow> payload \<Rightarrow> bytes" where
  "payload_octets emit (Control i) = emit i"
| "payload_octets emit (Content b) = b"

text \<open>The response and the content bundles go out in order, up to the first that fails.\<close>

fun send_answers ::
  "('b, 'v) bpv7_lib \<Rightarrow> key_lib \<Rightarrow> (cbor_item \<Rightarrow> bytes) \<Rightarrow> basket_service \<Rightarrow> (bytes \<Rightarrow> bool) \<Rightarrow> (string \<times> payload \<times> u64) list
     \<Rightarrow> effect list" where
  "send_answers lib klib emit sv takes [] = []"
| "send_answers lib klib emit sv takes ((reply_dest, p, lifetime) # rest) =
     (case build_signed lib klib (or_default (bl_null lib) (sv_local_eid sv)) reply_dest (payload_octets emit p) lifetime
             (sv_sign_key sv) (sv_sign_key_file sv) (sv_security_source sv) of
        Inl _ \<Rightarrow> []
      | Inr (_, binbundle) \<Rightarrow>
          Dispatch binbundle # (if takes binbundle then send_answers lib klib emit sv takes rest else []))"

definition basket_deliver ::
  "'u host \<Rightarrow> cbor_lib \<Rightarrow> ('b, 'v) bpv7_lib \<Rightarrow> key_lib \<Rightarrow> (cbor_item \<Rightarrow> bytes) \<Rightarrow> (bytes \<Rightarrow> cbor_item) \<Rightarrow> basket_service
     \<Rightarrow> environment \<Rightarrow> nat \<Rightarrow> (bytes \<Rightarrow> bool) \<Rightarrow> bytes \<Rightarrow> tasks \<Rightarrow> effect list \<times> tasks" where
  "basket_deliver host clib lib klib emit items_of sv env task takes data t =
     (let (source, payload) = source_and_payload lib data
      in if policy_accepts lib (sv_policy sv) (sv_keystore sv) data
         then (let (sent, t) = process_request host clib (sv_config sv) (bl_parse_eid lib) env task source (items_of payload) t
               in (if sv_has_sink sv then send_answers lib klib emit sv takes sent else [], t))
         else ([], t))"

section \<open>The configuration of the responder\<close>

text \<open>The file that is read, and whether it has to be there: an explicit path, the environment's, or the first of
  the usual places that exists.\<close>

definition config_file :: "(string \<Rightarrow> bool) \<Rightarrow> string option \<Rightarrow> string option \<Rightarrow> string list \<Rightarrow> string option \<times> bool" where
  "config_file exist explicit_path env_val paths =
     (case explicit_path of
        Some path \<Rightarrow> (Some path, True)
      | None \<Rightarrow>
          (case env_val of
             Some path \<Rightarrow> (Some path, True)
           | None \<Rightarrow> (find exist paths, False)))"

text \<open>A directory of the configuration: relative ones below the file's directory, else below the working directory.\<close>

definition resolve_dir ::
  "(string \<Rightarrow> bool) \<Rightarrow> (string \<Rightarrow> string option) \<Rightarrow> string option \<Rightarrow> string option \<Rightarrow> string \<Rightarrow> string" where
  "resolve_dir exist canon parent cwd dir =
     (let below = (\<lambda>base. case base of None \<Rightarrow> None | Some p \<Rightarrow> if exist (join_any p dir) then Some (join_any p dir) else None);
          abs_path = (if prefix ''/'' dir then dir
                      else (case below parent of Some p \<Rightarrow> p | None \<Rightarrow> (case below cwd of Some p \<Rightarrow> p | None \<Rightarrow> dir)))
      in case canon abs_path of Some c \<Rightarrow> c | None \<Rightarrow> abs_path)"

text \<open>\<open>build\<close> reads the file: no value where it cannot, no configuration where it has other contents.
  The result is \<open>None\<close> where the program exits.\<close>

definition load_config ::
  "(string \<Rightarrow> bool) \<Rightarrow> (string \<Rightarrow> string option) \<Rightarrow> (string \<Rightarrow> string option) \<Rightarrow> string option
     \<Rightarrow> (string option \<Rightarrow> bool \<Rightarrow> basket_config option option) \<Rightarrow> string option \<Rightarrow> string option \<Rightarrow> string list \<Rightarrow> basket_config option" where
  "load_config exist canon parent_of cwd build explicit_path env_val paths =
     (let (file, is_required) = config_file exist explicit_path env_val paths;
          config = (case build file is_required of
                      Some (Some cfg) \<Rightarrow> Some cfg
                    | Some None \<Rightarrow> Some default_basket_config
                    | None \<Rightarrow> if is_required then None else Some default_basket_config);
          parent = (case file of None \<Rightarrow> None | Some p \<Rightarrow> parent_of p)
      in map_option (\<lambda>cfg. cfg\<lparr>bc_allowed_dirs := map (resolve_dir exist canon parent cwd) (bc_allowed_dirs cfg)\<rparr>) config)"

text \<open>The directories a loaded configuration allows are canonical, as the check of a file needs them, except for
  those that do not exist.\<close>

lemma loaded_dirs_canonical:
  assumes "load_config exist canon parent_of cwd build explicit_path env_val paths = Some config"
    and "\<And>p c. canon p = Some c \<Longrightarrow> canon c = Some c" and "d \<in> set (bc_allowed_dirs config)"
  shows "canon d = Some d \<or> canon d = None"
proof -
  from assms(1,3) obtain parent d0 where d: "d = resolve_dir exist canon parent cwd d0"
    by (auto simp: load_config_def Let_def split: prod.splits)
  obtain p where "d = (case canon p of Some c \<Rightarrow> c | None \<Rightarrow> p)"
    unfolding d resolve_dir_def Let_def by blast
  then show ?thesis using assms(2) by (cases "canon p") auto
qed

section \<open>Identifiers of requests\<close>

text \<open>The multiplier is odd, so the product determines the factor; the shift and exclusive or can be undone.\<close>

lemma seed_multiplier: "x * 0x517cc1b727220a95 * 0x2040003d780970bd = (x :: u64)"
proof -
  have "(0x517cc1b727220a95 :: u64) * 0x2040003d780970bd = 1" by simp
  then show ?thesis by (simp only: mult.assoc mult_1_right)
qed

lemma xor_shift_inverse: "(y XOR drop_bit 32 y) XOR drop_bit 32 (y XOR drop_bit 32 y) = (y :: u64)"
  by (rule bit_word_eqI) (auto simp: bit_xor_iff bit_drop_bit_eq dest: bit_imp_le_length)

lemma request_seed_inj:
  assumes "request_seed a pid = request_seed b pid"
  shows "a = b"
proof -
  have inj: "x = y" if "x XOR drop_bit 32 x = y XOR drop_bit 32 y" for x y :: u64
    using xor_shift_inverse [of x] xor_shift_inverse [of y] that by simp
  have "(a XOR ucast pid) * 0x517cc1b727220a95 = (b XOR ucast pid) * 0x517cc1b727220a95"
    using inj assms unfolding request_seed_def Let_def by blast
  then have "a XOR ucast pid = b XOR ucast pid" using seed_multiplier by metis
  then have "(a XOR ucast pid) XOR ucast pid = (b XOR ucast pid) XOR ucast pid" by simp
  then show ?thesis by (simp add: xor.assoc)
qed

definition hex_value :: "nat \<Rightarrow> char \<Rightarrow> nat" where
  "hex_value n c = 16 * n + (if of_char c < (58 :: nat) then of_char c - 48 else of_char c - 87)"

lemma hex_number_value: "foldl hex_value 0 (hex_number n) = n"
proof (induction n rule: less_induct)
  case (less n)
  have digit: "hex_value k (hex_digit d) = 16 * k + d" if "d < 16" for k d
    using that by (auto simp: hex_value_def of_hex_digit)
  show ?case
  proof (cases "n < 16")
    case True
    then show ?thesis by (simp add: hex_number.simps [of n] digit)
  next
    case False
    then have "foldl hex_value 0 (hex_number (n div 16)) = n div 16" by (intro less) simp
    then show ?thesis using False by (simp add: hex_number.simps [of n] digit)
  qed
qed

lemma hex_number_no_dash: "CHR ''-'' \<notin> set (hex_number n)"
proof (induction n rule: less_induct)
  case (less n)
  have "hex_digit d \<noteq> CHR ''-''" if "d < 16" for d
  proof
    assume "hex_digit d = CHR ''-''"
    then have "(of_char (hex_digit d) :: nat) = of_char CHR ''-''" by simp
    then show False using that by (simp add: of_hex_digit split: if_splits)
  qed
  then have digit: "CHR ''-'' \<noteq> hex_digit d" if "d < 16" for d using that by metis
  show ?case
  proof (cases "n < 16")
    case True
    then show ?thesis using digit [of n] by (simp add: hex_number.simps [of n])
  next
    case False
    then show ?thesis using digit [of "n mod 16"] less [of "n div 16"] by (simp add: hex_number.simps [of n])
  qed
qed

lemma split_at_dash:
  "a @ CHR ''-'' # b = a' @ CHR ''-'' # b' \<Longrightarrow> CHR ''-'' \<notin> set a \<Longrightarrow> CHR ''-'' \<notin> set a' \<Longrightarrow> a = a' \<and> b = b'"
  by (auto simp: append_eq_append_conv2 append_eq_Cons_conv Cons_eq_append_conv)

text \<open>Two runs of the client have the same generated identifier only in the same process at the same nanosecond.\<close>

lemma generated_ids_distinct:
  assumes "generated_id now pid = generated_id now' pid'"
  shows "now = now' \<and> pid = pid'"
proof -
  have "hex_number (unat (request_seed now pid)) = hex_number (unat (request_seed now' pid'))
      \<and> hex_number (unat pid) = hex_number (unat pid')"
    using assms by (intro split_at_dash) (simp_all add: generated_id_def hex_number_no_dash)
  then have "unat (request_seed now pid) = unat (request_seed now' pid')" and "unat pid = unat pid'"
    by (metis hex_number_value)+
  then have "pid = pid'" and "request_seed now pid = request_seed now' pid'" by (simp_all add: word_unat_eq_iff)
  then show ?thesis using request_seed_inj by blast
qed

section \<open>A request is served\<close>

text \<open>Every bundle sent is the one built for its endpoint, with its payload and its lifetime, from the service's own
  endpoint and signed with its key.  What is sent is a beginning of what the answer consists of, and it stops
  only at a bundle that cannot be built or that the agent refuses.\<close>

definition answer_bundle ::
  "('b, 'v) bpv7_lib \<Rightarrow> key_lib \<Rightarrow> (cbor_item \<Rightarrow> bytes) \<Rightarrow> basket_service \<Rightarrow> string \<times> payload \<times> u64 \<Rightarrow> send_error + ('b \<times> bytes)" where
  "answer_bundle lib klib emit sv a =
     (case a of (dest, p, lifetime) \<Rightarrow>
        build_signed lib klib (or_default (bl_null lib) (sv_local_eid sv)) dest (payload_octets emit p) lifetime
          (sv_sign_key sv) (sv_sign_key_file sv) (sv_security_source sv))"

lemma send_answers_sent:
  "list_all2 (\<lambda>e a. \<exists>b out. e = Dispatch out \<and> answer_bundle lib klib emit sv a = Inr (b, out))
     (send_answers lib klib emit sv takes sent) (take (length (send_answers lib klib emit sv takes sent)) sent)"
proof (induction sent)
  case (Cons a rest)
  obtain dest p lifetime where a: "a = (dest, p, lifetime)" by (cases a)
  show ?case using Cons by (auto simp: a answer_bundle_def split: sum.split)
qed simp

lemma send_answers_stop:
  assumes "length (send_answers lib klib emit sv takes sent) < length sent"
  shows "(\<exists>e. answer_bundle lib klib emit sv (sent ! length (send_answers lib klib emit sv takes sent)) = Inl e)
    \<or> (\<exists>out. Dispatch out \<in> set (send_answers lib klib emit sv takes sent) \<and> \<not> takes out)"
  using assms
proof (induction sent)
  case (Cons a rest)
  obtain dest p lifetime where a: "a = (dest, p, lifetime)" by (cases a)
  show ?case
  proof (cases "answer_bundle lib klib emit sv a")
    case (Inl e)
    then show ?thesis by (simp add: a answer_bundle_def)
  next
    case (Inr r)
    obtain b out where r: "r = (b, out)" by (cases r)
    show ?thesis using Cons Inr by (cases "takes out") (auto simp: a r answer_bundle_def)
  qed
qed simp

lemma client_dispatches:
  assumes "Dispatch out \<in> set (fst (basket_client lib klib el emit files args node_ids now pid has_sink takes))" and "builder_ok lib"
  defines "node \<equiv> (case node_ids of [] \<Rightarrow> None | n # _ \<Rightarrow> Some n)"
  shows "\<exists>items destination b b'. gather_items klib files args = Inr items
    \<and> bl_parse_eid lib (normalize_eid (ca_receiver args)) = Some destination
    \<and> build_signed lib klib (client_source lib el node args) destination
        (emit (with_tag 44444 (request_to_cbor (client_request lib el node args now pid items)))) (ca_lifetime args)
        (ca_sign_key args) (ca_sign_key_file args) (ca_security_source args) = Inr (b', out)
    \<and> bl_parse lib out = Inr b
    \<and> bl_payload lib b = Some (emit (with_tag 44444 (request_to_cbor (client_request lib el node args now pid items))))"
proof -
  from assms(1) obtain items destination b'
    where "gather_items klib files args = Inr items" "bl_parse_eid lib (normalize_eid (ca_receiver args)) = Some destination"
      and built: "build_signed lib klib (client_source lib el node args) destination
        (emit (with_tag 44444 (request_to_cbor (client_request lib el node args now pid items)))) (ca_lifetime args)
        (ca_sign_key args) (ca_sign_key_file args) (ca_security_source args) = Inr (b', out)"
    by (auto simp: basket_client_def Let_def node_def split: sum.splits option.splits elim!: dispatched_built)
  with build_signed_payload [OF assms(2) built] show ?thesis by blast
qed

text \<open>C15: a request made on the command line is served as it was meant.  A bundle the client sends is
  addressed to the receiver the options name.  If it reaches the responder, signed or not, and satisfies its
  policy, the responder serves exactly the items of the
  request file and the options, with the client's lifetime and identifier: every bundle of its
  answer goes to the reply endpoint the client named, first the response, then contents announced in it, a
  fetched or found one within the size limit of its item (an index document has none); each
  item that is not a search has one answer, unless the request is cancelled.  What is sent is, in this order,
  the bundle built for that endpoint with that payload and that lifetime, up to the first that cannot be built
  or is refused; and the client's reader gets the response back.
\<close>

theorem client_request_served:
  assumes "lib_reads clib" and "builder_ok lib" and "items_read_back emit items_of"
    and "Dispatch out \<in> set (fst (basket_client lib klib el emit files args node_ids now pid client_sink client_takes))"
    and "client_reply_to lib el (case node_ids of [] \<Rightarrow> None | n # _ \<Rightarrow> Some n) args = Some reply" and "bl_parse_eid lib reply = Some reply"
    and "policy_accepts lib (sv_policy sv) (sv_keystore sv) out"
    and "basket_deliver host clib lib klib' emit items_of sv env task takes out t = (effects, t')"
  shows "\<exists>items destination b0 resps raws sent. gather_items klib files args = Inr items
    \<and> bl_parse_eid lib (normalize_eid (ca_receiver args)) = Some destination
    \<and> build_signed lib klib (client_source lib el (case node_ids of [] \<Rightarrow> None | n # _ \<Rightarrow> Some n) args) destination
        (emit (with_tag 44444 (request_to_cbor (client_request lib el (case node_ids of [] \<Rightarrow> None | n # _ \<Rightarrow> Some n) args now pid items))))
        (ca_lifetime args) (ca_sign_key args) (ca_sign_key_file args) (ca_security_source args) = Inr (b0, out)
    \<and> sent = (reply, Control (with_tag 44444 (response_to_cbor \<lparr>bp_experiment_tag = Some 44444, bp_version = 1,
                bp_req_id = or_default (generated_id now pid) (ca_req_id args), bp_items = resps\<rparr>)), ca_default_lifetime args)
              # map (\<lambda>(body, hash, lifetime). (reply, Content body, lifetime)) raws
    \<and> (\<forall>raw\<in>set raws. \<exists>i<length items. announced host (sv_config sv) (ca_default_lifetime args) i (items ! i) resps raw)
    \<and> (length items \<le> 2 ^ 64 \<and> (\<forall>i. \<not> seen env i) \<and> task \<notin> set (ta_cancelled t')
        \<longrightarrow> (\<forall>i<length items. ri_op (items ! i) \<noteq> 2 \<longrightarrow> length (filter (\<lambda>r. ir_item_idx r = word_of_nat i) resps) = 1))
    \<and> list_all2 (\<lambda>e (dest, p, lifetime). \<exists>b1 b o'. e = Dispatch o'
          \<and> build_signed lib klib' (or_default (bl_null lib) (sv_local_eid sv)) dest (payload_octets emit p) lifetime
              (sv_sign_key sv) (sv_sign_key_file sv) (sv_security_source sv) = Inr (b1, o')
          \<and> bl_parse lib o' = Inr b \<and> bl_payload lib b = Some (payload_octets emit p))
        effects (take (length effects) sent)
    \<and> (sv_has_sink sv \<and> length effects < length sent
        \<longrightarrow> (\<exists>e. answer_bundle lib klib' emit sv (sent ! length effects) = Inl e) \<or> (\<exists>o'. Dispatch o' \<in> set effects \<and> \<not> takes o'))
    \<and> (effects \<noteq> [] \<longrightarrow> (\<exists>o' b p. hd effects = Dispatch o' \<and> bl_parse lib o' = Inr b \<and> bl_payload lib b = Some p
          \<and> response_from_cbor clib (items_of p) = Inr (\<lparr>bp_experiment_tag = Some 44444, bp_version = 1,
                bp_req_id = or_default (generated_id now pid) (ca_req_id args), bp_items = resps\<rparr>, True)))"
proof -
  let ?node = "case node_ids of [] \<Rightarrow> None | n # _ \<Rightarrow> Some n"
  from client_dispatches [OF assms(4,2)] obtain items destination b b0
    where items: "gather_items klib files args = Inr items" "bl_parse_eid lib (normalize_eid (ca_receiver args)) = Some destination"
      and built: "build_signed lib klib (client_source lib el ?node args) destination
        (emit (with_tag 44444 (request_to_cbor (client_request lib el ?node args now pid items))))
        (ca_lifetime args) (ca_sign_key args) (ca_sign_key_file args) (ca_security_source args) = Inr (b0, out)"
      and b: "bl_parse lib out = Inr b"
      and payload: "bl_payload lib b = Some (emit (with_tag 44444 (request_to_cbor (client_request lib el ?node args now pid items))))"
    by blast
  let ?r = "client_request lib el ?node args now pid items"
  obtain sent where run: "process_request host clib (sv_config sv) (bl_parse_eid lib) env task (bl_source lib b)
        (with_tag 44444 (request_to_cbor ?r)) t = (sent, t')"
    and effects: "effects = (if sv_has_sink sv then send_answers lib klib' emit sv takes sent else [])"
    using message_read_back(1) [OF assms(3)] assms(7,8) b payload
    by (auto simp: basket_deliver_def source_and_payload_def or_default_def split: prod.splits)
  have r: "bq_items ?r = items" "bq_reply_to ?r = Some reply" "bq_default_lifetime ?r = Some (ca_default_lifetime args)"
    "bq_req_id ?r = or_default (generated_id now pid) (ca_req_id args)"
    using assms(5) by (simp_all add: client_request_def)
  from request_answers [OF assms(1) run] obtain resps raws
    where sent: "sent = (reply, Control (with_tag 44444 (response_to_cbor \<lparr>bp_experiment_tag = Some 44444, bp_version = 1,
                bp_req_id = or_default (generated_id now pid) (ca_req_id args), bp_items = resps\<rparr>)), ca_default_lifetime args)
              # map (\<lambda>(body, hash, lifetime). (reply, Content body, lifetime)) raws"
      and announced: "\<forall>raw\<in>set raws. \<exists>i<length items. announced host (sv_config sv) (ca_default_lifetime args) i (items ! i) resps raw"
      and answers: "length items \<le> 2 ^ 64 \<and> (\<forall>i. \<not> seen env i) \<and> task \<notin> set (ta_cancelled t')
        \<longrightarrow> (\<forall>i<length items. ri_op (items ! i) \<noteq> 2 \<longrightarrow> length (filter (\<lambda>r. ir_item_idx r = word_of_nat i) resps) = 1)"
    unfolding r option.case assms(6) by blast
  have carried: "list_all2 (\<lambda>e (dest, p, lifetime). \<exists>b1 b o'. e = Dispatch o'
          \<and> build_signed lib klib' (or_default (bl_null lib) (sv_local_eid sv)) dest (payload_octets emit p) lifetime
              (sv_sign_key sv) (sv_sign_key_file sv) (sv_security_source sv) = Inr (b1, o')
          \<and> bl_parse lib o' = Inr b \<and> bl_payload lib b = Some (payload_octets emit p))
        effects (take (length effects) sent)"
  proof (cases "sv_has_sink sv")
    case True
    show ?thesis unfolding effects if_P [OF True]
      by (rule list_all2_mono [OF send_answers_sent])
        (auto simp: answer_bundle_def dest: build_signed_payload [OF assms(2)])
  qed (simp add: effects)
  have stops: "sv_has_sink sv \<and> length effects < length sent
        \<longrightarrow> (\<exists>e. answer_bundle lib klib' emit sv (sent ! length effects) = Inl e) \<or> (\<exists>o'. Dispatch o' \<in> set effects \<and> \<not> takes o')"
    using send_answers_stop [of lib klib' emit sv takes sent] by (simp add: effects)
  have first: "\<exists>o' b p. hd effects = Dispatch o' \<and> bl_parse lib o' = Inr b \<and> bl_payload lib b = Some p
          \<and> response_from_cbor clib (items_of p) = Inr (\<lparr>bp_experiment_tag = Some 44444, bp_version = 1,
                bp_req_id = or_default (generated_id now pid) (ca_req_id args), bp_items = resps\<rparr>, True)" if "effects \<noteq> []"
  proof -
    from that obtain e es where es: "effects = e # es" by (cases effects) auto
    from carried [unfolded es sent] obtain o' b' where o: "e = Dispatch o'" "bl_parse lib o' = Inr b'"
      "bl_payload lib b' = Some (emit (with_tag 44444 (response_to_cbor \<lparr>bp_experiment_tag = Some 44444, bp_version = 1,
                bp_req_id = or_default (generated_id now pid) (ca_req_id args), bp_items = resps\<rparr>)))"
      by auto
    then show ?thesis using basket_response_roundtrip [OF assms(1)] message_read_back(2) [OF assms(3)] by (simp add: es)
  qed
  show ?thesis using items built sent announced answers carried stops first by blast
qed

text \<open>An encoding of items as octets, for the witness: items are countable.\<close>

instance decode_error :: countable
  by countable_datatype

instance cbor_item :: countable
  by countable_datatype

definition demo_emit :: "cbor_item \<Rightarrow> bytes" where
  "demo_emit x = replicate (to_nat x) 0"

definition demo_items :: "bytes \<Rightarrow> cbor_item" where
  "demo_items d = from_nat (length d)"

lemma demo_items_emit: "demo_items (demo_emit x) = x"
  by (simp add: demo_items_def demo_emit_def)

lemma demo_read_back: "items_read_back demo_emit demo_items"
  by (simp add: items_read_back_def demo_items_emit)

definition demo_eids :: "string eid_lib" where
  "demo_eids = \<lparr>el_dtn = (\<lambda>n s. ''dtn://'' @ n @ ''/'' @ s), el_ipn = (\<lambda>n k. ''ipn:'' @ n)\<rparr>"

definition demo_args :: client_args where
  "demo_args = \<lparr>ca_sender = ''dtn://c/s'', ca_receiver = ''dtn://r/b'', ca_req_id = Some ''q'', ca_reply_to = None, ca_default_lifetime = 60,
     ca_experiment_tag = None, ca_lifetime = 60, ca_gets = [''urn:a''], ca_searches = [], ca_lists = [], ca_request_file = None,
     ca_sign_key = None, ca_sign_key_file = None, ca_security_source = None\<rparr>"

definition demo_service :: basket_service where
  "demo_service = \<lparr>sv_local_eid = Some ''dtn://r/b'', sv_has_sink = True, sv_config = sample_config, sv_keystore = [], sv_policy = Ignore,
     sv_sign_key = None, sv_sign_key_file = None, sv_security_source = None\<rparr>"

definition demo_request :: bytes where
  "demo_request = 0 # demo_emit (with_tag 44444 (request_to_cbor (client_request demo_lib demo_eids None demo_args 0 0 [inline_item 0 ''urn:a''])))"

lemma client_request_served_witness:
  "\<exists>o' b p resps. hd (fst (basket_deliver sample_host sample_lib demo_lib no_keys demo_emit demo_items demo_service sample_env 0 (\<lambda>_. True)
          demo_request \<lparr>ta_active = [], ta_cancelled = []\<rparr>)) = Dispatch o'
      \<and> bl_parse demo_lib o' = Inr b \<and> bl_payload demo_lib b = Some p
      \<and> response_from_cbor sample_lib (demo_items p) = Inr (\<lparr>bp_experiment_tag = Some 44444, bp_version = 1, bp_req_id = ''q'', bp_items = resps\<rparr>, True)"
proof -
  let ?run = "basket_deliver sample_host sample_lib demo_lib no_keys demo_emit demo_items demo_service sample_env 0 (\<lambda>_. True)
          demo_request \<lparr>ta_active = [], ta_cancelled = []\<rparr>"
  obtain effects t' where run: "?run = (effects, t')" by (cases ?run)
  have sent: "Dispatch demo_request \<in> set (fst (basket_client demo_lib no_keys demo_eids demo_emit (\<lambda>_. None) demo_args [] 0 0 True True))"
    by (simp add: basket_client_def gather_items_def demo_args_def demo_request_def)
      (simp add: demo_lib_def build_signed_def maybe_sign_bundle_def dispatch_bundle_def demo_args_def)
  have reply: "client_reply_to demo_lib demo_eids (case [] of [] \<Rightarrow> None | n # _ \<Rightarrow> Some n) demo_args = Some ''dtn://c/s''"
    by (simp add: client_reply_to_def client_source_def relative_eid_def demo_args_def demo_lib_def or_default_def)
      (simp add: normalize_eid_def trim_def trim_start_def trim_end_def is_space_def strip_prefix_def)
  have eid: "bl_parse_eid demo_lib ''dtn://c/s'' = Some ''dtn://c/s''" by (simp add: demo_lib_def)
  have accepted: "policy_accepts demo_lib (sv_policy demo_service) (sv_keystore demo_service) demo_request"
    by (simp add: policy_accepts_def demo_service_def)
  from client_request_served [OF sample_lib_reads demo_lib_laws(2) demo_read_back sent reply eid accepted run]
  obtain resps where *: "effects \<noteq> [] \<longrightarrow> (\<exists>o' b p. hd effects = Dispatch o' \<and> bl_parse demo_lib o' = Inr b \<and> bl_payload demo_lib b = Some p
          \<and> response_from_cbor sample_lib (demo_items p) = Inr (\<lparr>bp_experiment_tag = Some 44444, bp_version = 1,
                bp_req_id = or_default (generated_id 0 0) (ca_req_id demo_args), bp_items = resps\<rparr>, True))"
    by blast
  have source: "source_and_payload demo_lib demo_request = (''a'', tl demo_request)"
    by (simp add: source_and_payload_def demo_lib_def demo_request_def or_default_def)
  have items: "demo_items (tl demo_request) = with_tag 44444 (request_to_cbor (client_request demo_lib demo_eids None demo_args 0 0 [inline_item 0 ''urn:a'']))"
    by (simp add: demo_request_def demo_items_emit)
  obtain sent t1 where r: "process_request sample_host sample_lib (sv_config demo_service) (bl_parse_eid demo_lib) sample_env 0 ''a''
      (demo_items (tl demo_request)) \<lparr>ta_active = [], ta_cancelled = []\<rparr> = (sent, t1)" by fastforce
  have "sent \<noteq> []" using request_answers [OF sample_lib_reads r [unfolded items]] by auto
  then have "send_answers demo_lib no_keys demo_emit demo_service (\<lambda>_. True) sent \<noteq> []"
    by (cases sent) (auto simp: build_signed_def maybe_sign_bundle_def demo_lib_def demo_service_def)
  then have "effects \<noteq> []" using run by (simp add: basket_deliver_def source accepted r demo_service_def [THEN arg_cong, of sv_has_sink])
  then show ?thesis using * run by (auto simp: demo_args_def or_default_def)
qed

end
