(* ===== verification/Traffic_Stats.thy ===== *)
theory Traffic_Stats
  imports Security_Safety "HOL-Library.Multiset"
begin

text \<open>
  The traffic statistics of a node (\<^verbatim>\<open>src/bin/hdy-stats.rs\<close>): following the node's log, recording its bundles in a
  database, and answering a bundle with a report.  The table is the list of its rows; database errors,
  and the journal instead of a file, are left out.
\<close>

section \<open>Lines of the log\<close>

text \<open>\<^verbatim>\<open>s.find(p)\<close>.\<close>

fun find_text :: "string \<Rightarrow> string \<Rightarrow> nat option" where
  "find_text p [] = (if p = [] then Some 0 else None)"
| "find_text p (c # s) = (if prefix p (c # s) then Some 0 else map_option Suc (find_text p s))"

definition MARKER :: string where "MARKER = ''Bundle [''"

definition parse_bundle_log_line :: "string \<Rightarrow> (string \<times> string) option" where
  "parse_bundle_log_line line =
     (let is_recv = contains line ''received''; is_fwd = contains line ''forwarded''
      in if \<not> is_recv \<and> \<not> is_fwd then None
         else (case find_text MARKER line of
                 None \<Rightarrow> None
               | Some start_idx \<Rightarrow>
                   let id_start = start_idx + length MARKER - 1;
                       remaining = drop id_start line
                   in case find_text '']'' remaining of
                        None \<Rightarrow> None
                      | Some end_relative \<Rightarrow>
                          let id_end = id_start + end_relative + 1;
                              bundle_id = take (id_end - id_start) (drop id_start line);
                              inner = take (id_end - 1 - (id_start + 1)) (drop (id_start + 1) line)
                          in case find_text ''@'' inner of
                               None \<Rightarrow> None
                             | Some at_idx \<Rightarrow>
                                 let source_eid = trim (take at_idx inner)
                                 in if source_eid = [] then None else Some (bundle_id, source_eid)))"

text \<open>\<^verbatim>\<open>reader.lines()\<close> up to the first line that is not UTF-8: split at line feeds, a carriage return before
  them dropped, no empty last line.\<close>

fun split_feeds :: "bytes \<Rightarrow> bytes list" where
  "split_feeds [] = [[]]"
| "split_feeds (b # d) = (if b = 0x0A then [] # split_feeds d else (case split_feeds d of [] \<Rightarrow> [[b]] | l # ls \<Rightarrow> (b # l) # ls))"

definition drop_return :: "bytes \<Rightarrow> bytes" where
  "drop_return l = (if l \<noteq> [] \<and> List.last l = 0x0D then butlast l else l)"

definition raw_lines :: "bytes \<Rightarrow> bytes list" where
  "raw_lines d =
     (let ls = split_feeds d in map drop_return (butlast ls) @ (if List.last ls = [] then [] else [List.last ls]))"

definition read_lines :: "bytes \<Rightarrow> string list" where
  "read_lines d = map text_of (takeWhile utf8_valid (raw_lines d))"

section \<open>Following a file\<close>

text \<open>What a turn sees of the file: its inode and length, then its contents if it can be opened.\<close>

record file_view =
  fv_inode :: nat
  fv_len :: nat
  fv_content :: "bytes option"

record tail_state =
  ts_offset :: nat
  ts_inode :: nat

definition tail_turn :: "tail_state \<Rightarrow> file_view option \<Rightarrow> string list \<times> tail_state" where
  "tail_turn st view =
     (case view of
        None \<Rightarrow> ([], st)
      | Some v \<Rightarrow>
          let rotated = (fv_len v < ts_offset st \<or> ts_inode st \<noteq> 0 \<and> fv_inode v \<noteq> ts_inode st);
              new_offset = (if rotated then 0 else ts_offset st)
          in case (if new_offset < fv_len v then fv_content v else None) of
               Some content \<Rightarrow> (read_lines (drop new_offset content), \<lparr>ts_offset = fv_len v, ts_inode = fv_inode v\<rparr>)
             | None \<Rightarrow> ([], \<lparr>ts_offset = new_offset, ts_inode = fv_inode v\<rparr>))"

fun tail_run :: "tail_state \<Rightarrow> file_view option list \<Rightarrow> string list \<times> tail_state" where
  "tail_run st [] = ([], st)"
| "tail_run st (v # vs) =
     (let (lines, st) = tail_turn st v; (more, st) = tail_run st vs in (lines @ more, st))"

section \<open>The database\<close>

type_synonym traffic_row = "string \<times> string \<times> int"

definition record_bundle :: "string \<Rightarrow> string \<Rightarrow> int \<Rightarrow> traffic_row list \<Rightarrow> bool \<times> traffic_row list" where
  "record_bundle bundle_id source_eid received_at rows =
     (if bundle_id \<in> set (map fst rows) then (False, rows) else (True, rows @ [(bundle_id, source_eid, received_at)]))"

definition clean_old_records :: "int \<Rightarrow> traffic_row list \<Rightarrow> nat \<times> traffic_row list" where
  "clean_old_records before rows =
     (length (filter (\<lambda>r. snd (snd r) < before) rows), filter (\<lambda>r. \<not> snd (snd r) < before) rows)"

text \<open>The groups with their counts, the largest first; the order of equal counts, here that of the rows, is not relied on.\<close>

definition query_window :: "int \<Rightarrow> traffic_row list \<Rightarrow> (string \<times> nat) list" where
  "query_window since rows =
     (let eids = map (fst \<circ> snd) (filter (\<lambda>r. since \<le> snd (snd r)) rows)
      in rev (sort_key snd (map (\<lambda>e. (e, count_list eids e)) (remdups eids))))"

record stats_report =
  stats_24h :: "(string \<times> nat) list"
  stats_week :: "(string \<times> nat) list"
  stats_month :: "(string \<times> nat) list"

definition get_stats :: "int \<Rightarrow> traffic_row list \<Rightarrow> stats_report" where
  "get_stats now rows =
     \<lparr>stats_24h = query_window (now - 24 * 3600) rows, stats_week = query_window (now - 7 * 24 * 3600) rows,
      stats_month = query_window (now - 30 * 24 * 3600) rows\<rparr>"

definition feed :: string where "feed = [CHR 0x0A]"

definition window_text :: "(string \<times> nat) list \<Rightarrow> string" where
  "window_text stats =
     (if stats = [] then ''(no traffic)'' @ feed
      else concat (map (\<lambda>(eid, count). eid @ '': '' @ decimal count @ '' bundle(s)'' @ feed) stats))"

definition to_text :: "stats_report \<Rightarrow> string" where
  "to_text r =
     ''--- 24h ---'' @ feed @ window_text (stats_24h r)
     @ feed @ ''--- Week (7d) ---'' @ feed @ window_text (stats_week r)
     @ feed @ ''--- Month (30d) ---'' @ feed @ window_text (stats_month r)"

section \<open>Recording\<close>

text \<open>The retention in seconds, then the time before which rows go; both are \<open>None\<close> on overflow.\<close>

definition retention_secs :: "u64 \<Rightarrow> u64 option" where
  "retention_secs retention = (if unat retention * 86400 < 2 ^ 64 then Some (retention * 86400) else None)"

definition cutoff :: "u64 \<Rightarrow> int \<Rightarrow> int option" where
  "cutoff secs now =
     (let before = now - sint secs in if - (2 ^ 63) \<le> before \<and> before < 2 ^ 63 then Some before else None)"

text \<open>A line with the time it is recorded, and the time of the cleanup after it where 60 seconds have passed.\<close>

type_synonym log_event = "string \<times> int \<times> int option"

definition ingest_line :: "string \<Rightarrow> int \<Rightarrow> traffic_row list \<Rightarrow> traffic_row list" where
  "ingest_line line now rows =
     (case parse_bundle_log_line line of
        Some (bundle_id, source_eid) \<Rightarrow> snd (record_bundle bundle_id source_eid now rows)
      | None \<Rightarrow> rows)"

definition cleanup :: "u64 \<Rightarrow> int \<Rightarrow> traffic_row list \<Rightarrow> traffic_row list option" where
  "cleanup secs now rows = map_option (\<lambda>before. snd (clean_old_records before rows)) (cutoff secs now)"

fun ingest_events :: "u64 \<Rightarrow> log_event list \<Rightarrow> traffic_row list \<Rightarrow> traffic_row list option" where
  "ingest_events secs [] rows = Some rows"
| "ingest_events secs ((line, now, clean) # es) rows =
     (let rows = ingest_line line now rows
      in case (case clean of Some t \<Rightarrow> cleanup secs t rows | None \<Rightarrow> Some rows) of
           None \<Rightarrow> None
         | Some rows \<Rightarrow> ingest_events secs es rows)"

definition run_log_ingestion :: "u64 \<Rightarrow> int \<Rightarrow> log_event list \<Rightarrow> traffic_row list \<Rightarrow> traffic_row list option" where
  "run_log_ingestion retention now es rows =
     (case retention_secs retention of
        None \<Rightarrow> None
      | Some secs \<Rightarrow> (case cleanup secs now rows of None \<Rightarrow> None | Some rows \<Rightarrow> ingest_events secs es rows))"

section \<open>Answering\<close>

text \<open>\<open>report_to\<close> is the endpoint the bundle wants its reports sent to, \<open>endpoint\<close> that of the service.\<close>

definition stats_deliver ::
  "('b, 'v) bpv7_lib \<Rightarrow> ('b \<Rightarrow> string) \<Rightarrow> string option \<Rightarrow> bool \<Rightarrow> int \<Rightarrow> traffic_row list \<Rightarrow> bytes \<Rightarrow> effect list" where
  "stats_deliver lib report_to endpoint has_sink now rows data =
     (case bl_parse lib data of
        Inl _ \<Rightarrow> []
      | Inr parsed \<Rightarrow>
          let reply_dest = (if report_to parsed = bl_null lib then bl_source lib parsed else report_to parsed)
          in if reply_dest = bl_null lib then []
             else (case bl_build lib (or_default (bl_null lib) endpoint) reply_dest (bytes_of (to_text (get_stats now rows))) (3600 * NANOS) of
                     Inl _ \<Rightarrow> []
                   | Inr (_, binbundle) \<Rightarrow> if has_sink then [Dispatch binbundle] else []))"

section \<open>A file that grows by whole lines\<close>

lemma split_feeds_not_Nil [simp]: "split_feeds d \<noteq> []"
  by (induction d) (auto split: list.splits)

lemma split_feeds_append:
  "split_feeds (a @ 0x0A # d) = split_feeds a @ split_feeds d"
  by (induction a) (auto split: list.splits)

lemma split_feeds_last:
  "List.last (split_feeds (a @ [0x0A])) = []" "butlast (split_feeds (a @ [0x0A])) = split_feeds a"
  using split_feeds_append [of a "[]"] by simp_all

definition whole_lines :: "bytes \<Rightarrow> bool" where
  "whole_lines d \<longleftrightarrow> d = [] \<or> List.last d = 0x0A"

lemma raw_lines_append:
  assumes "whole_lines a"
  shows "raw_lines (a @ d) = raw_lines a @ raw_lines d"
proof (cases "a = []")
  case True
  then show ?thesis by (simp add: raw_lines_def)
next
  case False
  with assms obtain a' where a: "a = a' @ [0x0A]" by (metis append_butlast_last_id whole_lines_def)
  have "raw_lines a = map drop_return (split_feeds a')" by (simp add: raw_lines_def a split_feeds_last)
  moreover have "raw_lines (a @ d) = map drop_return (split_feeds a' @ butlast (split_feeds d))
      @ (if List.last (split_feeds d) = [] then [] else [List.last (split_feeds d)])"
    by (simp add: raw_lines_def a split_feeds_append butlast_append)
  ultimately show ?thesis by (simp add: raw_lines_def [of d] Let_def)
qed

definition all_text :: "bytes \<Rightarrow> bool" where
  "all_text d \<longleftrightarrow> (\<forall>l \<in> set (raw_lines d). utf8_valid l)"

lemma read_lines_append:
  assumes "whole_lines a" and "all_text a"
  shows "read_lines (a @ d) = read_lines a @ read_lines d"
proof -
  have "takeWhile utf8_valid (raw_lines a @ raw_lines d) = raw_lines a @ takeWhile utf8_valid (raw_lines d)"
    using assms(2) by (intro takeWhile_append2) (simp add: all_text_def)
  moreover have "takeWhile utf8_valid (raw_lines a) = raw_lines a"
    using assms(2) by (simp add: takeWhile_eq_all_conv all_text_def)
  ultimately show ?thesis unfolding read_lines_def raw_lines_append [OF assms(1)] by (simp only: map_append)
qed

text \<open>The file seen after each of the chunks that are appended to it.\<close>

fun growing :: "nat \<Rightarrow> bytes \<Rightarrow> bytes list \<Rightarrow> file_view option list" where
  "growing i c [] = []"
| "growing i c (chunk # chunks) =
     Some \<lparr>fv_inode = i, fv_len = length (c @ chunk), fv_content = Some (c @ chunk)\<rparr> # growing i (c @ chunk) chunks"

lemma tail_growing:
  assumes "\<forall>chunk \<in> set chunks. whole_lines chunk \<and> all_text chunk" and "st = \<lparr>ts_offset = length c, ts_inode = i\<rparr>"
  shows "fst (tail_run st (growing i c chunks)) = read_lines (concat chunks)"
  using assms
proof (induction chunks arbitrary: c st)
  case Nil
  then show ?case by (simp add: read_lines_def raw_lines_def)
next
  case (Cons chunk chunks)
  have "tail_turn st (Some \<lparr>fv_inode = i, fv_len = length (c @ chunk), fv_content = Some (c @ chunk)\<rparr>)
      = (read_lines chunk, \<lparr>ts_offset = length (c @ chunk), ts_inode = i\<rparr>)"
    using Cons.prems(2) by (cases chunk) (simp_all add: tail_turn_def read_lines_def raw_lines_def)
  then show ?case using Cons.IH [of _ "c @ chunk"] Cons.prems(1)
    by (simp add: read_lines_append case_prod_beta Let_def)
qed

lemma tail_reads_growing:
  assumes "\<forall>chunk \<in> set chunks. whole_lines chunk \<and> all_text chunk"
  shows "fst (tail_run \<lparr>ts_offset = 0, ts_inode = 0\<rparr> (growing i [] chunks)) = read_lines (concat chunks)"
proof (cases chunks)
  case Nil
  then show ?thesis by (simp add: read_lines_def raw_lines_def)
next
  case (Cons chunk rest)
  have "tail_turn \<lparr>ts_offset = 0, ts_inode = 0\<rparr> (Some \<lparr>fv_inode = i, fv_len = length chunk, fv_content = Some chunk\<rparr>)
      = (read_lines chunk, \<lparr>ts_offset = length chunk, ts_inode = i\<rparr>)"
    by (cases chunk) (simp_all add: tail_turn_def read_lines_def raw_lines_def)
  moreover have "fst (tail_run \<lparr>ts_offset = length chunk, ts_inode = i\<rparr> (growing i chunk rest)) = read_lines (concat rest)"
    using assms by (intro tail_growing) (simp_all add: Cons)
  ultimately show ?thesis using assms by (simp add: Cons read_lines_append case_prod_beta Let_def)
qed

text \<open>A new file in place of the old one, longer or shorter, is read from its beginning.\<close>

lemma rotation_restarts:
  assumes "ts_inode st \<noteq> 0" and "i \<noteq> ts_inode st" and "c \<noteq> []"
  shows "tail_turn st (Some \<lparr>fv_inode = i, fv_len = length c, fv_content = Some c\<rparr>)
    = (read_lines c, \<lparr>ts_offset = length c, ts_inode = i\<rparr>)"
  using assms by (simp add: tail_turn_def)

text \<open>A line that is only half written when a turn comes is delivered as two lines.\<close>

lemma half_line_split:
  "fst (tail_run \<lparr>ts_offset = 0, ts_inode = 0\<rparr> (growing 1 [] [[0x61], [0x62, 0x0A]])) = [''a'', ''b'']"
  by code_simp

section \<open>What a line of the log stands for\<close>

lemma find_char: "x \<notin> set a \<Longrightarrow> find_text [x] (a @ x # b) = Some (length a)"
  by (induction a) auto

lemma log_line_parsed:
  assumes "line = pre @ MARKER @ src @ ''@'' @ rest @ '']'' @ post" and "find_text MARKER line = Some (length pre)"
    and "contains line ''received'' \<or> contains line ''forwarded''"
    and "CHR '']'' \<notin> set src" "CHR ''@'' \<notin> set src" "CHR '']'' \<notin> set rest" "trim src \<noteq> []"
  shows "parse_bundle_log_line line = Some (''['' @ src @ ''@'' @ rest @ '']'', trim src)"
proof -
  let ?inner = "src @ ''@'' @ rest"
  have start: "length pre + length MARKER - 1 = length (pre @ ''Bundle '')" by (simp add: MARKER_def)
  have line: "line = (pre @ ''Bundle '') @ ''['' @ ?inner @ '']'' @ post" by (simp add: assms(1) MARKER_def)
  have rem: "drop (length (pre @ ''Bundle '')) line = ''['' @ ?inner @ '']'' @ post" unfolding line by simp
  have close: "find_text '']'' (''['' @ ?inner @ '']'' @ post) = Some (length (''['' @ ?inner))"
    using assms(4,6) find_char [of "CHR '']''" "''['' @ ?inner" post] by simp
  have at: "find_text ''@'' ?inner = Some (length src)" using find_char [OF assms(5)] by simp
  have inner: "take (length (pre @ ''Bundle '') + length (''['' @ ?inner) + 1 - 1 - (length (pre @ ''Bundle '') + 1))
      (drop (length (pre @ ''Bundle '') + 1) line) = ?inner" unfolding line by simp
  have ident': "take (length (pre @ ''Bundle '') + length (''['' @ ?inner) + 1 - length (pre @ ''Bundle ''))
      (''['' @ ?inner @ '']'' @ post) = ''['' @ ?inner @ '']''" by (simp add: numeral_3_eq_3)
  have src: "take (length src) ?inner = src" by simp
  from assms(3) have "\<not> (\<not> contains line ''received'' \<and> \<not> contains line ''forwarded'')" by blast
  then show ?thesis
    unfolding parse_bundle_log_line_def Let_def assms(2) option.case start rem close ident' inner at src
    using assms(7) by simp
qed

section \<open>The account of the traffic\<close>

definition logged :: "log_event list \<Rightarrow> string \<Rightarrow> string \<Rightarrow> int \<Rightarrow> bool" where
  "logged es i e t \<longleftrightarrow> (\<exists>line clean. (line, t, clean) \<in> set es \<and> parse_bundle_log_line line = Some (i, e))"

text \<open>The times of the cleanups of a run.\<close>

definition cleanups :: "int \<Rightarrow> log_event list \<Rightarrow> int set" where
  "cleanups now es = insert now {t. \<exists>line t'. (line, t', Some t) \<in> set es}"

lemma ingest_line_cases:
  obtains "parse_bundle_log_line line = None" "ingest_line line now rows = rows"
  | i e where "parse_bundle_log_line line = Some (i, e)" "i \<in> set (map fst rows)" "ingest_line line now rows = rows"
  | i e where "parse_bundle_log_line line = Some (i, e)" "i \<notin> set (map fst rows)" "ingest_line line now rows = rows @ [(i, e, now)]"
proof (cases "parse_bundle_log_line line")
  case None
  then show ?thesis by (intro that(1)) (simp_all add: ingest_line_def)
next
  case (Some p)
  obtain i e where p: "p = (i, e)" by (cases p)
  show ?thesis
  proof (cases "i \<in> set (map fst rows)")
    case True
    then show ?thesis using Some p by (intro that(2) [of i e]) (simp_all add: ingest_line_def record_bundle_def)
  next
    case False
    then show ?thesis using Some p by (intro that(3) [of i e]) (simp_all add: ingest_line_def record_bundle_def)
  qed
qed

lemma ingest_line_distinct: "distinct (map fst rows) \<Longrightarrow> distinct (map fst (ingest_line line now rows))"
  by (cases rule: ingest_line_cases [of line now rows]) simp_all

lemma ingest_line_from:
  "(i, e, t) \<in> set (ingest_line line now rows) \<Longrightarrow> (i, e, t) \<in> set rows \<or> t = now \<and> parse_bundle_log_line line = Some (i, e)"
  by (cases rule: ingest_line_cases [of line now rows]) auto

lemma ingest_line_keeps: "set rows \<subseteq> set (ingest_line line now rows)"
  by (cases rule: ingest_line_cases [of line now rows]) auto

lemma ingest_line_known:
  "parse_bundle_log_line line = Some (i, e) \<Longrightarrow> i \<in> fst ` set (ingest_line line now rows)"
  by (cases rule: ingest_line_cases [of line now rows]) auto

definition small :: "int \<Rightarrow> bool" where
  "small t \<longleftrightarrow> 0 \<le> t \<and> t < 2 ^ 62"

lemma power_eq_62: "(2 :: nat) ^ 62 = 4611686018427387904"
  by simp

lemma power_eq_63: "(2 :: int) ^ 63 = 9223372036854775808"
  by simp

lemma cleanup_small:
  assumes "small t" and "unat secs < 2 ^ 62"
  shows "cleanup secs t rows = Some (filter (\<lambda>r. t - int (unat secs) \<le> snd (snd r)) rows)"
proof -
  have u: "Word.uint secs = int (unat secs)" by simp
  have small_secs: "int (unat secs) < 4611686018427387904"
    using assms(2) unfolding power_eq_62 by linarith
  have secs: "sint secs = int (unat secs)"
  proof -
    have "- (2 ^ n) \<le> int (unat secs)" for n :: nat
      by (rule order_trans [of _ 0]) (simp, simp only: of_nat_0_le_iff)
    then show ?thesis unfolding sint_uint u by (rule signed_take_bit_int_eq_self) (use small_secs in simp)
  qed
  have "0 \<le> t" "t < 4611686018427387904" using assms(1) by (simp_all add: small_def)
  then have "- 9223372036854775808 \<le> t - int (unat secs)" "t - int (unat secs) < 9223372036854775808"
    using small_secs by linarith+
  then have "cutoff secs t = Some (t - int (unat secs))"
    unfolding cutoff_def Let_def secs power_eq_63 by (simp only: simp_thms if_True)
  then show ?thesis by (simp add: cleanup_def clean_old_records_def not_less)
qed

text \<open>One event: every fact of a run holds for the line and the cleanup after it.\<close>

lemma ingest_event:
  assumes "(case clean of Some t \<Rightarrow> cleanup secs t (ingest_line line now rows) | None \<Rightarrow> Some (ingest_line line now rows)) = Some rows'"
    and "unat secs < 2 ^ 62" and "\<And>t. clean = Some t \<Longrightarrow> small t"
  shows "rows' = filter (\<lambda>r. \<forall>t. clean = Some t \<longrightarrow> t - int (unat secs) \<le> snd (snd r)) (ingest_line line now rows)"
  using assms by (cases clean) (auto simp: cleanup_small)

lemma ingest_events_run:
  assumes "unat secs < 2 ^ 62" and "\<forall>(line, now, clean) \<in> set es. \<forall>t. clean = Some t \<longrightarrow> small t"
  shows "\<exists>rows'. ingest_events secs es rows = Some rows'"
  using assms(2)
proof (induction es arbitrary: rows)
  case (Cons ev es)
  obtain line now clean where ev: "ev = (line, now, clean)" by (cases ev)
  from Cons.prems show ?case using Cons.IH assms(1) by (cases clean) (auto simp: ev cleanup_small)
qed simp

lemma ingest_events_account:
  assumes "unat secs < 2 ^ 62" and "\<forall>(line, now, clean) \<in> set es. \<forall>t. clean = Some t \<longrightarrow> small t"
    and "ingest_events secs es rows = Some rows'" and "distinct (map fst rows)"
  shows "distinct (map fst rows') \<and> (\<forall>i e t. (i, e, t) \<in> set rows' \<longrightarrow> (i, e, t) \<in> set rows \<or> logged es i e t)
    \<and> (\<forall>i. (i \<in> fst ` set rows \<or> (\<exists>e t. logged es i e t))
        \<and> (\<forall>e t n line now. ((i, e, t) \<in> set rows \<or> logged es i e t) \<and> (line, now, Some n) \<in> set es \<longrightarrow> n - int (unat secs) \<le> t)
        \<longrightarrow> i \<in> fst ` set rows')"
  using assms(2-4)
proof (induction es arbitrary: rows)
  case Nil
  then show ?case by (auto simp: logged_def)
next
  case (Cons ev es)
  obtain line now clean where ev: "ev = (line, now, clean)" by (cases ev)
  let ?kept = "\<lambda>r :: traffic_row. \<forall>t. clean = Some t \<longrightarrow> t - int (unat secs) \<le> snd (snd r)"
  let ?mid = "filter ?kept (ingest_line line now rows)"
  from Cons.prems(2) obtain mid
    where mid: "(case clean of Some t \<Rightarrow> cleanup secs t (ingest_line line now rows) | None \<Rightarrow> Some (ingest_line line now rows)) = Some mid"
      and rest: "ingest_events secs es mid = Some rows'"
    by (auto simp: ev Let_def split: option.splits)
  have "mid = ?mid" using Cons.prems(1) by (intro ingest_event [OF mid assms(1)]) (auto simp: ev)
  note rest = rest [unfolded this]
  have "distinct (map fst ?mid)" using ingest_line_distinct [OF Cons.prems(3)] by (simp add: distinct_map_filter)
  have "\<forall>(line, now, clean) \<in> set es. \<forall>t. clean = Some t \<longrightarrow> small t" using Cons.prems(1) by simp
  note IH = Cons.IH [OF this rest \<open>distinct (map fst ?mid)\<close>]
  note d = IH [THEN conjunct1] and from_mid = IH [THEN conjunct2, THEN conjunct1, rule_format]
    and kept = IH [THEN conjunct2, THEN conjunct2, rule_format, OF conjI]
  have log: "logged (ev # es) i e t \<longleftrightarrow> t = now \<and> parse_bundle_log_line line = Some (i, e) \<or> logged es i e t" for i e t
    by (auto simp: logged_def ev)
  have mid_from: "(i, e, t) \<in> set rows \<or> logged (ev # es) i e t" if "(i, e, t) \<in> set ?mid" for i e t
    using ingest_line_from [of i e t line now rows] that by (auto simp: log)
  have found: "i \<in> fst ` set rows'"
    if known: "i \<in> fst ` set rows \<or> (\<exists>e t. logged (ev # es) i e t)"
      and spared: "\<And>e t n line now. (i, e, t) \<in> set rows \<or> logged (ev # es) i e t \<Longrightarrow> (line, now, Some n) \<in> set (ev # es)
          \<Longrightarrow> n - int (unat secs) \<le> t" for i
  proof (rule kept)
    show "i \<in> fst ` set ?mid \<or> (\<exists>e t. logged es i e t)"
    proof (cases "\<exists>e t. logged es i e t")
      case False
      then have "i \<in> fst ` set (ingest_line line now rows)"
      proof (cases "i \<in> fst ` set rows")
        case True
        then show ?thesis using image_mono [OF ingest_line_keeps [of rows line now], of fst] by (rule subsetD [rotated])
      next
        case f: False
        with known obtain e t where "logged (ev # es) i e t" by blast
        then have "t = now \<and> parse_bundle_log_line line = Some (i, e) \<or> logged es i e t" unfolding log .
        then have "parse_bundle_log_line line = Some (i, e)" using False by blast
        then show ?thesis by (rule ingest_line_known)
      qed
      then obtain e t where row: "(i, e, t) \<in> set (ingest_line line now rows)" by auto
      from ingest_line_from [OF this] have "(i, e, t) \<in> set rows \<or> logged (ev # es) i e t" unfolding log by blast
      then have "n - int (unat secs) \<le> t" if "clean = Some n" for n
        using spared [of e t line now n] that by (simp add: ev)
      then have "(i, e, t) \<in> set ?mid" using row by simp
      then have "i \<in> fst ` set ?mid" by (rule image_eqI [rotated]) simp
      then show ?thesis ..
    qed simp
    show "\<forall>e t n line now. ((i, e, t) \<in> set ?mid \<or> logged es i e t) \<and> (line, now, Some n) \<in> set es \<longrightarrow> n - int (unat secs) \<le> t"
    proof (intro allI impI, elim conjE)
      fix e t n line' now'
      assume h: "(i, e, t) \<in> set ?mid \<or> logged es i e t" and c: "(line', now', Some n) \<in> set es"
      from h have "(i, e, t) \<in> set rows \<or> logged (ev # es) i e t"
      proof
        assume "logged es i e t"
        then show ?thesis by (simp add: log)
      qed (rule mid_from)
      then show "n - int (unat secs) \<le> t" by (rule spared [of e t line' now' n]) (use c in simp)
    qed
  qed
  have source: "(i, e, t) \<in> set rows \<or> logged (ev # es) i e t" if "(i, e, t) \<in> set rows'" for i e t
    using from_mid [OF that]
  proof
    assume "logged es i e t"
    then show ?thesis by (simp add: log)
  qed (rule mid_from)
  show ?case
  proof (intro conjI allI impI, goal_cases)
    case 1
    show ?case by (rule d)
  next
    case (2 i e t)
    then show ?case by (rule source)
  next
    case (3 i)
    from 3 show ?case by (elim conjE) (rule found, assumption, metis)
  qed
qed

section \<open>The report\<close>

lemma window_entries:
  "set (query_window since rows) = {(e, n). n = length (filter (\<lambda>r. since \<le> snd (snd r) \<and> fst (snd r) = e) rows) \<and> 0 < n}"
proof -
  have count: "count_list (map (fst \<circ> snd) (filter (\<lambda>r. since \<le> snd (snd r)) rows)) e
      = length (filter (\<lambda>r. since \<le> snd (snd r) \<and> fst (snd r) = e) rows)" for e
    by (induction rows) auto
  have "0 < count_list xs e \<longleftrightarrow> e \<in> set xs" for xs :: "string list" and e by (induction xs) auto
  then show ?thesis unfolding query_window_def Let_def by (force simp: count [symmetric])
qed

lemma window_sorted: "sorted (rev (map snd (query_window since rows)))"
  by (simp add: query_window_def Let_def rev_map [symmetric])

lemma window_distinct: "distinct (map fst (query_window since rows))"
proof -
  have "distinct (map fst (rev (sort_key snd (map (\<lambda>e. (e, f e)) (remdups xs)))))" for f :: "string \<Rightarrow> nat" and xs
    by (simp add: rev_map [symmetric] distinct_map comp_def inj_on_def)
  then show ?thesis by (simp add: query_window_def Let_def)
qed

lemma window_total: "sum_list (map snd (query_window since rows)) = length (filter (\<lambda>r. since \<le> snd (snd r)) rows)"
proof -
  have "sum_list (map snd (rev (sort_key snd ps))) = sum_list (map snd ps)" for ps :: "(string \<times> nat) list"
    by (metis mset_map mset_rev mset_sort sum_mset_sum_list)
  moreover have "sum_list (map (count_list xs) (remdups xs)) = length xs" for xs :: "string list"
    by (simp add: sum_list_distinct_conv_sum_set sum_count_set)
  ultimately show ?thesis unfolding query_window_def Let_def by (simp add: comp_def)
qed

lemma rows_counted:
  assumes "distinct (map fst rows)"
  shows "length (filter P rows) = card (fst ` {r \<in> set rows. P r})"
proof -
  have "distinct (map fst (filter P rows))" using assms by (simp add: distinct_map_filter)
  then show ?thesis by (metis distinct_card length_map set_filter set_map)
qed

text \<open>C20: the statistics account for the log.  From any database of distinct bundles and over any lines and
  cleanups, with a retention below 2 to the 62 seconds and a sane clock, recording never fails; each bundle has one row,
  which comes from the database or from a line that names it with its source and time; and every bundle named
  is there unless a cleanup found it too old.  A window of a report then names each source once,
  the busiest first, with the number of its distinct bundles since the window's start, and no bundle of
  the window is left out of the counts.
\<close>

theorem traffic_account:
  assumes "unat retention * 86400 < 2 ^ 62" and "distinct (map fst rows)" and "\<forall>n \<in> cleanups now es. small n"
  shows "\<exists>rows'. run_log_ingestion retention now es rows = Some rows' \<and> distinct (map fst rows')
    \<and> (\<forall>i e t. (i, e, t) \<in> set rows' \<longrightarrow> (i, e, t) \<in> set rows \<or> logged es i e t)
    \<and> (\<forall>i. (i \<in> fst ` set rows \<or> (\<exists>e t. logged es i e t))
        \<and> (\<forall>e t n. ((i, e, t) \<in> set rows \<or> logged es i e t) \<and> n \<in> cleanups now es \<longrightarrow> n - int (unat retention * 86400) \<le> t)
        \<longrightarrow> i \<in> fst ` set rows')
    \<and> (\<forall>since. let report = query_window since rows' in distinct (map fst report) \<and> sorted (rev (map snd report))
        \<and> (\<forall>e n. (e, n) \<in> set report \<longleftrightarrow> n = card {i. \<exists>t. (i, e, t) \<in> set rows' \<and> since \<le> t} \<and> 0 < n)
        \<and> sum_list (map snd report) = card {i. \<exists>e t. (i, e, t) \<in> set rows' \<and> since \<le> t})"
proof -
  define secs where "secs = retention * 86400"
  have secs: "unat secs = unat retention * 86400" and fits: "unat retention * 86400 < 2 ^ 64"
    using assms(1) by (simp_all add: secs_def unat_mult_lem [THEN iffD1])
  then have bound: "unat secs < 2 ^ 62" using assms(1) by simp
  let ?kept = "\<lambda>r :: traffic_row. now - int (unat secs) \<le> snd (snd r)"
  let ?mid = "filter ?kept rows"
  have start: "cleanup secs now rows = Some ?mid"
    using assms(3) by (intro cleanup_small bound) (simp add: cleanups_def)
  have clock: "\<forall>(line, now, clean) \<in> set es. \<forall>t. clean = Some t \<longrightarrow> small t"
    using assms(3) by (auto simp: cleanups_def)
  obtain rows' where run: "ingest_events secs es ?mid = Some rows'" using ingest_events_run [OF bound clock] by blast
  then have result: "run_log_ingestion retention now es rows = Some rows'"
    using fits start by (simp add: run_log_ingestion_def retention_secs_def secs_def)
  have "distinct (map fst ?mid)" using assms(2) by (simp add: distinct_map_filter)
  note account = ingest_events_account [OF bound clock run this]
  have source: "(i, e, t) \<in> set rows \<or> logged es i e t" if "(i, e, t) \<in> set rows'" for i e t
    using account [THEN conjunct2, THEN conjunct1, rule_format, OF that] by auto
  have found: "i \<in> fst ` set rows'"
    if known: "i \<in> fst ` set rows \<or> (\<exists>e t. logged es i e t)"
      and spared: "\<forall>e t n. ((i, e, t) \<in> set rows \<or> logged es i e t) \<and> n \<in> cleanups now es \<longrightarrow> n - int (unat secs) \<le> t" for i
  proof (rule account [THEN conjunct2, THEN conjunct2, rule_format, OF conjI])
    show "i \<in> fst ` set ?mid \<or> (\<exists>e t. logged es i e t)"
    proof (cases "i \<in> fst ` set rows")
      case True
      then obtain e t where "(i, e, t) \<in> set rows" by auto
      moreover from this have "now - int (unat secs) \<le> t" using spared unfolding cleanups_def by blast
      ultimately have "i \<in> fst ` set ?mid" by (intro image_eqI [of _ fst "(i, e, t)"]) simp_all
      then show ?thesis ..
    qed (use known in blast)
    show "\<forall>e t n line now. ((i, e, t) \<in> set ?mid \<or> logged es i e t) \<and> (line, now, Some n) \<in> set es \<longrightarrow> n - int (unat secs) \<le> t"
    proof (intro allI impI, elim conjE)
      fix e t n line t'
      assume h: "(i, e, t) \<in> set ?mid \<or> logged es i e t" and c: "(line, t', Some n) \<in> set es"
      from c have "n \<in> cleanups now es" unfolding cleanups_def by blast
      moreover from h have "(i, e, t) \<in> set rows \<or> logged es i e t" unfolding set_filter by blast
      ultimately show "n - int (unat secs) \<le> t" using spared by blast
    qed
  qed
  have report: "(e, n) \<in> set (query_window since rows') \<longleftrightarrow> n = card {i. \<exists>t. (i, e, t) \<in> set rows' \<and> since \<le> t} \<and> 0 < n" for since e n
  proof -
    have "fst ` {r \<in> set rows'. since \<le> snd (snd r) \<and> fst (snd r) = e} = {i. \<exists>t. (i, e, t) \<in> set rows' \<and> since \<le> t}" by force
    then show ?thesis using account by (simp add: window_entries rows_counted)
  qed
  have sums: "sum_list (map snd (query_window since rows')) = card {i. \<exists>e t. (i, e, t) \<in> set rows' \<and> since \<le> t}" for since
  proof -
    have "fst ` {r \<in> set rows'. since \<le> snd (snd r)} = {i. \<exists>e t. (i, e, t) \<in> set rows' \<and> since \<le> t}" by force
    then show ?thesis using account by (simp add: window_total rows_counted)
  qed
  show ?thesis
    unfolding Let_def secs [symmetric]
  proof (rule exI [of _ rows'], intro conjI allI impI, goal_cases)
    case 1
    show ?case by (rule result)
  next
    case 2
    show ?case by (rule account [THEN conjunct1])
  next
    case (3 i e t)
    then show ?case by (rule source)
  next
    case (4 i)
    then show ?case by (elim conjE) (rule found)
  next
    case (5 since)
    show ?case by (rule window_distinct)
  next
    case (6 since)
    show ?case by (rule window_sorted)
  next
    case (7 since e n)
    show ?case by (rule report)
  next
    case (8 since)
    show ?case by (rule sums)
  qed
qed

definition sample_log :: "log_event list" where
  "sample_log = [(''Bundle [a@1] received'', 100, None), (''Bundle [a@1] forwarded'', 110, Some 120), (''up'', 120, None),
     (''Bundle [b@1] received'', 130, None), (''Bundle [a@2] received'', 150, Some 200)]"

lemma sample_lines:
  "parse_bundle_log_line ''Bundle [a@1] received'' = Some (''[a@1]'', ''a'')"
  "parse_bundle_log_line ''Bundle [a@1] forwarded'' = Some (''[a@1]'', ''a'')"
  "parse_bundle_log_line ''up'' = None"
  "parse_bundle_log_line ''Bundle [b@1] received'' = Some (''[b@1]'', ''b'')"
  "parse_bundle_log_line ''Bundle [a@2] received'' = Some (''[a@2]'', ''a'')"
  by (simp_all add: parse_bundle_log_line_def Let_def contains.simps MARKER_def trim_def trim_start_def trim_end_def is_space_def)

lemma traffic_account_witness:
  "\<exists>rows'. run_log_ingestion 60 90 sample_log [] = Some rows' \<and> distinct (map fst rows')
    \<and> query_window 0 rows' = [(''a'', 2), (''b'', 1)]"
proof -
  have a: "unat (60 :: u64) * 86400 < 2 ^ 62" and b: "\<forall>n \<in> cleanups 90 sample_log. small n"
    by (auto simp: cleanups_def sample_log_def small_def)
  have d: "distinct (map fst ([] :: traffic_row list))" by simp
  from traffic_account [OF a d b]
  obtain rows' where rows': "run_log_ingestion 60 90 sample_log [] = Some rows'" "distinct (map fst rows')"
    by (elim exE conjE) (rule that)
  have "run_log_ingestion 60 90 sample_log [] = Some [(''[a@1]'', ''a'', 100), (''[b@1]'', ''b'', 130), (''[a@2]'', ''a'', 150)]"
    by (simp add: run_log_ingestion_def retention_secs_def sample_log_def ingest_line_def sample_lines record_bundle_def
        cleanup_small small_def Let_def)
  moreover have "query_window 0 [(''[a@1]'', ''a'', 100), (''[b@1]'', ''b'', 130), (''[a@2]'', ''a'', 150)] = [(''a'', 2), (''b'', 1)]"
    by code_simp
  ultimately show ?thesis using rows' by simp
qed

end
