(* ===== verification/Spec2Isabelle.thy ===== *)
theory Spec2Isabelle
  imports Delivery Driver_Safety Basket_Service Hqfbp_Session Cron_Parse Coordinator Internal_Services Routing_Safety Key_Formats Ping_Safety Hqfbp_Safety Hqfbp_Cla Mercury_Safety Contacts Basket_Exchange Traffic_Stats
begin

text \<open>
  A verification library for the delay-tolerant networking tools of this repository: the Licklider
  Transmission Protocol (LTP) and its adapter to a bundle node, the basket service, the HQFBP
  receiver and the station services of \<^verbatim>\<open>dtn-hdy-ham\<close>.  It is written for a reader who has the
  sources beside it; every definition that models code carries the name the code uses, where Isabelle allows it.

  \<^bold>\<open>How the program fits together.\<close>  Bundles arrive at a convergence layer adapter
  (\<^verbatim>\<open>ltp-cla\<close>, \<^verbatim>\<open>hqfbp-cla\<close>, \<^verbatim>\<open>mercury-cla\<close>), which hands them to the bundle node (a library), and the node
  delivers them to services such as the basket responder.  The LTP adapter's driver is a loop over a
  UDP socket or a KISS stream, a timer table and the commands of the node; it owns one LTP engine.
  The engine is a state machine without input or output of its own: requests, datagrams and
  ticks go in, queues of segments, timer actions and notices come out, and the driver empties them.

  \<^bold>\<open>Theories.\<close>
  \<^item> \<open>Prelude\<close>, \<open>Strings\<close>, \<open>Ordered_Map\<close>: machine integers with the standard library's saturating and
    checked arithmetic, slices, strings, ordered maps and sets with the interfaces (locales) \<open>key_store\<close>
    and its relatives that the other theories reason with.
  \<^item> \<open>Sdnv\<close>, \<open>Ltp_Types\<close>, \<open>Segment\<close>, \<open>Segment_Parse\<close> (\<^verbatim>\<open>ltp/src/sdnv.rs\<close>, \<^verbatim>\<open>types.rs\<close>, \<^verbatim>\<open>segment/\<close>): the wire
    format.  Round trips of numbers and of every kind of segment, exact lengths, what the parser accepts.
  \<^item> \<open>Range_Set\<close>, \<open>Timer\<close>, \<open>Session\<close> (\<^verbatim>\<open>ltp/src/range.rs\<close>, \<^verbatim>\<open>engine/timer.rs\<close>, \<^verbatim>\<open>engine/session.rs\<close>): coalesced ranges,
    the timer table and the reassembly of a block, each with its invariant and an abstract
    specification (sets of octets, a function from timers to deadlines, the octets of the block) it refines.
  \<^item> \<open>Engine\<close>, \<open>Engine_Recv\<close>, \<open>Engine_Send\<close>, \<open>Engine_Dispatch\<close> (\<^verbatim>\<open>ltp/src/engine/mod.rs\<close>, \<^verbatim>\<open>config.rs\<close>): the record
    \<open>engine\<close> has a field for each field of \<^verbatim>\<open>Engine\<close>, and each handler is a function on it, \<open>None\<close> where the
    code would panic.  \<open>Transmission\<close> and \<open>Retransmission\<close> show which segments a request and a report
    cause; \<open>Engine_Safety\<close> and \<open>Engine_Run\<close> the invariant \<open>engine_ok\<close>, that no sequence of events panics,
    and the bounds on tables, logs and buffers; \<open>Engine_Frame\<close> the locale that lifts a property of the
    elementary updates through all handlers; \<open>Delivery\<close> that what is delivered is what was sent.
  \<^item> \<open>Kiss\<close>, \<open>Ltp_Config\<close>, \<open>Ltp_Driver\<close>, \<open>Driver_Properties\<close>, \<open>Driver_Safety\<close> (\<^verbatim>\<open>ltp/src/kiss.rs\<close>, \<^verbatim>\<open>ltp-cla/src/config.rs\<close>,
    \<^verbatim>\<open>driver.rs\<close>): KISS framing and resynchronisation, the driver's turns for both transports as functions
    from events to effects, and the locale \<open>event_loop\<close>, interpreted for both, for the properties of all runs.
  \<^item> \<open>Basket\<close>, \<open>Basket_Fetch\<close>, \<open>Basket_Service\<close> (\<^verbatim>\<open>src/basket.rs\<close>, \<^verbatim>\<open>src/bin/dtnbasket.rs\<close>): the messages and their
    CBOR form, what fetching a resource may touch (the list of accesses, each with its moment, is part of every
    result), and the responder's answer to a request.
  \<^item> \<open>Hqfbp_Encoding\<close>, \<open>Hqfbp_Driver\<close>, \<open>Hqfbp_Safety\<close>, \<open>Hqfbp_Cla\<close> (\<^verbatim>\<open>hqfbp-cla/src/encoding.rs\<close>, \<^verbatim>\<open>address.rs\<close>,
    \<^verbatim>\<open>config.rs\<close>, \<^verbatim>\<open>driver.rs\<close>, \<^verbatim>\<open>cla.rs\<close>): lists of encodings, the driver's loops for its three transports with
    the locale \<open>forward_loop\<close> for all runs, and the adapter's tables against the driver's.
  \<^item> \<open>Hqfbp_Session\<close> (\<^verbatim>\<open>hqfbp-cla/src/session.rs\<close>): the receiver's table of senders, memory accounting,
    eviction and duplicate suppression, as operations on the record \<open>rx_manager\<close>.
  \<^item> \<open>Mercury\<close>, \<open>Mercury_Safety\<close>, \<open>Contacts\<close> (\<^verbatim>\<open>mercury-cla/src\<close>, \<^verbatim>\<open>dtn-hdy-ham/src/cla_manager.rs\<close>,
    \<^verbatim>\<open>coordinator/endpoint.rs\<close>): the modem's two streams, the session state machine with every request accounted for,
    and the endpoints that open contacts.
  \<^item> \<open>Cron\<close>, \<open>Cron_Parse\<close>, \<open>Cron_Next\<close>, \<open>Gregorian\<close>, \<open>Cron_Schedule\<close>, \<open>Coordinator\<close>
    (\<^verbatim>\<open>dtn-hdy-ham/src/coordinator/\<close>): cron expressions from text to bit sets, the search for their next
    time, at or after a given one where the code keeps that promise, and the task that opens and closes scheduled contacts.
  \<^item> \<open>Internal_Storage\<close>, \<open>Storage_Safety\<close>, \<open>Endpoint_Names\<close> (\<^verbatim>\<open>dtn-hdy-ham/src/internal_storage.rs\<close>): the
    store of the chat and files services as the rows of its tables, what its operations keep, the
    reaper, and the normal forms of the usual spellings of endpoint names.
  \<^item> \<open>Service_Tracker\<close>, \<open>Internal_Services\<close> (\<^verbatim>\<open>service_tracker.rs\<close>, \<^verbatim>\<open>chat_service.rs\<close>,
    \<^verbatim>\<open>files_service.rs\<close>): the list of registered services, and what a delivered bundle becomes.
  \<^item> \<open>Utf8\<close>, \<open>Bundle_Inspector\<close>, \<open>Inspector_Safety\<close> (\<^verbatim>\<open>bundle_inspector.rs\<close>): payload types, hex dumps, and
    the operations on the agent's stored bundles.
  \<^item> \<open>Routing\<close>, \<open>Routing_Safety\<close> (\<^verbatim>\<open>dtn-hdy-ham/src/routing.rs\<close>): the static routes, the entries they
    have in the agent's routing table, and which of them may be missing there.
  \<^item> \<open>Security\<close>, \<open>Receivers\<close>, \<open>Security_Safety\<close>, \<open>Key_Formats\<close> (\<^verbatim>\<open>src/security.rs\<close>, \<^verbatim>\<open>src/lib.rs\<close> and the
    programs of \<^verbatim>\<open>src/bin\<close> that receive bundles): keys, verification, and what a delivery may do.
  \<^item> \<open>Bibe\<close> (\<^verbatim>\<open>src/bin/dtnbib.rs\<close>): the service that takes bundles out of their outer ones, that it
    undoes what the forwarder does, and exactly what is kept of a bundle whose destination is rewritten.
  \<^item> \<open>Sending\<close>, \<open>Basket_Exchange\<close> (\<^verbatim>\<open>src/bin/dtnsend.rs\<close>, \<^verbatim>\<open>dtnbasket-cli.rs\<close>, \<^verbatim>\<open>dtnbasket.rs\<close>): what is sent, and a
    basket request from the command line through the responder back to its reader.
  \<^item> \<open>Traffic_Stats\<close> (\<^verbatim>\<open>src/bin/hdy-stats.rs\<close>): following the node's log, the table of bundles, the report.
  \<^item> \<open>Ping\<close>, \<open>Ping_Safety\<close> (\<^verbatim>\<open>src/bin/dtnping.rs\<close>): the payload of a ping, and the account of what was sent and answered.

  \<^bold>\<open>Conventions.\<close>  A \<^verbatim>\<open>Result\<close> is a sum with the error on the left, an \<^verbatim>\<open>Option\<close> an option; a further
  option, or a constructor of its own, stands for a panic.  Machine integers are words of their width where
  the code computes with them, and \<^verbatim>\<open>usize\<close> has 64 bits.  Overflow checks are taken to be on where the code
  adds without saturation, with these exceptions: the expiry of a delivered bundle and the octet count of a red
  block (\<open>insert_red\<close>) wrap around, the latter out of reach for every block limit but \<^verbatim>\<open>u64::MAX\<close>, which the
  theorems on panics exclude, and the octet count of a green block (\<open>gr_received_bytes\<close>) is a natural number.
  Strings are lists of characters that stand for valid UTF-8, and case and whitespace are those of ASCII.  A hash map is an association list whose order is not relied on.  The clock is an argument.
  Library code is a parameter with its documented behaviour as a named hypothesis (\<^verbatim>\<open>memchr\<close>, the CBOR
  library, HTTP, name resolution, files, the deframer, \<^verbatim>\<open>time\<close>, the node's sink), and each
  such hypothesis is met by a concrete instance in a witness.  What the world answers while a resource is fetched may differ from one moment
  to the next: in \<open>Basket_Fetch\<close> name resolution, canonical paths, files and servers are functions of a
  moment that moves on with every step, so a check and the access it guards see different moments.  Elsewhere
  a file system is a map from paths to octets, without symbolic links.

  \<^bold>\<open>Interleaving.\<close>  A handler is one step where it holds its lock or is the only task on its state.  Calls of the adapters
  (\<open>Hqfbp_Cla\<close>: a table is changed and the command queued in one step) and of the route manager's additions and
  deletions are taken one after another; registering the route manager, which holds no lock while it pushes its
  list, is two steps.

  \<^bold>\<open>Bounds and termination.\<close>  Loops are structural recursions or functions with a measure: the rest of the
  input for the codecs, the octets still to be sent for segmentation, the entries left for the
  timer and session tables, the multiset of pending directories for the search, the length of the
  eviction order for making room.  Three loops may run forever for a misbehaving library, the searches
  of a cron expression and the depth of nested bundles; they are partial functions, and the theorems on
  the search for the next time and on the forwarder include that they return.
  Hypotheses such as \<open>length block < 2 ^ 63\<close> are Rust's bound on the size of a buffer.

  \<^bold>\<open>Not modelled.\<close>  Sockets, serial ports, TLS, gRPC, HTTP servers and the command lines, beyond the outcomes
  they give; logging; the internals of third-party libraries; wall-clock time beyond its readings.  What only
  wires the modelled parts together or shows them has no definitions here: \<^verbatim>\<open>dtnquery\<close> in
  \<^verbatim>\<open>src/bin\<close>, and \<^verbatim>\<open>main.rs\<close>, \<^verbatim>\<open>server.rs\<close>, \<^verbatim>\<open>wizard.rs\<close>, \<^verbatim>\<open>web\<close> and the
  structures of \<^verbatim>\<open>config\<close> in \<^verbatim>\<open>dtn-hdy-ham\<close>.  Of the programs that are modelled, registering with the node
  and printing are left out.
\<close>

end
